(* ===== verification/Prelude.thy ===== *)
theory Prelude
  imports Main "HOL-Library.Char_ord" "HOL-Library.Signed_Division" "HOL-Library.Multiset"
    "HOL-Library.Code_Target_Numeral"
begin

text \<open>
  What every theory of the development shares: the machine integers of the Rust sources as
  integers with their ranges and their wrap-around written out, bytes as HOL's 8-bit \<open>char\<close>,
  the C-string style reads of the ported programs, and generic list facts.

  Conventions.  A Rust \<open>i32\<close> is an \<open>int\<close>; a \<open>wrapping_*\<close> operation, an \<open>as i32\<close> cast and the
  plain arithmetic of a release build (which wraps) go through \<open>wrap_i32\<close>; \<open>saturating_*\<close> and
  \<open>clamp\<close> go through \<open>clamp_int\<close>.  Rust's \<open>/\<close> and \<open>%\<close> on signed integers truncate towards zero:
  they are \<open>sdiv\<close> and \<open>smod\<close>.  A \<open>usize\<close> is a \<open>nat\<close>, a \<open>u8\<close> is a \<open>char\<close>.
\<close>

named_theorems i32_simps \<open>unfolding the 32-bit range predicates and conversions\<close>

type_synonym u8 = char
type_synonym bytes = "char list"

subsection \<open>Signed machine integers\<close>

definition i32_min :: int where "i32_min = - 2147483648"
definition i32_max :: int where "i32_max = 2147483647"

definition is_i32 :: "int \<Rightarrow> bool" where
  "is_i32 x \<longleftrightarrow> i32_min \<le> x \<and> x \<le> i32_max"

definition wrap_i32 :: "int \<Rightarrow> int" where
  "wrap_i32 x = (x + 2147483648) mod 4294967296 - 2147483648"

definition wrap_i64 :: "int \<Rightarrow> int" where
  "wrap_i64 x = (x + 9223372036854775808) mod 18446744073709551616 - 9223372036854775808"

definition clamp_int :: "int \<Rightarrow> int \<Rightarrow> int \<Rightarrow> int" where
  "clamp_int lo hi x = (if x < lo then lo else if hi < x then hi else x)"

lemma i32_bounds [i32_simps]: "is_i32 x \<longleftrightarrow> - 2147483648 \<le> x \<and> x \<le> 2147483647"
  by (simp add: is_i32_def i32_min_def i32_max_def)

lemma wrap_i32_id [simp]: "is_i32 x \<Longrightarrow> wrap_i32 x = x"
  by (simp add: wrap_i32_def i32_bounds mod_pos_pos_trivial)

lemma wrap_i64_id [simp]:
  "- 9223372036854775808 \<le> x \<Longrightarrow> x \<le> 9223372036854775807 \<Longrightarrow> wrap_i64 x = x"
  by (simp add: wrap_i64_def mod_pos_pos_trivial)

lemma is_i32_wrap [simp, intro]: "is_i32 (wrap_i32 x)"
proof -
  have "0 \<le> (x + 2147483648) mod 4294967296" "(x + 2147483648) mod 4294967296 < 4294967296"
    by simp_all
  then show ?thesis by (simp add: wrap_i32_def i32_bounds)
qed

lemma wrap_i32_idem [simp]: "wrap_i32 (wrap_i32 x) = wrap_i32 x"
  by simp

lemma wrap_i32_zero:
  assumes "wrap_i32 d = 0" "- 4294967296 < d" "d < 4294967296"
  shows "d = 0"
proof -
  define q m where "q = (d + 2147483648) div 4294967296" and "m = (d + 2147483648) mod 4294967296"
  have "4294967296 * q + m = d + 2147483648" unfolding q_def m_def by (rule mult_div_mod_eq)
  moreover have "m - 2147483648 = 0" using assms(1) unfolding wrap_i32_def m_def .
  ultimately have "d = 4294967296 * q" by algebra
  moreover from this have "q = 0" using assms(2,3) by linarith
  ultimately show ?thesis by simp
qed

lemma clamp_int_bounds: "lo \<le> hi \<Longrightarrow> lo \<le> clamp_int lo hi x \<and> clamp_int lo hi x \<le> hi"
  by (simp add: clamp_int_def)

lemma clamp_int_id [simp]: "lo \<le> x \<Longrightarrow> x \<le> hi \<Longrightarrow> clamp_int lo hi x = x"
  by (simp add: clamp_int_def)

subsection \<open>Truncating division\<close>

lemma sdiv_nonneg: "0 \<le> a \<Longrightarrow> 0 < b \<Longrightarrow> a sdiv b = a div (b::int)"
  by (simp add: signed_divide_int_def sgn_if)

lemma sdiv_neg: "a < 0 \<Longrightarrow> 0 < b \<Longrightarrow> a sdiv b = - ((- a) div (b::int))"
  by (simp add: signed_divide_int_def sgn_if)

lemma sdiv_uminus_left [simp]: "(- a) sdiv b = - (a sdiv (b::int))"
  by (simp add: signed_divide_int_def)

lemma half_up_nearest:
  fixes a b :: int
  assumes "0 < b" "even b"
  shows "2 * \<bar>b * ((a + b div 2) div b) - a\<bar> \<le> b"
proof -
  obtain h where h: "b = 2 * h" using assms(2) by (auto elim: evenE)
  define p where "p = b * ((a + h) div b)"
  define m where "m = (a + h) mod b"
  have "p + m = a + h" by (simp add: p_def m_def)
  moreover have "0 \<le> m" "m < b" using assms by (simp_all add: m_def)
  ultimately have "2 * \<bar>p - a\<bar> \<le> b" using h by arith
  then show ?thesis by (simp add: p_def h)
qed

lemma div_less_int:
  assumes "0 < b" "a < c * (b::int)"
  shows "a div b < c"
proof (rule ccontr)
  assume "\<not> a div b < c"
  then have "c * b \<le> a div b * b" using assms(1) by (intro mult_right_mono) simp_all
  also have "\<dots> = a - a mod b" by (simp add: minus_mod_eq_div_mult)
  also have "\<dots> \<le> a" using assms(1) by simp
  finally show False using assms(2) by simp
qed

subsection \<open>Reads that see zero past the end\<close>

definition byte_at :: "bytes \<Rightarrow> nat \<Rightarrow> u8" where
  "byte_at text i = (if i < length text then text ! i else CHR 0x00)"

lemma byte_at_lt [simp]: "i < length text \<Longrightarrow> byte_at text i = text ! i"
  by (simp add: byte_at_def)

lemma byte_at_ge [simp]: "length text \<le> i \<Longrightarrow> byte_at text i = CHR 0x00"
  by (simp add: byte_at_def)

definition starts_with :: "bytes \<Rightarrow> bytes \<Rightarrow> bool" where
  "starts_with text p \<longleftrightarrow> take (length p) text = p"

subsection \<open>ASCII classes of bytes\<close>

definition byte_val :: "u8 \<Rightarrow> int" where
  "byte_val c = of_char c"

definition is_ascii_digit :: "u8 \<Rightarrow> bool" where
  "is_ascii_digit c \<longleftrightarrow> CHR ''0'' \<le> c \<and> c \<le> CHR ''9''"

definition is_ascii_lowercase :: "u8 \<Rightarrow> bool" where
  "is_ascii_lowercase c \<longleftrightarrow> CHR ''a'' \<le> c \<and> c \<le> CHR ''z''"

definition is_ascii_uppercase :: "u8 \<Rightarrow> bool" where
  "is_ascii_uppercase c \<longleftrightarrow> CHR ''A'' \<le> c \<and> c \<le> CHR ''Z''"

definition is_ascii_whitespace :: "u8 \<Rightarrow> bool" where
  "is_ascii_whitespace c \<longleftrightarrow>
     c = CHR '' '' \<or> c = CHR 0x09 \<or> c = CHR 0x0A \<or> c = CHR 0x0C \<or> c = CHR 0x0D"

definition is_ascii_alphabetic :: "u8 \<Rightarrow> bool" where
  "is_ascii_alphabetic c \<longleftrightarrow> is_ascii_lowercase c \<or> is_ascii_uppercase c"

definition to_ascii_lowercase :: "u8 \<Rightarrow> u8" where
  "to_ascii_lowercase c = (if is_ascii_uppercase c then char_of ((of_char c :: nat) + 32) else c)"

definition to_ascii_uppercase :: "u8 \<Rightarrow> u8" where
  "to_ascii_uppercase c = (if is_ascii_lowercase c then char_of ((of_char c :: nat) - 32) else c)"

lemma byte_val_nat: "byte_val c = int (of_char c :: nat)"
  by (simp add: byte_val_def of_nat_of_char)

lemma byte_val_bounds: "0 \<le> byte_val c \<and> byte_val c \<le> 255"
proof -
  have "byte_val c = int (of_char c :: nat)" by (simp add: byte_val_def of_nat_of_char)
  then show ?thesis using nat_of_char_less_256 [of c] by linarith
qed

lemma byte_val_inject [simp]: "byte_val a = byte_val b \<longleftrightarrow> a = b"
  by (simp add: byte_val_def)

subsection \<open>Decimal numbers\<close>

fun dec_nat :: "nat \<Rightarrow> bytes" where
  "dec_nat n = (if n < 10 then [char_of (48 + n)] else dec_nat (n div 10) @ [char_of (48 + n mod 10)])"

declare dec_nat.simps [simp del]

definition dec_int :: "int \<Rightarrow> bytes" where
  "dec_int i = (if i < 0 then CHR ''-'' # dec_nat (nat (- i)) else dec_nat (nat i))"

end
