(* ===== verification/Hyphen.thy ===== *)
theory Hyphen
  imports Prelude "HOL-Library.Monad_Syntax"
begin

text \<open>
  \<open>crates/tex-core/src/hyphen.rs\<close>: Liang's hyphenation patterns in a linked trie, exception words,
  the hyphen-file loader and XeTeX's variant of the trie.

  The trie keeps its nodes and its pattern values in two vectors and links them by index, with
  \<open>NO_LINK\<close> for "none".  A link out of range panics and a cyclic chain never ends; both are the
  value \<open>None\<close> of the operations below.  Chains are followed with as much fuel as the vector has
  elements, plus one for the \<open>NO_LINK\<close> test, so that running out of fuel is exactly a cycle.
\<close>

subsection \<open>The trie\<close>

(* @src crates/tex-core/src/hyphen.rs const NO_LINK *)
definition NO_LINK :: nat where "NO_LINK = 4294967295"

(* @src crates/tex-core/src/hyphen.rs struct TrieNode *)
record trie_node =
  nd_byte :: u8
  nd_child :: nat
  nd_sibling :: nat
  nd_value :: nat

(* @src crates/tex-core/src/hyphen.rs struct TrieValue *)
record trie_value =
  tv_pos :: nat
  tv_value :: nat
  tv_next :: nat

(* @src crates/tex-core/src/hyphen.rs struct Trie *)
record trie =
  nodes :: "trie_node list"
  vals :: "trie_value list"
  root :: "u8 \<Rightarrow> nat"
  exceptions :: "bytes \<rightharpoonup> nat list"

definition u32_of :: "nat \<Rightarrow> nat" where "u32_of n = n mod 4294967296"

text \<open>\<open>from_parts\<close>: the root's children are indexed by byte; the first of a byte wins.\<close>

(* @src crates/tex-core/src/hyphen.rs:65-73 from_parts *)
fun index_root :: "nat \<Rightarrow> trie_node list \<Rightarrow> nat \<Rightarrow> (u8 \<Rightarrow> nat) \<Rightarrow> (u8 \<Rightarrow> nat) option" where
  "index_root 0 ns c r = None"
| "index_root (Suc fuel) ns c r =
     (if c = NO_LINK then Some r
      else if length ns \<le> c then None
      else
        let nd = ns ! c
        in index_root fuel ns (nd_sibling nd)
             (if r (nd_byte nd) = NO_LINK then r(nd_byte nd := c) else r))"

(* @src crates/tex-core/src/hyphen.rs fn from_parts *)
definition from_parts :: "trie_node list \<Rightarrow> trie_value list \<Rightarrow> (bytes \<rightharpoonup> nat list) \<Rightarrow> trie option" where
  "from_parts ns vs ex =
     (case ns of [] \<Rightarrow> None
      | n0 # _ \<Rightarrow> do {
          r \<leftarrow> index_root (Suc (length ns)) ns (nd_child n0) (\<lambda>_. NO_LINK);
          Some \<lparr>nodes = ns, vals = vs, root = r, exceptions = ex\<rparr>
        })"

(* @src crates/tex-core/src/hyphen.rs impl Trie fn new *)
definition trie_new :: "trie option" where
  "trie_new = from_parts
     [\<lparr>nd_byte = CHR 0x00, nd_child = NO_LINK, nd_sibling = NO_LINK, nd_value = NO_LINK\<rparr>] [] Map.empty"

(* @src crates/tex-core/src/hyphen.rs:92-100 child *)
fun find_sibling :: "nat \<Rightarrow> trie_node list \<Rightarrow> nat \<Rightarrow> u8 \<Rightarrow> nat option option" where
  "find_sibling 0 ns c b = None"
| "find_sibling (Suc fuel) ns c b =
     (if c = NO_LINK then Some None
      else if length ns \<le> c then None
      else if nd_byte (ns ! c) = b then Some (Some c)
      else find_sibling fuel ns (nd_sibling (ns ! c)) b)"

(* @src crates/tex-core/src/hyphen.rs fn child *)
definition child :: "trie \<Rightarrow> nat \<Rightarrow> u8 \<Rightarrow> nat option option" where
  "child t node b =
     (if node = 0 then
        (let c = root t b in Some (if c \<noteq> NO_LINK then Some c else None))
      else if length (nodes t) \<le> node then None
      else find_sibling (Suc (length (nodes t))) (nodes t) (nd_child (nodes t ! node)) b)"

text \<open>The step of \<open>insert\<close>'s first loop: the child for \<open>b\<close>, made when it is missing.\<close>

(* @src crates/tex-core/src/hyphen.rs:108-125 insert *)
definition child_or_new :: "trie \<Rightarrow> nat \<Rightarrow> u8 \<Rightarrow> (nat \<times> trie) option" where
  "child_or_new t node b = do {
     c \<leftarrow> child t node b;
     (case c of
        Some next \<Rightarrow> Some (next, t)
      | None \<Rightarrow>
          (if length (nodes t) \<le> node then None
           else
             let next = u32_of (length (nodes t));
                 parent = nodes t ! node;
                 ns = (nodes t)[node := parent\<lparr>nd_child := next\<rparr>]
                   @ [\<lparr>nd_byte = b, nd_child = NO_LINK, nd_sibling = nd_child parent, nd_value = NO_LINK\<rparr>];
                 r = (if node = 0 then (root t)(b := next) else root t)
             in Some (next, t\<lparr>nodes := ns, root := r\<rparr>)))
   }"

(* @src crates/tex-core/src/hyphen.rs:106-126 insert *)
fun descend :: "trie \<Rightarrow> nat \<Rightarrow> bytes \<Rightarrow> (nat \<times> trie) option" where
  "descend t node [] = Some (node, t)"
| "descend t node (b # bs) = do {
     (next, t') \<leftarrow> child_or_new t node b;
     descend t' next bs
   }"

(* @src crates/tex-core/src/hyphen.rs:129-132 insert *)
fun find_pos :: "nat \<Rightarrow> trie_value list \<Rightarrow> nat \<Rightarrow> nat \<Rightarrow> nat option option" where
  "find_pos 0 vs link pos = None"
| "find_pos (Suc fuel) vs link pos =
     (if link = NO_LINK then Some None
      else if length vs \<le> link then None
      else if tv_pos (vs ! link) = pos then Some (Some link)
      else find_pos fuel vs (tv_next (vs ! link)) pos)"

(* @src crates/tex-core/src/hyphen.rs:128-144 insert *)
definition put_value :: "trie \<Rightarrow> nat \<Rightarrow> nat \<times> nat \<Rightarrow> trie option" where
  "put_value t node pv =
     (let pos = u32_of (fst pv); v = snd pv in
      if length (nodes t) \<le> node then None
      else do {
        found \<leftarrow> find_pos (Suc (length (vals t))) (vals t) (nd_value (nodes t ! node)) pos;
        (case found of
           Some link \<Rightarrow>
             Some (t\<lparr>vals := (vals t)[link := (vals t ! link)\<lparr>tv_value := max (tv_value (vals t ! link)) v\<rparr>]\<rparr>)
         | None \<Rightarrow>
             let entry = \<lparr>tv_pos = pos, tv_value = v, tv_next = nd_value (nodes t ! node)\<rparr>;
                 vs = vals t @ [entry]
             in Some (t\<lparr>vals := vs,
                  nodes := (nodes t)[node := (nodes t ! node)\<lparr>nd_value := u32_of (length vs + 4294967295)\<rparr>]\<rparr>))
      })"

(* @src crates/tex-core/src/hyphen.rs:127-145 insert *)
fun put_values :: "trie \<Rightarrow> nat \<Rightarrow> (nat \<times> nat) list \<Rightarrow> trie option" where
  "put_values t node [] = Some t"
| "put_values t node (pv # pvs) = do { t' \<leftarrow> put_value t node pv; put_values t' node pvs }"

(* @src crates/tex-core/src/hyphen.rs fn insert *)
definition trie_insert :: "trie \<Rightarrow> bytes \<Rightarrow> (nat \<times> nat) list \<Rightarrow> trie option" where
  "trie_insert t key values = do {
     (node, t') \<leftarrow> descend t 0 key;
     put_values t' node values
   }"

subsection \<open>Reading patterns and exceptions\<close>

(* @src crates/tex-core/src/hyphen.rs fn hex_val *)
definition hex_val :: "u8 \<Rightarrow> nat option" where
  "hex_val b =
     (if CHR ''0'' \<le> b \<and> b \<le> CHR ''9'' then Some (of_char b - 48)
      else if CHR ''a'' \<le> b \<and> b \<le> CHR ''f'' then Some (of_char b - 97 + 10)
      else if CHR ''A'' \<le> b \<and> b \<le> CHR ''F'' then Some (of_char b - 65 + 10)
      else None)"

text \<open>The \<open>^^xy\<close> arm both readers share: at least four bytes are left and both digits are hex.\<close>

(* @src crates/tex-core/src/hyphen.rs:164-174 add_pattern_bytes *)
fun hex_escape :: "bytes \<Rightarrow> (u8 \<times> bytes) option" where
  "hex_escape (c0 # c1 # x # y # rest) =
     (if c0 = CHR ''^'' \<and> c1 = CHR ''^'' then
        (case (hex_val x, hex_val y) of
           (Some h1, Some h2) \<Rightarrow> Some (char_of (h1 * 16 + h2), rest)
         | _ \<Rightarrow> None)
      else None)"
| "hex_escape _ = None"

lemma hex_escape_length: "hex_escape xs = Some (c, rest) \<Longrightarrow> length rest < length xs"
  by (induction xs rule: hex_escape.induct) (auto split: if_splits option.splits)

(* @src crates/tex-core/src/hyphen.rs:151-181 add_pattern_bytes *)
function scan_pattern :: "bytes \<Rightarrow> bytes \<Rightarrow> (nat \<times> nat) list \<Rightarrow> nat \<Rightarrow> bytes \<times> (nat \<times> nat) list" where
  "scan_pattern [] key values pos = (key, values)"
| "scan_pattern (ch # rest) key values pos =
     (if is_ascii_digit ch then
        scan_pattern rest key
          (if ch \<noteq> CHR ''0'' then values @ [(pos, of_char ch - 48)] else values) pos
      else
        (case hex_escape (ch # rest) of
           Some (c, rest') \<Rightarrow> scan_pattern rest' (key @ [c]) values (pos + 1)
         | None \<Rightarrow> scan_pattern rest (key @ [ch]) values (pos + 1)))"
  by pat_completeness auto
termination
  by (relation "measure (\<lambda>(p, _). length p)") (auto dest: hex_escape_length)

(* @src crates/tex-core/src/hyphen.rs fn add_pattern_bytes *)
definition add_pattern_bytes :: "trie \<Rightarrow> bytes \<Rightarrow> trie option" where
  "add_pattern_bytes t pat =
     (let (key, values) = scan_pattern pat [] [] 0
      in if key \<noteq> [] then trie_insert t key values else Some t)"

(* @src crates/tex-core/src/hyphen.rs:194-222 add_exception_bytes *)
function scan_exception :: "bytes \<Rightarrow> bytes \<Rightarrow> nat list \<Rightarrow> bytes \<times> nat list" where
  "scan_exception [] key points = (key, points)"
| "scan_exception (ch # rest) key points =
     (if ch = CHR ''-'' then scan_exception rest key (points @ [length key])
      else
        (case hex_escape (ch # rest) of
           Some (c, rest') \<Rightarrow> scan_exception rest' (key @ [c]) points
         | None \<Rightarrow>
             if is_ascii_uppercase ch
             then scan_exception rest (key @ [char_of ((of_char ch :: nat) + 32)]) points
             else scan_exception rest (key @ [ch]) points))"
  by pat_completeness auto
termination
  by (relation "measure (\<lambda>(p, _). length p)") (auto dest: hex_escape_length)

(* @src crates/tex-core/src/hyphen.rs fn add_exception_bytes *)
definition add_exception_bytes :: "trie \<Rightarrow> bytes \<Rightarrow> trie" where
  "add_exception_bytes t word =
     (let (key, points) = scan_exception word [] []
      in if length key \<ge> 2 then t\<lparr>exceptions := (exceptions t)(key \<mapsto> points)\<rparr> else t)"

subsection \<open>Finding the hyphens of a word\<close>

text \<open>
  The pattern values at a node: each raises the value of a gap.  A gap out of range is skipped
  (\<open>get_mut\<close>) or, in the XeTeX variant, a panic (\<open>strict\<close>).
\<close>

definition raise_at :: "bool \<Rightarrow> nat list \<Rightarrow> nat \<Rightarrow> nat \<Rightarrow> nat list option" where
  "raise_at strict vs i v =
     (if i < length vs then Some (vs[i := max (vs ! i) v])
      else if strict then None else Some vs)"

(* @src crates/tex-core/src/hyphen.rs:266-273 hyphenate *)
fun apply_values :: "bool \<Rightarrow> nat \<Rightarrow> trie_value list \<Rightarrow> nat \<Rightarrow> nat \<Rightarrow> nat list \<Rightarrow> nat list option" where
  "apply_values strict 0 tvs link start vs = None"
| "apply_values strict (Suc fuel) tvs link start vs =
     (if link = NO_LINK then Some vs
      else if length tvs \<le> link then None
      else
        let entry = tvs ! link
        in do {
          vs' \<leftarrow> raise_at strict vs (start + tv_pos entry) (tv_value entry);
          apply_values strict fuel tvs (tv_next entry) start vs'
        })"

(* @src crates/tex-core/src/hyphen.rs:260-274 hyphenate *)
fun walk :: "bool \<Rightarrow> trie \<Rightarrow> nat \<Rightarrow> bytes \<Rightarrow> nat \<Rightarrow> nat list \<Rightarrow> nat list option" where
  "walk strict t node [] start vs = Some vs"
| "walk strict t node (b # bs) start vs = do {
     c \<leftarrow> child t node b;
     (case c of
        None \<Rightarrow> Some vs
      | Some next \<Rightarrow>
          (if length (nodes t) \<le> next then None
           else do {
             vs' \<leftarrow> apply_values strict (Suc (length (vals t))) (vals t) (nd_value (nodes t ! next)) start vs;
             walk strict t next bs start vs'
           }))
   }"

(* @src crates/tex-core/src/hyphen.rs:259-275 hyphenate *)
fun walk_all :: "bool \<Rightarrow> trie \<Rightarrow> bytes \<Rightarrow> nat list \<Rightarrow> nat list \<Rightarrow> nat list option" where
  "walk_all strict t text [] vs = Some vs"
| "walk_all strict t text (start # starts) vs = do {
     vs' \<leftarrow> walk strict t 0 (drop start text) start vs;
     walk_all strict t text starts vs'
   }"

(* @src crates/tex-core/src/hyphen.rs fn hyphenate *)
definition hyphenate :: "trie \<Rightarrow> bytes \<Rightarrow> nat \<Rightarrow> nat \<Rightarrow> nat list option" where
  "hyphenate t word left0 right0 =
     (let left = max left0 1; right = max right0 1; n = length word in
      if n < left + right then Some []
      else
        (case exceptions t word of
           Some pts \<Rightarrow> Some (filter (\<lambda>k. left \<le> k \<and> k + right \<le> n) pts)
         | None \<Rightarrow>
             let text = [CHR ''.''] @ word @ [CHR ''.'']; m = length text
             in do {
               vs \<leftarrow> walk_all False t text [0..<m] (replicate (m + 1) 0);
               Some (map (\<lambda>i. i - 1) (filter (\<lambda>i. vs ! i mod 2 = 1) [left + 1..<n - right + 2]))
             }))"

subsection \<open>Hyphen files\<close>

fun split_on :: "('a \<Rightarrow> bool) \<Rightarrow> 'a list \<Rightarrow> 'a list list" where
  "split_on p [] = [[]]"
| "split_on p (x # xs) =
     (if p x then [] # split_on p xs
      else (case split_on p xs of [] \<Rightarrow> [[x]] | y # ys \<Rightarrow> (x # y) # ys))"

text \<open>The number of bytes read up to and including the brace that closes the block, or to the end.\<close>

(* @src crates/tex-core/src/hyphen.rs:327-341 load_hyphen_bytes *)
function block_length :: "bytes \<Rightarrow> nat \<Rightarrow> nat" where
  "block_length [] depth = 0"
| "block_length (c # cs) depth =
     (if depth = 0 then 0
      else if c = CHR ''{'' then 1 + block_length cs (depth + 1)
      else if c = CHR ''}'' then 1 + block_length cs (depth - 1)
      else if c = CHR ''%'' then
        1 + length (takeWhile (\<lambda>x. x \<noteq> CHR 0x0A) cs)
          + block_length (dropWhile (\<lambda>x. x \<noteq> CHR 0x0A) cs) depth
      else 1 + block_length cs depth)"
  by pat_completeness auto
termination
  by (relation "measure (\<lambda>(cs, _). length cs)") (auto simp: le_imp_less_Suc length_dropWhile_le)

(* @src crates/tex-core/src/hyphen.rs:342-348 load_hyphen_bytes *)
definition block_tokens :: "bytes \<Rightarrow> bytes list" where
  "block_tokens body =
     concat (map (\<lambda>line.
        filter (\<lambda>tok. tok \<noteq> []) (split_on is_ascii_whitespace (hd (split_on (\<lambda>b. b = CHR ''%'') line))))
       (split_on (\<lambda>b. b = CHR 0x0A) body))"

(* @src crates/tex-core/src/hyphen.rs:345-356 load_hyphen_bytes *)
fun add_tokens :: "bool \<Rightarrow> bytes list \<Rightarrow> trie \<Rightarrow> nat \<Rightarrow> nat \<Rightarrow> (trie \<times> nat \<times> nat) option" where
  "add_tokens is_pat [] t npat nexc = Some (t, npat, nexc)"
| "add_tokens is_pat (tok # toks) t npat nexc =
     (if is_pat then do {
        t' \<leftarrow> add_pattern_bytes t tok;
        add_tokens is_pat toks t' (npat + 1) nexc
      }
      else add_tokens is_pat toks (add_exception_bytes t tok) npat (nexc + 1))"

(* @src crates/tex-core/src/hyphen.rs fn load_hyphen_bytes *)
function load_bytes :: "bytes \<Rightarrow> trie \<Rightarrow> nat \<Rightarrow> nat \<Rightarrow> (trie \<times> nat \<times> nat) option" where
  "load_bytes [] t npat nexc = Some (t, npat, nexc)"
| "load_bytes (c # cs) t npat nexc =
     (if c = CHR ''%'' then load_bytes (dropWhile (\<lambda>x. x \<noteq> CHR 0x0A) cs) t npat nexc
      else if starts_with (c # cs) (CHR 0x5C # ''patterns'') \<or> starts_with (c # cs) (CHR 0x5C # ''hyphenation'')
      then
        let is_pat = (byte_at (c # cs) 1 = CHR ''p'');
            after = drop (if is_pat then 8 else 11) cs
        in (case dropWhile (\<lambda>x. x \<noteq> CHR ''{'') after of
              [] \<Rightarrow> Some (t, npat, nexc)
            | _ # rest \<Rightarrow>
                let k = block_length rest 1
                in do {
                  (t', npat', nexc') \<leftarrow> add_tokens is_pat (block_tokens (take (k - 1) rest)) t npat nexc;
                  load_bytes (drop k rest) t' npat' nexc'
                })
      else if is_ascii_whitespace c then load_bytes (dropWhile is_ascii_whitespace cs) t npat nexc
      else load_bytes (dropWhile is_ascii_whitespace (dropWhile (\<lambda>x. \<not> is_ascii_whitespace x) cs)) t npat nexc)"
  by pat_completeness auto
termination
proof (relation "measure (\<lambda>(cs, _). length cs)", goal_cases)
  case (3 c cs t npat nexc is_pat after x rest k)
  then have "length (x # rest) \<le> length after" by (metis length_dropWhile_le)
  moreover have "length after \<le> length cs" using 3 by simp
  ultimately show ?case by simp
qed (auto intro: le_imp_less_Suc order_trans [OF length_dropWhile_le] length_dropWhile_le)

definition load_hyphen_bytes :: "trie \<Rightarrow> bytes \<Rightarrow> (trie \<times> nat \<times> nat) option" where
  "load_hyphen_bytes t bs = load_bytes bs t 0 0"

subsection \<open>Words of Unicode scalars\<close>

text \<open>\<open>char::from_u32\<close> with the replacement character, and \<open>char::encode_utf8\<close>.\<close>

definition scalar_or_replacement :: "nat \<Rightarrow> nat" where
  "scalar_or_replacement c =
     (if c < 0xD800 \<or> (0xE000 \<le> c \<and> c < 0x110000) then c else 0xFFFD)"

definition utf8_bytes :: "nat \<Rightarrow> bytes" where
  "utf8_bytes c =
     (if c < 0x80 then [char_of c]
      else if c < 0x800 then [char_of (0xC0 + c div 64), char_of (0x80 + c mod 64)]
      else if c < 0x10000 then
        [char_of (0xE0 + c div 4096), char_of (0x80 + c div 64 mod 64), char_of (0x80 + c mod 64)]
      else
        [char_of (0xF0 + c div 262144), char_of (0x80 + c div 4096 mod 64),
         char_of (0x80 + c div 64 mod 64), char_of (0x80 + c mod 64)])"

definition is_continuation :: "u8 \<Rightarrow> bool" where
  "is_continuation b \<longleftrightarrow> (of_char b :: nat) div 64 = 2"

text \<open>The concatenated codes of a word, and the offset before each letter and after the last.\<close>

fun encode_word :: "(nat \<Rightarrow> bytes) \<Rightarrow> nat list \<Rightarrow> bytes \<Rightarrow> nat list \<Rightarrow> bytes \<times> nat list" where
  "encode_word enc [] text starts = (text, starts @ [length text])"
| "encode_word enc (c # cs) text starts = encode_word enc cs (text @ enc c) (starts @ [length text])"

(* @src crates/tex-core/src/hyphen.rs fn gap_values *)
definition gap_values :: "trie \<Rightarrow> nat list \<Rightarrow> nat list option" where
  "gap_values t word =
     (let (text0, starts) = encode_word (\<lambda>c. utf8_bytes (scalar_or_replacement c)) word [CHR ''.''] [];
          text = text0 @ [CHR ''.'']; m = length text
      in do {
        vs \<leftarrow> walk_all False t text [0..<m] (replicate (m + 1) 0);
        Some (map (\<lambda>s. vs ! s) starts)
      })"

(* @src crates/tex-core/src/hyphen.rs fn exception_points *)
definition exception_points :: "trie \<Rightarrow> nat list \<Rightarrow> nat list option" where
  "exception_points t word =
     (let key = concat (map (\<lambda>c. utf8_bytes (scalar_or_replacement c)) word)
      in map_option
           (map (\<lambda>k. length (filter (\<lambda>b. \<not> is_continuation b) (take (min k (length key)) key))))
           (exceptions t key))"

subsection \<open>XeTeX's pattern keys\<close>

(* @src crates/tex-core/src/hyphen.rs fn xe_push_key *)
definition xe_key :: "nat \<Rightarrow> bytes" where
  "xe_key c =
     (if c \<le> 0x7F then [char_of c]
      else if c \<le> 0x7FF then [char_of (0xC0 + c div 64), char_of (0x80 + c mod 64)]
      else if c \<le> 0xFFFF then
        [char_of (0xE0 + c div 4096), char_of (0x80 + c div 64 mod 64), char_of (0x80 + c mod 64)]
      else
        [char_of (0xF0 + c div 262144 mod 8), char_of (0x80 + c div 4096 mod 64),
         char_of (0x80 + c div 64 mod 64), char_of (0x80 + c mod 64)])"

(* @src crates/tex-core/src/hyphen.rs:526-536 xe_insert_pattern *)
fun push_levels :: "(nat \<times> nat) list \<Rightarrow> trie_value list \<Rightarrow> nat \<Rightarrow> trie_value list \<times> nat" where
  "push_levels [] vs head = (vs, head)"
| "push_levels ((gap, level) # rest) vs head =
     (if level \<noteq> 0 then
        push_levels rest (vs @ [\<lparr>tv_pos = gap, tv_value = level, tv_next = head\<rparr>])
          (u32_of (length vs + 1 + 4294967295))
      else push_levels rest vs head)"

(* @src crates/tex-core/src/hyphen.rs fn xe_insert_pattern *)
definition xe_insert_pattern :: "trie \<Rightarrow> nat list \<Rightarrow> nat list \<Rightarrow> (bool \<times> trie) option" where
  "xe_insert_pattern t hc hyf =
     (let (key, gap_at) = encode_word xe_key hc [] [] in
      do {
        (node, t1) \<leftarrow> descend t 0 key;
        (if length (nodes t1) \<le> node \<or> list_ex (\<lambda>level. level \<noteq> 0) (drop (length gap_at) hyf) then None
         else
           let duplicate = (nd_value (nodes t1 ! node) \<noteq> NO_LINK);
               (vs, head) = push_levels (rev (zip gap_at hyf)) (vals t1) NO_LINK
           in Some (duplicate,
                t1\<lparr>vals := vs, nodes := (nodes t1)[node := (nodes t1 ! node)\<lparr>nd_value := head\<rparr>]\<rparr>))
      })"

(* @src crates/tex-core/src/hyphen.rs fn xe_gap_values *)
definition xe_gap_values :: "trie \<Rightarrow> nat list \<Rightarrow> nat list \<Rightarrow> nat list option" where
  "xe_gap_values t hc hyf =
     (let (text0, gap_at) = encode_word xe_key hc [CHR 0x00] [];
          text = text0 @ [CHR 0x00]
      in do {
        vs \<leftarrow> walk_all True t text (filter (\<lambda>i. \<not> is_continuation (text ! i)) [0..<length text])
               (replicate (length text + 1) 0);
        (if length hyf < length gap_at then None
         else Some (map (\<lambda>at. vs ! at) gap_at @ drop (length gap_at) hyf))
      })"

(* @src crates/tex-core/src/hyphen.rs fn xe_add_exception *)
definition xe_add_exception :: "trie \<Rightarrow> nat list \<Rightarrow> nat list \<Rightarrow> trie" where
  "xe_add_exception t hc points =
     t\<lparr>exceptions := (exceptions t)(concat (map xe_key hc) \<mapsto> points)\<rparr>"

(* @src crates/tex-core/src/hyphen.rs fn xe_exception *)
definition xe_exception :: "trie \<Rightarrow> nat list \<Rightarrow> nat list option" where
  "xe_exception t hc =
     exceptions t (concat (map xe_key hc))"

(* @src crates/tex-core/src/hyphen.rs:617-632 xe_max_pattern_char *)
fun push_children :: "nat \<Rightarrow> trie_node list \<Rightarrow> nat \<Rightarrow> nat \<Rightarrow> nat \<Rightarrow> (nat \<times> nat \<times> nat) list
    \<Rightarrow> (nat \<times> nat \<times> nat) list option" where
  "push_children 0 ns c accum rm stack = None"
| "push_children (Suc fuel) ns c accum rm stack =
     (if c = NO_LINK then Some stack
      else if length ns \<le> c then None
      else
        let b = (of_char (nd_byte (ns ! c)) :: nat);
            next = (if rm > 0 then (accum * 64 + b mod 64, rm - 1)
                    else if b \<le> 0x7F then (b, 0)
                    else if 0xC0 \<le> b \<and> b \<le> 0xDF then (b mod 32, 1)
                    else if 0xE0 \<le> b \<and> b \<le> 0xEF then (b mod 16, 2)
                    else (b mod 8, 3))
        in push_children fuel ns (nd_sibling (ns ! c)) accum rm ((c, next) # stack))"

(* @src crates/tex-core/src/hyphen.rs:613-634 xe_max_pattern_char *)
partial_function (option) max_char_loop ::
  "trie_node list \<Rightarrow> (nat \<times> nat \<times> nat) list \<Rightarrow> nat \<Rightarrow> nat option" where
  "max_char_loop ns stack mx =
     (case stack of
        [] \<Rightarrow> Some mx
      | (node, accum, rm) # stack' \<Rightarrow>
          (if length ns \<le> node then None
           else Option.bind
             (push_children (Suc (length ns)) ns (nd_child (ns ! node)) accum rm stack')
             (\<lambda>s. max_char_loop ns s (max mx (accum * 2 ^ (6 * rm))))))"

declare max_char_loop.simps [code]

(* @src crates/tex-core/src/hyphen.rs fn xe_max_pattern_char *)
definition xe_max_pattern_char :: "trie \<Rightarrow> nat option" where
  "xe_max_pattern_char t = max_char_loop (nodes t) [(0, 0, 0)] 256"

end
