(* ===== verification/HyphenTrie.thy ===== *)
theory HyphenTrie
  imports Hyphen
begin

text \<open>
  The trie of \<open>Hyphen\<close> as a map from byte strings to levels: the ghost list of node keys, the
  invariant every insertion keeps, and the levels it leads to.
\<close>

subsection \<open>Sibling chains\<close>

declare find_sibling.simps [simp del]

definition same_links :: "trie_node list \<Rightarrow> trie_node list \<Rightarrow> bool" where
  "same_links ns ns' \<longleftrightarrow> length ns \<le> length ns' \<and>
     (\<forall>i < length ns. nd_byte (ns' ! i) = nd_byte (ns ! i) \<and> nd_sibling (ns' ! i) = nd_sibling (ns ! i))"

lemma find_sibling_extend:
  "find_sibling f ns c b = Some r \<Longrightarrow> f \<le> f' \<Longrightarrow> same_links ns ns' \<Longrightarrow> find_sibling f' ns' c b = Some r"
proof (induction f ns c b arbitrary: f' rule: find_sibling.induct)
  case (2 fuel ns c b)
  obtain f'' where f': "f' = Suc f''" "fuel \<le> f''" using 2(3) by (cases f') auto
  show ?case
    using 2 f' by (auto simp: same_links_def find_sibling.simps split: if_splits)
qed (simp add: find_sibling.simps)

lemma find_sibling_range:
  "find_sibling f ns c b = Some (Some d) \<Longrightarrow> d < length ns \<and> d \<noteq> NO_LINK \<and> nd_byte (ns ! d) = b"
  by (induction f ns c b rule: find_sibling.induct) (auto simp: find_sibling.simps split: if_splits)

text \<open>The child links of a node, read from the chain (the root index is a copy of node 0's chain).\<close>

definition links :: "trie_node list \<Rightarrow> nat \<Rightarrow> u8 \<Rightarrow> nat option option" where
  "links ns i b = find_sibling (Suc (length ns)) ns (nd_child (ns ! i)) b"

subsection \<open>The keys of the nodes\<close>

definition trie_keys :: "trie \<Rightarrow> bytes list \<Rightarrow> bool" where
  "trie_keys t ks \<longleftrightarrow>
     length ks = length (nodes t) \<and> ks \<noteq> [] \<and> ks ! 0 = [] \<and> distinct ks \<and> length ks \<le> NO_LINK \<and>
     (\<forall>k \<in> set ks. k \<noteq> [] \<longrightarrow> butlast k \<in> set ks) \<and>
     (\<forall>i < length ks. \<forall>b. \<exists>r. links (nodes t) i b = Some r \<and>
        (\<forall>c. r = Some c \<longleftrightarrow> c < length ks \<and> ks ! c = ks ! i @ [b])) \<and>
     (\<forall>b. links (nodes t) 0 b = Some (if root t b = NO_LINK then None else Some (root t b)))"

lemma trie_keysD:
  assumes "trie_keys t ks"
  shows "length ks = length (nodes t)" "ks \<noteq> []" "ks ! 0 = []" "distinct ks" "length ks \<le> NO_LINK"
    and "k \<in> set ks \<Longrightarrow> k \<noteq> [] \<Longrightarrow> butlast k \<in> set ks"
    and "i < length ks \<Longrightarrow> \<exists>r. links (nodes t) i b = Some r \<and>
        (\<forall>c. r = Some c \<longleftrightarrow> c < length ks \<and> ks ! c = ks ! i @ [b])"
    and "links (nodes t) 0 b = Some (if root t b = NO_LINK then None else Some (root t b))"
  using assms unfolding trie_keys_def by blast+

lemma child_links:
  assumes "trie_keys t ks" "i < length ks"
  shows "child t i b = links (nodes t) i b"
  using trie_keysD(1) [OF assms(1)] trie_keysD(8) [OF assms(1), of b] assms(2)
  by (simp add: child_def links_def Let_def)

lemma trie_keys_child:
  assumes "trie_keys t ks" "i < length ks"
  shows "\<exists>r. child t i b = Some r \<and> (\<forall>c. r = Some c \<longleftrightarrow> c < length ks \<and> ks ! c = ks ! i @ [b])"
  using trie_keysD(7) [OF assms(1,2)] child_links [OF assms] by simp

lemma nth_key_unique: "trie_keys t ks \<Longrightarrow> i < length ks \<Longrightarrow> j < length ks \<Longrightarrow> ks ! i = ks ! j \<Longrightarrow> i = j"
  by (simp add: trie_keys_def nth_eq_iff_index_eq)

lemma trie_keys_new:
  obtains t where "trie_new = Some t" "trie_keys t [[]]" "vals t = []" "exceptions t = Map.empty"
    "nd_value (nodes t ! 0) = NO_LINK"
proof -
  let ?n = "\<lparr>nd_byte = CHR 0x00, nd_child = NO_LINK, nd_sibling = NO_LINK, nd_value = NO_LINK\<rparr>"
  let ?t = "\<lparr>nodes = [?n], vals = [], root = (\<lambda>_. NO_LINK), exceptions = Map.empty\<rparr>"
  have "trie_new = Some ?t" by (simp add: trie_new_def from_parts_def)
  moreover have "trie_keys ?t [[]]"
    by (auto simp: trie_keys_def links_def NO_LINK_def find_sibling.simps)
  ultimately show ?thesis by (intro that [of ?t]) simp_all
qed

subsection \<open>Making a child\<close>

lemma links_new_node:
  fixes t :: trie
  defines "n \<equiv> length (nodes t)"
  assumes i: "i < n" and room: "n < NO_LINK"
    and ns: "ns = (nodes t)[i := (nodes t ! i)\<lparr>nd_child := n\<rparr>]
       @ [\<lparr>nd_byte = b, nd_child = NO_LINK, nd_sibling = nd_child (nodes t ! i), nd_value = NO_LINK\<rparr>]"
    and old: "links (nodes t) i b = Some None" and some: "links (nodes t) j b' = Some r" and j: "j < n"
  shows "links ns j b' = Some (if j = i \<and> b' = b then Some n else r)"
    and "links ns n b'' = Some None"
proof -
  have len: "length ns = Suc n" by (simp add: ns n_def)
  have new: "ns ! n = \<lparr>nd_byte = b, nd_child = NO_LINK, nd_sibling = nd_child (nodes t ! i), nd_value = NO_LINK\<rparr>"
    by (simp add: ns n_def nth_append)
  have same: "same_links (nodes t) ns"
    using i by (auto simp: same_links_def ns n_def nth_append nth_list_update)
  have child_j: "nd_child (ns ! j) = (if j = i then n else nd_child (nodes t ! j))"
    using i j by (auto simp: ns n_def nth_append nth_list_update)
  have step: "find_sibling (Suc (Suc n)) ns n b' =
      (if b' = b then Some (Some n) else find_sibling (Suc n) ns (nd_child (nodes t ! i)) b')"
    using room by (simp add: len new find_sibling.simps(2) [of "Suc n"])
  show "links ns j b' = Some (if j = i \<and> b' = b then Some n else r)"
  proof (cases "j = i")
    case True
    then have "find_sibling (Suc n) ns (nd_child (nodes t ! i)) b' = Some r"
      using some find_sibling_extend [OF _ _ same] by (simp add: links_def n_def)
    moreover have "nd_child (ns ! j) = n" using True child_j by simp
    ultimately show ?thesis using True unfolding links_def by (simp add: len step)
  next
    case False
    then show ?thesis
      using some find_sibling_extend [OF _ _ same, of _ _ _ _ "Suc (Suc n)"]
      by (simp add: links_def child_j len n_def)
  qed
  show "links ns n b'' = Some None" by (simp add: links_def new find_sibling.simps)
qed

definition grows :: "trie \<Rightarrow> bytes list \<Rightarrow> trie \<Rightarrow> bytes list \<Rightarrow> bool" where
  "grows t ks t' ks' \<longleftrightarrow> vals t' = vals t \<and> exceptions t' = exceptions t \<and> length ks \<le> length ks' \<and>
     (\<forall>m < length ks. ks' ! m = ks ! m \<and> nd_value (nodes t' ! m) = nd_value (nodes t ! m)) \<and>
     (\<forall>m < length ks'. length ks \<le> m \<longrightarrow> nd_value (nodes t' ! m) = NO_LINK)"

lemma grows_refl [simp]: "grows t ks t ks"
  by (simp add: grows_def)

lemma grows_trans: "grows t ks t' ks' \<Longrightarrow> grows t' ks' t'' ks'' \<Longrightarrow> grows t ks t'' ks''"
  unfolding grows_def by (metis (no_types, lifting) le_trans less_le_trans not_le)

text \<open>The trie after a missing child \<open>b\<close> of node \<open>i\<close> was appended.\<close>

definition add_node :: "trie \<Rightarrow> nat \<Rightarrow> u8 \<Rightarrow> trie" where
  "add_node t i b = t\<lparr>
     nodes := (nodes t)[i := (nodes t ! i)\<lparr>nd_child := length (nodes t)\<rparr>]
       @ [\<lparr>nd_byte = b, nd_child = NO_LINK, nd_sibling = nd_child (nodes t ! i), nd_value = NO_LINK\<rparr>],
     root := (if i = 0 then (root t)(b := length (nodes t)) else root t)\<rparr>"

lemma child_or_new_cases:
  assumes "trie_keys t ks" "i < length ks" "length ks < NO_LINK" "child t i b = Some r"
  shows "child_or_new t i b =
    Some (case r of Some j \<Rightarrow> (j, t) | None \<Rightarrow> (length (nodes t), add_node t i b))"
proof -
  have "u32_of (length (nodes t)) = length (nodes t)"
    using assms(3) trie_keysD(1) [OF assms(1)] by (simp add: u32_of_def NO_LINK_def)
  then show ?thesis
    using assms trie_keysD(1) [OF assms(1)]
    by (cases r) (simp_all add: child_or_new_def add_node_def Let_def)
qed

lemma add_node_keys:
  assumes inv: "trie_keys t ks" and i: "i < length ks" and room: "length ks < NO_LINK"
    and notin: "ks ! i @ [b] \<notin> set ks"
  shows "trie_keys (add_node t i b) (ks @ [ks ! i @ [b]])"
proof -
  let ?n = "length (nodes t)"
  let ?ns = "nodes (add_node t i b)"
  let ?ks = "ks @ [ks ! i @ [b]]"
  have len: "length ks = ?n" by (rule trie_keysD [OF inv])
  have ns: "?ns = (nodes t)[i := (nodes t ! i)\<lparr>nd_child := ?n\<rparr>]
       @ [\<lparr>nd_byte = b, nd_child = NO_LINK, nd_sibling = nd_child (nodes t ! i), nd_value = NO_LINK\<rparr>]"
    by (simp add: add_node_def)
  have nz: "0 < ?n" using trie_keysD(2) [OF inv] len by (cases "nodes t") auto
  have i': "i < ?n" "?n < NO_LINK" using i room len by simp_all
  obtain r where r: "links (nodes t) i b = Some r" "r = Some c \<longleftrightarrow> c < length ks \<and> ks ! c = ks ! i @ [b]" for c
    using trie_keysD(7) [OF inv i, of b] by blast
  have "r = None" using r(2) notin by (cases r) (auto simp: in_set_conv_nth)
  then have old: "links (nodes t) i b = Some None" using r(1) by simp
  have step: "links ?ns j b' = Some (if j = i \<and> b' = b then Some ?n else r')"
    if "links (nodes t) j b' = Some r'" "j < ?n" for j b' r'
    by (rule links_new_node(1) [OF i' ns old that])
  have last: "links ?ns ?n b' = Some None" for b'
    by (rule links_new_node(2) [OF i' ns old old i'(1)])
  have prefixes: "butlast k \<in> set ?ks" if "k \<in> set ?ks" "k \<noteq> []" for k
  proof (cases "k \<in> set ks")
    case True
    then show ?thesis using trie_keysD(6) [OF inv] that by simp
  next
    case False
    then have "butlast k = ks ! i" using that by simp
    then show ?thesis using i by simp
  qed
  have at: "?ks ! c = (if c < ?n then ks ! c else ks ! i @ [b])" if "c < length ?ks" for c
    using that len by (simp add: nth_append)
  have below: "(\<exists>r. links ?ns j b' = Some r \<and> (\<forall>c. r = Some c \<longleftrightarrow> c < length ?ks \<and> ?ks ! c = ?ks ! j @ [b']))"
    if j: "j < ?n" for j b'
  proof -
    obtain r' where r': "links (nodes t) j b' = Some r'"
        "r' = Some c \<longleftrightarrow> c < length ks \<and> ks ! c = ks ! j @ [b']" for c
      using trie_keysD(7) [OF inv, of j b'] len j by auto
    have same: "j = i \<and> b' = b \<longleftrightarrow> ks ! j @ [b'] = ks ! i @ [b]"
      using nth_key_unique [OF inv, of j i] j i len by auto
    have none: "r' = None" if "ks ! j @ [b'] = ks ! i @ [b]"
      using r'(2) notin that by (cases r') (auto simp: in_set_conv_nth)
    have "(if j = i \<and> b' = b then Some ?n else r') = Some c \<longleftrightarrow>
        c < length ?ks \<and> ?ks ! c = ?ks ! j @ [b']" for c
      using r'(2) [of c] none same j len by (cases "c < ?n") (auto simp: nth_append)
    with step [OF r'(1) j] show ?thesis by blast
  qed
  have above: "(\<exists>r. links ?ns ?n b' = Some r \<and> (\<forall>c. r = Some c \<longleftrightarrow> c < length ?ks \<and> ?ks ! c = ?ks ! ?n @ [b']))" for b'
  proof -
    have "ks ! c \<noteq> ks ! i @ [b, b']" if "c < ?n" for c
    proof
      assume eq: "ks ! c = ks ! i @ [b, b']"
      have "ks ! c \<in> set ks" using that len by simp
      from trie_keysD(6) [OF inv this] eq have "butlast (ks ! i @ [b, b']) \<in> set ks" by simp
      with notin show False by (simp add: butlast_append)
    qed
    then have "\<not> (c < length ?ks \<and> ?ks ! c = ?ks ! ?n @ [b'])" for c
      using len by (auto simp: nth_append less_Suc_eq)
    with last [of b'] show ?thesis by simp
  qed
  have rt: "links ?ns 0 b' = Some (if root (add_node t i b) b' = NO_LINK then None else Some (root (add_node t i b) b'))" for b'
    using step [OF trie_keysD(8) [OF inv, of b'] nz] room len by (simp add: add_node_def)
  show ?thesis
    unfolding trie_keys_def
  proof (intro conjI)
    show "\<forall>j < length ?ks. \<forall>b'. \<exists>r. links ?ns j b' = Some r \<and>
        (\<forall>c. r = Some c \<longleftrightarrow> c < length ?ks \<and> ?ks ! c = ?ks ! j @ [b'])"
    proof (intro allI impI)
      fix j b' assume "j < length ?ks"
      then consider "j < ?n" | "j = ?n" using len by fastforce
      then show "\<exists>r. links ?ns j b' = Some r \<and> (\<forall>c. r = Some c \<longleftrightarrow> c < length ?ks \<and> ?ks ! c = ?ks ! j @ [b'])"
        by cases (use below above in blast)+
    qed
    show "?ks ! 0 = []" using trie_keysD(2,3) [OF inv] by (simp add: nth_append)
    show "distinct ?ks" using trie_keysD(4) [OF inv] notin by simp
    show "\<forall>k\<in>set ?ks. k \<noteq> [] \<longrightarrow> butlast k \<in> set ?ks" using prefixes by blast
    show "\<forall>b'. links ?ns 0 b' = Some (if root (add_node t i b) b' = NO_LINK then None else Some (root (add_node t i b) b'))"
      using rt by blast
  qed (use len room in \<open>simp_all add: ns\<close>)
qed

lemma add_node_grows:
  assumes "trie_keys t ks" "i < length ks"
  shows "grows t ks (add_node t i b) (ks @ [k])"
  using trie_keysD(1) [OF assms(1)] assms(2)
  by (auto simp: grows_def add_node_def nth_append nth_list_update less_Suc_eq)

lemma child_or_new_keys:
  assumes inv: "trie_keys t ks" and i: "i < length ks" and room: "length ks < NO_LINK"
  obtains j t' ks' where "child_or_new t i b = Some (j, t')" "trie_keys t' ks'" "grows t ks t' ks'"
    "j < length ks'" "ks' ! j = ks ! i @ [b]" "set ks' = insert (ks ! i @ [b]) (set ks)"
    "length ks' \<le> Suc (length ks)"
proof -
  obtain r where r: "child t i b = Some r" "r = Some c \<longleftrightarrow> c < length ks \<and> ks ! c = ks ! i @ [b]" for c
    using trie_keys_child [OF inv i] by blast
  note made = child_or_new_cases [OF inv i room r(1)]
  show ?thesis
  proof (cases r)
    case (Some j)
    then have j: "j < length ks" "ks ! j = ks ! i @ [b]" using r(2) by auto
    then have "ks ! i @ [b] \<in> set ks" by (metis nth_mem)
    with Some j made inv show ?thesis by (intro that [of j t ks]) auto
  next
    case None
    then have "ks ! i @ [b] \<notin> set ks" using r(2) by (auto simp: in_set_conv_nth)
    from add_node_keys [OF inv i room this] show ?thesis
      using None made trie_keysD(1) [OF inv] add_node_grows [OF inv i]
      by (intro that [of "length (nodes t)" "add_node t i b" "ks @ [ks ! i @ [b]]"]) (auto simp: nth_append)
  qed
qed

lemma descend_keys:
  assumes "trie_keys t ks" "i < length ks" "length ks + length bs \<le> NO_LINK"
  shows "\<exists>j t' ks'. descend t i bs = Some (j, t') \<and> trie_keys t' ks' \<and> grows t ks t' ks' \<and>
    j < length ks' \<and> ks' ! j = ks ! i @ bs \<and> length ks' \<le> length ks + length bs"
  using assms
proof (induction bs arbitrary: t i ks)
  case Nil
  then show ?case by auto
next
  case (Cons b bs)
  from Cons.prems have "length ks < NO_LINK" by simp
  from child_or_new_keys [OF Cons.prems(1,2) this, of b] obtain j t1 ks1 where 1:
    "child_or_new t i b = Some (j, t1)" "trie_keys t1 ks1" "grows t ks t1 ks1" "j < length ks1"
    "ks1 ! j = ks ! i @ [b]" "length ks1 \<le> Suc (length ks)" by metis
  with Cons.prems have "length ks1 + length bs \<le> NO_LINK" by simp
  from Cons.IH [OF 1(2,4) this] obtain j' t' ks' where 2: "descend t1 j bs = Some (j', t')"
    "trie_keys t' ks'" "grows t1 ks1 t' ks'" "j' < length ks'" "ks' ! j' = ks1 ! j @ bs"
    "length ks' \<le> length ks1 + length bs" by blast
  with 1 grows_trans [OF 1(3) 2(3)] show ?case by auto
qed

subsection \<open>Value chains\<close>

declare find_pos.simps [simp del] apply_values.simps [simp del]

definition vals_ok :: "trie_value list \<Rightarrow> bool" where
  "vals_ok vs \<longleftrightarrow> length vs \<le> NO_LINK \<and>
     (\<forall>v < length vs. tv_next (vs ! v) = NO_LINK \<or> tv_next (vs ! v) < v)"

function chain :: "trie_value list \<Rightarrow> nat \<Rightarrow> nat list" where
  "chain vs l = (if l < length vs
     then l # (if tv_next (vs ! l) < l then chain vs (tv_next (vs ! l)) else []) else [])"
  by pat_completeness auto
termination
  by (relation "measure snd") auto

function level_at :: "trie_value list \<Rightarrow> nat \<Rightarrow> nat \<Rightarrow> nat" where
  "level_at vs l pos = (if l < length vs
     then max (if tv_pos (vs ! l) = pos then tv_value (vs ! l) else 0)
       (if tv_next (vs ! l) < l then level_at vs (tv_next (vs ! l)) pos else 0) else 0)"
  by pat_completeness auto
termination
  by (relation "measure (\<lambda>(vs, l, pos). l)") auto

declare chain.simps [simp del] level_at.simps [simp del]

lemma vals_okD:
  "vals_ok vs \<Longrightarrow> v < length vs \<Longrightarrow> tv_next (vs ! v) = NO_LINK \<or> tv_next (vs ! v) < v"
  "vals_ok vs \<Longrightarrow> length vs \<le> NO_LINK"
  by (simp_all add: vals_ok_def)

lemma level_NO_LINK [simp]: "vals_ok vs \<Longrightarrow> level_at vs NO_LINK pos = 0"
  by (simp add: level_at.simps vals_ok_def)

lemma find_pos_chain:
  assumes "vals_ok vs" "l = NO_LINK \<and> 0 < f \<or> l < length vs \<and> Suc l < f"
  shows "\<exists>r. find_pos f vs l pos = Some r \<and>
    (\<forall>k. r = Some k \<longrightarrow> k \<in> set (chain vs l) \<and> tv_pos (vs ! k) = pos)"
  using assms
proof (induction f vs l pos rule: find_pos.induct)
  case (2 fuel vs link pos)
  show ?case
  proof (cases "link = NO_LINK \<or> tv_pos (vs ! link) = pos")
    case True
    then show ?thesis
      using 2(2,3) vals_okD(2) [OF 2(2)] chain.simps [of vs link] by (auto simp: find_pos.simps)
  next
    case False
    then have l: "link < length vs" "link < fuel" using 2 by auto
    have "\<exists>r. find_pos fuel vs (tv_next (vs ! link)) pos = Some r \<and>
      (\<forall>k. r = Some k \<longrightarrow> k \<in> set (chain vs (tv_next (vs ! link))) \<and> tv_pos (vs ! k) = pos)"
      using 2(1) False l 2(2) vals_okD(1) [OF 2(2) l(1)] by auto
    moreover have "chain vs NO_LINK = []" using vals_okD(2) [OF 2(2)] chain.simps [of vs NO_LINK] by simp
    then have "set (chain vs (tv_next (vs ! link))) \<subseteq> set (chain vs link)"
      using l vals_okD(1) [OF 2(2) l(1)] chain.simps [of vs link] by auto
    ultimately have "\<exists>r. find_pos fuel vs (tv_next (vs ! link)) pos = Some r \<and>
      (\<forall>k. r = Some k \<longrightarrow> k \<in> set (chain vs link) \<and> tv_pos (vs ! k) = pos)" by blast
    then show ?thesis using False l by (simp add: find_pos.simps)
  qed
qed (auto simp: find_pos.simps)

lemma chain_range: "k \<in> set (chain vs l) \<Longrightarrow> k < length vs \<and> k \<le> l"
proof (induction vs l rule: chain.induct)
  case (1 vs l)
  from 1(2) chain.simps [of vs l] consider "l < length vs" "k = l"
    | "l < length vs" "tv_next (vs ! l) < l" "k \<in> set (chain vs (tv_next (vs ! l)))"
    by (auto split: if_splits)
  then show ?case by cases (use 1(1) in fastforce)+
qed

text \<open>Raising one entry in place.\<close>

definition raise_value :: "trie_value list \<Rightarrow> nat \<Rightarrow> nat \<Rightarrow> trie_value list" where
  "raise_value vs k v = vs[k := (vs ! k)\<lparr>tv_value := max (tv_value (vs ! k)) v\<rparr>]"

lemma raise_value_simps [simp]:
  "length (raise_value vs k v) = length vs"
  "k < length vs \<Longrightarrow> tv_next (raise_value vs k v ! l) = tv_next (vs ! l)"
  "k < length vs \<Longrightarrow> tv_pos (raise_value vs k v ! l) = tv_pos (vs ! l)"
  "k < length vs \<Longrightarrow> tv_value (raise_value vs k v ! l) =
     (if l = k then max (tv_value (vs ! k)) v else tv_value (vs ! l))"
  by (auto simp: raise_value_def nth_list_update)

lemma level_raise:
  "k < length vs \<Longrightarrow> level_at (raise_value vs k v) l pos =
    (if k \<in> set (chain vs l) \<and> tv_pos (vs ! k) = pos then max (level_at vs l pos) v else level_at vs l pos)"
proof (induction vs l pos rule: level_at.induct)
  case (1 vs l pos)
  note unf = level_at.simps [of vs l pos] level_at.simps [of "raise_value vs k v" l pos] chain.simps [of vs l]
  show ?case
  proof (cases "l < length vs \<and> tv_next (vs ! l) < l")
    case True
    have "l \<noteq> k" if "k \<in> set (chain vs (tv_next (vs ! l)))"
      using chain_range [OF that] True by auto
    with True 1 show ?thesis by (auto simp: unf max_def)
  next
    case False
    with 1(2) show ?thesis by (auto simp: unf max_def)
  qed
qed

lemma vals_ok_raise: "vals_ok vs \<Longrightarrow> k < length vs \<Longrightarrow> vals_ok (raise_value vs k v)"
  by (simp add: vals_ok_def)

lemma level_append:
  "l \<noteq> length vs \<Longrightarrow> length vs < NO_LINK \<Longrightarrow> vals_ok vs \<Longrightarrow> l < length vs \<or> l = NO_LINK \<Longrightarrow>
   level_at (vs @ [e]) l pos = level_at vs l pos"
proof (induction vs l pos rule: level_at.induct)
  case (1 vs l pos)
  show ?case
  proof (cases "l < length vs")
    case True
    have "tv_next (vs ! l) < l \<Longrightarrow> level_at (vs @ [e]) (tv_next (vs ! l)) pos = level_at vs (tv_next (vs ! l)) pos"
      using 1 True by auto
    then show ?thesis
      using True by (simp add: level_at.simps [of vs l pos] level_at.simps [of "vs @ [e]" l pos] nth_append)
  next
    case False
    then show ?thesis
      using 1(2-) level_at.simps [of vs l pos] level_at.simps [of "vs @ [e]" l pos] by auto
  qed
qed

lemma level_fresh:
  assumes "vals_ok vs" "length vs < NO_LINK" "tv_next e = NO_LINK \<or> tv_next e < length vs"
  shows "level_at (vs @ [e]) (length vs) pos =
    max (if tv_pos e = pos then tv_value e else 0) (level_at vs (tv_next e) pos)"
proof -
  have "level_at (vs @ [e]) (tv_next e) pos = level_at vs (tv_next e) pos"
    using assms by (intro level_append) auto
  moreover have "tv_next e = NO_LINK \<Longrightarrow> level_at vs (tv_next e) pos = 0" using assms(1) by simp
  ultimately show ?thesis
    using assms level_at.simps [of "vs @ [e]" "length vs" pos] by auto
qed

lemma vals_ok_append:
  "vals_ok vs \<Longrightarrow> length vs < NO_LINK \<Longrightarrow> tv_next e = NO_LINK \<or> tv_next e < length vs \<Longrightarrow> vals_ok (vs @ [e])"
  by (auto simp: vals_ok_def nth_append less_Suc_eq)

subsection \<open>The invariant of a trie and the levels of a key\<close>

text \<open>
  Every value entry belongs to one node: heads of chains belong to their node, and links stay with
  the owner.
\<close>

definition owned :: "(nat \<Rightarrow> nat) \<Rightarrow> trie \<Rightarrow> bool" where
  "owned own t \<longleftrightarrow>
     (\<forall>i < length (nodes t). nd_value (nodes t ! i) = NO_LINK \<or>
        nd_value (nodes t ! i) < length (vals t) \<and> own (nd_value (nodes t ! i)) = i) \<and>
     (\<forall>v < length (vals t). tv_next (vals t ! v) = NO_LINK \<or> own (tv_next (vals t ! v)) = own v)"

definition trie_ok :: "trie \<Rightarrow> bytes list \<Rightarrow> bool" where
  "trie_ok t ks \<longleftrightarrow> trie_keys t ks \<and> vals_ok (vals t) \<and> (\<exists>own. owned own t)"

definition node_level :: "trie \<Rightarrow> nat \<Rightarrow> nat \<Rightarrow> nat" where
  "node_level t i pos = level_at (vals t) (nd_value (nodes t ! i)) pos"

lemma chain_owner:
  "k \<in> set (chain vs l) \<Longrightarrow> vals_ok vs \<Longrightarrow>
   (\<forall>v < length vs. tv_next (vs ! v) = NO_LINK \<or> own (tv_next (vs ! v)) = own v) \<Longrightarrow> own k = own l"
proof (induction vs l rule: chain.induct)
  case (1 vs l)
  from 1(2) chain.simps [of vs l] consider "k = l"
    | "l < length vs" "tv_next (vs ! l) < l" "k \<in> set (chain vs (tv_next (vs ! l)))"
    by (auto split: if_splits)
  then show ?case
  proof cases
    case 2
    then have "tv_next (vs ! l) \<noteq> NO_LINK" using vals_okD(2) [OF 1(3)] by auto
    with 2 1(1) [OF 2(1,2,3) 1(3,4)] 1(4) show ?thesis by auto
  qed simp
qed

lemma trie_keys_cong:
  assumes "trie_keys t ks" "length (nodes t') = length (nodes t)" "root t' = root t"
    and lk: "\<And>j b r. links (nodes t) j b = Some r \<Longrightarrow> links (nodes t') j b = Some r"
  shows "trie_keys t' ks"
proof -
  note inv = trie_keysD [OF assms(1)]
  have "\<exists>r. links (nodes t') i b = Some r \<and> (\<forall>c. r = Some c \<longleftrightarrow> c < length ks \<and> ks ! c = ks ! i @ [b])"
    if "i < length ks" for i b
    using inv(7) [OF that, of b] lk by blast
  moreover have "links (nodes t') 0 b = Some (if root t' b = NO_LINK then None else Some (root t' b))" for b
    using lk [OF inv(8) [of b]] assms(3) by simp
  moreover have "length ks = length (nodes t')" using inv(1) assms(2) by simp
  moreover have "\<forall>k\<in>set ks. k \<noteq> [] \<longrightarrow> butlast k \<in> set ks" using inv(6) by simp
  ultimately show ?thesis
    unfolding trie_keys_def using inv(2-5) by (intro conjI allI impI) simp_all
qed

lemma ownedD:
  assumes "owned own t"
  shows "i < length (nodes t) \<Longrightarrow> nd_value (nodes t ! i) = NO_LINK \<or>
      nd_value (nodes t ! i) < length (vals t) \<and> own (nd_value (nodes t ! i)) = i"
    and "\<forall>v < length (vals t). tv_next (vals t ! v) = NO_LINK \<or> own (tv_next (vals t ! v)) = own v"
  using assms by (simp_all add: owned_def)

lemma chain_node:
  assumes "vals_ok (vals t)" "owned own t" "i < length (nodes t)"
    and k: "k \<in> set (chain (vals t) (nd_value (nodes t ! i)))"
  shows "own k = i"
proof -
  have "nd_value (nodes t ! i) \<noteq> NO_LINK"
    using k vals_okD(2) [OF assms(1)] chain.simps [of "vals t" NO_LINK] by auto
  then show ?thesis
    using chain_owner [OF k assms(1) ownedD(2) [OF assms(2)]] ownedD(1) [OF assms(2,3)] by simp
qed

definition levels_raised :: "trie \<Rightarrow> trie \<Rightarrow> nat \<Rightarrow> nat \<Rightarrow> nat \<Rightarrow> bool" where
  "levels_raised t t' i p v \<longleftrightarrow> (\<forall>j < length (nodes t). \<forall>q. node_level t' j q =
      (if j = i \<and> q = p then max (node_level t j q) v else node_level t j q))"

lemma raise_found:
  assumes ok: "vals_ok (vals t)" "owned own t" and i: "i < length (nodes t)"
    and k: "k \<in> set (chain (vals t) (nd_value (nodes t ! i)))" "tv_pos (vals t ! k) = p"
  shows "levels_raised t (t\<lparr>vals := raise_value (vals t) k v\<rparr>) i p v"
    and "owned own (t\<lparr>vals := raise_value (vals t) k v\<rparr>)"
    and "vals_ok (raise_value (vals t) k v)"
proof -
  have kr: "k < length (vals t)" using chain_range k by blast
  have "own k = i" by (rule chain_node [OF ok i k(1)])
  then have other: "k \<notin> set (chain (vals t) (nd_value (nodes t ! j)))" if "j < length (nodes t)" "j \<noteq> i" for j
    using chain_node [OF ok that(1)] that(2) by metis
  show "levels_raised t (t\<lparr>vals := raise_value (vals t) k v\<rparr>) i p v"
    unfolding levels_raised_def node_level_def
  proof (intro allI impI)
    fix j q assume j: "j < length (nodes t)"
    show "level_at (vals (t\<lparr>vals := raise_value (vals t) k v\<rparr>)) (nd_value (nodes (t\<lparr>vals := raise_value (vals t) k v\<rparr>) ! j)) q =
      (if j = i \<and> q = p then max (level_at (vals t) (nd_value (nodes t ! j)) q) v
       else level_at (vals t) (nd_value (nodes t ! j)) q)"
      using level_raise [OF kr] other [OF j] k by (cases "j = i") simp_all
  qed
  show "owned own (t\<lparr>vals := raise_value (vals t) k v\<rparr>)" using ok(2) kr by (simp add: owned_def)
  show "vals_ok (raise_value (vals t) k v)" by (rule vals_ok_raise [OF ok(1) kr])
qed

text \<open>A fresh entry in front of the chain of node \<open>i\<close>.\<close>

definition add_value :: "trie \<Rightarrow> nat \<Rightarrow> nat \<Rightarrow> nat \<Rightarrow> trie" where
  "add_value t i p v = t\<lparr>
     vals := vals t @ [\<lparr>tv_pos = p, tv_value = v, tv_next = nd_value (nodes t ! i)\<rparr>],
     nodes := (nodes t)[i := (nodes t ! i)\<lparr>nd_value := length (vals t)\<rparr>]\<rparr>"

lemma add_value_nodes:
  assumes "i < length (nodes t)"
  shows "length (nodes (add_value t i p v)) = length (nodes t)"
    and "nd_child (nodes (add_value t i p v) ! j) = nd_child (nodes t ! j)"
    and "nd_sibling (nodes (add_value t i p v) ! j) = nd_sibling (nodes t ! j)"
    and "nd_byte (nodes (add_value t i p v) ! j) = nd_byte (nodes t ! j)"
    and "nd_value (nodes (add_value t i p v) ! j) = (if j = i then length (vals t) else nd_value (nodes t ! j))"
  using assms by (auto simp: add_value_def nth_list_update)

lemma add_value_keys:
  assumes "trie_keys t ks" "i < length (nodes t)"
  shows "trie_keys (add_value t i p v) ks"
proof (rule trie_keys_cong [OF assms(1)])
  note ns = add_value_nodes [OF assms(2)]
  have same: "same_links (nodes t) (nodes (add_value t i p v))" by (simp add: same_links_def ns)
  show "links (nodes (add_value t i p v)) j b = Some r'" if "links (nodes t) j b = Some r'" for j b r'
    using find_sibling_extend [OF _ _ same] that by (simp add: links_def ns)
qed (simp_all add: add_value_def)

lemma add_value_ok:
  assumes ok: "vals_ok (vals t)" "owned own t" and i: "i < length (nodes t)" and room: "length (vals t) < NO_LINK"
  shows "levels_raised t (add_value t i p v) i p v"
    and "owned (own(length (vals t) := i)) (add_value t i p v)"
    and "vals_ok (vals (add_value t i p v))"
proof -
  let ?e = "\<lparr>tv_pos = p, tv_value = v, tv_next = nd_value (nodes t ! i)\<rparr>"
  have vs: "vals (add_value t i p v) = vals t @ [?e]" by (simp add: add_value_def)
  note ns = add_value_nodes [OF i]
  have next_ok: "tv_next ?e = NO_LINK \<or> tv_next ?e < length (vals t)" using ownedD(1) [OF ok(2) i] by auto
  show "vals_ok (vals (add_value t i p v))" unfolding vs by (rule vals_ok_append [OF ok(1) room next_ok])
  show "levels_raised t (add_value t i p v) i p v"
    unfolding levels_raised_def node_level_def vs ns
  proof (intro allI impI)
    fix j q assume j: "j < length (nodes t)"
    have old: "level_at (vals t @ [?e]) (nd_value (nodes t ! j)) q = level_at (vals t) (nd_value (nodes t ! j)) q"
      using ownedD(1) [OF ok(2) j] room by (intro level_append [OF _ room ok(1)]) auto
    show "level_at (vals t @ [?e]) (if j = i then length (vals t) else nd_value (nodes t ! j)) q =
      (if j = i \<and> q = p then max (level_at (vals t) (nd_value (nodes t ! j)) q) v
       else level_at (vals t) (nd_value (nodes t ! j)) q)"
      using level_fresh [OF ok(1) room next_ok, of q] old
      by (cases "j = i"; cases "q = p") (simp_all add: max.commute)
  qed
  show "owned (own(length (vals t) := i)) (add_value t i p v)"
    unfolding owned_def
  proof (intro conjI allI impI)
    fix j assume "j < length (nodes (add_value t i p v))"
    then show "nd_value (nodes (add_value t i p v) ! j) = NO_LINK \<or>
        nd_value (nodes (add_value t i p v) ! j) < length (vals (add_value t i p v)) \<and>
        (own(length (vals t) := i)) (nd_value (nodes (add_value t i p v) ! j)) = j"
      using ownedD(1) [OF ok(2), of j] by (auto simp: ns vs)
  next
    fix w assume w: "w < length (vals (add_value t i p v))"
    show "tv_next (vals (add_value t i p v) ! w) = NO_LINK \<or>
        (own(length (vals t) := i)) (tv_next (vals (add_value t i p v) ! w)) = (own(length (vals t) := i)) w"
    proof (cases "w < length (vals t)")
      case True
      then show ?thesis
        using ownedD(2) [OF ok(2)] vals_okD(1) [OF ok(1) True] by (auto simp: nth_append vs)
    next
      case False
      with w have "w = length (vals t)" by (simp add: vs)
      then show ?thesis using ownedD(1) [OF ok(2) i] by (auto simp: vs)
    qed
  qed
qed

lemma put_value_ok:
  assumes ok: "trie_ok t ks" and i: "i < length (nodes t)" and room: "length (vals t) < NO_LINK"
    and p: "p < 4294967296"
  obtains t' where "put_value t i (p, v) = Some t'" "trie_ok t' ks" "exceptions t' = exceptions t"
    "length (vals t') \<le> Suc (length (vals t))" "levels_raised t t' i p v"
proof -
  obtain own where inv: "trie_keys t ks" "vals_ok (vals t)" "owned own t"
    using ok by (auto simp: trie_ok_def)
  let ?vs = "vals t" and ?h = "nd_value (nodes t ! i)"
  have "?h = NO_LINK \<and> 0 < Suc (length ?vs) \<or> ?h < length ?vs \<and> Suc ?h < Suc (length ?vs)"
    using ownedD(1) [OF inv(3) i] by auto
  from find_pos_chain [OF inv(2) this] obtain r where r: "find_pos (Suc (length ?vs)) ?vs ?h p = Some r"
    "r = Some k \<Longrightarrow> k \<in> set (chain ?vs ?h) \<and> tv_pos (?vs ! k) = p" for k by blast
  have u: "u32_of p = p" using p by (simp add: u32_of_def)
  show ?thesis
  proof (cases r)
    case (Some k)
    then have k: "k \<in> set (chain ?vs ?h)" "tv_pos (?vs ! k) = p" using r(2) by blast+
    let ?t = "t\<lparr>vals := raise_value ?vs k v\<rparr>"
    have "put_value t i (p, v) = Some ?t"
      using r(1) Some i by (simp add: put_value_def u raise_value_def)
    moreover have "trie_keys ?t ks" by (rule trie_keys_cong [OF inv(1)]) simp_all
    then have "trie_ok ?t ks" using raise_found(2,3) [OF inv(2,3) i k] by (auto simp: trie_ok_def)
    moreover note raise_found(1) [OF inv(2,3) i k, of v]
    ultimately show ?thesis by (intro that [of ?t]) simp_all
  next
    case None
    have "u32_of (length (vals (add_value t i p v)) + 4294967295) = length ?vs"
      using room by (simp add: u32_of_def NO_LINK_def add_value_def)
    then have "put_value t i (p, v) = Some (add_value t i p v)"
      using r(1) None i by (simp add: put_value_def u Let_def add_value_def)
    moreover have "trie_ok (add_value t i p v) ks"
      using add_value_keys [OF inv(1) i] add_value_ok(2,3) [OF inv(2,3) i room]
      unfolding trie_ok_def by blast
    moreover have "exceptions (add_value t i p v) = exceptions t"
      "length (vals (add_value t i p v)) = Suc (length ?vs)" by (simp_all add: add_value_def)
    ultimately show ?thesis
      using add_value_ok(1) [OF inv(2,3) i room, of p v] that by (metis le_refl)
  qed
qed

text \<open>The largest level a list of values asks for at a gap.\<close>

definition top_level :: "(nat \<times> nat) list \<Rightarrow> nat \<Rightarrow> nat" where
  "top_level pvs q = fold max (map snd (filter (\<lambda>pv. fst pv = q) pvs)) 0"

lemma fold_max_init: "fold max xs (m::nat) = max m (fold max xs 0)"
proof (induction xs arbitrary: m)
  case (Cons x xs)
  show ?case using Cons [of "max x m"] Cons [of x] by (simp add: max.assoc max.left_commute max.commute)
qed simp

lemma top_level_simps [simp]:
  "top_level [] q = 0"
  "top_level ((p, v) # pvs) q = (if p = q then max v (top_level pvs q) else top_level pvs q)"
  by (simp_all add: top_level_def fold_max_init [of _ v])

lemma put_values_ok:
  assumes "trie_ok t ks" "i < length (nodes t)" "length (vals t) + length pvs \<le> NO_LINK"
    "\<forall>pv \<in> set pvs. fst pv < 4294967296"
  shows "\<exists>t'. put_values t i pvs = Some t' \<and> trie_ok t' ks \<and> exceptions t' = exceptions t \<and>
    length (vals t') \<le> length (vals t) + length pvs \<and>
    (\<forall>j < length ks. \<forall>q. node_level t' j q =
       (if j = i then max (node_level t j q) (top_level pvs q) else node_level t j q))"
  using assms
proof (induction pvs arbitrary: t)
  case (Cons pv pvs)
  obtain p v where pv: "pv = (p, v)" by (cases pv)
  from Cons.prems pv have "length (vals t) < NO_LINK" "p < 4294967296" by simp_all
  from put_value_ok [OF Cons.prems(1,2) this] obtain t1 where 1: "put_value t i (p, v) = Some t1"
    "trie_ok t1 ks" "exceptions t1 = exceptions t" "length (vals t1) \<le> Suc (length (vals t))"
    "levels_raised t t1 i p v" by metis
  have len: "length ks = length (nodes t)" "length ks = length (nodes t1)"
    using Cons.prems(1) 1(2) by (auto simp: trie_ok_def trie_keys_def)
  with Cons.prems 1(4) have "i < length (nodes t1)" "length (vals t1) + length pvs \<le> NO_LINK"
    "\<forall>pv \<in> set pvs. fst pv < 4294967296" by simp_all
  from Cons.IH [OF 1(2) this] obtain t' where t': "put_values t1 i pvs = Some t'" "trie_ok t' ks"
    "exceptions t' = exceptions t1" "length (vals t') \<le> length (vals t1) + length pvs"
    "\<forall>j < length ks. \<forall>q. node_level t' j q =
       (if j = i then max (node_level t1 j q) (top_level pvs q) else node_level t1 j q)" by blast
  have "node_level t' j q = (if j = i then max (node_level t j q) (top_level (pv # pvs) q) else node_level t j q)"
    if "j < length ks" for j q
  proof -
    have "node_level t1 j q = (if j = i \<and> q = p then max (node_level t j q) v else node_level t j q)"
      using 1(5) that len(1) by (simp add: levels_raised_def)
    moreover have "node_level t' j q = (if j = i then max (node_level t1 j q) (top_level pvs q) else node_level t1 j q)"
      using t'(5) that by blast
    ultimately show ?thesis by (cases "j = i"; cases "q = p") (simp_all add: pv max.assoc)
  qed
  then show ?case using 1 t' by (simp add: pv)
qed simp

subsection \<open>Paths\<close>

fun path :: "trie \<Rightarrow> nat \<Rightarrow> bytes \<Rightarrow> nat option option" where
  "path t i [] = Some (Some i)"
| "path t i (b # bs) = do {
     c \<leftarrow> child t i b;
     (case c of None \<Rightarrow> Some None | Some j \<Rightarrow> path t j bs)
   }"

definition trie_level :: "trie \<Rightarrow> bytes \<Rightarrow> nat \<Rightarrow> nat" where
  "trie_level t key pos =
     (case path t 0 key of Some (Some i) \<Rightarrow> node_level t i pos | _ \<Rightarrow> 0)"

lemma keys_prefix_closed: "trie_keys t ks \<Longrightarrow> k @ k' \<in> set ks \<Longrightarrow> k \<in> set ks"
proof (induction k' rule: rev_induct)
  case (snoc b k')
  from trie_keysD(6) [OF snoc.prems] snoc show ?case by (simp add: butlast_append)
qed simp

lemma path_keys:
  assumes "trie_keys t ks" "i < length ks"
  shows "\<exists>r. path t i bs = Some r \<and> (\<forall>c. r = Some c \<longleftrightarrow> c < length ks \<and> ks ! c = ks ! i @ bs)"
  using assms(2)
proof (induction bs arbitrary: i)
  case Nil
  then show ?case using nth_key_unique [OF assms(1)] by auto
next
  case (Cons b bs)
  obtain r where r: "child t i b = Some r" "r = Some c \<longleftrightarrow> c < length ks \<and> ks ! c = ks ! i @ [b]" for c
    using trie_keys_child [OF assms(1) Cons.prems] by blast
  show ?case
  proof (cases r)
    case None
    have "ks ! c \<noteq> ks ! i @ b # bs" if "c < length ks" for c
    proof
      assume "ks ! c = ks ! i @ b # bs"
      then have "(ks ! i @ [b]) @ bs \<in> set ks" using nth_mem [OF that] by simp
      from keys_prefix_closed [OF assms(1) this] r(2) None show False by (auto simp: in_set_conv_nth)
    qed
    then show ?thesis using r(1) None by auto
  next
    case (Some j)
    then have "j < length ks" "ks ! j = ks ! i @ [b]" using r(2) by auto
    with Cons.IH [of j] r(1) Some show ?thesis by simp
  qed
qed

lemma level_of_key:
  assumes "trie_keys t ks" "i < length ks"
  shows "trie_level t (ks ! i) pos = node_level t i pos"
proof -
  have "0 < length ks" using trie_keysD(2) [OF assms(1)] by simp
  from path_keys [OF assms(1) this, of "ks ! i"] obtain r where "path t 0 (ks ! i) = Some r"
    "\<And>c. r = Some c \<longleftrightarrow> c < length ks \<and> ks ! c = ks ! i"
    using trie_keysD(3) [OF assms(1)] by auto
  then have "path t 0 (ks ! i) = Some (Some i)" using assms(2) by simp
  then show ?thesis by (simp add: trie_level_def)
qed

lemma level_of_no_key:
  assumes "trie_keys t ks" "key \<notin> set ks"
  shows "trie_level t key pos = 0"
proof -
  have "0 < length ks" using trie_keysD(2) [OF assms(1)] by simp
  from path_keys [OF assms(1) this, of key] obtain r where "path t 0 key = Some r"
    "\<And>c. r = Some c \<longleftrightarrow> c < length ks \<and> ks ! c = key"
    using trie_keysD(3) [OF assms(1)] by auto
  moreover have "r = None" using calculation(2) assms(2) by (cases r) (auto simp: in_set_conv_nth)
  ultimately show ?thesis by (simp add: trie_level_def)
qed

text \<open>The law of \<open>insert\<close>: only the key's own levels change, and they are raised.\<close>

lemma trie_insert_ok:
  assumes ok: "trie_ok t ks" and room: "length ks + length key \<le> NO_LINK" "length (vals t) + length pvs \<le> NO_LINK"
    and pos: "\<forall>pv \<in> set pvs. fst pv < 4294967296"
  shows "\<exists>t' ks'. trie_insert t key pvs = Some t' \<and> trie_ok t' ks' \<and> exceptions t' = exceptions t \<and>
    length ks' \<le> length ks + length key \<and> length (vals t') \<le> length (vals t) + length pvs \<and>
    (\<forall>k q. trie_level t' k q =
       (if k = key then max (trie_level t k q) (top_level pvs q) else trie_level t k q))"
proof -
  obtain own where inv: "trie_keys t ks" "vals_ok (vals t)" "owned own t"
    using ok by (auto simp: trie_ok_def)
  have "0 < length ks" using trie_keysD(2) [OF inv(1)] by simp
  from descend_keys [OF inv(1) this room(1)] obtain j t1 ks1 where 1: "descend t 0 key = Some (j, t1)"
    "trie_keys t1 ks1" "grows t ks t1 ks1" "j < length ks1" "ks1 ! j = key"
    "length ks1 \<le> length ks + length key"
    using trie_keysD(3) [OF inv(1)] by auto
  have len1: "length ks1 = length (nodes t1)" by (rule trie_keysD [OF 1(2)])
  have g: "vals t1 = vals t" "exceptions t1 = exceptions t" "length ks \<le> length ks1"
    "m < length ks \<Longrightarrow> ks1 ! m = ks ! m \<and> nd_value (nodes t1 ! m) = nd_value (nodes t ! m)"
    "m < length ks1 \<Longrightarrow> length ks \<le> m \<Longrightarrow> nd_value (nodes t1 ! m) = NO_LINK" for m
    using 1(3) by (simp_all add: grows_def)
  have len: "length ks = length (nodes t)" by (rule trie_keysD [OF inv(1)])
  have heads: "nd_value (nodes t1 ! m) = NO_LINK \<or>
      nd_value (nodes t1 ! m) < length (vals t) \<and> own (nd_value (nodes t1 ! m)) = m" if "m < length ks1" for m
    using ownedD(1) [OF inv(3), of m] g(4,5) [of m] len that by (cases "m < length ks") auto
  have "owned own t1"
    using heads ownedD(2) [OF inv(3)] by (simp add: owned_def g(1) len1)
  then have ok1: "trie_ok t1 ks1" using 1(2) inv(2) g(1) by (auto simp: trie_ok_def)
  have old: "set ks \<subseteq> set ks1"
  proof
    fix k assume "k \<in> set ks"
    then obtain m where m: "m < length ks" "ks ! m = k" by (auto simp: in_set_conv_nth)
    then have "m < length ks1" "ks1 ! m = k" using g(3) g(4) [OF m(1)] by simp_all
    then show "k \<in> set ks1" using nth_mem by blast
  qed
  have fresh: "ks1 ! m \<notin> set ks" if m: "m < length ks1" "length ks \<le> m" for m
  proof
    assume "ks1 ! m \<in> set ks"
    then obtain m' where m': "m' < length ks" "ks ! m' = ks1 ! m" by (auto simp: in_set_conv_nth)
    then have "ks1 ! m' = ks1 ! m" "m' < length ks1" using g(3) g(4) [OF m'(1)] by simp_all
    with nth_key_unique [OF 1(2) this(2) m(1)] m' m(2) show False by simp
  qed
  have same: "trie_level t1 k q = trie_level t k q" for k q
  proof (cases "k \<in> set ks1")
    case False
    with old have "k \<notin> set ks" by blast
    with False show ?thesis by (simp add: level_of_no_key [OF 1(2)] level_of_no_key [OF inv(1)])
  next
    case True
    then obtain m where m: "m < length ks1" "ks1 ! m = k" by (auto simp: in_set_conv_nth)
    have l1: "trie_level t1 k q = node_level t1 m q" using level_of_key [OF 1(2) m(1)] m(2) by simp
    show ?thesis
    proof (cases "m < length ks")
      case True
      then show ?thesis
        using l1 g(1) g(4) [OF True] level_of_key [OF inv(1) True, of q] m(2) by (simp add: node_level_def)
    next
      case False
      then have "k \<notin> set ks"
        using m fresh [of m] by simp
      then show ?thesis
        using l1 g(1) g(5) [OF m(1)] False inv(2) by (simp add: node_level_def level_of_no_key [OF inv(1)])
    qed
  qed
  have "length (vals t1) + length pvs \<le> NO_LINK" using room(2) g(1) by simp
  moreover have "j < length (nodes t1)" using 1(4) len1 by simp
  ultimately obtain t' where t': "put_values t1 j pvs = Some t'"
    "trie_ok t' ks1" "exceptions t' = exceptions t1" "length (vals t') \<le> length (vals t1) + length pvs"
    "\<forall>i < length ks1. \<forall>q. node_level t' i q =
       (if i = j then max (node_level t1 i q) (top_level pvs q) else node_level t1 i q)"
    using put_values_ok [OF ok1 _ _ pos] by blast
  have keys': "trie_keys t' ks1" using t'(2) by (simp add: trie_ok_def)
  have "trie_level t' k q = (if k = key then max (trie_level t k q) (top_level pvs q) else trie_level t k q)" for k q
  proof (cases "k \<in> set ks1")
    case False
    then have "k \<noteq> key" using 1(4,5) nth_mem by blast
    then show ?thesis
      using False level_of_no_key [OF keys' False] level_of_no_key [OF 1(2) False] same by simp
  next
    case True
    then obtain m where m: "m < length ks1" "ks1 ! m = k" by (auto simp: in_set_conv_nth)
    have "m = j \<longleftrightarrow> k = key" using m 1(4,5) nth_key_unique [OF 1(2) m(1) 1(4)] by auto
    then show ?thesis
      using t'(5) m level_of_key [OF keys' m(1), of q] level_of_key [OF 1(2) m(1), of q] same
      by (cases "k = key") simp_all
  qed
  then show ?thesis using 1 t' g by (auto simp: trie_insert_def)
qed

end
