(* ===== verification/HyphenSpec.thy ===== *)
theory HyphenSpec
  imports HyphenTrie
begin

text \<open>
  Liang's rule as a specification, the interface between the trie and the hyphenator, and the proof
  that the trie of \<open>Hyphen\<close> implements the rule.
\<close>

subsection \<open>The rule\<close>

definition max_list :: "nat list \<Rightarrow> nat" where
  "max_list xs = foldr max xs 0"

lemma max_list_simps [simp]: "max_list [] = 0" "max_list (x # xs) = max x (max_list xs)"
  by (simp_all add: max_list_def)

lemma le_max_list: "v \<le> max_list xs \<longleftrightarrow> v = 0 \<or> (\<exists>x \<in> set xs. v \<le> x)"
  by (induction xs) (auto simp: le_max_iff_disj)

lemma nat_eq_by_lower: "(\<And>v. v \<le> a \<longleftrightarrow> v \<le> b) \<Longrightarrow> a = (b::nat)"
  by (meson le_antisym order_refl)

type_synonym pattern = "bytes \<times> (nat \<times> nat) list"

definition parse_pattern :: "bytes \<Rightarrow> pattern" where
  "parse_pattern p = scan_pattern p [] [] 0"

text \<open>The level of one pattern matched at offset \<open>s\<close> of the text, at gap \<open>g\<close> of the text.\<close>

definition match_level :: "pattern \<Rightarrow> bytes \<Rightarrow> nat \<Rightarrow> nat \<Rightarrow> nat" where
  "match_level p text s g =
     (if fst p \<noteq> [] \<and> take (length (fst p)) (drop s text) = fst p \<and> s \<le> g
      then top_level (snd p) (g - s) else 0)"

definition liang_level :: "pattern list \<Rightarrow> bytes \<Rightarrow> nat \<Rightarrow> nat" where
  "liang_level ps text g =
     max_list (concat (map (\<lambda>p. map (\<lambda>s. match_level p text s g) [0..<length text]) ps))"

definition exception_map :: "bytes list \<Rightarrow> bytes \<Rightarrow> nat list option" where
  "exception_map excs = map_of (rev (filter (\<lambda>e. 2 \<le> length (fst e)) (map (\<lambda>e. scan_exception e [] []) excs)))"

definition hyphens_spec :: "bytes list \<Rightarrow> bytes list \<Rightarrow> bytes \<Rightarrow> nat \<Rightarrow> nat \<Rightarrow> nat list" where
  "hyphens_spec pats excs word l r =
     (let left = max l 1; right = max r 1; n = length word in
      if n < left + right then []
      else
        (case exception_map excs word of
           Some pts \<Rightarrow> filter (\<lambda>k. left \<le> k \<and> k + right \<le> n) pts
         | None \<Rightarrow> filter
             (\<lambda>k. odd (liang_level (map parse_pattern pats) ([CHR ''.''] @ word @ [CHR ''.'']) (k + 1)))
             [left..<n - right + 1]))"

subsection \<open>Reading a trie\<close>

definition raised_by :: "nat list \<Rightarrow> nat list \<Rightarrow> nat \<Rightarrow> (nat \<Rightarrow> nat) \<Rightarrow> bool" where
  "raised_by vs vs' start lev \<longleftrightarrow> length vs' = length vs \<and>
     (\<forall>g < length vs. vs' ! g = max (vs ! g) (if start \<le> g then lev (g - start) else 0))"

lemma apply_values_level:
  assumes "vals_ok tvs" "link = NO_LINK \<and> 0 < f \<or> link < length tvs \<and> Suc link < f"
  shows "\<exists>vs'. apply_values False f tvs link start vs = Some vs' \<and>
    raised_by vs vs' start (level_at tvs link)"
  using assms
proof (induction f arbitrary: link vs)
  case (Suc f)
  show ?case
  proof (cases "link = NO_LINK")
    case True
    then show ?thesis using Suc.prems by (simp add: apply_values.simps raised_by_def)
  next
    case False
    let ?e = "tvs ! link" and ?l = "level_at tvs link"
    let ?vs = "if start + tv_pos ?e < length vs
      then vs[start + tv_pos ?e := max (vs ! (start + tv_pos ?e)) (tv_value ?e)] else vs"
    have l: "link < length tvs" "link < f" using False Suc.prems by auto
    have nxt: "tv_next ?e = NO_LINK \<or> tv_next ?e < link" by (rule vals_okD(1) [OF Suc.prems(1) l(1)])
    then have "tv_next ?e = NO_LINK \<and> 0 < f \<or> tv_next ?e < length tvs \<and> Suc (tv_next ?e) < f"
      using l by auto
    from Suc.IH [OF Suc.prems(1) this] obtain vs' where
      vs': "apply_values False f tvs (tv_next ?e) start ?vs = Some vs'"
      "raised_by ?vs vs' start (level_at tvs (tv_next ?e))" by blast
    have lev: "?l q = max (if tv_pos ?e = q then tv_value ?e else 0) (level_at tvs (tv_next ?e) q)" for q
      using nxt l vals_okD(2) [OF Suc.prems(1)] level_NO_LINK [OF Suc.prems(1), of q]
        level_at.simps [of tvs link q] by auto
    have "raised_by vs vs' start ?l"
      unfolding raised_by_def
    proof (intro conjI allI impI)
      show "length vs' = length vs" using vs'(2) by (simp add: raised_by_def split: if_splits)
      fix g assume g: "g < length vs"
      then have "vs' ! g = max (?vs ! g) (if start \<le> g then level_at tvs (tv_next ?e) (g - start) else 0)"
        using vs'(2) by (simp add: raised_by_def split: if_splits)
      moreover have "?vs ! g = max (vs ! g) (if start \<le> g \<and> tv_pos ?e = g - start then tv_value ?e else 0)"
        using g by (auto simp: nth_list_update)
      ultimately show "vs' ! g = max (vs ! g) (if start \<le> g then ?l (g - start) else 0)"
        by (simp add: lev max.assoc)
    qed
    moreover have "apply_values False (Suc f) tvs link start vs = Some vs'"
    proof -
      have "raise_at False vs (start + tv_pos ?e) (tv_value ?e) = Some ?vs" by (simp add: raise_at_def)
      then show ?thesis using False l(1) vs'(1) by (simp only: apply_values.simps Let_def if_False not_le) simp
    qed
    ultimately show ?thesis by blast
  qed
qed simp

text \<open>One walk from \<open>start\<close> raises each gap to the levels of the prefixes of the rest of the text.\<close>

definition covers :: "nat list \<Rightarrow> nat list \<Rightarrow> (nat \<Rightarrow> nat \<Rightarrow> bool) \<Rightarrow> bool" where
  "covers vs vs' P \<longleftrightarrow> length vs' = length vs \<and>
     (\<forall>g < length vs. \<forall>v. v \<le> vs' ! g \<longleftrightarrow> v \<le> vs ! g \<or> P g v)"

lemma ex_up_to_Suc: "(\<exists>j \<in> {1..Suc n}. P j) \<longleftrightarrow> P 1 \<or> (\<exists>j \<in> {1..n}. P (Suc j))"
proof -
  have "{1..Suc n} = insert 1 (Suc ` {1..n})" by auto
  then show ?thesis by (metis (no_types, lifting) image_iff insert_iff)
qed

lemma walk_levels:
  assumes ok: "trie_ok t ks" and i: "i < length ks"
  shows "\<exists>vs'. walk False t i bs start vs = Some vs' \<and>
    covers vs vs' (\<lambda>g v. start \<le> g \<and> (\<exists>j \<in> {1..length bs}. v \<le> trie_level t (ks ! i @ take j bs) (g - start)))"
  using i
proof (induction bs arbitrary: i vs)
  case Nil
  then show ?case by (simp add: covers_def)
next
  case (Cons b bs)
  obtain own where inv: "trie_keys t ks" "vals_ok (vals t)" "owned own t"
    using ok by (auto simp: trie_ok_def)
  obtain r where r: "child t i b = Some r" "r = Some c \<longleftrightarrow> c < length ks \<and> ks ! c = ks ! i @ [b]" for c
    using trie_keys_child [OF inv(1) Cons.prems] by blast
  show ?case
  proof (cases r)
    case None
    have "trie_level t (ks ! i @ take j (b # bs)) q = 0" if j1: "1 \<le> j" for j q
    proof (rule level_of_no_key [OF inv(1)])
      obtain j' where "j = Suc j'" using j1 by (cases j) auto
      moreover have "ks ! i @ [b] \<notin> set ks" using r(2) None by (auto simp: in_set_conv_nth)
      then have "(ks ! i @ [b]) @ take j' bs \<notin> set ks" using keys_prefix_closed [OF inv(1)] by blast
      ultimately show "ks ! i @ take j (b # bs) \<notin> set ks" by simp
    qed
    then show ?thesis using r(1) None by (auto simp: covers_def)
  next
    case (Some c)
    then have c: "c < length ks" "ks ! c = ks ! i @ [b]" using r(2) by auto
    have cn: "c < length (nodes t)" using c(1) trie_keysD(1) [OF inv(1)] by simp
    have "nd_value (nodes t ! c) = NO_LINK \<and> 0 < Suc (length (vals t)) \<or>
        nd_value (nodes t ! c) < length (vals t) \<and> Suc (nd_value (nodes t ! c)) < Suc (length (vals t))"
      using ownedD(1) [OF inv(3) cn] by auto
    from apply_values_level [OF inv(2) this] obtain vs1 where
      1: "apply_values False (Suc (length (vals t))) (vals t) (nd_value (nodes t ! c)) start vs = Some vs1"
        "raised_by vs vs1 start (level_at (vals t) (nd_value (nodes t ! c)))" by blast
    from Cons.IH [OF c(1)] obtain vs' where 2: "walk False t c bs start vs1 = Some vs'"
      "covers vs1 vs' (\<lambda>g v. start \<le> g \<and> (\<exists>j \<in> {1..length bs}. v \<le> trie_level t (ks ! c @ take j bs) (g - start)))"
      by blast
    have here: "level_at (vals t) (nd_value (nodes t ! c)) q = trie_level t (ks ! i @ [b]) q" for q
      using level_of_key [OF inv(1) c(1), of q] c(2) by (simp add: node_level_def)
    have split: "(\<exists>j \<in> {1..length (b # bs)}. v \<le> trie_level t (ks ! i @ take j (b # bs)) q) \<longleftrightarrow>
        v \<le> trie_level t (ks ! i @ [b]) q \<or> (\<exists>j \<in> {1..length bs}. v \<le> trie_level t (ks ! c @ take j bs) q)" for v q
      using ex_up_to_Suc [of "length bs" "\<lambda>j. v \<le> trie_level t (ks ! i @ take j (b # bs)) q"]
      by (simp add: c(2))
    have "covers vs vs' (\<lambda>g v. start \<le> g \<and>
        (\<exists>j \<in> {1..length (b # bs)}. v \<le> trie_level t (ks ! i @ take j (b # bs)) (g - start)))"
      unfolding covers_def split
      using 1(2) 2(2) by (auto simp: covers_def raised_by_def here le_max_iff_disj)
    then show ?thesis using r(1) Some cn 1(1) 2(1) by auto
  qed
qed

lemma walk_all_levels:
  assumes ok: "trie_ok t ks"
  shows "\<exists>vs'. walk_all False t text starts vs = Some vs' \<and>
    covers vs vs' (\<lambda>g v. \<exists>s \<in> set starts. s \<le> g \<and>
      (\<exists>j \<in> {1..length (drop s text)}. v \<le> trie_level t (take j (drop s text)) (g - s)))"
proof (induction starts arbitrary: vs)
  case Nil
  then show ?case by (simp add: covers_def)
next
  case (Cons s starts)
  have inv: "trie_keys t ks" using ok by (simp add: trie_ok_def)
  then have "0 < length ks" "ks ! 0 = []" using trie_keysD(2,3) by auto
  with walk_levels [OF ok this(1), of "drop s text" s vs] obtain vs1 where
    1: "walk False t 0 (drop s text) s vs = Some vs1"
    "covers vs vs1 (\<lambda>g v. s \<le> g \<and> (\<exists>j \<in> {1..length (drop s text)}. v \<le> trie_level t (take j (drop s text)) (g - s)))"
    by auto
  from Cons.IH [of vs1] obtain vs' where 2: "walk_all False t text starts vs1 = Some vs'"
    "covers vs1 vs' (\<lambda>g v. \<exists>s \<in> set starts. s \<le> g \<and>
      (\<exists>j \<in> {1..length (drop s text)}. v \<le> trie_level t (take j (drop s text)) (g - s)))" by blast
  have "covers vs vs' (\<lambda>g v. \<exists>s \<in> set (s # starts). s \<le> g \<and>
      (\<exists>j \<in> {1..length (drop s text)}. v \<le> trie_level t (take j (drop s text)) (g - s)))"
    using 1(2) 2(2) unfolding covers_def by (simp del: length_drop)
  then show ?case using 1(1) 2(1) by simp
qed

subsection \<open>The interface of a pattern store\<close>

text \<open>
  What the hyphenator needs of its pattern store: an insertion with room left succeeds, raises the
  levels of its own key and leaves those of every other key.
\<close>

locale pattern_store =
  fixes ins :: "'t \<Rightarrow> bytes \<Rightarrow> (nat \<times> nat) list \<Rightarrow> 't option"
    and level :: "'t \<Rightarrow> bytes \<Rightarrow> nat \<Rightarrow> nat"
    and room :: "'t \<Rightarrow> nat \<Rightarrow> nat \<Rightarrow> bool"
    and rest :: "'t \<Rightarrow> 'r"
  assumes ins_level: "room t (length key + n) (length pvs + m) \<Longrightarrow> \<forall>pv \<in> set pvs. fst pv < 4294967296 \<Longrightarrow>
    \<exists>t'. ins t key pvs = Some t' \<and> room t' n m \<and> rest t' = rest t \<and>
      (\<forall>k q. level t' k q = (if k = key then max (level t k q) (top_level pvs q) else level t k q))"
begin

fun ins_all :: "'t \<Rightarrow> pattern list \<Rightarrow> 't option" where
  "ins_all t [] = Some t"
| "ins_all t (p # ps) = Option.bind (ins t (fst p) (snd p)) (\<lambda>t'. ins_all t' ps)"

lemma ins_all_level:
  "room t (sum_list (map (\<lambda>p. length (fst p)) ps)) (sum_list (map (\<lambda>p. length (snd p)) ps)) \<Longrightarrow>
   \<forall>p \<in> set ps. \<forall>pv \<in> set (snd p). fst pv < 4294967296 \<Longrightarrow>
   \<exists>t'. ins_all t ps = Some t' \<and> room t' 0 0 \<and> rest t' = rest t \<and>
     (\<forall>k q v. v \<le> level t' k q \<longleftrightarrow> v \<le> level t k q \<or> (\<exists>p \<in> set ps. fst p = k \<and> v \<le> top_level (snd p) q))"
proof (induction ps arbitrary: t)
  case Nil
  then show ?case by simp
next
  case (Cons p ps)
  from Cons.prems have "room t (length (fst p) + sum_list (map (\<lambda>p. length (fst p)) ps))
      (length (snd p) + sum_list (map (\<lambda>p. length (snd p)) ps))"
    and pos: "\<forall>pv \<in> set (snd p). fst pv < 4294967296"
    and rest: "\<forall>p \<in> set ps. \<forall>pv \<in> set (snd p). fst pv < 4294967296" by simp_all
  from ins_level [OF this(1) pos] obtain t1 where 1: "ins t (fst p) (snd p) = Some t1"
    "room t1 (sum_list (map (\<lambda>p. length (fst p)) ps)) (sum_list (map (\<lambda>p. length (snd p)) ps))"
    "rest t1 = rest t"
    "\<forall>k q. level t1 k q = (if k = fst p then max (level t k q) (top_level (snd p) q) else level t k q)" by blast
  from Cons.IH [OF 1(2) rest] obtain t' where 2: "ins_all t1 ps = Some t'" "room t' 0 0" "rest t' = rest t1"
    "\<forall>k q v. v \<le> level t' k q \<longleftrightarrow> v \<le> level t1 k q \<or> (\<exists>p \<in> set ps. fst p = k \<and> v \<le> top_level (snd p) q)"
    by blast
  have "v \<le> level t' k q \<longleftrightarrow>
      v \<le> level t k q \<or> (\<exists>p \<in> set (p # ps). fst p = k \<and> v \<le> top_level (snd p) q)" for k q v
    using 1(4) 2(4) by (auto simp: le_max_iff_disj)
  then show ?case using 1(1,3) 2(1,2,3) by auto
qed

end

definition trie_room :: "trie \<Rightarrow> nat \<Rightarrow> nat \<Rightarrow> bool" where
  "trie_room t n m \<longleftrightarrow> (\<exists>ks. trie_ok t ks \<and> length ks + n \<le> NO_LINK \<and> length (vals t) + m \<le> NO_LINK)"

interpretation trie: pattern_store trie_insert trie_level trie_room exceptions
proof
  fix t :: trie and key :: bytes and n m :: nat and pvs :: "(nat \<times> nat) list"
  assume "trie_room t (length key + n) (length pvs + m)" and pos: "\<forall>pv \<in> set pvs. fst pv < 4294967296"
  then obtain ks where ks: "trie_ok t ks" "length ks + (length key + n) \<le> NO_LINK"
    "length (vals t) + (length pvs + m) \<le> NO_LINK" by (auto simp: trie_room_def)
  then have "length ks + length key \<le> NO_LINK" "length (vals t) + length pvs \<le> NO_LINK" by simp_all
  from trie_insert_ok [OF ks(1) this pos] obtain t' ks' where t': "trie_insert t key pvs = Some t'"
    "trie_ok t' ks'" "exceptions t' = exceptions t" "length ks' \<le> length ks + length key"
    "length (vals t') \<le> length (vals t) + length pvs"
    "\<forall>k q. trie_level t' k q = (if k = key then max (trie_level t k q) (top_level pvs q) else trie_level t k q)"
    by blast
  then have "trie_room t' n m" using ks(2,3) unfolding trie_room_def by (intro exI [of _ ks']) simp
  with t' show "\<exists>t'. trie_insert t key pvs = Some t' \<and> trie_room t' n m \<and> exceptions t' = exceptions t \<and>
      (\<forall>k q. trie_level t' k q =
        (if k = key then max (trie_level t k q) (top_level pvs q) else trie_level t k q))" by blast
qed

end
