(* ===== verification/HyphenCorrect.thy ===== *)
theory HyphenCorrect
  imports HyphenSpec
begin

text \<open>
  Correctness of the hyphenator: a trie loaded with patterns and exception words hyphenates by
  Liang's rule.
\<close>

subsection \<open>Loading tokens\<close>

lemma scan_pattern_step:
  obtains (digit) "is_ascii_digit ch" "scan_pattern (ch # rest) k pvs n =
      scan_pattern rest k (if ch \<noteq> CHR ''0'' then pvs @ [(n, of_char ch - 48)] else pvs) n"
    | (letter) c rest' where "\<not> is_ascii_digit ch" "length rest' \<le> length rest"
      "scan_pattern (ch # rest) k pvs n = scan_pattern rest' (k @ [c]) pvs (n + 1)"
proof (cases "is_ascii_digit ch")
  case True
  then show ?thesis using digit by simp
next
  case False
  show ?thesis
  proof (cases "hex_escape (ch # rest)")
    case None
    then show ?thesis using letter [of rest ch] False by simp
  next
    case (Some x)
    obtain c rest' where x: "x = (c, rest')" by (cases x)
    then show ?thesis using letter [of rest' c] False Some hex_escape_length [of "ch # rest" c rest'] by simp
  qed
qed

lemma scan_pattern_bounds:
  "length (fst (scan_pattern p k pvs n)) \<le> length k + length p \<and>
   length (snd (scan_pattern p k pvs n)) \<le> length pvs + length p \<and>
   ((\<forall>pv \<in> set pvs. fst pv \<le> n) \<longrightarrow> (\<forall>pv \<in> set (snd (scan_pattern p k pvs n)). fst pv \<le> n + length p))"
proof (induction p arbitrary: k pvs n rule: length_induct)
  case (1 p)
  show ?case
  proof (cases p)
    case (Cons ch rest)
    show ?thesis
    proof (cases rule: scan_pattern_step [of ch rest k pvs n])
      case digit
      let ?pvs = "if ch \<noteq> CHR ''0'' then pvs @ [(n, of_char ch - 48)] else pvs"
      have "length ?pvs \<le> Suc (length pvs)" "(\<forall>pv \<in> set pvs. fst pv \<le> n) \<longrightarrow> (\<forall>pv \<in> set ?pvs. fst pv \<le> n)"
        by simp_all
      moreover have "length (fst (scan_pattern rest k ?pvs n)) \<le> length k + length rest \<and>
          length (snd (scan_pattern rest k ?pvs n)) \<le> length ?pvs + length rest \<and>
          ((\<forall>pv \<in> set ?pvs. fst pv \<le> n) \<longrightarrow> (\<forall>pv \<in> set (snd (scan_pattern rest k ?pvs n)). fst pv \<le> n + length rest))"
        using 1 Cons by simp
      ultimately show ?thesis
        unfolding digit(2) Cons by (force intro: le_SucI simp del: scan_pattern.simps)
    next
      case (letter c rest')
      have "length (fst (scan_pattern rest' (k @ [c]) pvs (n + 1))) \<le> length (k @ [c]) + length rest' \<and>
          length (snd (scan_pattern rest' (k @ [c]) pvs (n + 1))) \<le> length pvs + length rest' \<and>
          ((\<forall>pv \<in> set pvs. fst pv \<le> n + 1) \<longrightarrow>
           (\<forall>pv \<in> set (snd (scan_pattern rest' (k @ [c]) pvs (n + 1))). fst pv \<le> n + 1 + length rest'))"
        using 1 [rule_format, of rest' "k @ [c]" pvs "n + 1"] Cons letter(2) by simp
      then show ?thesis
        using letter(2) unfolding letter(3) Cons by (fastforce intro: le_SucI simp del: scan_pattern.simps)
    qed
  qed simp
qed

lemma parse_pattern_bounds:
  "length (fst (parse_pattern p)) \<le> length p" "length (snd (parse_pattern p)) \<le> length p"
  "pv \<in> set (snd (parse_pattern p)) \<Longrightarrow> fst pv \<le> length p"
  using scan_pattern_bounds [of p "[]" "[]" 0]
  by (simp_all add: parse_pattern_def)

definition real_patterns :: "bytes list \<Rightarrow> pattern list" where
  "real_patterns pats = filter (\<lambda>p. fst p \<noteq> []) (map parse_pattern pats)"

lemma add_tokens_patterns:
  "add_tokens True pats t np ne =
    map_option (\<lambda>t'. (t', np + length pats, ne)) (trie.ins_all t (real_patterns pats))"
proof (induction pats arbitrary: t np)
  case (Cons p pats)
  have "add_pattern_bytes t p =
      (if fst (parse_pattern p) = [] then Some t
       else trie_insert t (fst (parse_pattern p)) (snd (parse_pattern p)))"
    by (simp add: add_pattern_bytes_def parse_pattern_def case_prod_beta Let_def)
  then show ?case
    using Cons by (cases "trie_insert t (fst (parse_pattern p)) (snd (parse_pattern p))")
      (simp_all add: real_patterns_def)
qed (simp add: real_patterns_def)

lemma add_tokens_exceptions:
  "add_tokens False es t np ne =
    Some (t\<lparr>exceptions := exceptions t ++ exception_map es\<rparr>, np, ne + length es)"
proof (induction es arbitrary: t ne)
  case (Cons e es)
  obtain k pts where e: "scan_exception e [] [] = (k, pts)" by (cases "scan_exception e [] []")
  have "exception_map (e # es) = (if 2 \<le> length k then [k \<mapsto> pts] else Map.empty) ++ exception_map es"
    by (simp add: exception_map_def e)
  then show ?case
    using Cons [of _ "Suc ne"] by (simp add: add_exception_bytes_def e)
qed (simp add: exception_map_def)

subsection \<open>Exceptions do not touch the patterns\<close>

lemma child_exceptions [simp]: "child (t\<lparr>exceptions := e\<rparr>) i b = child t i b"
  by (simp add: child_def Let_def)

lemma path_exceptions [simp]: "path (t\<lparr>exceptions := e\<rparr>) i k = path t i k"
  by (induction t i k rule: path.induct) (simp_all split: option.splits bind_splits)

lemma trie_level_exceptions [simp]: "trie_level (t\<lparr>exceptions := e\<rparr>) k q = trie_level t k q"
  by (simp add: trie_level_def node_level_def split: option.splits)

lemma trie_ok_exceptions [simp]: "trie_ok (t\<lparr>exceptions := e\<rparr>) ks = trie_ok t ks"
  by (simp add: trie_ok_def trie_keys_def owned_def)

subsection \<open>The rule\<close>

lemma sum_list_le: "(\<And>x. x \<in> set xs \<Longrightarrow> f x \<le> (g x :: nat)) \<Longrightarrow> sum_list (map f xs) \<le> sum_list (map g xs)"
  by (rule sum_list_mono)

lemma filter_sum_le: "sum_list (map f (filter P xs)) \<le> sum_list (map (f :: 'a \<Rightarrow> nat) xs)"
  by (induction xs) auto

lemma loaded_patterns:
  assumes "sum_list (map length pats) < NO_LINK"
  obtains t0 t ks where "trie_new = Some t0" "trie.ins_all t0 (real_patterns pats) = Some t" "trie_ok t ks"
    "exceptions t = Map.empty"
    "\<And>k q v. v \<le> trie_level t k q \<longleftrightarrow> v = 0 \<or> (\<exists>p \<in> set (real_patterns pats). fst p = k \<and> v \<le> top_level (snd p) q)"
proof -
  obtain t0 where t0: "trie_new = Some t0" "trie_keys t0 [[]]" "vals t0 = []" "exceptions t0 = Map.empty"
    "nd_value (nodes t0 ! 0) = NO_LINK" using trie_keys_new by blast
  have len0: "length (nodes t0) = 1" using trie_keysD(1) [OF t0(2)] by simp
  have ok0: "trie_ok t0 [[]]" using t0 len0 by (simp add: trie_ok_def vals_ok_def owned_def)
  have zero: "trie_level t0 k q = 0" for k q
    using level_of_key [OF t0(2), of 0 q] level_of_no_key [OF t0(2), of k q] t0(3,5)
    by (cases "k = []") (simp_all add: node_level_def level_at.simps)
  have bound: "sum_list (map f (real_patterns pats)) \<le> sum_list (map length pats)"
    if "\<And>p. f (parse_pattern p) \<le> length p" for f
    unfolding real_patterns_def
    by (rule order_trans [OF filter_sum_le]) (auto simp: o_def intro!: sum_list_le that)
  have "trie_room t0 (sum_list (map (\<lambda>p. length (fst p)) (real_patterns pats)))
      (sum_list (map (\<lambda>p. length (snd p)) (real_patterns pats)))"
    using ok0 t0(3) assms bound [of "\<lambda>p. length (fst p)"] bound [of "\<lambda>p. length (snd p)"] parse_pattern_bounds
    unfolding trie_room_def by (intro exI [of _ "[[]]"]) simp
  moreover have "\<forall>p \<in> set (real_patterns pats). \<forall>pv \<in> set (snd p). fst pv < 4294967296"
  proof (intro ballI)
    fix p pv assume "p \<in> set (real_patterns pats)" and pv: "pv \<in> set (snd p)"
    then obtain s where s: "s \<in> set pats" "p = parse_pattern s" by (auto simp: real_patterns_def)
    then have "fst pv \<le> length s" using parse_pattern_bounds(3) pv by blast
    also have "length s \<le> sum_list (map length pats)" using s(1) by (simp add: member_le_sum_list)
    finally show "fst pv < 4294967296" using assms by (simp add: NO_LINK_def)
  qed
  ultimately obtain t where t: "trie.ins_all t0 (real_patterns pats) = Some t" "trie_room t 0 0"
    "exceptions t = exceptions t0"
    "\<forall>k q v. v \<le> trie_level t k q \<longleftrightarrow> v \<le> trie_level t0 k q \<or>
       (\<exists>p \<in> set (real_patterns pats). fst p = k \<and> v \<le> top_level (snd p) q)"
    using trie.ins_all_level by blast
  from t(2) obtain ks where "trie_ok t ks" by (auto simp: trie_room_def)
  with t0(1,4) t show ?thesis by (intro that [of t0 t ks]) (auto simp: zero)
qed

lemma liang_level_le:
  "v \<le> liang_level ps text g \<longleftrightarrow>
    v = 0 \<or> (\<exists>p \<in> set ps. \<exists>s < length text. v \<le> match_level p text s g)"
  by (auto simp: liang_level_def le_max_list)

lemma walk_all_liang:
  assumes ok: "trie_ok t ks"
    and lev: "\<And>k q v. v \<le> trie_level t k q \<longleftrightarrow> v = 0 \<or> (\<exists>p \<in> set ps. fst p = k \<and> v \<le> top_level (snd p) q)"
  obtains vs where "walk_all False t text [0..<length text] (replicate (length text + 1) 0) = Some vs"
    "\<And>g. g < length text + 1 \<Longrightarrow> vs ! g = liang_level ps text g"
proof -
  let ?z = "replicate (length text + 1) (0::nat)"
  obtain vs where vs: "walk_all False t text [0..<length text] ?z = Some vs"
    "covers ?z vs (\<lambda>g v. \<exists>s \<in> set [0..<length text]. s \<le> g \<and>
      (\<exists>j \<in> {1..length (drop s text)}. v \<le> trie_level t (take j (drop s text)) (g - s)))"
    using walk_all_levels [OF ok] by blast
  have hit: "(\<exists>j \<in> {1..length (drop s text)}. \<exists>p \<in> set ps. fst p = take j (drop s text) \<and> v \<le> top_level (snd p) (g - s))
      \<longleftrightarrow> (\<exists>p \<in> set ps. v \<le> match_level p text s g)" if "s \<le> g" "0 < v" for s g v
  proof
    assume "\<exists>p \<in> set ps. v \<le> match_level p text s g"
    then obtain p where p0: "p \<in> set ps" "v \<le> match_level p text s g" by blast
    with that(2) have p: "p \<in> set ps" "fst p \<noteq> []" "take (length (fst p)) (drop s text) = fst p"
      "v \<le> top_level (snd p) (g - s)"
      by (simp_all add: match_level_def split: if_splits)
    from p(3) have "length (fst p) \<le> length (drop s text)" by (metis length_take min.cobounded1)
    with p(2) have "length (fst p) \<in> {1..length (drop s text)}" by (simp add: Suc_le_eq)
    with p(1,4) p(3) [symmetric] show "\<exists>j \<in> {1..length (drop s text)}. \<exists>p \<in> set ps. fst p = take j (drop s text) \<and>
        v \<le> top_level (snd p) (g - s)"
      by blast
  next
    assume "\<exists>j \<in> {1..length (drop s text)}. \<exists>p \<in> set ps. fst p = take j (drop s text) \<and>
        v \<le> top_level (snd p) (g - s)"
    then obtain j p where j: "1 \<le> j" "j \<le> length (drop s text)" "p \<in> set ps" "fst p = take j (drop s text)"
      "v \<le> top_level (snd p) (g - s)" by auto
    then have "length (fst p) = j" by simp
    with j(1) j(4) [symmetric] have "fst p \<noteq> []" "take (length (fst p)) (drop s text) = fst p" by auto
    with j(5) that(1) have "v \<le> match_level p text s g" by (simp add: match_level_def)
    with j(3) show "\<exists>p \<in> set ps. v \<le> match_level p text s g" by blast
  qed
  show ?thesis
  proof (rule that [OF vs(1)], rule nat_eq_by_lower)
    fix g v assume g: "g < length text + 1"
    have late: "match_level p text s g = 0" if "\<not> s \<le> g" for p s using that by (simp add: match_level_def)
    show "v \<le> vs ! g \<longleftrightarrow> v \<le> liang_level ps text g"
    proof (cases "v = 0")
      case False
      then have v: "0 < v" "\<not> v \<le> 0" by simp_all
      let ?hit = "\<lambda>s. \<exists>j \<in> {1..length (drop s text)}. \<exists>p \<in> set ps. fst p = take j (drop s text) \<and> v \<le> top_level (snd p) (g - s)"
      have "length ?z = length text + 1" "?z ! g = 0" using g by (simp_all only: length_replicate nth_replicate)
      then have "v \<le> vs ! g \<longleftrightarrow> v \<le> 0 \<or> (\<exists>s \<in> set [0..<length text]. s \<le> g \<and>
          (\<exists>j \<in> {1..length (drop s text)}. v \<le> trie_level t (take j (drop s text)) (g - s)))"
        using vs(2) g unfolding covers_def by metis
      also have "\<dots> \<longleftrightarrow> (\<exists>s < length text. s \<le> g \<and> ?hit s)"
        unfolding lev using v by (simp add: atLeast0LessThan Bex_def del: length_drop)
      also have "\<dots> \<longleftrightarrow> (\<exists>s < length text. s \<le> g \<and> (\<exists>p \<in> set ps. v \<le> match_level p text s g))"
        using hit [OF _ v(1)] by blast
      also have "\<dots> \<longleftrightarrow> (\<exists>s < length text. \<exists>p \<in> set ps. v \<le> match_level p text s g)"
        using late v(2) by (metis (no_types))
      also have "\<dots> \<longleftrightarrow> v \<le> liang_level ps text g"
        unfolding liang_level_le using False by blast
      finally show ?thesis .
    qed simp
  qed
qed

lemma liang_level_real: "liang_level (real_patterns pats) text g = liang_level (map parse_pattern pats) text g"
  by (rule nat_eq_by_lower) (auto simp: liang_level_le real_patterns_def match_level_def)

lemma hyphenate_correct_gen:
  assumes "sum_list (map length pats) < NO_LINK"
  shows "\<exists>t t'. Option.bind trie_new (\<lambda>t0. add_tokens True pats t0 0 0) = Some (t, length pats, 0) \<and>
    add_tokens False excs t (length pats) 0 = Some (t', length pats, length excs) \<and>
    hyphenate t' word l r = Some (hyphens_spec pats excs word l r)"
proof -
  obtain t0 t ks where t: "trie_new = Some t0" "trie.ins_all t0 (real_patterns pats) = Some t" "trie_ok t ks"
    "exceptions t = Map.empty"
    "\<And>k q v. v \<le> trie_level t k q \<longleftrightarrow> v = 0 \<or> (\<exists>p \<in> set (real_patterns pats). fst p = k \<and> v \<le> top_level (snd p) q)"
    using loaded_patterns [OF assms] by blast
  let ?t = "t\<lparr>exceptions := exception_map excs\<rparr>" and ?text = "[CHR ''.''] @ word @ [CHR ''.'']"
  obtain vs where vs: "walk_all False ?t ?text [0..<length ?text] (replicate (length ?text + 1) 0) = Some vs"
    "\<And>g. g < length ?text + 1 \<Longrightarrow> vs ! g = liang_level (real_patterns pats) ?text g"
    using walk_all_liang [of ?t ks "real_patterns pats" ?text] t(3,5) by auto
  have "hyphenate ?t word l r = Some (hyphens_spec pats excs word l r)"
  proof (cases "length word < max l 1 + max r 1 \<or> exception_map excs word \<noteq> None")
    case True
    then show ?thesis by (auto simp: hyphenate_def hyphens_spec_def Let_def)
  next
    case False
    then have n: "\<not> length word < max l 1 + max r 1" "exception_map excs word = None" by simp_all
    have "map (\<lambda>i. i - 1) (filter (\<lambda>i. vs ! i mod 2 = 1) [max l 1 + 1..<length word - max r 1 + 2]) =
        filter (\<lambda>k. vs ! (k + 1) mod 2 = 1) [max l 1..<length word - max r 1 + 1]"
      using map_Suc_upt [of "max l 1" "length word - max r 1 + 1", symmetric]
      by (simp add: filter_map o_def del: upt_Suc)
    also have "\<dots> = filter (\<lambda>k. odd (liang_level (map parse_pattern pats) ?text (k + 1)))
        [max l 1..<length word - max r 1 + 1]"
      using vs(2) by (intro filter_cong) (auto simp: liang_level_real odd_iff_mod_2_eq_one)
    finally show ?thesis
      using vs(1) n by (simp add: hyphenate_def hyphens_spec_def Let_def del: upt_Suc walk_all.simps)
  qed
  then show ?thesis
    using t(2,4) by - (rule exI [of _ t], rule exI [of _ ?t],
      simp add: t(1) add_tokens_patterns add_tokens_exceptions)
qed

text \<open>
  Property C5.  Hyphenation follows Liang's rule: load any list of patterns (with fewer bytes than a
  32-bit index can count) and any exception words into a new trie; then \<open>hyphenate\<close> returns, for
  every word and margins, exactly the break points of the specification \<open>hyphens_spec\<close> - the
  exception's points when the word has one, and otherwise the gaps where the highest level any
  pattern asks for, over all its occurrences in the dotted word, is odd - and it never panics or
  runs forever.
\<close>

theorem hyphenate_correct:
  assumes "sum_list (map length pats) < NO_LINK"
  shows "\<exists>t t'. Option.bind trie_new (\<lambda>t0. add_tokens True pats t0 0 0) = Some (t, length pats, 0) \<and>
    add_tokens False excs t (length pats) 0 = Some (t', length pats, length excs) \<and>
    hyphenate t' word l r = Some (hyphens_spec pats excs word l r)"
  by (rule hyphenate_correct_gen [OF assms])

lemma hyphenate_correct_witness:
  "\<exists>t t'. Option.bind trie_new (\<lambda>t0. add_tokens True [''a1b'', ''2b1c''] t0 0 0) = Some (t, 2, 0) \<and>
    add_tokens False [''ba-ck''] t 2 0 = Some (t', 2, 1) \<and>
    hyphenate t' ''abc'' 1 1 = Some (hyphens_spec [''a1b'', ''2b1c''] [''ba-ck''] ''abc'' 1 1) \<and>
    hyphens_spec [''a1b'', ''2b1c''] [''ba-ck''] ''abc'' 1 1 = [2]"
proof -
  have "sum_list (map length [''a1b'', ''2b1c'']) < NO_LINK" by (simp add: NO_LINK_def)
  moreover have "hyphens_spec [''a1b'', ''2b1c''] [''ba-ck''] ''abc'' 1 1 = [2]" by code_simp
  ultimately show ?thesis using hyphenate_correct [of "[''a1b'', ''2b1c'']" "[''ba-ck'']" "''abc''" 1 1]
    by (simp add: numeral_2_eq_2)
qed

end
