(* ===== verification/HyphenFile.thy ===== *)
theory HyphenFile
  imports HyphenCorrect
begin

text \<open>
  What the hyphen-file loader does with a file.  The files are described by what is written in them, without the
  functions that read them: a file is a sequence of parts, white space and comments, other words, and blocks of
  patterns and of exception words; a block is a list of words, each behind the white space and comments that part it
  from the word before.
\<close>

declare load_bytes.simps [simp del]

subsection \<open>Files as they are written\<close>

datatype space = Blank u8 | Remark bytes

type_synonym spaces = "space list"

datatype part =
    Between space
  | Other bytes u8
  | Patterns bytes "(spaces \<times> bytes) list" spaces
  | Exceptions bytes "(spaces \<times> bytes) list" spaces

fun space_text :: "space \<Rightarrow> bytes" where
  "space_text (Blank c) = [c]"
| "space_text (Remark t) = ''%'' @ t @ [CHR 0x0A]"

definition spaces_text :: "spaces \<Rightarrow> bytes" where
  "spaces_text ss = concat (map space_text ss)"

definition body_text :: "(spaces \<times> bytes) list \<Rightarrow> spaces \<Rightarrow> bytes" where
  "body_text ws tail = concat (map (\<lambda>(ss, w). spaces_text ss @ w) ws) @ spaces_text tail"

fun part_text :: "part \<Rightarrow> bytes" where
  "part_text (Between s) = space_text s"
| "part_text (Other w c) = w @ [c]"
| "part_text (Patterns gap ws tail) = (CHR 0x5C # ''patterns'') @ gap @ ''{'' @ body_text ws tail @ ''}''"
| "part_text (Exceptions gap ws tail) = (CHR 0x5C # ''hyphenation'') @ gap @ ''{'' @ body_text ws tail @ ''}''"

definition file_text :: "part list \<Rightarrow> bytes" where
  "file_text parts = concat (map part_text parts)"

definition pattern_words :: "part list \<Rightarrow> bytes list" where
  "pattern_words parts = concat (map (\<lambda>p. case p of Patterns _ ws _ \<Rightarrow> map snd ws | _ \<Rightarrow> []) parts)"

definition exception_words :: "part list \<Rightarrow> bytes list" where
  "exception_words parts = concat (map (\<lambda>p. case p of Exceptions _ ws _ \<Rightarrow> map snd ws | _ \<Rightarrow> []) parts)"

text \<open>
  White space is a space, a tab, a line feed, a form feed or a carriage return, and a comment ends with its line.  A
  word of a block has no white space, brace or percent sign; other words of a file only have to be no comment and no
  block.  Before the brace of a block anything may stand but a brace.
\<close>

definition white :: "u8 \<Rightarrow> bool" where
  "white c \<longleftrightarrow> c \<in> {CHR '' '', CHR 0x09, CHR 0x0A, CHR 0x0C, CHR 0x0D}"

fun space_ok :: "space \<Rightarrow> bool" where
  "space_ok (Blank c) \<longleftrightarrow> white c"
| "space_ok (Remark t) \<longleftrightarrow> CHR 0x0A \<notin> set t"

definition word_ok :: "bytes \<Rightarrow> bool" where
  "word_ok w \<longleftrightarrow> w \<noteq> [] \<and> list_all (\<lambda>c. \<not> white c \<and> c \<notin> set ''{}%'') w"

definition body_ok :: "(spaces \<times> bytes) list \<Rightarrow> spaces \<Rightarrow> bool" where
  "body_ok ws tail \<longleftrightarrow> list_all (\<lambda>(ss, w). list_all space_ok ss \<and> word_ok w) ws \<and> list_all (\<lambda>(ss, w). ss \<noteq> []) (tl ws) \<and>
     list_all space_ok tail"

fun part_ok :: "part \<Rightarrow> bool" where
  "part_ok (Between s) \<longleftrightarrow> space_ok s"
| "part_ok (Other w c) \<longleftrightarrow> w \<noteq> [] \<and> list_all (\<lambda>c. \<not> white c) w \<and> white c \<and> hd w \<noteq> CHR ''%'' \<and>
     \<not> starts_with w (CHR 0x5C # ''patterns'') \<and> \<not> starts_with w (CHR 0x5C # ''hyphenation'')"
| "part_ok (Patterns gap ws tail) \<longleftrightarrow> CHR ''{'' \<notin> set gap \<and> body_ok ws tail"
| "part_ok (Exceptions gap ws tail) \<longleftrightarrow> CHR ''{'' \<notin> set gap \<and> body_ok ws tail"

lemma white_iff [simp]: "is_ascii_whitespace = white"
  by (auto simp: is_ascii_whitespace_def white_def)

subsection \<open>The words of a block\<close>

lemma split_on_ne: "split_on p xs \<noteq> []"
  by (induction xs) (auto split: list.split)

lemma split_on_Cons:
  "p x \<Longrightarrow> split_on p (x # xs) = [] # split_on p xs"
  "\<not> p x \<Longrightarrow> split_on p (x # xs) = (x # hd (split_on p xs)) # tl (split_on p xs)"
  using split_on_ne [of p xs] by (auto split: list.split)

declare split_on.simps(2) [simp del] split_on_Cons [simp]

lemma split_on_append: "list_all (\<lambda>x. \<not> p x) w \<Longrightarrow> split_on p (w @ xs) = (w @ hd (split_on p xs)) # tl (split_on p xs)"
  by (induction w) (simp_all add: split_on_ne)

definition line_tokens :: "bytes \<Rightarrow> bytes list" where
  "line_tokens line = filter (\<lambda>tok. tok \<noteq> []) (split_on is_ascii_whitespace (hd (split_on (\<lambda>b. b = CHR ''%'') line)))"

lemma block_tokens_lines: "block_tokens body = concat (map line_tokens (split_on (\<lambda>b. b = CHR 0x0A) body))"
  by (simp add: block_tokens_def line_tokens_def [abs_def])

lemma tokens_first:
  "block_tokens b = line_tokens (hd (split_on (\<lambda>b. b = CHR 0x0A) b)) @ concat (map line_tokens (tl (split_on (\<lambda>b. b = CHR 0x0A) b)))"
  using split_on_ne [of "\<lambda>b. b = CHR 0x0A" b] by (cases "split_on (\<lambda>b. b = CHR 0x0A) b") (simp_all add: block_tokens_lines)

lemma line_tokens_white: "white c \<Longrightarrow> line_tokens (c # l) = line_tokens l"
  by (auto simp: line_tokens_def white_def)

lemma tokens_white: "white c \<Longrightarrow> block_tokens (c # b) = block_tokens b"
proof (cases "c = CHR 0x0A")
  case True
  then show ?thesis by (simp add: block_tokens_lines line_tokens_def)
next
  case False
  then show "white c \<Longrightarrow> ?thesis"
    unfolding tokens_first [of "c # b"] tokens_first [of b] by (simp add: line_tokens_white)
qed

lemma tokens_remark: "CHR 0x0A \<notin> set t \<Longrightarrow> block_tokens (CHR ''%'' # t @ CHR 0x0A # b) = block_tokens b"
proof -
  assume t: "CHR 0x0A \<notin> set t"
  have "split_on (\<lambda>b. b = CHR 0x0A) ((CHR ''%'' # t) @ CHR 0x0A # b) = (CHR ''%'' # t) # split_on (\<lambda>b. b = CHR 0x0A) b"
    using t by (subst split_on_append) (auto simp: list_all_iff)
  then show ?thesis by (simp add: block_tokens_lines line_tokens_def)
qed

lemma spaces_tokens: "list_all space_ok ss \<Longrightarrow> block_tokens (spaces_text ss @ b) = block_tokens b"
proof (induction ss)
  case (Cons s ss)
  then show ?case by (cases s) (simp_all add: spaces_text_def tokens_white tokens_remark)
qed (simp add: spaces_text_def)

lemma line_tokens_word:
  assumes "word_ok w" "l = [] \<or> white (hd l) \<or> hd l = CHR ''%''"
  shows "line_tokens (w @ l) = w # line_tokens l"
proof -
  let ?p = "\<lambda>b. b = CHR ''%''" and ?w = white
  define x where "x = hd (split_on ?p l)"
  have w: "list_all (\<lambda>c. \<not> ?p c) w" "list_all (\<lambda>c. \<not> ?w c) w" "w \<noteq> []" using assms(1) by (auto simp: word_ok_def list_all_iff)
  have x: "hd (split_on ?p (w @ l)) = w @ x" using w(1) by (simp add: split_on_append x_def)
  have "x = [] \<or> white (hd x)"
    using assms(2) by (cases l; cases "hd l = CHR ''%''") (simp_all add: x_def)
  then obtain z where z: "split_on ?w x = [] # z" by (cases x) simp_all
  then have "split_on ?w (w @ x) = w # z" using split_on_append [OF w(2), of x] by simp
  then have "filter (\<lambda>t. t \<noteq> []) (split_on ?w (w @ x)) = w # filter (\<lambda>t. t \<noteq> []) (split_on ?w x)" using w(3) z by simp
  then show ?thesis by (simp add: line_tokens_def x x_def)
qed

lemma tokens_word:
  assumes "word_ok w" "b = [] \<or> white (hd b) \<or> hd b = CHR ''%''"
  shows "block_tokens (w @ b) = w # block_tokens b"
proof -
  let ?n = "\<lambda>b. b = CHR 0x0A"
  have w: "list_all (\<lambda>c. \<not> ?n c) w" using assms(1) by (auto simp: word_ok_def list_all_iff white_def)
  have "hd (split_on ?n b) = [] \<or> white (hd (hd (split_on ?n b))) \<or> hd (hd (split_on ?n b)) = CHR ''%''"
    using assms(2) by (cases b; cases "hd b = CHR 0x0A") simp_all
  from line_tokens_word [OF assms(1) this] show ?thesis
    unfolding tokens_first [of "w @ b"] tokens_first [of b] by (simp add: split_on_append [OF w])
qed

lemma spaces_start: "list_all space_ok ss \<Longrightarrow> ss \<noteq> [] \<Longrightarrow> white (hd (spaces_text ss @ b)) \<or> hd (spaces_text ss @ b) = CHR ''%''"
  by (cases ss; cases "hd ss") (simp_all add: spaces_text_def)

lemma body_tokens: "body_ok ws tail \<Longrightarrow> block_tokens (body_text ws tail) = map snd ws"
proof (induction ws)
  case Nil
  then show ?case using spaces_tokens [of tail "[]"] by (simp add: body_text_def body_ok_def block_tokens_lines line_tokens_def)
next
  case (Cons x ws)
  obtain ss w where x: "x = (ss, w)" by fastforce
  have ok: "list_all space_ok ss" "word_ok w" "list_all space_ok tail" "body_ok ws tail"
    "ws \<noteq> [] \<Longrightarrow> list_all space_ok (fst (hd ws)) \<and> fst (hd ws) \<noteq> []"
    using Cons.prems x by (cases ws; auto simp: body_ok_def)+
  have t: "body_text (x # ws) tail = spaces_text ss @ w @ body_text ws tail" by (simp add: x body_text_def)
  have "body_text ws tail = [] \<or> white (hd (body_text ws tail)) \<or> hd (body_text ws tail) = CHR ''%''"
  proof (cases ws)
    case Nil
    then show ?thesis using spaces_start [OF ok(3), of "[]"] by (cases tail) (auto simp: body_text_def spaces_text_def)
  next
    case (Cons y ys)
    then show ?thesis using ok(5) spaces_start [of "fst y"] by (cases y) (simp add: body_text_def)
  qed
  then show ?case unfolding t spaces_tokens [OF ok(1)] using tokens_word [OF ok(2)] Cons.IH [OF ok(4)] x by simp
qed

subsection \<open>The length of a block\<close>

text \<open>Texts that leave the depth of braces as it is.\<close>

definition level_text :: "bytes \<Rightarrow> bool" where
  "level_text t \<longleftrightarrow> (\<forall>rest. block_length (t @ rest) 1 = length t + block_length rest 1)"

lemma level_text_append: "level_text s \<Longrightarrow> level_text t \<Longrightarrow> level_text (s @ t)"
  by (simp add: level_text_def)

lemma level_concat: "list_all level_text ts \<Longrightarrow> level_text (concat ts)"
  by (induction ts) (simp_all add: level_text_append, simp add: level_text_def)

lemma level_byte: "c \<notin> set ''{}%'' \<Longrightarrow> level_text [c]"
  by (simp add: level_text_def)

lemma to_line_end: "CHR 0x0A \<notin> set t \<Longrightarrow> dropWhile (\<lambda>x. x \<noteq> CHR 0x0A) (t @ CHR 0x0A # rest) = CHR 0x0A # rest"
  "CHR 0x0A \<notin> set t \<Longrightarrow> takeWhile (\<lambda>x. x \<noteq> CHR 0x0A) (t @ CHR 0x0A # rest) = t"
  by (induction t) auto

lemma level_remark: "CHR 0x0A \<notin> set t \<Longrightarrow> level_text (''%'' @ t @ [CHR 0x0A])"
  by (simp add: level_text_def to_line_end)

lemma level_spaces: "list_all space_ok ss \<Longrightarrow> level_text (spaces_text ss)"
proof -
  have "space_ok s \<Longrightarrow> level_text (space_text s)" for s
    using level_remark by (cases s) (auto simp: white_def intro!: level_byte)
  then show "list_all space_ok ss \<Longrightarrow> ?thesis" unfolding spaces_text_def by (intro level_concat) (auto simp: list_all_iff)
qed

lemma level_word: "word_ok w \<Longrightarrow> level_text w"
  using level_concat [of "map (\<lambda>c. [c]) w"] level_byte by (auto simp: word_ok_def list_all_iff)

lemma level_body: "body_ok ws tail \<Longrightarrow> level_text (body_text ws tail)"
proof -
  assume ok: "body_ok ws tail"
  have "level_text (spaces_text ss @ w)" if "(ss, w) \<in> set ws" for ss w
    using ok that by (intro level_text_append level_spaces level_word) (auto simp: body_ok_def list_all_iff)
  moreover have "level_text (spaces_text tail)" using ok by (intro level_spaces) (simp add: body_ok_def)
  ultimately show ?thesis unfolding body_text_def by (intro level_text_append level_concat) (auto simp: list_all_iff)
qed

lemma body_length: "body_ok ws tail \<Longrightarrow> block_length (body_text ws tail @ CHR ''}'' # rest) 1 = length (body_text ws tail) + 1"
proof -
  have "block_length xs 0 = 0" for xs by (cases xs) simp_all
  then show "body_ok ws tail \<Longrightarrow> ?thesis" using level_body [of ws tail] by (simp add: level_text_def)
qed

subsection \<open>The parts of a file\<close>

lemma load_white: "load_bytes (dropWhile white bs) t np ne = load_bytes bs t np ne"
proof (cases bs)
  case (Cons c cs)
  show ?thesis
  proof (cases "white c")
    case True
    then have "c \<noteq> CHR ''%''" "c \<noteq> CHR 0x5C" by (auto simp: white_def)
    then have "load_bytes (c # cs) t np ne = load_bytes (dropWhile white cs) t np ne"
      using True by (subst load_bytes.simps(2)) (simp add: starts_with_def)
    then show ?thesis using True Cons by simp
  qed (use Cons in simp)
qed simp

lemma load_space: "space_ok s \<Longrightarrow> load_bytes (space_text s @ rest) t np ne = load_bytes rest t np ne"
proof (cases s)
  case (Blank c)
  then show "space_ok s \<Longrightarrow> ?thesis" using load_white [of "c # rest"] load_white [of rest] by simp
next
  case (Remark r)
  assume "space_ok s"
  then have r: "dropWhile (\<lambda>x. x \<noteq> CHR 0x0A) (r @ CHR 0x0A # rest) = CHR 0x0A # rest" using Remark by (simp add: to_line_end)
  have "load_bytes (CHR ''%'' # r @ CHR 0x0A # rest) t np ne = load_bytes (CHR 0x0A # rest) t np ne"
    by (subst load_bytes.simps(2)) (simp add: r)
  also have "\<dots> = load_bytes rest t np ne" using load_white [of "CHR 0x0A # rest"] load_white [of rest] by (simp add: white_def)
  finally show ?thesis using Remark by simp
qed

lemma starts_inside:
  assumes "c \<notin> set p" "\<not> starts_with w p"
  shows "\<not> starts_with (w @ c # rest) p"
proof
  assume s: "starts_with (w @ c # rest) p"
  show False
  proof (cases "length p \<le> length w")
    case False
    then have "c \<in> set (take (length p) (w @ c # rest))" by (auto simp: take_Cons')
    then show False using s assms(1) unfolding starts_with_def by metis
  qed (use s assms(2) in \<open>simp add: starts_with_def\<close>)
qed

lemma load_other:
  assumes "part_ok (Other w c)"
  shows "load_bytes (w @ c # rest) t np ne = load_bytes rest t np ne"
proof -
  obtain d ds where w: "w = d # ds" using assms by (cases w) auto
  have c: "white c" "\<not> white d" "d \<noteq> CHR ''%''" "list_all (\<lambda>c. \<not> white c) ds" using assms w by auto
  have "\<not> starts_with (w @ c # rest) (CHR 0x5C # ''patterns'')" "\<not> starts_with (w @ c # rest) (CHR 0x5C # ''hyphenation'')"
    by (rule starts_inside; use assms c(1) in \<open>auto simp: white_def\<close>)+
  moreover have "dropWhile (\<lambda>x. \<not> white x) (ds @ c # rest) = c # rest" using c(1,4) by (induction ds) auto
  ultimately have "load_bytes (w @ c # rest) t np ne = load_bytes (dropWhile white (c # rest)) t np ne"
    unfolding w append_Cons by (subst load_bytes.simps(2)) (use c in simp)
  then show ?thesis using load_white [of rest] c(1) by simp
qed

lemma load_block:
  assumes "CHR ''{'' \<notin> set gap" "body_ok ws tail" "head = (if pat then ''patterns'' else ''hyphenation'')"
  shows "load_bytes (CHR 0x5C # head @ gap @ CHR ''{'' # body_text ws tail @ CHR ''}'' # rest) t np ne =
    Option.bind (add_tokens pat (map snd ws) t np ne) (\<lambda>(t', np', ne'). load_bytes rest t' np' ne')"
proof -
  let ?rest = "body_text ws tail @ CHR ''}'' # rest"
  have gap: "dropWhile (\<lambda>x. x \<noteq> CHR ''{'') (gap @ CHR ''{'' # ?rest) = CHR ''{'' # ?rest" using assms(1) by (induction gap) auto
  have k: "block_length ?rest 1 = length (body_text ws tail) + 1" by (rule body_length [OF assms(2)])
  have s: "starts_with (CHR 0x5C # ''patterns'' @ r) (CHR 0x5C # ''patterns'')"
    "starts_with (CHR 0x5C # ''hyphenation'' @ r) (CHR 0x5C # ''hyphenation'')"
    "(byte_at (CHR 0x5C # ''patterns'' @ r) 1 = CHR ''p'') = True" "(byte_at (CHR 0x5C # ''hyphenation'' @ r) 1 = CHR ''p'') = False"
    "drop 8 (''patterns'' @ r) = r" "drop 11 (''hyphenation'' @ r) = r" for r
    by (simp_all add: starts_with_def byte_at_def)
  have e: "(CHR 0x5C = CHR ''%'') = False" by simp
  have step: "load_bytes (CHR 0x5C # head @ gap @ CHR ''{'' # ?rest) t np ne =
      Option.bind (add_tokens pat (block_tokens (take (length (body_text ws tail)) ?rest)) t np ne)
        (\<lambda>(t', np', ne'). load_bytes (drop (length (body_text ws tail) + 1) ?rest) t' np' ne')"
  proof (cases pat)
    case True
    then have h: "head = ''patterns''" and p: "pat = True" using assms(3) by simp_all
    show ?thesis unfolding h p by (subst load_bytes.simps(2)) (simp only: e if_False s simp_thms if_True Let_def gap list.case k add_diff_cancel_right')
  next
    case False
    then have h: "head = ''hyphenation''" and p: "pat = False" using assms(3) by simp_all
    show ?thesis unfolding h p by (subst load_bytes.simps(2)) (simp only: e if_False s simp_thms if_True Let_def gap list.case k add_diff_cancel_right')
  qed
  show ?thesis unfolding step by (simp add: body_tokens [OF assms(2)])
qed

subsection \<open>The whole file\<close>

text \<open>Exception words do not touch the patterns, nor patterns the exceptions, so their order in the file is free.\<close>

lemma insert_frame: "trie_insert (t\<lparr>exceptions := e\<rparr>) key pvs = map_option (\<lambda>t. t\<lparr>exceptions := e\<rparr>) (trie_insert t key pvs)"
proof -
  have new: "child_or_new (t\<lparr>exceptions := e\<rparr>) i b = map_option (\<lambda>(j, t). (j, t\<lparr>exceptions := e\<rparr>)) (child_or_new t i b)" for t i b
    by (cases "child t i b") (auto simp: child_or_new_def Let_def split: option.split)
  have desc: "descend (t\<lparr>exceptions := e\<rparr>) i bs = map_option (\<lambda>(j, t). (j, t\<lparr>exceptions := e\<rparr>)) (descend t i bs)" for t i bs
    by (induction t i bs rule: descend.induct) (auto simp: new split: bind_splits)
  have put: "put_value (t\<lparr>exceptions := e\<rparr>) i pv = map_option (\<lambda>t. t\<lparr>exceptions := e\<rparr>) (put_value t i pv)" for t i pv
    by (auto simp: put_value_def Let_def split: bind_splits option.split)
  have puts: "put_values (t\<lparr>exceptions := e\<rparr>) i pvs = map_option (\<lambda>t. t\<lparr>exceptions := e\<rparr>) (put_values t i pvs)" for t i
    by (induction t i pvs rule: put_values.induct) (auto simp: put split: bind_splits)
  show ?thesis by (auto simp: trie_insert_def desc puts split: bind_splits)
qed

lemma ins_all_frame:
  "trie.ins_all (t\<lparr>exceptions := e\<rparr>) ps = map_option (\<lambda>t. t\<lparr>exceptions := e\<rparr>) (trie.ins_all t ps)"
  by (induction ps arbitrary: t) (auto simp: insert_frame split: bind_splits)

lemma ins_all_keeps: "trie.ins_all t ps = Some t' \<Longrightarrow> exceptions t' = exceptions t"
proof -
  assume t': "trie.ins_all t ps = Some t'"
  have "t\<lparr>exceptions := exceptions t\<rparr> = t" by simp
  then have "Some t' = Some (t'\<lparr>exceptions := exceptions t\<rparr>)"
    using ins_all_frame [where t = t and e = "exceptions t" and ps = ps] t' by (simp only: option.map)
  then show ?thesis by (metis option.inject trie.select_convs(4) trie.surjective trie.update_convs(4))
qed

lemma ins_all_append: "trie.ins_all t (ps @ qs) = Option.bind (trie.ins_all t ps) (\<lambda>t. trie.ins_all t qs)"
  by (induction ps arbitrary: t) simp_all

lemma exception_map_append: "exception_map (es @ fs) = exception_map es ++ exception_map fs"
  by (simp add: exception_map_def map_add_def fun_eq_iff split: option.split)

lemma words_simps [simp]:
  "pattern_words [] = []" "pattern_words (Between s # parts) = pattern_words parts" "pattern_words (Other w c # parts) = pattern_words parts"
  "pattern_words (Patterns gap ws tail # parts) = map snd ws @ pattern_words parts"
  "pattern_words (Exceptions gap ws tail # parts) = pattern_words parts"
  "exception_words [] = []" "exception_words (Between s # parts) = exception_words parts" "exception_words (Other w c # parts) = exception_words parts"
  "exception_words (Patterns gap ws tail # parts) = exception_words parts"
  "exception_words (Exceptions gap ws tail # parts) = map snd ws @ exception_words parts"
  by (simp_all add: pattern_words_def exception_words_def)

lemma real_patterns_append: "real_patterns (a @ b) = real_patterns a @ real_patterns b"
  by (simp add: real_patterns_def)

lemma load_file:
  "list_all part_ok parts \<Longrightarrow> trie.ins_all t (real_patterns (pattern_words parts)) = Some t' \<Longrightarrow>
   load_bytes (file_text parts) t np ne =
     Some (t'\<lparr>exceptions := exceptions t ++ exception_map (exception_words parts)\<rparr>, np + length (pattern_words parts), ne + length (exception_words parts))"
proof (induction parts arbitrary: t np ne t')
  case Nil
  then show ?case by (simp add: file_text_def real_patterns_def exception_map_def load_bytes.simps)
next
  case (Cons p parts)
  note IH = Cons.IH
  have ok: "part_ok p" "list_all part_ok parts" using Cons.prems by simp_all
  have f: "file_text (q # parts) = part_text q @ file_text parts" for q by (simp add: file_text_def)
  show ?case
  proof (cases p)
    case (Between s)
    then show ?thesis using Cons.prems(2) IH [OF ok(2)] load_space [of s] ok(1) by (simp add: f)
  next
    case (Other w c)
    then show ?thesis using Cons.prems(2) IH [OF ok(2)] load_other [of w c] ok(1) by (simp add: f)
  next
    case (Patterns gap ws tail)
    obtain t1 where t1: "trie.ins_all t (real_patterns (map snd ws)) = Some t1" "trie.ins_all t1 (real_patterns (pattern_words parts)) = Some t'"
      using Cons.prems(2) Patterns by (auto simp: real_patterns_append ins_all_append split: bind_splits)
    have "load_bytes (file_text (p # parts)) t np ne = load_bytes (file_text parts) t1 (np + length ws) ne"
      using load_block [of gap ws tail "''patterns''" True] ok(1) Patterns by (simp add: f add_tokens_patterns t1(1))
    then show ?thesis using IH [OF ok(2) t1(2)] ins_all_keeps [OF t1(1)] Patterns by simp
  next
    case (Exceptions gap ws tail)
    let ?e = "exceptions t ++ exception_map (map snd ws)"
    have "trie.ins_all (t\<lparr>exceptions := ?e\<rparr>) (real_patterns (pattern_words parts)) = Some (t'\<lparr>exceptions := ?e\<rparr>)"
      using Cons.prems(2) Exceptions by (simp add: ins_all_frame)
    note IH = IH [OF ok(2) this]
    have "load_bytes (file_text (p # parts)) t np ne = load_bytes (file_text parts) (t\<lparr>exceptions := ?e\<rparr>) np (ne + length ws)"
      using load_block [of gap ws tail "''hyphenation''" False] ok(1) Exceptions by (simp add: f add_tokens_exceptions)
    then show ?thesis using IH Exceptions by (simp add: exception_map_append)
  qed
qed

text \<open>
  Property C6.  The hyphen-file loader: a file of blocks of patterns and of exception words, in any number and order,
  among white space, comments and other words, is read completely.  The counts it returns are the numbers of words
  written in the blocks, where white space of any kind and comments, also inside the blocks, part the words; and the
  trie it leaves hyphenates every word by Liang's rule on exactly those patterns and exceptions.  The words of a block
  hold no brace, and the patterns have fewer bytes than a 32-bit index can count.
\<close>

theorem load_hyphen_file:
  assumes "list_all part_ok parts" "sum_list (map length (pattern_words parts)) < NO_LINK"
  shows "\<exists>t0 t. trie_new = Some t0 \<and>
    load_hyphen_bytes t0 (file_text parts) = Some (t, length (pattern_words parts), length (exception_words parts)) \<and>
    hyphenate t word l r = Some (hyphens_spec (pattern_words parts) (exception_words parts) word l r)"
proof -
  obtain t0 where t0: "trie_new = Some t0" by (rule trie_keys_new)
  obtain t t' where 1: "trie.ins_all t0 (real_patterns (pattern_words parts)) = Some t"
    and 2: "t' = t\<lparr>exceptions := exceptions t ++ exception_map (exception_words parts)\<rparr>"
    and 3: "hyphenate t' word l r = Some (hyphens_spec (pattern_words parts) (exception_words parts) word l r)"
    using hyphenate_correct_gen [OF assms(2), of "exception_words parts" word l r]
    by (auto simp: t0 add_tokens_patterns add_tokens_exceptions)
  from load_file [OF assms(1) 1, of 0 0] have
    "load_hyphen_bytes t0 (file_text parts) = Some (t', length (pattern_words parts), length (exception_words parts))"
    using 2 ins_all_keeps [OF 1] by (simp add: load_hyphen_bytes_def)
  with t0 3 show ?thesis by blast
qed

definition sample_parts :: "part list" where
  "sample_parts =
     [Between (Remark '' exceptions first''), Exceptions [] [([], ''ba-ck'')] [], Other ''word'' (CHR 0x0D),
      Patterns '' '' [([Blank (CHR 0x09)], ''a1b''), ([Remark ''}'', Blank (CHR '' '')], ''2b1c'')] [Blank (CHR 0x0A)]]"

lemma load_hyphen_file_witness:
  "\<exists>t0 t. trie_new = Some t0 \<and> load_hyphen_bytes t0 (file_text sample_parts) = Some (t, 2, 1) \<and> hyphenate t ''back'' 1 1 = Some [2]"
proof -
  have "list_all part_ok sample_parts" "sum_list (map length (pattern_words sample_parts)) < NO_LINK"
    and "length (pattern_words sample_parts) = 2" "length (exception_words sample_parts) = 1"
    and "hyphens_spec (pattern_words sample_parts) (exception_words sample_parts) ''back'' 1 1 = [2]"
    by code_simp+
  with load_hyphen_file [of sample_parts "''back''" 1 1] show ?thesis by simp
qed

end
