(* ===== verification/HyphenXe.thy ===== *)
theory HyphenXe
  imports Hyphen
begin

text \<open>
  XeTeX's variant of the hyphenation trie: the byte keys of characters are prefix-free codes, so the
  exception dictionary is a map from words.
\<close>

subsection \<open>XeTeX's exception keys\<close>

text \<open>A reader of keys: the first byte tells how many follow.\<close>

definition xe_unkey :: "bytes \<Rightarrow> nat \<times> bytes" where
  "xe_unkey bs =
     (let b0 = of_char (bs ! 0); b1 = of_char (bs ! 1) mod 64; b2 = of_char (bs ! 2) mod 64;
          b3 = of_char (bs ! 3) mod 64
      in if b0 < 128 then (b0, drop 1 bs)
         else if b0 < 224 then (b0 mod 32 * 64 + b1, drop 2 bs)
         else if b0 < 240 then (b0 mod 16 * 4096 + b1 * 64 + b2, drop 3 bs)
         else (b0 mod 8 * 262144 + b1 * 4096 + b2 * 64 + b3, drop 4 bs))"

lemma digits64: fixes c :: nat shows
  "c div 64 * 64 + c mod 64 = c"
  "c div 4096 * 4096 + c div 64 mod 64 * 64 + c mod 64 = c"
  "c div 262144 * 262144 + c div 4096 mod 64 * 4096 + c div 64 mod 64 * 64 + c mod 64 = c"
proof -
  have d: "c div 4096 = c div 64 div 64" "c div 262144 = c div 64 div 64 div 64"
    by (simp_all flip: div_mult2_eq)
  have m: "n div 64 * 64 + n mod 64 = n" for n :: nat by simp
  show "c div 64 * 64 + c mod 64 = c" by (rule m)
  show "c div 4096 * 4096 + c div 64 mod 64 * 64 + c mod 64 = c"
    unfolding d using m [of c] m [of "c div 64"] by linarith
  show "c div 262144 * 262144 + c div 4096 mod 64 * 4096 + c div 64 mod 64 * 64 + c mod 64 = c"
    unfolding d using m [of c] m [of "c div 64"] m [of "c div 64 div 64"] by linarith
qed

lemma lead_bits:
  "x < 32 \<Longrightarrow> (192 + x) mod 32 = (x::nat)" "x < 16 \<Longrightarrow> (224 + x) mod 16 = (x::nat)"
  "x < 8 \<Longrightarrow> (240 + x) mod 8 = (x::nat)" "x < 64 \<Longrightarrow> (128 + x) mod 64 = (x::nat)"
  using mod_mult_self3 [of 6 32 x] mod_mult_self3 [of 14 16 x] mod_mult_self3 [of 30 8 x]
    mod_mult_self3 [of 2 64 x] by simp_all

lemma low_bits: "of_char (char_of (128 + n mod 64) :: char) mod 64 = n mod (64::nat)"
proof -
  have "n mod 64 < 64" by simp
  then show ?thesis using lead_bits(4) [of "n mod 64"] by simp
qed

lemma lead_byte: "n < 256 \<Longrightarrow> of_char (char_of n :: char) = n" for n :: nat
  by simp

lemma xe_unkey_key:
  assumes "c < 2097152"
  shows "xe_unkey (xe_key c @ xs) = (c, xs)"
proof -
  consider "c \<le> 127" | "127 < c" "c \<le> 2047" | "2047 < c" "c \<le> 65535" | "65535 < c" by linarith
  then show ?thesis
  proof cases
    case 1
    then show ?thesis by (simp add: xe_key_def xe_unkey_def)
  next
    case 2
    then have n: "c div 64 < 32" by simp
    then have b0: "of_char (char_of (192 + c div 64) :: char) = 192 + c div 64" "(192 + c div 64) mod 32 = c div 64"
      by - (rule lead_byte, linarith, rule lead_bits, assumption)
    have k: "xe_key c @ xs = char_of (192 + c div 64) # char_of (128 + c mod 64) # xs"
      using 2 by (simp add: xe_key_def)
    show ?thesis unfolding k xe_unkey_def Let_def using n digits64(1) [of c]
      by (simp only: nth_Cons_0 nth_Cons_Suc One_nat_def low_bits b0) simp
  next
    case 3
    then have n: "c div 4096 < 16" by simp
    then have b0: "of_char (char_of (224 + c div 4096) :: char) = 224 + c div 4096" "(224 + c div 4096) mod 16 = c div 4096"
      by - (rule lead_byte, linarith, rule lead_bits, assumption)
    have k: "xe_key c @ xs = char_of (224 + c div 4096) # char_of (128 + c div 64 mod 64) # char_of (128 + c mod 64) # xs"
      using 3 by (simp add: xe_key_def)
    show ?thesis unfolding k xe_unkey_def Let_def using n digits64(2) [of c]
      by (simp only: nth_Cons_0 nth_Cons_Suc One_nat_def numeral_2_eq_2 low_bits b0) simp
  next
    case 4
    with assms have n: "c div 262144 < 8" by simp
    then have b0: "of_char (char_of (240 + c div 262144) :: char) = 240 + c div 262144" "(240 + c div 262144) mod 8 = c div 262144"
      by - (rule lead_byte, linarith, rule lead_bits, assumption)
    have k: "xe_key c @ xs = char_of (240 + c div 262144) # char_of (128 + c div 4096 mod 64) #
        char_of (128 + c div 64 mod 64) # char_of (128 + c mod 64) # xs"
      using 4 n by (simp add: xe_key_def)
    show ?thesis unfolding k xe_unkey_def Let_def using n digits64(3) [of c]
      by (simp only: nth_Cons_0 nth_Cons_Suc One_nat_def numeral_2_eq_2 numeral_3_eq_3 low_bits b0) simp
  qed
qed

lemma xe_key_nonempty [simp]: "xe_key c \<noteq> []"
  by (simp add: xe_key_def)

lemma xe_keys_inject:
  "\<forall>c \<in> set cs. c < 2097152 \<Longrightarrow> \<forall>d \<in> set ds. d < 2097152 \<Longrightarrow>
   concat (map xe_key cs) = concat (map xe_key ds) \<longleftrightarrow> cs = ds"
proof (induction cs arbitrary: ds)
  case Nil
  then show ?case by (cases ds) auto
next
  case (Cons c cs)
  show ?case
  proof (cases ds)
    case (Cons d ds')
    have "c = d \<and> concat (map xe_key cs) = concat (map xe_key ds')"
      if "xe_key c @ concat (map xe_key cs) = xe_key d @ concat (map xe_key ds')"
    proof -
      have "c < 2097152" "d < 2097152" using Cons.prems \<open>ds = d # ds'\<close> by simp_all
      then show ?thesis
        using xe_unkey_key [of c "concat (map xe_key cs)"] xe_unkey_key [of d "concat (map xe_key ds')"]
        unfolding that by simp
    qed
    then show ?thesis using Cons Cons.IH [of ds'] Cons.prems by auto
  qed simp
qed

text \<open>
  Property C7.  XeTeX's exception dictionary: adding a word's points changes the entry of that word
  and of no other, for words of characters of at most 21 bits (the keys are injective).
\<close>

theorem xe_exception_update:
  assumes "\<forall>c \<in> set w. c < 2097152" "\<forall>c \<in> set w'. c < 2097152"
  shows "xe_exception (xe_add_exception t w pts) w' = (if w' = w then Some pts else xe_exception t w')"
  using xe_keys_inject [OF assms] by (auto simp: xe_exception_def xe_add_exception_def)

lemma xe_exception_update_witness:
  "xe_exception (xe_add_exception (the trie_new) [97, 1114111] [1]) [97, 256] = None \<and>
   xe_exception (xe_add_exception (the trie_new) [97, 1114111] [1]) [97, 1114111] = Some [1]"
proof
  have new: "exceptions (the trie_new) = Map.empty" by (simp add: trie_new_def from_parts_def)
  show "xe_exception (xe_add_exception (the trie_new) [97, 1114111] [1]) [97, 256] = None"
    using xe_exception_update [of "[97, 1114111]" "[97, 256]" "the trie_new" "[1]"] new
    by (simp add: xe_exception_def)
  show "xe_exception (xe_add_exception (the trie_new) [97, 1114111] [1]) [97, 1114111] = Some [1]"
    using xe_exception_update [of "[97, 1114111]" "[97, 1114111]" "the trie_new" "[1]"] by simp
qed

end
