(* ===== verification/Randoms.thy ===== *)
theory Randoms
  imports Prelude "HOL-Library.Monad_Syntax"
begin

text \<open>
  \<open>crates/tex-core/src/random.rs\<close>: pdfTeX's random numbers - the lagged-Fibonacci generator, the
  fraction arithmetic under the deviates and the elapsed time.  The loops that halve or double a
  value until it hits a bound are \<open>partial_function (option)\<close>: not ending is \<open>None\<close>.
\<close>

(* @src crates/tex-core/src/random.rs const FRACTION_HALF *)
definition FRACTION_HALF :: int where "FRACTION_HALF = 134217728"
(* @src crates/tex-core/src/random.rs const FRACTION_ONE *)
definition FRACTION_ONE :: int where "FRACTION_ONE = 268435456"
(* @src crates/tex-core/src/random.rs const FRACTION_FOUR *)
definition FRACTION_FOUR :: int where "FRACTION_FOUR = 1073741824"
(* @src crates/tex-core/src/random.rs const EL_GORDO *)
definition EL_GORDO :: int where "EL_GORDO = 2147483647"
(* @src crates/tex-core/src/random.rs const UNITY *)
definition UNITY :: int where "UNITY = 65536"

lemmas fraction_defs = FRACTION_HALF_def FRACTION_ONE_def FRACTION_FOUR_def EL_GORDO_def UNITY_def

subsection \<open>Fractions\<close>

(* @src crates/tex-core/src/random.rs:134-146 make_frac *)
partial_function (option) make_frac_loop :: "int \<Rightarrow> int \<Rightarrow> int \<Rightarrow> (int \<times> int) option" where
  "make_frac_loop q p f =
     (let be_careful = wrap_i32 (p - q);
          p1 = wrap_i32 (be_careful + p);
          p' = (if p1 \<ge> 0 then p1 else wrap_i32 (p1 + q));
          f' = (if p1 \<ge> 0 then wrap_i32 (wrap_i32 (f + f) + 1) else wrap_i32 (f + f))
      in if f' \<ge> FRACTION_ONE then Some (p', f') else make_frac_loop q p' f')"

(* @src crates/tex-core/src/random.rs fn make_frac *)
definition make_frac :: "int \<Rightarrow> int \<Rightarrow> int option" where
  "make_frac p0 q0 =
     (let negative = (p0 < 0);
          p = (if p0 < 0 then wrap_i32 (- p0) else p0);
          q = (if q0 \<le> 0 then wrap_i32 (- q0) else q0);
          negative = (if q0 \<le> 0 then \<not> negative else negative)
      in if q = 0 then None
         else
           let n = p sdiv q; p = p smod q
           in if n \<ge> 8 then Some (if negative then - EL_GORDO else EL_GORDO)
              else do {
                (p, f) \<leftarrow> make_frac_loop q p 1;
                let n = wrap_i32 ((n - 1) * FRACTION_ONE);
                    f = (if wrap_i32 (wrap_i32 (p - q) + p) \<ge> 0 then wrap_i32 (f + 1) else f)
                in Some (if negative then wrap_i32 (- wrap_i32 (f + n)) else wrap_i32 (f + n))
              })"

(* @src crates/tex-core/src/random.rs:178-194 take_frac *)
partial_function (option) take_frac_loop :: "int \<Rightarrow> int \<Rightarrow> int \<Rightarrow> int option" where
  "take_frac_loop q f p =
     (let p' = (if f smod 2 \<noteq> 0
                then (if q < FRACTION_FOUR then wrap_i32 (p + q) sdiv 2
                      else wrap_i32 (p + wrap_i32 (q - p) sdiv 2))
                else p sdiv 2);
          f' = f sdiv 2
      in if f' = 1 then Some p' else take_frac_loop q f' p')"

(* @src crates/tex-core/src/random.rs fn take_frac *)
definition take_frac :: "int \<Rightarrow> int \<Rightarrow> int option" where
  "take_frac q0 f0 =
     (let negative = (f0 < 0);
          f = (if f0 < 0 then wrap_i32 (- f0) else f0);
          q = (if q0 < 0 then wrap_i32 (- q0) else q0);
          negative = (if q0 < 0 then \<not> negative else negative);
          n = (if f < FRACTION_ONE then 0
               else let n = f sdiv FRACTION_ONE
                    in if q \<le> EL_GORDO sdiv n then wrap_i32 (n * q) else EL_GORDO);
          f = (if f < FRACTION_ONE then f else f smod FRACTION_ONE)
      in do {
        p \<leftarrow> take_frac_loop q (wrap_i32 (f + FRACTION_ONE)) FRACTION_HALF;
        let n = (if wrap_i32 (wrap_i32 (n - EL_GORDO) + p) > 0 then wrap_i32 (EL_GORDO - p) else n)
        in Some (if negative then wrap_i32 (- wrap_i32 (n + p)) else wrap_i32 (n + p))
      })"

(* @src crates/tex-core/src/random.rs const SPEC_LOG *)
definition SPEC_LOG :: "int list" where
  "SPEC_LOG = [0, 93032640, 38612034, 17922280, 8662214, 4261238, 2113709, 1052693, 525315, 262400,
     131136, 65552, 32772, 16385, 8192, 4096, 2048, 1024, 512, 256, 128, 64, 32, 16, 8, 4, 2, 1, 1]"

(* @src crates/tex-core/src/random.rs:216-220 m_log *)
partial_function (option) log_double :: "int \<Rightarrow> int \<Rightarrow> int \<Rightarrow> (int \<times> int \<times> int) option" where
  "log_double x y z =
     (if x < FRACTION_FOUR then log_double (wrap_i32 (x + x)) (wrap_i32 (y - 93032639)) (wrap_i32 (z - 48782))
      else Some (x, y, z))"

(* @src crates/tex-core/src/random.rs:225-228 m_log *)
partial_function (option) log_shrink :: "int \<Rightarrow> int \<Rightarrow> nat \<Rightarrow> (int \<times> nat) option" where
  "log_shrink x z k =
     (if x < wrap_i32 (FRACTION_FOUR + z) then log_shrink x (wrap_i32 (z + 1) sdiv 2) (k + 1)
      else Some (z, k))"

text \<open>The shift count of \<open>1 << k\<close> is taken modulo 32, as a release build does.\<close>

(* @src crates/tex-core/src/random.rs:223-231 m_log *)
partial_function (option) log_terms :: "int \<Rightarrow> int \<Rightarrow> nat \<Rightarrow> int option" where
  "log_terms x y k =
     (if x > wrap_i32 (FRACTION_FOUR + 4) then do {
        (z, k') \<leftarrow> log_shrink x (wrap_i32 (wrap_i32 (x - 1) sdiv wrap_i32 (2 ^ (k mod 32)) + 1)) k;
        (if k' < length SPEC_LOG then log_terms (wrap_i32 (x - z)) (wrap_i32 (y + SPEC_LOG ! k')) k'
         else None)
      } else Some y)"

declare make_frac_loop.simps [code] take_frac_loop.simps [code] log_double.simps [code]
  log_shrink.simps [code] log_terms.simps [code]

(* @src crates/tex-core/src/random.rs fn m_log *)
definition m_log :: "int \<Rightarrow> int option" where
  "m_log x =
     (if x \<le> 0 then Some 0
      else do {
        (x, y, z) \<leftarrow> log_double x (1302456956 + 4 - 100) (27595 + 6553600);
        y \<leftarrow> log_terms x (wrap_i32 (y + z sdiv UNITY)) 2;
        Some (y sdiv 8)
      })"

(* @src crates/tex-core/src/random.rs:264-282 ab_vs_cd *)
partial_function (option) ab_loop :: "int \<Rightarrow> int \<Rightarrow> int \<Rightarrow> int \<Rightarrow> int option" where
  "ab_loop a b c d =
     (if d = 0 \<or> b = 0 then None
      else
        let q = a sdiv d; r = c sdiv b
        in if q \<noteq> r then Some (if q > r then 1 else - 1)
           else
             let q = a smod d; r = c smod b
             in if r = 0 then Some (if q = 0 then 0 else 1)
                else if q = 0 then Some (- 1)
                else ab_loop b q d r)"

declare ab_loop.simps [code]

(* @src crates/tex-core/src/random.rs fn ab_vs_cd *)
definition ab_vs_cd :: "int \<Rightarrow> int \<Rightarrow> int \<Rightarrow> int \<Rightarrow> int option" where
  "ab_vs_cd a b c d =
     (let (a, b) = (if a < 0 then (wrap_i32 (- a), wrap_i32 (- b)) else (a, b));
          (c, d) = (if c < 0 then (wrap_i32 (- c), wrap_i32 (- d)) else (c, d))
      in if d \<le> 0 then
           (if b \<ge> 0 then Some (if (a = 0 \<or> b = 0) \<and> (c = 0 \<or> d = 0) then 0 else 1)
            else if d = 0 then Some (if a = 0 then 0 else - 1)
            else ab_loop c (wrap_i32 (- d)) a (wrap_i32 (- b)))
         else if b \<le> 0 then
           (if b < 0 \<and> a > 0 then Some (- 1) else Some (if c = 0 then 0 else - 1))
         else ab_loop a b c d)"

subsection \<open>The generator\<close>

(* @src crates/tex-core/src/random.rs struct Randoms *)
record randoms =
  seed :: int
  ring :: "int list"
  j_random :: nat

(* @src crates/tex-core/src/random.rs:56-69 new_randoms *)
definition lag_step :: "nat \<Rightarrow> nat \<Rightarrow> int list \<Rightarrow> int list" where
  "lag_step k other rs =
     (let x = wrap_i32 (rs ! k - rs ! other)
      in rs[k := (if x < 0 then wrap_i32 (x + FRACTION_ONE) else x)])"

(* @src crates/tex-core/src/random.rs fn new_randoms *)
definition new_randoms :: "randoms \<Rightarrow> randoms" where
  "new_randoms r =
     (let rs1 = fold (\<lambda>k. lag_step k (k + 31)) [0..<24] (ring r);
          rs2 = fold (\<lambda>k. lag_step k (k - 24)) [24..<55] rs1
      in r\<lparr>ring := rs2, j_random := 54\<rparr>)"

(* @src crates/tex-core/src/random.rs:29-31 new *)
function halve_seed :: "int \<Rightarrow> int" where
  "halve_seed j = (if j \<ge> FRACTION_ONE then halve_seed (j sdiv 2) else j)"
  by pat_completeness auto
termination
  by (relation "measure nat") (auto simp: FRACTION_ONE_def sdiv_nonneg)

declare halve_seed.simps [simp del]

(* @src crates/tex-core/src/random.rs:34-40 new *)
definition seed_step :: "nat \<Rightarrow> int \<times> int \<times> int list \<Rightarrow> int \<times> int \<times> int list" where
  "seed_step i = (\<lambda>(j, k, rs).
     let jj = k;
         k = wrap_i32 (j - k);
         j = jj;
         k = (if k < 0 then wrap_i32 (k + FRACTION_ONE) else k)
     in (j, k, rs[(i * 21) mod 55 := j]))"

(* @src crates/tex-core/src/random.rs impl Randoms fn new *)
definition randoms_new :: "int \<Rightarrow> randoms" where
  "randoms_new s =
     (let j = halve_seed (min \<bar>s\<bar> i32_max);
          (_, _, rs) = fold seed_step [0..<55] (j, 1, replicate 55 0)
      in new_randoms (new_randoms (new_randoms \<lparr>seed = s, ring = rs, j_random = 0\<rparr>)))"

text \<open>The job's start: \<open>clock\<close> is the wall clock, seconds and microseconds.\<close>

(* @src crates/tex-core/src/random.rs fn from_clock *)
definition from_clock :: "int \<times> int \<Rightarrow> randoms" where
  "from_clock clock =
     (let (seconds, micros) = clock
      in randoms_new (wrap_i32 (wrap_i32 (micros * 1000) + seconds mod 1000000)))"

(* @src crates/tex-core/src/random.rs fn next_random *)
definition next_random :: "randoms \<Rightarrow> int \<times> randoms" where
  "next_random r =
     (let r' = (if j_random r = 0 then new_randoms r else r\<lparr>j_random := j_random r - 1\<rparr>)
      in (ring r' ! j_random r', r'))"

definition saturating_abs :: "int \<Rightarrow> int" where
  "saturating_abs x = min \<bar>x\<bar> i32_max"

(* @src crates/tex-core/src/random.rs fn unif_rand *)
definition unif_rand :: "randoms \<Rightarrow> int \<Rightarrow> (int \<times> randoms) option" where
  "unif_rand rs x =
     (let (r, rs') = next_random rs; ax = saturating_abs x
      in do {
        y \<leftarrow> take_frac ax r;
        Some (if y = ax then 0 else if x > 0 then y else wrap_i32 (- y), rs')
      })"

(* @src crates/tex-core/src/random.rs:99-106 norm_rand *)
partial_function (option) norm_pair :: "randoms \<Rightarrow> (int \<times> int \<times> randoms) option" where
  "norm_pair rs =
     (let (r, rs1) = next_random rs
      in do {
        x \<leftarrow> take_frac 112429 (wrap_i32 (r - FRACTION_HALF));
        (let (u, rs2) = next_random rs1
         in if \<bar>x\<bar> < u then Some (x, u, rs2) else norm_pair rs2)
      })"

(* @src crates/tex-core/src/random.rs fn norm_rand *)
partial_function (option) norm_rand :: "randoms \<Rightarrow> (int \<times> randoms) option" where
  "norm_rand rs = do {
     (x, u, rs') \<leftarrow> norm_pair rs;
     x \<leftarrow> make_frac x u;
     ml \<leftarrow> m_log u;
     s \<leftarrow> ab_vs_cd 1024 (wrap_i32 (139548960 - ml)) x x;
     (if s \<ge> 0 then Some (x, rs') else norm_rand rs')
   }"

declare norm_pair.simps [code] norm_rand.simps [code]

subsection \<open>Elapsed time\<close>

(* @src crates/tex-core/src/random.rs fn elapsed_between *)
definition elapsed_between :: "int \<times> int \<Rightarrow> int \<times> int \<Rightarrow> int" where
  "elapsed_between start now =
     (let (epoch, micros) = start; (s, m) = now
      in if wrap_i64 (s - epoch) > 32767 then i32_max
         else if micros > m then
           wrap_i32 (wrap_i64 (wrap_i64 (wrap_i64 (wrap_i64 (s - 1) - epoch) * 65536)
             + (wrap_i32 (wrap_i32 (m + 1000000) - micros) sdiv 100 * 65536) sdiv 10000))
         else
           wrap_i32 (wrap_i64 (wrap_i64 (wrap_i64 (s - epoch) * 65536)
             + (wrap_i32 (m - micros) sdiv 100 * 65536) sdiv 10000)))"

(* @src crates/tex-core/src/random.rs fn microinterval *)
definition microinterval :: "int \<times> int \<Rightarrow> int \<times> int \<Rightarrow> int" where
  "microinterval clock start = elapsed_between start clock"

end
