(* ===== verification/RandomsCorrect.thy ===== *)
theory RandomsCorrect
  imports Randoms
begin

text \<open>
  The fraction arithmetic is exact rounding, the comparison of products is a sign, and the generator
  keeps its ring of fractions in range.
\<close>

declare take_frac_loop.simps [simp del] make_frac_loop.simps [simp del] ab_loop.simps [simp del]

subsection \<open>take_frac\<close>

lemma smod_nonneg: "0 \<le> a \<Longrightarrow> 0 < b \<Longrightarrow> a smod b = a mod (b::int)"
  by (simp add: signed_modulo_int_def sgn_if)

lemma half_step:
  assumes "0 \<le> q" "q \<le> EL_GORDO" "0 \<le> p" "p \<le> max q FRACTION_HALF"
  shows "(if q < FRACTION_FOUR then wrap_i32 (p + q) sdiv 2 else wrap_i32 (p + wrap_i32 (q - p) sdiv 2))
    = (p + q) div 2"
proof (cases "q < FRACTION_FOUR")
  case True
  then show ?thesis using assms by (simp add: fraction_defs i32_bounds sdiv_nonneg)
next
  case False
  then have pq: "p \<le> q" "q \<le> 2147483647" using assms by (simp_all add: fraction_defs)
  then have "wrap_i32 (q - p) = q - p" using assms by (simp add: i32_bounds)
  moreover have "(q - p) sdiv 2 = (q - p) div 2" using pq by (simp add: sdiv_nonneg)
  moreover have e: "p + (q - p) div 2 = (p + q) div 2" by presburger
  moreover have "wrap_i32 ((p + q) div 2) = (p + q) div 2"
    using pq assms(1,3) by (intro wrap_i32_id, unfold i32_bounds) linarith
  ultimately show ?thesis using False by simp
qed

lemma take_frac_loop_value:
  "\<lbrakk>0 \<le> q; q \<le> EL_GORDO; 0 \<le> p; p \<le> max q FRACTION_HALF; 0 \<le> g; g < 2 ^ Suc k\<rbrakk> \<Longrightarrow>
   take_frac_loop q (2 ^ Suc k + g) p = Some ((p + q * g) div 2 ^ Suc k)"
proof (induction k arbitrary: p g)
  case (0 p g)
  from 0(5,6) have "(2 + g) sdiv 2 = 1" "(2 + g) smod 2 = g mod 2" "g mod 2 = g"
    by (simp_all add: sdiv_nonneg smod_nonneg)
  moreover from 0(5,6) have "g = 0 \<or> g = 1" by auto
  ultimately show ?case
    using half_step [OF 0(1-4)] 0(3) take_frac_loop.simps [of q "2 + g" p]
    by (elim disjE) (simp_all add: Let_def sdiv_nonneg)
next
  case (Suc k p g)
  let ?f = "2 ^ Suc (Suc k) + g" and ?p = "(p + (g mod 2) * q) div 2"
  have f: "?f sdiv 2 = 2 ^ Suc k + g div 2" "?f smod 2 = g mod 2" "0 \<le> ?f"
  proof -
    have h: "?f = 2 * 2 ^ Suc k + g" by simp
    show pos: "0 \<le> ?f" using Suc.prems(5) by simp
    show "?f sdiv 2 = 2 ^ Suc k + g div 2" unfolding sdiv_nonneg [OF pos zero_less_numeral] unfolding h by simp
    show "?f smod 2 = g mod 2" unfolding smod_nonneg [OF pos zero_less_numeral] unfolding h by (rule mod_mult_self4)
  qed
  have bit: "g mod 2 = 0 \<or> g mod 2 = 1" by presburger
  have p': "(if g mod 2 \<noteq> 0
      then (if q < FRACTION_FOUR then wrap_i32 (p + q) sdiv 2 else wrap_i32 (p + wrap_i32 (q - p) sdiv 2))
      else p sdiv 2) = ?p"
    using bit half_step [OF Suc.prems(1-4)] Suc.prems(3) by (auto simp: sdiv_nonneg)
  have "0 \<le> ?p \<and> ?p \<le> max q FRACTION_HALF"
    using Suc.prems(1,3,4) bit
  proof (elim disjE)
    assume "g mod 2 = 0" then show ?thesis using Suc.prems(1,3,4) by simp
  next
    assume "g mod 2 = 1" then show ?thesis using Suc.prems(1,3,4) by (simp add: max_def split: if_splits)
  qed
  moreover have "0 \<le> g div 2" "g div 2 < 2 ^ Suc k" using Suc.prems(5,6) by simp_all
  ultimately have IH: "take_frac_loop q (2 ^ Suc k + g div 2) ?p = Some ((?p + q * (g div 2)) div 2 ^ Suc k)"
    using Suc.IH [OF Suc.prems(1,2)] by blast
  have "q * g = q * (2 * (g div 2) + g mod 2)" by simp
  then have "p + q * g = (p + (g mod 2) * q) + (q * (g div 2)) * 2" by (simp only: algebra_simps)
  then have "(p + q * g) div 2 = ?p + q * (g div 2)" by simp
  moreover have "(p + q * g) div 2 ^ Suc (Suc k) = (p + q * g) div 2 div 2 ^ Suc k"
    unfolding power_Suc [of 2 "Suc k"] by (rule zdiv_zmult2_eq) simp
  ultimately have "(?p + q * (g div 2)) div 2 ^ Suc k = (p + q * g) div 2 ^ Suc (Suc k)" by (simp only:)
  moreover have "2 ^ Suc k + g div 2 \<noteq> 1"
  proof -
    have "(2::int) \<le> 2 ^ Suc k" by simp
    moreover have "0 \<le> g div 2" using Suc.prems by simp
    ultimately show ?thesis by linarith
  qed
  ultimately show ?case
    using IH by (simp only: take_frac_loop.simps [of q ?f p] f(1,2) p' Let_def if_False)
qed

text \<open>The value the Pascal original promises: the rounded product of a fraction, saturated.\<close>

definition frac_product :: "int \<Rightarrow> int \<Rightarrow> int" where
  "frac_product q f = sgn q * sgn f * min ((\<bar>q\<bar> * \<bar>f\<bar> + FRACTION_HALF) div FRACTION_ONE) EL_GORDO"

lemma take_frac_nonneg:
  assumes "0 \<le> q" "q \<le> EL_GORDO" "0 \<le> f" "f \<le> EL_GORDO"
  defines "v \<equiv> (q * f + FRACTION_HALF) div FRACTION_ONE"
  defines "n \<equiv> (if f < FRACTION_ONE then 0 else let n = f sdiv FRACTION_ONE
        in if q \<le> EL_GORDO sdiv n then wrap_i32 (n * q) else EL_GORDO)"
    and "f' \<equiv> (if f < FRACTION_ONE then f else f smod FRACTION_ONE)"
  obtains p where "take_frac_loop q (wrap_i32 (f' + FRACTION_ONE)) FRACTION_HALF = Some p"
    "wrap_i32 ((if wrap_i32 (wrap_i32 (n - EL_GORDO) + p) > 0 then wrap_i32 (EL_GORDO - p) else n) + p)
      = min v EL_GORDO"
proof -
  let ?g = "f mod FRACTION_ONE" and ?m = "f div FRACTION_ONE"
  let ?p = "(FRACTION_HALF + q * ?g) div FRACTION_ONE"
  have g: "0 \<le> ?g" "?g < 268435456" by (simp_all add: FRACTION_ONE_def)
  have f': "f' = ?g" using assms by (simp add: f'_def smod_nonneg FRACTION_ONE_def)
  have one: "(2::int) ^ Suc 27 = FRACTION_ONE" by (simp add: FRACTION_ONE_def)
  have "wrap_i32 (f' + FRACTION_ONE) = 2 ^ Suc 27 + ?g"
    using g f' by (simp add: one i32_bounds add.commute fraction_defs)
  moreover have "take_frac_loop q (2 ^ Suc 27 + ?g) FRACTION_HALF = Some ?p"
    using take_frac_loop_value [of q FRACTION_HALF ?g 27] assms(1,2) g unfolding one
    by (simp add: fraction_defs)
  ultimately have loop: "take_frac_loop q (wrap_i32 (f' + FRACTION_ONE)) FRACTION_HALF = Some ?p" by simp
  have m: "0 \<le> ?m" "?m \<le> 7" using assms by (simp_all add: fraction_defs)
  have p: "0 \<le> ?p" "?p \<le> q"
  proof -
    have "0 \<le> q * ?g" using assms(1) g by simp
    then show "0 \<le> ?p" by (simp add: fraction_defs pos_imp_zdiv_nonneg_iff)
    have "q * ?g \<le> q * (FRACTION_ONE - 1)" using assms g by (intro mult_left_mono) (simp_all add: fraction_defs)
    then have "FRACTION_HALF + q * ?g \<le> q * FRACTION_ONE + FRACTION_HALF - q" by (simp add: algebra_simps)
    also have "\<dots> < (q + 1) * FRACTION_ONE" using assms by (simp add: fraction_defs algebra_simps)
    finally have "?p < q + 1" by (simp add: div_less_iff_less_mult FRACTION_ONE_def)
    then show "?p \<le> q" by simp
  qed
  have "q * f = q * (FRACTION_ONE * ?m + ?g)" by simp
  then have e: "q * f + FRACTION_HALF = (FRACTION_HALF + q * ?g) + (q * ?m) * FRACTION_ONE"
    by (simp only: algebra_simps)
  have "v = q * ?m + ?p" unfolding v_def e by (rule div_mult_self1) (simp add: FRACTION_ONE_def)
  then have v: "v = ?m * q + ?p" by (simp only: mult.commute)
  have "wrap_i32 ((if wrap_i32 (wrap_i32 (n - EL_GORDO) + ?p) > 0 then wrap_i32 (EL_GORDO - ?p) else n) + ?p)
      = min v EL_GORDO"
  proof (cases "?m * q \<le> EL_GORDO")
    case True
    have n: "n = ?m * q"
    proof (cases "f < FRACTION_ONE")
      case False
      then have "1 \<le> ?m" by (simp add: FRACTION_ONE_def)
      moreover from this True have "q \<le> EL_GORDO div ?m"
        using zdiv_mono1 [OF True, of ?m] by simp
      moreover have "0 \<le> ?m * q" using m(1) assms(1) by simp
      then have "wrap_i32 (?m * q) = ?m * q"
        using True by (intro wrap_i32_id) (simp add: EL_GORDO_def i32_bounds)
      ultimately show ?thesis
        using False assms(3) m(1) by (simp add: n_def Let_def sdiv_nonneg fraction_defs)
    qed (use assms in \<open>simp add: n_def\<close>)
    have r: "0 \<le> n" "n \<le> EL_GORDO" using n True m(1) assms(1) by simp_all
    have "wrap_i32 (n - EL_GORDO) = n - EL_GORDO" using r by (simp add: EL_GORDO_def i32_bounds)
    moreover have "wrap_i32 (n - EL_GORDO + ?p) = n - EL_GORDO + ?p"
      using r p assms(2) by (intro wrap_i32_id) (simp add: EL_GORDO_def i32_bounds)
    moreover have "wrap_i32 (EL_GORDO - ?p) = EL_GORDO - ?p"
      using p assms(2) by (intro wrap_i32_id) (simp add: EL_GORDO_def i32_bounds)
    moreover have "wrap_i32 EL_GORDO = EL_GORDO" by (simp add: EL_GORDO_def i32_bounds)
    moreover have "n + ?p \<le> EL_GORDO \<Longrightarrow> wrap_i32 (n + ?p) = n + ?p"
      using r p by (intro wrap_i32_id) (simp add: EL_GORDO_def i32_bounds)
    ultimately show ?thesis by (auto simp: v n)
  next
    case False
    then have "1 \<le> ?m" using m(1) assms(1,2) by (cases "?m = 0") (auto simp: EL_GORDO_def)
    then have "\<not> f < FRACTION_ONE" using assms(3) by (auto simp: div_pos_pos_trivial)
    moreover have "\<not> q \<le> EL_GORDO div ?m"
    proof
      assume "q \<le> EL_GORDO div ?m"
      then have "?m * q \<le> ?m * (EL_GORDO div ?m)" using m(1) by (intro mult_left_mono)
      also have "\<dots> = EL_GORDO - EL_GORDO mod ?m" by (rule minus_mod_eq_mult_div [symmetric])
      also have "\<dots> \<le> EL_GORDO" using \<open>1 \<le> ?m\<close> by simp
      finally show False using False by simp
    qed
    ultimately have "n = EL_GORDO"
      using assms(3) \<open>1 \<le> ?m\<close> by (simp add: n_def Let_def sdiv_nonneg fraction_defs)
    moreover have "min v EL_GORDO = EL_GORDO" using False p(1) by (simp add: v)
    moreover have "?p \<le> 2147483647" using p assms(2) by (simp add: EL_GORDO_def)
    ultimately show ?thesis using p(1) by (simp add: EL_GORDO_def i32_bounds)
  qed
  with loop show ?thesis by (rule that)
qed

lemma take_frac_value:
  assumes "\<bar>q\<bar> \<le> EL_GORDO" "\<bar>f\<bar> \<le> EL_GORDO"
  shows "take_frac q f = Some (frac_product q f)"
proof -
  have a: "0 \<le> \<bar>q\<bar>" "0 \<le> \<bar>f\<bar>" by simp_all
  have n: "(if x < 0 then wrap_i32 (- x) else x) = \<bar>x\<bar>" if "\<bar>x\<bar> \<le> EL_GORDO" for x
    using that by (auto simp: EL_GORDO_def i32_bounds)
  let ?v = "(\<bar>q\<bar> * \<bar>f\<bar> + FRACTION_HALF) div FRACTION_ONE"
  have v: "0 \<le> ?v" by (simp add: fraction_defs pos_imp_zdiv_nonneg_iff)
  then have neg: "wrap_i32 (- min ?v EL_GORDO) = - min ?v EL_GORDO"
    by (intro wrap_i32_id, unfold EL_GORDO_def i32_bounds) linarith
  have zero: "?v = 0" if "q = 0 \<or> f = 0" using that by (auto simp: fraction_defs)
  have sgn: "(if (if q < 0 then \<not> f < 0 else f < 0) then - min ?v EL_GORDO else min ?v EL_GORDO) = frac_product q f"
    using zero by (auto simp: frac_product_def sgn_if EL_GORDO_def)
  from take_frac_nonneg [OF a(1) assms(1) a(2) assms(2)] obtain p where p:
    "take_frac_loop \<bar>q\<bar> (wrap_i32 ((if \<bar>f\<bar> < FRACTION_ONE then \<bar>f\<bar> else \<bar>f\<bar> smod FRACTION_ONE) + FRACTION_ONE))
       FRACTION_HALF = Some p"
    "wrap_i32 ((if wrap_i32 (wrap_i32 ((if \<bar>f\<bar> < FRACTION_ONE then 0 else let n = \<bar>f\<bar> sdiv FRACTION_ONE
        in if \<bar>q\<bar> \<le> EL_GORDO sdiv n then wrap_i32 (n * \<bar>q\<bar>) else EL_GORDO) - EL_GORDO) + p) > 0
      then wrap_i32 (EL_GORDO - p) else (if \<bar>f\<bar> < FRACTION_ONE then 0 else let n = \<bar>f\<bar> sdiv FRACTION_ONE
        in if \<bar>q\<bar> \<le> EL_GORDO sdiv n then wrap_i32 (n * \<bar>q\<bar>) else EL_GORDO)) + p) = min ?v EL_GORDO"
    by blast
  show ?thesis
    unfolding take_frac_def n [OF assms(1)] n [OF assms(2)]
    by (simp only: Let_def p(1) bind.bind_lunit p(2) [unfolded Let_def] neg sgn)
qed

text \<open>
  Property C8.  \<open>take_frac\<close> ends, and is the product of an integer and a 28-bit fraction rounded to
  nearest, with the signs applied outside and the result saturated at the largest 32-bit integer,
  for all arguments but the negative one without a counterpart.
\<close>

theorem take_frac_rounds:
  assumes "\<bar>q\<bar> \<le> EL_GORDO" "\<bar>f\<bar> \<le> EL_GORDO"
  shows "take_frac q f = Some (frac_product q f)"
  by (rule take_frac_value [OF assms])

lemma take_frac_rounds_witness: "take_frac (-1000) 190354331 = Some (- 709)"
  using take_frac_rounds [of "-1000" 190354331] by (simp add: fraction_defs frac_product_def)

subsection \<open>make_frac\<close>

definition double_mod :: "int \<Rightarrow> int \<Rightarrow> int" where
  "double_mod q p = (if 2 * p < q then 2 * p else 2 * p - q)"

definition double_quot :: "int \<Rightarrow> int \<Rightarrow> int \<Rightarrow> int" where
  "double_quot q p f = (if 2 * p < q then 2 * f else 2 * f + 1)"

lemma double_step:
  assumes "0 \<le> p" "p < q"
  shows "0 \<le> double_mod q p" "double_mod q p < q"
    "double_quot q p f * q + double_mod q p = 2 * (f * q + p)"
  using assms by (auto simp: double_mod_def double_quot_def algebra_simps)

lemma make_frac_step:
  assumes "0 < q" "q \<le> EL_GORDO" "0 \<le> p" "p < q" "1 \<le> f" "f < FRACTION_ONE"
  shows "make_frac_loop q p f =
    (if double_quot q p f \<ge> FRACTION_ONE then Some (double_mod q p, double_quot q p f)
     else make_frac_loop q (double_mod q p) (double_quot q p f))"
proof -
  have w: "wrap_i32 (p - q) = p - q" "wrap_i32 (p - q + p) = p - q + p"
    "p - q + p < 0 \<Longrightarrow> wrap_i32 (p - q + p + q) = p - q + p + q"
    "wrap_i32 (f + f) = f + f" "wrap_i32 (f + f + 1) = f + f + 1"
    using assms by (simp_all add: i32_bounds fraction_defs)
  show ?thesis
  proof (cases "p - q + p \<ge> 0")
    case True
    then have "double_mod q p = p - q + p" "double_quot q p f = f + f + 1"
      by (auto simp: double_mod_def double_quot_def)
    with True show ?thesis by (subst make_frac_loop.simps) (simp only: Let_def w if_True)
  next
    case False
    then have "double_mod q p = p - q + p + q" "double_quot q p f = f + f" and "p - q + p < 0"
      by (auto simp: double_mod_def double_quot_def)
    with False w(3) show ?thesis by (subst make_frac_loop.simps) (simp only: Let_def w(1,2,4) if_False)
  qed
qed

lemma make_frac_loop_value:
  assumes "0 < q" "q \<le> EL_GORDO" "0 \<le> p" "p < q" "2 ^ k \<le> f" "f < 2 ^ Suc k" "k < 28"
  shows "\<exists>p' f'. make_frac_loop q p f = Some (p', f') \<and> 0 \<le> p' \<and> p' < q \<and>
    f' * q + p' = 2 ^ (28 - k) * (f * q + p) \<and> FRACTION_ONE \<le> f' \<and> f' < 2 * FRACTION_ONE"
  using assms(3-7)
proof (induction "27 - k" arbitrary: k p f)
  case (0 k p f)
  then have k: "k = 27" by simp
  have f: "1 \<le> f" "f < FRACTION_ONE" "FRACTION_ONE \<le> double_quot q p f" "double_quot q p f < 2 * FRACTION_ONE"
    using 0(4,5) by (simp_all add: k FRACTION_ONE_def double_quot_def)
  show ?case
    using double_step(1,2) [OF 0(2,3)] double_step(3) [OF 0(2,3), of f] f(3,4) make_frac_step [OF assms(1,2) 0(2,3) f(1,2)] by (simp add: k)
next
  case (Suc n k p f)
  have pow: "(2::int) ^ Suc k \<le> 2 ^ 27" using Suc(2) by (intro power_increasing) simp_all
  have f: "f < 134217728" "1 \<le> f"
  proof -
    show "f < 134217728" using Suc.prems(4) pow by simp
    have "(1::int) \<le> 2 ^ k" by simp
    then show "1 \<le> f" using Suc.prems(3) by linarith
  qed
  let ?p = "double_mod q p" and ?f = "double_quot q p f"
  have "f < FRACTION_ONE" "\<not> ?f \<ge> FRACTION_ONE"
    using f by (simp_all add: FRACTION_ONE_def double_quot_def)
  then have step: "make_frac_loop q p f = make_frac_loop q ?p ?f"
    using make_frac_step [OF assms(1,2) Suc.prems(1,2) f(2)] by simp
  have c: "n = 27 - Suc k" "2 ^ Suc k \<le> ?f" "?f < 2 ^ Suc (Suc k)" "Suc k < 28"
    using Suc(2) Suc.prems by (auto simp: double_quot_def)
  from Suc.hyps(1) [OF c(1) double_step(1,2) [OF Suc.prems(1,2)] c(2-4)]
  obtain p' f' where 1: "make_frac_loop q ?p ?f = Some (p', f')" "0 \<le> p'" "p' < q"
    "f' * q + p' = 2 ^ (28 - Suc k) * (?f * q + ?p)" "FRACTION_ONE \<le> f'" "f' < 2 * FRACTION_ONE"
    by blast
  have "28 - k = Suc (28 - Suc k)" using Suc.prems(5) by simp
  then have "f' * q + p' = 2 ^ (28 - k) * (f * q + p)"
    using 1(4) double_step(3) [OF Suc.prems(1,2), of f] by simp
  with 1(1,2,3,5,6) show ?case unfolding step by blast
qed

text \<open>The rounded quotient of two integers as a 28-bit fraction, saturated at 8.\<close>

definition frac_quotient :: "int \<Rightarrow> int \<Rightarrow> int" where
  "frac_quotient p q = sgn p * sgn q *
     (if 8 * \<bar>q\<bar> \<le> \<bar>p\<bar> then EL_GORDO
      else (2 * FRACTION_ONE * \<bar>p\<bar> + \<bar>q\<bar>) div (2 * \<bar>q\<bar>))"

lemma make_frac_nonneg:
  assumes "0 \<le> p" "p \<le> EL_GORDO" "0 < q" "q \<le> EL_GORDO" "p < 8 * q"
  obtains p' f where "make_frac_loop q (p smod q) 1 = Some (p', f)"
    "wrap_i32 ((if wrap_i32 (wrap_i32 (p' - q) + p') \<ge> 0 then wrap_i32 (f + 1) else f)
       + wrap_i32 ((p sdiv q - 1) * FRACTION_ONE)) = (2 * FRACTION_ONE * p + q) div (2 * q)"
    "0 \<le> (2 * FRACTION_ONE * p + q) div (2 * q)" "(2 * FRACTION_ONE * p + q) div (2 * q) \<le> EL_GORDO"
proof -
  let ?n = "p div q" and ?r = "p mod q"
  have r: "0 \<le> ?r" "?r < q" using assms by simp_all
  have n: "0 \<le> ?n" "?n \<le> 7"
  proof -
    show "0 \<le> ?n" using assms by (simp add: pos_imp_zdiv_nonneg_iff)
    have "?n < 8" using assms(3,5) by (rule div_less_int)
    then show "?n \<le> 7" by simp
  qed
  have sd: "p smod q = ?r" "p sdiv q = ?n" using assms by (simp_all add: smod_nonneg sdiv_nonneg)
  have "\<exists>p' f'. make_frac_loop q ?r 1 = Some (p', f') \<and> 0 \<le> p' \<and> p' < q \<and>
    f' * q + p' = 2 ^ (28 - 0) * (1 * q + ?r) \<and> FRACTION_ONE \<le> f' \<and> f' < 2 * FRACTION_ONE"
    by (rule make_frac_loop_value [OF assms(3,4) r]) simp_all
  then obtain p' f where
    loop: "make_frac_loop q ?r 1 = Some (p', f)" and p': "0 \<le> p'" "p' < q"
    and e: "f * q + p' = 2 ^ 28 * (q + ?r)" and f: "FRACTION_ONE \<le> f" "f < 2 * FRACTION_ONE" by auto
  define c where "c = (if p' - q + p' \<ge> 0 then f + 1 else f)"
  define up :: int where "up = (if p' - q + p' \<ge> 0 then 1 else 0)"
  let ?v = "(2 * FRACTION_ONE * p + q) div (2 * q)"
  have F: "2 ^ 28 = FRACTION_ONE" by (simp add: FRACTION_ONE_def)
  have "FRACTION_ONE * p = FRACTION_ONE * (?n * q + ?r)" by simp
  also have "\<dots> = FRACTION_ONE * (q + ?r) + (?n - 1) * FRACTION_ONE * q" by (simp only: algebra_simps)
  also have "\<dots> = (f + (?n - 1) * FRACTION_ONE) * q + p'" unfolding e [unfolded F, symmetric] by (simp only: algebra_simps)
  finally have "2 * FRACTION_ONE * p = 2 * ((f + (?n - 1) * FRACTION_ONE) * q + p')" by simp
  then have num: "2 * FRACTION_ONE * p + q = (2 * p' + q) + (f + (?n - 1) * FRACTION_ONE) * (2 * q)"
    by (simp only: algebra_simps)
  have "(2 * p' + q) div (2 * q) = up"
  proof (cases "p' - q + p' \<ge> 0")
    case True
    then have "2 * p' + q = (2 * p' - q) + 1 * (2 * q)" "0 \<le> 2 * p' - q" "2 * p' - q < 2 * q"
      using p' by simp_all
    then show ?thesis using True assms(3) by (simp only: up_def if_True div_mult_self1) simp
  qed (use p' in \<open>simp add: up_def\<close>)
  then have v: "?v = c + (?n - 1) * FRACTION_ONE"
    unfolding num using assms(3) by (simp add: c_def up_def)
  have top: "?v \<le> EL_GORDO"
  proof (cases "FRACTION_ONE \<le> q")
    case True
    then have "2 * FRACTION_ONE * p \<le> 2 * q * p" using assms(1) by (intro mult_right_mono) simp_all
    then have "2 * FRACTION_ONE * p + q < (p + 1) * (2 * q)" using assms(3) by (simp add: algebra_simps)
    then have "?v < p + 1" using assms(3) by (intro div_less_int) simp_all
    then show ?thesis using assms(2) by simp
  next
    case False
    then have "2 * FRACTION_ONE * p + q < (EL_GORDO + 1) * (2 * q)"
      using assms(5) by (simp add: fraction_defs)
    then have "?v < EL_GORDO + 1" using assms(3) by (intro div_less_int) simp_all
    then show ?thesis by simp
  qed
  have "2 * p' + q > 0" using p' assms(3) by simp
  have low: "0 \<le> ?v" using assms(1,3) by (simp add: pos_imp_zdiv_nonneg_iff FRACTION_ONE_def)
  have w: "wrap_i32 (p' - q) = p' - q" "wrap_i32 (p' - q + p') = p' - q + p'" "wrap_i32 (f + 1) = f + 1"
    "wrap_i32 ((?n - 1) * FRACTION_ONE) = (?n - 1) * FRACTION_ONE"
    using p' assms(3,4) f n by (simp_all add: i32_bounds fraction_defs)
  have "wrap_i32 ?v = ?v" using low top by (intro wrap_i32_id) (simp add: i32_bounds EL_GORDO_def)
  then have "wrap_i32 ((if wrap_i32 (wrap_i32 (p' - q) + p') \<ge> 0 then wrap_i32 (f + 1) else f)
       + wrap_i32 ((?n - 1) * FRACTION_ONE)) = ?v"
    unfolding w v c_def .
  from that [unfolded sd, OF loop this low top] show ?thesis .
qed

text \<open>
  Property C9.  \<open>make_frac\<close> ends, and is the quotient as a 28-bit fraction rounded to nearest (halves
  up), with the signs applied outside and a quotient of 8 or more saturated.  The divisor is not zero, and
  both arguments are 32-bit integers other than the least one, \<open>i32::MIN\<close>, whose negation overflows.
\<close>

theorem make_frac_rounds:
  assumes "\<bar>p\<bar> \<le> EL_GORDO" "\<bar>q\<bar> \<le> EL_GORDO" "q \<noteq> 0"
  shows "make_frac p q = Some (frac_quotient p q)"
proof -
  have n: "(if p < 0 then wrap_i32 (- p) else p) = \<bar>p\<bar>" "(if q \<le> 0 then wrap_i32 (- q) else q) = \<bar>q\<bar>"
    using assms by (auto simp: EL_GORDO_def i32_bounds)
  have q: "0 < \<bar>q\<bar>" "(\<bar>q\<bar> = 0) = False" using assms(3) by simp_all
  let ?v = "(2 * FRACTION_ONE * \<bar>p\<bar> + \<bar>q\<bar>) div (2 * \<bar>q\<bar>)"
  have zero: "?v = 0" if "p = 0" using that q by simp
  have sgn: "(if (if q \<le> 0 then \<not> p < 0 else p < 0) then - x else x) = sgn p * sgn q * x" if "p = 0 \<Longrightarrow> x = 0" for x
    using assms(3) that by (auto simp: sgn_if)
  show ?thesis
  proof (cases "8 * \<bar>q\<bar> \<le> \<bar>p\<bar>")
    case True
    then have "8 \<le> \<bar>p\<bar> div \<bar>q\<bar>" using zdiv_mono1 [OF True q(1)] q by simp
    then have big: "(\<bar>p\<bar> sdiv \<bar>q\<bar> \<ge> 8) = True" using q(1) by (simp add: sdiv_nonneg)
    have "p = 0 \<Longrightarrow> EL_GORDO = 0" using True q by simp
    from sgn [OF this] show ?thesis
      unfolding make_frac_def n Let_def q(2) if_False big if_True frac_quotient_def using True by simp
  next
    case False
    then have lt: "\<bar>p\<bar> < 8 * \<bar>q\<bar>" by simp
    have "\<bar>p\<bar> div \<bar>q\<bar> < 8" using q(1) lt by (rule div_less_int)
    then have small: "(\<bar>p\<bar> sdiv \<bar>q\<bar> \<ge> 8) = False" using q(1) by (simp add: sdiv_nonneg)
    from make_frac_nonneg [OF abs_ge_zero assms(1) q(1) assms(2) lt] obtain p' f where
      1: "make_frac_loop \<bar>q\<bar> (\<bar>p\<bar> smod \<bar>q\<bar>) 1 = Some (p', f)"
      "wrap_i32 ((if wrap_i32 (wrap_i32 (p' - \<bar>q\<bar>) + p') \<ge> 0 then wrap_i32 (f + 1) else f)
         + wrap_i32 ((\<bar>p\<bar> sdiv \<bar>q\<bar> - 1) * FRACTION_ONE)) = ?v" "0 \<le> ?v" "?v \<le> EL_GORDO" by blast
    have neg: "wrap_i32 (- ?v) = - ?v" using 1(3,4) by (intro wrap_i32_id) (simp add: i32_bounds EL_GORDO_def)
    show ?thesis
      unfolding make_frac_def n Let_def q(2) if_False small 1(1) bind.bind_lunit prod.case 1(2) neg
        frac_quotient_def using False sgn [of ?v, OF zero] by simp
  qed
qed

lemma make_frac_rounds_witness: "make_frac (-1) 3 = Some (- 89478485)"
  using make_frac_rounds [of "-1" 3] by (simp add: fraction_defs frac_quotient_def)

subsection \<open>ab_vs_cd\<close>

lemma quotient_decides:
  assumes "0 < b" "0 < d" "c div b < a div (d::int)"
  shows "c * d < a * b"
proof -
  have "c < (c div b + 1) * b"
    using pos_mod_bound [OF assms(1), of c] div_mult_mod_eq [of c b] unfolding distrib_right by linarith
  also have "\<dots> \<le> (a div d) * b" using assms by (intro mult_right_mono) simp_all
  finally have "c * d < (a div d) * b * d" using assms(2) by simp
  also have "\<dots> = (a div d * d) * b" by simp
  also have "\<dots> \<le> a * b"
    using assms(1,2) div_mult_mod_eq [of a d] pos_mod_sign [of d a] by (intro mult_right_mono) linarith+
  finally show ?thesis .
qed

lemma ab_loop_sign:
  "\<lbrakk>0 \<le> a; 0 < b; 0 \<le> c; 0 < d\<rbrakk> \<Longrightarrow> ab_loop a b c d = Some (sgn (a * b - c * d))"
proof (induction "nat (b + d)" arbitrary: a b c d rule: less_induct)
  case less
  note p = less.prems
  have s: "a sdiv d = a div d" "c sdiv b = c div b" "a smod d = a mod d" "c smod b = c mod b" "d = 0 \<or> b = 0 \<longleftrightarrow> False"
    using p by (simp_all add: sdiv_nonneg smod_nonneg)
  consider "c div b < a div d" | "a div d < c div b" | "a div d = c div b" by linarith
  then show ?case
  proof cases
    case 1
    then show ?thesis using quotient_decides [OF p(2,4) 1] by (simp add: ab_loop.simps [of a] s Let_def)
  next
    case 2
    then show ?thesis using quotient_decides [OF p(4,2) 2] by (simp add: ab_loop.simps [of a] s Let_def)
  next
    case 3
    let ?q = "a mod d" and ?r = "c mod b"
    have "a * b - c * d = (a div d * d + ?q) * b - (c div b * b + ?r) * d" by simp
    also have "\<dots> = ?q * b - ?r * d" unfolding 3 by (simp only: algebra_simps)
    finally have diff: "a * b - c * d = b * ?q - d * ?r" by (simp only: mult.commute)
    have range: "0 \<le> ?q" "?q < d" "0 \<le> ?r" "?r < b" using p by simp_all
    show ?thesis
    proof (cases "?q = 0 \<or> ?r = 0")
      case True
      then show ?thesis using p range 3 unfolding diff
        by (auto simp: ab_loop.simps [of a] s Let_def sgn_if mult_less_0_iff zero_less_mult_iff)
    next
      case False
      have "ab_loop b ?q d ?r = Some (sgn (b * ?q - d * ?r))"
        using p range False by (intro less.hyps) auto
      then show ?thesis using False 3 unfolding diff by (simp add: ab_loop.simps [of a] s Let_def)
    qed
  qed
qed

lemma sign_cases:
  assumes "0 \<le> a" "0 \<le> c"
  shows "(if d \<le> 0 then
      (if b \<ge> 0 then Some (if (a = 0 \<or> b = 0) \<and> (c = 0 \<or> d = 0) then 0 else 1)
       else if d = 0 then Some (if a = 0 then 0 else - 1)
       else ab_loop c (- d) a (- b))
    else if b \<le> 0 then (if b < 0 \<and> a > 0 then Some (- 1) else Some (if c = 0 then 0 else - 1))
    else ab_loop a b c d) = Some (sgn (a * b - c * d))"
proof -
  have pos: "0 < x - y" if "0 \<le> x" "y \<le> 0" "x \<noteq> 0 \<or> y \<noteq> 0" for x y :: int using that by auto
  consider "d \<le> 0" "b \<ge> 0" | "d = 0" "b < 0" | "d < 0" "b < 0" | "d > 0" "b \<le> 0" | "d > 0" "b > 0" by linarith
  then show ?thesis
  proof cases
    case 1
    then have "0 \<le> a * b" "c * d \<le> 0" using assms by (simp_all add: mult_nonneg_nonpos)
    with pos [of "a * b" "c * d"] 1 show ?thesis by auto
  next
    case 2
    then show ?thesis using assms by (auto simp: sgn_if zero_less_mult_iff)
  next
    case 3
    then show ?thesis using ab_loop_sign [of c "- d" a "- b"] assms by simp
  next
    case 4
    then have "a * b \<le> 0" "0 \<le> c * d" using assms by (simp_all add: mult_nonneg_nonpos)
    moreover have "0 < c * d \<longleftrightarrow> c \<noteq> 0" "a * b < 0 \<longleftrightarrow> b < 0 \<and> a > 0"
      using 4 assms by (auto simp: zero_less_mult_iff mult_less_0_iff)
    moreover have "sgn (u - v) = (if u < 0 then - 1 else if 0 < v then - 1 else 0)" if "u \<le> 0" "0 \<le> v" for u v :: int
      using that by (simp add: sgn_if)
    ultimately have "sgn (a * b - c * d) = (if b < 0 \<and> a > 0 then - 1 else if c = 0 then 0 else - 1)"
      by presburger
    then show ?thesis using 4 by simp
  next
    case 5
    then show ?thesis using ab_loop_sign [of a b c d] assms by simp
  qed
qed

text \<open>
  Property C10.  \<open>ab_vs_cd\<close> ends and returns the exact sign of \<open>a * b - c * d\<close>, computed without a
  64-bit product, for all 32-bit arguments but the negative one without a counterpart.
\<close>

theorem ab_vs_cd_sign:
  assumes "\<bar>a\<bar> \<le> EL_GORDO" "\<bar>b\<bar> \<le> EL_GORDO" "\<bar>c\<bar> \<le> EL_GORDO" "\<bar>d\<bar> \<le> EL_GORDO"
  shows "ab_vs_cd a b c d = Some (sgn (a * b - c * d))"
proof -
  have neg: "wrap_i32 (- x) = - x" if "\<bar>x\<bar> \<le> EL_GORDO" for x
    using that by (intro wrap_i32_id) (auto simp: EL_GORDO_def i32_bounds)
  let ?a = "if a < 0 then - a else a" and ?b = "if a < 0 then - b else b"
  let ?c = "if c < 0 then - c else c" and ?d = "if c < 0 then - d else d"
  have prod: "a * b = ?a * ?b" "c * d = ?c * ?d" "0 \<le> ?a" "0 \<le> ?c" by simp_all
  have w: "wrap_i32 (- ?b) = - ?b" "wrap_i32 (- ?d) = - ?d" using assms neg by simp_all
  have args: "(if a < 0 then (wrap_i32 (- a), wrap_i32 (- b)) else (a, b)) = (?a, ?b)"
    "(if c < 0 then (wrap_i32 (- c), wrap_i32 (- d)) else (c, d)) = (?c, ?d)" using assms neg by simp_all
  show ?thesis
    unfolding ab_vs_cd_def args Let_def prod.case w prod(1,2)
    by (rule sign_cases [OF prod(3,4)])
qed

lemma ab_vs_cd_sign_witness: "ab_vs_cd 65537 65537 65536 65538 = Some 1"
  using ab_vs_cd_sign [of 65537 65537 65536 65538] by (simp add: EL_GORDO_def)

subsection \<open>The generator\<close>

definition fractions :: "int list \<Rightarrow> bool" where
  "fractions rs \<longleftrightarrow> length rs = 55 \<and> (\<forall>x \<in> set rs. 0 \<le> x \<and> x < FRACTION_ONE)"

definition randoms_ok :: "randoms \<Rightarrow> bool" where
  "randoms_ok r \<longleftrightarrow> fractions (ring r) \<and> j_random r < 55"

lemma wrap_diff_fraction:
  assumes "0 \<le> x" "x < FRACTION_ONE" "0 \<le> y" "y < FRACTION_ONE"
  defines "z \<equiv> (if wrap_i32 (x - y) < 0 then wrap_i32 (wrap_i32 (x - y) + FRACTION_ONE) else wrap_i32 (x - y))"
  shows "0 \<le> z \<and> z < FRACTION_ONE"
proof -
  have w: "wrap_i32 (x - y) = x - y" "wrap_i32 (x - y + FRACTION_ONE) = x - y + FRACTION_ONE"
    using assms(1-4) by (simp_all add: i32_bounds FRACTION_ONE_def)
  show ?thesis unfolding z_def w using assms(1-4) by simp
qed

lemma fractions_update: "fractions rs \<Longrightarrow> 0 \<le> x \<and> x < FRACTION_ONE \<Longrightarrow> fractions (rs[k := x])"
  using set_update_subset_insert [of rs k x] by (auto simp: fractions_def)

lemma lag_step_fractions:
  assumes "fractions rs" "k < 55" "i < 55"
  shows "fractions (lag_step k i rs)"
proof -
  have "rs ! k \<in> set rs" "rs ! i \<in> set rs" using assms by (simp_all add: fractions_def)
  then have "0 \<le> rs ! k" "rs ! k < FRACTION_ONE" "0 \<le> rs ! i" "rs ! i < FRACTION_ONE"
    using assms(1) by (auto simp: fractions_def)
  from wrap_diff_fraction [OF this] show ?thesis
    unfolding lag_step_def Let_def by (intro fractions_update [OF assms(1)])
qed

lemma fold_fractions:
  assumes "\<And>k rs. k \<in> set ks \<Longrightarrow> fractions rs \<Longrightarrow> fractions (f k rs)" "fractions rs"
  shows "fractions (fold f ks rs)"
  using assms by (induction ks arbitrary: rs) auto

lemma new_randoms_ok: "fractions (ring r) \<Longrightarrow> randoms_ok (new_randoms r)"
  by (auto simp: new_randoms_def randoms_ok_def Let_def intro!: fold_fractions lag_step_fractions)

lemma halve_seed_range: "0 \<le> j \<Longrightarrow> 0 \<le> halve_seed j \<and> halve_seed j < FRACTION_ONE"
proof (induction j rule: halve_seed.induct)
  case (1 j)
  show ?case
  proof (cases "j \<ge> FRACTION_ONE")
    case True
    then show ?thesis using 1 by (simp add: halve_seed.simps [of j] sdiv_nonneg)
  next
    case False
    then show ?thesis using 1 by (simp add: halve_seed.simps [of j])
  qed
qed

definition seeding_ok :: "int \<times> int \<times> int list \<Rightarrow> bool" where
  "seeding_ok = (\<lambda>(j, k, rs). 0 \<le> j \<and> j < FRACTION_ONE \<and> 0 \<le> k \<and> k < FRACTION_ONE \<and> fractions rs)"

lemma seed_step_ok: "seeding_ok s \<Longrightarrow> seeding_ok (seed_step i s)"
proof -
  assume ok: "seeding_ok s"
  obtain j k rs where s: "s = (j, k, rs)" by (cases s)
  have b: "0 \<le> j" "j < FRACTION_ONE" "0 \<le> k" "k < FRACTION_ONE" and rs: "fractions rs"
    using ok by (simp_all add: seeding_ok_def s)
  have "fractions (rs[i * 21 mod 55 := k])"
    using rs b(3,4) by (intro fractions_update) simp_all
  with wrap_diff_fraction [OF b(1,2,3,4)] b show ?thesis
    by (simp add: seed_step_def s Let_def seeding_ok_def)
qed

lemma fold_seeding: "seeding_ok s \<Longrightarrow> seeding_ok (fold seed_step is s)"
  by (induction "is" arbitrary: s) (simp_all add: seed_step_ok)

lemma randoms_new_ok: "randoms_ok (randoms_new s)"
proof -
  obtain j k rs where rs: "fold seed_step [0..<55] (halve_seed (min \<bar>s\<bar> i32_max), 1, replicate 55 0) = (j, k, rs)"
    by (cases "fold seed_step [0..<55] (halve_seed (min \<bar>s\<bar> i32_max), 1, replicate 55 0)")
  have "0 \<le> min \<bar>s\<bar> i32_max" by (simp add: i32_max_def)
  then have "seeding_ok (halve_seed (min \<bar>s\<bar> i32_max), 1, replicate 55 0)"
    using halve_seed_range by (simp add: seeding_ok_def fractions_def FRACTION_ONE_def)
  from fold_seeding [OF this, of "[0..<55]"] have "fractions rs" unfolding rs by (simp add: seeding_ok_def)
  then have "randoms_ok (new_randoms \<lparr>seed = s, ring = rs, j_random = 0\<rparr>)" by (intro new_randoms_ok) simp
  then have "randoms_ok (new_randoms (new_randoms (new_randoms \<lparr>seed = s, ring = rs, j_random = 0\<rparr>)))"
    using new_randoms_ok by (simp add: randoms_ok_def)
  then show "randoms_ok (randoms_new s)" unfolding randoms_new_def Let_def rs by simp
qed

lemma next_random_ok:
  assumes ok: "randoms_ok r"
  shows "randoms_ok (snd (next_random r))" "0 \<le> fst (next_random r)" "fst (next_random r) < FRACTION_ONE"
proof -
  let ?r = "if j_random r = 0 then new_randoms r else r\<lparr>j_random := j_random r - 1\<rparr>"
  have "randoms_ok ?r" using ok new_randoms_ok by (auto simp: randoms_ok_def)
  moreover from this have "ring ?r ! j_random ?r \<in> set (ring ?r)"
    by (intro nth_mem) (simp only: randoms_ok_def fractions_def)
  ultimately show "randoms_ok (snd (next_random r))" "0 \<le> fst (next_random r)" "fst (next_random r) < FRACTION_ONE"
    unfolding next_random_def Let_def by (auto simp: randoms_ok_def fractions_def simp del: if_split)
qed

text \<open>
  Property C11.  The generator's invariant, for every seed: \<open>Randoms::new\<close> fills the ring with 55
  fractions and sets an index inside it, and each \<open>next_random\<close> returns a fraction between 0 and 1
  and keeps the invariant, so no later call indexes out of the ring.
\<close>

theorem generator_invariant:
  "randoms_ok (randoms_new s) \<and> (randoms_ok r \<longrightarrow> randoms_ok (snd (next_random r)) \<and>
     0 \<le> fst (next_random r) \<and> fst (next_random r) < FRACTION_ONE)"
  by (simp add: randoms_new_ok next_random_ok)

lemma generator_invariant_witness:
  "randoms_ok (snd (next_random (randoms_new 12345))) \<and> fst (next_random (randoms_new 12345)) < FRACTION_ONE"
  using generator_invariant [of 12345 "randoms_new 12345"] by simp

text \<open>
  Property C12.  \<open>unif_rand(x)\<close> always returns, and its deviate lies in \<open>0 \<le> u < x\<close>, or in
  \<open>x < u \<le> 0\<close> for a negative \<open>x\<close>, and is 0 for 0; the generator's invariant is kept.
\<close>

theorem unif_rand_range:
  assumes "randoms_ok r" "is_i32 x"
  shows "\<exists>u r'. unif_rand r x = Some (u, r') \<and> randoms_ok r' \<and>
    (if x > 0 then 0 \<le> u \<and> u < x else if x < 0 then x < u \<and> u \<le> 0 else u = 0)"
proof -
  obtain f r' where nx: "next_random r = (f, r')" by (cases "next_random r")
  have f: "randoms_ok r'" "0 \<le> f" "f < FRACTION_ONE"
    using next_random_ok [OF assms(1)] nx by simp_all
  let ?a = "saturating_abs x"
  have a: "0 \<le> ?a" "?a \<le> EL_GORDO" "?a \<le> \<bar>x\<bar>" by (simp_all add: saturating_abs_def i32_max_def EL_GORDO_def)
  have tf: "take_frac ?a f = Some (frac_product ?a f)"
    by (rule take_frac_value) (use a f in \<open>simp_all add: fraction_defs\<close>)
  let ?y = "frac_product ?a f"
  have y: "0 \<le> ?y" "?y \<le> ?a"
  proof -
    let ?v = "(?a * f + FRACTION_HALF) div FRACTION_ONE"
    have "?a * f \<le> ?a * (FRACTION_ONE - 1)" using a f by (intro mult_left_mono) simp_all
    then have "?a * f + FRACTION_HALF < (?a + 1) * FRACTION_ONE"
      using a(1) by (simp add: fraction_defs algebra_simps)
    then have "?v < ?a + 1" by (intro div_less_int) (simp_all add: FRACTION_ONE_def)
    moreover have "0 \<le> ?v" using a f by (simp add: fraction_defs pos_imp_zdiv_nonneg_iff)
    moreover have "?y = (if ?a = 0 \<or> f = 0 then 0 else min ?v EL_GORDO)"
      using a f by (auto simp: frac_product_def)
    ultimately show "0 \<le> ?y" "?y \<le> ?a" using a(1) by (auto simp: EL_GORDO_def)
  qed
  have "wrap_i32 (- ?y) = - ?y" using y a(2) by (intro wrap_i32_id) (simp add: i32_bounds EL_GORDO_def)
  then have "unif_rand r x = Some (if ?y = ?a then 0 else if x > 0 then ?y else - ?y, r')"
    unfolding unif_rand_def nx Let_def prod.case tf bind.bind_lunit by simp
  moreover have "x = 0 \<Longrightarrow> ?a = 0" by (simp add: saturating_abs_def i32_max_def)
  ultimately show ?thesis using f(1) y a(3) by auto
qed

lemma unif_rand_range_witness:
  "\<exists>u r'. unif_rand (randoms_new 12345) 1000 = Some (u, r') \<and> randoms_ok r' \<and> 0 \<le> u \<and> u < 1000"
  using unif_rand_range [of "randoms_new 12345" 1000] randoms_new_ok [of 12345] by (simp add: i32_bounds)

end
