(* ===== verification/Scaled.thy ===== *)
theory Scaled
  imports Prelude
begin

text \<open>
  \<open>crates/tex-core/src/scaled.rs\<close>: TeX's fixed-point arithmetic.  Dimensions are \<open>i32\<close> scaled
  points; products and quotients are computed in \<open>i64\<close>/\<open>i128\<close>, where the sizes of the operands
  exclude overflow, and come back saturated.
\<close>

subsection \<open>Constants\<close>

(* @src crates/tex-core/src/scaled.rs:4-4 INF_BAD *)
definition INF_BAD :: int where "INF_BAD = 10000"

subsection \<open>Operations\<close>

(* @src crates/tex-core/src/scaled.rs fn saturate *)
definition saturate :: "int \<Rightarrow> int" where
  "saturate v = clamp_int i32_min i32_max v"

(* @src crates/tex-core/src/scaled.rs fn mult *)
definition mult :: "int \<Rightarrow> int \<Rightarrow> int" where
  "mult n x =
     (let prod = n * x;
          acc = prod + (if prod \<ge> 0 then 0x8000 else - 0x8000)
      in saturate (acc sdiv 0x10000))"

(* @src crates/tex-core/src/scaled.rs fn mult_and_add *)
definition mult_and_add :: "int \<Rightarrow> int \<Rightarrow> int \<Rightarrow> int" where
  "mult_and_add n x y = saturate (mult n x + y)"

(* @src crates/tex-core/src/scaled.rs fn x_over_y *)
definition x_over_y :: "int \<Rightarrow> int \<Rightarrow> int" where
  "x_over_y x y =
     (if y = 0 then (if x \<ge> 0 then i32_max else i32_min)
      else
        let den = \<bar>y\<bar>;
            negative = ((y < 0) \<noteq> (x < 0));
            xv = (if x < 0 then - x else x);
            q = xv sdiv den;
            r = xv - q * den;
            res = (if r * 2 \<ge> den then q + 1 else q)
        in if res > i32_max then (if negative then i32_min else i32_max)
           else if negative then wrap_i32 (- res)
           else wrap_i32 res)"

(* @src crates/tex-core/src/scaled.rs fn xn_over_d *)
definition xn_over_d :: "int \<Rightarrow> int \<Rightarrow> int \<Rightarrow> int" where
  "xn_over_d x n d = (if d \<le> 0 then i32_max else saturate ((x * n) sdiv d))"

(* @src crates/tex-core/src/scaled.rs fn scaled_round *)
definition scaled_round :: "int \<Rightarrow> int" where
  "scaled_round x = wrap_i32 ((x + (if x \<ge> 0 then 0x8000 else - 0x8000)) sdiv 0x10000)"

(* @src crates/tex-core/src/scaled.rs fn badness *)
definition badness :: "int \<Rightarrow> int \<Rightarrow> int" where
  "badness t s =
     (if t = 0 then 0
      else if s \<le> 0 then INF_BAD
      else
        let r = (if t \<le> 7230584 then (t * 297) sdiv s
                 else if s \<ge> 1663497 then t sdiv (s sdiv 297)
                 else t)
        in if r > 1290 then INF_BAD
           else wrap_i32 (wrap_i64 (wrap_i64 (wrap_i64 (r * r) * r) + 131072) sdiv 262144))"

subsection \<open>Rounding and saturation\<close>

lemma saturate_inside: "\<bar>saturate v\<bar> < i32_max \<Longrightarrow> saturate v = v"
  by (simp add: saturate_def clamp_int_def i32_min_def i32_max_def split: if_splits)

lemma saturate_is_i32 [simp, intro]: "is_i32 (saturate v)"
  by (simp add: saturate_def clamp_int_def i32_min_def i32_max_def i32_bounds)

text \<open>
  Property C39.  \<open>mult(n, x)\<close> is the product \<open>n * x / 2^16\<close> rounded to a nearest integer: unless the result
  saturates, it is off by at most half a unit, for operands of either sign.
\<close>

theorem mult_nearest:
  assumes "\<bar>mult n x\<bar> < i32_max"
  shows "2 * \<bar>65536 * mult n x - n * x\<bar> \<le> 65536"
proof -
  define p where "p = n * x"
  define acc where "acc = (if p \<ge> 0 then p + 32768 else p - 32768)"
  have m: "mult n x = acc sdiv 65536"
    using assms saturate_inside by (auto simp: mult_def Let_def acc_def p_def)
  show ?thesis
  proof (cases "p \<ge> 0")
    case True
    then have "acc sdiv 65536 = (p + 65536 div 2) div 65536"
      by (simp add: acc_def sdiv_nonneg)
    then show ?thesis using half_up_nearest [of 65536 p] by (simp add: m p_def)
  next
    case False
    then have "acc sdiv 65536 = - ((- p + 65536 div 2) div 65536)"
      by (simp add: acc_def sdiv_neg)
    then show ?thesis using half_up_nearest [of 65536 "- p"] by (simp add: m p_def)
  qed
qed

theorem mult_nearest_witness:
  "mult 32768 (- 3) = - 2 \<and> 2 * \<bar>65536 * mult 32768 (- 3) - 32768 * (- 3)\<bar> \<le> 65536"
proof -
  have v: "mult 32768 (- 3) = - 2" by code_simp
  have "\<bar>mult 32768 (- 3)\<bar> < i32_max" by code_simp
  from mult_nearest [OF this] v show ?thesis by simp
qed


lemma quotient_nearest:
  fixes a d :: int
  assumes "0 \<le> a" "0 < d"
  shows "2 * \<bar>d * (if (a - a div d * d) * 2 \<ge> d then a div d + 1 else a div d) - a\<bar> \<le> d"
proof -
  define q where "q = d * (a div d)"
  have "q + a mod d = a" by (simp add: q_def)
  moreover have "0 \<le> a mod d" "a mod d < d" using assms by simp_all
  moreover have "a div d * d = q" by (simp add: q_def)
  moreover have "d * (a div d + 1) = q + d" by (simp add: q_def algebra_simps)
  ultimately show ?thesis by (simp add: q_def [symmetric])
qed

text \<open>
  Property C40.  \<open>x_over_y(x, y)\<close> is the quotient rounded to a nearest integer: for a nonzero divisor of
  either sign, and unless the result saturates, it is off by at most half a divisor.
\<close>

theorem x_over_y_nearest:
  assumes "y \<noteq> 0" "\<bar>x_over_y x y\<bar> < i32_max"
  shows "2 * \<bar>y * x_over_y x y - x\<bar> \<le> \<bar>y\<bar>"
proof -
  define res where "res = (if (\<bar>x\<bar> - \<bar>x\<bar> div \<bar>y\<bar> * \<bar>y\<bar>) * 2 \<ge> \<bar>y\<bar> then \<bar>x\<bar> div \<bar>y\<bar> + 1 else \<bar>x\<bar> div \<bar>y\<bar>)"
  have near: "2 * \<bar>\<bar>y\<bar> * res - \<bar>x\<bar>\<bar> \<le> \<bar>y\<bar>"
    unfolding res_def using assms by (intro quotient_nearest) auto
  have res0: "0 \<le> res" using assms by (simp add: res_def pos_imp_zdiv_nonneg_iff)
  have x: "(if x < 0 then - x else x) = \<bar>x\<bar>" by simp
  have dv: "\<bar>x\<bar> sdiv \<bar>y\<bar> = \<bar>x\<bar> div \<bar>y\<bar>" using assms(1) by (intro sdiv_nonneg) auto
  have eq: "x_over_y x y = (if res > i32_max then (if (y < 0) \<noteq> (x < 0) then i32_min else i32_max)
      else if (y < 0) \<noteq> (x < 0) then wrap_i32 (- res) else wrap_i32 res)"
    using assms(1) dv unfolding x_over_y_def x Let_def res_def by (simp only: dv if_False)
  have "\<not> res > i32_max"
    using assms(2) by (auto simp: eq i32_min_def i32_max_def split: if_splits)
  with res0 have v: "x_over_y x y = (if (y < 0) \<noteq> (x < 0) then - res else res)"
    by (simp add: eq i32_bounds i32_max_def)
  have "y * x_over_y x y - x = (if x < 0 then - 1 else 1) * (\<bar>y\<bar> * res - \<bar>x\<bar>)"
    using v by (cases "y < 0"; cases "x < 0") simp_all
  then have "\<bar>y * x_over_y x y - x\<bar> = \<bar>\<bar>y\<bar> * res - \<bar>x\<bar>\<bar>" by (simp add: abs_mult)
  with near show ?thesis by simp
qed

theorem x_over_y_nearest_witness:
  "x_over_y (- 100000) 7 = - 14286 \<and> 2 * \<bar>7 * x_over_y (- 100000) 7 - (- 100000)\<bar> \<le> \<bar>7\<bar>"
proof -
  have v: "x_over_y (- 100000) 7 = - 14286" by code_simp
  have "\<bar>x_over_y (- 100000) 7\<bar> < i32_max" by code_simp
  from x_over_y_nearest [OF _ this] v show ?thesis by simp
qed


lemma xn_over_d_truncates:
  assumes "0 < d" "\<bar>xn_over_d x n d\<bar> < i32_max"
  shows "\<bar>d * xn_over_d x n d\<bar> \<le> \<bar>x * n\<bar> \<and> \<bar>x * n - d * xn_over_d x n d\<bar> < d"
proof -
  define p where "p = x * n"
  have v: "xn_over_d x n d = p sdiv d"
    using assms saturate_inside by (auto simp: xn_over_d_def p_def)
  define q where "q = d * (\<bar>p\<bar> div d)"
  have "q + \<bar>p\<bar> mod d = \<bar>p\<bar>" by (simp add: q_def)
  moreover have "0 \<le> \<bar>p\<bar> mod d" "\<bar>p\<bar> mod d < d" using assms by simp_all
  moreover have "0 \<le> q" using assms by (simp add: q_def pos_imp_zdiv_nonneg_iff)
  moreover have "d * (p sdiv d) = (if p < 0 then - q else q)"
    using assms by (simp add: q_def sdiv_nonneg sdiv_neg)
  ultimately have "\<bar>d * (p sdiv d)\<bar> \<le> \<bar>p\<bar> \<and> \<bar>p - d * (p sdiv d)\<bar> < d"
    by (cases "p < 0") simp_all
  then show ?thesis by (simp add: v p_def [symmetric])
qed

subsection \<open>Badness\<close>

definition badness_ratio :: "int \<Rightarrow> int \<Rightarrow> int" where
  "badness_ratio t s = (if t \<le> 7230584 then t * 297 div s
     else if s \<ge> 1663497 then t div (s div 297) else t)"

lemma badness_ratio_eq:
  assumes "0 \<le> t" "0 < s"
  shows "badness t s = (let r = badness_ratio t s in
    if r > 1290 then INF_BAD else (r ^ 3 + 131072) div 262144)"
proof -
  define r where "r = badness_ratio t s"
  have r: "(if t \<le> 7230584 then (t * 297) sdiv s else if s \<ge> 1663497 then t sdiv (s sdiv 297) else t) = r"
    using assms by (simp add: r_def badness_ratio_def sdiv_nonneg)
  have r0: "0 \<le> r" using assms by (simp add: r_def badness_ratio_def pos_imp_zdiv_nonneg_iff)
  have cube: "wrap_i32 (wrap_i64 (wrap_i64 (wrap_i64 (r * r) * r) + 131072) sdiv 262144) = (r ^ 3 + 131072) div 262144"
    if "r \<le> 1290"
  proof -
    have "r * r \<le> 1290 * 1290" using r0 that by (intro mult_mono) auto
    then have b2: "0 \<le> r * r" "r * r \<le> 1664100" by simp_all
    then have "(r * r) * r \<le> 1664100 * 1290" using r0 that by (intro mult_mono) auto
    then have b3: "0 \<le> r * r * r" "r * r * r \<le> 2146689000" using r0 b2 by simp_all
    then have "0 \<le> (r * r * r + 131072) div 262144" "(r * r * r + 131072) div 262144 \<le> (2146689000 + 131072) div 262144"
      by (simp_all add: pos_imp_zdiv_nonneg_iff zdiv_mono1)
    then have fin: "is_i32 ((r * r * r + 131072) div 262144)" by (simp add: i32_bounds)
    have "wrap_i64 (r * r) = r * r" using b2 by (intro wrap_i64_id) linarith+
    moreover have "wrap_i64 (r * r * r) = r * r * r" using b3 by (intro wrap_i64_id) linarith+
    moreover have "wrap_i64 (r * r * r + 131072) = r * r * r + 131072"
      using b3 by (intro wrap_i64_id) linarith+
    ultimately show ?thesis using b3 fin by (simp add: sdiv_nonneg power3_eq_cube)
  qed
  have z: "t = 0 \<Longrightarrow> r = 0" by (simp add: r_def badness_ratio_def)
  show ?thesis
    using assms cube z by (simp add: badness_def Let_def r r_def [symmetric])
qed

lemma div_mono_both:
  fixes a b c d :: int
  assumes "0 \<le> a" "a \<le> b" "0 < d" "d \<le> c"
  shows "a div c \<le> b div d"
proof -
  have "a div c \<le> b div c" using assms by (intro zdiv_mono1) auto
  also have "\<dots> \<le> b div d" using assms by (intro zdiv_mono2) auto
  finally show ?thesis .
qed

lemma badness_ratio_mono:
  assumes "0 \<le> t1" "t1 \<le> t2" "0 < s2" "s2 \<le> s1"
  shows "min 1291 (badness_ratio t1 s1) \<le> min 1291 (badness_ratio t2 s2)"
proof (cases "t2 \<le> 7230584")
  case True
  then have "badness_ratio t1 s1 \<le> badness_ratio t2 s2"
    using assms by (auto simp: badness_ratio_def intro!: div_mono_both)
  then show ?thesis by simp
next
  case big: False
  show ?thesis
  proof (cases "s2 \<ge> 1663497")
    case False
    with big have "1291 \<le> badness_ratio t2 s2" by (simp add: badness_ratio_def)
    then show ?thesis by simp
  next
    case True
    with assms have s: "0 < s2 div 297" "s2 div 297 \<le> s1 div 297" by (simp_all add: zdiv_mono1)
    have "t1 * 297 div s1 \<le> (t2 * 297) div (s2 div 297 * 297)"
      using assms s by (intro div_mono_both) (auto simp: minus_mod_eq_div_mult [symmetric] intro: order_trans [OF _ assms(4)])
    also have "\<dots> = t2 div (s2 div 297)" by simp
    finally have "t1 * 297 div s1 \<le> t2 div (s2 div 297)" .
    moreover have "t1 div (s1 div 297) \<le> t2 div (s2 div 297)"
      using assms s by (intro div_mono_both) auto
    ultimately have "badness_ratio t1 s1 \<le> badness_ratio t2 s2"
      using True big assms by (simp add: badness_ratio_def)
    then show ?thesis by simp
  qed
qed

text \<open>
  Property C38.  The badness of glue set, for an excess that is not negative, is between 0 and \<open>INF_BAD\<close>; it
  never decreases when more stretch is asked for and never increases when more is available, across the
  three integer approximations the code switches between.  (For a negative excess the function makes no
  such promise.)
\<close>

theorem badness_monotone:
  assumes "0 \<le> t1" "t1 \<le> t2" "s2 \<le> s1"
  shows "0 \<le> badness t1 s1 \<and> badness t1 s1 \<le> badness t2 s2 \<and> badness t2 s2 \<le> INF_BAD"
proof -
  define g :: "int \<Rightarrow> int" where "g r = (if r > 1290 then INF_BAD else (r ^ 3 + 131072) div 262144)" for r
  have g_min: "g r = g (min 1291 r)" for r by (simp add: g_def)
  have g_mono: "g a \<le> g b" if "a \<le> b" "0 \<le> a" for a b
  proof -
    have "(a ^ 3 + 131072) div 262144 \<le> INF_BAD" if "a \<le> 1290"
    proof -
      have "a ^ 3 \<le> 1290 ^ 3" using that \<open>0 \<le> a\<close> by (intro power_mono) auto
      then have "(a ^ 3 + 131072) div 262144 \<le> (1290 ^ 3 + 131072) div 262144" by (intro zdiv_mono1) auto
      also have "\<dots> \<le> INF_BAD" by (simp add: INF_BAD_def)
      finally show ?thesis .
    qed
    moreover have "(a ^ 3 + 131072) div 262144 \<le> (b ^ 3 + 131072) div 262144"
      using that by (intro zdiv_mono1 add_mono power_mono) auto
    ultimately show ?thesis using that by (simp add: g_def)
  qed
  have g_bounds: "0 \<le> g r" "g r \<le> INF_BAD" if "0 \<le> r" for r
  proof -
    show "0 \<le> g r" using that by (simp add: g_def INF_BAD_def pos_imp_zdiv_nonneg_iff)
    have "g r \<le> g (max r 1291)" using that by (intro g_mono) auto
    then show "g r \<le> INF_BAD" by (simp add: g_def split: if_splits)
  qed
  have eq: "badness t s = g (badness_ratio t s)" if "0 \<le> t" "0 < s" for t s
    using that by (simp add: badness_ratio_eq g_def Let_def)
  have nonneg: "0 \<le> badness_ratio t s" if "0 \<le> t" "0 < s" for t s
    using that by (simp add: badness_ratio_def pos_imp_zdiv_nonneg_iff)
  have range: "0 \<le> badness t s \<and> badness t s \<le> INF_BAD" if "0 \<le> t" for t s
    using that by (cases "0 < s") (simp_all add: eq nonneg g_bounds, simp add: badness_def INF_BAD_def)
  have "badness t1 s1 \<le> badness t2 s2"
  proof (cases "0 < s2")
    case False
    then have "badness t2 s2 = (if t2 = 0 then 0 else INF_BAD)" by (simp add: badness_def)
    moreover have "t2 = 0 \<Longrightarrow> badness t1 s1 = 0" using assms by (simp add: badness_def)
    ultimately show ?thesis using range [OF assms(1)] by simp
  next
    case True
    with assms have "g (min 1291 (badness_ratio t1 s1)) \<le> g (min 1291 (badness_ratio t2 s2))"
      by (intro g_mono badness_ratio_mono) (simp_all add: nonneg)
    then show ?thesis using True assms by (simp add: eq g_min [symmetric])
  qed
  with range [of t1 s1] range [of t2 s2] assms show ?thesis by simp
qed

theorem badness_monotone_witness:
  "badness 65536 131072 = 12 \<and> badness 98304 65536 = 336 \<and> badness 65536 131072 \<le> badness 98304 65536"
proof -
  have "badness 65536 131072 = 12" "badness 98304 65536 = 336" by code_simp+
  then show ?thesis using badness_monotone [of 65536 98304 65536 131072] by simp
qed


end
