(* ===== verification/MiStream.thy ===== *)
theory MiStream
  imports Prelude
begin

text \<open>
  \<open>crates/tex-makeindex\<close>: what its modules share - the byte input of \<open>stream.rs\<close>, the transcript of
  \<open>lib.rs\<close>, and the C-string helpers.  A character read is an \<open>int\<close>, with \<open>-1\<close> for the end of the
  file, as the code has it.  The terminal (standard error) is a byte list of the transcript state.
\<close>

definition C_EOF :: int where "C_EOF = - 1"

definition u8_of :: "int \<Rightarrow> u8" where "u8_of c = char_of (nat (c mod 256))"

lemma u8_of_byte_val [simp]: "u8_of (byte_val b) = b"
proof -
  have v: "byte_val b = int (of_char b :: nat)" by (simp add: byte_val_def of_nat_of_char)
  then have "byte_val b mod 256 = byte_val b" using nat_of_char_less_256 [of b] by (simp add: mod_pos_pos_trivial)
  then show ?thesis unfolding u8_of_def by (simp add: v)
qed

subsection \<open>Decimal numbers in messages\<close>

subsection \<open>Streams\<close>

(* @src crates/tex-makeindex/src/stream.rs struct Stream *)
record stream =
  s_bytes :: bytes
  s_pos :: nat
  lookahead :: "int option"

(* @src crates/tex-makeindex/src/stream.rs fn new *)
definition stream_new :: "bytes \<Rightarrow> stream" where
  "stream_new bs = \<lparr>s_bytes = bs, s_pos = 0, lookahead = None\<rparr>"

(* @src crates/tex-makeindex/src/stream.rs fn raw_getc *)
definition raw_getc :: "stream \<Rightarrow> int \<times> stream" where
  "raw_getc s =
     (if s_pos s < length (s_bytes s)
      then (byte_val (s_bytes s ! s_pos s), s\<lparr>s_pos := s_pos s + 1\<rparr>)
      else (C_EOF, s))"

(* @src crates/tex-makeindex/src/stream.rs fn peek_raw *)
definition peek_raw :: "stream \<Rightarrow> u8 option" where
  "peek_raw s = (if s_pos s < length (s_bytes s) then Some (s_bytes s ! s_pos s) else None)"

(* @src crates/tex-makeindex/src/stream.rs fn getc *)
definition getc :: "stream \<Rightarrow> int \<times> stream" where
  "getc s =
     (let (ch, s) = (case lookahead s of Some ch \<Rightarrow> (ch, s\<lparr>lookahead := None\<rparr>) | None \<Rightarrow> raw_getc s)
      in if ch = byte_val (CHR 0x0D)
         then let (next, s) = raw_getc s
              in if next = byte_val (CHR 0x0A) then (next, s)
                 else (ch, s\<lparr>lookahead := Some next\<rparr>)
         else (ch, s))"

text \<open>
  What is left to read: the lookahead, if it is a byte, then the rest of the bytes.  Every \<open>getc\<close>
  that does not return the end of the file makes it smaller.
\<close>

definition left :: "stream \<Rightarrow> nat" where
  "left s = (length (s_bytes s) - s_pos s) + (case lookahead s of Some c \<Rightarrow> if c = C_EOF then 0 else 1 | None \<Rightarrow> 0)"

lemma raw_getc_cases:
  obtains (byte) "s_pos s < length (s_bytes s)"
      "raw_getc s = (byte_val (s_bytes s ! s_pos s), s\<lparr>s_pos := s_pos s + 1\<rparr>)"
    | (eof) "length (s_bytes s) \<le> s_pos s" "raw_getc s = (C_EOF, s)"
  by (cases "s_pos s < length (s_bytes s)") (simp_all add: raw_getc_def)

lemma byte_val_not_eof [simp]: "byte_val b \<noteq> C_EOF" "C_EOF \<noteq> byte_val b"
  using byte_val_bounds [of b] by (auto simp: C_EOF_def)

lemma getc_left: "getc s = (c, s') \<Longrightarrow> c \<noteq> C_EOF \<Longrightarrow> left s' < left s"
  unfolding getc_def left_def raw_getc_def
  by (auto simp: Let_def split: if_splits option.splits prod.splits)

lemma getc_left_le: "getc s = (c, s') \<Longrightarrow> left s' \<le> left s"
  unfolding getc_def left_def raw_getc_def
  by (auto simp: Let_def split: if_splits option.splits prod.splits)

subsection \<open>The transcript\<close>

(* @src crates/tex-makeindex/src/lib.rs struct Transcript *)
record transcript =
  t_ilg :: bytes
  ilg_to_stderr :: bool
  verbose :: bool
  idx_dot :: bool
  idx_dc :: nat
  stderr :: bytes

(* @src crates/tex-makeindex/src/lib.rs fn ilg *)
definition ilg :: "bytes \<Rightarrow> transcript \<Rightarrow> transcript" where
  "ilg msg log =
     (if ilg_to_stderr log then log\<lparr>stderr := stderr log @ msg\<rparr>
      else log\<lparr>t_ilg := t_ilg log @ msg\<rparr>)"

(* @src crates/tex-makeindex/src/lib.rs fn message *)
definition message :: "bytes \<Rightarrow> transcript \<Rightarrow> transcript" where
  "message msg log =
     (let log = (if verbose log then log\<lparr>stderr := stderr log @ msg\<rparr> else log) in ilg msg log)"

(* @src crates/tex-makeindex/src/lib.rs fn error_line *)
definition error_line :: "transcript \<Rightarrow> transcript" where
  "error_line log = (if idx_dot log then (ilg [CHR 0x0A] log)\<lparr>idx_dot := False\<rparr> else log)"

(* @src crates/tex-makeindex/src/lib.rs fn dot *)
definition dot :: "nat \<Rightarrow> transcript \<Rightarrow> transcript" where
  "dot mx log =
     (let log = log\<lparr>idx_dot := True\<rparr>;
          log = (if idx_dc log = 0 then message ''.'' log else log);
          log = log\<lparr>idx_dc := idx_dc log + 1\<rparr>
      in if idx_dc log = mx then log\<lparr>idx_dc := 0\<rparr> else log)"

subsection \<open>C strings\<close>

(* @src crates/tex-makeindex/src/scan.rs fn c_str *)
definition c_str :: "bytes \<Rightarrow> bytes" where
  "c_str text = takeWhile (\<lambda>b. b \<noteq> CHR 0x00) text"

(* @src crates/tex-makeindex/src/scan.rs fn at *)
definition at :: "bytes \<Rightarrow> nat \<Rightarrow> u8" where
  "at text i = byte_at text i"

(* @src crates/tex-makeindex/src/scan.rs fn tail *)
definition tail :: "bytes \<Rightarrow> nat \<Rightarrow> bytes" where
  "tail text from = (if from \<le> length text then drop from text else [])"

(* @src crates/tex-makeindex/src/scan.rs fn strspn *)
definition strspn :: "bytes \<Rightarrow> bytes \<Rightarrow> nat" where
  "strspn text s = length (takeWhile (\<lambda>b. b \<in> set s) text)"

text \<open>
  The difference of two \<open>usize\<close> values, both below \<open>2 ^ 64\<close>: below zero it wraps in a release build.
  (The counters count entries and errors of inputs in memory: they stay in range.)
\<close>

definition usize_minus :: "nat \<Rightarrow> nat \<Rightarrow> nat" where
  "usize_minus a b = (if b \<le> a then a - b else 18446744073709551616 + a - b)"

lemma usize_minus_ge [simp]: "b \<le> a \<Longrightarrow> usize_minus a b = a - b"
  by (simp add: usize_minus_def)

lemma usize_minus_wraps:
  assumes "a < 18446744073709551616" "b < 18446744073709551616"
  shows "int (usize_minus a b) = (int a - int b) mod 18446744073709551616"
proof (cases "b \<le> a")
  case True
  then have "int (a - b) mod 18446744073709551616 = int (a - b)" using assms by (intro mod_pos_pos_trivial) simp_all
  then show ?thesis using True by (simp add: of_nat_diff)
next
  case False
  have "(int a - int b) mod 18446744073709551616 = (int a - int b + 18446744073709551616) mod 18446744073709551616"
    by (rule mod_add_self2 [symmetric])
  also have "\<dots> = int a - int b + 18446744073709551616" using False assms by (intro mod_pos_pos_trivial) simp_all
  finally show ?thesis using False assms by (simp add: usize_minus_def of_nat_diff)
qed

end
