(* ===== verification/MiStyle.thy ===== *)
theory MiStyle
  imports MiStream
begin

text \<open>
  \<open>crates/tex-makeindex/src/style.rs\<close>: the style attributes with their defaults, the style-file
  scanner with its error messages, and the layout of the numeral types by precedence.
\<close>

(* @src crates/tex-makeindex/src/style.rs const ROML *)
definition ROML :: nat where "ROML = 0"
(* @src crates/tex-makeindex/src/style.rs const ROMU *)
definition ROMU :: nat where "ROMU = 1"
(* @src crates/tex-makeindex/src/style.rs const ARAB *)
definition ARAB :: nat where "ARAB = 2"
(* @src crates/tex-makeindex/src/style.rs const ALPL *)
definition ALPL :: nat where "ALPL = 3"
(* @src crates/tex-makeindex/src/style.rs const ALPU *)
definition ALPU :: nat where "ALPU = 4"
(* @src crates/tex-makeindex/src/style.rs const ROMAN_LOWER_OFFSET *)
definition ROMAN_LOWER_OFFSET :: int where "ROMAN_LOWER_OFFSET = 10000"
(* @src crates/tex-makeindex/src/style.rs const ROMAN_UPPER_OFFSET *)
definition ROMAN_UPPER_OFFSET :: int where "ROMAN_UPPER_OFFSET = 10000"
(* @src crates/tex-makeindex/src/style.rs const ARABIC_OFFSET *)
definition ARABIC_OFFSET :: int where "ARABIC_OFFSET = 10000"
(* @src crates/tex-makeindex/src/style.rs const ALPHA_LOWER_OFFSET *)
definition ALPHA_LOWER_OFFSET :: int where "ALPHA_LOWER_OFFSET = 26"
(* @src crates/tex-makeindex/src/style.rs const ALPHA_UPPER_OFFSET *)
definition ALPHA_UPPER_OFFSET :: int where "ALPHA_UPPER_OFFSET = 26"
(* @src crates/tex-makeindex/src/style.rs const ARRAY_MAX *)
definition ARRAY_MAX :: nat where "ARRAY_MAX = 1024"
(* @src crates/tex-makeindex/src/style.rs const STRING_MAX *)
definition STRING_MAX :: nat where "STRING_MAX = 999"
(* @src crates/tex-makeindex/src/style.rs const PAGETYPE_MAX *)
definition PAGETYPE_MAX :: nat where "PAGETYPE_MAX = 5"

lemmas page_types = ROML_def ROMU_def ARAB_def ALPL_def ALPU_def

subsection \<open>Styles\<close>

(* @src crates/tex-makeindex/src/style.rs struct Style *)
record style =
  keyword :: bytes
  arg_open :: u8
  arg_close :: u8
  range_open :: u8
  range_close :: u8
  level_ch :: u8
  actual_ch :: u8
  encap_ch :: u8
  quote_ch :: u8
  escape_ch :: u8
  page_compositor :: bytes
  page_precedence :: bytes
  page_offset :: "int list"
  preamble :: bytes
  postamble :: bytes
  prelen :: nat
  postlen :: nat
  setpage_prefix :: bytes
  setpage_suffix :: bytes
  setpagelen :: nat
  group_skip :: bytes
  skiplen :: nat
  headings_flag :: int
  heading_prefix :: bytes
  heading_suffix :: bytes
  headprelen :: nat
  headsuflen :: nat
  symhead_positive :: bytes
  symhead_negative :: bytes
  numhead_positive :: bytes
  numhead_negative :: bytes
  item_r :: "bytes list"
  item_u :: "bytes list"
  item_x :: "bytes list"
  ilen_r :: "nat list"
  ilen_u :: "nat list"
  ilen_x :: "nat list"
  delim_p :: "bytes list"
  delim_n :: bytes
  delim_r :: bytes
  delim_t :: bytes
  suffix_2p :: bytes
  suffix_3p :: bytes
  suffix_mp :: bytes
  encap_prefix :: bytes
  encap_infix :: bytes
  encap_suffix :: bytes
  line_max :: int
  indent_space :: bytes
  indent_length :: int

definition NL :: bytes where "NL = [CHR 0x0A]"
definition BS :: bytes where "BS = [CHR 0x5C]"

(* @src crates/tex-makeindex/src/style.rs fn default *)
definition style_default :: style where
  "style_default =
     (let item0 = NL @ ''  '' @ BS @ ''item '';
          item1 = NL @ ''    '' @ BS @ ''subitem '';
          item2 = NL @ ''      '' @ BS @ ''subsubitem ''
      in \<lparr>keyword = BS @ ''indexentry'',
          arg_open = CHR ''{'', arg_close = CHR ''}'', range_open = CHR ''('', range_close = CHR '')'',
          level_ch = CHR ''!'', actual_ch = CHR ''@'', encap_ch = CHR ''|'', quote_ch = CHR 0x22,
          escape_ch = CHR 0x5C, page_compositor = ''-'', page_precedence = ''rnaRA'',
          page_offset = [0, ROMAN_LOWER_OFFSET, ROMAN_LOWER_OFFSET + ARABIC_OFFSET,
            ROMAN_LOWER_OFFSET + ARABIC_OFFSET + ALPHA_LOWER_OFFSET,
            ROMAN_LOWER_OFFSET + ARABIC_OFFSET + ALPHA_LOWER_OFFSET + ROMAN_UPPER_OFFSET],
          preamble = BS @ ''begin{theindex}'' @ NL, postamble = NL @ NL @ BS @ ''end{theindex}'' @ NL,
          prelen = 1, postlen = 3,
          setpage_prefix = NL @ ''  '' @ BS @ ''setcounter{page}{'', setpage_suffix = ''}'' @ NL,
          setpagelen = 2,
          group_skip = NL @ NL @ ''  '' @ BS @ ''indexspace'' @ NL, skiplen = 3,
          headings_flag = 0, heading_prefix = [], heading_suffix = [], headprelen = 0, headsuflen = 0,
          symhead_positive = ''Symbols'', symhead_negative = ''symbols'',
          numhead_positive = ''Numbers'', numhead_negative = ''numbers'',
          item_r = [item0, item1, item2], item_u = [[], item1, item2], item_x = [[], item1, item2],
          ilen_r = [1, 1, 1], ilen_u = [0, 1, 1], ilen_x = [0, 1, 1],
          delim_p = ['', '', '', '', '', ''], delim_n = '', '', delim_r = ''--'', delim_t = [],
          suffix_2p = [], suffix_3p = [], suffix_mp = [],
          encap_prefix = BS, encap_infix = ''{'', encap_suffix = ''}'', line_max = 72,
          indent_space = [CHR 0x09, CHR 0x09], indent_length = 16\<rparr>)"

(* @src crates/tex-makeindex/src/style.rs fn count_lfd *)
definition count_lfd :: "bytes \<Rightarrow> nat" where
  "count_lfd text = length (filter (\<lambda>b. b = CHR 0x0A) text)"

subsection \<open>Numbers\<close>

(* @src crates/tex-makeindex/src/style.rs:160-162 scan_number *)
function skip_blanks :: "stream \<Rightarrow> stream" where
  "skip_blanks s =
     (case peek_raw s of
        Some b \<Rightarrow> if is_ascii_whitespace b \<or> b = CHR 0x0B then skip_blanks (snd (raw_getc s)) else s
      | None \<Rightarrow> s)"
  by pat_completeness auto
termination
  by (relation "measure (\<lambda>s. length (s_bytes s) - s_pos s)") (auto simp: peek_raw_def raw_getc_def split: if_splits)

(* @src crates/tex-makeindex/src/style.rs:170-174 scan_number *)
function scan_digits :: "stream \<Rightarrow> int \<Rightarrow> nat \<Rightarrow> stream \<times> int \<times> nat" where
  "scan_digits s v n =
     (case peek_raw s of
        Some b \<Rightarrow>
          if is_ascii_digit b
          then scan_digits (snd (raw_getc s))
                 (clamp_int (- 9223372036854775808) 9223372036854775807
                    (clamp_int (- 9223372036854775808) 9223372036854775807 (v * 10) + (byte_val b - 48)))
                 (n + 1)
          else (s, v, n)
      | None \<Rightarrow> (s, v, n))"
  by pat_completeness auto
termination
  by (relation "measure (\<lambda>(s, _). length (s_bytes s) - s_pos s)") (auto simp: peek_raw_def raw_getc_def split: if_splits)

declare skip_blanks.simps [simp del] scan_digits.simps [simp del]

(* @src crates/tex-makeindex/src/style.rs fn scan_number *)
definition scan_number :: "stream \<Rightarrow> int option \<times> stream" where
  "scan_number s =
     (let s = skip_blanks s;
          (negative, s) = (case peek_raw s of
             Some b \<Rightarrow> if b = CHR ''+'' \<or> b = CHR ''-'' then (b = CHR ''-'', snd (raw_getc s)) else (False, s)
           | None \<Rightarrow> (False, s));
          (s, v, digits) = scan_digits s 0 0
      in if digits = 0 then (None, s)
         else (Some (clamp_int i32_min i32_max (if negative then - v else v)), s))"

subsection \<open>The scanner\<close>

(* @src crates/tex-makeindex/src/style.rs struct StyleScanner *)
record style_scanner =
  ss_stream :: stream
  ss_file :: bytes
  ss_lc :: nat
  ss_tc :: nat
  ss_ec :: nat
  put_dot :: bool
  clone :: bytes
  ss_log :: transcript

(* @src crates/tex-makeindex/src/style.rs enum Spec *)
datatype spec = Done | Found bytes | Premature bytes

(* @src crates/tex-makeindex/src/style.rs fn error_bytes *)
definition style_error :: "bytes \<Rightarrow> style_scanner \<Rightarrow> style_scanner" where
  "style_error msg sc =
     (let log = error_line (ss_log sc);
          log = ilg (''** Input style error (file = '' @ ss_file sc @ '', line = '' @ dec_nat (ss_lc sc)
                  @ ''):'' @ NL @ ''   -- '') log
      in sc\<lparr>ss_log := ilg msg log, ss_ec := ss_ec sc + 1, put_dot := False\<rparr>)"

(* @src crates/tex-makeindex/src/style.rs:216-221 skip_line *)
function flush_line_stream :: "stream \<Rightarrow> stream" where
  "flush_line_stream s =
     (let (c, s') = getc s
      in if c = byte_val (CHR 0x0A) \<or> c = C_EOF then s' else flush_line_stream s')"
  by pat_completeness auto
termination
  by (relation "measure left") (auto dest: getc_left [OF sym])

declare flush_line_stream.simps [simp del]

(* @src crates/tex-makeindex/src/style.rs fn skip_line *)
definition skip_line :: "style_scanner \<Rightarrow> style_scanner" where
  "skip_line sc = sc\<lparr>ss_stream := flush_line_stream (ss_stream sc), ss_lc := ss_lc sc + 1\<rparr>"

(* @src crates/tex-makeindex/src/style.rs fn next_nonblank *)
function next_nonblank :: "style_scanner \<Rightarrow> int \<times> style_scanner" where
  "next_nonblank sc =
     (let (c, s) = getc (ss_stream sc); sc' = sc\<lparr>ss_stream := s\<rparr>
      in if c = C_EOF then (C_EOF, sc')
         else if c = 0x0A then next_nonblank (sc'\<lparr>ss_lc := ss_lc sc' + 1\<rparr>)
         else if c = 0x20 \<or> c = 0x09 then next_nonblank sc'
         else (c, sc'))"
  by pat_completeness auto
termination
  by (relation "measure (\<lambda>sc. left (ss_stream sc))") (auto dest: getc_left [OF sym])

declare next_nonblank.simps [simp del]

lemma flush_line_left: "left (flush_line_stream s) \<le> left s"
proof (induction s rule: flush_line_stream.induct)
  case (1 s)
  obtain c s' where g: "getc s = (c, s')" by (cases "getc s")
  show ?case
  proof (cases "c = byte_val (CHR 0x0A) \<or> c = C_EOF")
    case True
    then show ?thesis using getc_left_le [OF g] by (simp add: flush_line_stream.simps [of s] g)
  next
    case False
    then have "left (flush_line_stream s') \<le> left s'" using 1 [OF g [symmetric] refl] by simp
    with False show ?thesis using getc_left_le [OF g] by (simp add: flush_line_stream.simps [of s] g)
  qed
qed

lemma next_nonblank_left:
  "next_nonblank sc = (c, sc') \<Longrightarrow> left (ss_stream sc') \<le> left (ss_stream sc) \<and>
    (c \<noteq> C_EOF \<longrightarrow> left (ss_stream sc') < left (ss_stream sc))"
proof (induction sc arbitrary: c sc' rule: next_nonblank.induct)
  case (1 sc)
  obtain d s where g: "getc (ss_stream sc) = (d, s)" by (cases "getc (ss_stream sc)")
  note le = getc_left_le [OF g] and lt = getc_left [OF g]
  show ?case
    using 1(3) le lt 1(1) [OF g [symmetric] refl refl] 1(2) [OF g [symmetric] refl refl]
    by (fastforce simp: next_nonblank.simps [of sc] g Let_def split: if_splits)
qed

(* @src crates/tex-makeindex/src/style.rs:250-262 scan_spec *)
function spec_chars :: "stream \<Rightarrow> bytes \<Rightarrow> nat \<Rightarrow> int \<Rightarrow> stream \<times> bytes \<times> nat \<times> int" where
  "spec_chars s spec i c =
     (if i < STRING_MAX then
        let (c, s) = getc s
        in if c = 0x20 \<or> c = 0x09 \<or> c = 0x0A \<or> c = C_EOF then (s, spec, i + 1, c)
           else spec_chars s (spec @ [to_ascii_lowercase (u8_of c)]) (i + 1) c
      else (s, spec, i + 1, c))"
  by pat_completeness auto
termination
  by (relation "measure (\<lambda>(s, spec, i, c). STRING_MAX - i)") auto

declare spec_chars.simps [simp del]

(* @src crates/tex-makeindex/src/style.rs:238-248 scan_spec *)
function spec_start :: "style_scanner \<Rightarrow> int \<times> style_scanner" where
  "spec_start sc =
     (let (c, sc') = next_nonblank sc
      in if c = C_EOF then (c, sc')
         else if c = byte_val (CHR ''%'') then spec_start (skip_line sc')
         else (c, sc'))"
  by pat_completeness auto
termination
proof (relation "measure (\<lambda>sc. left (ss_stream sc))", goal_cases)
  case (2 sc x c sc')
  then have "left (ss_stream sc') < left (ss_stream sc)" using next_nonblank_left [of sc c sc'] by simp
  then show ?case using flush_line_left [of "ss_stream sc'"] by (simp add: skip_line_def)
qed simp

declare spec_start.simps [simp del]

(* @src crates/tex-makeindex/src/style.rs fn scan_spec *)
definition scan_spec :: "style_scanner \<Rightarrow> spec \<times> style_scanner" where
  "scan_spec sc =
     (let (c, sc) = spec_start sc
      in if c = C_EOF then (Done, sc)
         else
           let (s, spec, i, c) = spec_chars (ss_stream sc) [to_ascii_lowercase (u8_of c)] 0 c;
               sc = sc\<lparr>ss_stream := s\<rparr>
           in if i < STRING_MAX then
                (if c = C_EOF
                 then (Premature spec, style_error (''No attribute for specifier '' @ spec @ '' (premature EOF)'' @ NL) sc)
                 else (Found spec, if c = 0x0A then sc\<lparr>ss_lc := ss_lc sc + 1\<rparr> else sc))
              else (Done, style_error (''Specifier '' @ spec @ '' too long (max '' @ dec_nat STRING_MAX @ '').'' @ NL) sc))"

(* @src crates/tex-makeindex/src/style.rs fn store *)
definition store :: "nat \<Rightarrow> u8 \<Rightarrow> bytes \<Rightarrow> bytes" where
  "store i b buf =
     (let buf = (if length buf \<le> i then buf @ replicate (i + 1 - length buf) (CHR 0x00) else buf)
      in buf[i := b])"

(* @src crates/tex-makeindex/src/style.rs fn clone_text *)
definition clone_text :: "style_scanner \<Rightarrow> bytes" where
  "clone_text sc = takeWhile (\<lambda>b. b \<noteq> CHR 0x00) (clone sc)"

text \<open>The loop of \<open>scan_string\<close>; \<open>None\<close> in the first component is a failure.\<close>

(* @src crates/tex-makeindex/src/style.rs:284-322 scan_string *)
function string_loop :: "style_scanner \<Rightarrow> nat \<Rightarrow> bytes option \<times> style_scanner" where
  "string_loop sc i =
     (let (c, s) = getc (ss_stream sc); sc1 = sc\<lparr>ss_stream := s\<rparr>
      in if c = C_EOF then
           (None, style_error (''No closing delimiter in '' @ clone_text sc1 @ ''.'' @ NL) sc1)
         else if c = 0x22 then
           (let sc2 = sc1\<lparr>clone := store i (CHR 0x00) (clone sc1)\<rparr> in (Some (take i (clone sc2)), sc2))
         else if c = 0x5C then
           (let (d, s) = getc (ss_stream sc1);
                b = (if d = 0x74 then CHR 0x09 else if d = 0x6E then CHR 0x0A else u8_of d);
                sc2 = sc1\<lparr>ss_stream := s, clone := store i b (clone sc1)\<rparr>
            in string_loop sc2 (i + 1))
         else
           (let sc2 = (if c = 0x0A then sc1\<lparr>ss_lc := ss_lc sc1 + 1\<rparr> else sc1)
            in if i \<ge> ARRAY_MAX then
                 (let sc3 = skip_line sc2
                  in (None, style_error (''Attribute string '' @ clone_text sc3 @ '' too long (max ''
                        @ dec_nat ARRAY_MAX @ '').'' @ NL) sc3))
               else string_loop (sc2\<lparr>clone := store i (u8_of c) (clone sc2)\<rparr>) (i + 1)))"
  by pat_completeness auto
termination
proof (relation "measure (\<lambda>(sc, i). left (ss_stream sc))", goal_cases)
  case 1 then show ?case by simp
next
  case prems: (2 sc i x c s sc1 y d s' b sc2)
  have "left s < left (ss_stream sc)" using prems by (auto dest: getc_left [OF sym])
  moreover have "left s' \<le> left s" using prems by (auto dest: getc_left_le [OF sym])
  ultimately show ?case using prems by simp
next
  case prems: (3 sc i x c s sc1 sc2)
  have "left s < left (ss_stream sc)" using prems by (auto dest: getc_left [OF sym])
  then show ?case using prems by simp
qed

declare string_loop.simps [simp del]

(* @src crates/tex-makeindex/src/style.rs fn scan_string *)
definition scan_string :: "bytes \<Rightarrow> style_scanner \<Rightarrow> bool \<times> bytes \<times> style_scanner" where
  "scan_string target sc =
     (let (c, sc) = next_nonblank sc
      in if c = 0x22 then
           (case string_loop sc 0 of
              (Some text, sc) \<Rightarrow> (True, text, sc)
            | (None, sc) \<Rightarrow> (False, target, sc))
         else if c = byte_val (CHR ''%'') then (True, target, skip_line sc)
         else (False, target, style_error (''No opening delimiter.'' @ NL) (skip_line sc)))"

(* @src crates/tex-makeindex/src/style.rs fn scan_char *)
definition scan_char :: "u8 \<Rightarrow> style_scanner \<Rightarrow> u8 \<times> style_scanner" where
  "scan_char target sc =
     (let (c, sc) = next_nonblank sc
      in if c = 0x27 then
           (let (cl, s) = getc (ss_stream sc); sc = sc\<lparr>ss_stream := s\<rparr>
            in if cl = 0x27 then (target, style_error (''Premature closing delimiter.'' @ NL) (skip_line sc))
               else if cl = 0x0A \<or> cl = C_EOF then
                 (let sc = (if cl = 0x0A then sc\<lparr>ss_lc := ss_lc sc + 1\<rparr> else sc)
                  in (target, style_error (''No character (premature EOF).'' @ NL) sc))
               else
                 (let (cl, s) = (if cl = 0x5C then getc (ss_stream sc) else (cl, ss_stream sc));
                      (d, s) = getc s; sc = sc\<lparr>ss_stream := s\<rparr>
                  in if d = 0x27 then (u8_of cl, sc)
                     else (target, style_error (''No closing delimiter or too many letters.'' @ NL) sc)))
         else if c = byte_val (CHR ''%'') then (target, skip_line sc)
         else (target, style_error (''No opening delimiter.'' @ NL) (skip_line sc)))"

subsection \<open>Applying a specifier\<close>

(* @src crates/tex-makeindex/src/style.rs:415-423 apply *)
definition string_field :: "bytes \<Rightarrow> (bytes \<Rightarrow> style) \<Rightarrow> style_scanner \<Rightarrow> style \<times> style_scanner" where
  "string_field old set_to sc = (let (_, t, sc) = scan_string old sc in (set_to t, sc))"

definition char_field :: "u8 \<Rightarrow> (u8 \<Rightarrow> style) \<Rightarrow> style_scanner \<Rightarrow> style \<times> style_scanner" where
  "char_field old set_to sc = (let (c, sc) = scan_char old sc in (set_to c, sc))"

(* @src crates/tex-makeindex/src/style.rs fn apply *)
definition apply_spec :: "bytes \<Rightarrow> style \<Rightarrow> style_scanner \<Rightarrow> style \<times> style_scanner" where
  "apply_spec spec st sc = (
     if spec = ''preamble'' then string_field (preamble st) (\<lambda>t. st\<lparr>preamble := t, prelen := count_lfd t\<rparr>) sc
     else if spec = ''postamble'' then string_field (postamble st) (\<lambda>t. st\<lparr>postamble := t, postlen := count_lfd t\<rparr>) sc
     else if spec = ''group_skip'' then string_field (group_skip st) (\<lambda>t. st\<lparr>group_skip := t, skiplen := count_lfd t\<rparr>) sc
     else if spec = ''headings_flag'' then
       (let (v, s) = scan_number (ss_stream sc)
        in ((case v of Some n \<Rightarrow> st\<lparr>headings_flag := n\<rparr> | None \<Rightarrow> st), sc\<lparr>ss_stream := s\<rparr>))
     else if spec = ''heading_prefix'' then string_field (heading_prefix st) (\<lambda>t. st\<lparr>heading_prefix := t, headprelen := count_lfd t\<rparr>) sc
     else if spec = ''heading_suffix'' then string_field (heading_suffix st) (\<lambda>t. st\<lparr>heading_suffix := t, headsuflen := count_lfd t\<rparr>) sc
     else if spec = ''symhead_positive'' then string_field (symhead_positive st) (\<lambda>t. st\<lparr>symhead_positive := t\<rparr>) sc
     else if spec = ''symhead_negative'' then string_field (symhead_negative st) (\<lambda>t. st\<lparr>symhead_negative := t\<rparr>) sc
     else if spec = ''numhead_positive'' then string_field (numhead_positive st) (\<lambda>t. st\<lparr>numhead_positive := t\<rparr>) sc
     else if spec = ''numhead_negative'' then string_field (numhead_negative st) (\<lambda>t. st\<lparr>numhead_negative := t\<rparr>) sc
     else if spec = ''setpage_prefix'' then string_field (setpage_prefix st) (\<lambda>t. st\<lparr>setpage_prefix := t, setpagelen := count_lfd t\<rparr>) sc
     else if spec = ''setpage_suffix'' then string_field (setpage_suffix st) (\<lambda>t. st\<lparr>setpage_suffix := t, setpagelen := count_lfd t\<rparr>) sc
     else if spec = ''item_0'' then string_field (item_r st ! 0) (\<lambda>t. st\<lparr>item_r := (item_r st)[0 := t], ilen_r := (ilen_r st)[0 := count_lfd t]\<rparr>) sc
     else if spec = ''item_1'' then string_field (item_r st ! 1) (\<lambda>t. st\<lparr>item_r := (item_r st)[1 := t], ilen_r := (ilen_r st)[1 := count_lfd t]\<rparr>) sc
     else if spec = ''item_2'' then string_field (item_r st ! 2) (\<lambda>t. st\<lparr>item_r := (item_r st)[2 := t], ilen_r := (ilen_r st)[2 := count_lfd t]\<rparr>) sc
     else if spec = ''item_01'' then string_field (item_u st ! 1) (\<lambda>t. st\<lparr>item_u := (item_u st)[1 := t], ilen_u := (ilen_u st)[1 := count_lfd t]\<rparr>) sc
     else if spec = ''item_12'' then string_field (item_u st ! 2) (\<lambda>t. st\<lparr>item_u := (item_u st)[2 := t], ilen_u := (ilen_u st)[2 := count_lfd t]\<rparr>) sc
     else if spec = ''item_x1'' then string_field (item_x st ! 1) (\<lambda>t. st\<lparr>item_x := (item_x st)[1 := t], ilen_x := (ilen_x st)[1 := count_lfd t]\<rparr>) sc
     else if spec = ''item_x2'' then string_field (item_x st ! 2) (\<lambda>t. st\<lparr>item_x := (item_x st)[2 := t], ilen_x := (ilen_x st)[2 := count_lfd t]\<rparr>) sc
     else if spec = ''encap_prefix'' then string_field (encap_prefix st) (\<lambda>t. st\<lparr>encap_prefix := t\<rparr>) sc
     else if spec = ''encap_infix'' then string_field (encap_infix st) (\<lambda>t. st\<lparr>encap_infix := t\<rparr>) sc
     else if spec = ''encap_suffix'' then string_field (encap_suffix st) (\<lambda>t. st\<lparr>encap_suffix := t\<rparr>) sc
     else if spec = ''delim_0'' then string_field (delim_p st ! 0) (\<lambda>t. st\<lparr>delim_p := (delim_p st)[0 := t]\<rparr>) sc
     else if spec = ''delim_1'' then string_field (delim_p st ! 1) (\<lambda>t. st\<lparr>delim_p := (delim_p st)[1 := t]\<rparr>) sc
     else if spec = ''delim_2'' then string_field (delim_p st ! 2) (\<lambda>t. st\<lparr>delim_p := (delim_p st)[2 := t]\<rparr>) sc
     else if spec = ''delim_n'' then string_field (delim_n st) (\<lambda>t. st\<lparr>delim_n := t\<rparr>) sc
     else if spec = ''delim_r'' then string_field (delim_r st) (\<lambda>t. st\<lparr>delim_r := t\<rparr>) sc
     else if spec = ''delim_t'' then string_field (delim_t st) (\<lambda>t. st\<lparr>delim_t := t\<rparr>) sc
     else if spec = ''suffix_2p'' then string_field (suffix_2p st) (\<lambda>t. st\<lparr>suffix_2p := t\<rparr>) sc
     else if spec = ''suffix_3p'' then string_field (suffix_3p st) (\<lambda>t. st\<lparr>suffix_3p := t\<rparr>) sc
     else if spec = ''suffix_mp'' then string_field (suffix_mp st) (\<lambda>t. st\<lparr>suffix_mp := t\<rparr>) sc
     else if spec = ''line_max'' then
       (let (v, s) = scan_number (ss_stream sc);
            v = (case v of Some n \<Rightarrow> n | None \<Rightarrow> line_max st);
            sc = sc\<lparr>ss_stream := s\<rparr>
        in if v > 0 then (st\<lparr>line_max := v\<rparr>, sc)
           else (st, style_error (''line_max must be positive (got '' @ dec_int v @ '')'') sc))
     else if spec = ''indent_length'' then
       (let (v, s) = scan_number (ss_stream sc);
            v = (case v of Some n \<Rightarrow> n | None \<Rightarrow> indent_length st);
            sc = sc\<lparr>ss_stream := s\<rparr>
        in if v \<ge> 0 then (st\<lparr>indent_length := v\<rparr>, sc)
           else (st, style_error (''indent_length must be nonnegative (got '' @ dec_int v @ '')'') sc))
     else if spec = ''indent_space'' then string_field (indent_space st) (\<lambda>t. st\<lparr>indent_space := t\<rparr>) sc
     else if spec = ''page_compositor'' then string_field (page_compositor st) (\<lambda>t. st\<lparr>page_compositor := t\<rparr>) sc
     else if spec = ''page_precedence'' then string_field (page_precedence st) (\<lambda>t. st\<lparr>page_precedence := t\<rparr>) sc
     else if spec = ''keyword'' then string_field (keyword st) (\<lambda>t. st\<lparr>keyword := t\<rparr>) sc
     else if spec = ''arg_open'' then char_field (arg_open st) (\<lambda>c. st\<lparr>arg_open := c\<rparr>) sc
     else if spec = ''arg_close'' then char_field (arg_close st) (\<lambda>c. st\<lparr>arg_close := c\<rparr>) sc
     else if spec = ''level'' then char_field (level_ch st) (\<lambda>c. st\<lparr>level_ch := c\<rparr>) sc
     else if spec = ''range_open'' then char_field (range_open st) (\<lambda>c. st\<lparr>range_open := c\<rparr>) sc
     else if spec = ''range_close'' then char_field (range_close st) (\<lambda>c. st\<lparr>range_close := c\<rparr>) sc
     else if spec = ''quote'' then char_field (quote_ch st) (\<lambda>c. st\<lparr>quote_ch := c\<rparr>) sc
     else if spec = ''actual'' then char_field (actual_ch st) (\<lambda>c. st\<lparr>actual_ch := c\<rparr>) sc
     else if spec = ''encap'' then char_field (encap_ch st) (\<lambda>c. st\<lparr>encap_ch := c\<rparr>) sc
     else if spec = ''escape'' then char_field (escape_ch st) (\<lambda>c. st\<lparr>escape_ch := c\<rparr>) sc
     else let sc = snd (next_nonblank sc); sc = skip_line sc;
         sc = style_error (''Unknown specifier '' @ spec @ ''.'' @ [CHR 0x0A]) sc
     in (st, sc\<lparr>put_dot := False\<rparr>))"

subsection \<open>The precedence of the numeral types\<close>

(* @src crates/tex-makeindex/src/style.rs:509-522 process_precedence *)
definition prec_kind :: "u8 \<Rightarrow> (nat \<times> u8) option" where
  "prec_kind letter =
     (if letter = CHR ''r'' then Some (ROML, CHR ''r'')
      else if letter = CHR ''R'' then Some (ROMU, CHR ''R'')
      else if letter = CHR ''n'' then Some (ARAB, CHR ''n'')
      else if letter = CHR ''a'' then Some (ALPL, CHR ''A'')
      else if letter = CHR ''A'' then Some (ALPU, CHR ''A'')
      else None)"

text \<open>The checks of the specification: the number of letters, or the error message.\<close>

(* @src crates/tex-makeindex/src/style.rs:505-538 process_precedence *)
fun prec_check :: "bytes \<Rightarrow> bytes \<Rightarrow> nat \<Rightarrow> bool list \<Rightarrow> bytes + nat" where
  "prec_check prec [] i seen = Inr i"
| "prec_check prec (letter # rest) i seen =
     (if i < PAGETYPE_MAX then
        (case prec_kind letter of
           None \<Rightarrow> Inl (''Unknow type '' @ [CHR 0x60, letter] @ [CHR 0x27] @ '' in page precedence specification.'' @ NL)
         | Some (kind, reported) \<Rightarrow>
             (if seen ! kind
              then Inl (''Multiple instances of type '' @ [CHR 0x60, reported, CHR 0x27]
                     @ '' in page precedence specification '' @ [CHR 0x60] @ prec @ [CHR 0x27] @ ''.'' @ NL)
              else prec_check prec rest (i + 1) (seen[kind := True])))
      else Inr i)"

(* @src crates/tex-makeindex/src/style.rs:549-555 process_precedence *)
definition kind_of :: "u8 \<Rightarrow> nat" where
  "kind_of letter =
     (if letter = CHR ''r'' then ROML else if letter = CHR ''R'' then ROMU else if letter = CHR ''n'' then ARAB
      else if letter = CHR ''a'' then ALPL else ALPU)"

(* @src crates/tex-makeindex/src/style.rs:556-563 process_precedence *)
definition width_after :: "nat \<Rightarrow> int" where
  "width_after kind =
     (if kind = ROML then ROMAN_LOWER_OFFSET else if kind = ROMU then ROMAN_UPPER_OFFSET
      else if kind = ARAB then ARABIC_OFFSET else ALPHA_LOWER_OFFSET)"

(* @src crates/tex-makeindex/src/style.rs:579-585 process_precedence *)
definition fill_width :: "nat \<Rightarrow> int" where
  "fill_width kind =
     (if kind = ROML then ROMAN_LOWER_OFFSET else if kind = ROMU then ROMAN_UPPER_OFFSET
      else if kind = ARAB then ARABIC_OFFSET else if kind = ALPL then ALPHA_LOWER_OFFSET
      else ALPHA_UPPER_OFFSET)"

(* @src crates/tex-makeindex/src/style.rs:566-571 process_precedence *)
fun lay_out :: "nat list \<Rightarrow> int \<Rightarrow> int list" where
  "lay_out [] acc = []"
| "lay_out (k # ks) acc = (acc + width_after k) # lay_out ks (acc + width_after k)"

(* @src crates/tex-makeindex/src/style.rs:577-591 process_precedence *)
definition fill_step :: "nat \<Rightarrow> int list \<times> nat list \<times> int list \<Rightarrow> int list \<times> nat list \<times> int list" where
  "fill_step kind = (\<lambda>(order, kinds, offset).
     if offset ! kind = - 1 then
       let o' = last order + fill_width (last kinds)
       in (order @ [o'], kinds @ [kind], offset[kind := o'])
     else (order, kinds, offset))"

text \<open>The offsets of a checked, non-empty specification.\<close>

(* @src crates/tex-makeindex/src/style.rs:564-591 process_precedence *)
definition prec_offsets :: "bytes \<Rightarrow> int list" where
  "prec_offsets prec =
     (let kinds = map kind_of prec;
          order = lay_out kinds 0;
          offset = (replicate PAGETYPE_MAX (- 1))[hd kinds := 0];
          offset = fold (\<lambda>i off. off[kinds ! i := order ! (i - 1)]) [1..<length prec] offset;
          (_, _, offset) = fold fill_step [0..<PAGETYPE_MAX] (order, kinds, offset)
      in offset)"

(* @src crates/tex-makeindex/src/style.rs fn process_precedence *)
definition process_precedence :: "style \<Rightarrow> style_scanner \<Rightarrow> style \<times> style_scanner" where
  "process_precedence st sc =
     (let prec = page_precedence st
      in case prec_check prec prec 0 (replicate PAGETYPE_MAX False) of
           Inl msg \<Rightarrow> (st, style_error msg (skip_line sc))
         | Inr i \<Rightarrow>
             if i < length prec
             then (st, style_error (''Page precedence specification string too long.'' @ NL) (skip_line sc))
             else if i = 0 then (st, sc)
             else (st\<lparr>page_offset := prec_offsets prec\<rparr>, sc))"

subsection \<open>Reading a style file\<close>

abbreviation unread :: "style_scanner \<Rightarrow> nat" where
  "unread sc \<equiv> left (ss_stream sc)"

lemma rest_error [simp]: "ss_stream (style_error msg sc) = ss_stream sc"
  by (simp add: style_error_def Let_def)

lemma rest_skip_line: "unread (skip_line sc) \<le> unread sc"
  using flush_line_left by (simp add: skip_line_def)

lemma spec_start_left:
  "spec_start sc = (c, sc') \<Longrightarrow> unread sc' \<le> unread sc \<and> (c \<noteq> C_EOF \<longrightarrow> unread sc' < unread sc)"
proof (induction sc arbitrary: c sc' rule: spec_start.induct)
  case (1 sc)
  obtain d sc1 where n: "next_nonblank sc = (d, sc1)" by (cases "next_nonblank sc")
  note nb = next_nonblank_left [OF n]
  show ?case
  proof (cases "d \<noteq> C_EOF \<and> d = byte_val (CHR ''%'')")
    case True
    then have "spec_start (skip_line sc1) = (c, sc')" using 1(2) by (simp add: spec_start.simps [of sc] n)
    from 1(1) [OF n [symmetric] refl _ _ this] True rest_skip_line [of sc1] nb show ?thesis by fastforce
  next
    case False
    then show ?thesis using 1(2) nb by (auto simp: spec_start.simps [of sc] n split: if_splits)
  qed
qed

lemma spec_chars_left: "spec_chars s spec i c = (s', r) \<Longrightarrow> left s' \<le> left s"
proof (induction s spec i c rule: spec_chars.induct)
  case (1 s spec i c)
  obtain d s1 where g: "getc s = (d, s1)" by (cases "getc s")
  note le = getc_left_le [OF g]
  show ?case
    using 1(2) 1(1) [OF _ g [symmetric] refl] le
    by (fastforce simp: spec_chars.simps [of s] g split: if_splits)
qed

lemma scan_spec_left:
  assumes "scan_spec sc = (sp, sc')" "sp \<noteq> Done"
  shows "unread sc' < unread sc"
proof -
  obtain c sc1 where s: "spec_start sc = (c, sc1)" by (cases "spec_start sc")
  obtain s2 spec i d where ch: "spec_chars (ss_stream sc1) [to_ascii_lowercase (u8_of c)] 0 c = (s2, spec, i, d)"
    by (metis prod_cases4)
  have "c \<noteq> C_EOF" using assms s by (auto simp: scan_spec_def)
  then have "unread sc1 < unread sc" using spec_start_left [OF s] by simp
  moreover have "ss_stream sc' = s2"
    using assms s ch by (auto simp: scan_spec_def Let_def split: if_splits)
  ultimately show ?thesis using spec_chars_left [OF ch] by simp
qed

lemma string_loop_left: "string_loop sc i = (r, sc') \<Longrightarrow> unread sc' \<le> unread sc"
proof (induction sc i arbitrary: r sc' rule: string_loop.induct)
  case (1 sc i)
  obtain c s where g: "getc (ss_stream sc) = (c, s)" by (cases "getc (ss_stream sc)")
  obtain d s2 where g2: "getc s = (d, s2)" by (cases "getc s")
  note le = getc_left_le [OF g] getc_left_le [OF g2]
  consider "c = C_EOF" | "c = 0x22" "c \<noteq> C_EOF" | "c = 0x5C" "c \<noteq> C_EOF"
    | "c \<noteq> C_EOF" "c \<noteq> 0x22" "c \<noteq> 0x5C" by blast
  then show ?case
  proof cases
    case 3
    then have ne: "\<not> c = C_EOF" "\<not> c = 0x22" "c = 0x5C" by (auto simp: C_EOF_def)
    have g2': "(d, s2) = getc (ss_stream (sc\<lparr>ss_stream := s\<rparr>))" by (simp add: g2)
    let ?b = "if d = 0x74 then CHR 0x09 else if d = 0x6E then CHR 0x0A else u8_of d"
    have "string_loop (sc\<lparr>ss_stream := s2, clone := store i ?b (clone sc)\<rparr>) (i + 1) = (r, sc')"
      using 1(3) 3 by (simp add: string_loop.simps [of sc] g g2 Let_def C_EOF_def)
    then show ?thesis
      using 1(1) [OF g [symmetric] refl refl ne g2' refl refl refl, of r sc'] le by simp
  next
    case 4
    let ?sc1 = "sc\<lparr>ss_stream := s\<rparr>"
    let ?sc2 = "if c = 0x0A then ?sc1\<lparr>ss_lc := ss_lc ?sc1 + 1\<rparr> else ?sc1"
    have r2: "ss_stream ?sc2 = s" by simp
    show ?thesis
    proof (cases "i \<ge> ARRAY_MAX")
      case True
      have "ss_stream sc' = ss_stream (skip_line ?sc2)"
        using 1(3) 4 True by (auto simp: string_loop.simps [of sc] g Let_def split: if_splits)
      then show ?thesis using rest_skip_line [of ?sc2] le(1) unfolding r2 by simp
    next
      case False
      have "string_loop (?sc2\<lparr>clone := store i (u8_of c) (clone ?sc2)\<rparr>) (i + 1) = (r, sc')"
        using 1(3) 4 False by (simp add: string_loop.simps [of sc] g Let_def)
      from 1(2) [OF g [symmetric] refl refl 4(1,2,3) refl False this] show ?thesis using le(1) by (simp split: if_splits)
    qed
  qed (use 1(3) le in \<open>auto simp: string_loop.simps [of sc] g Let_def C_EOF_def\<close>)
qed

lemma scan_string_left: "scan_string t sc = (b, t', sc') \<Longrightarrow> unread sc' \<le> unread sc"
proof -
  assume a: "scan_string t sc = (b, t', sc')"
  obtain c sc1 where n: "next_nonblank sc = (c, sc1)" by (cases "next_nonblank sc")
  obtain r sc2 where l: "string_loop sc1 0 = (r, sc2)" by (cases "string_loop sc1 0")
  show ?thesis
    using a next_nonblank_left [OF n] string_loop_left [OF l] rest_skip_line [of sc1]
    by (auto simp: scan_string_def n l split: if_splits option.splits)
qed

lemma scan_char_left: "scan_char t sc = (t', sc') \<Longrightarrow> unread sc' \<le> unread sc"
proof -
  assume a: "scan_char t sc = (t', sc')"
  obtain c sc1 where n: "next_nonblank sc = (c, sc1)" by (cases "next_nonblank sc")
  obtain cl s1 where g1: "getc (ss_stream sc1) = (cl, s1)" by (cases "getc (ss_stream sc1)")
  obtain cl2 s2 where g2: "(if cl = 0x5C then getc s1 else (cl, s1)) = (cl2, s2)" by fastforce
  obtain d s3 where g3: "getc s2 = (d, s3)" by (cases "getc s2")
  have "left s2 \<le> left s1" using g2 getc_left_le [of s1] by (auto split: if_splits)
  then show ?thesis
    using a next_nonblank_left [OF n] getc_left_le [OF g1] getc_left_le [OF g3] rest_skip_line [of sc1]
      rest_skip_line [of "sc1\<lparr>ss_stream := s1\<rparr>"] g2
    by (auto simp: scan_char_def n g1 g3 Let_def split: if_splits)
qed

lemma scan_number_left: "scan_number s = (v, s') \<Longrightarrow> left s' \<le> left s"
proof -
  have raw: "left (snd (raw_getc s)) \<le> left s" for s by (cases "lookahead s") (auto simp: raw_getc_def left_def)
  have blanks: "left (skip_blanks s) \<le> left s" for s
  proof (induction s rule: skip_blanks.induct)
    case (1 s)
    then show ?case using raw [of s] by (fastforce simp: skip_blanks.simps [of s] split: option.splits)
  qed
  have digits: "left (fst (scan_digits s v n)) \<le> left s" for s v n
  proof (induction s v n rule: scan_digits.induct)
    case (1 s v n)
    then show ?case using raw [of s] by (fastforce simp: scan_digits.simps [of s] split: option.splits)
  qed
  assume "scan_number s = (v, s')"
  then show ?thesis
    using blanks [of s] digits [of "skip_blanks s" 0 0] digits [of "snd (raw_getc (skip_blanks s))" 0 0]
      raw [of "skip_blanks s"]
    by (fastforce simp: scan_number_def Let_def split: prod.splits option.splits if_splits)
qed

lemma if_both: "P a \<Longrightarrow> P b \<Longrightarrow> P (if c then a else b)"
  by simp

lemma apply_spec_left: "unread (snd (apply_spec spec st sc)) \<le> unread sc"
proof -
  have str: "unread (snd (string_field t f sc)) \<le> unread sc" for t f
    using scan_string_left [of t sc] by (cases "scan_string t sc") (auto simp: string_field_def)
  have chr: "unread (snd (char_field t f sc)) \<le> unread sc" for t f
    using scan_char_left [of t sc] by (cases "scan_char t sc") (auto simp: char_field_def)
  obtain v s where num: "scan_number (ss_stream sc) = (v, s)" by (cases "scan_number (ss_stream sc)")
  note num_le = scan_number_left [OF num]
  obtain c sc1 where n: "next_nonblank sc = (c, sc1)" by (cases "next_nonblank sc")
  have unknown: "unread (skip_line sc1) \<le> unread sc" using next_nonblank_left [OF n] rest_skip_line [of sc1] by simp
  show ?thesis
    unfolding apply_spec_def
    by (intro if_both [where P = "\<lambda>x. unread (snd x) \<le> unread sc"] str chr)
      (use num_le unknown in \<open>auto simp: num n Let_def split: if_splits\<close>)
qed

(* @src crates/tex-makeindex/src/style.rs:393-399 scan *)
definition style_step :: "bytes \<Rightarrow> style \<Rightarrow> style_scanner \<Rightarrow> style \<times> style_scanner" where
  "style_step spec st sc =
     (let (st, sc) = apply_spec spec st (sc\<lparr>ss_tc := ss_tc sc + 1, put_dot := True\<rparr>)
      in (st, if put_dot sc then sc\<lparr>ss_log := message ''.'' ((ss_log sc)\<lparr>idx_dot := True\<rparr>)\<rparr> else sc))"

lemma style_step_left: "unread (snd (style_step spec st sc)) \<le> unread sc"
  using apply_spec_left [of spec st "sc\<lparr>ss_tc := ss_tc sc + 1, put_dot := True\<rparr>"]
  by (cases "apply_spec spec st (sc\<lparr>ss_tc := ss_tc sc + 1, put_dot := True\<rparr>)")
    (simp add: style_step_def Let_def)

(* @src crates/tex-makeindex/src/style.rs:388-400 scan *)
function style_loop :: "style \<Rightarrow> style_scanner \<Rightarrow> style \<times> style_scanner" where
  "style_loop st sc =
     (let (sp, sc') = scan_spec sc
      in case sp of
           Done \<Rightarrow> (st, sc')
         | Found spec \<Rightarrow> (let (st', sc'') = style_step spec st sc' in style_loop st' sc'')
         | Premature spec \<Rightarrow> (let (st', sc'') = style_step spec st sc' in style_loop st' sc''))"
  by pat_completeness auto
termination
proof (relation "measure (\<lambda>(st, sc). unread sc)", goal_cases)
  case prems: (2 st sc x sp sc' spec y st' sc'')
  then have "unread sc' < unread sc" "unread sc'' \<le> unread sc'"
    using scan_spec_left [of sc sp sc'] style_step_left [of spec st sc'] by (auto dest: sym)
  then show ?case by simp
next
  case prems: (3 st sc x sp sc' spec y st' sc'')
  then have "unread sc' < unread sc" "unread sc'' \<le> unread sc'"
    using scan_spec_left [of sc sp sc'] style_step_left [of spec st sc'] by (auto dest: sym)
  then show ?case by simp
qed simp

declare style_loop.simps [simp del]

(* @src crates/tex-makeindex/src/style.rs fn scan *)
definition style_scan :: "bytes \<Rightarrow> bytes \<Rightarrow> style \<Rightarrow> transcript \<Rightarrow> style \<times> transcript" where
  "style_scan bs file st log =
     (let log = message (''Scanning style file '' @ file) log;
          sc = \<lparr>ss_stream = stream_new bs, ss_file = file, ss_lc = 0, ss_tc = 0, ss_ec = 0, put_dot = False,
                clone = [], ss_log = log\<rparr>;
          (st, sc) = style_loop st sc;
          (st, sc) = process_precedence st sc;
          (st, sc) =
            (if quote_ch st = escape_ch st then
               (st\<lparr>quote_ch := CHR 0x22, escape_ch := CHR 0x5C\<rparr>,
                style_error (''Quote and escape symbols must be distinct (both '' @ [CHR 0x60, quote_ch st, CHR 0x27]
                  @ '' now).'' @ NL) sc)
             else (st, sc))
      in (st, message (''done ('' @ dec_nat (usize_minus (ss_tc sc) (ss_ec sc)) @ '' attributes redefined, ''
                @ dec_nat (ss_ec sc) @ '' ignored).'' @ NL) (ss_log sc)))"

end
