(* ===== verification/MiScan.thy ===== *)
theory MiScan
  imports MiStyle "HOL-Library.Monad_Syntax"
begin

text \<open>
  \<open>crates/tex-makeindex/src/scan.rs\<close>: reading \<open>.idx\<close> files into entries - the two arguments of a
  keyword, the levels and encapsulator of a key, and page numbers with their numeral types.  The
  value \<open>None\<close> is a panic (an index out of range) or a loop that never ends.
\<close>

(* @src crates/tex-makeindex/src/scan.rs const FIELD_MAX *)
definition FIELD_MAX :: nat where "FIELD_MAX = 3"
(* @src crates/tex-makeindex/src/scan.rs const EMPTY *)
definition EMPTY :: int where "EMPTY = - 9999"
(* @src crates/tex-makeindex/src/scan.rs const DUPLICATE *)
definition DUPLICATE :: int where "DUPLICATE = 9999"
(* @src crates/tex-makeindex/src/scan.rs const SYMBOL *)
definition SYMBOL :: int where "SYMBOL = - 1"
(* @src crates/tex-makeindex/src/scan.rs const ALPHA *)
definition ALPHA :: int where "ALPHA = - 2"
(* @src crates/tex-makeindex/src/scan.rs const ARGUMENT_MAX *)
definition ARGUMENT_MAX :: nat where "ARGUMENT_MAX = 10240"
(* @src crates/tex-makeindex/src/scan.rs const NUMBER_MAX *)
definition NUMBER_MAX :: nat where "NUMBER_MAX = 99"
(* @src crates/tex-makeindex/src/scan.rs const ARABIC_MAX *)
definition ARABIC_MAX :: nat where "ARABIC_MAX = 99"
(* @src crates/tex-makeindex/src/scan.rs const ROMAN_MAX *)
definition ROMAN_MAX :: nat where "ROMAN_MAX = 99"
(* @src crates/tex-makeindex/src/scan.rs const PAGEFIELD_MAX *)
definition PAGEFIELD_MAX :: nat where "PAGEFIELD_MAX = 10"
(* @src crates/tex-makeindex/src/scan.rs const DOT_MAX *)
definition DOT_MAX :: nat where "DOT_MAX = 1000"

definition LFD :: int where "LFD = 10"
definition TAB :: int where "TAB = 9"
definition SPC :: int where "SPC = 32"

(* @src crates/tex-makeindex/src/scan.rs struct Entry *)
record entry =
  sf :: "bytes list"
  af :: "bytes list"
  e_group :: int
  e_lpg :: bytes
  e_npg :: "int list"
  e_ty :: int
  e_encap :: bytes
  sf_cap :: "nat list"
  af_cap :: "nat list"
  encap_cap :: nat
  e_file :: nat
  e_lc :: int

(* @src crates/tex-makeindex/src/scan.rs fn is *)
definition is_char :: "int \<Rightarrow> u8 \<Rightarrow> bool" where
  "is_char c ch \<longleftrightarrow> ch < CHR 0x80 \<and> c = byte_val ch"

subsection \<open>Groups and numerals\<close>

text \<open>The digits' value in \<open>i64\<close>, \<open>None\<close> when it does not fit.\<close>

(* @src crates/tex-makeindex/src/scan.rs:93-99 group_type *)
fun digits_value :: "bytes \<Rightarrow> int \<Rightarrow> int option" where
  "digits_value [] v = Some v"
| "digits_value (d # ds) v =
     (if v * 10 > 9223372036854775807 \<or> v * 10 + (byte_val d - 48) > 9223372036854775807 then None
      else digits_value ds (v * 10 + (byte_val d - 48)))"

(* @src crates/tex-makeindex/src/scan.rs fn group_type *)
definition group_type :: "bytes \<Rightarrow> int" where
  "group_type key =
     (if list_all is_ascii_digit key then
        (if key = [] then 0
         else (case digits_value key 0 of Some v \<Rightarrow> wrap_i32 v | None \<Rightarrow> - 1))
      else
        let first = hd key;
            symbol = (CHR ''!'' \<le> first \<and> first \<le> CHR ''@'') \<or> (CHR ''['' \<le> first \<and> first \<le> CHR 0x60)
              \<or> (CHR ''{'' \<le> first \<and> first \<le> CHR ''~'')
        in if symbol then SYMBOL else ALPHA)"

(* @src crates/tex-makeindex/src/scan.rs fn is_roman_lower *)
definition is_roman_lower :: "u8 \<Rightarrow> bool" where
  "is_roman_lower b \<longleftrightarrow> b \<in> set ''ivxlcdm''"

(* @src crates/tex-makeindex/src/scan.rs fn is_roman_upper *)
definition is_roman_upper :: "u8 \<Rightarrow> bool" where
  "is_roman_upper b \<longleftrightarrow> b \<in> set ''IVXLCDM''"

(* @src crates/tex-makeindex/src/scan.rs fn roman_value *)
definition roman_value :: "u8 \<Rightarrow> int" where
  "roman_value b =
     (let l = to_ascii_lowercase b
      in if l = CHR ''i'' then 1 else if l = CHR ''v'' then 5 else if l = CHR ''x'' then 10
         else if l = CHR ''l'' then 50 else if l = CHR ''c'' then 100 else if l = CHR ''d'' then 500
         else if l = CHR ''m'' then 1000 else 0)"

(* @src crates/tex-makeindex/src/scan.rs fn alpha_value *)
definition alpha_value :: "u8 \<Rightarrow> int" where
  "alpha_value b = (if is_ascii_alphabetic b then byte_val (to_ascii_lowercase b) - 97 else 0)"

subsection \<open>Files and the scanner\<close>

(* @src crates/tex-makeindex/src/scan.rs struct FileScan *)
record file_scan =
  f_stream :: stream
  f_name :: bytes
  f_lc :: int
  f_tc :: nat
  f_ec :: nat
  f_key :: bytes
  f_no :: bytes

type_synonym flog = "file_scan \<times> transcript"

(* @src crates/tex-makeindex/src/scan.rs fn error *)
definition f_error :: "bytes \<Rightarrow> flog \<Rightarrow> flog" where
  "f_error msg = (\<lambda>(f, log).
     let log = error_line log;
         log = ilg (''!! Input index error (file = '' @ f_name f @ '', line = '' @ dec_int (f_lc f) @ ''):'' @ NL
                 @ ''   -- '') log
     in (f\<lparr>f_ec := f_ec f + 1\<rparr>, ilg msg log))"

(* @src crates/tex-makeindex/src/scan.rs fn flush_to_eol *)
definition flush_to_eol :: "file_scan \<Rightarrow> file_scan" where
  "flush_to_eol f = f\<lparr>f_stream := flush_line_stream (f_stream f)\<rparr>"

definition next_line :: "file_scan \<Rightarrow> file_scan" where
  "next_line f = f\<lparr>f_lc := wrap_i32 (f_lc f + 1)\<rparr>"

(* @src crates/tex-makeindex/src/scan.rs fn skip_line *)
definition f_skip_line :: "file_scan \<Rightarrow> file_scan" where
  "f_skip_line f = next_line (flush_to_eol f)"

(* @src crates/tex-makeindex/src/scan.rs struct Scanner *)
record scanner =
  sn_style :: style
  compress_blanks :: bool
  german_sort :: bool
  type_guess :: "int list"
  chars :: "u8 list"
  entries :: "entry list"
  total :: nat
  rejected :: nat

(* @src crates/tex-makeindex/src/scan.rs fn new *)
definition scanner_new :: "style \<Rightarrow> bool \<Rightarrow> bool \<Rightarrow> scanner" where
  "scanner_new st compress german =
     \<lparr>sn_style = st, compress_blanks = compress, german_sort = german,
      type_guess = replicate PAGEFIELD_MAX EMPTY,
      chars = [level_ch st, actual_ch st, encap_ch st, CHR 0x00],
      entries = [], total = 0, rejected = 0\<rparr>"

(* @src crates/tex-makeindex/src/scan.rs fn guess *)
definition guess :: "scanner \<Rightarrow> nat \<Rightarrow> int" where
  "guess sn i =
     (if i < PAGEFIELD_MAX then type_guess sn ! i
      else if i = PAGEFIELD_MAX then
        wrap_i32 (byte_val (chars sn ! 0) + 256 * byte_val (chars sn ! 1)
          + 65536 * byte_val (chars sn ! 2) + 16777216 * byte_val (chars sn ! 3))
      else EMPTY)"

(* @src crates/tex-makeindex/src/scan.rs fn set_guess *)
definition set_guess :: "scanner \<Rightarrow> nat \<Rightarrow> int \<Rightarrow> scanner" where
  "set_guess sn i v =
     (if i < PAGEFIELD_MAX then sn\<lparr>type_guess := (type_guess sn)[i := v]\<rparr>
      else if i = PAGEFIELD_MAX then
        sn\<lparr>chars := [u8_of v, u8_of (v div 256), u8_of (v div 65536), u8_of (v div 16777216)]\<rparr>
      else sn)"

subsection \<open>The arguments of an entry\<close>

(* @src crates/tex-makeindex/src/scan.rs:340-345 scan_arg1 *)
function skip_spaces :: "stream \<Rightarrow> int \<Rightarrow> int \<times> stream" where
  "skip_spaces s a =
     (if a = SPC \<or> a = TAB then let (a', s') = getc s in skip_spaces s' a' else (a, s))"
  by pat_completeness auto
termination
proof (relation "measure (\<lambda>(s, a). if a = C_EOF then 0 else Suc (left s))", goal_cases)
  case (2 s a x a' s')
  then show ?case using getc_left [of s a' s'] by (auto simp: SPC_def TAB_def C_EOF_def)
qed simp

declare skip_spaces.simps [simp del]

text \<open>
  The loop of \<open>scan_arg1\<close>, entered with the character \<open>a\<close> read: \<open>None\<close> when the argument is too
  long or the file ends, \<open>Some (Inl ())\<close> for an incomplete line, \<open>Some (Inr ())\<close> when it is complete.
\<close>

definition push_key :: "int \<Rightarrow> file_scan \<Rightarrow> file_scan" where
  "push_key a f = f\<lparr>f_key := f_key f @ [u8_of a]\<rparr>"

(* @src crates/tex-makeindex/src/scan.rs:346-380 scan_arg1 *)
function arg1_loop :: "style \<Rightarrow> bool \<Rightarrow> nat \<Rightarrow> int \<Rightarrow> file_scan \<Rightarrow> (unit + unit) option \<times> file_scan" where
  "arg1_loop st compress depth a f =
     (if length (f_key f) < ARGUMENT_MAX \<and> a \<noteq> C_EOF then
        (if is_char a (quote_ch st) \<or> is_char a (escape_ch st) then
           (let (b, s) = getc (f_stream f); (a', s') = getc s
            in arg1_loop st compress depth a' (push_key b (push_key a (f\<lparr>f_stream := s'\<rparr>))))
         else if is_char a (arg_open st) then
           (let (a', s') = getc (f_stream f)
            in arg1_loop st compress (depth + 1) a' (push_key a (f\<lparr>f_stream := s'\<rparr>)))
         else if is_char a (arg_close st) then
           (if depth = 0 then
              (Some (Inr ()), if compress \<and> f_key f \<noteq> [] \<and> last (f_key f) = CHR '' '' then f\<lparr>f_key := butlast (f_key f)\<rparr> else f)
            else let (a', s') = getc (f_stream f)
                 in arg1_loop st compress (depth - 1) a' (push_key a (f\<lparr>f_stream := s'\<rparr>)))
         else if a = LFD then (Some (Inl ()), f)
         else
           (let f' = (if (a = TAB \<or> a = SPC) \<and> compress then
                        (if f_key f \<noteq> [] \<and> last (f_key f) \<noteq> CHR '' '' \<and> last (f_key f) \<noteq> CHR 0x09
                         then f\<lparr>f_key := f_key f @ [CHR '' '']\<rparr> else f)
                      else push_key a f);
                (a', s') = getc (f_stream f)
            in arg1_loop st compress depth a' (f'\<lparr>f_stream := s'\<rparr>)))
      else (None, f))"
  by pat_completeness auto
termination
proof (relation "measure (\<lambda>(st, compress, depth, a, f). if a = C_EOF then 0 else Suc (left (f_stream f)))", goal_cases)
  case (2 st compress depth a f x b s y a' s')
  then show ?case using getc_left [of s a' s'] getc_left_le [of "f_stream f" b s] by (auto simp: push_key_def)
next
  case (3 st compress depth a f x a' s')
  then show ?case using getc_left [of "f_stream f" a' s'] by (auto simp: push_key_def)
next
  case (4 st compress depth a f x a' s')
  then show ?case using getc_left [of "f_stream f" a' s'] by (auto simp: push_key_def)
next
  case (5 st compress depth a f f' x a' s')
  then show ?case using getc_left [of "f_stream f" a' s'] by (auto simp: push_key_def)
qed simp

declare arg1_loop.simps [simp del]

(* @src crates/tex-makeindex/src/scan.rs fn scan_arg1 *)
definition scan_arg1 :: "scanner \<Rightarrow> flog \<Rightarrow> bool \<times> flog" where
  "scan_arg1 sn = (\<lambda>(f, log).
     let f = f\<lparr>f_key := []\<rparr>;
         (a, s) = getc (f_stream f);
         (a, s) = (if compress_blanks sn then skip_spaces s a else (a, s));
         (r, f) = arg1_loop (sn_style sn) (compress_blanks sn) 0 a (f\<lparr>f_stream := s\<rparr>)
     in case r of
          Some (Inr _) \<Rightarrow> (True, f, log)
        | Some (Inl _) \<Rightarrow> (False, f_error (''Incomplete first argument (premature LFD).'' @ NL) (next_line f, log))
        | None \<Rightarrow> (False, f_error (''First argument too long (max '' @ dec_nat ARGUMENT_MAX @ '').'' @ NL)
                            (next_line (flush_to_eol f), log)))"

text \<open>\<open>scan_arg2\<close>: a message is returned when the page number is not complete.\<close>

(* @src crates/tex-makeindex/src/scan.rs:394-418 scan_arg2 *)
function arg2_loop :: "style \<Rightarrow> bool \<Rightarrow> int \<Rightarrow> file_scan \<Rightarrow> bytes option \<times> file_scan" where
  "arg2_loop st hit_blank a f =
     (if length (f_no f) < NUMBER_MAX then
        (if is_char a (arg_close st) then (None, f)
         else if a = LFD then (Some (''Incomplete second argument (premature LFD).'' @ NL), next_line f)
         else if a = TAB \<or> a = SPC then
           (let (a', s') = getc (f_stream f) in arg2_loop st True a' (f\<lparr>f_stream := s'\<rparr>))
         else if hit_blank then
           (Some (''Illegal space within numerals in second argument.'' @ NL), next_line (flush_to_eol f))
         else
           (let (a', s') = getc (f_stream f)
            in arg2_loop st hit_blank a' (f\<lparr>f_stream := s', f_no := f_no f @ [u8_of a]\<rparr>)))
      else (Some (''Second argument too long (max '' @ dec_nat NUMBER_MAX @ '').'' @ NL), next_line (flush_to_eol f)))"
  by pat_completeness auto
termination
proof (relation "measures [\<lambda>(st, hit_blank, a, f). NUMBER_MAX - length (f_no f),
    \<lambda>(st, hit_blank, a, f). if a = C_EOF then 0 else Suc (left (f_stream f))]", goal_cases)
  case (2 st hit_blank a f x a' s')
  then show ?case using getc_left [of "f_stream f" a' s'] by (auto simp: SPC_def TAB_def C_EOF_def)
qed auto

declare arg2_loop.simps [simp del]

(* @src crates/tex-makeindex/src/scan.rs fn scan_arg2 *)
definition scan_arg2 :: "scanner \<Rightarrow> flog \<Rightarrow> bool \<times> flog" where
  "scan_arg2 sn = (\<lambda>(f, log).
     let f = f\<lparr>f_no := []\<rparr>;
         (a, s) = getc (f_stream f);
         (a, s) = skip_spaces s a;
         (r, f) = arg2_loop (sn_style sn) False a (f\<lparr>f_stream := s\<rparr>)
     in case r of None \<Rightarrow> (True, f, log) | Some msg \<Rightarrow> (False, f_error msg (f, log)))"

subsection \<open>The fields of a key\<close>

(* @src crates/tex-makeindex/src/scan.rs:541-548 scan_field *)
partial_function (option) escape_run :: "u8 \<Rightarrow> bytes \<Rightarrow> nat \<Rightarrow> bytes \<Rightarrow> nat \<Rightarrow> (nat \<times> bytes \<times> nat) option" where
  "escape_run esc key n field escapes =
     (if at key n = esc then escape_run esc key (n + 1) (field @ [at key n]) (escapes + 1)
      else Some (n, field, escapes))"

declare escape_run.simps [code]

lemma escape_run_mono:
  assumes "escape_run esc key n field k = Some r"
  shows "n \<le> fst r"
  by (rule escape_run.raw_induct [where P = "\<lambda>esc key n field k r. n \<le> fst r", OF _ assms])
    (fastforce split: if_splits)

text \<open>
  One round of the loop of \<open>scan_field\<close>: the field is complete at position \<open>n\<close>, a character is one
  too many, or the loop goes on.
\<close>

datatype field_round = Field bytes nat | Extra u8 nat | More bytes nat

(* @src crates/tex-makeindex/src/scan.rs:540-595 scan_field *)
definition field_round :: "scanner \<Rightarrow> bytes \<Rightarrow> bool \<Rightarrow> bool \<Rightarrow> bool \<Rightarrow> nat \<Rightarrow> bytes \<Rightarrow> field_round option" where
  "field_round sn key ck_level ck_encap ck_actual n field =
     (let st = sn_style sn; level = chars sn ! 0; actual = chars sn ! 1; encap = chars sn ! 2
      in do {
        (n, field, escapes) \<leftarrow> escape_run (escape_ch st) key n field 0;
        let byte = at key n;
            more = (\<lambda>field n. if length key \<le> n then Field (c_str field) n else More field (n + 1))
        in Some
          (if byte = quote_ch st then
             (if even escapes then more (field @ [at key (n + 1)]) (n + 1) else more (field @ [byte]) n)
           else if ck_level \<and> byte = level \<or> ck_encap \<and> byte = encap \<or> ck_actual \<and> byte = actual \<or> byte = CHR 0x00 then
             Field (c_str (if field \<noteq> [] \<and> compress_blanks sn \<and> last field = CHR '' '' then butlast field else field)) n
           else if \<not> ck_level \<and> byte = level then Extra level n
           else if \<not> ck_encap \<and> byte = encap then Extra encap n
           else if \<not> ck_actual \<and> byte = actual then Extra actual n
           else more (field @ [byte]) n)
      })"

lemma field_round_mono:
  assumes "field_round sn key ck_level ck_encap ck_actual n field = Some r"
  shows "case r of Field _ n' \<Rightarrow> n \<le> n' | Extra _ n' \<Rightarrow> n \<le> n' | More _ n' \<Rightarrow> n < n' \<and> n < length key"
proof (cases "escape_run (escape_ch (sn_style sn)) key n field 0")
  case (Some x)
  then have "n \<le> fst x" by (rule escape_run_mono)
  then show ?thesis using assms Some by (cases x) (auto simp: field_round_def Let_def)
qed (use assms in \<open>simp add: field_round_def Let_def\<close>)

(* @src crates/tex-makeindex/src/scan.rs:540-596 scan_field *)
function field_loop :: "scanner \<Rightarrow> bytes \<Rightarrow> bool \<Rightarrow> bool \<Rightarrow> bool \<Rightarrow> nat \<Rightarrow> bytes \<Rightarrow> field_round option" where
  "field_loop sn key ck_level ck_encap ck_actual n field =
     (case field_round sn key ck_level ck_encap ck_actual n field of
        Some (More field' n') \<Rightarrow> field_loop sn key ck_level ck_encap ck_actual n' field'
      | r \<Rightarrow> r)"
  by pat_completeness auto
termination
proof (relation "measure (\<lambda>(sn, key, ck_level, ck_encap, ck_actual, n, field). length key - n)", goal_cases)
  case (2 sn key ck_level ck_encap ck_actual n field x field' n')
  then show ?case using field_round_mono [of sn key ck_level ck_encap ck_actual n field] by fastforce
qed simp

declare field_loop.simps [simp del]

(* @src crates/tex-makeindex/src/scan.rs fn scan_field *)
definition scan_field :: "scanner \<Rightarrow> bytes \<Rightarrow> nat \<Rightarrow> bool \<Rightarrow> bool \<Rightarrow> bool \<Rightarrow> flog \<Rightarrow> (bytes option \<times> nat \<times> flog) option" where
  "scan_field sn key n ck_level ck_encap ck_actual fl =
     (let n = (if compress_blanks sn \<and> (at key n = CHR '' '' \<or> at key n = CHR 0x09) then n + 1 else n)
      in case field_loop sn key ck_level ck_encap ck_actual n [] of
           Some (Field field n') \<Rightarrow> Some (Some field, n', fl)
         | Some (Extra ch n') \<Rightarrow>
             Some (None, n', f_error (''Extra '' @ [CHR 0x60, ch, CHR 0x27] @ '' at position '' @ dec_nat (n' + 1)
               @ '' of first argument.'' @ NL) fl)
         | _ \<Rightarrow> None)"

lemma field_loop_mono:
  "field_loop sn key ck_level ck_encap ck_actual n field = Some r \<Longrightarrow>
   (\<exists>f n'. r = Field f n' \<and> n \<le> n') \<or> (\<exists>c n'. r = Extra c n' \<and> n \<le> n')"
proof (induction sn key ck_level ck_encap ck_actual n field rule: field_loop.induct)
  case (1 sn key ck_level ck_encap ck_actual n field)
  obtain r1 where r1: "field_round sn key ck_level ck_encap ck_actual n field = Some r1"
    using 1(2) by (cases "field_round sn key ck_level ck_encap ck_actual n field") (auto simp: field_loop.simps [of sn])
  note m = field_round_mono [OF r1]
  show ?case
  proof (cases r1)
    case (More f' n')
    have "field_loop sn key ck_level ck_encap ck_actual n' f' = Some r"
      using 1(2) by (simp add: field_loop.simps [of sn] r1 More)
    from 1(1) [OF r1 More this] m More show ?thesis by fastforce
  qed (use 1(2) r1 m in \<open>auto simp: field_loop.simps [of sn]\<close>)
qed

lemma scan_field_mono: "scan_field sn key n l e a fl = Some (r, n', fl') \<Longrightarrow> n \<le> n'"
  unfolding scan_field_def Let_def
  by (auto split: option.splits field_round.splits if_splits dest!: field_loop_mono)

(* @src crates/tex-makeindex/src/scan.rs:780-788 search_quote *)
definition umlaut :: "u8 \<Rightarrow> (u8 \<times> u8) option" where
  "umlaut c =
     (if c = CHR ''a'' then Some (CHR ''a'', CHR ''e'') else if c = CHR ''A'' then Some (CHR ''A'', CHR ''e'')
      else if c = CHR ''o'' then Some (CHR ''o'', CHR ''e'') else if c = CHR ''O'' then Some (CHR ''O'', CHR ''e'')
      else if c = CHR ''u'' then Some (CHR ''u'', CHR ''e'') else if c = CHR ''U'' then Some (CHR ''U'', CHR ''e'')
      else if c = CHR ''s'' then Some (CHR ''s'', CHR ''s'') else None)"

text \<open>The next quote is looked for after the first letter of a replacement, which is not a quote.\<close>

(* @src crates/tex-makeindex/src/scan.rs:776-795 search_quote *)
fun replace_quotes :: "bytes \<Rightarrow> bytes \<times> bool" where
  "replace_quotes [] = ([], False)"
| "replace_quotes [c] = ([c], False)"
| "replace_quotes (c # d # rest) =
     (if c = CHR 0x22 then
        (case umlaut d of
           Some (p0, p1) \<Rightarrow> (p0 # p1 # fst (replace_quotes rest), True)
         | None \<Rightarrow> (let (r, found) = replace_quotes (d # rest) in (c # r, found)))
      else (let (r, found) = replace_quotes (d # rest) in (c # r, found)))"

(* @src crates/tex-makeindex/src/scan.rs fn search_quote *)
definition search_quote :: "bytes \<Rightarrow> bytes \<times> bytes" where
  "search_quote key = (let (sort, found) = replace_quotes key in (sort, if found then key else []))"

text \<open>One round of the loop of \<open>scan_key\<close>: it ends, with its answer, or goes on.\<close>

datatype key_round = KeyDone bool entry flog | KeyMore nat nat bool entry flog

(* @src crates/tex-makeindex/src/scan.rs:462-507 scan_key *)
definition key_round :: "scanner \<Rightarrow> bytes \<Rightarrow> nat \<Rightarrow> nat \<Rightarrow> bool \<Rightarrow> entry \<Rightarrow> flog \<Rightarrow> key_round option" where
  "key_round sn key i n second_round data fl =
     (let byte = at key n; cap = length key + 1; last = FIELD_MAX - 1
      in if byte = CHR 0x00 then Some (KeyDone True data fl)
         else if byte = chars sn ! 2 then do {
           (field, n', fl) \<leftarrow> scan_field sn key (n + 1) False False False fl;
           let data = data\<lparr>encap_cap := cap\<rparr>
           in Some (case field of
                Some field \<Rightarrow> KeyDone True (data\<lparr>e_encap := field\<rparr>) fl
              | None \<Rightarrow> KeyDone False data fl)
         }
         else if byte = chars sn ! 1 then
           (if FIELD_MAX \<le> i then None
            else do {
              let data = data\<lparr>af_cap := (af_cap data)[i := cap]\<rparr>;
              (field, n', fl) \<leftarrow> scan_field sn key (n + 1) (i \<noteq> last) True False fl;
              Some (case field of
                Some field \<Rightarrow> KeyMore i n' second_round (data\<lparr>af := (af data)[i := field]\<rparr>) fl
              | None \<Rightarrow> KeyDone False data fl)
            })
         else
           let i = (if second_round then i + 1 else i); n = (if second_round then n + 1 else n)
           in if FIELD_MAX \<le> i then None
              else do {
                let data = data\<lparr>sf_cap := (sf_cap data)[i := cap]\<rparr>;
                (field, n', fl) \<leftarrow> scan_field sn key n (i \<noteq> last) True True fl;
                Some (case field of
                  Some field \<Rightarrow>
                    let data = data\<lparr>sf := (sf data)[i := field]\<rparr>;
                        data = (if german_sort sn \<and> CHR 0x22 \<in> set field then
                          let (sort, actual) = search_quote field
                          in data\<lparr>af_cap := (af_cap data)[i := (if actual = [] then 1 else length field + 1)],
                               sf := (sf data)[i := sort], af := (af data)[i := actual]\<rparr>
                          else data)
                    in KeyMore i n' True data fl
                | None \<Rightarrow> KeyDone False data fl)
              })"

lemma at_not_nul: "at key n \<noteq> CHR 0x00 \<Longrightarrow> n < length key"
  unfolding at_def byte_at_def by (simp split: if_splits)

lemma key_round_more:
  assumes "key_round sn key i n second data fl = Some (KeyMore i' n' second' data' fl')"
  shows "n < length key \<and> (n < n' \<or> n \<le> n' \<and> \<not> second \<and> second')"
proof -
  have "at key n \<noteq> CHR 0x00" using assms by (auto simp: key_round_def)
  then show ?thesis
    using assms at_not_nul [of key n] unfolding key_round_def Let_def
    by (auto split: if_splits option.splits prod.splits bind_splits dest!: scan_field_mono)
qed

(* @src crates/tex-makeindex/src/scan.rs:462-508 scan_key *)
function key_loop :: "scanner \<Rightarrow> bytes \<Rightarrow> nat \<Rightarrow> nat \<Rightarrow> bool \<Rightarrow> entry \<Rightarrow> flog \<Rightarrow> (bool \<times> entry \<times> flog) option" where
  "key_loop sn key i n second_round data fl =
     (case key_round sn key i n second_round data fl of
        None \<Rightarrow> None
      | Some (KeyDone ok data fl) \<Rightarrow> Some (ok, data, fl)
      | Some (KeyMore i n second_round data fl) \<Rightarrow> key_loop sn key i n second_round data fl)"
  by pat_completeness auto
termination
proof (relation "measures [\<lambda>(sn, key, i, n, second, data, fl). length key - n,
    \<lambda>(sn, key, i, n, second, data, fl). if second then 0 else 1]", goal_cases)
  case (2 sn key i n second data fl x i' n' second' data' fl')
  then show ?case using key_round_more [of sn key i n second data fl i' n' second' data' fl']
    by (cases "n = n'") auto
qed simp

declare key_loop.simps [simp del]

(* @src crates/tex-makeindex/src/scan.rs:509-517 scan_key *)
definition null_field :: "entry \<Rightarrow> bool" where
  "null_field data \<longleftrightarrow>
     sf data ! 0 = [] \<or>
     list_ex (\<lambda>level. sf data ! level = [] \<and> (af data ! level \<noteq> [] \<or> sf data ! (level + 1) \<noteq> [])) [1..<FIELD_MAX - 1] \<or>
     (sf data ! (FIELD_MAX - 1) = [] \<and> af data ! (FIELD_MAX - 1) \<noteq> [])"

(* @src crates/tex-makeindex/src/scan.rs fn scan_key *)
definition scan_key :: "scanner \<Rightarrow> entry \<Rightarrow> flog \<Rightarrow> (bool \<times> entry \<times> flog) option" where
  "scan_key sn data fl = do {
     (ok, data, fl) \<leftarrow> key_loop sn (c_str (f_key (fst fl))) 0 0 False data fl;
     Some (if \<not> ok then (False, data, fl)
           else if null_field data then (False, data, f_error (''Illegal null field.'' @ NL) fl)
           else (True, data, fl))
   }"

subsection \<open>Page numbers\<close>

(* @src crates/tex-makeindex/src/scan.rs fn enter *)
definition enter :: "bytes \<Rightarrow> int list \<Rightarrow> int \<Rightarrow> flog \<Rightarrow> bool \<times> int list \<times> flog" where
  "enter no npg v fl =
     (if length npg \<ge> PAGEFIELD_MAX
      then (False, npg, f_error (''Page number '' @ no @ '' has too many fields (max. '' @ dec_nat PAGEFIELD_MAX @ '').'') fl)
      else (True, npg @ [v], fl))"

(* @src crates/tex-makeindex/src/scan.rs fn is_compositor *)
definition is_compositor :: "style \<Rightarrow> bytes \<Rightarrow> nat \<Rightarrow> bool" where
  "is_compositor st no i = starts_with (tail no i) (page_compositor st)"

text \<open>
  The readers of one numeral.  They end in a tail call of \<open>scan_rest\<close>, which reads the fields after a
  compositor: that call is the outcome \<open>Inr\<close> with the bytes left; \<open>Inl\<close> is the answer.
\<close>

type_synonym numeral_result = "(bool + bytes) \<times> int list \<times> flog"

definition after_numeral :: "style \<Rightarrow> bytes \<Rightarrow> nat \<Rightarrow> bool \<times> int list \<times> flog \<Rightarrow> numeral_result" where
  "after_numeral st no i = (\<lambda>(ok, npg, fl).
     (if \<not> ok then Inl False
      else if is_compositor st no i then Inr (tail no (i + length (page_compositor st)))
      else Inl True, npg, fl))"

(* @src crates/tex-makeindex/src/scan.rs:691-699 scan_arabic *)
function arabic_digits :: "style \<Rightarrow> bytes \<Rightarrow> nat \<Rightarrow> nat + nat" where
  "arabic_digits st no i =
     (if at no i \<noteq> CHR 0x00 \<and> i \<le> ARABIC_MAX \<and> \<not> is_compositor st no i then
        (if \<not> is_ascii_digit (at no i) then Inl i else arabic_digits st no (i + 1))
      else Inr i)"
  by pat_completeness auto
termination
  by (relation "measure (\<lambda>(st, no, i). Suc ARABIC_MAX - i)") auto

declare arabic_digits.simps [simp del]

definition arabic_value :: "bytes \<Rightarrow> int" where
  "arabic_value ds = fold (\<lambda>d v. wrap_i32 (wrap_i32 (wrap_i32 (v * 10) + byte_val d) - 48)) ds 0"

(* @src crates/tex-makeindex/src/scan.rs fn scan_arabic *)
definition scan_arabic :: "style \<Rightarrow> bytes \<Rightarrow> int list \<Rightarrow> flog \<Rightarrow> numeral_result" where
  "scan_arabic st no npg fl =
     (case arabic_digits st no 0 of
        Inl i \<Rightarrow> (Inl False, npg, f_error (''Illegal Arabic digit: position '' @ dec_nat (i + 1) @ '' in '' @ no @ ''.'' @ NL) fl)
      | Inr i \<Rightarrow>
          if i > ARABIC_MAX then
            (Inl False, npg, f_error (''Arabic page number '' @ no @ '' too big (max '' @ dec_nat ARABIC_MAX @ '' digits).'' @ NL) fl)
          else
            after_numeral st no i (enter no npg (wrap_i32 (arabic_value (take i no) + page_offset st ! ARAB)) fl))"

(* @src crates/tex-makeindex/src/scan.rs:720-745 scan_roman *)
function roman_digits :: "style \<Rightarrow> (u8 \<Rightarrow> bool) \<Rightarrow> bytes \<Rightarrow> nat \<Rightarrow> int \<Rightarrow> int \<Rightarrow> nat + nat \<times> int \<times> int" where
  "roman_digits st valid no i inp prev =
     (if at no i \<noteq> CHR 0x00 \<and> i < ROMAN_MAX \<and> \<not> is_compositor st no i then
        (if \<not> valid (at no i) then Inl i
         else
           let new = roman_value (at no i)
           in if prev = 0 then roman_digits st valid no (i + 1) inp new
              else
                let (prev, new) = (if prev < new then (new - prev, 0) else (prev, new))
                in roman_digits st valid no (i + 1) (inp + prev) new)
      else Inr (i, inp, prev))"
  by pat_completeness auto
termination
  by (relation "measure (\<lambda>(st, valid, no, i, _). ROMAN_MAX - i)") auto

declare roman_digits.simps [simp del]

(* @src crates/tex-makeindex/src/scan.rs fn scan_roman *)
definition scan_roman :: "style \<Rightarrow> nat \<Rightarrow> bytes \<Rightarrow> int list \<Rightarrow> flog \<Rightarrow> numeral_result" where
  "scan_roman st kind no npg fl =
     (case roman_digits st (if kind = ROML then is_roman_lower else is_roman_upper) no 0 0 0 of
        Inl i \<Rightarrow> (Inl False, npg, f_error (''Illegal Roman number: position '' @ dec_nat (i + 1) @ '' in '' @ no @ ''.'' @ NL) fl)
      | Inr (i, inp, prev) \<Rightarrow>
          if i = ROMAN_MAX then
            (Inl False, npg, f_error (''Roman page number '' @ no @ '' too big (max '' @ dec_nat ROMAN_MAX @ '' digits).'' @ NL) fl)
          else after_numeral st no i (enter no npg (wrap_i32 (inp + prev + page_offset st ! kind)) fl))"

(* @src crates/tex-makeindex/src/scan.rs fn scan_alpha *)
definition scan_alpha :: "style \<Rightarrow> nat \<Rightarrow> bytes \<Rightarrow> int list \<Rightarrow> flog \<Rightarrow> numeral_result" where
  "scan_alpha st kind no npg fl =
     after_numeral st no 1 (enter no npg (wrap_i32 (alpha_value (at no 0) + page_offset st ! kind)) fl)"

text \<open>The type guessed for the field at position \<open>count\<close>, when it changes.\<close>

(* @src crates/tex-makeindex/src/scan.rs:621-651 scan_no *)
definition new_guess :: "style \<Rightarrow> bytes \<Rightarrow> int \<Rightarrow> int option" where
  "new_guess st no old =
     (let has = (\<lambda>letter. letter \<in> set (page_precedence st)); first = at no 0;
          roml = int ROML; romu = int ROMU; arab = int ARAB; alpl = int ALPL; alpu = int ALPU
      in if is_ascii_digit first then Some arab
         else if is_roman_lower first \<and> has (CHR ''r'') \<and> has (CHR ''a'') then
           (let run = strspn no ''ivxlcdm''
            in if run > 1 then Some roml
               else if run = 1 \<and> old \<noteq> roml \<and> old \<noteq> alpl then Some (if strspn no ''ivx'' = 1 then roml else alpl)
               else None)
         else if is_roman_upper first \<and> has (CHR ''R'') \<and> has (CHR ''A'') then
           (let run = strspn no ''IVXLCDM''
            in if run > 1 then Some romu
               else if run = 1 \<and> old \<noteq> romu \<and> old \<noteq> alpu then Some (if strspn no ''IVX'' = 1 then romu else alpu)
               else None)
         else if is_roman_lower first \<and> has (CHR ''r'') then Some roml
         else if is_roman_upper first \<and> has (CHR ''R'') then Some romu
         else if is_ascii_lowercase first \<and> has (CHR ''a'') then Some alpl
         else if is_ascii_uppercase first \<and> has (CHR ''A'') then Some alpu
         else Some EMPTY)"

text \<open>One field of a page number: the numeral type, when there is one, and the reader's result.\<close>

(* @src crates/tex-makeindex/src/scan.rs:613-676 scan_no *)
definition scan_no_field :: "scanner \<Rightarrow> bytes \<Rightarrow> int list \<Rightarrow> flog \<Rightarrow> scanner \<times> int option \<times> numeral_result" where
  "scan_no_field sn no npg fl =
     (let st = sn_style sn; has = (\<lambda>letter. letter \<in> set (page_precedence st)); first = at no 0;
          count = length npg;
          sn = (case new_guess st no (guess sn count) of Some v \<Rightarrow> set_guess sn count v | None \<Rightarrow> sn);
          g = guess sn count
      in if is_ascii_digit first then (sn, Some (int ARAB), scan_arabic st no npg fl)
         else if is_roman_lower first \<and> has (CHR ''r'') \<and> (\<not> has (CHR ''a'') \<or> g = int ROML) then
           (sn, Some (int ROML), scan_roman st ROML no npg fl)
         else if is_roman_upper first \<and> has (CHR ''R'') \<and> (\<not> has (CHR ''A'') \<or> g = int ROMU) then
           (sn, Some (int ROMU), scan_roman st ROMU no npg fl)
         else if is_ascii_lowercase first \<and> has (CHR ''a'') then (sn, Some (int ALPL), scan_alpha st ALPL no npg fl)
         else if is_ascii_uppercase first \<and> has (CHR ''A'') then (sn, Some (int ALPU), scan_alpha st ALPU no npg fl)
         else
           (sn, None, Inl False, npg,
            f_error (''Illegal page number '' @ no @ '' or page_precedence '' @ c_str (page_precedence st) @ ''.'' @ NL) fl))"

lemma enter_more: "enter no npg v fl = (ok, npg', fl') \<Longrightarrow> ok \<Longrightarrow> length npg < PAGEFIELD_MAX \<and> length npg' = Suc (length npg)"
  by (auto simp: enter_def split: if_splits)

lemma after_numeral_more:
  "after_numeral st no i (enter no npg v fl) = (Inr r, npg', fl') \<Longrightarrow>
   length npg < PAGEFIELD_MAX \<and> length npg' = Suc (length npg)"
  using enter_more [of no npg v fl] by (cases "enter no npg v fl") (auto simp: after_numeral_def split: if_splits)

lemma scan_no_field_more:
  "scan_no_field sn no npg fl = (sn', ty, Inr r, npg', fl') \<Longrightarrow>
   length npg < PAGEFIELD_MAX \<and> length npg' = Suc (length npg)"
  unfolding scan_no_field_def Let_def scan_arabic_def scan_roman_def scan_alpha_def
  by (auto split: if_splits sum.splits prod.splits dest!: after_numeral_more)

(* @src crates/tex-makeindex/src/scan.rs:684-687 scan_rest *)
function scan_rest :: "scanner \<Rightarrow> bytes \<Rightarrow> int list \<Rightarrow> flog \<Rightarrow> bool \<times> scanner \<times> int list \<times> flog" where
  "scan_rest sn no npg fl =
     (case scan_no_field sn no npg fl of
        (sn, _, Inl ok, npg, fl) \<Rightarrow> (ok, sn, npg, fl)
      | (sn, _, Inr rest, npg, fl) \<Rightarrow> scan_rest sn rest npg fl)"
  by pat_completeness auto
termination
  by (relation "measure (\<lambda>(sn, no, npg, fl). PAGEFIELD_MAX - length npg)")
    (auto dest!: scan_no_field_more [OF sym])

declare scan_rest.simps [simp del]

(* @src crates/tex-makeindex/src/scan.rs fn scan_no *)
definition scan_no :: "scanner \<Rightarrow> bytes \<Rightarrow> entry \<Rightarrow> flog \<Rightarrow> bool \<times> scanner \<times> entry \<times> flog" where
  "scan_no sn no data fl =
     (let (sn, ty, r, npg1, fl) = scan_no_field sn no (e_npg data) fl;
          data = data\<lparr>e_ty := (case ty of Some t \<Rightarrow> t | None \<Rightarrow> e_ty data)\<rparr>;
          (ok, sn, npg2, fl) = (case r of Inl ok \<Rightarrow> (ok, sn, npg1, fl) | Inr rest \<Rightarrow> scan_rest sn rest npg1 fl)
      in (ok, sn, data\<lparr>e_npg := npg2\<rparr>, fl))"

subsection \<open>Entries and files\<close>

(* @src crates/tex-makeindex/src/scan.rs fn make_key *)
definition make_key :: "scanner \<Rightarrow> nat \<Rightarrow> flog \<Rightarrow> (bool \<times> scanner \<times> flog) option" where
  "make_key sn file_no fl =
     (let data = \<lparr>sf = [[], [], []], af = [[], [], []], e_group = 0, e_lpg = [], e_npg = [], e_ty = EMPTY, e_encap = [],
                   sf_cap = [1, 1, 1], af_cap = [1, 1, 1], encap_cap = 1, e_file = file_no, e_lc = 0\<rparr>
      in do {
        (ok, data, fl) \<leftarrow> scan_key sn data fl;
        Some
          (if \<not> ok then (False, sn, fl)
           else
             let no = c_str (f_no (fst fl));
                 data = data\<lparr>e_group := group_type (sf data ! 0), e_lpg := no\<rparr>;
                 (ok, sn, data, fl) = scan_no sn no data fl
             in if \<not> ok then (False, sn, fl)
                else (True, sn\<lparr>entries := entries sn @ [data\<lparr>e_lc := f_lc (fst fl)\<rparr>]\<rparr>, fl))
      })"

text \<open>The state of \<open>scan_file\<close>: the keyword read and the number of arguments begun, \<open>-1\<close> for none.\<close>

record scan_state =
  st_sn :: scanner
  st_fl :: flog
  st_keyword :: bytes
  arg_count :: int

definition finish_entry :: "nat \<Rightarrow> scan_state \<Rightarrow> scan_state option" where
  "finish_entry file_no s = do {
     (ok, sn, fl) \<leftarrow> make_key (st_sn s) file_no (st_fl s);
     Some (s\<lparr>st_sn := sn, st_fl := (fst fl, if ok then dot DOT_MAX (snd fl) else snd fl), arg_count := - 1\<rparr>)
   }"

definition reject :: "(file_scan \<Rightarrow> file_scan) \<Rightarrow> bytes \<Rightarrow> scan_state \<Rightarrow> scan_state" where
  "reject prep msg s =
     s\<lparr>st_fl := f_error msg (prep (fst (st_fl s)), snd (st_fl s)), arg_count := - 1\<rparr>"

text \<open>One character of the loop of \<open>scan_file\<close>; \<open>Inl\<close> is the end of the loop.\<close>

(* @src crates/tex-makeindex/src/scan.rs:234-328 scan_file *)
definition scan_step :: "nat \<Rightarrow> scan_state \<Rightarrow> (scan_state + scan_state) option" where
  "scan_step file_no s0 =
     (let style = sn_style (st_sn s0);
          (c, str) = getc (f_stream (fst (st_fl s0)));
          s = s0\<lparr>st_fl := ((fst (st_fl s0))\<lparr>f_stream := str\<rparr>, snd (st_fl s0))\<rparr>;
          line = s\<lparr>st_fl := (next_line (fst (st_fl s)), snd (st_fl s))\<rparr>
      in if c = C_EOF then
           (if arg_count s = 2 then map_option Inr (finish_entry file_no line)
            else if arg_count s > - 1 then
              Some (Inl (reject id (''Missing arguments -- need two (premature EOF).'' @ NL) line))
            else Some (Inl s))
         else if c = LFD then
           (if arg_count s = 2 then map_option Inr (finish_entry file_no line)
            else if arg_count s > - 1 then
              Some (Inr (reject id (''Missing arguments -- need two (premature LFD).'' @ NL) line))
            else Some (Inr line))
         else if c = TAB \<or> c = SPC then Some (Inr s)
         else if arg_count s = - 1 then
           Some (Inr (s\<lparr>st_keyword := [u8_of c], arg_count := 0,
             st_fl := ((fst (st_fl s))\<lparr>f_tc := f_tc (fst (st_fl s)) + 1\<rparr>, snd (st_fl s))\<rparr>))
         else if arg_count s = 0 then
           (if is_char c (arg_open style) then
              (if c_str (st_keyword s) = keyword style then
                 (let (ok, fl) = scan_arg1 (st_sn s) (st_fl s)
                  in Some (Inr (s\<lparr>st_fl := fl, arg_count := (if ok then 1 else - 1)\<rparr>)))
               else Some (Inr (reject f_skip_line (''Unknown index keyword '' @ c_str (st_keyword s) @ ''.'' @ NL) s)))
            else if length (st_keyword s) < ARRAY_MAX then
              Some (Inr (s\<lparr>st_keyword := st_keyword s @ [u8_of c]\<rparr>))
            else
              Some (Inr (reject f_skip_line
                (''Index keyword '' @ c_str (st_keyword s) @ '' too long (max '' @ dec_nat ARRAY_MAX @ '').'' @ NL) s)))
         else if arg_count s = 1 then
           (if is_char c (arg_open style) then
              (let (ok, fl) = scan_arg2 (st_sn s) (st_fl s)
               in Some (Inr (s\<lparr>st_fl := fl, arg_count := (if ok then 2 else - 1)\<rparr>)))
            else
              Some (Inr (reject f_skip_line
                (''No opening delimiter for second argument (illegal character '' @ [CHR 0x60, u8_of c, CHR 0x27] @ '').'' @ NL) s)))
         else if arg_count s = 2 then
           Some (Inr (reject f_skip_line
             (''No closing delimiter for second argument (illegal character '' @ [CHR 0x60, u8_of c, CHR 0x27] @ '').'' @ NL) s))
         else Some (Inr s))"

subsection \<open>The loop of a file\<close>

abbreviation unread_of :: "flog \<Rightarrow> stream" where
  "unread_of fl \<equiv> f_stream (fst fl)"

lemma f_error_stream [simp]: "unread_of (f_error msg fl) = unread_of fl"
  by (cases fl) (simp add: f_error_def Let_def)

lemma next_line_stream [simp]: "f_stream (next_line f) = f_stream f"
  by (simp add: next_line_def)

lemma flush_left: "left (f_stream (flush_to_eol f)) \<le> left (f_stream f)"
  by (simp add: flush_to_eol_def flush_line_left)

lemma skip_spaces_left: "skip_spaces s a = (a', s') \<Longrightarrow> left s' \<le> left s"
proof (induction s a rule: skip_spaces.induct)
  case (1 s a)
  obtain b t where g: "getc s = (b, t)" by (cases "getc s")
  show ?case
    using 1(2) 1(1) [OF _ g [symmetric] refl] getc_left_le [OF g]
    by (fastforce simp: skip_spaces.simps [of s a] g split: if_splits)
qed

lemma arg1_loop_left: "arg1_loop st compress depth a f = (r, f') \<Longrightarrow> left (f_stream f') \<le> left (f_stream f)"
proof (induction st compress depth a f rule: arg1_loop.induct)
  case (1 st compress depth a f)
  note IH = 1(1-4) and eq0 = 1(5)
  obtain b s where g: "getc (f_stream f) = (b, s)" by (cases "getc (f_stream f)")
  obtain c s2 where g2: "getc s = (c, s2)" by (cases "getc s")
  note le = getc_left_le [OF g] getc_left_le [OF g2]
  consider (stop) "\<not> (length (f_key f) < ARGUMENT_MAX \<and> a \<noteq> C_EOF)"
    | (go) "length (f_key f) < ARGUMENT_MAX \<and> a \<noteq> C_EOF" by blast
  then show ?case
  proof cases
    case stop
    show ?thesis using eq0 unfolding arg1_loop.simps [of st compress depth a f] if_not_P [OF stop] by simp
  next
    case go
    note eq = eq0 [unfolded arg1_loop.simps [of st compress depth a f] if_P [OF go]]
    consider "is_char a (quote_ch st) \<or> is_char a (escape_ch st)"
      | "\<not> (is_char a (quote_ch st) \<or> is_char a (escape_ch st))" "is_char a (arg_open st)"
      | "\<not> (is_char a (quote_ch st) \<or> is_char a (escape_ch st))" "\<not> is_char a (arg_open st)" "is_char a (arg_close st)"
      | "\<not> (is_char a (quote_ch st) \<or> is_char a (escape_ch st))" "\<not> is_char a (arg_open st)" "\<not> is_char a (arg_close st)"
      by blast
    then show ?thesis
    proof cases
      case 1
      then show ?thesis
        using eq IH(1) [OF go 1 g [symmetric] refl g2 [symmetric] refl] le
        by (simp add: g g2 push_key_def)
    next
      case 2
      then show ?thesis
        using eq IH(2) [OF go 2 g [symmetric] refl] le by (simp add: g push_key_def)
    next
      case 3
      then show ?thesis
        using eq IH(3) [OF go 3 _ g [symmetric] refl] le
        by (cases "depth = 0") (auto simp: g push_key_def split: if_splits)
    next
      case 4
      then show ?thesis
        using eq IH(4) [OF go 4 _ refl g [symmetric] refl] le
        by (cases "a = LFD") (auto simp: g push_key_def Let_def split: if_splits)
    qed
  qed
qed

lemma scan_arg1_left: "scan_arg1 sn fl = (ok, fl') \<Longrightarrow> left (unread_of fl') \<le> left (unread_of fl)"
proof -
  assume a: "scan_arg1 sn fl = (ok, fl')"
  obtain f log where fl: "fl = (f, log)" by (cases fl)
  obtain b s where g: "getc (f_stream f) = (b, s)" by (cases "getc (f_stream f)")
  obtain c s2 where sp: "(if compress_blanks sn then skip_spaces s b else (b, s)) = (c, s2)" by fastforce
  have "left s2 \<le> left s" using sp skip_spaces_left [of s b] by (auto split: if_splits)
  obtain r f2 where l: "arg1_loop (sn_style sn) (compress_blanks sn) 0 c (f\<lparr>f_key := [], f_stream := s2\<rparr>) = (r, f2)"
    by fastforce
  have "left (f_stream f2) \<le> left s2" using arg1_loop_left [OF l] by simp
  moreover have "left (unread_of fl') \<le> left (f_stream f2)"
    using a flush_left [of f2] by (auto simp: scan_arg1_def fl g sp l Let_def split: option.splits sum.splits)
  ultimately show ?thesis using \<open>left s2 \<le> left s\<close> getc_left_le [OF g] by (simp add: fl)
qed

lemma arg2_loop_left: "arg2_loop st hb a f = (r, f') \<Longrightarrow> left (f_stream f') \<le> left (f_stream f)"
proof (induction st hb a f rule: arg2_loop.induct)
  case (1 st hb a f)
  obtain b s where g: "getc (f_stream f) = (b, s)" by (cases "getc (f_stream f)")
  note le = getc_left_le [OF g] flush_left [of f]
  have IH: "\<lbrakk>length (f_no f) < NUMBER_MAX; \<not> is_char a (arg_close st); a \<noteq> LFD; a = TAB \<or> a = SPC;
      arg2_loop st True b (f\<lparr>f_stream := s\<rparr>) = (r, f')\<rbrakk> \<Longrightarrow> left (f_stream f') \<le> left s"
    "\<lbrakk>length (f_no f) < NUMBER_MAX; \<not> is_char a (arg_close st); a \<noteq> LFD; \<not> (a = TAB \<or> a = SPC); \<not> hb;
      arg2_loop st hb b (f\<lparr>f_stream := s, f_no := f_no f @ [u8_of a]\<rparr>) = (r, f')\<rbrakk> \<Longrightarrow> left (f_stream f') \<le> left s"
    using 1(1) [OF _ _ _ _ g [symmetric] refl] 1(2) [OF _ _ _ _ _ g [symmetric] refl] by simp_all
  note eq = 1(3) [unfolded arg2_loop.simps [of st hb a f] g]
  show ?case
    using eq IH le by (fastforce split: if_splits)
qed

lemma scan_arg2_left: "scan_arg2 sn fl = (ok, fl') \<Longrightarrow> left (unread_of fl') \<le> left (unread_of fl)"
proof -
  assume a: "scan_arg2 sn fl = (ok, fl')"
  obtain f log where fl: "fl = (f, log)" by (cases fl)
  obtain b s where g: "getc (f_stream f) = (b, s)" by (cases "getc (f_stream f)")
  obtain c s2 where sp: "skip_spaces s b = (c, s2)" by fastforce
  obtain r f2 where l: "arg2_loop (sn_style sn) False c (f\<lparr>f_no := [], f_stream := s2\<rparr>) = (r, f2)" by fastforce
  have "left (unread_of fl') = left (f_stream f2)"
    using a by (auto simp: scan_arg2_def fl g sp l Let_def split: option.splits)
  then show ?thesis using skip_spaces_left [OF sp] getc_left_le [OF g] arg2_loop_left [OF l] by (simp add: fl)
qed

lemma scan_field_stream: "scan_field sn key n l e a fl = Some (r, n', fl') \<Longrightarrow> unread_of fl' = unread_of fl"
  by (auto simp: scan_field_def Let_def split: option.splits field_round.splits)

lemma key_round_stream:
  "key_round sn key i n second data fl = Some r \<Longrightarrow>
   unread_of (case r of KeyDone _ _ fl' \<Rightarrow> fl' | KeyMore _ _ _ _ fl' \<Rightarrow> fl') = unread_of fl"
  unfolding key_round_def Let_def
  by (auto split: if_splits option.splits prod.splits bind_splits dest!: scan_field_stream)

lemma key_loop_stream: "key_loop sn key i n second data fl = Some (ok, data', fl') \<Longrightarrow> unread_of fl' = unread_of fl"
proof (induction sn key i n second data fl rule: key_loop.induct)
  case (1 sn key i n second data fl)
  then show ?case
    using key_round_stream [of sn key i n second data fl]
    by (fastforce simp: key_loop.simps [of sn key i] split: option.splits key_round.splits)
qed

lemma numeral_stream:
  "scan_no_field sn no ns fl = (sn', ty, r, ns', fl') \<Longrightarrow> unread_of fl' = unread_of fl"
proof -
  have e: "unread_of (snd (snd (enter no ns v fl))) = unread_of fl" for v by (simp add: enter_def)
  have a: "unread_of (snd (snd (after_numeral st no i (enter no ns v fl)))) = unread_of fl" for st i v
    using e [of v] by (cases "enter no ns v fl") (simp add: after_numeral_def)
  have n: "unread_of (snd (snd (scan_arabic st no ns fl))) = unread_of fl"
    "unread_of (snd (snd (scan_roman st k no ns fl))) = unread_of fl"
    "unread_of (snd (snd (scan_alpha st k no ns fl))) = unread_of fl" for st k
    by (simp_all add: scan_arabic_def scan_roman_def scan_alpha_def a split: sum.splits prod.splits)
  assume "scan_no_field sn no ns fl = (sn', ty, r, ns', fl')"
  then show ?thesis
    using n unfolding scan_no_field_def Let_def by (auto split: if_splits dest!: arg_cong [of _ _ "\<lambda>x. unread_of (snd (snd x))"])
qed

lemma scan_rest_stream: "scan_rest sn no ns fl = (ok, sn', ns', fl') \<Longrightarrow> unread_of fl' = unread_of fl"
proof (induction sn no ns fl rule: scan_rest.induct)
  case (1 sn no ns fl)
  obtain sn1 ty r ns1 fl1 where f: "scan_no_field sn no ns fl = (sn1, ty, r, ns1, fl1)" by (metis prod_cases5)
  show ?case
  proof (cases r)
    case (Inl b)
    then show ?thesis using 1(2) numeral_stream [OF f] by (simp add: scan_rest.simps [of sn] f)
  next
    case (Inr rest)
    have "scan_rest sn1 rest ns1 fl1 = (ok, sn', ns', fl')" using 1(2) by (simp add: scan_rest.simps [of sn] f Inr)
    from 1(1) [OF f [unfolded Inr, symmetric] refl refl refl refl this] show ?thesis
      using numeral_stream [OF f] by simp
  qed
qed

lemma scan_no_stream: "scan_no sn no data fl = (ok, sn', data', fl') \<Longrightarrow> unread_of fl' = unread_of fl"
proof -
  assume a: "scan_no sn no data fl = (ok, sn', data', fl')"
  obtain sn1 ty r ns1 fl1 where f: "scan_no_field sn no (e_npg data) fl = (sn1, ty, r, ns1, fl1)" by (metis prod_cases5)
  show ?thesis
  proof (cases r)
    case (Inl b)
    then show ?thesis using a numeral_stream [OF f] by (auto simp: scan_no_def f Let_def)
  next
    case (Inr rest)
    obtain ok2 sn2 ns2 fl2 where s: "scan_rest sn1 rest ns1 fl1 = (ok2, sn2, ns2, fl2)" by (metis prod_cases4)
    then show ?thesis using a numeral_stream [OF f] scan_rest_stream [OF s] by (auto simp: scan_no_def f Inr s Let_def)
  qed
qed

lemma make_key_stream: "make_key sn k fl = Some (ok, sn', fl') \<Longrightarrow> unread_of fl' = unread_of fl"
  unfolding make_key_def scan_key_def Let_def
  by (auto split: if_splits bind_splits prod.splits dest!: key_loop_stream scan_no_stream)

lemma finish_entry_left:
  "finish_entry k s = Some s' \<Longrightarrow> unread_of (st_fl s') = unread_of (st_fl s) \<and> arg_count s' = - 1"
  by (auto simp: finish_entry_def split: bind_splits prod.splits dest!: make_key_stream)

lemma reject_left: "left (unread_of (st_fl (reject id msg s))) = left (unread_of (st_fl s))"
  "left (unread_of (st_fl (reject f_skip_line msg s))) \<le> left (unread_of (st_fl s))"
  "arg_count (reject prep msg s) = - 1"
  using flush_left [of "fst (st_fl s)"] by (simp_all add: reject_def f_skip_line_def)

lemma scan_step_left:
  assumes "scan_step k s = Some (Inr s')"
  shows "left (unread_of (st_fl s')) < left (unread_of (st_fl s)) \<or>
    left (unread_of (st_fl s')) \<le> left (unread_of (st_fl s)) \<and> arg_count s = 2 \<and> arg_count s' \<noteq> 2"
proof -
  obtain c str where g: "getc (f_stream (fst (st_fl s))) = (c, str)" by (cases "getc (f_stream (fst (st_fl s)))")
  define s1 where "s1 = s\<lparr>st_fl := ((fst (st_fl s))\<lparr>f_stream := str\<rparr>, snd (st_fl s))\<rparr>"
  define line where "line = s1\<lparr>st_fl := (next_line (fst (st_fl s1)), snd (st_fl s1))\<rparr>"
  have str1: "unread_of (st_fl s1) = str" "unread_of (st_fl line) = str" "arg_count s1 = arg_count s" "arg_count line = arg_count s"
    by (simp_all add: s1_def line_def)
  note le = getc_left_le [OF g] and lt = getc_left [OF g]
  note eq = assms [unfolded scan_step_def g Let_def prod.case, folded s1_def, folded line_def]
  show ?thesis
  proof (cases "c = C_EOF")
    case True
    then show ?thesis
      using eq le finish_entry_left [of k line s'] str1 by (auto split: if_splits)
  next
    case False
    then have lt: "left str < left (unread_of (st_fl s))" using lt by simp
    have "left (unread_of (st_fl s')) \<le> left str"
    proof -
      obtain ok1 fl1 where a1: "scan_arg1 (st_sn s1) (st_fl s1) = (ok1, fl1)"
        by (cases "scan_arg1 (st_sn s1) (st_fl s1)")
      obtain ok2 fl2 where a2: "scan_arg2 (st_sn s1) (st_fl s1) = (ok2, fl2)"
        by (cases "scan_arg2 (st_sn s1) (st_fl s1)")
      note arg = scan_arg1_left [OF a1, unfolded str1] scan_arg2_left [OF a2, unfolded str1]
      note rej = reject_left(1) [of _ line, unfolded str1] reject_left(2) [of _ s1, unfolded str1]
      show ?thesis
        using eq False finish_entry_left [of k line s'] str1 arg rej unfolding a1 a2
        by (simp split: if_splits prod.splits) (auto split: if_splits)
    qed
    with lt show ?thesis by simp
  qed
qed

(* @src crates/tex-makeindex/src/scan.rs:234-329 scan_file *)
function scan_loop :: "nat \<Rightarrow> scan_state \<Rightarrow> scan_state option" where
  "scan_loop k s =
     (case scan_step k s of
        None \<Rightarrow> None
      | Some (Inl s') \<Rightarrow> Some s'
      | Some (Inr s') \<Rightarrow> scan_loop k s')"
  by pat_completeness auto
termination
proof (relation "measures [\<lambda>(k, s). left (unread_of (st_fl s)), \<lambda>(k, s). if arg_count s = 2 then 1 else 0]", goal_cases)
  case (2 k s x s')
  then show ?case using scan_step_left [of k s s'] by auto
qed simp

declare scan_loop.simps [simp del]

(* @src crates/tex-makeindex/src/scan.rs fn scan_file *)
definition scan_file :: "scanner \<Rightarrow> bytes \<Rightarrow> nat \<Rightarrow> bytes \<Rightarrow> transcript \<Rightarrow> (scanner \<times> transcript) option" where
  "scan_file sn bs file_no name log =
     (let log = (message (''Scanning input file '' @ name @ ''...'') log)\<lparr>idx_dc := 0\<rparr>;
          f = \<lparr>f_stream = stream_new bs, f_name = name, f_lc = 0, f_tc = 0, f_ec = 0, f_key = [], f_no = []\<rparr>
      in do {
        s \<leftarrow> scan_loop file_no \<lparr>st_sn = sn, st_fl = (f, log), st_keyword = [], arg_count = - 1\<rparr>;
        let sn = st_sn s; f = fst (st_fl s)
        in Some (sn\<lparr>total := total sn + f_tc f, rejected := rejected sn + f_ec f\<rparr>,
             message (''done ('' @ dec_nat (usize_minus (f_tc f) (f_ec f)) @ '' entries accepted, ''
               @ dec_nat (f_ec f) @ '' rejected).'' @ NL) (snd (st_fl s)))
      })"

end
