(* ===== verification/MiSort.thy ===== *)
theory MiSort
  imports MiScan
begin

text \<open>
  \<open>crates/tex-makeindex/src/sort.rs\<close>: the comparison of index entries and the quicksort that
  drives it.  The collation of the environment's locale (\<open>strcoll\<close>, a C library function) is a
  parameter.  A comparison changes state (it marks duplicates and counts), so the sort threads a
  state through every call; an index out of range is \<open>None\<close>.
\<close>

(* @src crates/tex-makeindex/src/sort.rs const CMP_MAX *)
definition CMP_MAX :: nat where "CMP_MAX = 1500"

(* @src crates/tex-makeindex/src/sort.rs struct Collation *)
record collation =
  letter_ordering :: bool
  c_german_sort :: bool
  c_locale :: "(bytes \<Rightarrow> bytes \<Rightarrow> int) option"
  c_range_open :: u8
  c_range_close :: u8

(* @src crates/tex-makeindex/src/sort.rs fn to_lower *)
definition to_lower :: "u8 \<Rightarrow> int" where
  "to_lower b = byte_val (to_ascii_lowercase b)"

(* @src crates/tex-makeindex/src/sort.rs struct Buffer *)
record buffer =
  b_text :: bytes
  b_cap :: nat

(* @src crates/tex-makeindex/src/sort.rs impl Buffer fn at *)
definition buf_at :: "buffer \<Rightarrow> nat \<Rightarrow> u8" where
  "buf_at b i =
     (if i < length (b_text b) then b_text b ! i
      else if i < b_cap b \<or> i \<ge> 5 then CHR 0x00
      else CHR 0x55)"

(* @src crates/tex-makeindex/src/sort.rs fn strcmp *)
fun strcmp :: "bytes \<Rightarrow> bytes \<Rightarrow> int" where
  "strcmp (x # xs) (y # ys) =
     (if x \<noteq> y \<or> x = CHR 0x00 then byte_val x - byte_val y else strcmp xs ys)"
| "strcmp (x # xs) [] = byte_val x"
| "strcmp [] (y # ys) = - byte_val y"
| "strcmp [] [] = 0"

(* @src crates/tex-makeindex/src/sort.rs fn strcoll *)
definition strcoll :: "collation \<Rightarrow> bytes \<Rightarrow> bytes \<Rightarrow> int" where
  "strcoll c a b = (case c_locale c of Some coll \<Rightarrow> coll a b | None \<Rightarrow> strcmp a b)"

(* @src crates/tex-makeindex/src/sort.rs fn new_strcmp_german *)
fun new_strcmp_german :: "bytes \<Rightarrow> bytes \<Rightarrow> int" where
  "new_strcmp_german (x # xs) (y # ys) =
     (if x = y then (if x = CHR 0x00 then 0 else new_strcmp_german xs ys)
      else if is_ascii_uppercase x then 1 else - 1)"
| "new_strcmp_german (x # xs) [] = (if x = CHR 0x00 then 0 else if is_ascii_uppercase x then 1 else - 1)"
| "new_strcmp_german [] (y # ys) = (if y = CHR 0x00 then 0 else - 1)"
| "new_strcmp_german [] [] = 0"

text \<open>
  The loop of \<open>compare_string\<close>: \<open>Some\<close> the first difference, or \<open>None\<close> when both strings end.
\<close>

(* @src crates/tex-makeindex/src/sort.rs:124-146 compare_string *)
function fold_loop :: "bool \<Rightarrow> buffer \<Rightarrow> buffer \<Rightarrow> nat \<Rightarrow> nat \<Rightarrow> int option" where
  "fold_loop letters x y i j =
     (if buf_at x i \<noteq> CHR 0x00 \<or> buf_at y j \<noteq> CHR 0x00 then
        (if buf_at x i = CHR 0x00 then Some (- 1)
         else if buf_at y j = CHR 0x00 then Some 1
         else
           let i = (if letters \<and> buf_at x i = CHR '' '' then i + 1 else i);
               j = (if letters \<and> buf_at y j = CHR '' '' then j + 1 else j);
               al = to_lower (buf_at x i); bl = to_lower (buf_at y j)
           in if al \<noteq> bl then Some (al - bl) else fold_loop letters x y (i + 1) (j + 1))
      else None)"
  by pat_completeness auto
termination
proof (relation "measure (\<lambda>(letters, x, y, i, j). max (length (b_text x)) 5 - i)", goal_cases)
  case (2 letters x y i j i' j' al bl)
  then have "i < max (length (b_text x)) 5" by (auto simp: buf_at_def split: if_splits)
  then show ?case using 2 by auto
qed simp

declare fold_loop.simps [simp del]

(* @src crates/tex-makeindex/src/sort.rs fn compare_string *)
definition compare_string :: "collation \<Rightarrow> buffer \<Rightarrow> buffer \<Rightarrow> int" where
  "compare_string c x y =
     (if c_locale c \<noteq> None then strcoll c (b_text x) (b_text y)
      else
        (case fold_loop (letter_ordering c) x y 0 0 of
           Some d \<Rightarrow> d
         | None \<Rightarrow> if c_german_sort c then new_strcmp_german (b_text x) (b_text y) else strcmp (b_text x) (b_text y)))"

(* @src crates/tex-makeindex/src/sort.rs fn check_mixsym *)
definition check_mixsym :: "collation \<Rightarrow> bytes \<Rightarrow> bytes \<Rightarrow> int" where
  "check_mixsym c x y =
     (let m = is_ascii_digit (at x 0); n = is_ascii_digit (at y 0)
      in if m \<and> \<not> n then 1 else if \<not> m \<and> n then - 1 else strcoll c x y)"

(* @src crates/tex-makeindex/src/sort.rs fn compare_one *)
definition compare_one :: "collation \<Rightarrow> buffer \<Rightarrow> buffer \<Rightarrow> int" where
  "compare_one c bx by' =
     (let x = b_text bx; y = b_text by'
      in if x = [] \<and> y = [] then 0
         else if x = [] then - 1
         else if y = [] then 1
         else
           let m = group_type x; n = group_type y
           in if m \<ge> 0 \<and> n \<ge> 0 then wrap_i32 (m - n)
              else if m \<ge> 0 then (if c_german_sort c \<or> n = SYMBOL then 1 else - 1)
              else if n \<ge> 0 then (if c_german_sort c \<or> m = SYMBOL then - 1 else 1)
              else if m = SYMBOL \<and> n = SYMBOL then check_mixsym c x y
              else if m = SYMBOL then - 1
              else if n = SYMBOL then 1
              else compare_string c bx by')"

(* @src crates/tex-makeindex/src/sort.rs fn is_range *)
definition is_range :: "collation \<Rightarrow> bytes \<Rightarrow> bool" where
  "is_range c encap \<longleftrightarrow> at encap 0 = c_range_open c \<or> at encap 0 = c_range_close c"

text \<open>The first difference of two page numbers, or the length of the common part.\<close>

(* @src crates/tex-makeindex/src/sort.rs:182-193 compare_page *)
fun page_loop :: "int list \<Rightarrow> int list \<Rightarrow> int option" where
  "page_loop (m # ms) (n # ns) =
     (let d = wrap_i32 (m - n) in if d \<noteq> 0 then Some d else page_loop ms ns)"
| "page_loop _ _ = None"

text \<open>The second component tells whether the second entry is marked as a duplicate.\<close>

(* @src crates/tex-makeindex/src/sort.rs fn compare_page *)
definition compare_page :: "collation \<Rightarrow> entry \<Rightarrow> entry \<Rightarrow> int \<times> bool" where
  "compare_page c x y =
     (case page_loop (e_npg x) (e_npg y) of
        Some m \<Rightarrow> (m, False)
      | None \<Rightarrow>
          if length (e_npg x) = length (e_npg y) then
            (if is_range c (e_encap x) \<and> is_range c (e_encap y) then (wrap_i32 (e_lc x - e_lc y), False)
             else if e_encap x = e_encap y then (0, e_ty x \<noteq> DUPLICATE \<and> e_ty y \<noteq> DUPLICATE)
             else if is_range c (e_encap x) \<or> is_range c (e_encap y) then (wrap_i32 (e_lc x - e_lc y), False)
             else (compare_string c \<lparr>b_text = e_encap x, b_cap = encap_cap x\<rparr>
                     \<lparr>b_text = e_encap y, b_cap = encap_cap y\<rparr>, False))
          else (if length (e_npg x) < length (e_npg y) then - 1 else 1, False))"

(* @src crates/tex-makeindex/src/sort.rs:157-176 compare *)
fun compare_levels :: "collation \<Rightarrow> entry \<Rightarrow> entry \<Rightarrow> nat list \<Rightarrow> int" where
  "compare_levels c x y [] = 0"
| "compare_levels c x y (level # levels) =
     (let dif = compare_one c \<lparr>b_text = sf x ! level, b_cap = sf_cap x ! level\<rparr>
                  \<lparr>b_text = sf y ! level, b_cap = sf_cap y ! level\<rparr>
      in if dif \<noteq> 0 then dif
         else
           let dif = compare_one c \<lparr>b_text = af x ! level, b_cap = af_cap x ! level\<rparr>
                       \<lparr>b_text = af y ! level, b_cap = af_cap y ! level\<rparr>
           in if dif \<noteq> 0 then dif else compare_levels c x y levels)"

(* @src crates/tex-makeindex/src/sort.rs fn compare *)
definition compare :: "collation \<Rightarrow> nat \<Rightarrow> nat \<Rightarrow> entry list \<Rightarrow> (int \<times> entry list) option" where
  "compare c a b es =
     (if length es \<le> a \<or> length es \<le> b then None
      else
        let dif = compare_levels c (es ! a) (es ! b) [0..<FIELD_MAX]
        in if dif \<noteq> 0 then Some (dif, es)
           else
             let (m, dup) = compare_page c (es ! a) (es ! b)
             in Some (m, if dup then es[b := (es ! b)\<lparr>e_ty := DUPLICATE\<rparr>] else es))"

subsection \<open>The quicksort\<close>

type_synonym 's comparator = "nat \<Rightarrow> nat \<Rightarrow> 's \<Rightarrow> (int \<times> 's) option"

definition THRESH :: nat where "THRESH = 4"
definition MTHRESH :: nat where "MTHRESH = 6"

definition cmp_at :: "'s comparator \<Rightarrow> nat list \<Rightarrow> nat \<Rightarrow> nat \<Rightarrow> 's \<Rightarrow> (int \<times> 's) option" where
  "cmp_at cmp keys i j s =
     (if i < length keys \<and> j < length keys then cmp (keys ! i) (keys ! j) s else None)"

definition swap_at :: "nat list \<Rightarrow> nat \<Rightarrow> nat \<Rightarrow> nat list option" where
  "swap_at keys i j =
     (if i < length keys \<and> j < length keys then Some (keys[i := keys ! j, j := keys ! i]) else None)"

(* @src crates/tex-makeindex/src/sort.rs:295-310 qst *)
definition median :: "'s comparator \<Rightarrow> nat list \<Rightarrow> nat \<Rightarrow> nat \<Rightarrow> nat \<Rightarrow> 's \<Rightarrow> (nat list \<times> 's) option" where
  "median cmp keys base mid mx s =
     (if mx - base \<ge> MTHRESH then do {
        (d, s) \<leftarrow> cmp_at cmp keys base mid s;
        let j = (if d > 0 then base else mid);
        let tmp = mx - 1;
        (d, s) \<leftarrow> cmp_at cmp keys j tmp s;
        (j, s) \<leftarrow> (if d > 0 then do {
            let j = (if j = base then mid else base);
            (d, s) \<leftarrow> cmp_at cmp keys j tmp s;
            Some (if d < 0 then tmp else j, s)
          } else Some (j, s));
        keys \<leftarrow> (if j \<noteq> mid then swap_at keys mid j else Some keys);
        Some (keys, s)
      } else Some (keys, s))"

(* @src crates/tex-makeindex/src/sort.rs:314-316 qst *)
function scan_up :: "'s comparator \<Rightarrow> nat list \<Rightarrow> nat \<Rightarrow> nat \<Rightarrow> 's \<Rightarrow> (nat \<times> 's) option" where
  "scan_up cmp keys mid i s =
     (if i < mid then
        (case cmp_at cmp keys i mid s of
           None \<Rightarrow> None
         | Some (d, s) \<Rightarrow> if d \<le> 0 then scan_up cmp keys mid (i + 1) s else Some (i, s))
      else Some (i, s))"
  by pat_completeness auto
termination
  by (relation "measure (\<lambda>(cmp, keys, mid, i, s). mid - i)") auto

text \<open>The second loop: \<open>True\<close> with the position of an element below the pivot, if there is one.\<close>

(* @src crates/tex-makeindex/src/sort.rs:317-332 qst *)
function scan_down :: "'s comparator \<Rightarrow> nat list \<Rightarrow> nat \<Rightarrow> nat \<Rightarrow> 's \<Rightarrow> (bool \<times> nat \<times> 's) option" where
  "scan_down cmp keys mid j s =
     (if j > mid then
        (case cmp_at cmp keys mid j s of
           None \<Rightarrow> None
         | Some (d, s) \<Rightarrow> if d \<le> 0 then scan_down cmp keys mid (j - 1) s else Some (True, j, s))
      else Some (False, j, s))"
  by pat_completeness auto
termination
  by (relation "measure (\<lambda>(cmp, keys, mid, j, s). j - mid)") auto

declare scan_up.simps [simp del] scan_down.simps [simp del]

text \<open>The partition loop; it returns the final position of the pivot.\<close>

(* @src crates/tex-makeindex/src/sort.rs:311-347 qst *)
partial_function (option) partition_loop ::
  "'s comparator \<Rightarrow> nat list \<Rightarrow> nat \<Rightarrow> nat \<Rightarrow> nat \<Rightarrow> 's \<Rightarrow> (nat list \<times> nat \<times> 's) option" where
  "partition_loop cmp keys i mid j s = do {
     (i, s) \<leftarrow> scan_up cmp keys mid i s;
     (found, j, s) \<leftarrow> scan_down cmp keys mid j s;
     (if found then do {
        keys \<leftarrow> swap_at keys i j;
        (if i = mid then partition_loop cmp keys (i + 1) j j s
         else partition_loop cmp keys (i + 1) mid (j - 1) s)
      }
      else if i = mid then Some (keys, mid, s)
      else do {
        keys \<leftarrow> swap_at keys i mid;
        partition_loop cmp keys i i (j - 1) s
      })
   }"

declare partition_loop.simps [code]

(* @src crates/tex-makeindex/src/sort.rs fn qst *)
partial_function (option) qst ::
  "'s comparator \<Rightarrow> nat list \<Rightarrow> nat \<Rightarrow> nat \<Rightarrow> 's \<Rightarrow> (nat list \<times> 's) option" where
  "qst cmp keys base mx s =
     (let mid = base + (mx - base) div 2
      in do {
        (keys, s) \<leftarrow> median cmp keys base mid mx s;
        (keys, mid, s) \<leftarrow> partition_loop cmp keys base mid (mx - 1) s;
        let left = mid - base;
        let right = mx - (mid + 1);
        (if left \<le> right then do {
           (keys, s) \<leftarrow> (if left \<ge> THRESH then qst cmp keys base mid s else Some (keys, s));
           (if right < THRESH then Some (keys, s) else qst cmp keys (mid + 1) mx s)
         }
         else do {
           (keys, s) \<leftarrow> (if right \<ge> THRESH then qst cmp keys (mid + 1) mx s else Some (keys, s));
           (if left < THRESH then Some (keys, s) else qst cmp keys base mid s)
         })
      })"

declare qst.simps [code]

(* @src crates/tex-makeindex/src/sort.rs:251-262 qqsort *)
fun smallest :: "'s comparator \<Rightarrow> nat list \<Rightarrow> nat \<Rightarrow> nat list \<Rightarrow> 's \<Rightarrow> (nat \<times> 's) option" where
  "smallest cmp keys j [] s = Some (j, s)"
| "smallest cmp keys j (lo # los) s = do {
     (d, s) \<leftarrow> cmp_at cmp keys j lo s;
     smallest cmp keys (if d > 0 then lo else j) los s
   }"

text \<open>Where the element at \<open>min\<close> goes among those before it; \<open>h\<close> is \<open>hi + 1\<close> of the code.\<close>

(* @src crates/tex-makeindex/src/sort.rs:273-280 qqsort *)
fun find_slot :: "'s comparator \<Rightarrow> nat list \<Rightarrow> nat \<Rightarrow> nat \<Rightarrow> 's \<Rightarrow> (nat \<times> 's) option" where
  "find_slot cmp keys m 0 s = Some (0, s)"
| "find_slot cmp keys m (Suc h) s = do {
     (d, s) \<leftarrow> cmp_at cmp keys h m s;
     (if d \<le> 0 then Some (Suc h, s) else find_slot cmp keys m h s)
   }"

definition rotate_right :: "nat list \<Rightarrow> nat \<Rightarrow> nat \<Rightarrow> nat list" where
  "rotate_right keys hi m = take hi keys @ [keys ! m] @ drop hi (take m keys) @ drop (m + 1) keys"

(* @src crates/tex-makeindex/src/sort.rs:266-284 qqsort *)
fun insertion :: "'s comparator \<Rightarrow> nat list \<Rightarrow> nat list \<Rightarrow> 's \<Rightarrow> (nat list \<times> 's) option" where
  "insertion cmp keys [] s = Some (keys, s)"
| "insertion cmp keys (m # ms) s = do {
     (hi, s) \<leftarrow> find_slot cmp keys m m s;
     insertion cmp (if hi \<noteq> m then rotate_right keys hi m else keys) ms s
   }"

(* @src crates/tex-makeindex/src/sort.rs fn qqsort *)
definition qqsort :: "'s comparator \<Rightarrow> nat list \<Rightarrow> 's \<Rightarrow> (nat list \<times> 's) option" where
  "qqsort cmp keys s =
     (let n = length keys
      in if n \<le> 1 then Some (keys, s)
         else do {
           (keys, s) \<leftarrow> (if n \<ge> THRESH then qst cmp keys 0 n s else Some (keys, s));
           let hi = (if n \<ge> THRESH then THRESH else n);
           (j, s) \<leftarrow> smallest cmp keys 0 [1..<hi] s;
           keys \<leftarrow> (if j \<noteq> 0 then swap_at keys 0 j else Some keys);
           insertion cmp keys [1..<n] s
         })"

end
