(* ===== verification/MiSortCorrect.thy ===== *)
theory MiSortCorrect
  imports MiSort
begin

text \<open>
  The quicksort of makeindex: with any comparison that returns, it ends, stays in range and permutes
  its keys; with a comparison that is a total preorder, it sorts.
\<close>

subsection \<open>Any comparison\<close>

locale comparator =
  fixes cmp :: "'s comparator" and inv :: "'s \<Rightarrow> bool" and D :: "nat set"
  assumes cmp_total: "inv s \<Longrightarrow> a \<in> D \<Longrightarrow> b \<in> D \<Longrightarrow> a \<noteq> b \<Longrightarrow> \<exists>d s'. cmp a b s = Some (d, s') \<and> inv s'"
begin

definition ok :: "nat list \<Rightarrow> 's \<Rightarrow> bool" where
  "ok keys s \<longleftrightarrow> set keys \<subseteq> D \<and> distinct keys \<and> inv s"

lemma cmp_at_ok:
  assumes "ok keys s" "i < length keys" "j < length keys" "i \<noteq> j"
  obtains d s' where "cmp_at cmp keys i j s = Some (d, s')" "cmp (keys ! i) (keys ! j) s = Some (d, s')" "ok keys s'"
proof -
  have "keys ! i \<in> D" "keys ! j \<in> D" "keys ! i \<noteq> keys ! j" using assms by (auto simp: ok_def nth_eq_iff_index_eq)
  with cmp_total [of s "keys ! i" "keys ! j"] assms that show ?thesis by (auto simp: ok_def cmp_at_def)
qed

lemma swap_at_ok:
  assumes "i < length keys" "j < length keys"
  obtains keys' where "swap_at keys i j = Some keys'" "mset keys' = mset keys"
proof -
  have "mset (keys[i := keys ! j, j := keys ! i]) = mset keys" using assms by (simp add: mset_swap)
  then show ?thesis using assms that by (simp add: swap_at_def)
qed

lemma ok_perm: "mset keys' = mset keys \<Longrightarrow> ok keys s \<Longrightarrow> ok keys' s"
  using mset_eq_setD [of keys' keys] mset_eq_imp_distinct_iff [of keys' keys] by (simp add: ok_def)

lemma perm_length: "mset keys' = mset keys \<Longrightarrow> length keys' = length keys"
  by (rule mset_eq_length)

lemma median_ok:
  assumes "ok keys s" "base < mx" "mx \<le> length keys" "mid = base + (mx - base) div 2"
  shows "\<exists>keys' s'. median cmp keys base mid mx s = Some (keys', s') \<and> mset keys' = mset keys \<and> ok keys' s'"
proof (cases "mx - base \<ge> MTHRESH")
  case True
  have r: "base < length keys" "mid < length keys" "mx - 1 < length keys" "base \<noteq> mid"
    "base \<noteq> mx - 1" "mid \<noteq> mx - 1" using assms True by (auto simp: MTHRESH_def)
  obtain d1 s1 where 1: "cmp_at cmp keys base mid s = Some (d1, s1)" "ok keys s1"
    using cmp_at_ok [OF assms(1) r(1,2,4)] by metis
  define j where "j = (if d1 > 0 then base else mid)"
  have j: "j < length keys" "j \<noteq> mx - 1" unfolding j_def using r(1,2,5,6) by simp_all
  obtain d2 s2 where 2: "cmp_at cmp keys j (mx - 1) s1 = Some (d2, s2)" "ok keys s2"
    using cmp_at_ok [OF 1(2) j(1) r(3) j(2)] by metis
  define j2 where "j2 = (if j = base then mid else base)"
  have j2: "j2 < length keys" "j2 \<noteq> mx - 1" unfolding j2_def using r(1,2,5,6) by simp_all
  obtain d3 s3 where 3: "cmp_at cmp keys j2 (mx - 1) s2 = Some (d3, s3)" "ok keys s3"
    using cmp_at_ok [OF 2(2) j2(1) r(3) j2(2)] by metis
  define j' s' where "j' = (if d2 > 0 then if d3 < 0 then mx - 1 else j2 else j)"
    and "s' = (if d2 > 0 then s3 else s2)"
  have j': "j' < length keys" "ok keys s'" using j j2 r 2 3 by (simp_all add: j'_def s'_def)
  obtain keys' where k: "swap_at keys mid j' = Some keys'" "mset keys' = mset keys"
    using swap_at_ok [OF r(2) j'(1)] by metis
  have pick: "(if d2 > 0 then Option.bind (cmp_at cmp keys j2 (mx - 1) s2) (\<lambda>(d, s). Some (if d < 0 then mx - 1 else j2, s))
      else Some (j, s2)) = Some (j', s')" using 3(1) by (simp add: j'_def s'_def)
  have swap: "(if j' \<noteq> mid then swap_at keys mid j' else Some keys) = Some (if j' \<noteq> mid then keys' else keys)"
    using k(1) by simp
  have "median cmp keys base mid mx s = Some (if j' \<noteq> mid then keys' else keys, s')"
    unfolding median_def if_P [OF True] 1(1) bind.bind_lunit prod.case Let_def j_def [symmetric] 2(1) j2_def [symmetric] pick swap ..
  then show ?thesis using k(2) j'(2) ok_perm [OF k(2)] by auto
qed (use assms(1) in \<open>simp add: median_def\<close>)

lemma scan_up_ok:
  "ok keys s \<Longrightarrow> i \<le> mid \<Longrightarrow> mid < length keys \<Longrightarrow>
   \<exists>i' s'. scan_up cmp keys mid i s = Some (i', s') \<and> i \<le> i' \<and> i' \<le> mid \<and> ok keys s'"
proof (induction "mid - i" arbitrary: i s)
  case 0
  then show ?case by (simp add: scan_up.simps [of cmp])
next
  case (Suc n)
  then have i: "i < mid" "i < length keys" "i \<noteq> mid" by simp_all
  obtain d s1 where 1: "cmp_at cmp keys i mid s = Some (d, s1)" "ok keys s1"
    using cmp_at_ok [OF Suc.prems(1) i(2) Suc.prems(3) i(3)] by metis
  from Suc i have "n = mid - (i + 1)" "i + 1 \<le> mid" by simp_all
  from Suc.hyps(1) [OF this(1) 1(2) this(2) Suc.prems(3)] show ?case
    using i 1 by (auto simp: scan_up.simps [of cmp keys mid i])
qed

lemma scan_down_ok:
  "ok keys s \<Longrightarrow> mid \<le> j \<Longrightarrow> j < length keys \<Longrightarrow>
   \<exists>f j' s'. scan_down cmp keys mid j s = Some (f, j', s') \<and> mid \<le> j' \<and> j' \<le> j \<and>
     (f \<longrightarrow> mid < j') \<and> (\<not> f \<longrightarrow> j' = mid) \<and> ok keys s'"
proof (induction "j - mid" arbitrary: j s)
  case 0
  then have "scan_down cmp keys mid j s = Some (False, j, s)" by (simp add: scan_down.simps [of cmp])
  with 0 show ?case by auto
next
  case (Suc n)
  then have j: "mid < j" "mid < length keys" "mid \<noteq> j" by simp_all
  obtain d s1 where 1: "cmp_at cmp keys mid j s = Some (d, s1)" "ok keys s1"
    using cmp_at_ok [OF Suc.prems(1) j(2) Suc.prems(3) j(3)] by metis
  from Suc j have n: "n = (j - 1) - mid" "mid \<le> j - 1" "j - 1 < length keys" by simp_all
  obtain f j' s' where "scan_down cmp keys mid (j - 1) s1 = Some (f, j', s')" "mid \<le> j'" "j' \<le> j - 1"
    "f \<longrightarrow> mid < j'" "\<not> f \<longrightarrow> j' = mid" "ok keys s'"
    using Suc.hyps(1) [OF n(1) 1(2) n(2,3)] by metis
  then show ?case using j 1 by (cases "d \<le> 0") (auto simp: scan_down.simps [of cmp keys mid j])
qed

lemma partition_ok:
  "ok keys s \<Longrightarrow> i \<le> mid \<Longrightarrow> mid \<le> j \<Longrightarrow> j < length keys \<Longrightarrow>
   \<exists>keys' m s'. partition_loop cmp keys i mid j s = Some (keys', m, s') \<and> mset keys' = mset keys \<and>
     i \<le> m \<and> m \<le> j \<and> ok keys' s'"
proof (induction "j - i" arbitrary: keys s i mid j rule: less_induct)
  case less
  obtain i1 s1 where 1: "scan_up cmp keys mid i s = Some (i1, s1)" "i \<le> i1" "i1 \<le> mid" "ok keys s1"
    using scan_up_ok [of keys s i mid] less.prems by force
  obtain f j1 s2 where 2: "scan_down cmp keys mid j s1 = Some (f, j1, s2)" "mid \<le> j1" "j1 \<le> j"
    "f \<longrightarrow> mid < j1" "\<not> f \<longrightarrow> j1 = mid" "ok keys s2"
    using scan_down_ok [OF 1(4) less.prems(3,4)] by blast
  have step: "partition_loop cmp keys i mid j s =
      (if f then Option.bind (swap_at keys i1 j1) (\<lambda>keys.
         if i1 = mid then partition_loop cmp keys (i1 + 1) j1 j1 s2
         else partition_loop cmp keys (i1 + 1) mid (j1 - 1) s2)
       else if i1 = mid then Some (keys, mid, s2)
       else Option.bind (swap_at keys i1 mid) (\<lambda>keys. partition_loop cmp keys i1 i1 (j1 - 1) s2))"
    by (subst partition_loop.simps) (simp add: 1(1) 2(1))
  have go: "\<exists>keys' m s'. Option.bind (swap_at keys i1 k) (\<lambda>keys. partition_loop cmp keys i' mid' j' s2) = Some (keys', m, s') \<and>
      mset keys' = mset keys \<and> i \<le> m \<and> m \<le> j \<and> ok keys' s'"
    if k: "k < length keys" and lt: "j' - i' < j - i" "i' \<le> mid'" "mid' \<le> j'" "j' \<le> j" "i1 \<le> i'" for k i' mid' j'
  proof -
    have "i1 < length keys" using 1(3) less.prems by simp
    then obtain ks where ks: "swap_at keys i1 k = Some ks" "mset ks = mset keys" using swap_at_ok k by metis
    have "j' < length ks" using perm_length [OF ks(2)] lt(4) less.prems(4) by simp
    from less.hyps [OF lt(1) ok_perm [OF ks(2) 2(6)] lt(2,3) this] obtain keys' m s' where
      "partition_loop cmp ks i' mid' j' s2 = Some (keys', m, s')" "mset keys' = mset ks" "i' \<le> m" "m \<le> j'" "ok keys' s'"
      by blast
    then show ?thesis using ks lt 1(2) by auto
  qed
  show ?case
  proof (cases f)
    case True
    show ?thesis
    proof (cases "i1 = mid")
      case True
      then show ?thesis using \<open>f\<close> step go [of j1 j1 "i1 + 1" j1] 1 2 less.prems by auto
    next
      case False
      then show ?thesis using \<open>f\<close> step go [of j1 "j1 - 1" "i1 + 1" mid] 1 2 less.prems by auto
    qed
  next
    case nf: False
    show ?thesis
    proof (cases "i1 = mid")
      case True
      then show ?thesis using nf step 1 2 less.prems by auto
    next
      case False
      then show ?thesis using nf step go [of mid "j1 - 1" i1 i1] 1 2 less.prems by auto
    qed
  qed
qed

lemma qst_ok:
  "ok keys s \<Longrightarrow> base < mx \<Longrightarrow> mx \<le> length keys \<Longrightarrow>
   \<exists>keys' s'. qst cmp keys base mx s = Some (keys', s') \<and> mset keys' = mset keys \<and> ok keys' s'"
proof (induction "mx - base" arbitrary: keys s base mx rule: less_induct)
  case less
  let ?mid = "base + (mx - base) div 2"
  obtain k1 s1 where 1: "median cmp keys base ?mid mx s = Some (k1, s1)" "mset k1 = mset keys" "ok k1 s1"
    using median_ok [OF less.prems refl] by blast
  have len1: "length k1 = length keys" by (rule perm_length [OF 1(2)])
  have "base \<le> ?mid" "?mid \<le> mx - 1" "mx - 1 < length k1" using less.prems len1 by linarith+
  from partition_ok [OF 1(3) this] obtain k2 m s2 where
    2: "partition_loop cmp k1 base ?mid (mx - 1) s1 = Some (k2, m, s2)" "mset k2 = mset k1" "base \<le> m" "m \<le> mx - 1" "ok k2 s2"
    by blast
  have len2: "length k2 = length keys" using perm_length [OF 2(2)] len1 by simp
  have sub: "\<exists>keys' s'. (if big then qst cmp k b e s else Some (k, s)) = Some (keys', s') \<and> mset keys' = mset k \<and> ok keys' s'"
    if "ok k s" "length k = length keys" "e - b < mx - base" "big \<longrightarrow> b < e" "e \<le> mx" for k s b e big
    using less.hyps [OF that(3) that(1)] that less.prems(3) by (cases big) auto
  have left: "m - base < mx - base" and right: "mx - (m + 1) < mx - base" and ends: "m \<le> mx"
    using 2(3,4) less.prems(2) by linarith+
  have big: "m - base \<ge> THRESH \<longrightarrow> base < m" "mx - (m + 1) \<ge> THRESH \<longrightarrow> m + 1 < mx"
    "\<not> m - base < THRESH \<longrightarrow> base < m" "\<not> mx - (m + 1) < THRESH \<longrightarrow> m + 1 < mx"
    by (auto simp: THRESH_def)
  have sub2: "\<exists>keys' s'. (if small then Some (k, s) else qst cmp k b e s) = Some (keys', s') \<and> mset keys' = mset k \<and> ok keys' s'"
    if "ok k s" "length k = length keys" "e - b < mx - base" "\<not> small \<longrightarrow> b < e" "e \<le> mx" for k s b e small
    using sub [of k s e b "\<not> small"] that by (cases small) auto
  have step: "qst cmp keys base mx s =
      (if m - base \<le> mx - (m + 1) then
         Option.bind (if m - base \<ge> THRESH then qst cmp k2 base m s2 else Some (k2, s2))
           (\<lambda>(keys, s). if mx - (m + 1) < THRESH then Some (keys, s) else qst cmp keys (m + 1) mx s)
       else
         Option.bind (if mx - (m + 1) \<ge> THRESH then qst cmp k2 (m + 1) mx s2 else Some (k2, s2))
           (\<lambda>(keys, s). if m - base < THRESH then Some (keys, s) else qst cmp keys base m s))"
    by (subst qst.simps) (simp only: Let_def 1(1) 2(1) bind.bind_lunit prod.case)
  show ?case
  proof (cases "m - base \<le> mx - (m + 1)")
    case True
    obtain k3 s3 where 3: "(if m - base \<ge> THRESH then qst cmp k2 base m s2 else Some (k2, s2)) = Some (k3, s3)"
      "mset k3 = mset k2" "ok k3 s3"
      using sub [OF 2(5) len2 left big(1) ends] by blast
    have "length k3 = length keys" using perm_length [OF 3(2)] len2 by simp
    then obtain k4 s4 where "(if mx - (m + 1) < THRESH then Some (k3, s3) else qst cmp k3 (m + 1) mx s3) = Some (k4, s4)"
      "mset k4 = mset k3" "ok k4 s4"
      using sub2 [OF 3(3) _ right big(4) order_refl] by blast
    then show ?thesis
      unfolding step if_P [OF True] 3(1) bind.bind_lunit prod.case using 3(2) 2(2) 1(2) by simp
  next
    case False
    obtain k3 s3 where 3: "(if mx - (m + 1) \<ge> THRESH then qst cmp k2 (m + 1) mx s2 else Some (k2, s2)) = Some (k3, s3)"
      "mset k3 = mset k2" "ok k3 s3"
      using sub [OF 2(5) len2 right big(2) order_refl] by blast
    have "length k3 = length keys" using perm_length [OF 3(2)] len2 by simp
    then obtain k4 s4 where "(if m - base < THRESH then Some (k3, s3) else qst cmp k3 base m s3) = Some (k4, s4)"
      "mset k4 = mset k3" "ok k4 s4"
      using sub2 [OF 3(3) _ left big(3) ends] by blast
    then show ?thesis
      unfolding step if_not_P [OF False] 3(1) bind.bind_lunit prod.case using 3(2) 2(2) 1(2) by simp
  qed
qed

lemma smallest_ok:
  "ok keys s \<Longrightarrow> j < length keys \<Longrightarrow> \<forall>l \<in> set los. l < length keys \<Longrightarrow> distinct (j # los) \<Longrightarrow>
   \<exists>j' s'. smallest cmp keys j los s = Some (j', s') \<and> j' < length keys \<and> ok keys s'"
proof (induction los arbitrary: j s)
  case (Cons l los)
  have l: "l < length keys" "j \<noteq> l" using Cons.prems(3,4) by simp_all
  obtain d s1 where 1: "cmp_at cmp keys j l s = Some (d, s1)" "ok keys s1"
    using cmp_at_ok [OF Cons.prems(1,2) l] by metis
  have "(if d > 0 then l else j) < length keys" "\<forall>l \<in> set los. l < length keys"
    "distinct ((if d > 0 then l else j) # los)" using Cons.prems by auto
  from Cons.IH [OF 1(2) this] show ?case using 1(1) by auto
qed auto

lemma find_slot_ok:
  "ok keys s \<Longrightarrow> m < length keys \<Longrightarrow> h \<le> m \<Longrightarrow>
   \<exists>hi s'. find_slot cmp keys m h s = Some (hi, s') \<and> hi \<le> h \<and> ok keys s'"
proof (induction h arbitrary: s)
  case (Suc h)
  have h: "h < length keys" "h \<noteq> m" using Suc.prems by simp_all
  obtain d s1 where 1: "cmp_at cmp keys h m s = Some (d, s1)" "ok keys s1"
    using cmp_at_ok [OF Suc.prems(1) h(1) Suc.prems(2) h(2)] by metis
  from Suc.IH [OF 1(2)] Suc.prems show ?case using 1 by auto
qed auto

lemma rotate_perm:
  assumes "hi \<le> m" "m < length keys"
  shows "mset (rotate_right keys hi m) = mset keys"
proof -
  have "mset keys = mset (take m keys @ keys ! m # drop (Suc m) keys)"
    by (rule arg_cong [OF id_take_nth_drop [OF assms(2)]])
  moreover have "mset (take m keys) = mset (take hi keys) + mset (drop hi (take m keys))"
    using arg_cong [OF append_take_drop_id [of hi "take m keys", symmetric], of mset] assms(1) by simp
  ultimately show ?thesis by (simp add: rotate_right_def)
qed

lemma insertion_ok:
  "ok keys s \<Longrightarrow> \<forall>m \<in> set ms. m < length keys \<Longrightarrow>
   \<exists>keys' s'. insertion cmp keys ms s = Some (keys', s') \<and> mset keys' = mset keys \<and> ok keys' s'"
proof (induction ms arbitrary: keys s)
  case (Cons m ms)
  then have m: "m < length keys" by simp
  obtain hi s1 where 1: "find_slot cmp keys m m s = Some (hi, s1)" "hi \<le> m" "ok keys s1"
    using find_slot_ok [OF Cons.prems(1) m order_refl] by blast
  define k where "k = (if hi \<noteq> m then rotate_right keys hi m else keys)"
  have k: "mset k = mset keys" using rotate_perm [OF 1(2) m] by (simp add: k_def)
  have "\<forall>m \<in> set ms. m < length k" using Cons.prems(2) perm_length [OF k] by simp
  from Cons.IH [OF ok_perm [OF k 1(3)] this] show ?case using 1(1) k by (auto simp: k_def [symmetric])
qed auto

lemma qqsort_ok:
  assumes "ok keys s"
  shows "\<exists>keys' s'. qqsort cmp keys s = Some (keys', s') \<and> mset keys' = mset keys \<and> ok keys' s'"
proof (cases "length keys \<le> 1")
  case True
  then show ?thesis using assms by (simp add: qqsort_def)
next
  case False
  let ?n = "length keys" and ?hi = "if length keys \<ge> THRESH then THRESH else length keys"
  obtain k1 s1 where 1: "(if ?n \<ge> THRESH then qst cmp keys 0 ?n s else Some (keys, s)) = Some (k1, s1)"
    "mset k1 = mset keys" "ok k1 s1"
  proof (cases "?n \<ge> THRESH")
    case True
    have "0 < ?n" using False by linarith
    from qst_ok [OF assms this order_refl] that True show ?thesis by auto
  qed (use that assms in simp)
  have len1: "length k1 = ?n" by (rule perm_length [OF 1(2)])
  have "\<forall>l \<in> set [1..<?hi]. l < length k1" "0 < length k1" "distinct (0 # [1..<?hi])" using len1 False by auto
  then obtain j s2 where 2: "smallest cmp k1 0 [1..<?hi] s1 = Some (j, s2)" "j < length k1" "ok k1 s2"
    using smallest_ok [OF 1(3)] by blast
  obtain k2 where 3: "(if j \<noteq> 0 then swap_at k1 0 j else Some k1) = Some k2" "mset k2 = mset k1"
  proof -
    have "0 < length k1" using 2(2) by linarith
    from swap_at_ok [OF this 2(2)] obtain k where "swap_at k1 0 j = Some k" "mset k = mset k1" by metis
    then show ?thesis using that by (cases "j = 0") auto
  qed
  have "\<forall>m \<in> set [1..<?n]. m < length k2" using perm_length [OF 3(2)] len1 by auto
  then obtain k3 s3 where 4: "insertion cmp k2 [1..<?n] s2 = Some (k3, s3)" "mset k3 = mset k2" "ok k3 s3"
    using insertion_ok [OF ok_perm [OF 3(2) 2(3)]] by blast
  have "qqsort cmp keys s = Some (k3, s3)"
    using False 1(1) 2(1) 3(1) 4(1) by (simp add: qqsort_def Let_def)
  then show ?thesis using 1(2) 3(2) 4(2,3) by simp
qed

end

subsection \<open>A total preorder\<close>

locale ordered_comparator = comparator cmp inv D
  for cmp :: "'s comparator" and inv :: "'s \<Rightarrow> bool" and D :: "nat set" +
  fixes le :: "nat \<Rightarrow> nat \<Rightarrow> bool"
  assumes le_trans: "a \<in> D \<Longrightarrow> b \<in> D \<Longrightarrow> c \<in> D \<Longrightarrow> le a b \<Longrightarrow> le b c \<Longrightarrow> le a c"
    and le_total: "a \<in> D \<Longrightarrow> b \<in> D \<Longrightarrow> le a b \<or> le b a"
    and cmp_le: "inv s \<Longrightarrow> a \<in> D \<Longrightarrow> b \<in> D \<Longrightarrow> a \<noteq> b \<Longrightarrow> cmp a b s = Some (d, s') \<Longrightarrow> d \<le> 0 \<longleftrightarrow> le a b"
begin

lemma find_slot_sorted:
  "ok keys s \<Longrightarrow> m < length keys \<Longrightarrow> h \<le> m \<Longrightarrow> find_slot cmp keys m h s = Some (hi, s') \<Longrightarrow>
   hi \<le> h \<and> (hi = 0 \<or> le (keys ! (hi - 1)) (keys ! m)) \<and> (\<forall>k. hi \<le> k \<longrightarrow> k < h \<longrightarrow> le (keys ! m) (keys ! k))"
proof (induction h arbitrary: s)
  case (Suc h)
  have h: "h < length keys" "h \<noteq> m" using Suc.prems by simp_all
  then have D: "keys ! h \<in> D" "keys ! m \<in> D" "inv s" "keys ! h \<noteq> keys ! m"
    using Suc.prems by (auto simp: ok_def nth_eq_iff_index_eq)
  obtain d s1 where 1: "cmp_at cmp keys h m s = Some (d, s1)" "cmp (keys ! h) (keys ! m) s = Some (d, s1)" "ok keys s1"
    using cmp_at_ok [OF Suc.prems(1) h(1) Suc.prems(2) h(2)] by metis
  note d = cmp_le [OF D(3,1,2,4) 1(2)]
  show ?case
  proof (cases "d \<le> 0")
    case True
    then show ?thesis using Suc.prems(4) 1(1) d by auto
  next
    case False
    then have "le (keys ! m) (keys ! h)" using d le_total [OF D(1,2)] by blast
    moreover have "find_slot cmp keys m h s1 = Some (hi, s')" using Suc.prems(4) 1(1) False by simp
    ultimately show ?thesis using Suc.IH [OF 1(3) Suc.prems(2)] Suc.prems(3) by (auto simp: less_Suc_eq)
  qed
qed auto

lemma slot_sorted:
  assumes "set (x # xs) \<subseteq> D" "sorted_wrt le xs" "hi \<le> length xs" "hi = 0 \<or> le (xs ! (hi - 1)) x"
    "\<forall>k. hi \<le> k \<longrightarrow> k < length xs \<longrightarrow> le x (xs ! k)"
  shows "sorted_wrt le (take hi xs @ [x] @ drop hi xs)"
proof -
  have below: "le y x" if y: "y \<in> set (take hi xs)" for y
  proof -
    obtain k where "k < length (take hi xs)" "take hi xs ! k = y" using y unfolding in_set_conv_nth by blast
    then have k: "k < hi" "xs ! k = y" by simp_all
    then have last: "le (xs ! (hi - 1)) x" using assms(4) by auto
    have len: "k < length xs" "hi - 1 < length xs" using k(1) assms(3) by linarith+
    have D: "xs ! k \<in> D" "xs ! (hi - 1) \<in> D" "x \<in> D"
      using nth_mem [OF len(1)] nth_mem [OF len(2)] assms(1) by auto
    show ?thesis
    proof (cases "k = hi - 1")
      case False
      then have "k < hi - 1" using k(1) by linarith
      then have "le (xs ! k) (xs ! (hi - 1))" using sorted_wrt_nth_less [OF assms(2) _ len(2)] by blast
      then show ?thesis using le_trans [OF D] last k by simp
    qed (use last k in simp)
  qed
  have above: "le x y" if y: "y \<in> set (drop hi xs)" for y
  proof -
    obtain k where "k < length (drop hi xs)" "drop hi xs ! k = y" using y unfolding in_set_conv_nth by blast
    then have "hi + k < length xs" "xs ! (hi + k) = y" by simp_all
    with assms(5) [rule_format, of "hi + k"] show ?thesis by simp
  qed
  have across: "le y z" if "y \<in> set (take hi xs)" "z \<in> set (drop hi xs)" for y z
  proof -
    have "y \<in> D" "z \<in> D" "x \<in> D" using that assms(1) by (auto dest: in_set_takeD in_set_dropD)
    then show ?thesis using le_trans below [OF that(1)] above [OF that(2)] by blast
  qed
  have "sorted_wrt le (take hi xs @ drop hi xs)" using assms(2) by simp
  then have parts: "sorted_wrt le (take hi xs)" "sorted_wrt le (drop hi xs)" unfolding sorted_wrt_append by blast+
  then show ?thesis
    unfolding sorted_wrt_append using below above across by simp
qed

lemma rotate_sorted:
  assumes keys: "ok keys s" and m: "m < length keys" and sorted: "sorted_wrt le (take m keys)"
    and slot: "find_slot cmp keys m m s = Some (hi, s')"
  shows "sorted_wrt le (take (Suc m) (if hi \<noteq> m then rotate_right keys hi m else keys))"
proof -
  note f = find_slot_sorted [OF keys m order_refl slot]
  have "sorted_wrt le (take hi (take m keys) @ [keys ! m] @ drop hi (take m keys))"
  proof (rule slot_sorted)
    show "set (keys ! m # take m keys) \<subseteq> D" using keys m by (auto simp: ok_def dest: in_set_takeD)
    show "sorted_wrt le (take m keys)" by (rule sorted)
    show "hi \<le> length (take m keys)" using f m by simp
    show "hi = 0 \<or> le (take m keys ! (hi - 1)) (keys ! m)"
      using f m by (cases hi) auto
    show "\<forall>k. hi \<le> k \<longrightarrow> k < length (take m keys) \<longrightarrow> le (keys ! m) (take m keys ! k)" using f m by simp
  qed
  moreover have "take (Suc m) (rotate_right keys hi m) = take hi (take m keys) @ [keys ! m] @ drop hi (take m keys)"
    using f m by (simp add: rotate_right_def min_def Suc_diff_le)
  moreover have "take (Suc m) keys = take m keys @ [keys ! m]" by (rule take_Suc_conv_app_nth [OF m])
  ultimately show ?thesis by (cases "hi = m") auto
qed

lemma insertion_sorted:
  "ok keys s \<Longrightarrow> n \<le> length keys \<Longrightarrow> m \<le> n \<Longrightarrow> sorted_wrt le (take m keys) \<Longrightarrow>
   insertion cmp keys [m..<n] s = Some (keys', s') \<Longrightarrow> sorted_wrt le (take n keys')"
proof (induction "n - m" arbitrary: keys s m)
  case (Suc k)
  then have m: "m < length keys" "[m..<n] = m # [Suc m..<n]" by (simp_all add: upt_conv_Cons)
  obtain hi s1 where 1: "find_slot cmp keys m m s = Some (hi, s1)" "hi \<le> m" "ok keys s1"
    using find_slot_ok [OF Suc.prems(1) m(1) order_refl] by blast
  define ks where "ks = (if hi \<noteq> m then rotate_right keys hi m else keys)"
  have ks: "mset ks = mset keys" using rotate_perm [OF 1(2) m(1)] by (simp add: ks_def)
  have "sorted_wrt le (take (Suc m) ks)"
    unfolding ks_def by (rule rotate_sorted [OF Suc.prems(1) m(1) Suc.prems(4) 1(1)])
  moreover have "insertion cmp ks [Suc m..<n] s1 = Some (keys', s')"
    using Suc.prems(5) 1(1) unfolding m(2) by (simp add: ks_def)
  moreover have "k = n - Suc m" "n \<le> length ks" "Suc m \<le> n" using Suc perm_length [OF ks] by simp_all
  ultimately show ?case using Suc.hyps(1) ok_perm [OF ks 1(3)] by blast
qed auto

lemma qqsort_sorts:
  assumes "ok keys s"
  shows "\<exists>keys' s'. qqsort cmp keys s = Some (keys', s') \<and> mset keys' = mset keys \<and> sorted_wrt le keys' \<and> inv s'"
proof -
  obtain keys' s' where q: "qqsort cmp keys s = Some (keys', s')" "mset keys' = mset keys" "ok keys' s'"
    using qqsort_ok [OF assms] by blast
  have "sorted_wrt le keys'"
  proof (cases "length keys \<le> 1")
    case True
    then have "length keys' \<le> 1" using perm_length [OF q(2)] by simp
    then show ?thesis by (cases keys') auto
  next
    case False
    let ?n = "length keys" and ?hi = "if length keys \<ge> THRESH then THRESH else length keys"
    have "\<exists>k2 s2. ok k2 s2 \<and> length k2 = ?n \<and> insertion cmp k2 [1..<?n] s2 = Some (keys', s')"
    proof -
      obtain k1 s1 where 1: "(if ?n \<ge> THRESH then qst cmp keys 0 ?n s else Some (keys, s)) = Some (k1, s1)"
        using q(1) False by (auto simp: qqsort_def Let_def split: bind_splits if_splits)
      have "mset k1 = mset keys \<and> ok k1 s1"
      proof (cases "?n \<ge> THRESH")
        case True
        have "0 < ?n" using False by linarith
        from qst_ok [OF assms this order_refl] 1 True show ?thesis by auto
      qed (use 1 assms in simp)
      then have k1: "mset k1 = mset keys" "ok k1 s1" by simp_all
      obtain j s2 where 2: "smallest cmp k1 0 [1..<?hi] s1 = Some (j, s2)"
        using q(1) False 1 by (auto simp: qqsort_def Let_def split: bind_splits)
      have "\<forall>l \<in> set [1..<?hi]. l < length k1" "0 < length k1" "distinct (0 # [1..<?hi])"
        using perm_length [OF k1(1)] False by auto
      then have j: "j < length k1" "ok k1 s2" using smallest_ok [OF k1(2)] 2 by fastforce+
      obtain k2 where 3: "(if j \<noteq> 0 then swap_at k1 0 j else Some k1) = Some k2" "insertion cmp k2 [1..<?n] s2 = Some (keys', s')"
        using q(1) False 1 2 by (auto simp: qqsort_def Let_def split: bind_splits)
      have "mset k2 = mset k1" using 3(1) swap_at_ok [OF \<open>0 < length k1\<close> j(1)] by (cases "j = 0") auto
      then show ?thesis using 3(2) ok_perm [OF _ j(2)] k1(1) perm_length by metis
    qed
    then obtain k2 s2 where k2: "ok k2 s2" "length k2 = ?n" "insertion cmp k2 [1..<?n] s2 = Some (keys', s')" by blast
    have "sorted_wrt le (take 1 k2)" by (cases k2) auto
    moreover have "?n \<le> length k2" "1 \<le> ?n" using k2(2) False by linarith+
    ultimately have "sorted_wrt le (take ?n keys')" using insertion_sorted [OF k2(1)] k2(3) by blast
    then show ?thesis using perm_length [OF q(2)] by simp
  qed
  then show ?thesis using q by (auto simp: ok_def)
qed

end

end
