(* ===== verification/MiOrder.thy ===== *)
theory MiOrder
  imports MiSortCorrect "HOL-Library.List_Lexorder" "HOL-Library.Product_Lexorder"
begin

text \<open>
  The order that \<open>compare\<close> of \<open>sort.rs\<close> implements, and the two interfaces of the quicksort
  interpreted on it.  An entry has a rank in a linear order: its sort keys and printed texts level by
  level, each with its class (empty, symbol, number, letters), its number, its lower-cased text and
  its exact text; then its page number and its encapsulator.  The comparison of two entries has the
  sign of the comparison of their ranks - for entries without range operators, in the default
  collation: with range operators the comparison is not transitive.
\<close>

definition agrees :: "int \<Rightarrow> 'a::linorder \<Rightarrow> 'a \<Rightarrow> bool" where
  "agrees d r s \<longleftrightarrow> (d < 0 \<longleftrightarrow> r < s) \<and> (d = 0 \<longleftrightarrow> r = s)"

lemma agrees_le: "agrees d r s \<Longrightarrow> d \<le> 0 \<longleftrightarrow> r \<le> s"
  by (auto simp: agrees_def)

lemma agrees_minus [intro]: "agrees (m - n) m n" for m n :: int
  by (auto simp: agrees_def)

lemma agrees_lex:
  assumes "agrees d (r1 :: 'a::linorder) s1" "agrees e (r2 :: 'b::linorder) s2"
  shows "agrees (if d \<noteq> 0 then d else e) (r1, r2) (s1, s2)"
  using assms by (auto simp: agrees_def less_prod_simp)

lemma agrees_Cons:
  assumes "agrees d (x :: 'a::linorder) y" "agrees e xs ys"
  shows "agrees (if d \<noteq> 0 then d else e) (x # xs) (y # ys)"
  using assms by (auto simp: agrees_def)

subsection \<open>Strings\<close>

definition buffer_ok :: "buffer \<Rightarrow> bool" where
  "buffer_ok b \<longleftrightarrow> CHR 0x00 \<notin> set (b_text b) \<and> (length (b_text b) < b_cap b \<or> 5 \<le> length (b_text b))"

fun fold_diff :: "bytes \<Rightarrow> bytes \<Rightarrow> int option" where
  "fold_diff [] [] = None"
| "fold_diff [] (y # ys) = Some (- 1)"
| "fold_diff (x # xs) [] = Some 1"
| "fold_diff (x # xs) (y # ys) =
     (if to_lower x \<noteq> to_lower y then Some (to_lower x - to_lower y) else fold_diff xs ys)"

lemma buf_at_end:
  assumes "buffer_ok b" "i \<le> length (b_text b)"
  shows "buf_at b i = CHR 0x00 \<longleftrightarrow> i = length (b_text b)"
proof (cases "i < length (b_text b)")
  case True
  then have "b_text b ! i \<in> set (b_text b)" by simp
  then have "b_text b ! i \<noteq> CHR 0x00" using assms(1) by (metis buffer_ok_def)
  then show ?thesis using True by (simp add: buf_at_def)
qed (use assms in \<open>auto simp: buf_at_def buffer_ok_def\<close>)

lemma fold_loop_diff:
  assumes "buffer_ok x" "buffer_ok y"
  shows "i \<le> length (b_text x) \<Longrightarrow> i \<le> length (b_text y) \<Longrightarrow>
    fold_loop False x y i i = fold_diff (drop i (b_text x)) (drop i (b_text y))"
proof (induction "length (b_text x) - i" arbitrary: i)
  case 0
  then have "i = length (b_text x)" by simp
  with 0 show ?case
    using buf_at_end [OF assms(1), of i] buf_at_end [OF assms(2), of i]
    by (cases "drop i (b_text y)") (auto simp: fold_loop.simps [of False])
next
  case (Suc n)
  then have i: "i < length (b_text x)" by simp
  then have x: "drop i (b_text x) = b_text x ! i # drop (Suc i) (b_text x)" "buf_at x i = b_text x ! i"
    "buf_at x i \<noteq> CHR 0x00"
    using buf_at_end [OF assms(1), of i] by (simp_all add: Cons_nth_drop_Suc buf_at_def)
  show ?case
  proof (cases "i = length (b_text y)")
    case True
    then have "buf_at y i = CHR 0x00" using buf_at_end [OF assms(2), of i] by simp
    then show ?thesis using x True by (simp add: fold_loop.simps [of False])
  next
    case False
    then have y: "drop i (b_text y) = b_text y ! i # drop (Suc i) (b_text y)" "buf_at y i = b_text y ! i"
      "buf_at y i \<noteq> CHR 0x00" "Suc i \<le> length (b_text y)"
      using buf_at_end [OF assms(2), of i] Suc.prems(2) by (simp_all add: Cons_nth_drop_Suc buf_at_def)
    have "n = length (b_text x) - Suc i" using Suc.hyps(2) by simp
    from Suc.hyps(1) [OF this] i x y show ?thesis
      by (simp add: fold_loop.simps [of False x y i] Let_def)
  qed
qed

lemma fold_diff_agrees:
  "(case fold_diff a b of None \<Rightarrow> map to_lower a = map to_lower b
    | Some d \<Rightarrow> d \<noteq> 0 \<and> agrees d (map to_lower a) (map to_lower b))"
proof (induction a b rule: fold_diff.induct)
  case (4 x xs y ys)
  then show ?case by (auto simp: agrees_def split: option.splits)
qed (auto simp: agrees_def)

lemma strcmp_agrees:
  "CHR 0x00 \<notin> set a \<Longrightarrow> CHR 0x00 \<notin> set b \<Longrightarrow> agrees (strcmp a b) (map byte_val a) (map byte_val b)"
proof (induction a b rule: strcmp.induct)
  case (2 x xs)
  have "byte_val x \<noteq> byte_val (CHR 0x00)" using 2 by auto
  moreover have "byte_val (CHR 0x00) = 0" by (simp add: byte_val_def)
  ultimately show ?case using byte_val_bounds [of x] by (auto simp: agrees_def)
next
  case (3 y ys)
  have "byte_val y \<noteq> byte_val (CHR 0x00)" using 3 by auto
  moreover have "byte_val (CHR 0x00) = 0" by (simp add: byte_val_def)
  ultimately show ?case using byte_val_bounds [of y] by (auto simp: agrees_def)
qed (auto simp: agrees_def)

definition upper_rank :: "u8 \<Rightarrow> int" where
  "upper_rank b = (if is_ascii_uppercase b then 1 else 0)"

lemma lower_upper_inject:
  assumes "to_lower x = to_lower y" "is_ascii_uppercase x = is_ascii_uppercase y"
  shows "x = y"
proof (cases "is_ascii_uppercase x")
  case True
  have le: "of_char c \<le> (90 :: nat)" if "is_ascii_uppercase c" for c
  proof -
    have "c \<le> CHR ''Z''" using that by (simp add: is_ascii_uppercase_def)
    then show ?thesis by (simp add: less_eq_char_def)
  qed
  have "char_of ((of_char x :: nat) + 32) = char_of ((of_char y :: nat) + 32)"
    using assms True by (simp add: to_lower_def to_ascii_lowercase_def)
  then have "((of_char x :: nat) + 32) mod 256 = ((of_char y :: nat) + 32) mod 256"
    by (metis of_char_of)
  then have "(of_char x :: nat) = of_char y" using le [of x] le [of y] True assms(2) by simp
  then show ?thesis by simp
qed (use assms in \<open>simp add: to_lower_def to_ascii_lowercase_def\<close>)

lemma german_agrees:
  "map to_lower a = map to_lower b \<Longrightarrow> CHR 0x00 \<notin> set a \<Longrightarrow>
   agrees (new_strcmp_german a b) (map upper_rank a) (map upper_rank b)"
proof (induction a b rule: new_strcmp_german.induct)
  case (1 x xs y ys)
  then show ?case
    using lower_upper_inject [of x y] by (auto simp: agrees_def upper_rank_def)
qed (auto simp: agrees_def)

definition exact_rank :: "collation \<Rightarrow> bytes \<Rightarrow> int list" where
  "exact_rank c t = (if c_german_sort c then map upper_rank t else map byte_val t)"

definition plain :: "collation \<Rightarrow> bool" where
  "plain c \<longleftrightarrow> c_locale c = None \<and> \<not> letter_ordering c"

lemma compare_string_agrees:
  assumes "plain c" "buffer_ok x" "buffer_ok y"
  shows "agrees (compare_string c x y) (map to_lower (b_text x), exact_rank c (b_text x))
    (map to_lower (b_text y), exact_rank c (b_text y))"
proof -
  have l: "fold_loop (letter_ordering c) x y 0 0 = fold_diff (b_text x) (b_text y)"
    using fold_loop_diff [OF assms(2,3), of 0] assms(1) by (simp add: plain_def)
  have nul: "CHR 0x00 \<notin> set (b_text x)" "CHR 0x00 \<notin> set (b_text y)" using assms by (auto simp: buffer_ok_def)
  note f = fold_diff_agrees [of "b_text x" "b_text y"]
  show ?thesis
  proof (cases "fold_diff (b_text x) (b_text y)")
    case None
    then have "map to_lower (b_text x) = map to_lower (b_text y)" using f by simp
    then show ?thesis
      using None l assms(1) german_agrees [OF _ nul(1)] strcmp_agrees [OF nul]
      by (auto simp: compare_string_def plain_def exact_rank_def agrees_def)
  next
    case (Some d)
    then show ?thesis using f l assms(1) by (auto simp: compare_string_def plain_def agrees_def)
  qed
qed

lemma exact_rank_inject: "map to_lower a = map to_lower b \<Longrightarrow> exact_rank c a = exact_rank c b \<longleftrightarrow> a = b"
proof (induction a arbitrary: b)
  case (Cons x xs)
  then obtain y ys where b: "b = y # ys" by (cases b) auto
  then have "map to_lower xs = map to_lower ys" "to_lower x = to_lower y" using Cons.prems by simp_all
  with Cons.IH [OF this(1)] lower_upper_inject [of x y] b show ?case
    by (auto simp: exact_rank_def upper_rank_def split: if_splits)
qed (simp add: exact_rank_def)

subsection \<open>Keys and entries\<close>

type_synonym key_rank = "nat \<times> int \<times> int list \<times> int list"

definition one_rank :: "collation \<Rightarrow> bytes \<Rightarrow> key_rank" where
  "one_rank c t =
     (let g = group_type t
      in if t = [] then (0, 0, [], [])
         else if g \<ge> 0 then (if c_german_sort c then 4 else 2, g, [], [])
         else if g = SYMBOL then (1, if is_ascii_digit (at t 0) then 1 else 0, map byte_val t, [])
         else (3, 0, map to_lower t, exact_rank c t))"

lemma group_type_bound: "group_type t \<le> 2147483647"
proof -
  have "is_i32 (wrap_i32 v)" for v by (rule is_i32_wrap)
  then have "wrap_i32 v \<le> 2147483647" for v unfolding i32_bounds by blast
  then show ?thesis by (auto simp: group_type_def Let_def SYMBOL_def ALPHA_def split: option.splits)
qed

lemma compare_one_agrees:
  assumes c: "plain c" and x: "buffer_ok x" and y: "buffer_ok y"
  shows "agrees (compare_one c x y) (one_rank c (b_text x)) (one_rank c (b_text y))"
proof (cases "b_text x = [] \<or> b_text y = []")
  case True
  then show ?thesis by (auto simp: compare_one_def one_rank_def agrees_def less_prod_simp Let_def)
next
  case False
  define m n where mn: "m = group_type (b_text x)" "n = group_type (b_text y)"
  have wrap: "wrap_i32 (m - n) = m - n" if "m \<ge> 0" "n \<ge> 0"
  proof -
    have "is_i32 (m - n)" unfolding i32_bounds
      using that mn group_type_bound [of "b_text x"] group_type_bound [of "b_text y"] by linarith
    then show ?thesis by simp
  qed
  have nul: "CHR 0x00 \<notin> set (b_text x)" "CHR 0x00 \<notin> set (b_text y)" using x y by (auto simp: buffer_ok_def)
  have S: "strcoll c a b = strcmp a b" for a b using c by (simp add: strcoll_def plain_def)
  have neg: "SYMBOL < 0" by (simp add: SYMBOL_def)
  consider "m \<ge> 0" "n \<ge> 0" | "m \<ge> 0" "n < 0" | "m < 0" "n \<ge> 0" | "m = SYMBOL" "n = SYMBOL"
    | "m = SYMBOL" "n < 0" "n \<noteq> SYMBOL" | "m < 0" "m \<noteq> SYMBOL" "n = SYMBOL"
    | "m < 0" "m \<noteq> SYMBOL" "n < 0" "n \<noteq> SYMBOL" by linarith
  then show ?thesis
  proof cases
    case 1
    then show ?thesis using wrap False
      by (simp add: compare_one_def one_rank_def agrees_def less_prod_simp Let_def mn [symmetric])
  next
    case 2
    then show ?thesis using False neg
      by (simp add: compare_one_def one_rank_def agrees_def less_prod_simp Let_def mn [symmetric])
  next
    case 3
    then show ?thesis using False neg
      by (simp add: compare_one_def one_rank_def agrees_def less_prod_simp Let_def mn [symmetric])
  next
    case 4
    then show ?thesis using False neg strcmp_agrees [OF nul]
      by (simp add: compare_one_def one_rank_def agrees_def less_prod_simp Let_def mn [symmetric] check_mixsym_def S)
  next
    case 5
    then show ?thesis using False neg
      by (simp add: compare_one_def one_rank_def agrees_def less_prod_simp Let_def mn [symmetric])
  next
    case 6
    then show ?thesis using False neg
      by (simp add: compare_one_def one_rank_def agrees_def less_prod_simp Let_def mn [symmetric])
  next
    case 7
    then show ?thesis using False compare_string_agrees [OF c x y]
      by (simp add: compare_one_def one_rank_def agrees_def less_prod_simp Let_def mn [symmetric])
  qed
qed

definition level_ranks :: "collation \<Rightarrow> entry \<Rightarrow> nat list \<Rightarrow> key_rank list" where
  "level_ranks c e levels = concat (map (\<lambda>l. [one_rank c (sf e ! l), one_rank c (af e ! l)]) levels)"

definition levels_ok :: "entry \<Rightarrow> nat list \<Rightarrow> bool" where
  "levels_ok e levels \<longleftrightarrow>
     list_all (\<lambda>l. buffer_ok \<lparr>b_text = sf e ! l, b_cap = sf_cap e ! l\<rparr> \<and> buffer_ok \<lparr>b_text = af e ! l, b_cap = af_cap e ! l\<rparr>) levels"

lemma compare_levels_agrees:
  assumes "plain c"
  shows "levels_ok x ls \<Longrightarrow> levels_ok y ls \<Longrightarrow> agrees (compare_levels c x y ls) (level_ranks c x ls) (level_ranks c y ls)"
proof (induction ls)
  case (Cons l ls)
  have 1: "agrees (compare_one c \<lparr>b_text = sf x ! l, b_cap = sf_cap x ! l\<rparr> \<lparr>b_text = sf y ! l, b_cap = sf_cap y ! l\<rparr>)
      (one_rank c (sf x ! l)) (one_rank c (sf y ! l))"
    using compare_one_agrees [OF assms, of "\<lparr>b_text = sf x ! l, b_cap = sf_cap x ! l\<rparr>" "\<lparr>b_text = sf y ! l, b_cap = sf_cap y ! l\<rparr>"]
      Cons.prems by (simp add: levels_ok_def)
  have 2: "agrees (compare_one c \<lparr>b_text = af x ! l, b_cap = af_cap x ! l\<rparr> \<lparr>b_text = af y ! l, b_cap = af_cap y ! l\<rparr>)
      (one_rank c (af x ! l)) (one_rank c (af y ! l))"
    using compare_one_agrees [OF assms, of "\<lparr>b_text = af x ! l, b_cap = af_cap x ! l\<rparr>" "\<lparr>b_text = af y ! l, b_cap = af_cap y ! l\<rparr>"]
      Cons.prems by (simp add: levels_ok_def)
  have 3: "agrees (compare_levels c x y ls) (level_ranks c x ls) (level_ranks c y ls)"
    using Cons by (simp add: levels_ok_def)
  have r: "level_ranks c e (l # ls) = one_rank c (sf e ! l) # one_rank c (af e ! l) # level_ranks c e ls" for e
    by (simp add: level_ranks_def)
  show ?case
    unfolding r compare_levels.simps Let_def by (rule agrees_Cons [OF 1 agrees_Cons [OF 2 3]])
qed (simp add: level_ranks_def agrees_def)

lemma Nil_less: "([] :: 'a::linorder list) < xs \<longleftrightarrow> xs \<noteq> []"
  by (cases xs) auto

lemma page_loop_agrees:
  "\<forall>p \<in> set ms \<union> set ns. 0 \<le> p \<and> p \<le> i32_max \<Longrightarrow>
   (case page_loop ms ns of
      Some d \<Rightarrow> d \<noteq> 0 \<and> agrees d ms ns
    | None \<Rightarrow> if length ms = length ns then ms = ns else if length ms < length ns then ms < ns else ns < ms)"
proof (induction ms ns rule: page_loop.induct)
  case (1 m ms n ns)
  have "is_i32 (m - n)" unfolding i32_bounds using 1 by (simp add: i32_max_def)
  then have w: "wrap_i32 (m - n) = m - n" by simp
  show ?case
  proof (cases "m = n")
    case True
    then show ?thesis using 1 w by (auto simp: agrees_def Let_def split: option.splits if_splits)
  qed (use w in \<open>auto simp: agrees_def Let_def\<close>)
qed (auto simp: Nil_less)

definition encap_buffer :: "entry \<Rightarrow> buffer" where
  "encap_buffer e = \<lparr>b_text = e_encap e, b_cap = encap_cap e\<rparr>"

definition page_rank :: "collation \<Rightarrow> entry \<Rightarrow> int list \<times> int list \<times> int list" where
  "page_rank c e = (e_npg e, map to_lower (e_encap e), exact_rank c (e_encap e))"

definition page_ok :: "collation \<Rightarrow> entry \<Rightarrow> bool" where
  "page_ok c e \<longleftrightarrow> list_all (\<lambda>p. 0 \<le> p \<and> p \<le> i32_max) (e_npg e) \<and> buffer_ok (encap_buffer e) \<and> \<not> is_range c (e_encap e)"

lemma compare_page_agrees:
  assumes c: "plain c" and x: "page_ok c x" and y: "page_ok c y"
  shows "agrees (fst (compare_page c x y)) (page_rank c x) (page_rank c y)"
proof -
  have "\<forall>p \<in> set (e_npg x) \<union> set (e_npg y). 0 \<le> p \<and> p \<le> i32_max"
    using x y by (auto simp: page_ok_def list_all_iff)
  note l = page_loop_agrees [OF this]
  have s: "agrees (compare_string c \<lparr>b_text = e_encap x, b_cap = encap_cap x\<rparr> \<lparr>b_text = e_encap y, b_cap = encap_cap y\<rparr>)
      (map to_lower (e_encap x), exact_rank c (e_encap x)) (map to_lower (e_encap y), exact_rank c (e_encap y))"
    using compare_string_agrees [OF c, of "encap_buffer x" "encap_buffer y"] x y
    by (simp add: page_ok_def encap_buffer_def)
  show ?thesis
  proof (cases "page_loop (e_npg x) (e_npg y)")
    case None
    then show ?thesis using l s x y
      by (auto simp: compare_page_def page_rank_def page_ok_def agrees_def less_prod_simp Let_def split: if_splits)
  next
    case (Some d)
    then show ?thesis using l by (auto simp: compare_page_def page_rank_def agrees_def less_prod_simp)
  qed
qed

definition entry_rank :: "collation \<Rightarrow> entry \<Rightarrow> key_rank list \<times> int list \<times> int list \<times> int list" where
  "entry_rank c e = (level_ranks c e [0..<FIELD_MAX], page_rank c e)"

definition sortable :: "collation \<Rightarrow> entry \<Rightarrow> bool" where
  "sortable c e \<longleftrightarrow> plain c \<and> levels_ok e [0..<FIELD_MAX] \<and> page_ok c e"

lemma compare_agrees:
  assumes "sortable c (es ! a)" "sortable c (es ! b)" "compare c a b es = Some (d, es')"
  shows "agrees d (entry_rank c (es ! a)) (entry_rank c (es ! b))"
proof -
  have p: "plain c" using assms(1) by (simp add: sortable_def)
  have 1: "agrees (compare_levels c (es ! a) (es ! b) [0..<FIELD_MAX])
      (level_ranks c (es ! a) [0..<FIELD_MAX]) (level_ranks c (es ! b) [0..<FIELD_MAX])"
    using compare_levels_agrees [OF p] assms by (simp add: sortable_def)
  have 2: "agrees (fst (compare_page c (es ! a) (es ! b))) (page_rank c (es ! a)) (page_rank c (es ! b))"
    using compare_page_agrees [OF p] assms by (simp add: sortable_def)
  have d: "d = (if compare_levels c (es ! a) (es ! b) [0..<FIELD_MAX] \<noteq> 0
      then compare_levels c (es ! a) (es ! b) [0..<FIELD_MAX] else fst (compare_page c (es ! a) (es ! b)))"
    using assms(3) by (auto simp: compare_def Let_def split: if_splits prod.splits)
  show ?thesis unfolding d entry_rank_def by (rule agrees_lex [OF 1 2])
qed

subsection \<open>The interpretations\<close>

text \<open>What the comparison leaves alone: everything but the duplicate mark.\<close>

definition unmark :: "entry \<Rightarrow> entry" where
  "unmark e = e\<lparr>e_ty := 0\<rparr>"

lemma unmark_same: "unmark (e\<lparr>e_ty := v\<rparr>) = unmark e"
  by (simp add: unmark_def)

lemma compare_keeps:
  assumes "compare c a b es = Some (d, es')"
  shows "map unmark es' = map unmark es"
proof -
  have "map unmark (es[b := (es ! b)\<lparr>e_ty := v\<rparr>]) = map unmark es" for v
    by (rule nth_equalityI; (simp; metis unmark_same nth_list_update_eq nth_list_update_neq)?)
  then show ?thesis using assms by (auto simp: compare_def Let_def split: if_splits prod.splits)
qed

lemma compare_returns: "a < length es \<Longrightarrow> b < length es \<Longrightarrow> \<exists>d es'. compare c a b es = Some (d, es')"
  by (auto simp: compare_def Let_def split: prod.splits)

lemma rank_unmark: "entry_rank c (unmark e) = entry_rank c e" "sortable c (unmark e) = sortable c e"
  by (simp_all add: entry_rank_def level_ranks_def page_rank_def sortable_def levels_ok_def page_ok_def
      encap_buffer_def unmark_def)

lemma unmark_nth:
  assumes "map unmark es = map unmark es0" "i < length es0"
  shows "unmark (es ! i) = unmark (es0 ! i)"
  by (metis assms length_map nth_map)

interpretation mi: comparator "compare c" "\<lambda>es. map unmark es = map unmark es0" "{0..<length es0}"
  for c es0
proof
  fix es a b
  assume es: "map unmark es = map unmark es0" and "a \<in> {0..<length es0}" "b \<in> {0..<length es0}"
  moreover have "length es = length es0" by (rule map_eq_imp_length_eq [OF es])
  ultimately obtain d es' where "compare c a b es = Some (d, es')"
    using compare_returns [of a es b c] by auto
  then show "\<exists>d es'. compare c a b es = Some (d, es') \<and> map unmark es' = map unmark es0"
    using es compare_keeps by metis
qed

definition sortable_at :: "collation \<Rightarrow> entry list \<Rightarrow> nat set" where
  "sortable_at c es = {i. i < length es \<and> sortable c (es ! i)}"

interpretation mi_ord: ordered_comparator "compare c" "\<lambda>es. map unmark es = map unmark es0" "sortable_at c es0"
  "\<lambda>a b. entry_rank c (es0 ! a) \<le> entry_rank c (es0 ! b)"
  for c es0
proof
  fix es a b
  assume "map unmark es = map unmark es0" "a \<in> sortable_at c es0" "b \<in> sortable_at c es0" "a \<noteq> b"
  then show "\<exists>d es'. compare c a b es = Some (d, es') \<and> map unmark es' = map unmark es0"
    by (intro mi.cmp_total) (auto simp: sortable_at_def)
next
  fix es a b d es'
  assume es: "map unmark es = map unmark es0" and ab: "a \<in> sortable_at c es0" "b \<in> sortable_at c es0"
    and cmp: "compare c a b es = Some (d, es')"
  have n: "a < length es0" "b < length es0" "sortable c (es0 ! a)" "sortable c (es0 ! b)"
    using ab by (auto simp: sortable_at_def)
  have "sortable c (es ! a)" "sortable c (es ! b)"
    "entry_rank c (es ! a) = entry_rank c (es0 ! a)" "entry_rank c (es ! b) = entry_rank c (es0 ! b)"
    using unmark_nth [OF es n(1)] unmark_nth [OF es n(2)] n(3,4) rank_unmark by metis+
  with compare_agrees [OF _ _ cmp] show "d \<le> 0 \<longleftrightarrow> entry_rank c (es0 ! a) \<le> entry_rank c (es0 ! b)"
    by (simp add: agrees_le)
qed auto

subsection \<open>Duplicates\<close>

text \<open>
  Two entries that the comparison holds to be one and the same; the second is marked.  Equal ranks
  are equal texts, except that a key of digits is its number.
\<close>

definition same_entry :: "collation \<Rightarrow> entry \<Rightarrow> entry \<Rightarrow> bool" where
  "same_entry c x y \<longleftrightarrow> level_ranks c x [0..<FIELD_MAX] = level_ranks c y [0..<FIELD_MAX] \<and>
     e_npg x = e_npg y \<and> e_encap x = e_encap y"

text \<open>The same without ranks: the texts are equal, or are both digits only, of the same value.\<close>

definition same_text :: "bytes \<Rightarrow> bytes \<Rightarrow> bool" where
  "same_text s t \<longleftrightarrow> s = t \<or> list_all is_ascii_digit s \<and> list_all is_ascii_digit t \<and> s \<noteq> [] \<and> t \<noteq> [] \<and> group_type s = group_type t"

definition same_index_entry :: "entry \<Rightarrow> entry \<Rightarrow> bool" where
  "same_index_entry x y \<longleftrightarrow> (\<forall>l < FIELD_MAX. same_text (sf x ! l) (sf y ! l) \<and> same_text (af x ! l) (af y ! l)) \<and>
     e_npg x = e_npg y \<and> e_encap x = e_encap y"

lemma map_byte_val_inject: "map byte_val s = map byte_val t \<longleftrightarrow> s = t"
  by (rule inj_map_eq_map) (auto simp: inj_on_def byte_val_def)

lemma one_rank_same:
  assumes "one_rank c s = one_rank c t"
  shows "same_text s t"
proof -
  have digits: "list_all is_ascii_digit u" if "group_type u \<ge> 0" for u
    using that by (auto simp: group_type_def Let_def SYMBOL_def ALPHA_def split: if_splits)
  show ?thesis
    using assms exact_rank_inject [of s t c] digits [of s] digits [of t]
    by (auto simp: one_rank_def same_text_def Let_def map_byte_val_inject split: if_splits)
qed

lemma level_ranks_same:
  "level_ranks c x ls = level_ranks c y ls \<Longrightarrow> l \<in> set ls \<Longrightarrow> same_text (sf x ! l) (sf y ! l) \<and> same_text (af x ! l) (af y ! l)"
  by (induction ls) (auto simp: level_ranks_def dest: one_rank_same)

lemma same_entry_texts: "same_entry c x y \<Longrightarrow> same_index_entry x y"
  using level_ranks_same [of c x "[0..<FIELD_MAX]" y] by (auto simp: same_entry_def same_index_entry_def)

definition comparable_at :: "collation \<Rightarrow> entry list \<Rightarrow> nat set" where
  "comparable_at c es = {i. i < length es \<and> plain c \<and> levels_ok (es ! i) [0..<FIELD_MAX] \<and> list_all is_i32 (e_npg (es ! i))}"

text \<open>Every marked entry has an unmarked one that is the same.\<close>

definition represented :: "collation \<Rightarrow> entry list \<Rightarrow> entry list \<Rightarrow> bool" where
  "represented c es0 es \<longleftrightarrow> map unmark es = map unmark es0 \<and>
     (\<forall>i < length es0. e_ty (es ! i) = DUPLICATE \<longrightarrow> e_ty (es0 ! i) = DUPLICATE \<or>
        (\<exists>j < length es0. e_ty (es ! j) \<noteq> DUPLICATE \<and> same_entry c (es0 ! i) (es0 ! j)))"

lemma page_loop_None:
  "list_all is_i32 ms \<Longrightarrow> list_all is_i32 ns \<Longrightarrow> page_loop ms ns = None \<Longrightarrow> length ms = length ns \<Longrightarrow> ms = ns"
proof (induction ms ns rule: page_loop.induct)
  case (1 m ms n ns)
  have "wrap_i32 (m - n) = 0" using 1 by (auto simp: Let_def split: if_splits)
  moreover have "- 4294967296 < m - n" "m - n < 4294967296" using 1 by (auto simp: i32_bounds)
  ultimately have "m = n" using wrap_i32_zero [of "m - n"] by simp
  then show ?case using 1 by (simp add: Let_def split: if_splits)
qed auto

lemma compare_cases:
  assumes "compare c a b es = Some (d, es')"
  obtains "es' = es"
  | "es' = es[b := (es ! b)\<lparr>e_ty := DUPLICATE\<rparr>]" "a < length es" "b < length es" "e_ty (es ! a) \<noteq> DUPLICATE"
    "compare_levels c (es ! a) (es ! b) [0..<FIELD_MAX] = 0" "page_loop (e_npg (es ! a)) (e_npg (es ! b)) = None"
    "length (e_npg (es ! a)) = length (e_npg (es ! b))" "e_encap (es ! a) = e_encap (es ! b)"
proof (cases "es' = es")
  case False
  then show ?thesis
    using assms that(2)
    by (auto simp: compare_def compare_page_def Let_def split: if_splits prod.splits option.splits)
qed (use that(1) in simp)

lemma same_unmark: "same_entry c (unmark x) y = same_entry c x y" "same_entry c x (unmark y) = same_entry c x y"
  by (simp_all add: same_entry_def unmark_def level_ranks_def)

lemma same_trans: "same_entry c x y \<Longrightarrow> same_entry c y z \<Longrightarrow> same_entry c x z"
  by (simp add: same_entry_def)

lemma marked_same:
  assumes es: "map unmark es = map unmark es0" and ab: "a \<in> comparable_at c es0" "b \<in> comparable_at c es0"
    and cmp: "compare_levels c (es ! a) (es ! b) [0..<FIELD_MAX] = 0" "page_loop (e_npg (es ! a)) (e_npg (es ! b)) = None"
    "length (e_npg (es ! a)) = length (e_npg (es ! b))" "e_encap (es ! a) = e_encap (es ! b)"
  shows "same_entry c (es0 ! b) (es0 ! a)"
proof -
  have n: "a < length es0" "b < length es0" "plain c" using ab by (auto simp: comparable_at_def)
  have u: "unmark (es ! a) = unmark (es0 ! a)" "unmark (es ! b) = unmark (es0 ! b)"
    using unmark_nth [OF es] n by simp_all
  have keep: "levels_ok (es ! i) [0..<FIELD_MAX] \<and> list_all is_i32 (e_npg (es ! i))"
    if "i \<in> comparable_at c es0" for i
  proof -
    have e: "unmark (es ! i) = unmark (es0 ! i)" using unmark_nth [OF es] that by (simp add: comparable_at_def)
    have "levels_ok (unmark x) ls = levels_ok x ls" "e_npg (unmark x) = e_npg x" for x ls
      by (simp_all add: levels_ok_def unmark_def)
    with e that show ?thesis by (metis (mono_tags, lifting) comparable_at_def mem_Collect_eq)
  qed
  have "e_npg (es ! b) = e_npg (es ! a)" using page_loop_None keep ab cmp by metis
  moreover have "level_ranks c (es ! b) [0..<FIELD_MAX] = level_ranks c (es ! a) [0..<FIELD_MAX]"
    using compare_levels_agrees [OF n(3)] keep ab cmp(1) by (simp add: agrees_def)
  ultimately have "same_entry c (es ! b) (es ! a)" using cmp(4) by (simp add: same_entry_def)
  then show ?thesis using u same_unmark by metis
qed

lemma compare_represented:
  assumes rep: "represented c es0 es" and ab: "a \<in> comparable_at c es0" "b \<in> comparable_at c es0" "a \<noteq> b"
    and cmp: "compare c a b es = Some (d, es')"
  shows "represented c es0 es'"
  using cmp
proof (cases rule: compare_cases)
  case 2
  have es: "map unmark es = map unmark es0" and n: "length es = length es0"
    using rep map_eq_imp_length_eq unfolding represented_def by auto
  have same: "same_entry c (es0 ! b) (es0 ! a)" by (rule marked_same [OF es ab(1,2) 2(5-8)])
  have a: "a < length es0" "e_ty (es' ! a) \<noteq> DUPLICATE" using 2(1-4) ab(3) n by simp_all
  have "e_ty (es0 ! i) = DUPLICATE \<or> (\<exists>j < length es0. e_ty (es' ! j) \<noteq> DUPLICATE \<and> same_entry c (es0 ! i) (es0 ! j))"
    if i: "i < length es0" "e_ty (es' ! i) = DUPLICATE" for i
  proof (cases "i = b")
    case True
    then show ?thesis using a same by blast
  next
    case False
    then have "e_ty (es ! i) = DUPLICATE" using i 2(1) by simp
    then consider "e_ty (es0 ! i) = DUPLICATE"
      | j where "j < length es0" "e_ty (es ! j) \<noteq> DUPLICATE" "same_entry c (es0 ! i) (es0 ! j)"
      using rep i(1) unfolding represented_def by blast
    then show ?thesis
    proof cases
      case (2 j)
      show ?thesis
      proof (cases "j = b")
        case True
        then show ?thesis using a same_trans [OF 2(3)] same by blast
      next
        case False
        then show ?thesis using 2 \<open>es' = _\<close> by auto
      qed
    qed simp
  qed
  then show ?thesis using compare_keeps [OF cmp] es unfolding represented_def by simp
qed (use rep in simp)

interpretation mi_dup: comparator "compare c" "represented c es0" "comparable_at c es0" for c es0
proof
  fix es a b
  assume rep: "represented c es0 es" and ab: "a \<in> comparable_at c es0" "b \<in> comparable_at c es0" "a \<noteq> b"
  have "length es = length es0" using rep map_eq_imp_length_eq unfolding represented_def by blast
  then obtain d es' where "compare c a b es = Some (d, es')"
    using compare_returns [of a es b c] ab by (auto simp: comparable_at_def)
  then show "\<exists>d es'. compare c a b es = Some (d, es') \<and> represented c es0 es'"
    using compare_represented [OF rep ab] by blast
qed

subsection \<open>The properties\<close>

text \<open>
  Property C15.  The quicksort of makeindex, driven by its comparison of entries, always ends and never
  reads out of range, whatever the collation (the locale's \<open>strcoll\<close> included): it returns a
  permutation of its keys, and the entries are those it was given but for the duplicate marks.
\<close>

theorem sort_permutes:
  assumes "distinct keys" "\<forall>k \<in> set keys. k < length es"
  shows "\<exists>keys' es'. qqsort (compare c) keys es = Some (keys', es') \<and> mset keys' = mset keys \<and>
    map unmark es' = map unmark es"
proof -
  have "set keys \<subseteq> {0..<length es}" using assms(2) by auto
  then have "mi.ok es keys es" using assms(1) by (simp add: mi.ok_def)
  from mi.qqsort_ok [OF this, of c] show ?thesis by (auto simp: mi.ok_def)
qed

text \<open>
  Property C13.  Without a locale and without \<open>-l\<close>, entries are sorted: the sequence of keys is
  ascending in the rank, which goes level by level through sort keys and printed texts, then by page and
  by encapsulator.  In one key or text empty comes first, then symbols, then numbers by value and words
  case-insensitively, and only then exactly; the numbers stand before the words, or with German word order
  (\<open>-g\<close>) after them.  The entries have no range operators, page numbers between 0 and \<open>i32::MAX\<close>, and
  texts without NUL that leave room for the terminator in their buffers or have at least five bytes.
\<close>

theorem sort_orders_entries:
  assumes "distinct keys" "\<forall>k \<in> set keys. k < length es \<and> sortable c (es ! k)"
  shows "\<exists>keys' es'. qqsort (compare c) keys es = Some (keys', es') \<and> mset keys' = mset keys \<and>
    sorted (map (\<lambda>k. entry_rank c (es ! k)) keys')"
proof -
  have "mi_ord.ok es c keys es" using assms unfolding mi_ord.ok_def by (auto simp: sortable_at_def)
  from mi_ord.qqsort_sorts [OF this] show ?thesis by (auto simp: sorted_map)
qed

text \<open>
  Property C14.  Without a locale and without \<open>-l\<close>, sorting loses no entry: whatever is marked as a
  duplicate, to be left out of the index, has an unmarked entry with the same page, the same encapsulator
  (range operators included) and, at each level, the same sort key and printed text - the same bytes, or
  both digits only with the same value, as \<open>01\<close> and \<open>1\<close>.  (The texts are as in the property before;
  page numbers are any 32-bit integers, and no entry is marked at the start.)
\<close>

theorem sort_keeps_one_of_each:
  assumes "distinct keys" "\<forall>k \<in> set keys. k \<in> comparable_at c es"
    and "\<forall>e \<in> set es. e_ty e \<noteq> DUPLICATE"
  shows "\<exists>keys' es'. qqsort (compare c) keys es = Some (keys', es') \<and>
    (\<forall>i < length es. e_ty (es' ! i) = DUPLICATE \<longrightarrow>
      (\<exists>j < length es. e_ty (es' ! j) \<noteq> DUPLICATE \<and> same_index_entry (es ! i) (es ! j)))"
proof -
  have "represented c es es" using assms(3) by (simp add: represented_def)
  then have "mi_dup.ok c es keys es" using assms(1,2) by (auto simp: mi_dup.ok_def)
  from mi_dup.qqsort_ok [OF this] obtain keys' es' where
    "qqsort (compare c) keys es = Some (keys', es')" "represented c es es'" by (auto simp: mi_dup.ok_def)
  moreover have "e_ty (es ! i) \<noteq> DUPLICATE" if "i < length es" for i using assms(3) that by simp
  ultimately show ?thesis using same_entry_texts unfolding represented_def by metis
qed

text \<open>An example: three entries with the keys \<open>b\<close>, \<open>B\<close> and \<open>10\<close>, the first one twice.\<close>

definition sample_entry :: "bytes \<Rightarrow> int \<Rightarrow> entry" where
  "sample_entry key page = \<lparr>sf = [key, [], []], af = [[], [], []], e_group = group_type key, e_lpg = dec_int page,
     e_npg = [page], e_ty = 2, e_encap = [], sf_cap = [length key + 1, 1, 1], af_cap = [1, 1, 1], encap_cap = 1,
     e_file = 0, e_lc = 1\<rparr>"

definition sample_entries :: "entry list" where
  "sample_entries = [sample_entry ''b'' 4, sample_entry ''B'' 4, sample_entry ''10'' 4, sample_entry ''b'' 4]"

definition sample_collation :: collation where
  "sample_collation = \<lparr>letter_ordering = False, c_german_sort = False, c_locale = None,
     c_range_open = CHR ''('', c_range_close = CHR '')''\<rparr>"

lemma sample_length: "length sample_entries = 4"
  by (simp add: sample_entries_def)

lemma sample_sortable: "k \<in> set [0, 1, 2, 3] \<Longrightarrow> sortable sample_collation (sample_entries ! k)"
proof -
  have "list_all (\<lambda>k. sortable sample_collation (sample_entries ! k)) [0, 1, 2, 3]" by code_simp
  then show "k \<in> set [0, 1, 2, 3] \<Longrightarrow> ?thesis" by (auto simp: list_all_iff)
qed

lemma sample_comparable: "k \<in> set [0, 1, 2, 3] \<Longrightarrow> k \<in> comparable_at sample_collation sample_entries"
proof -
  have "list_all (\<lambda>k. k < length sample_entries \<and> plain sample_collation \<and> levels_ok (sample_entries ! k) [0..<FIELD_MAX]
    \<and> list_all is_i32 (e_npg (sample_entries ! k))) [0, 1, 2, 3]" by code_simp
  then show "k \<in> set [0, 1, 2, 3] \<Longrightarrow> ?thesis" by (auto simp: list_all_iff comparable_at_def)
qed

lemma sample_unmarked: "\<forall>e \<in> set sample_entries. e_ty e \<noteq> DUPLICATE"
  by (simp add: sample_entries_def sample_entry_def DUPLICATE_def)

lemma sort_permutes_witness:
  "\<exists>keys' es'. qqsort (compare sample_collation) [0, 1, 2, 3] sample_entries = Some (keys', es') \<and>
    mset keys' = mset [0, 1, 2, 3] \<and> map unmark es' = map unmark sample_entries"
  by (rule sort_permutes) (simp_all add: sample_length)

lemma sort_orders_entries_witness:
  "\<exists>keys' es'. qqsort (compare sample_collation) [0, 1, 2, 3] sample_entries = Some (keys', es') \<and>
    mset keys' = mset [0, 1, 2, 3] \<and> sorted (map (\<lambda>k. entry_rank sample_collation (sample_entries ! k)) keys')"
  by (rule sort_orders_entries) (use sample_sortable in \<open>auto simp: sample_length\<close>)

lemma sort_keeps_one_of_each_witness:
  "\<exists>keys' es'. qqsort (compare sample_collation) [0, 1, 2, 3] sample_entries = Some (keys', es') \<and>
    (\<forall>i < length sample_entries. e_ty (es' ! i) = DUPLICATE \<longrightarrow>
      (\<exists>j < length sample_entries. e_ty (es' ! j) \<noteq> DUPLICATE \<and>
        same_index_entry (sample_entries ! i) (sample_entries ! j)))"
  by (rule sort_keeps_one_of_each) (use sample_comparable sample_unmarked in auto)

end
