(* ===== verification/MiGen.thy ===== *)
theory MiGen
  imports MiSort
begin

text \<open>
  \<open>crates/tex-makeindex/src/gen.rs\<close>: writing the formatted index - items and sub-items, runs and
  ranges of pages, group headings, line wrapping, and the warnings.  Slices of the entries and
  optional indices are read through \<open>entry_at\<close>; a failed \<open>expect\<close> or an index out of range is
  \<open>None\<close>.  The case conversion of the environment's locale (a C library function) is a parameter.
\<close>

record ctype =
  lc_lower :: "u8 \<Rightarrow> u8"
  lc_upper :: "u8 \<Rightarrow> u8"

(* @src crates/tex-makeindex/src/gen.rs struct Layout *)
record layout =
  lay_style :: style
  merge_page :: bool
  l_german_sort :: bool
  thai_sort :: bool
  start_page :: "bytes option"
  input_names :: "bytes list"
  output_name :: bytes
  l_locale :: "ctype option"

(* @src crates/tex-makeindex/src/gen.rs struct Gen *)
record gen =
  g_log :: transcript
  g_out :: bytes
  g_curr :: "nat option"
  g_prev :: "nat option"
  g_begin :: nat
  the_end :: nat
  range_ptr :: nat
  g_level :: nat
  prev_level :: nat
  g_encap :: bytes
  prev_encap :: "bytes option"
  in_range :: bool
  encap_range :: bool
  g_buff :: bytes
  g_line :: bytes
  g_lc :: nat
  g_ec :: nat
  g_indent :: nat

(* @src crates/tex-makeindex/src/gen.rs fn page_diff *)
definition page_diff :: "entry \<Rightarrow> entry \<Rightarrow> int" where
  "page_diff a b =
     (if length (e_npg a) \<noteq> length (e_npg b) then - 1
      else if e_npg a = [] \<or> butlast (e_npg a) \<noteq> butlast (e_npg b) then (if e_npg a = [] then 0 else - 1)
      else wrap_i32 (last (e_npg b) - last (e_npg a)))"

(* @src crates/tex-makeindex/src/gen.rs fn entry *)
definition entry_at :: "entry list \<Rightarrow> nat \<Rightarrow> entry option" where
  "entry_at es i = (if i < length es then Some (es ! i) else None)"

(* @src crates/tex-makeindex/src/gen.rs fn curr *)
definition curr_entry :: "entry list \<Rightarrow> gen \<Rightarrow> entry option" where
  "curr_entry es g = do { c \<leftarrow> g_curr g; entry_at es c }"

(* @src crates/tex-makeindex/src/gen.rs fn prev *)
definition prev_entry :: "entry list \<Rightarrow> gen \<Rightarrow> entry option" where
  "prev_entry es g = do {
     p \<leftarrow> (case g_prev g of Some p \<Rightarrow> Some p | None \<Rightarrow> g_curr g);
     entry_at es p
   }"

(* @src crates/tex-makeindex/src/gen.rs fn put *)
definition put :: "bytes \<Rightarrow> gen \<Rightarrow> gen" where
  "put t g = g\<lparr>g_out := g_out g @ t\<rparr>"

(* @src crates/tex-makeindex/src/gen.rs fn putln *)
definition putln :: "bytes \<Rightarrow> gen \<Rightarrow> gen" where
  "putln t g = g\<lparr>g_out := g_out g @ t @ NL, g_lc := g_lc g + 1\<rparr>"

definition add_lines :: "nat \<Rightarrow> gen \<Rightarrow> gen" where
  "add_lines n g = g\<lparr>g_lc := g_lc g + n\<rparr>"

(* @src crates/tex-makeindex/src/gen.rs fn warn *)
definition warn :: "layout \<Rightarrow> entry list \<Rightarrow> bytes \<Rightarrow> gen \<Rightarrow> gen option" where
  "warn L es msg g = do {
     cur \<leftarrow> curr_entry es g;
     let name = (if e_file cur < length (input_names L) then input_names L ! e_file cur else []);
     let log = error_line (g_log g);
     let log = ilg (''## Warning (input = '' @ name @ '', line = '' @ dec_int (e_lc cur) @ ''; output = '' @ output_name L
                  @ '', line = '' @ dec_nat (g_lc g + 1) @ ''):'' @ NL @ ''   -- '') log;
     Some (g\<lparr>g_log := ilg msg log, g_ec := g_ec g + 1\<rparr>)
   }"

(* @src crates/tex-makeindex/src/gen.rs fn save *)
definition save :: "gen \<Rightarrow> gen option" where
  "save g = do {
     cur \<leftarrow> g_curr g;
     Some (g\<lparr>g_begin := cur, the_end := cur, prev_encap := Some (g_encap g)\<rparr>)
   }"

definition unmatched_open :: "style \<Rightarrow> bytes" where
  "unmatched_open st = ''Unmatched range opening operator '' @ [range_open st] @ ''.'' @ NL"

subsection \<open>Lines\<close>

(* @src crates/tex-makeindex/src/gen.rs fn wrap_line *)
definition wrap_line :: "style \<Rightarrow> bool \<Rightarrow> gen \<Rightarrow> gen" where
  "wrap_line st print g =
     (let too_long = int (length (g_line g) + length (g_buff g) + g_indent g) > line_max st;
          indent = nat (indent_length st)
      in if print then
           (let g = (if too_long then (put (indent_space st) (putln (g_line g) g))\<lparr>g_indent := indent\<rparr>
                     else put (g_line g) g)
            in put (g_buff g) g)
         else if too_long then
           (let g = putln (g_line g) g
            in g\<lparr>g_line := indent_space st @ g_buff g @ delim_n st, g_indent := indent\<rparr>)
         else
           (let g = g\<lparr>g_buff := g_buff g @ delim_n st\<rparr> in g\<lparr>g_line := g_line g @ g_buff g\<rparr>))"

(* @src crates/tex-makeindex/src/gen.rs:371-392 flush_line *)
definition page_text :: "style \<Rightarrow> bool \<Rightarrow> entry \<Rightarrow> entry \<Rightarrow> entry \<Rightarrow> bytes" where
  "page_text st encaps beg en prev =
     (let diff = page_diff beg en; threshold = (if suffix_2p st = [] then 1 else 0)
      in if diff \<noteq> 0 then
           (if encaps \<or> page_diff beg prev > threshold then
              (if diff = 1 \<and> suffix_2p st \<noteq> [] then e_lpg beg @ suffix_2p st
               else if diff = 2 \<and> suffix_3p st \<noteq> [] then e_lpg beg @ suffix_3p st
               else if diff \<ge> 2 \<and> suffix_mp st \<noteq> [] then e_lpg beg @ suffix_mp st
               else e_lpg beg @ delim_r st @ e_lpg en)
            else e_lpg beg @ delim_n st @ e_lpg en)
         else e_lpg beg)"

(* @src crates/tex-makeindex/src/gen.rs fn flush_line *)
definition flush_line :: "layout \<Rightarrow> entry list \<Rightarrow> bool \<Rightarrow> gen \<Rightarrow> gen option" where
  "flush_line L es print g = do {
     let st = lay_style L;
     prev \<leftarrow> prev_entry es g;
     beg \<leftarrow> entry_at es (g_begin g);
     en \<leftarrow> entry_at es (the_end g);
     let threshold = (if suffix_2p st = [] then 1 else 0);
     let buff = page_text st (encap_range g) beg en prev;
     let g = (if page_diff beg en \<noteq> 0 \<and> \<not> (encap_range g \<or> page_diff beg prev > threshold) then g
              else g\<lparr>encap_range := False\<rparr>);
     let buff = (case prev_encap g of
          Some e \<Rightarrow> if e \<noteq> [] then encap_prefix st @ e @ encap_infix st @ buff @ encap_suffix st else buff
        | None \<Rightarrow> buff);
     Some (wrap_line st print (g\<lparr>g_buff := buff\<rparr>))
   }"

subsection \<open>Items and headings\<close>

(* @src crates/tex-makeindex/src/gen.rs:223-226 make_item *)
definition shown :: "entry \<Rightarrow> nat \<Rightarrow> bytes" where
  "shown e level = (if af e ! level = [] then sf e ! level else af e ! level)"

(* @src crates/tex-makeindex/src/gen.rs:234-244 make_item *)
fun item_levels :: "style \<Rightarrow> entry \<Rightarrow> nat list \<Rightarrow> gen \<Rightarrow> gen" where
  "item_levels st cur [] g = g"
| "item_levels st cur (i # is) g =
     (if sf cur ! i \<noteq> [] then
        (let g = put (g_line g) g;
             g = g\<lparr>g_line := item_x st ! i @ shown cur i, g_lc := g_lc g + ilen_x st ! i, g_level := i\<rparr>
         in item_levels st cur is g)
      else g)"

(* @src crates/tex-makeindex/src/gen.rs fn make_item *)
definition make_item :: "layout \<Rightarrow> entry list \<Rightarrow> bytes \<Rightarrow> gen \<Rightarrow> gen option" where
  "make_item L es term g = do {
     let st = lay_style L;
     cur \<leftarrow> curr_entry es g;
     let level = g_level g;
     (if FIELD_MAX \<le> level then None
      else do {
        let (item, lines) = (if level > prev_level g then (item_u st ! level, ilen_u st ! level)
                             else (item_r st ! level, ilen_r st ! level));
        let g = g\<lparr>g_line := term @ item @ shown cur level, g_lc := g_lc g + lines\<rparr>;
        let g = item_levels st cur [level + 1..<FIELD_MAX] g;
        let g = g\<lparr>g_indent := 0, g_line := g_line g @ delim_p st ! g_level g\<rparr>;
        save g
      })
   }"

(* @src crates/tex-makeindex/src/gen.rs fn first_letter *)
definition first_letter :: "layout \<Rightarrow> bytes \<Rightarrow> u8" where
  "first_letter L term =
     (let a = byte_at term
      in if thai_sort L then
           (if (CHR 0xE0 \<le> a 0 \<and> a 0 \<le> CHR 0xE4) \<or> a 0 = CHR 0x00 then a 1 else a 0)
         else (case l_locale L of Some l \<Rightarrow> lc_lower l (a 0) | None \<Rightarrow> to_ascii_lowercase (a 0)))"

(* @src crates/tex-makeindex/src/gen.rs fn put_header *)
definition put_header :: "layout \<Rightarrow> entry list \<Rightarrow> u8 \<Rightarrow> bool \<Rightarrow> gen \<Rightarrow> gen option" where
  "put_header L es letter in_locale g = do {
     let st = lay_style L;
     (if headings_flag st = 0 then Some g
      else do {
        let g = add_lines (headprelen st) (put (heading_prefix st) g);
        cur \<leftarrow> curr_entry es g;
        let positive = headings_flag st > 0;
        let g =
          (if e_group cur = SYMBOL then put (if positive then symhead_positive st else symhead_negative st) g
           else if e_group cur = ALPHA then
             put [case (if in_locale then l_locale L else None) of
                    Some l \<Rightarrow> if positive then lc_upper l letter else lc_lower l letter
                  | None \<Rightarrow> if positive then to_ascii_uppercase letter else to_ascii_lowercase letter] g
           else put (if positive then numhead_positive st else numhead_negative st) g);
        Some (add_lines (headsuflen st) (put (heading_suffix st) g))
      })
   }"

subsection \<open>New and old entries\<close>

(* @src crates/tex-makeindex/src/gen.rs fn new_entry *)
definition new_entry :: "layout \<Rightarrow> entry list \<Rightarrow> gen \<Rightarrow> gen option" where
  "new_entry L es g = do {
     let st = lay_style L;
     g \<leftarrow> (if in_range g then do {
          let current = g_curr g;
          g \<leftarrow> warn L es (unmatched_open st) (g\<lparr>g_curr := Some (range_ptr g)\<rparr>);
          Some (g\<lparr>in_range := False, g_curr := current\<rparr>)
        } else Some g);
     g \<leftarrow> flush_line L es True g;
     cur \<leftarrow> curr_entry es g;
     prev \<leftarrow> prev_entry es g;
     let letter = (if e_group cur = ALPHA then Some (first_letter L (sf cur ! 0)) else None);
     let new_group =
       (e_group cur \<noteq> ALPHA \<and> e_group cur \<noteq> e_group prev \<and> e_group prev = SYMBOL)
       \<or> (e_group cur = ALPHA \<and> letter \<noteq> Some (first_letter L (sf prev ! 0)))
       \<or> (l_german_sort L \<and> e_group cur \<noteq> ALPHA \<and> e_group prev = ALPHA);
     (if new_group then do {
        let g = add_lines (skiplen st) (put (group_skip st) (put (delim_t st) g));
        g \<leftarrow> put_header L es (case letter of Some c \<Rightarrow> c | None \<Rightarrow> CHR 0xFF) True g;
        make_item L es [] g
      } else make_item L es (delim_t st) g)
   }"

(* @src crates/tex-makeindex/src/gen.rs fn old_entry *)
definition old_entry :: "layout \<Rightarrow> entry list \<Rightarrow> gen \<Rightarrow> gen option" where
  "old_entry L es g = do {
     let st = lay_style L;
     curr_index \<leftarrow> g_curr g;
     en \<leftarrow> entry_at es (the_end g);
     cur \<leftarrow> entry_at es curr_index;
     prev \<leftarrow> prev_entry es g;
     let diff = page_diff en cur;
     let same_type = (e_ty prev = e_ty cur);
     let same_encap = (prev_encap g = Some (g_encap g));
     (if same_type \<and> diff \<noteq> - 1 \<and>
         ((diff = 0 \<and> same_encap) \<or> (merge_page L \<and> diff = 1 \<and> same_encap) \<or> in_range g) then do {
        let g = g\<lparr>the_end := curr_index\<rparr>;
        let lead = byte_at (e_encap cur) 0;
        let g = (if in_range g \<and> lead \<noteq> CHR 0x00 \<and> lead \<noteq> range_close st \<and> prev_encap g \<noteq> Some (e_encap cur) then
            wrap_line st False
              (g\<lparr>g_buff := encap_prefix st @ e_encap cur @ encap_infix st @ e_lpg cur @ encap_suffix st\<rparr>)
          else g);
        Some (if in_range g then g\<lparr>encap_range := True\<rparr> else g)
      }
      else do {
        g \<leftarrow> flush_line L es False g;
        g \<leftarrow> (if diff = 0 \<and> same_type then
            warn L es (''Conflicting entries: multiple encaps for the same page under same key.'' @ NL) g
          else if in_range g \<and> \<not> same_type then
            warn L es (''Illegal range formation: starting & ending pages are of different types.'' @ NL) g
          else if in_range g \<and> diff = - 1 then
            warn L es (''Illegal range formation: starting & ending pages cross chap/sec breaks.'' @ NL) g
          else Some g);
        save g
      })
   }"

(* @src crates/tex-makeindex/src/gen.rs:163-165 make_entry *)
definition strip_range :: "style \<Rightarrow> bytes \<Rightarrow> bytes option" where
  "strip_range st encap =
     (let lead = byte_at encap 0
      in if lead = range_open st \<or> lead = range_close st
         then (if encap = [] then None else Some (tl encap)) else Some encap)"

(* @src crates/tex-makeindex/src/gen.rs:177-179 make_entry *)
definition diff_level :: "entry \<Rightarrow> entry \<Rightarrow> nat" where
  "diff_level cur prev =
     (case find (\<lambda>level. sf cur ! level \<noteq> sf prev ! level \<or> af cur ! level \<noteq> af prev ! level) [0..<FIELD_MAX] of
        Some level \<Rightarrow> level | None \<Rightarrow> FIELD_MAX)"

(* @src crates/tex-makeindex/src/gen.rs:188-213 make_entry *)
definition range_check :: "layout \<Rightarrow> entry list \<Rightarrow> nat \<Rightarrow> bytes \<Rightarrow> gen \<Rightarrow> gen option" where
  "range_check L es n encap g =
     (let st = lay_style L; lead = byte_at encap 0;
          pe = (case prev_encap g of Some e \<Rightarrow> e | None \<Rightarrow> [])
      in if lead = range_open st then
           (if in_range g then warn L es (''Extra range opening operator '' @ [range_open st] @ ''.'' @ NL) g
            else Some (g\<lparr>in_range := True, range_ptr := n\<rparr>))
         else if lead = range_close st then
           (if in_range g then
              (let g = g\<lparr>in_range := False\<rparr>
               in if encap = [] then None
                  else if tl encap \<noteq> [] \<and> pe \<noteq> tl encap then
                    warn L es (''Range closing operator has an inconsistent encapsulator '' @ tl encap @ ''.'' @ NL) g
                  else Some g)
            else warn L es (''Unmatched range closing operator '' @ [range_close st] @ ''.'' @ NL) g)
         else if encap \<noteq> [] \<and> encap \<noteq> pe \<and> in_range g then
           warn L es (''Inconsistent page encapsulator '' @ encap @ '' within range.'' @ NL) g
         else Some g)"

(* @src crates/tex-makeindex/src/gen.rs fn make_entry *)
definition make_entry :: "layout \<Rightarrow> entry list \<Rightarrow> nat \<Rightarrow> gen \<Rightarrow> gen option" where
  "make_entry L es n g = do {
     let st = lay_style L;
     let first = (g_curr g = None);
     let g = g\<lparr>g_prev := g_curr g, g_curr := Some n\<rparr>;
     e \<leftarrow> entry_at es n;
     let encap = e_encap e;
     let lead = byte_at encap 0;
     stripped \<leftarrow> strip_range st encap;
     let g = g\<lparr>g_encap := stripped\<rparr>;
     g \<leftarrow> (if first then do {
          let g = g\<lparr>prev_level := 0, g_level := 0\<rparr>;
          g \<leftarrow> put_header L es (byte_at (sf e ! 0) 0) False g;
          make_item L es [] g
        }
        else do {
          let g = g\<lparr>prev_level := g_level g\<rparr>;
          cur \<leftarrow> curr_entry es g;
          prev \<leftarrow> prev_entry es g;
          let level = diff_level cur prev;
          let g = g\<lparr>g_level := level\<rparr>;
          (if level < FIELD_MAX then new_entry L es g
           else if \<not> (lead = range_open st \<and> in_range g) then old_entry L es g
           else Some g)
        });
     range_check L es n encap g
   }"

(* @src crates/tex-makeindex/src/gen.rs:135-140 run *)
fun make_entries :: "layout \<Rightarrow> entry list \<Rightarrow> nat list \<Rightarrow> gen \<Rightarrow> gen option" where
  "make_entries L es [] g = Some g"
| "make_entries L es (n # ns) g =
     (if e_ty (es ! n) \<noteq> DUPLICATE then do {
        g \<leftarrow> make_entry L es n g;
        make_entries L es ns (g\<lparr>g_log := dot DOT_MAX (g_log g)\<rparr>)
      } else make_entries L es ns g)"

(* @src crates/tex-makeindex/src/gen.rs fn run *)
definition gen_run :: "layout \<Rightarrow> entry list \<Rightarrow> gen \<Rightarrow> gen option" where
  "gen_run L es g = do {
     let st = lay_style L;
     let g = g\<lparr>g_log := message (''Generating output file '' @ output_name L @ ''...'') (g_log g)\<rparr>;
     let g = add_lines (prelen st) (put (preamble st) g);
     let g = (case start_page L of
         Some page \<Rightarrow> add_lines (setpagelen st) (put (setpage_suffix st) (put page (put (setpage_prefix st) g)))
       | None \<Rightarrow> g);
     let g = g\<lparr>g_log := (g_log g)\<lparr>idx_dc := 0\<rparr>\<rparr>;
     g \<leftarrow> make_entries L es [0..<length es] g;
     g \<leftarrow> (if g_curr g \<noteq> None then do {
          g \<leftarrow> (if in_range g then warn L es (unmatched_open st) (g\<lparr>g_curr := Some (range_ptr g)\<rparr>) else Some g);
          flush_line L es True (g\<lparr>g_prev := g_curr g\<rparr>)
        } else Some g);
     let g = put (postamble st) (put (delim_t st) g);
     let lines = g_lc g + postlen st;
     let plural = (if g_ec g = 1 then ''warning'' else ''warnings'');
     Some (g\<lparr>g_log := message (''done ('' @ dec_nat lines @ '' lines written, '' @ dec_nat (g_ec g) @ '' '' @ plural
       @ '').'' @ NL) (g_log g)\<rparr>)
   }"

(* @src crates/tex-makeindex/src/gen.rs:437-458 generate *)
definition gen_init :: "transcript \<Rightarrow> gen" where
  "gen_init log = \<lparr>g_log = log, g_out = [], g_curr = None, g_prev = None, g_begin = 0, the_end = 0, range_ptr = 0,
     g_level = 0, prev_level = 0, g_encap = [], prev_encap = None, in_range = False, encap_range = False,
     g_buff = [], g_line = [], g_lc = 0, g_ec = 0, g_indent = 0\<rparr>"

(* @src crates/tex-makeindex/src/gen.rs fn generate *)
definition generate :: "entry list \<Rightarrow> layout \<Rightarrow> transcript \<Rightarrow> (bytes \<times> transcript) option" where
  "generate es L log = do {
     g \<leftarrow> gen_run L es (gen_init log);
     Some (g_out g, g_log g)
   }"

subsection \<open>The page after the last one\<close>

(* @src crates/tex-makeindex/src/gen.rs:473-479 next_page *)
fun digits_from :: "bytes \<Rightarrow> nat \<Rightarrow> nat" where
  "digits_from page 0 = (if is_ascii_digit (byte_at page 0) then 0 else 1)"
| "digits_from page (Suc i) = (if is_ascii_digit (byte_at page (Suc i)) then digits_from page i else Suc (Suc i))"

(* @src crates/tex-makeindex/src/gen.rs:480-483 next_page *)
definition page_value :: "bytes \<Rightarrow> int" where
  "page_value digits = foldl (\<lambda>v d. wrap_i32 (wrap_i32 (wrap_i32 (v * 10) + byte_val d) - 48)) 0 digits"

(* @src crates/tex-makeindex/src/gen.rs fn next_page *)
definition next_page :: "bytes \<Rightarrow> int \<Rightarrow> bytes" where
  "next_page page even_odd =
     (if page = [] then page
      else
        let i = digits_from page (length page - 1);
            value = wrap_i32 (page_value (drop i page) + 1);
            value = (if even_odd = 1 \<and> value smod 2 = 0 \<or> even_odd = 2 \<and> value smod 2 = 1
                     then wrap_i32 (value + 1) else value)
        in take i page @ dec_int value)"

end
