(* ===== verification/MiGenCorrect.thy ===== *)
theory MiGenCorrect
  imports MiGen
begin

text \<open>
  The generator of \<open>gen.rs\<close>: it never fails, and the number of lines it reports is the number of
  line ends it wrote.  Both are one invariant of the generator's state, whose second part (the
  \<open>counted\<close> line ends) is carried under a flag, so that the first needs no hypothesis on the texts.
\<close>

named_theorems lfd_simps \<open>counting line ends\<close>

lemma count_lfd_simps [lfd_simps, simp]:
  "count_lfd [] = 0" "count_lfd (xs @ ys) = count_lfd xs + count_lfd ys"
  "count_lfd (x # xs) = (if x = CHR 0x0A then 1 else 0) + count_lfd xs"
  by (simp_all add: count_lfd_def)

lemma count_lfd_NL [simp]: "count_lfd NL = 1"
  by (simp add: NL_def)

abbreviation one_line :: "bytes \<Rightarrow> bool" where
  "one_line t \<equiv> count_lfd t = 0"

subsection \<open>Texts of one line\<close>

text \<open>The line counts of a style are those of its texts, and the texts between pages have no line end.\<close>

definition tidy_style :: "style \<Rightarrow> bool" where
  "tidy_style st \<longleftrightarrow>
     prelen st = count_lfd (preamble st) \<and> postlen st = count_lfd (postamble st) \<and>
     setpagelen st = count_lfd (setpage_prefix st) + count_lfd (setpage_suffix st) \<and>
     skiplen st = count_lfd (group_skip st) \<and> headprelen st = count_lfd (heading_prefix st) \<and>
     headsuflen st = count_lfd (heading_suffix st) \<and>
     list_all (\<lambda>i. ilen_r st ! i = count_lfd (item_r st ! i) \<and> ilen_u st ! i = count_lfd (item_u st ! i) \<and>
       ilen_x st ! i = count_lfd (item_x st ! i) \<and> one_line (delim_p st ! i)) [0..<FIELD_MAX] \<and>
     list_all one_line [delim_n st, delim_r st, delim_t st, suffix_2p st, suffix_3p st, suffix_mp st, encap_prefix st,
       encap_infix st, encap_suffix st, indent_space st, symhead_positive st, symhead_negative st,
       numhead_positive st, numhead_negative st]"

definition tidy_entry :: "entry \<Rightarrow> bool" where
  "tidy_entry e \<longleftrightarrow> one_line (e_lpg e) \<and> one_line (e_encap e) \<and>
     list_all (\<lambda>i. one_line (sf e ! i) \<and> one_line (af e ! i)) [0..<FIELD_MAX]"

text \<open>The case conversion of the C library makes no line end of another byte.\<close>

definition keeps_lines :: "ctype option \<Rightarrow> bool" where
  "keeps_lines loc = (case loc of
     None \<Rightarrow> True
   | Some l \<Rightarrow> list_all (\<lambda>c. c = CHR 0x0A \<or> lc_lower l c \<noteq> CHR 0x0A \<and> lc_upper l c \<noteq> CHR 0x0A) (map char_of [0..<256 :: nat]))"

definition tidy :: "layout \<Rightarrow> entry list \<Rightarrow> bool" where
  "tidy L es \<longleftrightarrow> tidy_style (lay_style L) \<and> list_all tidy_entry es \<and> keeps_lines (l_locale L) \<and>
     (case start_page L of Some p \<Rightarrow> one_line p | None \<Rightarrow> True)"

lemma tidy_entryD:
  assumes "tidy L es" "i < length es"
  shows "one_line (e_lpg (es ! i))" "one_line (e_encap (es ! i))"
    "l < FIELD_MAX \<Longrightarrow> one_line (sf (es ! i) ! l)" "l < FIELD_MAX \<Longrightarrow> one_line (af (es ! i) ! l)"
  using assms by (auto simp: tidy_def list_all_length tidy_entry_def list_all_iff)

lemma tidy_styleD:
  assumes "tidy L es"
  shows "prelen (lay_style L) = count_lfd (preamble (lay_style L))"
    "postlen (lay_style L) = count_lfd (postamble (lay_style L))"
    "setpagelen (lay_style L) = count_lfd (setpage_prefix (lay_style L)) + count_lfd (setpage_suffix (lay_style L))"
    "skiplen (lay_style L) = count_lfd (group_skip (lay_style L))"
    "headprelen (lay_style L) = count_lfd (heading_prefix (lay_style L))"
    "headsuflen (lay_style L) = count_lfd (heading_suffix (lay_style L))"
    "l < FIELD_MAX \<Longrightarrow> ilen_r (lay_style L) ! l = count_lfd (item_r (lay_style L) ! l)"
    "l < FIELD_MAX \<Longrightarrow> ilen_u (lay_style L) ! l = count_lfd (item_u (lay_style L) ! l)"
    "l < FIELD_MAX \<Longrightarrow> ilen_x (lay_style L) ! l = count_lfd (item_x (lay_style L) ! l)"
    "l < FIELD_MAX \<Longrightarrow> one_line (delim_p (lay_style L) ! l)"
    "one_line (delim_n (lay_style L))" "one_line (delim_r (lay_style L))" "one_line (delim_t (lay_style L))"
    "one_line (suffix_2p (lay_style L))" "one_line (suffix_3p (lay_style L))" "one_line (suffix_mp (lay_style L))"
    "one_line (encap_prefix (lay_style L))" "one_line (encap_infix (lay_style L))" "one_line (encap_suffix (lay_style L))"
    "one_line (indent_space (lay_style L))" "one_line (symhead_positive (lay_style L))" "one_line (symhead_negative (lay_style L))"
    "one_line (numhead_positive (lay_style L))" "one_line (numhead_negative (lay_style L))"
    "keeps_lines (l_locale L)"
  using assms by (simp_all add: tidy_def tidy_style_def list_all_iff)

lemma one_line_set: "one_line t \<Longrightarrow> CHR 0x0A \<notin> set t"
  by (induction t) (auto split: if_splits)

lemma one_line_byte: "one_line t \<Longrightarrow> byte_at t i \<noteq> CHR 0x0A"
  using one_line_set [of t] by (cases "i < length t") (auto simp: byte_at_def dest: nth_mem [of i t])

lemma of_char_mod: "(of_char c :: nat) mod 256 = of_char c"
  using nat_of_char_less_256 [of c] by simp

lemma case_not_lfd: "c \<noteq> CHR 0x0A \<Longrightarrow> to_ascii_lowercase c \<noteq> CHR 0x0A" "c \<noteq> CHR 0x0A \<Longrightarrow> to_ascii_uppercase c \<noteq> CHR 0x0A"
proof -
  have "(of_char (char_of n) :: nat) = n mod 256" for n by (rule of_char_of)
  have up: "is_ascii_uppercase c \<Longrightarrow> of_char c \<ge> (65 :: nat) \<and> of_char c \<le> (90 :: nat)"
    and low: "is_ascii_lowercase c \<Longrightarrow> of_char c \<ge> (97 :: nat) \<and> of_char c \<le> (122 :: nat)"
    by (simp_all add: is_ascii_uppercase_def is_ascii_lowercase_def less_eq_char_def)
  have ten: "(of_char (CHR 0x0A) :: nat) = 10" by simp
  show "c \<noteq> CHR 0x0A \<Longrightarrow> to_ascii_lowercase c \<noteq> CHR 0x0A"
  proof (cases "is_ascii_uppercase c")
    case True
    then have "(of_char (to_ascii_lowercase c) :: nat) = (of_char c + 32) mod 256"
      by (simp add: to_ascii_lowercase_def)
    then show ?thesis using up [OF True] ten by fastforce
  qed (simp add: to_ascii_lowercase_def)
  show "c \<noteq> CHR 0x0A \<Longrightarrow> to_ascii_uppercase c \<noteq> CHR 0x0A"
  proof (cases "is_ascii_lowercase c")
    case True
    then have "(of_char (to_ascii_uppercase c) :: nat) = (of_char c - 32) mod 256"
      by (simp add: to_ascii_uppercase_def)
    then show ?thesis using low [OF True] ten by fastforce
  qed (simp add: to_ascii_uppercase_def)
qed

subsection \<open>The invariant\<close>

definition indices :: "nat \<Rightarrow> gen \<Rightarrow> bool" where
  "indices n g \<longleftrightarrow> pred_option (\<lambda>c. c < n) (g_curr g) \<and> pred_option (\<lambda>c. c < n) (g_prev g) \<and>
     g_begin g < n \<and> the_end g < n \<and> range_ptr g < n"

text \<open>The line ends in the texts to come are none; those of the line count once it is written.\<close>

definition quiet :: "gen \<Rightarrow> bool" where
  "quiet g \<longleftrightarrow> one_line (g_encap g) \<and> pred_option one_line (prev_encap g)"

definition pending :: "bool \<Rightarrow> nat \<Rightarrow> gen \<Rightarrow> bool" where
  "pending t n g \<longleftrightarrow> indices n g \<and> (t \<longrightarrow> quiet g \<and> g_lc g = count_lfd (g_out g) + count_lfd (g_line g))"

definition flushed :: "bool \<Rightarrow> nat \<Rightarrow> gen \<Rightarrow> bool" where
  "flushed t n g \<longleftrightarrow> indices n g \<and> (t \<longrightarrow> quiet g \<and> g_lc g = count_lfd (g_out g))"

lemmas gen_simps = pending_def flushed_def indices_def quiet_def put_def putln_def add_lines_def

lemma entry_at_some [simp]: "i < length es \<Longrightarrow> entry_at es i = Some (es ! i)"
  by (simp add: entry_at_def)

lemma curr_some: "indices (length es) g \<Longrightarrow> g_curr g = Some c \<Longrightarrow> curr_entry es g = Some (es ! c) \<and> c < length es"
  by (simp add: curr_entry_def indices_def)

lemma prev_some:
  "indices (length es) g \<Longrightarrow> g_curr g = Some c \<Longrightarrow> \<exists>p < length es. prev_entry es g = Some (es ! p)"
  by (cases "g_prev g") (auto simp: prev_entry_def indices_def)

lemma warn_some:
  assumes "indices (length es) g" "g_curr g = Some c"
  shows "\<exists>log ec. warn L es msg g = Some (g\<lparr>g_log := log, g_ec := ec\<rparr>)"
  using curr_some [OF assms] by (auto simp: warn_def Let_def)

lemma warn_ok:
  assumes "pending t (length es) g" "g_curr g = Some c"
  shows "\<exists>g'. warn L es msg g = Some g' \<and> pending t (length es) g' \<and> g_curr g' = g_curr g \<and>
    in_range g' = in_range g \<and> g_level g' = g_level g \<and> prev_level g' = prev_level g"
  using warn_some [of es g c L msg] assms by (fastforce simp: gen_simps)

lemma flushed_warn:
  assumes "flushed t (length es) g" "g_curr g = Some c"
  shows "\<exists>g'. warn L es msg g = Some g' \<and> flushed t (length es) g' \<and> g_curr g' = g_curr g"
  using warn_some [of es g c L msg] assms by (fastforce simp: gen_simps)

subsection \<open>Lines\<close>

lemma wrap_line_fields [simp]:
  "g_curr (wrap_line st b g) = g_curr g" "g_prev (wrap_line st b g) = g_prev g" "g_begin (wrap_line st b g) = g_begin g"
  "the_end (wrap_line st b g) = the_end g" "range_ptr (wrap_line st b g) = range_ptr g"
  "g_encap (wrap_line st b g) = g_encap g" "prev_encap (wrap_line st b g) = prev_encap g"
  "in_range (wrap_line st b g) = in_range g" "g_level (wrap_line st b g) = g_level g" "prev_level (wrap_line st b g) = prev_level g"
  by (auto simp: wrap_line_def Let_def put_def putln_def)

lemma wrap_print:
  assumes "pending t n g" "t \<longrightarrow> one_line (indent_space st) \<and> one_line (g_buff g)"
  shows "flushed t n (wrap_line st True g)"
  using assms by (auto simp: gen_simps wrap_line_def Let_def)

lemma wrap_keep:
  assumes "pending t n g" "t \<longrightarrow> one_line (indent_space st) \<and> one_line (delim_n st) \<and> one_line (g_buff g)"
  shows "pending t n (wrap_line st False g)"
  using assms by (auto simp: gen_simps wrap_line_def Let_def)

lemma page_text_line:
  assumes "tidy L es" "a < length es" "b < length es"
  shows "one_line (page_text (lay_style L) f (es ! a) (es ! b) e)"
  using tidy_entryD(1) [OF assms(1)] assms(2,3) tidy_styleD [OF assms(1)] by (simp add: page_text_def Let_def)

text \<open>What \<open>flush_line\<close> prints: the pages since \<open>begin\<close>, in the encapsulator if there is one.\<close>

definition flush_buff :: "layout \<Rightarrow> entry list \<Rightarrow> gen \<Rightarrow> entry \<Rightarrow> bytes" where
  "flush_buff L es g prev =
     (let st = lay_style L; pages = page_text st (encap_range g) (es ! g_begin g) (es ! the_end g) prev
      in case prev_encap g of
           Some e \<Rightarrow> if e \<noteq> [] then encap_prefix st @ e @ encap_infix st @ pages @ encap_suffix st else pages
         | None \<Rightarrow> pages)"

lemma no_encap_range: "\<not> encap_range g \<Longrightarrow> g\<lparr>encap_range := False\<rparr> = g"
  by simp

lemma flush_line_eq:
  assumes "g_begin g < length es" "the_end g < length es" "prev_entry es g = Some prev"
  shows "flush_line L es b g = Some (wrap_line (lay_style L) b (g\<lparr>encap_range := False, g_buff := flush_buff L es g prev\<rparr>))"
proof -
  have eq: "(if page_diff (es ! g_begin g) (es ! the_end g) \<noteq> 0 \<and> \<not> (encap_range g \<or> page_diff (es ! g_begin g) prev > threshold)
      then g else g\<lparr>encap_range := False\<rparr>) = g\<lparr>encap_range := False\<rparr>" for threshold
    using no_encap_range [of g] by (simp split: if_split)
  show ?thesis
    unfolding flush_line_def flush_buff_def Let_def assms(3) entry_at_some [OF assms(1)] entry_at_some [OF assms(2)]
      bind.bind_lunit eq by simp
qed

lemma flush_ok:
  assumes g: "pending t (length es) g" "g_curr g = Some c" and tidy: "t \<longrightarrow> tidy L es"
  shows "\<exists>g'. flush_line L es b g = Some g' \<and> (if b then flushed t (length es) g' else pending t (length es) g') \<and>
    g_curr g' = g_curr g \<and> g_prev g' = g_prev g \<and> in_range g' = in_range g \<and> g_encap g' = g_encap g \<and>
    g_level g' = g_level g \<and> prev_level g' = prev_level g"
proof -
  have i: "indices (length es) g" using g(1) by (simp add: pending_def)
  obtain p where p: "p < length es" "prev_entry es g = Some (es ! p)" using prev_some [OF i g(2)] by blast
  have n: "g_begin g < length es" "the_end g < length es" using i by (simp_all add: indices_def)
  define g1 where "g1 = g\<lparr>encap_range := False, g_buff := flush_buff L es g (es ! p)\<rparr>"
  have buff: "one_line (g_buff g1)" if t
  proof -
    have T: "tidy L es" using tidy that by simp
    have "pred_option one_line (prev_encap g)" using g(1) that by (simp add: pending_def quiet_def)
    moreover have "one_line (page_text (lay_style L) (encap_range g) (es ! g_begin g) (es ! the_end g) (es ! p))"
      by (rule page_text_line [OF T n])
    ultimately show ?thesis using tidy_styleD [OF T] by (auto simp: g1_def flush_buff_def Let_def split: option.splits)
  qed
  have "pending t (length es) g1" using g(1) by (simp add: g1_def gen_simps)
  moreover have "flush_line L es b g = Some (wrap_line (lay_style L) b g1)"
    unfolding g1_def by (rule flush_line_eq [OF n p(2)])
  ultimately show ?thesis
    using wrap_print [of t "length es" g1 "lay_style L"] wrap_keep [of t "length es" g1 "lay_style L"] buff tidy
      tidy_styleD(11,20) [of L es]
    by (cases b) (auto simp: g1_def)
qed

subsection \<open>Items, headings, entries\<close>

lemma item_levels_ok:
  assumes T: "t \<longrightarrow> tidy L es" and c: "c < length es"
  shows "pending t n g \<Longrightarrow> list_all (\<lambda>i. i < FIELD_MAX) is \<Longrightarrow> g_level g < FIELD_MAX \<Longrightarrow>
    pending t n (item_levels (lay_style L) (es ! c) is g) \<and> g_level (item_levels (lay_style L) (es ! c) is g) < FIELD_MAX \<and>
    g_curr (item_levels (lay_style L) (es ! c) is g) = g_curr g \<and> in_range (item_levels (lay_style L) (es ! c) is g) = in_range g"
proof (induction "is" arbitrary: g)
  case (Cons i "is")
  have "t \<longrightarrow> one_line (shown (es ! c) i)"
    using T tidy_entryD(3,4) [OF _ c, of L i] Cons.prems(2) by (auto simp: shown_def)
  moreover have "t \<longrightarrow> ilen_x (lay_style L) ! i = count_lfd (item_x (lay_style L) ! i)"
    using T tidy_styleD(9) [of L es i] Cons.prems(2) by auto
  ultimately have "pending t n ((put (g_line g) g)\<lparr>g_line := item_x (lay_style L) ! i @ shown (es ! c) i,
      g_lc := g_lc g + ilen_x (lay_style L) ! i, g_level := i\<rparr>)"
    using Cons.prems(1) by (auto simp: gen_simps)
  from Cons.IH [OF this] Cons.prems show ?case by (auto simp: put_def)
qed simp

lemma make_item_ok:
  assumes g: "flushed t (length es) g" "g_curr g = Some c" "g_level g < FIELD_MAX"
    and T: "t \<longrightarrow> tidy L es \<and> one_line term"
  shows "\<exists>g'. make_item L es term g = Some g' \<and> pending t (length es) g' \<and> g_curr g' = g_curr g \<and>
    in_range g' = in_range g"
proof -
  have c: "c < length es" "curr_entry es g = Some (es ! c)"
    using curr_some [of es g c] g by (simp_all add: flushed_def)
  define item lines where "item = (if g_level g > prev_level g then item_u (lay_style L) ! g_level g else item_r (lay_style L) ! g_level g)"
    and "lines = (if g_level g > prev_level g then ilen_u (lay_style L) ! g_level g else ilen_r (lay_style L) ! g_level g)"
  define g1 where "g1 = g\<lparr>g_line := term @ item @ shown (es ! c) (g_level g), g_lc := g_lc g + lines\<rparr>"
  have "t \<longrightarrow> one_line (shown (es ! c) (g_level g)) \<and> lines = count_lfd item"
    using T tidy_entryD(3,4) [OF _ c(1), of L "g_level g"] g(3) tidy_styleD(7,8) [of L es "g_level g"]
    by (auto simp: shown_def lines_def item_def)
  then have "pending t (length es) g1" using g(1) T by (auto simp: g1_def gen_simps)
  then have g2: "pending t (length es) (item_levels (lay_style L) (es ! c) [g_level g + 1..<FIELD_MAX] g1)"
    "g_level (item_levels (lay_style L) (es ! c) [g_level g + 1..<FIELD_MAX] g1) < FIELD_MAX"
    "g_curr (item_levels (lay_style L) (es ! c) [g_level g + 1..<FIELD_MAX] g1) = Some c"
    "in_range (item_levels (lay_style L) (es ! c) [g_level g + 1..<FIELD_MAX] g1) = in_range g"
    using item_levels_ok [of t L es c "length es" g1] T c(1) g by (auto simp: g1_def list_all_iff)
  define g2 where "g2 = item_levels (lay_style L) (es ! c) [g_level g + 1..<FIELD_MAX] g1"
  have "make_item L es term g = save (g2\<lparr>g_indent := 0, g_line := g_line g2 @ delim_p (lay_style L) ! g_level g2\<rparr>)"
    using c(2) g(3) unfolding make_item_def g2_def g1_def item_def lines_def by (simp add: Let_def)
  then show ?thesis
    using g2 [folded g2_def] g c(1) T tidy_styleD(10) [of L es "g_level g2"]
    by (auto simp: save_def gen_simps)
qed

lemma locale_not_lfd:
  assumes "keeps_lines loc" "loc = Some l" "c \<noteq> CHR 0x0A"
  shows "lc_lower l c \<noteq> CHR 0x0A" "lc_upper l c \<noteq> CHR 0x0A"
proof -
  have "c = char_of (of_char c :: nat)" "(of_char c :: nat) < 256" by simp_all
  then have "c \<in> set (map char_of [0..<256 :: nat])" using image_eqI [of c char_of "of_char c :: nat" "{0..<256}"] by simp
  then show "lc_lower l c \<noteq> CHR 0x0A" "lc_upper l c \<noteq> CHR 0x0A"
    using assms by (auto simp: keeps_lines_def list_all_iff)
qed

lemma put_header_ok:
  assumes g: "flushed t (length es) g" "g_curr g = Some c" and T: "t \<longrightarrow> tidy L es \<and> letter \<noteq> CHR 0x0A"
  shows "\<exists>g'. put_header L es letter b g = Some g' \<and> flushed t (length es) g' \<and> g_curr g' = g_curr g \<and>
    in_range g' = in_range g \<and> g_level g' = g_level g \<and> prev_level g' = prev_level g"
proof (cases "headings_flag (lay_style L) = 0")
  case False
  have c: "curr_entry es (add_lines (headprelen (lay_style L)) (put (heading_prefix (lay_style L)) g)) = Some (es ! c)"
    using curr_some [of es g c] g by (simp add: flushed_def curr_entry_def add_lines_def put_def)
  define shown_letter where "shown_letter = (case (if b then l_locale L else None) of
      Some l \<Rightarrow> if headings_flag (lay_style L) > 0 then lc_upper l letter else lc_lower l letter
    | None \<Rightarrow> if headings_flag (lay_style L) > 0 then to_ascii_uppercase letter else to_ascii_lowercase letter)"
  have l: "t \<longrightarrow> shown_letter \<noteq> CHR 0x0A"
    using T case_not_lfd locale_not_lfd [OF tidy_styleD(25) [of L es]] by (auto simp: shown_letter_def split: option.split)
  show ?thesis
  proof (cases t)
    case True
    then show ?thesis
      using False c g(1) T l tidy_styleD [of L es] by (auto simp: put_header_def Let_def gen_simps simp flip: shown_letter_def)
  next
    case nt: False
    then show ?thesis using False c g(1) by (auto simp: put_header_def Let_def gen_simps simp flip: shown_letter_def)
  qed
qed (use g in \<open>simp add: put_header_def\<close>)

lemma new_entry_ok:
  assumes g: "pending t (length es) g" "g_curr g = Some c" "g_level g < FIELD_MAX" and T: "t \<longrightarrow> tidy L es"
  shows "\<exists>g'. new_entry L es g = Some g' \<and> pending t (length es) g' \<and> g_curr g' = g_curr g"
proof -
  define unrange where "unrange = (if in_range g then do {
          let current = g_curr g;
          g \<leftarrow> warn L es (unmatched_open (lay_style L)) (g\<lparr>g_curr := Some (range_ptr g)\<rparr>);
          Some (g\<lparr>in_range := False, g_curr := current\<rparr>)
        } else Some g)"
  have "\<exists>g1. unrange = Some g1 \<and> pending t (length es) g1 \<and> g_curr g1 = Some c \<and> g_level g1 = g_level g"
  proof (cases "in_range g")
    case True
    have "indices (length es) (g\<lparr>g_curr := Some (range_ptr g)\<rparr>)" using g(1) by (simp add: gen_simps)
    from warn_some [OF this, of "range_ptr g" L "unmatched_open (lay_style L)"] obtain log ec where
      "warn L es (unmatched_open (lay_style L)) (g\<lparr>g_curr := Some (range_ptr g)\<rparr>) =
        Some (g\<lparr>g_curr := Some (range_ptr g), g_log := log, g_ec := ec\<rparr>)" by auto
    then show ?thesis using True g by (auto simp: unrange_def gen_simps)
  qed (use g in \<open>simp add: unrange_def\<close>)
  then obtain g1 where 1: "unrange = Some g1" "pending t (length es) g1" "g_curr g1 = Some c" "g_level g1 = g_level g" by blast
  obtain g2 where 2: "flush_line L es True g1 = Some g2" "flushed t (length es) g2" "g_curr g2 = Some c" "g_level g2 = g_level g"
    using flush_ok [OF 1(2,3) T, of True] 1 by auto
  obtain p where p: "p < length es" "prev_entry es g2 = Some (es ! p)"
    using prev_some [of es g2 c] 2 by (auto simp: flushed_def)
  have c: "c < length es" "curr_entry es g2 = Some (es ! c)" using curr_some [of es g2 c] 2 by (simp_all add: flushed_def)
  define letter where "letter = (if e_group (es ! c) = ALPHA then Some (first_letter L (sf (es ! c) ! 0)) else None)"
  define new_group where "new_group = ((e_group (es ! c) \<noteq> ALPHA \<and> e_group (es ! c) \<noteq> e_group (es ! p) \<and> e_group (es ! p) = SYMBOL)
       \<or> (e_group (es ! c) = ALPHA \<and> letter \<noteq> Some (first_letter L (sf (es ! p) ! 0)))
       \<or> (l_german_sort L \<and> e_group (es ! c) \<noteq> ALPHA \<and> e_group (es ! p) = ALPHA))"
  define g3 where "g3 = add_lines (skiplen (lay_style L)) (put (group_skip (lay_style L)) (put (delim_t (lay_style L)) g2))"
  have eq: "new_entry L es g = (if new_group then
      Option.bind (put_header L es (case letter of Some c \<Rightarrow> c | None \<Rightarrow> CHR 0xFF) True g3) (make_item L es [])
    else make_item L es (delim_t (lay_style L)) g2)"
    unfolding new_entry_def Let_def unrange_def [unfolded Let_def, symmetric] 1(1) bind.bind_lunit 2(1) c(2) p(2)
      letter_def new_group_def g3_def by (simp cong: if_cong)
  have g3: "flushed t (length es) g3" "g_curr g3 = Some c" "g_level g3 = g_level g"
    using 2 T tidy_styleD(4,13) [of L es] by (auto simp: g3_def gen_simps)
  have letter: "t \<longrightarrow> (case letter of Some c \<Rightarrow> c | None \<Rightarrow> CHR 0xFF) \<noteq> CHR 0x0A"
  proof
    assume t
    then have T: "tidy L es" using T by simp
    have "one_line (sf (es ! c) ! 0)" using tidy_entryD(3) [OF T c(1)] by (simp add: FIELD_MAX_def)
    then have "first_letter L (sf (es ! c) ! 0) \<noteq> CHR 0x0A"
      using one_line_byte case_not_lfd locale_not_lfd [OF tidy_styleD(25) [OF T]]
      by (simp add: first_letter_def Let_def split: option.split)
    then show "(case letter of Some c \<Rightarrow> c | None \<Rightarrow> CHR 0xFF) \<noteq> CHR 0x0A" by (simp add: letter_def)
  qed
  show ?thesis
  proof (cases new_group)
    case True
    have hd: "t \<longrightarrow> tidy L es \<and> (case letter of Some c \<Rightarrow> c | None \<Rightarrow> CHR 0xFF) \<noteq> CHR 0x0A" using T letter by blast
    obtain g4 where "put_header L es (case letter of Some c \<Rightarrow> c | None \<Rightarrow> CHR 0xFF) True g3 = Some g4"
      "flushed t (length es) g4" "g_curr g4 = g_curr g3" "g_level g4 = g_level g3"
      using put_header_ok [OF g3(1,2) hd, of True] by blast
    then have g4: "put_header L es (case letter of Some c \<Rightarrow> c | None \<Rightarrow> CHR 0xFF) True g3 = Some g4"
      "flushed t (length es) g4" "g_curr g4 = Some c" "g_level g4 = g_level g" using g3 by simp_all
    then show ?thesis
      unfolding eq using True make_item_ok [OF g4(2,3), of L "[]"] g(2,3) T by auto
  next
    case False
    then show ?thesis
      unfolding eq using make_item_ok [OF 2(2,3), of L "delim_t (lay_style L)"] g(2,3) 2(3,4) T tidy_styleD(13) [of L es]
      by (cases t) auto
  qed
qed

lemma save_ok:
  assumes "pending t n g" "g_curr g = Some c"
  shows "\<exists>g'. save g = Some g' \<and> pending t n g' \<and> g_curr g' = g_curr g"
  using assms by (auto simp: save_def gen_simps)

lemma old_entry_ok:
  assumes g: "pending t (length es) g" "g_curr g = Some c" and T: "t \<longrightarrow> tidy L es"
  shows "\<exists>g'. old_entry L es g = Some g' \<and> pending t (length es) g' \<and> g_curr g' = g_curr g"
proof -
  have i: "indices (length es) g" using g(1) by (simp add: pending_def)
  obtain p where p: "prev_entry es g = Some (es ! p)" using prev_some [OF i g(2)] by blast
  have n: "the_end g < length es" "c < length es" using i g(2) by (simp_all add: indices_def)
  define g2 where "g2 = g\<lparr>the_end := c\<rparr>"
  define g3 where "g3 = (if in_range g2 \<and> byte_at (e_encap (es ! c)) 0 \<noteq> CHR 0x00 \<and>
      byte_at (e_encap (es ! c)) 0 \<noteq> range_close (lay_style L) \<and> prev_encap g2 \<noteq> Some (e_encap (es ! c)) then
        wrap_line (lay_style L) False (g2\<lparr>g_buff := encap_prefix (lay_style L) @ e_encap (es ! c) @ encap_infix (lay_style L)
          @ e_lpg (es ! c) @ encap_suffix (lay_style L)\<rparr>)
      else g2)"
  define g4 where "g4 = (if in_range g3 then g3\<lparr>encap_range := True\<rparr> else g3)"
  have p2: "pending t (length es) g2" "g_curr g2 = Some c" using g n(2) by (simp_all add: g2_def gen_simps)
  have "pending t (length es) (wrap_line (lay_style L) False (g2\<lparr>g_buff := encap_prefix (lay_style L) @ e_encap (es ! c)
      @ encap_infix (lay_style L) @ e_lpg (es ! c) @ encap_suffix (lay_style L)\<rparr>))"
    by (rule wrap_keep) (use p2(1) T n(2) tidy_entryD(1,2) [of L es c] tidy_styleD(11,17,18,19,20) [of L es] in \<open>auto simp: gen_simps\<close>)
  then have p3: "pending t (length es) g3 \<and> g_curr g3 = Some c" using p2 by (simp add: g3_def)
  then have p4: "pending t (length es) g4 \<and> g_curr g4 = Some c" using n by (simp add: g4_def gen_simps)
  obtain g1 where 1: "flush_line L es False g = Some g1" "pending t (length es) g1" "g_curr g1 = Some c"
    using flush_ok [OF g T, of False] g(2) by auto
  define merges where "merges = (e_ty (es ! p) = e_ty (es ! c) \<and> page_diff (es ! the_end g) (es ! c) \<noteq> - 1 \<and>
         ((page_diff (es ! the_end g) (es ! c) = 0 \<and> prev_encap g = Some (g_encap g)) \<or>
          (merge_page L \<and> page_diff (es ! the_end g) (es ! c) = 1 \<and> prev_encap g = Some (g_encap g)) \<or> in_range g))"
  obtain b1 b2 b3 m1 m2 m3 where eq: "old_entry L es g = (if merges then Some g4
    else Option.bind (if b1 then warn L es m1 g1 else if b2 then warn L es m2 g1 else if b3 then warn L es m3 g1 else Some g1) save)"
    unfolding old_entry_def Let_def p g(2) bind.bind_lunit entry_at_some [OF n(1)] entry_at_some [OF n(2)] 1(1)
      merges_def g4_def g3_def g2_def by blast
  have "\<exists>g'. Option.bind (warn L es m g1) save = Some g' \<and> pending t (length es) g' \<and> g_curr g' = Some c" for m
    using warn_ok [OF 1(2,3), of L m] save_ok 1(3) by fastforce
  then show ?thesis using save_ok [OF 1(2,3)] 1(3) g(2) p4 unfolding eq by auto
qed

lemma range_check_ok:
  assumes g: "pending t (length es) g" "g_curr g = Some c" "n < length es"
    and nul: "range_close (lay_style L) \<noteq> CHR 0x00"
  shows "\<exists>g'. range_check L es n encap g = Some g' \<and> pending t (length es) g' \<and> g_curr g' = g_curr g"
proof -
  have w: "\<exists>g'. warn L es m g = Some g' \<and> pending t (length es) g' \<and> g_curr g' = g_curr g" for m
    using warn_ok [OF g(1,2), of L m] by blast
  have "pending t (length es) (g\<lparr>in_range := False\<rparr>)" using g(1) by (simp add: gen_simps)
  then have w2: "\<exists>g'. warn L es m (g\<lparr>in_range := False\<rparr>) = Some g' \<and> pending t (length es) g' \<and> g_curr g' = g_curr g" for m
    using warn_ok [of t es "g\<lparr>in_range := False\<rparr>" c L m] g(2) by auto
  have ne: "byte_at encap 0 = range_close (lay_style L) \<Longrightarrow> encap \<noteq> []" using nul by auto
  have "pending t (length es) (g\<lparr>in_range := True, range_ptr := n\<rparr>)" using g(1,3) by (simp add: gen_simps)
  note opened = this \<open>pending t (length es) (g\<lparr>in_range := False\<rparr>)\<close>
  consider "byte_at encap 0 = range_open (lay_style L)"
    | "byte_at encap 0 \<noteq> range_open (lay_style L)" "byte_at encap 0 = range_close (lay_style L)"
    | "byte_at encap 0 \<noteq> range_open (lay_style L)" "byte_at encap 0 \<noteq> range_close (lay_style L)" by blast
  then show ?thesis
  proof cases
    case 1
    then show ?thesis using w g(1) opened by (cases "in_range g") (simp_all add: range_check_def)
  next
    case 2
    obtain m1 m2 b where "range_check L es n encap g =
        (if in_range g then if b then warn L es m1 (g\<lparr>in_range := False\<rparr>) else Some (g\<lparr>in_range := False\<rparr>) else warn L es m2 g)"
      unfolding range_check_def Let_def if_not_P [OF 2(1)] if_P [OF 2(2)] if_not_P [OF ne [OF 2(2)]] by blast
    then show ?thesis using w [of m2] w2 [of m1] opened(2) by auto
  next
    case 3
    then show ?thesis using w g(1) by (simp add: range_check_def)
  qed
qed

lemma strip_range_some:
  assumes "range_open st \<noteq> CHR 0x00" "range_close st \<noteq> CHR 0x00"
  shows "\<exists>e. strip_range st encap = Some e \<and> (one_line encap \<longrightarrow> one_line e)"
  using assms by (cases encap) (auto simp: strip_range_def Let_def byte_at_def)

lemma diff_level_bound: "diff_level a b \<le> FIELD_MAX"
  by (auto simp: diff_level_def find_Some_iff split: option.splits)

lemma make_entry_ok:
  assumes g: "pending t (length es) g" "n < length es" "g_curr g = None \<longrightarrow> g_line g = []" and T: "t \<longrightarrow> tidy L es"
    and nul: "range_open (lay_style L) \<noteq> CHR 0x00" "range_close (lay_style L) \<noteq> CHR 0x00"
  shows "\<exists>g'. make_entry L es n g = Some g' \<and> pending t (length es) g' \<and> g_curr g' = Some n"
proof -
  obtain e where e: "strip_range (lay_style L) (e_encap (es ! n)) = Some e" "one_line (e_encap (es ! n)) \<longrightarrow> one_line e"
    using strip_range_some [OF nul] by blast
  define g1 where "g1 = g\<lparr>g_prev := g_curr g, g_curr := Some n, g_encap := e\<rparr>"
  have g1: "pending t (length es) g1" "g_curr g1 = Some n"
    using g T e(2) tidy_entryD(2) [of L es n] by (auto simp: g1_def gen_simps)
  define middle where "middle = (if g_curr g = None then
      Option.bind (put_header L es (byte_at (sf (es ! n) ! 0) 0) False (g1\<lparr>prev_level := 0, g_level := 0\<rparr>)) (make_item L es [])
    else do {
      let g = g1\<lparr>prev_level := g_level g1\<rparr>;
      curr \<leftarrow> curr_entry es g;
      prev \<leftarrow> prev_entry es g;
      let g = g\<lparr>g_level := diff_level curr prev\<rparr>;
      (if diff_level curr prev < FIELD_MAX then new_entry L es g
       else if \<not> (byte_at (e_encap (es ! n)) 0 = range_open (lay_style L) \<and> in_range g) then old_entry L es g
       else Some g)
    })"
  have eq: "make_entry L es n g = Option.bind middle (range_check L es n (e_encap (es ! n)))"
    unfolding make_entry_def middle_def g1_def Let_def using g(2) e(1) by (cases "g_curr g") simp_all
  have "\<exists>g'. middle = Some g' \<and> pending t (length es) g' \<and> g_curr g' = Some n"
  proof (cases "g_curr g")
    case None
    have "flushed t (length es) (g1\<lparr>prev_level := 0, g_level := 0\<rparr>)"
      using g1 g(3) None by (auto simp: g1_def gen_simps)
    moreover have "t \<longrightarrow> byte_at (sf (es ! n) ! 0) 0 \<noteq> CHR 0x0A"
      using T tidy_entryD(3) [of L es n 0] g(2) one_line_byte by (auto simp: FIELD_MAX_def)
    ultimately obtain g2 where "put_header L es (byte_at (sf (es ! n) ! 0) 0) False (g1\<lparr>prev_level := 0, g_level := 0\<rparr>) = Some g2"
      "flushed t (length es) g2" "g_curr g2 = g_curr (g1\<lparr>prev_level := 0, g_level := 0\<rparr>)"
      "g_level g2 = g_level (g1\<lparr>prev_level := 0, g_level := 0\<rparr>)"
      using put_header_ok [of t es "g1\<lparr>prev_level := 0, g_level := 0\<rparr>" n L "byte_at (sf (es ! n) ! 0) 0" False] g1(2) T
      by fastforce
    then have g2: "put_header L es (byte_at (sf (es ! n) ! 0) 0) False (g1\<lparr>prev_level := 0, g_level := 0\<rparr>) = Some g2"
      "flushed t (length es) g2" "g_curr g2 = Some n" "g_level g2 = 0" using g1(2) by simp_all
    then show ?thesis using make_item_ok [OF g2(2,3), of L "[]"] T None by (auto simp: middle_def FIELD_MAX_def)
  next
    case (Some c)
    define g2 where "g2 = g1\<lparr>prev_level := g_level g1\<rparr>"
    have g2: "pending t (length es) g2" "g_curr g2 = Some n" using g1 by (auto simp: g2_def gen_simps)
    obtain p where p: "prev_entry es g2 = Some (es ! p)" using prev_some [of es g2 n] g2 by (auto simp: pending_def)
    have c: "curr_entry es g2 = Some (es ! n)" using curr_some [of es g2 n] g2 by (simp add: pending_def)
    have "pending t (length es) (g2\<lparr>g_level := diff_level (es ! n) (es ! p)\<rparr>)" using g2 by (simp add: gen_simps)
    then show ?thesis
      using new_entry_ok [of t es "g2\<lparr>g_level := diff_level (es ! n) (es ! p)\<rparr>" n L]
        old_entry_ok [of t es "g2\<lparr>g_level := diff_level (es ! n) (es ! p)\<rparr>" n L] T g2(2) Some
      unfolding middle_def g2_def [symmetric] Let_def c p bind.bind_lunit by auto
  qed
  then show ?thesis unfolding eq using range_check_ok [OF _ _ g(2) nul(2)] by fastforce
qed

lemma make_entries_ok:
  assumes T: "t \<longrightarrow> tidy L es" and nul: "range_open (lay_style L) \<noteq> CHR 0x00" "range_close (lay_style L) \<noteq> CHR 0x00"
  shows "pending t (length es) g \<Longrightarrow> \<forall>n \<in> set ns. n < length es \<Longrightarrow> g_curr g = None \<longrightarrow> g_line g = [] \<Longrightarrow>
    \<exists>g'. make_entries L es ns g = Some g' \<and> pending t (length es) g' \<and> (g_curr g' = None \<longrightarrow> g_line g' = [])"
proof (induction ns arbitrary: g)
  case (Cons n ns)
  show ?case
  proof (cases "e_ty (es ! n) \<noteq> DUPLICATE")
    case True
    obtain g1 where g1: "make_entry L es n g = Some g1" "pending t (length es) g1" "g_curr g1 = Some n"
      using make_entry_ok [OF Cons.prems(1) _ Cons.prems(3) T nul, of n] Cons.prems(2) by auto
    have "pending t (length es) (g1\<lparr>g_log := dot DOT_MAX (g_log g1)\<rparr>)" using g1(2) by (simp add: gen_simps)
    from Cons.IH [OF this] Cons.prems(2) g1 True show ?thesis by auto
  qed (use Cons in simp)
qed auto

subsection \<open>The whole run\<close>

lemma gen_run_ok:
  assumes nul: "range_open (lay_style L) \<noteq> CHR 0x00" "range_close (lay_style L) \<noteq> CHR 0x00" and T: "t \<longrightarrow> tidy L es"
  shows "\<exists>g w. gen_run L es (gen_init log) = Some (g\<lparr>g_log := message (''done ('' @ dec_nat (g_lc g + postlen (lay_style L)) @ w) (g_log g)\<rparr>) \<and>
    (t \<longrightarrow> g_lc g + postlen (lay_style L) = count_lfd (g_out g))"
proof -
  let ?st = "lay_style L"
  define g0 where "g0 = (case start_page L of
         Some page \<Rightarrow> add_lines (setpagelen ?st) (put (setpage_suffix ?st) (put page (put (setpage_prefix ?st) (add_lines (prelen ?st) (put (preamble ?st)
            ((gen_init log)\<lparr>g_log := message (''Generating output file '' @ output_name L @ ''...'') (g_log (gen_init log))\<rparr>))))))
       | None \<Rightarrow> add_lines (prelen ?st) (put (preamble ?st)
            ((gen_init log)\<lparr>g_log := message (''Generating output file '' @ output_name L @ ''...'') (g_log (gen_init log))\<rparr>)))"
  define g1 where "g1 = g0\<lparr>g_log := (g_log g0)\<lparr>idx_dc := 0\<rparr>\<rparr>"
  have count1: "t \<longrightarrow> g_lc g1 = count_lfd (g_out g1)" and line1: "g_line g1 = []" "g_curr g1 = None"
    using T by (auto simp: g1_def g0_def gen_init_def put_def add_lines_def tidy_def tidy_style_def split: option.splits)
  have pend1: "es \<noteq> [] \<Longrightarrow> pending t (length es) g1"
    using T by (auto simp: g1_def g0_def gen_init_def gen_simps tidy_def tidy_style_def split: option.splits)
  obtain g2 where g2: "make_entries L es [0..<length es] g1 = Some g2" "es \<noteq> [] \<longrightarrow> pending t (length es) g2"
    "es = [] \<longrightarrow> g2 = g1" "g_curr g2 = None \<longrightarrow> g_line g2 = []"
  proof (cases "es = []")
    case True
    then show ?thesis using that [of g1] line1 by simp
  next
    case False
    then show ?thesis using make_entries_ok [OF T nul pend1, of "[0..<length es]"] line1 that by auto
  qed
  define close where "close = (if g_curr g2 \<noteq> None then do {
          g \<leftarrow> (if in_range g2 then warn L es (unmatched_open ?st) (g2\<lparr>g_curr := Some (range_ptr g2)\<rparr>) else Some g2);
          flush_line L es True (g\<lparr>g_prev := g_curr g\<rparr>)
        } else Some g2)"
  have "\<exists>g3. close = Some g3 \<and> (t \<longrightarrow> g_lc g3 = count_lfd (g_out g3))"
  proof (cases "g_curr g2")
    case None
    then show ?thesis using g2 count1 by (cases "es = []") (auto simp: close_def gen_simps)
  next
    case (Some c)
    then have "es \<noteq> []" using g2(3) line1 by auto
    then have p2: "pending t (length es) g2" using g2(2) by blast
    have "\<exists>g4 d. (if in_range g2 then warn L es (unmatched_open ?st) (g2\<lparr>g_curr := Some (range_ptr g2)\<rparr>) else Some g2) = Some g4 \<and>
        pending t (length es) g4 \<and> g_curr g4 = Some d"
    proof (cases "in_range g2")
      case True
      have "pending t (length es) (g2\<lparr>g_curr := Some (range_ptr g2)\<rparr>)" using p2 by (simp add: gen_simps)
      from warn_ok [OF this, of "range_ptr g2" L "unmatched_open ?st"] True show ?thesis by auto
    qed (use p2 Some in auto)
    then obtain g4 d where g4: "(if in_range g2 then warn L es (unmatched_open ?st) (g2\<lparr>g_curr := Some (range_ptr g2)\<rparr>) else Some g2) = Some g4"
      "pending t (length es) g4" "g_curr g4 = Some d" by blast
    have "pending t (length es) (g4\<lparr>g_prev := g_curr g4\<rparr>)" using g4 by (simp add: gen_simps)
    from flush_ok [OF this _ T, of d True] g4(3) obtain g5 where
      "flush_line L es True (g4\<lparr>g_prev := g_curr g4\<rparr>) = Some g5" "flushed t (length es) g5" by auto
    then show ?thesis using Some g4(1) by (auto simp: close_def flushed_def)
  qed
  then obtain g3 where g3: "close = Some g3" "t \<longrightarrow> g_lc g3 = count_lfd (g_out g3)" by blast
  define g6 where "g6 = put (postamble ?st) (put (delim_t ?st) g3)"
  have "t \<longrightarrow> g_lc g6 + postlen ?st = count_lfd (g_out g6)"
    using g3(2) T tidy_styleD(2,13) [of L es] by (auto simp: g6_def put_def)
  moreover obtain w where "gen_run L es (gen_init log) =
      Some (g6\<lparr>g_log := message (''done ('' @ dec_nat (g_lc g6 + postlen ?st) @ w) (g_log g6)\<rparr>)"
    unfolding gen_run_def Let_def g0_def [symmetric] g1_def [symmetric] g2(1) bind.bind_lunit close_def [symmetric] g3(1)
      g6_def [symmetric] by blast
  ultimately show ?thesis by blast
qed

lemma generate_total:
  assumes "range_open (lay_style L) \<noteq> CHR 0x00" "range_close (lay_style L) \<noteq> CHR 0x00"
  shows "\<exists>out log'. generate es L log = Some (out, log')"
  using gen_run_ok [OF assms, of False es log] by (auto simp: generate_def)

text \<open>
  Property C21.  The generator never fails: for any sorted entries and any style whose range operators
  are not NUL, every index it reads is in range and every \<open>expect\<close> succeeds.
\<close>

theorem generate_returns:
  assumes "range_open (lay_style L) \<noteq> CHR 0x00" "range_close (lay_style L) \<noteq> CHR 0x00"
  shows "\<exists>out log'. generate es L log = Some (out, log')"
  by (rule generate_total [OF assms])

text \<open>
  Property C20.  The number of lines the generator reports is exact: the transcript ends with the number of
  line ends of the output - through items, sub-items, headings, page ranges and wrapped lines.  The line
  counts of the style are those of its texts; its delimiters, suffixes, encapsulators and group names, the
  entries' texts and the start page of \<open>-p\<close> have no line ends; the range operators are not NUL; and the case
  conversion of the locale, when there is one, makes no line end of another byte.
\<close>

theorem generate_counts_lines:
  assumes "range_open (lay_style L) \<noteq> CHR 0x00" "range_close (lay_style L) \<noteq> CHR 0x00" "tidy L es"
  shows "\<exists>out log' w. generate es L log =
    Some (out, message (''done ('' @ dec_nat (count_lfd out) @ w) log')"
proof -
  obtain g w where "gen_run L es (gen_init log) =
      Some (g\<lparr>g_log := message (''done ('' @ dec_nat (g_lc g + postlen (lay_style L)) @ w) (g_log g)\<rparr>)"
    "g_lc g + postlen (lay_style L) = count_lfd (g_out g)"
    using gen_run_ok [OF assms(1,2), of True es log] assms(3) by auto
  then have "generate es L log = Some (g_out g, message (''done ('' @ dec_nat (count_lfd (g_out g)) @ w) (g_log g))"
    by (simp add: generate_def)
  then show ?thesis by blast
qed

text \<open>The default style is tidy; an index of one entry.\<close>

definition default_layout :: layout where
  "default_layout = \<lparr>lay_style = style_default, merge_page = True, l_german_sort = False, thai_sort = False,
     start_page = None, input_names = [''a.idx''], output_name = ''a.ind'', l_locale = None\<rparr>"

definition one_entry :: entry where
  "one_entry = \<lparr>sf = [''b'', [], []], af = [[], [], []], e_group = ALPHA, e_lpg = ''4'', e_npg = [4], e_ty = 2,
     e_encap = [], sf_cap = [2, 1, 1], af_cap = [1, 1, 1], encap_cap = 1, e_file = 0, e_lc = 1\<rparr>"

definition quiet_log :: transcript where
  "quiet_log = \<lparr>t_ilg = [], ilg_to_stderr = False, verbose = False, idx_dot = False, idx_dc = 0, stderr = []\<rparr>"

lemma tidy_example: "tidy default_layout [one_entry]"
  by code_simp

lemma default_operators: "range_open (lay_style default_layout) \<noteq> CHR 0x00" "range_close (lay_style default_layout) \<noteq> CHR 0x00"
  by (simp_all add: default_layout_def style_default_def Let_def)

lemma generate_returns_witness: "\<exists>out log'. generate [one_entry, one_entry] default_layout quiet_log = Some (out, log')"
  by (rule generate_returns [OF default_operators])

lemma generate_counts_lines_witness:
  "\<exists>out log' w. generate [one_entry] default_layout quiet_log = Some (out, message (''done ('' @ dec_nat (count_lfd out) @ w) log')"
  by (rule generate_counts_lines [OF default_operators tidy_example])

text \<open>
  A style file may set an operator to NUL (\<open>range_open\<close> followed by a NUL byte between quotes).
  Then every entry without an encapsulator makes the generator slice an empty text.
\<close>

lemma nul_operator_panics:
  assumes "range_open (lay_style L) = CHR 0x00" "n < length es" "e_encap (es ! n) = []"
  shows "make_entry L es n g = None"
  using assms by (simp add: make_entry_def strip_range_def)

lemma nul_operator_accepted:
  "fst (scan_char (CHR ''('') \<lparr>ss_stream = stream_new [CHR 0x27, CHR 0x00, CHR 0x27], ss_file = [], ss_lc = 1, ss_tc = 0, ss_ec = 0,
     put_dot = False, clone = [], ss_log = quiet_log\<rparr>) = CHR 0x00"
  by code_simp

end
