(* ===== verification/MiRuns.thy ===== *)
theory MiRuns
  imports MiGenCorrect
begin

text \<open>
  What the index prints for one key: its pages grouped into runs of consecutive pages, a run of three
  or more as a range.  The specification \<open>render\<close> is over the list of entries; the generator keeps
  only the indices of the first and the last page of the run it is in.
\<close>

definition add_page :: "entry list list \<Rightarrow> entry \<Rightarrow> entry list list" where
  "add_page rs e =
     (if rs \<noteq> [] \<and> page_diff (last (last rs)) e = 1 then butlast rs @ [last rs @ [e]] else rs @ [[e]])"

definition page_runs :: "entry list \<Rightarrow> entry list list" where
  "page_runs es = foldl add_page [] es"

definition run_text :: "style \<Rightarrow> entry list \<Rightarrow> bytes" where
  "run_text st r =
     (let a = e_lpg (hd r); z = e_lpg (last r); n = length r
      in if n = 1 then a
         else if n = 2 then (if suffix_2p st \<noteq> [] then a @ suffix_2p st else a @ delim_n st @ z)
         else if n = 3 \<and> suffix_3p st \<noteq> [] then a @ suffix_3p st
         else if suffix_mp st \<noteq> [] then a @ suffix_mp st
         else a @ delim_r st @ z)"

definition dressed :: "style \<Rightarrow> bytes \<Rightarrow> bytes \<Rightarrow> bytes" where
  "dressed st encap t = (if encap = [] then t else encap_prefix st @ encap @ encap_infix st @ t @ encap_suffix st)"

fun render :: "style \<Rightarrow> bytes \<Rightarrow> entry list list \<Rightarrow> bytes" where
  "render st encap [] = []"
| "render st encap [r] = dressed st encap (run_text st r)"
| "render st encap (r # rs) = dressed st encap (run_text st r) @ delim_n st @ render st encap rs"

definition page_of :: "entry \<Rightarrow> int" where
  "page_of e = last (e_npg e)"

text \<open>The entries of one key and one encapsulator, on ascending pages of one chapter.\<close>

definition one_key :: "style \<Rightarrow> entry \<Rightarrow> entry list \<Rightarrow> bool" where
  "one_key st e0 es \<longleftrightarrow>
     list_all (\<lambda>e. sf e = sf e0 \<and> af e = af e0 \<and> e_encap e = e_encap e0 \<and> e_ty e = e_ty e0 \<and> e_npg e \<noteq> [] \<and>
       butlast (e_npg e) = butlast (e_npg e0) \<and> 0 \<le> page_of e \<and> page_of e \<le> i32_max) es \<and>
     sorted_wrt (\<lambda>a b. page_of a < page_of b) es \<and> e_ty e0 \<noteq> DUPLICATE \<and>
     byte_at (e_encap e0) 0 \<noteq> range_open st \<and> byte_at (e_encap e0) 0 \<noteq> range_close st"

lemma one_keyD:
  assumes "one_key st e0 es" "i < length es"
  shows "sf (es ! i) = sf e0" "af (es ! i) = af e0" "e_encap (es ! i) = e_encap e0" "e_ty (es ! i) = e_ty e0"
    "e_npg (es ! i) \<noteq> []" "butlast (e_npg (es ! i)) = butlast (e_npg e0)" "0 \<le> page_of (es ! i)" "page_of (es ! i) \<le> i32_max"
  using assms by (auto simp: one_key_def list_all_length)

lemma one_key_length:
  assumes "one_key st e0 es" "i < length es" "j < length es"
  shows "length (e_npg (es ! i)) = length (e_npg (es ! j))"
proof -
  have "length (butlast (e_npg (es ! i))) = length (butlast (e_npg (es ! j)))"
    using one_keyD(6) [OF assms(1,2)] one_keyD(6) [OF assms(1,3)] by simp
  then have "length (e_npg (es ! i)) - 1 = length (e_npg (es ! j)) - 1" by simp
  moreover have "length (e_npg (es ! i)) > 0" "length (e_npg (es ! j)) > 0"
    using one_keyD(5) [OF assms(1,2)] one_keyD(5) [OF assms(1,3)] by blast+
  ultimately show ?thesis by linarith
qed

lemma page_diff_key:
  assumes "one_key st e0 es" "i < length es" "j < length es"
  shows "page_diff (es ! i) (es ! j) = page_of (es ! j) - page_of (es ! i)"
proof -
  have "is_i32 (page_of (es ! j) - page_of (es ! i))"
    using one_keyD(7,8) [OF assms(1,2)] one_keyD(7,8) [OF assms(1,3)] by (simp add: i32_bounds i32_max_def)
  then show ?thesis
    using one_key_length [OF assms] one_keyD(5,6) [OF assms(1,2)] one_keyD(5,6) [OF assms(1,3)]
    by (simp add: page_diff_def page_of_def)
qed

subsection \<open>The runs\<close>

lemma page_runs_snoc: "page_runs (es @ [e]) = add_page (page_runs es) e"
  by (simp add: page_runs_def)

lemma concat_runs: "concat (page_runs es) = es"
proof (induction es rule: rev_induct)
  case (snoc e es)
  show ?case
  proof (cases "page_runs es = []")
    case False
    have "concat (butlast (page_runs es)) @ last (page_runs es) = concat (butlast (page_runs es) @ [last (page_runs es)])"
      by simp
    also have "\<dots> = es" using snoc False by (subst append_butlast_last_id) simp_all
    finally show ?thesis using snoc False by (simp add: page_runs_snoc add_page_def)
  qed (use snoc in \<open>simp add: page_runs_def add_page_def\<close>)
qed (simp add: page_runs_def)

text \<open>The last run of the first \<open>k + 1\<close> entries begins at \<open>b\<close>, the runs before it are \<open>rs\<close>.\<close>

definition at_run :: "entry list \<Rightarrow> nat \<Rightarrow> nat \<Rightarrow> entry list list \<Rightarrow> bool" where
  "at_run es k b rs \<longleftrightarrow> b \<le> k \<and> k < length es \<and> page_runs (take (Suc k) es) = rs @ [drop b (take (Suc k) es)] \<and>
     page_of (es ! k) = page_of (es ! b) + int (k - b)"

lemma at_run_first: "es \<noteq> [] \<Longrightarrow> at_run es 0 0 []"
  by (cases es) (auto simp: at_run_def page_runs_def add_page_def)

lemma last_run:
  assumes "at_run es k b rs"
  shows "last (drop b (take (Suc k) es)) = es ! k" "hd (drop b (take (Suc k) es)) = es ! b"
    "length (drop b (take (Suc k) es)) = Suc (k - b)"
proof -
  have b: "b \<le> k" "k < length es" using assms by (simp_all add: at_run_def)
  show "last (drop b (take (Suc k) es)) = es ! k"
    using b by (simp add: last_drop take_Suc_conv_app_nth)
  show "hd (drop b (take (Suc k) es)) = es ! b" using b by (simp add: hd_drop_conv_nth)
  show "length (drop b (take (Suc k) es)) = Suc (k - b)" using b by simp
qed

lemma at_run_next:
  assumes key: "one_key st e0 es" and at: "at_run es k b rs" and k: "Suc k < length es"
  shows "if page_diff (es ! k) (es ! Suc k) = 1 then at_run es (Suc k) b rs
    else at_run es (Suc k) (Suc k) (rs @ [drop b (take (Suc k) es)])"
proof -
  have b: "b \<le> k" "page_runs (take (Suc k) es) = rs @ [drop b (take (Suc k) es)]"
    "page_of (es ! k) = page_of (es ! b) + int (k - b)" using at by (simp_all add: at_run_def)
  have snoc: "page_runs (take (Suc (Suc k)) es) = add_page (page_runs (take (Suc k) es)) (es ! Suc k)"
    using k by (simp add: take_Suc_conv_app_nth [of "Suc k"] page_runs_snoc)
  have d: "page_diff (es ! k) (es ! Suc k) = page_of (es ! Suc k) - page_of (es ! k)"
    using page_diff_key [OF key] k by simp
  have add: "add_page (page_runs (take (Suc k) es)) (es ! Suc k) =
      (if page_diff (es ! k) (es ! Suc k) = 1 then rs @ [drop b (take (Suc k) es) @ [es ! Suc k]]
       else rs @ [drop b (take (Suc k) es), [es ! Suc k]])"
    unfolding add_page_def b(2) using last_run(1) [OF at] by simp
  have "drop b (take (Suc k) es) @ [es ! Suc k] = drop b (take (Suc (Suc k)) es)"
    using b(1) k by (simp add: take_Suc_conv_app_nth [of "Suc k"])
  moreover have "drop (Suc k) (take (Suc (Suc k)) es) = [es ! Suc k]"
    using k by (simp add: take_Suc_conv_app_nth [of "Suc k"])
  ultimately show ?thesis
    using b k d add snoc by (auto simp: at_run_def Suc_diff_le)
qed

lemma run_page_text:
  assumes key: "one_key st e0 es" and at: "at_run es k b rs"
  shows "page_text st False (es ! b) (es ! k) (es ! k) = run_text st (drop b (take (Suc k) es))"
proof -
  have b: "b < length es" "k < length es" "b \<le> k" using at by (simp_all add: at_run_def)
  have d: "page_diff (es ! b) (es ! k) = int (k - b)"
    using page_diff_key [OF key b(1,2)] at by (simp add: at_run_def)
  define n where "n = k - b"
  have "int n = 1 \<longleftrightarrow> n = 1" "int n = 2 \<longleftrightarrow> n = 2" "2 \<le> int n \<longleftrightarrow> 2 \<le> n" "1 < int n \<longleftrightarrow> 1 < n" "0 < int n \<longleftrightarrow> 0 < n"
    "int n = 0 \<longleftrightarrow> n = 0" by linarith+
  then show ?thesis
    unfolding page_text_def run_text_def Let_def last_run [OF at] d n_def [symmetric] by auto
qed

lemma render_snoc:
  "render st encap (rs @ [r]) = concat (map (\<lambda>r. dressed st encap (run_text st r) @ delim_n st) rs) @ dressed st encap (run_text st r)"
proof (induction rs)
  case (Cons a rs)
  then show ?case by (cases rs) simp_all
qed simp

lemma render_prefix:
  "length (concat (map (\<lambda>r. dressed st encap (run_text st r) @ delim_n st) rs) @ dressed st encap (run_text st r))
    \<le> length (render st encap (rs @ r # rs'))"
proof (induction rs)
  case Nil
  then show ?case by (cases rs') simp_all
next
  case (Cons a rs)
  then show ?case by (cases rs) simp_all
qed

subsection \<open>The generator on one key\<close>

text \<open>
  The generator inside the item of the key: what it has written, the line so far with the runs that are
  closed, and the open run.
\<close>

definition on_item :: "layout \<Rightarrow> entry list \<Rightarrow> bytes \<Rightarrow> bytes \<Rightarrow> nat \<Rightarrow> nat \<Rightarrow> entry list list \<Rightarrow> gen \<Rightarrow> bool" where
  "on_item L es out item k b rs g \<longleftrightarrow>
     at_run es k b rs \<and> g_out g = out \<and> g_curr g = Some k \<and> g_prev g = (if k = 0 then None else Some (k - 1)) \<and> g_begin g = b \<and>
     the_end g = k \<and> prev_encap g = Some (e_encap (es ! 0)) \<and> g_encap g = e_encap (es ! 0) \<and> \<not> in_range g \<and>
     \<not> encap_range g \<and> g_indent g = 0 \<and>
     g_line g = item @ concat (map (\<lambda>r. dressed (lay_style L) (e_encap (es ! 0)) (run_text (lay_style L) r) @ delim_n (lay_style L)) rs)"

lemma find_never: "find (\<lambda>x. False) xs = None"
  by (induction xs) simp_all

lemma flush_item:
  assumes key: "one_key (lay_style L) (es ! 0) es" and at: "at_run es k b rs"
    and g: "g_begin g = b" "the_end g = k" "g_prev g = Some k" "prev_encap g = Some (e_encap (es ! 0))" "\<not> encap_range g" "g_indent g = 0"
    and fits: "int (length (g_line g) + length (dressed (lay_style L) (e_encap (es ! 0)) (run_text (lay_style L) (drop b (take (Suc k) es)))))
      \<le> line_max (lay_style L)"
  shows "\<exists>buff. flush_line L es p g = Some (if p
     then g\<lparr>encap_range := False, g_buff := buff,
            g_out := g_out g @ g_line g @ dressed (lay_style L) (e_encap (es ! 0)) (run_text (lay_style L) (drop b (take (Suc k) es)))\<rparr>
     else g\<lparr>encap_range := False, g_buff := buff,
            g_line := g_line g @ dressed (lay_style L) (e_encap (es ! 0)) (run_text (lay_style L) (drop b (take (Suc k) es))) @ delim_n (lay_style L)\<rparr>)"
proof -
  have n: "g_begin g < length es" "the_end g < length es" using at g by (simp_all add: at_run_def)
  have prev: "prev_entry es g = Some (es ! k)" using g n by (simp add: prev_entry_def)
  have buff: "flush_buff L es g (es ! k) = dressed (lay_style L) (e_encap (es ! 0)) (run_text (lay_style L) (drop b (take (Suc k) es)))"
    using g run_page_text [OF key at] by (simp add: flush_buff_def dressed_def Let_def)
  show ?thesis
    unfolding flush_line_eq [OF n prev] buff using fits g(6) by (auto simp: wrap_line_def put_def Let_def)
qed

lemma item_step:
  assumes key: "one_key (lay_style L) (es ! 0) es" and g: "on_item L es out item k b rs g" and k: "Suc k < length es"
    and merge: "merge_page L"
    and fits: "int (length item + length (render (lay_style L) (e_encap (es ! 0)) (page_runs es))) \<le> line_max (lay_style L)"
    and runs: "\<exists>r rs'. page_runs es = rs @ r # rs' \<and> (page_diff (es ! k) (es ! Suc k) \<noteq> 1 \<longrightarrow> r = drop b (take (Suc k) es))"
  shows "\<exists>g' b' rs'. make_entry L es (Suc k) g = Some g' \<and> on_item L es out item (Suc k) b' rs' g'"
proof -
  let ?st = "lay_style L"
  note D = one_keyD [OF key]
  have at: "at_run es k b rs" using g by (simp add: on_item_def)
  have kn: "k < length es" "0 < length es" using k by linarith+
  have lead: "byte_at (e_encap (es ! Suc k)) 0 \<noteq> range_open ?st" "byte_at (e_encap (es ! Suc k)) 0 \<noteq> range_close ?st"
    using key D(3) [OF k] by (simp_all add: one_key_def)
  have enc: "e_encap (es ! Suc k) = e_encap (es ! 0)" by (rule D(3) [OF k])
  have same: "diff_level (es ! Suc k) (es ! k) = FIELD_MAX"
    using D(1,2) [OF k] D(1,2) [OF kn(1)] by (simp add: diff_level_def find_never)
  have ty: "e_ty (es ! k) = e_ty (es ! Suc k)" using D(4) [OF k] D(4) [OF kn(1)] by simp
  define g1 where "g1 = g\<lparr>g_prev := Some k, g_curr := Some (Suc k), g_encap := e_encap (es ! 0), prev_level := g_level g, g_level := FIELD_MAX\<rparr>"
  have eq: "make_entry L es (Suc k) g = Option.bind (old_entry L es g1) (range_check L es (Suc k) (e_encap (es ! Suc k)))"
    using g k kn lead same enc
    by (simp add: make_entry_def on_item_def strip_range_def curr_entry_def prev_entry_def Let_def g1_def)
  have check: "\<not> in_range g' \<Longrightarrow> range_check L es (Suc k) (e_encap (es ! Suc k)) g' = Some g'" for g'
    using lead by (simp add: range_check_def Let_def)
  have pd: "page_diff (es ! k) (es ! Suc k) \<noteq> - 1" "page_diff (es ! k) (es ! Suc k) \<noteq> 0"
  proof -
    have "page_of (es ! k) < page_of (es ! Suc k)"
      using key k sorted_wrt_nth_less [of "\<lambda>a b. page_of a < page_of b" es k "Suc k"] by (simp add: one_key_def)
    then show "page_diff (es ! k) (es ! Suc k) \<noteq> - 1" "page_diff (es ! k) (es ! Suc k) \<noteq> 0"
      using page_diff_key [OF key kn(1) k] by simp_all
  qed
  show ?thesis
  proof (cases "page_diff (es ! k) (es ! Suc k) = 1")
    case True
    have "old_entry L es g1 = Some (g1\<lparr>the_end := Suc k\<rparr>)"
      using True g k kn merge ty enc by (simp add: old_entry_def g1_def on_item_def prev_entry_def Let_def)
    then have "make_entry L es (Suc k) g = Some (g1\<lparr>the_end := Suc k\<rparr>)"
      using eq check [of "g1\<lparr>the_end := Suc k\<rparr>"] g by (simp add: g1_def on_item_def)
    moreover have "on_item L es out item (Suc k) b rs (g1\<lparr>the_end := Suc k\<rparr>)"
      using g at_run_next [OF key at k] True by (simp add: g1_def on_item_def)
    ultimately show ?thesis by blast
  next
    case False
    let ?r = "drop b (take (Suc k) es)"
    obtain rs' where rs': "page_runs es = rs @ ?r # rs'" using runs False by blast
    have "int (length (g_line g1) + length (dressed ?st (e_encap (es ! 0)) (run_text ?st ?r))) \<le> line_max ?st"
      using fits render_prefix [of ?st "e_encap (es ! 0)" rs ?r rs'] g unfolding rs' by (simp add: g1_def on_item_def)
    then obtain buff where fl: "flush_line L es False g1 = Some (g1\<lparr>encap_range := False, g_buff := buff,
        g_line := g_line g1 @ dressed ?st (e_encap (es ! 0)) (run_text ?st ?r) @ delim_n ?st\<rparr>)"
      using flush_item [OF key at, of g1 False] g by (auto simp: g1_def on_item_def)
    define g2 where "g2 = g1\<lparr>encap_range := False, g_buff := buff,
        g_line := g_line g1 @ dressed ?st (e_encap (es ! 0)) (run_text ?st ?r) @ delim_n ?st,
        g_begin := Suc k, the_end := Suc k, prev_encap := Some (g_encap g1)\<rparr>"
    have "old_entry L es g1 = Some g2"
      using False pd fl g k kn ty unfolding g2_def
      by (simp add: old_entry_def g1_def on_item_def prev_entry_def Let_def save_def)
    then have "make_entry L es (Suc k) g = Some g2"
      using eq check [of g2] g by (simp add: g2_def g1_def on_item_def)
    moreover have "on_item L es out item (Suc k) (Suc k) (rs @ [?r]) g2"
      using g at_run_next [OF key at k] False by (simp add: g2_def g1_def on_item_def)
    ultimately show ?thesis by blast
  qed
qed

text \<open>Closed runs stay closed: those of a prefix are the first ones of the whole, the last one grows.\<close>

lemma add_pages_prefix:
  "\<exists>r' rs'. foldl add_page (rs @ [r]) es = rs @ (r @ r') # rs'"
proof (induction es arbitrary: rs r)
  case (Cons e es)
  show ?case
  proof (cases "page_diff (last r) e = 1")
    case True
    then have "add_page (rs @ [r]) e = rs @ [r @ [e]]" by (simp add: add_page_def)
    then show ?thesis using Cons.IH [of rs "r @ [e]"] by auto
  next
    case False
    then have "add_page (rs @ [r]) e = (rs @ [r]) @ [[e]]" by (simp add: add_page_def)
    then show ?thesis using Cons.IH [of "rs @ [r]" "[e]"] by auto
  qed
qed auto

lemma runs_extend:
  assumes at: "at_run es k b rs" and k: "Suc k < length es"
  shows "\<exists>r rs'. page_runs es = rs @ r # rs' \<and> (page_diff (es ! k) (es ! Suc k) \<noteq> 1 \<longrightarrow> r = drop b (take (Suc k) es))"
proof -
  let ?r = "drop b (take (Suc k) es)"
  have "es = take (Suc k) es @ drop (Suc k) es" by simp
  then have "page_runs es = foldl add_page (page_runs (take (Suc k) es)) (drop (Suc k) es)"
    unfolding page_runs_def by (metis foldl_append)
  then have all: "page_runs es = foldl add_page (rs @ [?r]) (drop (Suc k) es)" using at by (simp add: at_run_def)
  show ?thesis
  proof (cases "page_diff (es ! k) (es ! Suc k) = 1")
    case True
    then show ?thesis using add_pages_prefix [of rs ?r "drop (Suc k) es"] all by auto
  next
    case False
    then have "add_page (rs @ [?r]) (es ! Suc k) = (rs @ [?r]) @ [[es ! Suc k]]"
      using last_run(1) [OF at] by (simp add: add_page_def)
    moreover have "drop (Suc k) es = es ! Suc k # drop (Suc (Suc k)) es" using k by (simp add: Cons_nth_drop_Suc)
    ultimately have "page_runs es = foldl add_page ((rs @ [?r]) @ [[es ! Suc k]]) (drop (Suc (Suc k)) es)"
      using all by simp
    then show ?thesis using add_pages_prefix [of "rs @ [?r]" "[es ! Suc k]" "drop (Suc (Suc k)) es"] by auto
  qed
qed

text \<open>The remaining entries of the key, one after another.\<close>

lemma items_run:
  assumes key: "one_key (lay_style L) (es ! 0) es" and merge: "merge_page L"
    and fits: "int (length item + length (render (lay_style L) (e_encap (es ! 0)) (page_runs es))) \<le> line_max (lay_style L)"
  shows "on_item L es out item k b rs g \<Longrightarrow> \<exists>g' b' rs'. make_entries L es [Suc k..<length es] g = Some g' \<and>
    on_item L es out item (length es - 1) b' rs' g'"
proof (induction "length es - Suc k" arbitrary: k b rs g)
  case 0
  then have "k = length es - 1" by (auto simp: on_item_def at_run_def)
  then show ?case using 0 by auto
next
  case (Suc n)
  then have k: "Suc k < length es" by linarith
  have at: "at_run es k b rs" using Suc.prems by (simp add: on_item_def)
  obtain g1 b1 rs1 where 1: "make_entry L es (Suc k) g = Some g1" "on_item L es out item (Suc k) b1 rs1 g1"
    using item_step [OF key Suc.prems k merge fits runs_extend [OF at k]] by blast
  have "on_item L es out item (Suc k) b1 rs1 (g1\<lparr>g_log := dot DOT_MAX (g_log g1)\<rparr>)" using 1(2) by (simp add: on_item_def)
  moreover have "n = length es - Suc (Suc k)" using Suc.hyps(2) by linarith
  ultimately obtain g' b' rs' where "make_entries L es [Suc (Suc k)..<length es] (g1\<lparr>g_log := dot DOT_MAX (g_log g1)\<rparr>) = Some g'"
    "on_item L es out item (length es - 1) b' rs' g'" using Suc.hyps(1) by blast
  moreover have "e_ty (es ! Suc k) \<noteq> DUPLICATE" using key one_keyD(4) [OF key k] by (simp add: one_key_def)
  moreover have "[Suc k..<length es] = Suc k # [Suc (Suc k)..<length es]" using k by (simp add: upt_conv_Cons)
  ultimately show ?case using 1(1) by auto
qed

text \<open>The first entry starts the item.\<close>

lemma first_item:
  assumes key: "one_key (lay_style L) (es ! 0) es" and ne: "es \<noteq> []" and flag: "headings_flag (lay_style L) = 0"
    and flat: "sf (es ! 0) ! 1 = []"
    and g: "g_curr g = None" "g_line g = []" "\<not> in_range g" "\<not> encap_range g" "g_out g = out"
  shows "\<exists>g'. make_entry L es 0 g = Some g' \<and>
    on_item L es out (item_r (lay_style L) ! 0 @ shown (es ! 0) 0 @ delim_p (lay_style L) ! 0) 0 0 [] g'"
proof -
  have lead: "byte_at (e_encap (es ! 0)) 0 \<noteq> range_open (lay_style L)" "byte_at (e_encap (es ! 0)) 0 \<noteq> range_close (lay_style L)"
    using key by (simp_all add: one_key_def)
  have lv: "[Suc 0..<FIELD_MAX] = [1, 2]" by (simp add: FIELD_MAX_def upt_rec)
  show ?thesis
    using ne g lead flag flat at_run_first [OF ne]
    by (simp add: make_entry_def strip_range_def put_header_def make_item_def curr_entry_def save_def range_check_def
        on_item_def Let_def lv FIELD_MAX_def [THEN arg_cong [of _ _ "\<lambda>n. 0 < n"]] split: option.splits)
qed

definition index_opening :: "layout \<Rightarrow> bytes" where
  "index_opening L = preamble (lay_style L) @
     (case start_page L of Some p \<Rightarrow> setpage_prefix (lay_style L) @ p @ setpage_suffix (lay_style L) | None \<Rightarrow> [])"

definition item_head :: "style \<Rightarrow> entry \<Rightarrow> bytes" where
  "item_head st e = item_r st ! 0 @ shown e 0 @ delim_p st ! 0"

text \<open>
  Property C19.  The index of one key: for entries of one key without sub-levels and of one encapsulator that
  begins with no range operator, none marked as a duplicate, on ascending pages of one type that differ in
  their last number only (a 32-bit integer, not negative), the generator writes the item followed by the
  pages grouped into maximal runs of consecutive pages - single pages and pairs listed, runs of three and
  more as ranges, or with the style's suffixes - between the preamble and the postamble.  The pages are
  merged (no \<open>-r\<close>), the style has no headings (\<open>headings_flag\<close> is 0), and the item with its pages fits in
  one line.
\<close>

theorem one_key_index:
  assumes key: "one_key (lay_style L) (es ! 0) es" and ne: "es \<noteq> []" and merge: "merge_page L"
    and flag: "headings_flag (lay_style L) = 0" and flat: "sf (es ! 0) ! 1 = []"
    and fits: "int (length (item_head (lay_style L) (es ! 0)) + length (render (lay_style L) (e_encap (es ! 0)) (page_runs es)))
      \<le> line_max (lay_style L)"
  shows "\<exists>log'. generate es L log = Some (index_opening L @ item_head (lay_style L) (es ! 0) @
    render (lay_style L) (e_encap (es ! 0)) (page_runs es) @ delim_t (lay_style L) @ postamble (lay_style L), log')"
proof -
  let ?st = "lay_style L" and ?item = "item_head (lay_style L) (es ! 0)"
  define g1 where "g1 = (case start_page L of
         Some page \<Rightarrow> add_lines (setpagelen ?st) (put (setpage_suffix ?st) (put page (put (setpage_prefix ?st) (add_lines (prelen ?st) (put (preamble ?st)
            ((gen_init log)\<lparr>g_log := message (''Generating output file '' @ output_name L @ ''...'') (g_log (gen_init log))\<rparr>))))))
       | None \<Rightarrow> add_lines (prelen ?st) (put (preamble ?st)
            ((gen_init log)\<lparr>g_log := message (''Generating output file '' @ output_name L @ ''...'') (g_log (gen_init log))\<rparr>)))"
  define g2 where "g2 = g1\<lparr>g_log := (g_log g1)\<lparr>idx_dc := 0\<rparr>\<rparr>"
  have g2: "g_curr g2 = None" "g_line g2 = []" "\<not> in_range g2" "\<not> encap_range g2" "g_out g2 = index_opening L"
    by (auto simp: g2_def g1_def gen_init_def put_def add_lines_def index_opening_def split: option.splits)
  obtain g3 where g3: "make_entry L es 0 g2 = Some g3" "on_item L es (index_opening L) ?item 0 0 [] g3"
    using first_item [OF key ne flag flat g2] by (auto simp: item_head_def)
  have "on_item L es (index_opening L) ?item 0 0 [] (g3\<lparr>g_log := dot DOT_MAX (g_log g3)\<rparr>)" using g3(2) by (simp add: on_item_def)
  then obtain g4 b rs where g4: "make_entries L es [Suc 0..<length es] (g3\<lparr>g_log := dot DOT_MAX (g_log g3)\<rparr>) = Some g4"
    "on_item L es (index_opening L) ?item (length es - 1) b rs g4"
    using items_run [OF key merge fits] by blast
  have "[0..<length es] = 0 # [Suc 0..<length es]" using ne by (simp add: upt_conv_Cons)
  moreover have "e_ty (es ! 0) \<noteq> DUPLICATE" using key by (simp add: one_key_def)
  ultimately have entries: "make_entries L es [0..<length es] g2 = Some g4" using g3(1) g4(1) by simp
  let ?r = "drop b (take (Suc (length es - 1)) es)"
  have at: "at_run es (length es - 1) b rs" using g4(2) by (simp add: on_item_def)
  then have runs: "page_runs es = rs @ [?r]" using ne by (simp add: at_run_def)
  define g5 where "g5 = g4\<lparr>g_prev := g_curr g4\<rparr>"
  have "int (length (g_line g5) + length (dressed ?st (e_encap (es ! 0)) (run_text ?st ?r))) \<le> line_max ?st"
    using fits g4(2) unfolding runs by (simp add: render_snoc g5_def on_item_def)
  then obtain buff where fl: "flush_line L es True g5 = Some (g5\<lparr>encap_range := False, g_buff := buff,
      g_out := g_out g5 @ g_line g5 @ dressed ?st (e_encap (es ! 0)) (run_text ?st ?r)\<rparr>)"
    using flush_item [OF key at, of g5 True] g4(2) by (auto simp: g5_def on_item_def)
  have out: "g_out g5 @ g_line g5 @ dressed ?st (e_encap (es ! 0)) (run_text ?st ?r) =
      index_opening L @ ?item @ render ?st (e_encap (es ! 0)) (page_runs es)"
    using g4(2) unfolding runs by (simp add: render_snoc g5_def on_item_def)
  have cur: "g_curr g4 \<noteq> None" "\<not> in_range g4" using g4(2) by (simp_all add: on_item_def)
  have "\<exists>log'. gen_run L es (gen_init log) = Some ((put (postamble ?st) (put (delim_t ?st)
      (g5\<lparr>encap_range := False, g_buff := buff, g_out := g_out g5 @ g_line g5 @ dressed ?st (e_encap (es ! 0)) (run_text ?st ?r)\<rparr>)))\<lparr>g_log := log'\<rparr>)"
    unfolding gen_run_def Let_def g1_def [symmetric] g2_def [symmetric] entries bind.bind_lunit if_P [OF cur(1)] if_not_P [OF cur(2)]
      g5_def [symmetric] fl by blast
  then show ?thesis unfolding out generate_def by (auto simp: put_def)
qed

text \<open>A key on the pages 1, 2, 3, 5, 7 and 8 prints \<open>1--3, 5, 7, 8\<close>.\<close>

definition on_page :: "bytes \<Rightarrow> int \<Rightarrow> entry" where
  "on_page no p = one_entry\<lparr>e_lpg := no, e_npg := [p]\<rparr>"

definition pages_example :: "entry list" where
  "pages_example = [on_page ''1'' 1, on_page ''2'' 2, on_page ''3'' 3, on_page ''5'' 5, on_page ''7'' 7, on_page ''8'' 8]"

lemma pages_example_ok:
  "one_key (lay_style default_layout) (pages_example ! 0) pages_example \<and> pages_example \<noteq> [] \<and> merge_page default_layout \<and>
   headings_flag (lay_style default_layout) = 0 \<and> sf (pages_example ! 0) ! 1 = [] \<and>
   render (lay_style default_layout) (e_encap (pages_example ! 0)) (page_runs pages_example) = ''1--3, 5, 7, 8'' \<and>
   int (length (item_head (lay_style default_layout) (pages_example ! 0)) +
     length (render (lay_style default_layout) (e_encap (pages_example ! 0)) (page_runs pages_example))) \<le> line_max (lay_style default_layout)"
  by code_simp

lemma one_key_index_witness:
  "\<exists>log'. generate pages_example default_layout quiet_log = Some (index_opening default_layout @
    item_head (lay_style default_layout) (pages_example ! 0) @ ''1--3, 5, 7, 8'' @
    delim_t (lay_style default_layout) @ postamble (lay_style default_layout), log')"
proof -
  have r: "render (lay_style default_layout) (e_encap (pages_example ! 0)) (page_runs pages_example) = ''1--3, 5, 7, 8''"
    using pages_example_ok by blast
  show ?thesis
    using one_key_index [of default_layout pages_example quiet_log] pages_example_ok unfolding r by blast
qed

subsection \<open>The page after the last one\<close>

definition dec_value :: "bytes \<Rightarrow> int" where
  "dec_value ds = foldl (\<lambda>v d. v * 10 + (byte_val d - 48)) 0 ds"

lemma dec_value_snoc: "dec_value (ds @ [d]) = dec_value ds * 10 + (byte_val d - 48)"
  by (simp add: dec_value_def)

lemma digit_value: "is_ascii_digit d \<Longrightarrow> 48 \<le> byte_val d \<and> byte_val d \<le> 57"
proof -
  assume "is_ascii_digit d"
  then have "(48 :: nat) \<le> of_char d" "of_char d \<le> (57 :: nat)" by (simp_all add: is_ascii_digit_def less_eq_char_def)
  moreover have "byte_val d = int (of_char d :: nat)" by (simp add: byte_val_def of_nat_of_char)
  ultimately show ?thesis by linarith
qed

lemma dec_value_nonneg: "list_all is_ascii_digit ds \<Longrightarrow> 0 \<le> dec_value ds"
proof (induction ds rule: rev_induct)
  case (snoc d ds)
  then show ?case using digit_value [of d] by (simp add: dec_value_snoc)
qed (simp add: dec_value_def)

lemma page_value_snoc: "page_value (ds @ [d]) = wrap_i32 (wrap_i32 (wrap_i32 (page_value ds * 10) + byte_val d) - 48)"
  by (simp add: page_value_def)

lemma page_value_dec:
  "list_all is_ascii_digit ds \<Longrightarrow> dec_value ds \<le> 2147483599 \<Longrightarrow> page_value ds = dec_value ds"
proof (induction ds rule: rev_induct)
  case (snoc d ds)
  have d: "48 \<le> byte_val d" "byte_val d \<le> 57" using digit_value [of d] snoc.prems(1) by simp_all
  have ds: "list_all is_ascii_digit ds" using snoc.prems(1) by simp
  have le: "dec_value ds * 10 + (byte_val d - 48) \<le> 2147483599" "0 \<le> dec_value ds"
    using snoc.prems(2) dec_value_nonneg [OF ds] by (simp_all add: dec_value_snoc)
  then have "page_value ds = dec_value ds" using snoc.IH [OF ds] d by linarith
  moreover have "is_i32 (dec_value ds * 10)" "is_i32 (dec_value ds * 10 + byte_val d)" "is_i32 (dec_value ds * 10 + byte_val d - 48)"
    using le d by (simp_all add: i32_bounds)
  ultimately show ?case by (simp add: page_value_snoc dec_value_snoc)
qed (simp add: page_value_def dec_value_def)

lemma dec_nat_digits: "list_all is_ascii_digit (dec_nat n) \<and> dec_value (dec_nat n) = int n"
proof (induction n rule: dec_nat.induct)
  case (1 n)
  have d: "is_ascii_digit (char_of (48 + k)) \<and> byte_val (char_of (48 + k)) = 48 + int k" if "k < 10" for k :: nat
  proof -
    have "(of_char (char_of (48 + k)) :: nat) = 48 + k" using that by simp
    then show ?thesis using that by (simp add: is_ascii_digit_def less_eq_char_def byte_val_nat)
  qed
  show ?case
  proof (cases "n < 10")
    case True
    then show ?thesis using d [of n] by (simp add: dec_nat.simps [of n] dec_value_def)
  next
    case False
    have "n mod 10 < 10" by simp
    note d = d [OF this]
    have "dec_nat n = dec_nat (n div 10) @ [char_of (48 + n mod 10)]" using False by (simp add: dec_nat.simps [of n])
    moreover have "int n = int (n div 10) * 10 + int (n mod 10)" by presburger
    ultimately show ?thesis using 1 [OF False] d by (simp add: dec_value_snoc)
  qed
qed

lemma digits_from_end:
  assumes "pre = [] \<or> \<not> is_ascii_digit (last pre)" "list_all is_ascii_digit ds"
  shows "i < length (pre @ ds) \<Longrightarrow> length pre \<le> i \<Longrightarrow> digits_from (pre @ ds) i = length pre"
proof (induction i)
  case 0
  then have "pre = []" by simp
  then show ?case using 0 assms(2) by (simp add: list_all_length)
next
  case (Suc i)
  then have "is_ascii_digit (byte_at (pre @ ds) (Suc i))" using assms(2) by (simp add: nth_append list_all_length)
  then have step: "digits_from (pre @ ds) (Suc i) = digits_from (pre @ ds) i" by simp
  show ?case
  proof (cases "length pre \<le> i")
    case True
    then show ?thesis using Suc.IH Suc.prems step by simp
  next
    case False
    then have len: "length pre = Suc i" using Suc.prems by simp
    then have "byte_at (pre @ ds) i = last pre" by (cases pre rule: rev_cases) (auto simp: byte_at_def nth_append)
    then have "\<not> is_ascii_digit (byte_at (pre @ ds) i)" using assms(1) len by auto
    then show ?thesis using step len by (cases i) auto
  qed
qed

text \<open>
  The page the index starts at (\<open>-p any\<close>, \<open>odd\<close>, \<open>even\<close>): the trailing number of the last
  page is replaced by the next number of the parity asked for, and nothing before it changes.
\<close>

theorem next_page_number:
  assumes "pre = [] \<or> \<not> is_ascii_digit (last pre)" "ds \<noteq> []" "list_all is_ascii_digit ds" "dec_value ds < 2147483599"
  shows "\<exists>ds'. next_page (pre @ ds) parity = pre @ ds' \<and> list_all is_ascii_digit ds' \<and>
    dec_value ds' = (if parity = 1 \<and> odd (dec_value ds) \<or> parity = 2 \<and> even (dec_value ds) then dec_value ds + 2 else dec_value ds + 1)"
proof -
  let ?v = "dec_value ds"
  have v: "0 \<le> ?v" by (rule dec_value_nonneg [OF assms(3)])
  have start: "digits_from (pre @ ds) (length (pre @ ds) - 1) = length pre"
    using digits_from_end [OF assms(1,3)] assms(2) by (cases ds) simp_all
  have i32: "is_i32 (?v + 1)" "is_i32 (?v + 1 + 1)" using v assms(4) by (simp_all add: i32_bounds)
  have parity: "(?v + 1) smod 2 = (?v + 1) mod 2" using v by (simp add: signed_modulo_int_def signed_divide_int_def sgn_if minus_div_mult_eq_mod)
  define w where "w = (if parity = 1 \<and> odd ?v \<or> parity = 2 \<and> even ?v then ?v + 2 else ?v + 1)"
  have val: "page_value (drop (length pre) (pre @ ds)) = ?v" using page_value_dec [OF assms(3)] assms(4) by simp
  have wrap: "wrap_i32 (?v + 1) = ?v + 1" "wrap_i32 (?v + 1 + 1) = ?v + 2" using i32 by simp_all
  have par: "(?v + 1) smod 2 = 0 \<longleftrightarrow> odd ?v" "(?v + 1) smod 2 = 1 \<longleftrightarrow> even ?v" unfolding parity by presburger+
  have ne: "pre @ ds \<noteq> []" using assms(2) by simp
  have "next_page (pre @ ds) parity = pre @ dec_int w"
    unfolding next_page_def Let_def start val wrap par if_not_P [OF ne] w_def by simp
  moreover have "dec_int w = dec_nat (nat w)" "0 \<le> w" using v by (simp_all add: w_def dec_int_def)
  ultimately show ?thesis using dec_nat_digits [of "nat w"] unfolding w_def [symmetric] by auto
qed

lemma next_page_number_witness:
  "\<exists>ds'. next_page (''A-'' @ ''199'') 1 = ''A-'' @ ds' \<and> list_all is_ascii_digit ds' \<and> dec_value ds' = 201"
  using next_page_number [of "''A-''" "''199''" 1] by (simp add: dec_value_def is_ascii_digit_def byte_val_def)

end
