(* ===== verification/MiScanCorrect.thy ===== *)
theory MiScanCorrect
  imports MiScan
begin

text \<open>
  The scanner of index files: with a style whose escape character is not NUL it reads every input to
  the end without a failure, and its counts are exact - every entry begun is either collected or
  rejected with one error.
\<close>

subsection \<open>Fields\<close>

lemma escape_run_total:
  assumes "esc \<noteq> CHR 0x00"
  shows "\<exists>n' field' k'. escape_run esc key n field k = Some (n', field', k')"
proof (induction "length key - n" arbitrary: n field k)
  case 0
  then have "at key n = CHR 0x00" by (simp add: at_def)
  then show ?case using assms by (simp add: escape_run.simps)
next
  case (Suc m)
  then have "m = length key - (n + 1)" by simp
  with Suc.hyps(1) [of "n + 1"] show ?case by (subst escape_run.simps) simp
qed

text \<open>With NUL for the escape character the loop never ends.\<close>

lemma escape_run_nul: "length key \<le> n \<Longrightarrow> escape_run (CHR 0x00) key n field k = None"
proof -
  have "esc = CHR 0x00 \<longrightarrow> length key \<le> n \<longrightarrow> False" if "escape_run esc key n field k = Some r" for esc r
    by (rule escape_run.raw_induct [where P = "\<lambda>esc key n field k r. esc = CHR 0x00 \<longrightarrow> length key \<le> n \<longrightarrow> False", OF _ that])
      (fastforce simp: at_def split: if_splits)
  then show "length key \<le> n \<Longrightarrow> ?thesis" by (cases "escape_run (CHR 0x00) key n field k") auto
qed

definition stops :: "scanner \<Rightarrow> bool \<Rightarrow> bool \<Rightarrow> bool \<Rightarrow> bytes \<Rightarrow> nat \<Rightarrow> bool" where
  "stops sn ck_level ck_encap ck_actual key n \<longleftrightarrow>
     at key n = CHR 0x00 \<or> ck_level \<and> at key n = chars sn ! 0 \<or> ck_encap \<and> at key n = chars sn ! 2 \<or>
     ck_actual \<and> at key n = chars sn ! 1"

lemma field_round_ok:
  assumes "escape_ch (sn_style sn) \<noteq> CHR 0x00"
  shows "\<exists>r. field_round sn key l e a n field = Some r \<and> (\<forall>f n'. r = Field f n' \<longrightarrow> stops sn l e a key n')"
proof -
  obtain n1 f1 k1 where 1: "escape_run (escape_ch (sn_style sn)) key n field 0 = Some (n1, f1, k1)"
    using escape_run_total [OF assms] by blast
  have past: "length key \<le> m \<Longrightarrow> at key m = CHR 0x00" for m by (simp add: at_def)
  show ?thesis
    using past by (simp add: field_round_def 1 Let_def stops_def)
qed

lemma field_loop_ok:
  assumes "escape_ch (sn_style sn) \<noteq> CHR 0x00"
  shows "\<exists>r. field_loop sn key l e a n field = Some r \<and> (\<forall>f n'. r = Field f n' \<longrightarrow> stops sn l e a key n') \<and> (\<forall>f n'. r \<noteq> More f n')"
  using assms
proof (induction sn key l e a n field rule: field_loop.induct)
  case (1 sn key l e a n field)
  obtain r where r: "field_round sn key l e a n field = Some r" "\<forall>f n'. r = Field f n' \<longrightarrow> stops sn l e a key n'"
    using field_round_ok [OF 1(2)] by blast
  show ?case
  proof (cases r)
    case (More f' n')
    then show ?thesis using 1(1) [OF r(1) More 1(2)] by (simp add: field_loop.simps [of sn key] r(1))
  qed (use r in \<open>auto simp: field_loop.simps [of sn key]\<close>)
qed

subsection \<open>Errors\<close>

text \<open>The two counters of a file: entries begun, and errors.\<close>

definition counts :: "file_scan \<Rightarrow> nat \<times> nat" where
  "counts f = (f_tc f, f_ec f)"

definition errors :: "bool \<Rightarrow> nat" where
  "errors ok = (if ok then 0 else 1)"

text \<open>What one part of the scanner does to the counters: one error exactly when it fails.\<close>

definition accounts :: "bool \<Rightarrow> flog \<Rightarrow> flog \<Rightarrow> bool" where
  "accounts ok fl fl' \<longleftrightarrow> f_tc (fst fl') = f_tc (fst fl) \<and> f_ec (fst fl') = f_ec (fst fl) + errors ok"

lemma accounts_refl [intro]: "accounts True fl fl"
  by (simp add: accounts_def errors_def)

lemma accounts_error [simp]: "accounts False fl (f_error msg fl)"
  by (cases fl) (simp add: accounts_def errors_def f_error_def Let_def)

lemma accounts_trans: "accounts True fl fl' \<Longrightarrow> accounts ok fl' fl'' \<Longrightarrow> accounts ok fl fl''"
  by (simp add: accounts_def errors_def)

lemma scan_field_ok:
  assumes "escape_ch (sn_style sn) \<noteq> CHR 0x00"
  shows "\<exists>f n' fl'. scan_field sn key n l e a fl = Some (f, n', fl') \<and> (f \<noteq> None \<longrightarrow> stops sn l e a key n') \<and>
    accounts (f \<noteq> None) fl fl'"
proof -
  define n0 where "n0 = (if compress_blanks sn \<and> (at key n = CHR '' '' \<or> at key n = CHR 0x09) then n + 1 else n)"
  obtain r where r: "field_loop sn key l e a n0 [] = Some r" "\<forall>f n'. r = Field f n' \<longrightarrow> stops sn l e a key n'"
    "\<forall>f n'. r \<noteq> More f n'"
    using field_loop_ok [OF assms] by blast
  then show ?thesis
    by (cases r) (simp_all add: scan_field_def n0_def [symmetric] Let_def accounts_refl)
qed

text \<open>
  The round of \<open>scan_key\<close>: the level stays below \<open>FIELD_MAX\<close>, because at the last level the level
  character no longer ends a field.
\<close>

definition level_ok :: "scanner \<Rightarrow> bytes \<Rightarrow> nat \<Rightarrow> nat \<Rightarrow> bool \<Rightarrow> bool" where
  "level_ok sn key i n second \<longleftrightarrow> i < FIELD_MAX \<and> (\<not> second \<longrightarrow> i = 0) \<and> (i = FIELD_MAX - 1 \<longrightarrow> stops sn False True True key n)"

lemma key_round_ok:
  assumes esc: "escape_ch (sn_style sn) \<noteq> CHR 0x00" and lv: "level_ok sn key i n second"
  shows "\<exists>r. key_round sn key i n second data fl = Some r \<and>
    (case r of KeyDone ok data' fl' \<Rightarrow> accounts ok fl fl'
     | KeyMore i' n' second' data' fl' \<Rightarrow> level_ok sn key i' n' second' \<and> accounts True fl fl')"
proof -
  have max: "FIELD_MAX = 3" by (simp add: FIELD_MAX_def)
  have i: "i < 3" "\<not> second \<Longrightarrow> i = 0" "i = 2 \<Longrightarrow> stops sn False True True key n" using lv by (auto simp: level_ok_def max)
  define byte where "byte = at key n"
  consider "byte = CHR 0x00" | "byte \<noteq> CHR 0x00" "byte = chars sn ! 2"
    | "byte \<noteq> CHR 0x00" "byte \<noteq> chars sn ! 2" "byte = chars sn ! 1"
    | "byte \<noteq> CHR 0x00" "byte \<noteq> chars sn ! 2" "byte \<noteq> chars sn ! 1" by blast
  then show ?thesis
  proof cases
    case 1
    then show ?thesis by (simp add: key_round_def byte_def Let_def accounts_refl)
  next
    case 2
    obtain f n' fl' where "scan_field sn key (n + 1) False False False fl = Some (f, n', fl')" "accounts (f \<noteq> None) fl fl'"
      using scan_field_ok [OF esc] by blast
    then show ?thesis using 2 by (cases f) (auto simp: key_round_def byte_def Let_def)
  next
    case 3
    obtain f n' fl' where f: "scan_field sn key (n + 1) (i \<noteq> 2) True False fl = Some (f, n', fl')"
      "f \<noteq> None \<longrightarrow> stops sn (i \<noteq> 2) True False key n'" "accounts (f \<noteq> None) fl fl'"
      using scan_field_ok [OF esc] by blast
    have "f \<noteq> None \<Longrightarrow> level_ok sn key i n' second" using f(2) i by (auto simp: level_ok_def stops_def max)
    then show ?thesis using 3 f i(1) by (cases f) (auto simp: key_round_def byte_def Let_def max)
  next
    case 4
    have i2: "i \<noteq> 2" using i(3) 4 by (auto simp: stops_def byte_def)
    define i' n1 where "i' = (if second then i + 1 else i)" and "n1 = (if second then n + 1 else n)"
    have i': "i' < 3" using i i2 by (auto simp: i'_def)
    obtain f n' fl' where f: "scan_field sn key n1 (i' \<noteq> 2) True True fl = Some (f, n', fl')"
      "f \<noteq> None \<longrightarrow> stops sn (i' \<noteq> 2) True True key n'" "accounts (f \<noteq> None) fl fl'"
      using scan_field_ok [OF esc] by blast
    have lv': "f \<noteq> None \<Longrightarrow> level_ok sn key i' n' True" using f(2) i' by (auto simp: level_ok_def max)
    show ?thesis
      using 4 f lv' i' unfolding key_round_def Let_def byte_def [symmetric] i'_def [symmetric] n1_def [symmetric]
      by (cases f) (auto simp: max split: prod.splits)
  qed
qed

lemma key_loop_ok:
  "escape_ch (sn_style sn) \<noteq> CHR 0x00 \<Longrightarrow> level_ok sn key i n second \<Longrightarrow>
   \<exists>ok data' fl'. key_loop sn key i n second data fl = Some (ok, data', fl') \<and> accounts ok fl fl'"
proof (induction sn key i n second data fl rule: key_loop.induct)
  case (1 sn key i n second data fl)
  obtain r where r: "key_round sn key i n second data fl = Some r"
    "case r of KeyDone ok data' fl' \<Rightarrow> accounts ok fl fl'
     | KeyMore i' n' second' data' fl' \<Rightarrow> level_ok sn key i' n' second' \<and> accounts True fl fl'"
    using key_round_ok [OF 1(2,3)] by blast
  show ?case
  proof (cases r)
    case (KeyMore i' n' second' data' fl')
    then have "level_ok sn key i' n' second'" "accounts True fl fl'" using r(2) by simp_all
    with 1(1) [OF r(1) KeyMore 1(2)] obtain ok data2 fl2 where
      "key_loop sn key i' n' second' data' fl' = Some (ok, data2, fl2)" "accounts ok fl' fl2" by blast
    then show ?thesis
      using accounts_trans [OF \<open>accounts True fl fl'\<close>] by (simp add: key_loop.simps [of sn key i] r(1) KeyMore)
  next
    case (KeyDone ok data' fl')
    then have "key_loop sn key i n second data fl = Some (ok, data', fl')" by (subst key_loop.simps) (simp add: r(1))
    then show ?thesis using r(2) KeyDone by simp
  qed
qed

lemma scan_key_ok:
  assumes "escape_ch (sn_style sn) \<noteq> CHR 0x00"
  shows "\<exists>ok data' fl'. scan_key sn data fl = Some (ok, data', fl') \<and> accounts ok fl fl'"
proof -
  have "level_ok sn (c_str (f_key (fst fl))) 0 0 False" by (simp add: level_ok_def FIELD_MAX_def)
  then obtain ok data' fl' where k: "key_loop sn (c_str (f_key (fst fl))) 0 0 False data fl = Some (ok, data', fl')"
    "accounts ok fl fl'" using key_loop_ok [OF assms] by blast
  define msg where "msg = ''Illegal null field.'' @ NL"
  have eq: "scan_key sn data fl = Some (if \<not> ok then (False, data', fl')
      else if null_field data' then (False, data', f_error msg fl') else (True, data', fl'))"
    unfolding scan_key_def k(1) bind.bind_lunit prod.case msg_def by (rule refl)
  have "ok \<Longrightarrow> accounts False fl (f_error msg fl')" using k(2) accounts_trans [OF _ accounts_error, of fl fl' msg] by simp
  then have "accounts (ok \<and> \<not> null_field data') fl (if ok \<and> null_field data' then f_error msg fl' else fl')"
    using k(2) by (cases ok) simp_all
  moreover have "scan_key sn data fl = Some (ok \<and> \<not> null_field data', data', if ok \<and> null_field data' then f_error msg fl' else fl')"
    unfolding eq by simp
  ultimately show ?thesis by blast
qed

subsection \<open>Page numbers\<close>

definition done_ok :: "bool + bytes \<Rightarrow> bool" where
  "done_ok r = (case r of Inl ok \<Rightarrow> ok | Inr _ \<Rightarrow> True)"

lemma after_enter_ok:
  "after_numeral st no i (enter no npg v fl) = (r, npg', fl') \<Longrightarrow> accounts (done_ok r) fl fl'"
  by (auto simp: after_numeral_def enter_def done_ok_def split: if_splits)

lemma scan_arabic_ok: "scan_arabic st no npg fl = (r, npg', fl') \<Longrightarrow> accounts (done_ok r) fl fl'"
  unfolding scan_arabic_def
  by (auto split: sum.splits if_splits dest: after_enter_ok simp: done_ok_def)

lemma scan_roman_ok: "scan_roman st k no npg fl = (r, npg', fl') \<Longrightarrow> accounts (done_ok r) fl fl'"
  unfolding scan_roman_def
  by (auto split: sum.splits prod.splits if_splits dest: after_enter_ok simp: done_ok_def)

lemma scan_alpha_ok: "scan_alpha st k no npg fl = (r, npg', fl') \<Longrightarrow> accounts (done_ok r) fl fl'"
  unfolding scan_alpha_def by (rule after_enter_ok)

lemma set_guess_same [simp]:
  "sn_style (set_guess sn i v) = sn_style sn" "entries (set_guess sn i v) = entries sn"
  "total (set_guess sn i v) = total sn" "rejected (set_guess sn i v) = rejected sn"
  by (simp_all add: set_guess_def)

text \<open>What scanning a page number leaves alone in the scanner.\<close>

definition same_scan :: "scanner \<Rightarrow> scanner \<Rightarrow> bool" where
  "same_scan sn sn' \<longleftrightarrow> sn_style sn' = sn_style sn \<and> entries sn' = entries sn \<and> total sn' = total sn \<and> rejected sn' = rejected sn"

lemma scan_no_field_ok:
  assumes "scan_no_field sn no npg fl = (sn', ty, r, npg', fl')"
  shows "same_scan sn sn' \<and> accounts (done_ok r) fl fl'"
proof
  define sn1 where "sn1 = (case new_guess (sn_style sn) no (guess sn (length npg)) of Some v \<Rightarrow> set_guess sn (length npg) v | None \<Rightarrow> sn)"
  have same: "same_scan sn sn1" by (auto simp: sn1_def same_scan_def split: option.splits)
  have "sn' = sn1" using assms by (auto simp: scan_no_field_def Let_def sn1_def [symmetric] split: if_splits)
  then show "same_scan sn sn'" using same by simp
  show "accounts (done_ok r) fl fl'"
    using assms scan_arabic_ok [of "sn_style sn" no npg fl r npg' fl'] scan_roman_ok [of "sn_style sn" _ no npg fl r npg' fl']
      scan_alpha_ok [of "sn_style sn" _ no npg fl r npg' fl']
    unfolding scan_no_field_def Let_def sn1_def [symmetric]
    by (auto simp: done_ok_def split: if_splits)
qed

lemma same_scan_trans: "same_scan a b \<Longrightarrow> same_scan b c \<Longrightarrow> same_scan a c"
  by (simp add: same_scan_def)

lemma scan_rest_ok:
  "scan_rest sn no npg fl = (ok, sn', npg', fl') \<Longrightarrow> same_scan sn sn' \<and> accounts ok fl fl'"
proof (induction sn no npg fl rule: scan_rest.induct)
  case (1 sn no npg fl)
  obtain sn1 ty r npg1 fl1 where f: "scan_no_field sn no npg fl = (sn1, ty, r, npg1, fl1)" by (metis prod_cases5)
  note f1 = scan_no_field_ok [OF f]
  show ?case
  proof (cases r)
    case (Inl b)
    then show ?thesis using 1(2) f1 by (auto simp: scan_rest.simps [of sn] f done_ok_def)
  next
    case (Inr rest)
    have "scan_rest sn1 rest npg1 fl1 = (ok, sn', npg', fl')" using 1(2) by (simp add: scan_rest.simps [of sn] f Inr)
    from 1(1) [OF f [unfolded Inr, symmetric] refl refl refl refl this] f1 show ?thesis
      using same_scan_trans [of sn sn1 sn'] accounts_trans [of fl fl1 ok fl'] by (simp add: done_ok_def Inr)
  qed
qed

lemma scan_no_ok:
  assumes "scan_no sn no data fl = (ok, sn', data', fl')"
  shows "same_scan sn sn' \<and> accounts ok fl fl'"
proof -
  obtain sn1 ty r npg1 fl1 where f: "scan_no_field sn no (e_npg data) fl = (sn1, ty, r, npg1, fl1)" by (metis prod_cases5)
  note f1 = scan_no_field_ok [OF f]
  show ?thesis
  proof (cases r)
    case (Inl b)
    then show ?thesis using assms f1 by (auto simp: scan_no_def f Let_def done_ok_def)
  next
    case (Inr rest)
    obtain ok2 sn2 npg2 fl2 where s: "scan_rest sn1 rest npg1 fl1 = (ok2, sn2, npg2, fl2)" by (metis prod_cases4)
    then show ?thesis
      using assms f1 scan_rest_ok [OF s] same_scan_trans [of sn sn1 sn2] accounts_trans [of fl fl1 ok2 fl2]
      by (auto simp: scan_no_def f Inr s Let_def done_ok_def)
  qed
qed

subsection \<open>Entries\<close>

text \<open>What finishing an entry does to the scanner: one entry more exactly when it succeeds.\<close>

definition collects :: "bool \<Rightarrow> scanner \<Rightarrow> scanner \<Rightarrow> bool" where
  "collects ok sn sn' \<longleftrightarrow> sn_style sn' = sn_style sn \<and> total sn' = total sn \<and> rejected sn' = rejected sn \<and>
     (if ok then \<exists>e. entries sn' = entries sn @ [e] else entries sn' = entries sn)"

lemma make_key_ok:
  assumes "escape_ch (sn_style sn) \<noteq> CHR 0x00"
  shows "\<exists>ok sn' fl'. make_key sn k fl = Some (ok, sn', fl') \<and> collects ok sn sn' \<and> accounts ok fl fl'"
proof -
  define data where "data = \<lparr>sf = [[], [], []], af = [[], [], []], e_group = 0, e_lpg = [], e_npg = [], e_ty = EMPTY, e_encap = [],
                   sf_cap = [1, 1, 1], af_cap = [1, 1, 1], encap_cap = 1, e_file = k, e_lc = 0\<rparr>"
  obtain ok data1 fl1 where key: "scan_key sn data fl = Some (ok, data1, fl1)" "accounts ok fl fl1"
    using scan_key_ok [OF assms] by blast
  define no data2 where "no = c_str (f_no (fst fl1))" and "data2 = data1\<lparr>e_group := group_type (sf data1 ! 0), e_lpg := no\<rparr>"
  obtain ok2 sn2 data3 fl2 where no: "scan_no sn no data2 fl1 = (ok2, sn2, data3, fl2)" by (metis prod_cases4)
  have eq: "make_key sn k fl = Some (if \<not> ok then (False, sn, fl1) else if \<not> ok2 then (False, sn2, fl2)
      else (True, sn2\<lparr>entries := entries sn2 @ [data3\<lparr>e_lc := f_lc (fst fl2)\<rparr>]\<rparr>, fl2))"
    unfolding make_key_def data_def [symmetric] key(1) Let_def bind.bind_lunit prod.case no_def [symmetric] data2_def [symmetric] no by (rule refl)
  have "ok \<Longrightarrow> accounts ok2 fl fl2" using scan_no_ok [OF no] key(2) accounts_trans [of fl fl1 ok2 fl2] by simp
  then have acc: "accounts (ok \<and> ok2) fl (if ok then fl2 else fl1)" using key(2) by (cases ok) simp_all
  define res where "res = (if \<not> ok then sn else if \<not> ok2 then sn2 else sn2\<lparr>entries := entries sn2 @ [data3\<lparr>e_lc := f_lc (fst fl2)\<rparr>]\<rparr>)"
  have "collects (ok \<and> ok2) sn res" using scan_no_ok [OF no] by (auto simp: res_def collects_def same_scan_def)
  moreover have "make_key sn k fl = Some (ok \<and> ok2, res, if ok then fl2 else fl1)" unfolding eq res_def by simp
  ultimately show ?thesis using acc by blast
qed

text \<open>
  The books of a file: the entries begun are the entries collected, the errors, and the one that is
  being read.
\<close>

definition balanced :: "nat \<Rightarrow> scan_state \<Rightarrow> bool" where
  "balanced base s \<longleftrightarrow> - 1 \<le> arg_count s \<and> arg_count s \<le> 2 \<and> base \<le> length (entries (st_sn s)) \<and>
     f_tc (fst (st_fl s)) + base = length (entries (st_sn s)) + f_ec (fst (st_fl s)) + (if arg_count s = - 1 then 0 else 1)"

definition keeps_scanner :: "scan_state \<Rightarrow> scan_state \<Rightarrow> bool" where
  "keeps_scanner s s' \<longleftrightarrow> sn_style (st_sn s') = sn_style (st_sn s) \<and> total (st_sn s') = total (st_sn s) \<and>
     rejected (st_sn s') = rejected (st_sn s)"

lemma finish_entry_ok:
  assumes "escape_ch (sn_style (st_sn s)) \<noteq> CHR 0x00" "balanced base s" "arg_count s = 2"
  shows "\<exists>s'. finish_entry k s = Some s' \<and> balanced base s' \<and> keeps_scanner s s' \<and> arg_count s' = - 1"
proof -
  obtain ok sn' fl' where m: "make_key (st_sn s) k (st_fl s) = Some (ok, sn', fl')" "collects ok (st_sn s) sn'" "accounts ok (st_fl s) fl'"
    using make_key_ok [OF assms(1)] by blast
  then show ?thesis
    using assms(2,3)
    by (cases ok) (auto simp: finish_entry_def balanced_def keeps_scanner_def collects_def accounts_def errors_def)
qed

lemma reject_ok:
  assumes "balanced base s" "arg_count s \<noteq> - 1" "\<And>f. f_tc (prep f) = f_tc f" "\<And>f. f_ec (prep f) = f_ec f"
  shows "balanced base (reject prep msg s) \<and> keeps_scanner s (reject prep msg s) \<and> arg_count (reject prep msg s) = - 1"
  using assms by (auto simp: reject_def balanced_def keeps_scanner_def f_error_def Let_def split: prod.splits)

subsection \<open>Files\<close>

lemma counts_simps [simp]:
  "counts (f\<lparr>f_stream := str\<rparr>) = counts f" "counts (f\<lparr>f_key := key\<rparr>) = counts f" "counts (f\<lparr>f_no := no\<rparr>) = counts f"
  "counts (f\<lparr>f_stream := str, f_key := key\<rparr>) = counts f" "counts (f\<lparr>f_stream := str, f_no := no\<rparr>) = counts f"
  "counts (push_key a f) = counts f" "counts (next_line f) = counts f" "counts (flush_to_eol f) = counts f" "counts (f_skip_line f) = counts f"
  by (simp_all add: counts_def push_key_def next_line_def flush_to_eol_def f_skip_line_def)

lemma accounts_counts: "accounts True fl fl' \<longleftrightarrow> counts (fst fl') = counts (fst fl)"
  by (auto simp: accounts_def counts_def errors_def)

lemma accounts_counts_error: "counts f = counts f' \<Longrightarrow> accounts False (f, log) (f_error msg (f', log'))"
  by (simp add: accounts_def counts_def errors_def f_error_def Let_def)

lemma arg1_loop_counts: "counts (snd (arg1_loop st compress depth a f)) = counts f"
proof (induction st compress depth a f rule: arg1_loop.induct)
  case (1 st compress depth a f)
  note IH = 1(1-4)
  obtain b s where g: "getc (f_stream f) = (b, s)" by (cases "getc (f_stream f)")
  obtain c s2 where g2: "getc s = (c, s2)" by (cases "getc s")
  consider (stop) "\<not> (length (f_key f) < ARGUMENT_MAX \<and> a \<noteq> C_EOF)"
    | (go) "length (f_key f) < ARGUMENT_MAX \<and> a \<noteq> C_EOF" by blast
  then show ?case
  proof cases
    case stop
    show ?thesis unfolding arg1_loop.simps [of st compress depth a f] if_not_P [OF stop] by simp
  next
    case go
    note eq = arg1_loop.simps [of st compress depth a f, unfolded if_P [OF go]]
    consider "is_char a (quote_ch st) \<or> is_char a (escape_ch st)"
      | "\<not> (is_char a (quote_ch st) \<or> is_char a (escape_ch st))" "is_char a (arg_open st)"
      | "\<not> (is_char a (quote_ch st) \<or> is_char a (escape_ch st))" "\<not> is_char a (arg_open st)" "is_char a (arg_close st)"
      | "\<not> (is_char a (quote_ch st) \<or> is_char a (escape_ch st))" "\<not> is_char a (arg_open st)" "\<not> is_char a (arg_close st)"
      by blast
    then show ?thesis
    proof cases
      case 1
      then show ?thesis using IH(1) [OF go 1 g [symmetric] refl g2 [symmetric] refl] unfolding eq by (simp add: g g2)
    next
      case 2
      then show ?thesis using IH(2) [OF go 2 g [symmetric] refl] unfolding eq by (simp add: g)
    next
      case 3
      then show ?thesis using IH(3) [OF go 3 _ g [symmetric] refl] unfolding eq by (simp add: g)
    next
      case 4
      then show ?thesis using IH(4) [OF go 4 _ refl g [symmetric] refl] unfolding eq by (simp add: g Let_def)
    qed
  qed
qed

lemma scan_arg1_ok: "scan_arg1 sn fl = (ok, fl') \<Longrightarrow> accounts ok fl fl'"
proof -
  assume a: "scan_arg1 sn fl = (ok, fl')"
  obtain f log where fl: "fl = (f, log)" by (cases fl)
  obtain b s where g: "getc (f_stream f) = (b, s)" by (cases "getc (f_stream f)")
  obtain c s2 where sp: "(if compress_blanks sn then skip_spaces s b else (b, s)) = (c, s2)" by fastforce
  obtain r f2 where l: "arg1_loop (sn_style sn) (compress_blanks sn) 0 c (f\<lparr>f_key := [], f_stream := s2\<rparr>) = (r, f2)"
    by fastforce
  have f2: "counts f2 = counts f" using arg1_loop_counts [of "sn_style sn" "compress_blanks sn" 0 c "f\<lparr>f_key := [], f_stream := s2\<rparr>"] by (simp add: l)
  show ?thesis
    using a f2 by (auto simp: scan_arg1_def fl g sp l Let_def accounts_counts accounts_counts_error split: option.splits sum.splits)
qed

lemma arg2_loop_counts: "counts (snd (arg2_loop st hb a f)) = counts f"
proof (induction st hb a f rule: arg2_loop.induct)
  case (1 st hb a f)
  obtain b s where g: "getc (f_stream f) = (b, s)" by (cases "getc (f_stream f)")
  show ?case
    using 1(1) [OF _ _ _ _ g [symmetric] refl] 1(2) [OF _ _ _ _ _ g [symmetric] refl]
    by (simp add: arg2_loop.simps [of st hb a f] g)
qed

lemma scan_arg2_ok: "scan_arg2 sn fl = (ok, fl') \<Longrightarrow> accounts ok fl fl'"
proof -
  assume a: "scan_arg2 sn fl = (ok, fl')"
  obtain f log where fl: "fl = (f, log)" by (cases fl)
  obtain b s where g: "getc (f_stream f) = (b, s)" by (cases "getc (f_stream f)")
  obtain c s2 where sp: "skip_spaces s b = (c, s2)" by fastforce
  obtain r f2 where l: "arg2_loop (sn_style sn) False c (f\<lparr>f_no := [], f_stream := s2\<rparr>) = (r, f2)" by fastforce
  have f2: "counts f2 = counts f" using arg2_loop_counts [of "sn_style sn" False c "f\<lparr>f_no := [], f_stream := s2\<rparr>"] by (simp add: l)
  show ?thesis
    using a f2 by (auto simp: scan_arg2_def fl g sp l Let_def accounts_counts accounts_counts_error split: option.splits)
qed

lemma reject_balanced:
  assumes "balanced base s" "arg_count s \<noteq> - 1" "\<And>f. counts (prep f) = counts f"
  shows "balanced base (reject prep msg s) \<and> keeps_scanner s (reject prep msg s) \<and> arg_count (reject prep msg s) = - 1"
  by (rule reject_ok [OF assms(1,2)]) (use assms(3) in \<open>auto simp: counts_def\<close>)

text \<open>One character keeps the books, and the loop ends between two entries.\<close>

definition step_ok :: "nat \<Rightarrow> scan_state \<Rightarrow> scan_state + scan_state \<Rightarrow> bool" where
  "step_ok base s r = (case r of
     Inl s' \<Rightarrow> balanced base s' \<and> keeps_scanner s s' \<and> arg_count s' = - 1
   | Inr s' \<Rightarrow> balanced base s' \<and> keeps_scanner s s')"

definition steps_ok :: "nat \<Rightarrow> scan_state \<Rightarrow> (scan_state + scan_state) option \<Rightarrow> bool" where
  "steps_ok base s x \<longleftrightarrow> (\<exists>r. x = Some r \<and> step_ok base s r)"

lemma steps_ok_some [simp]: "steps_ok base s (Some r) = step_ok base s r"
  by (simp add: steps_ok_def)

lemma steps_ok_if: "(c \<Longrightarrow> steps_ok base s a) \<Longrightarrow> (\<not> c \<Longrightarrow> steps_ok base s b) \<Longrightarrow> steps_ok base s (if c then a else b)"
  by simp

lemma scan_step_ok:
  assumes esc: "escape_ch (sn_style (st_sn s)) \<noteq> CHR 0x00" and bal: "balanced base s"
  shows "steps_ok base s (scan_step k s)"
proof -
  obtain c str where g: "getc (f_stream (fst (st_fl s))) = (c, str)" by (cases "getc (f_stream (fst (st_fl s)))")
  define s1 where "s1 = s\<lparr>st_fl := ((fst (st_fl s))\<lparr>f_stream := str\<rparr>, snd (st_fl s))\<rparr>"
  define line where "line = s1\<lparr>st_fl := (next_line (fst (st_fl s1)), snd (st_fl s1))\<rparr>"
  have b1: "balanced base s1" "arg_count s1 = arg_count s" "st_sn s1 = st_sn s" using bal by (simp_all add: s1_def balanced_def)
  have b2: "balanced base line" "arg_count line = arg_count s" "st_sn line = st_sn s"
    using bal by (simp_all add: line_def s1_def balanced_def next_line_def)
  have range: "- 1 \<le> arg_count s" "arg_count s \<le> 2" using bal by (simp_all add: balanced_def)
  note eq = scan_step_def [of k s, unfolded g Let_def prod.case, folded s1_def, folded line_def]
  have finish: "steps_ok base s (map_option Inr (finish_entry k line))" if "arg_count s = 2"
    using finish_entry_ok [of line base k] esc b2 that by (auto simp: step_ok_def keeps_scanner_def)
  have rej: "step_ok base s (Inl (reject prep msg line))" "step_ok base s (Inr (reject prep msg line))" "step_ok base s (Inr (reject prep msg s1))"
    if "arg_count s \<noteq> - 1" "\<And>f. counts (prep f) = counts f" for prep msg
    using reject_balanced [of base line prep msg] reject_balanced [of base s1 prep msg] b1 b2 that
    by (simp_all add: step_ok_def keeps_scanner_def)
  have plain: "step_ok base s (Inr s1)" "step_ok base s (Inr line)" "arg_count s = - 1 \<Longrightarrow> step_ok base s (Inl s1)"
    using b1 b2 by (simp_all add: step_ok_def keeps_scanner_def)
  have begun: "step_ok base s (Inr (s1\<lparr>st_keyword := w, arg_count := 0,
      st_fl := ((fst (st_fl s1))\<lparr>f_tc := f_tc (fst (st_fl s1)) + 1\<rparr>, snd (st_fl s1))\<rparr>))" if "arg_count s = - 1" for w
    using b1 that by (simp add: step_ok_def keeps_scanner_def balanced_def)
  have more: "step_ok base s (Inr (s1\<lparr>st_keyword := w\<rparr>))" for w
    using b1 by (simp add: step_ok_def keeps_scanner_def balanced_def)
  have arg: "step_ok base s (Inr (s1\<lparr>st_fl := fl, arg_count := if ok then n else - 1\<rparr>))"
    if "accounts ok (st_fl s1) fl" "arg_count s \<noteq> - 1" "0 \<le> n" "n \<le> 2" for ok fl n
    using b1 that by (cases ok) (simp_all add: step_ok_def keeps_scanner_def balanced_def accounts_def errors_def)
  have arg1: "step_ok base s (Inr (s1\<lparr>st_fl := snd (scan_arg1 (st_sn s1) (st_fl s1)), arg_count := if fst (scan_arg1 (st_sn s1) (st_fl s1)) then 1 else - 1\<rparr>))"
    if "arg_count s = 0" by (rule arg [OF scan_arg1_ok [OF surjective_pairing]]) (use that in simp_all)
  have arg2: "step_ok base s (Inr (s1\<lparr>st_fl := snd (scan_arg2 (st_sn s1) (st_fl s1)), arg_count := if fst (scan_arg2 (st_sn s1) (st_fl s1)) then 2 else - 1\<rparr>))"
    if "arg_count s = 1" by (rule arg [OF scan_arg2_ok [OF surjective_pairing]]) (use that in simp_all)
  show ?thesis
    unfolding eq case_prod_beta
    by (intro steps_ok_if) (use finish range in \<open>simp_all only: steps_ok_some plain begun more arg1 arg2 rej b1(2) b2(2) counts_simps
      id_apply one_neq_neg_one numeral_neq_neg_one zero_neq_neg_one not_False_eq_True\<close>)
qed

lemma keeps_scanner_trans: "keeps_scanner a b \<Longrightarrow> keeps_scanner b c \<Longrightarrow> keeps_scanner a c"
  by (simp add: keeps_scanner_def)

lemma scan_loop_ok:
  "escape_ch (sn_style (st_sn s)) \<noteq> CHR 0x00 \<Longrightarrow> balanced base s \<Longrightarrow>
   \<exists>s'. scan_loop k s = Some s' \<and> balanced base s' \<and> keeps_scanner s s' \<and> arg_count s' = - 1"
proof (induction k s rule: scan_loop.induct)
  case (1 k s)
  obtain r where r: "scan_step k s = Some r" "step_ok base s r"
    using scan_step_ok [OF 1(2,3), of k] by (auto simp: steps_ok_def)
  show ?case
  proof (cases r)
    case (Inl s')
    then show ?thesis using r by (simp add: scan_loop.simps [of k s] step_ok_def)
  next
    case (Inr s')
    then have s': "balanced base s'" "keeps_scanner s s'" using r(2) by (simp_all add: step_ok_def)
    then have "escape_ch (sn_style (st_sn s')) \<noteq> CHR 0x00" using 1(2) by (simp add: keeps_scanner_def)
    from 1(1) [OF r(1) Inr this s'(1)] obtain s2 where
      "scan_loop k s' = Some s2" "balanced base s2" "keeps_scanner s' s2" "arg_count s2 = - 1" by blast
    then show ?thesis using r(1) Inr keeps_scanner_trans [OF s'(2)] by (simp add: scan_loop.simps [of k s])
  qed
qed

lemma scan_file_books:
  assumes "escape_ch (sn_style sn) \<noteq> CHR 0x00"
  shows "\<exists>sn' log'. scan_file sn bs k name log = Some (sn', log') \<and> sn_style sn' = sn_style sn \<and>
    length (entries sn) \<le> length (entries sn') \<and> rejected sn \<le> rejected sn' \<and>
    total sn' + (length (entries sn) + rejected sn) = total sn + (length (entries sn') + rejected sn')"
proof -
  define start where "start = (message (''Scanning input file '' @ name @ ''...'') log)\<lparr>idx_dc := 0\<rparr>"
  define f where "f = \<lparr>f_stream = stream_new bs, f_name = name, f_lc = 0, f_tc = 0, f_ec = 0, f_key = [], f_no = []\<rparr>"
  define s0 where "s0 = \<lparr>st_sn = sn, st_fl = (f, start), st_keyword = [], arg_count = - 1\<rparr>"
  have "balanced (length (entries sn)) s0" by (simp add: balanced_def s0_def f_def)
  then obtain s where s: "scan_loop k s0 = Some s" "balanced (length (entries sn)) s" "keeps_scanner s0 s" "arg_count s = - 1"
    using scan_loop_ok [of s0 "length (entries sn)" k] assms by (auto simp: s0_def)
  note eq = scan_file_def [of sn bs k name log, folded start_def f_def, unfolded Let_def, folded s0_def]
  show ?thesis
    using s(2-4) unfolding eq s(1) bind.bind_lunit
    by (simp add: balanced_def keeps_scanner_def s0_def)
qed

definition empty_log :: transcript where
  "empty_log = \<lparr>t_ilg = [], ilg_to_stderr = False, verbose = False, idx_dot = False, idx_dc = 0, stderr = []\<rparr>"

text \<open>
  Property C18.  Scanning an index file never fails and never loops, whatever the bytes of the file,
  when the style's escape character is not NUL; and the books balance: the entries begun are exactly
  those added to the scanner's list and those rejected.
\<close>
theorem scan_file_accounts:
  assumes "escape_ch (sn_style sn) \<noteq> CHR 0x00"
  shows "\<exists>sn' log'. scan_file sn bs k name log = Some (sn', log') \<and> sn_style sn' = sn_style sn \<and>
    length (entries sn) \<le> length (entries sn') \<and> rejected sn \<le> rejected sn' \<and>
    total sn' + (length (entries sn) + rejected sn) = total sn + (length (entries sn') + rejected sn')"
  by (rule scan_file_books [OF assms])

lemma default_escape: "escape_ch style_default \<noteq> CHR 0x00"
  by (simp add: style_default_def Let_def)

text \<open>A file with one good and one bad entry.\<close>

lemma scan_file_accounts_witness:
  "\<exists>sn' log'. scan_file (scanner_new style_default False False)
      (BS @ ''indexentry{b}{4}'' @ NL @ BS @ ''nonsense{b}{4}'' @ NL) 0 ''a.idx'' empty_log = Some (sn', log') \<and>
    sn_style sn' = style_default \<and> total sn' = length (entries sn') + rejected sn'"
  using scan_file_accounts [of "scanner_new style_default False False" "BS @ ''indexentry{b}{4}'' @ NL @ BS @ ''nonsense{b}{4}'' @ NL" 0 "''a.idx''" empty_log]
    default_escape by (simp add: scanner_new_def)

end
