(* ===== verification/MiMain.thy ===== *)
theory MiMain
  imports MiGen
begin

text \<open>
  \<open>crates/tex-makeindex/src/lib.rs\<close>: the command line, the names of files, and the run that puts the
  parts together - style, input files, scanning, sorting, output and transcript.  The \<open>Host\<close> trait
  (file access), the environment variables and the C library's locale are a parameter: a record of
  functions.  What a run writes is its result: the files in the order they are written, the standard
  output, and the terminal (standard error) of the transcript.  Path names are those of Unix.
\<close>

(* @src crates/tex-makeindex/src/lib.rs const BANNER *)
definition BANNER :: bytes where "BANNER = ''This is makeindex, version 2.18 [TeX Live 2026] (TeXres).'' @ NL"
(* @src crates/tex-makeindex/src/lib.rs const USAGE *)
definition USAGE :: bytes where
  "USAGE = ''Usage: makeindex [-ilqrcgLT] [-s sty] [-o ind] [-t log] [-p num] [idx0 idx1 ...]'' @ NL"
(* @src crates/tex-makeindex/src/lib.rs const MAX_INPUTS *)
definition MAX_INPUTS :: nat where "MAX_INPUTS = 1024"

(* @src crates/tex-makeindex/src/lib.rs struct Options *)
record options =
  o_quiet :: bool
  o_stdin :: bool
  o_letter_ordering :: bool
  o_compress_blanks :: bool
  o_no_ranges :: bool
  o_german :: bool
  o_locale_sort :: bool
  o_thai :: bool
  o_style :: "bytes option"
  o_output :: "bytes option"
  o_log :: "bytes option"
  o_start_page :: "bytes option"
  o_inputs :: "bytes list"

definition options_default :: options where
  "options_default = \<lparr>o_quiet = False, o_stdin = False, o_letter_ordering = False, o_compress_blanks = False,
     o_no_ranges = False, o_german = False, o_locale_sort = False, o_thai = False, o_style = None, o_output = None,
     o_log = None, o_start_page = None, o_inputs = []\<rparr>"

(* @src crates/tex-makeindex/src/lib.rs:68-86 Host *)
record host =
  h_read :: "bytes \<Rightarrow> bytes option"
  h_exists :: "bytes \<Rightarrow> bool"
  h_find_style :: "bytes \<Rightarrow> (bytes \<times> bytes) option"
  h_stdin :: "bytes option"
  h_write_ok :: "bytes \<Rightarrow> bool"
  h_output_directory :: "bytes option"
  h_env :: "bytes \<Rightarrow> bytes option"
  h_locale :: "((bytes \<Rightarrow> bytes \<Rightarrow> int) \<times> ctype) option"

record world =
  w_log :: transcript
  w_files :: "(bytes \<times> bytes) list"
  w_stdout :: bytes

subsection \<open>The command line\<close>

(* @src crates/tex-makeindex/src/lib.rs fn style_candidates *)
definition style_candidates :: "bytes \<Rightarrow> bytes list" where
  "style_candidates name =
     (if length name \<ge> 4 \<and> drop (length name - 4) name = ''.ist'' then [name] else [name @ ''.ist'', name])"

(* @src crates/tex-makeindex/src/lib.rs fn is_explicit_path *)
definition is_explicit_path :: "bytes \<Rightarrow> bool" where
  "is_explicit_path name \<longleftrightarrow> starts_with name ''/'' \<or> starts_with name ''./'' \<or> starts_with name ''../''"

text \<open>The first character of a UTF-8 string with its continuation bytes.\<close>

definition first_char :: "bytes \<Rightarrow> bytes" where
  "first_char s = (case s of [] \<Rightarrow> [] | c # cs \<Rightarrow> c # takeWhile (\<lambda>b. CHR 0x80 \<le> b \<and> b < CHR 0xC0) cs)"

(* @src crates/tex-makeindex/src/lib.rs:255-266 parse_args *)
definition switch :: "u8 \<Rightarrow> options \<Rightarrow> options option" where
  "switch flag opts =
     (if flag = CHR ''i'' then Some (opts\<lparr>o_stdin := True\<rparr>)
      else if flag = CHR ''l'' then Some (opts\<lparr>o_letter_ordering := True\<rparr>)
      else if flag = CHR ''r'' then Some (opts\<lparr>o_no_ranges := True\<rparr>)
      else if flag = CHR ''q'' then Some (opts\<lparr>o_quiet := True\<rparr>)
      else if flag = CHR ''c'' then Some (opts\<lparr>o_compress_blanks := True\<rparr>)
      else if flag = CHR ''g'' then Some (opts\<lparr>o_german := True\<rparr>)
      else if flag = CHR ''L'' then Some (opts\<lparr>o_locale_sort := True\<rparr>)
      else if flag = CHR ''T'' then Some (opts\<lparr>o_thai := True, o_locale_sort := True\<rparr>)
      else None)"

(* @src crates/tex-makeindex/src/lib.rs:278-288 parse_args *)
definition set_value :: "u8 \<Rightarrow> bytes \<Rightarrow> options \<Rightarrow> bytes + options" where
  "set_value flag value opts =
     (if flag = CHR ''s'' then Inr (opts\<lparr>o_style := Some value\<rparr>)
      else if flag = CHR ''o'' then Inr (opts\<lparr>o_output := Some value\<rparr>)
      else if flag = CHR ''t'' then Inr (opts\<lparr>o_log := Some value\<rparr>)
      else if length value \<ge> NUMBER_MAX then Inl (''Page number too high'' @ NL)
      else Inr (opts\<lparr>o_start_page := Some value\<rparr>))"

(* @src crates/tex-makeindex/src/lib.rs:254-292 parse_args *)
fun parse_flags :: "bytes \<Rightarrow> options \<Rightarrow> bytes list \<Rightarrow> bytes + options \<times> bytes list" where
  "parse_flags [] opts args = Inr (opts, args)"
| "parse_flags (flag # flags) opts args =
     (case switch flag opts of
        Some opts \<Rightarrow> parse_flags flags opts args
      | None \<Rightarrow>
          if flag \<in> set ''sotp'' then
            (case args of
               [] \<Rightarrow> Inl ((if flag = CHR ''s'' then ''Expected -s <stylefile>'' else if flag = CHR ''o'' then ''Expected -o <ind>''
                          else if flag = CHR ''t'' then ''Expected -t <logfile>'' else ''Expected -p <num>'') @ NL)
             | value # args \<Rightarrow>
                 (case set_value flag value opts of
                    Inl msg \<Rightarrow> Inl msg
                  | Inr opts \<Rightarrow> parse_flags flags opts args))
          else Inl (''Unknown option -'' @ first_char (flag # flags) @ ''.'' @ NL))"

lemma parse_flags_args: "parse_flags flags opts args = Inr (opts', args') \<Longrightarrow> length args' \<le> length args"
proof (induction flags opts args rule: parse_flags.induct)
  case (2 flag flags opts args)
  show ?case
  proof (cases "switch flag opts")
    case None
    note IH = 2(1) [OF None]
    show ?thesis
    proof (cases "flag \<in> set ''sotp''")
      case True
      with 2(3) None obtain v rest opts2 where "args = v # rest" "set_value flag v opts = Inr opts2"
        "parse_flags flags opts2 rest = Inr (opts', args')"
        by (simp split: list.splits sum.splits)
      with IH [OF True this] show ?thesis by simp
    next
      case False
      then show ?thesis using 2(3) None by (simp only: parse_flags.simps option.case if_False sum.distinct)
    qed
  qed (use 2 in simp)
qed simp

(* @src crates/tex-makeindex/src/lib.rs:240-294 parse_args *)
function parse_loop :: "options \<Rightarrow> bytes list \<Rightarrow> bytes + options" where
  "parse_loop opts [] = Inr opts"
| "parse_loop opts (arg # args) =
     (if \<not> starts_with arg ''-'' then
        (if length (o_inputs opts) \<ge> MAX_INPUTS then
           Inl (''Too many input files (max '' @ dec_nat MAX_INPUTS @ '').'' @ NL)
         else parse_loop (opts\<lparr>o_inputs := o_inputs opts @ [arg]\<rparr>) args)
      else if drop 1 arg = [] then Inr opts
      else (case parse_flags (drop 1 arg) opts args of
              Inl msg \<Rightarrow> Inl msg
            | Inr (opts, args) \<Rightarrow> parse_loop opts args))"
  by pat_completeness auto
termination
  by (relation "measure (\<lambda>(opts, args). length args)") (auto simp: less_Suc_eq_le dest: parse_flags_args)

(* @src crates/tex-makeindex/src/lib.rs fn parse_args *)
definition parse_args :: "bytes list \<Rightarrow> bytes + options" where
  "parse_args args = parse_loop options_default args"

subsection \<open>File names\<close>

text \<open>The position of the last dot, counted from the front.\<close>

definition rfind :: "u8 \<Rightarrow> bytes \<Rightarrow> nat option" where
  "rfind c name =
     (if c \<in> set name then Some (length name - 1 - length (takeWhile (\<lambda>b. b \<noteq> c) (rev name))) else None)"

(* @src crates/tex-makeindex/src/lib.rs fn base_name *)
definition base_name :: "bytes \<Rightarrow> bytes \<times> bool" where
  "base_name name =
     (case rfind (CHR ''.'') name of
        Some d \<Rightarrow> if d > 0 \<and> CHR 0x2F \<notin> set (drop (d + 1) name) then (take d name, True) else (name, False)
      | None \<Rightarrow> (name, False))"

(* @src crates/tex-makeindex/src/lib.rs fn check_idx *)
definition check_idx :: "bytes \<Rightarrow> host \<Rightarrow> bytes + bytes \<times> bytes" where
  "check_idx name h =
     (let (base, with_extension) = base_name name; with_idx = base @ ''.idx''
      in if length base \<ge> STRING_MAX then
           Inl (''Index file name '' @ base @ '' too long (max '' @ dec_nat STRING_MAX @ '').'' @ NL)
         else if h_exists h name then Inr (name, base)
         else if with_extension then Inl (''Input index file '' @ name @ '' not found.'' @ NL)
         else if h_exists h with_idx then Inr (with_idx, base)
         else Inl (''Couldn'' @ [CHR 0x27] @ ''t find input index file '' @ base @ '' nor '' @ with_idx @ ''.'' @ NL))"

(* @src crates/tex-makeindex/src/lib.rs fn log_page_number *)
definition log_page_number :: "bytes \<Rightarrow> bytes option" where
  "log_page_number log =
     (if length log < 2 then None
      else
        let opened = (case find (\<lambda>k. log ! k = CHR ''['' \<and> is_ascii_digit (log ! (k + 1))) (rev [0..<length log - 1]) of
              Some k \<Rightarrow> Some k
            | None \<Rightarrow> if log ! 0 = CHR ''['' then Some 0 else None)
        in case opened of
             None \<Rightarrow> None
           | Some k \<Rightarrow>
               let page = dropWhile (\<lambda>b. b = CHR '' '') (drop (k + 1) log)
               in Some ((case page of [] \<Rightarrow> CHR 0xFF | b # _ \<Rightarrow> b) # takeWhile is_ascii_digit (tl page)))"

subsection \<open>Where output may go\<close>

(* @src crates/tex-makeindex/src/lib.rs:420-443 expand_name *)
function expand_vars :: "host \<Rightarrow> bytes \<Rightarrow> bytes" where
  "expand_vars h [] = []"
| "expand_vars h (c # after) =
     (if c \<noteq> CHR ''$'' then c # expand_vars h after
      else
        let (var, tail) =
          (if starts_with after ''{'' then
             (let braced = drop 1 after; var = takeWhile (\<lambda>b. b \<noteq> CHR ''}'') braced
              in (var, drop (length var + 1) braced))
           else
             (let var = takeWhile (\<lambda>b. is_ascii_alphabetic b \<or> is_ascii_digit b \<or> b = CHR ''_'') after
              in (var, drop (length var) after)))
        in (if var = [] then ''$'' else case h_env h var of Some v \<Rightarrow> v | None \<Rightarrow> []) @ expand_vars h tail)"
  by pat_completeness auto
termination
  by (relation "measure (\<lambda>(h, s). length s)") (auto simp: Let_def split: if_splits)

(* @src crates/tex-makeindex/src/lib.rs fn expand_name *)
definition expand_name :: "host \<Rightarrow> bytes \<Rightarrow> bytes" where
  "expand_name h name =
     (let home = (case h_env h ''HOME'' of Some v \<Rightarrow> v | None \<Rightarrow> []);
          name = (case name of
              c # rest \<Rightarrow> if c = CHR ''~'' \<and> (rest = [] \<or> starts_with rest ''/'') then home @ rest else name
            | [] \<Rightarrow> name)
      in expand_vars h name)"

(* @src crates/tex-makeindex/src/lib.rs fn below_root *)
definition below_root :: "bytes \<Rightarrow> bytes option \<Rightarrow> bool" where
  "below_root name dir =
     (case dir of
        None \<Rightarrow> False
      | Some dir \<Rightarrow> dir \<noteq> [] \<and> length name > length dir \<and> starts_with name dir \<and> name ! length dir = CHR 0x2F)"

text \<open>The positions of \<open>..\<close> in a name, the next one looked for after the last.\<close>

fun dot_dots :: "nat \<Rightarrow> bytes \<Rightarrow> nat list" where
  "dot_dots q (a # b # s) = (if a = CHR ''.'' \<and> b = CHR ''.'' then q # dot_dots (q + 2) s else dot_dots (q + 1) (b # s))"
| "dot_dots q _ = []"

(* @src crates/tex-makeindex/src/lib.rs:480-505 out_name_ok *)
definition name_allowed :: "host \<Rightarrow> u8 \<Rightarrow> bytes \<Rightarrow> bool" where
  "name_allowed h c name =
     (let b = byte_at name;
          expanded = expand_name h name;
          dot_file = list_ex (\<lambda>q. b q = CHR ''.'' \<and> (q = 0 \<or> b (q - 1) = CHR 0x2F) \<and> b (q + 1) \<noteq> CHR 0x2F \<and>
            \<not> (b (q + 1) = CHR ''.'' \<and> b (q + 2) = CHR 0x2F)) [0..<length name]
      in if dot_file then False
         else if c \<in> set ''rn0'' then True
         else
           let dir = (case h_output_directory h of Some d \<Rightarrow> Some d | None \<Rightarrow> h_env h ''TEXMF_OUTPUT_DIRECTORY'')
           in if starts_with expanded ''/'' \<and> \<not> below_root expanded dir \<and> \<not> below_root expanded (h_env h ''TEXMFOUTPUT'') then False
              else if starts_with name ''../'' then False
              else \<not> list_ex (\<lambda>q. q > 0 \<and> name ! (q - 1) = CHR 0x2F \<and> q + 2 < length name \<and> name ! (q + 2) = CHR 0x2F)
                     (dot_dots 0 name))"

definition eprint :: "bytes \<Rightarrow> world \<Rightarrow> world" where
  "eprint msg w = w\<lparr>w_log := (w_log w)\<lparr>stderr := stderr (w_log w) @ msg\<rparr>\<rparr>"

(* @src crates/tex-makeindex/src/lib.rs fn out_name_ok *)
definition out_name_ok :: "host \<Rightarrow> bytes \<Rightarrow> world \<Rightarrow> bool \<times> world" where
  "out_name_ok h name w =
     (let choice = (case h_env h ''openout_any'' of Some v \<Rightarrow> if v = [] then ''p'' else v | None \<Rightarrow> ''p''); c = hd choice
      in if c \<in> set ''ay1'' then (True, w)
         else if name_allowed h c name then (True, w)
         else (False, eprint (NL @ ''makeindex: Not writing to '' @ name @ '' (openout_any = '' @ choice
                 @ ''; no extended check).'' @ NL) w))"

subsection \<open>A run\<close>

(* @src crates/tex-makeindex/src/lib.rs struct Outputs *)
record outputs =
  out_ind :: "bytes option"
  out_ilg :: "bytes option"

definition fatal :: "bytes \<Rightarrow> world \<Rightarrow> int \<times> world" where
  "fatal msg w = (1, eprint (msg @ USAGE) w)"

text \<open>A write that fails leaves the file alone.\<close>

definition write_file :: "host \<Rightarrow> bytes \<Rightarrow> bytes \<Rightarrow> world \<Rightarrow> world" where
  "write_file h path bs w = (if h_write_ok h path then w\<lparr>w_files := w_files w @ [(path, bs)]\<rparr> else w)"

definition log_with :: "(transcript \<Rightarrow> transcript) \<Rightarrow> world \<Rightarrow> world" where
  "log_with f w = w\<lparr>w_log := f (w_log w)\<rparr>"

(* @src crates/tex-makeindex/src/lib.rs fn abandon *)
definition abandon :: "host \<Rightarrow> outputs \<Rightarrow> bytes \<Rightarrow> world \<Rightarrow> int \<times> world" where
  "abandon h outs msg w =
     (let w = (case out_ind outs of Some ind \<Rightarrow> write_file h ind [] w | None \<Rightarrow> w);
          w = (case out_ilg outs of Some path \<Rightarrow> write_file h path (t_ilg (w_log w)) w | None \<Rightarrow> w)
      in (1, eprint (msg @ USAGE) w))"

(* @src crates/tex-makeindex/src/lib.rs fn open *)
definition open_outputs :: "host \<Rightarrow> outputs \<Rightarrow> world \<Rightarrow> bytes option \<times> world" where
  "open_outputs h outs w =
     (let (ok, w) = (case out_ind outs of Some ind \<Rightarrow> out_name_ok h ind w | None \<Rightarrow> (True, w))
      in if \<not> ok then (Some (''Can'' @ [CHR 0x27] @ ''t create output index file '' @ the (out_ind outs) @ ''.'' @ NL), w)
         else
           let (ok, w) = (case out_ilg outs of Some path \<Rightarrow> out_name_ok h path w | None \<Rightarrow> (True, w))
           in if \<not> ok then
                (Some (''Can'' @ [CHR 0x27] @ ''t create transcript file '' @ the (out_ilg outs) @ ''.'' @ NL),
                 case out_ind outs of Some ind \<Rightarrow> write_file h ind [] w | None \<Rightarrow> w)
              else (None, w))"

(* @src crates/tex-makeindex/src/lib.rs:571-577 run *)
fun check_inputs :: "host \<Rightarrow> bytes list \<Rightarrow> bytes + (bytes \<times> bytes) list" where
  "check_inputs h [] = Inr []"
| "check_inputs h (name # names) =
     (case check_idx name h of
        Inl msg \<Rightarrow> Inl msg
      | Inr input \<Rightarrow> (case check_inputs h names of Inl msg \<Rightarrow> Inl msg | Inr inputs \<Rightarrow> Inr (input # inputs)))"

(* @src crates/tex-makeindex/src/lib.rs:563-587 run *)
definition find_styles :: "options \<Rightarrow> host \<Rightarrow> bytes + (bytes \<times> bytes) option \<times> (bytes \<times> bytes) list" where
  "find_styles opts h =
     (let not_found = (\<lambda>name. ''Index style file '' @ name @ '' not found.'' @ NL);
          style_file = (case o_style opts of
              Some name \<Rightarrow> (case h_find_style h name of Some found \<Rightarrow> Inr (Some found) | None \<Rightarrow> Inl (not_found name))
            | None \<Rightarrow> Inr None)
      in case style_file of
           Inl msg \<Rightarrow> Inl msg
         | Inr style_file \<Rightarrow>
             (case check_inputs h (o_inputs opts) of
                Inl msg \<Rightarrow> Inl msg
              | Inr inputs \<Rightarrow>
                  if length inputs = 1 \<and> style_file = None then
                    (let mst = snd (hd inputs) @ ''.mst''
                     in if h_exists h mst then
                          (case h_find_style h mst of
                             Some found \<Rightarrow> Inr (Some found, inputs)
                           | None \<Rightarrow> Inl (not_found mst))
                        else Inr (None, inputs))
                  else Inr (style_file, inputs)))"

(* @src crates/tex-makeindex/src/lib.rs:588-593 run *)
definition even_odd_of :: "bytes option \<Rightarrow> int" where
  "even_odd_of page =
     (case page of
        Some p \<Rightarrow> if p = ''even'' then 2 else if p = ''odd'' then 1 else if p = ''any'' then 0 else - 1
      | None \<Rightarrow> - 1)"

text \<open>The inputs' contents, or the path of the first one that cannot be read.\<close>

(* @src crates/tex-makeindex/src/lib.rs:627-632 run *)
fun read_inputs :: "host \<Rightarrow> (bytes \<times> bytes) list \<Rightarrow> bytes + (bytes \<times> bytes) list" where
  "read_inputs h [] = Inr []"
| "read_inputs h ((path, _) # inputs) =
     (case h_read h path of
        None \<Rightarrow> Inl path
      | Some bs \<Rightarrow> (case read_inputs h inputs of Inl p \<Rightarrow> Inl p | Inr sources \<Rightarrow> Inr ((path, bs) # sources)))"

text \<open>What the first part of a run leaves for the rest of it.\<close>

record prepared =
  p_style :: style
  p_outputs :: outputs
  p_sources :: "(bytes \<times> bytes) list"
  p_ind_name :: bytes
  p_ilg_name :: bytes
  p_start_page :: "bytes option"

definition quote_clash :: "options \<Rightarrow> style \<Rightarrow> bool" where
  "quote_clash opts st \<longleftrightarrow> o_german opts \<and> quote_ch st = CHR 0x22"

definition scan_style :: "(bytes \<times> bytes) option \<Rightarrow> world \<Rightarrow> style \<times> world" where
  "scan_style file w =
     (case file of
        Some (path, bs) \<Rightarrow> (let (st, log) = style_scan bs path style_default (w_log w) in (st, w\<lparr>w_log := log\<rparr>))
      | None \<Rightarrow> (style_default, w))"

(* @src crates/tex-makeindex/src/lib.rs:601-633 run *)
definition prepare_files :: "options \<Rightarrow> host \<Rightarrow> (bytes \<times> bytes) option \<Rightarrow> (bytes \<times> bytes) list \<Rightarrow> world \<Rightarrow>
    (int \<times> world) + prepared \<times> world" where
  "prepare_files opts h style_file inputs w =
     (let base = snd (hd inputs); even_odd = even_odd_of (o_start_page opts);
          ind_name = (case o_output opts of Some n \<Rightarrow> n | None \<Rightarrow> base @ ''.ind'');
          ilg_name = (case o_log opts of Some n \<Rightarrow> n | None \<Rightarrow> base @ ''.ilg'');
          outs = \<lparr>out_ind = Some ind_name, out_ilg = Some ilg_name\<rparr>;
          (refused, w) = open_outputs h outs w
      in case refused of
           Some msg \<Rightarrow> Inl (fatal msg w)
         | None \<Rightarrow>
             let log_name = base @ ''.log''
             in if even_odd \<ge> 0 \<and> h_read h log_name = None then
                  Inl (abandon h outs (''Source log file '' @ log_name @ '' not found.'' @ NL) w)
                else
                  let start = (if even_odd \<ge> 0 then log_page_number (the (h_read h log_name)) else o_start_page opts);
                      w = (if even_odd \<ge> 0 \<and> start = None then
                             log_with (ilg (''Couldn'' @ [CHR 0x27] @ ''t find any page number in '' @ log_name @ ''...ignored'' @ NL)) w
                           else w);
                      w = log_with (message BANNER) w;
                      (st, w) = scan_style style_file w
                  in if quote_clash opts st then
                       Inl (abandon h outs (''Option -g invalid, quote character must be different from '' @ [CHR 0x27, CHR 0x22, CHR 0x27] @ ''.'' @ NL) w)
                     else
                       case read_inputs h inputs of
                         Inl path \<Rightarrow> Inl (abandon h outs (''Input index file '' @ path @ '' not found.'' @ NL) w)
                       | Inr sources \<Rightarrow>
                           Inr (\<lparr>p_style = st, p_outputs = outs, p_sources = sources, p_ind_name = ind_name, p_ilg_name = ilg_name,
                                 p_start_page = start\<rparr>, w))"

(* @src crates/tex-makeindex/src/lib.rs:633-657 run *)
definition prepare_stdin :: "options \<Rightarrow> host \<Rightarrow> (bytes \<times> bytes) option \<Rightarrow> world \<Rightarrow> (int \<times> world) + prepared \<times> world" where
  "prepare_stdin opts h style_file w =
     (let ind_name = (case o_output opts of Some n \<Rightarrow> n | None \<Rightarrow> ''stdout'');
          (ilg_name, w) = (case o_log opts of
              Some n \<Rightarrow> (n, w)
            | None \<Rightarrow> (''stderr'', log_with (\<lambda>log. log\<lparr>ilg_to_stderr := True, verbose := False\<rparr>) w));
          outs = \<lparr>out_ind = o_output opts, out_ilg = o_log opts\<rparr>;
          (refused, w) = open_outputs h outs w
      in case refused of
           Some msg \<Rightarrow> Inl (fatal msg w)
         | None \<Rightarrow>
             let (st, w) = scan_style style_file w
             in if quote_clash opts st then
                  Inl (abandon h outs (''Option -g ignored, quote character must be different from '' @ [CHR 0x27, CHR 0x22, CHR 0x27] @ ''.'' @ NL) w)
                else
                  Inr (\<lparr>p_style = st, p_outputs = outs, p_sources = [], p_ind_name = ind_name, p_ilg_name = ilg_name,
                        p_start_page = o_start_page opts\<rparr>, log_with (message BANNER) w))"

(* @src crates/tex-makeindex/src/lib.rs:667-669 run *)
fun scan_sources :: "scanner \<Rightarrow> nat \<Rightarrow> (bytes \<times> bytes) list \<Rightarrow> transcript \<Rightarrow> (scanner \<times> transcript) option" where
  "scan_sources sn k [] log = Some (sn, log)"
| "scan_sources sn k ((name, bs) # sources) log = do {
     (sn, log) \<leftarrow> scan_file sn bs k name log;
     scan_sources sn (k + 1) sources log
   }"

text \<open>The comparison of a run counts, prints its dots and marks duplicates.\<close>

(* @src crates/tex-makeindex/src/lib.rs:698-702 run *)
definition counting_compare :: "collation \<Rightarrow> (entry list \<times> nat \<times> transcript) comparator" where
  "counting_compare c a b = (\<lambda>(es, n, log). do {
     (d, es) \<leftarrow> compare c a b es;
     Some (d, es, n + 1, dot CMP_MAX log)
   })"

(* @src crates/tex-makeindex/src/lib.rs:704-705 run *)
fun take_slots :: "nat list \<Rightarrow> entry option list \<Rightarrow> entry list option" where
  "take_slots [] slots = Some []"
| "take_slots (k # ks) slots =
     (if length slots \<le> k then None
      else do {
        es \<leftarrow> take_slots ks (slots[k := None]);
        Some (case slots ! k of Some e \<Rightarrow> e # es | None \<Rightarrow> es)
      })"

(* @src crates/tex-makeindex/src/lib.rs:686-718 run *)
definition sort_and_write :: "options \<Rightarrow> host \<Rightarrow> prepared \<Rightarrow> entry list \<Rightarrow> transcript \<Rightarrow> (bytes \<times> transcript) option" where
  "sort_and_write opts h p es log = do {
     let log = (message ''Sorting entries...'' log)\<lparr>idx_dc := 0\<rparr>;
     let c = \<lparr>letter_ordering = o_letter_ordering opts, c_german_sort = o_german opts,
              c_locale = (if o_locale_sort opts then map_option fst (h_locale h) else None),
              c_range_open = range_open (p_style p), c_range_close = range_close (p_style p)\<rparr>;
     (keys, es, comparisons, log) \<leftarrow> qqsort (counting_compare c) [0..<length es] (es, 0, log);
     let log = message (''done ('' @ dec_nat comparisons @ '' comparisons).'' @ NL) log;
     sorted \<leftarrow> take_slots keys (map Some es);
     let L = \<lparr>lay_style = p_style p, merge_page = \<not> o_no_ranges opts, l_german_sort = o_german opts, thai_sort = o_thai opts,
              start_page = p_start_page p, input_names = map fst (p_sources p), output_name = p_ind_name p,
              l_locale = map_option snd (h_locale h)\<rparr>;
     (ind, log) \<leftarrow> generate sorted L log;
     Some (ind, message (''Output written in '' @ p_ind_name p @ ''.'' @ NL) log)
   }"

(* @src crates/tex-makeindex/src/lib.rs:722-740 run *)
definition finish_run :: "host \<Rightarrow> prepared \<Rightarrow> bytes \<Rightarrow> world \<Rightarrow> int \<times> world" where
  "finish_run h p ind w =
     (let w = log_with (message (''Transcript written in '' @ p_ilg_name p @ ''.'' @ NL)) w;
          outs = p_outputs p;
          refused = (\<lambda>path. \<not> h_write_ok h path)
      in case out_ind outs of
           Some path \<Rightarrow>
             if refused path then fatal (''Can'' @ [CHR 0x27] @ ''t create output index file '' @ path @ ''.'' @ NL) w
             else
               let w = write_file h path ind w
               in (case out_ilg outs of
                     Some path \<Rightarrow>
                       if refused path then fatal (''Can'' @ [CHR 0x27] @ ''t create transcript file '' @ path @ ''.'' @ NL) w
                       else (0, write_file h path (t_ilg (w_log w)) w)
                   | None \<Rightarrow> (0, w))
         | None \<Rightarrow>
             let w = w\<lparr>w_stdout := w_stdout w @ ind\<rparr>
             in (case out_ilg outs of
                   Some path \<Rightarrow>
                     if refused path then fatal (''Can'' @ [CHR 0x27] @ ''t create transcript file '' @ path @ ''.'' @ NL) w
                     else (0, write_file h path (t_ilg (w_log w)) w)
                 | None \<Rightarrow> (0, w)))"

(* @src crates/tex-makeindex/src/lib.rs:658-721 run *)
definition run_sources :: "options \<Rightarrow> host \<Rightarrow> prepared \<Rightarrow> world \<Rightarrow> (int \<times> world) option" where
  "run_sources opts h p w = do {
     let even_odd = even_odd_of (o_start_page opts);
     let p = p\<lparr>p_sources := p_sources p @ (if o_stdin opts \<or> o_inputs opts = [] then
            [(''stdin'', case h_stdin h of Some bs \<Rightarrow> bs | None \<Rightarrow> [])] else []),
          p_start_page := (if even_odd \<ge> 0 then map_option (\<lambda>page. next_page page even_odd) (p_start_page p) else p_start_page p)\<rparr>;
     (sn, log) \<leftarrow> scan_sources (scanner_new (p_style p) (o_compress_blanks opts) (o_german opts)) 0 (p_sources p) (w_log w);
     let accepted = usize_minus (total sn) (rejected sn);
     let files = length (p_sources p);
     let log = (if files > 1 then
         message (''Overall '' @ dec_nat files @ '' files read ('' @ dec_nat accepted @ '' entries accepted, ''
           @ dec_nat (rejected sn) @ '' rejected).'' @ NL) log else log);
     (if accepted > 0 then
        (if entries sn = [] then Some (abandon h (p_outputs p) (''No valid index entries collected.'' @ NL) (w\<lparr>w_log := log\<rparr>))
         else do {
           (ind, log) \<leftarrow> sort_and_write opts h p (entries sn) log;
           Some (finish_run h p ind (w\<lparr>w_log := log\<rparr>))
         })
      else
        Some (finish_run h p [] (w\<lparr>w_log := message (''Nothing written in '' @ p_ind_name p @ ''.'' @ NL) log\<rparr>)))
   }"

(* @src crates/tex-makeindex/src/lib.rs fn run *)
definition mi_run :: "options \<Rightarrow> host \<Rightarrow> (int \<times> world) option" where
  "mi_run opts h =
     (let w = \<lparr>w_log = \<lparr>t_ilg = [], ilg_to_stderr = False, verbose = \<not> o_quiet opts, idx_dot = True, idx_dc = 0, stderr = []\<rparr>,
               w_files = [], w_stdout = []\<rparr>
      in case find_styles opts h of
           Inl msg \<Rightarrow> Some (fatal msg w)
         | Inr (style_file, inputs) \<Rightarrow>
             (case (if inputs \<noteq> [] then prepare_files opts h style_file inputs w else prepare_stdin opts h style_file w) of
                Inl r \<Rightarrow> Some r
              | Inr (p, w) \<Rightarrow> run_sources opts h p w))"

(* @src crates/tex-makeindex/src/lib.rs fn run_cli *)
definition run_cli :: "bytes list \<Rightarrow> host \<Rightarrow> (int \<times> world) option" where
  "run_cli args h =
     (case parse_args args of
        Inr opts \<Rightarrow> mi_run opts h
      | Inl msg \<Rightarrow> Some (fatal msg \<lparr>w_log = \<lparr>t_ilg = [], ilg_to_stderr = False, verbose = True, idx_dot = True, idx_dc = 0, stderr = []\<rparr>,
          w_files = [], w_stdout = []\<rparr>))"

end
