(* ===== verification/MiMainCorrect.thy ===== *)
theory MiMainCorrect
  imports MiMain MiScanCorrect MiOrder MiGenCorrect
begin

text \<open>
  A whole run of makeindex: it always ends with an exit status, its parts fit together (what the
  scanner collects is what is sorted and written), and it writes only to names that pass the check of
  output names - which keeps them out of dot files and parent directories.
\<close>

subsection \<open>Scanning the sources\<close>

text \<open>The scanner's books over all files.\<close>

definition books :: "scanner \<Rightarrow> bool" where
  "books sn \<longleftrightarrow> total sn = length (entries sn) + rejected sn"

lemma scan_sources_ok:
  "escape_ch (sn_style sn) \<noteq> CHR 0x00 \<Longrightarrow> books sn \<Longrightarrow>
   \<exists>sn' log'. scan_sources sn k sources log = Some (sn', log') \<and> books sn'"
proof (induction sn k sources log rule: scan_sources.induct)
  case (2 sn k name bs sources log)
  obtain sn1 log1 where 1: "scan_file sn bs k name log = Some (sn1, log1)" "sn_style sn1 = sn_style sn"
    "total sn1 + (length (entries sn) + rejected sn) = total sn + (length (entries sn1) + rejected sn1)"
    using scan_file_books [OF 2(2)] by blast
  then have "books sn1" using 2(3) by (simp add: books_def)
  from 2(1) [OF 1(1) refl _ this] 1(2) 2(2) 1(1) show ?case by simp
qed simp

lemma scanner_new_books: "books (scanner_new st cb g)" "sn_style (scanner_new st cb g) = st"
  by (simp_all add: books_def scanner_new_def)

subsection \<open>Sorting the entries\<close>

interpretation run_order: comparator "counting_compare c" "\<lambda>(es, n :: nat, log :: transcript). map unmark es = map unmark es0" "{0..<length es0}"
  for c es0
proof
  fix s :: "entry list \<times> nat \<times> transcript" and a b
  assume inv: "case s of (es, n, log) \<Rightarrow> map unmark es = map unmark es0" and ab: "a \<in> {0..<length es0}" "b \<in> {0..<length es0}"
  obtain es n log where s: "s = (es, n, log)" by (cases s)
  have es: "map unmark es = map unmark es0" using inv by (simp add: s)
  have "length es = length es0" by (rule map_eq_imp_length_eq [OF es])
  then obtain d es' where "compare c a b es = Some (d, es')" using compare_returns [of a es b c] ab by auto
  then show "\<exists>d s'. counting_compare c a b s = Some (d, s') \<and> (case s' of (es, n, log) \<Rightarrow> map unmark es = map unmark es0)"
    using es compare_keeps [of c a b es d es'] by (simp add: counting_compare_def s)
qed

lemma take_slots_ok:
  "distinct keys \<Longrightarrow> \<forall>k \<in> set keys. k < length slots \<and> slots ! k = Some (es ! k) \<Longrightarrow>
   take_slots keys slots = Some (map (nth es) keys)"
proof (induction keys slots rule: take_slots.induct)
  case (2 k ks slots)
  have "\<forall>j \<in> set ks. j < length (slots[k := None]) \<and> slots[k := None] ! j = Some (es ! j)"
  proof
    fix j assume "j \<in> set ks"
    then have "j \<noteq> k" using 2(2) by auto
    then show "j < length (slots[k := None]) \<and> slots[k := None] ! j = Some (es ! j)" using 2(3) \<open>j \<in> set ks\<close> by simp
  qed
  then show ?case using 2 by simp
qed simp

definition usable :: "style \<Rightarrow> bool" where
  "usable st \<longleftrightarrow> escape_ch st \<noteq> CHR 0x00 \<and> range_open st \<noteq> CHR 0x00 \<and> range_close st \<noteq> CHR 0x00"

lemma sort_and_write_ok:
  assumes "usable (p_style p)"
  shows "\<exists>ind log'. sort_and_write opts h p es log = Some (ind, log')"
proof -
  define c where "c = \<lparr>letter_ordering = o_letter_ordering opts, c_german_sort = o_german opts,
              c_locale = (if o_locale_sort opts then map_option fst (h_locale h) else None),
              c_range_open = range_open (p_style p), c_range_close = range_close (p_style p)\<rparr>"
  define L where "L = \<lparr>lay_style = p_style p, merge_page = \<not> o_no_ranges opts, l_german_sort = o_german opts, thai_sort = o_thai opts,
              start_page = p_start_page p, input_names = map fst (p_sources p), output_name = p_ind_name p,
              l_locale = map_option snd (h_locale h)\<rparr>"
  define log1 where "log1 = (message ''Sorting entries...'' log)\<lparr>idx_dc := 0\<rparr>"
  have "run_order.ok es [0..<length es] (es, 0, log1)" by (simp add: run_order.ok_def)
  then obtain keys es' n log2 where q: "qqsort (counting_compare c) [0..<length es] (es, 0, log1) = Some (keys, es', n, log2)"
    "mset keys = mset [0..<length es]" "map unmark es' = map unmark es"
    using run_order.qqsort_ok [of es "[0..<length es]" "(es, 0, log1)" c] by (auto simp: run_order.ok_def)
  have len: "length es' = length es" by (rule map_eq_imp_length_eq [OF q(3)])
  have "distinct keys" "set keys = {0..<length es}"
    using mset_eq_imp_distinct_iff [OF q(2)] mset_eq_setD [OF q(2)] by auto
  then have t: "take_slots keys (map Some es') = Some (map (nth es') keys)" by (intro take_slots_ok) (auto simp: len)
  define log3 where "log3 = message (''done ('' @ dec_nat n @ '' comparisons).'' @ NL) log2"
  have "range_open (lay_style L) \<noteq> CHR 0x00" "range_close (lay_style L) \<noteq> CHR 0x00" using assms by (simp_all add: L_def usable_def)
  then obtain ind log4 where g: "generate (map (nth es') keys) L log3 = Some (ind, log4)"
    using generate_total by blast
  show ?thesis
    unfolding sort_and_write_def Let_def c_def [symmetric] L_def [symmetric] log1_def [symmetric] q(1) bind.bind_lunit prod.case
      t log3_def [symmetric] g by blast
qed

subsection \<open>What a run writes\<close>

definition openout_choice :: "host \<Rightarrow> u8" where
  "openout_choice h = hd (case h_env h ''openout_any'' of Some v \<Rightarrow> if v = [] then ''p'' else v | None \<Rightarrow> ''p'')"

definition accepted_name :: "host \<Rightarrow> bytes \<Rightarrow> bool" where
  "accepted_name h path \<longleftrightarrow> openout_choice h \<in> set ''ay1'' \<or> name_allowed h (openout_choice h) path"

lemma eprint_files [simp]: "w_files (eprint msg w) = w_files w"
  by (simp add: eprint_def)

lemma log_with_files [simp]: "w_files (log_with f w) = w_files w"
  by (simp add: log_with_def)

lemma out_name_ok_accepted: "fst (out_name_ok h path w) = accepted_name h path" "w_files (snd (out_name_ok h path w)) = w_files w"
  unfolding out_name_ok_def Let_def accepted_name_def openout_choice_def by (simp_all split del: list.split)

text \<open>Every file written so far has an accepted name.\<close>

definition confined :: "host \<Rightarrow> world \<Rightarrow> bool" where
  "confined h w \<longleftrightarrow> (\<forall>(path, bs) \<in> set (w_files w). accepted_name h path)"

definition outs_ok :: "host \<Rightarrow> outputs \<Rightarrow> bool" where
  "outs_ok h outs \<longleftrightarrow> (\<forall>path. out_ind outs = Some path \<or> out_ilg outs = Some path \<longrightarrow> accepted_name h path)"

lemma confined_same: "w_files w' = w_files w \<Longrightarrow> confined h w' = confined h w"
  by (simp add: confined_def)

lemma confined_keeps [simp]: "confined h (eprint msg w) = confined h w" "confined h (log_with f w) = confined h w"
  "confined h (w\<lparr>w_log := log\<rparr>) = confined h w" "confined h (w\<lparr>w_stdout := bs\<rparr>) = confined h w"
  by (simp_all add: confined_def)

lemma confined_write: "confined h w \<Longrightarrow> accepted_name h path \<Longrightarrow> confined h (write_file h path bs w)"
  by (auto simp: confined_def write_file_def)

lemma confined_fatal [simp]: "confined h (snd (fatal msg w)) = confined h w" "fst (fatal msg w) = 1"
  by (simp_all add: fatal_def)

lemma confined_abandon: "confined h w \<Longrightarrow> outs_ok h outs \<Longrightarrow> confined h (snd (abandon h outs msg w))"
  by (cases "out_ind outs"; cases "out_ilg outs") (simp_all add: abandon_def Let_def confined_write outs_ok_def)

lemma fst_abandon [simp]: "fst (abandon h outs msg w) = 1"
  by (simp add: abandon_def Let_def)

lemma open_outputs_ok:
  assumes "open_outputs h outs w = (refused, w')" "confined h w"
  shows "confined h w'" "refused = None \<Longrightarrow> outs_ok h outs"
proof -
  obtain ok1 w1 where 1: "(case out_ind outs of Some ind \<Rightarrow> out_name_ok h ind w | None \<Rightarrow> (True, w)) = (ok1, w1)" by fastforce
  obtain ok2 w2 where 2: "(case out_ilg outs of Some path \<Rightarrow> out_name_ok h path w1 | None \<Rightarrow> (True, w1)) = (ok2, w2)" by fastforce
  have ok1: "(\<forall>ind. out_ind outs = Some ind \<longrightarrow> accepted_name h ind = ok1) \<and> w_files w1 = w_files w"
  proof (cases "out_ind outs")
    case (Some ind)
    then show ?thesis using 1 out_name_ok_accepted [of h ind w] by simp
  qed (use 1 in simp)
  have ok2: "(\<forall>path. out_ilg outs = Some path \<longrightarrow> accepted_name h path = ok2) \<and> w_files w2 = w_files w1"
  proof (cases "out_ilg outs")
    case (Some path)
    then show ?thesis using 2 out_name_ok_accepted [of h path w1] by simp
  qed (use 2 in simp)
  have c: "confined h w1" "confined h w2" using assms(2) ok1 ok2 by (simp_all add: confined_def)
  note eq = assms(1) [unfolded open_outputs_def Let_def 1 prod.case 2]
  show "confined h w'" using eq c ok1 by (auto split: if_splits option.splits intro: confined_write)
  show "refused = None \<Longrightarrow> outs_ok h outs" using eq ok1 ok2 by (auto simp: outs_ok_def split: if_splits)
qed

lemma scan_style_files [simp]: "confined h (snd (scan_style sty w)) = confined h w"
  by (simp add: scan_style_def split: option.splits prod.splits)

text \<open>What the first part of a run leaves: a status of 1, or something to go on with.\<close>

definition prepared_ok :: "host \<Rightarrow> (int \<times> world) + prepared \<times> world \<Rightarrow> bool" where
  "prepared_ok h r = (case r of
     Inl (status, w) \<Rightarrow> status = 1 \<and> confined h w
   | Inr (p, w) \<Rightarrow> outs_ok h (p_outputs p) \<and> confined h w)"

lemma prepared_ok_fatal: "confined h w \<Longrightarrow> prepared_ok h (Inl (fatal msg w))"
  using confined_fatal(1) [of h msg w] confined_fatal(2) [of msg w] by (cases "fatal msg w") (simp add: prepared_ok_def)

lemma prepared_ok_abandon: "confined h w \<Longrightarrow> outs_ok h outs \<Longrightarrow> prepared_ok h (Inl (abandon h outs msg w))"
  using confined_abandon [of h w outs msg] fst_abandon [of h outs msg w] by (cases "abandon h outs msg w") (simp add: prepared_ok_def)

lemma prepared_ok_if: "(c \<Longrightarrow> prepared_ok h a) \<Longrightarrow> (\<not> c \<Longrightarrow> prepared_ok h b) \<Longrightarrow> prepared_ok h (if c then a else b)"
  by simp

lemma prepared_ok_sum:
  "(\<And>x. r = Inl x \<Longrightarrow> prepared_ok h (f x)) \<Longrightarrow> (\<And>x. r = Inr x \<Longrightarrow> prepared_ok h (g x)) \<Longrightarrow>
   prepared_ok h (case r of Inl x \<Rightarrow> f x | Inr x \<Rightarrow> g x)"
  by (cases r) simp_all

lemma prepare_stdin_ok:
  assumes "confined h w"
  shows "prepared_ok h (prepare_stdin opts h style_file w)"
proof -
  obtain ilg_name w1 where 1: "(case o_log opts of Some n \<Rightarrow> (n, w)
            | None \<Rightarrow> (''stderr'', log_with (\<lambda>log. log\<lparr>ilg_to_stderr := True, verbose := False\<rparr>) w)) = (ilg_name, w1)" by fastforce
  have "confined h w1" using 1 assms by (auto split: option.splits)
  define outs where "outs = \<lparr>out_ind = o_output opts, out_ilg = o_log opts\<rparr>"
  obtain refused w2 where 2: "open_outputs h outs w1 = (refused, w2)" by fastforce
  obtain st w3 where 3: "scan_style style_file w2 = (st, w3)" by fastforce
  note c = open_outputs_ok [OF 2 \<open>confined h w1\<close>]
  have c3: "confined h w3" using scan_style_files [of h style_file w2] c(1) by (simp add: 3)
  show ?thesis
  proof (cases refused)
    case (Some msg)
    show ?thesis
      unfolding prepare_stdin_def Let_def 1 prod.case outs_def [symmetric] 2 Some option.case by (rule prepared_ok_fatal [OF c(1)])
  next
    case None
    show ?thesis
      unfolding prepare_stdin_def Let_def 1 prod.case outs_def [symmetric] 2 None option.case 3
      by (intro prepared_ok_if prepared_ok_abandon c3 c(2) [OF None]) (simp add: prepared_ok_def c3 c(2) [OF None])
  qed
qed

lemma prepare_files_ok:
  assumes "confined h w"
  shows "prepared_ok h (prepare_files opts h style_file inputs w)"
proof -
  define outs where "outs = \<lparr>out_ind = Some (case o_output opts of Some n \<Rightarrow> n | None \<Rightarrow> snd (hd inputs) @ ''.ind''),
    out_ilg = Some (case o_log opts of Some n \<Rightarrow> n | None \<Rightarrow> snd (hd inputs) @ ''.ilg'')\<rparr>"
  obtain refused w1 where 1: "open_outputs h outs w = (refused, w1)" by fastforce
  note c = open_outputs_ok [OF 1 assms]
  show ?thesis
  proof (cases refused)
    case (Some msg)
    show ?thesis
      unfolding prepare_files_def Let_def outs_def [symmetric] 1 prod.case Some option.case by (rule prepared_ok_fatal [OF c(1)])
  next
    case None
    note o = c(2) [OF None]
    have c3: "confined h (snd (scan_style style_file (log_with (message BANNER) (if b then log_with f w1 else w1))))" for b f
      using c(1) by simp
    have ready: "prepared_ok h (Inr (\<lparr>p_style = st, p_outputs = outs, p_sources = sources, p_ind_name = ind, p_ilg_name = ilg, p_start_page = start\<rparr>,
        snd (scan_style style_file (log_with (message BANNER) (if b then log_with f w1 else w1)))))" for st sources ind ilg start b f
      using c3 o by (simp add: prepared_ok_def)
    show ?thesis
      unfolding prepare_files_def Let_def outs_def [symmetric] 1 None case_prod_beta fst_conv snd_conv option.case
      by (intro prepared_ok_if prepared_ok_sum prepared_ok_abandon c(1) o c3 ready)
  qed
qed

lemma finish_run_ok:
  assumes "outs_ok h (p_outputs p)" "confined h w"
  shows "fst (finish_run h p ind w) \<in> {0, 1}" "confined h (snd (finish_run h p ind w))"
  using assms by (cases "out_ind (p_outputs p)"; cases "out_ilg (p_outputs p)";
      simp add: finish_run_def Let_def confined_write outs_ok_def)+

text \<open>
  The end of a run: when the books of the scanner balance, entries were accepted exactly when entries
  were collected, so that the message about no valid entries is never printed.
\<close>

lemma run_sources_eq:
  fixes sn
  assumes "books sn" "p' = p\<lparr>p_sources := p_sources p @ (if o_stdin opts \<or> o_inputs opts = [] then
            [(''stdin'', case h_stdin h of Some bs \<Rightarrow> bs | None \<Rightarrow> [])] else []),
          p_start_page := (if even_odd_of (o_start_page opts) \<ge> 0 then map_option (\<lambda>page. next_page page (even_odd_of (o_start_page opts))) (p_start_page p) else p_start_page p)\<rparr>"
    "scan_sources (scanner_new (p_style p') (o_compress_blanks opts) (o_german opts)) 0 (p_sources p') (w_log w) = Some (sn, log)"
  obtains log1 msg where "run_sources opts h p w = (if entries sn \<noteq> [] then do {
      (ind, log2) \<leftarrow> sort_and_write opts h p' (entries sn) log1;
      Some (finish_run h p' ind (w\<lparr>w_log := log2\<rparr>)) }
    else Some (finish_run h p' [] (w\<lparr>w_log := message msg log1\<rparr>)))"
proof -
  have accepted: "usize_minus (total sn) (rejected sn) = length (entries sn)" using assms(1) by (simp add: books_def)
  define msg where "msg = ''Nothing written in '' @ p_ind_name p' @ ''.'' @ NL"
  define log1 where "log1 = (if length (p_sources p') > 1 then
         message (''Overall '' @ dec_nat (length (p_sources p')) @ '' files read ('' @ dec_nat (length (entries sn)) @ '' entries accepted, ''
           @ dec_nat (rejected sn) @ '' rejected).'' @ NL) log else log)"
  have "run_sources opts h p w = (if entries sn \<noteq> [] then do {
      (ind, log2) \<leftarrow> sort_and_write opts h p' (entries sn) log1;
      Some (finish_run h p' ind (w\<lparr>w_log := log2\<rparr>)) }
    else Some (finish_run h p' [] (w\<lparr>w_log := message msg log1\<rparr>)))"
    unfolding run_sources_def Let_def assms(2) [symmetric] assms(3) bind.bind_lunit prod.case accepted log1_def [symmetric] msg_def [symmetric]
    by (cases "entries sn = []") simp_all
  then show ?thesis by (rule that)
qed

lemma run_sources_ok:
  assumes "usable (p_style p)" "outs_ok h (p_outputs p)" "confined h w"
  shows "\<exists>status w'. run_sources opts h p w = Some (status, w') \<and> status \<in> {0, 1} \<and> confined h w'"
proof -
  define p' where "p' = p\<lparr>p_sources := p_sources p @ (if o_stdin opts \<or> o_inputs opts = [] then
            [(''stdin'', case h_stdin h of Some bs \<Rightarrow> bs | None \<Rightarrow> [])] else []),
          p_start_page := (if even_odd_of (o_start_page opts) \<ge> 0 then map_option (\<lambda>page. next_page page (even_odd_of (o_start_page opts))) (p_start_page p) else p_start_page p)\<rparr>"
  have p': "usable (p_style p')" "outs_ok h (p_outputs p')" using assms(1,2) by (simp_all add: p'_def)
  have "escape_ch (sn_style (scanner_new (p_style p') (o_compress_blanks opts) (o_german opts))) \<noteq> CHR 0x00"
    using p'(1) by (simp add: scanner_new_books usable_def)
  then obtain sn log where scan: "scan_sources (scanner_new (p_style p') (o_compress_blanks opts) (o_german opts)) 0 (p_sources p') (w_log w) = Some (sn, log)"
    "books sn" using scan_sources_ok scanner_new_books(1) by metis
  obtain log1 msg where run: "run_sources opts h p w = (if entries sn \<noteq> [] then do {
      (ind, log2) \<leftarrow> sort_and_write opts h p' (entries sn) log1;
      Some (finish_run h p' ind (w\<lparr>w_log := log2\<rparr>)) }
    else Some (finish_run h p' [] (w\<lparr>w_log := message msg log1\<rparr>)))"
    by (rule run_sources_eq [OF scan(2) p'_def scan(1)])
  obtain ind log2 where sw: "sort_and_write opts h p' (entries sn) log1 = Some (ind, log2)"
    using sort_and_write_ok [OF p'(1)] by blast
  have fin: "\<exists>status w'. Some (finish_run h p' ind (w\<lparr>w_log := l\<rparr>)) = Some (status, w') \<and> status \<in> {0, 1} \<and> confined h w'" for ind l
    using finish_run_ok [OF p'(2), of "w\<lparr>w_log := l\<rparr>" ind] assms(3) by (cases "finish_run h p' ind (w\<lparr>w_log := l\<rparr>)") auto
  show ?thesis unfolding run sw bind.bind_lunit prod.case using fin by presburger
qed

text \<open>Every style file the host can find leaves a usable style.\<close>

definition usable_styles :: "host \<Rightarrow> bool" where
  "usable_styles h \<longleftrightarrow> (\<forall>name path bs log. h_find_style h name = Some (path, bs) \<longrightarrow> usable (fst (style_scan bs path style_default log)))"

lemma find_styles_usable:
  assumes "find_styles opts h = Inr (style_file, inputs)" "usable_styles h"
  shows "usable (fst (scan_style style_file w))"
proof -
  have "usable style_default" by (simp add: usable_def style_default_def Let_def)
  moreover have "\<exists>name. h_find_style h name = Some (path, bs)" if "style_file = Some (path, bs)" for path bs
    using assms(1) that by (auto simp: find_styles_def Let_def split: option.splits sum.splits if_splits)
  ultimately show ?thesis
    using assms(2) by (auto simp: scan_style_def usable_styles_def split: option.splits prod.splits) (metis fst_conv)
qed

lemma prepared_style:
  "prepare_stdin opts h sty w = Inr (p, w') \<Longrightarrow> \<exists>w1. p_style p = fst (scan_style sty w1)"
  "prepare_files opts h sty inputs w = Inr (p, w') \<Longrightarrow> \<exists>w1. p_style p = fst (scan_style sty w1)"
  unfolding prepare_stdin_def prepare_files_def Let_def case_prod_beta
  by (force split: if_splits option.splits sum.splits)+

text \<open>A run ends in its first part, with status 1, or goes on to the sources.\<close>

lemma mi_run_parts:
  obtains (refused) w where "mi_run opts h = Some (1, w)" "confined h w"
  | (sources) p w sty inputs w1 where "mi_run opts h = run_sources opts h p w" "outs_ok h (p_outputs p)" "confined h w"
      "find_styles opts h = Inr (sty, inputs)" "p_style p = fst (scan_style sty w1)"
proof -
  define w where "w = \<lparr>w_log = \<lparr>t_ilg = [], ilg_to_stderr = False, verbose = \<not> o_quiet opts, idx_dot = True, idx_dc = 0, stderr = []\<rparr>,
               w_files = [], w_stdout = []\<rparr>"
  have w: "confined h w" by (simp add: w_def confined_def)
  note eq = mi_run_def [of opts h, unfolded Let_def, folded w_def]
  show ?thesis
  proof (cases "find_styles opts h")
    case (Inl msg)
    have "mi_run opts h = Some (fatal msg w)" unfolding eq Inl sum.case ..
    then show ?thesis using w confined_fatal(1) [of h msg w] confined_fatal(2) [of msg w] by (cases "fatal msg w") (simp add: refused)
  next
    case (Inr r)
    obtain sty inputs where r: "r = (sty, inputs)" by (cases r)
    define prep where "prep = (if inputs \<noteq> [] then prepare_files opts h sty inputs w else prepare_stdin opts h sty w)"
    have prep: "prepared_ok h prep" using prepare_files_ok [OF w] prepare_stdin_ok [OF w] by (simp add: prep_def)
    have run: "mi_run opts h = (case prep of Inl r \<Rightarrow> Some r | Inr (p, w) \<Rightarrow> run_sources opts h p w)"
      unfolding eq Inr r sum.case prod.case prep_def ..
    show ?thesis
    proof (cases prep)
      case (Inl sw)
      then show ?thesis using prep run by (cases sw) (simp add: prepared_ok_def refused)
    next
      case (Inr pw)
      obtain p w2 where pw: "pw = (p, w2)" by (cases pw)
      have "\<exists>w1. p_style p = fst (scan_style sty w1)"
        using prepared_style Inr pw unfolding prep_def by (cases "inputs = []") fastforce+
      then show ?thesis using sources prep \<open>find_styles opts h = Inr r\<close> unfolding r run Inr pw by (auto simp: prepared_ok_def)
    qed
  qed
qed

lemma mi_run_ok:
  assumes "usable_styles h"
  shows "\<exists>status w. mi_run opts h = Some (status, w) \<and> status \<in> {0, 1}"
proof (cases rule: mi_run_parts [of opts h])
  case (sources p w sty inputs w1)
  have "usable (p_style p)" using find_styles_usable [OF sources(4) assms] sources(5) by simp
  then show ?thesis using run_sources_ok [OF _ sources(2,3), of opts] unfolding sources(1) by blast
qed simp

lemma run_sources_confined:
  assumes "run_sources opts h p w = Some (status, w')" "outs_ok h (p_outputs p)" "confined h w"
  shows "confined h w'"
proof -
  have fin: "outs_ok h (p_outputs q) \<Longrightarrow> finish_run h q ind (w\<lparr>w_log := log\<rparr>) = (status, w') \<Longrightarrow> confined h w'" for q ind log
    using finish_run_ok(2) [of h q "w\<lparr>w_log := log\<rparr>" ind] assms(3) by simp
  have ab: "outs_ok h outs \<Longrightarrow> abandon h outs msg (w\<lparr>w_log := log\<rparr>) = (status, w') \<Longrightarrow> confined h w'" for outs msg log
    using confined_abandon [of h "w\<lparr>w_log := log\<rparr>" outs msg] assms(3) by simp
  define q where "q = p\<lparr>p_sources := p_sources p @ (if o_stdin opts \<or> o_inputs opts = [] then
            [(''stdin'', case h_stdin h of Some bs \<Rightarrow> bs | None \<Rightarrow> [])] else []),
          p_start_page := (if even_odd_of (o_start_page opts) \<ge> 0 then map_option (\<lambda>page. next_page page (even_odd_of (o_start_page opts))) (p_start_page p) else p_start_page p)\<rparr>"
  have q: "outs_ok h (p_outputs q)" using assms(2) by (simp add: q_def)
  show ?thesis
    using assms(1) fin [OF q] ab [OF q] unfolding run_sources_def Let_def q_def [symmetric]
    by (auto split: bind_splits if_splits prod.splits)
qed

lemma mi_run_confined:
  assumes "mi_run opts h = Some (status, w)"
  shows "confined h w"
proof (cases rule: mi_run_parts [of opts h])
  case (sources p w2 sty inputs w1)
  then show ?thesis using assms run_sources_confined by metis
qed (use assms in simp)

end
