(* ===== verification/MiNames.thy ===== *)
theory MiNames
  imports MiMainCorrect
begin

text \<open>
  What the check of output names means, in terms of the components of a path: no component starts with
  a dot but the step \<open>.\<close>, and a step is never the last component.  With the results on the run: where
  makeindex writes.
\<close>

subsection \<open>Components\<close>

text \<open>The components of a path, split at each slash.\<close>

fun path_components :: "bytes \<Rightarrow> bytes list" where
  "path_components [] = [[]]"
| "path_components (c # s) =
     (if c = CHR 0x2F then [] # path_components s
      else (c # hd (path_components s)) # tl (path_components s))"

lemma path_components_not_nil [simp]: "path_components s \<noteq> []"
  by (cases s) auto

lemma first_component:
  "\<exists>v. s = hd (path_components s) @ v \<and> (v = [] \<and> tl (path_components s) = [] \<or> v \<noteq> [] \<and> hd v = CHR 0x2F \<and> tl (path_components s) \<noteq> []) \<and>
     CHR 0x2F \<notin> set (hd (path_components s))"
  by (induction s rule: path_components.induct) auto

lemma later_component:
  "w \<in> set (tl (path_components s)) \<Longrightarrow>
   \<exists>u v. s = u @ CHR 0x2F # w @ v \<and> (v = [] \<or> hd v = CHR 0x2F) \<and> CHR 0x2F \<notin> set w"
proof (induction s rule: path_components.induct)
  case (2 c s)
  show ?case
  proof (cases "c = CHR 0x2F")
    case True
    then have "path_components (c # s) = [] # path_components s" by simp
    then have "w \<in> set (path_components s)" using "2.prems" by (simp only: list.sel(3))
    then have "w = hd (path_components s) \<or> w \<in> set (tl (path_components s))"
      by (cases "path_components s") simp_all
    then show ?thesis
    proof
      assume "w = hd (path_components s)"
      moreover obtain v where "s = hd (path_components s) @ v" "v = [] \<or> hd v = CHR 0x2F" "CHR 0x2F \<notin> set (hd (path_components s))"
        using first_component [of s] by blast
      ultimately show ?thesis using True by (intro exI [of _ "[]"] exI [of _ v]) simp
    next
      assume "w \<in> set (tl (path_components s))"
      from "2.IH"(1) [OF True this] obtain u v where "s = u @ CHR 0x2F # w @ v" "v = [] \<or> hd v = CHR 0x2F" "CHR 0x2F \<notin> set w" by blast
      then show ?thesis by (intro exI [of _ "c # u"] exI [of _ v]) simp
    qed
  next
    case False
    then have "w \<in> set (tl (path_components s))" using "2.prems" by simp
    from "2.IH"(2) [OF False this] obtain u v where "s = u @ CHR 0x2F # w @ v" "v = [] \<or> hd v = CHR 0x2F" "CHR 0x2F \<notin> set w" by blast
    then show ?thesis by (intro exI [of _ "c # u"] exI [of _ v]) simp
  qed
qed simp

lemma component_split:
  assumes "w \<in> set (path_components s)"
  shows "\<exists>u v. s = u @ w @ v \<and> (u = [] \<or> last u = CHR 0x2F) \<and> (v = [] \<or> hd v = CHR 0x2F) \<and> CHR 0x2F \<notin> set w"
proof -
  consider "w = hd (path_components s)" | "w \<in> set (tl (path_components s))"
    using assms by (cases "path_components s") auto
  then show ?thesis
  proof cases
    case 1
    obtain v where "s = hd (path_components s) @ v" "v = [] \<or> hd v = CHR 0x2F" "CHR 0x2F \<notin> set (hd (path_components s))"
      using first_component [of s] by blast
    then show ?thesis using 1 by (intro exI [of _ "[]"] exI [of _ v]) simp
  next
    case 2
    obtain u v where "s = u @ CHR 0x2F # w @ v" "v = [] \<or> hd v = CHR 0x2F" "CHR 0x2F \<notin> set w" using later_component [OF 2] by blast
    then show ?thesis by (intro exI [of _ "u @ [CHR 0x2F]"] exI [of _ v]) simp
  qed
qed

lemma last_component: "\<exists>u. s = u @ last (path_components s) \<and> (u = [] \<or> last u = CHR 0x2F)"
proof (induction s rule: path_components.induct)
  case (2 c s)
  show ?case
  proof (cases "c = CHR 0x2F")
    case True
    from "2.IH"(1) [OF True] obtain u where "s = u @ last (path_components s)" "u = [] \<or> last u = CHR 0x2F" by blast
    then show ?thesis using True by (intro exI [of _ "c # u"]) auto
  next
    case False
    from "2.IH"(2) [OF False] obtain u where u: "s = u @ last (path_components s)" "u = [] \<or> last u = CHR 0x2F" by blast
    show ?thesis
    proof (cases "tl (path_components s) = []")
      case True
      then obtain w where w: "path_components s = [w]" by (metis list.collapse path_components_not_nil)
      then have "s = w" using first_component [of s] by (auto dest: arg_cong [of _ _ set])
      then show ?thesis using False w by (intro exI [of _ "[]"]) simp
    next
      case tl: False
      then have l: "last (path_components (c # s)) = last (path_components s)" using False by (cases "path_components s") auto
      have "u \<noteq> []"
      proof
        assume "u = []"
        then have "s = last (path_components s)" using u by simp
        moreover have "last (path_components s) \<in> set (tl (path_components s))" using tl by (cases "path_components s") auto
        ultimately obtain a b where "s = a @ CHR 0x2F # s @ b" using later_component by metis
        then have "length s = length (a @ CHR 0x2F # s @ b)" by (rule arg_cong)
        then show False by simp
      qed
      then show ?thesis using u unfolding l by (intro exI [of _ "c # u"]) simp
    qed
  qed
qed simp

subsection \<open>The check\<close>

text \<open>A dot at the start of a component is followed by a slash, or by a dot and a slash.\<close>

lemma name_allowed_dots:
  assumes "name_allowed h c name" "name = u @ CHR ''.'' # v" "u = [] \<or> last u = CHR 0x2F"
  shows "byte_at v 0 = CHR 0x2F \<or> byte_at v 0 = CHR ''.'' \<and> byte_at v 1 = CHR 0x2F"
proof -
  let ?q = "length u"
  have q: "?q < length name" "byte_at name ?q = CHR ''.''" "?q = 0 \<or> byte_at name (?q - 1) = CHR 0x2F"
    using assms(2,3) by (cases "u = []"; simp add: nth_append last_conv_nth)+
  have b: "byte_at name (?q + 1) = byte_at v 0" "byte_at name (?q + 2) = byte_at v 1"
    using assms(2) by (auto simp: byte_at_def nth_append)
  have "\<not> list_ex (\<lambda>q. byte_at name q = CHR ''.'' \<and> (q = 0 \<or> byte_at name (q - 1) = CHR 0x2F) \<and> byte_at name (q + 1) \<noteq> CHR 0x2F \<and>
            \<not> (byte_at name (q + 1) = CHR ''.'' \<and> byte_at name (q + 2) = CHR 0x2F)) [0..<length name]"
    using assms(1) unfolding name_allowed_def Let_def by (rule contrapos_pn) simp
  then have "\<not> (byte_at name ?q = CHR ''.'' \<and> (?q = 0 \<or> byte_at name (?q - 1) = CHR 0x2F) \<and> byte_at name (?q + 1) \<noteq> CHR 0x2F \<and>
            \<not> (byte_at name (?q + 1) = CHR ''.'' \<and> byte_at name (?q + 2) = CHR 0x2F))"
    using q(1) unfolding list_ex_iff by fastforce
  then show ?thesis using q b by (simp only: simp_thms) metis
qed

lemma dot_dots_found: "s = u @ CHR 0x2F # CHR ''.'' # CHR ''.'' # v \<Longrightarrow> k + Suc (length u) \<in> set (dot_dots k s)"
proof (induction k s arbitrary: u rule: dot_dots.induct)
  case (1 q a b s)
  show ?case
  proof (cases u)
    case Nil
    then have "a = CHR 0x2F" "b = CHR ''.''" "s = CHR ''.'' # v" using 1(3) by simp_all
    then show ?thesis using Nil by simp
  next
    case (Cons a' u')
    then have rest: "a' = a" "b # s = u' @ CHR 0x2F # CHR ''.'' # CHR ''.'' # v" using 1(3) by simp_all
    show ?thesis
    proof (cases "a = CHR ''.'' \<and> b = CHR ''.''")
      case True
      then obtain u2 where u2: "u' = b # u2" "s = u2 @ CHR 0x2F # CHR ''.'' # CHR ''.'' # v" using rest(2) by (cases u') auto
      then show ?thesis using 1(1) [OF True u2(2)] True Cons by simp
    next
      case False
      then show ?thesis using 1(2) [OF False rest(2)] Cons by auto
    qed
  qed
qed (auto simp: Cons_eq_append_conv)

text \<open>Outside the modes that allow everything or parent steps, no component is a parent step.\<close>

lemma name_allowed_parent:
  assumes "name_allowed h c name" "c \<notin> set ''rn0''" "name = u @ CHR ''.'' # CHR ''.'' # CHR 0x2F # v"
  shows "u \<noteq> [] \<and> last u \<noteq> CHR 0x2F"
proof -
  have p: "\<not> starts_with name ''../''" "\<not> list_ex (\<lambda>q. q > 0 \<and> name ! (q - 1) = CHR 0x2F \<and> q + 2 < length name \<and> name ! (q + 2) = CHR 0x2F) (dot_dots 0 name)"
    using assms(1,2) unfolding name_allowed_def Let_def by (simp_all split: if_splits)
  have "u \<noteq> []" using p(1) assms(3) by (auto simp: starts_with_def)
  moreover have "last u \<noteq> CHR 0x2F"
  proof
    assume "last u = CHR 0x2F"
    then obtain u' where u: "u = u' @ [CHR 0x2F]" using \<open>u \<noteq> []\<close> by (metis append_butlast_last_id)
    then have "0 + Suc (length u') \<in> set (dot_dots 0 name)" by (intro dot_dots_found) (simp add: assms(3))
    moreover have "name ! (Suc (length u') - 1) = CHR 0x2F" "Suc (length u') + 2 < length name" "name ! (Suc (length u') + 2) = CHR 0x2F"
      using assms(3) u by (simp_all add: nth_append)
    ultimately show False using p(2) unfolding list_ex_iff by fastforce
  qed
  ultimately show ?thesis by blast
qed

lemma allowed_components:
  assumes "name_allowed h c name" "w \<in> set (path_components name)" "starts_with w ''.''"
  shows "w = ''.'' \<or> w = ''..'' \<and> c \<in> set ''rn0''"
proof -
  obtain u v where uv: "name = u @ w @ v" "u = [] \<or> last u = CHR 0x2F" "v = [] \<or> hd v = CHR 0x2F" "CHR 0x2F \<notin> set w"
    using component_split [OF assms(2)] by blast
  obtain w' where w: "w = CHR ''.'' # w'" using assms(3) by (cases w) (auto simp: starts_with_def)
  have "byte_at (w' @ v) 0 = CHR 0x2F \<or> byte_at (w' @ v) 0 = CHR ''.'' \<and> byte_at (w' @ v) 1 = CHR 0x2F"
    by (rule name_allowed_dots [OF assms(1) _ uv(2)]) (simp add: uv(1) w)
  then have "w' = [] \<or> w' = ''.'' \<and> v \<noteq> []"
  proof (cases w')
    case (Cons a w2)
    have "a \<noteq> CHR 0x2F" using uv(4) by (auto simp: w Cons)
    then have b: "byte_at (w' @ v) 0 = a" "byte_at (w' @ v) 1 = byte_at (w2 @ v) 0" by (simp_all add: byte_at_def Cons)
    show ?thesis
    proof (cases w2)
      case Nil
      then show ?thesis using \<open>byte_at (w' @ v) 0 = CHR 0x2F \<or> _\<close> b \<open>a \<noteq> CHR 0x2F\<close> Cons by (auto simp: byte_at_def)
    next
      case (Cons a2 w3)
      then have "a2 \<noteq> CHR 0x2F" using uv(4) by (auto simp: w \<open>w' = a # w2\<close>)
      then show ?thesis using \<open>byte_at (w' @ v) 0 = CHR 0x2F \<or> _\<close> b \<open>a \<noteq> CHR 0x2F\<close> by (simp add: Cons byte_at_def)
    qed
  qed simp
  then consider "w' = []" | "w' = ''.''" "v \<noteq> []" by blast
  then show ?thesis
  proof cases
    case 2
    then obtain v' where "name = u @ CHR ''.'' # CHR ''.'' # CHR 0x2F # v'" using uv(1,3) w by (cases v) auto
    then have "c \<in> set ''rn0''" using name_allowed_parent [OF assms(1)] uv(2) by blast
    then show ?thesis using 2 w by simp
  qed (simp add: w)
qed

lemma allowed_last:
  assumes "name_allowed h c name"
  shows "\<not> starts_with (last (path_components name)) ''.''"
proof
  assume "starts_with (last (path_components name)) ''.''"
  then obtain w where w: "last (path_components name) = CHR ''.'' # w" by (cases "last (path_components name)") (auto simp: starts_with_def)
  obtain u where u: "name = u @ CHR ''.'' # w" "u = [] \<or> last u = CHR 0x2F" using last_component [of name] unfolding w by blast
  have "byte_at w 0 = CHR 0x2F \<or> byte_at w 0 = CHR ''.'' \<and> byte_at w 1 = CHR 0x2F"
    by (rule name_allowed_dots [OF assms u])
  moreover have "CHR 0x2F \<notin> set w"
  proof -
    have "last (path_components name) \<in> set (path_components name)" by simp
    then have "CHR 0x2F \<notin> set (last (path_components name))" using component_split by metis
    then show ?thesis by (simp add: w)
  qed
  moreover have "byte_at w i = CHR 0x2F \<Longrightarrow> CHR 0x2F \<in> set w" for i
    by (cases "i < length w") (simp, metis nth_mem, simp)
  ultimately show False by metis
qed

lemma allowed_absolute:
  assumes "name_allowed h c name" "c \<notin> set ''rn0''" "starts_with (expand_name h name) ''/''"
  shows "below_root (expand_name h name) (case h_output_directory h of Some d \<Rightarrow> Some d | None \<Rightarrow> h_env h ''TEXMF_OUTPUT_DIRECTORY'') \<or>
    below_root (expand_name h name) (h_env h ''TEXMFOUTPUT'')"
  using assms unfolding name_allowed_def Let_def by (simp only: if_True if_False split: if_splits) blast+

subsection \<open>Properties\<close>

text \<open>
  Property C17.  Whatever the command line and the style, makeindex writes only where openout_any
  lets it: unless that allows everything, no component of a path it writes to begins with a dot but the
  single-dot step and - in the restricted mode only - the parent step, the last component does not
  begin with a dot, and in the paranoid mode, the default, a name that expands to an absolute one is below an output root.
\<close>

theorem run_writes_confined:
  assumes "mi_run opts h = Some (status, w)" "(path, bs) \<in> set (w_files w)" "openout_choice h \<notin> set ''ay1''"
  shows "(\<forall>comp \<in> set (path_components path). starts_with comp ''.'' \<longrightarrow> comp = ''.'' \<or> comp = ''..'' \<and> openout_choice h \<in> set ''rn0'') \<and>
    \<not> starts_with (last (path_components path)) ''.'' \<and>
    (openout_choice h \<notin> set ''rn0'' \<longrightarrow> starts_with (expand_name h path) ''/'' \<longrightarrow>
      below_root (expand_name h path) (case h_output_directory h of Some d \<Rightarrow> Some d | None \<Rightarrow> h_env h ''TEXMF_OUTPUT_DIRECTORY'') \<or>
      below_root (expand_name h path) (h_env h ''TEXMFOUTPUT''))"
proof -
  have "confined h w" by (rule mi_run_confined [OF assms(1)])
  then have "accepted_name h path" using assms(2) by (auto simp: confined_def)
  then have n: "name_allowed h (openout_choice h) path" using assms(3) unfolding accepted_name_def by blast
  show ?thesis
    using allowed_components [OF n] allowed_last [OF n] allowed_absolute [OF n] by (intro conjI ballI impI)
qed

text \<open>
  Property C16.  A run of makeindex always ends, with status 0 or 1: for every command line, file system
  and environment, when the style files the host finds leave escape and range operators that are not
  NUL, no loop of the scanner, the sort and the generator runs forever and no index is out of range.
  Machine arithmetic wraps, as in a build without overflow checks: the theorem says nothing of the counts
  that the transcript shows.
\<close>

theorem run_returns:
  assumes "usable_styles h"
  shows "\<exists>status w. run_cli args h = Some (status, w) \<and> status \<in> {0, 1}"
proof (cases "parse_args args")
  case (Inl msg)
  then show ?thesis unfolding run_cli_def by (simp add: fatal_def)
next
  case (Inr opts)
  then show ?thesis using mi_run_ok [OF assms, of opts] unfolding run_cli_def by (simp only: sum.case)
qed

text \<open>A host with no files and no environment, and the empty index written to a named output.\<close>

definition bare_host :: host where
  "bare_host = \<lparr>h_read = (\<lambda>_. None), h_exists = (\<lambda>_. False), h_find_style = (\<lambda>_. None), h_stdin = Some [], h_write_ok = (\<lambda>_. True),
     h_output_directory = None, h_env = (\<lambda>_. None), h_locale = None\<rparr>"

lemma bare_run: "case mi_run (options_default\<lparr>o_output := Some ''./a.ind''\<rparr>) bare_host of
    Some (status, w) \<Rightarrow> status = 0 \<and> (''./a.ind'', []) \<in> set (w_files w) | None \<Rightarrow> False"
  by code_simp

lemma run_writes_confined_witness:
  "\<exists>status w. mi_run (options_default\<lparr>o_output := Some ''./a.ind''\<rparr>) bare_host = Some (status, w) \<and>
    (''./a.ind'', []) \<in> set (w_files w) \<and>
    (\<forall>comp \<in> set (path_components ''./a.ind''). starts_with comp ''.'' \<longrightarrow> comp = ''.'' \<or> comp = ''..'' \<and> openout_choice bare_host \<in> set ''rn0'')"
proof -
  obtain status w where r: "mi_run (options_default\<lparr>o_output := Some ''./a.ind''\<rparr>) bare_host = Some (status, w)"
    "(''./a.ind'', []) \<in> set (w_files w)"
    using bare_run by (auto split: option.splits)
  have "openout_choice bare_host \<notin> set ''ay1''" by code_simp
  from run_writes_confined [OF r this] show ?thesis using r by (intro exI conjI) (assumption, assumption, elim conjE)
qed

lemma run_returns_witness: "\<exists>status w. run_cli [''-q'', ''-o'', ''a.ind''] bare_host = Some (status, w) \<and> status \<in> {0, 1}"
proof (rule run_returns)
  show "usable_styles bare_host" by (simp add: usable_styles_def bare_host_def)
qed

end
