(* ===== verification/Tokens.thy ===== *)
theory Tokens
  imports Hyphen "HOL-Library.Word"
begin

unbundle bit_operations_syntax

text \<open>
  \<open>crates/tex-core/src/token.rs\<close>: the packed tokens of the engine (a \<open>u32\<close>, here a 32-bit word), the
  interning of control-sequence names, and the category code tables of a fresh engine; with the names
  of active characters from \<open>build.rs\<close>.  Hash maps are finite maps, a control-sequence id is a natural
  number (the table overflows long before \<open>2 ^ 32\<close> ids).
\<close>

subsection \<open>Packed tokens\<close>

type_synonym token = "32 word"

(* @src crates/tex-core/src/token.rs impl Token fn is_cs *)
definition is_cs :: "token \<Rightarrow> bool" where
  "is_cs t \<longleftrightarrow> t \<ge> 0x80000000 \<and> t < 0xFFFF0000"

(* @src crates/tex-core/src/token.rs impl Token fn cs_id *)
definition cs_id :: "token \<Rightarrow> token" where
  "cs_id t = t AND 0x1FFFFFFF"

(* @src crates/tex-core/src/token.rs impl Token fn from_cs *)
definition from_cs :: "token \<Rightarrow> token" where
  "from_cs cs = 0x80000000 OR cs"

(* @src crates/tex-core/src/token.rs impl Token fn char *)
definition char_token :: "token \<Rightarrow> token \<Rightarrow> token" where
  "char_token cc c = (push_bit 24 cc OR c) OR (if c > 255 then 0x800000 else 0)"

(* @src crates/tex-core/src/token.rs impl Token fn is_char *)
definition is_char_token :: "token \<Rightarrow> bool" where
  "is_char_token t \<longleftrightarrow> t < 0x80000000"

(* @src crates/tex-core/src/token.rs impl Token fn cc *)
definition token_cc :: "token \<Rightarrow> token" where
  "token_cc t = drop_bit 24 t AND 0xF"

(* @src crates/tex-core/src/token.rs impl Token fn chr *)
definition token_chr :: "token \<Rightarrow> token" where
  "token_chr t = t AND 0x7FFFFF"

(* @src crates/tex-core/src/token.rs impl Token fn unicode_char *)
definition unicode_token :: "token \<Rightarrow> token \<Rightarrow> token" where
  "unicode_token cc scalar = (let t = char_token cc scalar in if scalar > 127 then t OR 0x800000 else t)"

(* @src crates/tex-core/src/token.rs impl Token fn is_unicode_char *)
definition is_unicode_token :: "token \<Rightarrow> bool" where
  "is_unicode_token t \<longleftrightarrow> is_char_token t \<and> t AND 0x800000 \<noteq> 0"

(* @src crates/tex-core/src/token.rs impl Token fn append_character_bytes *)
definition append_character_bytes :: "token \<Rightarrow> bytes \<Rightarrow> bytes" where
  "append_character_bytes t bs =
     (let c = unat (token_chr t)
      in if is_unicode_token t then
           (if c < 0xD800 \<or> 0xE000 \<le> c \<and> c < 0x110000 then bs @ utf8_bytes c else bs)
         else bs @ [char_of (c mod 256)])"

(* @src crates/tex-core/src/token.rs impl Token fn other *)
definition other_token :: "token \<Rightarrow> token" where
  "other_token c = char_token 12 c"

(* @src crates/tex-core/src/token.rs impl Token fn letter *)
definition letter_token :: "token \<Rightarrow> token" where
  "letter_token c = char_token 11 c"

(* @src crates/tex-core/src/token.rs impl Token fn space *)
definition space_token :: token where
  "space_token = char_token 10 32"

(* @src crates/tex-core/src/token.rs impl Token fn is_space *)
definition is_space_token :: "token \<Rightarrow> bool" where
  "is_space_token t \<longleftrightarrow> is_char_token t \<and> token_cc t = 10"

(* @src crates/tex-core/src/token.rs impl Token fn is_right_brace *)
definition is_right_brace :: "token \<Rightarrow> bool" where
  "is_right_brace t \<longleftrightarrow> is_char_token t \<and> token_cc t = 2"

(* @src crates/tex-core/src/token.rs impl Token fn is_left_brace *)
definition is_left_brace :: "token \<Rightarrow> bool" where
  "is_left_brace t \<longleftrightarrow> is_char_token t \<and> token_cc t = 1"

(* @src crates/tex-core/src/token.rs impl Token fn unfreeze *)
definition unfreeze :: "token \<Rightarrow> token" where
  "unfreeze t =
     (if t \<ge> 0xE0000000 \<and> t < 0xFFFF0000 then from_cs (t AND 0x1FFFFFFF)
      else if t \<ge> 0xC0000000 \<and> t < 0xE0000000 then from_cs (t AND 0x3FFFFFFF)
      else if t \<ge> 0x10000000 \<and> t < 0x20000000 then t AND NOT 0x10000000
      else t)"

subsection \<open>Active characters\<close>

definition active_prefix :: bytes where
  "active_prefix = [CHR 0xFF, CHR 0x00, CHR ''A'', CHR ''C'', CHR ''T'']"

(* @src crates/tex-core/src/build.rs fn active_cs_name *)
definition active_cs_name :: "nat \<Rightarrow> bytes" where
  "active_cs_name c =
     (if c < 256 then active_prefix @ [CHR 0x00, char_of c]
      else active_prefix @ [CHR 0x01] @ map char_of [c div 16777216 mod 256, c div 65536 mod 256, c div 256 mod 256, c mod 256])"

definition scalar_of :: "bytes \<Rightarrow> nat" where
  "scalar_of bs = foldl (\<lambda>v b. v * 256 + of_char b) 0 bs"

definition is_scalar :: "nat \<Rightarrow> bool" where
  "is_scalar c \<longleftrightarrow> c < 0xD800 \<or> 0xE000 \<le> c \<and> c < 0x110000"

(* @src crates/tex-core/src/build.rs fn active_cs_scalar *)
definition active_cs_scalar :: "bytes \<Rightarrow> nat option" where
  "active_cs_scalar name =
     (if length name = 7 \<and> take 6 name = active_prefix @ [CHR 0x00] then Some (of_char (name ! 6))
      else if length name = 10 \<and> take 6 name = active_prefix @ [CHR 0x01] then
        (let scalar = scalar_of (drop 6 name) in if is_scalar scalar then Some scalar else None)
      else None)"

(* @src crates/tex-core/src/build.rs fn active_cs_source_bytes *)
definition active_cs_source_bytes :: "bytes \<Rightarrow> bytes option" where
  "active_cs_source_bytes name =
     (if length name = 7 \<and> take 6 name = active_prefix @ [CHR 0x00] then Some [name ! 6]
      else if length name = 10 \<and> take 6 name = active_prefix @ [CHR 0x01] then
        (let scalar = scalar_of (drop 6 name) in if is_scalar scalar then Some (utf8_bytes scalar) else None)
      else None)"

subsection \<open>Interning\<close>

(* @src crates/tex-core/src/token.rs const MAX_HASH_NAMES *)
definition MAX_HASH_NAMES :: nat where "MAX_HASH_NAMES = 2097152"
(* @src crates/tex-core/src/token.rs const NO_ACTIVE_ID *)
definition NO_ACTIVE_ID :: nat where "NO_ACTIVE_ID = 4294967295"
(* @src crates/tex-core/src/token.rs const NAME_ACTIVE *)
definition NAME_ACTIVE :: nat where "NAME_ACTIVE = 1"
(* @src crates/tex-core/src/token.rs const NAME_FROZEN_IN_EDEF *)
definition NAME_FROZEN_IN_EDEF :: nat where "NAME_FROZEN_IN_EDEF = 2"
(* @src crates/tex-core/src/token.rs const NAME_FONT_ENCODING *)
definition NAME_FONT_ENCODING :: nat where "NAME_FONT_ENCODING = 4"

(* @src crates/tex-core/src/token.rs fn name_flags_of *)
definition name_flags_of :: "bytes \<Rightarrow> nat" where
  "name_flags_of name =
     (if active_cs_scalar name \<noteq> None then NAME_ACTIVE
      else if name \<in> {''GTS@RemoveLeft'', ''GTS@TestLeftEnd'', ''GTS@TestLeft'', ''GetTitleStringNonExpand'', ''GetTitleString''}
        then NAME_FROZEN_IN_EDEF
      else if name = ''f@encoding'' \<or> name = ''cf@encoding'' then NAME_FONT_ENCODING
      else 0)"

(* @src crates/tex-core/src/token.rs struct CsTable *)
record cs_table =
  cs_names :: "bytes list"
  cs_map :: "bytes \<rightharpoonup> nat"
  cs_capacity_exceeded :: bool
  cs_active_ids :: "nat list"
  cs_name_flags :: "nat list"
  cs_frozen :: "nat \<rightharpoonup> bool"
  cs_frozen_by_name :: "bytes \<rightharpoonup> nat"

(* @src crates/tex-core/src/token.rs impl CsTable fn with_capacity *)
definition cs_new :: cs_table where
  "cs_new = \<lparr>cs_names = [], cs_map = Map.empty, cs_capacity_exceeded = False, cs_active_ids = replicate 256 NO_ACTIVE_ID,
     cs_name_flags = [], cs_frozen = Map.empty, cs_frozen_by_name = Map.empty\<rparr>"

(* @src crates/tex-core/src/token.rs impl CsTable fn push_frozen *)
definition push_frozen :: "bytes \<Rightarrow> bool \<Rightarrow> cs_table \<Rightarrow> nat \<times> cs_table" where
  "push_frozen name by_name t =
     (let i = length (cs_names t)
      in (i, t\<lparr>cs_names := cs_names t @ [name], cs_name_flags := cs_name_flags t @ [0],
                cs_frozen := (cs_frozen t)(i \<mapsto> by_name),
                cs_frozen_by_name := (if by_name then (cs_frozen_by_name t)(name \<mapsto> i) else cs_frozen_by_name t)\<rparr>))"

(* @src crates/tex-core/src/token.rs impl CsTable fn frozen_lookup *)
definition frozen_lookup :: "cs_table \<Rightarrow> bytes \<Rightarrow> nat option" where
  "frozen_lookup t name = cs_frozen_by_name t name"

(* @src crates/tex-core/src/token.rs impl CsTable fn frozen_kind *)
definition frozen_kind :: "cs_table \<Rightarrow> nat \<Rightarrow> bool option" where
  "frozen_kind t i = cs_frozen t i"

(* @src crates/tex-core/src/token.rs impl CsTable fn cached_active *)
definition cached_active :: "cs_table \<Rightarrow> nat \<Rightarrow> nat option" where
  "cached_active t c =
     (if c < length (cs_active_ids t) \<and> cs_active_ids t ! c \<noteq> NO_ACTIVE_ID then Some (cs_active_ids t ! c) else None)"

(* @src crates/tex-core/src/token.rs impl CsTable fn cache_active *)
definition cache_active :: "nat \<Rightarrow> nat \<Rightarrow> cs_table \<Rightarrow> cs_table" where
  "cache_active c i t = t\<lparr>cs_active_ids := (cs_active_ids t)[c := i]\<rparr>"

(* @src crates/tex-core/src/token.rs impl CsTable fn intern_with_limit *)
definition intern_with_limit :: "bytes \<Rightarrow> nat \<Rightarrow> cs_table \<Rightarrow> nat \<times> cs_table" where
  "intern_with_limit name limit t =
     (case cs_map t name of
        Some i \<Rightarrow> (i, t)
      | None \<Rightarrow>
          if cs_capacity_exceeded t then (length (cs_names t) - 1, t)
          else
            let i = length (cs_names t)
            in (i, t\<lparr>cs_capacity_exceeded := (length (cs_names t) \<ge> limit),
                      cs_names := cs_names t @ [name],
                      cs_name_flags := cs_name_flags t @ [name_flags_of name],
                      cs_map := (cs_map t)(name \<mapsto> i)\<rparr>))"

(* @src crates/tex-core/src/token.rs impl CsTable fn intern *)
definition intern :: "bytes \<Rightarrow> cs_table \<Rightarrow> nat \<times> cs_table" where
  "intern name t = intern_with_limit name MAX_HASH_NAMES t"

(* @src crates/tex-core/src/token.rs impl CsTable fn name_flags *)
definition name_flags :: "cs_table \<Rightarrow> nat \<Rightarrow> nat" where
  "name_flags t i = (if i < length (cs_name_flags t) then cs_name_flags t ! i else 0)"

(* @src crates/tex-core/src/token.rs impl CsTable fn is_active *)
definition is_active_cs :: "cs_table \<Rightarrow> nat \<Rightarrow> bool" where
  "is_active_cs t i \<longleftrightarrow> (name_flags t i) AND NAME_ACTIVE \<noteq> 0"

(* @src crates/tex-core/src/token.rs impl CsTable fn lookup *)
definition cs_lookup :: "cs_table \<Rightarrow> bytes \<Rightarrow> nat option" where
  "cs_lookup t name = cs_map t name"

(* @src crates/tex-core/src/token.rs impl CsTable fn name *)
definition cs_name :: "cs_table \<Rightarrow> nat \<Rightarrow> bytes" where
  "cs_name t i = (if i < length (cs_names t) then cs_names t ! i else ''??'')"

(* @src crates/tex-core/src/token.rs impl CsTable fn len *)
definition cs_len :: "cs_table \<Rightarrow> nat" where
  "cs_len t = length (cs_names t)"

(* @src crates/tex-core/src/build.rs fn active_cs_id *)
definition active_cs_id :: "nat \<Rightarrow> cs_table \<Rightarrow> nat \<times> cs_table" where
  "active_cs_id c t =
     (case cached_active t c of
        Some i \<Rightarrow> (i, t)
      | None \<Rightarrow> let (i, t) = intern (active_cs_name c) t in (i, cache_active c i t))"

subsection \<open>Category codes of a fresh engine\<close>

definition CAT_ESCAPE :: nat where "CAT_ESCAPE = 0"
definition CAT_BGROUP :: nat where "CAT_BGROUP = 1"
definition CAT_EGROUP :: nat where "CAT_EGROUP = 2"
definition CAT_MATH :: nat where "CAT_MATH = 3"
definition CAT_ALIGN :: nat where "CAT_ALIGN = 4"
definition CAT_EOL :: nat where "CAT_EOL = 5"
definition CAT_PARAM :: nat where "CAT_PARAM = 6"
definition CAT_SUPER :: nat where "CAT_SUPER = 7"
definition CAT_SUB :: nat where "CAT_SUB = 8"
definition CAT_IGNORED :: nat where "CAT_IGNORED = 9"
definition CAT_SPACE :: nat where "CAT_SPACE = 10"
definition CAT_LETTER :: nat where "CAT_LETTER = 11"
definition CAT_OTHER :: nat where "CAT_OTHER = 12"
definition CAT_ACTIVE :: nat where "CAT_ACTIVE = 13"
definition CAT_COMMENT :: nat where "CAT_COMMENT = 14"
definition CAT_INVALID :: nat where "CAT_INVALID = 15"

definition is_letter_code :: "nat \<Rightarrow> bool" where
  "is_letter_code c \<longleftrightarrow> 97 \<le> c \<and> c \<le> 122 \<or> 65 \<le> c \<and> c \<le> 90"

(* @src crates/tex-core/src/token.rs impl CatTable fn initex *)
definition cat_initex :: "nat list" where
  "cat_initex = map (\<lambda>c.
     if is_letter_code c then CAT_LETTER else if c = 0x7F then CAT_INVALID else if c = 37 then CAT_COMMENT
     else if c = 9 \<or> c = 32 then CAT_SPACE else if c = 13 then CAT_EOL else if c = 0 then CAT_IGNORED
     else if c = 92 then CAT_ESCAPE else CAT_OTHER) [0..<256]"

(* @src crates/tex-core/src/token.rs impl CatTable fn new *)
definition cat_plain :: "nat list" where
  "cat_plain = map (\<lambda>c.
     if c = 125 then CAT_EGROUP else if c = 123 then CAT_BGROUP else if c = 38 then CAT_ALIGN else if c = 95 then CAT_SUB
     else if c = 94 then CAT_SUPER else if c = 35 then CAT_PARAM else if c = 36 then CAT_MATH else if c = 126 then CAT_ACTIVE
     else if c = 13 then CAT_EOL else if c = 0x7F then CAT_INVALID else if c = 37 then CAT_COMMENT
     else if c = 32 \<or> c = 9 then CAT_SPACE else if c = 0 then CAT_IGNORED else if c = 92 then CAT_ESCAPE
     else if is_letter_code c then CAT_LETTER else CAT_OTHER) [0..<256]"

end
