(* ===== verification/TokensCorrect.thy ===== *)
theory TokensCorrect
  imports Tokens
begin

unbundle bit_operations_syntax

text \<open>
  The packing of tokens can be undone, the names of active characters too, and the table of
  control-sequence names gives every name one id for ever.
\<close>

subsection \<open>Tokens\<close>

lemma mask_and:
  fixes w :: token
  shows "w AND 0x1FFFFFFF = take_bit 29 w" "w AND 0x3FFFFFFF = take_bit 30 w" "w AND 0x7FFFFF = take_bit 23 w" "w AND 0xF = take_bit 4 w"
  by (simp_all add: take_bit_eq_mask mask_eq_exp_minus_1)

lemma take_bit_small:
  fixes w :: token
  assumes "unat w < 2 ^ n"
  shows "take_bit n w = w"
  using assms by (simp add: word_unat_eq_iff unsigned_take_bit_eq take_bit_nat_eq_self)

lemma unat_or_disjoint:
  fixes a b :: token
  assumes "a AND b = 0" "unat a + unat b < 4294967296"
  shows "unat (a OR b) = unat a + unat b"
proof -
  have "a + b = a OR b" using assms(1) by (rule disjunctive_add_eq_or)
  then have "unat (a OR b) = unat (a + b)" by simp
  also have "\<dots> = unat a + unat b" using assms(2) by (simp add: unat_word_ariths)
  finally show ?thesis .
qed

lemma and_small_zero:
  fixes a b :: token
  assumes "take_bit n a = 0" "unat b < 2 ^ n"
  shows "a AND b = 0"
proof -
  have "a AND b = a AND take_bit n b" by (simp add: take_bit_small [OF assms(2)])
  also have "\<dots> = take_bit n a AND take_bit n b" by (simp add: take_bit_eq_mask and.assoc and.left_commute)
  finally show ?thesis using assms(1) by simp
qed

text \<open>A marker above bit 29 and an id below it.\<close>

lemma marked_id:
  fixes m cs :: token
  assumes "unat cs < 2 ^ 29" "take_bit 29 m = 0" "unat m + 2 ^ 29 \<le> 4294967296"
  shows "take_bit 29 (m OR cs) = cs" "unat (m OR cs) = unat m + unat cs"
proof -
  show "take_bit 29 (m OR cs) = cs" using assms by (simp add: take_bit_or take_bit_small)
  show "unat (m OR cs) = unat m + unat cs"
    by (rule unat_or_disjoint [OF and_small_zero [OF assms(2,1)]]) (use assms in linarith)
qed

lemma markers [simp]:
  "take_bit 29 (0x80000000 :: token) = 0" "take_bit 29 (0xC0000000 :: token) = 0" "take_bit 29 (0xE0000000 :: token) = 0"
  by simp_all

lemma unat_char_token:
  assumes "unat cc < 16" "unat c < 0x110000"
  shows "unat (char_token cc c) = unat cc * 16777216 + unat c + (if unat c > 255 then 0x800000 else 0)"
proof -
  have p: "unat (push_bit 24 cc) = unat cc * 16777216"
    using assms(1) by (simp add: push_bit_eq_mult unat_word_ariths)
  have tp: "take_bit 24 (push_bit 24 cc) = 0" by (simp add: take_bit_push_bit)
  have 1: "unat (push_bit 24 cc OR c) = unat cc * 16777216 + unat c"
    unfolding p [symmetric] by (rule unat_or_disjoint [OF and_small_zero [OF tp]]) (use assms in \<open>simp_all add: p\<close>)
  have f: "take_bit 23 ((push_bit 24 cc OR c) AND 0) = 0" by simp
  have z: "(push_bit 24 cc OR c) AND 0x800000 = 0"
  proof -
    have "take_bit 21 (0x800000 :: token) = 0" by simp
    then have "c AND 0x800000 = 0" using and_small_zero [of 21 "0x800000" c] assms(2) by (simp add: and.commute)
    moreover have "push_bit 24 cc AND 0x800000 = 0" using and_small_zero [OF tp, of "0x800000"] by simp
    ultimately show ?thesis by (simp add: bit.conj_disj_distrib2 and.commute)
  qed
  show ?thesis
  proof (cases "c > 255")
    case True
    then have "unat c > 255" by (simp add: word_less_nat_alt)
    then show ?thesis unfolding char_token_def using True 1 unat_or_disjoint [OF z] assms by simp
  next
    case False
    then have "\<not> unat c > 255" by (simp add: word_less_nat_alt)
    then show ?thesis unfolding char_token_def using False 1 by simp
  qed
qed

lemma unat_fields:
  "unat (token_cc t) = unat t div 16777216 mod 16" "unat (token_chr t) = unat t mod 8388608"
  by (simp_all add: token_cc_def token_chr_def mask_and unsigned_take_bit_eq unsigned_drop_bit_eq take_bit_eq_mod drop_bit_eq_div unat_div unat_mod)

lemma or_and_not:
  fixes a b :: token
  assumes "a AND b = 0"
  shows "(a OR b) AND NOT b = a"
proof (rule bit_eqI)
  fix n
  assume "possible_bit TYPE(32 word) n"
  moreover have "\<not> (bit a n \<and> bit b n)" using arg_cong [OF assms, of "\<lambda>w. bit w n"] by (simp add: bit_and_iff)
  ultimately show "bit ((a OR b) AND NOT b) n = bit a n" by (auto simp: bit_simps)
qed

lemma pack_div: "r < 16777216 \<Longrightarrow> (a * 16777216 + r) div 16777216 = a" for a r :: nat
  by simp

lemma pack_mod:
  fixes a r :: nat
  assumes "r < 8388608"
  shows "(a * 16777216 + r) mod 8388608 = r" "(a * 16777216 + (r + 8388608)) mod 8388608 = r"
proof -
  have 1: "a * 16777216 + r = (2 * a) * 8388608 + r" "a * 16777216 + (r + 8388608) = (2 * a + 1) * 8388608 + r" by simp_all
  show "(a * 16777216 + r) mod 8388608 = r" "(a * 16777216 + (r + 8388608)) mod 8388608 = r"
    using assms unfolding 1 mod_mult_self3 by simp_all
qed

lemma char_token_roundtrip:
  fixes cc c :: token
  assumes "unat cc < 16" "unat c < 0x110000"
  shows "token_cc (char_token cc c) = cc" "token_chr (char_token cc c) = c"
    "is_char_token (char_token cc c)" "unfreeze (char_token cc c) = char_token cc c"
    "unfreeze (char_token cc c OR 0x10000000) = char_token cc c"
    "\<not> is_cs (char_token cc c)" "is_char_token (char_token cc c OR 0x10000000)" "\<not> is_cs (char_token cc c OR 0x10000000)"
proof -
  let ?t = "char_token cc c"
  have t: "unat ?t = unat cc * 16777216 + unat c + (if unat c > 255 then 0x800000 else 0)" by (rule unat_char_token [OF assms])
  have small: "unat ?t < 2 ^ 28" using t assms by (simp split: if_splits)
  have "unat ?t div 16777216 = unat cc" unfolding t add.assoc by (rule pack_div) (use assms(2) in simp)
  moreover have "unat ?t mod 8388608 = unat c" using pack_mod [of "unat c" "unat cc"] assms(2) by (simp add: t)
  ultimately show "token_cc ?t = cc" "token_chr ?t = c" using assms(1) by (simp_all add: word_unat_eq_iff unat_fields)
  show "unfreeze ?t = ?t" "is_char_token ?t"
    using small by (simp_all add: unfreeze_def is_char_token_def word_le_nat_alt word_less_nat_alt)
  have "take_bit 28 (0x10000000 :: token) = 0" by simp
  then have z: "?t AND 0x10000000 = 0" using and_small_zero [of 28 "0x10000000", OF _ small] by (simp add: and.commute)
  have frozen: "unat (?t OR 0x10000000) = unat ?t + 0x10000000"
    using z small by (subst unat_or_disjoint) simp_all
  have "(?t OR 0x10000000) AND NOT 0x10000000 = ?t" by (rule or_and_not [OF z])
  then show "unfreeze (?t OR 0x10000000) = ?t"
    using small by (simp add: unfreeze_def word_le_nat_alt word_less_nat_alt frozen)
  show "\<not> is_cs ?t" "is_char_token (?t OR 0x10000000)" "\<not> is_cs (?t OR 0x10000000)"
    using small frozen by (simp_all add: is_cs_def is_char_token_def word_le_nat_alt word_less_nat_alt)
qed

lemma marked_roundtrip:
  fixes cs :: token
  assumes "m \<in> {0xC0000000, 0xE0000000}" "unat cs < 0x1FFF0000"
  shows "cs_id (m OR cs) = cs" "is_cs (m OR cs)" "\<not> is_char_token (m OR cs)" "unfreeze (m OR cs) = from_cs cs"
proof -
  have small: "unat cs < 2 ^ 29" using assms(2) by simp
  have m: "take_bit 29 (m OR cs) = cs" "unat (m OR cs) = unat m + unat cs"
    using marked_id [where m = m, OF small] assms(1) by auto
  have m30: "m = 0xC0000000 \<Longrightarrow> take_bit 30 (m OR cs) = cs"
    using small by (simp add: take_bit_or take_bit_small)
  have ge: "(m OR cs) \<ge> 0xC0000000" "m = 0xE0000000 \<Longrightarrow> (m OR cs) \<ge> 0xE0000000" "(m OR cs) < 0xFFFF0000" "m = 0xC0000000 \<Longrightarrow> (m OR cs) < 0xE0000000"
    using m(2) small assms unfolding word_le_nat_alt word_less_nat_alt by (elim insertE; simp)+
  show "cs_id (m OR cs) = cs" "is_cs (m OR cs)"
    using m(1) ge(3) order_trans [OF _ ge(1), of "0x80000000"] by (simp_all only: cs_id_def is_cs_def mask_and) simp
  show "\<not> is_char_token (m OR cs)" using order_trans [OF _ ge(1), of "0x80000000"] by (simp add: is_char_token_def not_less)
  show "unfreeze (m OR cs) = from_cs cs"
  proof (cases "m = 0xE0000000")
    case True
    then show ?thesis using ge m(1) by (simp only: unfreeze_def mask_and simp_thms if_True)
  next
    case False
    then have c: "m = 0xC0000000" using assms(1) by simp
    have "\<not> (m OR cs) \<ge> 0xE0000000" using ge(4) [OF c] by (simp only: not_le)
    then show ?thesis using ge m30 [OF c] c unfolding unfreeze_def mask_and by (simp only: simp_thms if_True if_False)
  qed
qed

text \<open>
  Property C30.  Packing a token can be undone: a character token gives back its category and its
  character, a control-sequence token its id, each also through the no-expansion markers, which
  unfreeze takes away.  No kind is taken for another: a packed character, marked or not, is no control
  sequence, a control sequence, marked or not, is no character, and a word is one of the two exactly
  below \<open>0xFFFF0000\<close>, where the words that the engine reserves begin.  (Categories are below 16, characters
  below \<open>0x110000\<close>, ids below \<open>0x1FFF0000\<close>.)
\<close>

theorem token_roundtrip:
  fixes cc c cs :: token
  assumes "unat cc < 16" "unat c < 0x110000" "m \<in> {0xC0000000, 0xE0000000}" "unat cs < 0x1FFF0000"
  shows "token_cc (char_token cc c) = cc \<and> token_chr (char_token cc c) = c \<and>
    is_char_token (char_token cc c) \<and> unfreeze (char_token cc c) = char_token cc c \<and>
    unfreeze (char_token cc c OR 0x10000000) = char_token cc c \<and>
    cs_id (from_cs cs) = cs \<and> is_cs (from_cs cs) \<and> \<not> is_char_token (from_cs cs) \<and> unfreeze (from_cs cs) = from_cs cs \<and>
    cs_id (m OR cs) = cs \<and> is_cs (m OR cs) \<and> unfreeze (m OR cs) = from_cs cs \<and>
    \<not> is_cs (char_token cc c) \<and> is_char_token (char_token cc c OR 0x10000000) \<and> \<not> is_cs (char_token cc c OR 0x10000000) \<and>
    \<not> is_char_token (m OR cs) \<and> (is_char_token t \<or> is_cs t \<longleftrightarrow> t < 0xFFFF0000)"
proof -
  have small: "unat cs < 2 ^ 29" using assms(4) by simp
  have cs: "take_bit 29 (0x80000000 OR cs) = cs" "unat (0x80000000 OR cs) = 0x80000000 + unat cs"
    using marked_id [where m = "0x80000000", OF small] by simp_all
  have "cs_id (from_cs cs) = cs" "is_cs (from_cs cs)" "\<not> is_char_token (from_cs cs)" "unfreeze (from_cs cs) = from_cs cs"
    using cs assms(4) by (simp_all add: cs_id_def is_cs_def is_char_token_def from_cs_def unfreeze_def mask_and word_le_nat_alt word_less_nat_alt)
  moreover have "is_char_token t \<or> is_cs t \<longleftrightarrow> t < 0xFFFF0000"
    by (auto simp: is_char_token_def is_cs_def not_less not_le intro: less_trans)
  ultimately show ?thesis using char_token_roundtrip [OF assms(1,2)] marked_roundtrip [OF assms(3,4)] by (intro conjI)
qed

lemma token_roundtrip_witness:
  "token_cc (char_token 11 0x10FFFF) = 11 \<and> token_chr (char_token 11 0x10FFFF) = 0x10FFFF \<and> cs_id (0xE0000000 OR 5) = 5 \<and> unfreeze (0xE0000000 OR 5) = from_cs 5"
  using token_roundtrip [where cc = 11 and c = "0x10FFFF" and cs = 5 and m = "0xE0000000"] by simp

subsection \<open>Names of active characters\<close>

lemma scalar_of_bytes: "scalar_of (map char_of [a, b, c, d]) = ((a mod 256 * 256 + b mod 256) * 256 + c mod 256) * 256 + d mod 256"
  by (simp add: scalar_of_def of_char_of)

lemma four_bytes:
  fixes c :: nat
  assumes "c < 4294967296"
  shows "((c div 16777216 mod 256 * 256 + c div 65536 mod 256) * 256 + c div 256 mod 256) * 256 + c mod 256 = c"
proof -
  have "c div 16777216 mod 256 = c div 16777216" using assms by (intro mod_less) (simp add: less_mult_imp_div_less)
  moreover have "c div 16777216 = c div 65536 div 256" "c div 65536 = c div 256 div 256" by (simp_all add: div_mult2_eq [symmetric])
  ultimately show ?thesis by (simp add: div_mult_mod_eq)
qed

text \<open>
  Property C31.  The placeholder name of an active character determines it: the scalar read back from the
  name is the character, and different characters have different names.
\<close>

theorem active_name_roundtrip:
  assumes "is_scalar c"
  shows "active_cs_scalar (active_cs_name c) = Some c \<and> name_flags_of (active_cs_name c) = NAME_ACTIVE"
proof -
  have "active_cs_scalar (active_cs_name c) = Some c"
  proof (cases "c < 256")
    case True
    then show ?thesis by (simp add: active_cs_name_def active_cs_scalar_def active_prefix_def of_char_of)
  next
    case False
    have "c < 4294967296" using assms by (auto simp: is_scalar_def)
    then have "scalar_of (map char_of [c div 16777216 mod 256, c div 65536 mod 256, c div 256 mod 256, c mod 256]) = c"
      unfolding scalar_of_bytes using four_bytes by simp
    then show ?thesis using False assms by (simp add: active_cs_name_def active_cs_scalar_def active_prefix_def)
  qed
  then show ?thesis by (simp add: name_flags_of_def)
qed

lemma active_name_roundtrip_witness: "active_cs_scalar (active_cs_name 0x1F600) = Some 0x1F600 \<and> name_flags_of (active_cs_name 0x1F600) = NAME_ACTIVE"
  by (rule active_name_roundtrip) (simp add: is_scalar_def)

subsection \<open>The table of names\<close>

text \<open>
  The invariant: each name in the map stands at its id, every id that is not frozen is found by its
  name, frozen ids are never found by the map, and the flags are those of the names.
\<close>

definition table_ok :: "cs_table \<Rightarrow> bool" where
  "table_ok t \<longleftrightarrow>
     length (cs_name_flags t) = length (cs_names t) \<and>
     (\<forall>name i. cs_map t name = Some i \<longleftrightarrow> i < length (cs_names t) \<and> cs_names t ! i = name \<and> cs_frozen t i = None) \<and>
     (\<forall>i b. cs_frozen t i = Some b \<longrightarrow> i < length (cs_names t) \<and> cs_name_flags t ! i = 0) \<and>
     (\<forall>name i. cs_frozen_by_name t name = Some i \<longrightarrow> i < length (cs_names t) \<and> cs_frozen t i = Some True \<and> cs_names t ! i = name) \<and>
     (\<forall>i < length (cs_names t). cs_frozen t i = None \<longrightarrow> cs_name_flags t ! i = name_flags_of (cs_names t ! i))"

lemma table_ok_new: "table_ok cs_new"
  by (simp add: table_ok_def cs_new_def)

lemma table_ok_intern:
  assumes "table_ok t" "intern_with_limit name limit t = (i, t')"
  shows "table_ok t'"
proof (cases "cs_map t name = None \<and> \<not> cs_capacity_exceeded t")
  case True
  then have t': "t' = t\<lparr>cs_capacity_exceeded := (length (cs_names t) \<ge> limit), cs_names := cs_names t @ [name],
      cs_name_flags := cs_name_flags t @ [name_flags_of name], cs_map := (cs_map t)(name \<mapsto> length (cs_names t))\<rparr>"
    using assms(2) by (auto simp: intern_with_limit_def Let_def)
  have new: "cs_frozen t (length (cs_names t)) = None" using assms(1) unfolding table_ok_def by (metis less_irrefl not_None_eq)
  have old: "cs_names t ! j = name \<Longrightarrow> j < length (cs_names t) \<Longrightarrow> cs_frozen t j \<noteq> None" for j
    using assms(1) True unfolding table_ok_def by (metis option.distinct(1))
  show ?thesis
    using assms(1) new old unfolding table_ok_def t'
    by (auto simp: nth_append less_Suc_eq split: if_splits)
next
  case False
  then have "t' = t" using assms(2) by (auto simp: intern_with_limit_def split: option.splits)
  then show ?thesis using assms(1) by simp
qed

lemma table_ok_push_frozen: "table_ok t \<Longrightarrow> push_frozen name b t = (i, t') \<Longrightarrow> table_ok t'"
  unfolding push_frozen_def Let_def table_ok_def
  by (auto simp: nth_append less_Suc_eq split: if_splits) (metis less_irrefl)

lemma table_ok_cache: "table_ok (cache_active c i t) = table_ok t"
  by (simp add: table_ok_def cache_active_def)

text \<open>
  Property C29.  Interning is a bijection between names and ids that never changes: in a table that has
  not overflowed, a name gets an id that stands for this name from then on, interning it again gives the
  same id, no other id changes its name, and the invariant of the table is kept - frozen control
  sequences stay out of reach of their names.
\<close>

theorem intern_roundtrip:
  assumes "table_ok t" "\<not> cs_capacity_exceeded t" "intern name t = (i, t')"
  shows "table_ok t' \<and> cs_name t' i = name \<and> cs_lookup t' name = Some i \<and> intern name t' = (i, t') \<and>
    (\<forall>j < cs_len t. cs_name t' j = cs_name t j) \<and> frozen_kind t' i = None \<and>
    (\<forall>other. other \<noteq> name \<longrightarrow> cs_lookup t' other = cs_lookup t other)"
proof (cases "cs_map t name")
  case None
  then have t': "i = length (cs_names t)" "t' = t\<lparr>cs_capacity_exceeded := (length (cs_names t) \<ge> MAX_HASH_NAMES), cs_names := cs_names t @ [name],
      cs_name_flags := cs_name_flags t @ [name_flags_of name], cs_map := (cs_map t)(name \<mapsto> length (cs_names t))\<rparr>"
    using assms(2,3) by (auto simp: intern_def intern_with_limit_def Let_def)
  have "cs_frozen t (length (cs_names t)) = None" using assms(1) unfolding table_ok_def by (metis less_irrefl not_None_eq)
  then show ?thesis
    using table_ok_intern [OF assms(1) assms(3) [unfolded intern_def]] t'
    by (simp add: cs_name_def cs_lookup_def cs_len_def frozen_kind_def intern_def intern_with_limit_def nth_append)
next
  case (Some j)
  then have it: "i = j" "t' = t" using assms(3) by (simp_all add: intern_def intern_with_limit_def)
  have "j < length (cs_names t) \<and> cs_names t ! j = name \<and> cs_frozen t j = None" using assms(1) Some unfolding table_ok_def by blast
  then show ?thesis
    using assms(1) Some by (simp add: it cs_name_def cs_lookup_def frozen_kind_def intern_def intern_with_limit_def)
qed

lemma intern_roundtrip_witness:
  "let (i, t) = intern ''relax'' (snd (push_frozen ''relax'' True cs_new)) in table_ok t \<and> cs_name t i = ''relax'' \<and> frozen_kind t i = None"
proof -
  obtain i t where i: "intern ''relax'' (snd (push_frozen ''relax'' True cs_new)) = (i, t)" by fastforce
  have ok: "table_ok (snd (push_frozen ''relax'' True cs_new))"
    by (rule table_ok_push_frozen [OF table_ok_new surjective_pairing])
  have "\<not> cs_capacity_exceeded (snd (push_frozen ''relax'' True cs_new))" by (simp add: push_frozen_def cs_new_def)
  from intern_roundtrip [OF ok this i] show ?thesis unfolding i by simp
qed

end
