(* ===== verification/MacroCall.thy ===== *)
theory MacroCall
  imports Tokens
begin

unbundle bit_operations_syntax

text \<open>
  Macro calls: the arguments of a call and the frame that reads the replacement text lazily
  (\<open>crates/tex-core/src/input.rs\<close>), and the replacement plan of a macro with the check of its length
  (\<open>crates/tex-core/src/eqtb.rs\<close>).  The frame's raw pointer is one of two buffers; an \<open>Rc\<close> is its
  contents with the identity that \<open>Rc::ptr_eq\<close> compares.  The slices of the argument buffer are in
  range by the invariant of the arguments (\<open>args_ok\<close> in \<open>MacroCorrect\<close>).
\<close>

subsection \<open>Arguments\<close>

(* @src crates/tex-core/src/input.rs struct MacroArgs *)
record macro_args =
  a_toks :: "token list"
  a_ends :: "nat list"
  a_count :: nat

(* @src crates/tex-core/src/input.rs impl MacroArgs fn with_buffer *)
definition args_new :: macro_args where
  "args_new = \<lparr>a_toks = [], a_ends = replicate 9 0, a_count = 0\<rparr>"

(* @src crates/tex-core/src/input.rs impl MacroArgs fn start *)
definition arg_start :: "macro_args \<Rightarrow> nat \<Rightarrow> nat" where
  "arg_start args k = (if k = 0 then 0 else a_ends args ! (k - 1))"

(* @src crates/tex-core/src/input.rs impl MacroArgs fn open_start *)
definition open_start :: "macro_args \<Rightarrow> nat" where
  "open_start args = arg_start args (a_count args)"

text \<open>The caller pushes the tokens of the open argument on the buffer.\<close>

(* @src crates/tex-core/src/input.rs impl MacroArgs fn buffer *)
definition push_arg :: "token list \<Rightarrow> macro_args \<Rightarrow> macro_args" where
  "push_arg ts args = args\<lparr>a_toks := a_toks args @ ts\<rparr>"

(* @src crates/tex-core/src/input.rs impl MacroArgs fn finish_arg *)
definition finish_arg :: "macro_args \<Rightarrow> macro_args option" where
  "finish_arg args =
     (if a_count args < length (a_ends args) then
        Some (args\<lparr>a_ends := (a_ends args)[a_count args := length (a_toks args) mod 4294967296], a_count := a_count args + 1\<rparr>)
      else None)"

definition slice :: "nat \<Rightarrow> nat \<Rightarrow> 'a list \<Rightarrow> 'a list" where
  "slice i j xs = take (j - i) (drop i xs)"

(* @src crates/tex-core/src/input.rs impl MacroArgs fn get *)
definition arg_get :: "macro_args \<Rightarrow> nat \<Rightarrow> token list option" where
  "arg_get args k = (if k < a_count args then Some (slice (arg_start args k) (a_ends args ! k) (a_toks args)) else None)"

fun differences :: "nat \<Rightarrow> nat list \<Rightarrow> nat list" where
  "differences start [] = []"
| "differences start (e # es) = (e - start) # differences e es"

(* @src crates/tex-core/src/input.rs impl MacroArgs fn arg_lengths *)
definition arg_lengths :: "macro_args \<Rightarrow> nat list" where
  "arg_lengths args = differences 0 (take (a_count args) (a_ends args))"

subsection \<open>The replacement plan\<close>

type_synonym 'a rc = "nat \<times> 'a"

(* @src crates/tex-core/src/eqtb.rs struct MacroReplacement *)
record plan =
  p_body :: "token list rc"
  p_references :: "(nat \<times> nat) list"
  p_uses :: "nat list"

(* @src crates/tex-core/src/eqtb.rs:184-197 Macro *)
record macro =
  m_num_params :: nat
  m_has_param_refs :: bool
  m_params :: "token list list"
  m_prefix :: "token list"
  m_body :: "token list rc"
  m_long :: bool
  m_outer :: bool
  m_protected :: bool
  m_replacement :: "plan option"

definition USIZE_MAX :: nat where "USIZE_MAX = 18446744073709551615"

definition saturate_usize :: "nat \<Rightarrow> nat" where
  "saturate_usize n = min n USIZE_MAX"

(* @src crates/tex-core/src/eqtb.rs:245-245 build_replacement_plan *)
definition is_reference :: "token \<Rightarrow> bool" where
  "is_reference t \<longleftrightarrow> 0x40000001 \<le> t \<and> t < 0x80000000"

(* @src crates/tex-core/src/eqtb.rs:252-252 build_replacement_plan *)
definition reference_index :: "token \<Rightarrow> nat" where
  "reference_index t = unat ((t AND 0x3FFFFFFF) - 1)"

(* @src crates/tex-core/src/eqtb.rs:246-255 build_replacement_plan *)
fun references_from :: "nat \<Rightarrow> token list \<Rightarrow> (nat \<times> nat) list" where
  "references_from p [] = []"
| "references_from p (t # ts) =
     (if is_reference t then (p, reference_index t) # references_from (p + 1) ts else references_from (p + 1) ts)"

(* @src crates/tex-core/src/eqtb.rs:256-262 build_replacement_plan *)
fun count_uses :: "(nat \<times> nat) list \<Rightarrow> nat list \<Rightarrow> nat list" where
  "count_uses [] uses = uses"
| "count_uses ((_, k) # rs) uses =
     count_uses rs (if k < length uses then uses[k := (uses ! k + 1) mod 4294967296] else uses)"

(* @src crates/tex-core/src/eqtb.rs fn build_replacement_plan *)
definition build_replacement_plan :: "token list rc \<Rightarrow> plan" where
  "build_replacement_plan body =
     (let references = references_from 0 (snd body)
      in \<lparr>p_body = body, p_references = references, p_uses = count_uses references (replicate 9 0)\<rparr>)"

text \<open>The check reference by reference: \<open>None\<close> once a partial length is beyond the limit.\<close>

(* @src crates/tex-core/src/eqtb.rs:278-288 replacement_length *)
fun replacement_loop :: "nat \<Rightarrow> (nat \<times> nat) list \<Rightarrow> macro_args \<Rightarrow> nat \<Rightarrow> nat option" where
  "replacement_loop len [] args limit = (if len \<le> limit then Some len else None)"
| "replacement_loop len ((_, k) # rs) args limit =
     (let arg_len = (case arg_get args k of Some ts \<Rightarrow> length ts | None \<Rightarrow> 0)
      in if len = 0 \<or> len - 1 + arg_len > USIZE_MAX then None
         else if len - 1 + arg_len > limit then None
         else replacement_loop (len - 1 + arg_len) rs args limit)"

(* @src crates/tex-core/src/eqtb.rs fn replacement_length *)
definition replacement_length :: "token list \<Rightarrow> (nat \<times> nat) list \<Rightarrow> macro_args \<Rightarrow> nat \<Rightarrow> nat option" where
  "replacement_length body references args limit = replacement_loop (length body) references args limit"

(* @src crates/tex-core/src/eqtb.rs:226-232 replacement_plan *)
definition added_length :: "nat list \<Rightarrow> nat list \<Rightarrow> nat" where
  "added_length uses lens = foldl (\<lambda>sum (u, l). saturate_usize (sum + saturate_usize (u * l))) 0 (zip uses lens)"

(* @src crates/tex-core/src/eqtb.rs fn replacement_plan *)
definition replacement_plan :: "macro \<Rightarrow> macro_args \<Rightarrow> nat \<Rightarrow> (plan \<times> nat option) \<times> macro" where
  "replacement_plan m args limit =
     (let plan = (case m_replacement m of
            Some plan \<Rightarrow> if fst (p_body plan) = fst (m_body m) then plan else build_replacement_plan (m_body m)
          | None \<Rightarrow> build_replacement_plan (m_body m));
          body = snd (m_body m);
          bound = saturate_usize (length body + added_length (p_uses plan) (arg_lengths args));
          len = (if bound \<le> limit then Some (bound - length (p_references plan))
                 else replacement_length body (p_references plan) args limit)
      in ((plan, len), m\<lparr>m_replacement := Some plan\<rparr>))"

subsection \<open>The frame\<close>

datatype segment = Body | Args

(* @src crates/tex-core/src/input.rs struct MacroFrame *)
record frame =
  fr_seg :: segment
  fr_pos :: nat
  fr_end :: nat
  fr_trace_depth :: nat
  fr_in_arg :: bool
  fr_resume :: nat
  fr_next_ref :: nat
  fr_plan :: plan
  fr_args :: macro_args
  fr_owner :: "nat option"

definition plan_body :: "frame \<Rightarrow> token list" where
  "plan_body fr = snd (p_body (fr_plan fr))"

text \<open>Where the body segment that ends at the next reference ends.\<close>

definition next_end :: "frame \<Rightarrow> nat" where
  "next_end fr =
     (if fr_next_ref fr < length (p_references (fr_plan fr)) then fst (p_references (fr_plan fr) ! fr_next_ref fr)
      else length (plan_body fr))"

(* @src crates/tex-core/src/input.rs impl MacroFrame fn new *)
definition frame_new :: "plan \<Rightarrow> macro_args \<Rightarrow> nat option \<Rightarrow> nat \<Rightarrow> frame" where
  "frame_new plan args owner trace_depth =
     (let fr = \<lparr>fr_seg = Body, fr_pos = 0, fr_end = 0, fr_trace_depth = trace_depth, fr_in_arg = False, fr_resume = 0,
                fr_next_ref = 0, fr_plan = plan, fr_args = args, fr_owner = owner\<rparr>
      in fr\<lparr>fr_end := next_end fr\<rparr>)"

(* @src crates/tex-core/src/input.rs impl MacroFrame fn is_exhausted *)
definition is_exhausted :: "frame \<Rightarrow> bool" where
  "is_exhausted fr \<longleftrightarrow> \<not> fr_in_arg fr \<and> fr_end fr \<le> fr_pos fr \<and> length (p_references (fr_plan fr)) \<le> fr_next_ref fr"

(* @src crates/tex-core/src/input.rs impl MacroFrame fn segment *)
definition rest_of_segment :: "frame \<Rightarrow> token list" where
  "rest_of_segment fr =
     (if fr_end fr \<le> fr_pos fr then []
      else slice (fr_pos fr) (fr_end fr) (case fr_seg fr of Body \<Rightarrow> plan_body fr | Args \<Rightarrow> a_toks (fr_args fr)))"

(* @src crates/tex-core/src/input.rs impl MacroFrame fn peek_token *)
definition peek_token :: "frame \<Rightarrow> token option" where
  "peek_token fr = (case rest_of_segment fr of [] \<Rightarrow> None | t # _ \<Rightarrow> Some t)"

(* @src crates/tex-core/src/input.rs impl MacroFrame fn skip *)
definition skip :: "nat \<Rightarrow> frame \<Rightarrow> frame" where
  "skip n fr = fr\<lparr>fr_pos := fr_pos fr + n\<rparr>"

definition body_segment :: "nat \<Rightarrow> frame \<Rightarrow> frame" where
  "body_segment start fr = fr\<lparr>fr_seg := Body, fr_pos := start, fr_end := next_end fr\<rparr>"

(* @src crates/tex-core/src/input.rs impl MacroFrame fn next_segment *)
definition next_segment :: "frame \<Rightarrow> bool \<times> frame" where
  "next_segment fr =
     (if fr_in_arg fr then (True, body_segment (fr_resume fr) (fr\<lparr>fr_in_arg := False\<rparr>))
      else if fr_next_ref fr < length (p_references (fr_plan fr)) then
        (let (position, k) = p_references (fr_plan fr) ! fr_next_ref fr;
             fr = fr\<lparr>fr_next_ref := fr_next_ref fr + 1, fr_resume := position mod 4294967296 + 1\<rparr>
         in if k < a_count (fr_args fr) then
              (True, fr\<lparr>fr_in_arg := True, fr_seg := Args, fr_pos := arg_start (fr_args fr) k, fr_end := a_ends (fr_args fr) ! k\<rparr>)
            else (True, body_segment (position + 1) fr))
      else (False, fr))"

definition segments_left :: "frame \<Rightarrow> nat" where
  "segments_left fr = 2 * (length (p_references (fr_plan fr)) - fr_next_ref fr) + (if fr_in_arg fr then 1 else 0)"

lemma next_segment_left: "next_segment fr = (True, fr') \<Longrightarrow> segments_left fr' < segments_left fr"
  by (auto simp: next_segment_def segments_left_def body_segment_def Let_def split: if_splits prod.splits)

(* @src crates/tex-core/src/input.rs impl MacroFrame fn next_token *)
function next_token :: "frame \<Rightarrow> token option \<times> frame" where
  "next_token fr =
     (case peek_token fr of
        Some t \<Rightarrow> (Some t, skip 1 fr)
      | None \<Rightarrow> (case next_segment fr of (True, fr') \<Rightarrow> next_token fr' | (False, fr') \<Rightarrow> (None, fr')))"
  by pat_completeness auto
termination
  by (relation "measure segments_left") (auto dest: next_segment_left [OF sym])

declare next_token.simps [simp del]

(* @src crates/tex-core/src/input.rs impl MacroFrame fn advance_segment *)
function advance_segment :: "frame \<Rightarrow> bool \<times> frame" where
  "advance_segment fr =
     (if fr_end fr \<le> fr_pos fr then
        (case next_segment fr of (True, fr') \<Rightarrow> advance_segment fr' | (False, fr') \<Rightarrow> (False, fr'))
      else (True, fr))"
  by pat_completeness auto
termination
  by (relation "measure segments_left") (auto dest: next_segment_left [OF sym])

declare advance_segment.simps [simp del]

(* @src crates/tex-core/src/input.rs impl MacroFrame fn signature *)
definition frame_signature :: "frame \<Rightarrow> nat" where
  "frame_signature fr = ((fr_pos fr * 256) XOR (fr_next_ref fr * 2)) XOR (if fr_in_arg fr then 1 else 0)"

(* @src crates/tex-core/src/input.rs impl MacroFrame fn context_view *)
definition context_view :: "frame \<Rightarrow> token list \<times> nat \<times> (token list \<times> nat) option" where
  "context_view fr =
     (if \<not> fr_in_arg fr then (plan_body fr, fr_pos fr, None)
      else
        let k = snd (p_references (fr_plan fr) ! (fr_next_ref fr - 1)); start = arg_start (fr_args fr) k
        in (plan_body fr, fr_resume fr, Some (slice start (fr_end fr) (a_toks (fr_args fr)), fr_pos fr - start)))"

end
