(* ===== verification/MacroCorrect.thy ===== *)
theory MacroCorrect
  imports MacroCall
begin

text \<open>
  Reading a frame token by token gives exactly the replacement text - the body with each parameter
  reference replaced by its argument - and the length the plan computes is the length of that text.
\<close>

subsection \<open>The replacement text\<close>

definition args_of :: "macro_args \<Rightarrow> token list list" where
  "args_of args = map (\<lambda>k. slice (arg_start args k) (a_ends args ! k) (a_toks args)) [0..<a_count args]"

definition nth_arg :: "token list list \<Rightarrow> nat \<Rightarrow> token list" where
  "nth_arg as k = (if k < length as then as ! k else [])"

text \<open>The specification: a reference without an argument contributes nothing.\<close>

fun substitute :: "token list list \<Rightarrow> token list \<Rightarrow> token list" where
  "substitute as [] = []"
| "substitute as (t # ts) = (if is_reference t then nth_arg as (reference_index t) else [t]) @ substitute as ts"

text \<open>The arguments are contiguous: the ends are sorted and inside the buffer.\<close>

definition args_ok :: "macro_args \<Rightarrow> bool" where
  "args_ok args \<longleftrightarrow> length (a_ends args) = 9 \<and> a_count args \<le> 9 \<and> length (a_toks args) < 4294967296 \<and>
     (\<forall>k < a_count args. arg_start args k \<le> a_ends args ! k \<and> a_ends args ! k \<le> length (a_toks args))"

lemma args_ok_new: "args_ok args_new" "args_of args_new = []"
  by (simp_all add: args_ok_def args_new_def args_of_def)

lemma args_ok_push: "args_ok args \<Longrightarrow> length (a_toks args @ ts) < 4294967296 \<Longrightarrow> args_ok (push_arg ts args)"
  by (auto simp: args_ok_def push_arg_def arg_start_def intro: le_trans)

lemma open_start_le: "args_ok args \<Longrightarrow> open_start args \<le> length (a_toks args)"
  by (cases "a_count args") (auto simp: args_ok_def open_start_def arg_start_def)

lemma args_ok_finish:
  assumes "args_ok args" "finish_arg args = Some args'"
  shows "args_ok args'" "args_of args' = args_of args @ [drop (open_start args) (a_toks args)]"
proof -
  let ?n = "a_count args"
  have n: "?n < 9" and a: "args' = args\<lparr>a_ends := (a_ends args)[?n := length (a_toks args)], a_count := ?n + 1\<rparr>"
    using assms by (auto simp: finish_arg_def args_ok_def split: if_splits)
  have start: "k \<le> ?n \<Longrightarrow> arg_start args' k = arg_start args k" for k
    by (auto simp: a arg_start_def)
  have ends: "k < ?n \<Longrightarrow> a_ends args' ! k = a_ends args ! k" "a_ends args' ! ?n = length (a_toks args)" for k
    using assms(1) n by (simp_all add: a args_ok_def)
  have "a_toks args' = a_toks args" "a_count args' = Suc ?n" by (simp_all add: a)
  then show "args_ok args'" using assms(1) n start ends open_start_le [OF assms(1)]
    by (auto simp: args_ok_def open_start_def a less_Suc_eq)
  show "args_of args' = args_of args @ [drop (open_start args) (a_toks args)]"
    using start ends \<open>a_toks args' = a_toks args\<close> \<open>a_count args' = Suc ?n\<close>
    by (simp add: args_of_def slice_def open_start_def)
qed

lemma arg_get_nth: "args_ok args \<Longrightarrow> (case arg_get args k of Some ts \<Rightarrow> ts | None \<Rightarrow> []) = nth_arg (args_of args) k"
  by (simp add: arg_get_def nth_arg_def args_of_def)

subsection \<open>References\<close>

lemma no_references: "references_from p ts = [] \<Longrightarrow> substitute as ts = ts"
  by (induction ts arbitrary: p) (auto split: if_splits)

lemma first_reference:
  "references_from p ts = (q, k) # rs \<Longrightarrow>
   \<exists>u t v. ts = u @ t # v \<and> q = p + length u \<and> rs = references_from (q + 1) v \<and>
     substitute as (t # v) = nth_arg as k @ substitute as v \<and> substitute as ts = u @ nth_arg as k @ substitute as v"
proof (induction ts arbitrary: p)
  case (Cons t ts)
  show ?case
  proof (cases "is_reference t")
    case True
    then show ?thesis using Cons.prems by (intro exI [of _ "[]"]) auto
  next
    case False
    then have "references_from (p + 1) ts = (q, k) # rs" using Cons.prems by simp
    from Cons.IH [OF this] obtain u t' v where "ts = u @ t' # v" "q = p + 1 + length u" "rs = references_from (q + 1) v"
      "substitute as (t' # v) = nth_arg as k @ substitute as v" "substitute as ts = u @ nth_arg as k @ substitute as v" by blast
    then show ?thesis using False by (intro exI [of _ "t # u"] exI [of _ t'] exI [of _ v]) simp
  qed
qed simp

text \<open>The references from the \<open>k\<close>th on are those of the body from position \<open>p\<close> on.\<close>

definition aligned :: "token list \<Rightarrow> (nat \<times> nat) list \<Rightarrow> nat \<Rightarrow> nat \<Rightarrow> bool" where
  "aligned body refs p k \<longleftrightarrow> k \<le> length refs \<and> p \<le> length body \<and> drop k refs = references_from p (drop p body)"

lemma aligned_start: "aligned body (references_from 0 body) 0 0"
  by (simp add: aligned_def)

lemma aligned_end: "aligned body refs p k \<Longrightarrow> length refs \<le> k \<Longrightarrow> substitute as (drop p body) = drop p body"
  by (auto simp: aligned_def intro: no_references [of p])

lemma aligned_next:
  assumes "aligned body refs p k" "k < length refs" "refs ! k = (q, j)"
  shows "p \<le> q \<and> q < length body \<and> aligned body refs (q + 1) (k + 1) \<and>
    substitute as (drop q body) = nth_arg as j @ substitute as (drop (q + 1) body) \<and>
    substitute as (drop p body) = slice p q body @ nth_arg as j @ substitute as (drop (q + 1) body)"
proof -
  have "drop k refs = (q, j) # drop (k + 1) refs" using assms(2,3) by (metis Cons_nth_drop_Suc Suc_eq_plus1)
  then have "references_from p (drop p body) = (q, j) # drop (k + 1) refs" using assms(1) by (simp add: aligned_def)
  from first_reference [OF this, of as] obtain u t v where uv: "drop p body = u @ t # v" "q = p + length u"
    "drop (k + 1) refs = references_from (q + 1) v" "substitute as (t # v) = nth_arg as j @ substitute as v" "substitute as (drop p body) = u @ nth_arg as j @ substitute as v" by blast
  have v: "v = drop (q + 1) body" and u: "u = slice p q body"
  proof -
    have "drop (length u + 1) (drop p body) = v" by (simp add: uv(1) del: drop_drop)
    moreover have "length u + 1 + p = q + 1" using uv(2) by simp
    ultimately show "v = drop (q + 1) body" by (simp only: drop_drop)
    have "take (length u) (drop p body) = u" by (simp add: uv(1))
    then show "u = slice p q body" by (simp add: slice_def uv(2))
  qed
  have "length (drop p body) = length u + 1 + length v" by (simp add: uv(1))
  then have q: "q < length body" using uv(2) by simp
  have "drop (length u) (drop p body) = t # v" by (simp add: uv(1) del: drop_drop)
  moreover have "length u + p = q" using uv(2) by simp
  ultimately have "drop q body = t # v" by (simp only: drop_drop)
  then have "substitute as (drop q body) = nth_arg as j @ substitute as v" using uv(4) by simp
  moreover have "p \<le> q" using uv(2) by simp
  moreover have "aligned body refs (q + 1) (k + 1)" using uv(3) q assms(2) by (simp add: aligned_def v)
  ultimately show ?thesis using uv(5) q by (simp only: u [symmetric] v [symmetric])
qed

subsection \<open>The frame\<close>

text \<open>What the frame still has to deliver after the current segment.\<close>

definition after_segment :: "frame \<Rightarrow> token list" where
  "after_segment fr =
     (if fr_in_arg fr then substitute (args_of (fr_args fr)) (drop (fr_resume fr) (plan_body fr))
      else substitute (args_of (fr_args fr)) (drop (fr_end fr) (plan_body fr)))"

definition remaining :: "frame \<Rightarrow> token list" where
  "remaining fr = rest_of_segment fr @ after_segment fr"

abbreviation frame_refs :: "frame \<Rightarrow> (nat \<times> nat) list" where
  "frame_refs fr \<equiv> p_references (fr_plan fr)"

definition frame_ok :: "frame \<Rightarrow> bool" where
  "frame_ok fr \<longleftrightarrow> args_ok (fr_args fr) \<and> length (plan_body fr) < 4294967296 \<and>
     (if fr_in_arg fr then
        fr_seg fr = Args \<and> fr_end fr \<le> length (a_toks (fr_args fr)) \<and>
        aligned (plan_body fr) (frame_refs fr) (fr_resume fr) (fr_next_ref fr)
      else
        fr_seg fr = Body \<and> fr_end fr = next_end fr \<and>
        (\<exists>p. p \<le> fr_pos fr \<and> aligned (plan_body fr) (frame_refs fr) p (fr_next_ref fr)))"

lemma next_end_aligned:
  assumes "aligned (plan_body fr) (frame_refs fr) p (fr_next_ref fr)"
  shows "p \<le> next_end fr" "next_end fr \<le> length (plan_body fr)"
    "slice p (next_end fr) (plan_body fr) @ substitute as (drop (next_end fr) (plan_body fr)) = substitute as (drop p (plan_body fr))"
proof -
  have "p \<le> next_end fr \<and> next_end fr \<le> length (plan_body fr) \<and>
    slice p (next_end fr) (plan_body fr) @ substitute as (drop (next_end fr) (plan_body fr)) = substitute as (drop p (plan_body fr))"
  proof (cases "fr_next_ref fr < length (frame_refs fr)")
    case True
    obtain q j where q: "frame_refs fr ! fr_next_ref fr = (q, j)" by fastforce
    note n = aligned_next [OF assms True q, of as]
    then show ?thesis using n True q by (simp add: next_end_def)
  next
    case False
    then show ?thesis using assms aligned_end [OF assms, of as] by (simp add: next_end_def slice_def aligned_def)
  qed
  then show "p \<le> next_end fr" "next_end fr \<le> length (plan_body fr)"
    "slice p (next_end fr) (plan_body fr) @ substitute as (drop (next_end fr) (plan_body fr)) = substitute as (drop p (plan_body fr))"
    by blast+
qed

lemma next_end_update [simp]:
  "next_end (fr\<lparr>fr_pos := n\<rparr>) = next_end fr" "next_end (fr\<lparr>fr_in_arg := b\<rparr>) = next_end fr" "next_end (fr\<lparr>fr_seg := sg\<rparr>) = next_end fr"
  "next_end (fr\<lparr>fr_end := n\<rparr>) = next_end fr"
  by (simp_all add: next_end_def plan_body_def)

lemma plan_body_update [simp]:
  "plan_body (fr\<lparr>fr_pos := n\<rparr>) = plan_body fr" "plan_body (fr\<lparr>fr_in_arg := b\<rparr>) = plan_body fr" "plan_body (fr\<lparr>fr_seg := sg\<rparr>) = plan_body fr"
  "plan_body (fr\<lparr>fr_end := n\<rparr>) = plan_body fr" "plan_body (fr\<lparr>fr_next_ref := n\<rparr>) = plan_body fr" "plan_body (fr\<lparr>fr_resume := n\<rparr>) = plan_body fr"
  by (simp_all add: plan_body_def)

text \<open>A body segment that begins at an aligned position.\<close>

lemma body_segment_ok:
  assumes "args_ok (fr_args fr)" "length (plan_body fr) < 4294967296" "\<not> fr_in_arg fr"
    "aligned (plan_body fr) (frame_refs fr) p (fr_next_ref fr)"
  shows "frame_ok (body_segment p fr)"
    "remaining (body_segment p fr) = substitute (args_of (fr_args fr)) (drop p (plan_body fr))"
proof -
  let ?fr = "body_segment p fr"
  have f: "fr_args ?fr = fr_args fr" "plan_body ?fr = plan_body fr" "fr_plan ?fr = fr_plan fr" "fr_next_ref ?fr = fr_next_ref fr"
    "\<not> fr_in_arg ?fr" "fr_seg ?fr = Body" "fr_pos ?fr = p" "fr_end ?fr = next_end fr" "next_end ?fr = next_end fr"
    using assms(3) by (simp_all add: body_segment_def)
  show "frame_ok ?fr" using assms f by (auto simp: frame_ok_def)
  note e = next_end_aligned(1,2) [OF assms(4)] next_end_aligned(3) [OF assms(4), of "args_of (fr_args fr)"]
  have "rest_of_segment ?fr = slice p (next_end fr) (plan_body fr)"
    using f e(1) by (simp add: rest_of_segment_def slice_def)
  then show "remaining ?fr = substitute (args_of (fr_args fr)) (drop p (plan_body fr))"
    using e(3) f by (simp add: remaining_def after_segment_def)
qed

lemma next_segment_ok:
  assumes "frame_ok fr" "next_segment fr = (go, fr')" "rest_of_segment fr = []"
  shows "frame_ok fr' \<and> remaining fr' = remaining fr \<and> (\<not> go \<longrightarrow> remaining fr = [] \<and> is_exhausted fr)"
proof (cases "fr_in_arg fr")
  case True
  let ?fr = "fr\<lparr>fr_in_arg := False\<rparr>"
  have "aligned (plan_body ?fr) (frame_refs ?fr) (fr_resume fr) (fr_next_ref ?fr)" "args_ok (fr_args ?fr)"
    "length (plan_body ?fr) < 4294967296" "\<not> fr_in_arg ?fr"
    using assms(1) True by (simp_all add: frame_ok_def)
  note b = this
  show ?thesis using body_segment_ok [OF b(2-4) b(1)] assms(2,3) True by (auto simp: next_segment_def remaining_def after_segment_def)
next
  case False
  then obtain p where ok: "args_ok (fr_args fr)" "length (plan_body fr) < 4294967296" "fr_seg fr = Body" "fr_end fr = next_end fr"
    "p \<le> fr_pos fr" "aligned (plan_body fr) (frame_refs fr) p (fr_next_ref fr)" using assms(1) by (auto simp: frame_ok_def)
  have past: "fr_end fr \<le> fr_pos fr"
  proof (rule ccontr)
    assume "\<not> fr_end fr \<le> fr_pos fr"
    moreover have "fr_end fr \<le> length (plan_body fr)" using next_end_aligned(2) [OF ok(6)] ok(4) by simp
    ultimately show False using assms(3) ok(3) by (auto simp: rest_of_segment_def slice_def)
  qed
  show ?thesis
  proof (cases "fr_next_ref fr < length (frame_refs fr)")
    case refs: True
    obtain q j where q: "frame_refs fr ! fr_next_ref fr = (q, j)" by fastforce
    note n = aligned_next [OF ok(6) refs q, of "args_of (fr_args fr)"]
    have end': "fr_end fr = q" using ok(4) refs q by (simp add: next_end_def)
    have m: "q mod 4294967296 = q" using n ok(2) by simp
    have rem: "remaining fr = nth_arg (args_of (fr_args fr)) j @ substitute (args_of (fr_args fr)) (drop (q + 1) (plan_body fr))"
      using n False assms(3) end' by (simp add: remaining_def after_segment_def)
    define fr1 where "fr1 = fr\<lparr>fr_next_ref := fr_next_ref fr + 1, fr_resume := q + 1\<rparr>"
    have f1: "fr_args fr1 = fr_args fr" "plan_body fr1 = plan_body fr" "fr_plan fr1 = fr_plan fr" "fr_next_ref fr1 = fr_next_ref fr + 1" "\<not> fr_in_arg fr1"
      using False by (simp_all add: fr1_def plan_body_def)
    have al: "aligned (plan_body fr1) (frame_refs fr1) (q + 1) (fr_next_ref fr1)" using n f1 by simp
    show ?thesis
    proof (cases "j < a_count (fr_args fr)")
      case True
      define fr2 where "fr2 = fr1\<lparr>fr_in_arg := True, fr_seg := Args, fr_pos := arg_start (fr_args fr) j, fr_end := a_ends (fr_args fr) ! j\<rparr>"
      have "go" "fr' = fr2" using assms(2) False refs q m True by (simp_all add: next_segment_def fr1_def fr2_def Let_def)
      have a: "arg_start (fr_args fr) j \<le> a_ends (fr_args fr) ! j" "a_ends (fr_args fr) ! j \<le> length (a_toks (fr_args fr))"
        using ok(1) True by (simp_all add: args_ok_def)
      have "frame_ok fr2" using ok(1,2) a f1 al by (simp add: frame_ok_def fr2_def fr1_def plan_body_def)
      moreover have "rest_of_segment fr2 = nth_arg (args_of (fr_args fr)) j"
        using True a f1 by (simp add: rest_of_segment_def fr2_def slice_def nth_arg_def args_of_def)
      then have "remaining fr2 = remaining fr" using rem f1 by (simp add: remaining_def after_segment_def fr2_def fr1_def plan_body_def)
      ultimately show ?thesis using \<open>go\<close> \<open>fr' = fr2\<close> by simp
    next
      case False': False
      have r: "go" "fr' = body_segment (q + 1) fr1"
        using assms(2) False refs q m False' by (simp_all add: next_segment_def fr1_def Let_def)
      have "nth_arg (args_of (fr_args fr)) j = []" using False' by (simp add: nth_arg_def args_of_def)
      then show ?thesis using body_segment_ok [of fr1 "q + 1"] ok(1,2) f1 al rem r by simp
    qed
  next
    case none: False
    have "\<not> go" "fr' = fr" using assms(2) False none by (simp_all add: next_segment_def)
    moreover have "next_end fr = length (plan_body fr)" using none by (simp add: next_end_def)
    then have "remaining fr = []" using assms(3) False ok(4) by (simp add: remaining_def after_segment_def)
    ultimately show ?thesis using assms(1) False none past by (simp add: is_exhausted_def)
  qed
qed

lemma skip_ok:
  assumes "frame_ok fr" "rest_of_segment fr = t # ts"
  shows "frame_ok (skip 1 fr)" "remaining fr = t # remaining (skip 1 fr)"
proof -
  have p: "fr_pos fr < fr_end fr" using assms(2) by (auto simp: rest_of_segment_def split: if_splits)
  have sl: "i < j \<Longrightarrow> slice i j xs = t # ts \<Longrightarrow> slice (i + 1) j xs = ts" for i j and xs :: "token list"
  proof -
    assume ij: "i < j" and sl: "slice i j xs = t # ts"
    have e: "j - i = Suc (j - (i + 1))" using ij by simp
    have d: "drop (i + 1) xs = tl (drop i xs)" by (simp add: drop_Suc tl_drop)
    from sl have "take (Suc (j - (i + 1))) (drop i xs) = t # ts" unfolding slice_def by (simp only: e)
    then show "slice (i + 1) j xs = ts" unfolding slice_def d by (cases "drop i xs") auto
  qed
  have s: "rest_of_segment (skip 1 fr) = ts"
  proof (cases "fr_pos fr + 1 = fr_end fr")
    case True
    then have "length (rest_of_segment fr) \<le> 1" using p by (auto simp: rest_of_segment_def slice_def)
    then show ?thesis using assms(2) True by (simp add: rest_of_segment_def skip_def)
  next
    case False
    let ?xs = "case fr_seg fr of Body \<Rightarrow> plan_body fr | Args \<Rightarrow> a_toks (fr_args fr)"
    have "slice (fr_pos fr) (fr_end fr) ?xs = t # ts" using assms(2) p by (simp add: rest_of_segment_def)
    from sl [OF p this] show ?thesis using False p
      by (cases "fr_seg fr") (simp_all add: rest_of_segment_def skip_def plan_body_def)
  qed
  have pos: "p \<le> fr_pos fr \<Longrightarrow> p \<le> fr_pos fr + 1" for p by simp
  show "frame_ok (skip 1 fr)" using assms(1) pos
    by (cases "fr_in_arg fr") (simp_all add: frame_ok_def skip_def, blast intro: le_SucI)
  have "after_segment (skip 1 fr) = after_segment fr" by (simp add: after_segment_def skip_def)
  then show "remaining fr = t # remaining (skip 1 fr)" using assms(2) s by (simp add: remaining_def)
qed

lemma next_token_ok:
  "frame_ok fr \<Longrightarrow> next_token fr = (r, fr') \<Longrightarrow>
   frame_ok fr' \<and> (case r of Some t \<Rightarrow> remaining fr = t # remaining fr' | None \<Rightarrow> remaining fr = [] \<and> is_exhausted fr')"
proof (induction fr rule: next_token.induct)
  case (1 fr)
  show ?case
  proof (cases "rest_of_segment fr")
    case Nil
    then have pk: "peek_token fr = None" by (simp add: peek_token_def)
    obtain go fr1 where n: "next_segment fr = (go, fr1)" by fastforce
    note ok = next_segment_ok [OF 1(2) n Nil]
    show ?thesis
    proof (cases go)
      case True
      have "next_token fr1 = (r, fr')" using 1(3) pk n True by (simp add: next_token.simps [of fr])
      with 1(1) [OF pk n [symmetric]] ok True show ?thesis by (cases r) auto
    next
      case False
      then have "r = None" "fr' = fr1" using 1(3) pk n by (simp_all add: next_token.simps [of fr])
      moreover have "fr1 = fr" using n False by (auto simp: next_segment_def Let_def split: if_splits prod.splits)
      ultimately show ?thesis using ok False by simp
    qed
  next
    case (Cons t ts)
    then have "r = Some t" "fr' = skip 1 fr" using 1(3) by (simp_all add: next_token.simps [of fr] peek_token_def)
    then show ?thesis using skip_ok [OF 1(2) Cons] by simp
  qed
qed

subsection \<open>Delivering the text\<close>

fun take_tokens :: "nat \<Rightarrow> frame \<Rightarrow> token list \<times> frame" where
  "take_tokens 0 fr = ([], fr)"
| "take_tokens (Suc n) fr =
     (case next_token fr of
        (None, fr') \<Rightarrow> ([], fr')
      | (Some t, fr') \<Rightarrow> (let (ts, fr'') = take_tokens n fr' in (t # ts, fr'')))"

lemma take_tokens_ok:
  "frame_ok fr \<Longrightarrow> fst (take_tokens n fr) = take n (remaining fr) \<and>
     (length (remaining fr) < n \<longrightarrow> is_exhausted (snd (take_tokens n fr)))"
proof (induction n arbitrary: fr)
  case (Suc n)
  obtain r fr' where n: "next_token fr = (r, fr')" by fastforce
  note ok = next_token_ok [OF Suc.prems n]
  show ?case
  proof (cases r)
    case (Some t)
    then show ?thesis using ok n Suc.IH [of fr'] by (auto split: prod.splits)
  next
    case None
    then show ?thesis using ok n by simp
  qed
qed simp

lemma frame_new_ok:
  fixes owner :: "nat option" and depth :: nat
  assumes "args_ok args" "length (snd body) < 4294967296"
  defines "fr \<equiv> frame_new (build_replacement_plan body) args owner depth"
  shows "frame_ok fr" "remaining fr = substitute (args_of args) (snd body)"
proof -
  let ?fr = "\<lparr>fr_seg = Body, fr_pos = 0, fr_end = 0, fr_trace_depth = depth, fr_in_arg = False, fr_resume = 0,
    fr_next_ref = 0, fr_plan = build_replacement_plan body, fr_args = args, fr_owner = owner\<rparr>"
  have f: "fr = body_segment 0 ?fr" by (simp add: fr_def frame_new_def body_segment_def Let_def)
  have "aligned (plan_body ?fr) (frame_refs ?fr) 0 (fr_next_ref ?fr)"
    by (simp add: plan_body_def build_replacement_plan_def Let_def aligned_def)
  from body_segment_ok [OF _ _ _ this] show "frame_ok fr" "remaining fr = substitute (args_of args) (snd body)"
    using assms(1,2) unfolding f by (simp_all add: plan_body_def build_replacement_plan_def Let_def)
qed

text \<open>
  Property C32. Reading a macro call's frame token by token delivers exactly the replacement text with each parameter
  reference replaced by its argument (a reference without an argument by nothing), in order and nothing else, and
  asking for more finds the frame exhausted.
\<close>
theorem frame_delivers:
  fixes owner :: "nat option" and depth :: nat
  assumes "args_ok args" "length (snd body) < 4294967296"
  defines "fr \<equiv> frame_new (build_replacement_plan body) args owner depth"
  defines "replaced \<equiv> substitute (args_of args) (snd body)"
  shows "fst (take_tokens n fr) = take n replaced \<and>
    (length replaced < n \<longrightarrow> is_exhausted (snd (take_tokens n fr)))"
  using take_tokens_ok frame_new_ok [OF assms(1,2)] unfolding fr_def replaced_def by metis

text \<open>The replacement text \<open>a#1#2\<close> with the arguments \<open>xy\<close> and none.\<close>

definition example_args :: macro_args where
  "example_args = \<lparr>a_toks = [0xD8000061, 0xD8000062], a_ends = [2, 2, 0, 0, 0, 0, 0, 0, 0], a_count = 2\<rparr>"

definition example_body :: "token list rc" where
  "example_body = (7, [0xD8000078, 0x40000001, 0x40000002, 0x40000001])"

lemma example_args_ok: "args_ok example_args"
  by (auto simp: args_ok_def example_args_def arg_start_def less_2_cases_iff numeral_2_eq_2 less_Suc_eq)

lemma example_substitute:
  "substitute (args_of example_args) (snd example_body) = [0xD8000078, 0xD8000061, 0xD8000062, 0xD8000061, 0xD8000062]"
  by code_simp

theorem frame_delivers_witness:
  "args_ok example_args \<and> length (snd example_body) < 4294967296 \<and>
   fst (take_tokens 9 (frame_new (build_replacement_plan example_body) example_args None 0)) =
     [0xD8000078, 0xD8000061, 0xD8000062, 0xD8000061, 0xD8000062] \<and>
   is_exhausted (snd (take_tokens 9 (frame_new (build_replacement_plan example_body) example_args None 0)))"
proof -
  have l: "length (snd example_body) < 4294967296" by (simp add: example_body_def)
  show ?thesis using frame_delivers [OF example_args_ok l, of 9 None 0] example_args_ok l
    by (simp add: example_substitute)
qed

subsection \<open>The length of the text\<close>

text \<open>The text with the references before position \<open>i\<close> replaced, and the positions where the code looks at the length.\<close>

definition partial_text :: "token list list \<Rightarrow> token list \<Rightarrow> nat \<Rightarrow> token list" where
  "partial_text as ts i = substitute as (take i ts) @ drop i ts"

definition checked :: "token list \<Rightarrow> nat \<Rightarrow> bool" where
  "checked ts i \<longleftrightarrow> i = length ts \<or> 0 < i \<and> i \<le> length ts \<and> is_reference (ts ! (i - 1))"

lemma checked_simps [simp]:
  "checked [] i \<longleftrightarrow> i = 0" "\<not> checked (t # ts) 0"
  "checked (t # ts) (Suc i) \<longleftrightarrow> checked ts i \<or> (i = 0 \<and> is_reference t)"
  by (cases i; auto simp: checked_def)+

lemma all_checked_Cons:
  "(\<forall>i. checked (t # ts) i \<longrightarrow> P i) \<longleftrightarrow> (\<forall>i. checked ts i \<longrightarrow> P (Suc i)) \<and> (is_reference t \<longrightarrow> P 1)"
  by (metis One_nat_def checked_simps(2,3) not0_implies_Suc)

definition ref_length :: "macro_args \<Rightarrow> nat \<Rightarrow> nat" where
  "ref_length args k = length (nth_arg (args_of args) k)"

lemma arg_length: "args_ok args \<Longrightarrow> (case arg_get args k of Some ts \<Rightarrow> length ts | None \<Rightarrow> 0) = ref_length args k"
  using arg_get_nth [of args k] by (auto simp: ref_length_def split: option.splits)

lemma replacement_loop_ok:
  assumes "args_ok args" "limit \<le> USIZE_MAX"
  shows "replacement_loop (c + length ts) (references_from p ts) args limit =
    (if \<forall>i. checked ts i \<longrightarrow> c + length (partial_text (args_of args) ts i) \<le> limit
     then Some (c + length (substitute (args_of args) ts)) else None)"
proof (induction ts arbitrary: c p)
  case Nil
  then show ?case by (simp add: partial_text_def)
next
  case (Cons t ts)
  let ?a = "if is_reference t then ref_length args (reference_index t) else 1"
  let ?as = "args_of args"
  have part: "c + length (partial_text ?as (t # ts) (Suc i)) = c + ?a + length (partial_text ?as ts i)" for i
    by (simp add: partial_text_def ref_length_def)
  have one: "partial_text ?as ts 0 = ts" by (simp add: partial_text_def)
  have sub: "c + length (substitute ?as (t # ts)) = c + ?a + length (substitute ?as ts)"
    by (simp add: ref_length_def)
  have "replacement_loop (c + length (t # ts)) (references_from p (t # ts)) args limit =
      (if is_reference t \<and> limit < c + ?a + length ts then None
       else replacement_loop (c + ?a + length ts) (references_from (Suc p) ts) args limit)"
  proof (cases "is_reference t")
    case True
    have e: "c + length (t # ts) - 1 + ?a = c + ?a + length ts" "c + length (t # ts) \<noteq> 0" by simp_all
    show ?thesis using True assms(2)
      by (auto simp: arg_length [OF assms(1)] Let_def ac_simps)
  qed simp
  also have "\<dots> = (if (\<forall>i. checked ts i \<longrightarrow> c + ?a + length (partial_text ?as ts i) \<le> limit) \<and> (is_reference t \<longrightarrow> c + ?a + length ts \<le> limit)
      then Some (c + ?a + length (substitute ?as ts)) else None)"
    unfolding Cons.IH [of "c + ?a" "Suc p"] by (simp add: not_less)
  finally show ?case
    unfolding all_checked_Cons [of t ts] sub One_nat_def part one .
qed

text \<open>The fast path: the bound is the sum that the uses of each parameter add.\<close>

definition weight :: "nat list \<Rightarrow> nat list \<Rightarrow> nat" where
  "weight uses lens = sum_list (map (\<lambda>(u, l). u * l) (zip uses lens))"

lemma added_length_weight: "added_length uses lens = min (weight uses lens) USIZE_MAX"
proof -
  have "s \<le> USIZE_MAX \<Longrightarrow> foldl (\<lambda>sum (u, l). saturate_usize (sum + saturate_usize (u * l))) s xs =
    min (s + sum_list (map (\<lambda>(u, l). u * l) xs)) USIZE_MAX" for s and xs :: "(nat \<times> nat) list"
    by (induction xs arbitrary: s) (auto simp: saturate_usize_def min_def)
  then show ?thesis by (simp add: added_length_def weight_def)
qed

lemma weight_update:
  "k < length uses \<Longrightarrow> length lens \<le> length uses \<Longrightarrow>
   weight (uses[k := uses ! k + 1]) lens = weight uses lens + (if k < length lens then lens ! k else 0)"
proof (induction uses arbitrary: k lens)
  case (Cons u uses)
  show ?case
  proof (cases lens)
    case (Cons l ls)
    then show ?thesis using Cons.prems Cons.IH [of "k - 1" ls] by (cases k) (auto simp: weight_def)
  qed (simp add: weight_def)
qed simp

lemma weight_count:
  "length lens \<le> length uses \<Longrightarrow> \<forall>k < length uses. uses ! k + length rs < 4294967296 \<Longrightarrow>
   weight (count_uses rs uses) lens = weight uses lens + sum_list (map (\<lambda>(q, k). if k < length lens then lens ! k else 0) rs)"
proof (induction rs uses rule: count_uses.induct)
  case (2 q k rs uses)
  show ?case
  proof (cases "k < length uses")
    case True
    then have "uses ! k + length ((q, k) # rs) < 4294967296" using 2(3) by blast
    then have m: "Suc (uses ! k) mod 4294967296 = Suc (uses ! k)" by simp
    have "\<forall>j < length (uses[k := uses ! k + 1]). uses[k := uses ! k + 1] ! j + length rs < 4294967296"
    proof (intro allI impI)
      fix j assume "j < length (uses[k := uses ! k + 1])"
      then have "uses ! j + length ((q, k) # rs) < 4294967296" using 2(3) by simp
      then show "uses[k := uses ! k + 1] ! j + length rs < 4294967296" using True by (cases "j = k") simp_all
    qed
    then show ?thesis using 2 True weight_update [of k uses lens] by (simp add: m)
  next
    case False
    then have "\<forall>j < length uses. uses ! j + length rs < 4294967296" using 2(3) by fastforce
    then show ?thesis using 2 False by simp
  qed
qed simp

lemma references_length: "length (references_from p ts) \<le> length ts"
  by (induction ts arbitrary: p) (auto intro: le_SucI)

lemma differences_nth:
  "length (differences s es) = length es"
  "k < length es \<Longrightarrow> differences s es ! k = es ! k - (if k = 0 then s else es ! (k - 1))"
  by (induction es arbitrary: s k) (auto simp: nth_Cons' split: nat.splits)

lemma arg_lengths_eq: "args_ok args \<Longrightarrow> arg_lengths args = map length (args_of args)"
proof (rule nth_equalityI)
  assume ok: "args_ok args"
  then have n: "length (take (a_count args) (a_ends args)) = a_count args" by (auto simp: args_ok_def)
  then show "length (arg_lengths args) = length (map length (args_of args))"
    by (simp add: arg_lengths_def args_of_def differences_nth(1))
  show "arg_lengths args ! k = map length (args_of args) ! k" if "k < length (arg_lengths args)" for k
  proof -
    have k: "k < a_count args" using that n by (simp add: arg_lengths_def differences_nth(1))
    then have "a_ends args ! k \<le> length (a_toks args)" using ok by (simp add: args_ok_def)
    then show ?thesis using k n
      by (simp add: arg_lengths_def args_of_def differences_nth(2) slice_def arg_start_def)
  qed
qed

definition refs_length :: "macro_args \<Rightarrow> (nat \<times> nat) list \<Rightarrow> nat" where
  "refs_length args rs = sum_list (map (\<lambda>(q, k). ref_length args k) rs)"

lemma added_length_ok:
  assumes "args_ok args" "length (snd body) < 4294967296"
  shows "added_length (p_uses (build_replacement_plan body)) (arg_lengths args) =
    min (refs_length args (references_from 0 (snd body))) USIZE_MAX"
proof -
  have "length (args_of args) \<le> 9" using assms(1) by (simp add: args_ok_def args_of_def)
  moreover have "\<forall>k < length (replicate 9 0). replicate 9 0 ! k + length (references_from 0 (snd body)) < (4294967296 :: nat)"
    using assms(2) references_length [of 0 "snd body"] by simp
  moreover have "weight (replicate 9 0) ls = 0" for ls
    by (simp add: weight_def sum_list_eq_0_iff) (auto dest: set_zip_leftD in_set_replicate [THEN iffD1])
  moreover have "(\<lambda>(q :: nat, k). if k < length (args_of args) then map length (args_of args) ! k else 0) = (\<lambda>(q, k). ref_length args k)"
    by (auto simp: fun_eq_iff ref_length_def nth_arg_def)
  ultimately show ?thesis
    by (simp add: build_replacement_plan_def Let_def added_length_weight weight_count arg_lengths_eq [OF assms(1)] refs_length_def)
qed

lemma substitute_length:
  "length (substitute (args_of args) ts) + length (references_from p ts) = length ts + refs_length args (references_from p ts)"
  "length (partial_text (args_of args) ts i) \<le> length ts + refs_length args (references_from p ts)"
proof -
  show "length (substitute (args_of args) ts) + length (references_from p ts) = length ts + refs_length args (references_from p ts)"
    by (induction ts arbitrary: p) (auto simp: refs_length_def ref_length_def)
  show "length (partial_text (args_of args) ts i) \<le> length ts + refs_length args (references_from p ts)"
  proof (induction ts arbitrary: p i)
    case (Cons t ts)
    then show ?case
    proof (cases i)
      case (Suc j)
      then show ?thesis using Cons.IH [of j "Suc p"]
        by (cases "is_reference t") (simp_all add: partial_text_def refs_length_def ref_length_def)
    next
      case 0
      then show ?thesis using Cons.IH [of 0 "Suc p"] by (simp add: partial_text_def refs_length_def ref_length_def)
    qed
  qed (simp add: partial_text_def refs_length_def)
qed

text \<open>The cached plan is the plan of the body it names.\<close>

definition plan_cached :: "macro \<Rightarrow> bool" where
  "plan_cached m \<longleftrightarrow> (\<forall>plan. m_replacement m = Some plan \<longrightarrow> fst (p_body plan) = fst (m_body m) \<longrightarrow>
     plan = build_replacement_plan (m_body m))"

text \<open>
  Property C33. The length check of a macro call agrees with the text: the plan is that of the macro's body (cached or
  rebuilt, and cached afterwards), and the length is that of the replacement text if every text that the substitution
  goes through, one reference after the other, keeps to the limit, and otherwise the call is refused.  So the fast
  path through the upper bound never accepts a call that the exact check refuses, nor computes another length.
\<close>
theorem replacement_plan_length:
  assumes "args_ok args" "plan_cached m" "limit < USIZE_MAX" and l: "length (snd (m_body m)) < 4294967296"
  defines "body \<equiv> snd (m_body m)" and "plan \<equiv> build_replacement_plan (m_body m)"
  shows "replacement_plan m args limit =
    ((plan, if \<forall>i. checked body i \<longrightarrow> length (partial_text (args_of args) body i) \<le> limit
            then Some (length (substitute (args_of args) body)) else None), m\<lparr>m_replacement := Some plan\<rparr>)"
proof -
  let ?refs = "references_from 0 body"
  have p: "(case m_replacement m of Some plan \<Rightarrow> if fst (p_body plan) = fst (m_body m) then plan else build_replacement_plan (m_body m)
          | None \<Rightarrow> build_replacement_plan (m_body m)) = plan"
    using assms(2) by (auto simp: plan_cached_def plan_def split: option.splits)
  have refs: "p_references plan = ?refs" by (simp add: plan_def body_def build_replacement_plan_def Let_def)
  let ?bound = "saturate_usize (length body + added_length (p_uses plan) (arg_lengths args))"
  have bound: "?bound = min (length body + refs_length args ?refs) USIZE_MAX"
    by (simp add: plan_def body_def added_length_ok [OF assms(1) l] saturate_usize_def)
  note exact = replacement_loop_ok [OF assms(1) less_imp_le [OF assms(3)], of 0 body 0, simplified]
  note len = substitute_length(1) [of args body 0]
  have "(if ?bound \<le> limit then Some (?bound - length ?refs) else replacement_length body ?refs args limit) =
    (if \<forall>i. checked body i \<longrightarrow> length (partial_text (args_of args) body i) \<le> limit
            then Some (length (substitute (args_of args) body)) else None)"
  proof (cases "?bound \<le> limit")
    case True
    then have b: "?bound = length body + refs_length args ?refs" using bound assms(3) by simp
    have "length (partial_text (args_of args) body i) \<le> limit" for i
      using substitute_length(2) [of args body i 0] b True by simp
    moreover have "?bound - length ?refs = length (substitute (args_of args) body)" using len b by simp
    ultimately show ?thesis using True by simp
  next
    case False
    then show ?thesis by (simp add: replacement_length_def exact)
  qed
  then show ?thesis unfolding replacement_plan_def Let_def p refs body_def [symmetric] by simp
qed

definition example_macro :: macro where
  "example_macro = \<lparr>m_num_params = 2, m_has_param_refs = True, m_params = [], m_prefix = [], m_body = example_body,
     m_long = False, m_outer = False, m_protected = False, m_replacement = None\<rparr>"

theorem replacement_plan_length_witness:
  "args_ok example_args \<and> plan_cached example_macro \<and> 4 < USIZE_MAX \<and> length (snd (m_body example_macro)) < 4294967296 \<and>
   snd (fst (replacement_plan example_macro example_args 4)) = None \<and>
   snd (fst (replacement_plan example_macro example_args 5)) = Some 5"
proof -
  have c: "plan_cached example_macro" by (simp add: plan_cached_def example_macro_def)
  have l: "4 < USIZE_MAX" "5 < USIZE_MAX" by (simp_all add: USIZE_MAX_def)
  have bl: "length (snd (m_body example_macro)) < 4294967296" by (simp add: example_macro_def example_body_def)
  have b: "m_body example_macro = example_body" by (simp add: example_macro_def)
  have s: "\<exists>i. checked (snd example_body) i \<and> \<not> length (partial_text (args_of example_args) (snd example_body) i) \<le> 4"
  proof -
    have "checked (snd example_body) 4 \<and> \<not> length (partial_text (args_of example_args) (snd example_body) 4) \<le> 4"
      by code_simp
    then show ?thesis by blast
  qed
  have "length (partial_text (args_of example_args) (snd example_body) i) \<le> 5" if "i \<le> 4" for i
  proof -
    have "\<forall>i \<in> set [0..<5]. length (partial_text (args_of example_args) (snd example_body) i) \<le> 5" by code_simp
    then show ?thesis using that by simp
  qed
  moreover have "checked (snd example_body) i \<Longrightarrow> i \<le> 4" for i by (auto simp: checked_def example_body_def)
  ultimately have t: "\<forall>i. checked (snd example_body) i \<longrightarrow> length (partial_text (args_of example_args) (snd example_body) i) \<le> 5"
    by blast
  have n: "snd (fst (replacement_plan example_macro example_args 4)) = None"
    unfolding replacement_plan_length [OF example_args_ok c l(1) bl] b using s by auto
  have "snd (fst (replacement_plan example_macro example_args 5)) = Some 5"
    unfolding replacement_plan_length [OF example_args_ok c l(2) bl] b using t by (simp add: example_substitute)
  then show ?thesis using example_args_ok c l bl n by blast
qed

end
