(* ===== verification/Eqtb.thy ===== *)
theory Eqtb
  imports MacroCall "HOL-Library.AList" "HOL-Library.Monad_Syntax"
begin

text \<open>
  The data of the table of equivalents (\<open>crates/tex-core/src/eqtb.rs\<close>): meanings of control sequences, what the save
  stack holds, the queued trace lines and the table itself, with the tracing of assignments.

  A vector of values and its vector of levels are a pair of lists, a hash map is an association list with its values
  and levels, the save stack is a list with the newest item first.  Levels, indices and codes that Rust keeps unsigned
  are natural numbers, an \<open>i32\<close> or \<open>i64\<close> is an integer, the packed codes of LuaTeX are 64-bit words, a node is left
  abstract.  An index out of range, which panics, gives \<open>None\<close>.
\<close>

subsection \<open>Constants\<close>

(* @src crates/tex-core/src/eqtb.rs const LEVEL_ONE *)
definition LEVEL_ONE :: nat where "LEVEL_ONE = 1"
(* @src crates/tex-core/src/eqtb.rs const MAX_GROUP_LEVEL *)
definition MAX_GROUP_LEVEL :: nat where "MAX_GROUP_LEVEL = 65535"
(* @src crates/tex-core/src/eqtb.rs const NUM_REGISTERS *)
definition NUM_REGISTERS :: nat where "NUM_REGISTERS = 32768"
(* @src crates/tex-core/src/eqtb.rs const CHAR_CLASS_LIMIT *)
definition CHAR_CLASS_LIMIT :: nat where "CHAR_CLASS_LIMIT = 4096"
(* @src crates/tex-core/src/eqtb.rs const LOCAL_LEFT_BOX *)
definition LOCAL_LEFT_BOX :: nat where "LOCAL_LEFT_BOX = NUM_REGISTERS"
(* @src crates/tex-core/src/eqtb.rs const LOCAL_RIGHT_BOX *)
definition LOCAL_RIGHT_BOX :: nat where "LOCAL_RIGHT_BOX = NUM_REGISTERS + 1"
(* @src crates/tex-core/src/eqtb.rs const MAX_SAVE_STACK *)
definition MAX_SAVE_STACK :: nat where "MAX_SAVE_STACK = 100000"
(* @src crates/tex-core/src/eqtb.rs const UNUSED_ATTRIBUTE *)
definition UNUSED_ATTRIBUTE :: int where "UNUSED_ATTRIBUTE = - 0x7FFFFFFF"
(* @src crates/tex-core/src/eqtb.rs const UNDEFINED_MATH_PARAMETER *)
definition UNDEFINED_MATH_PARAMETER :: int where "UNDEFINED_MATH_PARAMETER = 0x3FFFFFFF"

text \<open>The positions of the parameters the table itself reads, and those outside \<open>eqtb\<close>.\<close>

definition TRACING_ONLINE :: nat where "TRACING_ONLINE = 24"
definition TRACING_RESTORES :: nat where "TRACING_RESTORES = 32"
definition ESCAPE_CHAR :: nat where "ESCAPE_CHAR = 45"
definition INTERACTION_MODE :: nat where "INTERACTION_MODE = 73"
definition GLOBAL_DEFS :: nat where "GLOBAL_DEFS = 85"
definition TRACING_ASSIGNS :: nat where "TRACING_ASSIGNS = 106"
definition TRACING_GROUPS :: nat where "TRACING_GROUPS = 107"
definition TAB_SKIP :: nat where "TAB_SKIP = 13"

(* @src crates/tex-core/src/prim.rs const NUM_INT_PARAMS *)
definition NUM_INT_PARAMS :: nat where "NUM_INT_PARAMS = 140 + 54 + 12"
(* @src crates/tex-core/src/prim.rs const NUM_DIM_PARAMS *)
definition NUM_DIM_PARAMS :: nat where "NUM_DIM_PARAMS = 45 + 4"
(* @src crates/tex-core/src/prim.rs const NUM_GLUE_PARAMS *)
definition NUM_GLUE_PARAMS :: nat where "NUM_GLUE_PARAMS = 19"
(* @src crates/tex-core/src/prim.rs const NUM_TOKS_PARAMS *)
definition NUM_TOKS_PARAMS :: nat where "NUM_TOKS_PARAMS = 13"

(* @src crates/tex-core/src/prim.rs impl IntParam fn in_eqtb *)
definition int_in_eqtb :: "nat \<Rightarrow> bool" where
  "int_in_eqtb i \<longleftrightarrow>
     i \<notin> {20, 37, 38, 39, 40, 52, 56, 62, 63, 64, 65, 70, 72, INTERACTION_MODE, 74, 75, 76, 77, 78, 79, 87}"

(* @src crates/tex-core/src/prim.rs impl DimParam fn in_eqtb *)
definition dim_in_eqtb :: "nat \<Rightarrow> bool" where
  "dim_in_eqtb i \<longleftrightarrow> i \<notin> {12, 13, 14, 15, 16, 17, 18, 19, 36}"

subsection \<open>Glue\<close>

(* @src crates/tex-core/src/boxes.rs struct Glue *)
record glue =
  g_width :: int
  g_stretch :: int
  g_shrink :: int
  g_stretch_order :: nat
  g_shrink_order :: nat
  g_subtype :: nat
  g_spec :: nat

definition NO_SPEC :: nat where "NO_SPEC = 0"
definition ZERO_SPEC :: nat where "ZERO_SPEC = 1"
definition FIRST_SPEC :: nat where "FIRST_SPEC = 2"

definition ZERO_GLUE :: glue where
  "ZERO_GLUE = \<lparr>g_width = 0, g_stretch = 0, g_shrink = 0, g_stretch_order = 0, g_shrink_order = 0, g_subtype = 0, g_spec = ZERO_SPEC\<rparr>"

(* @src crates/tex-core/src/boxes.rs impl Glue fn is_zero *)
definition glue_is_zero :: "glue \<Rightarrow> bool" where
  "glue_is_zero g \<longleftrightarrow> g_width g = 0 \<and> g_stretch g = 0 \<and> g_shrink g = 0"

(* @src crates/tex-core/src/eqtb.rs fn same_glue *)
definition same_glue :: "glue \<Rightarrow> glue \<Rightarrow> bool" where
  "same_glue a b \<longleftrightarrow> g_spec a \<noteq> NO_SPEC \<and> g_spec a = g_spec b"

type_synonym toks = "token list rc"

(* @src crates/tex-core/src/eqtb.rs fn same_toks *)
definition same_toks :: "toks \<Rightarrow> toks \<Rightarrow> bool" where
  "same_toks a b \<longleftrightarrow> fst a = fst b \<or> snd a = [] \<and> snd b = []"

subsection \<open>Meanings\<close>

text \<open>A primitive is its number.\<close>

(* @src crates/tex-core/src/eqtb.rs enum Equiv *)
datatype (plugins only: code) equiv =
    CountReg nat | AttributeReg nat | DimenReg nat | SkipReg nat | MuSkipReg nat | ToksReg nat | BoxReg nat
  | CharDef nat | CharTok nat | MathCharDef nat | UMathCharDef int | FontRef nat | EqAlias nat | EqPrim nat
  | EqMacro "macro rc" | LuaCall nat bool

(* @src crates/tex-core/src/eqtb.rs impl Equiv fn kind_name *)
fun kind_name :: "equiv \<Rightarrow> string" where
  "kind_name (CountReg _) = ''CountReg''"
| "kind_name (AttributeReg _) = ''AttributeReg''"
| "kind_name (DimenReg _) = ''DimenReg''"
| "kind_name (SkipReg _) = ''SkipReg''"
| "kind_name (MuSkipReg _) = ''MuSkipReg''"
| "kind_name (ToksReg _) = ''ToksReg''"
| "kind_name (BoxReg _) = ''BoxReg''"
| "kind_name (CharDef _) = ''CharDef''"
| "kind_name (CharTok _) = ''CharTok''"
| "kind_name (MathCharDef _) = ''MathCharDef''"
| "kind_name (UMathCharDef _) = ''UMathCharDef''"
| "kind_name (FontRef _) = ''FontRef''"
| "kind_name (EqAlias _) = ''Alias''"
| "kind_name (EqPrim _) = ''Prim''"
| "kind_name (EqMacro _) = ''Macro''"
| "kind_name (LuaCall _ _) = ''LuaCall''"

text \<open>Macros by identity, registers, codes, fonts, aliases and primitives by value, the other kinds never.\<close>

(* @src crates/tex-core/src/eqtb.rs impl Equiv fn same *)
definition same_equiv :: "equiv option \<Rightarrow> equiv option \<Rightarrow> bool" where
  "same_equiv a b = (case (a, b) of
     (None, None) \<Rightarrow> True
   | (Some p, Some q) \<Rightarrow>
       (case p of
          EqMacro x \<Rightarrow> (case q of EqMacro y \<Rightarrow> fst x = fst y | _ \<Rightarrow> False)
        | AttributeReg _ \<Rightarrow> False
        | UMathCharDef _ \<Rightarrow> False
        | LuaCall _ _ \<Rightarrow> False
        | _ \<Rightarrow> p = q)
   | _ \<Rightarrow> False)"

subsection \<open>Groups and the save stack\<close>

(* @src crates/tex-core/src/eqtb.rs enum LevelType *)
datatype level_type =
    LtGroup | LtSimple | LtSemiSimple | LtBox | LtMacroCall | LtNoLine | LtBalanced | LtMathShift | LtMathLeft | LtMathGroup

text \<open>\<open>cur_group\<close> codes (module \<open>group_code\<close>).\<close>

definition GC_BOTTOM :: nat where "GC_BOTTOM = 0"
definition GC_SIMPLE :: nat where "GC_SIMPLE = 1"
definition GC_HBOX :: nat where "GC_HBOX = 2"
definition GC_MATH :: nat where "GC_MATH = 9"
definition GC_SEMI_SIMPLE :: nat where "GC_SEMI_SIMPLE = 14"
definition GC_MATH_SHIFT :: nat where "GC_MATH_SHIFT = 15"
definition GC_MATH_LEFT :: nat where "GC_MATH_LEFT = 16"

(* @src crates/tex-core/src/eqtb.rs struct GroupMeta *)
record group_meta =
  gm_code :: nat
  gm_context :: int
  gm_spec :: int
  gm_exactly :: bool

(* @src crates/tex-core/src/eqtb.rs impl GroupMeta fn new *)
definition meta_new :: "nat \<Rightarrow> group_meta" where
  "meta_new code = \<lparr>gm_code = code, gm_context = 0, gm_spec = 0, gm_exactly = True\<rparr>"

(* @src crates/tex-core/src/eqtb.rs impl GroupMeta fn of *)
definition meta_of :: "level_type \<Rightarrow> group_meta" where
  "meta_of kind = meta_new (case kind of
     LtSemiSimple \<Rightarrow> GC_SEMI_SIMPLE | LtMathShift \<Rightarrow> GC_MATH_SHIFT | LtMathLeft \<Rightarrow> GC_MATH_LEFT
   | LtMathGroup \<Rightarrow> GC_MATH | LtBox \<Rightarrow> GC_HBOX | _ \<Rightarrow> GC_SIMPLE)"

(* @src crates/tex-core/src/eqtb.rs struct GroupRec *)
record group_rec =
  gr_meta :: group_meta
  gr_line :: int
  gr_ty :: level_type
  gr_boundary :: nat

(* @src crates/tex-core/src/eqtb.rs fn group_description *)
definition group_description :: "nat \<Rightarrow> nat \<Rightarrow> int \<Rightarrow> bool \<Rightarrow> string" where
  "group_description code level line entered =
     (if code = GC_BOTTOM then ''bottom level''
      else
        let name = (if code = 1 then ''simple'' else if code = 14 then ''semi simple'' else if code = 2 then ''hbox''
              else if code = 3 then ''adjusted hbox'' else if code = 4 then ''vbox'' else if code = 5 then ''vtop''
              else if code = 6 then ''align'' else if code = 7 then ''no align'' else if code = 8 then ''output''
              else if code = 10 then ''disc'' else if code = 11 then ''insert'' else if code = 12 then ''vcenter''
              else if code = 9 then ''math'' else if code = 13 then ''math choice'' else if code = 15 then ''math shift''
              else if code = 17 then ''local box'' else ''math left'')
        in name @ '' group (level '' @ dec_nat level @ '')'' @
           (if line \<noteq> 0 then (if entered then '' entered at line '' else '' at line '') @ dec_int line else ''''))"

type_synonym 'v saved_entry = "('v \<times> nat) option"

(* @src crates/tex-core/src/eqtb.rs enum SaveItem *)
datatype (plugins only: code) 'n save_item =
    SvLevel nat level_type
  | SvEq nat "equiv option" nat
  | SvIntParam nat int nat | SvDimParam nat int nat | SvGlueParam nat glue nat | SvToksParam nat toks nat
  | SvCount nat int nat | SvDimen nat int nat | SvSkip nat glue nat | SvMuSkip nat glue nat | SvToks nat toks nat
  | SvBox nat "'n option" nat
  | SvCat int nat nat nat | SvMathCode nat nat nat | SvDelCode nat int nat | SvLcCode nat nat nat
  | SvSfCode nat nat nat | SvUcCode nat nat nat
  | SvUnicodeCase bool nat "nat saved_entry" | SvUnicodeCat int nat "nat saved_entry"
  | SvUnicodeMath nat "nat saved_entry" | SvUnicodeDel nat "int saved_entry" | SvUnicodeSf nat "nat saved_entry"
  | SvInterCharToks nat "toks saved_entry" | SvAttribute nat "int saved_entry" | SvMathParam nat "int saved_entry"
  | SvLuaMathCode nat "64 word saved_entry" | SvLuaDelCode nat "64 word saved_entry"
  | SvMathGlueParam nat "int list saved_entry"
  | SvCatCodeTable int nat
  | SvStyleFont nat nat nat nat | SvFontParam nat nat int nat | SvHyphenChar nat int nat | SvSkewChar nat int nat
  | SvCurFont nat nat
  | SvParShape "(int \<times> int) list" nat | SvPenaltyShape nat "int list" nat
  | SvAfterGroup token

subsection \<open>Trace lines\<close>

(* @src crates/tex-core/src/eqtb.rs enum TraceSlot *)
datatype (plugins only: code) trace_slot =
    TsEq nat | TsIntParam nat | TsDimParam nat | TsGlueParam nat | TsToksParam nat | TsCount nat | TsDimen nat
  | TsSkip nat | TsMuSkip nat | TsToks nat | TsBox nat | TsCat nat | TsMathCode nat | TsDelCode nat | TsLcCode nat
  | TsUcCode nat | TsSfCode nat | TsInterCharToks | TsCurFont | TsStyleFont nat nat | TsParShape | TsPenaltyShape nat

(* @src crates/tex-core/src/eqtb.rs enum TraceValue *)
datatype (plugins only: code) 'n traced_value =
    TvInt int | TvGlue glue | TvToks toks | TvBox "'n option" | TvEq "equiv option" | TvFont nat | TvShape int int int

(* @src crates/tex-core/src/eqtb.rs enum TraceEvent *)
datatype (plugins only: code) 'n trace_event =
    TeEqtb string trace_slot "'n traced_value" int bool
  | TeText string bool

subsection \<open>The table\<close>

(* @src crates/tex-core/src/eqtb.rs struct EqEntry *)
record eq_entry =
  en_equiv :: "equiv option"
  en_level :: nat
  en_outer :: bool

definition ENTRY_UNDEFINED :: eq_entry where
  "ENTRY_UNDEFINED = \<lparr>en_equiv = None, en_level = LEVEL_ONE, en_outer = False\<rparr>"

text \<open>A table with its levels, and the entries of a hash map with theirs.\<close>

type_synonym 'v dense = "'v list \<times> nat list"
type_synonym ('k, 'v) sparse = "('k \<times> 'v \<times> nat) list"

(* @src crates/tex-core/src/eqtb.rs struct CatCodeTable *)
record cat_table =
  ct_cat :: "nat dense"
  ct_unicode :: "(nat, nat) sparse"
  ct_valid :: bool

(* @src crates/tex-core/src/eqtb.rs struct AttrLists *)
record attr_lists =
  al_lists :: "(int \<times> int) list list"
  al_index :: "((int \<times> int) list \<times> nat) list"

(* @src crates/tex-core/src/eqtb.rs:627-760 Eqtb *)
record 'n eqtb =
  entries :: "eq_entry list"
  save_stack :: "'n save_item list"
  cur_level :: nat
  capacity_exceeded :: bool
  pending_mode :: "int option"
  outer_entries :: nat
  cur_font_val :: nat
  cur_font_level :: nat
  trace_events :: "'n trace_event list"
  next_spec :: nat
  groups :: "group_rec list"
  int_params :: "int dense"
  dim_params :: "int dense"
  glue_params :: "glue dense"
  tok_params :: "toks dense"
  r_count :: "int dense"
  r_dimen :: "int dense"
  r_skip :: "glue dense"
  r_muskip :: "glue dense"
  r_toks :: "toks dense"
  r_box :: "'n option dense"
  cat :: "nat dense"
  math_code :: "nat dense"
  del_code :: "int dense"
  lc_code :: "nat dense"
  sf_code :: "nat dense"
  sf_class :: "nat list"
  uc_code :: "nat dense"
  unicode_cat_codes :: "(nat, nat) sparse"
  unicode_math_codes :: "(nat, nat) sparse"
  unicode_del_codes :: "(nat, int) sparse"
  unicode_sf_codes :: "(nat, nat) sparse"
  inter_char :: "(nat, toks) sparse"
  unicode_case_codes :: "(bool \<times> nat, nat) sparse"
  cat_current :: int
  cat_current_level :: nat
  cat_tables :: "(int \<times> cat_table) list"
  attributes :: "(nat, int) sparse"
  attr_store :: attr_lists
  cur_attr :: nat
  math_params :: "(nat, int) sparse"
  math_glue_params :: "(nat, int list) sparse"
  lua_math_codes :: "(nat, 64 word) sparse"
  lua_del_codes :: "(nat, 64 word) sparse"
  xe_math :: bool
  style_fonts :: "nat dense list"
  font_params :: "int dense list"
  hyphen_char :: "int dense"
  skew_char :: "int dense"

end
