(* ===== verification/EqtbAssign.thy ===== *)
theory EqtbAssign
  imports Eqtb
begin

text \<open>
  The operations of \<open>crates/tex-core/src/eqtb.rs\<close> on meanings, parameters, registers and boxes: the tracing of
  assignments, the level-aware slots, and one operation for each kind of location.
\<close>

subsection \<open>Slots\<close>

definition fetch :: "'v dense \<Rightarrow> nat \<Rightarrow> 'v option" where
  "fetch t i = (if i < length (fst t) then Some (fst t ! i) else None)"

text \<open>
  \<open>slot\<close> stores a value, pushing the old value and level when a local assignment is the first of its group;
  \<open>restore_slot\<close> is the arm of \<open>unsave\<close> for it: the value and whether it was restored.
\<close>

(* @src crates/tex-core/src/eqtb.rs impl Eqtb fn slot *)
definition slot ::
  "'v dense \<Rightarrow> nat \<Rightarrow> 'v \<Rightarrow> bool \<Rightarrow> nat \<Rightarrow> 'n save_item list \<Rightarrow> ('v \<Rightarrow> nat \<Rightarrow> 'n save_item) \<Rightarrow> ('v dense \<times> 'n save_item list) option" where
  "slot t idx v global level stack mk =
     (let (vals, levels) = t
      in if idx < length levels \<and> idx < length vals then
           Some ((vals[idx := v], levels[idx := if global then LEVEL_ONE else level]),
                 if \<not> global \<and> levels ! idx < level then mk (vals ! idx) (levels ! idx) # stack else stack)
         else None)"

(* @src crates/tex-core/src/eqtb.rs:2596-2602 pop_level_general *)
definition restore_slot :: "'v dense \<Rightarrow> nat \<Rightarrow> 'v \<Rightarrow> nat \<Rightarrow> ('v dense \<times> bool) option" where
  "restore_slot t idx v l =
     (let (vals, levels) = t
      in if idx < length levels then
           if levels ! idx > LEVEL_ONE then
             if idx < length vals then Some ((vals[idx := v], levels[idx := l]), True) else None
           else Some (t, False)
         else None)"

definition entry_level :: "('v \<times> nat) option \<Rightarrow> nat" where
  "entry_level old = (case old of None \<Rightarrow> LEVEL_ONE | Some (_, level) \<Rightarrow> level)"

(* @src crates/tex-core/src/eqtb.rs impl Eqtb fn sparse_slot *)
definition sparse_slot ::
  "('k, 'v) sparse \<Rightarrow> 'k \<Rightarrow> 'v \<Rightarrow> bool \<Rightarrow> nat \<Rightarrow> 'n save_item list \<Rightarrow> (('v \<times> nat) option \<Rightarrow> 'n save_item) \<Rightarrow>
   ('k, 'v) sparse \<times> 'n save_item list" where
  "sparse_slot m k v global level stack save =
     (let old = map_of m k
      in (AList.update k (v, if global then LEVEL_ONE else level) m,
          if \<not> global \<and> entry_level old < level then save old # stack else stack))"

(* @src crates/tex-core/src/eqtb.rs impl Eqtb fn sparse_is_local *)
definition sparse_is_local :: "('k, 'v) sparse \<Rightarrow> 'k \<Rightarrow> bool" where
  "sparse_is_local m k = (case map_of m k of None \<Rightarrow> False | Some (_, level) \<Rightarrow> level > LEVEL_ONE)"

(* @src crates/tex-core/src/eqtb.rs impl Eqtb fn restore_sparse *)
definition restore_sparse :: "('k, 'v) sparse \<Rightarrow> 'k \<Rightarrow> ('v \<times> nat) option \<Rightarrow> ('k, 'v) sparse" where
  "restore_sparse m k old =
     (if sparse_is_local m k then (case old of Some x \<Rightarrow> AList.update k x m | None \<Rightarrow> AList.delete k m) else m)"

subsection \<open>Reading what a trace line shows\<close>

definition int_param :: "'n eqtb \<Rightarrow> nat \<Rightarrow> int" where
  "int_param e i = fst (int_params e) ! i"

definition get_or :: "('k, 'v) sparse \<Rightarrow> 'k \<Rightarrow> 'v \<Rightarrow> 'v" where
  "get_or m k d = (case map_of m k of Some (v, _) \<Rightarrow> v | None \<Rightarrow> d)"

definition fetch_or :: "'v dense \<Rightarrow> nat \<Rightarrow> 'v \<Rightarrow> 'v" where
  "fetch_or t i d = (if i < length (fst t) then fst t ! i else d)"

(* @src crates/tex-core/src/eqtb.rs impl Eqtb fn cat_code *)
definition cat_code :: "'n eqtb \<Rightarrow> nat \<Rightarrow> nat" where
  "cat_code e c = get_or (unicode_cat_codes e) c (fetch_or (cat e) c CAT_OTHER)"

(* @src crates/tex-core/src/eqtb.rs impl Eqtb fn math_code_for *)
definition math_code_for :: "'n eqtb \<Rightarrow> nat \<Rightarrow> nat" where
  "math_code_for e c = get_or (unicode_math_codes e) c (fetch_or (math_code e) c 0)"

(* @src crates/tex-core/src/eqtb.rs impl Eqtb fn delimiter_code_for *)
definition delimiter_code_for :: "'n eqtb \<Rightarrow> nat \<Rightarrow> int" where
  "delimiter_code_for e c = get_or (unicode_del_codes e) c (fetch_or (del_code e) c (- 1))"

text \<open>\<open>class << 16 | sfcode\<close> with a 16-bit space factor code is a sum.\<close>

definition pack_sf :: "nat \<Rightarrow> nat \<Rightarrow> nat" where
  "pack_sf class sf = class * 65536 + sf"

(* @src crates/tex-core/src/eqtb.rs impl Eqtb fn sf_entry *)
definition sf_entry :: "'n eqtb \<Rightarrow> nat \<Rightarrow> nat" where
  "sf_entry e c = get_or (unicode_sf_codes e) c
     (if c < length (fst (sf_code e)) then pack_sf (sf_class e ! c) (fst (sf_code e) ! c) else 1000)"

(* @src crates/tex-core/src/eqtb.rs impl Eqtb fn xe_default_math_code *)
definition xe_default_math_code :: "nat \<Rightarrow> int" where
  "xe_default_math_code c =
     int (if 0x30 \<le> c \<and> c \<le> 0x39 then c + 7 * 0x200000
          else if 0x41 \<le> c \<and> c \<le> 0x5A \<or> 0x61 \<le> c \<and> c \<le> 0x7A then c + 0x1000000 + 7 * 0x200000
          else c)"

(* @src crates/tex-core/src/eqtb.rs impl Eqtb fn xe_math_code *)
definition xe_math_code :: "'n eqtb \<Rightarrow> nat \<Rightarrow> int" where
  "xe_math_code e c = (case map_of (lua_math_codes e) c of Some (v, _) \<Rightarrow> sint v | None \<Rightarrow> xe_default_math_code c)"

text \<open>\<open>as i32\<close> of the delimiter code.\<close>

(* @src crates/tex-core/src/eqtb.rs impl Eqtb fn xe_del_code *)
definition xe_del_code :: "'n eqtb \<Rightarrow> nat \<Rightarrow> int" where
  "xe_del_code e c = (case map_of (unicode_del_codes e) c of
     Some (v, _) \<Rightarrow> wrap_i32 v | None \<Rightarrow> if c = 46 then 0 else - 1)"

(* @src crates/tex-core/src/eqtb.rs impl Eqtb fn case_code *)
definition case_code :: "'n eqtb \<Rightarrow> nat \<Rightarrow> bool \<Rightarrow> nat" where
  "case_code e c uppercase = get_or (unicode_case_codes e) (uppercase, c) (fetch_or (if uppercase then uc_code e else lc_code e) c 0)"

(* @src crates/tex-core/src/eqtb.rs impl Eqtb fn get *)
definition equiv_get :: "'n eqtb \<Rightarrow> nat \<Rightarrow> equiv option" where
  "equiv_get e cs = (if cs < length (entries e) then en_equiv (entries e ! cs) else None)"

text \<open>The slots that are traced have been read before, so the indices are in range.\<close>

(* @src crates/tex-core/src/eqtb.rs impl Eqtb fn trace_value *)
fun trace_value :: "'n eqtb \<Rightarrow> trace_slot \<Rightarrow> 'n traced_value" where
  "trace_value e (TsEq cs) = TvEq (equiv_get e cs)"
| "trace_value e (TsIntParam i) = TvInt (fst (int_params e) ! i)"
| "trace_value e (TsDimParam i) = TvInt (fst (dim_params e) ! i)"
| "trace_value e (TsGlueParam i) = TvGlue (fst (glue_params e) ! i)"
| "trace_value e (TsToksParam i) = TvToks (fst (tok_params e) ! i)"
| "trace_value e (TsCount i) = TvInt (fst (r_count e) ! i)"
| "trace_value e (TsDimen i) = TvInt (fst (r_dimen e) ! i)"
| "trace_value e (TsSkip i) = TvGlue (fst (r_skip e) ! i)"
| "trace_value e (TsMuSkip i) = TvGlue (fst (r_muskip e) ! i)"
| "trace_value e (TsToks i) = TvToks (fst (r_toks e) ! i)"
| "trace_value e (TsBox i) = TvBox (fst (r_box e) ! i)"
| "trace_value e (TsCat c) = TvInt (int (cat_code e c))"
| "trace_value e (TsMathCode c) = TvInt (if xe_math e then xe_math_code e c else int (math_code_for e c))"
| "trace_value e (TsDelCode c) = TvInt (if xe_math e then xe_del_code e c else delimiter_code_for e c)"
| "trace_value e (TsLcCode c) = TvInt (int (case_code e c False))"
| "trace_value e (TsUcCode c) = TvInt (int (case_code e c True))"
| "trace_value e (TsSfCode c) = TvInt (int (sf_entry e c))"
| "trace_value e TsInterCharToks = TvInt 0"
| "trace_value e TsCurFont = TvFont (cur_font_val e)"
| "trace_value e (TsStyleFont s f) = TvFont (fst (style_fonts e ! s) ! f)"
| "trace_value e TsParShape = TvShape 0 0 0"
| "trace_value e (TsPenaltyShape k) = TvShape 0 0 0"

(* @src crates/tex-core/src/eqtb.rs impl Eqtb fn trace_with *)
definition trace_with :: "string \<Rightarrow> trace_slot \<Rightarrow> 'n traced_value \<Rightarrow> 'n eqtb \<Rightarrow> 'n eqtb" where
  "trace_with verb ts tv e =
     e\<lparr>trace_events := trace_events e @ [TeEqtb verb ts tv (int_param e ESCAPE_CHAR) (0 < int_param e TRACING_ONLINE)]\<rparr>"

(* @src crates/tex-core/src/eqtb.rs impl Eqtb fn trace *)
definition trace :: "string \<Rightarrow> trace_slot \<Rightarrow> 'n eqtb \<Rightarrow> 'n eqtb" where
  "trace verb ts e = trace_with verb ts (trace_value e ts) e"

(* @src crates/tex-core/src/eqtb.rs impl Eqtb fn trace_text *)
definition trace_text :: "string \<Rightarrow> 'n eqtb \<Rightarrow> 'n eqtb" where
  "trace_text s e = e\<lparr>trace_events := trace_events e @ [TeText s (0 < int_param e TRACING_ONLINE)]\<rparr>"

(* @src crates/tex-core/src/eqtb.rs impl Eqtb fn trace_group *)
definition trace_group :: "bool \<Rightarrow> nat \<Rightarrow> nat \<Rightarrow> int \<Rightarrow> 'n eqtb \<Rightarrow> 'n eqtb" where
  "trace_group leaving code level line e =
     trace_text (''{'' @ (if leaving then ''leaving'' else ''entering'') @ '' '' @ group_description code level line leaving @ ''}'') e"

(* @src crates/tex-core/src/eqtb.rs impl Eqtb fn begin_assign *)
definition begin_assign :: "bool \<Rightarrow> bool \<Rightarrow> trace_slot \<Rightarrow> 'n eqtb \<Rightarrow> bool \<times> 'n eqtb" where
  "begin_assign global same ts e =
     (let reassign = same \<and> \<not> global;
          verb = (if reassign then ''reassigning'' else if global then ''globally changing'' else ''changing'')
      in (\<not> reassign, if 0 < int_param e TRACING_ASSIGNS then trace verb ts e else e))"

(* @src crates/tex-core/src/eqtb.rs impl Eqtb fn end_assign *)
definition end_assign :: "trace_slot \<Rightarrow> 'n eqtb \<Rightarrow> 'n eqtb" where
  "end_assign ts e = (if 0 < int_param e TRACING_ASSIGNS then trace ''into'' ts e else e)"

(* @src crates/tex-core/src/eqtb.rs impl Eqtb fn tracing_restores *)
definition tracing_restores :: "'n eqtb \<Rightarrow> bool" where
  "tracing_restores e \<longleftrightarrow> 0 < int_param e TRACING_RESTORES"

(* @src crates/tex-core/src/eqtb.rs impl Eqtb fn trace_restore *)
definition trace_restore :: "bool \<Rightarrow> trace_slot \<Rightarrow> 'n eqtb \<Rightarrow> 'n eqtb" where
  "trace_restore restored ts e =
     (if tracing_restores e then trace (if restored then ''restoring'' else ''retaining'') ts e else e)"

text \<open>The frame of every traced assignment: a reassignment stops after its trace line.\<close>

definition traced ::
  "bool \<Rightarrow> bool \<Rightarrow> trace_slot \<Rightarrow> ('n eqtb \<Rightarrow> 'n eqtb option) \<Rightarrow> 'n eqtb \<Rightarrow> 'n eqtb option" where
  "traced global same ts store e =
     (case begin_assign global same ts e of
        (False, e) \<Rightarrow> Some e
      | (True, e) \<Rightarrow> map_option (end_assign ts) (store e))"

subsection \<open>Meanings of control sequences\<close>

(* @src crates/tex-core/src/eqtb.rs impl EqEntry fn set *)
definition entry_set :: "equiv option \<Rightarrow> eq_entry \<Rightarrow> nat \<Rightarrow> eq_entry \<times> nat" where
  "entry_set eq en outers =
     (let outer = (case eq of Some (EqMacro m) \<Rightarrow> m_outer (snd m) | _ \<Rightarrow> False);
          outers = (if outer \<noteq> en_outer en then
              if outer then (outers + 1) mod 4294967296 else (outers + 4294967295) mod 4294967296 else outers)
      in (en\<lparr>en_outer := outer, en_equiv := eq\<rparr>, outers))"

definition resized :: "nat \<Rightarrow> 'a \<Rightarrow> 'a list \<Rightarrow> 'a list" where
  "resized n d xs = (if n < length xs then xs else xs @ replicate (n + 1 - length xs) d)"

(* @src crates/tex-core/src/eqtb.rs impl Eqtb fn ensure_entry *)
definition ensure_entry :: "nat \<Rightarrow> 'n eqtb \<Rightarrow> 'n eqtb" where
  "ensure_entry cs e = e\<lparr>entries := resized cs ENTRY_UNDEFINED (entries e)\<rparr>"

(* @src crates/tex-core/src/eqtb.rs impl Eqtb fn definition_level *)
definition definition_level :: "'n eqtb \<Rightarrow> nat \<Rightarrow> nat option" where
  "definition_level e cs = (if cs < length (entries e) then Some (en_level (entries e ! cs)) else None)"

(* @src crates/tex-core/src/eqtb.rs impl Eqtb fn resolve_entry *)
fun resolve_steps :: "nat \<Rightarrow> eq_entry list \<Rightarrow> nat \<Rightarrow> eq_entry option" where
  "resolve_steps 0 ens cs = None"
| "resolve_steps (Suc n) ens cs =
     (if cs < length ens then
        case en_equiv (ens ! cs) of Some (EqAlias next) \<Rightarrow> resolve_steps n ens next | _ \<Rightarrow> Some (ens ! cs)
      else None)"

(* @src crates/tex-core/src/eqtb.rs impl Eqtb fn resolve *)
definition resolve :: "'n eqtb \<Rightarrow> nat \<Rightarrow> equiv option" where
  "resolve e cs = Option.bind (resolve_steps 1024 (entries e) cs) en_equiv"

(* @src crates/tex-core/src/eqtb.rs impl Eqtb fn is_outer_cs *)
definition is_outer_cs :: "'n eqtb \<Rightarrow> nat \<Rightarrow> bool" where
  "is_outer_cs e cs = (case resolve_steps 1024 (entries e) cs of Some en \<Rightarrow> en_outer en | None \<Rightarrow> False)"

(* @src crates/tex-core/src/eqtb.rs impl Eqtb fn has_outer_macros *)
definition has_outer_macros :: "'n eqtb \<Rightarrow> bool" where
  "has_outer_macros e \<longleftrightarrow> outer_entries e \<noteq> 0"

(* @src crates/tex-core/src/eqtb.rs impl Eqtb fn push_save *)
definition push_save :: "'n save_item \<Rightarrow> 'n eqtb \<Rightarrow> 'n eqtb" where
  "push_save item e = e\<lparr>save_stack := item # save_stack e\<rparr>"

(* @src crates/tex-core/src/eqtb.rs impl Eqtb fn save_stack_capacity_exceeded *)
definition save_stack_capacity_exceeded :: "'n eqtb \<Rightarrow> bool" where
  "save_stack_capacity_exceeded e \<longleftrightarrow> MAX_SAVE_STACK < length (save_stack e)"

(* @src crates/tex-core/src/eqtb.rs impl Eqtb fn define_eq *)
definition define_eq :: "nat \<Rightarrow> equiv option \<Rightarrow> bool \<Rightarrow> 'n eqtb \<Rightarrow> 'n eqtb option" where
  "define_eq cs eq global e =
     (let e = ensure_entry cs e
      in traced global (same_equiv (en_equiv (entries e ! cs)) eq) (TsEq cs)
        (\<lambda>e. let en = entries e ! cs;
                 (en', outers) = entry_set eq en (outer_entries e);
                 level = (if global then LEVEL_ONE else cur_level e);
                 e' = e\<lparr>entries := (entries e)[cs := en'\<lparr>en_level := level\<rparr>], outer_entries := outers\<rparr>
             in Some (if \<not> global \<and> en_level en < cur_level e
                      then push_save (SvEq cs (en_equiv en) (en_level en)) e' else e')) e)"

(* @src crates/tex-core/src/eqtb.rs impl Eqtb fn assign *)
definition assign :: "nat \<Rightarrow> equiv \<Rightarrow> bool \<Rightarrow> 'n eqtb \<Rightarrow> 'n eqtb option" where
  "assign cs eq global e = define_eq cs (Some eq) global e"

(* @src crates/tex-core/src/eqtb.rs impl Eqtb fn undefine *)
definition undefine :: "nat \<Rightarrow> bool \<Rightarrow> 'n eqtb \<Rightarrow> 'n eqtb option" where
  "undefine cs global e = define_eq cs None global e"

(* @src crates/tex-core/src/eqtb.rs impl Eqtb fn eqs *)
definition eqs :: "'n eqtb \<Rightarrow> (nat \<times> equiv option \<times> nat) list" where
  "eqs e = map (\<lambda>(cs, en). (cs, en_equiv en, en_level en))
     (filter (\<lambda>(cs, en). en_equiv en \<noteq> None \<or> en_level en \<noteq> LEVEL_ONE) (enumerate 0 (entries e)))"

(* @src crates/tex-core/src/eqtb.rs impl Eqtb fn restore_eq *)
definition restore_eq :: "nat \<Rightarrow> equiv option \<Rightarrow> nat \<Rightarrow> 'n eqtb \<Rightarrow> 'n eqtb" where
  "restore_eq cs eq level e =
     (let e = ensure_entry cs e; (en, outers) = entry_set eq (entries e ! cs) (outer_entries e)
      in e\<lparr>entries := (entries e)[cs := en\<lparr>en_level := level\<rparr>], outer_entries := outers\<rparr>)"

(* @src crates/tex-core/src/eqtb.rs impl Eqtb fn clear_entries *)
definition clear_entries :: "'n eqtb \<Rightarrow> 'n eqtb" where
  "clear_entries e = e\<lparr>entries := [], outer_entries := 0\<rparr>"

end
