(* ===== verification/EqtbRegs.thy ===== *)
theory EqtbRegs
  imports EqtbAssign
begin

text \<open>
  The assignments of \<open>crates/tex-core/src/eqtb.rs\<close>: parameters, registers, boxes and fonts, with the fresh table.
  Each is the frame of a traced assignment around a slot of its table.
\<close>

subsection \<open>A fresh table\<close>

(* @src crates/tex-core/src/eqtb.rs fn make_del_code *)
definition make_del_code :: "nat \<Rightarrow> nat \<Rightarrow> nat \<Rightarrow> nat \<Rightarrow> int" where
  "make_del_code small_fam small_char big_fam big_char =
     wrap_i32 (uint ((push_bit 20 (of_nat small_fam) OR push_bit 12 (of_nat small_char) OR push_bit 8 (of_nat big_fam) OR of_nat big_char) :: 32 word))"

definition fresh :: "nat \<Rightarrow> 'v \<Rightarrow> 'v dense" where
  "fresh n v = (replicate n v, replicate n LEVEL_ONE)"

definition coded :: "(nat \<Rightarrow> 'v) \<Rightarrow> 'v dense" where
  "coded f = (map f [0..<256], replicate 256 LEVEL_ONE)"

definition is_upper_code :: "nat \<Rightarrow> bool" where "is_upper_code c \<longleftrightarrow> 65 \<le> c \<and> c \<le> 90"
definition is_lower_code :: "nat \<Rightarrow> bool" where "is_lower_code c \<longleftrightarrow> 97 \<le> c \<and> c \<le> 122"

definition initial_math_code :: "nat \<Rightarrow> nat" where
  "initial_math_code c =
     (if 48 \<le> c \<and> c \<le> 57 then 0x7000 + c else if is_upper_code c \<or> is_lower_code c then 0x7100 + c else c)"

definition initial_del_code :: "bool \<Rightarrow> nat \<Rightarrow> int" where
  "initial_del_code ini c =
     (if c = 46 then 0
      else if \<not> ini \<and> c \<in> {40, 41, 91, 93, 60, 62, 124} then make_del_code 7 c 7 c else - 1)"

(* @src crates/tex-core/src/eqtb.rs impl AttrLists fn new *)
definition attr_lists_new :: attr_lists where
  "attr_lists_new = \<lparr>al_lists = [[]], al_index = []\<rparr>"

text \<open>All empty token lists of a table are one list.\<close>

(* @src crates/tex-core/src/eqtb.rs impl Eqtb fn new *)
definition eqtb_new :: "bool \<Rightarrow> 'n eqtb" where
  "eqtb_new ini = \<lparr>
     entries = [], save_stack = [], cur_level = LEVEL_ONE, capacity_exceeded = False, pending_mode = None,
     outer_entries = 0, cur_font_val = 0, cur_font_level = LEVEL_ONE, trace_events = [], next_spec = FIRST_SPEC, groups = [],
     int_params = ((replicate NUM_INT_PARAMS 0)[INTERACTION_MODE := 3], replicate NUM_INT_PARAMS LEVEL_ONE),
     dim_params = fresh NUM_DIM_PARAMS 0, glue_params = fresh NUM_GLUE_PARAMS ZERO_GLUE,
     tok_params = fresh NUM_TOKS_PARAMS (0, []),
     r_count = fresh NUM_REGISTERS 0, r_dimen = fresh NUM_REGISTERS 0, r_skip = fresh NUM_REGISTERS ZERO_GLUE,
     r_muskip = fresh NUM_REGISTERS ZERO_GLUE, r_toks = fresh NUM_REGISTERS (1, []), r_box = fresh (NUM_REGISTERS + 2) None,
     cat = (if ini then cat_initex else cat_plain, replicate 256 LEVEL_ONE),
     math_code = coded initial_math_code, del_code = coded (initial_del_code ini),
     lc_code = coded (\<lambda>c. if is_lower_code c then c else if is_upper_code c then c + 32 else 0),
     sf_code = coded (\<lambda>c. if is_upper_code c then 999 else 1000), sf_class = replicate 256 0,
     uc_code = coded (\<lambda>c. if is_lower_code c then c - 32 else if is_upper_code c then c else 0),
     unicode_cat_codes = [], unicode_math_codes = [], unicode_del_codes = [], unicode_sf_codes = [], inter_char = [],
     unicode_case_codes = [], cat_current = 0, cat_current_level = LEVEL_ONE, cat_tables = [], attributes = [],
     attr_store = attr_lists_new, cur_attr = 0, math_params = [], math_glue_params = [], lua_math_codes = [],
     lua_del_codes = [], xe_math = False, style_fonts = replicate 3 (fresh 256 0), font_params = [],
     hyphen_char = ([], []), skew_char = ([], [])\<rparr>"

subsection \<open>Interaction mode\<close>

(* @src crates/tex-core/src/eqtb.rs impl Eqtb fn set_runtime_interaction_mode *)
definition set_runtime_interaction_mode :: "int \<Rightarrow> 'n eqtb \<Rightarrow> 'n eqtb" where
  "set_runtime_interaction_mode v e =
     e\<lparr>int_params := ((fst (int_params e))[INTERACTION_MODE := v], (snd (int_params e))[INTERACTION_MODE := LEVEL_ONE]),
       pending_mode := None\<rparr>"

(* @src crates/tex-core/src/eqtb.rs impl Eqtb fn take_pending_interaction_mode *)
definition take_pending_interaction_mode :: "'n eqtb \<Rightarrow> int option \<times> 'n eqtb" where
  "take_pending_interaction_mode e = (pending_mode e, e\<lparr>pending_mode := None\<rparr>)"

subsection \<open>Parameters\<close>

(* @src crates/tex-core/src/eqtb.rs impl Eqtb fn assign_int_param *)
definition assign_int_param :: "nat \<Rightarrow> int \<Rightarrow> bool \<Rightarrow> 'n eqtb \<Rightarrow> 'n eqtb option" where
  "assign_int_param p v global e =
     (let e = (if p = INTERACTION_MODE then e\<lparr>pending_mode := Some v\<rparr> else e)
      in if p = INTERACTION_MODE \<and> \<not> (0 \<le> v \<and> v \<le> 3) then Some e
         else
           let global = (global \<or> p = INTERACTION_MODE);
               store = (\<lambda>e. do {
                 (t, st) \<leftarrow> slot (int_params e) p v global (cur_level e) (save_stack e) (SvIntParam p);
                 Some (e\<lparr>int_params := t, save_stack := st\<rparr>) })
           in if int_in_eqtb p then do {
                old \<leftarrow> fetch (int_params e) p;
                traced global (old = v) (TsIntParam p) store e }
              else store e)"

(* @src crates/tex-core/src/eqtb.rs impl Eqtb fn assign_dim_param *)
definition assign_dim_param :: "nat \<Rightarrow> int \<Rightarrow> bool \<Rightarrow> 'n eqtb \<Rightarrow> 'n eqtb option" where
  "assign_dim_param p v global e =
     (let store = (\<lambda>e. do {
            (t, st) \<leftarrow> slot (dim_params e) p v global (cur_level e) (save_stack e) (SvDimParam p);
            Some (e\<lparr>dim_params := t, save_stack := st\<rparr>) })
      in if dim_in_eqtb p then do {
           old \<leftarrow> fetch (dim_params e) p;
           traced global (old = v) (TsDimParam p) store e }
         else store e)"

text \<open>A wrap of the counter of glue specifications restarts it at the first one.\<close>

(* @src crates/tex-core/src/eqtb.rs impl Eqtb fn new_spec *)
definition fresh_spec :: "'n eqtb \<Rightarrow> nat \<times> 'n eqtb" where
  "fresh_spec e = (next_spec e, e\<lparr>next_spec := if next_spec e = 4294967295 then FIRST_SPEC else next_spec e + 1\<rparr>)"

(* @src crates/tex-core/src/eqtb.rs impl Eqtb fn define_glue *)
definition define_glue :: "glue \<Rightarrow> 'n eqtb \<Rightarrow> glue \<times> 'n eqtb" where
  "define_glue v e =
     (if glue_is_zero v then (ZERO_GLUE, e)
      else if g_spec v = NO_SPEC then (let (s, e) = fresh_spec e in (v\<lparr>g_spec := s\<rparr>, e))
      else (v, e))"

(* @src crates/tex-core/src/eqtb.rs impl Eqtb fn set_initial_glue_param *)
definition set_initial_glue_param :: "nat \<Rightarrow> glue \<Rightarrow> 'n eqtb \<Rightarrow> 'n eqtb option" where
  "set_initial_glue_param p v e =
     (let (v, e) = define_glue v e
      in if p < length (fst (glue_params e)) then Some (e\<lparr>glue_params := ((fst (glue_params e))[p := v], snd (glue_params e))\<rparr>)
         else None)"

(* @src crates/tex-core/src/eqtb.rs impl Eqtb fn assign_glue_spec *)
definition assign_glue_spec :: "nat \<Rightarrow> glue \<Rightarrow> bool \<Rightarrow> 'n eqtb \<Rightarrow> 'n eqtb option" where
  "assign_glue_spec p v global e = do {
     old \<leftarrow> fetch (glue_params e) p;
     traced global (same_glue old v) (TsGlueParam p) (\<lambda>e. do {
       (t, st) \<leftarrow> slot (glue_params e) p v global (cur_level e) (save_stack e) (SvGlueParam p);
       Some (e\<lparr>glue_params := t, save_stack := st\<rparr>) }) e }"

(* @src crates/tex-core/src/eqtb.rs impl Eqtb fn assign_glue_param *)
definition assign_glue_param :: "nat \<Rightarrow> glue \<Rightarrow> bool \<Rightarrow> 'n eqtb \<Rightarrow> 'n eqtb option" where
  "assign_glue_param p v global e = (let (v, e) = define_glue v e in assign_glue_spec p v global e)"

(* @src crates/tex-core/src/eqtb.rs impl Eqtb fn assign_preamble_tabskip *)
definition assign_preamble_tabskip :: "glue \<Rightarrow> bool \<Rightarrow> 'n eqtb \<Rightarrow> 'n eqtb option" where
  "assign_preamble_tabskip v global e =
     (let (v, e) = (if g_spec v = NO_SPEC then let (s, e) = fresh_spec e in (v\<lparr>g_spec := s\<rparr>, e) else (v, e))
      in assign_glue_spec TAB_SKIP v global e)"

(* @src crates/tex-core/src/eqtb.rs impl Eqtb fn assign_toks_param *)
definition assign_toks_param :: "nat \<Rightarrow> toks \<Rightarrow> bool \<Rightarrow> 'n eqtb \<Rightarrow> 'n eqtb option" where
  "assign_toks_param p v global e = do {
     old \<leftarrow> fetch (tok_params e) p;
     traced global (same_toks old v) (TsToksParam p) (\<lambda>e. do {
       (t, st) \<leftarrow> slot (tok_params e) p v global (cur_level e) (save_stack e) (SvToksParam p);
       Some (e\<lparr>tok_params := t, save_stack := st\<rparr>) }) e }"

subsection \<open>Registers\<close>

(* @src crates/tex-core/src/eqtb.rs impl Eqtb fn assign_count *)
definition assign_count :: "nat \<Rightarrow> int \<Rightarrow> bool \<Rightarrow> 'n eqtb \<Rightarrow> 'n eqtb option" where
  "assign_count i v global e = do {
     old \<leftarrow> fetch (r_count e) i;
     traced global (old = v) (TsCount i) (\<lambda>e. do {
       (t, st) \<leftarrow> slot (r_count e) i v global (cur_level e) (save_stack e) (SvCount i);
       Some (e\<lparr>r_count := t, save_stack := st\<rparr>) }) e }"

(* @src crates/tex-core/src/eqtb.rs impl Eqtb fn assign_dimen *)
definition assign_dimen :: "nat \<Rightarrow> int \<Rightarrow> bool \<Rightarrow> 'n eqtb \<Rightarrow> 'n eqtb option" where
  "assign_dimen i v global e = do {
     old \<leftarrow> fetch (r_dimen e) i;
     traced global (old = v) (TsDimen i) (\<lambda>e. do {
       (t, st) \<leftarrow> slot (r_dimen e) i v global (cur_level e) (save_stack e) (SvDimen i);
       Some (e\<lparr>r_dimen := t, save_stack := st\<rparr>) }) e }"

(* @src crates/tex-core/src/eqtb.rs impl Eqtb fn assign_skip *)
definition assign_skip :: "nat \<Rightarrow> glue \<Rightarrow> bool \<Rightarrow> 'n eqtb \<Rightarrow> 'n eqtb option" where
  "assign_skip i v global e = (let (v, e) = define_glue v e in do {
     old \<leftarrow> fetch (r_skip e) i;
     traced global (same_glue old v) (TsSkip i) (\<lambda>e. do {
       (t, st) \<leftarrow> slot (r_skip e) i v global (cur_level e) (save_stack e) (SvSkip i);
       Some (e\<lparr>r_skip := t, save_stack := st\<rparr>) }) e })"

(* @src crates/tex-core/src/eqtb.rs impl Eqtb fn assign_muskip *)
definition assign_muskip :: "nat \<Rightarrow> glue \<Rightarrow> bool \<Rightarrow> 'n eqtb \<Rightarrow> 'n eqtb option" where
  "assign_muskip i v global e = (let (v, e) = define_glue v e in do {
     old \<leftarrow> fetch (r_muskip e) i;
     traced global (same_glue old v) (TsMuSkip i) (\<lambda>e. do {
       (t, st) \<leftarrow> slot (r_muskip e) i v global (cur_level e) (save_stack e) (SvMuSkip i);
       Some (e\<lparr>r_muskip := t, save_stack := st\<rparr>) }) e })"

(* @src crates/tex-core/src/eqtb.rs impl Eqtb fn assign_toks_reg *)
definition assign_toks_reg :: "nat \<Rightarrow> toks \<Rightarrow> bool \<Rightarrow> 'n eqtb \<Rightarrow> 'n eqtb option" where
  "assign_toks_reg i v global e = do {
     old \<leftarrow> fetch (r_toks e) i;
     traced global (same_toks old v) (TsToks i) (\<lambda>e. do {
       (t, st) \<leftarrow> slot (r_toks e) i v global (cur_level e) (save_stack e) (SvToks i);
       Some (e\<lparr>r_toks := t, save_stack := st\<rparr>) }) e }"

subsection \<open>Boxes\<close>

(* @src crates/tex-core/src/eqtb.rs impl Eqtb fn assign_local_box *)
definition assign_local_box :: "nat \<Rightarrow> 'n option \<Rightarrow> 'n eqtb \<Rightarrow> 'n eqtb option" where
  "assign_local_box i v e = do {
     (t, st) \<leftarrow> slot (r_box e) i v False (cur_level e) (save_stack e) (SvBox i);
     Some (e\<lparr>r_box := t, save_stack := st\<rparr>) }"

(* @src crates/tex-core/src/eqtb.rs impl Eqtb fn assign_box *)
definition assign_box :: "nat \<Rightarrow> 'n option \<Rightarrow> bool \<Rightarrow> 'n eqtb \<Rightarrow> 'n eqtb option" where
  "assign_box i v global e = do {
     old \<leftarrow> fetch (r_box e) i;
     traced global (old = None \<and> v = None) (TsBox i) (\<lambda>e. do {
       (t, st) \<leftarrow> slot (r_box e) i v global (cur_level e) (save_stack e) (SvBox i);
       Some (e\<lparr>r_box := t, save_stack := st\<rparr>) }) e }"

(* @src crates/tex-core/src/eqtb.rs impl Eqtb fn replace_box_value *)
definition replace_box_value :: "nat \<Rightarrow> 'n option \<Rightarrow> 'n eqtb \<Rightarrow> ('n option \<times> 'n eqtb) option" where
  "replace_box_value i v e = do {
     old \<leftarrow> fetch (r_box e) i;
     Some (old, e\<lparr>r_box := ((fst (r_box e))[i := v], snd (r_box e))\<rparr>) }"

(* @src crates/tex-core/src/eqtb.rs impl Eqtb fn take_box *)
definition take_box :: "nat \<Rightarrow> 'n eqtb \<Rightarrow> ('n option \<times> 'n eqtb) option" where
  "take_box i e = replace_box_value i None e"

(* @src crates/tex-core/src/eqtb.rs impl Eqtb fn set_box_untraced *)
definition set_box_untraced :: "nat \<Rightarrow> 'n option \<Rightarrow> 'n eqtb \<Rightarrow> 'n eqtb option" where
  "set_box_untraced i v e =
     (if i < length (fst (r_box e)) \<and> i < length (snd (r_box e)) then
        Some (e\<lparr>r_box := ((fst (r_box e))[i := v], (snd (r_box e))[i := LEVEL_ONE])\<rparr>)
      else None)"

subsection \<open>Fonts\<close>

(* @src crates/tex-core/src/eqtb.rs impl Eqtb fn define_cur_font *)
definition define_cur_font :: "nat \<Rightarrow> bool \<Rightarrow> 'n eqtb \<Rightarrow> 'n eqtb option" where
  "define_cur_font f global e =
     (let gd = int_param e GLOBAL_DEFS; global = (if gd \<noteq> 0 then \<not> gd < 0 else global)
      in traced global (cur_font_val e = f) TsCurFont
        (\<lambda>e. let e' = (if \<not> global \<and> cur_font_level e < cur_level e
                        then push_save (SvCurFont (cur_font_val e) (cur_font_level e)) e else e)
             in Some (e'\<lparr>cur_font_val := f, cur_font_level := if global then LEVEL_ONE else cur_level e\<rparr>)) e)"

(* @src crates/tex-core/src/eqtb.rs impl Eqtb fn assign_style_font *)
definition assign_style_font :: "nat \<Rightarrow> nat \<Rightarrow> nat \<Rightarrow> bool \<Rightarrow> 'n eqtb \<Rightarrow> 'n eqtb option" where
  "assign_style_font s fam v global e =
     (if s < length (style_fonts e) then do {
        old \<leftarrow> fetch (style_fonts e ! s) fam;
        traced global (old = v) (TsStyleFont s fam) (\<lambda>e. do {
          (t, st) \<leftarrow> slot (style_fonts e ! s) fam v global (cur_level e) (save_stack e) (SvStyleFont s fam);
          Some (e\<lparr>style_fonts := (style_fonts e)[s := t], save_stack := st\<rparr>) }) e }
      else None)"

(* @src crates/tex-core/src/eqtb.rs impl Eqtb fn assign_font_param *)
definition assign_font_param :: "nat \<Rightarrow> nat \<Rightarrow> int \<Rightarrow> bool \<Rightarrow> 'n eqtb \<Rightarrow> 'n eqtb option" where
  "assign_font_param font i v global e =
     (if font < length (font_params e) then do {
        let (vals, levels) = font_params e ! font;
        let t = (if length vals \<le> i then (resized i 0 vals, take (i + 1) (resized i LEVEL_ONE levels)) else (vals, levels));
        (t', st) \<leftarrow> slot t i v global (cur_level e) (save_stack e) (SvFontParam font i);
        Some (e\<lparr>font_params := (font_params e)[font := t'], save_stack := st\<rparr>) }
      else None)"

(* @src crates/tex-core/src/eqtb.rs impl Eqtb fn assign_hyphen_char *)
definition assign_hyphen_char :: "nat \<Rightarrow> int \<Rightarrow> bool \<Rightarrow> 'n eqtb \<Rightarrow> 'n eqtb option" where
  "assign_hyphen_char font v global e = do {
     (t, st) \<leftarrow> slot (hyphen_char e) font v global (cur_level e) (save_stack e) (SvHyphenChar font);
     Some (e\<lparr>hyphen_char := t, save_stack := st\<rparr>) }"

(* @src crates/tex-core/src/eqtb.rs impl Eqtb fn assign_skew_char *)
definition assign_skew_char :: "nat \<Rightarrow> int \<Rightarrow> bool \<Rightarrow> 'n eqtb \<Rightarrow> 'n eqtb option" where
  "assign_skew_char font v global e = do {
     (t, st) \<leftarrow> slot (skew_char e) font v global (cur_level e) (save_stack e) (SvSkewChar font);
     Some (e\<lparr>skew_char := t, save_stack := st\<rparr>) }"

end
