(* ===== verification/EqtbCodes.thy ===== *)
theory EqtbCodes
  imports EqtbRegs
begin

unbundle bit_operations_syntax

text \<open>
  The code tables of \<open>crates/tex-core/src/eqtb.rs\<close>: category, mathematics, delimiter, case and space factor codes of
  bytes and their sparse extensions to Unicode, the catcode tables of LuaTeX, attributes, the mathematics parameters
  and packed codes of LuaTeX, and the character classes of XeTeX.
\<close>

subsection \<open>Codes of bytes\<close>

(* @src crates/tex-core/src/eqtb.rs impl Eqtb fn assign_cat *)
definition assign_cat :: "nat \<Rightarrow> nat \<Rightarrow> bool \<Rightarrow> 'n eqtb \<Rightarrow> 'n eqtb option" where
  "assign_cat c v global e = do {
     old \<leftarrow> fetch (cat e) c;
     traced global (old = v) (TsCat c) (\<lambda>e. do {
       (t, st) \<leftarrow> slot (cat e) c v global (cur_level e) (save_stack e) (SvCat (cat_current e) c);
       Some (e\<lparr>cat := t, save_stack := st\<rparr>) }) e }"

(* @src crates/tex-core/src/eqtb.rs impl Eqtb fn assign_math_code *)
definition assign_math_code :: "nat \<Rightarrow> nat \<Rightarrow> bool \<Rightarrow> 'n eqtb \<Rightarrow> 'n eqtb option" where
  "assign_math_code c v global e = do {
     old \<leftarrow> fetch (math_code e) c;
     traced global (old = v) (TsMathCode c) (\<lambda>e. do {
       (t, st) \<leftarrow> slot (math_code e) c v global (cur_level e) (save_stack e) (SvMathCode c);
       Some (e\<lparr>math_code := t, save_stack := st\<rparr>) }) e }"

(* @src crates/tex-core/src/eqtb.rs impl Eqtb fn assign_del_code *)
definition assign_del_code :: "nat \<Rightarrow> int \<Rightarrow> bool \<Rightarrow> 'n eqtb \<Rightarrow> 'n eqtb option" where
  "assign_del_code c v global e = do {
     old \<leftarrow> fetch (del_code e) c;
     traced global (old = v) (TsDelCode c) (\<lambda>e. do {
       (t, st) \<leftarrow> slot (del_code e) c v global (cur_level e) (save_stack e) (SvDelCode c);
       Some (e\<lparr>del_code := t, save_stack := st\<rparr>) }) e }"

(* @src crates/tex-core/src/eqtb.rs impl Eqtb fn assign_lc_code *)
definition assign_lc_code :: "nat \<Rightarrow> nat \<Rightarrow> bool \<Rightarrow> 'n eqtb \<Rightarrow> 'n eqtb option" where
  "assign_lc_code c v global e = do {
     old \<leftarrow> fetch (lc_code e) c;
     traced global (old = v) (TsLcCode c) (\<lambda>e. do {
       (t, st) \<leftarrow> slot (lc_code e) c v global (cur_level e) (save_stack e) (SvLcCode c);
       Some (e\<lparr>lc_code := t, save_stack := st\<rparr>) }) e }"

(* @src crates/tex-core/src/eqtb.rs impl Eqtb fn assign_uc_code *)
definition assign_uc_code :: "nat \<Rightarrow> nat \<Rightarrow> bool \<Rightarrow> 'n eqtb \<Rightarrow> 'n eqtb option" where
  "assign_uc_code c v global e = do {
     old \<leftarrow> fetch (uc_code e) c;
     traced global (old = v) (TsUcCode c) (\<lambda>e. do {
       (t, st) \<leftarrow> slot (uc_code e) c v global (cur_level e) (save_stack e) (SvUcCode c);
       Some (e\<lparr>uc_code := t, save_stack := st\<rparr>) }) e }"

(* @src crates/tex-core/src/eqtb.rs impl Eqtb fn assign_sf_entry *)
definition assign_sf_entry :: "nat \<Rightarrow> nat \<Rightarrow> nat \<Rightarrow> bool \<Rightarrow> 'n eqtb \<Rightarrow> 'n eqtb option" where
  "assign_sf_entry c class v global e =
     (let (vals, levels) = sf_code e
      in if c < length (sf_class e) \<and> c < length vals \<and> c < length levels then
           (let old = pack_sf (sf_class e ! c) (vals ! c)
            in traced global (old = pack_sf class v) (TsSfCode c)
              (\<lambda>e. Some (e\<lparr>save_stack := (if \<not> global \<and> levels ! c < cur_level e then SvSfCode c old (levels ! c) # save_stack e
                                         else save_stack e),
                           sf_code := (vals[c := v], levels[c := if global then LEVEL_ONE else cur_level e]),
                           sf_class := (sf_class e)[c := class]\<rparr>)) e)
         else None)"

(* @src crates/tex-core/src/eqtb.rs impl Eqtb fn assign_sf_code *)
definition assign_sf_code :: "nat \<Rightarrow> nat \<Rightarrow> bool \<Rightarrow> 'n eqtb \<Rightarrow> 'n eqtb option" where
  "assign_sf_code c v global e =
     (if c < length (sf_class e) then assign_sf_entry c (sf_class e ! c) v global e else None)"

subsection \<open>Codes of all characters\<close>

(* @src crates/tex-core/src/eqtb.rs impl Eqtb fn assign_cat_code *)
definition assign_cat_code :: "nat \<Rightarrow> nat \<Rightarrow> bool \<Rightarrow> 'n eqtb \<Rightarrow> 'n eqtb option" where
  "assign_cat_code c v global e =
     (if c < 256 then assign_cat c v global e else traced global (cat_code e c = v) (TsCat c) (\<lambda>e. let (m, st) = sparse_slot (unicode_cat_codes e) c v global (cur_level e) (save_stack e) (SvUnicodeCat (cat_current e) c)
      in Some (e\<lparr>unicode_cat_codes := m, save_stack := st\<rparr>)) e)"

(* @src crates/tex-core/src/eqtb.rs impl Eqtb fn assign_math_code_for *)
definition assign_math_code_for :: "nat \<Rightarrow> nat \<Rightarrow> bool \<Rightarrow> 'n eqtb \<Rightarrow> 'n eqtb option" where
  "assign_math_code_for c v global e =
     (if c < 256 \<and> v < 65536 \<and> map_of (unicode_math_codes e) c = None then assign_math_code c v global e
      else traced global (math_code_for e c = v) (TsMathCode c) (\<lambda>e. let (m, st) = sparse_slot (unicode_math_codes e) c v global (cur_level e) (save_stack e) (SvUnicodeMath c)
      in Some (e\<lparr>unicode_math_codes := m, save_stack := st\<rparr>)) e)"

(* @src crates/tex-core/src/eqtb.rs impl Eqtb fn assign_delimiter_code_for *)
definition assign_delimiter_code_for :: "nat \<Rightarrow> int \<Rightarrow> bool \<Rightarrow> 'n eqtb \<Rightarrow> 'n eqtb option" where
  "assign_delimiter_code_for c v global e =
     (if c < 256 \<and> is_i32 v \<and> map_of (unicode_del_codes e) c = None then assign_del_code c v global e
      else traced global (delimiter_code_for e c = v) (TsDelCode c) (\<lambda>e. let (m, st) = sparse_slot (unicode_del_codes e) c v global (cur_level e) (save_stack e) (SvUnicodeDel c)
      in Some (e\<lparr>unicode_del_codes := m, save_stack := st\<rparr>)) e)"

(* @src crates/tex-core/src/eqtb.rs impl Eqtb fn space_factor_code *)
definition space_factor_code :: "'n eqtb \<Rightarrow> nat \<Rightarrow> nat" where
  "space_factor_code e c =
     (case map_of (unicode_sf_codes e) c of Some (v, _) \<Rightarrow> v mod 65536 | None \<Rightarrow> fetch_or (sf_code e) c 1000)"

(* @src crates/tex-core/src/eqtb.rs impl Eqtb fn char_class *)
definition char_class :: "'n eqtb \<Rightarrow> nat \<Rightarrow> nat" where
  "char_class e c = sf_entry e c div 65536 mod 65536"

(* @src crates/tex-core/src/eqtb.rs impl Eqtb fn assign_sparse_sf_entry *)
definition assign_sparse_sf_entry :: "nat \<Rightarrow> nat \<Rightarrow> nat \<Rightarrow> bool \<Rightarrow> 'n eqtb \<Rightarrow> 'n eqtb option" where
  "assign_sparse_sf_entry c class v global e =
     traced global (sf_entry e c = pack_sf class v) (TsSfCode c) (\<lambda>e. let (m, st) = sparse_slot (unicode_sf_codes e) c (pack_sf class v) global (cur_level e) (save_stack e) (SvUnicodeSf c)
      in Some (e\<lparr>unicode_sf_codes := m, save_stack := st\<rparr>)) e"

(* @src crates/tex-core/src/eqtb.rs impl Eqtb fn assign_space_factor_code *)
definition assign_space_factor_code :: "nat \<Rightarrow> nat \<Rightarrow> bool \<Rightarrow> 'n eqtb \<Rightarrow> 'n eqtb option" where
  "assign_space_factor_code c v global e =
     (if c < 256 then assign_sf_code c v global e else assign_sparse_sf_entry c (char_class e c) v global e)"

(* @src crates/tex-core/src/eqtb.rs impl Eqtb fn assign_char_class *)
definition assign_char_class :: "nat \<Rightarrow> nat \<Rightarrow> bool \<Rightarrow> 'n eqtb \<Rightarrow> 'n eqtb option" where
  "assign_char_class c class global e =
     (let sf = space_factor_code e c
      in if c < 256 then assign_sf_entry c class sf global e else assign_sparse_sf_entry c class sf global e)"

definition inter_key :: "nat \<Rightarrow> nat \<Rightarrow> nat" where
  "inter_key c1 c2 = c1 * CHAR_CLASS_LIMIT + c2"

(* @src crates/tex-core/src/eqtb.rs impl Eqtb fn inter_char_toks *)
definition inter_char_toks :: "'n eqtb \<Rightarrow> nat \<Rightarrow> nat \<Rightarrow> toks option" where
  "inter_char_toks e c1 c2 = (case map_of (inter_char e) (inter_key c1 c2) of
     Some (ts, _) \<Rightarrow> if snd ts = [] then None else Some ts | None \<Rightarrow> None)"

(* @src crates/tex-core/src/eqtb.rs impl Eqtb fn assign_inter_char_toks *)
definition assign_inter_char_toks :: "nat \<Rightarrow> nat \<Rightarrow> toks \<Rightarrow> bool \<Rightarrow> 'n eqtb \<Rightarrow> 'n eqtb option" where
  "assign_inter_char_toks c1 c2 v global e =
     (let key = inter_key c1 c2;
          same = (case map_of (inter_char e) key of Some (t, _) \<Rightarrow> same_toks t v | None \<Rightarrow> snd v = [])
      in traced global same TsInterCharToks
        (\<lambda>e. let (m, st) = sparse_slot (inter_char e) key v global (cur_level e) (save_stack e) (SvInterCharToks key)
             in Some (e\<lparr>inter_char := m, save_stack := st\<rparr>)) e)"

text \<open>
  A case code goes to the byte's table too; the sparse table is left out while it has no entry for the character
  and the code is a byte.
\<close>

(* @src crates/tex-core/src/eqtb.rs impl Eqtb fn assign_case_code *)
definition assign_case_code :: "nat \<Rightarrow> nat \<Rightarrow> bool \<Rightarrow> bool \<Rightarrow> 'n eqtb \<Rightarrow> 'n eqtb option" where
  "assign_case_code c v uppercase global e = do {
     e \<leftarrow> (if c < 256 then
             let byte = (if v < 256 then v else 0)
             in if uppercase then assign_uc_code c byte global e else assign_lc_code c byte global e
           else Some e);
     let old = map_of (unicode_case_codes e) (uppercase, c);
     if c < 256 \<and> v < 256 \<and> old = None then Some e
     else
       let e' = (if \<not> global \<and> cur_level e > LEVEL_ONE \<and> map_option snd old \<noteq> Some (cur_level e)
                 then push_save (SvUnicodeCase uppercase c old) e else e)
       in Some (e'\<lparr>unicode_case_codes :=
            AList.update (uppercase, c) (v, if global then LEVEL_ONE else cur_level e') (unicode_case_codes e')\<rparr>) }"

subsection \<open>Catcode tables\<close>

text \<open>As \<open>cat_initex\<close> but without a space code for the tabulator.\<close>

(* @src crates/tex-core/src/eqtb.rs impl CatCodeTable fn initex *)
definition table_initex :: cat_table where
  "table_initex = \<lparr>
     ct_cat = coded (\<lambda>c. if is_letter_code c then CAT_LETTER else if c = 0 then CAT_IGNORED else if c = 0x7F then CAT_INVALID
       else if c = 37 then CAT_COMMENT else if c = 92 then CAT_ESCAPE else if c = 32 then CAT_SPACE
       else if c = 13 then CAT_EOL else CAT_OTHER),
     ct_unicode = [(0xFEFF, CAT_IGNORED, LEVEL_ONE)], ct_valid = True\<rparr>"

(* @src crates/tex-core/src/eqtb.rs impl CatCodeTable fn blank *)
definition table_blank :: cat_table where
  "table_blank = \<lparr>ct_cat = coded (\<lambda>_. CAT_OTHER), ct_unicode = [], ct_valid = False\<rparr>"

(* @src crates/tex-core/src/eqtb.rs impl CatCodeTable fn code *)
definition table_code :: "cat_table \<Rightarrow> nat \<Rightarrow> nat" where
  "table_code t c = get_or (ct_unicode t) c (fetch_or (ct_cat t) c CAT_OTHER)"

definition table_at :: "'n eqtb \<Rightarrow> int \<Rightarrow> cat_table" where
  "table_at e k = (case map_of (cat_tables e) k of Some t \<Rightarrow> t | None \<Rightarrow> table_blank)"

(* @src crates/tex-core/src/eqtb.rs impl Eqtb fn cat_table_valid *)
definition cat_table_valid :: "'n eqtb \<Rightarrow> int \<Rightarrow> bool" where
  "cat_table_valid e k \<longleftrightarrow> k = cat_current e \<or> (case map_of (cat_tables e) k of Some t \<Rightarrow> ct_valid t | None \<Rightarrow> False)"

(* @src crates/tex-core/src/eqtb.rs impl Eqtb fn cat_code_in *)
definition cat_code_in :: "'n eqtb \<Rightarrow> int \<Rightarrow> nat \<Rightarrow> nat" where
  "cat_code_in e k c =
     (if k = cat_current e then cat_code e c
      else case map_of (cat_tables e) k of Some t \<Rightarrow> table_code t c | None \<Rightarrow> CAT_OTHER)"

(* @src crates/tex-core/src/eqtb.rs impl Eqtb fn assign_cat_code_in *)
definition assign_cat_code_in :: "int \<Rightarrow> nat \<Rightarrow> nat \<Rightarrow> bool \<Rightarrow> 'n eqtb \<Rightarrow> 'n eqtb option" where
  "assign_cat_code_in k c v global e =
     (if k = cat_current e then assign_cat_code c v global e
      else
        let t = table_at e k
        in if c < 256 then do {
             (d, st) \<leftarrow> slot (ct_cat t) c v global (cur_level e) (save_stack e) (SvCat k c);
             Some (e\<lparr>cat_tables := AList.update k (t\<lparr>ct_cat := d\<rparr>) (cat_tables e), save_stack := st\<rparr>) }
           else
             let (m, st) = sparse_slot (ct_unicode t) c v global (cur_level e) (save_stack e) (SvUnicodeCat k c)
             in Some (e\<lparr>cat_tables := AList.update k (t\<lparr>ct_unicode := m\<rparr>) (cat_tables e), save_stack := st\<rparr>))"

(* @src crates/tex-core/src/eqtb.rs impl Eqtb fn switch_cat_table *)
definition switch_cat_table :: "int \<Rightarrow> 'n eqtb \<Rightarrow> 'n eqtb" where
  "switch_cat_table k e =
     (if k = cat_current e then e
      else
        let next = table_at e k; parked = \<lparr>ct_cat = cat e, ct_unicode = unicode_cat_codes e, ct_valid = True\<rparr>
        in e\<lparr>cat := ct_cat next, unicode_cat_codes := ct_unicode next,
             cat_tables := AList.update (cat_current e) parked (AList.delete k (cat_tables e)), cat_current := k\<rparr>)"

(* @src crates/tex-core/src/eqtb.rs impl Eqtb fn assign_cat_table *)
definition assign_cat_table :: "int \<Rightarrow> bool \<Rightarrow> 'n eqtb \<Rightarrow> 'n eqtb" where
  "assign_cat_table k global e =
     (if k = cat_current e then e
      else
        let e = (if \<not> global \<and> cat_current_level e < cur_level e
                 then push_save (SvCatCodeTable (cat_current e) (cat_current_level e)) e else e);
            e = switch_cat_table k e
        in e\<lparr>cat_current_level := if global then LEVEL_ONE else cur_level e\<rparr>)"

(* @src crates/tex-core/src/eqtb.rs impl Eqtb fn init_cat_table *)
definition init_cat_table :: "int \<Rightarrow> 'n eqtb \<Rightarrow> 'n eqtb" where
  "init_cat_table k e = e\<lparr>cat_tables := AList.update k table_initex (cat_tables e)\<rparr>"

(* @src crates/tex-core/src/eqtb.rs impl Eqtb fn save_cat_table *)
definition save_cat_table :: "int \<Rightarrow> 'n eqtb \<Rightarrow> 'n eqtb" where
  "save_cat_table k e =
     (let saved = \<lparr>ct_cat = (fst (cat e), replicate (length (fst (cat e))) LEVEL_ONE),
                   ct_unicode = map (\<lambda>(c, v, _). (c, v, LEVEL_ONE)) (unicode_cat_codes e), ct_valid = True\<rparr>
      in e\<lparr>cat_tables := AList.update k saved (cat_tables e)\<rparr>)"

subsection \<open>Attributes\<close>

(* @src crates/tex-core/src/eqtb.rs impl AttrLists fn intern *)
definition attr_intern :: "(int \<times> int) list \<Rightarrow> attr_lists \<Rightarrow> nat \<times> attr_lists" where
  "attr_intern pairs al =
     (if pairs = [] then (0, al)
      else case map_of (al_index al) pairs of
        Some i \<Rightarrow> (i, al)
      | None \<Rightarrow> (let i = length (al_lists al)
                 in (i, \<lparr>al_lists = al_lists al @ [pairs], al_index = AList.update pairs i (al_index al)\<rparr>)))"

(* @src crates/tex-core/src/eqtb.rs impl AttrLists fn pairs *)
definition attr_pairs :: "attr_lists \<Rightarrow> nat \<Rightarrow> (int \<times> int) list option" where
  "attr_pairs al i = (if i < length (al_lists al) then Some (al_lists al ! i) else None)"

text \<open>The list is sorted by number, so the binary search finds the number or the place for it.\<close>

fun put_pair :: "int \<Rightarrow> int \<Rightarrow> (int \<times> int) list \<Rightarrow> (int \<times> int) list" where
  "put_pair k v [] = [(k, v)]"
| "put_pair k v ((n, w) # ps) = (if n < k then (n, w) # put_pair k v ps else if n = k then (k, v) # ps else (k, v) # (n, w) # ps)"

(* @src crates/tex-core/src/eqtb.rs impl AttrLists fn with_value *)
definition attr_with_value :: "attr_lists \<Rightarrow> nat \<Rightarrow> int \<Rightarrow> int \<Rightarrow> (nat \<times> attr_lists) option" where
  "attr_with_value al base number v = do {
     ps \<leftarrow> attr_pairs al base;
     Some (attr_intern (put_pair number v ps) al) }"

(* @src crates/tex-core/src/eqtb.rs impl Eqtb fn attribute *)
definition attribute :: "'n eqtb \<Rightarrow> nat \<Rightarrow> int" where
  "attribute e n = get_or (attributes e) n UNUSED_ATTRIBUTE"

text \<open>The register numbers are 32-bit words; the list holds them as signed integers, \<open>k as i32\<close>.\<close>

(* @src crates/tex-core/src/eqtb.rs impl Eqtb fn refresh_cur_attr *)
definition refresh_cur_attr :: "'n eqtb \<Rightarrow> 'n eqtb" where
  "refresh_cur_attr e =
     (if attributes e = [] then e\<lparr>cur_attr := 0\<rparr>
      else
        let regs = sort_key fst (map (\<lambda>(k, v, _). (wrap_i32 (int k), v)) (filter (\<lambda>(_, v, _). v \<noteq> UNUSED_ATTRIBUTE) (attributes e)));
            (i, al) = attr_intern regs (attr_store e)
        in e\<lparr>cur_attr := i, attr_store := al\<rparr>)"

(* @src crates/tex-core/src/eqtb.rs impl Eqtb fn assign_attribute *)
definition assign_attribute :: "nat \<Rightarrow> int \<Rightarrow> bool \<Rightarrow> 'n eqtb \<Rightarrow> 'n eqtb" where
  "assign_attribute n v global e =
     (let (m, st) = sparse_slot (attributes e) n v global (cur_level e) (save_stack e) (SvAttribute n)
      in refresh_cur_attr (e\<lparr>attributes := m, save_stack := st\<rparr>))"

subsection \<open>Mathematics in LuaTeX\<close>

definition style_key :: "nat \<Rightarrow> nat \<Rightarrow> nat" where
  "style_key param style = param * 8 + style"

(* @src crates/tex-core/src/eqtb.rs impl Eqtb fn math_param *)
definition math_param :: "'n eqtb \<Rightarrow> nat \<Rightarrow> nat \<Rightarrow> int" where
  "math_param e param style = get_or (math_params e) (style_key param style) UNDEFINED_MATH_PARAMETER"

(* @src crates/tex-core/src/eqtb.rs impl Eqtb fn assign_math_param *)
definition assign_math_param :: "nat \<Rightarrow> nat \<Rightarrow> int \<Rightarrow> bool \<Rightarrow> 'n eqtb \<Rightarrow> 'n eqtb" where
  "assign_math_param param style v global e =
     (let (m, st) = sparse_slot (math_params e) (style_key param style) v global (cur_level e) (save_stack e) (SvMathParam (style_key param style))
      in e\<lparr>math_params := m, save_stack := st\<rparr>)"

(* @src crates/tex-core/src/eqtb.rs impl Eqtb fn math_glue_param *)
definition math_glue_param :: "'n eqtb \<Rightarrow> nat \<Rightarrow> nat \<Rightarrow> int list option" where
  "math_glue_param e param style = map_option fst (map_of (math_glue_params e) (style_key param style))"

(* @src crates/tex-core/src/eqtb.rs impl Eqtb fn assign_math_glue_param *)
definition assign_math_glue_param :: "nat \<Rightarrow> nat \<Rightarrow> int list \<Rightarrow> bool \<Rightarrow> 'n eqtb \<Rightarrow> 'n eqtb" where
  "assign_math_glue_param param style v global e =
     (let (m, st) = sparse_slot (math_glue_params e) (style_key param style) v global (cur_level e) (save_stack e) (SvMathGlueParam (style_key param style))
      in e\<lparr>math_glue_params := m, save_stack := st\<rparr>)"

(* @src crates/tex-core/src/eqtb.rs impl Eqtb fn lua_math_code *)
definition lua_math_code :: "'n eqtb \<Rightarrow> nat \<Rightarrow> nat \<times> nat \<times> nat" where
  "lua_math_code e c =
     (case map_of (lua_math_codes e) c of
        Some (packed, _) \<Rightarrow>
          let class = unat (drop_bit 32 packed AND 0xF)
          in if class = 8 then (8, 0, 0) else (class, unat (drop_bit 21 packed AND 0xFF), unat (packed AND 0x1FFFFF))
      | None \<Rightarrow>
          (if c < length (fst (math_code e)) then
             let raw = fst (math_code e) ! c
             in if raw AND 0x8000 \<noteq> 0 then (8, 0, 0) else (raw div 4096 AND 7, raw div 256 AND 15, raw AND 0xFF)
           else (0, 0, c)))"

(* @src crates/tex-core/src/eqtb.rs impl Eqtb fn lua_math_code_num *)
definition lua_math_code_num :: "'n eqtb \<Rightarrow> nat \<Rightarrow> int" where
  "lua_math_code_num e c =
     (let (class, family, code) = lua_math_code e c
      in wrap_i32 (wrap_i32 (int (class + family * 8) * 0x200000) + int code))"

definition pack_math :: "int \<Rightarrow> int \<Rightarrow> int \<Rightarrow> 64 word" where
  "pack_math class family code =
     (let class = (if class = 8 \<and> family = 0 \<and> code = 0 then 8 else word_of_int (class AND 7))
      in push_bit 32 class OR push_bit 21 (word_of_int (family AND 0xFF)) OR word_of_int (code AND 0x1FFFFF))"

(* @src crates/tex-core/src/eqtb.rs impl Eqtb fn assign_lua_math_code *)
definition assign_lua_math_code :: "nat \<Rightarrow> int \<Rightarrow> int \<Rightarrow> int \<Rightarrow> bool \<Rightarrow> 'n eqtb \<Rightarrow> 'n eqtb" where
  "assign_lua_math_code c class family code global e =
     (let (m, st) = sparse_slot (lua_math_codes e) c (pack_math class family code) global (cur_level e) (save_stack e) (SvLuaMathCode c)
      in e\<lparr>lua_math_codes := m, save_stack := st\<rparr>)"

(* @src crates/tex-core/src/eqtb.rs impl Eqtb fn lua_del_code *)
definition lua_del_code :: "'n eqtb \<Rightarrow> nat \<Rightarrow> int \<times> nat \<times> nat \<times> nat" where
  "lua_del_code e c =
     (case map_of (lua_del_codes e) c of
        Some (packed, _) \<Rightarrow>
          (uint (drop_bit 50 packed AND 0xFF), unat (drop_bit 29 packed AND 0x1FFFFF),
           unat (drop_bit 21 packed AND 0xFF), unat (packed AND 0x1FFFFF))
      | None \<Rightarrow>
          (if c < length (fst (del_code e)) \<and> 0 \<le> fst (del_code e) ! c then
             let raw = fst (del_code e) ! c
             in (raw div 1048576 AND 0xFF, nat (raw div 4096 AND 0xFF), nat (raw div 256 AND 0xF), nat (raw AND 0xFF))
           else (- 1, 0, 0, 0)))"

(* @src crates/tex-core/src/eqtb.rs impl Eqtb fn lua_del_code_num *)
definition lua_del_code_num :: "'n eqtb \<Rightarrow> nat \<Rightarrow> int" where
  "lua_del_code_num e c =
     (let (small_family, small_char, large_family, large_char) = lua_del_code e c
      in if small_family < 0 then - 1
         else wrap_i32 (wrap_i32 (wrap_i32 (wrap_i32 (small_family * 256 + int small_char) * 4096) + int large_family * 256) + int large_char))"

definition pack_del :: "int \<Rightarrow> int \<Rightarrow> int \<Rightarrow> int \<Rightarrow> 64 word" where
  "pack_del small_family small_char large_family large_char =
     push_bit 50 (word_of_int (small_family AND 0xFF)) OR push_bit 29 (word_of_int (small_char AND 0x1FFFFF)) OR
     push_bit 21 (word_of_int (large_family AND 0xFF)) OR word_of_int (large_char AND 0x1FFFFF)"

(* @src crates/tex-core/src/eqtb.rs impl Eqtb fn assign_lua_del_code *)
definition assign_lua_del_code :: "nat \<Rightarrow> int \<Rightarrow> int \<Rightarrow> int \<Rightarrow> int \<Rightarrow> bool \<Rightarrow> 'n eqtb \<Rightarrow> 'n eqtb" where
  "assign_lua_del_code c sf sc lf lc global e =
     (let (m, st) = sparse_slot (lua_del_codes e) c (pack_del sf sc lf lc) global (cur_level e) (save_stack e) (SvLuaDelCode c)
      in e\<lparr>lua_del_codes := m, save_stack := st\<rparr>)"

subsection \<open>Mathematics in XeTeX\<close>

(* @src crates/tex-core/src/eqtb.rs impl Eqtb fn assign_xe_math_code *)
definition assign_xe_math_code :: "nat \<Rightarrow> int \<Rightarrow> bool \<Rightarrow> 'n eqtb \<Rightarrow> 'n eqtb option" where
  "assign_xe_math_code c v global e =
     traced global (xe_math_code e c = v) (TsMathCode c) (\<lambda>e. let (m, st) = sparse_slot (lua_math_codes e) c (word_of_int v) global (cur_level e) (save_stack e) (SvLuaMathCode c)
      in Some (e\<lparr>lua_math_codes := m, save_stack := st\<rparr>)) e"

(* @src crates/tex-core/src/eqtb.rs impl Eqtb fn assign_xe_del_code *)
definition assign_xe_del_code :: "nat \<Rightarrow> int \<Rightarrow> bool \<Rightarrow> 'n eqtb \<Rightarrow> 'n eqtb option" where
  "assign_xe_del_code c v global e =
     traced global (xe_del_code e c = v) (TsDelCode c) (\<lambda>e. let (m, st) = sparse_slot (unicode_del_codes e) c v global (cur_level e) (save_stack e) (SvUnicodeDel c)
      in Some (e\<lparr>unicode_del_codes := m, save_stack := st\<rparr>)) e"

end
