(* ===== verification/EqtbGroups.thy ===== *)
theory EqtbGroups
  imports EqtbCodes
begin

text \<open>
  Groups in \<open>crates/tex-core/src/eqtb.rs\<close>: opening a level, and the two loops that unwind the save stack at its end -
  the short one for the items nearly every group holds, and the general one.  The items of the engine itself
  (\<open>\parshape\<close> and the penalty arrays) are handed back through sinks.
\<close>

subsection \<open>Opening a group\<close>

(* @src crates/tex-core/src/eqtb.rs impl Eqtb fn push_level_with *)
definition push_level_with :: "level_type \<Rightarrow> group_meta \<Rightarrow> int \<Rightarrow> 'n eqtb \<Rightarrow> 'n eqtb" where
  "push_level_with ty meta line e =
     (if cur_level e = MAX_GROUP_LEVEL then e\<lparr>capacity_exceeded := True\<rparr>
      else
        let e = (if 0 < int_param e TRACING_GROUPS then trace_group False (gm_code meta) (cur_level e) line e else e);
            e = e\<lparr>groups := \<lparr>gr_meta = meta, gr_line = line, gr_ty = ty, gr_boundary = length (save_stack e)\<rparr> # groups e,
                  cur_level := cur_level e + 1\<rparr>
        in push_save (SvLevel (cur_level e) ty) e)"

(* @src crates/tex-core/src/eqtb.rs impl Eqtb fn push_level *)
definition push_level :: "level_type \<Rightarrow> 'n eqtb \<Rightarrow> 'n eqtb" where
  "push_level ty e = push_level_with ty (meta_of ty) 0 e"

(* @src crates/tex-core/src/eqtb.rs impl Eqtb fn cur_group_type *)
definition cur_group_type :: "'n eqtb \<Rightarrow> level_type option" where
  "cur_group_type e = (case groups e of [] \<Rightarrow> None | g # _ \<Rightarrow> Some (gr_ty g))"

(* @src crates/tex-core/src/eqtb.rs impl Eqtb fn cur_group_code *)
definition cur_group_code :: "'n eqtb \<Rightarrow> nat" where
  "cur_group_code e = (case groups e of [] \<Rightarrow> GC_BOTTOM | g # _ \<Rightarrow> gm_code (gr_meta g))"

(* @src crates/tex-core/src/eqtb.rs impl Eqtb fn cur_boundary *)
definition cur_boundary :: "'n eqtb \<Rightarrow> nat" where
  "cur_boundary e = (case groups e of [] \<Rightarrow> 0 | g # _ \<Rightarrow> gr_boundary g + 1)"

(* @src crates/tex-core/src/eqtb.rs impl Eqtb fn outer_boundary *)
definition outer_boundary :: "'n eqtb \<Rightarrow> nat" where
  "outer_boundary e = (case groups e of _ # g # _ \<Rightarrow> gr_boundary g + 1 | _ \<Rightarrow> 0)"

subsection \<open>Unwinding\<close>

(* @src crates/tex-core/src/eqtb.rs impl Eqtb fn leave_level *)
definition leave_level :: "nat \<Rightarrow> 'n eqtb \<Rightarrow> 'n eqtb" where
  "leave_level lvl e =
     (let e = e\<lparr>cur_level := lvl - 1\<rparr>
      in case groups e of
           [] \<Rightarrow> e
         | g # gs \<Rightarrow>
             (let e = e\<lparr>groups := gs\<rparr>
              in if 0 < int_param e TRACING_GROUPS then trace_group True (gm_code (gr_meta g)) (lvl - 1) (gr_line g) e else e))"

(* @src crates/tex-core/src/eqtb.rs impl Eqtb fn unsave_eq *)
definition unsave_eq :: "nat \<Rightarrow> equiv option \<Rightarrow> nat \<Rightarrow> 'n eqtb \<Rightarrow> 'n eqtb" where
  "unsave_eq cs old ol e =
     (let e = ensure_entry cs e; en = entries e ! cs; restored = LEVEL_ONE < en_level en;
          (en', outers) = entry_set old en (outer_entries e);
          e = (if restored then e\<lparr>entries := (entries e)[cs := en'\<lparr>en_level := ol\<rparr>], outer_entries := outers\<rparr> else e)
      in trace_restore restored (TsEq cs) e)"

(* @src crates/tex-core/src/eqtb.rs impl Eqtb fn trace_shape *)
definition trace_shape :: "trace_slot \<Rightarrow> 'n eqtb \<Rightarrow> 'n eqtb" where
  "trace_shape ts e = (if tracing_restores e then trace_with [] ts (TvShape 0 0 0) e else e)"

text \<open>What a group's end hands back: the tokens of \<open>\aftergroup\<close>, a paragraph shape, penalty arrays.\<close>

record sinks =
  after_group :: "token list"
  par_shape :: "((int \<times> int) list \<times> nat) option"
  penalty_shapes :: "(nat \<times> int list \<times> nat) list"

text \<open>The arms of the general loop that restore a location.\<close>

(* @src crates/tex-core/src/eqtb.rs:2556-2804 pop_level_general *)
fun unsave :: "'n save_item \<Rightarrow> 'n eqtb \<Rightarrow> 'n eqtb option" where
  "unsave (SvEq cs old ol) e = Some (unsave_eq cs old ol e)"
| "unsave (SvIntParam i v l) e = do {
     (t, restored) \<leftarrow> restore_slot (int_params e) i v l;
     let e = e\<lparr>int_params := t, pending_mode := if restored \<and> i = INTERACTION_MODE then Some v else pending_mode e\<rparr>;
     Some (if i < NUM_INT_PARAMS \<and> int_in_eqtb i then trace_restore restored (TsIntParam i) e else e) }"
| "unsave (SvDimParam i v l) e = do {
     (t, restored) \<leftarrow> restore_slot (dim_params e) i v l;
     let e = e\<lparr>dim_params := t\<rparr>;
     Some (if i < NUM_DIM_PARAMS \<and> dim_in_eqtb i then trace_restore restored (TsDimParam i) e else e) }"
| "unsave (SvGlueParam i v l) e = do {
     (t, restored) \<leftarrow> restore_slot (glue_params e) i v l; Some (trace_restore restored (TsGlueParam i) (e\<lparr>glue_params := t\<rparr>)) }"
| "unsave (SvToksParam i v l) e = do {
     (t, restored) \<leftarrow> restore_slot (tok_params e) i v l; Some (trace_restore restored (TsToksParam i) (e\<lparr>tok_params := t\<rparr>)) }"
| "unsave (SvCount i v l) e = do {
     (t, restored) \<leftarrow> restore_slot (r_count e) i v l; Some (trace_restore restored (TsCount i) (e\<lparr>r_count := t\<rparr>)) }"
| "unsave (SvDimen i v l) e = do {
     (t, restored) \<leftarrow> restore_slot (r_dimen e) i v l; Some (trace_restore restored (TsDimen i) (e\<lparr>r_dimen := t\<rparr>)) }"
| "unsave (SvSkip i v l) e = do {
     (t, restored) \<leftarrow> restore_slot (r_skip e) i v l; Some (trace_restore restored (TsSkip i) (e\<lparr>r_skip := t\<rparr>)) }"
| "unsave (SvMuSkip i v l) e = do {
     (t, restored) \<leftarrow> restore_slot (r_muskip e) i v l; Some (trace_restore restored (TsMuSkip i) (e\<lparr>r_muskip := t\<rparr>)) }"
| "unsave (SvToks i v l) e = do {
     (t, restored) \<leftarrow> restore_slot (r_toks e) i v l; Some (trace_restore restored (TsToks i) (e\<lparr>r_toks := t\<rparr>)) }"
| "unsave (SvBox i v l) e = do {
     (t, restored) \<leftarrow> restore_slot (r_box e) i v l; Some (trace_restore restored (TsBox i) (e\<lparr>r_box := t\<rparr>)) }"
| "unsave (SvCat k c v l) e =
     (if k = cat_current e then do {
        (t, restored) \<leftarrow> restore_slot (cat e) c v l; Some (trace_restore restored (TsCat c) (e\<lparr>cat := t\<rparr>)) }
      else case map_of (cat_tables e) k of
        None \<Rightarrow> Some e
      | Some tab \<Rightarrow> do {
          (t, restored) \<leftarrow> restore_slot (ct_cat tab) c v l;
          Some (trace_restore restored (TsCat c) (e\<lparr>cat_tables := AList.update k (tab\<lparr>ct_cat := t\<rparr>) (cat_tables e)\<rparr>)) })"
| "unsave (SvMathCode i v l) e = do {
     (t, restored) \<leftarrow> restore_slot (math_code e) i v l; Some (trace_restore restored (TsMathCode i) (e\<lparr>math_code := t\<rparr>)) }"
| "unsave (SvDelCode i v l) e = do {
     (t, restored) \<leftarrow> restore_slot (del_code e) i v l; Some (trace_restore restored (TsDelCode i) (e\<lparr>del_code := t\<rparr>)) }"
| "unsave (SvLcCode i v l) e = do {
     (t, restored) \<leftarrow> restore_slot (lc_code e) i v l; Some (trace_restore restored (TsLcCode i) (e\<lparr>lc_code := t\<rparr>)) }"
| "unsave (SvUcCode i v l) e = do {
     (t, restored) \<leftarrow> restore_slot (uc_code e) i v l; Some (trace_restore restored (TsUcCode i) (e\<lparr>uc_code := t\<rparr>)) }"
| "unsave (SvSfCode c v l) e = do {
     (t, restored) \<leftarrow> restore_slot (sf_code e) c (v mod 65536) l;
     if restored then
       if c < length (sf_class e) then
         Some (trace_restore True (TsSfCode c) (e\<lparr>sf_code := t, sf_class := (sf_class e)[c := v div 65536 mod 65536]\<rparr>))
       else None
     else Some (trace_restore False (TsSfCode c) e) }"
| "unsave (SvUnicodeCase uppercase c old) e =
     Some (trace_restore (sparse_is_local (unicode_case_codes e) (uppercase, c)) (if uppercase then TsUcCode c else TsLcCode c)
       (e\<lparr>unicode_case_codes := restore_sparse (unicode_case_codes e) (uppercase, c) old\<rparr>))"
| "unsave (SvUnicodeCat k c old) e =
     (if k = cat_current e then
        Some (trace_restore (sparse_is_local (unicode_cat_codes e) c) (TsCat c)
          (e\<lparr>unicode_cat_codes := restore_sparse (unicode_cat_codes e) c old\<rparr>))
      else case map_of (cat_tables e) k of
        None \<Rightarrow> Some e
      | Some tab \<Rightarrow>
          Some (e\<lparr>cat_tables := AList.update k (tab\<lparr>ct_unicode := restore_sparse (ct_unicode tab) c old\<rparr>) (cat_tables e)\<rparr>))"
| "unsave (SvAttribute n old) e = Some (refresh_cur_attr (e\<lparr>attributes := restore_sparse (attributes e) n old\<rparr>))"
| "unsave (SvMathParam k old) e = Some (e\<lparr>math_params := restore_sparse (math_params e) k old\<rparr>)"
| "unsave (SvLuaMathCode k old) e =
     (let e' = e\<lparr>lua_math_codes := restore_sparse (lua_math_codes e) k old\<rparr>
      in Some (if xe_math e then trace_restore (sparse_is_local (lua_math_codes e) k) (TsMathCode k) e' else e'))"
| "unsave (SvLuaDelCode k old) e = Some (e\<lparr>lua_del_codes := restore_sparse (lua_del_codes e) k old\<rparr>)"
| "unsave (SvMathGlueParam k old) e = Some (e\<lparr>math_glue_params := restore_sparse (math_glue_params e) k old\<rparr>)"
| "unsave (SvCatCodeTable k l) e =
     Some (if LEVEL_ONE < cat_current_level e then (switch_cat_table k e)\<lparr>cat_current_level := l\<rparr> else e)"
| "unsave (SvUnicodeMath c old) e =
     Some (trace_restore (sparse_is_local (unicode_math_codes e) c) (TsMathCode c) (e\<lparr>unicode_math_codes := restore_sparse (unicode_math_codes e) c old\<rparr>))"
| "unsave (SvUnicodeDel c old) e =
     Some (trace_restore (sparse_is_local (unicode_del_codes e) c) (TsDelCode c) (e\<lparr>unicode_del_codes := restore_sparse (unicode_del_codes e) c old\<rparr>))"
| "unsave (SvUnicodeSf c old) e =
     Some (trace_restore (sparse_is_local (unicode_sf_codes e) c) (TsSfCode c) (e\<lparr>unicode_sf_codes := restore_sparse (unicode_sf_codes e) c old\<rparr>))"
| "unsave (SvInterCharToks c old) e =
     Some (trace_restore (sparse_is_local (inter_char e) c) TsInterCharToks (e\<lparr>inter_char := restore_sparse (inter_char e) c old\<rparr>))"
| "unsave (SvStyleFont s fam v l) e =
     (if s < length (style_fonts e) then do {
        (t, restored) \<leftarrow> restore_slot (style_fonts e ! s) fam v l;
        Some (trace_restore restored (TsStyleFont s fam) (e\<lparr>style_fonts := (style_fonts e)[s := t]\<rparr>)) }
      else None)"
| "unsave (SvFontParam f i v l) e =
     (if f < length (font_params e) \<and> i < length (fst (font_params e ! f)) \<and> i < length (snd (font_params e ! f)) then
        Some (e\<lparr>font_params := (font_params e)[f := ((fst (font_params e ! f))[i := v], (snd (font_params e ! f))[i := l])]\<rparr>)
      else None)"
| "unsave (SvHyphenChar f v l) e =
     (if f < length (fst (hyphen_char e)) \<and> f < length (snd (hyphen_char e)) then
        Some (e\<lparr>hyphen_char := ((fst (hyphen_char e))[f := v], (snd (hyphen_char e))[f := l])\<rparr>) else None)"
| "unsave (SvSkewChar f v l) e =
     (if f < length (fst (skew_char e)) \<and> f < length (snd (skew_char e)) then
        Some (e\<lparr>skew_char := ((fst (skew_char e))[f := v], (snd (skew_char e))[f := l])\<rparr>) else None)"
| "unsave (SvCurFont old ol) e =
     (let restored = LEVEL_ONE < cur_font_level e
      in Some (trace_restore restored TsCurFont (if restored then e\<lparr>cur_font_val := old, cur_font_level := ol\<rparr> else e)))"
| "unsave _ e = Some e"

(* @src crates/tex-core/src/eqtb.rs:2519-2555 pop_level_general *)
fun pop_level_general :: "'n save_item list \<Rightarrow> sinks \<Rightarrow> 'n eqtb \<Rightarrow> (level_type \<times> sinks \<times> 'n eqtb) option" where
  "pop_level_general [] sk e = Some (LtGroup, sk, e\<lparr>save_stack := []\<rparr>)"
| "pop_level_general (item # items) sk e =
     (case item of
        SvLevel lvl t \<Rightarrow> Some (t, sk, leave_level lvl (e\<lparr>save_stack := items\<rparr>))
      | SvAfterGroup tok \<Rightarrow> pop_level_general items (sk\<lparr>after_group := after_group sk @ [tok]\<rparr>) e
      | SvParShape old lvl \<Rightarrow> pop_level_general items (sk\<lparr>par_shape := Some (old, lvl)\<rparr>) (trace_shape TsParShape e)
      | SvPenaltyShape kind old lvl \<Rightarrow>
          pop_level_general items (sk\<lparr>penalty_shapes := penalty_shapes sk @ [(kind, old, lvl)]\<rparr>) (trace_shape (TsPenaltyShape kind) e)
      | _ \<Rightarrow> (case unsave item e of Some e \<Rightarrow> pop_level_general items sk e | None \<Rightarrow> None))"

(* @src crates/tex-core/src/eqtb.rs impl Eqtb fn pop_level_full *)
fun pop_level_fast :: "'n save_item list \<Rightarrow> sinks \<Rightarrow> 'n eqtb \<Rightarrow> (level_type \<times> sinks \<times> 'n eqtb) option" where
  "pop_level_fast (SvLevel lvl t # items) sk e = Some (t, sk, leave_level lvl (e\<lparr>save_stack := items\<rparr>))"
| "pop_level_fast (SvAfterGroup tok # items) sk e = pop_level_fast items (sk\<lparr>after_group := after_group sk @ [tok]\<rparr>) e"
| "pop_level_fast (SvEq cs old ol # items) sk e = pop_level_fast items sk (unsave_eq cs old ol e)"
| "pop_level_fast items sk e = pop_level_general items sk e"

definition pop_level_full :: "sinks \<Rightarrow> 'n eqtb \<Rightarrow> (level_type \<times> sinks \<times> 'n eqtb) option" where
  "pop_level_full sk e = pop_level_fast (save_stack e) sk e"

(* @src crates/tex-core/src/eqtb.rs impl Eqtb fn pop_level *)
definition pop_level :: "token list \<Rightarrow> 'n eqtb \<Rightarrow> (level_type \<times> token list \<times> 'n eqtb) option" where
  "pop_level after e = map_option (\<lambda>(ty, sk, e). (ty, after_group sk, e))
     (pop_level_full \<lparr>after_group = after, par_shape = None, penalty_shapes = []\<rparr> e)"

subsection \<open>Values\<close>

(* @src crates/tex-core/src/eqtb.rs impl Eqtb fn int_of *)
definition int_of_equiv :: "'n eqtb \<Rightarrow> equiv \<Rightarrow> int option option" where
  "int_of_equiv e eq = (case eq of
     CountReg i \<Rightarrow> map_option Some (fetch (r_count e) i)
   | AttributeReg i \<Rightarrow> Some (Some (attribute e i))
   | CharDef v \<Rightarrow> Some (Some (wrap_i32 (int v)))
   | MathCharDef v \<Rightarrow> Some (Some (int v))
   | UMathCharDef v \<Rightarrow> Some (Some v)
   | _ \<Rightarrow> Some None)"

end
