(* ===== verification/SaveStack.thy ===== *)
theory SaveStack
  imports Prelude
begin

text \<open>
  The idea of TeX's save stack, away from the tables it serves.  A machine has a cell (a value and the level of its
  last assignment) for each location, a stack of saved cells with a boundary for each open group, and the level of
  grouping.  The specification is a chain of scopes, as of a language with block structure: a lookup takes the
  innermost scope that binds the location, a local assignment binds it in the innermost scope, a global one binds it
  in the outermost and unbinds it in all others, a poke changes the binding in place, and a group's end drops the
  innermost scope.
\<close>

subsection \<open>The machine\<close>

datatype ('l, 'v) saved = Boundary nat | Saved 'l 'v nat | Mark

datatype ('l, 'v) effect = Local 'l 'v | Global 'l 'v | Poke 'l 'v | Open | Note | Close

type_synonym ('l, 'v) cells = "'l \<Rightarrow> 'v \<times> nat"
type_synonym ('l, 'v) machine = "('l, 'v) cells \<times> ('l, 'v) saved list \<times> nat"

fun unwind :: "('l, 'v) cells \<Rightarrow> ('l, 'v) saved list \<Rightarrow> nat \<Rightarrow> ('l, 'v) machine" where
  "unwind c [] n = (c, [], n)"
| "unwind c (Boundary k # st) n = (c, st, k - 1)"
| "unwind c (Saved l v k # st) n = unwind (if snd (c l) > 1 then c(l := (v, k)) else c) st n"
| "unwind c (Mark # st) n = unwind c st n"

fun act :: "('l, 'v) effect \<Rightarrow> ('l, 'v) machine \<Rightarrow> ('l, 'v) machine" where
  "act (Local l w) (c, st, n) =
     (c(l := (w, n)), if snd (c l) < n then Saved l (fst (c l)) (snd (c l)) # st else st, n)"
| "act (Global l w) (c, st, n) = (c(l := (w, 1)), st, n)"
| "act (Poke l w) (c, st, n) = (c(l := (w, snd (c l))), st, n)"
| "act Open (c, st, n) = (c, Boundary (n + 1) # st, n + 1)"
| "act Note (c, st, n) = (c, Mark # st, n)"
| "act Close (c, st, n) = unwind c st n"

text \<open>Well-formed: levels run from 1 to the current level, and unwinding keeps it so.\<close>

fun wf :: "('l, 'v) cells \<Rightarrow> ('l, 'v) saved list \<Rightarrow> nat \<Rightarrow> bool" where
  "wf c [] n \<longleftrightarrow> n = 1 \<and> (\<forall>l. snd (c l) = 1)"
| "wf c (Boundary k # st) n \<longleftrightarrow> 1 < n \<and> k = n \<and> wf c st (n - 1)"
| "wf c (Saved l v k # st) n \<longleftrightarrow> 1 \<le> k \<and> k < n \<and>
     (if snd (c l) > 1 then snd (c l) = n \<and> wf (c(l := (v, k))) st n else wf c st n)"
| "wf c (Mark # st) n \<longleftrightarrow> wf c st n"

subsection \<open>The chain of scopes\<close>

type_synonym ('l, 'v) scopes = "('l \<Rightarrow> 'v option) list"

fun scopes :: "('l, 'v) cells \<Rightarrow> ('l, 'v) saved list \<Rightarrow> ('l, 'v) scopes" where
  "scopes c [] = [\<lambda>l. Some (fst (c l))]"
| "scopes c (Boundary k # st) = Map.empty # scopes c st"
| "scopes c (Saved l v k # st) =
     (if snd (c l) > 1 then
        (case scopes (c(l := (v, k))) st of [] \<Rightarrow> [] | f # fs \<Rightarrow> f(l \<mapsto> fst (c l)) # fs)
      else scopes c st)"
| "scopes c (Mark # st) = scopes c st"

fun lookup :: "('l, 'v) scopes \<Rightarrow> 'l \<Rightarrow> 'v option" where
  "lookup [] l = None"
| "lookup (f # fs) l = (case f l of Some v \<Rightarrow> Some v | None \<Rightarrow> lookup fs l)"

fun bind_local :: "'l \<Rightarrow> 'v \<Rightarrow> ('l, 'v) scopes \<Rightarrow> ('l, 'v) scopes" where
  "bind_local l w [] = []"
| "bind_local l w (f # fs) = f(l \<mapsto> w) # fs"

fun bind_global :: "'l \<Rightarrow> 'v \<Rightarrow> ('l, 'v) scopes \<Rightarrow> ('l, 'v) scopes" where
  "bind_global l w [] = []"
| "bind_global l w [f] = [f(l \<mapsto> w)]"
| "bind_global l w (f # g # fs) = f(l := None) # bind_global l w (g # fs)"

fun rebind :: "'l \<Rightarrow> 'v \<Rightarrow> ('l, 'v) scopes \<Rightarrow> ('l, 'v) scopes" where
  "rebind l w [] = []"
| "rebind l w (f # fs) = (if f l = None then f # rebind l w fs else f(l \<mapsto> w) # fs)"

fun scope_act :: "('l, 'v) effect \<Rightarrow> ('l, 'v) scopes \<Rightarrow> ('l, 'v) scopes" where
  "scope_act (Local l w) fs = bind_local l w fs"
| "scope_act (Global l w) fs = bind_global l w fs"
| "scope_act (Poke l w) fs = rebind l w fs"
| "scope_act Open fs = Map.empty # fs"
| "scope_act Note fs = fs"
| "scope_act Close fs = (if tl fs = [] then fs else tl fs)"

subsection \<open>The machine implements the chain\<close>

declare fun_upd_apply [simp del] fun_upd_same [simp] fun_upd_other [simp]

lemma wf_level: "wf c st n \<Longrightarrow> 1 \<le> n \<and> 1 \<le> snd (c l) \<and> snd (c l) \<le> n"
proof (induction c st n arbitrary: l rule: wf.induct)
  case (2 c k st n)
  then have "snd (c l) \<le> n - 1" "1 \<le> snd (c l)" using 2(1) [of l] by simp_all
  then show ?case using 2(2) by simp
next
  case (3 c l' v k st n)
  then show ?case
  proof (cases "snd (c l') > 1")
    case True
    then have "1 \<le> n" "1 \<le> snd ((c(l' := (v, k))) l)" "snd ((c(l' := (v, k))) l) \<le> n" using 3(1) [OF True, of l] 3(3) by simp_all
    then show ?thesis using 3(3) True by (cases "l = l'") auto
  qed simp
qed auto

lemma scopes_nonempty [simp]: "scopes c st \<noteq> []"
  by (induction c st rule: scopes.induct) (auto split: list.splits)

lemma scopes_saved [simp]:
  "scopes c (Saved l v k # st) =
     (if snd (c l) > 1 then bind_local l (fst (c l)) (scopes (c(l := (v, k))) st) else scopes c st)"
  by (cases "scopes (c(l := (v, k))) st") auto

declare scopes.simps(3) [simp del]

lemma bind_local_simps [simp]:
  "length (bind_local l w fs) = length fs" "tl (bind_local l w fs) = tl fs" "bind_local l w fs = [] \<longleftrightarrow> fs = []"
  "bind_local l w (bind_local l x fs) = bind_local l w fs"
  by (cases fs; simp)+

lemma bind_global_simps [simp]:
  "length (bind_global l w fs) = length fs" "bind_global l w fs = [] \<longleftrightarrow> fs = []"
  by (induction l w fs rule: bind_global.induct) auto

lemma bind_global_local: "1 < length fs \<Longrightarrow> bind_global l w (bind_local l x fs) = bind_global l w fs"
  by (cases "(l, w, fs)" rule: bind_global.cases) auto

lemma bind_twist:
  assumes "l \<noteq> l'"
  shows "bind_local l' x (bind_local l w fs) = bind_local l w (bind_local l' x fs)"
    "1 < length fs \<Longrightarrow> bind_local l' x (bind_global l w fs) = bind_global l w (bind_local l' x fs)"
    "bind_local l' x (rebind l w fs) = rebind l w (bind_local l' x fs)"
  using assms by (cases fs; cases "tl fs"; auto simp: fun_upd_twist)+

lemma lookup_local: "fs \<noteq> [] \<Longrightarrow> lookup (bind_local l w fs) l' = (if l' = l then Some w else lookup fs l')"
  by (cases fs) auto

lemma scopes_lookup: "lookup (scopes c st) l = Some (fst (c l))"
proof (induction c st arbitrary: l rule: scopes.induct)
  case (3 c l' v k st)
  then show ?case by (cases "l = l'") (simp_all add: lookup_local)
qed auto

lemma wf_length: "wf c st n \<Longrightarrow> length (scopes c st) = n"
  by (induction c st n rule: wf.induct) (auto split: if_splits)

lemma scopes_close: "1 < n \<Longrightarrow> wf c st n \<Longrightarrow>
  (case unwind c st n of (c', st', n') \<Rightarrow> wf c' st' n' \<and> n' = n - 1 \<and> scopes c' st' = tl (scopes c st))"
  by (induction c st n rule: unwind.induct) (auto split: if_splits prod.splits)

lemma unwind_bottom: "wf c st n \<Longrightarrow> n = 1 \<Longrightarrow> unwind c st n = (c, [], n) \<and> wf c [] n \<and> scopes c st = scopes c []"
  by (induction c st n rule: unwind.induct) auto

lemma scopes_local:
  "wf c st n \<Longrightarrow> snd (c l) = n \<Longrightarrow> scopes (c(l := (w, n))) st = bind_local l w (scopes c st) \<and> wf (c(l := (w, n))) st n"
proof (induction c st n rule: wf.induct)
  case (1 c n)
  then show ?case by (auto simp: fun_eq_iff fun_upd_apply)
next
  case (2 c k st n)
  then have "snd (c l) \<le> n - 1" "1 < n" using wf_level [of c st "n - 1" l] by simp_all
  then show ?case using 2(3) by linarith
next
  case (3 c l' v k st n)
  show ?case
  proof (cases "l' = l")
    case True
    then show ?thesis using 3(3,4) by auto
  next
    case False
    then show ?thesis using 3 by (auto simp: fun_upd_twist [of l l'] bind_twist)
  qed
qed auto

lemma scopes_global: "wf c st n \<Longrightarrow> scopes (c(l := (w, 1))) st = bind_global l w (scopes c st) \<and> wf (c(l := (w, 1))) st n"
proof (induction c st n rule: wf.induct)
  case (1 c n)
  then show ?case by (auto simp: fun_eq_iff fun_upd_apply)
next
  case (2 c k st n)
  then show ?case using scopes_nonempty [of c st] by (cases "scopes c st") (auto simp: fun_upd_idem_iff)
next
  case (3 c l' v k st n)
  show ?case
  proof (cases "snd (c l') > 1")
    case False
    then show ?thesis using 3 by (cases "l = l'") auto
  next
    case True
    have wf': "wf (c(l' := (v, k))) st n" using 3(3) True by simp
    note ih = 3(1) [OF True wf']
    have len: "1 < length (scopes (c(l' := (v, k))) st)" using wf_length [OF wf'] 3(3) True by simp
    show ?thesis
      using ih True 3(3) bind_global_local [OF len] bind_twist(2) [OF _ len]
      by (cases "l = l'") (simp_all add: fun_upd_twist [of l l'])
  qed
qed auto

lemma scopes_poke:
  "wf c st n \<Longrightarrow> scopes (c(l := (w, snd (c l)))) st = rebind l w (scopes c st) \<and> wf (c(l := (w, snd (c l)))) st n"
proof (induction c st n rule: wf.induct)
  case (1 c n)
  then show ?case by (auto simp: fun_eq_iff fun_upd_apply)
next
  case (3 c l' v k st n)
  show ?case
  proof (cases "l = l'")
    case True
    have "bind_local l w fs = rebind l w (bind_local l x fs)" for x and fs :: "('a, 'b) scopes" by (cases fs) auto
    then show ?thesis using 3 True by auto
  next
    case False
    then show ?thesis using 3 by (auto simp: fun_upd_twist [of l l'] bind_twist)
  qed
qed auto

text \<open>Every effect on the machine is the effect on the chain.\<close>

fun machine_ok :: "('l, 'v) machine \<Rightarrow> bool" where
  "machine_ok (c, st, n) = wf c st n"

fun chain :: "('l, 'v) machine \<Rightarrow> ('l, 'v) scopes" where
  "chain (c, st, n) = scopes c st"

lemma act_ok:
  assumes "machine_ok m"
  shows "machine_ok (act f m) \<and> chain (act f m) = scope_act f (chain m)"
proof -
  obtain c st n where m: "m = (c, st, n)" by (cases m)
  have ok: "wf c st n" using assms m by simp
  show ?thesis
  proof (cases f)
    case (Local l w)
    show ?thesis
    proof (cases "snd (c l) < n")
      case True
      have "1 \<le> snd (c l)" "1 < n" using wf_level [OF ok, of l] True by auto
      then show ?thesis using Local m ok True by (simp add: fun_upd_idem)
    next
      case False
      then have "snd (c l) = n" using wf_level [OF ok, of l] by simp
      then show ?thesis using Local m scopes_local [OF ok] by simp
    qed
  next
    case Close
    show ?thesis
    proof (cases "n = 1")
      case True
      then show ?thesis using Close m unwind_bottom [OF ok] by simp
    next
      case False
      then have "1 < n" using wf_level [OF ok] by (metis le_neq_implies_less)
      moreover have "tl (scopes c st) \<noteq> []" using wf_length [OF ok] \<open>1 < n\<close> by (cases "scopes c st") auto
      ultimately show ?thesis using Close m ok scopes_close [of n c st] by (auto split: prod.splits)
    qed
  qed (use m ok scopes_global [OF ok] scopes_poke [OF ok] wf_level [OF ok] in \<open>auto simp: Suc_le_eq\<close>)
qed

declare fun_upd_apply [simp]

lemma acts_ok:
  "machine_ok m \<Longrightarrow> machine_ok (fold act es m) \<and> chain (fold act es m) = fold scope_act es (chain m)"
  by (induction es arbitrary: m) (auto simp: act_ok)

lemma chain_lookup: "lookup (chain m) l = Some (fst (fst m l))"
  by (cases m) (simp add: scopes_lookup)

subsection \<open>What a group leaves behind\<close>

text \<open>The effects between a group's beginning and its end: \<open>d\<close> groups opened inside are still open.\<close>

fun inside :: "nat \<Rightarrow> ('l, 'v) effect list \<Rightarrow> bool" where
  "inside d [] \<longleftrightarrow> d = 0"
| "inside d (Open # es) \<longleftrightarrow> inside (d + 1) es"
| "inside d (Close # es) \<longleftrightarrow> 0 < d \<and> inside (d - 1) es"
| "inside d (_ # es) \<longleftrightarrow> inside d es"

fun escapes :: "'l \<Rightarrow> ('l, 'v) effect \<Rightarrow> bool" where
  "escapes l (Global l' w) \<longleftrightarrow> l' = l"
| "escapes l (Poke l' w) \<longleftrightarrow> l' = l"
| "escapes l _ \<longleftrightarrow> False"

abbreviation at :: "'l \<Rightarrow> ('l, 'v) scopes \<Rightarrow> 'v option list" where
  "at l fs \<equiv> map (\<lambda>f. f l) fs"

lemma lookup_at: "at l fs = at l gs \<Longrightarrow> lookup fs l = lookup gs l"
proof (induction fs arbitrary: gs)
  case (Cons f fs)
  then show ?case by (cases gs) (auto split: option.splits)
qed simp

lemma at_bind_global: "l' \<noteq> l \<Longrightarrow> at l (bind_global l' w fs) = at l fs"
  by (induction l' w fs rule: bind_global.induct) auto

lemma at_rebind: "l' \<noteq> l \<Longrightarrow> at l (rebind l' w fs) = at l fs"
  by (induction l' w fs rule: rebind.induct) auto

lemma rebind_length [simp]: "length (rebind l w fs) = length fs" "rebind l w fs = [] \<longleftrightarrow> fs = []"
  by (induction l w fs rule: rebind.induct) auto

lemma drop_bind_local: "drop (Suc d) (at l (bind_local l' w fs)) = drop (Suc d) (at l fs)"
  by (cases fs) auto

lemma inside_at:
  "inside d es \<Longrightarrow> list_all (\<lambda>f. \<not> escapes l f) es \<Longrightarrow> d + 1 < length fs \<Longrightarrow>
   drop 1 (at l (fold scope_act es fs)) = drop (d + 1) (at l fs)"
proof (induction d es arbitrary: fs rule: inside.induct)
  case (2 d es)
  then show ?case using 2(1) [of "Map.empty # fs"] by simp
next
  case (3 d es)
  then obtain f gs where fs: "fs = f # gs" by (cases fs) auto
  then show ?case using 3 by (cases d; cases gs) auto
qed (auto simp: at_bind_global at_rebind drop_bind_local)

lemma group_at:
  assumes "inside 0 es" "list_all (\<lambda>f. \<not> escapes l f) es" "fs \<noteq> []"
  shows "at l (fold scope_act (Open # es @ [Close]) fs) = at l fs"
proof -
  let ?fs = "fold scope_act es (Map.empty # fs)"
  have d: "drop 1 (at l ?fs) = at l fs" using inside_at [OF assms(1,2), of "Map.empty # fs"] assms(3) by (simp add: Suc_le_eq)
  then have "tl ?fs \<noteq> []" using assms(3) by (cases ?fs) auto
  then have "at l (fold scope_act (Open # es @ [Close]) fs) = at l (tl ?fs)" by simp
  also have "\<dots> = at l fs" using d by (simp add: drop_Suc map_tl)
  finally show ?thesis .
qed

subsection \<open>Tables under the save stack\<close>

inductive runs :: "('s \<Rightarrow> 'e list \<Rightarrow> 's \<Rightarrow> bool) \<Rightarrow> 's \<Rightarrow> 'e list \<Rightarrow> 's \<Rightarrow> bool" for step where
  runs_stop: "runs step s [] s"
| runs_step: "step s es s' \<Longrightarrow> runs step s' fs s'' \<Longrightarrow> runs step s (es @ fs) s''"

lemma runs_one: "step s es s' \<Longrightarrow> runs step s es s'"
  using runs_step [of step s es s' "[]" s'] runs_stop [of step s'] by simp

lemma runs_trans: "runs step s es s' \<Longrightarrow> runs step s' fs s'' \<Longrightarrow> runs step s (es @ fs) s''"
proof (induction rule: runs.induct)
  case (runs_step s es s1 gs s')
  then show ?case using runs.runs_step [of step s es s1 "gs @ fs" s''] by simp
qed simp

locale grouped =
  fixes machine :: "'s \<Rightarrow> ('l, 'v) machine"
    and inv :: "'s \<Rightarrow> bool"
    and step :: "'s \<Rightarrow> ('l, 'v) effect list \<Rightarrow> 's \<Rightarrow> bool"
  assumes inv_ok: "inv s \<Longrightarrow> machine_ok (machine s)"
    and step_inv: "inv s \<Longrightarrow> step s es s' \<Longrightarrow> inv s'"
    and step_acts: "inv s \<Longrightarrow> step s es s' \<Longrightarrow> machine s' = fold act es (machine s)"
begin

definition content :: "'s \<Rightarrow> 'l \<Rightarrow> 'v" where
  "content s l = fst (fst (machine s) l)"

lemma run_acts: "runs step s es s' \<Longrightarrow> inv s \<Longrightarrow> inv s' \<and> machine s' = fold act es (machine s)"
proof (induction rule: runs.induct)
  case (runs_step s es s1 fs s')
  then show ?case using step_inv [OF runs_step.prems runs_step.hyps(1)] step_acts [OF runs_step.prems runs_step.hyps(1)] by simp
qed simp

lemma run_chain:
  assumes "inv s" "runs step s es s'"
  shows "chain (machine s') = fold scope_act es (chain (machine s))"
    "lookup (chain (machine s')) l = Some (content s' l)"
proof -
  show "chain (machine s') = fold scope_act es (chain (machine s))"
    using run_acts [OF assms(2,1)] acts_ok [OF inv_ok [OF assms(1)]] by simp
  show "lookup (chain (machine s')) l = Some (content s' l)" by (simp add: content_def chain_lookup)
qed

lemma group_content:
  assumes "inv s" "runs step s (Open # es @ [Close]) s'" "inside 0 es" "list_all (\<lambda>f. \<not> escapes l f) es"
  shows "content s' l = content s l"
proof -
  have "chain (machine s) \<noteq> []" by (cases "machine s") simp
  then have "lookup (chain (machine s')) l = lookup (chain (machine s)) l"
    unfolding run_chain(1) [OF assms(1,2)] by (intro lookup_at group_at assms(3,4))
  then show ?thesis by (simp add: content_def chain_lookup)
qed

end

end
