(* ===== verification/EqtbView.thy ===== *)
theory EqtbView
  imports EqtbGroups SaveStack
begin

text \<open>
  The table of equivalents as a machine of \<open>SaveStack\<close>: every location of every table, its content and its level, and
  the items of the save stack as saved cells; with the invariant of the table, and the interfaces of the two kinds of
  tables - vectors and hash maps - that each table of the engine provides.
\<close>

subsection \<open>Locations and contents\<close>

datatype (plugins only: code) loc =
    LEq nat | LInt nat | LDim nat | LGlue nat | LToksP nat | LCount nat | LDimen nat | LSkip nat | LMuSkip nat
  | LToks nat | LBox nat | LCat int nat | LUniCat int nat | LMath nat | LDel nat | LLc nat | LUc nat | LSf nat
  | LCase bool nat | LUniMath nat | LUniDel nat | LUniSf nat | LInter nat | LAttr nat | LMathParam nat
  | LMathGlue nat | LLuaMath nat | LLuaDel nat | LCatTable | LStyle nat nat | LFontParam nat nat | LHyphen nat
  | LSkew nat | LCurFont

datatype (plugins only: code) (dead 'n) content =
    VNone | VEq "equiv option" | VInt int | VNat nat | VGlue glue | VToks toks | VBox "'n option" | VWord "64 word" | VInts "int list"

definition dense_view :: "('v \<Rightarrow> 'n content) \<Rightarrow> 'n content \<Rightarrow> 'v dense \<Rightarrow> nat \<Rightarrow> 'n content \<times> nat" where
  "dense_view con d t i =
     (if i < length (fst t) \<and> i < length (snd t) then (con (fst t ! i), snd t ! i) else (d, LEVEL_ONE))"

definition saved_content :: "('v \<Rightarrow> 'n content) \<Rightarrow> ('v \<times> nat) option \<Rightarrow> 'n content" where
  "saved_content con old = (case old of None \<Rightarrow> VNone | Some (v, _) \<Rightarrow> con v)"

definition sparse_view :: "('v \<Rightarrow> 'n content) \<Rightarrow> ('k, 'v) sparse \<Rightarrow> 'k \<Rightarrow> 'n content \<times> nat" where
  "sparse_view con m k = (saved_content con (map_of m k), entry_level (map_of m k))"

definition sf_view :: "nat dense \<Rightarrow> nat list \<Rightarrow> nat \<Rightarrow> 'n content \<times> nat" where
  "sf_view t classes c =
     (if c < length (fst t) \<and> c < length (snd t) \<and> c < length classes
      then (VNat (pack_sf (classes ! c) (fst t ! c) mod 4294967296), snd t ! c) else (VNone, LEVEL_ONE))"

definition eq_view :: "eq_entry list \<Rightarrow> nat \<Rightarrow> 'n content \<times> nat" where
  "eq_view ens cs = (if cs < length ens then (VEq (en_equiv (ens ! cs)), en_level (ens ! cs)) else (VEq None, LEVEL_ONE))"

definition live_table :: "'n eqtb \<Rightarrow> int \<Rightarrow> nat dense \<times> (nat, nat) sparse" where
  "live_table e k =
     (if k = cat_current e then (cat e, unicode_cat_codes e) else (ct_cat (table_at e k), ct_unicode (table_at e k)))"

definition nested_view :: "('v \<Rightarrow> 'n content) \<Rightarrow> 'n content \<Rightarrow> 'v dense list \<Rightarrow> nat \<Rightarrow> nat \<Rightarrow> 'n content \<times> nat" where
  "nested_view con d ts s i = (if s < length ts then dense_view con d (ts ! s) i else (d, LEVEL_ONE))"

fun view :: "'n eqtb \<Rightarrow> loc \<Rightarrow> 'n content \<times> nat" where
  "view e (LEq cs) = eq_view (entries e) cs"
| "view e (LInt i) = dense_view VInt VNone (int_params e) i"
| "view e (LDim i) = dense_view VInt VNone (dim_params e) i"
| "view e (LGlue i) = dense_view VGlue VNone (glue_params e) i"
| "view e (LToksP i) = dense_view VToks VNone (tok_params e) i"
| "view e (LCount i) = dense_view VInt VNone (r_count e) i"
| "view e (LDimen i) = dense_view VInt VNone (r_dimen e) i"
| "view e (LSkip i) = dense_view VGlue VNone (r_skip e) i"
| "view e (LMuSkip i) = dense_view VGlue VNone (r_muskip e) i"
| "view e (LToks i) = dense_view VToks VNone (r_toks e) i"
| "view e (LBox i) = dense_view VBox VNone (r_box e) i"
| "view e (LCat k c) = dense_view VNat VNone (fst (live_table e k)) c"
| "view e (LUniCat k c) = sparse_view VNat (snd (live_table e k)) c"
| "view e (LMath c) = dense_view VNat VNone (math_code e) c"
| "view e (LDel c) = dense_view VInt VNone (del_code e) c"
| "view e (LLc c) = dense_view VNat VNone (lc_code e) c"
| "view e (LUc c) = dense_view VNat VNone (uc_code e) c"
| "view e (LSf c) = sf_view (sf_code e) (sf_class e) c"
| "view e (LCase u c) = sparse_view VNat (unicode_case_codes e) (u, c)"
| "view e (LUniMath c) = sparse_view VNat (unicode_math_codes e) c"
| "view e (LUniDel c) = sparse_view VInt (unicode_del_codes e) c"
| "view e (LUniSf c) = sparse_view VNat (unicode_sf_codes e) c"
| "view e (LInter k) = sparse_view VToks (inter_char e) k"
| "view e (LAttr n) = sparse_view VInt (attributes e) n"
| "view e (LMathParam k) = sparse_view VInt (math_params e) k"
| "view e (LMathGlue k) = sparse_view VInts (math_glue_params e) k"
| "view e (LLuaMath c) = sparse_view VWord (lua_math_codes e) c"
| "view e (LLuaDel c) = sparse_view VWord (lua_del_codes e) c"
| "view e LCatTable = (VInt (cat_current e), cat_current_level e)"
| "view e (LStyle s f) = nested_view VNat VNone (style_fonts e) s f"
| "view e (LFontParam f i) = nested_view VInt (VInt 0) (font_params e) f i"
| "view e (LHyphen f) = dense_view VInt VNone (hyphen_char e) f"
| "view e (LSkew f) = dense_view VInt VNone (skew_char e) f"
| "view e LCurFont = (VNat (cur_font_val e), cur_font_level e)"

fun saved_item :: "'n save_item \<Rightarrow> (loc, 'n content) saved" where
  "saved_item (SvLevel l t) = Boundary l"
| "saved_item (SvEq cs old l) = Saved (LEq cs) (VEq old) l"
| "saved_item (SvIntParam i v l) = Saved (LInt i) (VInt v) l"
| "saved_item (SvDimParam i v l) = Saved (LDim i) (VInt v) l"
| "saved_item (SvGlueParam i v l) = Saved (LGlue i) (VGlue v) l"
| "saved_item (SvToksParam i v l) = Saved (LToksP i) (VToks v) l"
| "saved_item (SvCount i v l) = Saved (LCount i) (VInt v) l"
| "saved_item (SvDimen i v l) = Saved (LDimen i) (VInt v) l"
| "saved_item (SvSkip i v l) = Saved (LSkip i) (VGlue v) l"
| "saved_item (SvMuSkip i v l) = Saved (LMuSkip i) (VGlue v) l"
| "saved_item (SvToks i v l) = Saved (LToks i) (VToks v) l"
| "saved_item (SvBox i v l) = Saved (LBox i) (VBox v) l"
| "saved_item (SvCat k c v l) = Saved (LCat k c) (VNat v) l"
| "saved_item (SvMathCode c v l) = Saved (LMath c) (VNat v) l"
| "saved_item (SvDelCode c v l) = Saved (LDel c) (VInt v) l"
| "saved_item (SvLcCode c v l) = Saved (LLc c) (VNat v) l"
| "saved_item (SvUcCode c v l) = Saved (LUc c) (VNat v) l"
| "saved_item (SvSfCode c v l) = Saved (LSf c) (VNat (v mod 4294967296)) l"
| "saved_item (SvUnicodeCase u c old) = Saved (LCase u c) (saved_content VNat old) (entry_level old)"
| "saved_item (SvUnicodeCat k c old) = Saved (LUniCat k c) (saved_content VNat old) (entry_level old)"
| "saved_item (SvUnicodeMath c old) = Saved (LUniMath c) (saved_content VNat old) (entry_level old)"
| "saved_item (SvUnicodeDel c old) = Saved (LUniDel c) (saved_content VInt old) (entry_level old)"
| "saved_item (SvUnicodeSf c old) = Saved (LUniSf c) (saved_content VNat old) (entry_level old)"
| "saved_item (SvInterCharToks k old) = Saved (LInter k) (saved_content VToks old) (entry_level old)"
| "saved_item (SvAttribute n old) = Saved (LAttr n) (saved_content VInt old) (entry_level old)"
| "saved_item (SvMathParam k old) = Saved (LMathParam k) (saved_content VInt old) (entry_level old)"
| "saved_item (SvMathGlueParam k old) = Saved (LMathGlue k) (saved_content VInts old) (entry_level old)"
| "saved_item (SvLuaMathCode c old) = Saved (LLuaMath c) (saved_content VWord old) (entry_level old)"
| "saved_item (SvLuaDelCode c old) = Saved (LLuaDel c) (saved_content VWord old) (entry_level old)"
| "saved_item (SvCatCodeTable k l) = Saved LCatTable (VInt k) l"
| "saved_item (SvStyleFont s f v l) = Saved (LStyle s f) (VNat v) l"
| "saved_item (SvFontParam f i v l) = Saved (LFontParam f i) (VInt v) l"
| "saved_item (SvHyphenChar f v l) = Saved (LHyphen f) (VInt v) l"
| "saved_item (SvSkewChar f v l) = Saved (LSkew f) (VInt v) l"
| "saved_item (SvCurFont v l) = Saved LCurFont (VNat v) l"
| "saved_item (SvParShape _ _) = Mark"
| "saved_item (SvPenaltyShape _ _ _) = Mark"
| "saved_item (SvAfterGroup _) = Mark"

definition machine :: "'n eqtb \<Rightarrow> (loc, 'n content) machine" where
  "machine e = (view e, map saved_item (save_stack e), cur_level e)"

subsection \<open>The invariant\<close>

text \<open>The index of a vector's location is in range.\<close>

definition in_dense :: "'v dense \<Rightarrow> nat \<Rightarrow> bool" where
  "in_dense t i \<longleftrightarrow> i < length (fst t) \<and> i < length (snd t)"

fun in_table :: "'n eqtb \<Rightarrow> loc \<Rightarrow> bool" where
  "in_table e (LInt i) = in_dense (int_params e) i"
| "in_table e (LDim i) = in_dense (dim_params e) i"
| "in_table e (LGlue i) = in_dense (glue_params e) i"
| "in_table e (LToksP i) = in_dense (tok_params e) i"
| "in_table e (LCount i) = in_dense (r_count e) i"
| "in_table e (LDimen i) = in_dense (r_dimen e) i"
| "in_table e (LSkip i) = in_dense (r_skip e) i"
| "in_table e (LMuSkip i) = in_dense (r_muskip e) i"
| "in_table e (LToks i) = in_dense (r_toks e) i"
| "in_table e (LBox i) = in_dense (r_box e) i"
| "in_table e (LCat k c) = in_dense (fst (live_table e k)) c"
| "in_table e (LMath c) = in_dense (math_code e) c"
| "in_table e (LDel c) = in_dense (del_code e) c"
| "in_table e (LLc c) = in_dense (lc_code e) c"
| "in_table e (LUc c) = in_dense (uc_code e) c"
| "in_table e (LSf c) \<longleftrightarrow> in_dense (sf_code e) c \<and> c < length (sf_class e)"
| "in_table e (LStyle s f) \<longleftrightarrow> s < length (style_fonts e) \<and> in_dense (style_fonts e ! s) f"
| "in_table e (LFontParam f i) = False"
| "in_table e (LHyphen f) = False"
| "in_table e (LSkew f) = False"
| "in_table e _ = True"

fun item_in :: "'n eqtb \<Rightarrow> (loc, 'n content) saved \<Rightarrow> bool" where
  "item_in e (Saved l v k) = in_table e l"
| "item_in e _ = True"

text \<open>The open groups are the level items of the save stack, with their kind and position.\<close>

fun level_marks :: "'n save_item list \<Rightarrow> (level_type \<times> nat) list" where
  "level_marks [] = []"
| "level_marks (SvLevel l t # items) = (t, length items) # level_marks items"
| "level_marks (_ # items) = level_marks items"

definition is_outer :: "equiv option \<Rightarrow> bool" where
  "is_outer eq = (case eq of Some (EqMacro m) \<Rightarrow> m_outer (snd m) | _ \<Rightarrow> False)"

definition outer_ok :: "eq_entry list \<Rightarrow> nat \<Rightarrow> bool" where
  "outer_ok ens n \<longleftrightarrow> (\<forall>en \<in> set ens. en_outer en = is_outer (en_equiv en)) \<and>
     n = length (filter (\<lambda>en. is_outer (en_equiv en)) ens) mod 4294967296"

definition side_ok :: "'n eqtb \<Rightarrow> bool" where
  "side_ok e \<longleftrightarrow> list_all (item_in e) (map saved_item (save_stack e)) \<and>
     map (\<lambda>g. (gr_ty g, gr_boundary g)) (groups e) = level_marks (save_stack e) \<and>
     outer_ok (entries e) (outer_entries e)"

definition table_ok :: "'n eqtb \<Rightarrow> bool" where
  "table_ok e \<longleftrightarrow> machine_ok (machine e) \<and> side_ok e"

text \<open>How the open groups follow the effects.\<close>

fun follow :: "(loc, 'n content) effect list \<Rightarrow> group_rec list \<Rightarrow> group_rec list \<Rightarrow> bool" where
  "follow [] gs gs' \<longleftrightarrow> gs' = gs"
| "follow (Open # es) gs gs' \<longleftrightarrow> (\<exists>g. follow es (g # gs) gs')"
| "follow (Close # es) gs gs' \<longleftrightarrow> follow es (tl gs) gs'"
| "follow (_ # es) gs gs' \<longleftrightarrow> follow es gs gs'"

lemma follow_append: "follow es gs gs1 \<Longrightarrow> follow fs gs1 gs' \<Longrightarrow> follow (es @ fs) gs gs'"
  by (induction es gs gs1 rule: follow.induct) auto

lemma follow_globals: "follow (map (\<lambda>l. Global l (w l)) ls) gs gs' \<longleftrightarrow> gs' = gs"
  by (induction ls) auto

lemma follow_inside: "inside d es \<Longrightarrow> follow es gs gs' \<Longrightarrow> gs' = drop d gs"
proof (induction d es arbitrary: gs rule: inside.induct)
  case (2 d es)
  then obtain g where "follow es (g # gs) gs'" by auto
  then show ?case using 2(1) [of "g # gs"] 2(2) by simp
next
  case (3 d es)
  then show ?case using 3(1) [of "tl gs"] by (cases d) (simp_all add: drop_Suc)
qed auto

definition sim :: "'n eqtb \<Rightarrow> (loc, 'n content) effect list \<Rightarrow> 'n eqtb \<Rightarrow> bool" where
  "sim e es e' \<longleftrightarrow> machine e' = fold act es (machine e) \<and> (side_ok e \<longrightarrow> side_ok e') \<and> (\<forall>l. in_table e l \<longrightarrow> in_table e' l) \<and>
     follow es (groups e) (groups e')"

lemma sim_trans: "sim e es e1 \<Longrightarrow> sim e1 fs e2 \<Longrightarrow> sim e (es @ fs) e2"
  by (auto simp: sim_def intro: follow_append)

lemma sim_ok: "sim e es e' \<Longrightarrow> table_ok e \<Longrightarrow> table_ok e'"
  by (auto simp: sim_def table_ok_def acts_ok)

end
