(* ===== verification/EqtbSim.thy ===== *)
theory EqtbSim
  imports EqtbView
begin

text \<open>
  Each assignment of the table is an effect on the machine of \<open>SaveStack\<close>.  What the vectors have in common, and
  what the hash maps have in common, is proved once in a locale and interpreted on each table.
\<close>

subsection \<open>Updates the view does not see\<close>

lemma view_trace [simp]: "view (e\<lparr>trace_events := tr\<rparr>) = view e"
  and view_stack [simp]: "view (e\<lparr>save_stack := st\<rparr>) = view e"
  and view_level [simp]: "view (e\<lparr>cur_level := n\<rparr>) = view e"
  and view_groups [simp]: "view (e\<lparr>groups := gs\<rparr>) = view e"
  and view_pending [simp]: "view (e\<lparr>pending_mode := p\<rparr>) = view e"
  and view_spec [simp]: "view (e\<lparr>next_spec := n\<rparr>) = view e"
  and view_attr [simp]: "view (e\<lparr>cur_attr := a\<rparr>) = view e" "view (e\<lparr>attr_store := al\<rparr>) = view e"
  and view_capacity [simp]: "view (e\<lparr>capacity_exceeded := b\<rparr>) = view e"
  by (rule ext, case_tac x; simp add: live_table_def table_at_def)+

lemma in_table_trace [simp]: "in_table (e\<lparr>trace_events := tr\<rparr>) = in_table e"
  and in_table_stack [simp]: "in_table (e\<lparr>save_stack := st\<rparr>) = in_table e"
  and in_table_level [simp]: "in_table (e\<lparr>cur_level := n\<rparr>) = in_table e"
  and in_table_groups [simp]: "in_table (e\<lparr>groups := gs\<rparr>) = in_table e"
  and in_table_pending [simp]: "in_table (e\<lparr>pending_mode := p\<rparr>) = in_table e"
  and in_table_spec [simp]: "in_table (e\<lparr>next_spec := n\<rparr>) = in_table e"
  and in_table_attr [simp]: "in_table (e\<lparr>cur_attr := a\<rparr>) = in_table e" "in_table (e\<lparr>attr_store := al\<rparr>) = in_table e"
  and in_table_capacity [simp]: "in_table (e\<lparr>capacity_exceeded := b\<rparr>) = in_table e"
  by (rule ext, case_tac x; simp add: live_table_def table_at_def)+

lemma item_in_mono: "\<forall>l. in_table e l \<longrightarrow> in_table e' l \<Longrightarrow> item_in e it \<Longrightarrow> item_in e' it"
  by (cases it) auto

lemma items_in_mono: "\<forall>l. in_table e l \<longrightarrow> in_table e' l \<Longrightarrow> list_all (item_in e) its \<Longrightarrow> list_all (item_in e') its"
  by (auto simp: list_all_iff intro: item_in_mono)

text \<open>What an update of the trace, or of another field outside the machine, leaves.\<close>

definition silent :: "'n eqtb \<Rightarrow> 'n eqtb \<Rightarrow> bool" where
  "silent e e' \<longleftrightarrow> view e' = view e \<and> in_table e' = in_table e \<and> save_stack e' = save_stack e \<and> cur_level e' = cur_level e \<and>
     groups e' = groups e \<and> entries e' = entries e \<and> outer_entries e' = outer_entries e"

lemma silent_refl [simp]: "silent e e"
  by (simp add: silent_def)

lemma silent_sim: "silent e e' \<Longrightarrow> sim e [] e'"
proof -
  assume s: "silent e e'"
  have "item_in e' = item_in e" using s by (intro ext, case_tac x) (auto simp: silent_def)
  then show "sim e [] e'" using s by (auto simp: silent_def sim_def machine_def side_ok_def)
qed

lemma silent_trace [simp]: "silent e (trace_with verb ts tv e)" "silent e (trace verb ts e)" "silent e (trace_text s e)"
  "silent e (trace_group b code level line e)" "silent e (end_assign ts e)" "silent e (trace_restore r ts e)" "silent e (trace_shape ts e)"
  by (simp_all add: silent_def trace_with_def trace_def trace_text_def trace_group_def end_assign_def trace_restore_def trace_shape_def)

subsection \<open>Writing a location\<close>

text \<open>The effect of an assignment: none for a reassignment of the same value.\<close>

definition writes :: "bool \<Rightarrow> bool \<Rightarrow> loc \<Rightarrow> 'n content \<Rightarrow> (loc, 'n content) effect list" where
  "writes global same l v = (if same \<and> \<not> global then [] else [if global then Global l v else Local l v])"

text \<open>
  \<open>stored l v global e e'\<close>: the location is overwritten, and a local assignment that is the first of its group has
  pushed the old cell.
\<close>

definition stored :: "loc \<Rightarrow> 'n content \<Rightarrow> bool \<Rightarrow> 'n eqtb \<Rightarrow> 'n eqtb \<Rightarrow> bool" where
  "stored l v global e e' \<longleftrightarrow>
     view e' = (view e)(l := (v, if global then LEVEL_ONE else cur_level e)) \<and>
     (if \<not> global \<and> snd (view e l) < cur_level e
      then \<exists>it. save_stack e' = it # save_stack e \<and> saved_item it = Saved l (fst (view e l)) (snd (view e l)) \<and> in_table e l
      else save_stack e' = save_stack e) \<and>
     cur_level e' = cur_level e \<and> groups e' = groups e \<and> (\<forall>l. in_table e l \<longrightarrow> in_table e' l) \<and>
     (outer_ok (entries e) (outer_entries e) \<longrightarrow> outer_ok (entries e') (outer_entries e'))"

lemma saved_not_level: "saved_item it = Saved l v k \<Longrightarrow> level_marks (it # items) = level_marks items"
  by (cases it) auto

lemma stored_sim: "stored l v global e e' \<Longrightarrow> sim e [if global then Global l v else Local l v] e'"
  unfolding sim_def stored_def machine_def side_ok_def LEVEL_ONE_def
  by (auto simp: saved_not_level intro: items_in_mono split: if_splits)

lemma stored_silent: "silent e e1 \<Longrightarrow> stored l v global e1 e2 \<Longrightarrow> silent e2 e3 \<Longrightarrow> stored l v global e e3"
  unfolding silent_def stored_def by (auto split: if_splits)

lemma traced_sim:
  assumes "traced global same ts store e = Some e'"
    "\<And>tr e2. store (e\<lparr>trace_events := tr\<rparr>) = Some e2 \<Longrightarrow> stored l v global (e\<lparr>trace_events := tr\<rparr>) e2"
  shows "sim e (writes global same l v) e'"
proof -
  obtain go e1 where b: "begin_assign global same ts e = (go, e1)" by fastforce
  then have go: "go \<longleftrightarrow> \<not> (same \<and> \<not> global)" and e1: "silent e e1" by (auto simp: begin_assign_def Let_def split: if_splits)
  obtain tr where tr: "e1 = e\<lparr>trace_events := tr\<rparr>"
  proof (cases "0 < int_param e TRACING_ASSIGNS")
    case True
    then show ?thesis using b that by (auto simp: begin_assign_def Let_def trace_def trace_with_def)
  next
    case False
    then show ?thesis using b that [of "trace_events e"] by (auto simp: begin_assign_def Let_def)
  qed
  show ?thesis
  proof (cases go)
    case False
    then show ?thesis using assms(1) b go e1 by (simp add: traced_def writes_def silent_sim)
  next
    case True
    then obtain e2 where "store e1 = Some e2" "e' = end_assign ts e2" using assms(1) b by (auto simp: traced_def)
    then have "stored l v global e e'" using assms(2) [of tr] stored_silent [OF e1] by (auto simp: tr)
    from stored_sim [OF this] show ?thesis using go True by (auto simp: writes_def)
  qed
qed

text \<open>What undoing a saved item does: the cell comes back unless a global assignment made it survive.\<close>

definition undone :: "loc \<Rightarrow> 'n content \<Rightarrow> nat \<Rightarrow> 'n eqtb \<Rightarrow> 'n eqtb \<Rightarrow> bool" where
  "undone l v k e e' \<longleftrightarrow>
     view e' = (if snd (view e l) > LEVEL_ONE then (view e)(l := (v, k)) else view e) \<and>
     in_table e' = in_table e \<and> save_stack e' = save_stack e \<and> cur_level e' = cur_level e \<and> groups e' = groups e \<and>
     (outer_ok (entries e) (outer_entries e) \<longrightarrow> outer_ok (entries e') (outer_entries e'))"

lemma undone_silent: "undone l v k e e1 \<Longrightarrow> silent e1 e' \<Longrightarrow> undone l v k e e'"
  by (simp add: undone_def silent_def)

subsection \<open>Vectors\<close>

lemma slot_cases:
  assumes "slot t i v global level st mk = Some (t', st')"
  shows "in_dense t i" "dense_view con d t' = (dense_view con d t)(i := (con v, if global then LEVEL_ONE else level))"
    "in_dense t' = in_dense t"
    "st' = (if \<not> global \<and> snd (dense_view con d t i) < level then mk (fst t ! i) (snd t ! i) # st else st)"
    "dense_view con d t i = (con (fst t ! i), snd t ! i)"
  using assms by (cases t; auto simp: slot_def in_dense_def dense_view_def fun_eq_iff nth_list_update split: if_splits)+

lemma restore_slot_cases:
  assumes "restore_slot t i v l = Some (t', r)"
  shows "r \<longleftrightarrow> snd (dense_view con d t i) > LEVEL_ONE"
    "dense_view con d t' = (if r then (dense_view con d t)(i := (con v, l)) else dense_view con d t)" "in_dense t' = in_dense t"
  using assms by (cases t; auto simp: restore_slot_def in_dense_def dense_view_def fun_eq_iff nth_list_update split: if_splits)+

lemma restore_slot_in: "in_dense t i \<Longrightarrow> restore_slot t i v l \<noteq> None"
  by (cases t) (auto simp: restore_slot_def in_dense_def)

locale dense_cells =
  fixes get :: "'n eqtb \<Rightarrow> 'v dense"
    and put :: "'v dense \<Rightarrow> 'n eqtb \<Rightarrow> 'n eqtb"
    and loc :: "nat \<Rightarrow> loc"
    and con :: "'v \<Rightarrow> 'n content"
    and mk :: "nat \<Rightarrow> 'v \<Rightarrow> nat \<Rightarrow> 'n save_item"
    and valid :: "'n eqtb \<Rightarrow> bool"
  assumes view_get: "valid e \<Longrightarrow> view e (loc i) = dense_view con VNone (get e) i"
    and view_put: "valid e \<Longrightarrow> dense_view con VNone t = (dense_view con VNone (get e))(i := cell) \<Longrightarrow> view (put t e) = (view e)(loc i := cell)"
    and in_get: "valid e \<Longrightarrow> in_dense (get e) i \<Longrightarrow> in_table e (loc i)"
    and in_put: "valid e \<Longrightarrow> in_dense t = in_dense (get e) \<Longrightarrow> in_table (put t e) = in_table e"
    and put_frame: "save_stack (put t e) = save_stack e" "cur_level (put t e) = cur_level e" "groups (put t e) = groups e"
      "entries (put t e) = entries e" "outer_entries (put t e) = outer_entries e"
    and saved_mk: "valid e \<Longrightarrow> saved_item (mk i v l) = Saved (loc i) (con v) l"
begin

lemma stored_slot:
  assumes "valid e" "slot (get e) i v global (cur_level e) (save_stack e) (mk i) = Some (t, st)"
  shows "stored (loc i) (con v) global e ((put t e)\<lparr>save_stack := st\<rparr>)"
  using slot_cases(1,3) [OF assms(2)] slot_cases(2,4,5) [OF assms(2), of con VNone] view_put [OF assms(1)] in_put [OF assms(1)] in_get [OF assms(1)]
  by (auto simp: stored_def put_frame saved_mk [OF assms(1)] view_get [OF assms(1)])

lemma traced_slot:
  assumes "traced global same ts (\<lambda>e. do {
      (t, st) \<leftarrow> slot (get e) i v global (cur_level e) (save_stack e) (mk i);
      Some ((put t e)\<lparr>save_stack := st\<rparr>) }) e = Some e'" "\<And>tr. valid (e\<lparr>trace_events := tr\<rparr>)"
  shows "sim e (writes global same (loc i) (con v)) e'"
  by (rule traced_sim [OF assms(1)]) (auto simp: Option.bind_eq_Some_conv intro: stored_slot [OF assms(2)])

lemma plain_slot:
  assumes "valid e" "slot (get e) i v global (cur_level e) (save_stack e) (mk i) = Some (t, st)"
  shows "sim e [if global then Global (loc i) (con v) else Local (loc i) (con v)] ((put t e)\<lparr>save_stack := st\<rparr>)"
  by (rule stored_sim [OF stored_slot [OF assms]])

lemma restored_slot:
  assumes "valid e" "restore_slot (get e) i v l = Some (t, r)"
  shows "view (put t e) = (if snd (view e (loc i)) > LEVEL_ONE then (view e)(loc i := (con v, l)) else view e)"
    "in_table (put t e) = in_table e"
proof -
  note c = restore_slot_cases(1,2) [OF assms(2), of con VNone] restore_slot_cases(3) [OF assms(2)]
  show "in_table (put t e) = in_table e" using c(3) in_put [OF assms(1)] by simp
  show "view (put t e) = (if snd (view e (loc i)) > LEVEL_ONE then (view e)(loc i := (con v, l)) else view e)"
  proof (cases r)
    case True
    then show ?thesis using c view_put [OF assms(1), of t i "(con v, l)"] view_get [OF assms(1)] by auto
  next
    case False
    have "dense_view con VNone t = (dense_view con VNone (get e))(i := dense_view con VNone (get e) i)" using c False by simp
    from view_put [OF assms(1) this] show ?thesis using c False view_get [OF assms(1)] by auto
  qed
qed

lemma undone_slot:
  assumes "valid e" "restore_slot (get e) i v l = Some (t, r)"
  shows "undone (loc i) (con v) l e (put t e)"
  using restored_slot [OF assms] by (simp add: undone_def put_frame)

lemma undone_arm:
  assumes "restore_slot (get e) i v l \<bind> (\<lambda>(t, r). Some (trace_restore r ts (put t e))) = Some e'" "valid e"
  shows "undone (loc i) (con v) l e e'"
  using assms(1) undone_slot [OF assms(2)]
  by (auto simp: Option.bind_eq_Some_conv intro: undone_silent [OF _ silent_trace(6)])

end

subsection \<open>Hash maps\<close>

lemma sparse_slot_cases:
  assumes "sparse_slot m k v global level st mk = (m', st')"
  shows "sparse_view con m' = (sparse_view con m)(k := (con v, if global then LEVEL_ONE else level))"
    "st' = (if \<not> global \<and> snd (sparse_view con m k) < level then mk (map_of m k) # st else st)"
  using assms by (auto simp: sparse_slot_def sparse_view_def fun_eq_iff update_conv' saved_content_def entry_level_def Let_def split: if_splits)

lemma sparse_local: "sparse_is_local m k \<longleftrightarrow> snd (sparse_view con m k) > LEVEL_ONE"
  by (auto simp: sparse_is_local_def sparse_view_def entry_level_def split: option.splits)

lemma restore_sparse_view:
  "sparse_view con (restore_sparse m k old) =
   (if snd (sparse_view con m k) > LEVEL_ONE then (sparse_view con m)(k := (saved_content con old, entry_level old)) else sparse_view con m)"
  unfolding sparse_local [of m k con, symmetric] restore_sparse_def
  by (auto simp: sparse_view_def fun_eq_iff update_conv' delete_conv' saved_content_def entry_level_def split: option.splits)

locale sparse_cells =
  fixes get :: "'n eqtb \<Rightarrow> ('k, 'v) sparse"
    and put :: "('k, 'v) sparse \<Rightarrow> 'n eqtb \<Rightarrow> 'n eqtb"
    and loc :: "'k \<Rightarrow> loc"
    and con :: "'v \<Rightarrow> 'n content"
    and mk :: "'k \<Rightarrow> ('v \<times> nat) option \<Rightarrow> 'n save_item"
    and valid :: "'n eqtb \<Rightarrow> bool"
  assumes view_get: "valid e \<Longrightarrow> view e (loc k) = sparse_view con (get e) k"
    and view_put: "valid e \<Longrightarrow> sparse_view con m = (sparse_view con (get e))(k := cell) \<Longrightarrow> view (put m e) = (view e)(loc k := cell)"
    and in_loc: "in_table e (loc k)"
    and in_put: "in_table (put m e) = in_table e"
    and put_frame: "save_stack (put m e) = save_stack e" "cur_level (put m e) = cur_level e" "groups (put m e) = groups e"
      "entries (put m e) = entries e" "outer_entries (put m e) = outer_entries e"
    and saved_mk: "valid e \<Longrightarrow> saved_item (mk k old) = Saved (loc k) (saved_content con old) (entry_level old)"
begin

lemma stored_slot:
  assumes "valid e" "sparse_slot (get e) k v global (cur_level e) (save_stack e) (mk k) = (m, st)"
  shows "stored (loc k) (con v) global e ((put m e)\<lparr>save_stack := st\<rparr>)"
  using sparse_slot_cases [OF assms(2), of con] view_put [OF assms(1)]
  by (auto simp: stored_def put_frame saved_mk [OF assms(1)] view_get [OF assms(1)] in_put in_loc sparse_view_def)

lemma traced_slot:
  assumes "traced global same ts (\<lambda>e.
      let (m, st) = sparse_slot (get e) k v global (cur_level e) (save_stack e) (mk k)
      in Some ((put m e)\<lparr>save_stack := st\<rparr>)) e = Some e'" "\<And>tr. valid (e\<lparr>trace_events := tr\<rparr>)"
  shows "sim e (writes global same (loc k) (con v)) e'"
  by (rule traced_sim [OF assms(1)]) (auto split: prod.splits intro: stored_slot [OF assms(2)])

lemma plain_slot:
  assumes "valid e" "sparse_slot (get e) k v global (cur_level e) (save_stack e) (mk k) = (m, st)"
  shows "sim e [if global then Global (loc k) (con v) else Local (loc k) (con v)] ((put m e)\<lparr>save_stack := st\<rparr>)"
  by (rule stored_sim [OF stored_slot [OF assms]])

lemma restored:
  assumes "valid e"
  shows "view (put (restore_sparse (get e) k old) e) =
     (if snd (view e (loc k)) > LEVEL_ONE then (view e)(loc k := (saved_content con old, entry_level old)) else view e)"
proof (cases "snd (view e (loc k)) > LEVEL_ONE")
  case True
  then have "sparse_view con (restore_sparse (get e) k old) = (sparse_view con (get e))(k := (saved_content con old, entry_level old))"
    using view_get [OF assms] by (simp add: restore_sparse_view)
  from view_put [OF assms this] show ?thesis using True by simp
next
  case False
  then have "sparse_view con (restore_sparse (get e) k old) = (sparse_view con (get e))(k := sparse_view con (get e) k)"
    using view_get [OF assms] by (simp add: restore_sparse_view)
  from view_put [OF assms this] show ?thesis using False by (simp only: view_get [OF assms, symmetric] fun_upd_triv if_False)
qed

lemma undone_sparse:
  assumes "valid e"
  shows "undone (loc k) (saved_content con old) (entry_level old) e (put (restore_sparse (get e) k old) e)"
  using restored [OF assms] in_put by (simp add: undone_def put_frame)

end

end
