(* ===== verification/EqtbTables.thy ===== *)
theory EqtbTables
  imports EqtbSim
begin

text \<open>
  The tables of the engine provide the interfaces of \<open>EqtbSim\<close>: one interpretation for each vector and each hash map,
  the catcode tables - current or parked - included.
\<close>

subsection \<open>Vectors\<close>

interpretation ints: dense_cells int_params "\<lambda>t e. e\<lparr>int_params := t\<rparr>" LInt VInt SvIntParam "\<lambda>_. True"
  by unfold_locales (simp_all, (rule ext, case_tac x; simp add: live_table_def table_at_def)+)

interpretation dims: dense_cells dim_params "\<lambda>t e. e\<lparr>dim_params := t\<rparr>" LDim VInt SvDimParam "\<lambda>_. True"
  by unfold_locales (simp_all, (rule ext, case_tac x; simp add: live_table_def table_at_def)+)

interpretation glues: dense_cells glue_params "\<lambda>t e. e\<lparr>glue_params := t\<rparr>" LGlue VGlue SvGlueParam "\<lambda>_. True"
  by unfold_locales (simp_all, (rule ext, case_tac x; simp add: live_table_def table_at_def)+)

interpretation toks_params: dense_cells tok_params "\<lambda>t e. e\<lparr>tok_params := t\<rparr>" LToksP VToks SvToksParam "\<lambda>_. True"
  by unfold_locales (simp_all, (rule ext, case_tac x; simp add: live_table_def table_at_def)+)

interpretation counts: dense_cells r_count "\<lambda>t e. e\<lparr>r_count := t\<rparr>" LCount VInt SvCount "\<lambda>_. True"
  by unfold_locales (simp_all, (rule ext, case_tac x; simp add: live_table_def table_at_def)+)

interpretation dimens: dense_cells r_dimen "\<lambda>t e. e\<lparr>r_dimen := t\<rparr>" LDimen VInt SvDimen "\<lambda>_. True"
  by unfold_locales (simp_all, (rule ext, case_tac x; simp add: live_table_def table_at_def)+)

interpretation skips: dense_cells r_skip "\<lambda>t e. e\<lparr>r_skip := t\<rparr>" LSkip VGlue SvSkip "\<lambda>_. True"
  by unfold_locales (simp_all, (rule ext, case_tac x; simp add: live_table_def table_at_def)+)

interpretation muskips: dense_cells r_muskip "\<lambda>t e. e\<lparr>r_muskip := t\<rparr>" LMuSkip VGlue SvMuSkip "\<lambda>_. True"
  by unfold_locales (simp_all, (rule ext, case_tac x; simp add: live_table_def table_at_def)+)

interpretation toks_regs: dense_cells r_toks "\<lambda>t e. e\<lparr>r_toks := t\<rparr>" LToks VToks SvToks "\<lambda>_. True"
  by unfold_locales (simp_all, (rule ext, case_tac x; simp add: live_table_def table_at_def)+)

interpretation boxes: dense_cells r_box "\<lambda>t e. e\<lparr>r_box := t\<rparr>" LBox VBox SvBox "\<lambda>_. True"
  by unfold_locales (simp_all, (rule ext, case_tac x; simp add: live_table_def table_at_def)+)

interpretation math_codes: dense_cells math_code "\<lambda>t e. e\<lparr>math_code := t\<rparr>" LMath VNat SvMathCode "\<lambda>_. True"
  by unfold_locales (simp_all, (rule ext, case_tac x; simp add: live_table_def table_at_def)+)

interpretation del_codes: dense_cells del_code "\<lambda>t e. e\<lparr>del_code := t\<rparr>" LDel VInt SvDelCode "\<lambda>_. True"
  by unfold_locales (simp_all, (rule ext, case_tac x; simp add: live_table_def table_at_def)+)

interpretation lc_codes: dense_cells lc_code "\<lambda>t e. e\<lparr>lc_code := t\<rparr>" LLc VNat SvLcCode "\<lambda>_. True"
  by unfold_locales (simp_all, (rule ext, case_tac x; simp add: live_table_def table_at_def)+)

interpretation uc_codes: dense_cells uc_code "\<lambda>t e. e\<lparr>uc_code := t\<rparr>" LUc VNat SvUcCode "\<lambda>_. True"
  by unfold_locales (simp_all, (rule ext, case_tac x; simp add: live_table_def table_at_def)+)

subsection \<open>Hash maps\<close>

interpretation uni_math: sparse_cells unicode_math_codes "\<lambda>m e. e\<lparr>unicode_math_codes := m\<rparr>" LUniMath VNat SvUnicodeMath "\<lambda>_. True"
  by unfold_locales (simp_all, (rule ext, case_tac x; simp add: live_table_def table_at_def)+)

interpretation uni_del: sparse_cells unicode_del_codes "\<lambda>m e. e\<lparr>unicode_del_codes := m\<rparr>" LUniDel VInt SvUnicodeDel "\<lambda>_. True"
  by unfold_locales (simp_all, (rule ext, case_tac x; simp add: live_table_def table_at_def)+)

interpretation uni_sf: sparse_cells unicode_sf_codes "\<lambda>m e. e\<lparr>unicode_sf_codes := m\<rparr>" LUniSf VNat SvUnicodeSf "\<lambda>_. True"
  by unfold_locales (simp_all, (rule ext, case_tac x; simp add: live_table_def table_at_def)+)

interpretation inter: sparse_cells inter_char "\<lambda>m e. e\<lparr>inter_char := m\<rparr>" LInter VToks SvInterCharToks "\<lambda>_. True"
  by unfold_locales (simp_all, (rule ext, case_tac x; simp add: live_table_def table_at_def)+)

interpretation attrs: sparse_cells attributes "\<lambda>m e. e\<lparr>attributes := m\<rparr>" LAttr VInt SvAttribute "\<lambda>_. True"
  by unfold_locales (simp_all, (rule ext, case_tac x; simp add: live_table_def table_at_def)+)

interpretation mparams: sparse_cells math_params "\<lambda>m e. e\<lparr>math_params := m\<rparr>" LMathParam VInt SvMathParam "\<lambda>_. True"
  by unfold_locales (simp_all, (rule ext, case_tac x; simp add: live_table_def table_at_def)+)

interpretation mglues: sparse_cells math_glue_params "\<lambda>m e. e\<lparr>math_glue_params := m\<rparr>" LMathGlue VInts SvMathGlueParam "\<lambda>_. True"
  by unfold_locales (simp_all, (rule ext, case_tac x; simp add: live_table_def table_at_def)+)

interpretation lua_math: sparse_cells lua_math_codes "\<lambda>m e. e\<lparr>lua_math_codes := m\<rparr>" LLuaMath VWord SvLuaMathCode "\<lambda>_. True"
  by unfold_locales (simp_all, (rule ext, case_tac x; simp add: live_table_def table_at_def)+)

interpretation lua_del: sparse_cells lua_del_codes "\<lambda>m e. e\<lparr>lua_del_codes := m\<rparr>" LLuaDel VWord SvLuaDelCode "\<lambda>_. True"
  by unfold_locales (simp_all, (rule ext, case_tac x; simp add: live_table_def table_at_def)+)

subsection \<open>Catcode tables and style fonts\<close>

interpretation cat_now: dense_cells cat "\<lambda>t e. e\<lparr>cat := t\<rparr>" "LCat k" VNat "SvCat k" "\<lambda>e. cat_current e = k" for k
  by unfold_locales (simp_all add: live_table_def, (rule ext, case_tac x; simp add: live_table_def table_at_def)+)

interpretation cat_parked: dense_cells "\<lambda>e. ct_cat (table_at e k)"
  "\<lambda>t e. e\<lparr>cat_tables := AList.update k ((table_at e k)\<lparr>ct_cat := t\<rparr>) (cat_tables e)\<rparr>"
  "LCat k" VNat "SvCat k" "\<lambda>e. cat_current e \<noteq> k" for k
  by unfold_locales (simp_all add: live_table_def, (rule ext, case_tac x; simp add: live_table_def table_at_def update_conv')+)

interpretation uni_cat_now: sparse_cells unicode_cat_codes "\<lambda>m e. e\<lparr>unicode_cat_codes := m\<rparr>" "LUniCat k" VNat "SvUnicodeCat k"
  "\<lambda>e. cat_current e = k" for k
  by unfold_locales (simp_all add: live_table_def, (rule ext, case_tac x; simp add: live_table_def table_at_def)+)

interpretation uni_cat_parked: sparse_cells "\<lambda>e. ct_unicode (table_at e k)"
  "\<lambda>m e. e\<lparr>cat_tables := AList.update k ((table_at e k)\<lparr>ct_unicode := m\<rparr>) (cat_tables e)\<rparr>"
  "LUniCat k" VNat "SvUnicodeCat k" "\<lambda>e. cat_current e \<noteq> k" for k
  by unfold_locales (simp_all add: live_table_def, (rule ext, case_tac x; simp add: live_table_def table_at_def update_conv')+)

interpretation styles: dense_cells "\<lambda>e. style_fonts e ! s" "\<lambda>t e. e\<lparr>style_fonts := (style_fonts e)[s := t]\<rparr>" "LStyle s" VNat
  "SvStyleFont s" "\<lambda>e. s < length (style_fonts e)" for s
  by unfold_locales (simp_all add: nested_view_def, (rule ext, case_tac x; auto simp: live_table_def table_at_def nested_view_def nth_list_update)+)

interpretation cases: sparse_cells unicode_case_codes "\<lambda>m e. e\<lparr>unicode_case_codes := m\<rparr>" "\<lambda>(u, c). LCase u c" VNat
  "\<lambda>(u, c). SvUnicodeCase u c" "\<lambda>_. True"
  by unfold_locales (auto, (rule ext, case_tac x; auto simp: live_table_def table_at_def)+)

end
