(* ===== verification/EqtbOps.thy ===== *)
theory EqtbOps
  imports EqtbTables
begin

text \<open>The effect of every operation of the table on the machine.\<close>

subsection \<open>Meanings\<close>

lemma eq_view_resized [simp]: "eq_view (resized n ENTRY_UNDEFINED ens) = eq_view ens"
  by (rule ext) (auto simp: eq_view_def resized_def nth_append ENTRY_UNDEFINED_def)

lemma view_entries: "view (e\<lparr>entries := ens\<rparr>) l = (case l of LEq cs \<Rightarrow> eq_view ens cs | _ \<Rightarrow> view e l)"
  by (cases l; simp add: live_table_def table_at_def)

lemma view_outers [simp]: "view (e\<lparr>outer_entries := n\<rparr>) = view e"
  and in_table_entries [simp]: "in_table (e\<lparr>entries := ens\<rparr>) = in_table e"
  and in_table_outers [simp]: "in_table (e\<lparr>outer_entries := n\<rparr>) = in_table e"
  by (rule ext, case_tac x; simp add: live_table_def table_at_def)+

lemma view_entries_same:
  fixes e :: "'n eqtb"
  shows "(eq_view ens :: nat \<Rightarrow> 'n content \<times> nat) = eq_view (entries e) \<Longrightarrow> view (e\<lparr>entries := ens\<rparr>) = view e"
  by (rule ext, case_tac x) (simp_all add: live_table_def table_at_def)

lemma view_entries_upd:
  fixes e :: "'n eqtb"
  shows "(eq_view ens :: nat \<Rightarrow> 'n content \<times> nat) = (eq_view (entries e))(cs := c) \<Longrightarrow> view (e\<lparr>entries := ens\<rparr>) = (view e)(LEq cs := c)"
  by (rule ext, case_tac x) (simp_all add: live_table_def table_at_def)

lemma outer_ok_append: "outer_ok ens n \<Longrightarrow> outer_ok (ens @ replicate k ENTRY_UNDEFINED) n"
  by (auto simp: outer_ok_def ENTRY_UNDEFINED_def is_outer_def)

lemma outer_ok_resized: "outer_ok ens n \<Longrightarrow> outer_ok (resized k ENTRY_UNDEFINED ens) n"
  by (simp add: resized_def outer_ok_append)

lemma ensure_entry_sim: "sim e [] (ensure_entry cs e)" "cs < length (entries (ensure_entry cs e))"
proof -
  have v: "view (ensure_entry cs e) = view e" by (simp add: ensure_entry_def view_entries_same)
  have i: "in_table (ensure_entry cs e) = in_table e" by (simp add: ensure_entry_def)
  have "item_in (ensure_entry cs e) = item_in e" using i by (intro ext, case_tac x) auto
  then show "sim e [] (ensure_entry cs e)" using v i
    by (auto simp: sim_def machine_def side_ok_def ensure_entry_def outer_ok_resized)
  show "cs < length (entries (ensure_entry cs e))" by (simp add: ensure_entry_def resized_def)
qed

lemma filter_length_update:
  "i < length xs \<Longrightarrow> int (length (filter P (xs[i := x]))) =
     int (length (filter P xs)) + (if P x then 1 else 0) - (if P (xs ! i) then 1 else 0)"
proof (induction xs arbitrary: i)
  case (Cons a xs)
  show ?case
  proof (cases i)
    case (Suc j)
    then show ?thesis using Cons.IH [of j] Cons.prems by (cases "P x"; cases "P (xs ! j)") simp_all
  qed simp
qed simp

lemma entry_set_ok:
  assumes "outer_ok ens n" "cs < length ens" "entry_set eq (ens ! cs) n = (en, n')"
  shows "outer_ok (ens[cs := en\<lparr>en_level := l\<rparr>]) n'" "en_equiv en = eq"
proof -
  let ?old = "ens ! cs" and ?ens = "ens[cs := en\<lparr>en_level := l\<rparr>]" and ?P = "\<lambda>en. is_outer (en_equiv en)"
  have en: "en_equiv en = eq" "en_outer en = is_outer eq"
    using assms(3) by (auto simp: entry_set_def Let_def is_outer_def)
  show "en_equiv en = eq" by (rule en(1))
  have old: "en_outer ?old = is_outer (en_equiv ?old)" using assms(1,2) by (simp add: outer_ok_def)
  have n': "n' = (if is_outer eq \<noteq> is_outer (en_equiv ?old) then
      if is_outer eq then (n + 1) mod 4294967296 else (n + 4294967295) mod 4294967296 else n)"
    using assms(3) old by (auto simp: entry_set_def Let_def is_outer_def split: if_splits)
  have n: "n = length (filter ?P ens) mod 4294967296" using assms(1) by (simp add: outer_ok_def)
  have len: "int (length (filter ?P ?ens)) =
    int (length (filter ?P ens)) + (if is_outer eq then 1 else 0) - (if is_outer (en_equiv ?old) then 1 else 0)"
    using filter_length_update [OF assms(2), of ?P "en\<lparr>en_level := l\<rparr>"] en(1) by simp
  have "n' = length (filter ?P ?ens) mod 4294967296"
  proof (cases "is_outer eq = is_outer (en_equiv ?old)")
    case True
    then show ?thesis using n n' len by simp
  next
    case False
    show ?thesis
    proof (cases "is_outer eq")
      case True
      then have "length (filter ?P ?ens) = length (filter ?P ens) + 1" using len False by simp
      then show ?thesis using True False n n' by (simp add: mod_simps)
    next
      case no: False
      then have "length (filter ?P ens) = length (filter ?P ?ens) + 1" using len False by simp
      moreover have "((a + 1) mod 4294967296 + 4294967295) mod 4294967296 = (a :: nat) mod 4294967296" for a
        by (simp add: mod_simps)
      ultimately show ?thesis using no False n n' by simp
    qed
  qed
  moreover have "\<forall>x \<in> set ?ens. en_outer x = is_outer (en_equiv x)"
    using assms(1) en by (auto simp: outer_ok_def dest!: set_update_subset_insert [THEN subsetD])
  ultimately show "outer_ok ?ens n'" by (simp add: outer_ok_def)
qed

lemma eq_view_update:
  "cs < length ens \<Longrightarrow> eq_view (ens[cs := en]) = (eq_view ens)(cs := (VEq (en_equiv en), en_level en))"
  by (rule ext) (auto simp: eq_view_def nth_list_update)

lemma equiv_get_ensure [simp]: "en_equiv (entries (ensure_entry cs e) ! cs) = equiv_get e cs"
  by (auto simp: ensure_entry_def resized_def equiv_get_def nth_append ENTRY_UNDEFINED_def)

lemma define_eq_sim:
  fixes e :: "'n eqtb"
  assumes "define_eq cs eq global e = Some e'"
  shows "sim e (writes global (same_equiv (equiv_get e cs) eq) (LEq cs) (VEq eq)) e'"
proof -
  let ?e = "ensure_entry cs e"
  have "sim ?e (writes global (same_equiv (equiv_get e cs) eq) (LEq cs) (VEq eq)) e'"
    using assms unfolding define_eq_def Let_def equiv_get_ensure
  proof (rule traced_sim)
    fix tr e2
    let ?e1 = "?e\<lparr>trace_events := tr\<rparr>"
    assume "(case entry_set eq (entries ?e1 ! cs) (outer_entries ?e1) of (en', outers) \<Rightarrow>
       Some (if \<not> global \<and> en_level (entries ?e1 ! cs) < cur_level ?e1
          then push_save (SvEq cs (en_equiv (entries ?e1 ! cs)) (en_level (entries ?e1 ! cs)))
             (?e1\<lparr>entries := (entries ?e1)[cs := en'\<lparr>en_level := if global then LEVEL_ONE else cur_level ?e1\<rparr>], outer_entries := outers\<rparr>)
          else ?e1\<lparr>entries := (entries ?e1)[cs := en'\<lparr>en_level := if global then LEVEL_ONE else cur_level ?e1\<rparr>], outer_entries := outers\<rparr>)) = Some e2"
    then obtain en' outers where es: "entry_set eq (entries ?e1 ! cs) (outer_entries ?e1) = (en', outers)"
      and e2: "e2 = (if \<not> global \<and> en_level (entries ?e1 ! cs) < cur_level ?e1
          then push_save (SvEq cs (en_equiv (entries ?e1 ! cs)) (en_level (entries ?e1 ! cs)))
             (?e1\<lparr>entries := (entries ?e1)[cs := en'\<lparr>en_level := if global then LEVEL_ONE else cur_level ?e1\<rparr>], outer_entries := outers\<rparr>)
          else ?e1\<lparr>entries := (entries ?e1)[cs := en'\<lparr>en_level := if global then LEVEL_ONE else cur_level ?e1\<rparr>], outer_entries := outers\<rparr>)"
      by (auto split: prod.splits)
    have len: "cs < length (entries ?e1)" using ensure_entry_sim(2) by simp
    note ok = entry_set_ok [OF _ len es]
    have "en_equiv en' = eq" using es by (auto simp: entry_set_def Let_def)
    then have v: "(eq_view :: eq_entry list \<Rightarrow> nat \<Rightarrow> 'n content \<times> nat) ((entries ?e1)[cs := en'\<lparr>en_level := if global then LEVEL_ONE else cur_level ?e1\<rparr>]) =
      (eq_view (entries ?e1))(cs := (VEq eq, if global then LEVEL_ONE else cur_level ?e1))"
      using eq_view_update [OF len, of "en'\<lparr>en_level := if global then LEVEL_ONE else cur_level ?e1\<rparr>"] by simp
    have "view ?e1 (LEq cs) = (VEq (en_equiv (entries ?e1 ! cs)), en_level (entries ?e1 ! cs))" using len by (simp add: eq_view_def)
    then show "stored (LEq cs) (VEq eq) global ?e1 e2"
      unfolding stored_def e2 using ok(1) view_entries_upd [OF v]
      by (cases "\<not> global \<and> en_level (entries ?e1 ! cs) < cur_level ?e1") (auto simp: push_save_def simp del: view.simps)
  qed
  from sim_trans [OF ensure_entry_sim(1) this] show ?thesis by simp
qed

subsection \<open>Parameters\<close>

lemma writes_untested [simp]: "writes global False l v = [if global then Global l v else Local l v]"
  by (simp add: writes_def)

lemma silent_pending [simp]: "silent e (e\<lparr>pending_mode := p\<rparr>)"
  and silent_spec [simp]: "silent e (e\<lparr>next_spec := n\<rparr>)"
  and silent_attr [simp]: "silent e (e\<lparr>cur_attr := a\<rparr>)" "silent e (e\<lparr>attr_store := al\<rparr>)" "silent e (e\<lparr>cur_attr := a, attr_store := al\<rparr>)"
  and silent_capacity [simp]: "silent e (e\<lparr>capacity_exceeded := b\<rparr>)"
  by (simp_all add: silent_def)

lemma silent_then: "silent e e1 \<Longrightarrow> sim e1 es e' \<Longrightarrow> sim e es e'"
  using sim_trans [OF silent_sim, of e e1 es e'] by simp

lemma then_silent: "sim e es e1 \<Longrightarrow> silent e1 e' \<Longrightarrow> sim e es e'"
  using sim_trans [OF _ silent_sim, of e es e1 e'] by simp

lemma fetch_nth: "fetch t i = Some v \<Longrightarrow> fst t ! i = v"
  by (simp add: fetch_def split: if_splits)

text \<open>The current content of a vector's location, in the tests for reassignments.\<close>

definition now :: "'v dense \<Rightarrow> nat \<Rightarrow> 'v" where "now t i = fst t ! i"

lemma fetch_now: "fetch t i = Some v \<Longrightarrow> v = now t i"
  by (simp add: now_def fetch_nth)

definition int_effect :: "nat \<Rightarrow> int \<Rightarrow> bool \<Rightarrow> 'n eqtb \<Rightarrow> (loc, 'n content) effect list" where
  "int_effect p v global e =
     (if p = INTERACTION_MODE \<and> \<not> (0 \<le> v \<and> v \<le> 3) then []
      else writes (global \<or> p = INTERACTION_MODE) (int_in_eqtb p \<and> now (int_params e) p = v) (LInt p) (VInt v))"

lemma assign_int_param_sim:
  assumes "assign_int_param p v global e = Some e'"
  shows "sim e (int_effect p v global e) e'"
proof -
  let ?e = "if p = INTERACTION_MODE then e\<lparr>pending_mode := Some v\<rparr> else e"
  have s: "silent e ?e" by simp
  have now: "int_params ?e = int_params e" by simp
  show ?thesis
  proof (cases "p = INTERACTION_MODE \<and> \<not> (0 \<le> v \<and> v \<le> 3)")
    case True
    then have "e' = ?e" using assms by (auto simp: assign_int_param_def)
    then show ?thesis using True silent_sim [OF s] by (simp add: int_effect_def)
  next
    case False
    have "sim ?e (writes (global \<or> p = INTERACTION_MODE) (int_in_eqtb p \<and> now (int_params e) p = v) (LInt p) (VInt v)) e'"
    proof (cases "int_in_eqtb p")
      case True
      then show ?thesis using assms False unfolding assign_int_param_def Let_def
        by (auto simp: Option.bind_eq_Some_conv dest!: fetch_now ints.traced_slot)
    next
      case no: False
      then obtain t st where "slot (int_params ?e) p v (global \<or> p = INTERACTION_MODE) (cur_level ?e) (save_stack ?e) (SvIntParam p) = Some (t, st)"
        "e' = ?e\<lparr>int_params := t, save_stack := st\<rparr>"
        using assms False by (auto simp: assign_int_param_def Let_def Option.bind_eq_Some_conv)
      then show ?thesis using no ints.plain_slot [of ?e p v "global \<or> p = INTERACTION_MODE"] by simp
    qed
    from silent_then [OF s this] show ?thesis unfolding int_effect_def if_not_P [OF False] .
  qed
qed

lemma assign_dim_param_sim:
  assumes "assign_dim_param p v global e = Some e'"
  shows "sim e (writes global (dim_in_eqtb p \<and> now (dim_params e) p = v) (LDim p) (VInt v)) e'"
proof (cases "dim_in_eqtb p")
  case True
  then show ?thesis using assms unfolding assign_dim_param_def Let_def
    by (auto simp: Option.bind_eq_Some_conv dest!: fetch_now dims.traced_slot)
next
  case False
  then show ?thesis using assms dims.plain_slot [of e p v global]
    by (auto simp: assign_dim_param_def Option.bind_eq_Some_conv)
qed

lemma define_glue_silent: "define_glue v e = (v', e') \<Longrightarrow> silent e e' \<and> e'\<lparr>next_spec := next_spec e\<rparr> = e"
  by (auto simp: define_glue_def fresh_spec_def split: if_splits)

lemma define_glue_keeps:
  assumes "define_glue v e = (v', e')"
  shows "silent e e'" "glue_params e' = glue_params e" "r_skip e' = r_skip e" "r_muskip e' = r_muskip e"
  using assms by (auto simp: define_glue_def fresh_spec_def split: if_splits)

lemma assign_glue_spec_sim:
  "assign_glue_spec p v global e = Some e' \<Longrightarrow> sim e (writes global (same_glue (now (glue_params e) p) v) (LGlue p) (VGlue v)) e'"
  unfolding assign_glue_spec_def by (auto simp: Option.bind_eq_Some_conv dest!: fetch_now glues.traced_slot)

definition new_glue :: "glue \<Rightarrow> 'n eqtb \<Rightarrow> glue" where
  "new_glue v e = fst (define_glue v e)"

lemma assign_glue_param_sim:
  assumes "assign_glue_param p v global e = Some e'"
  shows "sim e (writes global (same_glue (now (glue_params e) p) (new_glue v e)) (LGlue p) (VGlue (new_glue v e))) e'"
proof -
  obtain v' e1 where d: "define_glue v e = (v', e1)" by fastforce
  then have "assign_glue_spec p v' global e1 = Some e'" using assms by (simp add: assign_glue_param_def)
  from assign_glue_spec_sim [OF this] show ?thesis
    using silent_then [OF define_glue_keeps(1) [OF d]] define_glue_keeps(2) [OF d] by (simp add: new_glue_def d)
qed

lemma assign_preamble_tabskip_sim:
  assumes "assign_preamble_tabskip v global e = Some e'"
  defines "v' \<equiv> (if g_spec v = NO_SPEC then v\<lparr>g_spec := next_spec e\<rparr> else v)"
  shows "sim e (writes global (same_glue (now (glue_params e) TAB_SKIP) v') (LGlue TAB_SKIP) (VGlue v')) e'"
proof (cases "g_spec v = NO_SPEC")
  case True
  let ?e = "snd (fresh_spec e)"
  have s: "silent e ?e" "glue_params ?e = glue_params e" by (simp_all add: fresh_spec_def)
  have "assign_glue_spec TAB_SKIP v' global ?e = Some e'"
    using assms(1) True by (simp add: assign_preamble_tabskip_def v'_def fresh_spec_def)
  from assign_glue_spec_sim [OF this] show ?thesis using silent_then [OF s(1)] s(2) by simp
next
  case False
  then show ?thesis using assms(1) assign_glue_spec_sim [of TAB_SKIP v] by (simp add: assign_preamble_tabskip_def v'_def)
qed

lemma assign_toks_param_sim:
  "assign_toks_param p v global e = Some e' \<Longrightarrow> sim e (writes global (same_toks (now (tok_params e) p) v) (LToksP p) (VToks v)) e'"
  unfolding assign_toks_param_def by (auto simp: Option.bind_eq_Some_conv dest!: fetch_now toks_params.traced_slot)

subsection \<open>Registers and boxes\<close>

lemma assign_count_sim:
  "assign_count i v global e = Some e' \<Longrightarrow> sim e (writes global (now (r_count e) i = v) (LCount i) (VInt v)) e'"
  unfolding assign_count_def by (auto simp: Option.bind_eq_Some_conv dest!: fetch_now counts.traced_slot)

lemma assign_dimen_sim:
  "assign_dimen i v global e = Some e' \<Longrightarrow> sim e (writes global (now (r_dimen e) i = v) (LDimen i) (VInt v)) e'"
  unfolding assign_dimen_def by (auto simp: Option.bind_eq_Some_conv dest!: fetch_now dimens.traced_slot)

lemma assign_skip_sim:
  assumes "assign_skip i v global e = Some e'"
  shows "sim e (writes global (same_glue (now (r_skip e) i) (new_glue v e)) (LSkip i) (VGlue (new_glue v e))) e'"
proof -
  obtain v' e1 where d: "define_glue v e = (v', e1)" by fastforce
  then have "sim e1 (writes global (same_glue (now (r_skip e1) i) v') (LSkip i) (VGlue v')) e'"
    using assms unfolding assign_skip_def by (auto simp: Option.bind_eq_Some_conv dest!: fetch_now skips.traced_slot)
  then show ?thesis using silent_then [OF define_glue_keeps(1) [OF d]] define_glue_keeps(3) [OF d] by (simp add: new_glue_def d)
qed

lemma assign_muskip_sim:
  assumes "assign_muskip i v global e = Some e'"
  shows "sim e (writes global (same_glue (now (r_muskip e) i) (new_glue v e)) (LMuSkip i) (VGlue (new_glue v e))) e'"
proof -
  obtain v' e1 where d: "define_glue v e = (v', e1)" by fastforce
  then have "sim e1 (writes global (same_glue (now (r_muskip e1) i) v') (LMuSkip i) (VGlue v')) e'"
    using assms unfolding assign_muskip_def by (auto simp: Option.bind_eq_Some_conv dest!: fetch_now muskips.traced_slot)
  then show ?thesis using silent_then [OF define_glue_keeps(1) [OF d]] define_glue_keeps(4) [OF d] by (simp add: new_glue_def d)
qed

lemma assign_toks_reg_sim:
  "assign_toks_reg i v global e = Some e' \<Longrightarrow> sim e (writes global (same_toks (now (r_toks e) i) v) (LToks i) (VToks v)) e'"
  unfolding assign_toks_reg_def by (auto simp: Option.bind_eq_Some_conv dest!: fetch_now toks_regs.traced_slot)

lemma assign_local_box_sim: "assign_local_box i v e = Some e' \<Longrightarrow> sim e [Local (LBox i) (VBox v)] e'"
  using boxes.plain_slot [of e i v False] by (auto simp: assign_local_box_def Option.bind_eq_Some_conv)

lemma assign_box_sim:
  "assign_box i v global e = Some e' \<Longrightarrow> sim e (writes global (now (r_box e) i = None \<and> v = None) (LBox i) (VBox v)) e'"
  unfolding assign_box_def by (auto simp: Option.bind_eq_Some_conv dest!: fetch_now boxes.traced_slot)

text \<open>Changes that keep the save stack: in place, or at level one.\<close>

lemma kept_sim:
  assumes "view e' = (view e)(l := (v, k))" "k = snd (view e l) \<and> es = [Poke l v] \<or> k = LEVEL_ONE \<and> es = [Global l v]"
    "save_stack e' = save_stack e" "cur_level e' = cur_level e" "groups e' = groups e" "in_table e' = in_table e"
    "entries e' = entries e" "outer_entries e' = outer_entries e"
  shows "sim e es e'"
proof -
  have "item_in e' = item_in e" using assms(6) by (intro ext, case_tac x) auto
  then show ?thesis using assms by (auto simp: sim_def machine_def side_ok_def LEVEL_ONE_def)
qed

lemma dense_poke: "i < length (fst t) \<Longrightarrow> i < length (snd t) \<Longrightarrow>
   dense_view con d ((fst t)[i := v], snd t) = (dense_view con d t)(i := (con v, snd (dense_view con d t i)))"
  "i < length (fst t) \<Longrightarrow> i < length (snd t) \<Longrightarrow>
   dense_view con d ((fst t)[i := v], (snd t)[i := k]) = (dense_view con d t)(i := (con v, k))"
  "in_dense ((fst t)[i := v], snd t) = in_dense t" "in_dense ((fst t)[i := v], (snd t)[i := k]) = in_dense t"
  by (auto simp: dense_view_def in_dense_def fun_eq_iff nth_list_update)

lemma replace_box_sim:
  assumes "replace_box_value i v e = Some (old, e')" "in_table e (LBox i)"
  shows "sim e [Poke (LBox i) (VBox v)] e'"
proof (rule kept_sim)
  have i: "i < length (fst (r_box e))" "i < length (snd (r_box e))" using assms(2) by (simp_all add: in_dense_def)
  have e': "e' = e\<lparr>r_box := ((fst (r_box e))[i := v], snd (r_box e))\<rparr>" using assms(1) by (auto simp: replace_box_value_def Option.bind_eq_Some_conv)
  show "view e' = (view e)(LBox i := (VBox v, snd (view e (LBox i))))"
    unfolding e' boxes.view_get [OF TrueI] by (rule boxes.view_put [OF TrueI dense_poke(1) [OF i]])
  show "in_table e' = in_table e" unfolding e' by (rule boxes.in_put [OF TrueI dense_poke(3)])
qed (use assms in \<open>auto simp: replace_box_value_def Option.bind_eq_Some_conv\<close>)

lemma set_box_sim:
  assumes "set_box_untraced i v e = Some e'"
  shows "sim e [Global (LBox i) (VBox v)] e'"
proof (rule kept_sim)
  have i: "i < length (fst (r_box e))" "i < length (snd (r_box e))" using assms by (simp_all add: set_box_untraced_def split: if_splits)
  have e': "e' = e\<lparr>r_box := ((fst (r_box e))[i := v], (snd (r_box e))[i := LEVEL_ONE])\<rparr>" using assms by (auto simp: set_box_untraced_def split: if_splits)
  show "view e' = (view e)(LBox i := (VBox v, LEVEL_ONE))" unfolding e' by (rule boxes.view_put [OF TrueI dense_poke(2) [OF i]])
  show "in_table e' = in_table e" unfolding e' by (rule boxes.in_put [OF TrueI dense_poke(4)])
qed (use assms in \<open>auto simp: set_box_untraced_def split: if_splits\<close>)

lemma set_mode_sim:
  assumes "in_table e (LInt INTERACTION_MODE)"
  shows "sim e [Global (LInt INTERACTION_MODE) (VInt v)] (set_runtime_interaction_mode v e)"
proof -
  let ?e = "e\<lparr>int_params := ((fst (int_params e))[INTERACTION_MODE := v], (snd (int_params e))[INTERACTION_MODE := LEVEL_ONE])\<rparr>"
  have i: "INTERACTION_MODE < length (fst (int_params e))" "INTERACTION_MODE < length (snd (int_params e))"
    using assms by (simp_all add: in_dense_def)
  have "sim e [Global (LInt INTERACTION_MODE) (VInt v)] ?e"
  proof (rule kept_sim)
    show "view ?e = (view e)(LInt INTERACTION_MODE := (VInt v, LEVEL_ONE))" by (rule ints.view_put [OF TrueI dense_poke(2) [OF i]])
    show "in_table ?e = in_table e" by (rule ints.in_put [OF TrueI dense_poke(4)])
  qed simp_all
  from then_silent [OF this silent_pending] show ?thesis by (simp add: set_runtime_interaction_mode_def)
qed

lemma set_initial_glue_sim:
  assumes "set_initial_glue_param p v e = Some e'" "in_table e (LGlue p)"
  shows "sim e [Poke (LGlue p) (VGlue (new_glue v e))] e'"
proof -
  obtain v' e1 where d: "define_glue v e = (v', e1)" by fastforce
  note k = define_glue_keeps [OF d]
  have i: "p < length (fst (glue_params e1))" "p < length (snd (glue_params e1))" using assms(2) k(2) by (simp_all add: in_dense_def)
  have e': "e' = e1\<lparr>glue_params := ((fst (glue_params e1))[p := v'], snd (glue_params e1))\<rparr>"
    using assms(1) d by (auto simp: set_initial_glue_param_def split: if_splits)
  have "sim e1 [Poke (LGlue p) (VGlue v')] e'"
  proof (rule kept_sim)
    show "view e' = (view e1)(LGlue p := (VGlue v', snd (view e1 (LGlue p))))"
      unfolding e' glues.view_get [OF TrueI] by (rule glues.view_put [OF TrueI dense_poke(1) [OF i]])
    show "in_table e' = in_table e1" unfolding e' by (rule glues.in_put [OF TrueI dense_poke(3)])
  qed (simp_all add: e')
  then show ?thesis using silent_then [OF k(1)] by (simp add: new_glue_def d)
qed

subsection \<open>Fonts\<close>

lemma view_cur_font: "view (e\<lparr>cur_font_val := f, cur_font_level := k\<rparr>) = (view e)(LCurFont := (VNat f, k))"
  and in_cur_font [simp]: "in_table (e\<lparr>cur_font_val := f, cur_font_level := k\<rparr>) = in_table e"
  by (rule ext, case_tac x; simp add: live_table_def table_at_def)+

definition font_global :: "bool \<Rightarrow> 'n eqtb \<Rightarrow> bool" where
  "font_global global e = (if int_param e GLOBAL_DEFS \<noteq> 0 then \<not> int_param e GLOBAL_DEFS < 0 else global)"

lemma define_cur_font_sim:
  assumes "define_cur_font f global e = Some e'"
  shows "sim e (writes (font_global global e) (cur_font_val e = f) LCurFont (VNat f)) e'"
  using assms unfolding define_cur_font_def Let_def font_global_def [symmetric]
  by (rule traced_sim) (auto simp: stored_def push_save_def view_cur_font split: if_splits)

lemma assign_style_font_sim:
  assumes "assign_style_font s fam v global e = Some e'"
  shows "sim e (writes global (now (style_fonts e ! s) fam = v) (LStyle s fam) (VNat v)) e'"
  using assms unfolding assign_style_font_def
  by (auto simp: Option.bind_eq_Some_conv dest!: fetch_now styles.traced_slot split: if_splits)

end
