(* ===== verification/EqtbCodeOps.thy ===== *)
theory EqtbCodeOps
  imports EqtbOps
begin

text \<open>The effect of the operations on codes, catcode tables, attributes and font parameters.\<close>

subsection \<open>Bytes\<close>

lemma assign_cat_sim:
  assumes "assign_cat c v global e = Some e'"
  shows "sim e (writes global (now (cat e) c = v) (LCat (cat_current e) c) (VNat v)) e'"
proof -
  let ?store = "\<lambda>e. do { (t, st) \<leftarrow> slot (cat e) c v global (cur_level e) (save_stack e) (SvCat (cat_current e) c);
    Some (e\<lparr>cat := t, save_stack := st\<rparr>) }"
  have "traced global (now (cat e) c = v) (TsCat c) ?store e = Some e'"
    using assms unfolding assign_cat_def by (auto simp: Option.bind_eq_Some_conv dest!: fetch_now)
  then show ?thesis
    by (rule traced_sim) (auto simp: Option.bind_eq_Some_conv intro!: cat_now.stored_slot)
qed

lemma assign_math_code_sim:
  "assign_math_code c v global e = Some e' \<Longrightarrow> sim e (writes global (now (math_code e) c = v) (LMath c) (VNat v)) e'"
  unfolding assign_math_code_def by (auto simp: Option.bind_eq_Some_conv dest!: fetch_now math_codes.traced_slot)

lemma assign_del_code_sim:
  "assign_del_code c v global e = Some e' \<Longrightarrow> sim e (writes global (now (del_code e) c = v) (LDel c) (VInt v)) e'"
  unfolding assign_del_code_def by (auto simp: Option.bind_eq_Some_conv dest!: fetch_now del_codes.traced_slot)

lemma assign_lc_code_sim:
  "assign_lc_code c v global e = Some e' \<Longrightarrow> sim e (writes global (now (lc_code e) c = v) (LLc c) (VNat v)) e'"
  unfolding assign_lc_code_def by (auto simp: Option.bind_eq_Some_conv dest!: fetch_now lc_codes.traced_slot)

lemma assign_uc_code_sim:
  "assign_uc_code c v global e = Some e' \<Longrightarrow> sim e (writes global (now (uc_code e) c = v) (LUc c) (VNat v)) e'"
  unfolding assign_uc_code_def by (auto simp: Option.bind_eq_Some_conv dest!: fetch_now uc_codes.traced_slot)

subsection \<open>Space factor codes\<close>

lemma view_sf:
  "view (e\<lparr>sf_code := t, sf_class := cs\<rparr>) l = (case l of LSf c \<Rightarrow> sf_view t cs c | _ \<Rightarrow> view e l)"
  "in_table (e\<lparr>sf_code := t, sf_class := cs\<rparr>) l = (case l of LSf c \<Rightarrow> in_dense t c \<and> c < length cs | _ \<Rightarrow> in_table e l)"
  by (cases l; simp add: live_table_def table_at_def)+

lemma sf_view_update:
  assumes "c < length (fst t)" "c < length (snd t)" "c < length cs"
  shows "sf_view ((fst t)[c := v], (snd t)[c := k]) (cs[c := class]) =
    (sf_view t cs)(c := (VNat (pack_sf class v mod 4294967296), k))"
  using assms by (auto simp: sf_view_def fun_eq_iff nth_list_update)

lemma sf_update:
  fixes v k cl :: nat
  assumes "in_table e (LSf c)"
  defines "e' \<equiv> e\<lparr>sf_code := ((fst (sf_code e))[c := v], (snd (sf_code e))[c := k]), sf_class := (sf_class e)[c := cl]\<rparr>"
  shows "view e' = (view e)(LSf c := (VNat (pack_sf cl v mod 4294967296), k))" "in_table e' = in_table e"
proof -
  have c: "c < length (fst (sf_code e))" "c < length (snd (sf_code e))" "c < length (sf_class e)"
    using assms(1) by (simp_all add: in_dense_def)
  note u = sf_view_update [OF c, of v k cl]
  show "view e' = (view e)(LSf c := (VNat (pack_sf cl v mod 4294967296), k))"
    by (rule ext, case_tac x) (simp_all add: e'_def u live_table_def table_at_def)
  show "in_table e' = in_table e"
    by (rule ext, case_tac x) (simp_all add: e'_def in_dense_def live_table_def table_at_def)
qed

definition sf_now :: "'n eqtb \<Rightarrow> nat \<Rightarrow> nat" where
  "sf_now e c = pack_sf (sf_class e ! c) (fst (sf_code e) ! c)"

lemma assign_sf_entry_sim:
  assumes "assign_sf_entry c class v global e = Some e'"
  shows "sim e (writes global (sf_now e c = pack_sf class v) (LSf c) (VNat (pack_sf class v mod 4294967296))) e'"
proof -
  obtain vals levels where t: "sf_code e = (vals, levels)" by fastforce
  have c: "c < length (sf_class e)" "c < length vals" "c < length levels"
    using assms t by (auto simp: assign_sf_entry_def split: if_splits)
  have nw: "sf_now e c = pack_sf (sf_class e ! c) (vals ! c)" by (simp add: sf_now_def t)
  have in_sf: "in_table (e\<lparr>trace_events := tr\<rparr>) (LSf c)" for tr using c t by (simp add: in_dense_def)
  show ?thesis
  proof (rule traced_sim)
    show "traced global (sf_now e c = pack_sf class v) (TsSfCode c)
      (\<lambda>e1. Some (e1\<lparr>save_stack := (if \<not> global \<and> levels ! c < cur_level e1 then SvSfCode c (sf_now e c) (levels ! c) # save_stack e1
                                 else save_stack e1),
                   sf_code := (vals[c := v], levels[c := if global then LEVEL_ONE else cur_level e1]),
                   sf_class := (sf_class e1)[c := class]\<rparr>)) e = Some e'"
      using assms t c unfolding nw by (simp add: assign_sf_entry_def Let_def)
  next
    fix tr e2
    let ?e = "e\<lparr>trace_events := tr\<rparr>"
    let ?k = "if global then LEVEL_ONE else cur_level e"
    assume "Some (?e\<lparr>save_stack := (if \<not> global \<and> levels ! c < cur_level ?e then SvSfCode c (sf_now e c) (levels ! c) # save_stack ?e
                                 else save_stack ?e),
                   sf_code := (vals[c := v], levels[c := if global then LEVEL_ONE else cur_level ?e]),
                   sf_class := (sf_class ?e)[c := class]\<rparr>) = Some e2"
    then have e2: "e2 = (?e\<lparr>sf_code := (vals[c := v], levels[c := ?k]), sf_class := (sf_class e)[c := class]\<rparr>)
        \<lparr>save_stack := (if \<not> global \<and> levels ! c < cur_level e then SvSfCode c (sf_now e c) (levels ! c) # save_stack e
                       else save_stack e)\<rparr>" by (auto simp: if_distrib)
    note u = sf_update [OF in_sf [of tr], where v = v and k = ?k and cl = "class"]
    have l: "view ?e (LSf c) = (VNat (sf_now e c mod 4294967296), levels ! c)"
      using c t by (simp add: sf_view_def sf_now_def)
    show "stored (LSf c) (VNat (pack_sf class v mod 4294967296)) global ?e e2"
      using u in_sf [of tr] l unfolding stored_def e2 by (auto simp: t simp del: view.simps in_table.simps)
  qed
qed

lemma assign_sf_code_sim:
  assumes "assign_sf_code c v global e = Some e'"
  shows "sim e (writes global (sf_now e c = pack_sf (sf_class e ! c) v) (LSf c) (VNat (pack_sf (sf_class e ! c) v mod 4294967296))) e'"
  using assms assign_sf_entry_sim by (auto simp: assign_sf_code_def split: if_splits)

lemma assign_sparse_sf_sim:
  "assign_sparse_sf_entry c class v global e = Some e' \<Longrightarrow>
   sim e (writes global (sf_entry e c = pack_sf class v) (LUniSf c) (VNat (pack_sf class v))) e'"
  unfolding assign_sparse_sf_entry_def by (rule uni_sf.traced_slot, assumption) simp

definition sf_effect :: "nat \<Rightarrow> nat \<Rightarrow> nat \<Rightarrow> bool \<Rightarrow> 'n eqtb \<Rightarrow> (loc, 'n content) effect list" where
  "sf_effect c class v global e =
     (if c < 256 then writes global (sf_now e c = pack_sf class v) (LSf c) (VNat (pack_sf class v mod 4294967296))
      else writes global (sf_entry e c = pack_sf class v) (LUniSf c) (VNat (pack_sf class v)))"

lemma assign_space_factor_sim:
  assumes "assign_space_factor_code c v global e = Some e'"
  shows "sim e (sf_effect c (if c < 256 then sf_class e ! c else char_class e c) v global e) e'"
  using assms assign_sf_code_sim assign_sparse_sf_sim unfolding assign_space_factor_code_def sf_effect_def
  by (cases "c < 256") simp_all

lemma assign_char_class_sim:
  assumes "assign_char_class c class global e = Some e'"
  shows "sim e (sf_effect c class (space_factor_code e c) global e) e'"
  using assms assign_sf_entry_sim assign_sparse_sf_sim unfolding assign_char_class_def sf_effect_def Let_def
  by (cases "c < 256") simp_all

subsection \<open>All characters\<close>

definition cat_effect :: "nat \<Rightarrow> nat \<Rightarrow> bool \<Rightarrow> 'n eqtb \<Rightarrow> (loc, 'n content) effect list" where
  "cat_effect c v global e =
     (if c < 256 then writes global (now (cat e) c = v) (LCat (cat_current e) c) (VNat v)
      else writes global (cat_code e c = v) (LUniCat (cat_current e) c) (VNat v))"

lemma assign_cat_code_sim:
  assumes "assign_cat_code c v global e = Some e'"
  shows "sim e (cat_effect c v global e) e'"
proof (cases "c < 256")
  case True
  then show ?thesis using assms assign_cat_sim by (simp add: assign_cat_code_def cat_effect_def)
next
  case False
  then have "traced global (cat_code e c = v) (TsCat c)
    (\<lambda>e. let (m, st) = sparse_slot (unicode_cat_codes e) c v global (cur_level e) (save_stack e) (SvUnicodeCat (cat_current e) c)
         in Some (e\<lparr>unicode_cat_codes := m, save_stack := st\<rparr>)) e = Some e'"
    using assms by (simp add: assign_cat_code_def)
  then have "sim e (writes global (cat_code e c = v) (LUniCat (cat_current e) c) (VNat v)) e'"
    by (rule traced_sim) (auto split: prod.splits intro!: uni_cat_now.stored_slot)
  then show ?thesis using False by (simp add: cat_effect_def)
qed

definition math_effect :: "nat \<Rightarrow> nat \<Rightarrow> bool \<Rightarrow> 'n eqtb \<Rightarrow> (loc, 'n content) effect list" where
  "math_effect c v global e =
     (if c < 256 \<and> v < 65536 \<and> map_of (unicode_math_codes e) c = None
      then writes global (now (math_code e) c = v) (LMath c) (VNat v)
      else writes global (math_code_for e c = v) (LUniMath c) (VNat v))"

lemma assign_math_code_for_sim:
  "assign_math_code_for c v global e = Some e' \<Longrightarrow> sim e (math_effect c v global e) e'"
  unfolding assign_math_code_for_def math_effect_def
  by (cases "c < 256 \<and> v < 65536 \<and> map_of (unicode_math_codes e) c = None")
    (simp_all only: if_True if_False simp_thms assign_math_code_sim uni_math.traced_slot)

definition del_effect :: "nat \<Rightarrow> int \<Rightarrow> bool \<Rightarrow> 'n eqtb \<Rightarrow> (loc, 'n content) effect list" where
  "del_effect c v global e =
     (if c < 256 \<and> is_i32 v \<and> map_of (unicode_del_codes e) c = None
      then writes global (now (del_code e) c = v) (LDel c) (VInt v)
      else writes global (delimiter_code_for e c = v) (LUniDel c) (VInt v))"

lemma assign_delimiter_code_for_sim:
  "assign_delimiter_code_for c v global e = Some e' \<Longrightarrow> sim e (del_effect c v global e) e'"
  unfolding assign_delimiter_code_for_def del_effect_def
  by (cases "c < 256 \<and> is_i32 v \<and> map_of (unicode_del_codes e) c = None")
    (simp_all only: if_True if_False simp_thms assign_del_code_sim uni_del.traced_slot)

lemma assign_inter_char_toks_sim:
  assumes "assign_inter_char_toks c1 c2 v global e = Some e'"
  defines "same \<equiv> (case map_of (inter_char e) (inter_key c1 c2) of Some (t, _) \<Rightarrow> same_toks t v | None \<Rightarrow> snd v = [])"
  shows "sim e (writes global same (LInter (inter_key c1 c2)) (VToks v)) e'"
proof (rule inter.traced_slot)
  show "traced global same TsInterCharToks (\<lambda>e.
      let (m, st) = sparse_slot (inter_char e) (inter_key c1 c2) v global (cur_level e) (save_stack e) (SvInterCharToks (inter_key c1 c2))
      in Some (e\<lparr>inter_char := m, save_stack := st\<rparr>)) e = Some e'"
    using assms(1) by (simp add: assign_inter_char_toks_def same_def Let_def)
qed simp

lemma assign_xe_math_code_sim:
  "assign_xe_math_code c v global e = Some e' \<Longrightarrow> sim e (writes global (xe_math_code e c = v) (LLuaMath c) (VWord (word_of_int v))) e'"
  unfolding assign_xe_math_code_def by (rule lua_math.traced_slot, assumption) simp

lemma assign_xe_del_code_sim:
  "assign_xe_del_code c v global e = Some e' \<Longrightarrow> sim e (writes global (xe_del_code e c = v) (LUniDel c) (VInt v)) e'"
  unfolding assign_xe_del_code_def by (rule uni_del.traced_slot, assumption) simp

subsection \<open>Untraced tables\<close>

lemma assign_math_param_sim:
  "sim e (writes global False (LMathParam (style_key p s)) (VInt v)) (assign_math_param p s v global e)"
  unfolding assign_math_param_def by (auto split: prod.splits dest!: mparams.plain_slot [OF TrueI])

lemma assign_math_glue_param_sim:
  "sim e (writes global False (LMathGlue (style_key p s)) (VInts v)) (assign_math_glue_param p s v global e)"
  unfolding assign_math_glue_param_def by (auto split: prod.splits dest!: mglues.plain_slot [OF TrueI])

lemma assign_lua_math_code_sim:
  "sim e (writes global False (LLuaMath c) (VWord (pack_math class family code))) (assign_lua_math_code c class family code global e)"
  unfolding assign_lua_math_code_def by (auto split: prod.splits dest!: lua_math.plain_slot [OF TrueI])

lemma assign_lua_del_code_sim:
  "sim e (writes global False (LLuaDel c) (VWord (pack_del sf sc lf lc))) (assign_lua_del_code c sf sc lf lc global e)"
  unfolding assign_lua_del_code_def by (auto split: prod.splits dest!: lua_del.plain_slot [OF TrueI])

lemma refresh_silent: "silent e (refresh_cur_attr e)"
  by (auto simp: refresh_cur_attr_def Let_def split: prod.splits)

lemma assign_attribute_sim:
  "sim e (writes global False (LAttr n) (VInt v)) (assign_attribute n v global e)"
  unfolding assign_attribute_def
  by (auto split: prod.splits dest!: attrs.plain_slot [OF TrueI] intro: then_silent [OF _ refresh_silent])

end
