(* ===== verification/EqtbGroupOps.thy ===== *)
theory EqtbGroupOps
  imports EqtbCodeOps
begin

text \<open>The effect of case codes, catcode tables, font parameters, and of opening and closing a group.\<close>

subsection \<open>Case codes\<close>

definition case_effect :: "nat \<Rightarrow> nat \<Rightarrow> bool \<Rightarrow> bool \<Rightarrow> 'n eqtb \<Rightarrow> (loc, 'n content) effect list" where
  "case_effect c v uppercase global e =
     (let byte = (if v < 256 then v else 0)
      in if c < 256 then
           if uppercase then writes global (now (uc_code e) c = byte) (LUc c) (VNat byte)
           else writes global (now (lc_code e) c = byte) (LLc c) (VNat byte)
         else []) @
     (if c < 256 \<and> v < 256 \<and> map_of (unicode_case_codes e) (uppercase, c) = None then []
      else writes global False (LCase uppercase c) (VNat v))"

lemma traced_keeps_cases:
  assumes "traced global same ts store e = Some e'"
    "\<And>e1 e2. store e1 = Some e2 \<Longrightarrow> unicode_case_codes e2 = unicode_case_codes e1"
  shows "unicode_case_codes e' = unicode_case_codes e"
proof -
  obtain go e1 where b: "begin_assign global same ts e = (go, e1)" by fastforce
  then have k: "unicode_case_codes e1 = unicode_case_codes e"
    by (auto simp: begin_assign_def Let_def trace_def trace_with_def split: if_splits)
  show ?thesis using assms(1) b k
    by (cases go) (auto simp: traced_def end_assign_def trace_def trace_with_def dest!: assms(2))
qed

lemma byte_case_keeps:
  "assign_uc_code c v global e = Some e' \<Longrightarrow> unicode_case_codes e' = unicode_case_codes e"
  "assign_lc_code c v global e = Some e' \<Longrightarrow> unicode_case_codes e' = unicode_case_codes e"
  unfolding assign_uc_code_def assign_lc_code_def
  by (auto simp: Option.bind_eq_Some_conv elim!: traced_keeps_cases)

lemma assign_case_code_sim:
  assumes "assign_case_code c v uppercase global e = Some e'" "machine_ok (machine e)"
  shows "sim e (case_effect c v uppercase global e) e'"
proof -
  let ?byte = "if v < 256 then v else 0"
  let ?es = "if c < 256 then
       if uppercase then writes global (now (uc_code e) c = ?byte) (LUc c) (VNat ?byte)
       else writes global (now (lc_code e) c = ?byte) (LLc c) (VNat ?byte)
     else []"
  obtain e1 where e1: "(if c < 256 then if uppercase then assign_uc_code c ?byte global e else assign_lc_code c ?byte global e else Some e) = Some e1"
    using assms(1) by (auto simp: assign_case_code_def Let_def Option.bind_eq_Some_conv split: if_splits)
  have s1: "sim e ?es e1"
    using e1 assign_uc_code_sim assign_lc_code_sim silent_sim [OF silent_refl] by (auto split: if_splits)
  have k: "unicode_case_codes e1 = unicode_case_codes e" using e1 byte_case_keeps by (auto split: if_splits)
  let ?old = "map_of (unicode_case_codes e1) (uppercase, c)"
  show ?thesis
  proof (cases "c < 256 \<and> v < 256 \<and> ?old = None")
    case True
    then have "e' = e1" using assms(1) unfolding assign_case_code_def Let_def e1 by simp
    then show ?thesis using s1 True k by (cases uppercase) (simp_all add: case_effect_def Let_def)
  next
    case False
    have "machine e1 = fold act ?es (machine e)" using s1 by (simp only: sim_def)
    then have ok: "machine_ok (machine e1)" using acts_ok [OF assms(2)] by (simp only:)
    have lv: "snd (view e1 (LCase uppercase c)) \<le> cur_level e1" "1 \<le> cur_level e1" "1 \<le> snd (view e1 (LCase uppercase c))"
      using ok wf_level [of "view e1" "map saved_item (save_stack e1)" "cur_level e1" "LCase uppercase c"] by (simp_all add: machine_def)
    then have lv': "entry_level ?old \<le> cur_level e1" "1 \<le> entry_level ?old" by (simp_all add: sparse_view_def)
    have p: "(\<not> global \<and> cur_level e1 > LEVEL_ONE \<and> map_option snd ?old \<noteq> Some (cur_level e1)) \<longleftrightarrow> (\<not> global \<and> entry_level ?old < cur_level e1)"
      using lv' lv(2) by (cases ?old) (auto simp: entry_level_def LEVEL_ONE_def)
    obtain m st where ms: "sparse_slot (unicode_case_codes e1) (uppercase, c) v global (cur_level e1) (save_stack e1) (SvUnicodeCase uppercase c) = (m, st)"
      by fastforce
    have "e' = e1\<lparr>unicode_case_codes := m, save_stack := st\<rparr>"
    proof -
      have "e' = (let e2 = (if \<not> global \<and> cur_level e1 > LEVEL_ONE \<and> map_option snd ?old \<noteq> Some (cur_level e1)
                 then push_save (SvUnicodeCase uppercase c ?old) e1 else e1)
          in e2\<lparr>unicode_case_codes := AList.update (uppercase, c) (v, if global then LEVEL_ONE else cur_level e2) (unicode_case_codes e2)\<rparr>)"
        using assms(1) unfolding assign_case_code_def Let_def e1 using False by simp
      then show ?thesis using ms unfolding p by (auto simp: sparse_slot_def Let_def push_save_def)
    qed
    moreover have "sim e1 [if global then Global (LCase uppercase c) (VNat v) else Local (LCase uppercase c) (VNat v)] (e1\<lparr>unicode_case_codes := m, save_stack := st\<rparr>)"
      using cases.plain_slot [OF TrueI, of e1 "(uppercase, c)" v global m st] ms by (cases global) simp_all
    ultimately have "sim e (?es @ writes global False (LCase uppercase c) (VNat v)) e'" using sim_trans [OF s1] by simp
    then show ?thesis unfolding case_effect_def Let_def if_not_P [OF False [unfolded k]] .
  qed
qed

subsection \<open>Catcode tables\<close>

lemma view_catcodes:
  assumes "\<And>k. live_table e' k = live_table e k"
    and "\<And>l. l \<noteq> LCatTable \<Longrightarrow> (\<forall>k c. l \<noteq> LCat k c \<and> l \<noteq> LUniCat k c) \<Longrightarrow> view e' l = view e l"
    and "\<And>l. (\<forall>k c. l \<noteq> LCat k c) \<Longrightarrow> in_table e' l = in_table e l"
  shows "l \<noteq> LCatTable \<Longrightarrow> view e' l = view e l" "in_table e' l = in_table e l"
  using assms(1) assms(2) [of l] assms(3) [of l] by (cases l; simp)+

lemma switch_live: "live_table (switch_cat_table k e) j = live_table e j"
  by (auto simp: live_table_def switch_cat_table_def table_at_def update_conv' delete_conv' Let_def)

lemma switch_view: "view ((switch_cat_table k e)\<lparr>cat_current_level := n\<rparr>) = (view e)(LCatTable := (VInt k, n))"
  "in_table ((switch_cat_table k e)\<lparr>cat_current_level := n\<rparr>) = in_table e"
proof -
  let ?e = "(switch_cat_table k e)\<lparr>cat_current_level := n\<rparr>"
  have live: "live_table ?e j = live_table e j" for j
  proof -
    have "live_table ?e j = live_table (switch_cat_table k e) j" by (simp add: live_table_def table_at_def)
    then show ?thesis by (simp add: switch_live)
  qed
  show "view ?e = (view e)(LCatTable := (VInt k, n))"
    by (rule ext, case_tac x) (simp_all add: live, simp_all add: switch_cat_table_def Let_def)
  show "in_table ?e = in_table e"
    by (rule ext, case_tac x) (simp_all add: live, simp_all add: switch_cat_table_def Let_def)
qed

lemma switch_frame [simp]:
  "save_stack (switch_cat_table k e) = save_stack e" "cur_level (switch_cat_table k e) = cur_level e"
  "groups (switch_cat_table k e) = groups e" "entries (switch_cat_table k e) = entries e"
  "outer_entries (switch_cat_table k e) = outer_entries e" "cat_current_level (switch_cat_table k e) = cat_current_level e"
  "cat_current (switch_cat_table k e) = k"
  by (simp_all add: switch_cat_table_def Let_def)

lemma push_switch: "switch_cat_table k (push_save it e) = push_save it (switch_cat_table k e)"
  by (auto simp: switch_cat_table_def push_save_def table_at_def Let_def)

lemma assign_cat_table_sim:
  fixes e :: "'a eqtb"
  shows "sim e (if k = cat_current e then [] else writes global False LCatTable (VInt k)) (assign_cat_table k global e)"
proof (cases "k = cat_current e")
  case True
  then show ?thesis using silent_sim [OF silent_refl] by (simp add: assign_cat_table_def)
next
  case False
  let ?n = "if global then LEVEL_ONE else cur_level e"
  have push_level [simp]: "(push_save it e1)\<lparr>cat_current_level := n\<rparr> = push_save it (e1\<lparr>cat_current_level := n\<rparr>)" for it n and e1 :: "'a eqtb"
    by (simp add: push_save_def)
  have keep [simp]: "cur_level (push_save it e1) = cur_level e1" for it and e1 :: "'a eqtb" by (simp add: push_save_def)
  let ?e = "(switch_cat_table k e)\<lparr>cat_current_level := ?n\<rparr>"
  have a: "assign_cat_table k global e =
    (if \<not> global \<and> cat_current_level e < cur_level e then push_save (SvCatCodeTable (cat_current e) (cat_current_level e)) ?e else ?e)"
    using False by (auto simp: assign_cat_table_def Let_def push_switch)
  have "stored LCatTable (VInt k) global e (assign_cat_table k global e)"
    unfolding stored_def a using switch_view [where k = k and e = e and n = ?n] by (auto simp: push_save_def)
  from stored_sim [OF this] show ?thesis using False by simp
qed

text \<open>A table is replaced as a whole: a global assignment of each of its codes.\<close>

lemma fold_globals:
  "fold act (map (\<lambda>l. Global l (w l)) ls) (v, st, n) = (\<lambda>l. if l \<in> set ls then (w l, 1) else v l, st, n)"
  by (induction ls arbitrary: v) (auto simp: fun_eq_iff)

definition table_locs :: "int \<Rightarrow> cat_table \<Rightarrow> 'n eqtb \<Rightarrow> loc list" where
  "table_locs k t e =
     map (LCat k) [0..<max (length (fst (ct_cat (table_at e k)))) (length (fst (ct_cat t)))] @
     map (LUniCat k) (map fst (ct_unicode (table_at e k)) @ map fst (ct_unicode t))"

definition table_effect :: "int \<Rightarrow> cat_table \<Rightarrow> 'n eqtb \<Rightarrow> (loc, 'n content) effect list" where
  "table_effect k t e =
     (if k = cat_current e then []
      else map (\<lambda>l. Global l (fst (view (e\<lparr>cat_tables := AList.update k t (cat_tables e)\<rparr>) l))) (table_locs k t e))"

lemma replace_table_sim:
  assumes "\<And>c. snd (dense_view VNat VNone (ct_cat t) c :: 'n content \<times> nat) = LEVEL_ONE"
    "\<And>c. snd (sparse_view VNat (ct_unicode t) c :: 'n content \<times> nat) = LEVEL_ONE"
    "\<And>c. in_dense (ct_cat (table_at e k)) c \<Longrightarrow> in_dense (ct_cat t) c"
  shows "sim (e :: 'n eqtb) (table_effect k t e) (e\<lparr>cat_tables := AList.update k t (cat_tables e)\<rparr>)"
proof -
  let ?e = "e\<lparr>cat_tables := AList.update k t (cat_tables e)\<rparr>"
  have live: "live_table ?e j = (if j = k \<and> k \<noteq> cat_current e then (ct_cat t, ct_unicode t) else live_table e j)" for j
    by (auto simp: live_table_def table_at_def update_conv')
  have other: "view ?e l = view e l" if "l \<notin> LCat k ` UNIV \<union> LUniCat k ` UNIV \<or> k = cat_current e" for l
    using that by (cases l) (auto simp: live)
  have other_in: "in_table e l \<Longrightarrow> in_table ?e l" for l
    using assms(3) by (cases l) (auto simp: live live_table_def table_at_def update_conv' split: if_splits)
  have m: "machine ?e = fold act (table_effect k t e) (machine e)"
  proof (cases "k = cat_current e")
    case True
    then show ?thesis using other by (auto simp: machine_def table_effect_def fun_eq_iff)
  next
    case False
    have "view ?e l = (if l \<in> set (table_locs k t e) then (fst (view ?e l), 1) else view e l)" for l
    proof (cases "l \<in> LCat k ` UNIV \<union> LUniCat k ` UNIV")
      case True
      then show ?thesis
      proof
        assume "l \<in> range (LCat k)"
        then obtain c where l: "l = LCat k c" by blast
        have "view ?e l = dense_view VNat VNone (ct_cat t) c" "view e l = dense_view VNat VNone (ct_cat (table_at e k)) c"
          using False by (simp_all add: l live) (simp add: live_table_def)
        then show ?thesis using assms(1) [of c] by (auto simp: l table_locs_def dense_view_def LEVEL_ONE_def prod_eq_iff)
      next
        assume "l \<in> range (LUniCat k)"
        then obtain c where l: "l = LUniCat k c" by blast
        have v: "view ?e l = sparse_view VNat (ct_unicode t) c" "view e l = sparse_view VNat (ct_unicode (table_at e k)) c"
          using False by (simp_all add: l live) (simp add: live_table_def)
        show ?thesis
        proof (cases "l \<in> set (table_locs k t e)")
          case True
          then show ?thesis using v assms(2) [of c] by (simp add: LEVEL_ONE_def prod_eq_iff)
        next
          case no: False
          then have "map_of (ct_unicode t) c = None" "map_of (ct_unicode (table_at e k)) c = None"
            by (auto simp: l table_locs_def map_of_eq_None_iff image_iff)
          then show ?thesis using v no by (simp add: sparse_view_def)
        qed
      qed
    next
      case no: False
      then have "l \<notin> set (table_locs k t e)" by (auto simp: table_locs_def)
      then show ?thesis using other [of l] no by simp
    qed
    then show ?thesis using False by (simp add: machine_def table_effect_def fold_globals fun_eq_iff)
  qed
  have "\<forall>l. in_table e l \<longrightarrow> in_table ?e l" using other_in by blast
  moreover have "follow (table_effect k t e) (groups e) (groups ?e)" by (simp add: table_effect_def follow_globals)
  ultimately show ?thesis using m by (auto simp: sim_def side_ok_def intro: items_in_mono)
qed

lemma init_cat_table_sim:
  assumes "\<And>c. in_dense (ct_cat (table_at e k)) c \<Longrightarrow> c < 256"
  shows "sim e (table_effect k table_initex e) (init_cat_table k e)"
  unfolding init_cat_table_def
proof (rule replace_table_sim)
  show "in_dense (ct_cat table_initex) c" if "in_dense (ct_cat (table_at e k)) c" for c
    using assms [OF that] by (simp add: in_dense_def table_initex_def coded_def)
qed (auto simp: table_initex_def coded_def dense_view_def sparse_view_def entry_level_def LEVEL_ONE_def)

lemma save_cat_table_sim:
  assumes "\<And>c. in_dense (ct_cat (table_at e k)) c \<Longrightarrow> c < length (fst (cat e))"
  defines "t \<equiv> \<lparr>ct_cat = (fst (cat e), replicate (length (fst (cat e))) LEVEL_ONE),
     ct_unicode = map (\<lambda>(c, v, _). (c, v, LEVEL_ONE)) (unicode_cat_codes e), ct_valid = True\<rparr>"
  shows "sim e (table_effect k t e) (save_cat_table k e)"
proof -
  have one: "entry_level (map_of (map (\<lambda>(c, v, _). (c, v, LEVEL_ONE)) m) c) = LEVEL_ONE" for m :: "(nat, nat) sparse" and c
    by (induction m) (auto simp: entry_level_def)
  have "sim e (table_effect k t e) (e\<lparr>cat_tables := AList.update k t (cat_tables e)\<rparr>)"
    by (rule replace_table_sim)
      (auto simp: t_def dense_view_def sparse_view_def one in_dense_def dest!: assms(1) [unfolded in_dense_def, OF conjI])
  then show ?thesis by (simp add: save_cat_table_def t_def Let_def)
qed

lemma assign_cat_code_in_sim:
  assumes "assign_cat_code_in k c v global e = Some e'"
  shows "sim e (if k = cat_current e then cat_effect c v global e
    else writes global False (if c < 256 then LCat k c else LUniCat k c) (VNat v)) e'"
proof (cases "k = cat_current e")
  case True
  then show ?thesis using assms assign_cat_code_sim by (simp add: assign_cat_code_in_def)
next
  case False
  then have ne: "cat_current e \<noteq> k" by simp
  show ?thesis
  proof (cases "c < 256")
    case True
    then obtain d st where s: "slot (ct_cat (table_at e k)) c v global (cur_level e) (save_stack e) (SvCat k c) = Some (d, st)"
      "e' = e\<lparr>cat_tables := AList.update k ((table_at e k)\<lparr>ct_cat := d\<rparr>) (cat_tables e), save_stack := st\<rparr>"
      using assms False by (auto simp: assign_cat_code_in_def Let_def Option.bind_eq_Some_conv)
    then show ?thesis using True False cat_parked.plain_slot [OF ne s(1)] by simp
  next
    case big: False
    obtain m st where s: "sparse_slot (ct_unicode (table_at e k)) c v global (cur_level e) (save_stack e) (SvUnicodeCat k c) = (m, st)"
      by fastforce
    moreover from this have "e' = e\<lparr>cat_tables := AList.update k ((table_at e k)\<lparr>ct_unicode := m\<rparr>) (cat_tables e), save_stack := st\<rparr>"
      using assms False big by (simp add: assign_cat_code_in_def Let_def)
    ultimately show ?thesis using big False uni_cat_parked.plain_slot [OF ne s] by simp
  qed
qed

subsection \<open>Fonts, assigned globally\<close>

lemma view_fonts:
  "view (e\<lparr>font_params := ts\<rparr>) l = (case l of LFontParam f i \<Rightarrow> nested_view VInt (VInt 0) ts f i | _ \<Rightarrow> view e l)"
  "view (e\<lparr>hyphen_char := t\<rparr>) l = (case l of LHyphen f \<Rightarrow> dense_view VInt VNone t f | _ \<Rightarrow> view e l)"
  "view (e\<lparr>skew_char := t\<rparr>) l = (case l of LSkew f \<Rightarrow> dense_view VInt VNone t f | _ \<Rightarrow> view e l)"
  "in_table (e\<lparr>font_params := ts\<rparr>) l = in_table e l" "in_table (e\<lparr>hyphen_char := t\<rparr>) l = in_table e l"
  "in_table (e\<lparr>skew_char := t\<rparr>) l = in_table e l"
  by (cases l; simp add: live_table_def table_at_def)+

lemma assign_hyphen_char_sim:
  fixes e :: "'n eqtb"
  assumes "assign_hyphen_char f v True e = Some e'"
  shows "sim e [Global (LHyphen f) (VInt v)] e'"
proof -
  obtain t st where s: "slot (hyphen_char e) f v True (cur_level e) (save_stack e) (SvHyphenChar f) = Some (t, st)"
    "e' = e\<lparr>hyphen_char := t, save_stack := st\<rparr>" using assms by (auto simp: assign_hyphen_char_def Option.bind_eq_Some_conv)
  note c = slot_cases(2,4) [OF s(1), of "VInt :: int \<Rightarrow> 'n content" VNone]
  show ?thesis
    by (rule kept_sim [where k = LEVEL_ONE]) (use s(2) c in \<open>auto simp: view_fonts fun_eq_iff split: loc.split\<close>)
qed

lemma assign_skew_char_sim:
  fixes e :: "'n eqtb"
  assumes "assign_skew_char f v True e = Some e'"
  shows "sim e [Global (LSkew f) (VInt v)] e'"
proof -
  obtain t st where s: "slot (skew_char e) f v True (cur_level e) (save_stack e) (SvSkewChar f) = Some (t, st)"
    "e' = e\<lparr>skew_char := t, save_stack := st\<rparr>" using assms by (auto simp: assign_skew_char_def Option.bind_eq_Some_conv)
  note c = slot_cases(2,4) [OF s(1), of "VInt :: int \<Rightarrow> 'n content" VNone]
  show ?thesis
    by (rule kept_sim [where k = LEVEL_ONE]) (use s(2) c in \<open>auto simp: view_fonts fun_eq_iff split: loc.split\<close>)
qed

lemma assign_font_param_sim:
  fixes e :: "'n eqtb"
  assumes "assign_font_param f i v True e = Some e'" "length (fst (font_params e ! f)) = length (snd (font_params e ! f))"
  shows "sim e [Global (LFontParam f i) (VInt v)] e'"
proof -
  obtain vals levels where t: "font_params e ! f = (vals, levels)" by fastforce
  define t0 where "t0 = (if length vals \<le> i then (resized i 0 vals, take (i + 1) (resized i LEVEL_ONE levels)) else (vals, levels))"
  obtain t1 st where s: "slot t0 i v True (cur_level e) (save_stack e) (SvFontParam f i) = Some (t1, st)"
    "e' = e\<lparr>font_params := (font_params e)[f := t1], save_stack := st\<rparr>" and f: "f < length (font_params e)"
    using assms(1) t by (auto simp: assign_font_param_def t0_def Let_def Option.bind_eq_Some_conv split: if_splits)
  have r: "dense_view VInt (VInt 0) t0 = (dense_view VInt (VInt 0) (vals, levels) :: nat \<Rightarrow> 'n content \<times> nat)"
    using assms(2) t by (rule_tac ext) (auto simp: t0_def dense_view_def resized_def nth_append LEVEL_ONE_def)
  note c = slot_cases(2,4) [OF s(1), of "VInt :: int \<Rightarrow> 'n content" "VInt 0"]
  show ?thesis
    by (rule kept_sim [where k = LEVEL_ONE])
      (use s(2) c f t r in \<open>auto simp: view_fonts fun_eq_iff nested_view_def nth_list_update split: loc.split\<close>)
qed

end
