(* ===== verification/EqtbScopes.thy ===== *)
theory EqtbScopes
  imports EqtbGroupOps
begin

text \<open>
  Grouping: the table of equivalents with its save stack implements a chain of scopes, a group's end restores what the
  group did not assign globally, and unwinding never indexes out of range.
\<close>

subsection \<open>Opening a group\<close>

lemma push_save_sim:
  assumes "saved_item it = Mark"
  shows "sim e [Note] (push_save it e)"
proof -
  have "level_marks (it # save_stack e) = level_marks (save_stack e)" using assms by (cases it) auto
  then show ?thesis using assms
    by (auto simp: sim_def machine_def side_ok_def push_save_def intro: items_in_mono)
qed

lemma push_level_sim:
  assumes "cur_level e < MAX_GROUP_LEVEL"
  shows "sim e [Open] (push_level_with ty meta line e)"
proof -
  let ?e1 = "if 0 < int_param e TRACING_GROUPS then trace_group False (gm_code meta) (cur_level e) line e else e"
  let ?g = "\<lparr>gr_meta = meta, gr_line = line, gr_ty = ty, gr_boundary = length (save_stack ?e1)\<rparr>"
  have s: "silent e ?e1" by simp
  have e': "push_level_with ty meta line e =
    push_save (SvLevel (cur_level ?e1 + 1) ty) (?e1\<lparr>groups := ?g # groups ?e1, cur_level := cur_level ?e1 + 1\<rparr>)"
    using assms by (simp add: push_level_with_def Let_def del: split_paired_All)
  have "sim ?e1 [Open] (push_save (SvLevel (cur_level ?e1 + 1) ty) (?e1\<lparr>groups := ?g # groups ?e1, cur_level := cur_level ?e1 + 1\<rparr>))"
    by (auto simp: sim_def machine_def side_ok_def push_save_def intro: items_in_mono simp del: if_split_asm)
  from silent_then [OF s this] show ?thesis unfolding e' .
qed

subsection \<open>Undoing one item\<close>

lemma unsave_eq_undone: "undone (LEq cs) (VEq old) ol e (unsave_eq cs old ol e)"
proof -
  let ?e = "ensure_entry cs e"
  let ?en = "entries ?e ! cs"
  obtain en' outers where es: "entry_set old ?en (outer_entries ?e) = (en', outers)" by fastforce
  let ?e' = "if LEVEL_ONE < en_level ?en then ?e\<lparr>entries := (entries ?e)[cs := en'\<lparr>en_level := ol\<rparr>], outer_entries := outers\<rparr> else ?e"
  have u: "unsave_eq cs old ol e = trace_restore (LEVEL_ONE < en_level ?en) (TsEq cs) ?e'"
    by (simp add: unsave_eq_def Let_def es)
  have len: "cs < length (entries ?e)" by (rule ensure_entry_sim(2))
  have v0: "view ?e = view e" "in_table ?e = in_table e" by (simp_all add: ensure_entry_def view_entries_same)
  have f0: "save_stack ?e = save_stack e" "cur_level ?e = cur_level e" "groups ?e = groups e" by (simp_all add: ensure_entry_def)
  have o0: "outer_ok (entries e) (outer_entries e) \<Longrightarrow> outer_ok (entries ?e) (outer_entries ?e)"
    by (simp add: ensure_entry_def outer_ok_resized)
  have lv: "snd (view e (LEq cs)) = en_level ?en" using len unfolding v0(1) [symmetric] by (simp add: eq_view_def)
  have "undone (LEq cs) (VEq old) ol e ?e'"
  proof (cases "LEVEL_ONE < en_level ?en")
    case False
    then show ?thesis using v0 f0 o0 lv by (simp add: undone_def)
  next
    case True
    note ok = entry_set_ok(1) [OF _ len es, of ol] and en = entry_set_ok(2) [OF _ len es]
    have "en_equiv en' = old" using es by (auto simp: entry_set_def Let_def)
    then have "view (?e\<lparr>entries := (entries ?e)[cs := en'\<lparr>en_level := ol\<rparr>]\<rparr>) = (view ?e)(LEq cs := (VEq old, ol))"
      using eq_view_update [OF len, of "en'\<lparr>en_level := ol\<rparr>"] by (intro view_entries_upd) simp
    then show ?thesis using True v0 f0 o0 lv ok by (simp add: undone_def)
  qed
  from undone_silent [OF this silent_trace(6)] show ?thesis unfolding u .
qed

lemmas undo_sparse =
  uni_math.undone_sparse uni_del.undone_sparse uni_sf.undone_sparse inter.undone_sparse attrs.undone_sparse
  mparams.undone_sparse mglues.undone_sparse lua_math.undone_sparse lua_del.undone_sparse

lemma undone_traced [simp]: "undone l v k e e1 \<Longrightarrow> undone l v k e (trace_restore r ts e1)"
  by (rule undone_silent [OF _ silent_trace(6)])

lemmas undo_dense =
  glues.undone_arm [OF _ TrueI] toks_params.undone_arm [OF _ TrueI] counts.undone_arm [OF _ TrueI] dimens.undone_arm [OF _ TrueI]
  skips.undone_arm [OF _ TrueI] muskips.undone_arm [OF _ TrueI] toks_regs.undone_arm [OF _ TrueI] boxes.undone_arm [OF _ TrueI]
  math_codes.undone_arm [OF _ TrueI] del_codes.undone_arm [OF _ TrueI] lc_codes.undone_arm [OF _ TrueI] uc_codes.undone_arm [OF _ TrueI]

lemma undone_nothing: "snd (view e l) \<le> LEVEL_ONE \<Longrightarrow> undone l v k e e"
  by (simp add: undone_def)

lemma undone_cat:
  assumes "unsave (SvCat k c v l) e = Some e'"
  shows "undone (LCat k c) (VNat v) l e e'"
proof (cases "k = cat_current e")
  case True
  then show ?thesis using assms cat_now.undone_slot [of e k c v l] by (auto simp: Option.bind_eq_Some_conv)
next
  case False
  then have ne: "cat_current e \<noteq> k" by simp
  show ?thesis
  proof (cases "map_of (cat_tables e) k")
    case None
    then have "snd (view e (LCat k c)) \<le> LEVEL_ONE"
      using False by (auto simp: live_table_def table_at_def table_blank_def dense_view_def coded_def)
    then have "undone (LCat k c) (VNat v) l e e" by (rule undone_nothing)
    then show ?thesis using assms None False by simp
  next
    case (Some tab)
    then have tab: "table_at e k = tab" by (simp add: table_at_def)
    then show ?thesis using assms Some False cat_parked.undone_slot [OF ne, of c v l] by (auto simp: Option.bind_eq_Some_conv)
  qed
qed

lemma undone_uni_cat:
  assumes "unsave (SvUnicodeCat k c old) e = Some e'"
  shows "undone (LUniCat k c) (saved_content VNat old) (entry_level old) e e'"
proof (cases "k = cat_current e")
  case True
  then show ?thesis using assms uni_cat_now.undone_sparse [of e k c old] by auto
next
  case False
  then have ne: "cat_current e \<noteq> k" by simp
  show ?thesis
  proof (cases "map_of (cat_tables e) k")
    case None
    then have "snd (view e (LUniCat k c)) \<le> LEVEL_ONE"
      using False by (simp add: live_table_def table_at_def table_blank_def sparse_view_def entry_level_def)
    then have "undone (LUniCat k c) (saved_content VNat old) (entry_level old) e e" by (rule undone_nothing)
    then show ?thesis using assms None False by simp
  next
    case (Some tab)
    then have tab: "table_at e k = tab" by (simp add: table_at_def)
    then show ?thesis using assms Some False uni_cat_parked.undone_sparse [OF ne, of c old] by auto
  qed
qed

lemma undone_sf:
  assumes "unsave (SvSfCode c v l) e = Some e'" "in_table e (LSf c)"
  shows "undone (LSf c) (VNat (v mod 4294967296)) l e e'"
proof -
  obtain t r where r: "restore_slot (sf_code e) c (v mod 65536) l = Some (t, r)" using assms(1) by (auto simp: Option.bind_eq_Some_conv)
  have c: "c < length (fst (sf_code e))" "c < length (snd (sf_code e))" "c < length (sf_class e)" using assms(2) by (simp_all add: in_dense_def)
  have lv: "snd (view e (LSf c)) = snd (sf_code e) ! c" using c by (simp add: sf_view_def)
  have r': "r \<longleftrightarrow> LEVEL_ONE < snd (sf_code e) ! c"
    "r \<Longrightarrow> t = ((fst (sf_code e))[c := v mod 65536], (snd (sf_code e))[c := l])"
    using r c by (auto simp: restore_slot_def split: prod.splits if_splits)
  show ?thesis
  proof (cases r)
    case True
    have "pack_sf (v div 65536 mod 65536) (v mod 65536) mod 4294967296 = v mod 4294967296"
    proof -
      have "v mod (65536 * 65536) = 65536 * (v div 65536 mod 65536) + v mod 65536" by (rule mod_mult2_eq)
      then have "pack_sf (v div 65536 mod 65536) (v mod 65536) = v mod 4294967296" by (simp add: pack_sf_def)
      then show ?thesis by (simp only: mod_mod_trivial)
    qed
    then have "undone (LSf c) (VNat (v mod 4294967296)) l e (e\<lparr>sf_code := t, sf_class := (sf_class e)[c := v div 65536 mod 65536]\<rparr>)"
      using sf_update [OF assms(2), where v = "v mod 65536" and k = l and cl = "v div 65536 mod 65536"] r' True lv by (simp add: undone_def)
    then show ?thesis using assms(1) r True c by auto
  next
    case False
    then have "undone (LSf c) (VNat (v mod 4294967296)) l e e" using lv r' by (intro undone_nothing) simp
    then show ?thesis using assms(1) r False by auto
  qed
qed

lemma undone_case:
  "undone (LCase u c) (saved_content VNat old) (entry_level old) e (e\<lparr>unicode_case_codes := restore_sparse (unicode_case_codes e) (u, c) old\<rparr>)"
  using cases.undone_sparse [OF TrueI, of "(u, c)" old e] by simp

lemma undone_style:
  assumes "unsave (SvStyleFont s f v l) e = Some e'"
  shows "undone (LStyle s f) (VNat v) l e e'"
  using assms styles.undone_slot [of s e f v l] by (auto simp: Option.bind_eq_Some_conv split: if_splits)

lemma undone_cur_font:
  "undone LCurFont (VNat old) ol e (if LEVEL_ONE < cur_font_level e then e\<lparr>cur_font_val := old, cur_font_level := ol\<rparr> else e)"
  by (simp add: undone_def view_cur_font)

lemma undone_cat_table:
  "undone LCatTable (VInt k) l e (if LEVEL_ONE < cat_current_level e then (switch_cat_table k e)\<lparr>cat_current_level := l\<rparr> else e)"
  by (simp add: undone_def switch_view)

lemma unsave_undone:
  assumes "unsave it e = Some e'" "saved_item it = Saved l v k" "in_table e l"
  shows "undone l v k e e'"
proof (cases it)
  case (SvIntParam i w n)
  then obtain t r where r: "restore_slot (int_params e) i w n = Some (t, r)" using assms(1) by (auto simp: Option.bind_eq_Some_conv Let_def)
  let ?p = "if r \<and> i = INTERACTION_MODE then Some w else pending_mode e"
  have "undone (LInt i) (VInt w) n e (e\<lparr>int_params := t, pending_mode := ?p\<rparr>)"
    using undone_silent [OF ints.undone_slot [OF TrueI r] silent_pending] by simp
  then show ?thesis using assms(1,2) SvIntParam r by (auto simp: Let_def)
next
  case (SvDimParam i w n)
  then show ?thesis using assms(1,2) dims.undone_slot [OF TrueI, of e i w n] by (auto simp: Option.bind_eq_Some_conv Let_def)
next
  case (SvLuaMathCode c old)
  have "undone (LLuaMath c) (saved_content VWord old) (entry_level old) e (e\<lparr>lua_math_codes := restore_sparse (lua_math_codes e) c old\<rparr>)"
    by (rule lua_math.undone_sparse [OF TrueI])
  then show ?thesis using assms(1,2) SvLuaMathCode by (auto simp: Let_def)
next
  case (SvAttribute n old)
  then show ?thesis using assms(1,2) undone_silent [OF attrs.undone_sparse [OF TrueI] refresh_silent] by auto
next
  case (SvCat j c w n)
  then show ?thesis using undone_cat assms by (auto simp del: unsave.simps)
next
  case (SvSfCode c w n)
  then show ?thesis using undone_sf assms by (auto simp del: unsave.simps in_table.simps)
next
  case (SvUnicodeCat j c old)
  then show ?thesis using undone_uni_cat assms by (auto simp del: unsave.simps)
next
  case (SvStyleFont s f w n)
  then show ?thesis using undone_style assms by (auto simp del: unsave.simps)
next
  case (SvCurFont w n)
  then show ?thesis using assms undone_cur_font [of w n e] by (auto simp: Let_def)
next
  case (SvCatCodeTable j n)
  then show ?thesis using assms undone_cat_table [of j n e] by auto
qed (use assms in \<open>auto simp: undo_sparse [OF TrueI] undone_case unsave_eq_undone dest!: undo_dense\<close>)

end
