(* ===== verification/EqtbRuns.thy ===== *)
theory EqtbRuns
  imports EqtbScopes
begin

text \<open>
  Closing a group, the steps of the table of equivalents, and what every run of them keeps: the chain of scopes, the
  restoration at a group's end, the open groups, the count of outer macros, and that unwinding never fails.
\<close>

subsection \<open>Closing a group\<close>

lemma restore_bind: "in_dense tab j \<Longrightarrow> \<exists>y. restore_slot tab j w n \<bind> (\<lambda>(t, r). Some (f t r)) = Some y"
  using restore_slot_in [of tab j w n] by auto

lemma restore_some: "in_dense tab j \<Longrightarrow> \<exists>t r. restore_slot tab j w n = Some (t, r)"
  using restore_slot_in [of tab j w n] by auto

lemma unsave_total:
  assumes "item_in e (saved_item it)" "saved_item it = Saved l v k"
  shows "\<exists>e'. unsave it e = Some e'"
proof (cases it)
  case (SvIntParam j w n)
  then show ?thesis using assms restore_some [of "int_params e" j w n] by (auto simp: Let_def)
next
  case (SvDimParam j w n)
  then show ?thesis using assms restore_some [of "dim_params e" j w n] by (auto simp: Let_def)
next
  case (SvCat c j w n)
  then show ?thesis using assms by (auto simp: live_table_def table_at_def restore_bind split: option.splits)
next
  case (SvSfCode c w n)
  then show ?thesis using assms restore_some [of "sf_code e" c "w mod 65536" n] by auto
qed (use assms in \<open>auto simp: Let_def restore_bind split: option.splits\<close>)

lemma leave_level_frame [simp]:
  "view (leave_level n e) = view e" "in_table (leave_level n e) = in_table e" "save_stack (leave_level n e) = save_stack e"
  "cur_level (leave_level n e) = n - 1" "groups (leave_level n e) = tl (groups e)" "entries (leave_level n e) = entries e"
  "outer_entries (leave_level n e) = outer_entries e"
  by (cases "groups e"; simp add: leave_level_def Let_def trace_group_def trace_text_def)+

definition popped :: "'n save_item list \<Rightarrow> 'n eqtb \<Rightarrow> level_type \<Rightarrow> 'n eqtb \<Rightarrow> bool" where
  "popped items e ty e' \<longleftrightarrow>
     (view e', map saved_item (save_stack e'), cur_level e') = unwind (view e) (map saved_item items) (cur_level e) \<and>
     in_table e' = in_table e \<and> (\<exists>pre. items = pre @ save_stack e') \<and>
     (outer_ok (entries e) (outer_entries e) \<longrightarrow> outer_ok (entries e') (outer_entries e')) \<and>
     level_marks (save_stack e') = tl (level_marks items) \<and>
     (case level_marks items of [] \<Rightarrow> groups e' = groups e | (t, _) # _ \<Rightarrow> groups e' = tl (groups e) \<and> ty = t)"

lemma popped_skip:
  assumes "popped items e1 ty e'" "level_marks (it # items) = level_marks items" "in_table e1 = in_table e" "groups e1 = groups e"
    "cur_level e1 = cur_level e" "outer_ok (entries e) (outer_entries e) \<longrightarrow> outer_ok (entries e1) (outer_entries e1)"
    "unwind (view e) (saved_item it # map saved_item items) (cur_level e) = unwind (view e1) (map saved_item items) (cur_level e)"
  shows "popped (it # items) e ty e'"
  using assms unfolding popped_def by (auto split: list.splits)

lemma popped_silent:
  assumes "popped items e1 ty e'" "silent e e1" "saved_item it = Mark"
  shows "popped (it # items) e ty e'"
proof (rule popped_skip [OF assms(1)])
  show "level_marks (it # items) = level_marks items" using assms(3) by (cases it) auto
qed (use assms in \<open>auto simp: silent_def\<close>)

lemma popped_undone:
  assumes "popped items e1 ty e'" "undone l v k e e1" "saved_item it = Saved l v k"
  shows "popped (it # items) e ty e'"
  by (rule popped_skip [OF assms(1)]) (use assms in \<open>auto simp: undone_def saved_not_level LEVEL_ONE_def\<close>)

lemma pop_level_general_ok:
  "list_all (item_in e) (map saved_item items) \<Longrightarrow>
   \<exists>ty sk' e'. pop_level_general items sk e = Some (ty, sk', e') \<and> popped items e ty e'"
proof (induction items arbitrary: sk e)
  case Nil
  then show ?case by (simp add: popped_def)
next
  case (Cons it items)
  have mono: "list_all (item_in e1) (map saved_item items)" if "in_table e1 = in_table e" for e1
    using Cons.prems items_in_mono [of e e1 "map saved_item items"] that by simp
  show ?case
  proof (cases "saved_item it")
    case (Boundary n)
    then obtain t where it: "it = SvLevel n t" by (cases it) auto
    show ?thesis unfolding it
      by (simp add: popped_def)
  next
    case Mark
    then consider (after) tok where "it = SvAfterGroup tok" | (par) old lvl where "it = SvParShape old lvl"
      | (pen) kd old lvl where "it = SvPenaltyShape kd old lvl" by (cases it) auto
    then show ?thesis
    proof cases
      case after
      from Cons.IH [OF mono [OF refl], of "sk\<lparr>after_group := after_group sk @ [tok]\<rparr>"]
      obtain ty sk' e' where "pop_level_general items (sk\<lparr>after_group := after_group sk @ [tok]\<rparr>) e = Some (ty, sk', e')" "popped items e ty e'"
        by blast
      then show ?thesis using popped_silent [of items e ty e' e it] Mark after by simp
    next
      case par
      let ?e = "trace_shape TsParShape e"
      have s: "silent e ?e" by simp
      then obtain ty sk' e' where "pop_level_general items (sk\<lparr>par_shape := Some (old, lvl)\<rparr>) ?e = Some (ty, sk', e')" "popped items ?e ty e'"
        using Cons.IH [OF mono [of ?e], of "sk\<lparr>par_shape := Some (old, lvl)\<rparr>"] by (auto simp: silent_def)
      then show ?thesis using popped_silent [OF _ s Mark] par by simp
    next
      case pen
      let ?e = "trace_shape (TsPenaltyShape kd) e" and ?sk = "sk\<lparr>penalty_shapes := penalty_shapes sk @ [(kd, old, lvl)]\<rparr>"
      have s: "silent e ?e" by simp
      then obtain ty sk' e' where "pop_level_general items ?sk ?e = Some (ty, sk', e')" "popped items ?e ty e'"
        using Cons.IH [OF mono [of ?e], of ?sk] by (auto simp: silent_def)
      then show ?thesis using popped_silent [OF _ s Mark] pen by simp
    qed
  next
    case (Saved l v k)
    have i: "item_in e (saved_item it)" "in_table e l" using Cons.prems Saved by simp_all
    obtain e1 where e1: "unsave it e = Some e1" using unsave_total [OF i(1) Saved] by blast
    have u: "undone l v k e e1" by (rule unsave_undone [OF e1 Saved i(2)])
    then obtain ty sk' e' where p: "pop_level_general items sk e1 = Some (ty, sk', e')" "popped items e1 ty e'"
      using Cons.IH [OF mono [of e1], of sk] by (auto simp: undone_def)
    have "pop_level_general (it # items) sk e = pop_level_general items sk e1"
      using Saved e1 by (cases it) (simp_all del: unsave.simps)
    then show ?thesis using p popped_undone [OF p(2) u Saved] by auto
  qed
qed

text \<open>The short loop for the most frequent items agrees with the general one.\<close>

lemma pop_level_fast_eq: "pop_level_fast items sk e = pop_level_general items sk e"
  by (induction items sk e rule: pop_level_fast.induct) auto

lemma side_ok_items: "side_ok e \<Longrightarrow> list_all (item_in e) (map saved_item (save_stack e))"
  by (simp add: side_ok_def)

lemma pop_level_full_ok:
  assumes "side_ok e"
  shows "\<exists>ty sk' e'. pop_level_full sk e = Some (ty, sk', e') \<and> sim e [Close] e' \<and>
    (groups e \<noteq> [] \<longrightarrow> ty = gr_ty (hd (groups e)) \<and> groups e' = tl (groups e))"
proof -
  obtain ty sk' e' where p: "pop_level_general (save_stack e) sk e = Some (ty, sk', e')" "popped (save_stack e) e ty e'"
    using pop_level_general_ok [OF side_ok_items [OF assms]] by blast
  obtain pre where pre: "save_stack e = pre @ save_stack e'" using p(2) by (auto simp: popped_def)
  have marks: "map (\<lambda>g. (gr_ty g, gr_boundary g)) (groups e) = level_marks (save_stack e)" using assms by (simp add: side_ok_def)
  have tl: "groups e' = tl (groups e)"
    using p(2) marks by (cases "groups e") (auto simp: popped_def split: list.splits)
  have "item_in e' = item_in e" using p(2) by (intro ext, case_tac x) (auto simp: popped_def)
  then have "list_all (item_in e') (map saved_item (save_stack e'))" using assms pre by (simp add: side_ok_def)
  then have "side_ok e'" using p(2) assms marks by (auto simp: side_ok_def popped_def tl map_tl)
  then have "sim e [Close] e'" using p(2) tl by (auto simp: sim_def popped_def machine_def)
  moreover have "ty = gr_ty (hd (groups e))" if "groups e \<noteq> []"
    using p(2) marks that by (cases "groups e") (auto simp: popped_def split: list.splits)
  ultimately show ?thesis using p(1) tl by (auto simp: pop_level_full_def pop_level_fast_eq)
qed

subsection \<open>The steps\<close>

text \<open>
  Every operation that changes the table, with its effect.  The engine assigns font parameters, hyphen characters and
  skew characters globally only, so their steps are the global ones; a level is opened below the largest level (the
  operation only raises a flag there).
\<close>

inductive table_step :: "'n eqtb \<Rightarrow> (loc, 'n content) effect list \<Rightarrow> 'n eqtb \<Rightarrow> bool" where
  st_define: "define_eq cs eq g e = Some e' \<Longrightarrow> table_step e (writes g (same_equiv (equiv_get e cs) eq) (LEq cs) (VEq eq)) e'"
| st_int: "assign_int_param p i g e = Some e' \<Longrightarrow> table_step e (int_effect p i g e) e'"
| st_mode: "in_table e (LInt INTERACTION_MODE) \<Longrightarrow>
    table_step e [Global (LInt INTERACTION_MODE) (VInt i)] (set_runtime_interaction_mode i e)"
| st_take_mode: "table_step e [] (snd (take_pending_interaction_mode e))"
| st_dim: "assign_dim_param p i g e = Some e' \<Longrightarrow>
    table_step e (writes g (dim_in_eqtb p \<and> now (dim_params e) p = i) (LDim p) (VInt i)) e'"
| st_glue: "assign_glue_param p gl g e = Some e' \<Longrightarrow>
    table_step e (writes g (same_glue (now (glue_params e) p) (new_glue gl e)) (LGlue p) (VGlue (new_glue gl e))) e'"
| st_tabskip: "assign_preamble_tabskip gl g e = Some e' \<Longrightarrow> gl' = (if g_spec gl = NO_SPEC then gl\<lparr>g_spec := next_spec e\<rparr> else gl) \<Longrightarrow>
    table_step e (writes g (same_glue (now (glue_params e) TAB_SKIP) gl') (LGlue TAB_SKIP) (VGlue gl')) e'"
| st_initial_glue: "set_initial_glue_param p gl e = Some e' \<Longrightarrow> in_table e (LGlue p) \<Longrightarrow>
    table_step e [Poke (LGlue p) (VGlue (new_glue gl e))] e'"
| st_toks_param: "assign_toks_param p ts g e = Some e' \<Longrightarrow>
    table_step e (writes g (same_toks (now (tok_params e) p) ts) (LToksP p) (VToks ts)) e'"
| st_count: "assign_count r i g e = Some e' \<Longrightarrow> table_step e (writes g (now (r_count e) r = i) (LCount r) (VInt i)) e'"
| st_dimen: "assign_dimen r i g e = Some e' \<Longrightarrow> table_step e (writes g (now (r_dimen e) r = i) (LDimen r) (VInt i)) e'"
| st_skip: "assign_skip r gl g e = Some e' \<Longrightarrow>
    table_step e (writes g (same_glue (now (r_skip e) r) (new_glue gl e)) (LSkip r) (VGlue (new_glue gl e))) e'"
| st_muskip: "assign_muskip r gl g e = Some e' \<Longrightarrow>
    table_step e (writes g (same_glue (now (r_muskip e) r) (new_glue gl e)) (LMuSkip r) (VGlue (new_glue gl e))) e'"
| st_toks: "assign_toks_reg r ts g e = Some e' \<Longrightarrow> table_step e (writes g (same_toks (now (r_toks e) r) ts) (LToks r) (VToks ts)) e'"
| st_local_box: "assign_local_box r b e = Some e' \<Longrightarrow> table_step e [Local (LBox r) (VBox b)] e'"
| st_box: "assign_box r b g e = Some e' \<Longrightarrow> table_step e (writes g (now (r_box e) r = None \<and> b = None) (LBox r) (VBox b)) e'"
| st_replace_box: "replace_box_value r b e = Some (old, e') \<Longrightarrow> in_table e (LBox r) \<Longrightarrow> table_step e [Poke (LBox r) (VBox b)] e'"
| st_set_box: "set_box_untraced r b e = Some e' \<Longrightarrow> table_step e [Global (LBox r) (VBox b)] e'"
| st_cur_font: "define_cur_font f g e = Some e' \<Longrightarrow> table_step e (writes (font_global g e) (cur_font_val e = f) LCurFont (VNat f)) e'"
| st_style_font: "assign_style_font s fam f g e = Some e' \<Longrightarrow>
    table_step e (writes g (now (style_fonts e ! s) fam = f) (LStyle s fam) (VNat f)) e'"
| st_font_param: "assign_font_param f k i True e = Some e' \<Longrightarrow> length (fst (font_params e ! f)) = length (snd (font_params e ! f)) \<Longrightarrow>
    table_step e [Global (LFontParam f k) (VInt i)] e'"
| st_hyphen_char: "assign_hyphen_char f i True e = Some e' \<Longrightarrow> table_step e [Global (LHyphen f) (VInt i)] e'"
| st_skew_char: "assign_skew_char f i True e = Some e' \<Longrightarrow> table_step e [Global (LSkew f) (VInt i)] e'"
| st_cat: "assign_cat_code c n g e = Some e' \<Longrightarrow> table_step e (cat_effect c n g e) e'"
| st_cat_in: "assign_cat_code_in k c n g e = Some e' \<Longrightarrow>
    table_step e (if k = cat_current e then cat_effect c n g e
      else writes g False (if c < 256 then LCat k c else LUniCat k c) (VNat n)) e'"
| st_cat_table: "table_step e (if k = cat_current e then [] else writes g False LCatTable (VInt k)) (assign_cat_table k g e)"
| st_init_table: "length (fst (ct_cat (table_at e k))) = 256 \<Longrightarrow> table_step e (table_effect k table_initex e) (init_cat_table k e)"
| st_save_table: "length (fst (ct_cat (table_at e k))) = length (fst (cat e)) \<Longrightarrow>
    t = \<lparr>ct_cat = (fst (cat e), replicate (length (fst (cat e))) LEVEL_ONE),
         ct_unicode = map (\<lambda>(c, v, _). (c, v, LEVEL_ONE)) (unicode_cat_codes e), ct_valid = True\<rparr> \<Longrightarrow>
    table_step e (table_effect k t e) (save_cat_table k e)"
| st_math: "assign_math_code_for c n g e = Some e' \<Longrightarrow> table_step e (math_effect c n g e) e'"
| st_del: "assign_delimiter_code_for c i g e = Some e' \<Longrightarrow> table_step e (del_effect c i g e) e'"
| st_case: "assign_case_code c n u g e = Some e' \<Longrightarrow> table_step e (case_effect c n u g e) e'"
| st_sf: "assign_space_factor_code c n g e = Some e' \<Longrightarrow>
    table_step e (sf_effect c (if c < 256 then sf_class e ! c else char_class e c) n g e) e'"
| st_class: "assign_char_class c n g e = Some e' \<Longrightarrow> table_step e (sf_effect c n (space_factor_code e c) g e) e'"
| st_inter: "assign_inter_char_toks c1 c2 ts g e = Some e' \<Longrightarrow>
    table_step e (writes g (case map_of (inter_char e) (inter_key c1 c2) of Some (t, _) \<Rightarrow> same_toks t ts | None \<Rightarrow> snd ts = [])
      (LInter (inter_key c1 c2)) (VToks ts)) e'"
| st_attribute: "table_step e (writes g False (LAttr k) (VInt i)) (assign_attribute k i g e)"
| st_math_param: "table_step e (writes g False (LMathParam (style_key p s)) (VInt i)) (assign_math_param p s i g e)"
| st_math_glue: "table_step e (writes g False (LMathGlue (style_key p s)) (VInts is)) (assign_math_glue_param p s is g e)"
| st_lua_math: "table_step e (writes g False (LLuaMath c) (VWord (pack_math cl fam i))) (assign_lua_math_code c cl fam i g e)"
| st_lua_del: "table_step e (writes g False (LLuaDel c) (VWord (pack_del sf sc lf lc))) (assign_lua_del_code c sf sc lf lc g e)"
| st_xe_math: "assign_xe_math_code c i g e = Some e' \<Longrightarrow>
    table_step e (writes g (xe_math_code e c = i) (LLuaMath c) (VWord (word_of_int i))) e'"
| st_xe_del: "assign_xe_del_code c i g e = Some e' \<Longrightarrow> table_step e (writes g (xe_del_code e c = i) (LUniDel c) (VInt i)) e'"
| st_push: "cur_level e < MAX_GROUP_LEVEL \<Longrightarrow> table_step e [Open] (push_level_with ty meta line e)"
| st_after: "saved_item it = Mark \<Longrightarrow> table_step e [Note] (push_save it e)"
| st_pop: "pop_level_full sk e = Some (ty, sk', e') \<Longrightarrow> table_step e [Close] e'"

lemma step_sim:
  assumes "table_step e es e'" "table_ok e"
  shows "sim e es e'"
  using assms
proof (cases rule: table_step.cases)
  case (st_case c n u g)
  then show ?thesis using assms(2) by (auto simp: table_ok_def intro: assign_case_code_sim)
next
  case (st_pop sk ty sk')
  then show ?thesis using assms(2) pop_level_full_ok [of e sk] by (auto simp: table_ok_def)
next
  case (st_tabskip gl g gl')
  then show ?thesis using assign_preamble_tabskip_sim [OF st_tabskip(2)] by (simp only:)
next
  case (st_save_table k t)
  then show ?thesis using save_cat_table_sim [of e k] by (auto simp: in_dense_def)
next
  case (st_init_table k)
  then show ?thesis by (auto simp: in_dense_def intro: init_cat_table_sim)
next
  case st_take_mode
  then show ?thesis by (auto simp: take_pending_interaction_mode_def intro: silent_sim)
next
  case (st_cat_in k c n g)
  then show ?thesis using assign_cat_code_in_sim [OF st_cat_in(2)] by (simp only:)
next
  case (st_cat_table k g)
  then show ?thesis using assign_cat_table_sim [of e k g] by (simp only:)
next
  case (st_sf c n g)
  then show ?thesis using assign_space_factor_sim [OF st_sf(2)] by (simp only:)
next
  case (st_inter c1 c2 ts g)
  then show ?thesis by (auto intro: assign_inter_char_toks_sim)
qed (auto simp del: writes_untested view.simps in_table.simps
    intro: define_eq_sim assign_int_param_sim set_mode_sim assign_dim_param_sim assign_glue_param_sim set_initial_glue_sim
      assign_toks_param_sim assign_count_sim assign_dimen_sim assign_skip_sim assign_muskip_sim assign_toks_reg_sim
      assign_local_box_sim assign_box_sim replace_box_sim set_box_sim define_cur_font_sim assign_style_font_sim
      assign_font_param_sim assign_hyphen_char_sim assign_skew_char_sim assign_cat_code_sim
      assign_cat_code_in_sim assign_cat_table_sim assign_math_code_for_sim assign_delimiter_code_for_sim
      assign_space_factor_sim assign_char_class_sim assign_attribute_sim assign_math_param_sim assign_math_glue_param_sim
      assign_lua_math_code_sim assign_lua_del_code_sim assign_xe_math_code_sim assign_xe_del_code_sim push_level_sim push_save_sim)

interpretation table: grouped machine table_ok table_step
proof unfold_locales
  show "table_ok e \<Longrightarrow> machine_ok (machine e)" for e :: "'n eqtb" by (simp add: table_ok_def)
  show "table_ok e \<Longrightarrow> table_step e es e' \<Longrightarrow> table_ok e'" for e e' :: "'n eqtb" and es
    using step_sim sim_ok by blast
  show "table_ok e \<Longrightarrow> table_step e es e' \<Longrightarrow> machine e' = fold act es (machine e)" for e e' :: "'n eqtb" and es
    using step_sim [of e es e'] by (simp add: sim_def)
qed

end
