(* ===== verification/EqtbCorrect.thy ===== *)
theory EqtbCorrect
  imports EqtbRuns
begin

unbundle bit_operations_syntax

text \<open>The properties of the table of equivalents.\<close>

subsection \<open>Grouping\<close>

lemma dense_fresh [simp]: "snd (dense_view con d (fresh n v) i) = LEVEL_ONE" "snd (dense_view con d (coded f) i) = LEVEL_ONE"
  "snd (dense_view con d (xs, replicate n LEVEL_ONE) i) = LEVEL_ONE" "snd (dense_view con d ([], ls) i) = LEVEL_ONE"
  by (auto simp: dense_view_def fresh_def coded_def)

lemma sf_fresh [simp]: "snd (sf_view (xs, replicate n LEVEL_ONE) cs i) = LEVEL_ONE"
  by (auto simp: sf_view_def)

lemma sparse_empty [simp]: "sparse_view con [] k = (VNone, LEVEL_ONE)"
  by (simp add: sparse_view_def saved_content_def entry_level_def)

lemma new_level [simp]: "snd (view (eqtb_new ini) l) = LEVEL_ONE"
  by (cases l) (auto simp: eqtb_new_def live_table_def table_at_def table_blank_def eq_view_def nested_view_def
      fresh_def coded_def simp del: replicate.simps replicate_Suc)

lemma new_table [simp]:
  "save_stack (eqtb_new ini) = []" "cur_level (eqtb_new ini) = 1" "groups (eqtb_new ini) = []"
  "entries (eqtb_new ini) = []" "outer_entries (eqtb_new ini) = 0"
  by (simp_all add: eqtb_new_def LEVEL_ONE_def)

lemma eqtb_new_ok: "table_ok (eqtb_new ini)"
  by (simp add: table_ok_def machine_def side_ok_def outer_ok_def LEVEL_ONE_def)

text \<open>
  Property C1. The table of equivalents with its levels and its save stack is a chain of scopes: after any run of
  operations every location holds what the innermost scope that binds it says, and the chain is the one that the
  effects of the operations make - a local assignment binds in the innermost scope, a global one in the outermost and
  unbinds everywhere else, a change in place rebinds where the location is bound, a group adds a scope and its end drops it.
\<close>
theorem scopes_refined:
  assumes "table_ok e" "runs table_step e es e'"
  shows "table_ok e' \<and> chain (machine e') = fold scope_act es (chain (machine e)) \<and>
    (\<forall>l. lookup (fold scope_act es (chain (machine e))) l = Some (fst (view e' l)))"
proof -
  note r = table.run_acts [OF assms(2,1)] table.run_chain [OF assms]
  have "table.content e' l = fst (view e' l)" for l by (simp add: table.content_def machine_def)
  then show ?thesis using r by metis
qed

lemma run_follow: "runs table_step e es e' \<Longrightarrow> table_ok e \<Longrightarrow> follow es (groups e) (groups e')"
proof (induction rule: runs.induct)
  case (runs_step e es e1 fs e')
  have "sim e es e1" by (rule step_sim [OF runs_step.hyps(1) runs_step.prems])
  then show ?case using runs_step.IH sim_ok [OF _ runs_step.prems] by (auto simp: sim_def intro: follow_append)
qed simp

lemma act_level: "act f (c, st, n) = (c', st', n') \<Longrightarrow> f \<noteq> Open \<Longrightarrow> f \<noteq> Close \<Longrightarrow> wf c st n \<Longrightarrow> n' = n \<and> wf c' st' n'"
  using act_ok [of "(c, st, n)" f] by (cases f) auto

lemma inside_level: "inside d es \<Longrightarrow> d < n \<Longrightarrow> wf c st n \<Longrightarrow> snd (snd (fold act es (c, st, n))) = n - d"
proof (induction es arbitrary: d c st n)
  case (Cons f es)
  obtain c' st' n' where a: "act f (c, st, n) = (c', st', n')" by (cases "act f (c, st, n)") auto
  have ok: "wf c' st' n'" using act_ok [of "(c, st, n)" f] Cons.prems(3) a by simp
  show ?case
  proof (cases f)
    case Open
    then show ?thesis using Cons.IH [of "d + 1" n' c' st'] Cons.prems ok a by auto
  next
    case Close
    then have "1 < n" "0 < d" using Cons.prems by auto
    then have "n' = n - 1" using scopes_close [OF \<open>1 < n\<close> Cons.prems(3)] a Close by auto
    then show ?thesis using Cons.IH [of "d - 1" n' c' st'] Cons.prems ok a \<open>0 < d\<close> Close by auto
  qed (use Cons a ok act_level [OF a] in auto)
qed simp

lemma wf_pos: "wf c st n \<Longrightarrow> 0 < n"
  using wf_level [of c st n l for l] by (simp add: Suc_le_eq)

lemma level_machine: "cur_level e = snd (snd (machine e))"
  by (simp add: machine_def)

lemma close_level: "wf c st n \<Longrightarrow> snd (snd (unwind c st n)) = max 1 (n - 1)"
proof (cases "n = 1")
  case False
  assume w: "wf c st n"
  have "1 < n" using wf_pos [OF w] False by simp
  then show ?thesis using scopes_close [OF _ w] by (auto split: prod.splits)
qed (simp add: unwind_bottom)

lemma inside_run:
  assumes "table_ok e" "runs table_step e es e'" "inside 0 es"
  shows "table_ok e' \<and> groups e' = groups e \<and> cur_level e' = cur_level e"
proof -
  have "wf (view e) (map saved_item (save_stack e)) (cur_level e)" using assms(1) by (simp add: table_ok_def machine_def)
  moreover from this have "0 < cur_level e" by (rule wf_pos)
  ultimately have "snd (snd (fold act es (machine e))) = cur_level e"
    using inside_level [OF assms(3)] by (simp add: machine_def)
  then show ?thesis
    using table.run_acts [OF assms(2,1)] follow_inside [OF assms(3) run_follow [OF assms(2,1)]]
    by (simp add: level_machine [of e'])
qed

lemma group_parts:
  assumes "table_ok e" "cur_level e < MAX_GROUP_LEVEL" "runs table_step (push_level_with ty meta line e) es e2" "inside 0 es"
    "pop_level_full sk e2 = Some (ty', sk', e3)"
  shows "runs table_step e (Open # es @ [Close]) e3" "groups e2 = groups (push_level_with ty meta line e)"
    "cur_level e2 = cur_level e + 1" "ty' = ty" "groups e3 = groups e" "cur_level e3 = cur_level e"
proof -
  let ?e1 = "push_level_with ty meta line e"
  have push: "table_step e [Open] ?e1" by (rule st_push [OF assms(2)])
  have pop: "table_step e2 [Close] e3" by (rule st_pop [OF assms(5)])
  show "runs table_step e (Open # es @ [Close]) e3"
    using runs_step [OF push runs_trans [OF assms(3) runs_one [of table_step, OF pop]]] by simp
  have ok1: "table_ok ?e1" using sim_ok [OF step_sim [OF push assms(1)] assms(1)] .
  have in1: "table_ok e2" "groups e2 = groups ?e1" "cur_level e2 = cur_level ?e1" using inside_run [OF ok1 assms(3,4)] by auto
  have g: "tl (groups ?e1) = groups e" "groups ?e1 \<noteq> []" "gr_ty (hd (groups ?e1)) = ty" "cur_level ?e1 = cur_level e + 1"
    using assms(2) by (simp_all add: push_level_with_def push_save_def Let_def trace_group_def trace_text_def)
  show "groups e2 = groups ?e1" "cur_level e2 = cur_level e + 1" using in1 g by auto
  have p: "ty' = ty \<and> groups e3 = groups e \<and> sim e2 [Close] e3"
    using pop_level_full_ok [of e2 sk] in1 g assms(5) by (auto simp: table_ok_def)
  then show "ty' = ty" "groups e3 = groups e" by auto
  obtain c st where m: "machine e2 = (c, st, cur_level e2)" by (simp add: machine_def)
  have "wf c st (cur_level e2)" using in1(1) m by (simp add: table_ok_def)
  moreover have "0 < cur_level e" using assms(1) wf_pos [of "view e" "map saved_item (save_stack e)"] by (simp add: table_ok_def machine_def)
  ultimately have "snd (snd (act Close (machine e2))) = cur_level e2 - 1" using close_level [of c st "cur_level e2"] m g(4) in1(3) by auto
  then show "cur_level e3 = cur_level e" using p g(4) in1(3) by (simp add: sim_def level_machine [of e3])
qed

text \<open>
  Property C2. A group restores what it changed locally: when a group is opened, any operations run in it that close every
  group they open and neither assign the location globally nor change it in place, and the group is closed, then the
  location holds what it held before, the group reported is the one opened, and the level and the open groups are those
  of before.
\<close>
theorem group_restores:
  assumes "table_ok e" "cur_level e < MAX_GROUP_LEVEL" "runs table_step (push_level_with ty meta line e) es e2" "inside 0 es"
    "list_all (\<lambda>f. \<not> escapes l f) es" "pop_level_full sk e2 = Some (ty', sk', e3)"
  shows "fst (view e3 l) = fst (view e l) \<and> ty' = ty \<and> cur_level e3 = cur_level e \<and> groups e3 = groups e"
proof -
  note g = group_parts [OF assms(1-4,6)]
  have "table.content e3 l = table.content e l" by (rule table.group_content [OF assms(1) g(1) assms(4,5)])
  then show ?thesis using g by (simp add: table.content_def machine_def)
qed

text \<open>
  Property C3. Closing a group never fails: after any run of operations on a fresh table every item above the innermost
  group on the save stack can be restored, and the group closed is the innermost open one.
\<close>
theorem group_end_succeeds:
  assumes "runs table_step (eqtb_new ini) es e"
  shows "\<exists>ty sk' e'. pop_level_full sk e = Some (ty, sk', e') \<and> groups e' = tl (groups e) \<and>
    cur_level e' = max 1 (cur_level e - 1) \<and> (case groups e of [] \<Rightarrow> True | g # _ \<Rightarrow> ty = gr_ty g)"
proof -
  have ok: "table_ok e" using table.run_acts [OF assms eqtb_new_ok] by blast
  obtain ty sk' e' where p: "pop_level_full sk e = Some (ty, sk', e')" "sim e [Close] e'"
    "groups e \<noteq> [] \<longrightarrow> ty = gr_ty (hd (groups e)) \<and> groups e' = tl (groups e)"
    using pop_level_full_ok [of e sk] ok by (auto simp: table_ok_def)
  have w: "wf (view e) (map saved_item (save_stack e)) (cur_level e)" using ok by (simp add: table_ok_def machine_def)
  have "cur_level e' = snd (snd (unwind (view e) (map saved_item (save_stack e)) (cur_level e)))"
    using p(2) by (simp add: sim_def level_machine [of e'] machine_def [of e])
  also have "\<dots> = max 1 (cur_level e - 1)"
    by (rule close_level [OF w])
  finally have lev: "cur_level e' = max 1 (cur_level e - 1)" .
  have "groups e' = tl (groups e)" using p(2) by (auto simp: sim_def)
  then show ?thesis using p lev by (cases "groups e") auto
qed

text \<open>The level items of the save stack, by their position from the bottom.\<close>

lemma marks_levels:
  "wf c (map saved_item items) n \<Longrightarrow> n = length (level_marks items) + 1 \<and>
   (\<forall>i t b. i < length (level_marks items) \<longrightarrow> level_marks items ! i = (t, b) \<longrightarrow> b < length items \<and> rev items ! b = SvLevel (n - i) t)"
proof (induction items arbitrary: c n)
  case (Cons it items)
  show ?case
  proof (cases "saved_item it")
    case (Boundary k)
    then obtain t where it: "it = SvLevel k t" by (cases it) auto
    have w: "1 < n" "k = n" "wf c (map saved_item items) (n - 1)" using Cons.prems Boundary by simp_all
    note ih = Cons.IH [OF w(3)]
    have "b < length (it # items) \<and> rev (it # items) ! b = SvLevel (n - i) t'"
      if "i < length (level_marks (it # items))" "level_marks (it # items) ! i = (t', b)" for i t' b
    proof (cases i)
      case 0
      then show ?thesis using that it w by (simp add: nth_append)
    next
      case (Suc j)
      then have "b < length items \<and> rev items ! b = SvLevel (n - i) t'" using that ih it Suc by simp
      then show ?thesis using Suc by (simp add: nth_append)
    qed
    moreover have "n = length (level_marks (it # items)) + 1" using ih w(1) it by auto
    ultimately show ?thesis by blast
  next
    case (Saved l v j)
    then have m: "level_marks (it # items) = level_marks items" by (rule saved_not_level)
    obtain c' where "wf c' (map saved_item items) n" using Cons.prems Saved by (auto split: if_splits)
    from Cons.IH [OF this] show ?thesis unfolding m by (auto simp: nth_append)
  next
    case Mark
    then have m: "level_marks (it # items) = level_marks items" by (cases it) auto
    have "wf c (map saved_item items) n" using Cons.prems Mark by simp
    from Cons.IH [OF this] show ?thesis unfolding m by (auto simp: nth_append)
  qed
qed simp

text \<open>
  Property C4. The record of the open groups is exact: after any run of operations on a fresh table the level of grouping
  is one more than the number of open groups, and each open group's record names the position in the save stack of the
  item that opened it, with its kind and its level.
\<close>
theorem groups_mirror_stack:
  assumes "runs table_step (eqtb_new ini) es e"
  shows "cur_level e = length (groups e) + 1 \<and>
    (\<forall>i < length (groups e). gr_boundary (groups e ! i) < length (save_stack e) \<and>
       rev (save_stack e) ! gr_boundary (groups e ! i) = SvLevel (cur_level e - i) (gr_ty (groups e ! i)))"
proof -
  have ok: "table_ok e" using table.run_acts [OF assms eqtb_new_ok] by blast
  then have w: "wf (view e) (map saved_item (save_stack e)) (cur_level e)" by (simp add: table_ok_def machine_def)
  have m: "map (\<lambda>g. (gr_ty g, gr_boundary g)) (groups e) = level_marks (save_stack e)" using ok by (simp add: table_ok_def side_ok_def)
  then have len: "length (groups e) = length (level_marks (save_stack e))" by (metis length_map)
  have nth: "level_marks (save_stack e) ! i = (gr_ty (groups e ! i), gr_boundary (groups e ! i))" if "i < length (groups e)" for i
    using that by (simp flip: m)
  show ?thesis using marks_levels [OF w] nth by (simp add: len)
qed

lemma count_zero: "length (filter P xs) mod 4294967296 = 0 \<Longrightarrow> length xs < 4294967296 \<Longrightarrow> x \<in> set xs \<Longrightarrow> \<not> P x"
  using length_filter_le [of P xs] by (auto simp: filter_empty_conv)

lemma resolved_in: "resolve_steps n ens cs = Some en \<Longrightarrow> en \<in> set ens"
  by (induction n ens cs rule: resolve_steps.induct) (auto split: if_splits option.splits equiv.splits)

text \<open>
  Property C34. The counter of outer macros is exact: after any run of operations on a fresh table it is the number of
  entries whose meaning is an outer macro (in 32 bits), so with fewer than 2 to the 32 entries a counter of 0 means that
  no name - directly or through aliases - is outer, and the scanner may skip the test.
\<close>
theorem outer_counter_exact:
  assumes "runs table_step (eqtb_new ini) es e"
  shows "outer_entries e = length (filter (\<lambda>en. is_outer (en_equiv en)) (entries e)) mod 4294967296 \<and>
    (length (entries e) < 4294967296 \<and> \<not> has_outer_macros e \<longrightarrow> \<not> is_outer_cs e cs)"
proof -
  have o: "outer_ok (entries e) (outer_entries e)"
    using table.run_acts [OF assms eqtb_new_ok] by (simp add: table_ok_def side_ok_def)
  have "\<not> is_outer_cs e cs" if "length (entries e) < 4294967296" "\<not> has_outer_macros e"
  proof (cases "resolve_steps 1024 (entries e) cs")
    case (Some en)
    then have "en \<in> set (entries e)" by (rule resolved_in)
    moreover from this have "\<not> is_outer (en_equiv en)"
      using count_zero [of "\<lambda>en. is_outer (en_equiv en)" "entries e" en] that o by (auto simp: outer_ok_def has_outer_macros_def)
    ultimately show ?thesis using o Some by (auto simp: is_outer_cs_def outer_ok_def)
  qed (simp add: is_outer_cs_def)
  then show ?thesis using o by (auto simp: outer_ok_def)
qed

text \<open>
  The short loop that closes a group of meanings and \<open>\aftergroup\<close> tokens only, and goes on in the general
  loop at the first other item, gives what the general loop gives from the start.
\<close>
theorem fast_path_agrees: "pop_level_full sk e = pop_level_general (save_stack e) sk e"
  by (simp add: pop_level_full_def pop_level_fast_eq)

subsection \<open>A concrete run\<close>

text \<open>A count register changed in a group of a fresh table.\<close>

lemma new_params: "i < NUM_INT_PARAMS \<Longrightarrow> i \<noteq> INTERACTION_MODE \<Longrightarrow> int_param (eqtb_new ini) i = 0"
  by (simp add: int_param_def eqtb_new_def)

definition demo_open :: "unit eqtb" where
  "demo_open = push_level_with LtSimple (meta_of LtSimple) 7 (eqtb_new True)"

lemma demo_open:
  "int_param demo_open i = int_param (eqtb_new True :: unit eqtb) i" "r_count demo_open = fresh NUM_REGISTERS 0" "cur_level demo_open = 2"
  "save_stack demo_open = [SvLevel 2 LtSimple]" "groups demo_open = [\<lparr>gr_meta = meta_of LtSimple, gr_line = 7, gr_ty = LtSimple, gr_boundary = 0\<rparr>]"
  "entries demo_open = []" "outer_entries demo_open = 0"
proof -
  have p: "int_param (eqtb_new True :: unit eqtb) TRACING_GROUPS = 0"
    by (simp add: new_params TRACING_GROUPS_def NUM_INT_PARAMS_def INTERACTION_MODE_def)
  have d: "demo_open = push_save (SvLevel 2 LtSimple)
      ((eqtb_new True)\<lparr>groups := [\<lparr>gr_meta = meta_of LtSimple, gr_line = 7, gr_ty = LtSimple, gr_boundary = 0\<rparr>], cur_level := 2\<rparr>)"
    using p by (simp add: demo_open_def push_level_with_def MAX_GROUP_LEVEL_def numeral_2_eq_2)
  show "int_param demo_open i = int_param (eqtb_new True :: unit eqtb) i" "r_count demo_open = fresh NUM_REGISTERS 0" "cur_level demo_open = 2"
    "save_stack demo_open = [SvLevel 2 LtSimple]" "groups demo_open = [\<lparr>gr_meta = meta_of LtSimple, gr_line = 7, gr_ty = LtSimple, gr_boundary = 0\<rparr>]"
    "entries demo_open = []" "outer_entries demo_open = 0"
    unfolding d by (simp_all add: push_save_def int_param_def eqtb_new_def)
qed

definition demo_set :: "unit eqtb" where
  "demo_set = the (assign_count 5 42 False demo_open)"

lemma demo_set: "assign_count 5 42 False demo_open = Some demo_set" "fst (view demo_set (LCount 5)) = VInt 42" "entries demo_set = []"
  "outer_entries demo_set = 0"
proof -
  have p: "int_param demo_open TRACING_ASSIGNS = 0"
    unfolding demo_open(1) by (rule new_params) (simp_all add: TRACING_ASSIGNS_def NUM_INT_PARAMS_def INTERACTION_MODE_def)
  have "assign_count 5 42 False demo_open = Some (end_assign (TsCount 5) (demo_open\<lparr>r_count :=
      ((replicate NUM_REGISTERS 0)[5 := 42], (replicate NUM_REGISTERS LEVEL_ONE)[5 := 2]), save_stack := SvCount 5 0 1 # save_stack demo_open\<rparr>))"
    using p by (simp add: assign_count_def fetch_def fresh_def traced_def begin_assign_def slot_def demo_open NUM_REGISTERS_def LEVEL_ONE_def)
  then show "assign_count 5 42 False demo_open = Some demo_set" "fst (view demo_set (LCount 5)) = VInt 42" "entries demo_set = []"
    "outer_entries demo_set = 0"
    by (simp_all add: demo_open demo_set_def end_assign_def trace_def trace_with_def dense_view_def NUM_REGISTERS_def)
qed

lemma demo_run:
  "runs table_step demo_open [Local (LCount 5) (VInt 42)] demo_set"
  "runs table_step (eqtb_new True) [Open, Local (LCount 5) (VInt 42)] demo_set"
proof -
  have "writes False (now (r_count demo_open) 5 = 42) (LCount 5) (VInt 42 :: unit content) = [Local (LCount 5) (VInt 42)]"
    by (simp add: writes_def now_def demo_open fresh_def NUM_REGISTERS_def)
  then show r: "runs table_step demo_open [Local (LCount 5) (VInt 42)] demo_set"
    using runs_one [of table_step, OF st_count [OF demo_set(1)]] by simp
  have "table_step (eqtb_new True) [Open] demo_open"
    unfolding demo_open_def by (rule st_push) (simp add: MAX_GROUP_LEVEL_def)
  then show "runs table_step (eqtb_new True) [Open, Local (LCount 5) (VInt 42)] demo_set" using runs_step [OF _ r] by fastforce
qed

lemma demo_start: "fst (view (eqtb_new True :: unit eqtb) (LCount 5)) = VInt 0"
  by (simp add: eqtb_new_def dense_view_def fresh_def NUM_REGISTERS_def)

lemma demo_pop: "\<exists>ty sk' e3. pop_level_full sk demo_set = Some (ty, sk', e3)"
  using pop_level_full_ok [of demo_set sk] table.run_acts [OF demo_run(2) eqtb_new_ok] by (auto simp: table_ok_def)

text \<open>After the assignment the chain has two scopes that bind the register, and the lookup takes the inner one.\<close>

theorem scopes_refined_witness:
  "lookup (fold scope_act [Open, Local (LCount 5) (VInt 42)] (chain (machine (eqtb_new True :: unit eqtb)))) (LCount 5) = Some (VInt 42)"
  using scopes_refined [OF eqtb_new_ok demo_run(2)] demo_set(2) by simp

theorem group_restores_witness:
  "\<exists>sk' e3. fst (view demo_set (LCount 5)) = VInt 42 \<and> pop_level_full \<lparr>after_group = [], par_shape = None, penalty_shapes = []\<rparr> demo_set =
     Some (LtSimple, sk', e3) \<and> fst (view e3 (LCount 5)) = VInt 0 \<and> cur_level e3 = 1 \<and> groups e3 = []"
proof -
  obtain ty sk' e3 where p: "pop_level_full \<lparr>after_group = [], par_shape = None, penalty_shapes = []\<rparr> demo_set = Some (ty, sk', e3)"
    using demo_pop by blast
  have "fst (view e3 (LCount 5)) = fst (view (eqtb_new True :: unit eqtb) (LCount 5)) \<and> ty = LtSimple \<and> cur_level e3 = 1 \<and> groups e3 = []"
    using group_restores [OF eqtb_new_ok _ demo_run(1) [unfolded demo_open_def] _ _ p, of "LCount 5"] by (simp add: MAX_GROUP_LEVEL_def)
  then show ?thesis using p demo_set(2) demo_start by simp
qed

theorem group_end_succeeds_witness:
  "\<exists>sk' e3. pop_level_full \<lparr>after_group = [], par_shape = None, penalty_shapes = []\<rparr> demo_set = Some (LtSimple, sk', e3)"
proof -
  have "groups demo_set = groups demo_open"
    using follow_inside [OF _ run_follow [OF demo_run(1)], of 0] sim_ok [OF step_sim [OF st_push eqtb_new_ok] eqtb_new_ok, of True LtSimple "meta_of LtSimple" 7]
    by (simp add: MAX_GROUP_LEVEL_def demo_open_def)
  then show ?thesis using group_end_succeeds [OF demo_run(2)] by (simp add: demo_open) metis
qed

theorem groups_mirror_stack_witness: "cur_level demo_set = length (groups demo_set) + 1"
  using groups_mirror_stack [OF demo_run(2)] by simp

theorem outer_counter_exact_witness: "\<not> has_outer_macros demo_set \<and> \<not> is_outer_cs demo_set 3"
  using outer_counter_exact [OF demo_run(2), of 3] demo_set(3,4) by (simp add: has_outer_macros_def)

end
