(* ===== verification/EqtbCodesCorrect.thy ===== *)
theory EqtbCodesCorrect
  imports EqtbRuns
begin

unbundle bit_operations_syntax

text \<open>
  The code tables of the table of equivalents: the packed mathematics codes of LuaTeX come back from the table, the
  catcode tables keep their codes while one is switched for another, and the attribute list in force names exactly the
  registers that are set.
\<close>

subsection \<open>Packed codes\<close>

lemma mask_consts: "(0xF :: 64 word) = mask 4" "(0xFF :: 64 word) = mask 8" "(0x1FFFFF :: 64 word) = mask 21"
  by (simp_all add: mask_eq_exp_minus_1)

lemma mask_ints: "(7 :: int) = mask 3" "(0xFF :: int) = mask 8" "(0x1FFFFF :: int) = mask 21"
  by (simp_all add: mask_eq_exp_minus_1)

lemma unat_masked: "n \<le> 64 \<Longrightarrow> unat (word_of_int (k AND mask n) :: 64 word) = nat (k AND mask n)"
  by (simp add: unsigned_of_int flip: take_bit_eq_mask)

lemma word_masked: "(word_of_int (k AND mask n) :: 64 word) AND mask n = word_of_int (k AND mask n)"
  by (rule bit_word_eqI) (auto simp: bit_simps)

lemma masked_bit: "x AND mask n = (x :: 64 word) \<Longrightarrow> bit x i \<Longrightarrow> i < n"
  by (metis bit_and_iff bit_mask_iff)

lemma math_fields:
  fixes x y z :: "64 word"
  assumes "x AND mask 4 = x" "y AND mask 8 = y" "z AND mask 21 = z"
  shows "drop_bit 32 (push_bit 32 x OR push_bit 21 y OR z) AND mask 4 = x"
    "drop_bit 21 (push_bit 32 x OR push_bit 21 y OR z) AND mask 8 = y"
    "(push_bit 32 x OR push_bit 21 y OR z) AND mask 21 = z"
  by (rule bit_word_eqI; auto simp: bit_simps dest: masked_bit [OF assms(1)] masked_bit [OF assms(2)] masked_bit [OF assms(3)])+

lemma del_fields:
  fixes x y z w :: "64 word"
  assumes "x AND mask 8 = x" "y AND mask 21 = y" "z AND mask 8 = z" "w AND mask 21 = w"
  shows "drop_bit 50 (push_bit 50 x OR push_bit 29 y OR push_bit 21 z OR w) AND mask 8 = x"
    "drop_bit 29 (push_bit 50 x OR push_bit 29 y OR push_bit 21 z OR w) AND mask 21 = y"
    "drop_bit 21 (push_bit 50 x OR push_bit 29 y OR push_bit 21 z OR w) AND mask 8 = z"
    "(push_bit 50 x OR push_bit 29 y OR push_bit 21 z OR w) AND mask 21 = w"
  by (rule bit_word_eqI; auto simp: bit_simps dest: masked_bit [OF assms(1)] masked_bit [OF assms(2)] masked_bit [OF assms(3)]
      masked_bit [OF assms(4)])+

lemma pack_math_fields:
  "drop_bit 32 (pack_math class fam code) AND mask 4 =
     (if class = 8 \<and> fam = 0 \<and> code = 0 then 8 else word_of_int (class AND mask 3))"
  "drop_bit 21 (pack_math class fam code) AND mask 8 = word_of_int (fam AND mask 8)"
  "pack_math class fam code AND mask 21 = word_of_int (code AND mask 21)"
proof -
  let ?x = "if class = 8 \<and> fam = 0 \<and> code = 0 then 8 else word_of_int (class AND mask 3) :: 64 word"
  have "(8 :: 64 word) AND mask 4 = 8" by (simp add: mask_eq_exp_minus_1)
  moreover have "word_of_int (class AND mask 3) AND mask 4 = (word_of_int (class AND mask 3) :: 64 word)"
    by (rule bit_word_eqI) (auto simp: bit_simps)
  ultimately have x: "?x AND mask 4 = ?x" by (cases "class = 8 \<and> fam = 0 \<and> code = 0") simp_all
  have p: "pack_math class fam code = push_bit 32 ?x OR push_bit 21 (word_of_int (fam AND mask 8)) OR word_of_int (code AND mask 21)"
    unfolding pack_math_def Let_def mask_ints by (rule refl)
  show "drop_bit 32 (pack_math class fam code) AND mask 4 = ?x"
    "drop_bit 21 (pack_math class fam code) AND mask 8 = word_of_int (fam AND mask 8)"
    "pack_math class fam code AND mask 21 = word_of_int (code AND mask 21)"
    unfolding p by (rule math_fields [OF x word_masked word_masked])+
qed

lemma pack_del_fields:
  "drop_bit 50 (pack_del sf sc lf lc) AND mask 8 = word_of_int (sf AND mask 8)"
  "drop_bit 29 (pack_del sf sc lf lc) AND mask 21 = word_of_int (sc AND mask 21)"
  "drop_bit 21 (pack_del sf sc lf lc) AND mask 8 = word_of_int (lf AND mask 8)"
  "pack_del sf sc lf lc AND mask 21 = word_of_int (lc AND mask 21)"
  unfolding pack_del_def mask_ints by (rule del_fields [OF word_masked word_masked word_masked word_masked])+

lemma uint_masked: "n \<le> 64 \<Longrightarrow> uint (word_of_int (k AND mask n) :: 64 word) = k AND mask n"
  by (simp add: unsigned_of_int flip: take_bit_eq_mask)

lemma lua_tables [simp]:
  "map_of (lua_math_codes (assign_lua_math_code c class fam code g e)) =
     (map_of (lua_math_codes e))(c \<mapsto> (pack_math class fam code, if g then LEVEL_ONE else cur_level e))"
  "map_of (lua_del_codes (assign_lua_del_code c sf sc lf lc g e)) =
     (map_of (lua_del_codes e))(c \<mapsto> (pack_del sf sc lf lc, if g then LEVEL_ONE else cur_level e))"
  "math_code (assign_lua_math_code c class fam code g e) = math_code e"
  "del_code (assign_lua_del_code c sf sc lf lc g e) = del_code e"
  by (simp_all add: assign_lua_math_code_def assign_lua_del_code_def sparse_slot_def Let_def update_conv')

text \<open>
  Property C37. Codes stored in the packed tables of LuaTeX come back: after an assignment a character's mathematics code
  is the class modulo 8, the family modulo 256 and the character modulo 2 to the 21 that were assigned - with the
  active code 8, 0, 0 kept as it is - and its delimiter code is the two families and the two characters reduced the
  same way; the codes of all other characters stay.
\<close>
theorem lua_codes_roundtrip:
  "lua_math_code (assign_lua_math_code c class fam code g e) d =
     (if d \<noteq> c then lua_math_code e d
      else if class = 8 \<and> fam = 0 \<and> code = 0 then (8, 0, 0)
      else (nat (class mod 8), nat (fam mod 256), nat (code mod 2097152))) \<and>
   lua_del_code (assign_lua_del_code c sf sc lf lc g e) d =
     (if d \<noteq> c then lua_del_code e d else (sf mod 256, nat (sc mod 2097152), nat (lf mod 256), nat (lc mod 2097152)))"
proof
  have mods: "k AND mask 3 = k mod 8" "k AND mask 8 = k mod 256" "k AND mask 21 = k mod 2097152" for k :: int
    by (simp_all add: take_bit_eq_mod flip: take_bit_eq_mask)
  have words: "unat (word_of_int (k mod 8) :: 64 word) = nat (k mod 8)" "unat (word_of_int (k mod 256) :: 64 word) = nat (k mod 256)"
    "unat (word_of_int (k mod 2097152) :: 64 word) = nat (k mod 2097152)" "uint (word_of_int (k mod 256) :: 64 word) = k mod 256" for k
    using unat_masked [of 3 k] unat_masked [of 8 k] unat_masked [of 21 k] uint_masked [of 8 k] by (simp_all add: mods)
  note fields = pack_math_fields pack_del_fields mask_consts words
  have "nat (class mod 8) \<noteq> 8" by linarith
  then show "lua_math_code (assign_lua_math_code c class fam code g e) d =
     (if d \<noteq> c then lua_math_code e d
      else if class = 8 \<and> fam = 0 \<and> code = 0 then (8, 0, 0)
      else (nat (class mod 8), nat (fam mod 256), nat (code mod 2097152)))"
    by (cases "d = c"; cases "class = 8 \<and> fam = 0 \<and> code = 0") (auto simp: lua_math_code_def Let_def fields mods split: option.splits)
  show "lua_del_code (assign_lua_del_code c sf sc lf lc g e) d =
     (if d \<noteq> c then lua_del_code e d else (sf mod 256, nat (sc mod 2097152), nat (lf mod 256), nat (lc mod 2097152)))"
    by (cases "d = c") (auto simp: lua_del_code_def fields mods split: option.splits)
qed

subsection \<open>Catcode tables\<close>

lemma get_or_leveled: "get_or (map (\<lambda>(c, v, _). (c, v, n)) m) c d = get_or m c d"
  by (induction m) (auto simp: get_or_def)

text \<open>
  Property C36. Catcode tables keep their codes: making another table the current one - locally or globally - changes no
  code of any table; \<open>\savecatcodetable\<close> gives its table the codes in force and leaves the others, and
  \<open>\initcatcodetable\<close> gives it the initial codes.
\<close>
theorem catcode_tables_keep:
  assumes "k \<noteq> cat_current e"
  shows "cat_code_in (assign_cat_table k g e) j c = cat_code_in e j c \<and>
    cat_code (assign_cat_table k g e) c = cat_code_in e k c \<and>
    cat_code_in (save_cat_table k e) j c = (if j = k then cat_code e c else cat_code_in e j c) \<and>
    cat_code_in (init_cat_table k e) j c = (if j = k then table_code table_initex c else cat_code_in e j c)"
proof -
  have frame: "cat_code (x\<lparr>save_stack := st\<rparr>) c = cat_code x c" "cat_code_in (x\<lparr>save_stack := st\<rparr>) j c = cat_code_in x j c"
    "cat_code (x\<lparr>cat_current_level := n\<rparr>) c = cat_code x c" "cat_code_in (x\<lparr>cat_current_level := n\<rparr>) j c = cat_code_in x j c"
    for x :: "'a eqtb" and st n j by (simp_all add: cat_code_def cat_code_in_def)
  have sw: "cat_code_in (switch_cat_table k e') j c = cat_code_in e' j c" "cat_code (switch_cat_table k e') c = cat_code_in e' k c"
    if "cat_current e' = cat_current e" for e' :: "'a eqtb" and j
    using that assms by (auto simp: cat_code_in_def cat_code_def switch_cat_table_def table_code_def table_at_def table_blank_def
        coded_def fetch_or_def get_or_def update_conv' delete_conv' split: option.splits)
  have "cat_code_in (assign_cat_table k g e) j c = cat_code_in e j c" "cat_code (assign_cat_table k g e) c = cat_code_in e k c"
    using assms sw [of e] sw [of "push_save (SvCatCodeTable (cat_current e) (cat_current_level e)) e"]
    by (simp_all add: assign_cat_table_def Let_def push_save_def frame)
  moreover have "cat_code_in (save_cat_table k e) j c = (if j = k then cat_code e c else cat_code_in e j c)"
    using assms by (simp add: cat_code_in_def save_cat_table_def Let_def cat_code_def table_code_def update_conv' get_or_leveled fetch_or_def)
  moreover have "cat_code_in (init_cat_table k e) j c = (if j = k then table_code table_initex c else cat_code_in e j c)"
    using assms by (simp add: cat_code_in_def init_cat_table_def cat_code_def update_conv')
  ultimately show ?thesis by blast
qed

theorem catcode_tables_keep_witness:
  "cat_code_in (assign_cat_table 5 True (save_cat_table 5 (eqtb_new True :: unit eqtb))) 5 92 = CAT_ESCAPE"
proof -
  have "5 \<noteq> cat_current (save_cat_table 5 (eqtb_new True :: unit eqtb))" "5 \<noteq> cat_current (eqtb_new True :: unit eqtb)"
    by (simp_all add: save_cat_table_def eqtb_new_def)
  note keep = catcode_tables_keep [OF this(1), of True 5 92] catcode_tables_keep [OF this(2), of True 5 92]
  have "cat_code (eqtb_new True :: unit eqtb) 92 = CAT_ESCAPE"
    by (simp add: cat_code_def eqtb_new_def get_or_def fetch_or_def cat_initex_def is_letter_code_def is_upper_code_def is_lower_code_def)
  then show ?thesis using keep by simp
qed

subsection \<open>Attributes\<close>

text \<open>
  The interned lists: handle 0 is the empty list, and the index finds every other list by its pairs, so two handles
  are equal exactly when their lists are.
\<close>

definition store_ok :: "attr_lists \<Rightarrow> bool" where
  "store_ok al \<longleftrightarrow> al_lists al \<noteq> [] \<and> al_lists al ! 0 = [] \<and>
     (\<forall>ps i. map_of (al_index al) ps = Some i \<longleftrightarrow> 0 < i \<and> i < length (al_lists al) \<and> al_lists al ! i = ps \<and> ps \<noteq> [])"

lemma attr_intern_ok:
  assumes "store_ok al" "attr_intern ps al = (i, al')"
  shows "store_ok al' \<and> attr_pairs al' i = Some ps \<and> (\<exists>new. al_lists al' = al_lists al @ new)"
proof (cases "ps = []")
  case True
  then show ?thesis using assms by (auto simp: attr_intern_def store_ok_def attr_pairs_def)
next
  case False
  show ?thesis
  proof (cases "map_of (al_index al) ps")
    case None
    then have new: "al_lists al ! j \<noteq> ps" if "0 < j" "j < length (al_lists al)" for j
      using assms(1) False that unfolding store_ok_def by (metis option.distinct(1))
    have al': "al' = \<lparr>al_lists = al_lists al @ [ps], al_index = AList.update ps (length (al_lists al)) (al_index al)\<rparr>" "i = length (al_lists al)"
      using assms(2) False None by (auto simp: attr_intern_def Let_def)
    show ?thesis using assms(1) False new by (auto simp: al' store_ok_def attr_pairs_def update_conv' nth_append less_Suc_eq)
  next
    case (Some j)
    then show ?thesis using assms False by (auto simp: attr_intern_def store_ok_def attr_pairs_def)
  qed
qed

text \<open>The register numbers are 32-bit words, and a word is found again from the signed integer of the same bits.\<close>

lemma wrap_word_inj: "inj_on (\<lambda>k. wrap_i32 (int k)) {k. k < 4294967296}"
proof (rule inj_onI)
  fix j k :: nat
  assume small: "j \<in> {k. k < 4294967296}" "k \<in> {k. k < 4294967296}" and "wrap_i32 (int j) = wrap_i32 (int k)"
  then have "(int j + 2147483648) mod 4294967296 = (int k + 2147483648) mod 4294967296" by (simp add: wrap_i32_def)
  then have "(int j + 2147483648 - 2147483648) mod 4294967296 = (int k + 2147483648 - 2147483648) mod 4294967296"
    by (rule mod_diff_cong) simp
  then show "j = k" using small by (simp add: mod_pos_pos_trivial)
qed

definition keys_u32 :: "(nat \<times> 'a) list \<Rightarrow> bool" where
  "keys_u32 m \<longleftrightarrow> set (map fst m) \<subseteq> {k. k < 4294967296}"

lemma keys_u32_simps [simp]:
  "keys_u32 []"
  "k < 4294967296 \<Longrightarrow> keys_u32 m \<Longrightarrow> keys_u32 (AList.update k v m)"
  "keys_u32 m \<Longrightarrow> keys_u32 (AList.delete k m)"
proof -
  show "keys_u32 []" by (simp add: keys_u32_def)
  show "k < 4294967296 \<Longrightarrow> keys_u32 m \<Longrightarrow> keys_u32 (AList.update k v m)"
    by (induction m) (auto simp: keys_u32_def split: if_splits)
  show "keys_u32 m \<Longrightarrow> keys_u32 (AList.delete k m)"
    by (auto simp: keys_u32_def AList.delete_eq)
qed

definition attr_ok :: "'n eqtb \<Rightarrow> bool" where
  "attr_ok e \<longleftrightarrow> store_ok (attr_store e) \<and> distinct (map fst (attributes e)) \<and> keys_u32 (attributes e) \<and>
     (\<exists>ps. attr_pairs (attr_store e) (cur_attr e) = Some ps \<and> sorted (map fst ps) \<and> distinct (map fst ps) \<and>
        set ps = {(wrap_i32 (int k), w) |k w. attribute e k = w \<and> w \<noteq> UNUSED_ATTRIBUTE})"

lemma distinct_sorted: "distinct (map f (sort_key f xs)) = distinct (map f xs)"
  by (rule mset_eq_imp_distinct_iff) simp

lemma refresh_ok:
  assumes "store_ok (attr_store e)" "distinct (map fst (attributes e))" "keys_u32 (attributes e)"
  shows "attr_ok (refresh_cur_attr e) \<and> (\<exists>new. al_lists (attr_store (refresh_cur_attr e)) = al_lists (attr_store e) @ new)"
proof (cases "attributes e = []")
  case True
  then show ?thesis using assms by (auto simp: attr_ok_def refresh_cur_attr_def attr_pairs_def store_ok_def attribute_def get_or_def)
next
  case False
  let ?live = "filter (\<lambda>(_, v, _). v \<noteq> UNUSED_ATTRIBUTE) (attributes e)"
  let ?regs = "sort_key fst (map (\<lambda>(k, v, _). (wrap_i32 (int k), v)) ?live)"
  obtain i al where i: "attr_intern ?regs (attr_store e) = (i, al)" by (cases "attr_intern ?regs (attr_store e)") auto
  have e': "refresh_cur_attr e = e\<lparr>cur_attr := i, attr_store := al\<rparr>" using False i by (simp add: refresh_cur_attr_def)
  note al = attr_intern_ok [OF assms(1) i]
  have keys: "map fst (map (\<lambda>(k, v, _). (wrap_i32 (int k), v)) ?live) = map (\<lambda>k. wrap_i32 (int k)) (map fst ?live)" by (induction "attributes e") auto
  have "distinct (map fst ?live)" using assms(2) by (rule distinct_map_filter)
  then have "distinct (map fst (map (\<lambda>(k, v, _). (wrap_i32 (int k), v)) ?live))" 
    unfolding keys using inj_on_subset [OF wrap_word_inj, of "set (map fst ?live)"] assms(3)
    by (subst distinct_map) (auto simp: keys_u32_def)
  then have d: "distinct (map fst ?regs)" by (simp only: distinct_sorted)
  have "(k, v, n) \<in> set (attributes e) \<longleftrightarrow> map_of (attributes e) k = Some (v, n)" for k v n
    using assms(2) by simp
  then have set_live: "set ?regs = {(wrap_i32 (int k), v) |k v. \<exists>n. map_of (attributes e) k = Some (v, n) \<and> v \<noteq> UNUSED_ATTRIBUTE}"
    by (auto simp: image_iff) blast+
  have "set ?regs = {(wrap_i32 (int k), w) |k w. attribute e k = w \<and> w \<noteq> UNUSED_ATTRIBUTE}"
    unfolding set_live by (force simp: attribute_def get_or_def split: option.splits)
  then have "\<exists>ps. attr_pairs al i = Some ps \<and> sorted (map fst ps) \<and> distinct (map fst ps) \<and>
      set ps = {(wrap_i32 (int k), w) |k w. attribute e k = w \<and> w \<noteq> UNUSED_ATTRIBUTE}"
    using al d by (intro exI [of _ ?regs]) simp
  then show ?thesis using al assms(2,3) unfolding e' attr_ok_def attribute_def by simp
qed

lemma new_attr: "attr_store (eqtb_new ini) = attr_lists_new" "attributes (eqtb_new ini) = []" "cur_attr (eqtb_new ini) = 0"
  by (simp_all add: eqtb_new_def)

lemma update_keys_distinct: "distinct (map fst m) \<Longrightarrow> distinct (map fst (AList.update k v m))" "distinct (map fst m) \<Longrightarrow> distinct (map fst (AList.delete k m))"
  by (rule distinct_update, assumption) (rule distinct_delete)

lemma handles_stay: "al_lists al' = al_lists al @ new \<Longrightarrow> attr_pairs al i = Some ps \<Longrightarrow> attr_pairs al' i = Some ps"
  by (auto simp: attr_pairs_def nth_append split: if_splits)

lemma assign_attribute_ok:
  assumes "attr_ok e" "k < 4294967296"
  shows "attr_ok (assign_attribute k v g e) \<and> (\<exists>new. al_lists (attr_store (assign_attribute k v g e)) = al_lists (attr_store e) @ new)"
proof -
  let ?m = "AList.update k (v, if g then LEVEL_ONE else cur_level e) (attributes e)"
  obtain st where a: "assign_attribute k v g e = refresh_cur_attr (e\<lparr>attributes := ?m, save_stack := st\<rparr>)"
    by (simp add: assign_attribute_def sparse_slot_def Let_def)
  show ?thesis unfolding a using refresh_ok [of "e\<lparr>attributes := ?m, save_stack := st\<rparr>"] assms
    by (simp add: attr_ok_def update_keys_distinct)
qed

lemma unsave_attribute_ok:
  assumes "attr_ok e" "k < 4294967296" "unsave (SvAttribute k old) e = Some e'"
  shows "attr_ok e' \<and> (\<exists>new. al_lists (attr_store e') = al_lists (attr_store e) @ new)"
proof -
  let ?n = "restore_sparse (attributes e) k old"
  have "distinct (map fst ?n)"
    using assms(1) by (auto simp: attr_ok_def restore_sparse_def update_keys_distinct split: option.splits)
  moreover have "keys_u32 ?n"
    using assms(1,2) by (auto simp: attr_ok_def restore_sparse_def split: option.splits)
  ultimately show ?thesis using refresh_ok [of "e\<lparr>attributes := ?n\<rparr>"] assms by (simp add: attr_ok_def)
qed

lemma new_attr_ok: "attr_ok (eqtb_new ini)"
  by (auto simp: attr_ok_def new_attr store_ok_def attr_lists_new_def attr_pairs_def attribute_def get_or_def)

text \<open>
  Property C35. The attribute list in force names exactly the registers that are set: on a fresh table, after every
  assignment of an attribute register and after a group's end restores one, the current handle's list has one pair for
  each set register, sorted by number (a 32-bit word, held as a signed integer in the list); and the lists of all earlier handles stay, so nodes keep the attributes they
  were made with.
\<close>
theorem attribute_list_current:
  "attr_ok (eqtb_new ini) \<and>
   (attr_ok e \<and> k < 4294967296 \<longrightarrow>
      attr_ok (assign_attribute k v g e) \<and> (\<exists>e'. unsave (SvAttribute k old) e = Some e' \<and> attr_ok e' \<and>
        (\<forall>i ps. attr_pairs (attr_store e) i = Some ps \<longrightarrow>
           attr_pairs (attr_store e') i = Some ps \<and> attr_pairs (attr_store (assign_attribute k v g e)) i = Some ps)))"
proof -
  obtain e' where "unsave (SvAttribute k old) e = Some e'" by simp
  then show ?thesis using new_attr_ok assign_attribute_ok [of e k v g] unsave_attribute_ok [of e k old e'] handles_stay by metis
qed

theorem attribute_list_current_witness:
  "\<exists>ps. attr_pairs (attr_store (assign_attribute 7 3 False (eqtb_new True :: unit eqtb))) (cur_attr (assign_attribute 7 3 False (eqtb_new True :: unit eqtb))) =
     Some ps \<and> set ps = {(wrap_i32 (int k), w) |k w. attribute (assign_attribute 7 3 False (eqtb_new True :: unit eqtb)) k = w \<and> w \<noteq> UNUSED_ATTRIBUTE}"
  using attribute_list_current [of True "eqtb_new True :: unit eqtb" 7 3 False None] attribute_list_current [of True "eqtb_new True :: unit eqtb"]
  by (auto simp: attr_ok_def)

end
