(* ===== verification/BtInput.thy ===== *)
theory BtInput
  imports Prelude
begin

text \<open>
  The scanner and the transcript of \<open>crates/tex-bibtex\<close> (\<open>src/input.rs\<close>, \<open>src/log.rs\<close>): character classes, the line
  buffer with its token and scan position that the readers of \<open>.aux\<close>, \<open>.bst\<close> and \<open>.bib\<close> files share, and the log with
  the history of the job.
\<close>

subsection \<open>Character classes\<close>

(* @src crates/tex-bibtex/src/input.rs const WHITE *)
definition WHITE :: nat where "WHITE = 1"
(* @src crates/tex-bibtex/src/input.rs const ALPHA *)
definition ALPHA :: nat where "ALPHA = 2"
(* @src crates/tex-bibtex/src/input.rs const NUMERIC *)
definition NUMERIC :: nat where "NUMERIC = 3"
(* @src crates/tex-bibtex/src/input.rs const SEP *)
definition SEP :: nat where "SEP = 4"
(* @src crates/tex-bibtex/src/input.rs const OTHER *)
definition OTHER :: nat where "OTHER = 5"
(* @src crates/tex-bibtex/src/input.rs const ILLEGAL *)
definition ILLEGAL :: nat where "ILLEGAL = 0"

lemmas lex_consts = WHITE_def ALPHA_def NUMERIC_def SEP_def OTHER_def ILLEGAL_def

definition SP :: u8 where "SP = CHR 0x20"
definition HT :: u8 where "HT = CHR 0x09"
definition CR :: u8 where "CR = CHR 0x0D"
definition NL :: u8 where "NL = CHR 0x0A"
definition DQ :: u8 where "DQ = CHR 0x22"
definition SQ :: u8 where "SQ = CHR 0x27"
definition BQ :: u8 where "BQ = CHR 0x60"
definition BACKSLASH :: u8 where "BACKSLASH = CHR 0x5C"
definition BACKQUOTE :: u8 where "BACKQUOTE = CHR 0x60"

text \<open>The table is filled by class, later writes over earlier ones; no two of the classes below overlap.\<close>

(* @src crates/tex-bibtex/src/input.rs fn make_lex_class *)
definition lex_class :: "u8 \<Rightarrow> nat" where
  "lex_class c =
     (if c = HT \<or> c = CR \<or> c = SP then WHITE
      else if c = CHR ''~'' \<or> c = CHR ''-'' then SEP
      else if is_ascii_digit c then NUMERIC
      else if is_ascii_alphabetic c \<or> 0x80 \<le> byte_val c then ALPHA
      else if byte_val c < 0x20 \<or> byte_val c = 0x7F then ILLEGAL
      else OTHER)"

(* @src crates/tex-bibtex/src/input.rs fn is_white *)
definition is_white :: "u8 \<Rightarrow> bool" where "is_white c \<longleftrightarrow> lex_class c = WHITE"

(* @src crates/tex-bibtex/src/input.rs fn is_alpha *)
definition is_alpha :: "u8 \<Rightarrow> bool" where "is_alpha c \<longleftrightarrow> lex_class c = ALPHA"

(* @src crates/tex-bibtex/src/input.rs fn make_id_class *)
definition legal_id_char :: "u8 \<Rightarrow> bool" where
  "legal_id_char c \<longleftrightarrow> 0x20 \<le> byte_val c \<and> c \<notin> set ([SP, HT, DQ] @ ''#%'' @ [SQ] @ ''(),={}'')"

(* @src crates/tex-bibtex/src/input.rs fn lower_case *)
definition lower_case :: "bytes \<Rightarrow> bytes" where "lower_case b = map to_ascii_lowercase b"

definition upper_case :: "bytes \<Rightarrow> bytes" where "upper_case b = map to_ascii_uppercase b"

lemma is_white_iff: "is_white c \<longleftrightarrow> c = HT \<or> c = CR \<or> c = SP"
  by (simp add: is_white_def lex_class_def lex_consts)

lemma case_length [simp]: "length (lower_case b) = length b" "length (upper_case b) = length b"
  by (simp_all add: lower_case_def upper_case_def)

subsection \<open>The transcript\<close>

(* @src crates/tex-bibtex/src/log.rs enum History *)
datatype history = Spotless | Warning | Error | Fatal

instantiation history :: linorder
begin

fun severity :: "history \<Rightarrow> nat" where
  "severity Spotless = 0" | "severity Warning = 1" | "severity Error = 2" | "severity Fatal = 3"

definition less_eq_history :: "history \<Rightarrow> history \<Rightarrow> bool" where "a \<le> b \<longleftrightarrow> severity a \<le> severity b"
definition less_history :: "history \<Rightarrow> history \<Rightarrow> bool" where "a < b \<longleftrightarrow> severity a < severity b"

lemma severity_inject [simp]: "severity a = severity b \<longleftrightarrow> a = b"
  by (cases a; cases b) auto

instance by standard (auto simp: less_eq_history_def less_history_def simp flip: severity_inject)

end

(* @src crates/tex-bibtex/src/log.rs struct Log *)
record blog =
  blg :: bytes
  terminal :: bytes
  history :: history
  err_count :: nat

(* @src crates/tex-bibtex/src/log.rs impl Log fn new *)
definition log_new :: blog where
  "log_new = \<lparr>blg = [], terminal = [], history = Spotless, err_count = 0\<rparr>"

(* @src crates/tex-bibtex/src/log.rs impl Log fn print *)
definition log_print :: "bytes \<Rightarrow> blog \<Rightarrow> blog" where
  "log_print s l = l\<lparr>blg := blg l @ s, terminal := terminal l @ s\<rparr>"

(* @src crates/tex-bibtex/src/log.rs impl Log fn println *)
definition log_println :: "bytes \<Rightarrow> blog \<Rightarrow> blog" where
  "log_println s l = log_print [NL] (log_print s l)"

(* @src crates/tex-bibtex/src/log.rs impl Log fn log_only *)
definition log_only :: "bytes \<Rightarrow> blog \<Rightarrow> blog" where
  "log_only s l = l\<lparr>blg := blg l @ s\<rparr>"

(* @src crates/tex-bibtex/src/log.rs impl Log fn mark_warning *)
definition mark_warning :: "blog \<Rightarrow> blog" where
  "mark_warning l = (case history l of
     Warning \<Rightarrow> l\<lparr>err_count := err_count l + 1\<rparr>
   | Spotless \<Rightarrow> l\<lparr>history := Warning, err_count := 1\<rparr>
   | _ \<Rightarrow> l)"

(* @src crates/tex-bibtex/src/log.rs impl Log fn mark_error *)
definition mark_error :: "blog \<Rightarrow> blog" where
  "mark_error l =
     (if history l < Error then l\<lparr>history := Error, err_count := 1\<rparr> else l\<lparr>err_count := err_count l + 1\<rparr>)"

(* @src crates/tex-bibtex/src/log.rs impl Log fn mark_fatal *)
definition mark_fatal :: "blog \<Rightarrow> blog" where
  "mark_fatal l = l\<lparr>history := Fatal\<rparr>"

(* @src crates/tex-bibtex/src/log.rs impl Log fn print_history *)
definition print_history :: "blog \<Rightarrow> blog" where
  "print_history l =
     (let n = err_count l
      in case history l of
           Spotless \<Rightarrow> l
         | Warning \<Rightarrow> if n = 1 then log_println ''(There was 1 warning)'' l
                      else log_println (''(There were '' @ dec_nat n @ '' warnings)'') l
         | Error \<Rightarrow> if n = 1 then log_println ''(There was 1 error message)'' l
                    else log_println (''(There were '' @ dec_nat n @ '' error messages)'') l
         | Fatal \<Rightarrow> log_println ''(That was a fatal error)'' l)"

subsection \<open>The scanner\<close>

(* @src crates/tex-bibtex/src/input.rs enum IdScan *)
datatype id_scan = IdNull | SpecifiedCharAdjacent | OtherCharAdjacent | WhiteAdjacent

(* @src crates/tex-bibtex/src/input.rs struct Source *)
record source =
  src_bytes :: bytes
  src_pos :: nat

(* @src crates/tex-bibtex/src/input.rs impl Source fn at_eof *)
definition at_eof :: "source \<Rightarrow> bool" where
  "at_eof s \<longleftrightarrow> length (src_bytes s) \<le> src_pos s"

(* @src crates/tex-bibtex/src/input.rs struct Scanner *)
record scanner =
  src :: source
  buf :: bytes
  lst :: nat
  p1 :: nat
  p2 :: nat
  line :: nat

(* @src crates/tex-bibtex/src/input.rs impl Scanner fn new *)
definition scanner_new :: "bytes \<Rightarrow> scanner" where
  "scanner_new bs = \<lparr>src = \<lparr>src_bytes = bs, src_pos = 0\<rparr>, buf = [CHR 0x00], lst = 0, p1 = 0, p2 = 0, line = 0\<rparr>"

text \<open>The loop that drops trailing white space.\<close>

definition trim_end :: "bytes \<Rightarrow> bytes" where
  "trim_end s = rev (dropWhile is_white (rev s))"

(* @src crates/tex-bibtex/src/input.rs impl Scanner fn input_ln *)
definition input_ln :: "scanner \<Rightarrow> bool \<times> scanner" where
  "input_ln sc =
     (let s = src sc
      in if length (src_bytes s) \<le> src_pos s then (False, sc\<lparr>lst := 0\<rparr>)
         else
           let rest = drop (src_pos s) (src_bytes s);
               ln = takeWhile (\<lambda>c. c \<noteq> NL \<and> c \<noteq> CR) rest;
               text = trim_end ln
           in (True, sc\<lparr>buf := text @ [CHR 0x00], lst := length text, src := s\<lparr>src_pos := src_pos s + length ln + 1\<rparr>\<rparr>))"

text \<open>The scan position stays in the buffer (\<open>scan_ok\<close> below), so the read is never past its end.\<close>

(* @src crates/tex-bibtex/src/input.rs impl Scanner fn scan_char *)
definition scan_char :: "scanner \<Rightarrow> u8" where
  "scan_char sc = byte_at (buf sc) (p2 sc)"

(* @src crates/tex-bibtex/src/input.rs impl Scanner fn token *)
definition token :: "scanner \<Rightarrow> bytes" where
  "token sc = take (p2 sc - p1 sc) (drop (p1 sc) (buf sc))"

(* @src crates/tex-bibtex/src/input.rs impl Scanner fn lower_case_token *)
definition lower_case_token :: "scanner \<Rightarrow> scanner" where
  "lower_case_token sc = sc\<lparr>buf := take (p1 sc) (buf sc) @ lower_case (token sc) @ drop (p2 sc) (buf sc)\<rparr>"

text \<open>\<open>while i < last && ok(buf[i]) { i += 1 }\<close>\<close>

function run_end :: "(u8 \<Rightarrow> bool) \<Rightarrow> bytes \<Rightarrow> nat \<Rightarrow> nat \<Rightarrow> nat" where
  "run_end ok b n i = (if i < n \<and> ok (byte_at b i) then run_end ok b n (i + 1) else i)"
  by pat_completeness auto
termination by (relation "measure (\<lambda>(ok, b, n, i). n - i)") auto

declare run_end.simps [simp del]

definition scan_while :: "(u8 \<Rightarrow> bool) \<Rightarrow> scanner \<Rightarrow> scanner" where
  "scan_while ok sc = sc\<lparr>p1 := p2 sc, p2 := run_end ok (buf sc) (lst sc) (p2 sc)\<rparr>"

definition more_line :: "scanner \<Rightarrow> bool" where
  "more_line sc \<longleftrightarrow> p2 sc < lst sc"

(* @src crates/tex-bibtex/src/input.rs impl Scanner fn scan1 *)
definition scan1 :: "u8 \<Rightarrow> scanner \<Rightarrow> bool \<times> scanner" where
  "scan1 c1 sc = (let sc = scan_while (\<lambda>c. c \<noteq> c1) sc in (more_line sc, sc))"

(* @src crates/tex-bibtex/src/input.rs impl Scanner fn scan1_white *)
definition scan1_white :: "u8 \<Rightarrow> scanner \<Rightarrow> bool \<times> scanner" where
  "scan1_white c1 sc = (let sc = scan_while (\<lambda>c. \<not> is_white c \<and> c \<noteq> c1) sc in (more_line sc, sc))"

(* @src crates/tex-bibtex/src/input.rs impl Scanner fn scan2 *)
definition scan2 :: "u8 \<Rightarrow> u8 \<Rightarrow> scanner \<Rightarrow> bool \<times> scanner" where
  "scan2 c1 c2 sc = (let sc = scan_while (\<lambda>c. c \<noteq> c1 \<and> c \<noteq> c2) sc in (more_line sc, sc))"

(* @src crates/tex-bibtex/src/input.rs impl Scanner fn scan2_white *)
definition scan2_white :: "u8 \<Rightarrow> u8 \<Rightarrow> scanner \<Rightarrow> bool \<times> scanner" where
  "scan2_white c1 c2 sc = (let sc = scan_while (\<lambda>c. \<not> (c = c1 \<or> c = c2 \<or> is_white c)) sc in (more_line sc, sc))"

(* @src crates/tex-bibtex/src/input.rs impl Scanner fn scan3 *)
definition scan3 :: "u8 \<Rightarrow> u8 \<Rightarrow> u8 \<Rightarrow> scanner \<Rightarrow> bool \<times> scanner" where
  "scan3 c1 c2 c3 sc = (let sc = scan_while (\<lambda>c. \<not> (c = c1 \<or> c = c2 \<or> c = c3)) sc in (more_line sc, sc))"

(* @src crates/tex-bibtex/src/input.rs impl Scanner fn scan_alpha *)
definition scan_alpha :: "scanner \<Rightarrow> bool \<times> scanner" where
  "scan_alpha sc = (let sc = scan_while is_alpha sc in (p1 sc < p2 sc, sc))"

(* @src crates/tex-bibtex/src/input.rs impl Scanner fn scan_identifier *)
definition scan_identifier :: "u8 \<Rightarrow> u8 \<Rightarrow> u8 \<Rightarrow> scanner \<Rightarrow> id_scan \<times> scanner" where
  "scan_identifier c1 c2 c3 sc =
     (let sc = (if lex_class (scan_char sc) \<noteq> NUMERIC then scan_while legal_id_char sc else sc\<lparr>p1 := p2 sc\<rparr>);
          c = scan_char sc
      in (if p2 sc = p1 sc then IdNull
          else if is_white c \<or> p2 sc = lst sc then WhiteAdjacent
          else if c = c1 \<or> c = c2 \<or> c = c3 then SpecifiedCharAdjacent
          else OtherCharAdjacent, sc))"

text \<open>\<open>v = v * 10 + digit\<close> in 32 bits.\<close>

definition digits_value :: "bytes \<Rightarrow> int" where
  "digits_value ds = fold (\<lambda>d v. wrap_i32 (wrap_i32 (v * 10) + (byte_val d - 48))) ds 0"

(* @src crates/tex-bibtex/src/input.rs impl Scanner fn scan_nonneg_integer *)
definition scan_nonneg_integer :: "scanner \<Rightarrow> int option \<times> scanner" where
  "scan_nonneg_integer sc =
     (let sc = scan_while (\<lambda>c. lex_class c = NUMERIC) sc
      in (if p1 sc < p2 sc then Some (digits_value (token sc)) else None, sc))"

(* @src crates/tex-bibtex/src/input.rs impl Scanner fn scan_integer *)
definition scan_integer :: "scanner \<Rightarrow> int option \<times> scanner" where
  "scan_integer sc =
     (let start = p2 sc; negative = (scan_char sc = CHR ''-'');
          sc = scan_while (\<lambda>c. lex_class c = NUMERIC) (if negative then sc\<lparr>p2 := p2 sc + 1\<rparr> else sc);
          v = digits_value (token sc)
      in (if p2 sc = p1 sc then None else Some (if negative then wrap_i32 (- v) else v), sc\<lparr>p1 := start\<rparr>))"

(* @src crates/tex-bibtex/src/input.rs impl Scanner fn scan_white_space *)
definition scan_white_space :: "scanner \<Rightarrow> bool \<times> scanner" where
  "scan_white_space sc = (let sc = sc\<lparr>p2 := run_end is_white (buf sc) (lst sc) (p2 sc)\<rparr> in (more_line sc, sc))"

(* @src crates/tex-bibtex/src/input.rs impl Scanner fn bad_input_line *)
definition bad_input_line :: "scanner \<Rightarrow> bytes" where
  "bad_input_line sc =
     (let blank = map (\<lambda>c. if is_white c then SP else c); seen = take (p2 sc) (buf sc)
      in '' : '' @ blank seen @ [NL] @ '' : '' @ replicate (p2 sc) SP
         @ (if p2 sc \<le> lst sc then blank (take (lst sc - p2 sc) (drop (p2 sc) (buf sc))) else []) @ [NL]
         @ (if list_all is_white seen then ''(Error may have been on previous line)'' @ [NL] else []))"

subsection \<open>The scan position stays in the buffer\<close>

definition scan_ok :: "scanner \<Rightarrow> bool" where
  "scan_ok sc \<longleftrightarrow> p2 sc < length (buf sc) \<and> lst sc < length (buf sc)"

lemma run_end_bounds: "i \<le> run_end ok b n i" "i \<le> n \<Longrightarrow> run_end ok b n i \<le> n"
  by (induction ok b n i rule: run_end.induct; subst run_end.simps; auto)+

lemma run_end_past: "n \<le> i \<Longrightarrow> run_end ok b n i = i"
  by (subst run_end.simps) simp

lemma run_end_stops: "run_end ok b n i < n \<Longrightarrow> \<not> ok (byte_at b (run_end ok b n i))"
  by (induction ok b n i rule: run_end.induct; subst run_end.simps; subst (asm) run_end.simps; auto split: if_splits)

lemma run_end_all: "i \<le> j \<Longrightarrow> j < run_end ok b n i \<Longrightarrow> ok (byte_at b j)"
proof (induction ok b n i rule: run_end.induct)
  case (1 ok b n i)
  then show ?case by (cases "i < n \<and> ok (byte_at b i)"; cases "i = j") (auto simp: run_end.simps [of ok b n i] run_end.simps [of ok b n j])
qed

text \<open>The scanning operations keep the position in the buffer, and do not go back.\<close>

definition advances :: "scanner \<Rightarrow> scanner \<Rightarrow> bool" where
  "advances sc sc' \<longleftrightarrow> src sc' = src sc \<and> length (buf sc') = length (buf sc) \<and> lst sc' = lst sc \<and> line sc' = line sc \<and>
     p2 sc \<le> p2 sc' \<and> (p2 sc \<le> lst sc \<longrightarrow> p2 sc' \<le> lst sc) \<and> (lst sc < p2 sc \<longrightarrow> p2 sc' = p2 sc)"

lemma advances_ok: "advances sc sc' \<Longrightarrow> scan_ok sc \<Longrightarrow> scan_ok sc'"
  by (auto simp: advances_def scan_ok_def)

lemma advances_refl [simp]: "advances sc sc"
  by (simp add: advances_def)

lemma advances_trans: "advances sc sc1 \<Longrightarrow> advances sc1 sc2 \<Longrightarrow> advances sc sc2"
  by (auto simp: advances_def)

lemma scan_while_advances: "advances sc (scan_while ok sc)"
  using run_end_bounds [where i = "p2 sc" and n = "lst sc" and ok = ok and b = "buf sc"] run_end_past [of "lst sc" "p2 sc" ok "buf sc"]
  by (auto simp: advances_def scan_while_def)

lemma scans_advance [simp]:
  "advances sc (snd (scan1 c1 sc))" "advances sc (snd (scan1_white c1 sc))" "advances sc (snd (scan2 c1 c2 sc))"
  "advances sc (snd (scan2_white c1 c2 sc))" "advances sc (snd (scan3 c1 c2 c3 sc))" "advances sc (snd (scan_alpha sc))"
  "advances sc (snd (scan_identifier c1 c2 c3 sc))" "advances sc (snd (scan_nonneg_integer sc))" "advances sc (snd (scan_white_space sc))"
  using scan_while_advances run_end_bounds [where i = "p2 sc" and n = "lst sc" and ok = is_white and b = "buf sc"] run_end_past [of "lst sc" "p2 sc" is_white "buf sc"]
  by (auto simp: scan1_def scan1_white_def scan2_def scan2_white_def scan3_def scan_alpha_def scan_identifier_def
      scan_nonneg_integer_def scan_white_space_def Let_def) (auto simp: advances_def)

lemma trim_end_length: "length (trim_end s) \<le> length s"
  by (simp add: trim_end_def) (metis length_dropWhile_le length_rev)

lemma input_ln_ok: "input_ln sc = (True, sc') \<Longrightarrow> scan_ok (sc'\<lparr>p2 := 0\<rparr>)"
  by (auto simp: input_ln_def scan_ok_def Let_def split: if_splits)

lemma input_ln_fail: "input_ln sc = (False, sc') \<Longrightarrow> sc' = sc\<lparr>lst := 0\<rparr>"
  by (auto simp: input_ln_def Let_def split: if_splits)

text \<open>The bytes that are left to read: each line takes at least its end.\<close>

definition unread :: "scanner \<Rightarrow> nat" where
  "unread sc = length (src_bytes (src sc)) - src_pos (src sc)"

lemma input_ln_unread: "input_ln sc = (True, sc') \<Longrightarrow> unread sc' < unread sc"
  by (auto simp: input_ln_def unread_def Let_def split: if_splits)

end
