(* ===== verification/BtText.thy ===== *)
theory BtText
  imports BtInput
begin

text \<open>
  The string functions without side effects (\<open>crates/tex-bibtex/src/text.rs\<close>): the special characters of BibTeX,
  widths, \<open>add.period$\<close>, \<open>substring$\<close>, \<open>text.length$\<close>, \<open>text.prefix$\<close>, \<open>purify$\<close> and the case conversion of a
  special character for \<open>change.case$\<close>.
\<close>

subsection \<open>Special characters\<close>

(* @src crates/tex-bibtex/src/text.rs enum Cs *)
datatype cs = Cs_I | Cs_J | Cs_Oe | Cs_OeUpper | Cs_Ae | Cs_AeUpper | Cs_Aa | Cs_AaUpper | Cs_O | Cs_OUpper | Cs_L | Cs_LUpper | Cs_Ss

(* @src crates/tex-bibtex/src/text.rs impl Cs fn is_lower_case *)
definition is_lower_case :: "cs \<Rightarrow> bool" where
  "is_lower_case c \<longleftrightarrow> c \<notin> {Cs_OeUpper, Cs_AeUpper, Cs_AaUpper, Cs_OUpper, Cs_LUpper}"

(* @src crates/tex-bibtex/src/text.rs fn control_seq *)
definition control_seq :: "bytes \<Rightarrow> cs option" where
  "control_seq name =
     (if name = ''i'' then Some Cs_I else if name = ''j'' then Some Cs_J
      else if name = ''oe'' then Some Cs_Oe else if name = ''OE'' then Some Cs_OeUpper
      else if name = ''ae'' then Some Cs_Ae else if name = ''AE'' then Some Cs_AeUpper
      else if name = ''aa'' then Some Cs_Aa else if name = ''AA'' then Some Cs_AaUpper
      else if name = ''o'' then Some Cs_O else if name = ''O'' then Some Cs_OUpper
      else if name = ''l'' then Some Cs_L else if name = ''L'' then Some Cs_LUpper
      else if name = ''ss'' then Some Cs_Ss else None)"

(* @src crates/tex-bibtex/src/text.rs const CHAR_WIDTH *)
definition CHAR_WIDTH :: "int list" where
  "CHAR_WIDTH = [
    278, 278, 500, 833, 500, 833, 778, 278, 389, 389, 500, 778, 278, 333, 278, 500,
    500, 500, 500, 500, 500, 500, 500, 500, 500, 500, 278, 278, 278, 778, 472, 472,
    778, 750, 708, 722, 764, 681, 653, 785, 750, 361, 514, 778, 625, 917, 750, 778,
    681, 778, 736, 556, 722, 750, 750, 1028, 750, 750, 611, 278, 500, 278, 500, 278,
    278, 500, 556, 444, 556, 444, 306, 500, 556, 278, 306, 528, 278, 833, 556, 500,
    556, 528, 392, 394, 389, 556, 528, 722, 528, 528, 444, 500, 1000, 500, 500]"

(* @src crates/tex-bibtex/src/text.rs fn char_width *)
definition char_width :: "u8 \<Rightarrow> int" where
  "char_width c = (if 32 \<le> byte_val c \<and> byte_val c \<le> 126 then CHAR_WIDTH ! nat (byte_val c - 32) else 0)"

(* @src crates/tex-bibtex/src/text.rs fn special_width *)
definition special_width :: "cs \<Rightarrow> u8 \<Rightarrow> int" where
  "special_width c first = (case c of
     Cs_Ss \<Rightarrow> 500 | Cs_Ae \<Rightarrow> 722 | Cs_Oe \<Rightarrow> 778 | Cs_AeUpper \<Rightarrow> 903 | Cs_OeUpper \<Rightarrow> 1014 | _ \<Rightarrow> char_width first)"

subsection \<open>Periods and substrings\<close>

(* @src crates/tex-bibtex/src/text.rs fn add_period *)
definition add_period :: "bytes \<Rightarrow> bytes option" where
  "add_period s =
     (if s = [] then None
      else
        let final = (case find (\<lambda>c. c \<noteq> CHR ''}'') (rev s) of Some c \<Rightarrow> c | None \<Rightarrow> hd s)
        in if final \<in> {CHR ''.'', CHR ''?'', CHR ''!''} then None else Some (s @ ''.''))"

(* @src crates/tex-bibtex/src/text.rs fn substring *)
definition substring :: "bytes \<Rightarrow> int \<Rightarrow> int \<Rightarrow> bytes option" where
  "substring s start len =
     (let n = int (length s)
      in if n \<le> len \<and> (start = 1 \<or> start = - 1) then None
         else if len \<le> 0 \<or> start = 0 \<or> n < start \<or> start < - n then Some []
         else if 0 < start then
           let len = (if n - (start - 1) < len then n - (start - 1) else len)
           in Some (take (nat len) (drop (nat (start - 1)) s))
         else
           let start = - start; len = (if n - (start - 1) < len then n - (start - 1) else len); stop = n - (start - 1)
           in Some (take (nat len) (drop (nat (stop - len)) s)))"

subsection \<open>Text characters\<close>

(* @src crates/tex-bibtex/src/text.rs:127-131 skip_special *)
definition brace_step :: "u8 \<Rightarrow> nat \<Rightarrow> nat" where
  "brace_step c level = (if c = CHR ''}'' then level - 1 else if c = CHR ''{'' then level + 1 else level)"

(* @src crates/tex-bibtex/src/text.rs fn skip_special *)
function skip_special :: "bytes \<Rightarrow> nat \<Rightarrow> nat \<Rightarrow> nat \<times> nat" where
  "skip_special s i level =
     (if i < length s \<and> 0 < level then skip_special s (i + 1) (brace_step (s ! i) level) else (i, level))"
  by pat_completeness auto
termination by (relation "measure (\<lambda>(s, i, level). length s - i)") auto

declare skip_special.simps [simp del]

lemma skip_special_ge: "skip_special s i level = (j, k) \<Longrightarrow> i \<le> j \<and> (i \<le> length s \<longrightarrow> j \<le> length s)"
  by (induction s i level rule: skip_special.induct) (subst (asm) (2) skip_special.simps, auto split: if_splits)

text \<open>A brace that opens a special character: \<open>level\<close> counts it already, \<open>i\<close> is just past it.\<close>

(* @src crates/tex-bibtex/src/text.rs:147-147 text_length *)
definition special_at :: "bytes \<Rightarrow> nat \<Rightarrow> nat \<Rightarrow> bool" where
  "special_at s i level \<longleftrightarrow> level = 1 \<and> i < length s \<and> s ! i = BACKSLASH"

(* @src crates/tex-bibtex/src/text.rs fn text_length *)
function text_length_loop :: "bytes \<Rightarrow> nat \<Rightarrow> nat \<Rightarrow> nat \<Rightarrow> nat" where
  "text_length_loop s i level n =
     (if i < length s then
        let c = s ! i; i = i + 1
        in if c = CHR ''{'' then
             let level = level + 1
             in if special_at s i level then
                  let (i, level) = skip_special s (i + 1) level in text_length_loop s i level (n + 1)
                else text_length_loop s i level n
           else if c = CHR ''}'' then text_length_loop s i (level - 1) n
           else text_length_loop s i level (n + 1)
      else n)"
  by pat_completeness auto
termination
proof (relation "measure (\<lambda>(s, i, level, n). length s - i)")
  fix s :: bytes and i level n c x xa xb xc xd
  assume "i < length s" "x = i + 1" "special_at s x xa" "xb = skip_special s (x + 1) xa" "(xc, xd) = xb"
  then show "((s, xc, xd, n + 1), s, i, level, n) \<in> measure (\<lambda>(s, i, level, n). length s - i)"
    using skip_special_ge [of s "i + 2" xa xc xd] by auto
qed auto

(* @src crates/tex-bibtex/src/text.rs fn text_length *)
definition text_length :: "bytes \<Rightarrow> nat" where
  "text_length s = text_length_loop s 0 0 0"

(* @src crates/tex-bibtex/src/text.rs fn text_prefix *)
function text_prefix_loop :: "bytes \<Rightarrow> nat \<Rightarrow> nat \<Rightarrow> nat \<Rightarrow> nat \<Rightarrow> nat \<times> nat" where
  "text_prefix_loop s n i level num =
     (if i < length s \<and> num < n then
        let c = s ! i; i = i + 1
        in if c = CHR ''{'' then
             let level = level + 1
             in if special_at s i level then
                  let (i, level) = skip_special s (i + 1) level in text_prefix_loop s n i level (num + 1)
                else text_prefix_loop s n i level num
           else if c = CHR ''}'' then text_prefix_loop s n i (level - 1) num
           else text_prefix_loop s n i level (num + 1)
      else (i, level))"
  by pat_completeness auto
termination
proof (relation "measure (\<lambda>(s, n, i, level, num). length s - i)")
  fix s :: bytes and n i level num :: nat and c x xa xb xc xd
  assume "i < length s \<and> num < n" "x = i + 1" "special_at s x xa" "xb = skip_special s (x + 1) xa" "(xc, xd) = xb"
  then show "((s, n, xc, xd, num + 1), s, n, i, level, num) \<in> measure (\<lambda>(s, n, i, level, num). length s - i)"
    using skip_special_ge [of s "i + 2" xa xc xd] by auto
qed auto

declare text_length_loop.simps [simp del] text_prefix_loop.simps [simp del]

(* @src crates/tex-bibtex/src/text.rs fn text_prefix *)
definition text_prefix :: "bytes \<Rightarrow> nat \<Rightarrow> bytes" where
  "text_prefix s n = (let (i, level) = text_prefix_loop s n 0 0 0 in take i s @ replicate level (CHR ''}''))"

subsection \<open>\<open>purify$\<close>\<close>

text \<open>Inside a special character: letters and digits up to the next backslash or the closing brace.\<close>

(* @src crates/tex-bibtex/src/text.rs:213-221 purify *)
function purify_rest :: "bytes \<Rightarrow> nat \<Rightarrow> nat \<Rightarrow> bytes \<Rightarrow> nat \<times> nat \<times> bytes" where
  "purify_rest s i level out =
     (if i < length s \<and> 0 < level \<and> s ! i \<noteq> BACKSLASH then
        let c = s ! i
        in purify_rest s (i + 1) (brace_step c level)
             (if c \<noteq> CHR ''}'' \<and> c \<noteq> CHR ''{'' \<and> lex_class c \<in> {ALPHA, NUMERIC} then out @ [c] else out)
      else (i, level, out))"
  by pat_completeness auto
termination by (relation "measure (\<lambda>(s, i, level, out). length s - i)") auto

declare purify_rest.simps [simp del]

(* @src crates/tex-bibtex/src/text.rs:207-212 purify *)
definition purify_cs :: "bytes \<Rightarrow> nat \<Rightarrow> nat \<Rightarrow> bytes" where
  "purify_cs s ys i = (case control_seq (take (i - ys) (drop ys s)) of
     None \<Rightarrow> []
   | Some c \<Rightarrow> s ! ys # (if c \<in> {Cs_Oe, Cs_OeUpper, Cs_Ae, Cs_AeUpper, Cs_Ss} then [s ! (ys + 1)] else []))"

lemma purify_rest_ge: "purify_rest s i level out = (j, k, t) \<Longrightarrow> i \<le> j"
  by (induction s i level out rule: purify_rest.induct) (subst (asm) (2) purify_rest.simps, auto simp: Let_def split: if_splits)

(* @src crates/tex-bibtex/src/text.rs:199-223 purify *)
function purify_special :: "bytes \<Rightarrow> nat \<Rightarrow> nat \<Rightarrow> bytes \<Rightarrow> nat \<times> nat \<times> bytes" where
  "purify_special s i level out =
     (if i < length s \<and> 0 < level then
        let ys = i + 1; j = run_end is_alpha s (length s) ys; (i, level, out) = purify_rest s j level (out @ purify_cs s ys j)
        in purify_special s i level out
      else (i, level, out))"
  by pat_completeness auto
termination
proof (relation "measure (\<lambda>(s, i, level, out). length s - i)")
  fix s :: bytes and i level :: nat and out x xa xb xc xd xe xf
  assume "i < length s \<and> 0 < level" "x = i + 1" "xa = run_end is_alpha s (length s) x"
    "xb = purify_rest s xa level (out @ purify_cs s x xa)" "(xc, xd) = xb" "(xe, xf) = xd"
  then have "i < xc" using run_end_bounds(1) [of x is_alpha s "length s"] purify_rest_ge [of s xa level "out @ purify_cs s x xa" xc xe xf] by simp
  then show "((s, xc, xe, xf), s, i, level, out) \<in> measure (\<lambda>(s, i, level, out). length s - i)" using \<open>i < length s \<and> 0 < level\<close> by auto
qed auto

declare purify_special.simps [simp del]

lemma purify_special_ge: "purify_special s i level out = (j, k, t) \<Longrightarrow> i \<le> j"
proof (induction s i level out rule: purify_special.induct)
  case (1 s i level out)
  show ?case
  proof (cases "i < length s \<and> 0 < level")
    case True
    let ?j = "run_end is_alpha s (length s) (i + 1)"
    obtain i' level' out' where r: "purify_rest s ?j level (out @ purify_cs s (i + 1) ?j) = (i', level', out')"
      by (cases "purify_rest s ?j level (out @ purify_cs s (i + 1) ?j)") auto
    have "purify_special s i' level' out' = (j, k, t)" using 1(2) True r by (simp add: purify_special.simps [of s i])
    then have "i' \<le> j" using 1(1) [OF True refl refl r [symmetric] refl refl] by blast
    then show ?thesis using run_end_bounds(1) [of "i + 1" is_alpha s "length s"] purify_rest_ge [OF r] by simp
  next
    case False
    then have "purify_special s i level out = (i, level, out)" by (subst purify_special.simps) (rule if_not_P)
    then show ?thesis using 1(2) by simp
  qed
qed

(* @src crates/tex-bibtex/src/text.rs fn purify *)
function purify_loop :: "bytes \<Rightarrow> nat \<Rightarrow> nat \<Rightarrow> bytes \<Rightarrow> bytes" where
  "purify_loop s i level out =
     (if i < length s then
        let c = s ! i
        in if lex_class c \<in> {WHITE, SEP} then purify_loop s (i + 1) level (out @ [SP])
           else if lex_class c \<in> {ALPHA, NUMERIC} then purify_loop s (i + 1) level (out @ [c])
           else if c = CHR ''{'' then
             let level = level + 1
             in if special_at s (i + 1) level then
                  let (j, level, out) = purify_special s (i + 1) level out in purify_loop s j level out
                else purify_loop s (i + 1) level out
           else if c = CHR ''}'' then purify_loop s (i + 1) (level - 1) out
           else purify_loop s (i + 1) level out
      else out)"
  by pat_completeness auto
termination
proof (relation "measure (\<lambda>(s, i, level, out). length s - i)")
  fix s :: bytes and i level :: nat and out x xa xb xc xd xe xf
  assume a: "i < length s" "xb = purify_special s (i + 1) xa out" "(xc, xd) = xb" "(xe, xf) = xd"
  then have "i < xc" using purify_special_ge [of s "i + 1" xa out xc xe xf] by simp
  then show "((s, xc, xe, xf), s, i, level, out) \<in> measure (\<lambda>(s, i, level, out). length s - i)"
    using a(1) by simp
qed auto

declare purify_loop.simps [simp del]

(* @src crates/tex-bibtex/src/text.rs fn purify *)
definition purify :: "bytes \<Rightarrow> bytes" where
  "purify s = purify_loop s 0 0 []"

subsection \<open>Case conversion\<close>

(* @src crates/tex-bibtex/src/text.rs enum Case *)
datatype case_conv = Title | Lower | Upper | Bad

(* @src crates/tex-bibtex/src/text.rs fn convert *)
definition convert :: "case_conv \<Rightarrow> bytes \<Rightarrow> bytes" where
  "convert conv b = (case conv of Title \<Rightarrow> lower_case b | Lower \<Rightarrow> lower_case b | Upper \<Rightarrow> upper_case b | Bad \<Rightarrow> b)"

text \<open>\<open>f(&mut buf[a..b])\<close>\<close>

(* @src crates/tex-bibtex/src/text.rs:265-265 convert_special *)
definition on_range :: "(bytes \<Rightarrow> bytes) \<Rightarrow> nat \<Rightarrow> nat \<Rightarrow> bytes \<Rightarrow> bytes" where
  "on_range f a b xs = take a xs @ f (take (b - a) (drop a xs)) @ drop b xs"

text \<open>
  A control sequence at \<open>xs..i\<close> that upper case spells out: its backslash and the white space after it go.
\<close>

(* @src crates/tex-bibtex/src/text.rs:273-281 convert_special *)
definition strip_cs :: "bytes \<Rightarrow> nat \<Rightarrow> nat \<Rightarrow> bytes \<times> nat" where
  "strip_cs b xs i =
     (let b = take (xs - 1) b @ drop xs b; ws = i - 1
      in (take ws b @ drop (run_end is_white b (length b) ws) b, ws))"

text \<open>The control sequence at \<open>xs..i\<close>: the buffer after its conversion, and the position after it.\<close>

(* @src crates/tex-bibtex/src/text.rs:261-287 convert_special *)
definition convert_cs :: "case_conv \<Rightarrow> bytes \<Rightarrow> nat \<Rightarrow> nat \<Rightarrow> bytes \<times> nat" where
  "convert_cs conv b xs i = (case control_seq (take (i - xs) (drop xs b)) of
     None \<Rightarrow> (b, i)
   | Some c \<Rightarrow>
       (if conv \<in> {Title, Lower} then (if is_lower_case c then b else on_range lower_case xs i b, i)
        else if conv = Upper then
          if c \<in> {Cs_L, Cs_O, Cs_Oe, Cs_Ae, Cs_Aa} then (on_range upper_case xs i b, i)
          else if c \<in> {Cs_I, Cs_J, Cs_Ss} then strip_cs (on_range upper_case xs i b) xs i
          else (b, i)
        else (b, i)))"

(* @src crates/tex-bibtex/src/text.rs:290-294 convert_special *)
definition brace_step_int :: "u8 \<Rightarrow> int \<Rightarrow> int" where
  "brace_step_int c level = (if c = CHR ''}'' then level - 1 else if c = CHR ''{'' then level + 1 else level)"

(* @src crates/tex-bibtex/src/text.rs:288-296 convert_special *)
function skip_plain :: "bytes \<Rightarrow> nat \<Rightarrow> int \<Rightarrow> nat \<times> int" where
  "skip_plain b i level =
     (if i < length b \<and> 0 < level \<and> b ! i \<noteq> BACKSLASH then skip_plain b (i + 1) (brace_step_int (b ! i) level) else (i, level))"
  by pat_completeness auto
termination by (relation "measure (\<lambda>(b, i, level). length b - i)") auto

declare skip_plain.simps [simp del]

lemma skip_plain_ge: "skip_plain b i level = (j, k) \<Longrightarrow> i \<le> j \<and> (i \<le> length b \<longrightarrow> j \<le> length b)"
  by (induction b i level rule: skip_plain.induct) (subst (asm) (2) skip_plain.simps, auto split: if_splits)

lemma control_seq_empty [simp]: "control_seq [] = None"
  by (simp add: control_seq_def)

lemma on_range_length [simp]: "a \<le> b \<Longrightarrow> b \<le> length xs \<Longrightarrow> (\<And>ys. length (f ys) = length ys) \<Longrightarrow> length (on_range f a b xs) = length xs"
  by (simp add: on_range_def)

lemma drop_run_left:
  assumes "ws \<le> length c" "length c - ws \<le> m"
  shows "length (take ws c @ drop (run_end ok c (length c) ws) c) - ws \<le> m \<and> ws \<le> length (take ws c @ drop (run_end ok c (length c) ws) c)"
  using assms run_end_bounds(1) [of ws ok c "length c"] by auto

lemma strip_cs_left:
  assumes "0 < xs" "xs < i" "i \<le> length b" "strip_cs b xs i = (b', i')"
  shows "length b' - i' \<le> length b - i \<and> i' \<le> length b'"
proof -
  let ?c = "take (xs - 1) b @ drop xs b"
  have "i - 1 \<le> length ?c" "length ?c - (i - 1) \<le> length b - i" using assms(1-3) by auto
  then show ?thesis using drop_run_left [of "i - 1" ?c "length b - i" is_white] assms(4) unfolding strip_cs_def Let_def prod.inject
    by blast
qed

lemma convert_cs_left:
  assumes "convert_cs conv b xs i = (b', i')" "0 < xs" "xs \<le> i" "i \<le> length b"
  shows "length b' - i' \<le> length b - i \<and> i' \<le> length b'"
proof (cases "control_seq (take (i - xs) (drop xs b))")
  case (Some c)
  then have "xs < i" using assms(3) by (cases "xs = i") auto
  then show ?thesis using assms Some strip_cs_left [of xs i "on_range upper_case xs i b" b' i']
    by (auto simp: convert_cs_def split: if_splits)
qed (use assms in \<open>auto simp: convert_cs_def\<close>)

text \<open>From a backslash to the end of the special character.\<close>

(* @src crates/tex-bibtex/src/text.rs fn convert_special *)
function convert_loop :: "case_conv \<Rightarrow> bytes \<Rightarrow> nat \<Rightarrow> int \<Rightarrow> bytes \<times> nat \<times> int" where
  "convert_loop conv b i level =
     (if i < length b \<and> 0 < level then
        let xs = i + 1; (b, i) = convert_cs conv b xs (run_end is_alpha b (length b) xs);
            xs = i; (i, level) = skip_plain b i level
        in convert_loop conv (on_range (convert conv) xs i b) i level
      else (b, i, level))"
  by pat_completeness auto
termination
proof (relation "measure (\<lambda>(conv, b, i, level). length b - i)")
  fix conv :: case_conv and b :: bytes and i and level :: int and x xa xb xc xd xe xf xg
  assume a: "i < length b \<and> 0 < level" "x = i + 1" "xa = convert_cs conv b x (run_end is_alpha b (length b) x)"
    "(xb, xc) = xa" "xd = xc" "xe = skip_plain xb xc level" "(xf, xg) = xe"
  let ?j = "run_end is_alpha b (length b) x"
  have "x \<le> ?j" "?j \<le> length b" using a(1,2) run_end_bounds(1) [of x is_alpha b "length b"] run_end_bounds(2) [of x "length b" is_alpha b] by auto
  then have c: "length xb - xc \<le> length b - ?j \<and> xc \<le> length xb" using a convert_cs_left [of conv b x ?j xb xc] by auto
  have f: "xc \<le> xf \<and> xf \<le> length xb" using skip_plain_ge [of xb xc level xf xg] a c by auto
  have "length xb - xf \<le> length xb - xc" using f by (intro diff_le_mono2) simp
  also have "\<dots> < length b - i" using c a(1,2) \<open>x \<le> ?j\<close> \<open>?j \<le> length b\<close> by linarith
  finally have "length (on_range (convert conv) xd xf xb) - xf < length b - i"
    using f a(5) by (simp add: convert_def split: case_conv.split)
  then show "((conv, on_range (convert conv) xd xf xb, xf, xg), conv, b, i, level) \<in> measure (\<lambda>(conv, b, i, level). length b - i)"
    by simp
qed auto

declare convert_loop.simps [simp del]

text \<open>\<open>i\<close> is at the opening brace; the result is the last position consumed.\<close>

definition convert_special :: "bytes \<Rightarrow> nat \<Rightarrow> case_conv \<Rightarrow> int \<Rightarrow> bytes \<times> nat \<times> int" where
  "convert_special b i conv level = (let (b, i, level) = convert_loop conv b (i + 1) level in (b, i - 1, level))"

end
