(* ===== verification/BtEngine.thy ===== *)
theory BtEngine
  imports BtText
begin

text \<open>
  The state of BibTeX and its data (\<open>crates/tex-bibtex/src/engine.rs\<close>): functions of the style, literals, the engine
  with the cite list, the function table, the database and the state of execution, and the messages all parts share.
  The search for files (\<open>open_input\<close>, \<open>open_aux\<close>) asks the file system and is a parameter of the readers.
\<close>

subsection \<open>Functions of the style\<close>

(* @src crates/tex-bibtex/src/engine.rs const ENT_STR_SIZE *)
definition ENT_STR_SIZE :: nat where "ENT_STR_SIZE = 500"
(* @src crates/tex-bibtex/src/engine.rs const GLOB_STR_SIZE *)
definition GLOB_STR_SIZE :: nat where "GLOB_STR_SIZE = 200000"
(* @src crates/tex-bibtex/src/engine.rs const MAX_PRINT_LINE *)
definition MAX_PRINT_LINE :: nat where "MAX_PRINT_LINE = 79"
(* @src crates/tex-bibtex/src/engine.rs const MIN_PRINT_LINE *)
definition MIN_PRINT_LINE :: nat where "MIN_PRINT_LINE = 3"

(* @src crates/tex-bibtex/src/engine.rs enum Builtin *)
datatype (plugins only: code) builtin =
    B_Eq | B_Gt | B_Lt | B_Plus | B_Minus | B_Concat | B_Gets | B_AddPeriod | B_CallType | B_ChangeCase |
    B_ChrToInt | B_Cite | B_Duplicate | B_Empty | B_FormatName | B_If | B_IntToChr | B_IntToStr | B_Missing |
    B_Newline | B_NumNames | B_Pop | B_Preamble | B_Purify | B_Quote | B_Skip | B_Stack | B_Substring | B_Swap |
    B_TextLength | B_TextPrefix | B_Top | B_Type | B_Warning | B_While | B_Width | B_Write

(* @src crates/tex-bibtex/src/engine.rs const BUILTINS *)
definition BUILTINS :: "(bytes \<times> builtin) list" where
  "BUILTINS = [
    (''='', B_Eq),
    (''>'', B_Gt),
    (''<'', B_Lt),
    (''+'', B_Plus),
    (''-'', B_Minus),
    (''*'', B_Concat),
    ('':='', B_Gets),
    (''add.period$'', B_AddPeriod),
    (''call.type$'', B_CallType),
    (''change.case$'', B_ChangeCase),
    (''chr.to.int$'', B_ChrToInt),
    (''cite$'', B_Cite),
    (''duplicate$'', B_Duplicate),
    (''empty$'', B_Empty),
    (''format.name$'', B_FormatName),
    (''if$'', B_If),
    (''int.to.chr$'', B_IntToChr),
    (''int.to.str$'', B_IntToStr),
    (''missing$'', B_Missing),
    (''newline$'', B_Newline),
    (''num.names$'', B_NumNames),
    (''pop$'', B_Pop),
    (''preamble$'', B_Preamble),
    (''purify$'', B_Purify),
    (''quote$'', B_Quote),
    (''skip$'', B_Skip),
    (''stack$'', B_Stack),
    (''substring$'', B_Substring),
    (''swap$'', B_Swap),
    (''text.length$'', B_TextLength),
    (''text.prefix$'', B_TextPrefix),
    (''top$'', B_Top),
    (''type$'', B_Type),
    (''warning$'', B_Warning),
    (''while$'', B_While),
    (''width$'', B_Width),
    (''write$'', B_Write)]"

type_synonym fn_id = nat

(* @src crates/tex-bibtex/src/engine.rs enum Op *)
datatype (plugins only: code) op = OpCall fn_id | OpQuote fn_id | OpInt int | OpStr bytes

(* @src crates/tex-bibtex/src/engine.rs enum FnKind *)
datatype (plugins only: code) fn_kind =
    Builtin builtin | Wiz "op list" | Field nat | IntEntry nat | StrEntry nat | IntGlobal nat | StrGlobal nat

(* @src crates/tex-bibtex/src/engine.rs struct FnDef *)
record fn_def =
  fn_name :: bytes
  kind :: fn_kind

(* @src crates/tex-bibtex/src/engine.rs enum Lit *)
datatype (plugins only: code) lit = LInt int | LStr bytes | LFn fn_id | LMissing fn_id | LEmpty

(* @src crates/tex-bibtex/src/engine.rs enum EntryType *)
datatype (plugins only: code) entry_type = EtEmpty | EtUndefined | EtType fn_id

subsection \<open>The engine\<close>

(* @src crates/tex-bibtex/src/engine.rs struct BibInput *)
record bib_input =
  bi_name :: bytes
  bi_bytes :: bytes
  embedded :: bool

text \<open>The literal stack has its top first.\<close>

(* @src crates/tex-bibtex/src/engine.rs struct Engine *)
record engine =
  elog :: blog
  min_crossrefs :: nat
  verbose :: bool
  bib_inputs :: "bib_input list"
  bib_seen :: bool
  bst_seen :: bool
  bst_name :: "bytes option"
  bst_bytes :: bytes
  citation_seen :: bool
  all_entries :: bool
  all_marker :: nat
  cite_list :: "bytes list"
  cite_map :: "bytes \<rightharpoonup> nat"
  lc_cite_map :: "bytes \<rightharpoonup> bytes"
  num_cites :: nat
  old_num_cites :: nat
  fns :: "fn_def list"
  fn_map :: "bytes \<rightharpoonup> fn_id"
  macros :: "bytes \<rightharpoonup> bytes"
  num_fields :: nat
  num_ent_ints :: nat
  num_ent_strs :: nat
  glb_ints :: "int list"
  glb_strs :: "bytes list"
  crossref_num :: nat
  sort_key_num :: nat
  b_default :: fn_id
  impl_fn_num :: nat
  entry_seen :: bool
  read_seen :: bool
  read_performed :: bool
  reading_completed :: bool
  bst_line :: nat
  type_list :: "entry_type list"
  entry_exists :: "bool list"
  cite_info :: "bytes option list"
  xref_count :: "nat list"
  field_info :: "bytes option list"
  preambles :: "bytes list"
  bib_name :: bytes
  bib_line :: nat
  entry_ints :: "int list"
  entry_strs :: "bytes list"
  sorted_cites :: "nat list"
  stack :: "lit list"
  mess_with_entries :: bool
  cite_ptr :: nat
  out_buf :: bytes
  bbl :: bytes
  brace_level :: int

(* @src crates/tex-bibtex/src/engine.rs impl Engine fn define *)
definition define_fn :: "bytes \<Rightarrow> fn_kind \<Rightarrow> engine \<Rightarrow> fn_id \<times> engine" where
  "define_fn name k e =
     (let i = length (fns e)
      in (i, e\<lparr>fns := fns e @ [\<lparr>fn_name = name, kind = k\<rparr>], fn_map := (fn_map e)(name \<mapsto> i)\<rparr>))"

definition blank_engine :: "nat \<Rightarrow> bool \<Rightarrow> engine" where
  "blank_engine crossrefs verb = \<lparr>
     elog = log_new, min_crossrefs = crossrefs, verbose = verb, bib_inputs = [], bib_seen = False, bst_seen = False, bst_name = None,
     bst_bytes = [], citation_seen = False, all_entries = False, all_marker = 0, cite_list = [], cite_map = Map.empty,
     lc_cite_map = Map.empty, num_cites = 0, old_num_cites = 0, fns = [], fn_map = Map.empty, macros = Map.empty, num_fields = 0,
     num_ent_ints = 0, num_ent_strs = 0, glb_ints = [], glb_strs = [], crossref_num = 0, sort_key_num = 0, b_default = 0,
     impl_fn_num = 0, entry_seen = False, read_seen = False, read_performed = False, reading_completed = False, bst_line = 0,
     type_list = [], entry_exists = [], cite_info = [], xref_count = [], field_info = [], preambles = [], bib_name = [], bib_line = 0,
     entry_ints = [], entry_strs = [], sorted_cites = [], stack = [], mess_with_entries = False, cite_ptr = 0, out_buf = [], bbl = [],
     brace_level = 0\<rparr>"

text \<open>\<open>skip$\<close> is the default type until a style defines \<open>default.type\<close>.\<close>

(* @src crates/tex-bibtex/src/engine.rs impl Engine fn new *)
definition engine_new :: "nat \<Rightarrow> bool \<Rightarrow> engine" where
  "engine_new crossrefs verb =
     (let e = fold (\<lambda>(name, b) e. snd (define_fn name (Builtin b) e)) BUILTINS (blank_engine crossrefs verb);
          e = e\<lparr>b_default := (case fn_map e ''skip$'' of Some i \<Rightarrow> i | None \<Rightarrow> 0)\<rparr>;
          e = e\<lparr>crossref_num := num_fields e\<rparr>;
          e = snd (define_fn ''crossref'' (Field (num_fields e)) e);
          e = e\<lparr>num_fields := num_fields e + 1\<rparr>;
          e = e\<lparr>sort_key_num := num_ent_strs e\<rparr>;
          e = snd (define_fn ''sort.key$'' (StrEntry (num_ent_strs e)) e);
          e = e\<lparr>num_ent_strs := num_ent_strs e + 1, glb_ints := glb_ints e @ [int ENT_STR_SIZE]\<rparr>;
          e = snd (define_fn ''entry.max$'' (IntGlobal 0) e);
          e = e\<lparr>glb_ints := glb_ints e @ [int GLOB_STR_SIZE]\<rparr>
      in snd (define_fn ''global.max$'' (IntGlobal 1) e))"

(* @src crates/tex-bibtex/src/engine.rs impl Engine fn fn_class_name *)
definition fn_class_name :: "fn_kind \<Rightarrow> bytes" where
  "fn_class_name k = (case k of
     Builtin _ \<Rightarrow> ''built-in'' | Wiz _ \<Rightarrow> ''wizard-defined'' | Field _ \<Rightarrow> ''field''
   | IntEntry _ \<Rightarrow> ''integer-entry-variable'' | StrEntry _ \<Rightarrow> ''string-entry-variable''
   | IntGlobal _ \<Rightarrow> ''integer-global-variable'' | StrGlobal _ \<Rightarrow> ''string-global-variable'')"

(* @src crates/tex-bibtex/src/engine.rs impl Engine fn bst_file_name *)
definition bst_file_name :: "engine \<Rightarrow> bytes" where
  "bst_file_name e = (case bst_name e of Some n \<Rightarrow> n | None \<Rightarrow> []) @ ''.bst''"

definition ends_with :: "bytes \<Rightarrow> bytes \<Rightarrow> bool" where
  "ends_with s t \<longleftrightarrow> length t \<le> length s \<and> drop (length s - length t) s = t"

(* @src crates/tex-bibtex/src/engine.rs impl Engine fn bib_file_name *)
definition bib_file_name :: "bytes \<Rightarrow> bytes" where
  "bib_file_name name = (if ends_with name ''.bib'' then name else name @ ''.bib'')"

(* @src crates/tex-bibtex/src/engine.rs impl Engine fn announced_name *)
definition announced_name :: "bytes \<Rightarrow> bool \<Rightarrow> bytes" where
  "announced_name name emb = (if emb then ''<embedded:'' @ name @ ''>'' else name)"

subsection \<open>Messages\<close>

definition pr :: "bytes \<Rightarrow> engine \<Rightarrow> engine" where "pr s e = e\<lparr>elog := log_print s (elog e)\<rparr>"
definition prln :: "bytes \<Rightarrow> engine \<Rightarrow> engine" where "prln s e = e\<lparr>elog := log_println s (elog e)\<rparr>"
definition log_pr :: "bytes \<Rightarrow> engine \<Rightarrow> engine" where "log_pr s e = e\<lparr>elog := log_only s (elog e)\<rparr>"
definition warn :: "engine \<Rightarrow> engine" where "warn e = e\<lparr>elog := mark_warning (elog e)\<rparr>"
definition err :: "engine \<Rightarrow> engine" where "err e = e\<lparr>elog := mark_error (elog e)\<rparr>"

(* @src crates/tex-bibtex/src/engine.rs impl Engine fn print_bad_input_line *)
definition print_bad_input_line :: "scanner \<Rightarrow> engine \<Rightarrow> engine" where
  "print_bad_input_line sc e = err (pr (bad_input_line sc) e)"

(* @src crates/tex-bibtex/src/engine.rs impl Engine fn confusion *)
definition confusion :: "bytes \<Rightarrow> engine \<Rightarrow> engine" where
  "confusion what e =
     (let e = prln ''*Please notify the BibTeX maintainer*'' (prln (what @ ''---this can'' @ [SQ] @ ''t happen'') e)
      in e\<lparr>elog := mark_fatal (elog e)\<rparr>)"

(* @src crates/tex-bibtex/src/bst.rs impl Engine fn bst_ln_num_print *)
definition bst_ln_num_print :: "engine \<Rightarrow> engine" where
  "bst_ln_num_print e = prln (bst_file_name e) (pr (''--line '' @ dec_nat (bst_line e) @ '' of file '') e)"

end
