(* ===== verification/BtNames.thy ===== *)
theory BtNames
  imports BtEngine
begin

text \<open>
  Lists of names (\<open>crates/tex-bibtex/src/exec.rs\<close>, \<open>num.names$\<close> and \<open>format.name$\<close>): the split at " and ", the tokens of a
  name, its first, von, last and jr parts, and the format string.  \<open>None\<close> is a panic of the code.
\<close>

subsection \<open>Messages of the execution\<close>

text \<open>The entry is in range while entries may be used (\<open>entry_ok\<close>, in \<open>BtSafe\<close>).\<close>

(* @src crates/tex-bibtex/src/exec.rs impl Engine fn for_entry_newline *)
definition for_entry_newline :: "engine \<Rightarrow> engine" where
  "for_entry_newline e =
     pr [NL] (if mess_with_entries e then pr (cite_list e ! cite_ptr e) (pr '' for entry '' e) else e)"

(* @src crates/tex-bibtex/src/exec.rs impl Engine fn bst_ex_warn_print *)
definition bst_ex_warn_print :: "engine \<Rightarrow> engine" where
  "bst_ex_warn_print e = err (bst_ln_num_print (pr ''while executing-'' (for_entry_newline e)))"

(* @src crates/tex-bibtex/src/exec.rs impl Engine fn bst_ex_warn *)
definition bst_ex_warn :: "bytes \<Rightarrow> engine \<Rightarrow> engine" where
  "bst_ex_warn msg e = bst_ex_warn_print (pr msg e)"

(* @src crates/tex-bibtex/src/exec.rs impl Engine fn bst_mild_ex_warn_print *)
definition bst_mild_ex_warn_print :: "engine \<Rightarrow> engine" where
  "bst_mild_ex_warn_print e = warn (bst_ln_num_print (pr ''while executing'' (for_entry_newline e)))"

definition quoted :: "bytes \<Rightarrow> bytes" where "quoted s = DQ # s @ [DQ]"

(* @src crates/tex-bibtex/src/exec.rs impl Engine fn braces_unbalanced *)
definition braces_unbalanced :: "bytes \<Rightarrow> engine \<Rightarrow> engine" where
  "braces_unbalanced s e = bst_mild_ex_warn_print (pr ([DQ] @ '' isn'' @ [SQ] @ ''t a brace-balanced string'') (pr s (pr (''Warning--'' @ [DQ]) e)))"

(* @src crates/tex-bibtex/src/exec.rs impl Engine fn decr_brace_level *)
definition decr_brace_level :: "bytes \<Rightarrow> engine \<Rightarrow> engine" where
  "decr_brace_level s e = (if brace_level e = 0 then braces_unbalanced s e else e\<lparr>brace_level := brace_level e - 1\<rparr>)"

(* @src crates/tex-bibtex/src/exec.rs impl Engine fn check_brace_level *)
definition check_brace_level :: "bytes \<Rightarrow> engine \<Rightarrow> engine" where
  "check_brace_level s e = (if 0 < brace_level e then braces_unbalanced s e else e)"

subsection \<open>The split at " and "\<close>

text \<open>\<open>while level > 0 && i < n\<close>: to the end of a brace group.\<close>

(* @src crates/tex-bibtex/src/exec.rs:895-902 name_scan_for_and *)
function skip_level :: "bytes \<Rightarrow> nat \<Rightarrow> nat \<Rightarrow> int \<Rightarrow> nat \<times> int" where
  "skip_level b n i level =
     (if 0 < level \<and> i < n then skip_level b n (i + 1) (brace_step_int (byte_at b i) level) else (i, level))"
  by pat_completeness auto
termination by (relation "measure (\<lambda>(b, n, i, level). n - i)") auto

declare skip_level.simps [simp del]

lemma skip_level_ge: "skip_level b n i level = (j, k) \<Longrightarrow> i \<le> j \<and> (i \<le> n \<longrightarrow> j \<le> n)"
  by (induction b n i level rule: skip_level.induct) (subst (asm) (2) skip_level.simps, auto split: if_splits)

(* @src crates/tex-bibtex/src/exec.rs:877-915 name_scan_for_and *)
function and_loop :: "bytes \<Rightarrow> nat \<Rightarrow> bool \<Rightarrow> engine \<Rightarrow> nat \<times> engine" where
  "and_loop b p white e =
     (if p < length b then
        let c = b ! p
        in if c = CHR ''a'' \<or> c = CHR ''A'' then
             if white \<and> p + 4 \<le> length b \<and> b ! (p + 1) \<in> {CHR ''n'', CHR ''N''} \<and> b ! (p + 2) \<in> {CHR ''d'', CHR ''D''} \<and> is_white (b ! (p + 3))
             then (p + 3, e)
             else and_loop b (p + 1) False e
           else if c = CHR ''{'' then
             let (q, level) = skip_level b (length b) (p + 1) (brace_level e + 1)
             in and_loop b q False (e\<lparr>brace_level := level\<rparr>)
           else if c = CHR ''}'' then and_loop b (p + 1) False (decr_brace_level b e)
           else and_loop b (p + 1) (is_white c) e
      else (p, e))"
  by pat_completeness auto
termination
proof (relation "measure (\<lambda>(b, p, white, e). length b - p)")
  fix b :: bytes and p white e x xa xb xc
  assume a: "p < length b" "xa = skip_level b (length b) (p + 1) (brace_level e + 1)" "(xb, xc) = xa"
  then have "p < xb" using skip_level_ge [of b "length b" "p + 1" "brace_level e + 1" xb xc] by simp
  then show "((b, xb, False, e\<lparr>brace_level := xc\<rparr>), b, p, white, e) \<in> measure (\<lambda>(b, p, white, e). length b - p)" using a(1) by simp
qed auto

declare and_loop.simps [simp del]

(* @src crates/tex-bibtex/src/exec.rs impl Engine fn name_scan_for_and *)
definition name_scan_for_and :: "bytes \<Rightarrow> nat \<Rightarrow> engine \<Rightarrow> nat \<times> engine" where
  "name_scan_for_and b p e =
     (let (p, e) = and_loop b p False (e\<lparr>brace_level := 0\<rparr>) in (p, check_brace_level b e))"

lemma and_loop_ge: "and_loop b p white e = (q, e') \<Longrightarrow> p \<le> q"
proof (induction b p white e rule: and_loop.induct)
  case (1 b p white e)
  note step = 1(5) [unfolded and_loop.simps [of b p white e] Let_def]
  show ?case
  proof (cases "p < length b")
    case True
    note ih = 1(1-4) [OF True refl]
    let ?c = "b ! p"
    consider (a) "?c = CHR ''a'' \<or> ?c = CHR ''A''" | (open_brace) "?c = CHR ''{''" | (close_brace) "?c = CHR ''}''"
      | (plain) "\<not> (?c = CHR ''a'' \<or> ?c = CHR ''A'')" "?c \<noteq> CHR ''{''" "?c \<noteq> CHR ''}''" by blast
    then show ?thesis
    proof cases
      case a
      then show ?thesis using step True ih(1) by (auto split: if_splits)
    next
      case open_brace
      obtain r l where r: "skip_level b (length b) (p + 1) (brace_level e + 1) = (r, l)" by fastforce
      have "and_loop b r False (e\<lparr>brace_level := l\<rparr>) = (q, e')" using step True open_brace r by simp
      then have "r \<le> q" using ih(2) open_brace r by simp
      then show ?thesis using skip_level_ge [OF r] by simp
    next
      case close_brace
      then show ?thesis using step True ih(3) by auto
    next
      case plain
      then show ?thesis using step True ih(4) by auto
    qed
  qed (use step in simp)
qed

lemma and_loop_gt: "and_loop b p white e = (q, e') \<Longrightarrow> p < length b \<Longrightarrow> p < q"
proof -
  assume r: "and_loop b p white e = (q, e')" and p: "p < length b"
  have "and_loop b j w x = (q, e') \<Longrightarrow> p < j \<Longrightarrow> p < q" for j w x using and_loop_ge [of b j w x q e'] by simp
  then show "p < q" using r p skip_level_ge [of b "length b" "p + 1" "brace_level e + 1"]
    unfolding and_loop.simps [of b p white e] Let_def
    by (auto split: if_splits prod.splits simp: less_eq_Suc_le)
qed

lemma name_scan_gt: "name_scan_for_and b p e = (q, e') \<Longrightarrow> p \<le> q \<and> (p < length b \<longrightarrow> p < q)"
  by (auto simp: name_scan_for_and_def dest: and_loop_gt and_loop_ge split: prod.splits)

(* @src crates/tex-bibtex/src/exec.rs impl Engine fn num_names *)
function num_names_loop :: "bytes \<Rightarrow> nat \<Rightarrow> nat \<Rightarrow> engine \<Rightarrow> nat \<times> engine" where
  "num_names_loop s p cnt e =
     (if p < length s then let (q, e) = name_scan_for_and s p e in num_names_loop s q (cnt + 1) e else (cnt, e))"
  by pat_completeness auto
termination
proof (relation "measure (\<lambda>(s, p, cnt, e). length s - p)")
  fix s :: bytes and p cnt :: nat and e x q e'
  assume a: "p < length s" "x = name_scan_for_and s p e" "(q, e') = x"
  then have "p < q" using name_scan_gt [of s p e q e'] by simp
  then show "((s, q, cnt + 1, e'), s, p, cnt, e) \<in> measure (\<lambda>(s, p, cnt, e). length s - p)" using a(1) by simp
qed auto

declare num_names_loop.simps [simp del]

(* @src crates/tex-bibtex/src/exec.rs impl Engine fn num_names *)
definition num_names :: "bytes \<Rightarrow> engine \<Rightarrow> int \<times> engine" where
  "num_names s e = (let (n, e) = num_names_loop s 0 0 e in (int n, e))"

subsection \<open>The tokens of a name\<close>

(* @src crates/tex-bibtex/src/exec.rs struct Names *)
record names =
  n_buf :: bytes
  n_tok :: "nat list"
  n_sep :: bytes

(* @src crates/tex-bibtex/src/exec.rs impl Names fn num_tokens *)
definition num_tokens :: "names \<Rightarrow> int" where
  "num_tokens n = int (length (n_tok n)) - 1"

(* @src crates/tex-bibtex/src/exec.rs impl Names fn token *)
definition name_token :: "names \<Rightarrow> int \<Rightarrow> bytes" where
  "name_token n k =
     (if k < 0 \<or> num_tokens n \<le> k then []
      else let a = n_tok n ! nat k; b = n_tok n ! (nat k + 1) in take (b - a) (drop a (n_buf n)))"

(* @src crates/tex-bibtex/src/exec.rs impl Names fn sep_before *)
definition sep_before :: "names \<Rightarrow> int \<Rightarrow> u8" where
  "sep_before n k = (if 0 \<le> k \<and> nat k < length (n_sep n) then n_sep n ! nat k else SP)"

text \<open>The letters of a special character decide; the token ends with it.\<close>

(* @src crates/tex-bibtex/src/exec.rs:1403-1416 von_token *)
function von_special :: "bytes \<Rightarrow> nat \<Rightarrow> int \<Rightarrow> bool" where
  "von_special t p level =
     (if p < length t \<and> 0 < level then
        if is_ascii_uppercase (t ! p) then False
        else if is_ascii_lowercase (t ! p) then True
        else von_special t (p + 1) (brace_step_int (t ! p) level)
      else False)"
  by pat_completeness auto
termination by (relation "measure (\<lambda>(t, p, level). length t - p)") auto

(* @src crates/tex-bibtex/src/exec.rs impl Names fn von_token *)
function von_scan :: "bytes \<Rightarrow> nat \<Rightarrow> bool" where
  "von_scan t p =
     (if p < length t then
        let c = t ! p
        in if is_ascii_uppercase c then False
           else if is_ascii_lowercase c then True
           else if c = CHR ''{'' then
             let p = p + 1
             in if p + 2 < length t \<and> t ! p = BACKSLASH then
                  let xs = p + 1; p = run_end is_alpha t (length t) xs
                  in case control_seq (take (p - xs) (drop xs t)) of
                       Some k \<Rightarrow> is_lower_case k
                     | None \<Rightarrow> von_special t p 1
                else von_scan t (fst (skip_level t (length t) p 1))
           else von_scan t (p + 1)
      else False)"
  by pat_completeness auto
termination
proof (relation "measure (\<lambda>(t, p). length t - p)")
  fix t :: bytes and p c x
  assume a: "p < length t" "x = p + 1"
  obtain j k where "skip_level t (length t) x 1 = (j, k)" by fastforce
  then have "p < fst (skip_level t (length t) x 1)" using a(2) skip_level_ge [of t "length t" x 1 j k] by simp
  then show "((t, fst (skip_level t (length t) x 1)), t, p) \<in> measure (\<lambda>(t, p). length t - p)" using a(1) by simp
qed auto

declare von_special.simps [simp del] von_scan.simps [simp del]

(* @src crates/tex-bibtex/src/exec.rs impl Names fn von_token *)
definition von_token :: "names \<Rightarrow> int \<Rightarrow> bool" where
  "von_token n k = von_scan (name_token n k) 0"

(* @src crates/tex-bibtex/src/exec.rs impl Names fn von_end *)
function von_end_loop :: "names \<Rightarrow> int \<Rightarrow> int \<Rightarrow> int" where
  "von_end_loop n von_start k =
     (if von_start < k then if von_token n (k - 1) then k else von_end_loop n von_start (k - 1) else k)"
  by pat_completeness auto
termination by (relation "measure (\<lambda>(n, v, k). nat (k - v))") auto

(* @src crates/tex-bibtex/src/exec.rs impl Names fn von_end *)
definition von_end :: "names \<Rightarrow> int \<Rightarrow> int \<Rightarrow> int" where
  "von_end n von_start last_end = von_end_loop n von_start (last_end - 1)"

(* @src crates/tex-bibtex/src/exec.rs struct Parts *)
record parts =
  first_start :: int
  first_end :: int
  von_start :: int
  von_stop :: int
  last_end :: int
  jr_end :: int

text \<open>The first von token before the last token, or the last token with what hyphens join to it.\<close>

(* @src crates/tex-bibtex/src/exec.rs:1453-1459 parts *)
function von_start_loop :: "names \<Rightarrow> int \<Rightarrow> int \<Rightarrow> int \<times> bool" where
  "von_start_loop n k stop =
     (if k < stop - 1 then if von_token n k then (k, True) else von_start_loop n (k + 1) stop else (k, False))"
  by pat_completeness auto
termination by (relation "measure (\<lambda>(n, k, stop). nat (stop - k))") auto

(* @src crates/tex-bibtex/src/exec.rs:1463-1469 parts *)
function join_back :: "names \<Rightarrow> int \<Rightarrow> int" where
  "join_back n k =
     (if 0 < k then
        let s = sep_before n k in if lex_class s \<noteq> SEP \<or> s = CHR ''~'' then k else join_back n (k - 1)
      else k)"
  by pat_completeness auto
termination by (relation "measure (\<lambda>(n, k). nat k)") auto

declare von_end_loop.simps [simp del] von_start_loop.simps [simp del] join_back.simps [simp del]

(* @src crates/tex-bibtex/src/exec.rs impl Names fn parts *)
definition name_parts :: "names \<Rightarrow> nat \<Rightarrow> nat \<Rightarrow> nat \<Rightarrow> parts" where
  "name_parts n num_commas comma1 comma2 =
     (if num_commas = 0 then
        let last_end = num_tokens n; (k, found) = von_start_loop n 0 last_end;
            von_start = (if found then k else join_back n k);
            von_end = (if found then von_end n k last_end else von_start)
        in \<lparr>first_start = 0, first_end = von_start, von_start = von_start, von_stop = von_end, last_end = last_end, jr_end = last_end\<rparr>
      else
        let last_end = int comma1; jr_end = (if num_commas = 1 then last_end else int comma2)
        in \<lparr>first_start = jr_end, first_end = num_tokens n, von_start = 0, von_stop = von_end n 0 last_end,
            last_end = last_end, jr_end = jr_end\<rparr>)"

subsection \<open>Formatting\<close>

(* @src crates/tex-bibtex/src/exec.rs fn abbreviate *)
function abbreviate :: "bytes \<Rightarrow> nat \<Rightarrow> bytes" where
  "abbreviate t p =
     (if p < length t then
        if is_alpha (t ! p) then [t ! p]
        else if t ! p = CHR ''{'' \<and> p + 1 < length t \<and> t ! (p + 1) = BACKSLASH then
          [CHR ''{'', BACKSLASH] @ take (fst (skip_level t (length t) (p + 2) 1) - (p + 2)) (drop (p + 2) t)
        else abbreviate t (p + 1)
      else [])"
  by pat_completeness auto
termination by (relation "measure (\<lambda>(t, p). length t - p)") auto

declare abbreviate.simps [simp del]

text \<open>\<open>enough_text_chars\<close>, with the brace level the engine keeps between calls.\<close>

(* @src crates/tex-bibtex/src/exec.rs impl Engine fn enough_text_chars *)
function enough_loop :: "bytes \<Rightarrow> nat \<Rightarrow> nat \<Rightarrow> nat \<Rightarrow> int \<Rightarrow> nat \<times> int" where
  "enough_loop out y enough num level =
     (if y < length out \<and> num < enough then
        let c = out ! y; y = y + 1
        in if c = CHR ''{'' then
             let level = level + 1
             in if level = 1 \<and> y < length out \<and> out ! y = BACKSLASH then
                  let (y, level) = skip_level out (length out) (y + 1) level in enough_loop out y enough (num + 1) level
                else enough_loop out y enough (num + 1) level
           else if c = CHR ''}'' then enough_loop out y enough (num + 1) (level - 1)
           else enough_loop out y enough (num + 1) level
      else (num, level))"
  by pat_completeness auto
termination by (relation "measure (\<lambda>(out, y, enough, num, level). enough - num)") auto

declare enough_loop.simps [simp del]

(* @src crates/tex-bibtex/src/exec.rs impl Engine fn enough_text_chars *)
definition enough_text_chars :: "bytes \<Rightarrow> nat \<Rightarrow> nat \<Rightarrow> engine \<Rightarrow> bool \<times> engine" where
  "enough_text_chars out start enough e =
     (let (num, level) = enough_loop out start enough 0 (brace_level e) in (enough \<le> num, e\<lparr>brace_level := level\<rparr>))"

(* @src crates/tex-bibtex/src/exec.rs impl Engine fn brace_lvl_one_letters_complaint *)
definition brace_lvl_one_letters_complaint :: "bytes \<Rightarrow> engine \<Rightarrow> engine" where
  "brace_lvl_one_letters_complaint fmt e =
     bst_ex_warn ([DQ] @ '' has an illegal brace-level-1 letter'') (pr fmt (pr (''The format string '' @ [DQ]) e))"

text \<open>
  The tokens of a part: between two of them the string of the format, or by default a period after an abbreviation
  and the separator, a tie or a space.
\<close>

(* @src crates/tex-bibtex/src/exec.rs:1214-1239 format_part *)
function put_tokens :: "names \<Rightarrow> int \<Rightarrow> int \<Rightarrow> bool \<Rightarrow> bytes option \<Rightarrow> nat \<Rightarrow> bytes \<Rightarrow> engine \<Rightarrow> bytes \<times> engine" where
  "put_tokens n cur stop double between start out e =
     (if cur < stop then
        let t = name_token n cur; out = out @ (if double then t else abbreviate t 0); cur = cur + 1
        in if cur < stop then
             (case between of
                Some s \<Rightarrow> put_tokens n cur stop double between start (out @ s) e
              | None \<Rightarrow>
                  let out = (if double then out else out @ ''.''); s = sep_before n cur
                  in if lex_class s = SEP then put_tokens n cur stop double between start (out @ [s]) e
                     else if cur = stop - 1 then put_tokens n cur stop double between start (out @ ''~'') e
                     else let (enough, e) = enough_text_chars out start 3 e
                          in put_tokens n cur stop double between start (out @ (if enough then [SP] else ''~'')) e)
           else (out, e)
      else (out, e))"
  by pat_completeness auto
termination by (relation "measure (\<lambda>(n, cur, stop, double, between, start, out, e). nat (stop - cur))") auto

declare put_tokens.simps [simp del]

text \<open>To the end of a group inside a group of the format.\<close>

(* @src crates/tex-bibtex/src/exec.rs fn skip_brace_group *)
definition skip_brace_group :: "bytes \<Rightarrow> nat \<Rightarrow> int \<Rightarrow> nat \<times> int" where
  "skip_brace_group fmt sp level = (let (sp, k) = skip_level fmt (length fmt) sp (level - 1) in (sp, k + 1))"

lemma skip_brace_group_ge: "skip_brace_group fmt sp level = (j, k) \<Longrightarrow> sp \<le> j \<and> (sp \<le> length fmt \<longrightarrow> j \<le> length fmt)"
  by (auto simp: skip_brace_group_def split: prod.splits dest: skip_level_ge)

text \<open>
  The second pass over a group of the format.  Past its end the reads see zero for ever, so the code would not return:
  \<open>None\<close>.
\<close>

(* @src crates/tex-bibtex/src/exec.rs impl Engine fn format_part *)
function part_loop :: "bytes \<Rightarrow> nat \<Rightarrow> int \<Rightarrow> names \<Rightarrow> int \<Rightarrow> int \<Rightarrow> bool \<Rightarrow> nat \<Rightarrow> bytes \<Rightarrow> engine \<Rightarrow> (bytes \<times> engine) option" where
  "part_loop fmt sp level n cur stop double start out e =
     (if 0 < level then
        if length fmt \<le> sp then None
        else
          let c = fmt ! sp
          in if is_alpha c \<and> level = 1 then
               let sp = (if double then sp + 2 else sp + 1)
               in if byte_at fmt sp = CHR ''{'' then
                    let x1 = sp + 1; (sp, level) = skip_brace_group fmt x1 2; x2 = sp - 1;
                        (out, e) = put_tokens n cur stop double (Some (take (x2 - x1) (drop x1 fmt))) start out e
                    in part_loop fmt sp level n (max cur stop) stop double start out e
                  else
                    let (out, e) = put_tokens n cur stop double None start out e
                    in part_loop fmt sp level n (max cur stop) stop double start out e
             else if c = CHR ''}'' then
               part_loop fmt (sp + 1) (level - 1) n cur stop double start (if 0 < level - 1 then out @ ''}'' else out) e
             else if c = CHR ''{'' then part_loop fmt (sp + 1) (level + 1) n cur stop double start (out @ ''{'') e
             else part_loop fmt (sp + 1) level n cur stop double start (out @ [c]) e
      else Some (out, e))"
  by pat_completeness auto
termination
proof (relation "measure (\<lambda>(fmt, sp, _). length fmt - sp)", goal_cases)
  case (2 fmt sp level n cur stop double start out e c s x1 p s' l x2 q o' e')
  have "s < s'" using skip_brace_group_ge [of fmt x1 2 s' l] 2(6-9) by simp
  moreover have "sp < s" using 2(5) by (simp split: if_splits)
  ultimately show ?case using 2(2) by simp
qed (auto split: if_splits)

declare part_loop.simps [simp del]

text \<open>A tie at the end of the part is discretionary.\<close>

(* @src crates/tex-bibtex/src/exec.rs:1258-1267 format_part *)
definition settle_tie :: "nat \<Rightarrow> bytes \<Rightarrow> engine \<Rightarrow> bytes \<times> engine" where
  "settle_tie start out e =
     (if out \<noteq> [] \<and> List.last out = CHR ''~'' then
        let out = butlast out
        in if out \<noteq> [] \<and> List.last out = CHR ''~'' then (out, e)
           else let (enough, e) = enough_text_chars out start 3 e in (out @ (if enough then [SP] else ''~''), e)
      else (out, e))"

(* @src crates/tex-bibtex/src/exec.rs impl Engine fn format_part *)
definition format_part :: "bytes \<Rightarrow> nat \<Rightarrow> names \<Rightarrow> int \<Rightarrow> int \<Rightarrow> bool \<Rightarrow> bytes \<Rightarrow> engine \<Rightarrow> (bytes \<times> engine) option" where
  "format_part fmt sp n cur stop double out e =
     (case part_loop fmt sp 1 n cur stop double (length out) out e of
        None \<Rightarrow> None
      | Some (out', e) \<Rightarrow> Some (settle_tie (length out) out' e))"

text \<open>What the first pass over a group finds: the part's tokens, whether they go in full, and whether it closes.\<close>

(* @src crates/tex-bibtex/src/exec.rs:1107-1112 figure_out_formatted_name *)
record format_group =
  fg_cur :: int
  fg_stop :: int
  alpha_found :: bool
  double_letter :: bool
  to_be_written :: bool

(* @src crates/tex-bibtex/src/exec.rs:1107-1112 figure_out_formatted_name *)
definition blank_group :: format_group where
  "blank_group = \<lparr>fg_cur = 0, fg_stop = 0, alpha_found = False, double_letter = False, to_be_written = True\<rparr>"

(* @src crates/tex-bibtex/src/exec.rs:1121-1127 figure_out_formatted_name *)
definition part_range :: "parts \<Rightarrow> u8 \<Rightarrow> (int \<times> int) option" where
  "part_range p c =
     (if c \<in> {CHR ''f'', CHR ''F''} then Some (first_start p, first_end p)
      else if c \<in> {CHR ''v'', CHR ''V''} then Some (von_start p, von_stop p)
      else if c \<in> {CHR ''l'', CHR ''L''} then Some (von_stop p, last_end p)
      else if c \<in> {CHR ''j'', CHR ''J''} then Some (last_end p, jr_end p)
      else None)"

(* @src crates/tex-bibtex/src/exec.rs:1115-1148 figure_out_formatted_name *)
definition group_letter :: "bytes \<Rightarrow> parts \<Rightarrow> nat \<Rightarrow> format_group \<Rightarrow> engine \<Rightarrow> nat \<times> format_group \<times> engine" where
  "group_letter fmt p sp g e =
     (if alpha_found g then (sp + 1, g\<lparr>to_be_written := False\<rparr>, brace_lvl_one_letters_complaint fmt e)
      else
        let c = fmt ! sp; sp = sp + 1;
            (g, e) = (case part_range p c of
               Some (a, b) \<Rightarrow>
                 (g\<lparr>fg_cur := a, fg_stop := b, to_be_written := (to_be_written g \<and> a \<noteq> b),
                    double_letter := (double_letter g \<or> to_ascii_lowercase (byte_at fmt sp) = to_ascii_lowercase c)\<rparr>, e)
             | None \<Rightarrow> (g\<lparr>to_be_written := False\<rparr>, brace_lvl_one_letters_complaint fmt e))
        in (if double_letter g then sp + 1 else sp, g\<lparr>alpha_found := True\<rparr>, e))"

lemma group_letter_gt: "group_letter fmt p sp g e = (sp', g', e') \<Longrightarrow> sp < sp'"
  by (auto simp: group_letter_def Let_def split: if_splits option.splits)

text \<open>The first pass, to the group's closing brace; the flag says that it was found.\<close>

(* @src crates/tex-bibtex/src/exec.rs:1113-1160 figure_out_formatted_name *)
function group_loop :: "bytes \<Rightarrow> parts \<Rightarrow> nat \<Rightarrow> int \<Rightarrow> format_group \<Rightarrow> engine \<Rightarrow> bool \<times> nat \<times> int \<times> format_group \<times> engine" where
  "group_loop fmt p sp level g e =
     (if sp < length fmt then
        let c = fmt ! sp
        in if is_alpha c then let (sp, g, e) = group_letter fmt p sp g e in group_loop fmt p sp level g e
           else if c = CHR ''}'' then (True, sp + 1, level - 1, g, e)
           else if c = CHR ''{'' then
             let (sp, level) = skip_brace_group fmt (sp + 1) (level + 1) in group_loop fmt p sp level g e
           else group_loop fmt p (sp + 1) level g e
      else (False, sp, level, g, e))"
  by pat_completeness auto
termination
proof (relation "measure (\<lambda>(fmt, p, sp, level, g, e). length fmt - sp)", goal_cases)
  case (2 fmt p sp level g e c x sp' y g' e')
  then have "sp < sp'" using group_letter_gt [of fmt p sp g e sp' g' e'] by simp
  then show ?case using 2(1) by simp
next
  case (3 fmt p sp level g e c x sp' l)
  then have "sp < sp'" using skip_brace_group_ge [of fmt "sp + 1" "level + 1" sp' l] by simp
  then show ?case using 3(1) by simp
qed auto

declare group_loop.simps [simp del]

lemma group_loop_ge: "group_loop fmt p sp level g e = (b, sp', level', g', e') \<Longrightarrow> sp \<le> sp'"
proof (induction fmt p sp level g e rule: group_loop.induct)
  case (1 fmt p sp level g e)
  show ?case
  proof (cases "sp < length fmt")
    case True
    note ih = 1(1-3) [OF True refl]
    have step: "group_loop fmt p sp level g e = (b, sp', level', g', e')" by (rule 1)
    consider (a) "is_alpha (fmt ! sp)" | (c) "\<not> is_alpha (fmt ! sp)" "fmt ! sp = CHR ''}''"
      | (b) "\<not> is_alpha (fmt ! sp)" "fmt ! sp = CHR ''{''" | (x) "\<not> is_alpha (fmt ! sp)" "fmt ! sp \<noteq> CHR ''}''" "fmt ! sp \<noteq> CHR ''{''"
      by blast
    then show ?thesis
    proof cases
      case a
      obtain i h f where r: "group_letter fmt p sp g e = (i, h, f)" by (metis prod_cases3)
      have "group_loop fmt p i level h f = (b, sp', level', g', e')" using step True a r by (simp add: group_loop.simps [of fmt p sp])
      then show ?thesis using ih(1) [OF a r [symmetric] refl] group_letter_gt [OF r] by simp
    next
      case c
      then show ?thesis using step True by (simp add: group_loop.simps [of fmt p sp])
    next
      case b
      obtain i l where r: "skip_brace_group fmt (sp + 1) (level + 1) = (i, l)" by fastforce
      have "group_loop fmt p i l g e = (b, sp', level', g', e')" using step True b r by (simp add: group_loop.simps [of fmt p sp])
      then show ?thesis using ih(2) b r skip_brace_group_ge [OF r] by fastforce
    next
      case x
      have "group_loop fmt p (sp + 1) level g e = (b, sp', level', g', e')" using step True x by (simp add: group_loop.simps [of fmt p sp])
      then show ?thesis using ih(3) x by simp
    qed
  next
    case False
    then show ?thesis using 1(4) by (simp add: group_loop.simps [of fmt p sp])
  qed
qed

(* @src crates/tex-bibtex/src/exec.rs impl Engine fn figure_out_formatted_name *)
function formatted_loop :: "bytes \<Rightarrow> names \<Rightarrow> parts \<Rightarrow> nat \<Rightarrow> int \<Rightarrow> bytes \<Rightarrow> engine \<Rightarrow> (bytes \<times> int \<times> engine) option" where
  "formatted_loop fmt n p sp level out e =
     (if sp < length fmt then
        let c = fmt ! sp
        in if c = CHR ''{'' then
             let (closed, sp', level, g, e) = group_loop fmt p (sp + 1) (level + 1) blank_group e
             in (case (if closed \<and> to_be_written g
                       then format_part fmt (sp + 1) n (fg_cur g) (fg_stop g) (double_letter g) out e else Some (out, e)) of
                   None \<Rightarrow> None
                 | Some (out, e) \<Rightarrow> formatted_loop fmt n p sp' level out e)
           else if c = CHR ''}'' then formatted_loop fmt n p (sp + 1) level out (braces_unbalanced fmt e)
           else formatted_loop fmt n p (sp + 1) level (out @ [c]) e
      else Some (out, level, e))"
  by pat_completeness auto
termination
proof (relation "measure (\<lambda>(fmt, n, p, sp, level, out, e). length fmt - sp)", goal_cases)
  case (2 fmt n p sp level out e c x closed y sp' z l w g e' v out' e'')
  then have "sp < sp'" using group_loop_ge [of fmt p "sp + 1" "level + 1" blank_group e closed sp' l g e'] by simp
  then show ?case using 2(1) by simp
qed auto

declare formatted_loop.simps [simp del]

(* @src crates/tex-bibtex/src/exec.rs impl Engine fn figure_out_formatted_name *)
definition figure_out_formatted_name :: "bytes \<Rightarrow> names \<Rightarrow> parts \<Rightarrow> engine \<Rightarrow> (bytes \<times> engine) option" where
  "figure_out_formatted_name fmt n p e =
     (case formatted_loop fmt n p 0 0 [] e of
        None \<Rightarrow> None
      | Some (out, level, e) \<Rightarrow> Some (out, if 0 < level then braces_unbalanced fmt e else e))"

subsection \<open>The name of a list\<close>

definition isolate_measure :: "bytes \<times> int \<times> int \<times> nat \<times> nat \<times> engine \<Rightarrow> nat" where
  "isolate_measure = (\<lambda>(list, which, k, ptr, xptr, e). length list - ptr)"

text \<open>The start and the end of the name \<open>which\<close>, and how many were found.\<close>

(* @src crates/tex-bibtex/src/exec.rs:954-962 format_name *)
function isolate_loop :: "bytes \<Rightarrow> int \<Rightarrow> int \<Rightarrow> nat \<Rightarrow> nat \<Rightarrow> engine \<Rightarrow> int \<times> nat \<times> nat \<times> engine" where
  "isolate_loop list which k ptr xptr e =
     (if k < which \<and> ptr < length list then
        let (p, e) = name_scan_for_and list ptr e in isolate_loop list which (k + 1) p ptr e
      else (k, ptr, xptr, e))"
  by pat_completeness auto
termination
proof (relation "measure isolate_measure", goal_cases)
  case (2 list which k ptr xptr e x p e')
  then have "ptr < p" using name_scan_gt [of list ptr e p e'] by simp
  then show ?case using 2(1) by (auto simp: isolate_measure_def intro!: diff_less_mono2)
qed simp

declare isolate_loop.simps [simp del]

(* @src crates/tex-bibtex/src/exec.rs:975-988 format_name *)
fun trim_name :: "bytes \<Rightarrow> int \<Rightarrow> nat \<Rightarrow> nat \<Rightarrow> engine \<Rightarrow> nat \<times> engine" where
  "trim_name list which xptr ptr e =
     (if xptr < ptr then
        let c = list ! (ptr - 1)
        in if lex_class c \<in> {WHITE, SEP} then trim_name list which xptr (ptr - 1) e
           else if c = CHR '','' then
             trim_name list which xptr (ptr - 1)
               (bst_ex_warn_print (pr ([DQ] @ '' has a comma at the end'') (pr list (pr (''Name '' @ dec_int which @ '' in '' @ [DQ]) e))))
           else (ptr, e)
      else (ptr, e))"

declare trim_name.simps [simp del]

text \<open>The copy of the name: its bytes, the starts of its tokens, the separators and the commas.\<close>

(* @src crates/tex-bibtex/src/exec.rs:990-995 format_name *)
record name_copy =
  nc_names :: names
  num_commas :: nat
  comma1 :: nat
  comma2 :: nat
  token_starting :: bool

(* @src crates/tex-bibtex/src/exec.rs:990-995 format_name *)
definition blank_copy :: name_copy where
  "blank_copy =
     \<lparr>nc_names = \<lparr>n_buf = [], n_tok = [], n_sep = []\<rparr>, num_commas = 0, comma1 = 0, comma2 = 0, token_starting = True\<rparr>"

(* @src crates/tex-bibtex/src/exec.rs:996-1001 format_name *)
definition set_sep :: "nat \<Rightarrow> u8 \<Rightarrow> bytes \<Rightarrow> bytes" where
  "set_sep k c sep = (sep @ replicate (k + 1 - length sep) SP)[k := c]"

(* @src crates/tex-bibtex/src/exec.rs:1012-1019 format_name *)
definition copy_comma :: "name_copy \<Rightarrow> name_copy" where
  "copy_comma nc =
     (let n = nc_names nc; k = length (n_tok n)
      in (if num_commas nc = 0 then nc\<lparr>comma1 := k\<rparr> else nc\<lparr>comma2 := k\<rparr>)
           \<lparr>num_commas := num_commas nc + 1, nc_names := n\<lparr>n_sep := set_sep k (CHR '','') (n_sep n)\<rparr>\<rparr>)"

(* @src crates/tex-bibtex/src/exec.rs:1052-1065 format_name *)
definition copy_sep :: "u8 \<Rightarrow> name_copy \<Rightarrow> name_copy" where
  "copy_sep c nc =
     (let n = nc_names nc
      in if token_starting nc then nc else nc\<lparr>nc_names := n\<lparr>n_sep := set_sep (length (n_tok n)) c (n_sep n)\<rparr>, token_starting := True\<rparr>)"

(* @src crates/tex-bibtex/src/exec.rs:1066-1073 format_name *)
definition copy_token :: "bytes \<Rightarrow> name_copy \<Rightarrow> name_copy" where
  "copy_token cs nc =
     (let n = nc_names nc; n = (if token_starting nc then n\<lparr>n_tok := n_tok n @ [length (n_buf n)]\<rparr> else n)
      in nc\<lparr>nc_names := n\<lparr>n_buf := n_buf n @ cs\<rparr>, token_starting := False\<rparr>)"

(* @src crates/tex-bibtex/src/exec.rs:1002-1076 format_name *)
function copy_name :: "bytes \<Rightarrow> int \<Rightarrow> nat \<Rightarrow> nat \<Rightarrow> name_copy \<Rightarrow> engine \<Rightarrow> name_copy \<times> engine" where
  "copy_name list which ptr xptr nc e =
     (if xptr < ptr then
        let c = list ! xptr
        in if c = CHR '','' then
             if num_commas nc = 2 then
               copy_name list which ptr (xptr + 1) (nc\<lparr>token_starting := True\<rparr>)
                 (bst_ex_warn_print (pr [DQ] (pr list (pr (''Too many commas in name '' @ dec_int which @ '' of '' @ [DQ]) e))))
             else copy_name list which ptr (xptr + 1) ((copy_comma nc)\<lparr>token_starting := True\<rparr>) e
           else if c = CHR ''{'' then
             let (q, level) = skip_level list ptr (xptr + 1) (brace_level e + 1)
             in copy_name list which ptr q (copy_token (take (q - xptr) (drop xptr list)) nc) (e\<lparr>brace_level := level\<rparr>)
           else if c = CHR ''}'' then
             copy_name list which ptr (xptr + 1) (copy_token [] nc)
               (bst_ex_warn ([DQ] @ '' isn'' @ [SQ] @ ''t brace balanced'') (pr list (pr (''Name '' @ dec_int which @ '' of '' @ [DQ]) e)))
           else if lex_class c = WHITE then copy_name list which ptr (xptr + 1) (copy_sep SP nc) e
           else if lex_class c = SEP then copy_name list which ptr (xptr + 1) (copy_sep c nc) e
           else copy_name list which ptr (xptr + 1) (copy_token [c] nc) e
      else (nc, e))"
  by pat_completeness auto
termination
proof (relation "measure (\<lambda>(list, which, ptr, xptr, nc, e). ptr - xptr)", goal_cases)
  case (4 list which ptr xptr nc e c x q l)
  then have "xptr < q" using skip_level_ge [of list ptr "xptr + 1" "brace_level e + 1" q l] by simp
  then show ?case using 4(1) by simp
qed auto

declare copy_name.simps [simp del]

(* @src crates/tex-bibtex/src/exec.rs:966-974 format_name *)
definition no_name :: "bytes \<Rightarrow> int \<Rightarrow> engine \<Rightarrow> engine" where
  "no_name list which e =
     bst_ex_warn [DQ] (pr list (pr (if which = 1 then ''There is no name in '' @ [DQ]
       else ''There aren'' @ [SQ] @ ''t '' @ dec_int which @ '' names in '' @ [DQ]) e))"

(* @src crates/tex-bibtex/src/exec.rs:1077-1082 format_name *)
definition finish_names :: "names \<Rightarrow> names" where
  "finish_names n =
     (let k = length (n_tok n)
      in n\<lparr>n_tok := n_tok n @ [length (n_buf n)], n_sep := n_sep n @ replicate (k + 1 - length (n_sep n)) SP\<rparr>)"

text \<open>A subtraction that would go below zero panics: \<open>ptr -= 4\<close> for a name number that is not positive.\<close>

(* @src crates/tex-bibtex/src/exec.rs impl Engine fn format_name *)
definition format_name :: "bytes \<Rightarrow> int \<Rightarrow> bytes \<Rightarrow> engine \<Rightarrow> (bytes \<times> engine) option" where
  "format_name fmt which list e =
     (let (k, ptr, xptr, e) = isolate_loop list which 0 0 0 e
      in if ptr < length list \<and> ptr < 4 then None
         else
           let ptr = (if ptr < length list then ptr - 4 else ptr);
               e = (if k < which then no_name list which e else e);
               (ptr, e) = trim_name list which xptr ptr e;
               (nc, e) = copy_name list which ptr xptr blank_copy e;
               n = finish_names (nc_names nc)
           in figure_out_formatted_name fmt n (name_parts n (num_commas nc) (comma1 nc) (comma2 nc)) e)"

end
