(* ===== verification/BtStack.thy ===== *)
theory BtStack
  imports BtNames "HOL-Library.Product_Lexorder" "HOL-Library.List_Lexorder"
begin

text \<open>
  The literal stack, assignment, the output of the \<open>.bbl\<close> file, case conversion and widths
  (\<open>crates/tex-bibtex/src/exec.rs\<close>).  Function numbers and indexes are in range in every state of a run: the
  theory \<open>BtSafe\<close> has the invariant, \<open>BtRunSafe\<close> shows that it holds.
\<close>

subsection \<open>Literals and messages\<close>

(* @src crates/tex-bibtex/src/exec.rs enum Want *)
datatype (plugins only: code) want = WantInt | WantStr | WantFn

(* @src crates/tex-bibtex/src/exec.rs impl Engine fn cant_mess_with_entries *)
definition cant_mess_with_entries :: "engine \<Rightarrow> engine" where
  "cant_mess_with_entries e = bst_ex_warn (''You can'' @ [SQ] @ ''t mess with entries here'') e"

(* @src crates/tex-bibtex/src/exec.rs impl Engine fn print_stk_lit *)
definition print_stk_lit :: "lit \<Rightarrow> engine \<Rightarrow> engine" where
  "print_stk_lit l e = (case l of
     LInt i \<Rightarrow> pr (dec_int i @ '' is an integer literal'') e
   | LStr s \<Rightarrow> pr ([DQ] @ '' is a string literal'') (pr s (pr [DQ] e))
   | LFn f \<Rightarrow> pr ([SQ] @ '' is a function literal'') (pr (fn_name (fns e ! f)) (pr [BQ] e))
   | LMissing f \<Rightarrow> pr ([SQ] @ '' is a missing field'') (pr (fn_name (fns e ! f)) (pr [BQ] e))
   | LEmpty \<Rightarrow> e)"

(* @src crates/tex-bibtex/src/exec.rs impl Engine fn print_lit *)
definition print_lit :: "lit \<Rightarrow> engine \<Rightarrow> engine" where
  "print_lit l e = (case l of
     LInt i \<Rightarrow> prln (dec_int i) e | LStr s \<Rightarrow> prln s e
   | LFn f \<Rightarrow> prln (fn_name (fns e ! f)) e | LMissing f \<Rightarrow> prln (fn_name (fns e ! f)) e | LEmpty \<Rightarrow> e)"

(* @src crates/tex-bibtex/src/exec.rs:131-135 wrong_lit *)
definition want_text :: "want \<Rightarrow> bytes" where
  "want_text w = (case w of WantInt \<Rightarrow> '', not an integer,'' | WantStr \<Rightarrow> '', not a string,'' | WantFn \<Rightarrow> '', not a function,'')"

(* @src crates/tex-bibtex/src/exec.rs impl Engine fn wrong_lit *)
definition wrong_lit :: "lit \<Rightarrow> want \<Rightarrow> engine \<Rightarrow> engine" where
  "wrong_lit l w e = (if l = LEmpty then e else bst_ex_warn_print (pr (want_text w) (print_stk_lit l e)))"

subsection \<open>The stack\<close>

(* @src crates/tex-bibtex/src/exec.rs impl Engine fn push *)
definition push :: "lit \<Rightarrow> engine \<Rightarrow> engine" where
  "push l e = e\<lparr>stack := l # stack e\<rparr>"

(* @src crates/tex-bibtex/src/exec.rs impl Engine fn push_int *)
definition push_int :: "int \<Rightarrow> engine \<Rightarrow> engine" where
  "push_int i e = push (LInt i) e"

(* @src crates/tex-bibtex/src/exec.rs impl Engine fn push_bytes *)
definition push_str :: "bytes \<Rightarrow> engine \<Rightarrow> engine" where
  "push_str s e = push (LStr s) e"

(* @src crates/tex-bibtex/src/exec.rs impl Engine fn push_null *)
definition push_null :: "engine \<Rightarrow> engine" where
  "push_null e = push_str [] e"

(* @src crates/tex-bibtex/src/exec.rs impl Engine fn pop *)
definition pop :: "engine \<Rightarrow> lit \<times> engine" where
  "pop e = (case stack e of
     l # ls \<Rightarrow> (l, e\<lparr>stack := ls\<rparr>)
   | [] \<Rightarrow> (LEmpty, bst_ex_warn (''You can'' @ [SQ] @ ''t pop an empty literal stack'') e))"

(* @src crates/tex-bibtex/src/exec.rs impl Engine fn pop_top_and_print *)
definition pop_top_and_print :: "engine \<Rightarrow> engine" where
  "pop_top_and_print e = (let (l, e) = pop e in if l = LEmpty then prln ''Empty literal'' e else print_lit l e)"

lemma stack_log [simp]: "stack (pr s e) = stack e" "stack (prln s e) = stack e" "stack (warn e) = stack e" "stack (err e) = stack e"
  by (simp_all add: pr_def prln_def warn_def err_def)

lemma stack_print_lit [simp]: "stack (print_lit l e) = stack e"
  by (simp add: print_lit_def split: lit.split)

(* @src crates/tex-bibtex/src/exec.rs impl Engine fn pop_whole_stack *)
function pop_whole_stack :: "engine \<Rightarrow> engine" where
  "pop_whole_stack e = (if stack e = [] then e else pop_whole_stack (pop_top_and_print e))"
  by pat_completeness auto
termination
  by (relation "measure (length \<circ> stack)") (auto simp: pop_top_and_print_def pop_def split: list.split)

declare pop_whole_stack.simps [simp del]

(* @src crates/tex-bibtex/src/exec.rs impl Engine fn check_command_execution *)
definition check_command_execution :: "engine \<Rightarrow> engine" where
  "check_command_execution e =
     (if stack e \<noteq> [] then
        bst_ex_warn (''---the literal stack isn'' @ [SQ] @ ''t empty'')
          (pop_whole_stack (prln (''ptr='' @ dec_nat (length (stack e)) @ '', stack='') e))
      else e)"

(* @src crates/tex-bibtex/src/exec.rs impl Engine fn pop_two_ints *)
definition pop_two_ints :: "engine \<Rightarrow> (int \<times> int) option \<times> engine" where
  "pop_two_ints e =
     (let (a, e) = pop e; (b, e) = pop e
      in case (a, b) of
           (LInt x, LInt y) \<Rightarrow> (Some (y, x), e)
         | (LInt _, _) \<Rightarrow> (None, wrong_lit b WantInt e)
         | _ \<Rightarrow> (None, wrong_lit a WantInt e))"

(* @src crates/tex-bibtex/src/exec.rs impl Engine fn pop_str *)
definition pop_str :: "engine \<Rightarrow> bytes option \<times> engine" where
  "pop_str e = (let (l, e) = pop e in case l of LStr s \<Rightarrow> (Some s, e) | _ \<Rightarrow> (None, wrong_lit l WantStr e))"

(* @src crates/tex-bibtex/src/exec.rs:617-617 x_equals *)
definition same_kind :: "lit \<Rightarrow> lit \<Rightarrow> bool" where
  "same_kind a b = (case (a, b) of
     (LInt _, LInt _) \<Rightarrow> True | (LStr _, LStr _) \<Rightarrow> True | (LFn _, LFn _) \<Rightarrow> True
   | (LMissing _, LMissing _) \<Rightarrow> True | (LEmpty, LEmpty) \<Rightarrow> True | _ \<Rightarrow> False)"

(* @src crates/tex-bibtex/src/exec.rs impl Engine fn x_equals *)
definition x_equals :: "engine \<Rightarrow> engine" where
  "x_equals e =
     (let (a, e) = pop e; (b, e) = pop e;
          (v, e) = (case (a, b) of
             (LInt x, LInt y) \<Rightarrow> (x = y, e)
           | (LStr x, LStr y) \<Rightarrow> (x = y, e)
           | _ \<Rightarrow>
               if \<not> same_kind a b then
                 (False, if a \<noteq> LEmpty \<and> b \<noteq> LEmpty
                    then bst_ex_warn (''---they aren'' @ [SQ] @ ''t the same literal types'')
                           (pr [NL] (print_stk_lit b (pr '', '' (print_stk_lit a e))))
                    else e)
               else (False, if a \<noteq> LEmpty then bst_ex_warn '', not an integer or a string,'' (print_stk_lit a e) else e))
      in push_int (of_bool v) e)"

subsection \<open>Assignment\<close>

(* @src crates/tex-bibtex/src/exec.rs impl Engine fn truncate_assigned *)
definition truncate_assigned :: "bytes \<Rightarrow> nat \<Rightarrow> bytes \<Rightarrow> engine \<Rightarrow> bytes \<times> engine" where
  "truncate_assigned s cap what e =
     (if length s \<le> cap then (s, e)
      else (take cap s,
            prln ''*Please notify the bibstyle designer*''
              (bst_mild_ex_warn_print
                (pr (''Warning--you'' @ [SQ] @ ''ve exceeded '' @ dec_nat cap @ '', the '' @ what @ ''-string-size,'') e))))"

(* @src crates/tex-bibtex/src/exec.rs impl Engine fn x_gets *)
definition x_gets :: "engine \<Rightarrow> engine" where
  "x_gets e =
     (let (target, e) = pop e; (v, e) = pop e
      in case target of
           LFn f \<Rightarrow>
             let k = kind (fns e ! f)
             in if \<not> mess_with_entries e \<and> (case k of IntEntry _ \<Rightarrow> True | StrEntry _ \<Rightarrow> True | _ \<Rightarrow> False) then cant_mess_with_entries e
                else (case k of
                   IntEntry i \<Rightarrow> (case v of
                     LInt x \<Rightarrow> e\<lparr>entry_ints := (entry_ints e)[cite_ptr e * num_ent_ints e + i := x]\<rparr>
                   | _ \<Rightarrow> wrong_lit v WantInt e)
                 | StrEntry i \<Rightarrow> (case v of
                     LStr s \<Rightarrow> let (s, e) = truncate_assigned s ENT_STR_SIZE ''entry'' e
                               in e\<lparr>entry_strs := (entry_strs e)[cite_ptr e * num_ent_strs e + i := s]\<rparr>
                   | _ \<Rightarrow> wrong_lit v WantStr e)
                 | IntGlobal i \<Rightarrow> (case v of
                     LInt x \<Rightarrow> e\<lparr>glb_ints := (glb_ints e)[i := x]\<rparr>
                   | _ \<Rightarrow> wrong_lit v WantInt e)
                 | StrGlobal i \<Rightarrow> (case v of
                     LStr s \<Rightarrow> let (s, e) = truncate_assigned s GLOB_STR_SIZE ''global'' e in e\<lparr>glb_strs := (glb_strs e)[i := s]\<rparr>
                   | _ \<Rightarrow> wrong_lit v WantStr e)
                 | _ \<Rightarrow> bst_ex_warn '', a nonvariable function class'' (pr (''You can'' @ [SQ] @ ''t assign to type '' @ fn_class_name k) e))
         | _ \<Rightarrow> wrong_lit target WantFn e)"

subsection \<open>Output of the bbl file\<close>

(* @src crates/tex-bibtex/src/exec.rs:700-703 output_bbl_line *)
fun trim_white :: "bytes \<Rightarrow> nat \<Rightarrow> nat" where
  "trim_white b n = (if 0 < n \<and> is_white (b ! (n - 1)) then trim_white b (n - 1) else n)"

declare trim_white.simps [simp del]

text \<open>The line, and what goes to the file.\<close>

(* @src crates/tex-bibtex/src/exec.rs impl Engine fn output_bbl_line *)
definition output_bbl_line :: "engine \<Rightarrow> engine" where
  "output_bbl_line e =
     (let n = trim_white (out_buf e) (length (out_buf e))
      in if out_buf e \<noteq> [] \<and> n = 0 then e\<lparr>out_buf := []\<rparr>
         else e\<lparr>bbl := bbl e @ take n (out_buf e) @ [NL], out_buf := []\<rparr>)"

(* @src crates/tex-bibtex/src/exec.rs:720-723 add_out_pool *)
function back_break :: "bytes \<Rightarrow> nat \<Rightarrow> nat" where
  "back_break b p = (if \<not> is_white (b ! p) \<and> MIN_PRINT_LINE \<le> p then back_break b (p - 1) else p)"
  by pat_completeness auto
termination by (relation "measure snd") (auto simp: MIN_PRINT_LINE_def)

declare back_break.simps [simp del]

text \<open>The white space a long line breaks at: before the margin, or after an unbreakable start, or none.\<close>

(* @src crates/tex-bibtex/src/exec.rs:719-736 add_out_pool *)
definition break_point :: "bytes \<Rightarrow> nat option" where
  "break_point b =
     (let p = back_break b MAX_PRINT_LINE
      in if p = MIN_PRINT_LINE - 1 then
           let p = run_end (\<lambda>c. \<not> is_white c) b (length b) (MAX_PRINT_LINE + 1)
           in if p = length b then None else Some (run_end is_white b (length b) (p + 1) - 1)
         else Some p)"

lemma back_break_ge: "2 \<le> p \<Longrightarrow> 2 \<le> back_break b p"
  by (induction b p rule: back_break.induct) (subst back_break.simps, auto simp: MIN_PRINT_LINE_def)

lemma break_point_ge: "break_point b = Some p \<Longrightarrow> 3 \<le> p"
  using back_break_ge [of 79 b] run_end_bounds(1) [of 80 "\<lambda>c. \<not> is_white c" b "length b"]
    run_end_bounds(1) [of "run_end (\<lambda>c. \<not> is_white c) b (length b) 80 + 1" is_white b "length b"]
  by (auto simp: break_point_def Let_def MAX_PRINT_LINE_def MIN_PRINT_LINE_def split: if_splits)

(* @src crates/tex-bibtex/src/exec.rs:718-742 add_out_pool *)
function break_lines :: "engine \<Rightarrow> engine" where
  "break_lines e =
     (if MAX_PRINT_LINE < length (out_buf e) then
        (case break_point (out_buf e) of
           None \<Rightarrow> e
         | Some p \<Rightarrow>
             let rest = drop (p + 1) (out_buf e); e = output_bbl_line (e\<lparr>out_buf := take p (out_buf e)\<rparr>)
             in break_lines (e\<lparr>out_buf := out_buf e @ [SP, SP] @ rest\<rparr>))
      else e)"
  by pat_completeness auto
termination
  by (relation "measure (\<lambda>e. length (out_buf e))")
    (auto simp: output_bbl_line_def Let_def MAX_PRINT_LINE_def dest!: break_point_ge)

declare break_lines.simps [simp del]

(* @src crates/tex-bibtex/src/exec.rs impl Engine fn add_out_pool *)
definition add_out_pool :: "bytes \<Rightarrow> engine \<Rightarrow> engine" where
  "add_out_pool s e = break_lines (e\<lparr>out_buf := out_buf e @ s\<rparr>)"

end
