(* ===== verification/BtCase.thy ===== *)
theory BtCase
  imports BtStack
begin

text \<open>
  Case conversion and widths of strings (\<open>crates/tex-bibtex/src/exec.rs\<close>, \<open>change.case$\<close> and \<open>width$\<close>).
\<close>

subsection \<open>\<open>change.case$\<close>\<close>

lemma convert_cs_pos: "convert_cs conv b xs i = (b', i') \<Longrightarrow> 0 < xs \<Longrightarrow> xs \<le> i \<Longrightarrow> 0 < i'"
  by (cases "xs = i") (auto simp: convert_cs_def strip_cs_def Let_def split: option.splits if_splits)

lemma on_convert_length: "a \<le> c \<Longrightarrow> c \<le> length b \<Longrightarrow> length (on_range (convert conv) a c b) = length b"
  by (simp add: convert_def split: case_conv.split)

lemma convert_loop_left:
  "convert_loop conv b i level = (b', i', l') \<Longrightarrow> 0 < i \<Longrightarrow> i \<le> length b \<Longrightarrow>
    length b' - i' \<le> length b - i \<and> i' \<le> length b' \<and> 0 < i'"
proof (induction conv b i level rule: convert_loop.induct)
  case (1 conv b i level)
  show ?case
  proof (cases "i < length b \<and> 0 < level")
    case True
    let ?j = "run_end is_alpha b (length b) (i + 1)"
    obtain c k where c: "convert_cs conv b (i + 1) ?j = (c, k)" by fastforce
    obtain k' l where k: "skip_plain c k level = (k', l)" by fastforce
    have j: "i + 1 \<le> ?j" "?j \<le> length b"
      using True run_end_bounds(1) [of "i + 1" is_alpha b "length b"] run_end_bounds(2) [of "i + 1" "length b" is_alpha b] by auto
    have cl: "length c - k \<le> length b - ?j \<and> k \<le> length c" using convert_cs_left [OF c] j by simp
    have kp: "0 < k" using convert_cs_pos [OF c] j by simp
    have kl: "k \<le> k' \<and> k' \<le> length c" using skip_plain_ge [OF k] cl by simp
    let ?c = "on_range (convert conv) k k' c"
    have len: "length ?c = length c" using kl by (intro on_convert_length) auto
    have "convert_loop conv ?c k' l = (b', i', l')" using 1(2) True c k by (simp add: convert_loop.simps [of conv b i])
    then have "length b' - i' \<le> length ?c - k' \<and> i' \<le> length b' \<and> 0 < i'"
      using 1(1) [OF True refl c [symmetric] refl refl k [symmetric] refl] kl kp len by simp
    then show ?thesis using len kl cl j by linarith
  next
    case False
    then have "convert_loop conv b i level = (b, i, level)" by (subst convert_loop.simps) (rule if_not_P)
    then show ?thesis using 1(2-4) by simp
  qed
qed

lemma convert_special_left:
  "i < length b \<Longrightarrow> convert_special b i conv level = (b', j, l) \<Longrightarrow> length b' - (j + 1) \<le> length b - (i + 1) \<and> j + 1 \<le> length b'"
  using convert_loop_left [of conv b "i + 1" level]
  by (auto simp: convert_special_def split: prod.splits)

text \<open>The start of a title, or the first letter after a colon and white space: it keeps its case.\<close>

(* @src crates/tex-bibtex/src/exec.rs:784-785 x_change_case *)
definition title_start :: "bytes \<Rightarrow> nat \<Rightarrow> bool \<Rightarrow> bool" where
  "title_start b i prev_colon \<longleftrightarrow> i = 0 \<or> prev_colon \<and> is_white (b ! (i - 1))"

(* @src crates/tex-bibtex/src/exec.rs:793-809 x_change_case *)
definition convert_byte :: "case_conv \<Rightarrow> bool \<Rightarrow> u8 \<Rightarrow> u8" where
  "convert_byte conv start c = (case conv of
     Title \<Rightarrow> if start then c else to_ascii_lowercase c
   | Lower \<Rightarrow> to_ascii_lowercase c | Upper \<Rightarrow> to_ascii_uppercase c | Bad \<Rightarrow> c)"

(* @src crates/tex-bibtex/src/exec.rs:777-811 x_change_case *)
function change_loop :: "bytes \<Rightarrow> case_conv \<Rightarrow> bytes \<Rightarrow> nat \<Rightarrow> bool \<Rightarrow> engine \<Rightarrow> bytes \<times> engine" where
  "change_loop s conv b i prev_colon e =
     (if i < length b then
        let c = b ! i
        in if c = CHR ''{'' then
             let level = brace_level e + 1
             in if level = 1 \<and> i + 4 \<le> length b \<and> b ! (i + 1) = BACKSLASH \<and> \<not> (conv = Title \<and> title_start b i prev_colon) then
                  let (b, i, level) = convert_special b i conv level
                  in change_loop s conv b (i + 1) False (e\<lparr>brace_level := level\<rparr>)
                else change_loop s conv b (i + 1) False (e\<lparr>brace_level := level\<rparr>)
           else if c = CHR ''}'' then change_loop s conv b (i + 1) False (decr_brace_level s e)
           else if brace_level e = 0 then
             let c = convert_byte conv (title_start b i prev_colon) c;
                 prev_colon = (if conv = Title then c = CHR '':'' \<or> is_white c \<and> prev_colon else prev_colon)
             in change_loop s conv (b[i := c]) (i + 1) prev_colon e
           else change_loop s conv b (i + 1) prev_colon e
      else (b, e))"
  by pat_completeness auto
termination
proof (relation "measure (\<lambda>(s, conv, b, i, prev_colon, e). length b - i)", goal_cases)
  case (2 s conv b i prev_colon e c level x b' y i' l)
  then have "length b' - (i' + 1) \<le> length b - (i + 1)" using convert_special_left [of i b conv level b' i' l] by simp
  then show ?case using 2(1) by simp
qed auto

declare change_loop.simps [simp del]

(* @src crates/tex-bibtex/src/exec.rs:763-772 x_change_case *)
definition case_spec :: "bytes \<Rightarrow> case_conv" where
  "case_spec spec =
     (if spec \<in> {''t'', ''T''} then Title else if spec \<in> {''l'', ''L''} then Lower
      else if spec \<in> {''u'', ''U''} then Upper else Bad)"

(* @src crates/tex-bibtex/src/exec.rs:773-812 x_change_case *)
definition change_case :: "case_conv \<Rightarrow> bytes \<Rightarrow> engine \<Rightarrow> bytes \<times> engine" where
  "change_case conv s e =
     (let (b, e) = change_loop s conv s 0 False (e\<lparr>brace_level := 0\<rparr>) in (b, check_brace_level s e))"

(* @src crates/tex-bibtex/src/exec.rs impl Engine fn x_change_case *)
definition x_change_case :: "engine \<Rightarrow> engine" where
  "x_change_case e =
     (let (spec, e) = pop e; (s, e) = pop e
      in case (spec, s) of
           (LStr spec, LStr s) \<Rightarrow>
             let conv = case_spec spec;
                 e = (if conv = Bad then bst_ex_warn '' is an illegal case-conversion string'' (pr spec e) else e);
                 (b, e) = change_case conv s e
             in push_str b e
         | (LStr _, _) \<Rightarrow> push_null (wrong_lit s WantStr e)
         | _ \<Rightarrow> push_null (wrong_lit spec WantStr e))"

subsection \<open>\<open>width$\<close>\<close>

text \<open>The characters of a special character after its control sequence.\<close>

(* @src crates/tex-bibtex/src/exec.rs:842-849 width *)
function width_plain :: "bytes \<Rightarrow> nat \<Rightarrow> int \<Rightarrow> int \<Rightarrow> nat \<times> int \<times> int" where
  "width_plain s i level w =
     (if i < length s \<and> 0 < level \<and> s ! i \<noteq> BACKSLASH then
        let c = s ! i
        in width_plain s (i + 1) (brace_step_int c level) (if c \<in> {CHR ''{'', CHR ''}''} then w else wrap_i32 (w + char_width c))
      else (i, level, w))"
  by pat_completeness auto
termination by (relation "measure (\<lambda>(s, i, level, w). length s - i)") auto

declare width_plain.simps [simp del]

lemma width_plain_ge: "width_plain s i level w = (j, l, v) \<Longrightarrow> i \<le> j"
  by (induction s i level w rule: width_plain.induct) (subst (asm) (2) width_plain.simps, auto simp: Let_def split: if_splits)

(* @src crates/tex-bibtex/src/exec.rs:830-838 width *)
definition width_cs :: "bytes \<Rightarrow> nat \<Rightarrow> nat \<Rightarrow> int \<Rightarrow> nat \<times> int" where
  "width_cs s xs i w =
     (if i < length s \<and> i = xs then (i + 1, w)
      else (case control_seq (take (i - xs) (drop xs s)) of
              Some k \<Rightarrow> (i, wrap_i32 (w + special_width k (s ! xs))) | None \<Rightarrow> (i, w)))"

lemma width_cs_ge: "width_cs s xs i w = (j, v) \<Longrightarrow> i \<le> j"
  by (auto simp: width_cs_def split: if_splits option.splits)

text \<open>\<open>i\<close> is at a backslash, or where the code takes the next byte for one.\<close>

(* @src crates/tex-bibtex/src/exec.rs:827-850 width *)
function width_special :: "bytes \<Rightarrow> nat \<Rightarrow> int \<Rightarrow> int \<Rightarrow> nat \<times> int \<times> int" where
  "width_special s i level w =
     (if i < length s \<and> 0 < level then
        let xs = i + 1; i = run_end is_alpha s (length s) xs;
            (i, w) = width_cs s xs i w;
            i = run_end is_white s (length s) i;
            (i, level, w) = width_plain s i level w
        in width_special s i level w
      else (i, level, w))"
  by pat_completeness auto
termination
proof (relation "measure (\<lambda>(s, i, level, w). length s - i)", goal_cases)
  case (2 s i level w xs j x k v m y n l z)
  have "xs \<le> j" "j \<le> k" using 2(3-5) run_end_bounds(1) [of xs is_alpha s "length s"] width_cs_ge [of s xs j w k v] by auto
  moreover have "k \<le> m" using 2(6) run_end_bounds(1) [of k is_white s "length s"] by simp
  moreover have "m \<le> n" using 2(7-9) width_plain_ge [of s m level v n] by (metis prod.collapse)
  ultimately show ?case using 2(1,2) by auto
qed auto

declare width_special.simps [simp del]

lemma width_special_ge: "width_special s i level w = (j, l, v) \<Longrightarrow> i \<le> j"
proof (induction s i level w rule: width_special.induct)
  case (1 s i level w)
  show ?case
  proof (cases "i < length s \<and> 0 < level")
    case True
    let ?j = "run_end is_alpha s (length s) (i + 1)"
    obtain k w1 where k: "width_cs s (i + 1) ?j w = (k, w1)" by fastforce
    let ?m = "run_end is_white s (length s) k"
    obtain n l1 w2 where n: "width_plain s ?m level w1 = (n, l1, w2)" by (metis prod_cases3)
    have "width_special s n l1 w2 = (j, l, v)" using 1(2) True k n by (subst (asm) width_special.simps) (simp add: Let_def)
    then show ?thesis
      using 1(1) [OF True refl refl k [symmetric] refl refl n [symmetric] refl refl] width_plain_ge [OF n] width_cs_ge [OF k]
        run_end_bounds(1) [of "i + 1" is_alpha s "length s"] run_end_bounds(1) [of k is_white s "length s"] by linarith
  next
    case False
    then have "width_special s i level w = (i, level, w)" by (subst width_special.simps) (rule if_not_P)
    then show ?thesis using 1(2) by simp
  qed
qed

(* @src crates/tex-bibtex/src/exec.rs:821-862 width *)
function width_loop :: "bytes \<Rightarrow> nat \<Rightarrow> int \<Rightarrow> engine \<Rightarrow> int \<times> engine" where
  "width_loop s i w e =
     (if i < length s then
        let c = s ! i
        in if c = CHR ''{'' then
             let level = brace_level e + 1
             in if level = 1 \<and> i + 1 < length s \<and> s ! (i + 1) = BACKSLASH then
                  let (j, level, w) = width_special s (i + 1) level w in width_loop s j w (e\<lparr>brace_level := level\<rparr>)
                else width_loop s (i + 1) (wrap_i32 (w + char_width c)) (e\<lparr>brace_level := level\<rparr>)
           else if c = CHR ''}'' then width_loop s (i + 1) (wrap_i32 (w + char_width c)) (decr_brace_level s e)
           else width_loop s (i + 1) (wrap_i32 (w + char_width c)) e
      else (w, e))"
  by pat_completeness auto
termination
proof (relation "measure (\<lambda>(s, i, w, e). length s - i)", goal_cases)
  case (2 s i w e c level x j y l w')
  then have "i < j" using width_special_ge [of s "i + 1" level w j l w'] by simp
  then show ?case using 2(1) by simp
qed auto

declare width_loop.simps [simp del]

(* @src crates/tex-bibtex/src/exec.rs impl Engine fn width *)
definition string_width :: "bytes \<Rightarrow> engine \<Rightarrow> int \<times> engine" where
  "string_width s e = (let (w, e) = width_loop s 0 0 (e\<lparr>brace_level := 0\<rparr>) in (w, check_brace_level s e))"

end
