(* ===== verification/BtExec.thy ===== *)
theory BtExec
  imports BtCase
begin

text \<open>
  Execution of the style's functions (\<open>crates/tex-bibtex/src/exec.rs\<close>, \<open>builtin\<close>, \<open>execute_fn\<close> and the commands).
  A function may call itself and \<open>while$\<close> may not end, so a run takes a fuel; an index out of range is a panic.
\<close>

subsection \<open>Outcomes\<close>

datatype (plugins only: code) outcome = Returned engine | Panicked engine | Unfinished

type_synonym runner = "fn_id \<Rightarrow> engine \<Rightarrow> outcome"

fun and_run :: "outcome \<Rightarrow> (engine \<Rightarrow> outcome) \<Rightarrow> outcome" where
  "and_run (Returned e) f = f e"
| "and_run (Panicked e) f = Panicked e"
| "and_run Unfinished f = Unfinished"

text \<open>The state at a panic comes with it.\<close>

definition elem_at :: "engine \<Rightarrow> 'a list \<Rightarrow> nat \<Rightarrow> ('a \<Rightarrow> outcome) \<Rightarrow> outcome" where
  "elem_at e xs i k = (if i < length xs then k (xs ! i) else Panicked e)"

subsection \<open>Builtin functions that call no function\<close>

text \<open>\<open>>\<close>, \<open><\<close>, \<open>+\<close> and \<open>-\<close>: the operand pushed first comes first.\<close>

(* @src crates/tex-bibtex/src/exec.rs:326-341 builtin *)
definition x_arith :: "(int \<Rightarrow> int \<Rightarrow> int) \<Rightarrow> engine \<Rightarrow> engine" where
  "x_arith f e = (let (p, e) = pop_two_ints e in case p of Some (a, b) \<Rightarrow> push_int (f a b) e | None \<Rightarrow> push_int 0 e)"

(* @src crates/tex-bibtex/src/exec.rs:342-369 builtin *)
definition x_concatenate :: "engine \<Rightarrow> engine" where
  "x_concatenate e =
     (let (a, e) = pop e; (c, e) = pop e
      in case (a, c) of
           (LStr a, LStr c) \<Rightarrow> push_str (c @ a) e
         | (LStr _, _) \<Rightarrow> push_null (wrong_lit c WantStr e)
         | _ \<Rightarrow> push_null (wrong_lit a WantStr e))"

(* @src crates/tex-bibtex/src/exec.rs:371-377 builtin *)
definition x_add_period :: "engine \<Rightarrow> engine" where
  "x_add_period e =
     (let (s, e) = pop_str e
      in case s of None \<Rightarrow> push_null e
         | Some s \<Rightarrow> (case add_period s of Some t \<Rightarrow> push_str t e | None \<Rightarrow> push_str s e))"

(* @src crates/tex-bibtex/src/exec.rs:390-399 builtin *)
definition x_chr_to_int :: "engine \<Rightarrow> engine" where
  "x_chr_to_int e =
     (let (s, e) = pop_str e
      in case s of None \<Rightarrow> push_int 0 e
         | Some s \<Rightarrow>
             if length s = 1 then push_int (byte_val (s ! 0)) e
             else push_int 0 (bst_ex_warn ([DQ] @ '' isn'' @ [SQ] @ ''t a single character'') (pr s (pr [DQ] e))))"

(* @src crates/tex-bibtex/src/exec.rs:408-412 builtin *)
definition x_duplicate :: "engine \<Rightarrow> engine" where
  "x_duplicate e = (let (l, e) = pop e in push l (push l e))"

(* @src crates/tex-bibtex/src/exec.rs:413-425 builtin *)
definition x_empty :: "engine \<Rightarrow> engine" where
  "x_empty e =
     (let (l, e) = pop e
      in case l of
           LStr s \<Rightarrow> push_int (of_bool (\<forall>c \<in> set s. is_white c)) e
         | LMissing _ \<Rightarrow> push_int 1 e
         | LEmpty \<Rightarrow> push_int 0 e
         | _ \<Rightarrow> push_int 0 (bst_ex_warn '', not a string or missing field,'' (print_stk_lit l e)))"

(* @src crates/tex-bibtex/src/exec.rs:441-451 builtin *)
definition x_int_to_chr :: "engine \<Rightarrow> engine" where
  "x_int_to_chr e =
     (let (l, e) = pop e
      in case l of
           LInt i \<Rightarrow> if 0 \<le> i \<and> i \<le> 127 then push_str [char_of (nat i)] e
                     else push_null (bst_ex_warn (dec_int i @ '' isn'' @ [SQ] @ ''t valid ASCII'') e)
         | _ \<Rightarrow> push_null (wrong_lit l WantInt e))"

(* @src crates/tex-bibtex/src/exec.rs:452-458 builtin *)
definition x_int_to_str :: "engine \<Rightarrow> engine" where
  "x_int_to_str e =
     (let (l, e) = pop e in case l of LInt i \<Rightarrow> push_str (dec_int i) e | _ \<Rightarrow> push_null (wrong_lit l WantInt e))"

(* @src crates/tex-bibtex/src/exec.rs:459-475 builtin *)
definition x_missing :: "engine \<Rightarrow> engine" where
  "x_missing e =
     (let (l, e) = pop e
      in if \<not> mess_with_entries e then cant_mess_with_entries e
         else (case l of
             LMissing _ \<Rightarrow> push_int 1 e | LStr _ \<Rightarrow> push_int 0 e | LEmpty \<Rightarrow> push_int 0 e
           | _ \<Rightarrow> push_int 0 (bst_ex_warn '', not a string or missing field,'' (print_stk_lit l e))))"

(* @src crates/tex-bibtex/src/exec.rs:477-483 builtin *)
definition x_num_names :: "engine \<Rightarrow> engine" where
  "x_num_names e =
     (let (s, e) = pop_str e
      in case s of None \<Rightarrow> push_int 0 e | Some s \<Rightarrow> let (n, e) = num_names s e in push_int (wrap_i32 n) e)"

(* @src crates/tex-bibtex/src/exec.rs:491-494 builtin *)
definition x_purify :: "engine \<Rightarrow> engine" where
  "x_purify e = (let (s, e) = pop_str e in case s of None \<Rightarrow> push_null e | Some s \<Rightarrow> push_str (purify s) e)"

(* @src crates/tex-bibtex/src/exec.rs:498-523 builtin *)
definition x_substring :: "engine \<Rightarrow> engine" where
  "x_substring e =
     (let (len, e) = pop e; (start, e) = pop e; (s, e) = pop e
      in case (len, start, s) of
           (LInt len, LInt start, LStr s) \<Rightarrow>
             (case substring s start len of Some t \<Rightarrow> push_str t e | None \<Rightarrow> push_str s e)
         | (LInt _, LInt _, _) \<Rightarrow> push_null (wrong_lit s WantStr e)
         | (LInt _, _, _) \<Rightarrow> push_null (wrong_lit start WantInt e)
         | _ \<Rightarrow> push_null (wrong_lit len WantInt e))"

(* @src crates/tex-bibtex/src/exec.rs:524-529 builtin *)
definition x_swap :: "engine \<Rightarrow> engine" where
  "x_swap e = (let (a, e) = pop e; (c, e) = pop e in push c (push a e))"

(* @src crates/tex-bibtex/src/exec.rs:530-533 builtin *)
definition x_text_length :: "engine \<Rightarrow> engine" where
  "x_text_length e =
     (let (s, e) = pop_str e
      in case s of None \<Rightarrow> push_null e | Some s \<Rightarrow> push_int (wrap_i32 (int (text_length s))) e)"

(* @src crates/tex-bibtex/src/exec.rs:534-554 builtin *)
definition x_text_prefix :: "engine \<Rightarrow> engine" where
  "x_text_prefix e =
     (let (n, e) = pop e; (s, e) = pop e
      in case (n, s) of
           (LInt n, LStr s) \<Rightarrow> if n \<le> 0 then push_null e else push_str (text_prefix s (nat n)) e
         | (LInt _, _) \<Rightarrow> push_null (wrong_lit s WantStr e)
         | _ \<Rightarrow> push_null (wrong_lit n WantInt e))"

(* @src crates/tex-bibtex/src/exec.rs:569-575 builtin *)
definition x_warning :: "engine \<Rightarrow> engine" where
  "x_warning e =
     (let (s, e) = pop_str e in case s of Some s \<Rightarrow> warn (prln s (pr ''Warning--'' e)) | None \<Rightarrow> e)"

(* @src crates/tex-bibtex/src/exec.rs:595-601 builtin *)
definition x_width :: "engine \<Rightarrow> engine" where
  "x_width e =
     (let (s, e) = pop_str e
      in case s of None \<Rightarrow> push_int 0 e | Some s \<Rightarrow> let (w, e) = string_width s e in push_int w e)"

(* @src crates/tex-bibtex/src/exec.rs:602-606 builtin *)
definition x_write :: "engine \<Rightarrow> engine" where
  "x_write e = (let (s, e) = pop_str e in case s of Some s \<Rightarrow> add_out_pool s e | None \<Rightarrow> e)"

(* @src crates/tex-bibtex/src/exec.rs:487-490 builtin *)
definition x_preamble :: "engine \<Rightarrow> engine" where
  "x_preamble e = push_str (concat (preambles e)) e"

text \<open>The builtin functions that neither look at the entry nor call a function.\<close>

(* @src crates/tex-bibtex/src/exec.rs:323-337 builtin *)
definition plain_builtin :: "builtin \<Rightarrow> engine \<Rightarrow> engine" where
  "plain_builtin b = (case b of
     B_Eq \<Rightarrow> x_equals | B_Gt \<Rightarrow> x_arith (\<lambda>a b. of_bool (b < a)) | B_Lt \<Rightarrow> x_arith (\<lambda>a b. of_bool (a < b))
   | B_Plus \<Rightarrow> x_arith (\<lambda>a b. wrap_i32 (a + b)) | B_Minus \<Rightarrow> x_arith (\<lambda>a b. wrap_i32 (a - b))
   | B_Concat \<Rightarrow> x_concatenate | B_Gets \<Rightarrow> x_gets | B_AddPeriod \<Rightarrow> x_add_period | B_ChangeCase \<Rightarrow> x_change_case
   | B_ChrToInt \<Rightarrow> x_chr_to_int | B_Duplicate \<Rightarrow> x_duplicate | B_Empty \<Rightarrow> x_empty | B_IntToChr \<Rightarrow> x_int_to_chr
   | B_IntToStr \<Rightarrow> x_int_to_str | B_Missing \<Rightarrow> x_missing | B_Newline \<Rightarrow> output_bbl_line | B_NumNames \<Rightarrow> x_num_names
   | B_Pop \<Rightarrow> (\<lambda>e. snd (pop e)) | B_Preamble \<Rightarrow> x_preamble | B_Purify \<Rightarrow> x_purify | B_Quote \<Rightarrow> push_str [DQ]
   | B_Stack \<Rightarrow> pop_whole_stack | B_Substring \<Rightarrow> x_substring | B_Swap \<Rightarrow> x_swap | B_TextLength \<Rightarrow> x_text_length
   | B_TextPrefix \<Rightarrow> x_text_prefix | B_Top \<Rightarrow> pop_top_and_print | B_Warning \<Rightarrow> x_warning | B_Width \<Rightarrow> x_width
   | B_Write \<Rightarrow> x_write | _ \<Rightarrow> (\<lambda>e. e))"

(* @src crates/tex-bibtex/src/exec.rs impl Engine fn x_format_name *)
definition x_format_name :: "engine \<Rightarrow> outcome" where
  "x_format_name e0 =
     (let (fmt, e) = pop e0; (which, e) = pop e; (list, e) = pop e
      in case (fmt, which, list) of
           (LStr f, LInt w, LStr l) \<Rightarrow>
             (case format_name f w l e of Some (out, e) \<Rightarrow> Returned (push_str out e) | None \<Rightarrow> Panicked e0)
         | (LStr _, LInt _, _) \<Rightarrow> Returned (push_null (wrong_lit list WantStr e))
         | (LStr _, _, _) \<Rightarrow> Returned (push_null (wrong_lit which WantInt e))
         | _ \<Rightarrow> Returned (push_null (wrong_lit fmt WantStr e)))"

subsection \<open>Builtin functions of the entry\<close>

(* @src crates/tex-bibtex/src/exec.rs:400-407 builtin *)
definition x_cite :: "engine \<Rightarrow> outcome" where
  "x_cite e =
     (if \<not> mess_with_entries e then Returned (cant_mess_with_entries e)
      else elem_at e (cite_list e) (cite_ptr e) (\<lambda>c. Returned (push_str c e)))"

(* @src crates/tex-bibtex/src/exec.rs:556-568 builtin *)
definition x_type :: "engine \<Rightarrow> outcome" where
  "x_type e =
     (if \<not> mess_with_entries e then Returned (cant_mess_with_entries e)
      else elem_at e (type_list e) (cite_ptr e)
        (\<lambda>t. case t of
           EtType f \<Rightarrow> elem_at e (fns e) f (\<lambda>d. Returned (push_str (fn_name d) e))
         | _ \<Rightarrow> Returned (push_null e)))"

subsection \<open>Functions that call functions\<close>

(* @src crates/tex-bibtex/src/exec.rs:378-388 builtin *)
definition x_call_type :: "runner \<Rightarrow> engine \<Rightarrow> outcome" where
  "x_call_type run e =
     (if \<not> mess_with_entries e then Returned (cant_mess_with_entries e)
      else elem_at e (type_list e) (cite_ptr e)
        (\<lambda>t. case t of EtUndefined \<Rightarrow> run (b_default e) e | EtEmpty \<Rightarrow> Returned e | EtType f \<Rightarrow> run f e))"

(* @src crates/tex-bibtex/src/exec.rs:427-440 builtin *)
definition x_if :: "runner \<Rightarrow> engine \<Rightarrow> outcome" where
  "x_if run e =
     (let (f1, e) = pop e; (f2, e) = pop e; (c, e) = pop e
      in case (f1, f2, c) of
           (LFn f1, LFn f2, LInt c) \<Rightarrow> run (if 0 < c then f2 else f1) e
         | (LFn _, LFn _, _) \<Rightarrow> Returned (wrong_lit c WantInt e)
         | (LFn _, _, _) \<Rightarrow> Returned (wrong_lit f2 WantFn e)
         | _ \<Rightarrow> Returned (wrong_lit f1 WantFn e))"

(* @src crates/tex-bibtex/src/exec.rs:576-594 builtin *)
fun while_loop :: "runner \<Rightarrow> nat \<Rightarrow> fn_id \<Rightarrow> fn_id \<Rightarrow> engine \<Rightarrow> outcome" where
  "while_loop run 0 body test e = Unfinished"
| "while_loop run (Suc n) body test e =
     and_run (run test e)
       (\<lambda>e. let (l, e) = pop e
            in case l of
                 LInt c \<Rightarrow> if 0 < c then and_run (run body e) (while_loop run n body test) else Returned e
               | _ \<Rightarrow> Returned (wrong_lit l WantInt e))"

(* @src crates/tex-bibtex/src/exec.rs:576-594 builtin *)
definition x_while :: "runner \<Rightarrow> nat \<Rightarrow> engine \<Rightarrow> outcome" where
  "x_while run n e =
     (let (body, e) = pop e; (test, e) = pop e
      in case (body, test) of
           (LFn body, LFn test) \<Rightarrow> while_loop run n body test e
         | (LFn _, _) \<Rightarrow> Returned (wrong_lit test WantFn e)
         | _ \<Rightarrow> Returned (wrong_lit body WantFn e))"

(* @src crates/tex-bibtex/src/exec.rs impl Engine fn builtin *)
definition builtin :: "runner \<Rightarrow> nat \<Rightarrow> builtin \<Rightarrow> engine \<Rightarrow> outcome" where
  "builtin run n b e = (case b of
     B_CallType \<Rightarrow> x_call_type run e | B_If \<Rightarrow> x_if run e | B_While \<Rightarrow> x_while run n e
   | B_FormatName \<Rightarrow> x_format_name e | B_Cite \<Rightarrow> x_cite e | B_Type \<Rightarrow> x_type e
   | _ \<Rightarrow> Returned (plain_builtin b e))"

(* @src crates/tex-bibtex/src/exec.rs:244-251 execute_fn *)
fun run_ops :: "runner \<Rightarrow> op list \<Rightarrow> engine \<Rightarrow> outcome" where
  "run_ops run [] e = Returned e"
| "run_ops run (OpCall g # ops) e = and_run (run g e) (run_ops run ops)"
| "run_ops run (OpQuote g # ops) e = run_ops run ops (push (LFn g) e)"
| "run_ops run (OpInt i # ops) e = run_ops run ops (push_int i e)"
| "run_ops run (OpStr s # ops) e = run_ops run ops (push_str s e)"

(* @src crates/tex-bibtex/src/exec.rs:255-257 execute_fn *)
definition with_entry :: "engine \<Rightarrow> outcome \<Rightarrow> outcome" where
  "with_entry e r = (if mess_with_entries e then r else Returned (cant_mess_with_entries e))"

(* @src crates/tex-bibtex/src/exec.rs:237-293 execute_fn *)
definition execute_kind :: "runner \<Rightarrow> nat \<Rightarrow> fn_id \<Rightarrow> fn_kind \<Rightarrow> engine \<Rightarrow> outcome" where
  "execute_kind run n f k e = (case k of
     Builtin b \<Rightarrow> builtin run n b e
   | Wiz ops \<Rightarrow> run_ops run ops e
   | Field i \<Rightarrow> with_entry e (elem_at e (field_info e) (cite_ptr e * num_fields e + i)
       (\<lambda>v. Returned (case v of Some s \<Rightarrow> push_str s e | None \<Rightarrow> push (LMissing f) e)))
   | IntEntry i \<Rightarrow> with_entry e (elem_at e (entry_ints e) (cite_ptr e * num_ent_ints e + i) (\<lambda>v. Returned (push_int v e)))
   | StrEntry i \<Rightarrow> with_entry e (elem_at e (entry_strs e) (cite_ptr e * num_ent_strs e + i) (\<lambda>v. Returned (push_str v e)))
   | IntGlobal i \<Rightarrow> elem_at e (glb_ints e) i (\<lambda>v. Returned (push_int v e))
   | StrGlobal i \<Rightarrow> elem_at e (glb_strs e) i (\<lambda>v. Returned (push_str v e)))"

(* @src crates/tex-bibtex/src/exec.rs impl Engine fn execute_fn *)
fun execute_fn :: "nat \<Rightarrow> runner" where
  "execute_fn 0 f e = Unfinished"
| "execute_fn (Suc n) f e = elem_at e (fns e) f (\<lambda>d. execute_kind (execute_fn n) n f (kind d) e)"

subsection \<open>Commands\<close>

(* @src crates/tex-bibtex/src/exec.rs impl Engine fn cmd_execute *)
definition cmd_execute :: "nat \<Rightarrow> fn_id \<Rightarrow> engine \<Rightarrow> outcome" where
  "cmd_execute n f e =
     and_run (execute_fn n f (e\<lparr>stack := [], mess_with_entries := False\<rparr>)) (\<lambda>e. Returned (check_command_execution e))"

text \<open>The entries \<open>ks\<close> still to visit, as positions of the sorted list.\<close>

(* @src crates/tex-bibtex/src/exec.rs:213-218 cmd_iterate *)
fun iterate_over :: "runner \<Rightarrow> fn_id \<Rightarrow> nat list \<Rightarrow> engine \<Rightarrow> outcome" where
  "iterate_over run f [] e = Returned e"
| "iterate_over run f (k # ks) e =
     elem_at e (sorted_cites e) k
       (\<lambda>c. and_run (run f (e\<lparr>cite_ptr := c\<rparr>)) (\<lambda>e. iterate_over run f ks (check_command_execution e)))"

(* @src crates/tex-bibtex/src/exec.rs impl Engine fn cmd_iterate *)
definition cmd_iterate :: "nat \<Rightarrow> fn_id \<Rightarrow> bool \<Rightarrow> engine \<Rightarrow> outcome" where
  "cmd_iterate n f backwards e =
     iterate_over (execute_fn n) f (let ks = [0..<num_cites e] in if backwards then rev ks else ks)
       (e\<lparr>stack := [], mess_with_entries := True\<rparr>)"

(* @src crates/tex-bibtex/src/exec.rs:229-229 cmd_sort *)
definition cite_sort_key :: "engine \<Rightarrow> nat \<Rightarrow> bytes \<times> nat" where
  "cite_sort_key e a = (entry_strs e ! (a * num_ent_strs e + sort_key_num e), a)"

(* @src crates/tex-bibtex/src/exec.rs impl Engine fn cmd_sort *)
definition cmd_sort :: "engine \<Rightarrow> engine" where
  "cmd_sort e = e\<lparr>sorted_cites := sort_key (cite_sort_key e) (sorted_cites e)\<rparr>"

end
