(* ===== verification/BtSafe.thy ===== *)
theory BtSafe
  imports BtExec
begin

text \<open>
  Execution keeps the state well formed: function numbers and indexes stay in range, the entries are not changed, and
  the only panic is that of \<open>format.name$\<close>.  The locale \<open>runner\<close> is the contract of what the functions that call
  functions are given; the executor with any fuel meets it.
\<close>

subsection \<open>What execution leaves alone\<close>

record core =
  c_fns :: "fn_def list"
  c_fields :: "bytes option list"
  c_types :: "entry_type list"
  c_cites :: "bytes list"
  c_entry :: nat
  c_mess :: bool
  c_default :: fn_id
  c_nf :: nat
  c_ni :: nat
  c_ns :: nat
  c_ints :: nat
  c_strs :: nat
  c_gints :: nat
  c_gstrs :: nat
  c_map :: "bytes \<rightharpoonup> fn_id"
  c_sorted :: "nat list"
  c_num :: nat
  c_seen :: "bool \<times> bool \<times> bool"
  c_keys :: "nat \<times> nat"

definition core :: "engine \<Rightarrow> core" where
  "core e = \<lparr>c_fns = fns e, c_fields = field_info e, c_types = type_list e, c_cites = cite_list e, c_entry = cite_ptr e,
     c_mess = mess_with_entries e, c_default = b_default e, c_nf = num_fields e, c_ni = num_ent_ints e, c_ns = num_ent_strs e,
     c_ints = length (entry_ints e), c_strs = length (entry_strs e), c_gints = length (glb_ints e), c_gstrs = length (glb_strs e), c_map = fn_map e,
     c_sorted = sorted_cites e, c_num = num_cites e, c_seen = (entry_seen e, read_seen e, reading_completed e),
     c_keys = (crossref_num e, sort_key_num e)\<rparr>"

text \<open>The functions that only write messages, the brace level or the output.\<close>

definition view :: "engine \<Rightarrow> core \<times> lit list" where
  "view e = (core e, stack e)"

lemma view_update [simp]:
  "view (e\<lparr>elog := l\<rparr>) = view e" "view (e\<lparr>brace_level := b\<rparr>) = view e" "view (e\<lparr>out_buf := s\<rparr>) = view e"
  "view (e\<lparr>bbl := s\<rparr>) = view e" "view (e\<lparr>bbl := s, out_buf := t\<rparr>) = view e"
  by (simp_all add: view_def core_def)

named_theorems quiet \<open>functions that keep the view\<close>

lemma quiet_messages [simp, quiet]:
  "view (pr s e) = view e" "view (prln s e) = view e" "view (warn e) = view e" "view (err e) = view e"
  by (simp_all add: pr_def prln_def warn_def err_def)

lemma quiet_complaints [simp]:
  "view (bst_ln_num_print e) = view e" "view (for_entry_newline e) = view e" "view (bst_ex_warn_print e) = view e"
  "view (bst_ex_warn s e) = view e" "view (bst_mild_ex_warn_print e) = view e" "view (braces_unbalanced s e) = view e"
  "view (decr_brace_level s e) = view e" "view (check_brace_level s e) = view e" "view (cant_mess_with_entries e) = view e"
  by (simp_all add: bst_ln_num_print_def for_entry_newline_def bst_ex_warn_print_def bst_ex_warn_def bst_mild_ex_warn_print_def
      braces_unbalanced_def decr_brace_level_def check_brace_level_def cant_mess_with_entries_def)

lemma quiet_literals [simp]: "view (print_stk_lit l e) = view e" "view (print_lit l e) = view e" "view (wrong_lit l w e) = view e"
  by (simp_all add: print_stk_lit_def print_lit_def wrong_lit_def split: lit.split)

lemma quiet_output [simp]: "view (output_bbl_line e) = view e" "view (break_lines e) = view e" "view (add_out_pool s e) = view e"
proof -
  show line: "view (output_bbl_line e) = view e" for e by (simp add: output_bbl_line_def Let_def)
  show lines: "view (break_lines e) = view e" for e
  proof (induction e rule: break_lines.induct)
    case (1 e)
    show ?case
    proof (cases "MAX_PRINT_LINE < length (out_buf e) \<and> break_point (out_buf e) \<noteq> None")
      case True
      then obtain p where p: "break_point (out_buf e) = Some p" by auto
      show ?thesis using 1 [OF _ p refl refl] True p by (subst break_lines.simps) (simp add: Let_def line)
    next
      case False
      then show ?thesis by (subst break_lines.simps) (auto split: option.split)
    qed
  qed
  show "view (add_out_pool s e) = view e" by (simp add: add_out_pool_def lines)
qed

lemma quiet_and: "and_loop b p w e = (q, e') \<Longrightarrow> view e' = view e"
proof (induction b p w e rule: and_loop.induct)
  case (1 b p w e)
  note step = 1(5) [unfolded and_loop.simps [of b p w e] Let_def]
  show ?case
  proof (cases "p < length b")
    case True
    note ih = 1(1-4) [OF True refl]
    show ?thesis using step True ih by (auto split: if_splits prod.splits)
  qed (use step in simp)
qed

lemma quiet_name_scan: "name_scan_for_and b p e = (q, e') \<Longrightarrow> view e' = view e"
  by (auto simp: name_scan_for_and_def dest: quiet_and split: prod.splits)

lemma quiet_num_names: "num_names s e = (n, e') \<Longrightarrow> view e' = view e"
proof -
  have "num_names_loop s p k e = (n, e') \<Longrightarrow> view e' = view e" for p k n e
  proof (induction s p k e arbitrary: n rule: num_names_loop.induct)
    case (1 s p k e)
    show ?case
    proof (cases "p < length s")
      case True
      obtain q d where d: "name_scan_for_and s p e = (q, d)" by fastforce
      have "num_names_loop s q (k + 1) d = (n, e')" using 1(2) True d by (simp add: num_names_loop.simps [of s p])
      then show ?thesis using 1(1) [OF True d [symmetric] refl] quiet_name_scan [OF d] by simp
    next
      case False
      then show ?thesis using 1(2) by (simp add: num_names_loop.simps [of s p])
    qed
  qed
  then show "num_names s e = (n, e') \<Longrightarrow> view e' = view e" by (auto simp: num_names_def split: prod.splits)
qed

lemma quiet_change_case: "change_case conv s e = (b, e') \<Longrightarrow> view e' = view e"
proof -
  have "change_loop s conv b i p e = (b', e') \<Longrightarrow> view e' = view e" for b b' i p e e'
  proof (induction s conv b i p e rule: change_loop.induct)
    case (1 s conv b i p e)
    note step = 1(6) [unfolded change_loop.simps [of s conv b i p e] Let_def]
    show ?case
    proof (cases "i < length b")
      case True
      note ih = 1(1-5) [OF True refl]
      show ?thesis using step True ih by (auto simp: Let_def split: if_splits prod.splits)
    qed (use step in simp)
  qed
  then show "change_case conv s e = (b, e') \<Longrightarrow> view e' = view e" by (auto simp: change_case_def split: prod.splits)
qed


lemma quiet_width: "string_width s e = (w, e') \<Longrightarrow> view e' = view e"
proof -
  have "width_loop s i w e = (v, e') \<Longrightarrow> view e' = view e" for i w v e e'
  proof (induction s i w e rule: width_loop.induct)
    case (1 s i w e)
    note step = 1(5) [unfolded width_loop.simps [of s i w e] Let_def]
    show ?case
    proof (cases "i < length s")
      case True
      note ih = 1(1-4) [OF True refl]
      show ?thesis using step True ih by (auto simp: Let_def split: if_splits prod.splits)
    qed (use step in simp)
  qed
  then show "string_width s e = (w, e') \<Longrightarrow> view e' = view e" by (auto simp: string_width_def split: prod.splits)
qed

subsection \<open>Formatting a name\<close>

lemma quiet_enough: "enough_text_chars out start n e = (b, e') \<Longrightarrow> view e' = view e"
  by (auto simp: enough_text_chars_def split: prod.splits)

lemma quiet_put_tokens: "put_tokens n cur stop double between start out e = (out', e') \<Longrightarrow> view e' = view e"
proof (induction n cur stop double between start out e rule: put_tokens.induct)
  case (1 n cur stop double between start out e)
  note step = 1(5) [unfolded put_tokens.simps [of n cur stop double between start out e] Let_def]
  show ?case
  proof (cases "cur < stop")
    case True
    note ih = 1(1-4) [OF True refl refl refl]
    show ?thesis using step True ih by (auto simp: Let_def add.commute split: if_splits prod.splits option.splits dest: quiet_enough)
  qed (use step in simp)
qed

lemma quiet_settle_tie: "settle_tie start out e = (out', e') \<Longrightarrow> view e' = view e"
  by (auto simp: settle_tie_def Let_def split: if_splits prod.splits dest: quiet_enough)

lemma quiet_part: "part_loop fmt sp level n cur stop double start out e = Some (out', e') \<Longrightarrow> view e' = view e"
proof (induction fmt sp level n cur stop double start out e rule: part_loop.induct)
  case (1 fmt sp level n cur stop double start out e)
  note step = 1(6) [unfolded part_loop.simps [of fmt sp level n cur stop double start out e] Let_def]
  show ?case
  proof (cases "0 < level \<and> \<not> length fmt \<le> sp")
    case True
    then have t: "0 < level" "\<not> length fmt \<le> sp" by simp_all
    note ih = 1(1-5) [OF t refl]
    show ?thesis using step t ih by (auto simp: Let_def split: if_splits prod.splits dest: quiet_put_tokens)
  qed (use step in \<open>auto split: if_splits\<close>)
qed

lemma quiet_group_letter: "group_letter fmt p sp g e = (sp', g', e') \<Longrightarrow> view e' = view e"
  by (auto simp: group_letter_def brace_lvl_one_letters_complaint_def Let_def split: if_splits option.splits prod.splits)

lemma quiet_group: "group_loop fmt p sp level g e = (b, sp', level', g', e') \<Longrightarrow> view e' = view e"
proof (induction fmt p sp level g e rule: group_loop.induct)
  case (1 fmt p sp level g e)
  note step = 1(4) [unfolded group_loop.simps [of fmt p sp level g e] Let_def]
  show ?case
  proof (cases "sp < length fmt")
    case True
    note ih = 1(1-3) [OF True refl]
    show ?thesis using step True ih by (auto simp: Let_def split: if_splits prod.splits dest: quiet_group_letter)
  qed (use step in simp)
qed

lemma quiet_formatted: "formatted_loop fmt n p sp level out e = Some (out', level', e') \<Longrightarrow> view e' = view e"
proof (induction fmt n p sp level out e rule: formatted_loop.induct)
  case (1 fmt n p sp level out e)
  note step = 1(4) [unfolded formatted_loop.simps [of fmt n p sp level out e] Let_def]
  show ?case
  proof (cases "sp < length fmt")
    case True
    note ih = 1(1-3) [OF True refl]
    show ?thesis using step True ih
      by (auto simp: Let_def format_part_def split: if_splits prod.splits option.splits
          dest!: quiet_group quiet_part quiet_settle_tie)
  qed (use step in simp)
qed

lemma quiet_isolate: "isolate_loop list which k ptr xptr e = (k', ptr', xptr', e') \<Longrightarrow> view e' = view e"
proof (induction list which k ptr xptr e rule: isolate_loop.induct)
  case (1 list which k ptr xptr e)
  show ?case using 1 by (subst (asm) (2) isolate_loop.simps) (auto split: if_splits prod.splits dest: quiet_name_scan)
qed

lemma quiet_trim: "trim_name list which xptr ptr e = (ptr', e') \<Longrightarrow> view e' = view e"
proof (induction list which xptr ptr e rule: trim_name.induct)
  case (1 list which xptr ptr e)
  note step = 1(3) [unfolded trim_name.simps [of list which xptr ptr e] Let_def]
  show ?case using step 1(1,2) by (auto simp: Let_def split: if_splits)
qed

lemma quiet_copy: "copy_name list which ptr xptr nc e = (nc', e') \<Longrightarrow> view e' = view e"
proof (induction list which ptr xptr nc e rule: copy_name.induct)
  case (1 list which ptr xptr nc e)
  note step = 1(8) [unfolded copy_name.simps [of list which ptr xptr nc e] Let_def]
  show ?case
  proof (cases "xptr < ptr")
    case True
    note ih = 1(1-7) [OF True refl]
    show ?thesis using step True ih by (auto simp: Let_def split: if_splits prod.splits)
  qed (use step in simp)
qed

lemma quiet_format_name: "format_name fmt which list e = Some (out, e') \<Longrightarrow> view e' = view e"
  by (auto simp: format_name_def figure_out_formatted_name_def no_name_def Let_def split: prod.splits if_splits option.splits
      dest!: quiet_isolate quiet_trim quiet_copy quiet_formatted)


subsection \<open>Well-formed states\<close>

definition lit_ok :: "nat \<Rightarrow> lit \<Rightarrow> bool" where
  "lit_ok k l = (case l of LFn f \<Rightarrow> f < k | LMissing f \<Rightarrow> f < k | _ \<Rightarrow> True)"

definition op_ok :: "nat \<Rightarrow> op \<Rightarrow> bool" where
  "op_ok k p = (case p of OpCall f \<Rightarrow> f < k | OpQuote f \<Rightarrow> f < k | _ \<Rightarrow> True)"

definition kind_ok :: "core \<Rightarrow> fn_kind \<Rightarrow> bool" where
  "kind_ok c k = (case k of
     Builtin _ \<Rightarrow> True | Wiz ops \<Rightarrow> list_all (op_ok (length (c_fns c))) ops | Field i \<Rightarrow> i < c_nf c
   | IntEntry i \<Rightarrow> i < c_ni c | StrEntry i \<Rightarrow> i < c_ns c | IntGlobal i \<Rightarrow> i < c_gints c | StrGlobal i \<Rightarrow> i < c_gstrs c)"

definition entry_type_ok :: "nat \<Rightarrow> entry_type \<Rightarrow> bool" where
  "entry_type_ok k t = (case t of EtType f \<Rightarrow> f < k | _ \<Rightarrow> True)"

text \<open>While entries may be used, the current one has its place in every list.\<close>

definition entry_ok :: "core \<Rightarrow> bool" where
  "entry_ok c \<longleftrightarrow> c_entry c < length (c_cites c) \<and> c_entry c < length (c_types c) \<and>
     (c_entry c + 1) * c_nf c \<le> length (c_fields c) \<and> (c_entry c + 1) * c_ni c \<le> c_ints c \<and> (c_entry c + 1) * c_ns c \<le> c_strs c"

definition core_ok :: "core \<Rightarrow> bool" where
  "core_ok c \<longleftrightarrow> list_all (kind_ok c \<circ> kind) (c_fns c) \<and> c_default c < length (c_fns c) \<and>
     list_all (entry_type_ok (length (c_fns c))) (c_types c) \<and> (c_mess c \<longrightarrow> entry_ok c)"

definition ok_at :: "core \<Rightarrow> engine \<Rightarrow> bool" where
  "ok_at c e \<longleftrightarrow> core e = c \<and> list_all (lit_ok (length (c_fns c))) (stack e)"

lemma ok_view: "view e' = view e \<Longrightarrow> ok_at c e' = ok_at c e"
  by (simp add: view_def ok_at_def)

lemmas ok_quiet [simp] = quiet_messages [THEN ok_view] quiet_complaints [THEN ok_view] quiet_literals [THEN ok_view]
  quiet_output [THEN ok_view] view_update [THEN ok_view]

lemma ok_push [simp]: "ok_at c (push l e) \<longleftrightarrow> ok_at c e \<and> lit_ok (length (c_fns c)) l"
  by (auto simp: ok_at_def push_def core_def)

lemma ok_push_values [simp]: "ok_at c (push_int i e) = ok_at c e" "ok_at c (push_str s e) = ok_at c e" "ok_at c (push_null e) = ok_at c e"
  by (simp_all add: push_int_def push_str_def push_null_def lit_ok_def)

lemma pop_ok: "pop e = (l, e') \<Longrightarrow> ok_at c e \<Longrightarrow> ok_at c e' \<and> lit_ok (length (c_fns c)) l"
proof (cases "stack e")
  case Nil
  assume "pop e = (l, e')" "ok_at c e"
  then have "l = LEmpty" "ok_at c e'" using Nil by (auto simp: pop_def)
  then show ?thesis by (simp add: lit_ok_def)
next
  case (Cons a as)
  assume "pop e = (l, e')" "ok_at c e"
  then show ?thesis using Cons by (auto simp: pop_def ok_at_def core_def)
qed

lemma pop_two_ok: "pop_two_ints e = (p, e') \<Longrightarrow> ok_at c e \<Longrightarrow> ok_at c e'"
  by (auto simp: pop_two_ints_def split: prod.splits lit.splits dest!: pop_ok)

lemma pop_str_ok: "pop_str e = (s, e') \<Longrightarrow> ok_at c e \<Longrightarrow> ok_at c e'"
  by (auto simp: pop_str_def split: prod.splits lit.splits dest!: pop_ok)

lemma ok_assign [simp]:
  "ok_at c (e\<lparr>entry_ints := (entry_ints e)[i := x]\<rparr>) = ok_at c e" "ok_at c (e\<lparr>entry_strs := (entry_strs e)[i := s]\<rparr>) = ok_at c e"
  "ok_at c (e\<lparr>glb_ints := (glb_ints e)[i := x]\<rparr>) = ok_at c e" "ok_at c (e\<lparr>glb_strs := (glb_strs e)[i := s]\<rparr>) = ok_at c e"
  by (simp_all add: ok_at_def core_def)

lemma truncate_ok: "truncate_assigned s cap what e = (t, e') \<Longrightarrow> ok_at c e' = ok_at c e"
  by (auto simp: truncate_assigned_def split: if_splits)

lemmas quiet_values = quiet_num_names [THEN ok_view] quiet_change_case [THEN ok_view] quiet_width [THEN ok_view]
  quiet_format_name [THEN ok_view]

lemmas pops = pop_ok pop_two_ok pop_str_ok

subsection \<open>Builtin functions keep it\<close>

lemma x_gets_ok: "ok_at c e \<Longrightarrow> ok_at c (x_gets e)"
proof -
  assume ok: "ok_at c e"
  obtain t e1 where t: "pop e = (t, e1)" by fastforce
  obtain v e2 where v: "pop e1 = (v, e2)" by fastforce
  have 2: "ok_at c e2" using pop_ok [OF v] pop_ok [OF t] ok by blast
  show "ok_at c (x_gets e)"
    using 2 by (auto simp: x_gets_def t v Let_def split: lit.split fn_kind.split prod.split dest: truncate_ok)
qed

lemma pop_print_ok: "ok_at c e \<Longrightarrow> ok_at c (pop_top_and_print e)"
  by (auto simp: pop_top_and_print_def split: prod.split dest!: pop_ok)

lemma pop_whole_ok: "ok_at c e \<Longrightarrow> ok_at c (pop_whole_stack e)"
proof (induction e rule: pop_whole_stack.induct)
  case (1 e)
  then show ?case by (subst pop_whole_stack.simps) (simp add: pop_print_ok)
qed

lemma x_equals_ok: "ok_at c e \<Longrightarrow> ok_at c (x_equals e)"
  by (auto simp: x_equals_def Let_def split: prod.splits lit.splits if_splits dest!: pop_ok)

lemma x_arith_ok: "ok_at c e \<Longrightarrow> ok_at c (x_arith f e)"
  by (auto simp: x_arith_def Let_def split: prod.split lit.split option.split dest!: pops dest: quiet_values)

lemma x_concatenate_ok: "ok_at c e \<Longrightarrow> ok_at c (x_concatenate e)"
  by (auto simp: x_concatenate_def Let_def split: prod.split lit.split option.split dest!: pops dest: quiet_values)

lemma x_add_period_ok: "ok_at c e \<Longrightarrow> ok_at c (x_add_period e)"
  by (auto simp: x_add_period_def Let_def split: prod.split lit.split option.split dest!: pops dest: quiet_values)

lemma x_change_case_ok: "ok_at c e \<Longrightarrow> ok_at c (x_change_case e)"
proof -
  assume ok: "ok_at c e"
  obtain t e1 where t: "pop e = (t, e1)" by fastforce
  obtain v e2 where v: "pop e1 = (v, e2)" by fastforce
  have 2: "ok_at c e2" using pop_ok [OF v] pop_ok [OF t] ok by blast
  have m: "ok_at c (if case_spec sp = Bad then bst_ex_warn '' is an illegal case-conversion string'' (pr sp e2) else e2)" for sp
    using 2 by simp
  show "ok_at c (x_change_case e)"
  proof (cases "\<exists>sp s. t = LStr sp \<and> v = LStr s")
    case True
    then obtain sp s where l: "t = LStr sp" "v = LStr s" by auto
    let ?e = "if case_spec sp = Bad then bst_ex_warn '' is an illegal case-conversion string'' (pr sp e2) else e2"
    obtain b e3 where b: "change_case (case_spec sp) s ?e = (b, e3)" by fastforce
    have "ok_at c e3" using m [of sp] quiet_change_case [OF b, THEN ok_view] by simp
    then show ?thesis using l b by (simp add: x_change_case_def t v Let_def)
  next
    case False
    then show ?thesis using 2 by (auto simp: x_change_case_def t v split: lit.split)
  qed
qed

lemma x_chr_to_int_ok: "ok_at c e \<Longrightarrow> ok_at c (x_chr_to_int e)"
  by (auto simp: x_chr_to_int_def Let_def split: prod.split lit.split option.split dest!: pops dest: quiet_values)

lemma x_duplicate_ok: "ok_at c e \<Longrightarrow> ok_at c (x_duplicate e)"
  by (auto simp: x_duplicate_def Let_def split: prod.split lit.split option.split dest!: pops dest: quiet_values)

lemma x_empty_ok: "ok_at c e \<Longrightarrow> ok_at c (x_empty e)"
  by (auto simp: x_empty_def Let_def split: prod.split lit.split option.split dest!: pops dest: quiet_values)

lemma x_int_to_chr_ok: "ok_at c e \<Longrightarrow> ok_at c (x_int_to_chr e)"
  by (auto simp: x_int_to_chr_def Let_def split: prod.split lit.split option.split dest!: pops dest: quiet_values)

lemma x_int_to_str_ok: "ok_at c e \<Longrightarrow> ok_at c (x_int_to_str e)"
  by (auto simp: x_int_to_str_def Let_def split: prod.split lit.split option.split dest!: pops dest: quiet_values)

lemma x_missing_ok: "ok_at c e \<Longrightarrow> ok_at c (x_missing e)"
  by (auto simp: x_missing_def Let_def split: prod.split lit.split option.split dest!: pops dest: quiet_values)

lemma x_num_names_ok: "ok_at c e \<Longrightarrow> ok_at c (x_num_names e)"
  by (auto simp: x_num_names_def Let_def split: prod.split lit.split option.split dest!: pops dest: quiet_values)

lemma x_purify_ok: "ok_at c e \<Longrightarrow> ok_at c (x_purify e)"
  by (auto simp: x_purify_def Let_def split: prod.split lit.split option.split dest!: pops dest: quiet_values)

lemma x_substring_ok: "ok_at c e \<Longrightarrow> ok_at c (x_substring e)"
  by (auto simp: x_substring_def Let_def split: prod.split lit.split option.split dest!: pops dest: quiet_values)

lemma x_swap_ok: "ok_at c e \<Longrightarrow> ok_at c (x_swap e)"
  by (auto simp: x_swap_def Let_def split: prod.split lit.split option.split dest!: pops dest: quiet_values)

lemma x_text_length_ok: "ok_at c e \<Longrightarrow> ok_at c (x_text_length e)"
  by (auto simp: x_text_length_def Let_def split: prod.split lit.split option.split dest!: pops dest: quiet_values)

lemma x_text_prefix_ok: "ok_at c e \<Longrightarrow> ok_at c (x_text_prefix e)"
  by (auto simp: x_text_prefix_def Let_def split: prod.split lit.split option.split dest!: pops dest: quiet_values)

lemma x_warning_ok: "ok_at c e \<Longrightarrow> ok_at c (x_warning e)"
  by (auto simp: x_warning_def Let_def split: prod.split lit.split option.split dest!: pops dest: quiet_values)

lemma x_width_ok: "ok_at c e \<Longrightarrow> ok_at c (x_width e)"
  by (auto simp: x_width_def Let_def split: prod.split lit.split option.split dest!: pops dest: quiet_values)

lemma x_write_ok: "ok_at c e \<Longrightarrow> ok_at c (x_write e)"
  by (auto simp: x_write_def Let_def split: prod.split lit.split option.split dest!: pops dest: quiet_values)

lemma x_preamble_ok: "ok_at c e \<Longrightarrow> ok_at c (x_preamble e)"
  by (simp add: x_preamble_def)

lemma x_pop_ok: "ok_at c e \<Longrightarrow> ok_at c (snd (pop e))"
  using pop_ok by (metis prod.collapse)

lemmas value_builtins_ok = x_equals_ok x_gets_ok pop_whole_ok pop_print_ok x_preamble_ok x_pop_ok
  x_arith_ok x_concatenate_ok x_add_period_ok x_change_case_ok x_chr_to_int_ok x_duplicate_ok x_empty_ok x_int_to_chr_ok x_int_to_str_ok x_missing_ok x_num_names_ok x_purify_ok x_substring_ok x_swap_ok x_text_length_ok x_text_prefix_ok x_warning_ok x_width_ok x_write_ok

lemma plain_builtin_ok: "ok_at c e \<Longrightarrow> ok_at c (plain_builtin b e)"
  by (cases b) (simp_all add: plain_builtin_def value_builtins_ok)


subsection \<open>Running functions\<close>

text \<open>The only panic: a \<open>format.name$\<close> whose arguments are on the stack.\<close>

definition format_panics :: "engine \<Rightarrow> bool" where
  "format_panics e \<longleftrightarrow>
     (\<exists>f w l rest. stack e = LStr f # LInt w # LStr l # rest \<and> (\<exists>d. format_name f w l d = None))"

definition good :: "core \<Rightarrow> outcome \<Rightarrow> bool" where
  "good c r \<longleftrightarrow> (case r of Returned e \<Rightarrow> ok_at c e | Panicked e \<Rightarrow> format_panics e | Unfinished \<Rightarrow> True)"

lemma good_simps [simp]: "good c (Returned e) = ok_at c e" "good c Unfinished" "good c (Panicked e) = format_panics e"
  by (simp_all add: good_def)

lemma good_and_run: "good c r \<Longrightarrow> (\<And>e. ok_at c e \<Longrightarrow> good c (f e)) \<Longrightarrow> good c (and_run r f)"
  by (cases r) simp_all

lemma good_elem: "i < length xs \<Longrightarrow> good c (f (xs ! i)) \<Longrightarrow> good c (elem_at e xs i f)"
  by (simp add: elem_at_def)

lemma entry_index: "c < (n::nat) \<Longrightarrow> (p + 1) * n \<le> m \<Longrightarrow> p * n + c < m"
  by (simp add: algebra_simps)

lemma x_format_name_good: "ok_at c e \<Longrightarrow> good c (x_format_name e)"
proof -
  assume ok: "ok_at c e"
  obtain f e1 where f: "pop e = (f, e1)" by fastforce
  obtain w e2 where w: "pop e1 = (w, e2)" by fastforce
  obtain l e3 where l: "pop e2 = (l, e3)" by fastforce
  have 3: "ok_at c e3" using pop_ok [OF l] pop_ok [OF w] pop_ok [OF f] ok by blast
  show "good c (x_format_name e)"
  proof (cases "\<exists>fs n ls. f = LStr fs \<and> w = LInt n \<and> l = LStr ls")
    case True
    then obtain fs n ls where v: "f = LStr fs" "w = LInt n" "l = LStr ls" by auto
    have st: "stack e = LStr fs # LInt n # LStr ls # stack e3"
      using f w l v by (auto simp: pop_def split: list.splits)
    show ?thesis
    proof (cases "format_name fs n ls e3")
      case None
      then show ?thesis using st v by (auto simp: x_format_name_def f w l format_panics_def)
    next
      case (Some r)
      then show ?thesis using 3 v quiet_format_name [THEN ok_view, of fs n ls e3]
        by (cases r) (simp add: x_format_name_def f w l)
    qed
  next
    case False
    then show ?thesis using 3 by (auto simp: x_format_name_def f w l split: lit.split)
  qed
qed

locale runner =
  fixes run :: runner
  assumes run_good: "core_ok c \<Longrightarrow> ok_at c e \<Longrightarrow> f < length (c_fns c) \<Longrightarrow> good c (run f e)"
begin

lemma ops_good: "core_ok c \<Longrightarrow> list_all (op_ok (length (c_fns c))) ops \<Longrightarrow> ok_at c e \<Longrightarrow> good c (run_ops run ops e)"
proof (induction ops arbitrary: e)
  case (Cons p ops)
  then show ?case by (cases p) (auto simp: op_ok_def lit_ok_def intro!: good_and_run run_good)
qed simp

lemma if_good: "core_ok c \<Longrightarrow> ok_at c e \<Longrightarrow> good c (x_if run e)"
proof -
  assume c: "core_ok c" and ok: "ok_at c e"
  obtain f1 e1 where 1: "pop e = (f1, e1)" by fastforce
  obtain f2 e2 where 2: "pop e1 = (f2, e2)" by fastforce
  obtain k e3 where 3: "pop e2 = (k, e3)" by fastforce
  have "ok_at c e3" "lit_ok (length (c_fns c)) f1" "lit_ok (length (c_fns c)) f2"
    using pop_ok [OF 1] pop_ok [OF 2] pop_ok [OF 3] ok by blast+
  then show ?thesis by (auto simp: x_if_def 1 2 3 lit_ok_def split: lit.split intro: run_good [OF c])
qed

lemma loop_good:
  "core_ok c \<Longrightarrow> body < length (c_fns c) \<Longrightarrow> test < length (c_fns c) \<Longrightarrow> ok_at c e \<Longrightarrow> good c (while_loop run n body test e)"
proof (induction n arbitrary: e)
  case (Suc n)
  have "good c (let (l, e) = pop e in case l of
      LInt k \<Rightarrow> if 0 < k then and_run (run body e) (while_loop run n body test) else Returned e | _ \<Rightarrow> Returned (wrong_lit l WantInt e))"
    if "ok_at c e" for e
    using Suc that pop_ok [of e _ _ c] by (auto split: prod.split lit.split intro!: good_and_run run_good)
  then show ?case using Suc.prems by (auto intro!: good_and_run run_good)
qed simp

lemma while_good: "core_ok c \<Longrightarrow> ok_at c e \<Longrightarrow> good c (x_while run n e)"
proof -
  assume c: "core_ok c" and ok: "ok_at c e"
  obtain b e1 where 1: "pop e = (b, e1)" by fastforce
  obtain t e2 where 2: "pop e1 = (t, e2)" by fastforce
  have "ok_at c e2" "lit_ok (length (c_fns c)) b" "lit_ok (length (c_fns c)) t"
    using pop_ok [OF 1] pop_ok [OF 2] ok by blast+
  then show ?thesis by (auto simp: x_while_def 1 2 lit_ok_def split: lit.split intro: loop_good [OF c])
qed

lemma type_good: "core_ok c \<Longrightarrow> ok_at c e \<Longrightarrow> good c (x_call_type run e) \<and> good c (x_type e) \<and> good c (x_cite e)"
proof (cases "mess_with_entries e")
  case True
  assume c: "core_ok c" and ok: "ok_at c e"
  have f: "fns e = c_fns c" "type_list e = c_types c" "cite_list e = c_cites c" "cite_ptr e = c_entry c" "b_default e = c_default c"
    using ok by (auto simp: ok_at_def core_def)
  have "entry_ok c" using c ok True by (auto simp: core_ok_def ok_at_def core_def)
  then have i: "c_entry c < length (c_types c)" "c_entry c < length (c_cites c)" by (simp_all add: entry_ok_def)
  have "entry_type_ok (length (c_fns c)) (c_types c ! c_entry c)" using c i by (simp add: core_ok_def list_all_length)
  moreover have "c_default c < length (c_fns c)" using c by (simp add: core_ok_def)
  ultimately show ?thesis
    using True ok i
    by (auto simp: x_call_type_def x_type_def x_cite_def f entry_type_ok_def
        split: entry_type.split intro!: good_elem run_good [OF c])
next
  case False
  assume "ok_at c e"
  then show ?thesis using False by (simp add: x_call_type_def x_type_def x_cite_def)
qed

lemma builtin_good: "core_ok c \<Longrightarrow> ok_at c e \<Longrightarrow> good c (builtin run n b e)"
  by (cases b) (simp_all add: builtin_def plain_builtin_ok if_good while_good type_good x_format_name_good)

lemma kind_good:
  assumes c: "core_ok c" and ok: "ok_at c e" and k: "kind_ok c k" and f: "f < length (c_fns c)"
  shows "good c (execute_kind run n f k e)"
proof -
  have s: "field_info e = c_fields c" "length (entry_ints e) = c_ints c" "length (entry_strs e) = c_strs c" "length (glb_ints e) = c_gints c"
    "length (glb_strs e) = c_gstrs c" "cite_ptr e = c_entry c" "num_fields e = c_nf c" "num_ent_ints e = c_ni c" "num_ent_strs e = c_ns c"
    using ok by (auto simp: ok_at_def core_def)
  have m: "mess_with_entries e \<Longrightarrow> entry_ok c" using c ok by (auto simp: core_ok_def ok_at_def core_def)
  show ?thesis
    using assms m
    by (cases k)
      (auto simp: execute_kind_def kind_ok_def with_entry_def s entry_ok_def lit_ok_def
        intro!: good_elem entry_index builtin_good ops_good split: option.split)
qed

end

lemma executor_runs: "runner (execute_fn n)"
proof (induction n)
  case 0
  show ?case by unfold_locales simp
next
  case (Suc n)
  show ?case
  proof
    fix c e f
    assume c: "core_ok c" and ok: "ok_at c e" and f: "f < length (c_fns c)"
    have s: "fns e = c_fns c" using ok by (auto simp: ok_at_def core_def)
    have "kind_ok c (kind (c_fns c ! f))" using c f by (simp add: core_ok_def list_all_length)
    then have "good c (execute_kind (execute_fn n) n f (kind (c_fns c ! f)) e)" using runner.kind_good [OF Suc c ok] f by blast
    then show "good c (execute_fn (Suc n) f e)" using f by (simp add: s good_elem)
  qed
qed

interpretation executor: runner "execute_fn n" for n
  by (rule executor_runs)

subsection \<open>The commands\<close>

lemma check_ok: "ok_at c e \<Longrightarrow> ok_at c (check_command_execution e)"
  by (simp add: check_command_execution_def pop_whole_ok)

text \<open>A visit to an entry changes the core's entry only.\<close>

lemma ok_enter: "ok_at c e \<Longrightarrow> ok_at (c\<lparr>c_entry := p\<rparr>) (e\<lparr>cite_ptr := p\<rparr>)"
  by (auto simp: ok_at_def core_def)

definition visits_ok :: "core \<Rightarrow> bool" where
  "visits_ok c \<longleftrightarrow> (\<forall>p \<in> set (c_sorted c). core_ok (c\<lparr>c_entry := p\<rparr>))"

text \<open>The core but for the entry, which the visits move.\<close>

definition near :: "core \<Rightarrow> outcome \<Rightarrow> bool" where
  "near c r \<longleftrightarrow> (case r of Returned e \<Rightarrow> \<exists>p. ok_at (c\<lparr>c_entry := p\<rparr>) e | Panicked e \<Rightarrow> format_panics e | Unfinished \<Rightarrow> True)"

lemma iterate_good:
  assumes "visits_ok c" "list_all (\<lambda>k. k < length (c_sorted c)) ks" "f < length (c_fns c)" "ok_at (c\<lparr>c_entry := p\<rparr>) e"
  shows "near c (iterate_over (execute_fn n) f ks e)"
  using assms(2,4)
proof (induction ks arbitrary: e p)
  case Nil
  then show ?case by (auto simp: near_def)
next
  case (Cons k ks)
  have "c_sorted (core e) = c_sorted c" using Cons.prems by (simp add: ok_at_def)
  then have s: "sorted_cites e = c_sorted c" by (simp add: core_def)
  let ?q = "c_sorted c ! k"
  have k: "k < length (c_sorted c)" using Cons.prems by simp
  have e: "ok_at (c\<lparr>c_entry := ?q\<rparr>) (e\<lparr>cite_ptr := ?q\<rparr>)" using ok_enter [OF Cons.prems(2), of ?q] by simp
  have "core_ok (c\<lparr>c_entry := ?q\<rparr>)" using assms(1) k by (simp add: visits_ok_def)
  then have g: "good (c\<lparr>c_entry := ?q\<rparr>) (execute_fn n f (e\<lparr>cite_ptr := ?q\<rparr>))"
    using executor.run_good [OF _ e] assms(3) by simp
  show ?case
  proof (cases "execute_fn n f (e\<lparr>cite_ptr := ?q\<rparr>)")
    case (Returned d)
    then have "ok_at (c\<lparr>c_entry := ?q\<rparr>) (check_command_execution d)" using g by (simp add: check_ok)
    then have "near c (iterate_over (execute_fn n) f ks (check_command_execution d))" using Cons by simp
    then show ?thesis using Returned k by (simp add: s elem_at_def)
  qed (use g k in \<open>simp_all add: s elem_at_def near_def\<close>)
qed

text \<open>\<open>EXECUTE\<close> sees no entry.\<close>

lemma execute_good:
  assumes "core_ok ((core e)\<lparr>c_mess := False\<rparr>)" "f < length (fns e)"
  shows "good ((core e)\<lparr>c_mess := False\<rparr>) (cmd_execute n f e)"
proof -
  let ?c = "(core e)\<lparr>c_mess := False\<rparr>" and ?e = "e\<lparr>stack := [], mess_with_entries := False\<rparr>"
  have "ok_at ?c ?e" by (simp add: ok_at_def core_def)
  then have "good ?c (execute_fn n f ?e)" using executor.run_good [OF assms(1)] assms(2) by (simp add: core_def)
  then show ?thesis unfolding cmd_execute_def by (rule good_and_run) (simp add: check_ok)
qed

lemma iterates_good:
  assumes "visits_ok ((core e)\<lparr>c_mess := True\<rparr>)" "f < length (fns e)" "num_cites e \<le> length (sorted_cites e)"
  shows "near ((core e)\<lparr>c_mess := True\<rparr>) (cmd_iterate n f backwards e)"
proof -
  let ?c = "(core e)\<lparr>c_mess := True\<rparr>" and ?e = "e\<lparr>stack := [], mess_with_entries := True\<rparr>"
  have "ok_at (?c\<lparr>c_entry := cite_ptr e\<rparr>) ?e" by (simp add: ok_at_def core_def)
  moreover have "list_all (\<lambda>k. k < length (c_sorted ?c)) (let ks = [0..<num_cites e] in if backwards then rev ks else ks)"
    using assms(3) by (auto simp: Let_def list_all_iff core_def)
  ultimately show ?thesis unfolding cmd_iterate_def using assms(1,2) by (intro iterate_good) (auto simp: core_def)
qed

end
