(* ===== verification/BtBibScan.thy ===== *)
theory BtBibScan
  imports BtEngine
begin

text \<open>
  Reading values from a database (\<open>crates/tex-bibtex/src/bib.rs\<close>): white space over lines, delimiters and field
  values.  Every function moves the scanner on: a value is read, or the entry is abandoned after a message.
\<close>

subsection \<open>The reader\<close>

(* @src crates/tex-bibtex/src/bib.rs enum BibCommand *)
datatype (plugins only: code) bib_command = CmdPreamble | CmdString

(* @src crates/tex-bibtex/src/bib.rs struct Rd *)
record rd =
  r_sc :: scanner
  bcmd :: "bib_command option"
  right_outer_delim :: u8
  right_str_delim :: u8
  store_entry :: bool
  store_field :: bool
  field_idx :: nat
  field_fn :: nat
  entry_cite_ptr :: nat
  cur_macro :: bytes
  field :: bytes

text \<open>
  How a function of the reader ends: it goes on, the entry is abandoned after an error, the hash tables are confused (a
  fatal error), or the code panics.
\<close>

datatype (plugins only: code) status = Accepted | Abandoned | Confused | Crashed

type_synonym read_result = "status \<times> rd \<times> engine"

definition and_then :: "read_result \<Rightarrow> (rd \<Rightarrow> engine \<Rightarrow> read_result) \<Rightarrow> read_result" where
  "and_then r f = (case r of (st, rd, e) \<Rightarrow> if st = Accepted then f rd e else r)"

lemma and_then_cong [fundef_cong]:
  "r = r' \<Longrightarrow> (\<And>rd e. r' = (Accepted, rd, e) \<Longrightarrow> f rd e = g rd e) \<Longrightarrow> and_then r f = and_then r' g"
  by (auto simp: and_then_def split: prod.split)

definition bump :: "rd \<Rightarrow> rd" where
  "bump r = r\<lparr>r_sc := (r_sc r)\<lparr>p2 := p2 (r_sc r) + 1\<rparr>\<rparr>"

definition cur_char :: "rd \<Rightarrow> u8" where
  "cur_char r = scan_char (r_sc r)"

definition add_field :: "bytes \<Rightarrow> rd \<Rightarrow> rd" where
  "add_field s r = r\<lparr>field := field r @ s\<rparr>"

definition bib_lower_token :: "rd \<Rightarrow> rd" where
  "bib_lower_token r = r\<lparr>r_sc := lower_case_token (r_sc r)\<rparr>"

subsection \<open>Messages\<close>

(* @src crates/tex-bibtex/src/bib.rs impl Engine fn bib_ln_num_print *)
definition bib_ln_num_print :: "engine \<Rightarrow> engine" where
  "bib_ln_num_print e = prln (bib_file_name (bib_name e)) (pr (''--line '' @ dec_nat (bib_line e) @ '' of file '') e)"

(* @src crates/tex-bibtex/src/bib.rs impl Engine fn bib_err *)
definition bib_err :: "bytes \<Rightarrow> rd \<Rightarrow> engine \<Rightarrow> read_result" where
  "bib_err msg r e =
     (let e = bib_ln_num_print (pr ''-'' (pr msg e)); e = print_bad_input_line (r_sc r) e
      in (Abandoned, r,
          prln (if bcmd r \<noteq> None then ''command'' else ''entry'') (pr (''I'' @ [SQ] @ ''m skipping whatever remains of this '') e)))"

(* @src crates/tex-bibtex/src/bib.rs impl Engine fn bib_warn_newline *)
definition bib_warn_newline :: "bytes \<Rightarrow> engine \<Rightarrow> engine" where
  "bib_warn_newline msg e = warn (bib_ln_num_print (prln msg e))"

(* @src crates/tex-bibtex/src/bib.rs impl Engine fn macro_name_warning *)
definition macro_name_warning :: "rd \<Rightarrow> bytes \<Rightarrow> engine \<Rightarrow> engine" where
  "macro_name_warning r what e =
     bib_warn_newline what (pr ([DQ] @ '' is '') (pr (token (r_sc r)) (pr (''Warning--string name '' @ [DQ]) e)))"

subsection \<open>White space\<close>

lemma unread_simps [simp]: "unread (sc\<lparr>p2 := i\<rparr>) = unread sc" "unread (sc\<lparr>buf := b\<rparr>) = unread sc"
  by (simp_all add: unread_def)

lemma scan_white_unread: "scan_white_space sc = (found, sc') \<Longrightarrow> unread sc' = unread sc"
  by (auto simp: scan_white_space_def Let_def)

(* @src crates/tex-bibtex/src/bib.rs impl Engine fn eat_bib_white *)
function eat_bib_white :: "rd \<Rightarrow> engine \<Rightarrow> bool \<times> rd \<times> engine" where
  "eat_bib_white r e =
     (let (found, sc) = scan_white_space (r_sc r)
      in if found then (True, r\<lparr>r_sc := sc\<rparr>, e)
         else
           let (got, sc) = input_ln sc
           in if got then eat_bib_white (r\<lparr>r_sc := sc\<lparr>p2 := 0\<rparr>\<rparr>) (e\<lparr>bib_line := bib_line e + 1\<rparr>)
              else (False, r\<lparr>r_sc := sc\<rparr>, e))"
  by pat_completeness auto
termination
proof (relation "measure (\<lambda>(r, e). unread (r_sc r))", goal_cases)
  case (2 r e x found sc y got sc')
  then show ?case using scan_white_unread [of "r_sc r" found sc] input_ln_unread [of sc sc'] by simp
qed simp

declare eat_bib_white.simps [simp del]

(* @src crates/tex-bibtex/src/bib.rs impl Engine fn eat_bib_white_check *)
definition eat_bib_white_check :: "rd \<Rightarrow> engine \<Rightarrow> read_result" where
  "eat_bib_white_check r e =
     (let (ok, r, e) = eat_bib_white r e in if ok then (Accepted, r, e) else bib_err ''Illegal end of database file'' r e)"

text \<open>A position past the sentinel is an index out of range.\<close>

(* @src crates/tex-bibtex/src/bib.rs impl Engine fn compress_white_check *)
definition compress_white_check :: "rd \<Rightarrow> engine \<Rightarrow> read_result" where
  "compress_white_check r e =
     (if lst (r_sc r) < p2 (r_sc r) then (Crashed, r, e)
      else if \<not> is_white (cur_char r) \<and> p2 (r_sc r) \<noteq> lst (r_sc r) then (Accepted, r, e)
      else eat_bib_white_check (add_field [SP] r) e)"

text \<open>
  The scanner does not go back: \<open>moves sc r\<close>, and where a function ends with white space, an accepted result is inside
  a line: \<open>lands r\<close>.  An abandoned entry may end at the end of the file.
\<close>

definition onward :: "scanner \<Rightarrow> scanner \<Rightarrow> bool" where
  "onward sc sc' \<longleftrightarrow> unread sc' < unread sc \<or> unread sc' = unread sc \<and> lst sc' = lst sc \<and> p2 sc \<le> p2 sc'"

definition moves :: "scanner \<Rightarrow> read_result \<Rightarrow> bool" where
  "moves sc r \<longleftrightarrow> (case r of (st, rd, e) \<Rightarrow> onward sc (r_sc rd) \<or> st \<noteq> Accepted \<and> unread (r_sc rd) = 0)"

definition lands :: "read_result \<Rightarrow> bool" where
  "lands r \<longleftrightarrow> (case r of (st, rd, e) \<Rightarrow> st = Accepted \<longrightarrow> more_line (r_sc rd))"

definition left_order :: "(scanner \<times> scanner) set" where
  "left_order = measures [unread, \<lambda>sc. lst sc - p2 sc]"

lemma wf_left [simp]: "wf (inv_image left_order f)"
  by (simp add: left_order_def)

lemma onward_refl [simp]: "onward sc sc"
  by (simp add: onward_def)

lemma onward_trans: "onward sc sc1 \<Longrightarrow> onward sc1 sc2 \<Longrightarrow> onward sc sc2"
  by (auto simp: onward_def)

lemma onward_bump: "onward sc (sc\<lparr>p2 := p2 sc + 1\<rparr>)"
  by (simp add: onward_def unread_def)

lemma onward_Suc [simp]: "onward sc (sc\<lparr>p2 := Suc (p2 sc)\<rparr>)"
  using onward_bump [of sc] by simp

lemma advances_onward: "advances sc sc' \<Longrightarrow> onward sc sc'"
  by (auto simp: advances_def onward_def unread_def)

lemma onward_less: "onward (sc\<lparr>p2 := p2 sc + 1\<rparr>) sc' \<Longrightarrow> more_line sc' \<Longrightarrow> (sc', sc) \<in> left_order"
  by (auto simp: onward_def left_order_def more_line_def unread_def)

lemma moves_and:
  "moves sc r \<Longrightarrow> (\<And>rd e. r = (Accepted, rd, e) \<Longrightarrow> moves (r_sc rd) (f rd e)) \<Longrightarrow> moves sc (and_then r f)"
  by (auto simp: moves_def and_then_def split: prod.splits intro: onward_trans)

lemma lands_and: "(\<And>rd e. r = (Accepted, rd, e) \<Longrightarrow> lands (f rd e)) \<Longrightarrow> lands (and_then r f)"
  by (auto simp: lands_def and_then_def split: prod.splits)

lemma moves_from: "onward sc sc1 \<Longrightarrow> moves sc1 r \<Longrightarrow> moves sc r"
  by (auto simp: moves_def split: prod.splits intro: onward_trans)

lemma moves_same [simp]: "onward sc (r_sc r) \<Longrightarrow> moves sc (st, r, e)"
  by (simp add: moves_def)

lemma bib_err_moves [simp]: "moves (r_sc r) (bib_err msg r e)" "lands (bib_err msg r e)"
  by (simp_all add: bib_err_def Let_def lands_def)

lemma eat_bib_white_onward: "eat_bib_white r e = (ok, r', e') \<Longrightarrow>
    (if ok then onward (r_sc r) (r_sc r') \<and> more_line (r_sc r') else unread (r_sc r') = 0)"
proof (induction r e rule: eat_bib_white.induct)
  case (1 r e)
  obtain found sc where w: "scan_white_space (r_sc r) = (found, sc)" by fastforce
  obtain got sc1 where g: "input_ln sc = (got, sc1)" by fastforce
  have adv: "advances (r_sc r) sc" using scans_advance(9) [of "r_sc r"] w by simp
  have fm: "found \<longleftrightarrow> more_line sc" using w by (auto simp: scan_white_space_def Let_def)
  note step = 1(2) [unfolded eat_bib_white.simps [of r e] Let_def w g split_conv]
  show ?case
  proof (cases found)
    case True
    then show ?thesis using step fm advances_onward [OF adv] by auto
  next
    case f: False
    show ?thesis
    proof (cases got)
      case True
      have u: "unread (sc1\<lparr>p2 := 0\<rparr>) < unread (r_sc r)"
        using input_ln_unread [of sc sc1] g True scan_white_unread [OF w] by simp
      have "if ok then onward (sc1\<lparr>p2 := 0\<rparr>) (r_sc r') \<and> more_line (r_sc r') else unread (r_sc r') = 0"
        using 1(1) [OF w [symmetric] refl f g [symmetric] refl True] step f True by (cases ok) simp_all
      then show ?thesis using u by (auto simp: onward_def split: if_splits)
    next
      case False
      then show ?thesis using step f g by (auto simp: input_ln_def unread_def Let_def split: if_splits)
    qed
  qed
qed

lemma eat_check_moves [simp]: "moves (r_sc r) (eat_bib_white_check r e)" "lands (eat_bib_white_check r e)"
proof -
  obtain ok r1 e1 where w: "eat_bib_white r e = (ok, r1, e1)" by (metis prod_cases3)
  show "moves (r_sc r) (eat_bib_white_check r e)" "lands (eat_bib_white_check r e)"
    using eat_bib_white_onward [OF w]
    by (auto simp: eat_bib_white_check_def w moves_def lands_def bib_err_def Let_def split: if_splits)
qed

lemma compress_moves [simp]: "moves (r_sc r) (compress_white_check r e)" "lands (compress_white_check r e)"
  using eat_check_moves [of "add_field [SP] r" e]
  by (auto simp: compress_white_check_def add_field_def lands_def more_line_def)

lemma add_field_sc [simp]: "r_sc (add_field s r) = r_sc r"
  by (simp add: add_field_def)

lemma bump_sc [simp]: "r_sc (bump r) = (r_sc r)\<lparr>p2 := p2 (r_sc r) + 1\<rparr>"
  by (simp add: bump_def)

text \<open>What a pass of a loop over characters leaves is closer to the end.\<close>

lemma pass_left:
  assumes "r = (Accepted, r2, e2)" "moves ((r_sc r1)\<lparr>p2 := p2 (r_sc r1) + 1\<rparr>) r" "lands r"
  shows "(r_sc r2, r_sc r1) \<in> left_order"
  using assms by (auto simp: moves_def lands_def intro: onward_less)

subsection \<open>Balanced braces\<close>

text \<open>The loops with their brace level: zero is the outer loop of the code, above zero the inner one.\<close>

(* @src crates/tex-bibtex/src/bib.rs:527-565 scan_balanced_braces *)
function store_loop :: "nat \<Rightarrow> rd \<Rightarrow> engine \<Rightarrow> read_result" where
  "store_loop level r e =
     (let c = cur_char r
      in if level = 0 \<and> c = right_str_delim r then (Accepted, r, e)
         else if level = 0 \<and> c = CHR ''}'' then bib_err ''Unbalanced braces'' r e
         else
           and_then (compress_white_check (bump (add_field [c] r)) e)
             (store_loop (if c = CHR ''{'' then level + 1 else if c = CHR ''}'' then level - 1 else level)))"
  by pat_completeness auto
termination
proof (relation "inv_image left_order (\<lambda>(level, r, e). r_sc r)", goal_cases)
  case (2 level r e c r1 e1)
  then show ?case
    using pass_left [OF 2(4), of r] compress_moves [of "bump (add_field [c] r)" e] by simp
qed simp

declare store_loop.simps [simp del]

text \<open>A run of characters that are neither delimiters nor braces, to the end of the line.\<close>

(* @src crates/tex-bibtex/src/bib.rs:601-606 scan_balanced_braces *)
definition skip_run :: "nat \<Rightarrow> rd \<Rightarrow> engine \<Rightarrow> read_result" where
  "skip_run level r e =
     (let r = bump r;
          (found, sc) = (if level = 0 then scan3 (right_str_delim r) (CHR ''{'') (CHR ''}'') (r_sc r)
                         else scan2 (CHR ''}'') (CHR ''{'') (r_sc r));
          r = r\<lparr>r_sc := sc\<rparr>
      in if found then (Accepted, r, e) else eat_bib_white_check r e)"

lemma skip_run_moves: "moves ((r_sc r)\<lparr>p2 := p2 (r_sc r) + 1\<rparr>) (skip_run level r e)" "lands (skip_run level r e)"
proof -
  let ?s = "r_sc (bump r)"
  define q where "q = (if level = 0 then scan3 (right_str_delim (bump r)) (CHR ''{'') (CHR ''}'') ?s else scan2 (CHR ''}'') (CHR ''{'') ?s)"
  obtain found sc where f: "q = (found, sc)" by fastforce
  have adv: "advances ?s sc"
    using scans_advance(3) [where sc = ?s] scans_advance(5) [where sc = ?s] f unfolding q_def by (metis snd_conv)
  have fm: "found = more_line sc" using f by (auto simp: q_def scan2_def scan3_def Let_def split: if_splits)
  have eq: "skip_run level r e = (if found then (Accepted, (bump r)\<lparr>r_sc := sc\<rparr>, e) else eat_bib_white_check ((bump r)\<lparr>r_sc := sc\<rparr>) e)"
    using f by (simp add: skip_run_def q_def Let_def)
  show "moves ((r_sc r)\<lparr>p2 := p2 (r_sc r) + 1\<rparr>) (skip_run level r e)" "lands (skip_run level r e)"
    using advances_onward [OF adv] fm eat_check_moves [of "(bump r)\<lparr>r_sc := sc\<rparr>" e]
    by (auto simp: eq lands_def intro: moves_from)
qed

(* @src crates/tex-bibtex/src/bib.rs:566-609 scan_balanced_braces *)
function skip_loop :: "nat \<Rightarrow> rd \<Rightarrow> engine \<Rightarrow> read_result" where
  "skip_loop level r e =
     (let c = cur_char r
      in if level = 0 \<and> c = right_str_delim r then (Accepted, r, e)
         else if level = 0 \<and> c = CHR ''}'' then bib_err ''Unbalanced braces'' r e
         else if c = CHR ''{'' then and_then (eat_bib_white_check (bump r) e) (skip_loop (level + 1))
         else if c = CHR ''}'' then and_then (eat_bib_white_check (bump r) e) (skip_loop (level - 1))
         else and_then (skip_run level r e) (skip_loop level))"
  by pat_completeness auto
termination
proof (relation "inv_image left_order (\<lambda>(level, r, e). r_sc r)", goal_cases)
  case (2 level r e c r1 e1)
  then show ?case using pass_left [OF 2(5), of r] eat_check_moves [of "bump r" e] by simp
next
  case (3 level r e c r1 e1)
  then show ?case using pass_left [OF 3(6), of r] eat_check_moves [of "bump r" e] by simp
next
  case (4 level r e c r1 e1)
  then show ?case using pass_left [OF 4(6) skip_run_moves] by simp
qed simp

declare skip_loop.simps [simp del]

(* @src crates/tex-bibtex/src/bib.rs:521-524 scan_balanced_braces *)
definition drop_double_blank :: "rd \<Rightarrow> rd" where
  "drop_double_blank r =
     (let n = length (field r)
      in if 1 < n \<and> field r ! (n - 1) = SP \<and> field r ! (n - 2) = SP then r\<lparr>field := butlast (field r)\<rparr> else r)"

(* @src crates/tex-bibtex/src/bib.rs impl Engine fn scan_balanced_braces *)
definition scan_balanced_braces :: "rd \<Rightarrow> engine \<Rightarrow> read_result" where
  "scan_balanced_braces r e =
     and_then (compress_white_check (bump r) e)
       (\<lambda>r e. and_then ((if store_field r then store_loop else skip_loop) 0 (drop_double_blank r) e) (\<lambda>r e. (Accepted, bump r, e)))"

end
