(* ===== verification/BtBib.thy ===== *)
theory BtBib
  imports BtBibScan
begin

text \<open>
  The entries of a database (\<open>crates/tex-bibtex/src/bib.rs\<close>): field values, \<open>@preamble\<close>, \<open>@string\<close>, entries and their
  place in the cite list, and the cross references the database adds.
\<close>

subsection \<open>Field values\<close>

(* @src crates/tex-bibtex/src/bib.rs fn copy_macro *)
definition copy_macro :: "bytes \<Rightarrow> bytes \<Rightarrow> bytes" where
  "copy_macro f v =
     (let (f, v) = (if f = [] \<and> v \<noteq> [] \<and> is_white (hd v) then ([SP], dropWhile is_white v) else (f, v))
      in fold (\<lambda>c f. if \<not> is_white c then f @ [c] else if f \<noteq> [] \<and> List.last f = SP then f else f @ [SP]) v f)"

(* @src crates/tex-bibtex/src/bib.rs impl Engine fn bib_identifier_scan_check *)
definition bib_identifier_scan_check :: "id_scan \<Rightarrow> bytes \<Rightarrow> rd \<Rightarrow> engine \<Rightarrow> read_result" where
  "bib_identifier_scan_check res what r e = (case res of
     IdNull \<Rightarrow> bib_err (''You'' @ [SQ] @ ''re missing '' @ what) r e
   | OtherCharAdjacent \<Rightarrow> bib_err ([DQ, cur_char r, DQ] @ '' immediately follows '' @ what) r e
   | _ \<Rightarrow> (Accepted, r, e))"

(* @src crates/tex-bibtex/src/bib.rs:477-480 scan_field_token *)
definition bib_identifier :: "u8 \<Rightarrow> u8 \<Rightarrow> u8 \<Rightarrow> bytes \<Rightarrow> rd \<Rightarrow> engine \<Rightarrow> read_result" where
  "bib_identifier c1 c2 c3 what r e =
     (let (res, sc) = scan_identifier c1 c2 c3 (r_sc r) in bib_identifier_scan_check res what (r\<lparr>r_sc := sc\<rparr>) e)"

text \<open>The value of a macro in a field; a string command may not use its own name.\<close>

(* @src crates/tex-bibtex/src/bib.rs:482-492 scan_field_token *)
definition use_macro :: "rd \<Rightarrow> engine \<Rightarrow> rd \<times> engine" where
  "use_macro r e =
     (let r = bib_lower_token r; name = token (r_sc r); v = macros e name;
          own = (bcmd r = Some CmdString \<and> name = cur_macro r);
          e = (if own then macro_name_warning r ''used in its own definition'' e else e)
      in (case v of
            None \<Rightarrow> (r, macro_name_warning r ''undefined'' e)
          | Some v \<Rightarrow> (if own then r else r\<lparr>field := copy_macro (field r) v\<rparr>, e)))"

(* @src crates/tex-bibtex/src/bib.rs impl Engine fn scan_field_token *)
definition scan_field_token :: "rd \<Rightarrow> engine \<Rightarrow> read_result" where
  "scan_field_token r e =
     (let c = cur_char r
      in and_then
           (if c = CHR ''{'' then scan_balanced_braces (r\<lparr>right_str_delim := CHR ''}''\<rparr>) e
            else if c = DQ then scan_balanced_braces (r\<lparr>right_str_delim := DQ\<rparr>) e
            else if lex_class c = NUMERIC then
              let (n, sc) = scan_nonneg_integer (r_sc r); r = r\<lparr>r_sc := sc\<rparr>
              in (Accepted, if store_field r then add_field (token sc) r else r, e)
            else
              and_then (bib_identifier (CHR '','') (right_outer_delim r) (CHR ''#'') ''a field part'' r e)
                (\<lambda>r e. if store_field r then (Accepted, use_macro r e) else (Accepted, r, e)))
           eat_bib_white_check)"

subsection \<open>The scanner moves on\<close>

lemma lower_token_onward [simp]: "onward sc (lower_case_token sc')  = onward sc sc'" "onward (lower_case_token sc) sc' = onward sc sc'"
  by (simp_all add: onward_def lower_case_token_def unread_def)

lemma use_macro_sc: "r_sc (fst (use_macro r e)) = lower_case_token (r_sc r)"
  by (simp add: use_macro_def bib_lower_token_def Let_def split: option.split)

lemma bib_identifier_moves [simp]: "moves (r_sc r) (bib_identifier c1 c2 c3 what r e)"
proof -
  obtain res sc where s: "scan_identifier c1 c2 c3 (r_sc r) = (res, sc)" by fastforce
  have "onward (r_sc r) sc" using scans_advance(7) [of "r_sc r" c1 c2 c3] s by (auto intro: advances_onward)
  then show ?thesis
    using bib_err_moves(1) [of "r\<lparr>r_sc := sc\<rparr>"]
    by (auto simp: bib_identifier_def bib_identifier_scan_check_def s split: id_scan.split intro: moves_from)
qed

lemma accepted_moves: "r = (Accepted, rd, e) \<Longrightarrow> moves sc r \<Longrightarrow> onward sc (r_sc rd)"
  by (simp add: moves_def)

lemma store_loop_moves [simp]: "moves (r_sc r) (store_loop level r e)"
proof (induction level r e rule: store_loop.induct)
  case (1 level r e)
  let ?c = "cur_char r"
  show ?case
  proof (cases "level = 0 \<and> (?c = right_str_delim r \<or> ?c = CHR ''}'')")
    case True
    then show ?thesis by (subst store_loop.simps) (auto simp: Let_def)
  next
    case False
    then have eq: "store_loop level r e = and_then (compress_white_check (bump (add_field [?c] r)) e)
        (store_loop (if ?c = CHR ''{'' then level + 1 else if ?c = CHR ''}'' then level - 1 else level))"
      by (subst store_loop.simps) (auto simp: Let_def)
    have c: "moves (r_sc r) (compress_white_check (bump (add_field [?c] r)) e)"
      by (rule moves_from [OF onward_bump]) (use compress_moves(1) [of "bump (add_field [?c] r)" e] in simp)
    have ih: "compress_white_check (bump (add_field [?c] r)) e = (Accepted, r1, e1) \<Longrightarrow>
        moves (r_sc r1) (store_loop (if ?c = CHR ''{'' then level + 1 else if ?c = CHR ''}'' then level - 1 else level) r1 e1)" for r1 e1
      using 1 [OF refl] False by blast
    show ?thesis unfolding eq using c ih by (rule moves_and)
  qed
qed

lemma skip_loop_moves [simp]: "moves (r_sc r) (skip_loop level r e)"
proof (induction level r e rule: skip_loop.induct)
  case (1 level r e)
  let ?c = "cur_char r"
  have e: "moves (r_sc r) (eat_bib_white_check (bump r) e)"
    using moves_from [OF onward_bump, of "r_sc r"] eat_check_moves(1) [of "bump r" e] by simp
  have k: "moves (r_sc r) (skip_run level r e)" using moves_from [OF onward_bump] skip_run_moves(1) by blast
  note ih = 1 [OF refl]
  consider (stop) "level = 0" "?c = right_str_delim r \<or> ?c = CHR ''}''" | (up) "\<not> (level = 0 \<and> ?c = right_str_delim r)" "?c = CHR ''{''"
    | (down) "\<not> (level = 0 \<and> ?c = right_str_delim r)" "level \<noteq> 0" "?c = CHR ''}''"
    | (run) "\<not> (level = 0 \<and> ?c = right_str_delim r)" "?c \<noteq> CHR ''{''" "?c \<noteq> CHR ''}''"
    by blast
  then show ?case
  proof cases
    case stop
    then show ?thesis by (subst skip_loop.simps) (auto simp: Let_def)
  next
    case up
    then have "skip_loop level r e = and_then (eat_bib_white_check (bump r) e) (skip_loop (level + 1))"
      by (subst skip_loop.simps) (auto simp: Let_def)
    then show ?thesis using up e ih(1) by (simp add: moves_and)
  next
    case down
    then have "skip_loop level r e = and_then (eat_bib_white_check (bump r) e) (skip_loop (level - 1))"
      by (subst skip_loop.simps) (simp add: Let_def)
    then show ?thesis using down e ih(2) by (simp add: moves_and)
  next
    case run
    then have "skip_loop level r e = and_then (skip_run level r e) (skip_loop level)"
      by (subst skip_loop.simps) (auto simp: Let_def)
    then show ?thesis using run k ih(3) by (simp add: moves_and)
  qed
qed

lemma drop_double_sc [simp]: "r_sc (drop_double_blank r) = r_sc r"
  by (simp add: drop_double_blank_def Let_def)

lemma balanced_moves [simp]: "moves (r_sc r) (scan_balanced_braces r e)"
proof -
  have "moves ((r_sc r)\<lparr>p2 := p2 (r_sc r) + 1\<rparr>) (scan_balanced_braces r e)"
    unfolding scan_balanced_braces_def
  proof (intro moves_and)
    show "moves ((r_sc r)\<lparr>p2 := p2 (r_sc r) + 1\<rparr>) (compress_white_check (bump r) e)" using compress_moves(1) [of "bump r" e] by simp
    show "moves (r_sc rd) ((if store_field rd then store_loop else skip_loop) 0 (drop_double_blank rd) ea)" for rd ea
      using store_loop_moves [of "drop_double_blank rd" 0 ea] skip_loop_moves [of "drop_double_blank rd" 0 ea] by simp
  qed simp
  then show ?thesis by (rule moves_from [OF onward_bump])
qed

lemma field_token_moves [simp]: "moves (r_sc r) (scan_field_token r e)" "lands (scan_field_token r e)"
proof -
  let ?ident = "and_then (bib_identifier (CHR '','') (right_outer_delim r) (CHR ''#'') ''a field part'' r e)
    (\<lambda>r e. if store_field r then (Accepted, use_macro r e) else (Accepted, r, e))"
  have "onward (r_sc r) (snd (scan_nonneg_integer (r_sc r)))" by (rule advances_onward) simp
  moreover have "moves (r_sc r) ?ident"
  proof (intro moves_and bib_identifier_moves)
    fix rd ea
    obtain rd' e' where m: "use_macro rd ea = (rd', e')" by fastforce
    then have "r_sc rd' = lower_case_token (r_sc rd)" using use_macro_sc [of rd ea] by simp
    then show "moves (r_sc rd) (if store_field rd then (Accepted, use_macro rd ea) else (Accepted, rd, ea))" by (simp add: m)
  qed
  ultimately show "moves (r_sc r) (scan_field_token r e)"
    using balanced_moves [of "r\<lparr>right_str_delim := CHR ''}''\<rparr>" e] balanced_moves [of "r\<lparr>right_str_delim := DQ\<rparr>" e]
    unfolding scan_field_token_def Let_def by (intro moves_and) (auto split: prod.split)
  show "lands (scan_field_token r e)" unfolding scan_field_token_def Let_def by (intro lands_and eat_check_moves)
qed

text \<open>\<open># value\<close>, any number of times.\<close>


(* @src crates/tex-bibtex/src/bib.rs:443-446 scan_and_store_field_value *)
definition next_value :: "rd \<Rightarrow> engine \<Rightarrow> read_result" where
  "next_value r e = and_then (eat_bib_white_check (bump r) e) scan_field_token"

lemma next_value_moves: "moves ((r_sc r)\<lparr>p2 := p2 (r_sc r) + 1\<rparr>) (next_value r e)" "lands (next_value r e)"
proof -
  have "moves ((r_sc r)\<lparr>p2 := p2 (r_sc r) + 1\<rparr>) (eat_bib_white_check (bump r) e)" using eat_check_moves(1) [of "bump r" e] by simp
  then show "moves ((r_sc r)\<lparr>p2 := p2 (r_sc r) + 1\<rparr>) (next_value r e)" unfolding next_value_def by (rule moves_and) simp
  show "lands (next_value r e)" unfolding next_value_def by (intro lands_and) simp
qed

(* @src crates/tex-bibtex/src/bib.rs:442-447 scan_and_store_field_value *)
function more_values :: "rd \<Rightarrow> engine \<Rightarrow> read_result" where
  "more_values r e = (if cur_char r = CHR ''#'' then and_then (next_value r e) more_values else (Accepted, r, e))"
  by pat_completeness auto
termination
proof (relation "inv_image left_order (\<lambda>(r, e). r_sc r)", goal_cases)
  case (2 r e r1 e1)
  then show ?case using pass_left [OF 2(2) next_value_moves] by simp
qed simp

declare more_values.simps [simp del]

lemma more_values_moves: "moves (r_sc r) (more_values r e)" "more_line (r_sc r) \<Longrightarrow> lands (more_values r e)"
proof (induction r e rule: more_values.induct)
  case (1 r e)
  { case 1
    have n: "moves (r_sc r) (next_value r e)" using moves_from [OF onward_bump] next_value_moves(1) by blast
    show ?case using "1.IH"(1) n by (subst more_values.simps) (auto intro: moves_and)
  next
    case 2
    show ?case
    proof (cases "cur_char r = CHR ''#''")
      case True
      have "lands (more_values rd ea)" if "next_value r e = (Accepted, rd, ea)" for rd ea
        using next_value_moves(2) [of r e] "1.IH"(2) [OF True that] that by (simp add: lands_def [of "(Accepted, rd, ea)"])
      then have "lands (and_then (next_value r e) more_values)" by (rule lands_and)
      then show ?thesis using True by (subst more_values.simps) simp
    next
      case False
      then show ?thesis using 2 by (subst more_values.simps) (simp add: lands_def)
    qed }
qed

subsection \<open>The cite list\<close>

definition resize :: "nat \<Rightarrow> 'a \<Rightarrow> 'a list \<Rightarrow> 'a list" where
  "resize n d xs = take n xs @ replicate (n - length xs) d"

(* @src crates/tex-bibtex/src/bib.rs impl Engine fn ensure_cite_slot *)
definition ensure_cite_slot :: "nat \<Rightarrow> engine \<Rightarrow> engine" where
  "ensure_cite_slot k e =
     (let e = (if length (cite_list e) \<le> k then e\<lparr>cite_list := resize (k + 1) [] (cite_list e)\<rparr> else e)
      in if length (type_list e) \<le> k then
           e\<lparr>type_list := resize (k + 1) EtEmpty (type_list e), entry_exists := resize (k + 1) False (entry_exists e),
             cite_info := resize (k + 1) None (cite_info e), xref_count := resize (k + 1) 0 (xref_count e),
             field_info := resize ((k + 1) * num_fields e) None (field_info e)\<rparr>
         else e)"

(* @src crates/tex-bibtex/src/bib.rs impl Engine fn add_database_cite *)
definition add_database_cite :: "bytes \<Rightarrow> bytes \<Rightarrow> engine \<Rightarrow> engine" where
  "add_database_cite key lc e =
     (let new = cite_ptr e; e = ensure_cite_slot new e
      in e\<lparr>cite_list := (cite_list e)[new := key], cite_map := (cite_map e)(key \<mapsto> new),
           lc_cite_map := (lc_cite_map e)(lc \<mapsto> key), cite_ptr := new + 1\<rparr>)"

definition confused :: "bytes \<Rightarrow> rd \<Rightarrow> engine \<Rightarrow> read_result" where
  "confused what r e = (Confused, r, confusion what e)"

(* @src crates/tex-bibtex/src/bib.rs impl Engine fn add_crossref *)
definition add_crossref :: "bytes \<Rightarrow> rd \<Rightarrow> engine \<Rightarrow> read_result" where
  "add_crossref v r e =
     (let lc = lower_case v
      in case lc_cite_map e lc of
           Some exact \<Rightarrow>
             (case cite_map e exact of
                None \<Rightarrow> (Crashed, r, e)
              | Some i \<Rightarrow>
                  if i < old_num_cites e then (Accepted, r, e)
                  else if i < length (xref_count e) then (Accepted, r, e\<lparr>xref_count := (xref_count e)[i := xref_count e ! i + 1]\<rparr>)
                  else (Crashed, r, e))
         | None \<Rightarrow>
             if cite_map e v \<noteq> None then confused ''Cite hash error'' r e
             else let i = cite_ptr e; e = add_database_cite v lc e in (Accepted, r, e\<lparr>xref_count := (xref_count e)[i := 1]\<rparr>))"

text \<open>The value of an entry's field loses a blank at its end and one at its start.\<close>

(* @src crates/tex-bibtex/src/bib.rs:616-626 store_field_value *)
definition field_value :: "rd \<Rightarrow> bytes" where
  "field_value r =
     (let f = field r; stop = length f
      in if bcmd r \<noteq> None then f
         else
           let stop = (if 0 < stop \<and> f ! (stop - 1) = SP then stop - 1 else stop);
               start = (if 0 < stop \<and> f ! 0 = SP then 1 else 0)
           in take (stop - start) (drop start f))"

(* @src crates/tex-bibtex/src/bib.rs impl Engine fn store_field_value *)
definition store_field_value :: "rd \<Rightarrow> engine \<Rightarrow> read_result" where
  "store_field_value r e =
     (let v = field_value r
      in case bcmd r of
           Some CmdPreamble \<Rightarrow> (Accepted, r, e\<lparr>preambles := preambles e @ [v]\<rparr>)
         | Some CmdString \<Rightarrow> (Accepted, r, e\<lparr>macros := (macros e)(cur_macro r \<mapsto> v)\<rparr>)
         | None \<Rightarrow>
             let p = entry_cite_ptr r * num_fields e + field_idx r
             in if length (field_info e) \<le> p then (Crashed, r, e)
                else if field_info e ! p \<noteq> None then
                  (Accepted, r,
                   bib_warn_newline ([DQ] @ '' field'')
                     (pr (fn_name (fns e ! field_fn r)) (pr ([SQ] @ ''s extra '' @ [DQ])
                       (pr (cite_list e ! entry_cite_ptr r) (pr (''Warning--I'' @ [SQ] @ ''m ignoring '') e)))))
                else
                  let e = e\<lparr>field_info := (field_info e)[p := Some v]\<rparr>
                  in if field_idx r = crossref_num e \<and> \<not> all_entries e then add_crossref v r e else (Accepted, r, e))"

(* @src crates/tex-bibtex/src/bib.rs impl Engine fn scan_and_store_field_value *)
definition scan_and_store_field_value :: "rd \<Rightarrow> engine \<Rightarrow> read_result" where
  "scan_and_store_field_value r e =
     and_then (and_then (scan_field_token (r\<lparr>field := []\<rparr>) e) more_values)
       (\<lambda>r e. if store_field r then store_field_value r e else (Accepted, r, e))"

lemma store_field_value_sc: "store_field_value r e = (st, r', e') \<Longrightarrow> r' = r"
  by (auto simp: store_field_value_def add_crossref_def confused_def Let_def split: option.splits bib_command.splits if_splits)

lemma scan_and_store_moves [simp]:
  "moves (r_sc r) (scan_and_store_field_value r e)" "lands (scan_and_store_field_value r e)"
proof -
  let ?v = "and_then (scan_field_token (r\<lparr>field := []\<rparr>) e) more_values"
  have v: "moves (r_sc r) ?v" using field_token_moves(1) [of "r\<lparr>field := []\<rparr>" e] by (intro moves_and more_values_moves) simp
  have l: "lands ?v"
  proof (rule lands_and)
    fix rd ea
    assume "scan_field_token (r\<lparr>field := []\<rparr>) e = (Accepted, rd, ea)"
    then have "more_line (r_sc rd)" using field_token_moves(2) [of "r\<lparr>field := []\<rparr>" e] by (simp add: lands_def)
    then show "lands (more_values rd ea)" by (rule more_values_moves)
  qed
  have same: "r_sc (fst (snd (store_field_value rd ea))) = r_sc rd" for rd ea
    by (cases "store_field_value rd ea") (auto dest: store_field_value_sc)
  show "moves (r_sc r) (scan_and_store_field_value r e)"
    unfolding scan_and_store_field_value_def
  proof (rule moves_and [OF v])
    fix rd ea
    show "moves (r_sc rd) (if store_field rd then store_field_value rd ea else (Accepted, rd, ea))"
      using same [of rd ea] by (cases "store_field_value rd ea") (simp add: moves_def)
  qed
  have "lands (if store_field rd then store_field_value rd ea else (Accepted, rd, ea))" if "?v = (Accepted, rd, ea)" for rd ea
    using l that same [of rd ea] by (auto simp: lands_def split: prod.split)
  then show "lands (scan_and_store_field_value r e)" unfolding scan_and_store_field_value_def by (rule lands_and)
qed

subsection \<open>Commands\<close>

(* @src crates/tex-bibtex/src/bib.rs impl Engine fn bib_one_of_two_expected *)
definition bib_one_of_two_expected :: "u8 \<Rightarrow> u8 \<Rightarrow> rd \<Rightarrow> engine \<Rightarrow> read_result" where
  "bib_one_of_two_expected c1 c2 r e =
     bib_err (''I was expecting a '' @ [BQ, c1, SQ] @ '' or a '' @ [BQ, c2, SQ]) r e"

(* @src crates/tex-bibtex/src/bib.rs impl Engine fn scan_outer_delim *)
definition scan_outer_delim :: "rd \<Rightarrow> engine \<Rightarrow> read_result" where
  "scan_outer_delim r e =
     (if cur_char r = CHR ''{'' then (Accepted, bump (r\<lparr>right_outer_delim := CHR ''}''\<rparr>), e)
      else if cur_char r = CHR ''('' then (Accepted, bump (r\<lparr>right_outer_delim := CHR '')''\<rparr>), e)
      else bib_one_of_two_expected (CHR ''{'') (CHR ''('') r e)"

text \<open>To the body of an entry or command.\<close>

(* @src crates/tex-bibtex/src/bib.rs:239-241 bib_command_or_entry *)
definition open_body :: "rd \<Rightarrow> engine \<Rightarrow> read_result" where
  "open_body r e = and_then (and_then (eat_bib_white_check r e) scan_outer_delim) eat_bib_white_check"

(* @src crates/tex-bibtex/src/bib.rs:285-290 bib_preamble *)
definition close_command :: "bytes \<Rightarrow> rd \<Rightarrow> engine \<Rightarrow> read_result" where
  "close_command what r e =
     (if cur_char r \<noteq> right_outer_delim r then
        bib_err (''Missing '' @ [DQ, right_outer_delim r, DQ] @ '' in '' @ what @ '' command'') r e
      else (Accepted, bump r, e))"

(* @src crates/tex-bibtex/src/bib.rs impl Engine fn bib_preamble *)
definition bib_preamble :: "rd \<Rightarrow> engine \<Rightarrow> read_result" where
  "bib_preamble r e =
     and_then (open_body r e)
       (\<lambda>r e. and_then (scan_and_store_field_value (r\<lparr>store_field := True\<rparr>) e) (close_command ''preamble''))"

(* @src crates/tex-bibtex/src/bib.rs:425-429 field_name *)
definition expect_equals :: "rd \<Rightarrow> engine \<Rightarrow> read_result" where
  "expect_equals r e =
     (if cur_char r \<noteq> CHR ''='' then bib_err (''I was expecting an '' @ [DQ, CHR ''='', DQ]) r e else (Accepted, bump r, e))"

(* @src crates/tex-bibtex/src/bib.rs:301-304 bib_string *)
definition name_macro :: "rd \<Rightarrow> engine \<Rightarrow> read_result" where
  "name_macro r e =
     (let r = bib_lower_token r; name = token (r_sc r)
      in (Accepted, r\<lparr>cur_macro := name\<rparr>, e\<lparr>macros := (macros e)(name \<mapsto> name)\<rparr>))"

(* @src crates/tex-bibtex/src/bib.rs impl Engine fn bib_string *)
definition bib_string :: "rd \<Rightarrow> engine \<Rightarrow> read_result" where
  "bib_string r e =
     and_then (and_then (and_then (and_then (and_then (open_body r e)
       (bib_identifier (CHR ''='') (CHR ''='') (CHR ''='') ''a string name'')) name_macro) eat_bib_white_check) expect_equals)
       (\<lambda>r e. and_then (eat_bib_white_check r e)
         (\<lambda>r e. and_then (scan_and_store_field_value (r\<lparr>store_field := True\<rparr>) e) (close_command ''string'')))"

subsection \<open>Entries\<close>

text \<open>The entry takes its place in the cite list; its type is the style's function of that name, if there is one.\<close>

(* @src crates/tex-bibtex/src/bib.rs:390-402 database_key_of_interest *)
definition place_entry :: "bytes \<Rightarrow> fn_id option \<Rightarrow> rd \<Rightarrow> engine \<Rightarrow> read_result" where
  "place_entry key entry_type r e =
     (if \<not> store_entry r then (Accepted, r, e)
      else
        let p = entry_cite_ptr r
        in if length (type_list e) \<le> p then (Crashed, r, e)
           else (case entry_type of
               Some f \<Rightarrow> (Accepted, r, e\<lparr>type_list := (type_list e)[p := EtType f]\<rparr>)
             | None \<Rightarrow>
                 (Accepted, r,
                  bib_warn_newline ([DQ] @ '' isn'' @ [SQ] @ ''t style-file defined'')
                    (pr key (pr (''Warning--entry type for '' @ [DQ]) (e\<lparr>type_list := (type_list e)[p := EtUndefined]\<rparr>))))))"

(* @src crates/tex-bibtex/src/bib.rs:383-386 database_key_of_interest *)
definition add_entry :: "bytes \<Rightarrow> bytes \<Rightarrow> fn_id option \<Rightarrow> bytes \<Rightarrow> rd \<Rightarrow> engine \<Rightarrow> read_result" where
  "add_entry key lc entry_type k r e =
     place_entry key entry_type (r\<lparr>entry_cite_ptr := cite_ptr e\<rparr>) (add_database_cite k lc e)"

(* @src crates/tex-bibtex/src/bib.rs:367-389 database_key_of_interest *)
definition accept_entry :: "bytes \<Rightarrow> bytes option \<Rightarrow> fn_id option \<Rightarrow> rd \<Rightarrow> engine \<Rightarrow> read_result" where
  "accept_entry key official entry_type r e =
     (let r = r\<lparr>store_entry := True\<rparr>; lc = lower_case key; p = entry_cite_ptr r
      in if all_entries e then
           (case official of
              Some k \<Rightarrow>
                if p < all_marker e then place_entry key entry_type r e
                else add_entry key lc entry_type k r (e\<lparr>entry_exists := (entry_exists e)[p := True]\<rparr>)
            | None \<Rightarrow> if cite_map e key \<noteq> None then confused ''Cite hash error'' r e else add_entry key lc entry_type key r e)
         else place_entry key entry_type (r\<lparr>store_entry := (official \<noteq> None)\<rparr>) e)"

(* @src crates/tex-bibtex/src/bib.rs:359-365 database_key_of_interest *)
definition repeated_entry :: "rd \<Rightarrow> engine \<Rightarrow> read_result" where
  "repeated_entry r e =
     (if type_list e ! entry_cite_ptr r = EtEmpty then confused ''The cite list is messed up'' r e else bib_err ''Repeated entry'' r e)"

(* @src crates/tex-bibtex/src/bib.rs:341-347 database_key_of_interest *)
definition rename_cite :: "bytes \<Rightarrow> nat \<Rightarrow> engine \<Rightarrow> engine" where
  "rename_cite key p e =
     (if \<not> all_entries e \<and> old_num_cites e \<le> p \<and> cite_map e key = None then
        e\<lparr>lc_cite_map := (lc_cite_map e)(lower_case key \<mapsto> key), cite_map := (cite_map e)(key \<mapsto> p), cite_list := (cite_list e)[p := key]\<rparr>
      else e)"

(* @src crates/tex-bibtex/src/bib.rs impl Engine fn database_key_of_interest *)
definition database_key_of_interest :: "fn_id option \<Rightarrow> rd \<Rightarrow> engine \<Rightarrow> read_result" where
  "database_key_of_interest entry_type r e =
     (let key = token (r_sc r); lc = lower_case key
      in case lc_cite_map e lc of
           None \<Rightarrow> accept_entry key None entry_type r e
         | Some exact \<Rightarrow>
             (case cite_map e exact of
                None \<Rightarrow> (Crashed, r, e)
              | Some p \<Rightarrow>
                  let r = r\<lparr>entry_cite_ptr := p\<rparr>; accept = accept_entry key (Some exact) entry_type r
                  in if length (type_list e) \<le> p then (Crashed, r, e)
                     else if \<not> all_entries e \<or> p < all_marker e \<or> old_num_cites e \<le> p then
                       if type_list e ! p = EtEmpty then accept (rename_cite key p e) else repeated_entry r e
                     else if \<not> entry_exists e ! p then
                       let saved = lower_case (case cite_info e ! p of Some s \<Rightarrow> s | None \<Rightarrow> [])
                       in if lc_cite_map e saved = None then confused ''A cite key disappeared'' r e
                          else if saved = lc then accept e else repeated_entry r e
                     else repeated_entry r e))"

(* @src crates/tex-bibtex/src/bib.rs impl Engine fn field_name *)
definition field_name :: "rd \<Rightarrow> engine \<Rightarrow> read_result" where
  "field_name r e =
     and_then (bib_identifier (CHR ''='') (CHR ''='') (CHR ''='') ''a field name'' r e)
       (\<lambda>r e.
          let r = r\<lparr>store_field := False\<rparr>;
              r = (if store_entry r then
                     let r = bib_lower_token r
                     in (case fn_map e (token (r_sc r)) of
                           Some f \<Rightarrow> (case kind (fns e ! f) of
                             Field i \<Rightarrow> r\<lparr>store_field := True, field_idx := i, field_fn := f\<rparr> | _ \<Rightarrow> r)
                         | None \<Rightarrow> r)
                   else r)
          in and_then (eat_bib_white_check r e) expect_equals)"

text \<open>A field after its comma, or a comma before the closing delimiter.\<close>

(* @src crates/tex-bibtex/src/bib.rs:259-271 bib_command_or_entry *)
definition entry_field :: "rd \<Rightarrow> engine \<Rightarrow> read_result" where
  "entry_field r e =
     and_then (eat_bib_white_check (bump r) e)
       (\<lambda>r e. if cur_char r = right_outer_delim r then (Accepted, r, e)
              else and_then (and_then (field_name r e) eat_bib_white_check) scan_and_store_field_value)"

end
