(* ===== verification/BtDatabase.thy ===== *)
theory BtDatabase
  imports BtBib
begin

text \<open>
  The \<open>READ\<close> command (\<open>crates/tex-bibtex/src/bib.rs\<close>): the commands and entries of every database, then the cross
  references and the entries that stay.  Every loop ends: a pass uses input.
\<close>

subsection \<open>An entry or command\<close>

lemma open_body_moves [simp]: "moves (r_sc r) (open_body r e)"
  unfolding open_body_def scan_outer_delim_def bib_one_of_two_expected_def
  by (intro moves_and eat_check_moves) simp

lemma close_command_moves [simp]: "moves (r_sc r) (close_command what r e)"
  by (simp add: close_command_def)

lemma expect_equals_moves [simp]: "moves (r_sc r) (expect_equals r e)"
  by (simp add: expect_equals_def)

lemma bib_preamble_moves [simp]: "moves (r_sc r) (bib_preamble r e)"
  unfolding bib_preamble_def
  by (intro moves_and open_body_moves close_command_moves)
    (use scan_and_store_moves(1) [where r = "x\<lparr>store_field := True\<rparr>" for x] in simp)

lemma bib_string_moves [simp]: "moves (r_sc r) (bib_string r e)"
  unfolding bib_string_def
  by (intro moves_and open_body_moves close_command_moves bib_identifier_moves eat_check_moves expect_equals_moves)
    (use scan_and_store_moves(1) [where r = "x\<lparr>store_field := True\<rparr>" for x] in
      \<open>simp_all add: name_macro_def bib_lower_token_def Let_def\<close>)

lemma field_name_moves [simp]: "moves (r_sc r) (field_name r e)"
proof -
  have n: "moves (r_sc r1) (and_then (eat_bib_white_check q e1) expect_equals)"
    if "r_sc q = r_sc r1 \<or> r_sc q = lower_case_token (r_sc r1)" for q r1 e1
  proof (rule moves_and)
    have "onward (r_sc r1) (r_sc q)" using that by auto
    then show "moves (r_sc r1) (eat_bib_white_check q e1)" by (rule moves_from) simp
  qed simp
  show ?thesis
    unfolding field_name_def Let_def
    by (rule moves_and, rule bib_identifier_moves, rule n)
      (auto simp: bib_lower_token_def split: option.splits fn_kind.splits)
qed

lemma entry_field_moves: "moves ((r_sc r)\<lparr>p2 := p2 (r_sc r) + 1\<rparr>) (entry_field r e)" "lands (entry_field r e)"
proof -
  have b: "moves ((r_sc r)\<lparr>p2 := p2 (r_sc r) + 1\<rparr>) (eat_bib_white_check (bump r) e)" using eat_check_moves(1) [of "bump r" e] by simp
  have f: "moves (r_sc q) (and_then (and_then (field_name q d) eat_bib_white_check) scan_and_store_field_value)" for q d
    by (intro moves_and field_name_moves eat_check_moves scan_and_store_moves)
  show "moves ((r_sc r)\<lparr>p2 := p2 (r_sc r) + 1\<rparr>) (entry_field r e)"
    unfolding entry_field_def by (rule moves_and [OF b]) (simp add: f)
  have "lands (if cur_char q = right_outer_delim q then (Accepted, q, d)
      else and_then (and_then (field_name q d) eat_bib_white_check) scan_and_store_field_value)"
    if "eat_bib_white_check (bump r) e = (Accepted, q, d)" for q d
    using eat_check_moves(2) [of "bump r" e] that by (auto simp: lands_def [of "(Accepted, q, d)"] intro!: lands_and)
  then show "lands (entry_field r e)" unfolding entry_field_def by (rule lands_and)
qed

(* @src crates/tex-bibtex/src/bib.rs:253-274 bib_command_or_entry *)
function entry_fields :: "rd \<Rightarrow> engine \<Rightarrow> read_result" where
  "entry_fields r e =
     (if cur_char r = right_outer_delim r then (Accepted, bump r, e)
      else if cur_char r \<noteq> CHR '','' then bib_one_of_two_expected (CHR '','') (right_outer_delim r) r e
      else and_then (entry_field r e) entry_fields)"
  by pat_completeness auto
termination
proof (relation "inv_image left_order (\<lambda>(r, e). r_sc r)", goal_cases)
  case (2 r e r1 e1)
  then show ?case using pass_left [OF 2(3) entry_field_moves] by simp
qed simp

declare entry_fields.simps [simp del]

lemma entry_fields_moves [simp]: "moves (r_sc r) (entry_fields r e)"
proof (induction r e rule: entry_fields.induct)
  case (1 r e)
  have n: "moves (r_sc r) (entry_field r e)" using moves_from [OF onward_bump] entry_field_moves(1) by blast
  show ?case using 1 n by (subst entry_fields.simps) (auto simp: bib_one_of_two_expected_def intro: moves_and)
qed

(* @src crates/tex-bibtex/src/bib.rs:202-208 bib_command_or_entry *)
function seek_at :: "rd \<Rightarrow> engine \<Rightarrow> bool \<times> rd \<times> engine" where
  "seek_at r e =
     (let (found, sc) = scan1 (CHR ''@'') (r_sc r)
      in if found then (True, r\<lparr>r_sc := sc\<rparr>, e)
         else
           let (got, sc) = input_ln sc
           in if got then seek_at (r\<lparr>r_sc := sc\<lparr>p2 := 0\<rparr>\<rparr>) (e\<lparr>bib_line := bib_line e + 1\<rparr>)
              else (False, r\<lparr>r_sc := sc\<rparr>, e))"
  by pat_completeness auto
termination
proof (relation "measure (\<lambda>(r, e). unread (r_sc r))", goal_cases)
  case (2 r e x found sc y got sc')
  then have "advances (r_sc r) sc" using scans_advance(1) [where sc = "r_sc r"] by (metis snd_conv)
  then have "unread sc = unread (r_sc r)" by (auto simp: advances_def unread_def)
  then show ?case using 2 input_ln_unread [of sc sc'] by simp
qed simp

declare seek_at.simps [simp del]

lemma seek_at_onward: "seek_at r e = (found, r', e') \<Longrightarrow>
    (if found then onward (r_sc r) (r_sc r') \<and> more_line (r_sc r') else unread (r_sc r') = 0)"
proof (induction r e rule: seek_at.induct)
  case (1 r e)
  obtain hit sc where w: "scan1 (CHR ''@'') (r_sc r) = (hit, sc)" by fastforce
  obtain got sc1 where g: "input_ln sc = (got, sc1)" by fastforce
  have adv: "advances (r_sc r) sc" using scans_advance(1) [where sc = "r_sc r"] w by (metis snd_conv)
  have u: "unread sc = unread (r_sc r)" using adv by (auto simp: advances_def unread_def)
  have fm: "hit \<longleftrightarrow> more_line sc" using w by (auto simp: scan1_def Let_def)
  note step = 1(2) [unfolded seek_at.simps [of r e] Let_def w g split_conv]
  show ?case
  proof (cases hit)
    case True
    then show ?thesis using step fm advances_onward [OF adv] by auto
  next
    case f: False
    show ?thesis
    proof (cases got)
      case True
      have l: "unread (sc1\<lparr>p2 := 0\<rparr>) < unread (r_sc r)" using input_ln_unread [of sc sc1] g True u by simp
      have "if found then onward (sc1\<lparr>p2 := 0\<rparr>) (r_sc r') \<and> more_line (r_sc r') else unread (r_sc r') = 0"
        using 1(1) [OF w [symmetric] refl f g [symmetric] refl True] step f True by (cases found) simp_all
      then show ?thesis using l by (auto simp: onward_def split: if_splits)
    next
      case False
      then show ?thesis using step f g by (auto simp: input_ln_def unread_def Let_def split: if_splits)
    qed
  qed
qed

(* @src crates/tex-bibtex/src/bib.rs:242-246 bib_command_or_entry *)
definition scan_key :: "rd \<Rightarrow> rd" where
  "scan_key r = r\<lparr>r_sc := snd (if right_outer_delim r = CHR '')'' then scan1_white (CHR '','') (r_sc r)
                               else scan2_white (CHR '','') (CHR ''}'') (r_sc r))\<rparr>"

(* @src crates/tex-bibtex/src/bib.rs:231-237 bib_command_or_entry *)
definition entry_type_of :: "bytes \<Rightarrow> engine \<Rightarrow> fn_id option" where
  "entry_type_of name e = (case fn_map e name of
     Some f \<Rightarrow> (case kind (fns e ! f) of Wiz _ \<Rightarrow> Some f | _ \<Rightarrow> None) | None \<Rightarrow> None)"

(* @src crates/tex-bibtex/src/bib.rs:239-274 bib_command_or_entry *)
definition bib_entry :: "fn_id option \<Rightarrow> rd \<Rightarrow> engine \<Rightarrow> read_result" where
  "bib_entry entry_type r e =
     and_then (and_then (and_then (open_body r e) (\<lambda>r. database_key_of_interest entry_type (scan_key r))) eat_bib_white_check)
       entry_fields"

text \<open>A command that fails is left behind: only a panic goes on.\<close>

definition settle :: "read_result \<Rightarrow> read_result" where
  "settle r = (case r of (st, rd, e) \<Rightarrow> (if st = Crashed then Crashed else Abandoned, rd, e))"

(* @src crates/tex-bibtex/src/bib.rs impl Engine fn bib_command_or_entry *)
definition bib_command_or_entry :: "rd \<Rightarrow> engine \<Rightarrow> read_result" where
  "bib_command_or_entry r e =
     (let (found, r, e) = seek_at (r\<lparr>bcmd := None\<rparr>) e
      in if \<not> found then (Abandoned, r, e)
         else
           and_then (and_then (eat_bib_white_check (bump r) e) (bib_identifier (CHR ''{'') (CHR ''('') (CHR ''('') ''an entry type''))
             (\<lambda>r e.
                let r = bib_lower_token r; name = token (r_sc r)
                in if name = ''comment'' then (Accepted, r, e)
                   else if name = ''preamble'' then settle (bib_preamble (r\<lparr>bcmd := Some CmdPreamble\<rparr>) e)
                   else if name = ''string'' then settle (bib_string (r\<lparr>bcmd := Some CmdString\<rparr>) e)
                   else bib_entry (entry_type_of name e) r e))"

lemma scan_key_onward: "onward (r_sc r) (r_sc (scan_key r))"
  by (simp add: scan_key_def advances_onward)

lemma place_entry_sc [simp]: "r_sc (fst (snd (place_entry key t r e))) = r_sc r"
  by (simp add: place_entry_def Let_def split: option.split)

lemma accept_entry_sc [simp]: "r_sc (fst (snd (accept_entry key official t r e))) = r_sc r"
  by (simp add: accept_entry_def add_entry_def confused_def Let_def split: option.split)

lemma repeated_entry_sc [simp]: "r_sc (fst (snd (repeated_entry r e))) = r_sc r"
  by (simp add: repeated_entry_def confused_def bib_err_def Let_def)

lemma key_of_interest_sc [simp]: "r_sc (fst (snd (database_key_of_interest t r e))) = r_sc r"
  by (simp add: database_key_of_interest_def confused_def Let_def split: option.split)

lemma moves_fst: "moves sc r \<longleftrightarrow> onward sc (r_sc (fst (snd r))) \<or> fst r \<noteq> Accepted \<and> unread (r_sc (fst (snd r))) = 0"
  by (cases r) (simp add: moves_def)

lemma bib_entry_moves: "moves (r_sc r) (bib_entry t r e)"
proof -
  have "moves (r_sc q) (database_key_of_interest t (scan_key q) d)" for q d by (simp add: moves_fst scan_key_onward)
  then show ?thesis unfolding bib_entry_def by (intro moves_and open_body_moves eat_check_moves entry_fields_moves)
qed

lemma settle_moves: "moves sc r \<Longrightarrow> moves sc (settle r)"
  by (auto simp: settle_def moves_def split: prod.splits)

lemma entry_after_at:
  "moves ((r_sc r)\<lparr>p2 := p2 (r_sc r) + 1\<rparr>)
    (and_then (and_then (eat_bib_white_check (bump r) e) (bib_identifier (CHR ''{'') (CHR ''('') (CHR ''('') ''an entry type''))
       (\<lambda>r e.
          let r = bib_lower_token r; name = token (r_sc r)
          in if name = ''comment'' then (Accepted, r, e)
             else if name = ''preamble'' then settle (bib_preamble (r\<lparr>bcmd := Some CmdPreamble\<rparr>) e)
             else if name = ''string'' then settle (bib_string (r\<lparr>bcmd := Some CmdString\<rparr>) e)
             else bib_entry (entry_type_of name e) r e))"
proof (intro moves_and)
  show "moves ((r_sc r)\<lparr>p2 := p2 (r_sc r) + 1\<rparr>) (eat_bib_white_check (bump r) e)" using eat_check_moves(1) [of "bump r" e] by simp
  fix q d
  let ?q = "bib_lower_token q"
  have o: "onward (r_sc q) (r_sc ?q)" by (simp add: bib_lower_token_def)
  have "moves (r_sc ?q) (settle (bib_preamble (?q\<lparr>bcmd := Some CmdPreamble\<rparr>) d))"
    "moves (r_sc ?q) (settle (bib_string (?q\<lparr>bcmd := Some CmdString\<rparr>) d))"
    using bib_preamble_moves [of "?q\<lparr>bcmd := Some CmdPreamble\<rparr>" d] bib_string_moves [of "?q\<lparr>bcmd := Some CmdString\<rparr>" d]
    by (simp_all add: settle_moves)
  then show "moves (r_sc q) (let r = ?q; name = token (r_sc r)
      in if name = ''comment'' then (Accepted, r, d)
         else if name = ''preamble'' then settle (bib_preamble (r\<lparr>bcmd := Some CmdPreamble\<rparr>) d)
         else if name = ''string'' then settle (bib_string (r\<lparr>bcmd := Some CmdString\<rparr>) d)
         else bib_entry (entry_type_of name d) r d)"
    using bib_entry_moves by (auto simp: Let_def o intro: moves_from [OF o])
qed simp

lemma command_left:
  assumes "bib_command_or_entry r e = (st, r', e')" "unread (r_sc r) \<noteq> 0"
  shows "(r_sc r', r_sc r) \<in> left_order"
proof -
  obtain found r1 e1 where s: "seek_at (r\<lparr>bcmd := None\<rparr>) e = (found, r1, e1)" by (metis prod_cases3)
  show ?thesis
  proof (cases found)
    case True
    have o: "onward (r_sc r) (r_sc r1)" "more_line (r_sc r1)" using seek_at_onward [OF s] True by simp_all
    have "moves ((r_sc r1)\<lparr>p2 := p2 (r_sc r1) + 1\<rparr>) (st, r', e')"
      using entry_after_at [of r1 e1] assms(1) s True by (simp add: bib_command_or_entry_def)
    then show ?thesis
      using o assms(2) by (auto simp: moves_def onward_def left_order_def more_line_def)
  next
    case False
    then show ?thesis using seek_at_onward [OF s] assms s by (simp add: bib_command_or_entry_def left_order_def)
  qed
qed

subsection \<open>A database\<close>

text \<open>\<open>Abandoned\<close> never ends a database; its end is accepted.\<close>

(* @src crates/tex-bibtex/src/bib.rs:82-84 read_database *)
function bib_loop :: "rd \<Rightarrow> engine \<Rightarrow> status \<times> engine" where
  "bib_loop r e =
     (if at_eof (src (r_sc r)) then (Accepted, e)
      else
        let (st, r, e) = bib_command_or_entry r e
        in if st \<in> {Confused, Crashed} then (st, e) else bib_loop r e)"
  by pat_completeness auto
termination
proof (relation "inv_image left_order (\<lambda>(r, e). r_sc r)", goal_cases)
  case (2 r e x st y r1 e1)
  then have "unread (r_sc r) \<noteq> 0" by (simp add: at_eof_def unread_def)
  then have "(r_sc r1, r_sc r) \<in> left_order" using command_left [of r e st r1 e1] 2(2-4) by simp
  then show ?case by simp
qed simp

declare bib_loop.simps [simp del]

(* @src crates/tex-bibtex/src/bib.rs:69-81 read_database *)
definition reader_new :: "bytes \<Rightarrow> rd" where
  "reader_new bs = \<lparr>r_sc = scanner_new bs, bcmd = None, right_outer_delim = CHR ''}'', right_str_delim = CHR ''}'',
     store_entry = False, store_field = False, field_idx = 0, field_fn = 0, entry_cite_ptr = 0, cur_macro = [], field = []\<rparr>"

text \<open>The databases, numbered from \<open>i\<close>.\<close>

(* @src crates/tex-bibtex/src/bib.rs:55-85 read_database *)
fun read_inputs :: "nat \<Rightarrow> bib_input list \<Rightarrow> engine \<Rightarrow> status \<times> engine" where
  "read_inputs i [] e = (Accepted, e)"
| "read_inputs i (b # bs) e =
     (let head = ''Database file #'' @ dec_nat i @ '': ''; name = announced_name (bib_file_name (bi_name b)) (embedded b);
          e = (if verbose e then prln name (pr head e) else log_pr [NL] (log_pr name (log_pr head e)));
          (st, e) = bib_loop (reader_new (bi_bytes b)) (e\<lparr>bib_name := bi_name b, bib_line := 0\<rparr>)
      in if st = Accepted then read_inputs (i + 1) bs e else (st, e))"

(* @src crates/tex-bibtex/src/bib.rs:37-53 read_database *)
definition init_reading :: "engine \<Rightarrow> engine" where
  "init_reading e =
     (let n = num_cites e;
          e = e\<lparr>type_list := replicate n EtEmpty, entry_exists := replicate n False, cite_info := replicate n None,
                xref_count := replicate n 0, field_info := replicate (n * num_fields e) None, old_num_cites := n\<rparr>;
          e = (if all_entries e then
                 e\<lparr>cite_info := map (\<lambda>p. if all_marker e \<le> p then Some (cite_list e ! p) else None) [0..<n], cite_ptr := all_marker e\<rparr>
               else e\<lparr>cite_ptr := n\<rparr>)
      in e\<lparr>read_performed := True\<rparr>)"

subsection \<open>Cross references\<close>

(* @src crates/tex-bibtex/src/bib.rs impl Engine fn find_cite_locs *)
definition find_cite_locs :: "bytes \<Rightarrow> engine \<Rightarrow> bool \<times> bytes option" where
  "find_cite_locs key e = (cite_map e key \<noteq> None, lc_cite_map e (lower_case key))"

(* @src crates/tex-bibtex/src/bib.rs impl Engine fn bad_cross_reference_print *)
definition bad_cross_reference_print :: "nat \<Rightarrow> bytes \<Rightarrow> engine \<Rightarrow> engine" where
  "bad_cross_reference_print cp target e =
     pr target (pr (''refers to entry '' @ [DQ]) (prln [DQ] (pr (cite_list e ! cp) (pr (''--entry '' @ [DQ]) e))))"

(* @src crates/tex-bibtex/src/bib.rs impl Engine fn print_missing_entry *)
definition print_missing_entry :: "bytes \<Rightarrow> engine \<Rightarrow> engine" where
  "print_missing_entry key e =
     warn (prln [DQ] (pr key (pr (''Warning--I didn'' @ [SQ] @ ''t find a database entry for '' @ [DQ]) e)))"

definition field_of :: "engine \<Rightarrow> nat \<Rightarrow> nat \<Rightarrow> bytes option" where
  "field_of e p f = field_info e ! (p * num_fields e + f)"

definition set_field :: "nat \<Rightarrow> nat \<Rightarrow> bytes option \<Rightarrow> engine \<Rightarrow> engine" where
  "set_field p f v e = e\<lparr>field_info := (field_info e)[p * num_fields e + f := v]\<rparr>"

text \<open>The fields an entry lacks come from its parent; the parent's name is spelled as on the cite list.\<close>

(* @src crates/tex-bibtex/src/bib.rs:694-698 finish_reading *)
definition inherit_fields :: "nat \<Rightarrow> nat \<Rightarrow> engine \<Rightarrow> engine" where
  "inherit_fields cp parent e =
     fold (\<lambda>f e. if field_of e cp f = None then set_field cp f (field_of e parent f) e else e) [1..<num_fields e] e"

(* @src crates/tex-bibtex/src/bib.rs:689-699 finish_reading *)
definition add_cross_reference :: "nat \<Rightarrow> engine \<Rightarrow> engine" where
  "add_cross_reference cp e = (case field_of e cp (crossref_num e) of
     None \<Rightarrow> e
   | Some v \<Rightarrow> (case snd (find_cite_locs v e) of
       None \<Rightarrow> e
     | Some official \<Rightarrow> inherit_fields cp (the (cite_map e official)) (set_field cp (crossref_num e) (Some official) e)))"

text \<open>A parent that does not exist is an error; one that is referred to too seldom is not kept.\<close>

(* @src crates/tex-bibtex/src/bib.rs:714-734 finish_reading *)
definition check_parent :: "nat \<Rightarrow> bytes \<Rightarrow> nat option \<Rightarrow> engine \<Rightarrow> engine" where
  "check_parent cp v parent e =
     (let bad = (let e = pr ''A bad cross reference-'' e;
                     e = err (prln ([DQ] @ '', which doesn'' @ [SQ] @ ''t exist'') (bad_cross_reference_print cp v e))
                 in set_field cp (crossref_num e) None e)
      in case parent of
           None \<Rightarrow> bad
         | Some p \<Rightarrow>
             if type_list e ! p = EtEmpty then bad
             else
               let e = (if field_of e p (crossref_num e) \<noteq> None then
                          warn (prln ([DQ] @ '', which also refers to something'')
                            (bad_cross_reference_print cp (cite_list e ! p) (pr (''Warning--you'' @ [SQ] @ ''ve nested cross references'') e)))
                        else e)
               in if \<not> all_entries e \<and> old_num_cites e \<le> p \<and> xref_count e ! p < min_crossrefs e
                  then set_field cp (crossref_num e) None e else e)"

(* @src crates/tex-bibtex/src/bib.rs:701-735 finish_reading *)
definition subtract_cross_reference :: "nat \<Rightarrow> engine \<Rightarrow> status \<times> engine" where
  "subtract_cross_reference cp e = (case field_of e cp (crossref_num e) of
     None \<Rightarrow> (Accepted, e)
   | Some v \<Rightarrow>
       let (exact, official) = find_cite_locs v e
       in if exact \<noteq> (official \<noteq> None) then (Confused, confusion ''Cite hash error'' e)
          else (Accepted, check_parent cp v (if official = None then None else cite_map e v) e))"

fun over_cites :: "(nat \<Rightarrow> engine \<Rightarrow> status \<times> engine) \<Rightarrow> nat list \<Rightarrow> engine \<Rightarrow> status \<times> engine" where
  "over_cites f [] e = (Accepted, e)"
| "over_cites f (p # ps) e = (let (st, e) = f p e in if st = Accepted then over_cites f ps e else (st, e))"

subsection \<open>The entries that stay\<close>

(* @src crates/tex-bibtex/src/bib.rs:743-754 finish_reading *)
definition move_entry :: "nat \<Rightarrow> nat \<Rightarrow> engine \<Rightarrow> status \<times> engine" where
  "move_entry cp xptr e =
     (if xptr < cp then
        let key = cite_list e ! cp
        in if cite_map e key = None then (Confused, confusion ''Cite hash error'' e)
           else
             let e = e\<lparr>cite_map := (cite_map e)(key \<mapsto> xptr), cite_list := (cite_list e)[xptr := key],
                       type_list := (type_list e)[xptr := type_list e ! cp]\<rparr>
             in (Accepted, fold (\<lambda>f e. set_field cp f None (set_field xptr f (field_of e cp f) e)) [0..<num_fields e] e)
      else (Accepted, e))"

(* @src crates/tex-bibtex/src/bib.rs:742-742 finish_reading *)
definition keeps_entry :: "engine \<Rightarrow> nat \<Rightarrow> bool" where
  "keeps_entry e cp \<longleftrightarrow> all_entries e \<or> cp < old_num_cites e \<or> min_crossrefs e \<le> xref_count e ! cp"

(* @src crates/tex-bibtex/src/bib.rs:736-757 finish_reading *)
fun remove_entries :: "nat list \<Rightarrow> nat \<Rightarrow> engine \<Rightarrow> status \<times> nat \<times> engine" where
  "remove_entries [] xptr e = (Accepted, xptr, e)"
| "remove_entries (cp # cps) xptr e =
     (if type_list e ! cp = EtEmpty then remove_entries cps xptr (print_missing_entry (cite_list e ! cp) e)
      else if keeps_entry e cp then
        let (st, e) = move_entry cp xptr e in if st = Accepted then remove_entries cps (xptr + 1) e else (st, xptr, e)
      else remove_entries cps xptr e)"

(* @src crates/tex-bibtex/src/bib.rs:761-764 finish_reading *)
definition report_missing :: "nat \<Rightarrow> engine \<Rightarrow> engine" where
  "report_missing cp e =
     (if \<not> entry_exists e ! cp then print_missing_entry (case cite_info e ! cp of Some k \<Rightarrow> k | None \<Rightarrow> []) e else e)"

(* @src crates/tex-bibtex/src/bib.rs:758-772 finish_reading *)
definition final_entries :: "nat \<Rightarrow> engine \<Rightarrow> engine" where
  "final_entries n e =
     (let e = e\<lparr>num_cites := n\<rparr>;
          e = (if all_entries e then fold report_missing [all_marker e..<old_num_cites e] e else e)
      in e\<lparr>cite_list := take n (cite_list e), type_list := take n (type_list e), field_info := take (n * num_fields e) (field_info e),
           entry_ints := replicate (num_ent_ints e * n) 0, entry_strs := replicate (num_ent_strs e * n) [],
           sorted_cites := [0..<n]\<rparr>)"

(* @src crates/tex-bibtex/src/bib.rs impl Engine fn finish_reading *)
definition finish_reading :: "engine \<Rightarrow> status \<times> engine" where
  "finish_reading e =
     (let n = cite_ptr e; e = fold add_cross_reference [0..<n] (e\<lparr>num_cites := n\<rparr>);
          (st, e) = over_cites subtract_cross_reference [0..<n] e
      in if st \<noteq> Accepted then (st, e)
         else
           let (st, xptr, e) = remove_entries [0..<n] 0 e
           in if st \<noteq> Accepted then (st, e) else (Accepted, final_entries xptr e))"

(* @src crates/tex-bibtex/src/bib.rs impl Engine fn read_database *)
definition read_database :: "engine \<Rightarrow> status \<times> engine" where
  "read_database e =
     (let e = init_reading e; (st, e) = read_inputs 1 (bib_inputs e) (e\<lparr>bib_inputs := []\<rparr>)
      in if st \<noteq> Accepted then (st, e) else finish_reading (e\<lparr>reading_completed := True\<rparr>))"

end
