(* ===== verification/BtReadSafe.thy ===== *)
theory BtReadSafe
  imports BtSafe BtDatabase
begin

text \<open>
  Reading a database keeps the lists of the entries together: the lists have a place for every entry of the maps, and
  no function of the reader panics.  The locale \<open>quiet_reader\<close> is the contract of the functions that only scan; it is
  met by the invariants of an entry and of its fields.
\<close>

subsection \<open>What scanning leaves alone\<close>

definition db_view :: "engine \<Rightarrow> engine" where
  "db_view e = e\<lparr>elog := log_new, bib_line := 0, bib_name := [], macros := Map.empty, preambles := []\<rparr>"

definition rd_view :: "rd \<Rightarrow> rd" where
  "rd_view r = r\<lparr>r_sc := scanner_new [], right_outer_delim := CHR 0x00, right_str_delim := CHR 0x00, cur_macro := [], field := []\<rparr>"

lemma db_view_simps [simp]:
  "db_view (e\<lparr>elog := l\<rparr>) = db_view e" "db_view (e\<lparr>bib_line := n\<rparr>) = db_view e" "db_view (e\<lparr>macros := m\<rparr>) = db_view e"
  "db_view (e\<lparr>preambles := p\<rparr>) = db_view e" "db_view (e\<lparr>bib_name := b\<rparr>) = db_view e"
  by (simp_all add: db_view_def)

lemma db_view_messages [simp]:
  "db_view (pr s e) = db_view e" "db_view (prln s e) = db_view e" "db_view (log_pr s e) = db_view e" "db_view (warn e) = db_view e"
  "db_view (err e) = db_view e" "db_view (print_bad_input_line sc e) = db_view e" "db_view (bib_ln_num_print e) = db_view e"
  "db_view (bib_warn_newline s e) = db_view e" "db_view (macro_name_warning r s e) = db_view e" "db_view (confusion s e) = db_view e"
  by (simp_all add: pr_def prln_def log_pr_def warn_def err_def print_bad_input_line_def bib_ln_num_print_def bib_warn_newline_def
      macro_name_warning_def confusion_def Let_def)

lemma rd_view_simps [simp]:
  "rd_view (r\<lparr>r_sc := sc\<rparr>) = rd_view r" "rd_view (r\<lparr>right_outer_delim := c\<rparr>) = rd_view r" "rd_view (r\<lparr>right_str_delim := c\<rparr>) = rd_view r"
  "rd_view (r\<lparr>cur_macro := m\<rparr>) = rd_view r" "rd_view (r\<lparr>field := f\<rparr>) = rd_view r" "rd_view (bump r) = rd_view r"
  "rd_view (add_field s r) = rd_view r" "rd_view (bib_lower_token r) = rd_view r" "rd_view (drop_double_blank r) = rd_view r"
  by (simp_all add: rd_view_def bump_def add_field_def bib_lower_token_def drop_double_blank_def Let_def)

text \<open>A result that is no panic and keeps \<open>Q\<close>; a fatal error ends the run.\<close>

definition safe :: "(rd \<Rightarrow> engine \<Rightarrow> bool) \<Rightarrow> read_result \<Rightarrow> bool" where
  "safe Q res \<longleftrightarrow> (case res of (st, r, e) \<Rightarrow> st \<noteq> Crashed \<and> (st \<noteq> Confused \<longrightarrow> Q r e))"

lemma safe_simp [simp]: "safe Q (st, r, e) \<longleftrightarrow> st \<noteq> Crashed \<and> (st \<noteq> Confused \<longrightarrow> Q r e)"
  by (simp add: safe_def)

lemma safe_and:
  assumes "safe Q res" "\<And>r e. res = (Accepted, r, e) \<Longrightarrow> Q r e \<Longrightarrow> safe P (f r e)" "\<And>r e. Q r e \<Longrightarrow> P r e"
  shows "safe P (and_then res f)"
  using assms by (auto simp: safe_def and_then_def split: prod.splits)

text \<open>No fatal error either.\<close>

definition calm :: "(rd \<Rightarrow> engine \<Rightarrow> bool) \<Rightarrow> read_result \<Rightarrow> bool" where
  "calm Q res \<longleftrightarrow> (case res of (st, r, e) \<Rightarrow> (st = Accepted \<or> st = Abandoned) \<and> Q r e)"

lemma calm_simp [simp]: "calm Q (st, r, e) \<longleftrightarrow> (st = Accepted \<or> st = Abandoned) \<and> Q r e"
  by (simp add: calm_def)

lemma calm_and:
  assumes "calm Q res" "\<And>r e. res = (Accepted, r, e) \<Longrightarrow> Q r e \<Longrightarrow> calm P (f r e)" "\<And>r e. Q r e \<Longrightarrow> P r e"
  shows "calm P (and_then res f)"
  using assms by (auto simp: calm_def and_then_def split: prod.splits)

lemma calm_safe: "calm Q res \<Longrightarrow> safe Q res"
  by (auto simp: calm_def safe_def)

lemma calm_mono: "calm Q res \<Longrightarrow> (\<And>r e. Q r e \<Longrightarrow> P r e) \<Longrightarrow> calm P res"
  by (auto simp: calm_def)

locale quiet_reader =
  fixes Q :: "rd \<Rightarrow> engine \<Rightarrow> bool"
  assumes same_view: "rd_view r = rd_view r' \<Longrightarrow> db_view e = db_view e' \<Longrightarrow> Q r e = Q r' e'"
begin

lemma keep: "Q r e \<Longrightarrow> rd_view r' = rd_view r \<Longrightarrow> db_view e' = db_view e \<Longrightarrow> Q r' e'"
  using same_view by blast

lemma and_safe: "calm Q res \<Longrightarrow> (\<And>r e. res = (Accepted, r, e) \<Longrightarrow> Q r e \<Longrightarrow> calm Q (f r e)) \<Longrightarrow> calm Q (and_then res f)"
  by (rule calm_and)

lemma err_safe: "Q r e \<Longrightarrow> calm Q (bib_err msg r e)"
  by (auto simp: bib_err_def Let_def elim: keep)

lemma white_keeps: "eat_bib_white r e = (ok, r', e') \<Longrightarrow> Q r e \<Longrightarrow> Q r' e'"
proof (induction r e rule: eat_bib_white.induct)
  case (1 r e)
  obtain found sc where w: "scan_white_space (r_sc r) = (found, sc)" by fastforce
  obtain got sc1 where g: "input_ln sc = (got, sc1)" by fastforce
  show ?case
  proof (cases "\<not> found \<and> got")
    case True
    have "Q (r\<lparr>r_sc := sc1\<lparr>p2 := 0\<rparr>\<rparr>) (e\<lparr>bib_line := bib_line e + 1\<rparr>)" using 1(3) by (rule keep) simp_all
    moreover have "eat_bib_white (r\<lparr>r_sc := sc1\<lparr>p2 := 0\<rparr>\<rparr>) (e\<lparr>bib_line := bib_line e + 1\<rparr>) = (ok, r', e')"
      using 1(2) True w g by (simp add: eat_bib_white.simps [of r e])
    ultimately show ?thesis using 1(1) [OF w [symmetric] refl _ g [symmetric] refl] True by blast
  next
    case False
    then show ?thesis using 1(2,3) w g by (auto simp: eat_bib_white.simps [of r e] split: if_splits elim: keep)
  qed
qed

lemma check_safe: "Q r e \<Longrightarrow> calm Q (eat_bib_white_check r e)"
  by (auto simp: eat_bib_white_check_def err_safe split: prod.split dest: white_keeps)

lemma compress_safe: "Q r e \<Longrightarrow> p2 (r_sc r) \<le> lst (r_sc r) \<Longrightarrow> calm Q (compress_white_check r e)"
  using check_safe [of "add_field [SP] r" e] keep [of r e "add_field [SP] r" e] by (auto simp: compress_white_check_def)

lemma identifier_safe: "Q r e \<Longrightarrow> calm Q (bib_identifier c1 c2 c3 what r e)"
  by (auto simp: bib_identifier_def bib_identifier_scan_check_def split: prod.split id_scan.split intro!: err_safe elim: keep)

lemma store_safe: "Q r e \<Longrightarrow> more_line (r_sc r) \<Longrightarrow> calm Q (store_loop level r e)"
proof (induction level r e rule: store_loop.induct)
  case (1 level r e)
  let ?c = "cur_char r" and ?r = "bump (add_field [cur_char r] r)"
  show ?case
  proof (cases "level = 0 \<and> (?c = right_str_delim r \<or> ?c = CHR ''}'')")
    case True
    then show ?thesis using 1(2) err_safe by (subst store_loop.simps) (auto simp: Let_def)
  next
    case False
    have q: "Q ?r e" using 1(2) by (rule keep) simp_all
    have "calm Q (compress_white_check ?r e)" using q 1(3) by (intro compress_safe) (simp_all add: more_line_def)
    moreover have "calm Q (store_loop (if ?c = CHR ''{'' then level + 1 else if ?c = CHR ''}'' then level - 1 else level) r1 e1)"
      if "compress_white_check ?r e = (Accepted, r1, e1)" "Q r1 e1" for r1 e1
      using 1(1) [OF refl _ _ that(1) that(2)] compress_moves(2) [of ?r e] False that(1) by (auto simp: lands_def)
    ultimately have "calm Q (and_then (compress_white_check ?r e)
        (store_loop (if ?c = CHR ''{'' then level + 1 else if ?c = CHR ''}'' then level - 1 else level)))" by (rule and_safe)
    then show ?thesis using False by (subst store_loop.simps) (auto simp: Let_def)
  qed
qed

lemma run_safe: "Q r e \<Longrightarrow> calm Q (skip_run level r e)"
  unfolding skip_run_def Let_def by (auto split: prod.split intro!: check_safe elim: keep)

lemma skip_safe: "Q r e \<Longrightarrow> calm Q (skip_loop level r e)"
proof (induction level r e rule: skip_loop.induct)
  case (1 level r e)
  let ?c = "cur_char r"
  note ih = 1(1-3) [OF refl]
  have w: "calm Q (eat_bib_white_check (bump r) e)" using 1(4) by (intro check_safe) (erule keep, simp_all)
  consider (stop) "level = 0" "?c = right_str_delim r \<or> ?c = CHR ''}''" | (up) "\<not> (level = 0 \<and> ?c = right_str_delim r)" "?c = CHR ''{''"
    | (down) "\<not> (level = 0 \<and> ?c = right_str_delim r)" "level \<noteq> 0" "?c = CHR ''}''"
    | (run) "\<not> (level = 0 \<and> ?c = right_str_delim r)" "?c \<noteq> CHR ''{''" "?c \<noteq> CHR ''}''" by blast
  then show ?case
  proof cases
    case stop
    then show ?thesis using 1(4) err_safe by (subst skip_loop.simps) (auto simp: Let_def)
  next
    case up
    have "calm Q (and_then (eat_bib_white_check (bump r) e) (skip_loop (level + 1)))"
      using w by (rule and_safe) (use ih(1) up in simp)
    then show ?thesis using up by (subst skip_loop.simps) (auto simp: Let_def)
  next
    case down
    have "calm Q (and_then (eat_bib_white_check (bump r) e) (skip_loop (level - 1)))"
      using w by (rule and_safe) (use ih(2) down in simp)
    then show ?thesis using down by (subst skip_loop.simps) (simp add: Let_def)
  next
    case run
    have "calm Q (and_then (skip_run level r e) (skip_loop level))"
      using run_safe [OF 1(4)] by (rule and_safe) (use ih(3) run in simp)
    then show ?thesis using run by (subst skip_loop.simps) (auto simp: Let_def)
  qed
qed

lemma balanced_safe: "Q r e \<Longrightarrow> more_line (r_sc r) \<Longrightarrow> calm Q (scan_balanced_braces r e)"
proof -
  assume q: "Q r e" and m: "more_line (r_sc r)"
  have "Q (bump r) e" using q by (rule keep) simp_all
  then have "calm Q (compress_white_check (bump r) e)" using m by (intro compress_safe) (simp_all add: more_line_def)
  then show ?thesis unfolding scan_balanced_braces_def
  proof (rule and_safe)
    fix r1 e1
    assume a: "compress_white_check (bump r) e = (Accepted, r1, e1)" and q1: "Q r1 e1"
    have "more_line (r_sc r1)" using compress_moves(2) [of "bump r" e] a by (simp add: lands_def)
    moreover have "Q (drop_double_blank r1) e1" using q1 by (rule keep) simp_all
    ultimately have "calm Q ((if store_field r1 then store_loop else skip_loop) 0 (drop_double_blank r1) e1)"
      by (simp add: store_safe skip_safe)
    then show "calm Q (and_then ((if store_field r1 then store_loop else skip_loop) 0 (drop_double_blank r1) e1) (\<lambda>r e. (Accepted, bump r, e)))"
      by (rule and_safe) (auto elim: keep)
  qed
qed


lemma macro_keeps: "use_macro r e = (r', e') \<Longrightarrow> Q r e \<Longrightarrow> Q r' e'"
  by (auto simp: use_macro_def Let_def split: option.splits if_splits elim!: keep)

lemma macro_safe: "Q r e \<Longrightarrow> calm Q (Accepted, use_macro r e)"
  by (cases "use_macro r e") (auto dest: macro_keeps)

lemma token_safe:
  assumes q: "Q r e" and m: "more_line (r_sc r)"
  shows "calm Q (scan_field_token r e)"
proof -
  let ?ident = "and_then (bib_identifier (CHR '','') (right_outer_delim r) (CHR ''#'') ''a field part'' r e)
    (\<lambda>r e. if store_field r then (Accepted, use_macro r e) else (Accepted, r, e))"
  have b: "calm Q (scan_balanced_braces (r\<lparr>right_str_delim := c\<rparr>) e)" for c
    using keep [OF q, of "r\<lparr>right_str_delim := c\<rparr>" e] m by (intro balanced_safe) simp_all
  have i: "calm Q ?ident"
    using identifier_safe [OF q] by (rule and_safe) (simp add: macro_safe)
  have n: "Q (if store_field d then add_field (token sc) d else d) e" if "d = r\<lparr>r_sc := sc\<rparr>" for d sc
    using that keep [OF q] by simp
  show ?thesis
    unfolding scan_field_token_def Let_def
    using b i n by (intro and_safe check_safe) (auto split: prod.split)
qed

lemma next_safe: "Q r e \<Longrightarrow> calm Q (next_value r e)"
proof -
  assume q: "Q r e"
  have "Q (bump r) e" using q by (rule keep) simp_all
  then have "calm Q (eat_bib_white_check (bump r) e)" by (rule check_safe)
  then show ?thesis unfolding next_value_def
    by (rule and_safe) (use eat_check_moves(2) [of "bump r" e] in \<open>auto simp: lands_def intro: token_safe\<close>)
qed

lemma values_safe: "Q r e \<Longrightarrow> calm Q (more_values r e)"
proof (induction r e rule: more_values.induct)
  case (1 r e)
  show ?case
  proof (cases "cur_char r = CHR ''#''")
    case True
    have "calm Q (and_then (next_value r e) more_values)" using next_safe [OF 1(2)] by (rule and_safe) (use 1(1) True in simp)
    then show ?thesis using True by (subst more_values.simps) simp
  qed (use 1(2) in \<open>subst more_values.simps, simp\<close>)
qed

lemma value_safe: "Q r e \<Longrightarrow> more_line (r_sc r) \<Longrightarrow> calm Q (and_then (scan_field_token (r\<lparr>field := []\<rparr>) e) more_values)"
  by (intro and_safe token_safe values_safe) (auto elim: keep)

lemma equals_safe: "Q r e \<Longrightarrow> calm Q (expect_equals r e)"
  by (auto simp: expect_equals_def err_safe elim: keep)

lemma close_safe: "Q r e \<Longrightarrow> calm Q (close_command what r e)"
  by (auto simp: close_command_def err_safe elim: keep)

lemma delim_safe: "Q r e \<Longrightarrow> calm Q (scan_outer_delim r e)"
  by (auto simp: scan_outer_delim_def bib_one_of_two_expected_def err_safe elim: keep)

lemma open_safe: "Q r e \<Longrightarrow> calm Q (open_body r e)"
  unfolding open_body_def by (intro and_safe check_safe delim_safe)

lemma name_safe: "Q r e \<Longrightarrow> calm Q (name_macro r e)"
  by (auto simp: name_macro_def Let_def elim: keep)

end

lemma open_lands: "open_body r e = (Accepted, r', e') \<Longrightarrow> more_line (r_sc r')"
proof -
  have "lands (open_body r e)" unfolding open_body_def by (intro lands_and eat_check_moves)
  then show "open_body r e = (Accepted, r', e') \<Longrightarrow> more_line (r_sc r')" by (simp add: lands_def)
qed

lemma check_lands: "eat_bib_white_check r e = (Accepted, r', e') \<Longrightarrow> more_line (r_sc r')"
  using eat_check_moves(2) [of r e] by (simp add: lands_def)

subsection \<open>The lists of the entries\<close>

text \<open>
  Every list has a place for each entry the maps lead to, and a lower-case key leads to a spelling that is in the map.
  \<open>style_view\<close> is what reading does not touch.
\<close>

definition maps_ok :: "nat \<Rightarrow> (bytes \<rightharpoonup> nat) \<Rightarrow> (bytes \<rightharpoonup> bytes) \<Rightarrow> bool" where
  "maps_ok n m lc \<longleftrightarrow> (\<forall>i \<in> ran m. i < n) \<and> ran lc \<subseteq> dom m"

lemma maps_add: "maps_ok n m lc \<Longrightarrow> i < n \<Longrightarrow> maps_ok n (m(k \<mapsto> i)) (lc(l \<mapsto> k))"
  by (auto simp: maps_ok_def ran_def split: if_splits)

lemma maps_bound: "maps_ok n m lc \<Longrightarrow> m k = Some i \<Longrightarrow> i < n"
  by (auto simp: maps_ok_def ran_def)

lemma maps_dom: "maps_ok n m lc \<Longrightarrow> lc l = Some k \<Longrightarrow> m k \<noteq> None"
  by (auto simp: maps_ok_def ran_def)

lemma maps_mono: "maps_ok n m lc \<Longrightarrow> n \<le> n' \<Longrightarrow> maps_ok n' m lc"
  by (auto simp: maps_ok_def)

definition style_view :: "engine \<Rightarrow> engine" where
  "style_view e = (db_view e)\<lparr>type_list := [], entry_exists := [], cite_info := [], xref_count := [], field_info := [],
     cite_list := [], cite_map := Map.empty, lc_cite_map := Map.empty, cite_ptr := 0\<rparr>"

definition lists_ok :: "engine \<Rightarrow> bool" where
  "lists_ok e \<longleftrightarrow> (let n = length (type_list e)
     in length (cite_list e) = n \<and> length (entry_exists e) = n \<and> length (cite_info e) = n \<and> length (xref_count e) = n \<and>
        length (field_info e) = n * num_fields e \<and> cite_ptr e \<le> n \<and> old_num_cites e \<le> n \<and> maps_ok n (cite_map e) (lc_cite_map e))"

definition db_ok :: "engine \<Rightarrow> engine \<Rightarrow> bool" where
  "db_ok s e \<longleftrightarrow> style_view e = s \<and> lists_ok e \<and> list_all (entry_type_ok (length (fns s))) (type_list e) \<and>
     (\<forall>n f. fn_map s n = Some f \<longrightarrow> f < length (fns s)) \<and> list_all (kind_ok (core s) \<circ> kind) (fns s) \<and> crossref_num s < num_fields s"

lemma db_view_selectors:
  assumes "db_view e = db_view e'"
  shows "type_list e = type_list e'" "cite_list e = cite_list e'" "entry_exists e = entry_exists e'" "cite_info e = cite_info e'"
    "xref_count e = xref_count e'" "field_info e = field_info e'" "num_fields e = num_fields e'" "cite_ptr e = cite_ptr e'"
    "old_num_cites e = old_num_cites e'" "cite_map e = cite_map e'" "lc_cite_map e = lc_cite_map e'" "style_view e = style_view e'"
  using assms [THEN arg_cong, of type_list] assms [THEN arg_cong, of cite_list] assms [THEN arg_cong, of entry_exists]
    assms [THEN arg_cong, of cite_info] assms [THEN arg_cong, of xref_count] assms [THEN arg_cong, of field_info]
    assms [THEN arg_cong, of num_fields] assms [THEN arg_cong, of cite_ptr] assms [THEN arg_cong, of old_num_cites]
    assms [THEN arg_cong, of cite_map] assms [THEN arg_cong, of lc_cite_map]
  by (simp_all add: db_view_def) (simp add: style_view_def assms)

lemma style_view_selectors:
  assumes "style_view e = s"
  shows "num_fields e = num_fields s" "crossref_num e = crossref_num s" "fns e = fns s" "fn_map e = fn_map s" "all_entries e = all_entries s"
    "old_num_cites e = old_num_cites s" "all_marker e = all_marker s" "num_ent_ints e = num_ent_ints s" "num_ent_strs e = num_ent_strs s"
    "glb_ints e = glb_ints s" "glb_strs e = glb_strs s" "b_default e = b_default s"
  using assms [symmetric] by (simp_all add: style_view_def db_view_def)

lemma db_ok_view: "db_view e = db_view e' \<Longrightarrow> db_ok s e = db_ok s e'"
proof -
  assume "db_view e = db_view e'"
  note same = db_view_selectors [OF this]
  show ?thesis unfolding db_ok_def lists_ok_def Let_def same ..
qed

text \<open>The invariants of an entry, and of its field whose value is read.\<close>

definition entry_inv :: "engine \<Rightarrow> rd \<Rightarrow> engine \<Rightarrow> bool" where
  "entry_inv s r e \<longleftrightarrow> db_ok s e \<and> (store_entry r \<longrightarrow> entry_cite_ptr r < length (type_list e))"

definition field_inv :: "engine \<Rightarrow> rd \<Rightarrow> engine \<Rightarrow> bool" where
  "field_inv s r e \<longleftrightarrow> entry_inv s r e \<and>
     (store_field r \<and> bcmd r = None \<longrightarrow> entry_cite_ptr r < length (type_list e) \<and> field_idx r < num_fields s)"

lemma rd_view_selectors:
  assumes "rd_view r = rd_view r'"
  shows "store_entry r = store_entry r'" "store_field r = store_field r'" "bcmd r = bcmd r'" "field_idx r = field_idx r'"
    "entry_cite_ptr r = entry_cite_ptr r'"
  using assms [THEN arg_cong, of store_entry] assms [THEN arg_cong, of store_field] assms [THEN arg_cong, of bcmd]
    assms [THEN arg_cong, of field_idx] assms [THEN arg_cong, of entry_cite_ptr]
  by (simp_all add: rd_view_def)

lemma entry_inv_view: "rd_view r = rd_view r' \<Longrightarrow> db_view e = db_view e' \<Longrightarrow> entry_inv s r e = entry_inv s r' e'"
proof -
  assume r: "rd_view r = rd_view r'" and e: "db_view e = db_view e'"
  show ?thesis unfolding entry_inv_def rd_view_selectors [OF r] db_view_selectors [OF e] db_ok_view [OF e] ..
qed

lemma field_inv_view: "rd_view r = rd_view r' \<Longrightarrow> db_view e = db_view e' \<Longrightarrow> field_inv s r e = field_inv s r' e'"
proof -
  assume r: "rd_view r = rd_view r'" and e: "db_view e = db_view e'"
  show ?thesis unfolding field_inv_def rd_view_selectors [OF r] db_view_selectors [OF e] entry_inv_view [OF r e] ..
qed

interpretation entry: quiet_reader "entry_inv s" for s
  using entry_inv_view by unfold_locales

interpretation field: quiet_reader "field_inv s" for s
  using field_inv_view by unfold_locales

subsection \<open>Changes of the lists\<close>

lemma length_resize [simp]: "length (resize n d xs) = n"
  by (simp add: resize_def)

lemma all_resize: "list_all P xs \<Longrightarrow> P d \<Longrightarrow> list_all P (resize n d xs)"
  by (auto simp: resize_def list_all_iff dest: in_set_takeD)

lemma style_view_simps [simp]:
  "style_view (e\<lparr>type_list := a\<rparr>) = style_view e" "style_view (e\<lparr>entry_exists := b\<rparr>) = style_view e"
  "style_view (e\<lparr>xref_count := d\<rparr>) = style_view e" "style_view (e\<lparr>field_info := f\<rparr>) = style_view e"
  "style_view (e\<lparr>cite_list := c\<rparr>) = style_view e"
  "style_view (e\<lparr>cite_info := ci\<rparr>) = style_view e" "style_view (e\<lparr>cite_map := m\<rparr>) = style_view e"
  "style_view (e\<lparr>lc_cite_map := l\<rparr>) = style_view e" "style_view (e\<lparr>cite_ptr := p\<rparr>) = style_view e"
  by (simp_all add: style_view_def db_view_def)

lemma slot_ok:
  assumes "db_ok s e"
  shows "db_ok s (ensure_cite_slot k e)" "k < length (type_list (ensure_cite_slot k e))"
    "length (type_list e) \<le> length (type_list (ensure_cite_slot k e))" "cite_ptr (ensure_cite_slot k e) = cite_ptr e"
    "style_view (ensure_cite_slot k e) = style_view e" "cite_map (ensure_cite_slot k e) = cite_map e"
proof -
  have l: "lists_ok e" "style_view e = s" "list_all (entry_type_ok (length (fns s))) (type_list e)" using assms by (simp_all add: db_ok_def)
  have n: "length (cite_list e) = length (type_list e)" using l by (simp add: lists_ok_def Let_def)
  have nf: "num_fields e = num_fields s" using style_view_selectors(1) [OF l(2)] .
  show a: "k < length (type_list (ensure_cite_slot k e))" "length (type_list e) \<le> length (type_list (ensure_cite_slot k e))"
    "cite_ptr (ensure_cite_slot k e) = cite_ptr e" "style_view (ensure_cite_slot k e) = style_view e"
    "cite_map (ensure_cite_slot k e) = cite_map e"
    by (auto simp: ensure_cite_slot_def Let_def)
  have "lists_ok (ensure_cite_slot k e)" using l(1) n by (auto simp: ensure_cite_slot_def Let_def lists_ok_def elim: maps_mono)
  moreover have "list_all (entry_type_ok (length (fns s))) (type_list (ensure_cite_slot k e))"
    using l(3) by (auto simp: ensure_cite_slot_def Let_def entry_type_ok_def intro!: all_resize)
  ultimately show "db_ok s (ensure_cite_slot k e)" using assms a(4) by (simp add: db_ok_def)
qed

lemma add_cite_ok:
  assumes "db_ok s e"
  shows "db_ok s (add_database_cite key lc e)" "cite_ptr e < length (type_list (add_database_cite key lc e))"
    "length (type_list e) \<le> length (type_list (add_database_cite key lc e))"
proof -
  note o = slot_ok [OF assms, of "cite_ptr e"]
  show "cite_ptr e < length (type_list (add_database_cite key lc e))" "length (type_list e) \<le> length (type_list (add_database_cite key lc e))"
    using o by (simp_all add: add_database_cite_def Let_def)
  have "lists_ok (ensure_cite_slot (cite_ptr e) e)" using o(1) by (simp add: db_ok_def)
  then show "db_ok s (add_database_cite key lc e)"
    using o(1,2,4) by (auto simp: add_database_cite_def Let_def db_ok_def lists_ok_def maps_add)
qed

lemma db_ok_updates:
  assumes "db_ok s e"
  shows "db_ok s (e\<lparr>field_info := (field_info e)[i := v]\<rparr>)" "db_ok s (e\<lparr>xref_count := (xref_count e)[i := n]\<rparr>)"
    "db_ok s (e\<lparr>entry_exists := (entry_exists e)[i := b]\<rparr>)"
    "entry_type_ok (length (fns s)) t \<Longrightarrow> db_ok s (e\<lparr>type_list := (type_list e)[i := t]\<rparr>)"
    "i < length (type_list e) \<Longrightarrow>
      db_ok s (e\<lparr>lc_cite_map := (lc_cite_map e)(lc \<mapsto> key), cite_map := (cite_map e)(key \<mapsto> i), cite_list := (cite_list e)[i := key]\<rparr>)"
  using assms by (auto simp: db_ok_def lists_ok_def Let_def maps_add list_all_iff dest!: set_update_subset_insert [THEN subsetD])

lemma crossref_safe:
  assumes f: "field_inv s r e"
  shows "safe (field_inv s) (add_crossref v r e)"
proof -
  have d: "db_ok s e" using f by (simp add: field_inv_def entry_inv_def)
  have m: "maps_ok (length (type_list e)) (cite_map e) (lc_cite_map e)" "length (xref_count e) = length (type_list e)"
    using d by (simp_all add: db_ok_def lists_ok_def Let_def)
  show ?thesis
  proof (cases "lc_cite_map e (lower_case v)")
    case (Some exact)
    then obtain i where i: "cite_map e exact = Some i" using maps_dom [OF m(1)] by blast
    then have "i < length (xref_count e)" using maps_bound [OF m(1)] m(2) by simp
    then show ?thesis using f Some i db_ok_updates(2) [OF d]
      by (simp add: add_crossref_def Let_def field_inv_def entry_inv_def)
  next
    case None
    have "field_inv s r (e1\<lparr>xref_count := (xref_count e1)[cite_ptr e := 1]\<rparr>)" if "e1 = add_database_cite v (lower_case v) e" for e1
      using f add_cite_ok [OF d, of v "lower_case v"] db_ok_updates(2) [of s e1] unfolding that
      by (auto simp: field_inv_def entry_inv_def)
    moreover have "field_inv s r (confusion w e)" for w using field_inv_view [of r r "confusion w e" e] f by simp
    ultimately show ?thesis using None by (simp add: add_crossref_def Let_def confused_def)
  qed
qed

lemma store_value_safe:
  assumes f: "field_inv s r e" and st: "store_field r"
  shows "safe (field_inv s) (store_field_value r e)"
proof (cases "bcmd r")
  case (Some c)
  have "field_inv s r (e\<lparr>preambles := p\<rparr>)" "field_inv s r (e\<lparr>macros := m\<rparr>)" for p m
    using field_inv_view [of r r "e\<lparr>preambles := p\<rparr>" e s] field_inv_view [of r r "e\<lparr>macros := m\<rparr>" e s] f by simp_all
  then show ?thesis using Some by (simp add: store_field_value_def Let_def split: bib_command.split)
next
  case None
  have d: "db_ok s e" using f by (simp add: field_inv_def entry_inv_def)
  have b: "entry_cite_ptr r < length (type_list e)" "field_idx r < num_fields s" using f None st by (simp_all add: field_inv_def)
  have "style_view e = s" using d by (simp add: db_ok_def)
  then have nf: "num_fields e = num_fields s" by (rule style_view_selectors)
  have "length (field_info e) = length (type_list e) * num_fields e" using d by (simp add: db_ok_def lists_ok_def Let_def)
  moreover have "entry_cite_ptr r * num_fields e + field_idx r < length (type_list e) * num_fields e"
    using entry_index [of "field_idx r" "num_fields e" "entry_cite_ptr r" "length (type_list e) * num_fields e"] b nf
    by (metis Suc_eq_plus1 Suc_leI mult_le_mono1)
  ultimately have p: "\<not> length (field_info e) \<le> entry_cite_ptr r * num_fields e + field_idx r" by simp
  have u: "field_inv s r (e\<lparr>field_info := (field_info e)[i := v]\<rparr>)" for i v
    using f db_ok_updates(1) [OF d] by (simp add: field_inv_def entry_inv_def)
  have w: "field_inv s r (bib_warn_newline a (pr b (pr c (pr g (pr h e)))))" for a b c g h
    using field_inv_view [of r r "bib_warn_newline a (pr b (pr c (pr g (pr h e))))" e s] f by simp
  let ?p = "entry_cite_ptr r * num_fields e + field_idx r"
  let ?e = "e\<lparr>field_info := (field_info e)[?p := Some (field_value r)]\<rparr>"
  have c: "safe (field_inv s) (add_crossref (field_value r) r ?e)" using crossref_safe [OF u] .
  show ?thesis
  proof (cases "field_info e ! ?p")
    case None': None
    have eq: "store_field_value r e = (if field_idx r = crossref_num ?e \<and> \<not> all_entries ?e then add_crossref (field_value r) r ?e else (Accepted, r, ?e))"
      unfolding store_field_value_def Let_def None using p None' by simp
    show ?thesis unfolding eq by (rule if_split [THEN iffD2]) (intro conjI impI c, simp add: u)
  next
    case (Some v)
    show ?thesis unfolding store_field_value_def Let_def None using p Some w by simp
  qed
qed

subsection \<open>Entries\<close>

lemma safe_mono: "safe Q res \<Longrightarrow> (\<And>r e. Q r e \<Longrightarrow> P r e) \<Longrightarrow> safe P res"
  by (auto simp: safe_def)

lemma field_entry: "field_inv s r e \<Longrightarrow> entry_inv s r e"
  by (simp add: field_inv_def)

lemma and_then_assoc: "and_then (and_then a f) g = and_then a (\<lambda>r e. and_then (f r e) g)"
  by (auto simp: and_then_def split: prod.split)

lemma scan_store_safe: "field_inv s r e \<Longrightarrow> more_line (r_sc r) \<Longrightarrow> safe (field_inv s) (scan_and_store_field_value r e)"
  unfolding scan_and_store_field_value_def by (rule safe_and [OF calm_safe [OF field.value_safe]]) (auto intro: store_value_safe)

definition type_fits :: "engine \<Rightarrow> fn_id option \<Rightarrow> bool" where
  "type_fits s t \<longleftrightarrow> (case t of Some f \<Rightarrow> f < length (fns s) | None \<Rightarrow> True)"

lemma place_safe: "entry_inv s r e \<Longrightarrow> type_fits s t \<Longrightarrow> safe (entry_inv s) (place_entry key t r e)"
proof -
  assume i: "entry_inv s r e" and t: "type_fits s t"
  have u: "entry_inv s r (e\<lparr>type_list := (type_list e)[p := x]\<rparr>)" if "entry_type_ok (length (fns s)) x" for x p
    using i db_ok_updates(4) [OF _ that] by (simp add: entry_inv_def)
  have w: "entry_inv s r (bib_warn_newline a (pr b (pr c d)))" if "entry_inv s r d" for a b c d
    using that entry_inv_view [of r r "bib_warn_newline a (pr b (pr c d))" d s] by simp
  show ?thesis
    using i t u w by (auto simp: place_entry_def Let_def entry_inv_def [of s r e] type_fits_def entry_type_ok_def split: option.split)
qed

lemma add_entry_safe: "db_ok s e \<Longrightarrow> type_fits s t \<Longrightarrow> safe (entry_inv s) (add_entry key lc t k r e)"
  unfolding add_entry_def by (rule place_safe) (simp_all add: entry_inv_def add_cite_ok)

lemma accept_safe:
  assumes "db_ok s e" "type_fits s t" "official \<noteq> None \<Longrightarrow> entry_cite_ptr r < length (type_list e)"
  shows "safe (entry_inv s) (accept_entry key official t r e)"
proof -
  have p: "safe (entry_inv s) (place_entry key t (r\<lparr>store_entry := b\<rparr>) e)" if "b \<longrightarrow> official \<noteq> None" for b
    using assms that by (intro place_safe) (auto simp: entry_inv_def)
  have a: "safe (entry_inv s) (add_entry key l t k q (e\<lparr>entry_exists := (entry_exists e)[i := b]\<rparr>))" for l k q i b
    using db_ok_updates(3) [OF assms(1)] assms(2) by (rule add_entry_safe)
  show ?thesis
  proof (cases official)
    case None
    then show ?thesis using p assms add_entry_safe by (auto simp: accept_entry_def Let_def confused_def)
  next
    case (Some k)
    then show ?thesis using p a by (auto simp: accept_entry_def Let_def)
  qed
qed

lemma renamed_ok: "db_ok s e \<Longrightarrow> p < length (type_list e) \<Longrightarrow> db_ok s (rename_cite key p e) \<and> length (type_list (rename_cite key p e)) = length (type_list e)"
  using db_ok_updates(5) by (auto simp: rename_cite_def)

lemma repeated_safe: "entry_inv s r e \<Longrightarrow> safe (entry_inv s) (repeated_entry r e)"
  using entry.err_safe [THEN calm_safe] by (simp add: repeated_entry_def confused_def)

lemma key_safe:
  assumes i: "entry_inv s r e" and t: "type_fits s t"
  shows "safe (entry_inv s) (database_key_of_interest t r e)"
proof -
  let ?key = "token (r_sc r)"
  have d: "db_ok s e" using i by (simp add: entry_inv_def)
  have m: "maps_ok (length (type_list e)) (cite_map e) (lc_cite_map e)" using d by (simp add: db_ok_def lists_ok_def Let_def)
  show ?thesis
  proof (cases "lc_cite_map e (lower_case ?key)")
    case None
    then show ?thesis using accept_safe [OF d t, of None] by (simp add: database_key_of_interest_def Let_def)
  next
    case (Some exact)
    then obtain p where p: "cite_map e exact = Some p" using maps_dom [OF m] by blast
    then have l: "p < length (type_list e)" using maps_bound [OF m] by simp
    let ?r = "r\<lparr>entry_cite_ptr := p\<rparr>"
    have "entry_inv s ?r e" using d l by (simp add: entry_inv_def)
    then have "safe (entry_inv s) (repeated_entry ?r e)" by (rule repeated_safe)
    moreover have "safe (entry_inv s) (accept_entry ?key (Some exact) t ?r (rename_cite ?key p e))"
      using renamed_ok [OF d l] l by (intro accept_safe t) simp_all
    moreover have "safe (entry_inv s) (accept_entry ?key (Some exact) t ?r e)" using d l by (intro accept_safe t) simp_all
    ultimately show ?thesis using Some p l by (simp add: database_key_of_interest_def Let_def confused_def)
  qed
qed

text \<open>A field's name, and its value.\<close>

definition named_field :: "rd \<Rightarrow> engine \<Rightarrow> rd" where
  "named_field r e =
     (let r = r\<lparr>store_field := False\<rparr>
      in if store_entry r then
           let r = bib_lower_token r
           in (case fn_map e (token (r_sc r)) of
                 Some f \<Rightarrow> (case kind (fns e ! f) of Field i \<Rightarrow> r\<lparr>store_field := True, field_idx := i, field_fn := f\<rparr> | _ \<Rightarrow> r)
               | None \<Rightarrow> r)
         else r)"

lemma field_name_eq:
  "field_name r e = and_then (bib_identifier (CHR ''='') (CHR ''='') (CHR ''='') ''a field name'' r e)
     (\<lambda>r e. and_then (eat_bib_white_check (named_field r e) e) expect_equals)"
  unfolding field_name_def named_field_def Let_def by simp

lemma named_field_inv: "entry_inv s r e \<Longrightarrow> field_inv s (named_field r e) e"
proof -
  assume i: "entry_inv s r e"
  have v: "style_view e = s" and k: "list_all (kind_ok (core s) \<circ> kind) (fns s)" and m: "\<And>n f. fn_map s n = Some f \<Longrightarrow> f < length (fns s)"
    using i by (auto simp: entry_inv_def db_ok_def)
  have f: "fn_map e = fn_map s" "fns e = fns s" using style_view_selectors [OF v] by simp_all
  have n: "kind (fns s ! g) = Field j \<Longrightarrow> fn_map s w = Some g \<Longrightarrow> j < num_fields s" for g j w
    using k m by (fastforce simp: list_all_length kind_ok_def core_def)
  have e: "entry_inv s (r\<lparr>store_field := b\<rparr>) e" "entry_inv s (bib_lower_token (r\<lparr>store_field := b\<rparr>)) e"
    "entry_inv s (bib_lower_token r\<lparr>store_field := b, field_idx := j, field_fn := g\<rparr>) e" for b g j
    using i by (simp_all add: entry_inv_def bib_lower_token_def)
  show ?thesis
    using i e n
    by (auto simp: named_field_def Let_def f field_inv_def entry_inv_def bib_lower_token_def split: option.split fn_kind.split)
qed

lemma entry_field_safe: "entry_inv s r e \<Longrightarrow> safe (entry_inv s) (entry_field r e)"
proof -
  assume i: "entry_inv s r e"
  have b: "entry_inv s (bump r) e" using i by (rule entry.keep) simp_all
  have v: "safe (field_inv s) (and_then (and_then (and_then (eat_bib_white_check (named_field q d) d) expect_equals) eat_bib_white_check)
      scan_and_store_field_value)" if "entry_inv s q d" for q d
  proof (rule safe_and)
    show "safe (field_inv s) (and_then (and_then (eat_bib_white_check (named_field q d) d) expect_equals) eat_bib_white_check)"
      using named_field_inv [OF that] by (intro calm_safe field.and_safe field.check_safe field.equals_safe)
    have "lands (and_then (and_then (eat_bib_white_check (named_field q d) d) expect_equals) eat_bib_white_check)"
      by (intro lands_and eat_check_moves)
    then show "safe (field_inv s) (scan_and_store_field_value q' d')"
      if "and_then (and_then (eat_bib_white_check (named_field q d) d) expect_equals) eat_bib_white_check = (Accepted, q', d')"
        "field_inv s q' d'" for q' d'
      using that by (intro scan_store_safe) (simp_all add: lands_def)
  qed simp
  have f: "safe (entry_inv s) (and_then (and_then (field_name q d) eat_bib_white_check) scan_and_store_field_value)"
    if "entry_inv s q d" for q d
    unfolding field_name_eq and_then_assoc
    by (rule safe_and [OF calm_safe [OF entry.identifier_safe [OF that]]])
      (rule safe_mono [OF v [unfolded and_then_assoc] field_entry])
  show ?thesis unfolding entry_field_def
    by (rule safe_and [OF calm_safe [OF entry.check_safe [OF b]]]) (use f in simp)
qed

lemma fields_safe: "entry_inv s r e \<Longrightarrow> safe (entry_inv s) (entry_fields r e)"
proof (induction r e rule: entry_fields.induct)
  case (1 r e)
  have b: "entry_inv s (bump r) e" using 1(2) by (rule entry.keep) simp_all
  show ?case
  proof (cases "cur_char r \<noteq> right_outer_delim r \<and> cur_char r = CHR '','' ")
    case True
    have "safe (entry_inv s) (and_then (entry_field r e) entry_fields)"
      using entry_field_safe [OF 1(2)]
    proof (rule safe_and)
      show "safe (entry_inv s) (entry_fields r1 e1)" if "entry_field r e = (Accepted, r1, e1)" "entry_inv s r1 e1" for r1 e1
        using 1(1) [OF _ _ that] True by auto
    qed
    then show ?thesis using True by (subst entry_fields.simps) auto
  next
    case False
    then show ?thesis using b entry.err_safe [OF 1(2), THEN calm_safe]
      by (subst entry_fields.simps) (auto simp: bib_one_of_two_expected_def)
  qed
qed

lemma scan_key_view [simp]: "rd_view (scan_key r) = rd_view r"
  by (simp add: scan_key_def)

lemma bib_entry_safe: "entry_inv s r e \<Longrightarrow> type_fits s t \<Longrightarrow> safe (entry_inv s) (bib_entry t r e)"
  unfolding bib_entry_def
proof (rule safe_and, rule safe_and, rule safe_and)
  assume i: "entry_inv s r e" and t: "type_fits s t"
  show "safe (entry_inv s) (open_body r e)" using i by (intro calm_safe entry.open_safe)
  show "safe (entry_inv s) (database_key_of_interest t (scan_key q) d)" if "entry_inv s q d" for q d
    using entry.keep [OF that, of "scan_key q" d] t by (intro key_safe) simp_all
  show "safe (entry_inv s) (eat_bib_white_check q d)" if "entry_inv s q d" for q d
    using that by (intro calm_safe entry.check_safe)
  show "safe (entry_inv s) (entry_fields q d)" if "entry_inv s q d" for q d using that by (rule fields_safe)
qed simp_all

subsection \<open>Commands\<close>

text \<open>In \<open>@preamble\<close> and \<open>@string\<close> the value goes to no entry.\<close>

definition command_inv :: "engine \<Rightarrow> rd \<Rightarrow> engine \<Rightarrow> bool" where
  "command_inv s r e \<longleftrightarrow> entry_inv s r e \<and> bcmd r \<noteq> None"

lemma command_inv_view: "rd_view r = rd_view r' \<Longrightarrow> db_view e = db_view e' \<Longrightarrow> command_inv s r e = command_inv s r' e'"
proof -
  assume r: "rd_view r = rd_view r'" and e: "db_view e = db_view e'"
  show ?thesis unfolding command_inv_def rd_view_selectors [OF r] entry_inv_view [OF r e] ..
qed

interpretation command: quiet_reader "command_inv s" for s
  using command_inv_view by unfold_locales

lemma stored_calm: "command_inv s r e \<Longrightarrow> more_line (r_sc r) \<Longrightarrow>
    calm (command_inv s) (and_then (scan_and_store_field_value (r\<lparr>store_field := True\<rparr>) e) (close_command what))"
proof (rule command.and_safe)
  assume c: "command_inv s r e" and m: "more_line (r_sc r)"
  have v: "calm (command_inv s) (store_field_value q d)" if "command_inv s q d" for q d
  proof -
    have "command_inv s q (d\<lparr>preambles := p\<rparr>)" "command_inv s q (d\<lparr>macros := k\<rparr>)" for p k
      using command.keep [OF that, of q "d\<lparr>preambles := p\<rparr>"] command.keep [OF that, of q "d\<lparr>macros := k\<rparr>"] by simp_all
    moreover have "bcmd q = Some CmdPreamble \<or> bcmd q = Some CmdString"
      using that by (cases "bcmd q"; cases "the (bcmd q)") (auto simp: command_inv_def)
    ultimately show ?thesis by (auto simp: store_field_value_def Let_def)
  qed
  have "command_inv s (r\<lparr>store_field := True\<rparr>) e" using c by (simp add: command_inv_def entry_inv_def)
  then show "calm (command_inv s) (scan_and_store_field_value (r\<lparr>store_field := True\<rparr>) e)"
    unfolding scan_and_store_field_value_def
    by (rule command.and_safe [OF command.value_safe]) (use m v in simp_all)
qed (rule command.close_safe)

lemma preamble_calm: "command_inv s r e \<Longrightarrow> calm (command_inv s) (bib_preamble r e)"
  unfolding bib_preamble_def
  by (rule command.and_safe [OF command.open_safe]) (auto intro!: stored_calm dest: open_lands)

lemma string_calm: "command_inv s r e \<Longrightarrow> calm (command_inv s) (bib_string r e)"
  unfolding bib_string_def
proof (rule command.and_safe)
  assume "command_inv s r e"
  then show "calm (command_inv s) (and_then (and_then (and_then (and_then (open_body r e)
       (bib_identifier (CHR ''='') (CHR ''='') (CHR ''='') ''a string name'')) name_macro) eat_bib_white_check) expect_equals)"
    by (intro command.and_safe command.open_safe command.identifier_safe command.name_safe command.check_safe command.equals_safe)
  show "calm (command_inv s) (and_then (eat_bib_white_check q d)
      (\<lambda>r e. and_then (scan_and_store_field_value (r\<lparr>store_field := True\<rparr>) e) (close_command ''string'')))"
    if "command_inv s q d" for q d
    by (rule command.and_safe [OF command.check_safe [OF that]]) (auto intro!: stored_calm dest: check_lands)
qed

lemma settle_safe: "calm (command_inv s) res \<Longrightarrow> safe (entry_inv s) (settle res)"
  by (auto simp: settle_def calm_def command_inv_def split: prod.split)

lemma seek_keeps: "seek_at r e = (found, r', e') \<Longrightarrow> entry_inv s r e \<Longrightarrow> entry_inv s r' e'"
proof (induction r e rule: seek_at.induct)
  case (1 r e)
  obtain hit sc where w: "scan1 (CHR ''@'') (r_sc r) = (hit, sc)" by fastforce
  obtain got sc1 where g: "input_ln sc = (got, sc1)" by fastforce
  have k: "entry_inv s (r\<lparr>r_sc := sc'\<rparr>) e" "entry_inv s (r\<lparr>r_sc := sc'\<rparr>) (e\<lparr>bib_line := n\<rparr>)" for sc' n
    using entry.keep [OF 1(3), of "r\<lparr>r_sc := sc'\<rparr>" e] entry.keep [OF 1(3), of "r\<lparr>r_sc := sc'\<rparr>" "e\<lparr>bib_line := n\<rparr>"] by simp_all
  show ?case
  proof (cases "\<not> hit \<and> got")
    case True
    have "seek_at (r\<lparr>r_sc := sc1\<lparr>p2 := 0\<rparr>\<rparr>) (e\<lparr>bib_line := bib_line e + 1\<rparr>) = (found, r', e')"
      using 1(2) True w g by (simp add: seek_at.simps [of r e])
    then show ?thesis using 1(1) [OF w [symmetric] refl _ g [symmetric] refl] True k by blast
  next
    case False
    then show ?thesis using 1(2) k w g by (auto simp: seek_at.simps [of r e] split: if_splits)
  qed
qed

lemma entry_type_fits: "db_ok s e \<Longrightarrow> type_fits s (entry_type_of name e)"
  using style_view_selectors(3,4) [of e s]
  by (auto simp: db_ok_def type_fits_def entry_type_of_def split: option.splits fn_kind.splits)

lemma one_command_safe: "entry_inv s r e \<Longrightarrow> safe (entry_inv s) (bib_command_or_entry r e)"
proof -
  assume i: "entry_inv s r e"
  obtain found q d where k: "seek_at (r\<lparr>bcmd := None\<rparr>) e = (found, q, d)" by (metis prod_cases3)
  have "entry_inv s (r\<lparr>bcmd := None\<rparr>) e" using i by (simp add: entry_inv_def)
  then have q: "entry_inv s q d" using seek_keeps [OF k] by simp
  then have b: "entry_inv s (bump q) d" by (rule entry.keep) simp_all
  let ?go = "\<lambda>r e. let r = bib_lower_token r; name = token (r_sc r)
     in if name = ''comment'' then (Accepted, r, e)
        else if name = ''preamble'' then settle (bib_preamble (r\<lparr>bcmd := Some CmdPreamble\<rparr>) e)
        else if name = ''string'' then settle (bib_string (r\<lparr>bcmd := Some CmdString\<rparr>) e)
        else bib_entry (entry_type_of name e) r e"
  have go: "safe (entry_inv s) (?go r1 e1)" if "entry_inv s r1 e1" for r1 e1
  proof -
    have l: "entry_inv s (bib_lower_token r1) e1" using that by (rule entry.keep) simp_all
    then have "command_inv s ((bib_lower_token r1)\<lparr>bcmd := Some c\<rparr>) e1" for c by (simp add: command_inv_def entry_inv_def)
    then have "safe (entry_inv s) (settle (bib_preamble ((bib_lower_token r1)\<lparr>bcmd := Some CmdPreamble\<rparr>) e1))"
      "safe (entry_inv s) (settle (bib_string ((bib_lower_token r1)\<lparr>bcmd := Some CmdString\<rparr>) e1))"
      by (intro settle_safe preamble_calm string_calm; assumption)+
    moreover have "safe (entry_inv s) (bib_entry (entry_type_of n e1) (bib_lower_token r1) e1)" for n
      using l by (intro bib_entry_safe entry_type_fits) (simp_all add: entry_inv_def)
    ultimately show ?thesis using l by (simp add: Let_def)
  qed
  have "safe (entry_inv s) (and_then (and_then (eat_bib_white_check (bump q) d)
      (bib_identifier (CHR ''{'') (CHR ''('') (CHR ''('') ''an entry type'')) ?go)"
    by (rule safe_and [OF calm_safe [OF entry.and_safe [OF entry.check_safe [OF b]]]]) (simp_all add: entry.identifier_safe go)
  then show ?thesis using q by (simp add: bib_command_or_entry_def k)
qed

lemma bib_loop_safe: "bib_loop r e = (st, e') \<Longrightarrow> entry_inv s r e \<Longrightarrow> st = Confused \<or> st = Accepted \<and> db_ok s e'"
proof (induction r e rule: bib_loop.induct)
  case (1 r e)
  show ?case
  proof (cases "at_eof (src (r_sc r))")
    case True
    then show ?thesis using 1(2,3) by (auto simp: bib_loop.simps [of r e] entry_inv_def)
  next
    case False
    obtain st1 r1 e1 where c: "bib_command_or_entry r e = (st1, r1, e1)" by (metis prod_cases3)
    have s: "st1 \<noteq> Crashed" "st1 \<noteq> Confused \<Longrightarrow> entry_inv s r1 e1" using one_command_safe [OF 1(3)] c by simp_all
    show ?thesis
    proof (cases "st1 = Confused")
      case True
      then show ?thesis using 1(2) False c by (auto simp: bib_loop.simps [of r e])
    next
      case n: False
      then have "bib_loop r1 e1 = (st, e')" using 1(2) False c s(1) by (simp add: bib_loop.simps [of r e])
      then show ?thesis using 1(1) [OF False c [symmetric] refl refl _ _ s(2) [OF n]] s(1) n by blast
    qed
  qed
qed

lemma inputs_safe: "read_inputs i bs e = (st, e') \<Longrightarrow> db_ok s e \<Longrightarrow> st = Confused \<or> st = Accepted \<and> db_ok s e'"
proof (induction bs arbitrary: i e)
  case (Cons b bs)
  let ?name = "announced_name (bib_file_name (bi_name b)) (embedded b)" and ?head = "''Database file #'' @ dec_nat i @ '': ''"
  let ?e = "(if verbose e then prln ?name (pr ?head e) else log_pr [NL] (log_pr ?name (log_pr ?head e)))\<lparr>bib_name := bi_name b, bib_line := 0\<rparr>"
  obtain st1 e1 where l: "bib_loop (reader_new (bi_bytes b)) ?e = (st1, e1)" by fastforce
  have "db_view ?e = db_view e" by simp
  then have "db_ok s ?e" using Cons.prems(2) db_ok_view by blast
  then have "entry_inv s (reader_new (bi_bytes b)) ?e" by (simp add: entry_inv_def reader_new_def)
  then have s: "st1 = Confused \<or> st1 = Accepted \<and> db_ok s e1" using bib_loop_safe [OF l] by simp
  have "read_inputs i (b # bs) e = (if st1 = Accepted then read_inputs (i + 1) bs e1 else (st1, e1))"
    unfolding read_inputs.simps Let_def using l by simp
  then show ?case using Cons s by (auto split: if_splits)
qed simp

subsection \<open>The end of reading\<close>

text \<open>What \<open>READ\<close> leaves as it was.\<close>

definition read_frame :: "engine \<Rightarrow> engine" where
  "read_frame e = (style_view e)\<lparr>old_num_cites := 0, num_cites := 0, bib_inputs := [], read_performed := False,
     reading_completed := False, entry_ints := [], entry_strs := [], sorted_cites := []\<rparr>"

definition rows_ok :: "engine \<Rightarrow> nat \<Rightarrow> engine \<Rightarrow> bool" where
  "rows_ok fr L e \<longleftrightarrow> length (type_list e) = L \<and> read_frame e = fr \<and> reading_completed e \<and> lists_ok e \<and> list_all (entry_type_ok (length (fns fr))) (type_list e)"

lemma frame_of_style: "style_view e = style_view e' \<Longrightarrow> read_frame e = read_frame e'"
  by (simp add: read_frame_def)

lemma frame_of_view: "db_view e = db_view e' \<Longrightarrow> read_frame e = read_frame e'"
  by (rule frame_of_style) (rule db_view_selectors)

lemma rows_view: "db_view e' = db_view e \<Longrightarrow> rows_ok fr L e \<Longrightarrow> rows_ok fr L e'"
proof -
  assume v: "db_view e' = db_view e" and r: "rows_ok fr L e"
  have c: "reading_completed e' = reading_completed e" using v [THEN arg_cong, of reading_completed] by (simp add: db_view_def)
  show ?thesis using r unfolding rows_ok_def lists_ok_def Let_def db_view_selectors [OF v] frame_of_view [OF v] c .
qed

lemma rows_set_field [simp]: "rows_ok fr L e \<Longrightarrow> rows_ok fr L (set_field p f v e)"
  by (auto simp: rows_ok_def set_field_def lists_ok_def Let_def read_frame_def)

lemma type_list_set_field [simp]: "type_list (set_field p f v e) = type_list e"
  by (simp add: set_field_def)

lemma rows_inherit: "rows_ok fr L e \<Longrightarrow> rows_ok fr L (inherit_fields cp parent e)"
proof -
  have "rows_ok fr L e \<Longrightarrow> rows_ok fr L (fold (\<lambda>f e. if field_of e cp f = None then set_field cp f (field_of e parent f) e else e) fs e)" for fs
    by (induction fs arbitrary: e) simp_all
  then show "rows_ok fr L e \<Longrightarrow> rows_ok fr L (inherit_fields cp parent e)" by (simp add: inherit_fields_def)
qed

lemma rows_add: "rows_ok fr L e \<Longrightarrow> rows_ok fr L (add_cross_reference cp e)"
  by (auto simp: add_cross_reference_def rows_inherit split: option.split)

lemma rows_adds: "rows_ok fr L e \<Longrightarrow> rows_ok fr L (fold add_cross_reference cps e)"
  by (induction cps arbitrary: e) (simp_all add: rows_add)

lemma bad_reference_view [simp]: "db_view (bad_cross_reference_print cp v e) = db_view e"
  by (simp add: bad_cross_reference_print_def)

lemma missing_view [simp]: "db_view (print_missing_entry k e) = db_view e"
  by (simp add: print_missing_entry_def)

lemma rows_check: "rows_ok fr L e \<Longrightarrow> rows_ok fr L (check_parent cp v parent e)"
proof -
  assume r: "rows_ok fr L e"
  let ?bad = "err (prln ([DQ] @ '', which doesn'' @ [SQ] @ ''t exist'') (bad_cross_reference_print cp v (pr ''A bad cross reference-'' e)))"
  have "rows_ok fr L ?bad" using r by (rule rows_view [rotated]) simp
  then have b: "rows_ok fr L (set_field cp f None ?bad)" for f by simp
  have n: "rows_ok fr L (if c then warn (prln x (bad_cross_reference_print cp k (pr y e))) else e)" for c x k y
    using r rows_view [OF _ r, of "warn (prln x (bad_cross_reference_print cp k (pr y e)))"] by simp
  show ?thesis using b n by (simp add: check_parent_def Let_def split: option.split)
qed

lemma rows_subtract: "subtract_cross_reference cp e = (st, e') \<Longrightarrow> rows_ok fr L e \<Longrightarrow> st = Confused \<or> st = Accepted \<and> rows_ok fr L e'"
  by (auto simp: subtract_cross_reference_def rows_check split: option.splits prod.splits if_splits)

lemma rows_over:
  assumes "\<And>p e st e'. f p e = (st, e') \<Longrightarrow> rows_ok fr L e \<Longrightarrow> st = Confused \<or> st = Accepted \<and> rows_ok fr L e'"
  shows "over_cites f ps e = (st, e') \<Longrightarrow> rows_ok fr L e \<Longrightarrow> st = Confused \<or> st = Accepted \<and> rows_ok fr L e'"
proof (induction ps arbitrary: e)
  case (Cons p ps)
  obtain st1 e1 where f: "f p e = (st1, e1)" by fastforce
  show ?case using Cons assms [OF f] by (auto simp: f split: if_splits)
qed simp

lemma rows_move:
  assumes "move_entry cp xptr e = (st, e')" "rows_ok fr L e" "cp < length (type_list e)"
  shows "st = Confused \<or> st = Accepted \<and> rows_ok fr L e' \<and> length (type_list e') = length (type_list e)"
proof (cases "xptr < cp \<and> cite_map e (cite_list e ! cp) \<noteq> None")
  case True
  let ?key = "cite_list e ! cp"
  let ?e = "e\<lparr>cite_map := (cite_map e)(?key \<mapsto> xptr), cite_list := (cite_list e)[xptr := ?key], type_list := (type_list e)[xptr := type_list e ! cp]\<rparr>"
  have "entry_type_ok (length (fns fr)) (type_list e ! cp)" using assms(2,3) by (simp add: rows_ok_def list_all_length)
  then have t: "list_all (entry_type_ok (length (fns fr))) ((type_list e)[xptr := type_list e ! cp])"
    using assms(2) by (auto simp: rows_ok_def list_all_iff dest!: set_update_subset_insert [THEN subsetD])
  have "read_frame ?e = read_frame e" by (rule frame_of_style) simp
  moreover have "maps_ok (length (type_list e)) ((cite_map e)(?key \<mapsto> xptr)) (lc_cite_map e)"
    using assms(2,3) True by (auto simp: rows_ok_def lists_ok_def Let_def maps_ok_def ran_def split: if_splits)
  ultimately have e: "rows_ok fr L ?e" using assms(2) t by (simp add: rows_ok_def lists_ok_def Let_def)
  have "rows_ok fr L d \<Longrightarrow> rows_ok fr L (fold (\<lambda>f e. set_field cp f None (set_field xptr f (field_of e cp f) e)) fs d) \<and>
      length (type_list (fold (\<lambda>f e. set_field cp f None (set_field xptr f (field_of e cp f) e)) fs d)) = length (type_list d)" for fs d
  proof (induction fs arbitrary: d)
    case (Cons f fs)
    then show ?case using Cons.IH [of "set_field cp f None (set_field xptr f (field_of d cp f) d)"] by simp
  qed simp
  from this [OF e] show ?thesis using assms(1) True by (auto simp: move_entry_def Let_def)
next
  case False
  then show ?thesis using assms by (auto simp: move_entry_def Let_def split: if_splits)
qed

lemma rows_remove: "remove_entries cps xptr e = (st, n, e') \<Longrightarrow> rows_ok fr L e \<Longrightarrow> list_all (\<lambda>cp. cp < length (type_list e)) cps \<Longrightarrow>
    st = Confused \<or> st = Accepted \<and> rows_ok fr L e' \<and> n \<le> xptr + length cps \<and> length (type_list e') = length (type_list e)"
proof (induction cps arbitrary: xptr e)
  case (Cons cp cps)
  have m: "rows_ok fr L (print_missing_entry k e)" "type_list (print_missing_entry k e) = type_list e" for k
    using rows_view [OF _ Cons.prems(2), of "print_missing_entry k e"] db_view_selectors(1) [of "print_missing_entry k e" e] by simp_all
  obtain st1 e1 where v: "move_entry cp xptr e = (st1, e1)" by fastforce
  have v': "st1 = Confused \<or> st1 = Accepted \<and> rows_ok fr L e1 \<and> length (type_list e1) = length (type_list e)"
    using rows_move [OF v Cons.prems(2)] Cons.prems(3) by simp
  consider (missing) "type_list e ! cp = EtEmpty" | (kept) "type_list e ! cp \<noteq> EtEmpty" "keeps_entry e cp"
    | (left) "type_list e ! cp \<noteq> EtEmpty" "\<not> keeps_entry e cp" by blast
  then show ?case
  proof cases
    case missing
    then have "remove_entries cps xptr (print_missing_entry (cite_list e ! cp) e) = (st, n, e')" using Cons.prems(1) by simp
    from Cons.IH [OF this m(1)] show ?thesis using Cons.prems(3) by (auto simp: m(2))
  next
    case kept
    then have s: "(if st1 = Accepted then remove_entries cps (xptr + 1) e1 else (st1, xptr, e1)) = (st, n, e')" using Cons.prems(1) v by simp
    show ?thesis
    proof (cases "st1 = Accepted")
      case True
      then have "remove_entries cps (xptr + 1) e1 = (st, n, e')" using s by simp
      from Cons.IH [OF this] show ?thesis using Cons.prems(3) v' True by auto
    next
      case False
      then show ?thesis using s v' by auto
    qed
  next
    case left
    then have "remove_entries cps xptr e = (st, n, e')" using Cons.prems(1) by simp
    from Cons.IH [OF this Cons.prems(2)] show ?thesis using Cons.prems(3) by auto
  qed
qed simp

text \<open>What the style finds: every list has as many places as there are entries.\<close>

definition entries_ok :: "engine \<Rightarrow> bool" where
  "entries_ok e \<longleftrightarrow> (let n = num_cites e
     in length (cite_list e) = n \<and> length (type_list e) = n \<and> length (field_info e) = n * num_fields e \<and>
        length (entry_ints e) = n * num_ent_ints e \<and> length (entry_strs e) = n * num_ent_strs e \<and>
        length (sorted_cites e) = n \<and> set (sorted_cites e) \<subseteq> {..<n} \<and> list_all (entry_type_ok (length (fns e))) (type_list e))"

lemma read_frame_selectors:
  assumes "read_frame e = fr"
  shows "num_fields e = num_fields fr" "fns e = fns fr" "num_ent_ints e = num_ent_ints fr" "num_ent_strs e = num_ent_strs fr"
    "fn_map e = fn_map fr" "crossref_num e = crossref_num fr" "sort_key_num e = sort_key_num fr" "b_default e = b_default fr"
    "glb_ints e = glb_ints fr" "glb_strs e = glb_strs fr" "entry_seen e = entry_seen fr" "read_seen e = read_seen fr"
    "mess_with_entries e = mess_with_entries fr" "stack e = stack fr"
  using assms [symmetric] by (simp_all add: read_frame_def style_view_def db_view_def)

lemma reports_view: "db_view (fold report_missing ps e) = db_view e"
  by (induction ps arbitrary: e) (simp_all add: report_missing_def)

lemma read_frame_lists:
  "read_frame (e\<lparr>cite_list := c, type_list := t, field_info := f, entry_ints := i, entry_strs := s, sorted_cites := p\<rparr>) = read_frame e"
  by (simp add: read_frame_def style_view_def db_view_def)

lemma final_ok:
  assumes "rows_ok fr L e" "n \<le> length (type_list e)"
  shows "entries_ok (final_entries n e)" "read_frame (final_entries n e) = fr" "reading_completed (final_entries n e)"
proof -
  define d where "d = (if all_entries e then fold report_missing [all_marker e..<old_num_cites e] (e\<lparr>num_cites := n\<rparr>) else e\<lparr>num_cites := n\<rparr>)"
  have v: "db_view d = db_view (e\<lparr>num_cites := n\<rparr>)" by (simp add: d_def reports_view)
  note c = v [THEN arg_cong, of reading_completed] v [THEN arg_cong, of num_cites]
  note s = db_view_selectors [OF v]
  have fr: "read_frame d = fr" using frame_of_view [OF v] assms(1) by (simp add: rows_ok_def read_frame_def style_view_def db_view_def)
  note fs = read_frame_selectors [OF fr]
  have eq: "final_entries n e = d\<lparr>cite_list := take n (cite_list d), type_list := take n (type_list d),
      field_info := take (n * num_fields d) (field_info d), entry_ints := replicate (num_ent_ints d * n) 0,
      entry_strs := replicate (num_ent_strs d * n) [], sorted_cites := [0..<n]\<rparr>"
    unfolding final_entries_def Let_def d_def by simp
  have f: "num_fields e = num_fields fr" "lists_ok e" "list_all (entry_type_ok (length (fns fr))) (type_list e)"
    using assms(1) read_frame_selectors(1) by (auto simp: rows_ok_def)
  have t: "list_all (entry_type_ok (length (fns fr))) (take n (type_list e))" using f(3) by (auto simp: list_all_iff dest: in_set_takeD)
  show "read_frame (final_entries n e) = fr" unfolding eq fr [symmetric] by (rule read_frame_lists)
  have "reading_completed e" using assms(1) by (simp add: rows_ok_def)
  then have "reading_completed d" using c(1) by (simp add: db_view_def)
  then show "reading_completed (final_entries n e)" unfolding eq by simp
  have "num_cites d = n" using c(2) by (simp add: db_view_def)
  moreover have "length (cite_list d) = length (type_list e)" "length (field_info d) = length (type_list e) * num_fields d"
    "type_list d = type_list e"
    using f(2) s(1,2,6,7) by (simp_all add: lists_ok_def Let_def)
  moreover have "n * num_fields d \<le> length (type_list e) * num_fields d" using assms(2) by simp
  ultimately show "entries_ok (final_entries n e)" unfolding eq
    using t assms(2) by (simp add: entries_ok_def Let_def fs(2) mult.commute lessThan_atLeast0)
qed

lemma finish_safe:
  assumes "finish_reading e = (st, e')" "rows_ok fr L e"
  shows "st = Confused \<or> st = Accepted \<and> entries_ok e' \<and> read_frame e' = fr \<and> reading_completed e'"
proof -
  let ?n = "cite_ptr e"
  let ?a = "fold add_cross_reference [0..<?n] (e\<lparr>num_cites := ?n\<rparr>)"
  obtain st1 b where o: "over_cites subtract_cross_reference [0..<?n] ?a = (st1, b)" by fastforce
  have "rows_ok fr L (e\<lparr>num_cites := ?n\<rparr>)" using assms(2) by (auto simp: rows_ok_def lists_ok_def Let_def read_frame_def style_view_def db_view_def)
  then have "rows_ok fr L ?a" by (rule rows_adds)
  have b: "st1 = Confused \<or> st1 = Accepted \<and> rows_ok fr L b" using rows_over [OF rows_subtract o \<open>rows_ok fr L ?a\<close>] .
  obtain st2 x d where r: "remove_entries [0..<?n] 0 b = (st2, x, d)" by (metis prod_cases3)
  have "?n \<le> L" using assms(2) by (simp add: rows_ok_def lists_ok_def Let_def)
  then have "st2 = Confused \<or> st2 = Accepted \<and> rows_ok fr L d \<and> x \<le> length (type_list d)" if "st1 = Accepted"
    using rows_remove [OF r] b that by (auto simp: rows_ok_def list_all_iff)
  then show ?thesis using assms(1) o b r final_ok [of fr L d x] by (auto simp: finish_reading_def Let_def split: if_splits)
qed

text \<open>What \<open>READ\<close> needs: the cite list of the aux files and a style whose functions are in order.\<close>

definition cites_ok :: "engine \<Rightarrow> bool" where
  "cites_ok e \<longleftrightarrow> maps_ok (length (cite_list e)) (cite_map e) (lc_cite_map e) \<and> all_marker e \<le> length (cite_list e)"

definition style_fits :: "engine \<Rightarrow> bool" where
  "style_fits e \<longleftrightarrow> (\<forall>n f. fn_map e n = Some f \<longrightarrow> f < length (fns e)) \<and> list_all (kind_ok (core e) \<circ> kind) (fns e) \<and>
     crossref_num e < num_fields e"

lemma kind_ok_cong:
  assumes "length (c_fns c) = length (c_fns c')" "c_nf c = c_nf c'" "c_ni c = c_ni c'" "c_ns c = c_ns c'" "c_gints c = c_gints c'" "c_gstrs c = c_gstrs c'"
  shows "kind_ok c k = kind_ok c' k"
  using assms by (cases k) (simp_all add: kind_ok_def)

lemma init_ok:
  assumes "cites_ok e" "num_cites e = length (cite_list e)" "style_fits e"
  shows "db_ok (style_view (init_reading e)) (init_reading e)" "read_frame (init_reading e) = read_frame e"
proof -
  let ?e = "init_reading e"
  show "read_frame ?e = read_frame e" by (simp add: init_reading_def Let_def read_frame_def style_view_def db_view_def)
  have k: "kind_ok (core (style_view ?e)) = kind_ok (core e)"
    by (intro ext kind_ok_cong) (simp_all add: core_def init_reading_def Let_def style_view_def db_view_def)
  have f: "fns (style_view ?e) = fns e" "fn_map (style_view ?e) = fn_map e" "crossref_num (style_view ?e) = crossref_num e"
    "num_fields (style_view ?e) = num_fields e"
    by (simp_all add: init_reading_def Let_def style_view_def db_view_def)
  have "lists_ok ?e" using assms(1,2) by (auto simp: init_reading_def Let_def lists_ok_def cites_ok_def)
  moreover have "list_all (entry_type_ok (length (fns e))) (type_list ?e)"
    by (auto simp: init_reading_def Let_def list_all_iff entry_type_ok_def)
  ultimately show "db_ok (style_view ?e) ?e" using assms(3) unfolding db_ok_def k f style_fits_def by simp
qed

lemma read_safe:
  assumes "read_database e = (st, e')" "cites_ok e" "num_cites e = length (cite_list e)" "style_fits e"
  shows "st = Confused \<or> st = Accepted \<and> entries_ok e' \<and> read_frame e' = read_frame e \<and> reading_completed e'"
proof -
  let ?e = "init_reading e"
  let ?s = "style_view (?e\<lparr>bib_inputs := []\<rparr>)"
  have i: "db_ok (style_view ?e) ?e" "read_frame ?e = read_frame e" using init_ok assms(2-4) by blast+
  have k: "kind_ok (core ?s) = kind_ok (core (style_view ?e))"
    by (intro ext kind_ok_cong) (simp_all add: core_def style_view_def db_view_def)
  have d: "db_ok ?s (?e\<lparr>bib_inputs := []\<rparr>)"
    using i(1) k by (auto simp: db_ok_def lists_ok_def style_view_def db_view_def)
  obtain st1 e1 where r: "read_inputs 1 (bib_inputs ?e) (?e\<lparr>bib_inputs := []\<rparr>) = (st1, e1)" by fastforce
  have s: "st1 = Confused \<or> st1 = Accepted \<and> db_ok ?s e1" using inputs_safe [OF r d] .
  have eq: "read_database e = (if st1 \<noteq> Accepted then (st1, e1) else finish_reading (e1\<lparr>reading_completed := True\<rparr>))"
    unfolding read_database_def Let_def r by simp
  show ?thesis
  proof (cases "st1 = Accepted")
    case True
    then have b: "db_ok ?s e1" using s by simp
    then have v: "style_view e1 = ?s" by (simp add: db_ok_def)
    have "read_frame (e1\<lparr>reading_completed := True\<rparr>) = read_frame e1" by (simp add: read_frame_def style_view_def db_view_def)
    also have "\<dots> = read_frame (?e\<lparr>bib_inputs := []\<rparr>)" by (rule frame_of_style) (rule v)
    also have "\<dots> = read_frame e" using i(2) by (simp add: read_frame_def style_view_def db_view_def)
    finally have fr: "read_frame (e1\<lparr>reading_completed := True\<rparr>) = read_frame e" .
    have "fns (read_frame e) = fns ?s" using fr [THEN arg_cong, of fns] v [THEN arg_cong, of fns] by (simp add: read_frame_def style_view_def db_view_def)
    then have "rows_ok (read_frame e) (length (type_list e1)) (e1\<lparr>reading_completed := True\<rparr>)"
      using b fr by (auto simp: rows_ok_def db_ok_def lists_ok_def Let_def)
    then show ?thesis using finish_safe assms(1) eq True by simp
  next
    case False
    then show ?thesis using assms(1) eq s by simp
  qed
qed

end
