(* ===== verification/BtFormat.thy ===== *)
theory BtFormat
  imports BtSafe
begin

text \<open>
  \<open>format.name$\<close> returns (\<open>crates/tex-bibtex/src/exec.rs\<close>): the second pass over a group ends where the first one
  did, and only a name number that is not positive panics.
\<close>

subsection \<open>The split at " and "\<close>

lemma and_loop_break: "and_loop b p white e = (q, e') \<Longrightarrow> q < length b \<Longrightarrow> p + (if white then 3 else 4) \<le> q"
proof (induction b p white e rule: and_loop.induct)
  case (1 b p white e)
  note step = 1(5) [unfolded and_loop.simps [of b p white e] Let_def]
  show ?case
  proof (cases "p < length b")
    case True
    note ih = 1(1-4) [OF True refl]
    let ?c = "b ! p"
    consider (a) "?c = CHR ''a'' \<or> ?c = CHR ''A''" | (open_brace) "?c = CHR ''{''" | (close_brace) "?c = CHR ''}''"
      | (plain) "\<not> (?c = CHR ''a'' \<or> ?c = CHR ''A'')" "?c \<noteq> CHR ''{''" "?c \<noteq> CHR ''}''" by blast
    then show ?thesis
    proof cases
      case a
      then show ?thesis using step True ih(1) 1(6) by (auto split: if_splits)
    next
      case open_brace
      obtain r l where r: "skip_level b (length b) (p + 1) (brace_level e + 1) = (r, l)" by fastforce
      have "and_loop b r False (e\<lparr>brace_level := l\<rparr>) = (q, e')" using step True open_brace r by simp
      then have "r + 4 \<le> q" using ih(2) open_brace r 1(6) by fastforce
      then show ?thesis using skip_level_ge [OF r] by simp
    next
      case close_brace
      then show ?thesis using step True ih(3) 1(6) by auto
    next
      case plain
      then show ?thesis using step True ih(4) 1(6) by (auto split: if_splits)
    qed
  qed (use step 1(6) in simp)
qed

lemma name_scan_break: "name_scan_for_and b p e = (q, e') \<Longrightarrow> q < length b \<Longrightarrow> p + 4 \<le> q"
  using and_loop_break [of b p False] by (fastforce simp: name_scan_for_and_def split: prod.splits)

lemma isolate_break:
  "isolate_loop list which k ptr xptr e = (k', ptr', xptr', e') \<Longrightarrow> ptr' < length list \<Longrightarrow> k < which \<or> 4 \<le> ptr \<Longrightarrow> 4 \<le> ptr'"
proof (induction list which k ptr xptr e rule: isolate_loop.induct)
  case (1 list which k ptr xptr e)
  show ?case
  proof (cases "k < which \<and> ptr < length list")
    case True
    obtain p d where p: "name_scan_for_and list ptr e = (p, d)" by fastforce
    have r: "isolate_loop list which (k + 1) p ptr d = (k', ptr', xptr', e')" using 1(2) True p by (simp add: isolate_loop.simps [of list which k])
    have "k + 1 < which \<or> 4 \<le> p"
    proof (cases "p < length list")
      case True
      then show ?thesis using name_scan_break [OF p] by simp
    next
      case False
      then have "p = ptr'" using r by (simp add: isolate_loop.simps [of list which "k + 1"])
      then show ?thesis using False 1(3) by simp
    qed
    then show ?thesis using 1(1) [OF True p [symmetric] refl r 1(3)] by blast
  next
    case False
    then have "ptr' = ptr" using 1(2) by (subst (asm) isolate_loop.simps) (auto split: if_splits)
    then show ?thesis using False 1(3,4) by auto
  qed
qed

subsection \<open>The two passes over a group\<close>

lemma skip_level_end: "skip_level b n i level = (j, k) \<Longrightarrow> 0 \<le> level \<Longrightarrow> k = 0 \<or> n \<le> j"
proof (induction b n i level rule: skip_level.induct)
  case (1 b n i level)
  then show ?case by (subst (asm) (2) skip_level.simps) (auto simp: brace_step_int_def split: if_splits)
qed

lemma skip_group_end: "skip_brace_group fmt sp 2 = (j, k) \<Longrightarrow> k = 1 \<or> length fmt \<le> j"
  by (auto simp: skip_brace_group_def split: prod.splits dest: skip_level_end)

text \<open>Inside a nested group the second pass copies, to the place the first pass skips to.\<close>

lemma copy_group:
  assumes "\<And>out e. part_loop fmt j 1 n cur stop double start out e \<noteq> None"
  shows "skip_level b m sp level = (j, 0) \<Longrightarrow> b = fmt \<Longrightarrow> m = length fmt \<Longrightarrow> 0 \<le> level \<Longrightarrow>
    part_loop fmt sp (level + 1) n cur stop double start out e \<noteq> None"
proof (induction b m sp level arbitrary: out e rule: skip_level.induct)
  case (1 b m sp level)
  show ?case
  proof (cases "0 < level \<and> sp < m")
    case True
    let ?l = "brace_step_int (fmt ! sp) level"
    have r: "skip_level b m (sp + 1) ?l = (j, 0)" using 1(2,3,4) True by (subst (asm) skip_level.simps) simp
    have "0 \<le> ?l" using True by (simp add: brace_step_int_def)
    then have ih: "part_loop fmt (sp + 1) (?l + 1) n cur stop double start o' d \<noteq> None" for o' d
      using 1(1) [OF True] r 1(3,4) True by simp
    have b: "part_loop fmt sp (level + 1) n cur stop double start out e =
        part_loop fmt (sp + 1) (?l + 1) n cur stop double start
          (if fmt ! sp = CHR ''}'' then if 0 < level then out @ ''}'' else out else out @ [fmt ! sp]) e"
      using True 1(3,4) by (subst part_loop.simps) (auto simp: brace_step_int_def Let_def)
    show ?thesis unfolding b by (rule ih)
  next
    case False
    then have "sp = j" "level = 0" using 1(2,5) by (auto simp: skip_level.simps [of b m sp level])
    then show ?thesis using assms by simp
  qed
qed

lemma not_written: "group_loop fmt p sp level g e = (c, sp', level', g', e') \<Longrightarrow> \<not> to_be_written g \<Longrightarrow> \<not> to_be_written g'"
proof (induction fmt p sp level g e rule: group_loop.induct)
  case (1 fmt p sp level g e)
  note step = 1(4) [unfolded group_loop.simps [of fmt p sp level g e] Let_def]
  have l: "\<not> to_be_written h'" if "group_letter fmt p sp h d = (i, h', d')" "\<not> to_be_written h" for h d i h' d'
    using that by (auto simp: group_letter_def Let_def split: if_splits option.splits)
  show ?case
  proof (cases "sp < length fmt")
    case True
    note ih = 1(1-3) [OF True refl]
    show ?thesis using step True ih l [of g e] 1(5) by (auto simp: Let_def split: if_splits prod.splits)
  qed (use step 1(5) in simp)
qed

lemma group_past_end: "length fmt \<le> sp \<Longrightarrow> \<not> fst (group_loop fmt p sp level g e)"
  by (subst group_loop.simps) simp

text \<open>After its first letter, a group that is written has no other, and its width is settled.\<close>

lemma settled:
  assumes "group_loop fmt p sp level g e = (c, sp', level', g', e')" "alpha_found g" "to_be_written g'"
  shows "double_letter g' = double_letter g"
  using assms
proof (induction fmt p sp level g e rule: group_loop.induct)
  case (1 fmt p sp level g e)
  note step = 1(4) [unfolded group_loop.simps [of fmt p sp level g e] Let_def]
  show ?case
  proof (cases "sp < length fmt")
    case True
    note ih = 1(1-3) [OF True refl]
    have "\<not> is_alpha (fmt ! sp)"
    proof
      assume a: "is_alpha (fmt ! sp)"
      have "group_letter fmt p sp g e = (sp + 1, g\<lparr>to_be_written := False\<rparr>, brace_lvl_one_letters_complaint fmt e)"
        using 1(5) by (simp add: group_letter_def)
      then have "group_loop fmt p (sp + 1) level (g\<lparr>to_be_written := False\<rparr>) (brace_lvl_one_letters_complaint fmt e) = (c, sp', level', g', e')"
        using step True a by simp
      then show False using not_written 1(6) by fastforce
    qed
    then show ?thesis using step True ih(2,3) 1(5,6) by (auto simp: Let_def split: if_splits prod.splits)
  qed (use step in simp)
qed

lemma brace_not_alpha [simp]: "\<not> is_alpha (CHR ''{'')"
  by code_simp

lemma second_pass:
  assumes "group_loop fmt p sp 1 g e = (True, sp', level', g', e')" "to_be_written g'" "alpha_found g \<or> \<not> double_letter g"
  shows "part_loop fmt sp 1 n cur stop (double_letter g') start out d \<noteq> None"
  using assms
proof (induction "length fmt - sp" arbitrary: sp g e cur out d rule: less_induct)
  case less
  note step = less.prems(1) [unfolded group_loop.simps [of fmt p sp 1 g e] Let_def]
  have sp: "sp < length fmt" using less.prems(1) group_past_end [of fmt sp p 1 g e] by (cases "sp < length fmt") auto
  have ih: "part_loop fmt x 1 n k stop (double_letter g') start o1 d1 \<noteq> None"
    if "group_loop fmt p x 1 h f = (True, sp', level', g', e')" "alpha_found h \<or> \<not> double_letter h" "sp < x" for x h f k o1 d1
    using less.hyps [OF _ that(1) less.prems(2) that(2)] that(3) sp by simp
  have nest: "k = 1 \<and> group_loop fmt p x 1 h f = (True, sp', level', g', e')"
    if "skip_brace_group fmt y 2 = (x, k)" "group_loop fmt p x k h f = (True, sp', level', g', e')" for x y k h f
  proof -
    have "x < length fmt" using that(2) group_past_end [of fmt x p k h f] by (cases "x < length fmt") auto
    then show ?thesis using that skip_group_end [OF that(1)] by auto
  qed
  let ?c = "fmt ! sp"
  consider (letter) "is_alpha ?c" | (close) "\<not> is_alpha ?c" "?c = CHR ''}''" | (brace) "\<not> is_alpha ?c" "?c = CHR ''{''"
    | (other) "\<not> is_alpha ?c" "?c \<noteq> CHR ''}''" "?c \<noteq> CHR ''{''" by blast
  then show ?case
  proof cases
    case letter
    obtain s1 g1 e1 where l: "group_letter fmt p sp g e = (s1, g1, e1)" by (metis prod_cases3)
    have r: "group_loop fmt p s1 1 g1 e1 = (True, sp', level', g', e')" using step sp letter l by simp
    have w: "to_be_written g1" using not_written [OF r] less.prems(2) by blast
    have a: "\<not> alpha_found g" "alpha_found g1" using l w by (auto simp: group_letter_def Let_def split: if_splits option.splits)
    have dbl: "double_letter g' = double_letter g1" by (rule settled [OF r a(2) less.prems(2)])
    have s1: "s1 = (if double_letter g1 then sp + 2 else sp + 1)"
      using l a less.prems(3) by (auto simp: group_letter_def Let_def split: if_splits option.splits)
    show ?thesis
    proof (cases "byte_at fmt s1 = CHR ''{''")
      case True
      then have in_fmt: "s1 < length fmt" by (auto simp: byte_at_def split: if_splits)
      obtain x k where x: "skip_brace_group fmt (s1 + 1) 2 = (x, k)" by fastforce
      have "group_loop fmt p x k g1 e1 = (True, sp', level', g', e')"
        using r in_fmt True x by (simp add: group_loop.simps [of fmt p s1])
      then have k: "k = 1" "group_loop fmt p x 1 g1 e1 = (True, sp', level', g', e')" using nest [OF x] by auto
      have "sp < x" using skip_brace_group_ge [OF x] s1 by (auto split: if_splits)
      then have "part_loop fmt x 1 n i stop (double_letter g') start o1 d1 \<noteq> None" for i o1 d1
        using ih [OF k(2)] a(2) by blast
      then show ?thesis
        using letter sp s1 dbl True x k(1) by (subst part_loop.simps) (auto simp: Let_def split: prod.split)
    next
      case False
      have "sp < s1" using s1 by simp
      then have "part_loop fmt s1 1 n i stop (double_letter g') start o1 d1 \<noteq> None" for i o1 d1
        using ih [OF r] a(2) by blast
      then show ?thesis
        using letter sp s1 dbl False by (subst part_loop.simps) (auto simp: Let_def split: prod.split)
    qed
  next
    case close
    then show ?thesis using sp by (subst part_loop.simps) (simp add: Let_def part_loop.simps [of fmt "Suc sp" 0])
  next
    case brace
    obtain x k where x: "skip_brace_group fmt (sp + 1) 2 = (x, k)" by fastforce
    have "group_loop fmt p x k g e = (True, sp', level', g', e')" using step sp brace x by simp
    then have k: "k = 1" "group_loop fmt p x 1 g e = (True, sp', level', g', e')" using nest [OF x] by auto
    have "sp < x" using skip_brace_group_ge [OF x] by simp
    then have "part_loop fmt x 1 n i stop (double_letter g') start o1 d1 \<noteq> None" for i o1 d1
      using ih [OF k(2) less.prems(3)] by blast
    moreover have "skip_level fmt (length fmt) (sp + 1) 1 = (x, 0)" using x k by (auto simp: skip_brace_group_def split: prod.splits)
    ultimately have "part_loop fmt (sp + 1) (1 + 1) n cur stop (double_letter g') start o1 d1 \<noteq> None" for o1 d1
      by (intro copy_group) auto
    then show ?thesis using sp brace by (subst part_loop.simps) (simp add: Let_def)
  next
    case other
    have "group_loop fmt p (sp + 1) 1 g e = (True, sp', level', g', e')" using other step sp by simp
    then have "part_loop fmt (sp + 1) 1 n cur stop (double_letter g') start o1 d1 \<noteq> None" for o1 d1
      by (rule ih [OF _ less.prems(3)]) simp_all
    then show ?thesis using sp other by (subst part_loop.simps) (simp add: Let_def)
  qed
qed

subsection \<open>The whole format\<close>

lemma group_level: "group_loop fmt p sp level g e = (True, sp', level', g', e') \<Longrightarrow> level = 1 \<Longrightarrow> level' = 0"
proof (induction "length fmt - sp" arbitrary: sp level g e rule: less_induct)
  case less
  note step = less.prems(1) [unfolded group_loop.simps [of fmt p sp level g e] Let_def]
  have sp: "sp < length fmt" using less.prems(1) group_past_end [of fmt sp p level g e] by (cases "sp < length fmt") auto
  obtain s1 g1 e1 where l: "group_letter fmt p sp g e = (s1, g1, e1)" by (metis prod_cases3)
  obtain x k where x: "skip_brace_group fmt (sp + 1) 2 = (x, k)" by fastforce
  have "k = 1 \<or> length fmt \<le> x" "sp < x" using skip_group_end [OF x] skip_brace_group_ge [OF x] by auto
  then show ?case
    using step sp l x less.prems(2) group_letter_gt [OF l] less.hyps [of s1 level g1 e1] less.hyps [of x 1 g e] less.hyps [of "Suc sp" level g e]
      group_past_end [of fmt x p k g e]
    by (auto split: if_splits)
qed

lemma group_open: "group_loop fmt p sp level g e = (False, sp', level', g', e') \<Longrightarrow> length fmt \<le> sp'"
proof (induction fmt p sp level g e rule: group_loop.induct)
  case (1 fmt p sp level g e)
  note step = 1(4) [unfolded group_loop.simps [of fmt p sp level g e] Let_def]
  show ?case
  proof (cases "sp < length fmt")
    case True
    show ?thesis using step True 1(1-3) [OF True refl] by (auto simp: Let_def split: if_splits prod.splits)
  qed (use step in simp)
qed

lemma formatted_returns: "level = 0 \<Longrightarrow> formatted_loop fmt n p sp level out e \<noteq> None"
proof (induction fmt n p sp level out e rule: formatted_loop.induct)
  case (1 fmt n p sp level out e)
  show ?case
  proof (cases "sp < length fmt")
    case True
    note ih = 1(1-3) [OF True refl]
    show ?thesis
    proof (cases "fmt ! sp = CHR ''{''")
      case brace: True
      obtain c sp' l g d where g: "group_loop fmt p (sp + 1) (level + 1) blank_group e = (c, sp', l, g, d)" by (metis prod_cases5)
      let ?r = "if c \<and> to_be_written g then format_part fmt (sp + 1) n (fg_cur g) (fg_stop g) (double_letter g) out d else Some (out, d)"
      have "part_loop fmt (sp + 1) 1 n (fg_cur g) (fg_stop g) (double_letter g) (length out) out d \<noteq> None" if c "to_be_written g"
        using second_pass [of fmt p "sp + 1" blank_group e sp' l g d] g 1(4) that by (simp add: blank_group_def)
      then have "?r \<noteq> None" by (auto simp: format_part_def split: option.split)
      then obtain o1 d1 where r: "?r = Some (o1, d1)" by auto
      have eq: "formatted_loop fmt n p sp level out e = formatted_loop fmt n p sp' l o1 d1"
        using True brace g r by (subst formatted_loop.simps) (simp add: Let_def)
      show ?thesis
      proof (cases c)
        case c: True
        then have "l = 0" using group_level g 1(4) by simp
        then show ?thesis unfolding eq using ih(1) [OF brace g [symmetric] refl refl refl refl r refl] by blast
      next
        case False
        then have "length fmt \<le> sp'" using group_open g by simp
        then show ?thesis unfolding eq by (subst formatted_loop.simps) simp
      qed
    next
      case False
      then show ?thesis using True ih(2,3) 1(4) by (subst formatted_loop.simps) (simp add: Let_def)
    qed
  qed (simp add: formatted_loop.simps [of fmt n p sp])
qed


text \<open>\<open>None\<close> is the panic of the code.\<close>

lemma format_name_none: "format_name fmt which list e = None \<longleftrightarrow> which \<le> 0 \<and> list \<noteq> []"
proof -
  obtain k ptr xptr d where i: "isolate_loop list which 0 0 0 e = (k, ptr, xptr, d)" by (metis prod_cases4)
  have rest: "figure_out_formatted_name fmt n p f \<noteq> None" for n p f
    using formatted_returns [of 0 fmt n p 0 "[]" f] by (auto simp: figure_out_formatted_name_def)
  have "ptr < length list \<and> ptr < 4 \<longleftrightarrow> which \<le> 0 \<and> list \<noteq> []"
  proof (cases "0 < which")
    case True
    then show ?thesis using isolate_break [OF i] by auto
  next
    case False
    then have "ptr = 0" using i by (simp add: isolate_loop.simps)
    then show ?thesis using False by auto
  qed
  moreover have "format_name fmt which list e = None \<longleftrightarrow> ptr < length list \<and> ptr < 4"
  proof (cases "ptr < length list \<and> ptr < 4")
    case True
    then show ?thesis by (simp add: format_name_def i)
  next
    case False
    let ?p = "if ptr < length list then ptr - 4 else ptr" and ?d = "if k < which then no_name list which d else d"
    obtain p f where t: "trim_name list which xptr ?p ?d = (p, f)" by fastforce
    obtain nc h where c: "copy_name list which p xptr blank_copy f = (nc, h)" by fastforce
    have "format_name fmt which list e = figure_out_formatted_name fmt (finish_names (nc_names nc))
        (name_parts (finish_names (nc_names nc)) (num_commas nc) (comma1 nc) (comma2 nc)) h"
      unfolding format_name_def i using False t c by (simp only: Let_def split_conv if_False)
    then show ?thesis using False rest by metis
  qed
  ultimately show ?thesis by simp
qed

end
