(* ===== verification/BtAux.thy ===== *)
theory BtAux
  imports BtEngine
begin

text \<open>
  Reading the aux files (\<open>crates/tex-bibtex/src/auxfile.rs\<close>): citations, databases, the style and nested files.
  The files of the system are a parameter: what \<open>open_input\<close> and \<open>open_aux\<close> find under a name.
\<close>

record file_lookup =
  find_bib :: "bytes \<Rightarrow> (bytes \<times> bool) option"
  find_bst :: "bytes \<Rightarrow> (bytes \<times> bool) option"
  find_aux :: "bytes \<Rightarrow> bytes option"

(* @src crates/tex-bibtex/src/auxfile.rs const AUX_STACK_SIZE *)
definition AUX_STACK_SIZE :: nat where "AUX_STACK_SIZE = 20"

(* @src crates/tex-bibtex/src/auxfile.rs struct AuxFile *)
record aux_file =
  aux_name :: bytes
  aux_sc :: scanner

subsection \<open>Errors\<close>

(* @src crates/tex-bibtex/src/auxfile.rs impl Engine fn aux_err *)
definition aux_err :: "scanner \<Rightarrow> bytes \<Rightarrow> engine \<Rightarrow> engine" where
  "aux_err sc name e =
     prln (''I'' @ [SQ] @ ''m skipping whatever remains of this command'')
       (print_bad_input_line sc (prln name (pr (''---line '' @ dec_nat (line sc) @ '' of file '') e)))"

(* @src crates/tex-bibtex/src/auxfile.rs impl Engine fn aux_arg_error *)
definition aux_arg_error :: "scanner \<Rightarrow> bytes \<Rightarrow> bool \<Rightarrow> bool \<Rightarrow> engine \<Rightarrow> bool \<times> engine" where
  "aux_arg_error sc name scanned as_list e =
     (let complain = (\<lambda>msg. (True, aux_err sc name (pr msg e)))
      in if \<not> scanned then complain (''No '' @ [DQ] @ ''}'' @ [DQ])
         else if is_white (scan_char sc) then complain ''White space in argument''
         else if p2 sc + 1 < lst sc \<and> (\<not> as_list \<or> scan_char sc = CHR ''}'') then complain (''Stuff after '' @ [DQ] @ ''}'' @ [DQ])
         else (False, e))"

lemma aux_arg_error_scanned: "aux_arg_error sc name scanned as_list e = (False, e') \<Longrightarrow> scanned"
  by (auto simp: aux_arg_error_def Let_def split: if_splits)

subsection \<open>Databases\<close>

(* @src crates/tex-bibtex/src/auxfile.rs:165-166 aux_citation *)
definition next_arg :: "scanner \<Rightarrow> bool \<times> scanner" where
  "next_arg sc = scan2_white (CHR ''}'') (CHR '','') (sc\<lparr>p2 := p2 sc + 1\<rparr>)"

lemma next_arg_ahead: "next_arg sc = (True, sc') \<Longrightarrow> lst sc' = lst sc \<and> p2 sc < p2 sc' \<and> p2 sc' < lst sc"
  using run_end_bounds(1) [of "p2 sc + 1" "\<lambda>c. \<not> (c = CHR ''}'' \<or> c = CHR '','' \<or> is_white c)" "buf sc" "lst sc"]
  by (auto simp: next_arg_def scan2_white_def scan_while_def more_line_def Let_def)

text \<open>The databases named so far are in \<open>seen\<close>.\<close>

(* @src crates/tex-bibtex/src/auxfile.rs:99-122 aux_bib_data *)
function bib_data_loop :: "file_lookup \<Rightarrow> scanner \<Rightarrow> bytes \<Rightarrow> bytes set \<Rightarrow> engine \<Rightarrow> scanner \<times> bytes set \<times> engine" where
  "bib_data_loop fs sc name seen e =
     (if scan_char sc = CHR ''}'' then (sc, seen, e)
      else
        let (scanned, sc') = next_arg sc; (bad, e) = aux_arg_error sc' name scanned True e
        in if bad then (sc', seen, e)
           else
             let key = token sc'; print_name = bib_file_name key
             in if key \<in> seen then
                  (sc', seen, aux_err sc' name (prln print_name (pr ''This database file appears more than once: '' e)))
                else (case find_bib fs key of
                    None \<Rightarrow> (sc', insert key seen,
                      aux_err sc' name (prln print_name (pr (''I couldn'' @ [SQ] @ ''t open database file '') e)))
                  | Some (bs, emb) \<Rightarrow>
                      bib_data_loop fs sc' name (insert key seen)
                        (e\<lparr>bib_inputs := bib_inputs e @ [\<lparr>bi_name = key, bi_bytes = bs, embedded = emb\<rparr>]\<rparr>)))"
  by pat_completeness auto
termination
proof (relation "measure (\<lambda>(fs, sc, name, seen, e). lst sc - p2 sc)", goal_cases)
  case (2 fs sc name seen e x scanned sc' y bad e')
  then have "next_arg sc = (True, sc')" using aux_arg_error_scanned [of sc' name scanned True e e'] by simp
  then show ?case using next_arg_ahead [of sc sc'] by auto
qed simp

declare bib_data_loop.simps [simp del]

(* @src crates/tex-bibtex/src/auxfile.rs impl Engine fn aux_bib_data *)
definition aux_bib_data :: "file_lookup \<Rightarrow> scanner \<Rightarrow> bytes \<Rightarrow> bytes set \<Rightarrow> engine \<Rightarrow> scanner \<times> bytes set \<times> engine" where
  "aux_bib_data fs sc name seen e =
     (if bib_seen e then (sc, seen, aux_err sc name (pr (''Illegal, another '' @ [BACKSLASH] @ ''bibdata command'') e))
      else bib_data_loop fs sc name seen (e\<lparr>bib_seen := True\<rparr>))"

subsection \<open>The style\<close>

(* @src crates/tex-bibtex/src/auxfile.rs:145-152 aux_bib_style *)
definition log_named :: "bytes \<Rightarrow> bytes \<Rightarrow> engine \<Rightarrow> engine" where
  "log_named what name e =
     (if verbose e then prln name (pr what e) else log_pr [NL] (log_pr name (log_pr what e)))"

(* @src crates/tex-bibtex/src/auxfile.rs impl Engine fn aux_bib_style *)
definition aux_bib_style :: "file_lookup \<Rightarrow> scanner \<Rightarrow> bytes \<Rightarrow> engine \<Rightarrow> scanner \<times> engine" where
  "aux_bib_style fs sc name e =
     (if bst_seen e then (sc, aux_err sc name (pr (''Illegal, another '' @ [BACKSLASH] @ ''bibstyle command'') e))
      else
        let (scanned, sc) = scan1_white (CHR ''}'') (sc\<lparr>p2 := p2 sc + 1\<rparr>);
            (bad, e) = aux_arg_error sc name scanned False (e\<lparr>bst_seen := True\<rparr>)
        in if bad then (sc, e)
           else
             let style = token sc; print_name = style @ ''.bst''
             in (case find_bst fs style of
                   Some (bs, emb) \<Rightarrow>
                     (sc, log_named ''The style file: '' (announced_name print_name emb) (e\<lparr>bst_bytes := bs, bst_name := Some style\<rparr>))
                 | None \<Rightarrow> (sc, aux_err sc name (prln print_name (pr (''I couldn'' @ [SQ] @ ''t open style file '') e)))))"

subsection \<open>Citations\<close>

text \<open>A key of a list: the keys that differ only in case from one seen before are errors; \<open>None\<close> ends the command.\<close>

(* @src crates/tex-bibtex/src/auxfile.rs:170-198 aux_citation *)
definition cite_key :: "scanner \<Rightarrow> bytes \<Rightarrow> bytes \<Rightarrow> engine \<Rightarrow> bool \<times> engine" where
  "cite_key sc name key e =
     (if key = ''*'' then
        if all_entries e then (False, aux_err sc name (prln ''Multiple inclusions of entire database'' e))
        else (True, e\<lparr>all_entries := True, all_marker := length (cite_list e)\<rparr>)
      else
        let lc = lower_case key
        in (case lc_cite_map e lc of
             Some exact \<Rightarrow>
               if cite_map e key = None then
                 (False, aux_err sc name (prln (''Case mismatch error between cite keys '' @ key @ '' and ''
                    @ cite_list e ! the (cite_map e exact)) e))
               else (True, e)
           | None \<Rightarrow>
               (True, e\<lparr>cite_map := (cite_map e)(key \<mapsto> length (cite_list e)), lc_cite_map := (lc_cite_map e)(lc \<mapsto> key),
                        cite_list := cite_list e @ [key]\<rparr>)))"

(* @src crates/tex-bibtex/src/auxfile.rs:164-199 aux_citation *)
function citation_loop :: "scanner \<Rightarrow> bytes \<Rightarrow> engine \<Rightarrow> scanner \<times> engine" where
  "citation_loop sc name e =
     (if scan_char sc = CHR ''}'' then (sc, e)
      else
        let (scanned, sc') = next_arg sc; (bad, e) = aux_arg_error sc' name scanned True e
        in if bad then (sc', e)
           else let (go_on, e) = cite_key sc' name (token sc') e in if go_on then citation_loop sc' name e else (sc', e))"
  by pat_completeness auto
termination
proof (relation "measure (\<lambda>(sc, name, e). lst sc - p2 sc)", goal_cases)
  case (2 sc name e x scanned sc' y bad e' z go_on e'')
  then have "next_arg sc = (True, sc')" using aux_arg_error_scanned [of sc' name scanned True e e'] by simp
  then show ?case using next_arg_ahead [of sc sc'] by auto
qed simp

declare citation_loop.simps [simp del]

(* @src crates/tex-bibtex/src/auxfile.rs impl Engine fn aux_citation *)
definition aux_citation :: "scanner \<Rightarrow> bytes \<Rightarrow> engine \<Rightarrow> scanner \<times> engine" where
  "aux_citation sc name e = citation_loop sc name (e\<lparr>citation_seen := True\<rparr>)"

subsection \<open>Nested files\<close>

text \<open>\<open>Deep\<close> is the fatal error of a nesting that is too deep.\<close>

datatype (plugins only: code) input_result = NoFile | Deep | NewFile aux_file

(* @src crates/tex-bibtex/src/auxfile.rs impl Engine fn aux_input *)
definition aux_input :: "file_lookup \<Rightarrow> scanner \<Rightarrow> bytes \<Rightarrow> bytes set \<Rightarrow> nat \<Rightarrow> engine \<Rightarrow> input_result \<times> scanner \<times> bytes set \<times> engine" where
  "aux_input fs sc aux seen depth e =
     (let (scanned, sc) = scan1_white (CHR ''}'') (sc\<lparr>p2 := p2 sc + 1\<rparr>);
          (bad, e) = aux_arg_error sc aux scanned False e;
          name = token sc
      in if bad then (NoFile, sc, seen, e)
         else if depth = AUX_STACK_SIZE then
           let e = prln (''Sorry---you'' @ [SQ] @ ''ve exceeded BibTeX'' @ [SQ] @ ''s auxiliary file depth '' @ dec_nat AUX_STACK_SIZE)
                     (pr '': '' (pr name e))
           in (Deep, sc, seen, e\<lparr>elog := mark_fatal (elog e)\<rparr>)
         else if \<not> ends_with name ''.aux'' then
           (NoFile, sc, seen, aux_err sc aux (pr '' has a wrong extension'' (pr name e)))
         else if name \<in> seen then (NoFile, sc, seen, aux_err sc aux (prln name (pr ''Already encountered file '' e)))
         else (case find_aux fs name of
             None \<Rightarrow> (NoFile, sc, insert name seen,
               aux_err sc aux (prln name (pr (''I couldn'' @ [SQ] @ ''t open auxiliary file '') e)))
           | Some bs \<Rightarrow>
               (NewFile \<lparr>aux_name = name, aux_sc = scanner_new bs\<rparr>, sc, insert name seen,
                log_pr [NL] (log_pr name (log_pr (''A level-'' @ dec_nat depth @ '' auxiliary file: '') e)))))"

(* @src crates/tex-bibtex/src/auxfile.rs:252-256 last_check_for_aux_errors *)
definition aux_end_err :: "bytes \<Rightarrow> bytes \<Rightarrow> engine \<Rightarrow> engine" where
  "aux_end_err top_name what e = err (prln top_name (pr (''I found no '' @ what @ ''---while reading file '') e))"

(* @src crates/tex-bibtex/src/auxfile.rs impl Engine fn last_check_for_aux_errors *)
definition last_check_for_aux_errors :: "bytes \<Rightarrow> engine \<Rightarrow> engine" where
  "last_check_for_aux_errors top_name e =
     (let e = e\<lparr>num_cites := length (cite_list e)\<rparr>;
          e = (if \<not> citation_seen e then aux_end_err top_name ([BACKSLASH] @ ''citation commands'') e
               else if num_cites e = 0 \<and> \<not> all_entries e then aux_end_err top_name ''cite keys'' e else e);
          e = (if \<not> bib_seen e then aux_end_err top_name ([BACKSLASH] @ ''bibdata command'') e
               else if bib_inputs e = [] then aux_end_err top_name ''database files'' e else e)
      in if \<not> bst_seen e then aux_end_err top_name ([BACKSLASH] @ ''bibstyle command'') e
         else if bst_name e = None then aux_end_err top_name ''style file'' e else e)"

subsection \<open>The files\<close>

(* @src crates/tex-bibtex/src/auxfile.rs:22-28 read_aux *)
record aux_state =
  files :: "aux_file list"
  aux_seen :: "bytes set"
  bib_names :: "bytes set"

definition pack_bib :: "scanner \<times> bytes set \<times> engine \<Rightarrow> aux_state \<Rightarrow> input_result \<times> scanner \<times> aux_state \<times> engine" where
  "pack_bib r s = (let (sc, names, e) = r in (NoFile, sc, s\<lparr>bib_names := names\<rparr>, e))"

(* @src crates/tex-bibtex/src/auxfile.rs:43-58 read_aux *)
definition aux_command :: "file_lookup \<Rightarrow> scanner \<Rightarrow> bytes \<Rightarrow> aux_state \<Rightarrow> engine \<Rightarrow> input_result \<times> scanner \<times> aux_state \<times> engine" where
  "aux_command fs sc name s e =
     (let t = token sc
      in if t = BACKSLASH # ''bibdata'' then pack_bib (aux_bib_data fs sc name (bib_names s) e) s
         else if t = BACKSLASH # ''bibstyle'' then let (sc, e) = aux_bib_style fs sc name e in (NoFile, sc, s, e)
         else if t = BACKSLASH # ''citation'' then let (sc, e) = aux_citation sc name e in (NoFile, sc, s, e)
         else if t = BACKSLASH # ''@input'' then
           let (r, sc, seen, e) = aux_input fs sc name (aux_seen s) (length (files s)) e in (r, sc, s\<lparr>aux_seen := seen\<rparr>, e)
         else (NoFile, sc, s, e))"

text \<open>
  A pass of the loop over the topmost file, the last of the list in the code and the first here: it ends, or a line is
  read and its command is obeyed.  The flag of the result says that a fatal error ends the loop.
\<close>

(* @src crates/tex-bibtex/src/auxfile.rs:31-61 read_aux *)
definition aux_step :: "file_lookup \<Rightarrow> aux_file \<Rightarrow> aux_file list \<Rightarrow> aux_state \<Rightarrow> engine \<Rightarrow> bool \<times> aux_state \<times> engine" where
  "aux_step fs f rest s e =
     (let sc = aux_sc f; (got, sc) = input_ln (sc\<lparr>line := line sc + 1\<rparr>)
      in if \<not> got then (False, s\<lparr>files := rest\<rparr>, e)
         else
           let (found, sc) = scan1 (CHR ''{'') (sc\<lparr>p2 := 0\<rparr>)
           in if \<not> found then (False, s\<lparr>files := f\<lparr>aux_sc := sc\<rparr> # rest\<rparr>, e)
              else
                let (r, sc, s, e) = aux_command fs sc (aux_name f) s e; fl = f\<lparr>aux_sc := sc\<rparr> # rest
                in (case r of
                      NoFile \<Rightarrow> (False, s\<lparr>files := fl\<rparr>, e)
                    | NewFile g \<Rightarrow> (False, s\<lparr>files := g # fl\<rparr>, e)
                    | Deep \<Rightarrow> (True, s\<lparr>files := fl\<rparr>, e)))"

text \<open>The loop over the files takes a fuel; \<open>Some (True, e)\<close> is a fatal error.\<close>

(* @src crates/tex-bibtex/src/auxfile.rs:29-62 read_aux *)
fun aux_loop :: "nat \<Rightarrow> file_lookup \<Rightarrow> aux_state \<Rightarrow> engine \<Rightarrow> (bool \<times> engine) option" where
  "aux_loop 0 fs s e = None"
| "aux_loop (Suc n) fs s e =
     (case files s of
        [] \<Rightarrow> Some (False, e)
      | f # rest \<Rightarrow> let (stop, s, e) = aux_step fs f rest s e in if stop then Some (True, e) else aux_loop n fs s e)"

(* @src crates/tex-bibtex/src/auxfile.rs impl Engine fn read_aux *)
definition read_aux :: "nat \<Rightarrow> file_lookup \<Rightarrow> bytes \<Rightarrow> bytes \<Rightarrow> engine \<Rightarrow> (bool \<times> engine) option" where
  "read_aux n fs top_name bs e =
     (case aux_loop n fs \<lparr>files = [\<lparr>aux_name = top_name, aux_sc = scanner_new bs\<rparr>], aux_seen = {top_name}, bib_names = {}\<rparr> e of
        Some (False, e) \<Rightarrow> Some (False, last_check_for_aux_errors top_name e)
      | r \<Rightarrow> r)"

end
