(* ===== verification/BtBst.thy ===== *)
theory BtBst
  imports BtExec BtDatabase
begin

text \<open>
  Reading and obeying the style file (\<open>crates/tex-bibtex/src/bst.rs\<close>).  A command is executed as soon as it is read; an
  error skips to the next blank line.  The nesting of function bodies and the loop over the commands take the fuel of
  the execution.
\<close>

subsection \<open>How a command ends\<close>

text \<open>\<open>Go\<close> is \<open>Ok\<close>; a panic and the end of the fuel are outcomes of the model.\<close>

(* @src crates/tex-bibtex/src/bst.rs enum Stop *)
datatype (plugins only: code) progress = Go | SkipCommand | StyleEnd | StyleFatal | StylePanic | StyleFuel

(* @src crates/tex-bibtex/src/bst.rs enum ListKind *)
datatype (plugins only: code) list_kind = LkField | LkIntEntry | LkStrEntry | LkIntGlobal | LkStrGlobal

type_synonym style_result = "progress \<times> scanner \<times> engine"

definition and_go :: "style_result \<Rightarrow> (scanner \<Rightarrow> engine \<Rightarrow> style_result) \<Rightarrow> style_result" where
  "and_go r f = (case r of (st, sc, e) \<Rightarrow> if st = Go then f sc e else r)"

lemma and_go_cong [fundef_cong]:
  "r = r' \<Longrightarrow> (\<And>sc e. r' = (Go, sc, e) \<Longrightarrow> f sc e = g sc e) \<Longrightarrow> and_go r f = and_go r' g"
  by (auto simp: and_go_def split: prod.split)

lemma and_go_simps [simp]:
  "and_go (Go, sc, e) f = f sc e" "st \<noteq> Go \<Longrightarrow> and_go (st, sc, e) f = (st, sc, e)"
  by (simp_all add: and_go_def)

definition bst_bump :: "scanner \<Rightarrow> scanner" where
  "bst_bump sc = sc\<lparr>p2 := p2 sc + 1\<rparr>"

subsection \<open>White space and errors\<close>

(* @src crates/tex-bibtex/src/bst.rs impl Engine fn eat_bst_white *)
function eat_bst_white :: "scanner \<Rightarrow> engine \<Rightarrow> bool \<times> scanner \<times> engine" where
  "eat_bst_white sc e =
     (let (found, sc) = scan_white_space sc
      in if found \<and> scan_char sc \<noteq> CHR ''%'' then (True, sc, e\<lparr>bst_line := line sc\<rparr>)
         else
           let (got, sc) = input_ln sc
           in if got then eat_bst_white (sc\<lparr>line := line sc + 1, p2 := 0\<rparr>) e
              else (False, sc, e\<lparr>bst_line := line sc\<rparr>))"
  by pat_completeness auto
termination
proof (relation "measure (\<lambda>(sc, e). unread sc)", goal_cases)
  case (2 sc e x found sc1 y got sc2)
  then show ?case using scan_white_unread [of sc found sc1] input_ln_unread [of sc1 sc2] by (simp add: unread_def)
qed simp

declare eat_bst_white.simps [simp del]

text \<open>To the next blank line: \<open>StyleEnd\<close> at the end of the file.\<close>

(* @src crates/tex-bibtex/src/bst.rs:85-92 bst_err_print_and_look_for_blank_line *)
function to_blank_line :: "scanner \<Rightarrow> progress \<times> scanner" where
  "to_blank_line sc =
     (if lst sc \<noteq> 0 then
        let (got, sc) = input_ln sc in if got then to_blank_line (sc\<lparr>line := line sc + 1\<rparr>) else (StyleEnd, sc)
      else (SkipCommand, sc\<lparr>p2 := lst sc\<rparr>))"
  by pat_completeness auto
termination
proof (relation "measure unread", goal_cases)
  case (2 sc x got sc1)
  then show ?case using input_ln_unread [of sc sc1] by (simp add: unread_def)
qed simp

declare to_blank_line.simps [simp del]

(* @src crates/tex-bibtex/src/bst.rs impl Engine fn bst_err_print_and_look_for_blank_line *)
definition bst_err_print_and_look_for_blank_line :: "scanner \<Rightarrow> engine \<Rightarrow> style_result" where
  "bst_err_print_and_look_for_blank_line sc e =
     (let e = print_bad_input_line sc (bst_ln_num_print (pr ''-'' e)); (st, sc) = to_blank_line sc in (st, sc, e))"

(* @src crates/tex-bibtex/src/bst.rs impl Engine fn bst_err *)
definition bst_err :: "bytes \<Rightarrow> scanner \<Rightarrow> engine \<Rightarrow> style_result" where
  "bst_err msg sc e = bst_err_print_and_look_for_blank_line sc (pr msg e)"

(* @src crates/tex-bibtex/src/bst.rs impl Engine fn eat_bst_white_check *)
definition eat_bst_white_check :: "bytes \<Rightarrow> scanner \<Rightarrow> engine \<Rightarrow> style_result" where
  "eat_bst_white_check cmd sc e =
     (let (ok, sc, e) = eat_bst_white sc e
      in if ok then (Go, sc, e) else bst_err cmd sc (pr ''Illegal end of style file in command: '' e))"

(* @src crates/tex-bibtex/src/bst.rs impl Engine fn bst_identifier_scan *)
definition bst_identifier_scan :: "bytes \<Rightarrow> scanner \<Rightarrow> engine \<Rightarrow> style_result" where
  "bst_identifier_scan cmd sc e =
     (let (r, sc) = scan_identifier (CHR ''}'') (CHR ''%'') (CHR ''%'') sc
      in case r of
           IdNull \<Rightarrow> bst_err ([DQ, scan_char sc, DQ] @ '' begins identifier, command: '' @ cmd) sc e
         | OtherCharAdjacent \<Rightarrow> bst_err ([DQ, scan_char sc, DQ] @ '' immediately follows identifier, command: '' @ cmd) sc e
         | _ \<Rightarrow> (Go, sc, e))"

(* @src crates/tex-bibtex/src/bst.rs:127-134 bst_left_brace *)
definition bst_brace :: "u8 \<Rightarrow> bytes \<Rightarrow> scanner \<Rightarrow> engine \<Rightarrow> style_result" where
  "bst_brace c cmd sc e =
     (if scan_char sc \<noteq> c then bst_err cmd sc (pr ([DQ, c, DQ] @ '' is missing in command: '') e) else (Go, bst_bump sc, e))"

(* @src crates/tex-bibtex/src/bst.rs impl Engine fn bst_left_brace *)
definition bst_left_brace :: "bytes \<Rightarrow> scanner \<Rightarrow> engine \<Rightarrow> style_result" where
  "bst_left_brace = bst_brace (CHR ''{'')"

(* @src crates/tex-bibtex/src/bst.rs impl Engine fn bst_right_brace *)
definition bst_right_brace :: "bytes \<Rightarrow> scanner \<Rightarrow> engine \<Rightarrow> style_result" where
  "bst_right_brace = bst_brace (CHR ''}'')"

text \<open>The new function's number comes first; it has a meaning when the result goes on.\<close>

(* @src crates/tex-bibtex/src/bst.rs impl Engine fn insert_new_fn *)
definition insert_new_fn :: "fn_kind \<Rightarrow> scanner \<Rightarrow> engine \<Rightarrow> fn_id \<times> style_result" where
  "insert_new_fn k sc e =
     (let sc = lower_case_token sc; name = token sc
      in case fn_map e name of
           Some f \<Rightarrow>
             (f, bst_err_print_and_look_for_blank_line sc
               (prln ([DQ] @ '' function name'')
                 (pr (fn_name (fns e ! f) @ '' is already a type '' @ [DQ] @ fn_class_name (kind (fns e ! f))) e)))
         | None \<Rightarrow> let (f, e) = define_fn name k e in (f, (Go, sc, e)))"

subsection \<open>Lists of names\<close>

(* @src crates/tex-bibtex/src/bst.rs:198-204 bst_name_list *)
definition list_fn_kind :: "list_kind \<Rightarrow> engine \<Rightarrow> fn_kind" where
  "list_fn_kind k e = (case k of
     LkField \<Rightarrow> Field (num_fields e) | LkIntEntry \<Rightarrow> IntEntry (num_ent_ints e) | LkStrEntry \<Rightarrow> StrEntry (num_ent_strs e)
   | LkIntGlobal \<Rightarrow> IntGlobal (length (glb_ints e)) | LkStrGlobal \<Rightarrow> StrGlobal (length (glb_strs e)))"

(* @src crates/tex-bibtex/src/bst.rs:206-212 bst_name_list *)
definition count_name :: "list_kind \<Rightarrow> engine \<Rightarrow> engine" where
  "count_name k e = (case k of
     LkField \<Rightarrow> e\<lparr>num_fields := num_fields e + 1\<rparr> | LkIntEntry \<Rightarrow> e\<lparr>num_ent_ints := num_ent_ints e + 1\<rparr>
   | LkStrEntry \<Rightarrow> e\<lparr>num_ent_strs := num_ent_strs e + 1\<rparr> | LkIntGlobal \<Rightarrow> e\<lparr>glb_ints := glb_ints e @ [0]\<rparr>
   | LkStrGlobal \<Rightarrow> e\<lparr>glb_strs := glb_strs e @ [[]]\<rparr>)"

(* @src crates/tex-bibtex/src/bst.rs:197-213 bst_name_list *)
definition list_item :: "list_kind \<Rightarrow> bytes \<Rightarrow> scanner \<Rightarrow> engine \<Rightarrow> style_result" where
  "list_item k cmd sc e =
     and_go (and_go (bst_identifier_scan cmd sc e) (\<lambda>sc e. snd (insert_new_fn (list_fn_kind k e) sc e)))
       (\<lambda>sc e. eat_bst_white_check cmd sc (count_name k e))"

lemma to_blank_line_stops: "to_blank_line sc = (st, sc') \<Longrightarrow> st \<noteq> Go"
  by (induction sc rule: to_blank_line.induct) (subst (asm) (2) to_blank_line.simps, auto split: if_splits prod.splits)

lemma bst_err_stops [simp]: "bst_err msg sc e \<noteq> (Go, sc', e')" "bst_err_print_and_look_for_blank_line sc e \<noteq> (Go, sc', e')"
  by (auto simp: bst_err_def bst_err_print_and_look_for_blank_line_def split: prod.splits dest: to_blank_line_stops)

lemma eat_bst_white_onward: "eat_bst_white sc e = (True, sc', e') \<Longrightarrow> onward sc sc' \<and> more_line sc'"
proof (induction sc e rule: eat_bst_white.induct)
  case (1 sc e)
  obtain found sc1 where w: "scan_white_space sc = (found, sc1)" by fastforce
  obtain got sc2 where g: "input_ln sc1 = (got, sc2)" by fastforce
  have adv: "advances sc sc1" using scans_advance(9) [of sc] w by simp
  have fm: "found \<longleftrightarrow> more_line sc1" using w by (auto simp: scan_white_space_def Let_def)
  note step = 1(2) [unfolded eat_bst_white.simps [of sc e] Let_def w g split_conv]
  show ?case
  proof (cases "found \<and> scan_char sc1 \<noteq> CHR ''%''")
    case True
    then show ?thesis using step fm advances_onward [OF adv] by auto
  next
    case f: False
    then have got: got using step by (auto split: if_splits)
    let ?s = "sc2\<lparr>line := line sc2 + 1, p2 := 0\<rparr>"
    have "unread ?s < unread sc"
      using input_ln_unread [of sc1 sc2] g got scan_white_unread [OF w] by (simp add: unread_def)
    moreover have "onward ?s sc' \<and> more_line sc'"
      using 1(1) [OF w [symmetric] refl f g [symmetric] refl got] step f got by auto
    ultimately show ?thesis by (auto simp: onward_def)
  qed
qed

lemma eat_bst_check_onward: "eat_bst_white_check cmd sc e = (Go, sc', e') \<Longrightarrow> onward sc sc' \<and> more_line sc'"
  by (auto simp: eat_bst_white_check_def split: prod.splits if_splits dest: eat_bst_white_onward)

lemma identifier_ahead:
  assumes "bst_identifier_scan cmd sc e = (Go, sc', e')"
  shows "p2 sc < p2 sc'" "lst sc' = lst sc" "unread sc' = unread sc"
proof -
  obtain r sc1 where s: "scan_identifier (CHR ''}'') (CHR ''%'') (CHR ''%'') sc = (r, sc1)" by fastforce
  have r: "sc' = sc1" "r \<noteq> IdNull" using assms s by (auto simp: bst_identifier_scan_def split: id_scan.splits)
  have p: "p1 sc1 = p2 sc" "p2 sc1 \<noteq> p1 sc1" using s r by (auto simp: scan_identifier_def scan_while_def Let_def split: if_splits)
  have "advances sc sc1" using scans_advance(7) [of sc "CHR ''}''" "CHR ''%''" "CHR ''%''"] s by simp
  then show "p2 sc < p2 sc'" "lst sc' = lst sc" "unread sc' = unread sc"
    using p r by (auto simp: advances_def unread_def)
qed

lemma insert_new_fn_sc: "insert_new_fn k sc e = (f, Go, sc', e') \<Longrightarrow> sc' = lower_case_token sc"
  by (auto simp: insert_new_fn_def Let_def split: option.splits prod.splits)

lemma list_item_left: "list_item k cmd sc e = (Go, sc', e') \<Longrightarrow> (sc', sc) \<in> left_order"
proof -
  assume a: "list_item k cmd sc e = (Go, sc', e')"
  obtain sc1 e1 where i: "bst_identifier_scan cmd sc e = (Go, sc1, e1)"
    using a by (auto simp: list_item_def and_go_def split: prod.splits if_splits)
  obtain f sc2 e2 where n: "insert_new_fn (list_fn_kind k e1) sc1 e1 = (f, Go, sc2, e2)"
    using a i by (auto simp: list_item_def and_go_def split: prod.splits if_splits) (metis prod.collapse)
  have w: "eat_bst_white_check cmd sc2 (count_name k e2) = (Go, sc', e')" using a i n by (simp add: list_item_def)
  have "sc2 = lower_case_token sc1" using insert_new_fn_sc [OF n] .
  then have "onward sc1 sc'" "more_line sc'" using eat_bst_check_onward [OF w] by simp_all
  then show ?thesis using identifier_ahead [OF i] by (auto simp: onward_def left_order_def more_line_def)
qed

(* @src crates/tex-bibtex/src/bst.rs:196-216 bst_name_list *)
function name_list_loop :: "list_kind \<Rightarrow> bytes \<Rightarrow> scanner \<Rightarrow> engine \<Rightarrow> style_result" where
  "name_list_loop k cmd sc e =
     (if scan_char sc = CHR ''}'' then (Go, bst_bump sc, e) else and_go (list_item k cmd sc e) (name_list_loop k cmd))"
  by pat_completeness auto
termination
proof (relation "inv_image left_order (\<lambda>(k, cmd, sc, e). sc)", goal_cases)
  case (2 k cmd sc e sc1 e1)
  then show ?case using list_item_left by simp
qed simp

declare name_list_loop.simps [simp del]

(* @src crates/tex-bibtex/src/bst.rs impl Engine fn bst_name_list *)
definition bst_name_list :: "list_kind \<Rightarrow> bytes \<Rightarrow> scanner \<Rightarrow> engine \<Rightarrow> style_result" where
  "bst_name_list k cmd sc e = and_go (and_go (bst_left_brace cmd sc e) (eat_bst_white_check cmd)) (name_list_loop k cmd)"

(* @src crates/tex-bibtex/src/bst.rs impl Engine fn bst_list_command *)
definition bst_list_command :: "list_kind \<Rightarrow> bytes \<Rightarrow> scanner \<Rightarrow> engine \<Rightarrow> style_result" where
  "bst_list_command k cmd sc e = and_go (eat_bst_white_check cmd sc e) (bst_name_list k cmd)"

(* @src crates/tex-bibtex/src/bst.rs:232-236 bst_entry *)
definition warn_no_fields :: "engine \<Rightarrow> engine" where
  "warn_no_fields e =
     (if num_fields e = 1 then warn (bst_ln_num_print (pr (''Warning--I didn'' @ [SQ] @ ''t find any fields'') e)) else e)"

(* @src crates/tex-bibtex/src/bst.rs impl Engine fn bst_entry *)
definition bst_entry :: "scanner \<Rightarrow> engine \<Rightarrow> style_result" where
  "bst_entry sc e =
     (if entry_seen e then bst_err ''Illegal, another entry command'' sc e
      else
        let white = eat_bst_white_check ''entry''
        in and_go (and_go (and_go (and_go (and_go (white sc (e\<lparr>entry_seen := True\<rparr>)) (bst_name_list LkField ''entry'')) white)
             (\<lambda>sc e. bst_name_list LkIntEntry ''entry'' sc (warn_no_fields e))) white) (bst_name_list LkStrEntry ''entry''))"

subsection \<open>Commands that execute\<close>

definition of_outcome :: "scanner \<Rightarrow> engine \<Rightarrow> outcome \<Rightarrow> style_result" where
  "of_outcome sc e r = (case r of Returned e \<Rightarrow> (Go, sc, e) | Panicked e \<Rightarrow> (StylePanic, sc, e) | Unfinished \<Rightarrow> (StyleFuel, sc, e))"

(* @src crates/tex-bibtex/src/bst.rs:266-270 bst_execute *)
definition obey :: "nat \<Rightarrow> bytes \<Rightarrow> fn_id \<Rightarrow> engine \<Rightarrow> outcome" where
  "obey n cmd f e =
     (if cmd = ''execute'' then cmd_execute n f e else if cmd = ''iterate'' then cmd_iterate n f False e else cmd_iterate n f True e)"

(* @src crates/tex-bibtex/src/bst.rs:258-258 bst_execute *)
definition callable :: "fn_kind \<Rightarrow> bool" where
  "callable k \<longleftrightarrow> (case k of Builtin _ \<Rightarrow> True | Wiz _ \<Rightarrow> True | _ \<Rightarrow> False)"

text \<open>The function between the braces, and the command on it.\<close>

(* @src crates/tex-bibtex/src/bst.rs:252-271 bst_execute *)
definition execute_named :: "nat \<Rightarrow> bytes \<Rightarrow> scanner \<Rightarrow> engine \<Rightarrow> style_result" where
  "execute_named n cmd sc e =
     (let sc = lower_case_token sc; name = token sc
      in case fn_map e name of
           None \<Rightarrow> bst_err '' is an unknown function'' sc (pr name e)
         | Some f \<Rightarrow>
             if \<not> callable (kind (fns e ! f)) then
               bst_err_print_and_look_for_blank_line sc (pr ('' has bad function type '' @ fn_class_name (kind (fns e ! f))) (pr name e))
             else
               and_go (and_go (eat_bst_white_check cmd sc e) (bst_right_brace cmd)) (\<lambda>sc e. of_outcome sc e (obey n cmd f e)))"

(* @src crates/tex-bibtex/src/bst.rs impl Engine fn bst_execute *)
definition bst_execute :: "nat \<Rightarrow> bytes \<Rightarrow> scanner \<Rightarrow> engine \<Rightarrow> style_result" where
  "bst_execute n cmd sc e =
     (if \<not> read_seen e then bst_err (''Illegal, '' @ cmd @ '' command before read command'') sc e
      else
        and_go (and_go (and_go (and_go (eat_bst_white_check cmd sc e) (bst_left_brace cmd)) (eat_bst_white_check cmd))
          (bst_identifier_scan cmd)) (execute_named n cmd))"

subsection \<open>Function definitions\<close>

(* @src crates/tex-bibtex/src/bst.rs impl Engine fn skip_token *)
definition skip_token :: "scanner \<Rightarrow> engine \<Rightarrow> scanner \<times> engine" where
  "skip_token sc e = (snd (scan2_white (CHR ''}'') (CHR ''%'') sc), err (bst_ln_num_print (pr ''-'' e)))"

(* @src crates/tex-bibtex/src/bst.rs impl Engine fn bad_after_literal *)
definition bad_after_literal :: "scanner \<Rightarrow> engine \<Rightarrow> bool \<times> scanner \<times> engine" where
  "bad_after_literal sc e =
     (let c = scan_char sc
      in if \<not> is_white c \<and> p2 sc < lst sc \<and> c \<noteq> CHR ''}'' \<and> c \<noteq> CHR ''%'' then
           (True, skip_token sc (pr ([DQ] @ '' can'' @ [SQ] @ ''t follow a literal'') (pr [DQ, c] e)))
         else (False, sc, e))"

(* @src crates/tex-bibtex/src/bst.rs impl Engine fn skip_unknown_or_recursive *)
definition skip_unknown_or_recursive :: "fn_id option \<Rightarrow> fn_id \<Rightarrow> scanner \<Rightarrow> engine \<Rightarrow> fn_id option \<times> scanner \<times> engine" where
  "skip_unknown_or_recursive f wiz sc e =
     (let t = token sc
      in case f of
           None \<Rightarrow> (None, skip_token sc (pr '' is an unknown function'' (pr t e)))
         | Some g \<Rightarrow>
             if g = wiz then
               (None, skip_token sc (prln '' is illegal in its own definition''
                  (pr t (pr ''function '' (prln ''Curse you, wizard, before you recurse me:'' e)))))
             else (Some g, sc, e))"

(* @src crates/tex-bibtex/src/bst.rs:346-348 scan_fn_def *)
definition literal_op :: "op \<Rightarrow> scanner \<Rightarrow> engine \<Rightarrow> op list \<times> scanner \<times> engine" where
  "literal_op p sc e = (let (bad, sc, e) = bad_after_literal sc e in (if bad then [] else [p], sc, e))"

(* @src crates/tex-bibtex/src/bst.rs:367-372 scan_fn_def *)
definition function_op :: "(fn_id \<Rightarrow> op) \<Rightarrow> fn_id \<Rightarrow> scanner \<Rightarrow> engine \<Rightarrow> op list \<times> scanner \<times> engine" where
  "function_op p wiz sc e =
     (let sc = lower_case_token (snd (scan2_white (CHR ''}'') (CHR ''%'') sc));
          (f, sc, e) = skip_unknown_or_recursive (fn_map e (token sc)) wiz sc e
      in (case f of Some g \<Rightarrow> [p g] | None \<Rightarrow> [], sc, e))"

text \<open>A token of a body that is not a group; a bad one adds nothing.\<close>

(* @src crates/tex-bibtex/src/bst.rs:337-390 scan_fn_def *)
definition scan_op :: "fn_id \<Rightarrow> scanner \<Rightarrow> engine \<Rightarrow> op list \<times> scanner \<times> engine" where
  "scan_op wiz sc e =
     (let c = scan_char sc
      in if c = CHR ''#'' then
           let (v, sc) = scan_integer (bst_bump sc)
           in (case v of
                 None \<Rightarrow> ([], skip_token sc (pr ''Illegal integer in integer literal'' e)) | Some v \<Rightarrow> literal_op (OpInt v) sc e)
         else if c = DQ then
           let (found, sc) = scan1 DQ (bst_bump sc)
           in if \<not> found then ([], skip_token sc (pr (''No '' @ [BQ, DQ, SQ] @ '' to end string literal'') e))
              else literal_op (OpStr (token sc)) (bst_bump sc) e
         else if c = SQ then function_op OpQuote wiz (bst_bump sc) e
         else function_op OpCall wiz sc e)"

(* @src crates/tex-bibtex/src/bst.rs impl Engine fn scan_fn_def *)
fun scan_body :: "nat \<Rightarrow> fn_id \<Rightarrow> op list \<Rightarrow> scanner \<Rightarrow> engine \<Rightarrow> style_result" where
  "scan_body 0 wiz ops sc e = (StyleFuel, sc, e)"
| "scan_body (Suc n) wiz ops sc e =
     (let white = eat_bst_white_check ''function''
      in if scan_char sc = CHR ''}'' then
           (Go, bst_bump sc, e\<lparr>fns := (fns e)[wiz := (fns e ! wiz)\<lparr>kind := Wiz ops\<rparr>]\<rparr>)
         else if scan_char sc = CHR ''{'' then
           let (f, e) = define_fn (SQ # dec_nat (impl_fn_num e)) (Wiz []) (e\<lparr>impl_fn_num := impl_fn_num e + 1\<rparr>)
           in and_go (and_go (and_go (white (bst_bump sc) e) (scan_body n f [])) white) (scan_body n wiz (ops @ [OpQuote f]))
         else
           let (p, sc, e) = scan_op wiz sc e in and_go (white sc e) (scan_body n wiz (ops @ p)))"

(* @src crates/tex-bibtex/src/bst.rs impl Engine fn scan_fn_def *)
definition scan_fn_def :: "nat \<Rightarrow> fn_id \<Rightarrow> scanner \<Rightarrow> engine \<Rightarrow> style_result" where
  "scan_fn_def n wiz sc e = and_go (eat_bst_white_check ''function'' sc e) (scan_body n wiz [])"

(* @src crates/tex-bibtex/src/bst.rs:279-287 bst_function *)
definition define_named :: "nat \<Rightarrow> scanner \<Rightarrow> engine \<Rightarrow> style_result" where
  "define_named n sc e =
     (let white = eat_bst_white_check ''function''; (wiz, r) = insert_new_fn (Wiz []) sc e
      in and_go (and_go (and_go (and_go (and_go r
           (\<lambda>sc e. white sc (if fn_name (fns e ! wiz) = ''default.type'' then e\<lparr>b_default := wiz\<rparr> else e)))
           (bst_right_brace ''function'')) white) (bst_left_brace ''function'')) (scan_fn_def n wiz))"

(* @src crates/tex-bibtex/src/bst.rs impl Engine fn bst_function *)
definition bst_function :: "nat \<Rightarrow> scanner \<Rightarrow> engine \<Rightarrow> style_result" where
  "bst_function n sc e =
     (let white = eat_bst_white_check ''function''
      in and_go (and_go (and_go (and_go (white sc e) (bst_left_brace ''function'')) white) (bst_identifier_scan ''function'')) (define_named n))"

subsection \<open>Macros and \<open>READ\<close>\<close>

(* @src crates/tex-bibtex/src/bst.rs:420-430 bst_macro *)
definition macro_value :: "bytes \<Rightarrow> scanner \<Rightarrow> engine \<Rightarrow> style_result" where
  "macro_value name sc e =
     (if scan_char sc \<noteq> DQ then bst_err (''A macro definition must be '' @ [DQ] @ ''-delimited'') sc e
      else
        let (found, sc) = scan1 DQ (bst_bump sc)
        in if \<not> found then bst_err (''There'' @ [SQ] @ ''s no '' @ [BQ, DQ, SQ] @ '' to end macro definition'') sc e
           else
             let e = e\<lparr>macros := (macros e)(name \<mapsto> token sc)\<rparr>
             in and_go (eat_bst_white_check ''macro'' (bst_bump sc) e) (bst_right_brace ''macro''))"

(* @src crates/tex-bibtex/src/bst.rs:406-430 bst_macro *)
definition macro_named :: "scanner \<Rightarrow> engine \<Rightarrow> style_result" where
  "macro_named sc e =
     (let sc = lower_case_token sc; name = token sc; white = eat_bst_white_check ''macro''
      in if macros e name \<noteq> None then bst_err '' is already defined as a macro'' sc (pr name e)
         else
           and_go (and_go (and_go (and_go (and_go (white sc (e\<lparr>macros := (macros e)(name \<mapsto> name)\<rparr>)) (bst_right_brace ''macro'')) white)
             (bst_left_brace ''macro'')) white) (macro_value name))"

(* @src crates/tex-bibtex/src/bst.rs impl Engine fn bst_macro *)
definition bst_macro :: "scanner \<Rightarrow> engine \<Rightarrow> style_result" where
  "bst_macro sc e =
     (if read_seen e then bst_err ''Illegal, macro command after read command'' sc e
      else
        let white = eat_bst_white_check ''macro''
        in and_go (and_go (and_go (and_go (white sc e) (bst_left_brace ''macro'')) white) (bst_identifier_scan ''macro'')) macro_named)"

definition of_status :: "scanner \<Rightarrow> status \<times> engine \<Rightarrow> style_result" where
  "of_status sc r = (case r of (st, e) \<Rightarrow> (case st of Confused \<Rightarrow> StyleFatal | Crashed \<Rightarrow> StylePanic | _ \<Rightarrow> Go, sc, e))"

(* @src crates/tex-bibtex/src/bst.rs impl Engine fn bst_read *)
definition bst_read :: "scanner \<Rightarrow> engine \<Rightarrow> style_result" where
  "bst_read sc e =
     (if read_seen e then bst_err ''Illegal, another read command'' sc e
      else
        let e = e\<lparr>read_seen := True\<rparr>
        in if \<not> entry_seen e then bst_err ''Illegal, read command before entry command'' sc e
           else of_status sc (read_database e))"

(* @src crates/tex-bibtex/src/bst.rs:175-181 bst_command *)
definition bst_sort :: "scanner \<Rightarrow> engine \<Rightarrow> style_result" where
  "bst_sort sc e = (if \<not> read_seen e then bst_err ''Illegal, sort command before read command'' sc e else (Go, sc, cmd_sort e))"

subsection \<open>The style file\<close>

(* @src crates/tex-bibtex/src/bst.rs:166-188 bst_command *)
definition named_command :: "nat \<Rightarrow> bytes \<Rightarrow> scanner \<Rightarrow> engine \<Rightarrow> style_result" where
  "named_command n name sc e =
     (if name = ''entry'' then bst_entry sc e
      else if name = ''execute'' then bst_execute n name sc e
      else if name = ''function'' then bst_function n sc e
      else if name = ''integers'' then bst_list_command LkIntGlobal name sc e
      else if name = ''iterate'' then bst_execute n name sc e
      else if name = ''macro'' then bst_macro sc e
      else if name = ''read'' then bst_read sc e
      else if name = ''reverse'' then bst_execute n name sc e
      else if name = ''sort'' then bst_sort sc e
      else if name = ''strings'' then bst_list_command LkStrGlobal name sc e
      else bst_err '' is an illegal style-file command'' sc (pr name e))"

(* @src crates/tex-bibtex/src/bst.rs impl Engine fn bst_command *)
definition bst_command :: "nat \<Rightarrow> scanner \<Rightarrow> engine \<Rightarrow> style_result" where
  "bst_command n sc e =
     (let (ok, sc) = scan_alpha sc
      in if \<not> ok then bst_err ([DQ, scan_char sc, DQ] @ '' can'' @ [SQ] @ ''t start a style-file command'') sc e
         else let sc = lower_case_token sc in named_command n (token sc) sc e)"

text \<open>The loop over the commands: \<open>n\<close> is the fuel of each, \<open>k\<close> that of the loop.\<close>

(* @src crates/tex-bibtex/src/bst.rs:40-49 read_bst *)
fun style_loop :: "nat \<Rightarrow> nat \<Rightarrow> scanner \<Rightarrow> engine \<Rightarrow> progress \<times> engine" where
  "style_loop n 0 sc e = (StyleFuel, e)"
| "style_loop n (Suc k) sc e =
     (let (ok, sc, e) = eat_bst_white sc e
      in if \<not> ok then (Go, e)
         else
           let (st, sc, e) = bst_command n sc e
           in if st \<in> {Go, SkipCommand} then style_loop n k sc e else if st = StyleEnd then (Go, e) else (st, e))"

(* @src crates/tex-bibtex/src/bst.rs impl Engine fn read_bst *)
definition read_bst :: "nat \<Rightarrow> engine \<Rightarrow> progress \<times> engine" where
  "read_bst n e = style_loop n n (scanner_new (bst_bytes e)) (e\<lparr>bst_bytes := []\<rparr>)"

end
