(* ===== verification/BtMain.thy ===== *)
theory BtMain
  imports BtAux BtBst
begin

text \<open>
  A run of BibTeX (\<open>crates/tex-bibtex/src/engine.rs\<close>, \<open>run\<close> and \<open>run_job\<close>): the command line, the aux file, the style
  and the exit status.  Reading and writing files is a parameter; the messages on the standard error of a wrong command
  line are left out.
\<close>

subsection \<open>The command line\<close>

definition starts_with :: "bytes \<Rightarrow> bytes \<Rightarrow> bool" where
  "starts_with s t \<longleftrightarrow> take (length t) s = t"

definition strip_prefix :: "bytes \<Rightarrow> bytes \<Rightarrow> bytes option" where
  "strip_prefix t s = (if starts_with s t then Some (drop (length t) s) else None)"

text \<open>\<open>u32::from_str\<close>: digits after at most one plus sign, in 32 bits.\<close>

definition parse_u32 :: "bytes \<Rightarrow> nat option" where
  "parse_u32 s =
     (let ds = (if starts_with s ''+'' then drop 1 s else s); v = fold (\<lambda>d v. v * 10 + (byte_val d - 48)) ds 0
      in if ds \<noteq> [] \<and> (\<forall>d \<in> set ds. CHR ''0'' \<le> d \<and> d \<le> CHR ''9'') \<and> v < 4294967296 then Some (nat v) else None)"

record options =
  o_aux :: "bytes option"
  o_crossrefs :: nat
  o_verbose :: bool

(* @src crates/tex-bibtex/src/engine.rs:452-470 run *)
definition parse_arg :: "bytes \<Rightarrow> options \<Rightarrow> options option" where
  "parse_arg a opts =
     (case (case strip_prefix ''--'' a of None \<Rightarrow> strip_prefix ''-'' a | r \<Rightarrow> r) of
        Some s \<Rightarrow>
          if s = ''terse'' then Some (opts\<lparr>o_verbose := False\<rparr>)
          else (case strip_prefix ''min-crossrefs='' s of
              Some v \<Rightarrow> map_option (\<lambda>n. opts\<lparr>o_crossrefs := n\<rparr>) (parse_u32 v)
            | None \<Rightarrow> Some opts)
      | None \<Rightarrow> if o_aux opts = None then Some (opts\<lparr>o_aux := Some a\<rparr>) else None)"

(* @src crates/tex-bibtex/src/engine.rs:451-471 run *)
fun parse_args :: "bytes list \<Rightarrow> options \<Rightarrow> options option" where
  "parse_args [] opts = Some opts"
| "parse_args (a # as) opts = (case parse_arg a opts of None \<Rightarrow> None | Some opts \<Rightarrow> parse_args as opts)"

subsection \<open>The job\<close>

(* @src crates/tex-bibtex/src/engine.rs impl Engine fn run_job *)
definition run_job :: "nat \<Rightarrow> file_lookup \<Rightarrow> bytes \<Rightarrow> bytes \<Rightarrow> engine \<Rightarrow> progress \<times> engine" where
  "run_job n fs name bs e = (case read_aux n fs name bs e of
     None \<Rightarrow> (StyleFuel, e)
   | Some (True, e) \<Rightarrow> (StyleFatal, e)
   | Some (False, e) \<Rightarrow> if bst_name e \<noteq> None then read_bst n e else (Go, e))"

text \<open>What a run leaves: its exit status, the two files and the terminal.\<close>

record run_output =
  exit_status :: nat
  bbl_file :: bytes
  blg_file :: bytes
  on_terminal :: bytes

(* @src crates/tex-bibtex/src/engine.rs:510-514 run *)
definition history_status :: "history \<Rightarrow> nat" where
  "history_status h = (case h of Spotless \<Rightarrow> 0 | Warning \<Rightarrow> 0 | Error \<Rightarrow> 2 | Fatal \<Rightarrow> 3)"

(* @src crates/tex-bibtex/src/engine.rs:489-492 run *)
definition log_banner :: "bytes \<Rightarrow> engine \<Rightarrow> engine" where
  "log_banner s e = (if verbose e then pr s e else log_pr s e)"

(* @src crates/tex-bibtex/src/engine.rs:487-495 run *)
definition start_run :: "bytes \<Rightarrow> bytes \<Rightarrow> nat \<Rightarrow> bool \<Rightarrow> engine" where
  "start_run version aux_file crossrefs verb =
     log_banner (''The top-level auxiliary file: '' @ aux_file @ [NL])
       (log_banner (''This is BibTeX, Version 0.99e (TeXres '' @ version @ '')'' @ [NL]) (engine_new crossrefs verb))"

(* @src crates/tex-bibtex/src/engine.rs:497-514 run *)
definition finish_run :: "bool \<Rightarrow> bytes \<Rightarrow> engine \<Rightarrow> run_output" where
  "finish_run written base e =
     (let e = (if read_performed e \<and> \<not> reading_completed e then
                 prln (bib_file_name (bib_name e)) (pr (''Aborted at line '' @ dec_nat (bib_line e) @ '' of file '') e)
               else e);
          e = (if written then e
               else
                 let e = prln (''I couldn'' @ [SQ] @ ''t open file name '' @ [BQ] @ base @ ''.bbl'' @ [SQ]) e
                 in e\<lparr>elog := mark_fatal (elog e)\<rparr>);
          l = print_history (elog e)
      in \<lparr>exit_status = history_status (history l), bbl_file = bbl e, blg_file = blg l, on_terminal = terminal l\<rparr>)"

definition no_output :: "nat \<Rightarrow> bytes \<Rightarrow> run_output" where
  "no_output st msg = \<lparr>exit_status = st, bbl_file = [], blg_file = [], on_terminal = msg\<rparr>"

text \<open>\<open>None\<close>: the run panics, or the fuel is used up.\<close>

(* @src crates/tex-bibtex/src/engine.rs fn run *)
definition bibtex_run :: "nat \<Rightarrow> file_lookup \<Rightarrow> (bytes \<Rightarrow> bytes option) \<Rightarrow> bool \<Rightarrow> bytes \<Rightarrow> bytes list \<Rightarrow> run_output option" where
  "bibtex_run n fs read_top written version args =
     (case parse_args args \<lparr>o_aux = None, o_crossrefs = 2, o_verbose = True\<rparr> of
        None \<Rightarrow> Some (no_output 1 [])
      | Some opts \<Rightarrow> (case o_aux opts of
          None \<Rightarrow> Some (no_output 1 [])
        | Some arg \<Rightarrow>
            let base = (if ends_with arg ''.aux'' then take (length arg - 4) arg else arg); aux_file = base @ ''.aux''
            in (case read_top aux_file of
                  None \<Rightarrow> Some (no_output 1 (''I couldn'' @ [SQ] @ ''t open file name '' @ [BQ] @ aux_file @ [SQ, NL]))
                | Some bs \<Rightarrow>
                    let (st, e) = run_job n fs aux_file bs (start_run version aux_file (o_crossrefs opts) (o_verbose opts))
                    in if st \<in> {StylePanic, StyleFuel} then None else Some (finish_run written base e))))"

end
