(* ===== verification/BtRunSafe.thy ===== *)
theory BtRunSafe
  imports BtReadSafe BtFormat BtMain
begin

text \<open>
  No run of BibTeX panics but for two: a \<open>format.name$\<close> with a name number that is not positive, and an \<open>ITERATE\<close>
  after a \<open>READ\<close> that came before \<open>ENTRY\<close>.  The invariant of the run goes through the aux files, the style and the
  database; the locale \<open>quiet_style\<close> is the contract of the functions of the style reader that only scan.
\<close>

subsection \<open>The invariant\<close>

definition fns_fit :: "engine \<Rightarrow> bool" where
  "fns_fit e \<longleftrightarrow> (\<forall>n f. fn_map e n = Some f \<longrightarrow> f < length (fns e)) \<and> list_all (kind_ok (core e) \<circ> kind) (fns e)"

lemma fns_fit_cong:
  assumes "fns e' = fns e" "fn_map e' = fn_map e" "num_fields e' = num_fields e" "num_ent_ints e' = num_ent_ints e"
    "num_ent_strs e' = num_ent_strs e" "length (glb_ints e') = length (glb_ints e)" "length (glb_strs e') = length (glb_strs e)"
  shows "fns_fit e' = fns_fit e"
proof -
  have "kind_ok (core e') = kind_ok (core e)" using assms by (intro ext kind_ok_cong) (simp_all add: core_def)
  then show ?thesis using assms by (simp add: fns_fit_def)
qed

lemma fns_fit_seen [simp]: "fns_fit (e\<lparr>entry_seen := b\<rparr>) = fns_fit e" "fns_fit (e\<lparr>read_seen := b\<rparr>) = fns_fit e"
  "fns_fit (e\<lparr>b_default := f\<rparr>) = fns_fit e" "fns_fit (e\<lparr>impl_fn_num := n\<rparr>) = fns_fit e" "fns_fit (e\<lparr>sorted_cites := s\<rparr>) = fns_fit e"
  by (rule fns_fit_cong; simp)+

text \<open>Before \<open>READ\<close> the cite list is that of the aux files; a \<open>READ\<close> that fails leaves no entries.\<close>

definition run_ok :: "engine \<Rightarrow> bool" where
  "run_ok e \<longleftrightarrow> fns_fit e \<and> crossref_num e < num_fields e \<and> sort_key_num e < num_ent_strs e \<and> b_default e < length (fns e) \<and>
     (if reading_completed e then read_seen e \<and> entry_seen e \<and> entries_ok e
      else sorted_cites e = [] \<and> type_list e = [] \<and> (read_seen e \<or> cites_ok e \<and> num_cites e = length (cite_list e)))"

definition run_view :: "engine \<Rightarrow> engine" where
  "run_view e = e\<lparr>elog := log_new, bst_line := 0, macros := Map.empty\<rparr>"

lemma run_view_simps [simp]:
  "run_view (e\<lparr>elog := l\<rparr>) = run_view e" "run_view (e\<lparr>bst_line := n\<rparr>) = run_view e" "run_view (e\<lparr>macros := m\<rparr>) = run_view e"
  by (simp_all add: run_view_def)

lemma run_view_messages [simp]:
  "run_view (pr s e) = run_view e" "run_view (prln s e) = run_view e" "run_view (warn e) = run_view e" "run_view (err e) = run_view e"
  "run_view (log_pr s e) = run_view e" "run_view (print_bad_input_line sc e) = run_view e" "run_view (bst_ln_num_print e) = run_view e"
  by (simp_all add: pr_def prln_def warn_def err_def log_pr_def print_bad_input_line_def bst_ln_num_print_def)

lemma run_ok_view: "run_view e = run_view e' \<Longrightarrow> run_ok e = run_ok e'"
proof -
  have v: "run_ok (run_view e) = run_ok e" for e
    by (simp add: run_ok_def run_view_def fns_fit_def entries_ok_def cites_ok_def core_def)
  show "run_view e = run_view e' \<Longrightarrow> run_ok e = run_ok e'" using v [of e] v [of e'] by simp
qed

lemma unrelated [simp]:
  "entries_ok (e\<lparr>b_default := f\<rparr>) = entries_ok e" "cites_ok (e\<lparr>b_default := f\<rparr>) = cites_ok e"
  "entries_ok (e\<lparr>impl_fn_num := n\<rparr>) = entries_ok e" "cites_ok (e\<lparr>impl_fn_num := n\<rparr>) = cites_ok e"
  "entries_ok (e\<lparr>read_seen := b\<rparr>) = entries_ok e" "cites_ok (e\<lparr>read_seen := b\<rparr>) = cites_ok e"
  "entries_ok (e\<lparr>entry_seen := b\<rparr>) = entries_ok e" "cites_ok (e\<lparr>entry_seen := b\<rparr>) = cites_ok e"
  by (simp_all add: entries_ok_def cites_ok_def)

text \<open>The two panics.\<close>

definition name_panic :: "engine \<Rightarrow> bool" where
  "name_panic e \<longleftrightarrow> (\<exists>f w l rest. stack e = LStr f # LInt w # LStr l # rest \<and> w \<le> 0 \<and> l \<noteq> [])"

definition early_read_panic :: "engine \<Rightarrow> bool" where
  "early_read_panic e \<longleftrightarrow> read_seen e \<and> \<not> reading_completed e \<and> sorted_cites e = [] \<and> num_cites e \<noteq> 0"

lemma format_panics_name: "format_panics e = name_panic e"
  by (simp add: format_panics_def name_panic_def format_name_none)

subsection \<open>What a command of the style leaves\<close>

definition sound :: "(engine \<Rightarrow> bool) \<Rightarrow> style_result \<Rightarrow> bool" where
  "sound P res \<longleftrightarrow> (case res of (st, sc, e) \<Rightarrow>
     (st = StylePanic \<longrightarrow> name_panic e \<or> early_read_panic e) \<and> (st \<in> {Go, SkipCommand} \<longrightarrow> P e))"

lemma sound_simp [simp]:
  "sound P (st, sc, e) \<longleftrightarrow> (st = StylePanic \<longrightarrow> name_panic e \<or> early_read_panic e) \<and> (st \<in> {Go, SkipCommand} \<longrightarrow> P e)"
  by (simp add: sound_def)

lemma sound_go:
  assumes "sound Q r" "\<And>sc e. r = (Go, sc, e) \<Longrightarrow> Q e \<Longrightarrow> sound P (f sc e)" "\<And>e. Q e \<Longrightarrow> P e"
  shows "sound P (and_go r f)"
  using assms by (auto simp: sound_def and_go_def split: prod.splits)

lemma sound_mono: "sound Q r \<Longrightarrow> (\<And>e. Q e \<Longrightarrow> P e) \<Longrightarrow> sound P r"
  by (auto simp: sound_def)

locale quiet_style =
  fixes P :: "engine \<Rightarrow> bool"
  assumes same_view: "run_view e = run_view e' \<Longrightarrow> P e = P e'"
begin

lemma keep: "P e \<Longrightarrow> run_view e' = run_view e \<Longrightarrow> P e'"
  using same_view by blast

lemma go: "sound P r \<Longrightarrow> (\<And>sc e. r = (Go, sc, e) \<Longrightarrow> P e \<Longrightarrow> sound P (f sc e)) \<Longrightarrow> sound P (and_go r f)"
  by (rule sound_go)

lemma look_sound: "P e \<Longrightarrow> sound P (bst_err_print_and_look_for_blank_line sc e)"
proof -
  assume p: "P e"
  have "st = SkipCommand \<or> st = StyleEnd" if "to_blank_line sc = (st, sc')" for st sc sc'
    using that by (induction sc rule: to_blank_line.induct) (subst (asm) (2) to_blank_line.simps, auto split: if_splits prod.splits)
  moreover have "P (print_bad_input_line sc (bst_ln_num_print (pr s e)))" for s using p by (rule keep) simp
  ultimately show ?thesis by (fastforce simp: bst_err_print_and_look_for_blank_line_def Let_def split: prod.split)
qed

lemma err_sound: "P e \<Longrightarrow> sound P (bst_err msg sc e)"
  unfolding bst_err_def by (rule look_sound) (erule keep, simp)

lemma white_keeps: "eat_bst_white sc e = (ok, sc', e') \<Longrightarrow> run_view e' = run_view e"
proof (induction sc e rule: eat_bst_white.induct)
  case (1 sc e)
  show ?case using 1(2) 1(1) by (subst (asm) eat_bst_white.simps) (auto simp: Let_def split: if_splits prod.splits)
qed

lemma check_sound: "P e \<Longrightarrow> sound P (eat_bst_white_check cmd sc e)"
proof -
  assume p: "P e"
  obtain ok sc' e' where w: "eat_bst_white sc e = (ok, sc', e')" by (metis prod_cases3)
  have "P e'" using p white_keeps [OF w] by (rule keep)
  moreover from this have "P (pr s e')" for s by (rule keep) simp
  ultimately show ?thesis by (simp add: eat_bst_white_check_def w err_sound)
qed

lemma identifier_sound: "P e \<Longrightarrow> sound P (bst_identifier_scan cmd sc e)"
  by (auto simp: bst_identifier_scan_def Let_def split: prod.split id_scan.split intro!: err_sound)

lemma brace_sound: "P e \<Longrightarrow> sound P (bst_left_brace cmd sc e)" "P e \<Longrightarrow> sound P (bst_right_brace cmd sc e)"
proof -
  have "P e \<Longrightarrow> sound P (bst_brace c cmd sc e)" for c
    by (auto simp: bst_brace_def intro!: err_sound elim: keep)
  then show "P e \<Longrightarrow> sound P (bst_left_brace cmd sc e)" "P e \<Longrightarrow> sound P (bst_right_brace cmd sc e)"
    by (simp_all add: bst_left_brace_def bst_right_brace_def)
qed

end

interpretation going: quiet_style run_ok
  using run_ok_view by unfold_locales

subsection \<open>New functions\<close>

text \<open>What may grow: functions, fields, variables.\<close>

lemma kind_ok_mono:
  assumes "kind_ok c k" "length (c_fns c) \<le> length (c_fns c')" "c_nf c \<le> c_nf c'" "c_ni c \<le> c_ni c'" "c_ns c \<le> c_ns c'"
    "c_gints c \<le> c_gints c'" "c_gstrs c \<le> c_gstrs c'"
  shows "kind_ok c' k"
  using assms by (cases k) (auto simp: kind_ok_def list_all_iff op_ok_def split: op.splits dest!: bspec)

lemma fns_fit_define:
  assumes "fns_fit e" "core e' = (core e)\<lparr>c_fns := fns e @ [\<lparr>fn_name = name, kind = k\<rparr>], c_map := (fn_map e)(name \<mapsto> length (fns e)),
      c_nf := nf, c_ni := ni, c_ns := ns, c_gints := gi, c_gstrs := gs, c_default := b, c_keys := ks\<rparr>"
    "num_fields e \<le> nf" "num_ent_ints e \<le> ni" "num_ent_strs e \<le> ns" "length (glb_ints e) \<le> gi" "length (glb_strs e) \<le> gs"
    "kind_ok (core e') k"
  shows "fns_fit e'"
proof -
  have f: "fns e' = fns e @ [\<lparr>fn_name = name, kind = k\<rparr>]" "fn_map e' = (fn_map e)(name \<mapsto> length (fns e))"
    using assms(2) [THEN arg_cong, of c_fns] assms(2) [THEN arg_cong, of c_map] by (simp_all add: core_def)
  have "kind_ok (core e') x" if "kind_ok (core e) x" for x
    by (rule kind_ok_mono [OF that]) (use assms in \<open>simp_all add: core_def [of e]\<close>)
  then have "list_all (kind_ok (core e') \<circ> kind) (fns e)" using assms(1) by (simp add: fns_fit_def list_all_iff)
  then show ?thesis using assms(1,8) f by (auto simp: fns_fit_def split: if_splits dest: less_SucI)
qed

lemma types_grow: "list_all (entry_type_ok n) ts \<Longrightarrow> n \<le> m \<Longrightarrow> list_all (entry_type_ok m) ts"
  by (auto simp: list_all_iff entry_type_ok_def split: entry_type.splits dest!: bspec)

lemma define_snd: "snd (define_fn name k e) = e\<lparr>fns := fns e @ [\<lparr>fn_name = name, kind = k\<rparr>], fn_map := (fn_map e)(name \<mapsto> length (fns e))\<rparr>"
  by (simp add: define_fn_def Let_def)

lemma define_ok:
  assumes "run_ok e" "kind_ok (core (snd (define_fn name k e))) k"
  shows "run_ok (snd (define_fn name k e))"
proof -
  let ?e = "snd (define_fn name k e)"
  have "fns_fit ?e"
    by (rule fns_fit_define [where e = e and k = k and name = name and nf = "num_fields e" and ni = "num_ent_ints e" and ns = "num_ent_strs e"
          and gi = "length (glb_ints e)" and gs = "length (glb_strs e)" and b = "b_default e" and ks = "(crossref_num e, sort_key_num e)"])
      (use assms in \<open>simp_all add: run_ok_def define_snd core_def\<close>)
  moreover have "entries_ok e \<Longrightarrow> entries_ok ?e" by (auto simp: entries_ok_def define_snd Let_def elim: types_grow)
  ultimately show ?thesis using assms(1) by (auto simp: run_ok_def define_snd cites_ok_def)
qed

definition entry_list :: "list_kind \<Rightarrow> bool" where
  "entry_list k \<longleftrightarrow> k \<in> {LkField, LkIntEntry, LkStrEntry}"

lemma count_ok:
  assumes "run_ok e" "entry_list k \<longrightarrow> \<not> reading_completed e"
  shows "run_ok (count_name k (snd (define_fn name (list_fn_kind k e) e)))"
proof -
  let ?e = "count_name k (snd (define_fn name (list_fn_kind k e) e))"
  have fit: "fns_fit e" using assms(1) by (simp add: run_ok_def)
  have "fns_fit ?e"
    by (rule fns_fit_define [where e = e and k = "list_fn_kind k e" and name = name and nf = "num_fields ?e" and ni = "num_ent_ints ?e"
          and ns = "num_ent_strs ?e" and gi = "length (glb_ints ?e)" and gs = "length (glb_strs ?e)" and b = "b_default e"
          and ks = "(crossref_num e, sort_key_num e)"])
      (rule fit, (cases k; simp add: define_snd core_def count_name_def list_fn_kind_def kind_ok_def)+)
  moreover have "entries_ok e \<Longrightarrow> reading_completed e \<Longrightarrow> entries_ok ?e"
    using assms(2) by (cases k) (auto simp: entries_ok_def define_snd count_name_def entry_list_def Let_def elim: types_grow)
  moreover have "reading_completed ?e = reading_completed e" "sorted_cites ?e = sorted_cites e" "type_list ?e = type_list e"
    "cites_ok ?e = cites_ok e" "cite_list ?e = cite_list e" "num_cites ?e = num_cites e" "read_seen ?e = read_seen e"
    "entry_seen ?e = entry_seen e" "crossref_num ?e = crossref_num e" "sort_key_num ?e = sort_key_num e" "b_default ?e = b_default e"
    "num_fields e \<le> num_fields ?e" "num_ent_strs e \<le> num_ent_strs ?e" "length (fns e) \<le> length (fns ?e)"
    by (cases k; simp add: define_snd count_name_def cites_ok_def)+
  ultimately show ?thesis using assms(1) by (auto simp: run_ok_def)
qed

lemma and_go_assoc: "and_go (and_go a f) g = and_go a (\<lambda>sc e. and_go (f sc e) g)"
  by (auto simp: and_go_def split: prod.split)

text \<open>A new function is defined, or its name is taken.\<close>

lemma insert_cases:
  "(\<exists>m sc' e'. run_view e' = run_view e \<and> insert_new_fn k sc e = (the (fn_map e m), bst_err_print_and_look_for_blank_line sc' e')) \<or>
   (\<exists>m. insert_new_fn k sc e = (length (fns e), Go, lower_case_token sc, snd (define_fn m k e)))"
proof (cases "fn_map e (token (lower_case_token sc))")
  case None
  then have "insert_new_fn k sc e = (length (fns e), Go, lower_case_token sc, snd (define_fn (token (lower_case_token sc)) k e))"
    by (simp add: insert_new_fn_def Let_def define_fn_def)
  then show ?thesis by blast
next
  case (Some f)
  let ?e = "prln ([DQ] @ '' function name'') (pr (fn_name (fns e ! f) @ '' is already a type '' @ [DQ] @ fn_class_name (kind (fns e ! f))) e)"
  have "insert_new_fn k sc e = (the (fn_map e (token (lower_case_token sc))), bst_err_print_and_look_for_blank_line (lower_case_token sc) ?e)"
    using Some by (simp add: insert_new_fn_def Let_def)
  moreover have "run_view ?e = run_view e" by simp
  ultimately show ?thesis by blast
qed

definition list_inv :: "list_kind \<Rightarrow> engine \<Rightarrow> bool" where
  "list_inv k e \<longleftrightarrow> run_ok e \<and> (entry_list k \<longrightarrow> \<not> reading_completed e)"

lemma run_view_selectors:
  assumes "run_view e = run_view e'"
  shows "reading_completed e = reading_completed e'" "fns e = fns e'" "fn_map e = fn_map e'"
  using assms [THEN arg_cong, of reading_completed] assms [THEN arg_cong, of fns] assms [THEN arg_cong, of fn_map]
  by (simp_all add: run_view_def)

lemma list_inv_view: "run_view e = run_view e' \<Longrightarrow> list_inv k e = list_inv k e'"
proof -
  assume v: "run_view e = run_view e'"
  show ?thesis unfolding list_inv_def run_ok_view [OF v] run_view_selectors [OF v] ..
qed

interpretation listing: quiet_style "list_inv k" for k
  using list_inv_view by unfold_locales

lemma list_item_sound: "list_inv k e \<Longrightarrow> sound (list_inv k) (list_item k cmd sc e)"
  unfolding list_item_def and_go_assoc
proof (rule listing.go [OF listing.identifier_sound])
  fix sc1 e1
  assume i: "list_inv k e1"
  let ?r = "snd (insert_new_fn (list_fn_kind k e1) sc1 e1)"
  consider (taken) sc' e' where "run_view e' = run_view e1" "?r = bst_err_print_and_look_for_blank_line sc' e'"
    | (new) m where "?r = (Go, lower_case_token sc1, snd (define_fn m (list_fn_kind k e1) e1))"
    using insert_cases [of e1 "list_fn_kind k e1" sc1] by auto
  then show "sound (list_inv k) (and_go ?r (\<lambda>sc e. eat_bst_white_check cmd sc (count_name k e)))"
  proof cases
    case taken
    have "sound (list_inv k) ?r" unfolding taken using listing.keep [OF i] taken by (intro listing.look_sound) simp
    then show ?thesis unfolding taken by (rule listing.go) simp
  next
    case new
    have "list_inv k (count_name k (snd (define_fn m (list_fn_kind k e1) e1)))"
      using i count_ok [of e1 k m] by (auto simp: list_inv_def define_snd count_name_def split: list_kind.split)
    then show ?thesis unfolding new by (simp add: listing.check_sound)
  qed
qed

lemma name_list_sound: "list_inv k e \<Longrightarrow> sound (list_inv k) (name_list_loop k cmd sc e)"
proof (induction k cmd sc e rule: name_list_loop.induct)
  case (1 k cmd sc e)
  show ?case
  proof (cases "scan_char sc = CHR ''}''")
    case True
    then show ?thesis using 1(2) by (subst name_list_loop.simps) simp
  next
    case False
    then show ?thesis
      by (subst name_list_loop.simps) (simp add: listing.go [OF list_item_sound [OF 1(2)] 1(1) [OF False]])
  qed
qed

lemma names_sound: "list_inv k e \<Longrightarrow> sound (list_inv k) (bst_name_list k cmd sc e)"
  unfolding bst_name_list_def by (intro listing.go listing.brace_sound listing.check_sound name_list_sound)

lemma list_command_sound: "run_ok e \<Longrightarrow> \<not> entry_list k \<Longrightarrow> sound run_ok (bst_list_command k cmd sc e)"
  unfolding bst_list_command_def
  by (rule sound_mono [of "list_inv k"]) (auto simp: list_inv_def intro!: listing.go listing.check_sound names_sound)

lemma entry_list_inv: "entry_list k \<Longrightarrow> list_inv k = list_inv LkField"
  by (auto simp: list_inv_def entry_list_def fun_eq_iff)

lemma entry_sound: "run_ok e \<Longrightarrow> sound run_ok (bst_entry sc e)"
proof (cases "entry_seen e")
  case True
  assume "run_ok e"
  then show ?thesis using True by (simp add: bst_entry_def going.err_sound)
next
  case False
  assume ok: "run_ok e"
  then have i: "list_inv LkField (e\<lparr>entry_seen := True\<rparr>)"
    using False by (auto simp: run_ok_def list_inv_def entry_list_def cites_ok_def entries_ok_def split: if_splits)
  have w: "list_inv LkField (warn_no_fields d)" if "list_inv LkField d" for d
    using that by (rule listing.keep) (simp add: warn_no_fields_def)
  have n: "sound (list_inv LkField) (bst_name_list k ''entry'' sc d)" if "entry_list k" "list_inv LkField d" for k sc d
    using names_sound [of k d] that by (simp add: entry_list_inv)
  have "sound (list_inv LkField) (bst_entry sc e)"
    unfolding bst_entry_def Let_def using False i w n
    by (simp, intro listing.go listing.check_sound) (simp_all add: entry_list_def)
  then show ?thesis by (rule sound_mono) (simp add: list_inv_def)
qed

subsection \<open>Function definitions\<close>

text \<open>The numbers of the functions only grow.\<close>

definition grown :: "nat \<Rightarrow> engine \<Rightarrow> bool" where
  "grown m e \<longleftrightarrow> run_ok e \<and> m \<le> length (fns e)"

lemma grown_view: "run_view e = run_view e' \<Longrightarrow> grown m e = grown m e'"
proof -
  assume v: "run_view e = run_view e'"
  show ?thesis unfolding grown_def run_ok_view [OF v] run_view_selectors [OF v] ..
qed

interpretation growing: quiet_style "grown m" for m
  using grown_view by unfold_locales

lemma skip_token_view [simp]: "run_view (snd (skip_token sc e)) = run_view e"
  by (simp add: skip_token_def)

lemma bad_literal_view [simp]: "run_view (snd (snd (bad_after_literal sc e))) = run_view e"
  by (simp add: bad_after_literal_def Let_def)

lemma literal_op_view: "run_view (snd (snd (literal_op p sc e))) = run_view e" "set (fst (literal_op p sc e)) \<subseteq> {p}"
proof -
  obtain b sc1 e1 where b: "bad_after_literal sc e = (b, sc1, e1)" by (metis prod_cases3)
  have "run_view e1 = run_view e" using bad_literal_view [of sc e] unfolding b by simp
  then show "run_view (snd (snd (literal_op p sc e))) = run_view e" "set (fst (literal_op p sc e)) \<subseteq> {p}"
    by (auto simp: literal_op_def b)
qed

lemma unknown_view:
  "run_view (snd (snd (skip_unknown_or_recursive f wiz sc e))) = run_view e"
  "fst (skip_unknown_or_recursive f wiz sc e) = Some g \<Longrightarrow> f = Some g"
  by (auto simp: skip_unknown_or_recursive_def Let_def split: option.splits if_splits)

lemma function_op_view:
  "run_view (snd (snd (function_op q wiz sc e))) = run_view e"
  "p \<in> set (fst (function_op q wiz sc e)) \<Longrightarrow> \<exists>g n. fn_map e n = Some g \<and> p = q g"
proof -
  let ?sc = "lower_case_token (snd (scan2_white (CHR ''}'') (CHR ''%'') sc))"
  obtain f sc1 e1 where u: "skip_unknown_or_recursive (fn_map e (token ?sc)) wiz ?sc e = (f, sc1, e1)" by (metis prod_cases3)
  have eq: "function_op q wiz sc e = (case f of Some g \<Rightarrow> [q g] | None \<Rightarrow> [], sc1, e1)"
    unfolding function_op_def Let_def u by simp
  note v = unknown_view [of "fn_map e (token ?sc)" wiz ?sc e, unfolded u]
  show "run_view (snd (snd (function_op q wiz sc e))) = run_view e" using v(1) by (simp add: eq)
  show "p \<in> set (fst (function_op q wiz sc e)) \<Longrightarrow> \<exists>g n. fn_map e n = Some g \<and> p = q g"
    using v(2) by (auto simp: eq split: option.splits)
qed

lemma scan_op_ok:
  assumes "scan_op wiz sc e = (p, sc', e')" "run_ok e"
  shows "run_view e' = run_view e" "list_all (op_ok (length (fns e))) p"
proof -
  have m: "fn_map e n = Some g \<Longrightarrow> g < length (fns e)" for n g using assms(2) by (auto simp: run_ok_def fns_fit_def)
  let ?good = "\<lambda>r. run_view (snd (snd r)) = run_view e \<and> list_all (op_ok (length (fns e))) (fst r)"
  have f: "?good (function_op OpQuote wiz sc1 e)" "?good (function_op OpCall wiz sc1 e)" for sc1
    using function_op_view(1) m
    by (auto simp: list_all_iff op_ok_def dest!: function_op_view(2))
  have l: "?good (literal_op q sc1 e)" if "op_ok (length (fns e)) q" for q sc1
    using literal_op_view [where p = q and sc = sc1 and e = e] that by (auto simp: list_all_iff)
  have i: "?good (literal_op (OpInt v) sc1 e)" "?good (literal_op (OpStr t) sc1 e)" for v t sc1
    by (intro l, simp add: op_ok_def)+
  have k: "?good ([], skip_token sc1 (pr t e))" for sc1 t by simp
  have "?good (scan_op wiz sc e)"
  proof -
    obtain v sci where v: "scan_integer (bst_bump sc) = (v, sci)" by fastforce
    obtain found scs where t: "scan1 DQ (bst_bump sc) = (found, scs)" by fastforce
    show ?thesis unfolding scan_op_def Let_def v t split_conv using f i k by (cases v) (simp_all only: option.case split: if_split, blast+)
  qed
  then show "run_view e' = run_view e" "list_all (op_ok (length (fns e))) p" using assms(1) by simp_all
qed

lemma ops_mono: "list_all (op_ok m) ops \<Longrightarrow> m \<le> k \<Longrightarrow> list_all (op_ok k) ops"
  by (auto simp: list_all_iff op_ok_def split: op.splits dest!: bspec)

text \<open>A finished body takes its place.\<close>

lemma body_ok:
  assumes "run_ok e" "wiz < length (fns e)" "list_all (op_ok (length (fns e))) ops"
  shows "run_ok (e\<lparr>fns := (fns e)[wiz := (fns e ! wiz)\<lparr>kind := Wiz ops\<rparr>]\<rparr>)"
proof -
  let ?e = "e\<lparr>fns := (fns e)[wiz := (fns e ! wiz)\<lparr>kind := Wiz ops\<rparr>]\<rparr>"
  have k: "kind_ok (core ?e) = kind_ok (core e)" by (intro ext kind_ok_cong) (simp_all add: core_def)
  have "kind_ok (core e) (Wiz ops)" using assms(3) by (simp add: kind_ok_def core_def)
  then have "fns_fit ?e" using assms(1) unfolding fns_fit_def k
    by (auto simp: run_ok_def fns_fit_def list_all_iff dest!: set_update_subset_insert [THEN subsetD])
  then show ?thesis using assms(1) by (auto simp: run_ok_def cites_ok_def entries_ok_def Let_def)
qed

lemma body_sound:
  "grown m e \<Longrightarrow> wiz < m \<Longrightarrow> list_all (op_ok m) ops \<Longrightarrow> sound (grown m) (scan_body n wiz ops sc e)"
proof (induction n arbitrary: m wiz ops sc e)
  case 0
  then show ?case by simp
next
  case (Suc n)
  have r: "run_ok e" "m \<le> length (fns e)" using Suc.prems(1) by (simp_all add: grown_def)
  let ?white = "eat_bst_white_check ''function''"
  consider (close_brace) "scan_char sc = CHR ''}''" | (open_brace) "scan_char sc = CHR ''{''"
    | (op) "scan_char sc \<noteq> CHR ''}''" "scan_char sc \<noteq> CHR ''{''" by blast
  then show ?case
  proof cases
    case close_brace
    have "run_ok (e\<lparr>fns := (fns e)[wiz := (fns e ! wiz)\<lparr>kind := Wiz ops\<rparr>]\<rparr>)"
      using r Suc.prems ops_mono [OF Suc.prems(3) r(2)] by (intro body_ok) simp_all
    then show ?thesis using close_brace r(2) by (subst scan_body.simps(2)) (simp add: Let_def grown_def)
  next
    case open_brace
    let ?f = "length (fns e)" and ?name = "SQ # dec_nat (impl_fn_num e)"
    let ?d = "snd (define_fn ?name (Wiz []) (e\<lparr>impl_fn_num := impl_fn_num e + 1\<rparr>))"
    have i: "run_ok (e\<lparr>impl_fn_num := k\<rparr>)" for k using r(1) by (auto simp: run_ok_def)
    have "run_ok ?d" by (rule define_ok [OF i]) (simp add: kind_ok_def)
    then have d: "grown (?f + 1) ?d" by (simp add: grown_def define_snd)
    have eq: "scan_body (Suc n) wiz ops sc e =
        and_go (and_go (and_go (?white (bst_bump sc) ?d) (scan_body n ?f [])) ?white) (scan_body n wiz (ops @ [OpQuote ?f]))"
      using open_brace by (subst scan_body.simps(2)) (simp add: Let_def define_fn_def)
    have "sound (grown (?f + 1)) (and_go (and_go (?white (bst_bump sc) ?d) (scan_body n ?f [])) ?white)"
      using d by (intro growing.go growing.check_sound Suc.IH) simp_all
    then have "sound (grown (?f + 1)) (scan_body (Suc n) wiz ops sc e)"
      unfolding eq
    proof (rule growing.go)
      show "sound (grown (?f + 1)) (scan_body n wiz (ops @ [OpQuote ?f]) sc1 e1)" if "grown (?f + 1) e1" for sc1 e1
        using that Suc.prems(2) r(2) ops_mono [OF Suc.prems(3), of "?f + 1"]
        by (intro Suc.IH) (simp_all add: op_ok_def [of _ "OpQuote (length (fns e))"])
    qed
    then show ?thesis by (rule sound_mono) (use r(2) in \<open>simp add: grown_def\<close>)
  next
    case op
    obtain p sc1 e1 where o: "scan_op wiz sc e = (p, sc1, e1)" by (metis prod_cases3)
    note v = scan_op_ok [OF o r(1)]
    let ?m = "length (fns e)"
    have g: "grown ?m e1" using r(1) by (intro growing.keep [OF _ v(1)]) (simp add: grown_def)
    have eq: "scan_body (Suc n) wiz ops sc e = and_go (?white sc1 e1) (scan_body n wiz (ops @ p))"
      using op o by (subst scan_body.simps(2)) (simp add: Let_def)
    have "sound (grown ?m) (scan_body (Suc n) wiz ops sc e)" unfolding eq
    proof (rule growing.go [OF growing.check_sound [OF g]])
      show "sound (grown ?m) (scan_body n wiz (ops @ p) sc2 e2)" if "grown ?m e2" for sc2 e2
        using that Suc.prems(2) r(2) ops_mono [OF Suc.prems(3) r(2)] v(2) by (intro Suc.IH) simp_all
    qed
    then show ?thesis by (rule sound_mono) (use r(2) in \<open>simp add: grown_def\<close>)
  qed
qed

lemma default_ok: "grown m e \<Longrightarrow> wiz < m \<Longrightarrow> grown m (e\<lparr>b_default := wiz\<rparr>)"
  by (auto simp: grown_def run_ok_def)

lemma define_sound: "run_ok e \<Longrightarrow> sound run_ok (define_named n sc e)"
proof -
  assume r: "run_ok e"
  let ?white = "eat_bst_white_check ''function''"
  consider (taken) m sc' e' where "run_view e' = run_view e" "insert_new_fn (Wiz []) sc e = (the (fn_map e m), bst_err_print_and_look_for_blank_line sc' e')"
    | (new) m where "insert_new_fn (Wiz []) sc e = (length (fns e), Go, lower_case_token sc, snd (define_fn m (Wiz []) e))"
    using insert_cases [of e "Wiz []" sc] by auto
  then show ?thesis
  proof cases
    case taken
    have l: "sound run_ok (bst_err_print_and_look_for_blank_line sc' e')" using going.keep [OF r taken(1)] by (rule going.look_sound)
    obtain st sc2 e2 where e: "bst_err_print_and_look_for_blank_line sc' e' = (st, sc2, e2)" by (metis prod_cases3)
    then have "st \<noteq> Go" using bst_err_stops(2) by blast
    then show ?thesis using l by (simp add: define_named_def taken(2) e Let_def)
  next
    case new
    let ?f = "length (fns e)"
    have "run_ok (snd (define_fn m (Wiz []) e))" by (rule define_ok [OF r]) (simp add: kind_ok_def)
    then have d: "grown (?f + 1) (snd (define_fn m (Wiz []) e))" by (simp add: grown_def define_snd)
    have "grown (?f + 1) (if c then d\<lparr>b_default := ?f\<rparr> else d)" if "grown (?f + 1) d" for c d
      using default_ok [OF that] that by simp
    then have "sound (grown (?f + 1)) (define_named n sc e)"
      unfolding define_named_def Let_def new split_conv scan_fn_def_def using d
      by (intro growing.go growing.check_sound growing.brace_sound body_sound) simp_all
    then show ?thesis by (rule sound_mono) (simp add: grown_def)
  qed
qed

lemma function_sound: "run_ok e \<Longrightarrow> sound run_ok (bst_function n sc e)"
  unfolding bst_function_def Let_def by (intro going.go going.check_sound going.brace_sound going.identifier_sound define_sound)

lemma macro_sound: "run_ok e \<Longrightarrow> sound run_ok (bst_macro sc e)"
proof -
  have k: "run_ok d \<Longrightarrow> run_ok (d\<lparr>macros := m\<rparr>)" for d m by (erule going.keep) simp
  have v: "run_ok d \<Longrightarrow> sound run_ok (macro_value name sc d)" for name sc d
    by (auto simp: macro_value_def Let_def split: prod.split intro!: going.err_sound going.go going.check_sound going.brace_sound k)
  have n: "run_ok d \<Longrightarrow> sound run_ok (macro_named sc d)" for sc d
    unfolding macro_named_def Let_def
    by (auto intro!: going.err_sound going.go going.check_sound going.brace_sound v k elim: going.keep)
  show "run_ok e \<Longrightarrow> sound run_ok (bst_macro sc e)"
    unfolding bst_macro_def Let_def
    by (auto intro!: going.err_sound going.go going.check_sound going.brace_sound going.identifier_sound n)
qed

subsection \<open>Commands that execute\<close>

definition visited :: "bool \<Rightarrow> nat \<Rightarrow> engine \<Rightarrow> core" where
  "visited m p e = (core e)\<lparr>c_mess := m, c_entry := p\<rparr>"

lemma core_selectors:
  assumes "core e' = visited m p e"
  shows "fns e' = fns e" "fn_map e' = fn_map e" "num_fields e' = num_fields e" "num_ent_ints e' = num_ent_ints e"
    "num_ent_strs e' = num_ent_strs e" "length (glb_ints e') = length (glb_ints e)" "length (glb_strs e') = length (glb_strs e)"
    "crossref_num e' = crossref_num e" "sort_key_num e' = sort_key_num e" "b_default e' = b_default e"
    "reading_completed e' = reading_completed e" "read_seen e' = read_seen e" "entry_seen e' = entry_seen e"
    "sorted_cites e' = sorted_cites e" "type_list e' = type_list e" "cite_list e' = cite_list e" "num_cites e' = num_cites e"
    "field_info e' = field_info e" "length (entry_ints e') = length (entry_ints e)" "length (entry_strs e') = length (entry_strs e)"
  using assms unfolding core_def visited_def by simp_all

lemma run_ok_visited: "run_ok e \<Longrightarrow> read_seen e \<Longrightarrow> core e' = visited m p e \<Longrightarrow> run_ok e'"
proof -
  assume r: "run_ok e" and s: "read_seen e" and c: "core e' = visited m p e"
  note c = core_selectors [OF c]
  have "fns_fit e' = fns_fit e" by (rule fns_fit_cong) (fact c)+
  moreover have "entries_ok e' = entries_ok e" by (simp add: entries_ok_def c)
  ultimately show ?thesis using r s c by (simp add: run_ok_def split: if_splits)
qed

lemma run_ok_core:
  assumes "run_ok e"
  shows "core_ok ((core e)\<lparr>c_mess := False\<rparr>)" "reading_completed e \<Longrightarrow> visits_ok ((core e)\<lparr>c_mess := True\<rparr>)"
proof -
  have k: "kind_ok (c\<lparr>c_mess := m, c_entry := p\<rparr>) = kind_ok c" "kind_ok (c\<lparr>c_mess := m\<rparr>) = kind_ok c" for c m p
    by (intro ext kind_ok_cong; simp)+
  have r: "list_all (kind_ok (core e) \<circ> kind) (fns e)" "b_default e < length (fns e)" using assms by (simp_all add: run_ok_def fns_fit_def)
  have t: "list_all (entry_type_ok (length (fns e))) (type_list e)" using assms by (auto simp: run_ok_def entries_ok_def Let_def split: if_splits)
  show "core_ok ((core e)\<lparr>c_mess := False\<rparr>)" unfolding core_ok_def k using r t by (simp add: core_def [of e] comp_def)
  assume "reading_completed e"
  then have n: "entries_ok e" using assms by (simp add: run_ok_def)
  have "core_ok ((core e)\<lparr>c_mess := True, c_entry := p\<rparr>)" if "p < num_cites e" for p
  proof -
    have "(p + 1) * k \<le> num_cites e * k" for k using that by (intro mult_le_mono1) simp
    then have "entry_ok ((core e)\<lparr>c_mess := True, c_entry := p\<rparr>)" using n that by (simp add: entry_ok_def entries_ok_def Let_def core_def)
    then show ?thesis unfolding core_ok_def k using r t by (simp add: core_def [of e] comp_def)
  qed
  then show "visits_ok ((core e)\<lparr>c_mess := True\<rparr>)" using n by (auto simp: visits_ok_def entries_ok_def Let_def core_def [of e] subset_iff)
qed

lemma obey_outcome:
  assumes r: "run_ok e" "read_seen e" and f: "f < length (fns e)"
  shows "case obey n cmd f e of Returned d \<Rightarrow> run_ok d | Panicked d \<Rightarrow> name_panic d \<or> early_read_panic d | Unfinished \<Rightarrow> True"
proof (cases "cmd = ''execute''")
  case True
  have "(core e)\<lparr>c_mess := False\<rparr> = visited False (cite_ptr e) e" by (simp add: visited_def core_def)
  then show ?thesis
    using execute_good [OF run_ok_core(1) [OF r(1)] f, of n] True run_ok_visited [OF r]
    by (auto simp: obey_def good_def ok_at_def format_panics_name split: outcome.splits)
next
  case False
  then have "\<exists>b. obey n cmd f e = cmd_iterate n f b e" by (auto simp: obey_def)
  then obtain b where o: "obey n cmd f e = cmd_iterate n f b e" by blast
  show ?thesis
  proof (cases "reading_completed e")
    case True
    have "num_cites e \<le> length (sorted_cites e)" using r(1) True by (simp add: run_ok_def entries_ok_def Let_def)
    then have "near ((core e)\<lparr>c_mess := True\<rparr>) (cmd_iterate n f b e)" using iterates_good run_ok_core(2) r(1) True f by blast
    moreover have "(core e)\<lparr>c_mess := True, c_entry := p\<rparr> = visited True p e" for p by (simp add: visited_def)
    ultimately show ?thesis using run_ok_visited [OF r]
      by (auto simp: o near_def ok_at_def format_panics_name split: outcome.splits)
  next
    case c: False
    let ?e = "e\<lparr>stack := [], mess_with_entries := True\<rparr>"
    have s: "sorted_cites e = []" using r c by (simp add: run_ok_def)
    show ?thesis
    proof (cases "num_cites e = 0")
      case True
      then have "cmd_iterate n f b e = Returned ?e" by (simp add: cmd_iterate_def)
      moreover have "run_ok ?e" using r by (rule run_ok_visited [where m = True and p = "cite_ptr e"]) (simp add: core_def visited_def)
      ultimately show ?thesis by (simp add: o)
    next
      case False
      then obtain k ks where "(let ks = [0..<num_cites e] in if b then rev ks else ks) = k # ks"
        by (cases "let ks = [0..<num_cites e] in if b then rev ks else ks") (auto simp: Let_def split: if_splits)
      then have "cmd_iterate n f b e = Panicked ?e" using s by (simp add: cmd_iterate_def elem_at_def)
      then show ?thesis using r c s False by (simp add: o early_read_panic_def)
    qed
  qed
qed

definition seen_inv :: "engine \<Rightarrow> bool" where
  "seen_inv e \<longleftrightarrow> run_ok e \<and> read_seen e"

lemma seen_inv_view: "run_view e = run_view e' \<Longrightarrow> seen_inv e = seen_inv e'"
proof -
  assume v: "run_view e = run_view e'"
  have "read_seen e = read_seen e'" using v [THEN arg_cong, of read_seen] by (simp add: run_view_def)
  then show ?thesis unfolding seen_inv_def run_ok_view [OF v] by simp
qed

interpretation seen: quiet_style seen_inv
  using seen_inv_view by unfold_locales

lemma outcome_sound: "seen_inv e \<Longrightarrow> f < length (fns e) \<Longrightarrow> sound run_ok (of_outcome sc e (obey n cmd f e))"
  using obey_outcome [of e f n cmd] by (auto simp: seen_inv_def of_outcome_def split: outcome.splits)

lemma execute_named_sound: "seen_inv e \<Longrightarrow> sound run_ok (execute_named n cmd sc e)"
proof -
  assume i: "seen_inv e"
  let ?sc = "lower_case_token sc"
  have p: "run_ok d" if "run_view d = run_view e" for d using seen.keep [OF i that] by (simp add: seen_inv_def)
  show ?thesis
  proof (cases "fn_map e (token ?sc)")
    case None
    have "sound run_ok (bst_err '' is an unknown function'' ?sc (pr (token ?sc) e))" by (rule going.err_sound [OF p]) simp
    then show ?thesis using None by (simp add: execute_named_def Let_def)
  next
    case (Some f)
    have fl: "f < length (fns e)" using i Some by (auto simp: seen_inv_def run_ok_def fns_fit_def)
    let ?bad = "pr ('' has bad function type '' @ fn_class_name (kind (fns e ! f))) (pr (token ?sc) e)"
    have b: "sound run_ok (bst_err_print_and_look_for_blank_line ?sc ?bad)" by (rule going.look_sound [OF p]) simp
    let ?m = "length (fns e)"
    have g: "grown ?m e \<and> seen_inv e" using i by (simp add: grown_def seen_inv_def)
    let ?w = "and_go (eat_bst_white_check cmd ?sc e) (bst_right_brace cmd)"
    have w: "sound (grown ?m) ?w" "sound seen_inv ?w"
      using g by (intro growing.go growing.check_sound growing.brace_sound seen.go seen.check_sound seen.brace_sound; simp)+
    have "sound run_ok (and_go ?w (\<lambda>sc e. of_outcome sc e (obey n cmd f e)))"
    proof (rule sound_go [OF w(2)])
      show "sound run_ok (of_outcome sc1 e1 (obey n cmd f e1))" if "?w = (Go, sc1, e1)" "seen_inv e1" for sc1 e1
        using that w(1) fl by (intro outcome_sound) (simp_all add: grown_def)
    qed (simp add: seen_inv_def)
    then show ?thesis using Some b by (simp add: execute_named_def Let_def)
  qed
qed

lemma execute_sound: "run_ok e \<Longrightarrow> sound run_ok (bst_execute n cmd sc e)"
proof (cases "read_seen e")
  case True
  assume "run_ok e"
  then have i: "seen_inv e" using True by (simp add: seen_inv_def)
  have "sound run_ok (and_go (and_go (and_go (and_go (eat_bst_white_check cmd sc e) (bst_left_brace cmd)) (eat_bst_white_check cmd))
      (bst_identifier_scan cmd)) (execute_named n cmd))"
  proof (rule sound_go)
    show "sound seen_inv (and_go (and_go (and_go (eat_bst_white_check cmd sc e) (bst_left_brace cmd)) (eat_bst_white_check cmd)) (bst_identifier_scan cmd))"
      using i by (intro seen.go seen.check_sound seen.brace_sound seen.identifier_sound)
  qed (simp_all add: execute_named_sound, simp add: seen_inv_def)
  then show ?thesis using True by (simp add: bst_execute_def)
next
  case False
  assume "run_ok e"
  then show ?thesis using False by (simp add: bst_execute_def going.err_sound)
qed

subsection \<open>\<open>READ\<close> and \<open>SORT\<close>\<close>

lemma read_sound: "run_ok e \<Longrightarrow> sound run_ok (bst_read sc e)"
proof (cases "read_seen e")
  case True
  assume "run_ok e"
  then show ?thesis using True by (simp add: bst_read_def going.err_sound)
next
  case False
  assume r: "run_ok e"
  let ?e = "e\<lparr>read_seen := True\<rparr>"
  have nc: "\<not> reading_completed e" using r False by (auto simp: run_ok_def)
  have ok: "run_ok ?e" using r nc by (auto simp: run_ok_def)
  show ?thesis
  proof (cases "entry_seen e")
    case seen: False
    have "sound run_ok (bst_err ''Illegal, read command before entry command'' sc ?e)" using ok by (rule going.err_sound)
    then show ?thesis using False seen by (simp add: bst_read_def Let_def)
  next
    case seen: True
    obtain st e' where d: "read_database ?e = (st, e')" by fastforce
    have c: "cites_ok ?e" "num_cites ?e = length (cite_list ?e)" "style_fits ?e"
      using r False nc fns_fit_seen(2) [of True e] by (auto simp: run_ok_def style_fits_def fns_fit_def)
    have s: "st = Confused \<or> st = Accepted \<and> entries_ok e' \<and> read_frame e' = read_frame ?e \<and> reading_completed e'"
      using read_safe [OF d c] .
    have "run_ok e'" if "st = Accepted"
    proof -
      have a: "entries_ok e'" "read_frame e' = read_frame ?e" "reading_completed e'" using s that by simp_all
      note f = read_frame_selectors [OF a(2)] read_frame_selectors [of ?e, OF refl, symmetric]
      have "fns_fit e' = fns_fit ?e" using f by (intro fns_fit_cong) simp_all
      then show ?thesis using a ok seen f by (simp add: run_ok_def)
    qed
    then show ?thesis using False seen d s by (auto simp: bst_read_def of_status_def Let_def)
  qed
qed

lemma sort_ok: "run_ok e \<Longrightarrow> run_ok (cmd_sort e)"
proof -
  assume r: "run_ok e"
  have "entries_ok e \<Longrightarrow> entries_ok (cmd_sort e)" by (simp add: entries_ok_def cmd_sort_def Let_def)
  moreover have "cites_ok (cmd_sort e) = cites_ok e" by (simp add: cites_ok_def cmd_sort_def)
  ultimately show ?thesis using r by (auto simp: run_ok_def cmd_sort_def)
qed

subsection \<open>The style file\<close>

lemma command_sound: "run_ok e \<Longrightarrow> sound run_ok (bst_command n sc e)"
proof -
  assume r: "run_ok e"
  have "sound run_ok (bst_sort sc e)" for sc using r sort_ok by (simp add: bst_sort_def going.err_sound)
  moreover have "sound run_ok (bst_err m sc (pr t e))" for m sc t using going.keep [OF r, of "pr t e"] by (intro going.err_sound) simp
  ultimately have "sound run_ok (named_command n name sc e)" for name sc
    using r by (simp add: named_command_def entry_sound execute_sound function_sound list_command_sound macro_sound read_sound entry_list_def)
  then show ?thesis using r by (auto simp: bst_command_def Let_def split: prod.split intro!: going.err_sound)
qed

lemma style_panics: "style_loop n k sc e = (StylePanic, d) \<Longrightarrow> run_ok e \<Longrightarrow> name_panic d \<or> early_read_panic d"
proof (induction k arbitrary: sc e)
  case (Suc k)
  obtain ok sc1 e1 where w: "eat_bst_white sc e = (ok, sc1, e1)" by (metis prod_cases3)
  obtain st sc2 e2 where c: "bst_command n sc1 e1 = (st, sc2, e2)" by (metis prod_cases3)
  have "run_ok e1" using Suc.prems(2) going.white_keeps [OF w] by (rule going.keep)
  then have s: "sound run_ok (st, sc2, e2)" using command_sound [of e1 n sc1] c by simp
  have eq: "(if \<not> ok then (Go, e1) else if st \<in> {Go, SkipCommand} then style_loop n k sc2 e2
      else if st = StyleEnd then (Go, e2) else (st, e2)) = (StylePanic, d)"
    using Suc.prems(1) unfolding style_loop.simps w Let_def split_conv c .
  show ?case
  proof (cases "st \<in> {Go, SkipCommand}")
    case True
    then have "run_ok e2" "style_loop n k sc2 e2 = (StylePanic, d)" using s eq by (auto split: if_splits)
    then show ?thesis using Suc.IH by blast
  next
    case False
    then show ?thesis using s eq by (auto split: if_splits)
  qed
qed simp

subsection \<open>The aux files\<close>

text \<open>Before the style is read: the functions of \<open>engine_new\<close>, and a cite list that fits its maps.\<close>

definition start_ok :: "engine \<Rightarrow> bool" where
  "start_ok e \<longleftrightarrow> fns_fit e \<and> crossref_num e < num_fields e \<and> sort_key_num e < num_ent_strs e \<and> b_default e < length (fns e) \<and>
     \<not> read_seen e \<and> \<not> reading_completed e \<and> sorted_cites e = [] \<and> type_list e = [] \<and> cites_ok e"

definition aux_view :: "engine \<Rightarrow> engine" where
  "aux_view e = e\<lparr>elog := log_new, bib_inputs := [], bib_seen := False, bst_seen := False, bst_bytes := [], bst_name := None,
     citation_seen := False\<rparr>"

lemma aux_view_simps [simp]:
  "aux_view (e\<lparr>elog := l\<rparr>) = aux_view e" "aux_view (e\<lparr>bib_inputs := b\<rparr>) = aux_view e" "aux_view (e\<lparr>bib_seen := c\<rparr>) = aux_view e"
  "aux_view (e\<lparr>bst_seen := c\<rparr>) = aux_view e" "aux_view (e\<lparr>bst_bytes := s\<rparr>) = aux_view e" "aux_view (e\<lparr>bst_name := n\<rparr>) = aux_view e"
  "aux_view (e\<lparr>citation_seen := c\<rparr>) = aux_view e"
  by (simp_all add: aux_view_def)

lemma aux_view_messages [simp]:
  "aux_view (pr s e) = aux_view e" "aux_view (prln s e) = aux_view e" "aux_view (log_pr s e) = aux_view e" "aux_view (err e) = aux_view e"
  "aux_view (print_bad_input_line sc e) = aux_view e" "aux_view (aux_err sc n e) = aux_view e" "aux_view (log_named s t e) = aux_view e"
  "aux_view (aux_end_err n s e) = aux_view e"
  by (simp_all add: pr_def prln_def log_pr_def err_def print_bad_input_line_def aux_err_def log_named_def aux_end_err_def)

lemma start_ok_view: "aux_view e' = aux_view e \<Longrightarrow> start_ok e \<Longrightarrow> start_ok e'"
proof -
  have v: "start_ok (aux_view e) = start_ok e" for e
    using fns_fit_cong [of "aux_view e" e] by (simp add: start_ok_def aux_view_def cites_ok_def)
  show "aux_view e' = aux_view e \<Longrightarrow> start_ok e \<Longrightarrow> start_ok e'" using v [of e] v [of e'] by simp
qed

lemma arg_error_view: "aux_arg_error sc n s l e = (b, e') \<Longrightarrow> aux_view e' = aux_view e"
  by (auto simp: aux_arg_error_def Let_def split: if_splits)

lemma bib_data_view: "bib_data_loop fs sc n seen e = (sc', seen', e') \<Longrightarrow> aux_view e' = aux_view e"
proof (induction fs sc n seen e rule: bib_data_loop.induct)
  case (1 fs sc n seen e)
  obtain scanned sc1 where a: "next_arg sc = (scanned, sc1)" by fastforce
  obtain bad e1 where b: "aux_arg_error sc1 n scanned True e = (bad, e1)" by fastforce
  note v = arg_error_view [OF b]
  show ?case
  proof (cases "scan_char sc \<noteq> CHR ''}'' \<and> \<not> bad \<and> token sc1 \<notin> seen")
    case True
    then have eq: "(case find_bib fs (token sc1) of
        None \<Rightarrow> (sc1, insert (token sc1) seen, aux_err sc1 n (prln (bib_file_name (token sc1)) (pr (''I couldn'' @ [SQ] @ ''t open database file '') e1)))
      | Some (bs, emb) \<Rightarrow> bib_data_loop fs sc1 n (insert (token sc1) seen)
          (e1\<lparr>bib_inputs := bib_inputs e1 @ [\<lparr>bi_name = token sc1, bi_bytes = bs, embedded = emb\<rparr>]\<rparr>)) = (sc', seen', e')"
      using 1(2) by (subst (asm) bib_data_loop.simps) (simp add: a b Let_def)
    show ?thesis
    proof (cases "find_bib fs (token sc1)")
      case None
      then show ?thesis using eq v by auto
    next
      case (Some p)
      obtain bs emb where p: "p = (bs, emb)" by fastforce
      from Some p eq have "bib_data_loop fs sc1 n (insert (token sc1) seen)
          (e1\<lparr>bib_inputs := bib_inputs e1 @ [\<lparr>bi_name = token sc1, bi_bytes = bs, embedded = emb\<rparr>]\<rparr>) = (sc', seen', e')" by simp
      then show ?thesis using 1(1) [OF _ a [symmetric] refl b [symmetric] refl _ refl refl _ Some p [symmetric]] True v by simp
    qed
  next
    case False
    then show ?thesis using 1(2) v by (subst (asm) bib_data_loop.simps) (auto simp: a b Let_def split: if_splits)
  qed
qed

lemma cite_key_ok: "cite_key sc n k e = (b, e') \<Longrightarrow> start_ok e \<Longrightarrow> start_ok e'"
proof -
  assume c: "cite_key sc n k e = (b, e')" and s: "start_ok e"
  let ?all = "e\<lparr>all_entries := True, all_marker := length (cite_list e)\<rparr>"
  let ?new = "e\<lparr>cite_map := (cite_map e)(k \<mapsto> length (cite_list e)), lc_cite_map := (lc_cite_map e)(lower_case k \<mapsto> k), cite_list := cite_list e @ [k]\<rparr>"
  have f: "fns_fit ?all = fns_fit e" "fns_fit ?new = fns_fit e" by (rule fns_fit_cong; simp)+
  have m: "maps_ok (length (cite_list e)) (cite_map e) (lc_cite_map e)" using s by (simp add: start_ok_def cites_ok_def)
  have "start_ok ?all" using s f by (simp add: start_ok_def cites_ok_def)
  moreover have "start_ok ?new" using s f maps_add [OF maps_mono [OF m], of "length (cite_list e) + 1" "length (cite_list e)" k "lower_case k"]
    by (auto simp: start_ok_def cites_ok_def)
  moreover have "start_ok (aux_err sc n (prln t e))" for t by (rule start_ok_view [OF _ s]) simp
  ultimately show ?thesis using c s by (auto simp: cite_key_def Let_def split: if_splits option.splits)
qed

lemma citation_ok: "citation_loop sc n e = (sc', e') \<Longrightarrow> start_ok e \<Longrightarrow> start_ok e'"
proof (induction sc n e rule: citation_loop.induct)
  case (1 sc n e)
  obtain scanned sc1 where a: "next_arg sc = (scanned, sc1)" by fastforce
  obtain bad e1 where b: "aux_arg_error sc1 n scanned True e = (bad, e1)" by fastforce
  obtain go e2 where c: "cite_key sc1 n (token sc1) e1 = (go, e2)" by fastforce
  have s: "start_ok e1" "start_ok e2" using start_ok_view [OF arg_error_view [OF b] 1(3)] cite_key_ok [OF c] by simp_all
  show ?case
  proof (cases "scan_char sc \<noteq> CHR ''}'' \<and> \<not> bad \<and> go")
    case True
    then have "citation_loop sc1 n e2 = (sc', e')" using 1(2) by (subst (asm) citation_loop.simps) (simp add: a b c Let_def)
    then show ?thesis using 1(1) [OF _ a [symmetric] refl b [symmetric] refl _ c [symmetric] refl] True s by simp
  next
    case False
    then show ?thesis using 1(2,3) s by (subst (asm) citation_loop.simps) (auto simp: a b c Let_def split: if_splits)
  qed
qed

lemma aux_command_ok: "aux_command fs sc n s e = (r, sc', s', e') \<Longrightarrow> start_ok e \<Longrightarrow> start_ok e'"
proof -
  assume c: "aux_command fs sc n s e = (r, sc', s', e')" and st: "start_ok e"
  have v: "start_ok d" if "aux_view d = aux_view e" for d using start_ok_view [OF that st] .
  have bib: "start_ok d" if "aux_bib_data fs sc n b e = (q, t, d)" for b q t d
    using that bib_data_view [of fs sc n b "e\<lparr>bib_seen := True\<rparr>" q t d] by (intro v) (auto simp: aux_bib_data_def split: if_splits)
  have style: "aux_view d = aux_view e" if "aux_bib_style fs sc n e = (q, d)" for q d
    using that by (auto simp: aux_bib_style_def Let_def split: if_splits prod.splits option.splits dest!: arg_error_view)
  have cite: "start_ok d" if "aux_citation sc n e = (q, d)" for q d
    using that citation_ok [of sc n "e\<lparr>citation_seen := True\<rparr>" q d] v [of "e\<lparr>citation_seen := True\<rparr>"] by (simp add: aux_citation_def)
  have nested: "aux_view d = aux_view e" if "aux_input fs sc n b k e = (i, q, t, d)" for b k i q t d
    using that by (auto simp: aux_input_def Let_def split: if_splits prod.splits option.splits dest!: arg_error_view)
  show ?thesis using c st bib style cite nested v
    by (auto simp: aux_command_def pack_bib_def Let_def split: if_splits prod.splits)
qed

lemma aux_step_ok: "aux_step fs f rest s e = (b, s', e') \<Longrightarrow> start_ok e \<Longrightarrow> start_ok e'"
  by (auto simp: aux_step_def Let_def split: if_splits prod.splits input_result.splits dest: aux_command_ok)

lemma aux_loop_ok: "aux_loop n fs s e = Some (b, e') \<Longrightarrow> start_ok e \<Longrightarrow> start_ok e'"
proof (induction n arbitrary: s e)
  case (Suc n)
  show ?case
  proof (cases "files s")
    case Nil
    then show ?thesis using Suc.prems by simp
  next
    case (Cons f rest)
    obtain stop s1 e1 where p: "aux_step fs f rest s e = (stop, s1, e1)" by (metis prod_cases3)
    have "start_ok e1" using aux_step_ok [OF p Suc.prems(2)] .
    then show ?thesis using Suc Cons p by (auto split: if_splits)
  qed
qed simp

lemma let_view: "(\<And>d. aux_view (f d) = aux_view d) \<Longrightarrow> aux_view (let d = e in f d) = aux_view e"
  by simp

lemma last_check_view: "aux_view (last_check_for_aux_errors t d) = aux_view (d\<lparr>num_cites := length (cite_list d)\<rparr>)"
  unfolding last_check_for_aux_errors_def
  by (rule let_view, rule trans [OF let_view], rule trans [OF let_view]) simp_all

lemma aux_view_cites:
  assumes "aux_view e = aux_view e'"
  shows "num_cites e = num_cites e'" "cite_list e = cite_list e'"
  using assms [THEN arg_cong, of num_cites] assms [THEN arg_cong, of cite_list] by (simp_all add: aux_view_def)

lemma read_aux_ok: "read_aux n fs t bs e = Some (False, e') \<Longrightarrow> start_ok e \<Longrightarrow> run_ok e'"
proof -
  assume r: "read_aux n fs t bs e = Some (False, e')" and s: "start_ok e"
  obtain d where d: "aux_loop n fs \<lparr>files = [\<lparr>aux_name = t, aux_sc = scanner_new bs\<rparr>], aux_seen = {t}, bib_names = {}\<rparr> e = Some (False, d)"
    "e' = last_check_for_aux_errors t d"
    using r by (auto simp: read_aux_def split: option.splits prod.splits bool.splits)
  have sd: "start_ok d" using aux_loop_ok [OF d(1) s] .
  have v: "aux_view e' = aux_view (d\<lparr>num_cites := length (cite_list d)\<rparr>)" unfolding d(2) by (rule last_check_view)
  have "start_ok (d\<lparr>num_cites := k\<rparr>)" for k
    using sd fns_fit_cong [of "d\<lparr>num_cites := k\<rparr>" d] by (simp add: start_ok_def cites_ok_def)
  then have e: "start_ok e'" using start_ok_view [OF v] by blast
  have "num_cites e' = length (cite_list e')" using aux_view_cites [OF v] by simp
  then show "run_ok e'" using e by (simp add: run_ok_def start_ok_def)
qed

end
