(* ===== verification/BtFuel.thy ===== *)
theory BtFuel
  imports BtMain
begin

text \<open>
  More fuel changes nothing: what a run with some fuel gives, it gives with any more.  The locale \<open>fuelled\<close> is the
  contract, met by execution, by the readers and by the run as a whole.
\<close>

locale fuelled =
  fixes f :: "nat \<Rightarrow> 'r" and out :: "'r \<Rightarrow> bool"
  assumes step: "\<not> out (f n) \<Longrightarrow> f (Suc n) = f n"
begin

lemma stays: "n \<le> m \<Longrightarrow> \<not> out (f n) \<Longrightarrow> f m = f n"
  by (induction m rule: dec_induct) (simp_all add: step)

lemma agree: "\<not> out (f n) \<Longrightarrow> \<not> out (f m) \<Longrightarrow> f n = f m"
  using stays [of n m] stays [of m n] by (cases "n \<le> m") auto

end

subsection \<open>Execution\<close>

declare execute_fn.simps(2) [simp del] scan_body.simps(2) [simp del] aux_loop.simps(2) [simp del] style_loop.simps(2) [simp del]

text \<open>\<open>r \<sqsubseteq> r'\<close>: the same, or nothing yet.\<close>

definition below :: "outcome \<Rightarrow> outcome \<Rightarrow> bool" where
  "below r r' \<longleftrightarrow> r = Unfinished \<or> r = r'"

lemma below_refl [simp]: "below r r" "below Unfinished r"
  by (simp_all add: below_def)

lemma below_and:
  assumes "below r r'" "\<And>e. below (f e) (g e)"
  shows "below (and_run r f) (and_run r' g)"
proof (cases r)
  case (Returned e)
  then show ?thesis using assms(1) assms(2) [of e] by (auto simp: below_def)
qed (use assms(1) in \<open>auto simp: below_def\<close>)

lemma below_elem: "(\<And>x. below (f x) (g x)) \<Longrightarrow> below (elem_at e xs i f) (elem_at e xs i g)"
  by (simp add: elem_at_def)

lemma below_ops: "(\<And>f e. below (run f e) (run' f e)) \<Longrightarrow> below (run_ops run ops e) (run_ops run' ops e)"
proof (induction ops arbitrary: e)
  case (Cons p ops)
  then show ?case by (cases p) (auto intro: below_and)
qed simp

lemma below_loop:
  assumes "\<And>f e. below (run f e) (run' f e)"
  shows "below (while_loop run n body test e) (while_loop run' (Suc n) body test e)"
proof (induction n arbitrary: e)
  case (Suc n)
  have "below (let (l, e) = pop e in case l of
        LInt k \<Rightarrow> if 0 < k then and_run (run body e) (while_loop run n body test) else Returned e | _ \<Rightarrow> Returned (wrong_lit l WantInt e))
      (let (l, e) = pop e in case l of
        LInt k \<Rightarrow> if 0 < k then and_run (run' body e) (while_loop run' (Suc n) body test) else Returned e | _ \<Rightarrow> Returned (wrong_lit l WantInt e))" for e
    using Suc assms by (auto split: prod.split lit.split intro: below_and)
  then show ?case using assms unfolding while_loop.simps(2) [of run n] while_loop.simps(2) [of run' "Suc n"] by (intro below_and)
qed simp

lemma below_kind:
  assumes "\<And>f e. below (run f e) (run' f e)"
  shows "below (execute_kind run n f k e) (execute_kind run' (Suc n) f k e)"
proof -
  have b: "below (builtin run n b e) (builtin run' (Suc n) b e)" for b
    using assms below_loop [OF assms]
    by (cases b) (auto simp: builtin_def x_call_type_def x_if_def x_while_def Let_def simp del: while_loop.simps
        split: prod.split lit.split entry_type.split intro!: below_elem)
  show ?thesis using b below_ops [OF assms] by (cases k) (auto simp: execute_kind_def)
qed

lemma execute_fuel: "below (execute_fn n f e) (execute_fn (Suc n) f e)"
proof (induction n arbitrary: f e)
  case (Suc n)
  show ?case
    by (subst execute_fn.simps(2) [of n], subst execute_fn.simps(2) [of "Suc n"]) (intro below_elem below_kind Suc)
qed simp

interpretation execution: fuelled "\<lambda>n. execute_fn n f e" "\<lambda>r. r = Unfinished" for f e
  using execute_fuel by unfold_locales (metis below_def)

lemma iterate_fuel: "below (iterate_over (execute_fn n) f ks e) (iterate_over (execute_fn (Suc n)) f ks e)"
proof (induction ks arbitrary: e)
  case (Cons k ks)
  show ?case unfolding iterate_over.simps by (intro below_elem below_and execute_fuel Cons)
qed simp

lemma obey_fuel: "below (obey n cmd f e) (obey (Suc n) cmd f e)"
  unfolding obey_def cmd_execute_def cmd_iterate_def using execute_fuel iterate_fuel by (auto intro: below_and)

subsection \<open>The style file\<close>

definition before :: "progress \<times> 'a \<Rightarrow> progress \<times> 'a \<Rightarrow> bool" where
  "before r r' \<longleftrightarrow> fst r = StyleFuel \<or> r = r'"

lemma before_refl [simp]: "before r r"
  by (simp add: before_def)

lemma before_go:
  assumes "before r r'" "\<And>sc e. before (f sc e) (g sc e)"
  shows "before (and_go r f) (and_go r' g)"
proof -
  obtain st sc e where r: "r = (st, sc, e)" by (metis prod_cases3)
  show ?thesis using assms(1) assms(2) [of sc e] by (auto simp: before_def and_go_def r)
qed

lemma before_outcome: "below r r' \<Longrightarrow> before (of_outcome sc e r) (of_outcome sc e r')"
  by (auto simp: below_def before_def of_outcome_def)

lemma body_fuel: "before (scan_body n wiz ops sc e) (scan_body (Suc n) wiz ops sc e)"
proof (induction n arbitrary: wiz ops sc e)
  case 0
  show ?case by (simp add: before_def)
next
  case (Suc n)
  show ?case
    by (subst scan_body.simps(2) [of n], subst scan_body.simps(2) [of "Suc n"])
      (auto simp: Let_def split: prod.split intro!: before_go Suc)
qed

lemma command_fuel: "before (bst_command n sc e) (bst_command (Suc n) sc e)"
proof -
  have d: "before (define_named n sc e) (define_named (Suc n) sc e)" for sc e
    by (auto simp: define_named_def scan_fn_def_def Let_def split: prod.split intro!: before_go body_fuel)
  have x: "before (execute_named n cmd sc e) (execute_named (Suc n) cmd sc e)" for cmd sc e
    by (auto simp: execute_named_def Let_def split: option.split intro!: before_go before_outcome obey_fuel)
  have "before (bst_execute n cmd sc e) (bst_execute (Suc n) cmd sc e)" for cmd sc e
    by (auto simp: bst_execute_def intro!: before_go x)
  moreover have "before (bst_function n sc e) (bst_function (Suc n) sc e)" for sc e
    by (auto simp: bst_function_def Let_def intro!: before_go d)
  ultimately show ?thesis by (auto simp: bst_command_def named_command_def Let_def split: prod.split)
qed

lemma style_fuel: "before (style_loop n k sc e) (style_loop (Suc n) (Suc k) sc e)"
proof (induction k arbitrary: sc e)
  case 0
  show ?case by (simp add: before_def)
next
  case (Suc k)
  obtain ok sc1 e1 where w: "eat_bst_white sc e = (ok, sc1, e1)" by (metis prod_cases3)
  obtain st sc2 e2 where c: "bst_command n sc1 e1 = (st, sc2, e2)" by (metis prod_cases3)
  have "st = StyleFuel \<or> bst_command (Suc n) sc1 e1 = (st, sc2, e2)"
    using command_fuel [of n sc1 e1] c by (auto simp: before_def)
  then show ?case using Suc.IH [of sc2 e2]
    by (subst style_loop.simps(2) [of n k], subst style_loop.simps(2) [of "Suc n" "Suc k"]) (auto simp: w c before_def)
qed

lemma read_bst_fuel: "before (read_bst n e) (read_bst (Suc n) e)"
  unfolding read_bst_def by (rule style_fuel)

interpretation style: fuelled "\<lambda>n. read_bst n e" "\<lambda>r. fst r = StyleFuel" for e
  using read_bst_fuel by unfold_locales (metis before_def)

subsection \<open>The aux files and the run\<close>

lemma aux_fuel: "aux_loop n fs s e = Some r \<Longrightarrow> aux_loop (Suc n) fs s e = Some r"
proof (induction n arbitrary: s e)
  case (Suc n)
  show ?case using Suc.prems Suc.IH
    by (subst aux_loop.simps(2) [of "Suc n"], subst (asm) aux_loop.simps(2) [of n]) (auto split: list.splits prod.splits if_splits)
qed simp

lemma read_aux_fuel: "read_aux n fs t bs e = Some r \<Longrightarrow> read_aux (Suc n) fs t bs e = Some r"
proof -
  assume a: "read_aux n fs t bs e = Some r"
  let ?s = "\<lparr>files = [\<lparr>aux_name = t, aux_sc = scanner_new bs\<rparr>], aux_seen = {t}, bib_names = {}\<rparr>"
  obtain q where q: "aux_loop n fs ?s e = Some q" using a by (cases "aux_loop n fs ?s e") (simp_all add: read_aux_def)
  show ?thesis using a aux_fuel [OF q] q unfolding read_aux_def by simp
qed

interpretation aux: fuelled "\<lambda>n. read_aux n fs t bs e" "\<lambda>r. r = None" for fs t bs e
  using read_aux_fuel by unfold_locales auto

lemma run_job_fuel: "before (run_job n fs name bs e) (run_job (Suc n) fs name bs e)"
proof (cases "read_aux n fs name bs e")
  case None
  then show ?thesis by (simp add: run_job_def before_def)
next
  case (Some r)
  then show ?thesis using aux.step [of n fs name bs e] read_bst_fuel by (cases r) (auto simp: run_job_def split: bool.split)
qed

lemma run_job_stays: "run_job n fs name bs e = (st, e') \<Longrightarrow> st \<noteq> StyleFuel \<Longrightarrow> run_job (Suc n) fs name bs e = (st, e')"
  using run_job_fuel [of n fs name bs e] by (auto simp: before_def)

lemma run_fuel: "bibtex_run n fs rd w v args = Some r \<Longrightarrow> bibtex_run (Suc n) fs rd w v args = Some r"
proof -
  assume a: "bibtex_run n fs rd w v args = Some r"
  let ?o = "\<lparr>o_aux = None, o_crossrefs = 2, o_verbose = True\<rparr>"
  show ?thesis
  proof (cases "\<exists>opts arg bs. parse_args args ?o = Some opts \<and> o_aux opts = Some arg \<and>
      rd ((if ends_with arg ''.aux'' then take (length arg - 4) arg else arg) @ ''.aux'') = Some bs")
    case True
    then obtain opts arg bs where o: "parse_args args ?o = Some opts" "o_aux opts = Some arg"
      "rd ((if ends_with arg ''.aux'' then take (length arg - 4) arg else arg) @ ''.aux'') = Some bs" by blast
    let ?b = "if ends_with arg ''.aux'' then take (length arg - 4) arg else arg"
    obtain st e where j: "run_job n fs (?b @ ''.aux'') bs (start_run v (?b @ ''.aux'') (o_crossrefs opts) (o_verbose opts)) = (st, e)"
      by fastforce
    have "st \<noteq> StyleFuel" using a o j by (auto simp: bibtex_run_def Let_def)
    then have "run_job (Suc n) fs (?b @ ''.aux'') bs (start_run v (?b @ ''.aux'') (o_crossrefs opts) (o_verbose opts)) = (st, e)"
      using run_job_stays [OF j] by simp
    then show ?thesis using a o j by (simp add: bibtex_run_def Let_def)
  next
    case False
    then show ?thesis using a by (auto simp: bibtex_run_def Let_def split: option.splits)
  qed
qed

interpretation bibtex: fuelled "\<lambda>n. bibtex_run n fs rd w v args" "\<lambda>r. r = None" for fs rd w v args
  using run_fuel by unfold_locales auto

end
