(* ===== verification/BtAuxCorrect.thy ===== *)
theory BtAuxCorrect
  imports BtFuel
begin

text \<open>
  Reading the aux files ends, whatever files the system holds: a pass uses a line of the topmost file, and nesting is
  limited, so the lines left, from the bottom file up, decrease lexicographically.
\<close>

lemma advances_unread: "advances sc sc' \<Longrightarrow> unread sc' = unread sc"
  by (auto simp: advances_def unread_def)

lemma unread_scans [simp]: "unread (snd (scan1 c sc)) = unread sc" "unread (snd (scan1_white c sc)) = unread sc"
  "unread (snd (scan2_white c c' sc)) = unread sc"
  by (simp_all add: advances_unread)

lemma next_arg_unread: "next_arg sc = (b, sc') \<Longrightarrow> unread sc' = unread sc"
  using unread_scans(3) [of "CHR ''}''" "CHR '',''" "sc\<lparr>p2 := p2 sc + 1\<rparr>"] by (simp add: next_arg_def)

lemma bib_data_unread: "bib_data_loop fs sc name seen e = (sc', r) \<Longrightarrow> unread sc' = unread sc"
proof (induction fs sc name seen e rule: bib_data_loop.induct)
  case (1 fs sc name seen e)
  obtain b sc1 where n: "next_arg sc = (b, sc1)" by fastforce
  obtain bad e1 where a: "aux_arg_error sc1 name b True e = (bad, e1)" by fastforce
  have u: "unread sc1 = unread sc" by (rule next_arg_unread [OF n])
  show ?case
  proof (cases "scan_char sc = CHR ''}'' \<or> bad \<or> token sc1 \<in> seen \<or> find_bib fs (token sc1) = None")
    case True
    then show ?thesis using 1(2) u by (auto simp: bib_data_loop.simps [of fs sc] n a Let_def split: if_splits)
  next
    case False
    then obtain bs emb where f: "find_bib fs (token sc1) = Some (bs, emb)" by (cases "find_bib fs (token sc1)") auto
    have "bib_data_loop fs sc1 name (insert (token sc1) seen)
        (e1\<lparr>bib_inputs := bib_inputs e1 @ [\<lparr>bi_name = token sc1, bi_bytes = bs, embedded = emb\<rparr>]\<rparr>) = (sc', r)"
      using 1(2) False f by (simp add: bib_data_loop.simps [of fs sc] n a Let_def)
    then show ?thesis using 1(1) [OF _ n [symmetric] refl a [symmetric] refl _ refl refl _ f refl] False u by simp
  qed
qed

lemma citation_unread: "citation_loop sc name e = (sc', e') \<Longrightarrow> unread sc' = unread sc"
proof (induction sc name e rule: citation_loop.induct)
  case (1 sc name e)
  obtain b sc1 where n: "next_arg sc = (b, sc1)" by fastforce
  obtain bad e1 where a: "aux_arg_error sc1 name b True e = (bad, e1)" by fastforce
  obtain g e2 where k: "cite_key sc1 name (token sc1) e1 = (g, e2)" by fastforce
  have u: "unread sc1 = unread sc" by (rule next_arg_unread [OF n])
  show ?case
  proof (cases "scan_char sc = CHR ''}'' \<or> bad \<or> \<not> g")
    case True
    then show ?thesis using 1(2) u by (auto simp: citation_loop.simps [of sc] n a k split: if_splits)
  next
    case False
    then have "citation_loop sc1 name e2 = (sc', e')" using 1(2) by (simp add: citation_loop.simps [of sc] n a k)
    then show ?thesis using 1(1) [OF _ n [symmetric] refl a [symmetric] refl _ k [symmetric] refl] False u by simp
  qed
qed

lemma white_arg_unread: "scan1_white c (sc\<lparr>p2 := i\<rparr>) = (b, sc') \<Longrightarrow> unread sc' = unread sc"
  using unread_scans(2) [of c "sc\<lparr>p2 := i\<rparr>"] by simp

lemma aux_command_unread: "aux_command fs sc name s e = (r, sc', s', e') \<Longrightarrow> unread sc' = unread sc"
  by (auto simp: aux_command_def aux_bib_data_def aux_bib_style_def aux_citation_def aux_input_def pack_bib_def Let_def
      split: if_splits prod.splits option.splits dest!: bib_data_unread citation_unread white_arg_unread)

lemma aux_command_push: "aux_command fs sc name s e = (NewFile g, sc', s', e') \<Longrightarrow> length (files s) \<noteq> AUX_STACK_SIZE"
  by (auto simp: aux_command_def aux_input_def pack_bib_def Let_def split: if_splits prod.splits option.splits)

subsection \<open>The lines left\<close>

definition left_lines :: "aux_file list \<Rightarrow> nat list" where
  "left_lines fl = map (\<lambda>f. unread (aux_sc f) + 1) (rev fl) @ replicate (AUX_STACK_SIZE - length fl) 0"

definition lines_order :: "(nat list \<times> nat list) set" where
  "lines_order = lexn less_than AUX_STACK_SIZE"

lemma wf_lines: "wf (inv_image lines_order left_lines)"
  unfolding lines_order_def by (intro wf_inv_image wf_lexn wf_less_than)

lemma lines_less:
  assumes "length (f # rest) \<le> AUX_STACK_SIZE" "length (g @ rest) \<le> AUX_STACK_SIZE"
    "g = [] \<or> (\<exists>h. g = [h] \<and> unread (aux_sc h) < unread (aux_sc f)) \<or> (\<exists>k h. g = [k, h] \<and> unread (aux_sc h) < unread (aux_sc f))"
  shows "(left_lines (g @ rest), left_lines (f # rest)) \<in> lines_order"
proof -
  let ?p = "map (\<lambda>f. unread (aux_sc f) + 1) (rev rest)"
  have r: "left_lines (f # rest) = ?p @ (unread (aux_sc f) + 1) # replicate (AUX_STACK_SIZE - length (f # rest)) 0"
    by (simp add: left_lines_def)
  have "\<exists>x ys. left_lines (g @ rest) = ?p @ x # ys \<and> x < unread (aux_sc f) + 1"
  proof -
    have "left_lines (g @ rest) = ?p @ (map (\<lambda>f. unread (aux_sc f) + 1) (rev g) @ replicate (AUX_STACK_SIZE - length (g @ rest)) 0)"
      by (simp add: left_lines_def)
    moreover have "\<exists>x ys. map (\<lambda>f. unread (aux_sc f) + 1) (rev g) @ replicate (AUX_STACK_SIZE - length (g @ rest)) 0 = x # ys \<and> x < unread (aux_sc f) + 1"
      using assms by (cases "AUX_STACK_SIZE - length (g @ rest)") auto
    ultimately show ?thesis by metis
  qed
  then obtain x ys where l: "left_lines (g @ rest) = ?p @ x # ys" "x < unread (aux_sc f) + 1" by blast
  have "length (left_lines (g @ rest)) = AUX_STACK_SIZE" "length (left_lines (f # rest)) = AUX_STACK_SIZE"
    using assms(1,2) by (simp_all add: left_lines_def)
  then show ?thesis unfolding lines_order_def lexn_conv using r l by auto
qed

lemma aux_step_less:
  assumes "aux_step fs f rest s e = (False, s', e')" "files s = f # rest" "length (f # rest) \<le> AUX_STACK_SIZE"
  shows "(left_lines (files s'), left_lines (f # rest)) \<in> lines_order \<and> length (files s') \<le> AUX_STACK_SIZE"
proof -
  obtain got sc1 where g: "input_ln ((aux_sc f)\<lparr>line := line (aux_sc f) + 1\<rparr>) = (got, sc1)" by fastforce
  show ?thesis
  proof (cases got)
    case False
    then have "files s' = [] @ rest" using assms(1) g by (auto simp: aux_step_def Let_def)
    then show ?thesis using lines_less [of f rest "[]"] assms(3) by simp
  next
    case True
    have u: "unread sc1 < unread (aux_sc f)" using input_ln_unread g True by (fastforce simp: unread_def)
    obtain found sc2 where s: "scan1 (CHR ''{'') (sc1\<lparr>p2 := 0\<rparr>) = (found, sc2)" by fastforce
    have u2: "unread sc2 = unread sc1" using unread_scans(1) [of "CHR ''{''" "sc1\<lparr>p2 := 0\<rparr>"] s by simp
    show ?thesis
    proof (cases found)
      case False
      then have "files s' = [f\<lparr>aux_sc := sc2\<rparr>] @ rest" using assms(1) g True s by (auto simp: aux_step_def Let_def)
      then show ?thesis using lines_less [of f rest "[f\<lparr>aux_sc := sc2\<rparr>]"] assms(3) u u2 by simp
    next
      case fnd: True
      obtain r sc3 s3 e3 where c: "aux_command fs sc2 (aux_name f) s e = (r, sc3, s3, e3)" by (metis prod_cases4)
      have u3: "unread sc3 = unread sc2" by (rule aux_command_unread [OF c])
      let ?h = "f\<lparr>aux_sc := sc3\<rparr>"
      show ?thesis
      proof (cases r)
        case NoFile
        then have "files s' = [?h] @ rest" using assms(1) g True s fnd c by (auto simp: aux_step_def Let_def)
        then show ?thesis using lines_less [of f rest "[?h]"] assms(3) u u2 u3 by simp
      next
        case Deep
        then show ?thesis using assms(1) g True s fnd c by (auto simp: aux_step_def Let_def)
      next
        case (NewFile k)
        then have "files s' = [k, ?h] @ rest" using assms(1) g True s fnd c by (auto simp: aux_step_def Let_def)
        moreover have "length ([k, ?h] @ rest) \<le> AUX_STACK_SIZE" using aux_command_push c NewFile assms(2,3) by fastforce
        ultimately show ?thesis using lines_less [of f rest "[k, ?h]"] assms(3) u u2 u3 by simp
      qed
    qed
  qed
qed

lemma aux_loop_returns: "length (files s) \<le> AUX_STACK_SIZE \<Longrightarrow> \<exists>n r. aux_loop n fs s e = Some r"
proof (induction "files s" arbitrary: s e rule: wf_induct_rule [OF wf_lines])
  case (1 s)
  show ?case
  proof (cases "files s")
    case Nil
    then have "aux_loop (Suc 0) fs s e = Some (False, e)" by (simp add: aux_loop.simps)
    then show ?thesis by blast
  next
    case (Cons f rest)
    obtain stop s1 e1 where p: "aux_step fs f rest s e = (stop, s1, e1)" by (metis prod_cases3)
    show ?thesis
    proof (cases stop)
      case True
      then have "aux_loop (Suc 0) fs s e = Some (True, e1)" using Cons p by (simp add: aux_loop.simps)
      then show ?thesis by blast
    next
      case False
      then have l: "(left_lines (files s1), left_lines (files s)) \<in> lines_order" "length (files s1) \<le> AUX_STACK_SIZE"
        using aux_step_less [of fs f rest s e s1 e1] p Cons 1(2) by auto
      then have "\<exists>n r. aux_loop n fs s1 e1 = Some r" using 1(1) [of s1 e1] by (simp only: in_inv_image simp_thms)
      then obtain n r where "aux_loop n fs s1 e1 = Some r" by blast
      then have "aux_loop (Suc n) fs s e = Some r" using Cons p False by (simp add: aux_loop.simps(2))
      then show ?thesis by blast
    qed
  qed
qed

text \<open>
  Property C24. Reading the aux files always returns: for every file system, top-level file and state of the engine there
  is a fuel with which \<open>read_aux\<close> gives a result, even if files include files without end; with more fuel the result
  is the same.
\<close>
theorem read_aux_returns: "\<exists>n r. \<forall>k. read_aux (n + k) fs top_name bs e = Some r"
proof -
  let ?s = "\<lparr>files = [\<lparr>aux_name = top_name, aux_sc = scanner_new bs\<rparr>], aux_seen = {top_name}, bib_names = {}\<rparr>"
  obtain n q where "aux_loop n fs ?s e = Some q" using aux_loop_returns [of ?s fs e] by (auto simp: AUX_STACK_SIZE_def)
  then obtain r where "read_aux n fs top_name bs e = Some r" by (cases q) (cases "fst q"; auto simp: read_aux_def)
  then show ?thesis using aux.stays [of n "n + k" for k] by (metis le_add1 option.distinct(1))
qed

end
