(* ===== verification/BtTextCorrect.thy ===== *)
theory BtTextCorrect
  imports BtText
begin

text \<open>
  What the string functions promise: a prefix has the number of text characters asked for, and a purified string has
  letters, digits and blanks only.
\<close>

subsection \<open>\<open>text.prefix$\<close> and \<open>text.length$\<close>\<close>

lemma text_length_ge: "num \<le> text_length_loop s i level num"
proof (induction s i level num rule: text_length_loop.induct)
  case (1 s i level num)
  show ?case
  proof (cases "i < length s")
    case True
    note ih = 1(1-4) [OF True refl refl]
    obtain j k where j: "skip_special s (i + 1 + 1) (level + 1) = (j, k)" by fastforce
    consider (special) "s ! i = CHR ''{''" "special_at s (i + 1) (level + 1)" | (brace) "s ! i = CHR ''{''" "\<not> special_at s (i + 1) (level + 1)"
      | (close) "s ! i = CHR ''}''" | (char) "s ! i \<noteq> CHR ''{''" "s ! i \<noteq> CHR ''}''" by blast
    then show ?thesis
    proof cases
      case special
      then show ?thesis using ih(1) [OF special(1) refl special(2) j [symmetric] refl] True j by (subst text_length_loop.simps) (simp add: Let_def)
    next
      case brace
      then show ?thesis using ih(2) True by (subst text_length_loop.simps) (simp add: Let_def)
    next
      case close
      then show ?thesis using ih(3) True by (subst text_length_loop.simps) (simp add: Let_def)
    next
      case char
      then show ?thesis using ih(4) True by (subst text_length_loop.simps) (simp add: Let_def)
    qed
  qed (simp add: text_length_loop.simps [of s i])
qed

lemma closing_braces: "length t \<le> i \<Longrightarrow> text_length_loop (t @ replicate m (CHR ''}'')) i level num = num"
proof (induction "length t + m - i" arbitrary: i level)
  case 0
  then show ?case by (subst text_length_loop.simps) simp
next
  case (Suc k)
  then have "i < length (t @ replicate m (CHR ''}''))" "(t @ replicate m (CHR ''}'')) ! i = CHR ''}''"
    by (auto simp: nth_append)
  then show ?case using Suc(1) [of "i + 1"] Suc(2,3) by (subst text_length_loop.simps) (simp add: Let_def)
qed

lemma prefix_ge: "text_prefix_loop s n i level num = (i', l') \<Longrightarrow> i \<le> length s \<Longrightarrow> i \<le> i' \<and> i' \<le> length s"
proof (induction s n i level num rule: text_prefix_loop.induct)
  case (1 s n i level num)
  note step = 1(5) [unfolded text_prefix_loop.simps [of s n i level num] Let_def]
  show ?case
  proof (cases "i < length s \<and> num < n")
    case True
    note ih = 1(1-4) [OF True refl refl]
    obtain j k where j: "skip_special s (i + 1 + 1) (level + 1) = (j, k)" by fastforce
    have jl: "special_at s (i + 1) (level + 1) \<Longrightarrow> i \<le> j \<and> j \<le> length s"
      using skip_special_ge [OF j] by (simp add: special_at_def)
    consider (special) "s ! i = CHR ''{''" "special_at s (i + 1) (level + 1)" | (brace) "s ! i = CHR ''{''" "\<not> special_at s (i + 1) (level + 1)"
      | (close) "s ! i = CHR ''}''" | (char) "s ! i \<noteq> CHR ''{''" "s ! i \<noteq> CHR ''}''" by blast
    then show ?thesis
    proof cases
      case special
      then have r: "text_prefix_loop s n j k (num + 1) = (i', l')" using step True j by simp
      show ?thesis using ih(1) [OF special(1) refl special(2) j [symmetric] refl r] jl special(2) by simp
    next
      case brace
      then show ?thesis using ih(2) step True by simp
    next
      case close
      then show ?thesis using ih(3) step True by simp
    next
      case char
      then show ?thesis using ih(4) step True by simp
    qed
  qed (use step 1(6) in auto)
qed

text \<open>A special character that ends is read the same where the bytes agree.\<close>

lemma skip_agree:
  "skip_special s i level = (j, 0) \<Longrightarrow> j \<le> length t \<Longrightarrow> take j t = take j s \<Longrightarrow> skip_special t i level = (j, 0)"
proof (induction s i level rule: skip_special.induct)
  case (1 s i level)
  show ?case
  proof (cases "i < length s \<and> 0 < level")
    case True
    have r: "skip_special s (i + 1) (brace_step (s ! i) level) = (j, 0)" using 1(2) True by (simp add: skip_special.simps [of s i])
    then have "i < j" using skip_special_ge by fastforce
    moreover from this have "t ! i = s ! i" using 1(4) by (metis nth_take)
    ultimately show ?thesis using 1(1) [OF True r 1(3,4)] 1(3) True by (subst skip_special.simps) simp
  next
    case False
    then show ?thesis using 1(2) by (auto simp: skip_special.simps [of s i] skip_special.simps [of t i] split: if_splits)
  qed
qed

text \<open>One that does not end is closed by the braces a prefix adds.\<close>

lemma skip_open:
  "skip_special s i level = (j, k) \<Longrightarrow> 0 < k \<Longrightarrow> i \<le> length s \<Longrightarrow>
    j = length s \<and> skip_special (s @ replicate k (CHR ''}'')) i level = (length s + k, 0)"
proof (induction s i level rule: skip_special.induct)
  case (1 s i level)
  show ?case
  proof (cases "i < length s \<and> 0 < level")
    case True
    then have "skip_special s (i + 1) (brace_step (s ! i) level) = (j, k)" using 1(2) by (simp add: skip_special.simps [of s i])
    then show ?thesis using 1(1) [OF True] 1(3) True by (subst skip_special.simps) (simp add: nth_append)
  next
    case False
    then have e: "j = length s" "level = k" "i = length s" using 1(2-4) by (auto simp: skip_special.simps [of s i])
    have "skip_special (s @ replicate k (CHR ''}'')) (length s + a) (k - a) = (length s + k, 0)" if "a \<le> k" for a
      using that
    proof (induction "k - a" arbitrary: a)
      case 0
      then show ?case by (subst skip_special.simps) simp
    next
      case (Suc m)
      then show ?case using Suc(1) [of "a + 1"] by (subst skip_special.simps) (simp add: nth_append brace_step_def)
    qed
    from this [of 0] show ?thesis using e by simp
  qed
qed

lemma prefix_count:
  "text_prefix_loop s n i level num = (i', l') \<Longrightarrow> num \<le> n \<Longrightarrow> i \<le> length s \<Longrightarrow>
    text_length_loop (take i' s @ replicate l' (CHR ''}'')) i level num = min n (text_length_loop s i level num)"
proof (induction s n i level num rule: text_prefix_loop.induct)
  case (1 s n i level num)
  note step = 1(5) [unfolded text_prefix_loop.simps [of s n i level num] Let_def]
  let ?t = "take i' s @ replicate l' (CHR ''}'')"
  show ?case
  proof (cases "i < length s \<and> num < n")
    case True
    note ih = 1(1-4) [OF True refl refl]
    have i': "i \<le> i' \<and> i' \<le> length s" using prefix_ge [OF 1(5)] True by simp
    obtain j k where j: "skip_special s (i + 1 + 1) (level + 1) = (j, k)" by fastforce
    consider (special) "s ! i = CHR ''{''" "special_at s (i + 1) (level + 1)" | (brace) "s ! i = CHR ''{''" "\<not> special_at s (i + 1) (level + 1)"
      | (close) "s ! i = CHR ''}''" | (char) "s ! i \<noteq> CHR ''{''" "s ! i \<noteq> CHR ''}''" by blast
    then show ?thesis
    proof cases
      case special
      have r: "text_prefix_loop s n j k (num + 1) = (i', l')" using step True special j by simp
      have jb: "i + 2 \<le> j" "j \<le> length s" using skip_special_ge [OF j] special(2) by (auto simp: special_at_def)
      have jl: "j \<le> i'" using prefix_ge [OF r] jb by simp
      have same: "?t ! i = s ! i" "?t ! (i + 1) = s ! (i + 1)" "i + 1 < length ?t" using jl jb i' by (simp_all add: nth_append)
      then have sp: "special_at ?t (i + 1) (level + 1)" using special(2) by (simp add: special_at_def)
      have s: "text_length_loop s i level num = text_length_loop s j k (num + 1)"
        using True special j by (subst text_length_loop.simps) (simp add: Let_def)
      show ?thesis
      proof (cases "k = 0")
        case k: True
        have "take j ?t = take j s" using jl jb i' by (auto simp: min_def)
        then have "skip_special ?t (i + 1 + 1) (level + 1) = (j, 0)"
          using skip_agree [of s "i + 1 + 1" "level + 1" j ?t] j k jl i' by simp
        then have "text_length_loop ?t i level num = text_length_loop ?t j k (num + 1)"
          using same sp special(1) k by (subst text_length_loop.simps) (simp add: Let_def)
        then show ?thesis using ih(1) [OF special(1) refl special(2) j [symmetric] refl r] s True jb by simp
      next
        case False
        then have o: "j = length s" "skip_special (s @ replicate k (CHR ''}'')) (i + 1 + 1) (level + 1) = (length s + k, 0)"
          using skip_open [OF j] special(2) by (auto simp: special_at_def)
        then have e: "i' = length s" "l' = k" using r by (auto simp: text_prefix_loop.simps [of s n "length s"])
        have "text_length_loop ?t i level num = text_length_loop ?t (length s + k) 0 (num + 1)"
          using same sp special(1) o(2) e by (subst text_length_loop.simps) (simp add: Let_def)
        also have "\<dots> = num + 1" using e by (subst text_length_loop.simps) simp
        finally show ?thesis using s o(1) True by (simp add: text_length_loop.simps [of s "length s"])
      qed
    next
      case brace
      have r: "text_prefix_loop s n (i + 1) (level + 1) num = (i', l')" using step True brace by simp
      have il: "i + 1 \<le> i'" using prefix_ge [OF r] True by simp
      have nsp: "\<not> special_at ?t (i + 1) (level + 1)"
        using brace(2) il i' by (auto simp: special_at_def nth_append BACKSLASH_def split: if_splits)
      have "?t ! i = s ! i" "i < length ?t" using il i' by (simp_all add: nth_append)
      then have "text_length_loop ?t i level num = text_length_loop ?t (i + 1) (level + 1) num"
        using brace(1) nsp by (subst text_length_loop.simps) (simp add: Let_def)
      moreover have "text_length_loop s i level num = text_length_loop s (i + 1) (level + 1) num"
        using True brace by (subst text_length_loop.simps) (simp add: Let_def)
      ultimately show ?thesis using ih(2) [OF brace(1) refl brace(2) r] True by simp
    next
      case close
      have r: "text_prefix_loop s n (i + 1) (level - 1) num = (i', l')" using step True close by simp
      have il: "i + 1 \<le> i'" using prefix_ge [OF r] True by simp
      have "?t ! i = s ! i" "i < length ?t" using il i' by (simp_all add: nth_append)
      then have "text_length_loop ?t i level num = text_length_loop ?t (i + 1) (level - 1) num"
        using close by (subst text_length_loop.simps) (simp add: Let_def)
      moreover have "text_length_loop s i level num = text_length_loop s (i + 1) (level - 1) num"
        using True close by (subst text_length_loop.simps) (simp add: Let_def)
      ultimately show ?thesis using ih(3) [OF _ close r] close True by simp
    next
      case char
      have r: "text_prefix_loop s n (i + 1) level (num + 1) = (i', l')" using step True char by simp
      have il: "i + 1 \<le> i'" using prefix_ge [OF r] True by simp
      have "?t ! i = s ! i" "i < length ?t" using il i' by (simp_all add: nth_append)
      then have "text_length_loop ?t i level num = text_length_loop ?t (i + 1) level (num + 1)"
        using char by (subst text_length_loop.simps) (simp add: Let_def)
      moreover have "text_length_loop s i level num = text_length_loop s (i + 1) level (num + 1)"
        using True char by (subst text_length_loop.simps) (simp add: Let_def)
      ultimately show ?thesis using ih(4) [OF char r] True by simp
    qed
  next
    case False
    then have "i' = i" "l' = level" using step by auto
    then have "text_length_loop ?t i level num = num" using closing_braces [of "take i s" i level level num] 1(7) by simp
    moreover have "min n (text_length_loop s i level num) = num"
    proof (cases "i < length s")
      case True
      then show ?thesis using False 1(6) text_length_ge [of num s i level] by simp
    next
      case False
      then show ?thesis using 1(6) by (simp add: text_length_loop.simps [of s i])
    qed
    ultimately show ?thesis by simp
  qed
qed

text \<open>
  Property C25. \<open>text.prefix$\<close> gives as many text characters as it is asked for, or all there are: by the count of
  \<open>text.length$\<close>, where a special character is one text character and braces are none, the prefix of \<open>n\<close> characters
  with the closing braces it adds has the smaller of \<open>n\<close> and the length of the string.  It is a prefix of the string
  but for those braces.
\<close>
theorem text_prefix_length:
  "text_length (text_prefix s n) = min n (text_length s) \<and> (\<exists>k m. text_prefix s n = take k s @ replicate m (CHR ''}''))"
proof -
  obtain i l where p: "text_prefix_loop s n 0 0 0 = (i, l)" by fastforce
  have "text_prefix s n = take i s @ replicate l (CHR ''}'')" by (simp add: text_prefix_def p)
  then show ?thesis using prefix_count [OF p] by (auto simp: text_length_def)
qed


subsection \<open>\<open>purify$\<close>\<close>

definition pure_byte :: "u8 \<Rightarrow> bool" where
  "pure_byte c \<longleftrightarrow> lex_class c \<in> {ALPHA, NUMERIC} \<or> c = SP"

text \<open>The names of the special characters.\<close>

definition cs_names :: "(bytes \<times> cs) list" where
  "cs_names = [(''i'', Cs_I), (''j'', Cs_J), (''oe'', Cs_Oe), (''OE'', Cs_OeUpper), (''ae'', Cs_Ae), (''AE'', Cs_AeUpper), (''aa'', Cs_Aa),
     (''AA'', Cs_AaUpper), (''o'', Cs_O), (''O'', Cs_OUpper), (''l'', Cs_L), (''L'', Cs_LUpper), (''ss'', Cs_Ss)]"

lemma control_seq_names: "control_seq x = Some c \<Longrightarrow> (x, c) \<in> set cs_names"
  by (simp add: control_seq_def cs_names_def split: if_splits)

lemma cs_names_pure:
  "list_all (\<lambda>(x, c). x \<noteq> [] \<and> pure_byte (x ! 0) \<and>
     (c \<in> {Cs_Oe, Cs_OeUpper, Cs_Ae, Cs_AeUpper, Cs_Ss} \<longrightarrow> 1 < length x \<and> pure_byte (x ! 1))) cs_names"
  by code_simp

lemma control_seq_letters:
  assumes "control_seq x = Some c"
  shows "x \<noteq> []" "pure_byte (x ! 0)" "c \<in> {Cs_Oe, Cs_OeUpper, Cs_Ae, Cs_AeUpper, Cs_Ss} \<Longrightarrow> 1 < length x \<and> pure_byte (x ! 1)"
  using cs_names_pure control_seq_names [OF assms] by (auto simp: list_all_iff)

lemma purify_cs_pure: "list_all pure_byte (purify_cs s ys i)"
proof (cases "control_seq (take (i - ys) (drop ys s))")
  case (Some c)
  let ?x = "take (i - ys) (drop ys s)"
  note x = control_seq_letters [OF Some]
  have "s ! ys = ?x ! 0" using x(1) by (cases "ys < length s"; cases "ys < i") auto
  moreover have "s ! (ys + 1) = ?x ! 1" if "1 < length ?x" using that by (cases "ys < length s") (auto simp: nth_append)
  ultimately show ?thesis using x(2,3) Some by (auto simp: purify_cs_def)
qed (simp add: purify_cs_def)

lemma purify_rest_pure: "purify_rest s i level out = (j, k, t) \<Longrightarrow> list_all pure_byte out \<Longrightarrow> list_all pure_byte t"
proof (induction s i level out rule: purify_rest.induct)
  case (1 s i level out)
  show ?case
  proof (cases "i < length s \<and> 0 < level \<and> s ! i \<noteq> BACKSLASH")
    case True
    have "purify_rest s (i + 1) (brace_step (s ! i) level)
        (if s ! i \<noteq> CHR ''}'' \<and> s ! i \<noteq> CHR ''{'' \<and> lex_class (s ! i) \<in> {ALPHA, NUMERIC} then out @ [s ! i] else out) = (j, k, t)"
      using 1(2) True by (simp add: purify_rest.simps [of s i] Let_def)
    moreover have "list_all pure_byte (if s ! i \<noteq> CHR ''}'' \<and> s ! i \<noteq> CHR ''{'' \<and> lex_class (s ! i) \<in> {ALPHA, NUMERIC} then out @ [s ! i] else out)"
      using 1(3) by (cases "pure_byte (s ! i)") (auto simp: pure_byte_def [of "s ! i"])
    ultimately show ?thesis using 1(1) [OF True refl] by blast
  next
    case False
    then have "purify_rest s i level out = (i, level, out)" by (subst purify_rest.simps) (rule if_not_P)
    then show ?thesis using 1(2,3) by simp
  qed
qed

lemma purify_special_pure: "purify_special s i level out = (j, k, t) \<Longrightarrow> list_all pure_byte out \<Longrightarrow> list_all pure_byte t"
proof (induction s i level out rule: purify_special.induct)
  case (1 s i level out)
  show ?case
  proof (cases "i < length s \<and> 0 < level")
    case True
    let ?j = "run_end is_alpha s (length s) (i + 1)"
    obtain a b o' where r: "purify_rest s ?j level (out @ purify_cs s (i + 1) ?j) = (a, b, o')" by (metis prod_cases3)
    have "purify_special s a b o' = (j, k, t)" using 1(2) True r by (simp add: purify_special.simps [of s i])
    moreover have "list_all pure_byte o'" using purify_rest_pure [OF r] 1(3) purify_cs_pure by simp
    ultimately show ?thesis using 1(1) [OF True refl refl r [symmetric] refl refl] by blast
  next
    case False
    then have "purify_special s i level out = (i, level, out)" by (subst purify_special.simps) (rule if_not_P)
    then show ?thesis using 1(2,3) by simp
  qed
qed

lemma purify_loop_pure: "list_all pure_byte out \<Longrightarrow> list_all pure_byte (purify_loop s i level out)"
proof (induction s i level out rule: purify_loop.induct)
  case (1 s i level out)
  show ?case
  proof (cases "i < length s")
    case True
    obtain j k t where r: "purify_special s (i + 1) (level + 1) out = (j, k, t)" by (metis prod_cases3)
    have t: "list_all pure_byte t" using purify_special_pure [OF r] 1(7) .
    note ih = 1(1-6) [OF True refl]
    consider (blank) "lex_class (s ! i) \<in> {WHITE, SEP}" | (keep) "lex_class (s ! i) \<notin> {WHITE, SEP}" "lex_class (s ! i) \<in> {ALPHA, NUMERIC}"
      | (brace) "lex_class (s ! i) \<notin> {WHITE, SEP}" "lex_class (s ! i) \<notin> {ALPHA, NUMERIC}" "s ! i = CHR ''{''"
      | (rest) "lex_class (s ! i) \<notin> {WHITE, SEP}" "lex_class (s ! i) \<notin> {ALPHA, NUMERIC}" "s ! i \<noteq> CHR ''{''"
      by blast
    then show ?thesis
    proof cases
      case blank
      then show ?thesis using True ih(1) 1(7) by (subst purify_loop.simps) (simp add: Let_def pure_byte_def [of SP])
    next
      case keep
      then have "pure_byte (s ! i)" by (simp add: pure_byte_def)
      then show ?thesis using keep True ih(2) 1(7) by (subst purify_loop.simps) (simp add: Let_def)
    next
      case brace
      show ?thesis
      proof (cases "special_at s (i + 1) (level + 1)")
        case sp: True
        have "purify_loop s i level out = purify_loop s j k t" using brace True sp r by (subst purify_loop.simps) (simp add: Let_def)
        then show ?thesis using ih(3) [OF brace refl sp r [symmetric] refl refl t] by simp
      next
        case False
        then show ?thesis using brace True ih(4) 1(7) by (subst purify_loop.simps) (simp add: Let_def)
      qed
    next
      case rest
      then show ?thesis using True ih(5,6) 1(7) by (cases "s ! i = CHR ''}''"; subst purify_loop.simps) (simp_all add: Let_def)
    qed
  qed (use 1(7) in \<open>subst purify_loop.simps, simp\<close>)
qed

text \<open>Without special characters, which begin with a backslash, every byte is purified by itself.\<close>

definition purify_byte :: "u8 \<Rightarrow> bytes" where
  "purify_byte c = (if lex_class c \<in> {WHITE, SEP} then [SP] else if lex_class c \<in> {ALPHA, NUMERIC} then [c] else [])"

lemma purify_plain: "BACKSLASH \<notin> set s \<Longrightarrow> purify_loop s i level out = out @ concat (map purify_byte (drop i s))"
proof (induction s i level out rule: purify_loop.induct)
  case (1 s i level out)
  show ?case
  proof (cases "i < length s")
    case True
    have d: "drop i s = s ! i # drop (i + 1) s" using True by (simp add: Cons_nth_drop_Suc)
    have special: "\<not> special_at s (i + 1) l" for l
      using 1(7) by (auto simp: special_at_def in_set_conv_nth)
    note ih = 1(1-6) [OF True refl]
    consider (blank) "lex_class (s ! i) \<in> {WHITE, SEP}" | (keep) "lex_class (s ! i) \<notin> {WHITE, SEP}" "lex_class (s ! i) \<in> {ALPHA, NUMERIC}"
      | (drop) "lex_class (s ! i) \<notin> {WHITE, SEP}" "lex_class (s ! i) \<notin> {ALPHA, NUMERIC}" by blast
    then show ?thesis
    proof cases
      case blank
      then have "purify_byte (s ! i) = [SP]" by (simp add: purify_byte_def)
      then show ?thesis using True blank ih(1) 1(7) d by (subst purify_loop.simps) (simp add: Let_def)
    next
      case keep
      then have "purify_byte (s ! i) = [s ! i]" by (simp add: purify_byte_def)
      then show ?thesis using True keep ih(2) 1(7) d by (subst purify_loop.simps) (simp add: Let_def)
    next
      case drop
      then have n: "purify_byte (s ! i) = []" by (simp add: purify_byte_def)
      have "purify_loop s i level out = purify_loop s (i + 1) (if s ! i = CHR ''{'' then level + 1 else if s ! i = CHR ''}'' then level - 1 else level) out"
        using True drop special by (subst purify_loop.simps) (simp add: Let_def)
      then show ?thesis using drop special ih(4-6) 1(7) d n by (cases "s ! i = CHR ''{''"; cases "s ! i = CHR ''}''") simp_all
    qed
  next
    case False
    then show ?thesis by (subst purify_loop.simps) simp
  qed
qed

lemma purify_byte_pure: "pure_byte c \<Longrightarrow> purify_byte c = [c]"
proof -
  have "lex_class SP = WHITE" by code_simp
  then show "pure_byte c \<Longrightarrow> purify_byte c = [c]"
    by (auto simp: pure_byte_def purify_byte_def ALPHA_def NUMERIC_def WHITE_def SEP_def)
qed

lemma purify_fixed: "list_all pure_byte s \<Longrightarrow> purify s = s"
proof -
  assume p: "list_all pure_byte s"
  have "\<not> pure_byte BACKSLASH" by code_simp
  then have "BACKSLASH \<notin> set s" using p by (auto simp: list_all_iff)
  then have "purify s = concat (map purify_byte s)" by (simp add: purify_def purify_plain)
  also have "\<dots> = s" using p by (induction s) (simp_all add: purify_byte_pure)
  finally show ?thesis .
qed

text \<open>
  Property C26. \<open>purify$\<close> leaves letters, digits and blanks only.  In a string without backslashes, so without special
  characters, it keeps the letters and digits, makes a blank of every white space, tie and hyphen, and drops all else;
  and what is purified once, special characters included, is not changed by purifying it again.
\<close>
theorem purify_pure:
  assumes "BACKSLASH \<notin> set t"
  shows "list_all pure_byte (purify s) \<and> purify t = concat (map purify_byte t) \<and> purify (purify s) = purify s"
  using purify_loop_pure [of "[]" s 0 0] purify_plain [OF assms, of 0 0 "[]"] purify_fixed [of "purify s"] by (simp add: purify_def)

theorem purify_pure_witness: "purify ''On {T}eX-like: 2~up.'' = ''On TeX like 2 up''"
proof -
  have "BACKSLASH \<notin> set ''On {T}eX-like: 2~up.''" by code_simp
  then have "purify ''On {T}eX-like: 2~up.'' = concat (map purify_byte ''On {T}eX-like: 2~up.'')" using purify_pure by blast
  also have "\<dots> = ''On TeX like 2 up''" by code_simp
  finally show ?thesis .
qed

end
