(* ===== verification/BtCaseCorrect.thy ===== *)
theory BtCaseCorrect
  imports BtCase
begin

text \<open>
  \<open>change.case$\<close> changes nothing but case where it lowers, and on strings without special characters it is a map
  over the bytes outside braces.
\<close>

subsection \<open>Only case changes\<close>

lemma lower_idem [simp]: "to_ascii_lowercase (to_ascii_lowercase c) = to_ascii_lowercase c"
proof (cases "is_ascii_uppercase c")
  case True
  let ?d = "char_of ((of_char c :: nat) + 32) :: u8"
  have n: "65 \<le> (of_char c :: nat)" "of_char c \<le> (90 :: nat)"
    using True by (simp_all add: is_ascii_uppercase_def less_eq_char_def)
  have "(of_char ?d :: nat) = of_char c + 32" using n by simp
  then have "\<not> is_ascii_uppercase ?d" using n by (simp add: is_ascii_uppercase_def less_eq_char_def)
  then show ?thesis using True by (simp add: to_ascii_lowercase_def)
qed (simp add: to_ascii_lowercase_def)

lemma lower_case_idem [simp]: "lower_case (lower_case b) = lower_case b"
  by (simp add: lower_case_def)

lemma lower_case_append [simp]: "lower_case (a @ b) = lower_case a @ lower_case b"
  by (simp add: lower_case_def)

lemma on_range_lower:
  assumes "\<And>x. lower_case (f x) = lower_case x" "a \<le> c"
  shows "lower_case (on_range f a c b) = lower_case b"
proof -
  have "take a b @ take (c - a) (drop a b) @ drop c b = b"
    using assms(2) by (metis append.assoc append_take_drop_id drop_drop le_add_diff_inverse2)
  then show ?thesis using assms(1) unfolding on_range_def by (metis lower_case_append)
qed

lemma convert_lower: "conv \<noteq> Upper \<Longrightarrow> lower_case (convert conv x) = lower_case x"
  by (cases conv) (simp_all add: convert_def)

lemma convert_cs_lower: "convert_cs conv b xs i = (b', i') \<Longrightarrow> conv \<noteq> Upper \<Longrightarrow> xs \<le> i \<Longrightarrow> lower_case b' = lower_case b \<and> i' = i"
  by (auto simp: convert_cs_def on_range_lower split: option.splits if_splits)

lemma convert_loop_lower: "convert_loop conv b i level = (b', i', l') \<Longrightarrow> conv \<noteq> Upper \<Longrightarrow> lower_case b' = lower_case b"
proof (induction conv b i level rule: convert_loop.induct)
  case (1 conv b i level)
  show ?case
  proof (cases "i < length b \<and> 0 < level")
    case True
    let ?j = "run_end is_alpha b (length b) (i + 1)"
    obtain c k where c: "convert_cs conv b (i + 1) ?j = (c, k)" by fastforce
    obtain k' l where k: "skip_plain c k level = (k', l)" by fastforce
    have r: "convert_loop conv (on_range (convert conv) k k' c) k' l = (b', i', l')" using 1(2) True c k by (simp add: convert_loop.simps [of conv b i])
    have "lower_case c = lower_case b" using convert_cs_lower [OF c 1(3)] run_end_bounds(1) [of "i + 1"] by blast
    moreover have "lower_case (on_range (convert conv) k k' c) = lower_case c"
      using convert_lower [OF 1(3)] skip_plain_ge [OF k] by (intro on_range_lower) auto
    ultimately show ?thesis using 1(1) [OF True refl c [symmetric] refl refl k [symmetric] refl r 1(3)] by simp
  next
    case False
    then have "convert_loop conv b i level = (b, i, level)" by (subst convert_loop.simps) (rule if_not_P)
    then show ?thesis using 1(2) by simp
  qed
qed

lemma convert_byte_lower: "conv \<noteq> Upper \<Longrightarrow> to_ascii_lowercase (convert_byte conv st c) = to_ascii_lowercase c"
  by (cases conv) (simp_all add: convert_byte_def)

lemma change_loop_lower: "change_loop s conv b i p e = (b', e') \<Longrightarrow> conv \<noteq> Upper \<Longrightarrow> lower_case b' = lower_case b"
proof (induction s conv b i p e rule: change_loop.induct)
  case (1 s conv b i p e)
  note step = 1(6) [unfolded change_loop.simps [of s conv b i p e] Let_def]
  show ?case
  proof (cases "i < length b")
    case True
    note ih = 1(1-5) [OF True refl]
    have sp: "lower_case x = lower_case b" if "convert_special b i conv l = (x, j, m)" for x j l m
      using that 1(7) by (auto simp: convert_special_def dest: convert_loop_lower split: prod.splits)
    have up: "lower_case (b[i := convert_byte conv st (b ! i)]) = lower_case b" for st
      using 1(7) True by (simp add: lower_case_def map_update convert_byte_lower list_update_same_conv)
    show ?thesis using step True ih sp up 1(7) by (auto simp: Let_def split: if_splits prod.splits)
  qed (use step in simp)
qed

lemma change_case_lower:
  assumes "conv \<noteq> Upper"
  shows "lower_case (fst (change_case conv s e)) = lower_case s"
proof -
  obtain b d where c: "change_loop s conv s 0 False (e\<lparr>brace_level := 0\<rparr>) = (b, d)" by fastforce
  show ?thesis using change_loop_lower [OF c assms] by (simp add: change_case_def c)
qed

subsection \<open>Strings without special characters\<close>

text \<open>The conversion of the bytes outside braces, \<open>d\<close> braces deep.\<close>

fun recase :: "(u8 \<Rightarrow> u8) \<Rightarrow> nat \<Rightarrow> bytes \<Rightarrow> bytes" where
  "recase f d [] = []"
| "recase f d (c # cs) = (if d \<noteq> 0 \<or> c \<in> {CHR ''{'', CHR ''}''} then c else f c) # recase f (brace_step c d) cs"

lemma decr_level: "brace_level e = int d \<Longrightarrow> brace_level (decr_brace_level s e) = int (d - 1)"
  by (auto simp: decr_brace_level_def braces_unbalanced_def bst_mild_ex_warn_print_def for_entry_newline_def bst_ln_num_print_def
      warn_def pr_def prln_def)

lemma convert_byte_start: "conv \<noteq> Title \<Longrightarrow> convert_byte conv st c = convert_byte conv False c"
  by (cases conv) (simp_all add: convert_byte_def)

lemma change_loop_plain:
  "change_loop s conv b i p e = (b', e') \<Longrightarrow> conv \<noteq> Title \<Longrightarrow> BACKSLASH \<notin> set (drop i b) \<Longrightarrow> brace_level e = int d \<Longrightarrow> i \<le> length b \<Longrightarrow>
    b' = take i b @ recase (convert_byte conv False) d (drop i b)"
proof (induction "length b - i" arbitrary: b i p e d)
  case 0
  then show ?case by (simp add: change_loop.simps [of s conv b i])
next
  case (Suc n)
  have i: "i < length b" using Suc(2) by simp
  have d: "drop i b = b ! i # drop (i + 1) b" using i by (simp add: Cons_nth_drop_Suc)
  have bs: "BACKSLASH \<notin> set (drop (i + 1) b)" using Suc(5) d by simp
  have nsp: "b ! (i + 1) \<noteq> BACKSLASH" if "i + 4 \<le> length b"
  proof -
    have "drop (i + 1) b = b ! (i + 1) # drop (i + 1 + 1) b" using that by (simp add: Cons_nth_drop_Suc)
    then show ?thesis using bs by auto
  qed
  note step = Suc(3) [unfolded change_loop.simps [of s conv b i p e] Let_def]
  have t: "take (i + 1) b = take i b @ [b ! i]" using i by (simp add: take_Suc_conv_app_nth)
  consider (open_brace) "b ! i = CHR ''{''" | (close_brace) "b ! i = CHR ''}''" | (out) "b ! i \<notin> {CHR ''{'', CHR ''}''}" "d = 0"
    | (inside) "b ! i \<notin> {CHR ''{'', CHR ''}''}" "d \<noteq> 0" by blast
  then show ?case
  proof cases
    case open_brace
    have "change_loop s conv b (i + 1) False (e\<lparr>brace_level := brace_level e + 1\<rparr>) = (b', e')" using step i open_brace nsp by (cases "i + 4 \<le> length b") simp_all
    then have "b' = take (i + 1) b @ recase (convert_byte conv False) (d + 1) (drop (i + 1) b)" using Suc(1) [of b "i + 1"] Suc(2,4,6) bs i by simp
    then show ?thesis using open_brace t d by (simp add: brace_step_def)
  next
    case close_brace
    have "change_loop s conv b (i + 1) False (decr_brace_level s e) = (b', e')" using step i close_brace by simp
    then have "b' = take (i + 1) b @ recase (convert_byte conv False) (d - 1) (drop (i + 1) b)" using Suc(1) [of b "i + 1"] Suc(2,4) decr_level [OF Suc(6)] bs i by simp
    then show ?thesis using close_brace t d by (simp add: brace_step_def)
  next
    case out
    let ?c = "convert_byte conv False (b ! i)"
    have "change_loop s conv (b[i := ?c]) (i + 1) p e = (b', e')" using step i out Suc(4,6) convert_byte_start [OF Suc(4), of "title_start b i p"] by simp
    then have "b' = take (i + 1) (b[i := ?c]) @ recase (convert_byte conv False) d (drop (i + 1) (b[i := ?c]))"
      using Suc(1) [of "b[i := ?c]" "i + 1"] Suc(2,4,6) bs i by simp
    moreover have "take (i + 1) (b[i := ?c]) = take i b @ [?c]" using i by (simp add: take_Suc_conv_app_nth)
    ultimately show ?thesis using out d by (simp add: brace_step_def)
  next
    case inside
    have "change_loop s conv b (i + 1) p e = (b', e')" using step i inside Suc(6) by simp
    then have "b' = take (i + 1) b @ recase (convert_byte conv False) d (drop (i + 1) b)" using Suc(1) [of b "i + 1"] Suc(2,4,6) bs i by simp
    then show ?thesis using inside t d by (simp add: brace_step_def)
  qed
qed

lemma change_case_plain:
  assumes "conv \<noteq> Title" "BACKSLASH \<notin> set s"
  shows "fst (change_case conv s e) = recase (convert_byte conv False) 0 s"
proof -
  obtain b d where c: "change_loop s conv s 0 False (e\<lparr>brace_level := 0\<rparr>) = (b, d)" by fastforce
  show ?thesis using change_loop_plain [OF c assms(1)] assms(2) by (simp add: change_case_def c)
qed

text \<open>
  Property C27. Case conversion to lower case or to a title changes nothing but the case of letters, special characters
  included: what it gives has the same letters as the string it was given, in the same places.  On a string without
  backslashes, so without special characters, conversion to lower or upper case is that of every byte outside braces;
  bytes inside braces and the braces themselves stay, and an unmatched closing brace opens and closes nothing.
\<close>
theorem change_case_letters:
  assumes "conv \<noteq> Upper" "BACKSLASH \<notin> set t"
  shows "lower_case (fst (change_case conv s e)) = lower_case s \<and>
    fst (change_case Lower t e) = recase to_ascii_lowercase 0 t \<and> fst (change_case Upper t e) = recase to_ascii_uppercase 0 t"
proof -
  have "convert_byte Lower False = to_ascii_lowercase" "convert_byte Upper False = to_ascii_uppercase"
    by (simp_all add: fun_eq_iff convert_byte_def)
  then show ?thesis
    using change_case_lower [OF assms(1), of s e] change_case_plain [of Lower, OF _ assms(2)] change_case_plain [of Upper, OF _ assms(2)] by simp
qed

theorem change_case_letters_witness:
  "lower_case (fst (change_case Title ''A Title: On {TeX}'' (blank_engine 2 True))) = lower_case ''A Title: On {TeX}'' \<and>
   fst (change_case Upper ''ab{cD}e'' (blank_engine 2 True)) = ''AB{cD}E''"
proof -
  have t: "Title \<noteq> Upper" "BACKSLASH \<notin> set ''ab{cD}e''" by (simp, code_simp)
  have "recase to_ascii_uppercase 0 ''ab{cD}e'' = ''AB{cD}E''" by code_simp
  then show ?thesis using change_case_letters [OF t] by metis
qed

end
