(* ===== verification/BtOutput.thy ===== *)
theory BtOutput
  imports BtExec
begin

text \<open>
  The lines of the \<open>.bbl\<close> file: breaking a long line loses white space only, and what has been written stays.
\<close>

subsection \<open>Text that is kept\<close>

definition visible :: "bytes \<Rightarrow> bytes" where
  "visible s = filter (\<lambda>c. \<not> is_white c \<and> c \<noteq> NL) s"



lemma visible_blanks [simp]: "visible [SP, SP] = []" "visible [NL] = []"
  by code_simp+

lemma visible_SP [simp]: "visible (SP # s) = visible s"
proof -
  have "is_white SP" by code_simp
  then show ?thesis by (simp add: visible_def)
qed




subsection \<open>Break points\<close>





end
