(* ===== verification/BtParts.thy ===== *)
theory BtParts
  imports BtNames
begin

text \<open>
  The parts of a name: whatever its commas, first names, von, last name and the junior part are consecutive runs of
  tokens that take up the whole name, and the last name is never empty.
\<close>

subsection \<open>The copy of a name\<close>

text \<open>The commas stand in order, before the tokens that follow them.\<close>

definition commas_ok :: "name_copy \<Rightarrow> bool" where
  "commas_ok nc \<longleftrightarrow> num_commas nc \<le> 2 \<and> (num_commas nc = 0 \<or> comma1 nc \<le> length (n_tok (nc_names nc))) \<and>
     (num_commas nc = 2 \<longrightarrow> comma1 nc \<le> comma2 nc \<and> comma2 nc \<le> length (n_tok (nc_names nc)))"

lemma commas_blank [simp]: "commas_ok blank_copy"
  by (simp add: commas_ok_def blank_copy_def)

lemma commas_starting [simp]: "commas_ok (nc\<lparr>token_starting := b\<rparr>) = commas_ok nc"
  by (simp add: commas_ok_def)

lemma commas_comma: "commas_ok nc \<Longrightarrow> num_commas nc \<noteq> 2 \<Longrightarrow> commas_ok (copy_comma nc)"
  by (auto simp: commas_ok_def copy_comma_def Let_def)

lemma commas_sep: "commas_ok nc \<Longrightarrow> commas_ok (copy_sep c nc)"
  by (auto simp: commas_ok_def copy_sep_def Let_def)

lemma commas_token: "commas_ok nc \<Longrightarrow> commas_ok (copy_token cs nc)"
  by (auto simp: commas_ok_def copy_token_def Let_def)

lemma commas_copy: "commas_ok nc \<Longrightarrow> commas_ok (fst (copy_name list which ptr xptr nc e))"
proof (induction list which ptr xptr nc e rule: copy_name.induct)
  case (1 list which ptr xptr nc e)
  show ?case
  proof (cases "xptr < ptr")
    case True
    note ih = 1(1-7) [OF True refl]
    show ?thesis using True ih 1(8)
      by (subst copy_name.simps) (auto simp: Let_def commas_comma commas_sep commas_token split: prod.split)
  qed (use 1(8) in \<open>simp add: copy_name.simps [of list which ptr]\<close>)
qed

subsection \<open>The runs of tokens\<close>

lemma von_end_bounds: "v \<le> k \<Longrightarrow> v \<le> von_end_loop n v k \<and> von_end_loop n v k \<le> k"
proof (induction n v k rule: von_end_loop.induct)
  case (1 n v k)
  then show ?case by (subst (1 2) von_end_loop.simps) auto
qed

lemma von_start_bounds: "von_start_loop n k stop = (j, found) \<Longrightarrow> k \<le> j \<and> (found \<longrightarrow> j < stop - 1) \<and> (\<not> found \<longrightarrow> j = max k (stop - 1))"
proof (induction n k stop rule: von_start_loop.induct)
  case (1 n k stop)
  then show ?case by (subst (asm) (2) von_start_loop.simps) (auto split: if_splits)
qed

lemma join_back_bounds: "0 \<le> k \<Longrightarrow> 0 \<le> join_back n k \<and> join_back n k \<le> k"
proof (induction n k rule: join_back.induct)
  case (1 n k)
  then show ?case by (subst (1 2) join_back.simps) (auto simp: Let_def)
qed

lemma parts_without_comma:
  assumes "0 < num_tokens n"
  shows "case name_parts n 0 c1 c2 of p \<Rightarrow> first_start p = 0 \<and> 0 \<le> first_end p \<and> von_start p = first_end p \<and>
    von_start p \<le> von_stop p \<and> von_stop p < last_end p \<and> jr_end p = last_end p \<and> last_end p = num_tokens n"
proof -
  obtain k found where l: "von_start_loop n 0 (num_tokens n) = (k, found)" by fastforce
  note b = von_start_bounds [OF l]
  show ?thesis
    using b von_end_bounds [of k "num_tokens n - 1" n] join_back_bounds [of k n] assms
    by (cases found) (auto simp: name_parts_def l Let_def von_end_def)
qed

lemma parts_with_comma:
  assumes "0 < c" "0 < c1" "int c1 \<le> num_tokens n" "c = 1 \<or> c1 \<le> c2 \<and> int c2 \<le> num_tokens n"
  shows "case name_parts n c c1 c2 of p \<Rightarrow> von_start p = 0 \<and> 0 \<le> von_stop p \<and> von_stop p < last_end p \<and>
    last_end p \<le> jr_end p \<and> first_start p = jr_end p \<and> jr_end p \<le> first_end p \<and> first_end p = num_tokens n"
  using von_end_bounds [of 0 "int c1 - 1" n] assms by (auto simp: name_parts_def Let_def von_end_def)

text \<open>The tokens of the parts, as they stand in the name.\<close>

definition tokens_in_order :: "nat \<Rightarrow> parts \<Rightarrow> int list" where
  "tokens_in_order commas p =
     (let first = [first_start p..first_end p - 1]; von = [von_start p..von_stop p - 1];
          lst = [von_stop p..last_end p - 1]; jr = [last_end p..jr_end p - 1]
      in if commas = 0 then first @ von @ lst @ jr else von @ lst @ jr @ first)"

lemma upto_join: "i \<le> j \<Longrightarrow> j \<le> k \<Longrightarrow> [i..j - 1] @ [j..k - 1] = [i..k - 1]" for i j k :: int
  by (metis upto_split1 upto_empty append_Nil2 diff_add_cancel upto_split2 le_diff_eq zle_diff1_eq order_le_less append_Nil)

lemma tokens_finish [simp]: "num_tokens (finish_names n) = int (length (n_tok n))"
  by (simp add: num_tokens_def finish_names_def Let_def)

text \<open>
  Property C23. The parts of a name are its tokens: for what \<open>format.name$\<close> copies of any name that has tokens and does
  not start with a comma, the runs of first names, von, last name and junior, in the order the commas give, are all the
  tokens of the name, each once and in order, and the last name has at least one.
\<close>
theorem name_parts_partition:
  assumes "copy_name list which ptr xptr blank_copy e = (nc, e')" "n = finish_names (nc_names nc)"
    "p = name_parts n (num_commas nc) (comma1 nc) (comma2 nc)"
    "0 < num_tokens n" "num_commas nc = 0 \<or> 0 < comma1 nc"
  shows "tokens_in_order (num_commas nc) p = [0..num_tokens n - 1] \<and> von_stop p < last_end p"
proof -
  have ok: "commas_ok nc" using commas_copy [of blank_copy list which ptr xptr e] assms(1) by simp
  show ?thesis
  proof (cases "num_commas nc = 0")
    case True
    then show ?thesis
      using parts_without_comma [OF assms(4), of "comma1 nc" "comma2 nc"]
      by (simp add: tokens_in_order_def Let_def assms(3) upto_join)
  next
    case False
    then have c: "0 < num_commas nc" "num_commas nc = 1 \<or> num_commas nc = 2" using ok by (auto simp: commas_ok_def)
    have "int (comma1 nc) \<le> num_tokens n" "num_commas nc = 1 \<or> comma1 nc \<le> comma2 nc \<and> int (comma2 nc) \<le> num_tokens n"
      using ok c by (auto simp: commas_ok_def assms(2))
    then show ?thesis
      using parts_with_comma [OF c(1), of "comma1 nc" n "comma2 nc"] assms(5) False
      by (simp add: tokens_in_order_def Let_def assms(3) upto_join)
  qed
qed

definition sample_name :: name_copy where
  "sample_name = fst (copy_name ''de la Fontaine, Jr., Jean Q.'' 1 28 0 blank_copy (blank_engine 2 True))"

theorem name_parts_partition_witness:
  "tokens_in_order (num_commas sample_name) (name_parts (finish_names (nc_names sample_name)) (num_commas sample_name)
     (comma1 sample_name) (comma2 sample_name)) = [0..5]"
proof -
  obtain e' where c: "copy_name ''de la Fontaine, Jr., Jean Q.'' 1 28 0 blank_copy (blank_engine 2 True) = (sample_name, e')"
    by (metis prod.collapse sample_name_def)
  have v: "length (n_tok (nc_names sample_name)) = 6" "0 < comma1 sample_name" by code_simp+
  show ?thesis using name_parts_partition [OF c refl refl] v by simp
qed

end
