(* ===== verification/Spec2Isabelle.thy ===== *)
theory Spec2Isabelle
  imports HyphenFile HyphenXe RandomsCorrect Scaled MiOrder MiRuns MiScanCorrect MiNames TokensCorrect MacroCorrect EqtbCorrect EqtbCodesCorrect
    BtJob BtFuel BtAuxCorrect BtTextCorrect BtCaseCorrect BtOutput BtParts
begin

text \<open>
  TeXres, a TeX system in Rust (\<open>src/crates\<close>): its verified parts.

  The program.  \<open>tex-core\<close> is the engine (pdfTeX, XeTeX and LuaTeX in one), \<open>tex-bibtex\<close> and \<open>tex-makeindex\<close> are ports of
  BibTeX and makeindex, and around them stand a Lua machine, a MetaPost library, a port of Biber, a PostScript interpreter,
  a formatter and the command line.  A document is one engine run that writes \<open>.aux\<close> and \<open>.idx\<close> files; BibTeX turns the
  first into a \<open>.bbl\<close> file, makeindex the second into an \<open>.ind\<close> file, and the next engine run reads both.  Modelled are the
  two tools as a whole, and those parts of the engine that keep state of their own behind a small interface: the table of
  equivalents with its save stack, tokens and names, macro calls, hyphenation, random numbers, scaled arithmetic.

  Conventions (\<open>Prelude\<close>).  Rust's \<open>i32\<close> is an integer with \<open>wrap_i32\<close> written out, a packed word is a 32- or 64-bit word,
  bytes are characters, a struct is a record and an enum a datatype.  An index out of range, a failed \<open>expect\<close> and a loop
  that does not end are values: \<open>None\<close>, or a result of its own where the code has more outcomes.  Arithmetic wraps, as in a
  build without overflow checks.  Each definition carries the place of its source in a comment.

  \<^bold>\<open>Scaled arithmetic\<close> (\<open>tex-core/src/scaled.rs\<close>): \<open>Scaled\<close>, with bounds on rounding and the monotonicity of badness.

  \<^bold>\<open>Random numbers\<close> (\<open>tex-core/src/random.rs\<close>): \<open>Randoms\<close> has the generator and its fraction arithmetic as loops that may
  not end, \<open>RandomsCorrect\<close> shows that they end, what they round to, and the invariant of the ring.

  \<^bold>\<open>Hyphenation\<close> (\<open>tex-core/src/hyphen.rs\<close>): \<open>Hyphen\<close> is the linked trie with its two vectors.  \<open>HyphenTrie\<close> proves every
  insertion against a ghost list of keys, \<open>HyphenSpec\<close> states Liang's rule and the interface \<open>pattern_store\<close>,
  \<open>HyphenCorrect\<close> shows that the trie implements the rule, \<open>HyphenFile\<close> what the loader makes of a file, and \<open>HyphenXe\<close> the
  dictionary of XeTeX.  Chains take as much fuel as a vector has elements, so running out is a cycle, which the invariant
  excludes.

  \<^bold>\<open>Tokens and names\<close> (\<open>tex-core/src/token.rs\<close>, \<open>build.rs\<close>): \<open>Tokens\<close>, \<open>TokensCorrect\<close>; round trips of packing, of names and
  of active characters.

  \<^bold>\<open>Macro calls\<close> (\<open>tex-core/src/input.rs\<close>, \<open>eqtb.rs\<close>): \<open>MacroCall\<close> has the arguments, the replacement plan and the lazy frame;
  \<open>MacroCorrect\<close> shows that a frame delivers the body with its arguments substituted, and that the plan foretells its
  length.

  \<^bold>\<open>Table of equivalents\<close> (\<open>tex-core/src/eqtb.rs\<close>): \<open>Eqtb\<close> is the data, \<open>EqtbAssign\<close>, \<open>EqtbRegs\<close> and \<open>EqtbCodes\<close> the assignments,
  \<open>EqtbGroups\<close> opening and closing a group.  The contract is in \<open>SaveStack\<close>: a machine of cells with levels and a stack of
  saved cells implements a chain of scopes.  \<open>EqtbView\<close> sees the table as such a machine; \<open>EqtbSim\<close> proves the laws of a vector
  (\<open>dense_cells\<close>) and of a hash map (\<open>sparse_cells\<close>) once, \<open>EqtbTables\<close> interprets them on each table of the engine;
  \<open>EqtbOps\<close>, \<open>EqtbCodeOps\<close> and \<open>EqtbGroupOps\<close> give the effect of every operation, \<open>EqtbScopes\<close> and \<open>EqtbRuns\<close> what every run keeps
  (the locale \<open>grouped\<close>, interpreted on the table), and \<open>EqtbCorrect\<close> and \<open>EqtbCodesCorrect\<close> the properties.

  \<^bold>\<open>makeindex\<close> (\<open>tex-makeindex/src\<close>): \<open>MiStream\<close> (\<open>stream.rs\<close> and the transcript), \<open>MiStyle\<close> (\<open>style.rs\<close>), \<open>MiScan\<close> (\<open>scan.rs\<close>),
  \<open>MiSort\<close> (\<open>sort.rs\<close>), \<open>MiGen\<close> (\<open>gen.rs\<close>) and \<open>MiMain\<close> (\<open>lib.rs\<close>), composed in \<open>mi_run\<close>.  \<open>MiSortCorrect\<close> has the interfaces
  \<open>comparator\<close> (a comparison that returns: the sort ends, stays in range and permutes) and \<open>ordered_comparator\<close> (a total
  preorder: it sorts); \<open>MiOrder\<close> gives the comparison a rank and interprets both on it.  \<open>MiScanCorrect\<close>, \<open>MiGenCorrect\<close>,
  \<open>MiRuns\<close>, \<open>MiMainCorrect\<close> and \<open>MiNames\<close> hold the accounts of the scanner, the lines of the generator, the runs of pages,
  the end of every run and the files it may write.  The host (files, environment, C library locale) is a parameter, and
  style files that set an escape or range operator to NUL are excluded where the code then fails.

  \<^bold>\<open>BibTeX\<close> (\<open>tex-bibtex/src\<close>): \<open>BtInput\<close> (\<open>input.rs\<close>, \<open>log.rs\<close>), \<open>BtText\<close> (\<open>text.rs\<close>), \<open>BtEngine\<close> (the state of \<open>engine.rs\<close>),
  \<open>BtNames\<close>, \<open>BtStack\<close>, \<open>BtCase\<close> and \<open>BtExec\<close> (\<open>exec.rs\<close>), \<open>BtAux\<close> (\<open>auxfile.rs\<close>), \<open>BtBibScan\<close>, \<open>BtBib\<close> and \<open>BtDatabase\<close>
  (\<open>bib.rs\<close>), \<open>BtBst\<close> (\<open>bst.rs\<close>) and \<open>BtMain\<close> (the run of \<open>engine.rs\<close>).  A style may loop for ever, so \<open>execute_fn\<close>, \<open>read_bst\<close>
  and the run take a fuel; running out is an outcome of its own, and \<open>BtFuel\<close> (locale \<open>fuelled\<close>) shows that more fuel
  changes no other outcome.  Reading the aux files always ends (\<open>BtAuxCorrect\<close>): nesting is limited, and a pass uses a line.
  \<open>BtSafe\<close>, \<open>BtFormat\<close>, \<open>BtReadSafe\<close> and \<open>BtRunSafe\<close> carry the well-formedness of the function table, the cite list and the
  entries through execution (locale \<open>runner\<close>), \<open>format.name$\<close>, the database (locale \<open>quiet_reader\<close>) and the style (locale
  \<open>quiet_style\<close>); \<open>BtJob\<close> concludes that a job panics in two cases only.  \<open>BtTextCorrect\<close>, \<open>BtCaseCorrect\<close>, \<open>BtOutput\<close> and
  \<open>BtParts\<close> hold what the string functions, the output lines and the parts of a name promise.  What the file system holds
  is a parameter.

  \<^bold>\<open>Not modelled.\<close>  Of the modelled files: the dumps of a format, font names and font expansion of the table of equivalents,
  the statistics and Lua dumps of the hyphenation trie, the hash function of names, the matching of macro arguments, the
  file-system hosts, messages of a wrong command line of BibTeX, and Windows path names.  Of the engine: the scanner and
  expander, main control, boxes, paragraphs, pages and mathematics, which work on the whole engine state at once; input
  and output, diagnostics and format files; the PDF and font back ends, which are binary formats; the extensions of XeTeX and
  LuaTeX, which are glue to the Lua machine and to system libraries.  Of the rest: the Lua machine (raw pointers and a
  garbage collector), MetaPost (floating point), Biber (generated Unicode tables), the PostScript interpreter, the C
  library's locale, and the formatter, file lookup, command line and foreign interfaces, which are mostly input and
  output.
\<close>

end
